(* ===== verification/CMemory.thy ===== *)
theory CMemory
  imports Prelude
begin

text \<open>
  The byte-addressed memory of the machine. Every C object of the kernel that is reached
  through an address (page tables, the frame bitmap, heap block headers, strings, buffers)
  lives in one \<open>mem\<close>, so that aliasing and overlapping writes behave as they do on the
  hardware. A 32-bit field is read and written in little-endian order (i386).
\<close>

unbundle bit_operations_syntax

type_synonym mem = "u32 \<Rightarrow> u8"

abbreviation byte_word :: "u8 \<Rightarrow> u32" where "byte_word \<equiv> ucast"
abbreviation low_byte :: "u32 \<Rightarrow> u8" where "low_byte \<equiv> ucast"

definition load32 :: "mem \<Rightarrow> u32 \<Rightarrow> u32" where
  "load32 m a = byte_word (m a) OR push_bit 8 (byte_word (m (a + 1)))
     OR push_bit 16 (byte_word (m (a + 2))) OR push_bit 24 (byte_word (m (a + 3)))"

definition store32 :: "mem \<Rightarrow> u32 \<Rightarrow> u32 \<Rightarrow> mem" where
  "store32 m a v = m(a := low_byte v, a + 1 := low_byte (drop_bit 8 v),
     a + 2 := low_byte (drop_bit 16 v), a + 3 := low_byte (drop_bit 24 v))"

section \<open>Reads over writes\<close>

lemma bytes_of_word32:
  "byte_word (low_byte v) OR push_bit 8 (byte_word (low_byte (drop_bit 8 v)))
     OR push_bit 16 (byte_word (low_byte (drop_bit 16 v)))
     OR push_bit 24 (byte_word (low_byte (drop_bit 24 v))) = (v :: u32)"
proof (rule bit_word_eqI)
  fix n assume "n < LENGTH(32)"
  then show "bit (byte_word (low_byte v) OR push_bit 8 (byte_word (low_byte (drop_bit 8 v)))
     OR push_bit 16 (byte_word (low_byte (drop_bit 16 v)))
     OR push_bit 24 (byte_word (low_byte (drop_bit 24 v)))) n = bit v n"
    by (cases "n < 8"; cases "n < 16"; cases "n < 24") (auto simp: bit_simps dest: bit_imp_le_length)
qed

lemma load32_store32_same [simp]: "load32 (store32 m a v) a = v"
  by (simp add: load32_def store32_def bytes_of_word32)

text \<open>Four-byte cells \<open>a\<close> and \<open>b\<close> that do not overlap, neither directly nor around the end of memory.\<close>

definition apart4 :: "u32 \<Rightarrow> u32 \<Rightarrow> bool" where
  "apart4 a b \<longleftrightarrow> 4 \<le> unat (b - a) \<and> 4 \<le> unat (a - b)"

lemma apart4_offsets:
  assumes "apart4 a b" and "i < 4" and "j < 4"
  shows "a + of_nat i \<noteq> b + of_nat j"
proof
  assume eq: "a + of_nat i = b + (of_nat j :: u32)"
  then have ba: "b - a = of_nat i - of_nat j" by (simp add: algebra_simps)
  from eq have ab: "a - b = of_nat j - of_nat i" by (simp add: algebra_simps)
  show False
  proof (cases "j \<le> i")
    case True
    then have "b - a = (of_nat (i - j) :: u32)" using ba by simp
    then have "unat (b - a) = i - j" using assms by (simp add: unat_of_nat_u32)
    moreover have "4 \<le> unat (b - a)" using assms by (simp add: apart4_def)
    ultimately show False using assms(2) by linarith
  next
    case False
    then have "a - b = (of_nat (j - i) :: u32)" using ab by simp
    then have "unat (a - b) = j - i" using assms by (simp add: unat_of_nat_u32)
    moreover have "4 \<le> unat (a - b)" using assms by (simp add: apart4_def)
    ultimately show False using assms(3) by linarith
  qed
qed

lemma apart4_neq:
  assumes "apart4 a b"
  shows "a \<noteq> b" "a \<noteq> b + 1" "a \<noteq> b + 2" "a \<noteq> b + 3"
    "a + 1 \<noteq> b" "a + 1 \<noteq> b + 1" "a + 1 \<noteq> b + 2" "a + 1 \<noteq> b + 3"
    "a + 2 \<noteq> b" "a + 2 \<noteq> b + 1" "a + 2 \<noteq> b + 2" "a + 2 \<noteq> b + 3"
    "a + 3 \<noteq> b" "a + 3 \<noteq> b + 1" "a + 3 \<noteq> b + 2" "a + 3 \<noteq> b + 3"
  using apart4_offsets [OF assms, of 0 0] apart4_offsets [OF assms, of 0 1]
    apart4_offsets [OF assms, of 0 2] apart4_offsets [OF assms, of 0 3]
    apart4_offsets [OF assms, of 1 0] apart4_offsets [OF assms, of 1 1]
    apart4_offsets [OF assms, of 1 2] apart4_offsets [OF assms, of 1 3]
    apart4_offsets [OF assms, of 2 0] apart4_offsets [OF assms, of 2 1]
    apart4_offsets [OF assms, of 2 2] apart4_offsets [OF assms, of 2 3]
    apart4_offsets [OF assms, of 3 0] apart4_offsets [OF assms, of 3 1]
    apart4_offsets [OF assms, of 3 2] apart4_offsets [OF assms, of 3 3]
  by simp_all

lemma load32_store32_apart: "apart4 a b \<Longrightarrow> load32 (store32 m b v) a = load32 m a"
  by (simp add: load32_def store32_def apart4_neq)

lemma load32_cong:
  "m a = m' a \<Longrightarrow> m (a + 1) = m' (a + 1) \<Longrightarrow> m (a + 2) = m' (a + 2) \<Longrightarrow> m (a + 3) = m' (a + 3)
    \<Longrightarrow> load32 m a = load32 m' a"
  by (simp add: load32_def)

lemma load32_zero: "m a = 0 \<Longrightarrow> m (a + 1) = 0 \<Longrightarrow> m (a + 2) = 0 \<Longrightarrow> m (a + 3) = 0 \<Longrightarrow> load32 m a = 0"
  by (simp add: load32_def)

text \<open>Cells named by natural numbers: what the invariants of the allocators use.\<close>

lemma of_nat_minus_u32:
  assumes "a \<le> b" and "b - a < 4294967296" and "a \<noteq> b"
  shows "unat (of_nat b - of_nat a :: u32) = b - a"
    and "unat (of_nat a - of_nat b :: u32) = 4294967296 - (b - a)"
proof -
  have d: "(of_nat b - of_nat a :: u32) = of_nat (b - a)" using assms(1) by simp
  then show "unat (of_nat b - of_nat a :: u32) = b - a" using assms(2) by (simp only: unat_of_nat_u32)
  have "(of_nat (4294967296 - (b - a)) :: u32) = of_nat 4294967296 - of_nat (b - a)"
    using assms(2) by (intro of_nat_diff) simp
  also have "\<dots> = - of_nat (b - a)" by simp
  also have "\<dots> = of_nat a - of_nat b" using d by (metis minus_diff_eq)
  finally show "unat (of_nat a - of_nat b :: u32) = 4294967296 - (b - a)"
    using assms by (metis diff_less less_imp_le_nat nat_neq_iff unat_of_nat_u32 zero_less_diff le_neq_implies_less zero_less_numeral)
qed

lemma apart4_nat:
  assumes "a + 4 \<le> b \<or> b + 4 \<le> a" and "a + 4 \<le> 4294967296" and "b + 4 \<le> 4294967296"
  shows "apart4 (of_nat a) (of_nat b)"
  using assms(1)
proof
  assume le: "a + 4 \<le> b"
  have "unat (of_nat b - of_nat a :: u32) = b - a"
    and "unat (of_nat a - of_nat b :: u32) = 4294967296 - (b - a)"
    by (rule of_nat_minus_u32; use assms(2,3) le in linarith)+
  then show ?thesis using le assms(2,3) by (simp only: apart4_def) linarith
next
  assume le: "b + 4 \<le> a"
  have "unat (of_nat a - of_nat b :: u32) = a - b"
    and "unat (of_nat b - of_nat a :: u32) = 4294967296 - (a - b)"
    by (rule of_nat_minus_u32; use assms(2,3) le in linarith)+
  then show ?thesis using le assms(2,3) by (simp only: apart4_def) linarith
qed

lemma load32_store32_nat [mem_simps]:
  assumes "a + 4 \<le> b \<or> b + 4 \<le> a" and "a + 4 \<le> 4294967296" and "b + 4 \<le> 4294967296"
  shows "load32 (store32 m (of_nat b) v) (of_nat a) = load32 m (of_nat a)"
  using assms by (simp add: load32_store32_apart apart4_nat)

text \<open>Cells at addresses that are multiples of four are equal or do not overlap.\<close>

lemma load32_store32_aligned:
  assumes "4 dvd a" "4 dvd b" "a < 4294967296" "b < 4294967296"
  shows "load32 (store32 m (of_nat b) v) (of_nat a) = (if a = b then v else load32 m (of_nat a))"
proof (cases "a = b")
  case False
  then have "a + 4 \<le> b \<or> b + 4 \<le> a" using assms(1,2) by (auto elim!: dvdE)
  moreover have "a + 4 \<le> 4294967296" and "b + 4 \<le> 4294967296"
    using assms by (auto elim!: dvdE)
  ultimately show ?thesis using False by (simp add: load32_store32_nat)
qed simp

section \<open>Frames\<close>

text \<open>\<open>unchanged_outside m m' lo hi\<close>: memories that differ at most in the bytes from \<open>lo\<close> up to \<open>hi\<close>.\<close>

definition unchanged_outside :: "mem \<Rightarrow> mem \<Rightarrow> nat \<Rightarrow> nat \<Rightarrow> bool" where
  "unchanged_outside m m' lo hi \<longleftrightarrow> (\<forall>x. unat x < lo \<or> hi \<le> unat x \<longrightarrow> m' x = m x)"

lemma unchanged_outside_refl [simp]: "unchanged_outside m m lo hi"
  by (simp add: unchanged_outside_def)

lemma unchanged_outside_trans:
  "unchanged_outside m m1 lo hi \<Longrightarrow> unchanged_outside m1 m2 lo hi \<Longrightarrow> unchanged_outside m m2 lo hi"
  by (simp add: unchanged_outside_def)

lemma unchanged_outside_mono:
  "unchanged_outside m m' lo hi \<Longrightarrow> lo' \<le> lo \<Longrightarrow> hi \<le> hi' \<Longrightarrow> unchanged_outside m m' lo' hi'"
  by (auto simp: unchanged_outside_def)

lemma unat_of_nat_add_u32:
  "a + k < 4294967296 \<Longrightarrow> unat (of_nat a + of_nat k :: u32) = a + k"
  by (metis of_nat_add unat_of_nat_u32)

lemma store32_unchanged:
  assumes "a + 4 \<le> 4294967296"
  shows "unchanged_outside m (store32 m (of_nat a) v) a (a + 4)"
proof -
  have "unat (of_nat a :: u32) = a" "unat (of_nat a + 1 :: u32) = a + 1"
    "unat (of_nat a + 2 :: u32) = a + 2" "unat (of_nat a + 3 :: u32) = a + 3"
    using assms unat_of_nat_add_u32 [of a 0] unat_of_nat_add_u32 [of a 1]
      unat_of_nat_add_u32 [of a 2] unat_of_nat_add_u32 [of a 3] by simp_all
  then show ?thesis by (auto simp: unchanged_outside_def store32_def)
qed

lemma store32_other:
  assumes "a + 4 \<le> 4294967296" and "unat x < a \<or> a + 4 \<le> unat x"
  shows "store32 m (of_nat a) v x = m x"
  using store32_unchanged [OF assms(1)] assms(2) unfolding unchanged_outside_def by blast

lemma load32_unchanged:
  assumes "unchanged_outside m m' lo hi" and "a + 4 \<le> lo \<or> hi \<le> a" and "a + 4 \<le> 4294967296"
  shows "load32 m' (of_nat a) = load32 m (of_nat a)"
proof -
  have "unat (of_nat a :: u32) = a" "unat (of_nat a + 1 :: u32) = a + 1"
    "unat (of_nat a + 2 :: u32) = a + 2" "unat (of_nat a + 3 :: u32) = a + 3"
    using assms unat_of_nat_add_u32 [of a 0] unat_of_nat_add_u32 [of a 1]
      unat_of_nat_add_u32 [of a 2] unat_of_nat_add_u32 [of a 3] by simp_all
  then show ?thesis
    using assms(1,2) by (intro load32_cong) (auto simp: unchanged_outside_def)
qed

section \<open>Cells at natural-number addresses\<close>

definition rd :: "mem \<Rightarrow> nat \<Rightarrow> u32" where "rd m a = load32 m (of_nat a)"
definition wr :: "mem \<Rightarrow> nat \<Rightarrow> u32 \<Rightarrow> mem" where "wr m a v = store32 m (of_nat a) v"

lemma rd_fold:
  "load32 m (of_nat a) = rd m a"
  "load32 m (of_nat a + numeral k) = rd m (a + numeral k)"
  by (simp_all add: rd_def)

lemma wr_fold:
  "store32 m (of_nat a) v = wr m a v"
  "store32 m (of_nat a + numeral k) v = wr m (a + numeral k) v"
  by (simp_all add: wr_def)

lemma rd_wr_same [simp]: "rd (wr m a v) a = v"
  by (simp add: rd_def wr_def)

lemma rd_wr_other:
  "a + 4 \<le> b \<or> b + 4 \<le> a \<Longrightarrow> a + 4 \<le> 4294967296 \<Longrightarrow> b + 4 \<le> 4294967296 \<Longrightarrow> rd (wr m b v) a = rd m a"
  by (simp add: rd_def wr_def load32_store32_nat)

lemma wr_unchanged: "a + 4 \<le> 4294967296 \<Longrightarrow> unchanged_outside m (wr m a v) a (a + 4)"
  by (simp add: wr_def store32_unchanged)

lemma rd_unchanged:
  "unchanged_outside m m' lo hi \<Longrightarrow> a + 4 \<le> lo \<or> hi \<le> a \<Longrightarrow> a + 4 \<le> 4294967296 \<Longrightarrow> rd m' a = rd m a"
  by (simp add: rd_def load32_unchanged)

end
