(* ===== verification/CString.thy ===== *)
theory CString
  imports CMemory
begin

text \<open>
  The string and memory routines of the C library (\<open>src/libc/string.c\<close>) over the byte
  memory. A counted \<open>for\<close> loop is a fold (or a \<open>find\<close>, when the body returns early) over
  the indices it runs through; a loop that stops at a terminating NUL is a
  \<open>partial_function\<close>, so that running away is the value \<open>None\<close>. \<open>copied\<close> and \<open>filled\<close>
  are the reference results of the copying and filling routines, and \<open>cstr m p xs\<close> says
  that a NUL-terminated string with the characters \<open>xs\<close> starts at \<open>p\<close>.
\<close>

unbundle bit_operations_syntax

section \<open>Memory functions\<close>

definition copy_byte :: "u32 \<Rightarrow> u32 \<Rightarrow> nat \<Rightarrow> mem \<Rightarrow> mem" where
  "copy_byte d s i m = m(d + of_nat i := m (s + of_nat i))"

definition memcpy :: "mem \<Rightarrow> u32 \<Rightarrow> u32 \<Rightarrow> u32 \<Rightarrow> mem" where
  "memcpy m dest src n = fold (copy_byte dest src) [0..<unat n] m"

definition memmove :: "mem \<Rightarrow> u32 \<Rightarrow> u32 \<Rightarrow> u32 \<Rightarrow> mem" where
  "memmove m dest src n =
     (if dest < src then fold (copy_byte dest src) [0..<unat n] m
      else if src < dest then fold (copy_byte dest src) (rev [0..<unat n]) m
      else m)"

definition fill_byte :: "u32 \<Rightarrow> u8 \<Rightarrow> nat \<Rightarrow> mem \<Rightarrow> mem" where
  "fill_byte p v i m = m(p + of_nat i := v)"

definition memset :: "mem \<Rightarrow> u32 \<Rightarrow> int \<Rightarrow> u32 \<Rightarrow> mem" where
  "memset m s c n = (let value = (word_of_int c :: u8) in
     fold (fill_byte s value) [0..<unat n] m)"

definition memcmp :: "mem \<Rightarrow> u32 \<Rightarrow> u32 \<Rightarrow> u32 \<Rightarrow> int" where
  "memcmp m s1 s2 n =
     (case find (\<lambda>i. m (s1 + of_nat i) \<noteq> m (s2 + of_nat i)) [0..<unat n] of
        Some i \<Rightarrow> uint (m (s1 + of_nat i)) - uint (m (s2 + of_nat i))
      | None \<Rightarrow> 0)"

definition memchr :: "mem \<Rightarrow> u32 \<Rightarrow> int \<Rightarrow> u32 \<Rightarrow> u32" where
  "memchr m s c n =
     (case find (\<lambda>i. m (s + of_nat i) = (word_of_int c :: u8)) [0..<unat n] of
        Some i \<Rightarrow> s + of_nat i
      | None \<Rightarrow> 0)"

subsection \<open>What copying and filling do\<close>

definition copied :: "mem \<Rightarrow> u32 \<Rightarrow> u32 \<Rightarrow> nat \<Rightarrow> mem" where
  "copied m d s n = (\<lambda>x. if unat (x - d) < n then m (s + (x - d)) else m x)"

definition filled :: "mem \<Rightarrow> u32 \<Rightarrow> u8 \<Rightarrow> nat \<Rightarrow> mem" where
  "filled m p v n = (\<lambda>x. if unat (x - p) < n then v else m x)"

lemma unat_minus_eq_iff: "n < 4294967296 \<Longrightarrow> unat (x - d :: u32) = n \<longleftrightarrow> x = d + of_nat n"
  by (metis add_diff_cancel_left' diff_add_cancel add.commute u32_of_nat_unat unat_of_nat_u32)

text \<open>Copying upwards reads each source byte before it is overwritten when the source does
  not start inside the part of the destination already written.\<close>

lemma copied_source:
  assumes "unat (s - d) + n < 4294967296"
  shows "copied m d s n (s + of_nat n) = m (s + of_nat n)"
proof -
  have n: "n < 4294967296" using assms by simp
  have "(s + of_nat n) - d = (s - d) + of_nat n" by simp
  then have "unat ((s + of_nat n) - d) = unat (s - d) + n"
    using assms n by (metis unat_add_u32 unat_of_nat_u32)
  then show ?thesis by (simp add: copied_def)
qed

lemma copied_written: "i < 4294967296 \<Longrightarrow> copied m d s (Suc i) (d + of_nat i) = m (s + of_nat i)"
  by (simp add: copied_def unat_of_nat_u32)

lemma copied_step:
  assumes "unat (s - d) + n < 4294967296"
  shows "copy_byte d s n (copied m d s n) = copied m d s (Suc n)"
proof
  fix x
  have n: "n < 4294967296" using assms by simp
  show "copy_byte d s n (copied m d s n) x = copied m d s (Suc n) x"
    using copied_source [OF assms] unat_minus_eq_iff [OF n, of x d]
    by (auto simp: copy_byte_def copied_def less_Suc_eq)
qed

lemma copy_up:
  assumes "unat (s - d) + n \<le> 4294967296"
  shows "fold (copy_byte d s) [0..<n] m = copied m d s n"
  using assms
proof (induction n)
  case 0
  then show ?case by (simp add: copied_def)
next
  case (Suc n)
  then show ?case by (simp add: copied_step)
qed

lemma copy_down_part:
  assumes "unat (d - s) + n \<le> 4294967296" and "k \<le> n"
  shows "fold (copy_byte d s) (rev [k..<n]) m
    = (\<lambda>x. if k \<le> unat (x - d) \<and> unat (x - d) < n then m (s + (x - d)) else m x)"
  using assms(2)
proof (induction "n - k" arbitrary: k)
  case 0
  then have "k = n" by simp
  then show ?case by (auto simp: fun_eq_iff)
next
  case (Suc j)
  define f where "f = (\<lambda>x. if Suc k \<le> unat (x - d) \<and> unat (x - d) < n then m (s + (x - d)) else m x)"
  have kn: "k < n" using Suc.hyps by simp
  have IH: "fold (copy_byte d s) (rev [Suc k..<n]) m = f"
    unfolding f_def using Suc.hyps kn by (intro Suc.hyps(1)) simp_all
  have k: "k < 4294967296" and n: "n \<le> 4294967296" using assms kn by simp_all
  have src: "f (s + of_nat k) = m (s + of_nat k)"
  proof (cases "unat (d - s) \<le> k")
    case True
    have "unat ((s + of_nat k) - d) \<le> k"
    proof -
      have eq: "(s + of_nat k) - d = of_nat k - (d - s)" by (simp add: algebra_simps)
      have "d - s \<le> of_nat k" using True k by (simp add: word_le_nat_alt unat_of_nat_u32)
      then have "unat ((s + of_nat k) - d) = unat (of_nat k :: u32) - unat (d - s)"
        unfolding eq by (rule unat_diff_u32)
      then show ?thesis using k by (simp only: unat_of_nat_u32)
    qed
    then show ?thesis by (simp add: f_def)
  next
    case False
    define e where "e = unat (d - s)"
    have e: "k < e" "e < 4294967296" "e + n \<le> 4294967296" "d - s = of_nat e"
      using False assms(1) by (simp_all add: e_def)
    have eq: "(s + of_nat k) - d = of_nat k - of_nat e" using e(4) by (metis add_diff_eq diff_diff_eq2 add.commute)
    have "unat ((s + of_nat k) - d) = 4294967296 - (e - k)"
      unfolding eq by (rule of_nat_minus_u32(2)) (use e in linarith)+
    then have "n \<le> unat ((s + of_nat k) - d)" using e by linarith
    then show ?thesis by (simp add: f_def)
  qed
  have "rev [k..<n] = rev [Suc k..<n] @ [k]" using kn by (simp add: upt_conv_Cons)
  then have "fold (copy_byte d s) (rev [k..<n]) m = copy_byte d s k f" using IH by simp
  also have "\<dots> = (\<lambda>x. if k \<le> unat (x - d) \<and> unat (x - d) < n then m (s + (x - d)) else m x)"
  proof
    fix x
    have "x = d + of_nat k \<longleftrightarrow> unat (x - d) = k" using unat_minus_eq_iff [OF k] by auto
    then show "copy_byte d s k f x
      = (if k \<le> unat (x - d) \<and> unat (x - d) < n then m (s + (x - d)) else m x)"
      using src kn by (auto simp: copy_byte_def f_def)
  qed
  finally show ?case .
qed

lemma copy_down:
  assumes "unat (d - s) + n \<le> 4294967296"
  shows "fold (copy_byte d s) (rev [0..<n]) m = copied m d s n"
  using copy_down_part [OF assms, of 0] by (simp add: copied_def)

lemma memcpy_eq_copied:
  "unat (src - dest) + unat n \<le> 4294967296 \<Longrightarrow> memcpy m dest src n = copied m dest src (unat n)"
  by (simp add: memcpy_def copy_up)

lemma fill_up:
  assumes "n \<le> 4294967296"
  shows "fold (fill_byte p v) [0..<n] m = filled m p v n"
  using assms
proof (induction n)
  case 0
  then show ?case by (simp add: filled_def)
next
  case (Suc n)
  then have "fold (fill_byte p v) [0..<Suc n] m = (filled m p v n)(p + of_nat n := v)"
    by (simp add: fill_byte_def [of p v n])
  also have "\<dots> = filled m p v (Suc n)"
    using Suc.prems unat_minus_eq_iff [of n _ p] by (auto simp: fun_eq_iff filled_def less_Suc_eq)
  finally show ?case .
qed

lemma memset_eq_filled: "memset m s c n = filled m s (word_of_int c) (unat n)"
  by (simp add: memset_def fill_up less_imp_le [OF unat_u32_bound])

section \<open>Strings\<close>

partial_function (option) strlen_loop :: "mem \<Rightarrow> u32 \<Rightarrow> u32 \<Rightarrow> u32 option" where
  "strlen_loop m s len = (if m (s + len) = 0 then Some len else strlen_loop m s (len + 1))"

declare strlen_loop.simps [code]

definition strlen :: "mem \<Rightarrow> u32 \<Rightarrow> u32 option" where
  "strlen m s = strlen_loop m s 0"

partial_function (option) strcpy_loop :: "mem \<Rightarrow> u32 \<Rightarrow> u32 \<Rightarrow> u32 \<Rightarrow> mem option" where
  "strcpy_loop m dest src i =
     (let m' = m(dest + i := m (src + i)) in
      if m' (dest + i) = 0 then Some m' else strcpy_loop m' dest src (i + 1))"

declare strcpy_loop.simps [code]

definition strcpy :: "mem \<Rightarrow> u32 \<Rightarrow> u32 \<Rightarrow> mem option" where
  "strcpy m dest src = strcpy_loop m dest src 0"

text \<open>\<open>strncpy\<close>: the first loop stops at the bound or at the NUL, the second one pads.\<close>

fun strncpy_copy :: "mem \<Rightarrow> u32 \<Rightarrow> u32 \<Rightarrow> nat \<Rightarrow> nat \<Rightarrow> mem \<times> nat" where
  "strncpy_copy m dest src i 0 = (m, i)"
| "strncpy_copy m dest src i (Suc k) =
     (if m (src + of_nat i) = 0 then (m, i)
      else strncpy_copy (copy_byte dest src i m) dest src (Suc i) k)"

definition strncpy :: "mem \<Rightarrow> u32 \<Rightarrow> u32 \<Rightarrow> u32 \<Rightarrow> mem" where
  "strncpy m dest src n =
     (let (m', i) = strncpy_copy m dest src 0 (unat n) in fold (fill_byte dest 0) [i..<unat n] m')"

partial_function (option) strcat_loop :: "mem \<Rightarrow> u32 \<Rightarrow> u32 \<Rightarrow> mem option" where
  "strcat_loop m ptr src =
     (let c = m src; m' = m(ptr := c) in
      if c = 0 then Some m' else strcat_loop m' (ptr + 1) (src + 1))"

declare strcat_loop.simps [code]

definition strcat :: "mem \<Rightarrow> u32 \<Rightarrow> u32 \<Rightarrow> mem option" where
  "strcat m dest src = Option.bind (strlen m dest) (\<lambda>len. strcat_loop m (dest + len) src)"

partial_function (option) strcmp :: "mem \<Rightarrow> u32 \<Rightarrow> u32 \<Rightarrow> int option" where
  "strcmp m s1 s2 =
     (if m s1 \<noteq> 0 \<and> m s1 = m s2 then strcmp m (s1 + 1) (s2 + 1)
      else Some (uint (m s1) - uint (m s2)))"

declare strcmp.simps [code]

text \<open>The loop of \<open>strncat\<close> is the first loop of \<open>strncpy\<close>, aimed at the end of the destination.\<close>

definition strncat :: "mem \<Rightarrow> u32 \<Rightarrow> u32 \<Rightarrow> u32 \<Rightarrow> mem option" where
  "strncat m dest src n = Option.bind (strlen m dest) (\<lambda>dest_len.
     let (m', i) = strncpy_copy m (dest + dest_len) src 0 (unat n) in
     Some (m'(dest + dest_len + of_nat i := 0)))"

definition strncmp :: "mem \<Rightarrow> u32 \<Rightarrow> u32 \<Rightarrow> u32 \<Rightarrow> int" where
  "strncmp m s1 s2 n =
     (case find (\<lambda>i. m (s1 + of_nat i) \<noteq> m (s2 + of_nat i) \<or> m (s1 + of_nat i) = 0) [0..<unat n] of
        Some i \<Rightarrow> (if m (s1 + of_nat i) \<noteq> m (s2 + of_nat i)
                   then uint (m (s1 + of_nat i)) - uint (m (s2 + of_nat i)) else 0)
      | None \<Rightarrow> 0)"

text \<open>\<open>strchr\<close> compares the (signed) \<open>char\<close> with the \<open>int\<close> argument, \<open>strrchr\<close> converts the
  argument to \<open>char\<close> first.\<close>

partial_function (option) strchr :: "mem \<Rightarrow> u32 \<Rightarrow> int \<Rightarrow> u32 option" where
  "strchr m s c =
     (if m s \<noteq> 0 then (if sint (m s) = c then Some s else strchr m (s + 1) c)
      else Some (if c = 0 then s else 0))"

declare strchr.simps [code]

partial_function (option) strrchr_loop :: "mem \<Rightarrow> u32 \<Rightarrow> u8 \<Rightarrow> u32 \<Rightarrow> u32 option" where
  "strrchr_loop m s c found =
     (let found' = (if m s = c then s else found) in
      if m s \<noteq> 0 then strrchr_loop m (s + 1) c found' else Some found')"

declare strrchr_loop.simps [code]

definition strrchr :: "mem \<Rightarrow> u32 \<Rightarrow> int \<Rightarrow> u32 option" where
  "strrchr m s c = strrchr_loop m s (word_of_int c) 0"

partial_function (option) strstr_loop :: "mem \<Rightarrow> u32 \<Rightarrow> u32 \<Rightarrow> u32 \<Rightarrow> u32 option" where
  "strstr_loop m haystack needle needle_len =
     (if m haystack \<noteq> 0 then
        (if m haystack = m needle \<and> strncmp m haystack needle needle_len = 0 then Some haystack
         else strstr_loop m (haystack + 1) needle needle_len)
      else Some 0)"

declare strstr_loop.simps [code]

definition strstr :: "mem \<Rightarrow> u32 \<Rightarrow> u32 \<Rightarrow> u32 option" where
  "strstr m haystack needle = Option.bind (strlen m needle)
     (\<lambda>needle_len. if needle_len = 0 then Some haystack
                   else strstr_loop m haystack needle needle_len)"

subsection \<open>Strings in memory\<close>

fun cstr :: "mem \<Rightarrow> u32 \<Rightarrow> u8 list \<Rightarrow> bool" where
  "cstr m p [] \<longleftrightarrow> m p = 0"
| "cstr m p (x # xs) \<longleftrightarrow> x \<noteq> 0 \<and> m p = x \<and> cstr m (p + 1) xs"

lemma cstr_nonzero: "cstr m p xs \<Longrightarrow> 0 \<notin> set xs"
  by (induction xs arbitrary: p) auto

lemma cstr_nth: "cstr m p xs \<Longrightarrow> i < length xs \<Longrightarrow> m (p + of_nat i) = xs ! i"
proof (induction xs arbitrary: p i)
  case (Cons x xs)
  then show ?case by (cases i) (auto simp flip: add.assoc)
qed simp

lemma cstr_end: "cstr m p xs \<Longrightarrow> m (p + of_nat (length xs)) = 0"
  by (induction xs arbitrary: p) (auto simp flip: add.assoc)

lemma cstr_drop: "cstr m p xs \<Longrightarrow> i \<le> length xs \<Longrightarrow> cstr m (p + of_nat i) (drop i xs)"
proof (induction xs arbitrary: p i)
  case (Cons x xs)
  then show ?case by (cases i) (auto simp flip: add.assoc)
qed simp

lemma cstrI:
  "0 \<notin> set xs \<Longrightarrow> (\<And>i. i < length xs \<Longrightarrow> m (p + of_nat i) = xs ! i) \<Longrightarrow> m (p + of_nat (length xs)) = 0
    \<Longrightarrow> cstr m p xs"
proof (induction xs arbitrary: p)
  case (Cons x xs)
  have "cstr m (p + 1) xs"
  proof (rule Cons.IH)
    show "\<And>i. i < length xs \<Longrightarrow> m (p + 1 + of_nat i) = xs ! i"
      using Cons.prems(2) [of "Suc i" for i] by (simp add: add.assoc)
  qed (use Cons.prems in \<open>simp_all add: add.assoc\<close>)
  then show ?case using Cons.prems(1) Cons.prems(2) [of 0] by auto
qed simp

text \<open>Two NUL-terminated readings of the same address are the same string.\<close>

lemma cstr_unique: "cstr m p xs \<Longrightarrow> cstr m p ys \<Longrightarrow> xs = ys"
proof (induction xs arbitrary: p ys)
  case Nil
  then show ?case by (cases ys) auto
next
  case (Cons x xs)
  then show ?case by (cases ys) auto
qed

subsection \<open>Functional correctness\<close>

lemma strlen_loop_correct:
  "cstr m (s + len) xs \<Longrightarrow> strlen_loop m s len = Some (len + of_nat (length xs))"
proof (induction xs arbitrary: len)
  case Nil
  then show ?case by (simp add: strlen_loop.simps)
next
  case (Cons x xs)
  then have "strlen_loop m s (len + 1) = Some (len + 1 + of_nat (length xs))"
    by (intro Cons.IH) (simp add: add.assoc)
  with Cons.prems show ?case by (simp add: strlen_loop.simps [of m s len] add.assoc)
qed

lemma strlen_correct: "cstr m s xs \<Longrightarrow> strlen m s = Some (of_nat (length xs))"
  using strlen_loop_correct [of m s 0 xs] by (simp add: strlen_def)

text \<open>A NUL anywhere bounds the length.\<close>

lemma strlen_loop_upto:
  assumes "m (s + of_nat k) = 0" and "j \<le> k"
  shows "\<exists>n \<le> k. strlen_loop m s (of_nat j) = Some (of_nat n)"
  using assms(2)
proof (induction rule: inc_induct)
  case base
  show ?case using assms(1) by (intro exI [of _ k]) (simp add: strlen_loop.simps)
next
  case (step j)
  show ?case
  proof (cases "m (s + of_nat j) = 0")
    case True
    then show ?thesis using step by (intro exI [of _ j]) (simp add: strlen_loop.simps)
  next
    case False
    have "of_nat j + 1 = (of_nat (Suc j) :: u32)" by simp
    then have "strlen_loop m s (of_nat j) = strlen_loop m s (of_nat (Suc j))"
      using False by (subst strlen_loop.simps) (simp only: if_False)
    then show ?thesis using step.IH by simp
  qed
qed

lemma strlen_upto: "m (s + of_nat k) = 0 \<Longrightarrow> \<exists>n \<le> k. strlen m s = Some (of_nat n)"
  using strlen_loop_upto [of m s k 0] by (simp add: strlen_def)

lemma cstr_cells:
  assumes "\<forall>i < length w. m (a + of_nat i) = w ! i" and "m (a + of_nat (length w)) = 0" and "0 \<notin> set w"
  shows "cstr m a w"
  using assms
proof (induction w arbitrary: a)
  case (Cons x w)
  have "m (a + 1 + of_nat i) = w ! i" if "i < length w" for i
    using spec [OF Cons.prems(1), of "Suc i"] that by (simp add: add.assoc)
  then have "cstr m (a + 1) w" using Cons.prems(2,3) by (intro Cons.IH) (simp_all add: add.assoc)
  then show ?case using Cons.prems(1,3) by auto
qed simp

lemma strcpy_loop_correct:
  assumes "cstr m (s + of_nat i) ys" and "unat (s - d) + i + length ys + 1 \<le> 4294967296"
  shows "strcpy_loop (copied m d s i) d s (of_nat i) = Some (copied m d s (i + length ys + 1))"
  using assms
proof (induction ys arbitrary: i)
  case Nil
  have lt: "unat (s - d) + i < 4294967296" using Nil.prems(2) by simp
  have "(copied m d s i)(d + of_nat i := copied m d s i (s + of_nat i)) = copied m d s (Suc i)"
    using copied_step [OF lt, of m] by (simp add: copy_byte_def)
  then show ?case
    using Nil.prems(1) copied_source [OF lt, of m] copied_written [of i m d s] lt
    by (simp add: strcpy_loop.simps [of "copied m d s i"] Let_def)
next
  case (Cons y ys)
  have lt: "unat (s - d) + i < 4294967296" using Cons.prems(2) by simp
  have step: "(copied m d s i)(d + of_nat i := copied m d s i (s + of_nat i)) = copied m d s (Suc i)"
    using copied_step [OF lt, of m] by (simp add: copy_byte_def)
  have "strcpy_loop (copied m d s (Suc i)) d s (of_nat (Suc i))
    = Some (copied m d s (Suc i + length ys + 1))"
    using Cons.prems by (intro Cons.IH) (simp_all add: add.assoc add.commute [of 1])
  moreover have "m (s + of_nat i) \<noteq> 0" using Cons.prems(1) by simp
  ultimately show ?case
    using step copied_source [OF lt, of m] copied_written [of i m d s] lt
    by (simp add: strcpy_loop.simps [of "copied m d s i"] Let_def add.commute [of 1])
qed

lemma strcpy_correct:
  assumes "cstr m s xs" and "unat (s - d) + length xs + 1 \<le> 4294967296"
  shows "strcpy m d s = Some (copied m d s (length xs + 1))"
  using strcpy_loop_correct [of m s 0 xs d] assms by (simp add: strcpy_def copied_def)

subsubsection \<open>Comparison\<close>

text \<open>The reference result of a comparison: the difference of the first bytes that differ,
  the end of a string counting as 0.\<close>

fun byte_cmp :: "u8 list \<Rightarrow> u8 list \<Rightarrow> int" where
  "byte_cmp [] [] = 0"
| "byte_cmp [] (y # ys) = - uint y"
| "byte_cmp (x # xs) [] = uint x"
| "byte_cmp (x # xs) (y # ys) = (if x = y then byte_cmp xs ys else uint x - uint y)"

lemma byte_cmp_eq_0:
  "0 \<notin> set xs \<Longrightarrow> 0 \<notin> set ys \<Longrightarrow> byte_cmp xs ys = 0 \<longleftrightarrow> xs = ys"
  by (induction xs ys rule: byte_cmp.induct) (auto simp: uint_0_iff dest: unsigned_word_eqI)

lemma uint_pos: "(x :: u8) \<noteq> 0 \<Longrightarrow> 0 < uint x"
  by (metis order_le_less uint_0_iff unsigned_greater_eq)

lemma byte_cmp_less_0:
  "0 \<notin> set xs \<Longrightarrow> 0 \<notin> set ys \<Longrightarrow> byte_cmp xs ys < 0 \<longleftrightarrow> (xs, ys) \<in> lexord {(x, y). x < y}"
proof (induction xs ys rule: byte_cmp.induct)
  case (4 x xs y ys)
  then show ?case by (auto simp: word_less_def)
qed (auto simp: uint_pos not_less)

lemma strcmp_correct:
  "cstr m p xs \<Longrightarrow> cstr m q ys \<Longrightarrow> strcmp m p q = Some (byte_cmp xs ys)"
proof (induction xs ys arbitrary: p q rule: byte_cmp.induct)
  case (4 x xs y ys)
  then show ?case by (auto simp: strcmp.simps [of m p q])
qed (auto simp: strcmp.simps)

lemma find_map_option: "find P (map f xs) = map_option f (find (\<lambda>x. P (f x)) xs)"
  by (induction xs) auto

lemma find_Suc: "find P [0..<Suc n] = (if P 0 then Some 0 else map_option Suc (find (\<lambda>i. P (Suc i)) [0..<n]))"
  using find_map_option [of P Suc "[0..<n]"] by (simp add: upt_conv_Cons map_Suc_upt del: upt_Suc)

lemma strncmp_nat:
  "cstr m p xs \<Longrightarrow> cstr m q ys \<Longrightarrow>
    (case find (\<lambda>i. m (p + of_nat i) \<noteq> m (q + of_nat i) \<or> m (p + of_nat i) = 0) [0..<n] of
       Some i \<Rightarrow> (if m (p + of_nat i) \<noteq> m (q + of_nat i)
                  then uint (m (p + of_nat i)) - uint (m (q + of_nat i)) else 0)
     | None \<Rightarrow> 0) = byte_cmp (take n xs) (take n ys)"
proof (induction xs ys arbitrary: p q n rule: byte_cmp.induct)
  case (4 x xs y ys)
  show ?case
  proof (cases n)
    case (Suc k)
    show ?thesis
    proof (cases "x = y")
      case True
      with "4.prems" have "cstr m (p + 1) xs" and "cstr m (q + 1) ys" by auto
      from "4.IH" [OF True this, of k] show ?thesis
        using "4.prems" True Suc
        by (auto simp: find_Suc add.assoc split: option.splits simp del: upt_Suc)
    next
      case False
      then show ?thesis using "4.prems" Suc by (simp add: find_Suc del: upt_Suc)
    qed
  qed simp
next
  case 1
  then show ?case by (cases n) (simp_all add: find_Suc del: upt_Suc)
next
  case (2 y ys)
  then show ?case by (cases n) (auto simp add: find_Suc simp del: upt_Suc)
next
  case (3 x xs)
  then show ?case by (cases n) (auto simp add: find_Suc simp del: upt_Suc)
qed

lemma strncmp_correct:
  "cstr m p xs \<Longrightarrow> cstr m q ys \<Longrightarrow> strncmp m p q n = byte_cmp (take (unat n) xs) (take (unat n) ys)"
  using strncmp_nat [of m p xs q ys "unat n"] by (simp add: strncmp_def)

subsubsection \<open>Bounded copy and concatenation\<close>

definition padded :: "mem \<Rightarrow> u32 \<Rightarrow> u32 \<Rightarrow> nat \<Rightarrow> nat \<Rightarrow> mem" where
  "padded m d s k n = (\<lambda>x. if unat (x - d) < k then m (s + (x - d))
     else if unat (x - d) < n then 0 else m x)"

lemma strncpy_copy_correct:
  "cstr m (s + of_nat i) ys \<Longrightarrow> unat (s - d) + i + k \<le> 4294967296 \<Longrightarrow>
    strncpy_copy (copied m d s i) d s i k
      = (copied m d s (i + min k (length ys)), i + min k (length ys))"
proof (induction k arbitrary: i ys)
  case (Suc k)
  then have lt: "unat (s - d) + i < 4294967296" by simp
  show ?case
  proof (cases ys)
    case Nil
    then show ?thesis using Suc.prems copied_source [OF lt] by simp
  next
    case (Cons y zs)
    have "strncpy_copy (copied m d s (Suc i)) d s (Suc i) k
      = (copied m d s (Suc i + min k (length zs)), Suc i + min k (length zs))"
      using Suc.prems Cons by (intro Suc.IH) (simp_all add: ac_simps)
    then show ?thesis
      using Suc.prems Cons copied_source [OF lt] copied_step [OF lt] by simp
  qed
qed simp

lemma fill_from:
  assumes "k \<le> n" and "n \<le> 4294967296"
  shows "fold (fill_byte p v) [k..<n] m = (\<lambda>x. if k \<le> unat (x - p) \<and> unat (x - p) < n then v else m x)"
  using assms
proof (induction n)
  case (Suc n)
  show ?case
  proof (cases "k \<le> n")
    case True
    then have "fold (fill_byte p v) [k..<Suc n] m
      = (\<lambda>x. if k \<le> unat (x - p) \<and> unat (x - p) < n then v else m x)(p + of_nat n := v)"
      using Suc by (simp add: fill_byte_def [of p v n])
    also have "\<dots> = (\<lambda>x. if k \<le> unat (x - p) \<and> unat (x - p) < Suc n then v else m x)"
      using Suc.prems unat_minus_eq_iff [of n _ p] True unat_of_nat_u32 [of n]
      by (auto simp: fun_eq_iff less_Suc_eq)
    finally show ?thesis .
  next
    case False
    then have "k = Suc n" using Suc.prems by simp
    then show ?thesis by (auto simp: fun_eq_iff)
  qed
qed auto

lemma strncpy_correct:
  assumes "cstr m s xs" and "unat (s - d) + unat n \<le> 4294967296"
  shows "strncpy m d s n = padded m d s (min (unat n) (length xs)) (unat n)"
proof -
  have "strncpy_copy m d s 0 (unat n)
    = (copied m d s (min (unat n) (length xs)), min (unat n) (length xs))"
    using strncpy_copy_correct [of m s 0 xs d "unat n"] assms by (simp add: copied_def)
  then have "strncpy m d s n
    = fold (fill_byte d 0) [min (unat n) (length xs)..<unat n] (copied m d s (min (unat n) (length xs)))"
    by (simp add: strncpy_def)
  also have "\<dots> = padded m d s (min (unat n) (length xs)) (unat n)"
    by (subst fill_from) (auto simp: fun_eq_iff copied_def padded_def less_imp_le [OF unat_u32_bound])
  finally show ?thesis .
qed

lemma strncpy_cstr:
  assumes "cstr m s xs" and "unat (s - d) + unat n \<le> 4294967296" and "length xs < unat n"
  shows "cstr (strncpy m d s n) d xs"
proof (rule cstrI)
  show "0 \<notin> set xs" using assms(1) by (rule cstr_nonzero)
  have lt: "length xs < 4294967296" using assms(3) unat_u32_bound [of n] by linarith
  show "strncpy m d s n (d + of_nat i) = xs ! i" if "i < length xs" for i
    using that lt assms cstr_nth [OF assms(1) that] by (simp add: strncpy_correct padded_def unat_of_nat_u32)
  show "strncpy m d s n (d + of_nat (length xs)) = 0"
    using lt assms by (simp add: strncpy_correct padded_def unat_of_nat_u32)
qed

lemma strcat_loop_correct:
  assumes "cstr m (s + of_nat i) ys" and "unat (s - d) + i + length ys + 1 \<le> 4294967296"
  shows "strcat_loop (copied m d s i) (d + of_nat i) (s + of_nat i) = Some (copied m d s (i + length ys + 1))"
  using assms
proof (induction ys arbitrary: i)
  case Nil
  have lt: "unat (s - d) + i < 4294967296" using Nil.prems(2) by simp
  have "(copied m d s i)(d + of_nat i := copied m d s i (s + of_nat i)) = copied m d s (Suc i)"
    using copied_step [OF lt, of m] by (simp add: copy_byte_def)
  then show ?case
    using Nil.prems(1) copied_source [OF lt, of m]
    by (simp add: strcat_loop.simps [of "copied m d s i"] Let_def)
next
  case (Cons y ys)
  have lt: "unat (s - d) + i < 4294967296" using Cons.prems(2) by simp
  have step: "(copied m d s i)(d + of_nat i := copied m d s i (s + of_nat i)) = copied m d s (Suc i)"
    using copied_step [OF lt, of m] by (simp add: copy_byte_def)
  have "strcat_loop (copied m d s (Suc i)) (d + of_nat (Suc i)) (s + of_nat (Suc i))
    = Some (copied m d s (Suc i + length ys + 1))"
    using Cons.prems by (intro Cons.IH) (simp_all add: ac_simps)
  moreover have "m (s + of_nat i) \<noteq> 0" using Cons.prems(1) by simp
  ultimately show ?case
    using step copied_source [OF lt, of m]
    by (simp add: strcat_loop.simps [of "copied m d s i"] Let_def ac_simps)
qed

lemma strcat_correct:
  assumes "cstr m d xs" and "cstr m s ys"
    and "unat (s - (d + of_nat (length xs))) + length ys + 1 \<le> 4294967296"
  shows "strcat m d s = Some (copied m (d + of_nat (length xs)) s (length ys + 1))"
  using strcat_loop_correct [of m s 0 ys "d + of_nat (length xs)"] assms
  by (simp add: strcat_def strlen_correct copied_def)

lemma copied_before:
  "a + n \<le> 4294967296 \<Longrightarrow> 0 < n \<Longrightarrow> i < a \<Longrightarrow> copied m (d + of_nat a) s n (d + of_nat i) = m (d + of_nat i)"
proof -
  assume a: "a + n \<le> 4294967296" "0 < n" "i < a"
  have eq: "d + of_nat i - (d + of_nat a) = (of_nat i - of_nat a :: u32)" by simp
  have "unat (of_nat i - of_nat a :: u32) = 4294967296 - (a - i)"
    by (rule of_nat_minus_u32(2)) (use a in auto)
  then have "n \<le> unat (d + of_nat i - (d + of_nat a))" unfolding eq using a by linarith
  then show ?thesis by (simp add: copied_def)
qed

lemma strcat_cstr:
  assumes "cstr m d xs" and "cstr m s ys"
    and "unat (s - (d + of_nat (length xs))) + length ys + 1 \<le> 4294967296"
    and "length xs + length ys + 1 \<le> 4294967296"
  shows "\<exists>m'. strcat m d s = Some m' \<and> cstr m' d (xs @ ys)"
proof (intro exI conjI)
  let ?m = "copied m (d + of_nat (length xs)) s (length ys + 1)"
  show "strcat m d s = Some ?m" by (rule strcat_correct [OF assms(1-3)])
  have new: "?m (d + of_nat (length xs + j)) = m (s + of_nat j)" if "j \<le> length ys" for j
    using that assms(4) by (simp add: copied_def unat_of_nat_u32 add.assoc [symmetric])
  show "cstr ?m d (xs @ ys)"
  proof (rule cstrI)
    show "0 \<notin> set (xs @ ys)" using assms(1,2) cstr_nonzero by auto
    show "?m (d + of_nat (length (xs @ ys))) = 0"
      using new [of "length ys"] cstr_end [OF assms(2)] by simp
    show "?m (d + of_nat i) = (xs @ ys) ! i" if "i < length (xs @ ys)" for i
    proof (cases "i < length xs")
      case True
      then show ?thesis
        using assms(4) cstr_nth [OF assms(1) True] by (simp add: copied_before nth_append)
    next
      case False
      then show ?thesis
        using that new [of "i - length xs"] cstr_nth [OF assms(2), of "i - length xs"]
        by (simp add: nth_append)
    qed
  qed
qed

subsubsection \<open>Searching\<close>

lemma strchr_correct:
  "cstr m s xs \<Longrightarrow> c \<noteq> 0 \<Longrightarrow> strchr m s c = Some
    (case find (\<lambda>i. sint (xs ! i) = c) [0..<length xs] of Some i \<Rightarrow> s + of_nat i | None \<Rightarrow> 0)"
proof (induction xs arbitrary: s)
  case (Cons x xs)
  then have "strchr m (s + 1) c = Some
    (case find (\<lambda>i. sint (xs ! i) = c) [0..<length xs] of Some i \<Rightarrow> s + 1 + of_nat i | None \<Rightarrow> 0)"
    by simp
  then show ?case
    using Cons.prems
    by (auto simp: strchr.simps [of m s] find_Suc add.assoc split: option.splits simp del: upt_Suc)
qed (simp add: strchr.simps)

lemma strrchr_loop_correct:
  "cstr m s xs \<Longrightarrow> c \<noteq> 0 \<Longrightarrow> strrchr_loop m s c found = Some
    (case find (\<lambda>i. xs ! i = c) (rev [0..<length xs]) of Some i \<Rightarrow> s + of_nat i | None \<Rightarrow> found)"
proof (induction xs arbitrary: s found)
  case (Cons x xs)
  have rev: "rev [0..<length (x # xs)] = map Suc (rev [0..<length xs]) @ [0]"
    by (simp add: upt_conv_Cons rev_map map_Suc_upt [symmetric] del: upt_Suc map_Suc_upt)
  have app: "find P (ys @ [z]) = (case find P ys of Some i \<Rightarrow> Some i | None \<Rightarrow> if P z then Some z else None)"
    for P :: "nat \<Rightarrow> bool" and ys z by (induction ys) auto
  show ?case
    unfolding rev app find_map_option
    using Cons.prems Cons.IH [of "s + 1"]
    by (auto simp: strrchr_loop.simps [of m s] Let_def add.assoc split: option.splits)
qed (simp add: strrchr_loop.simps)

lemma strrchr_correct:
  assumes "cstr m s xs" and "(word_of_int c :: u8) \<noteq> 0"
  shows "strrchr m s c = Some (case find (\<lambda>i. xs ! i = word_of_int c) (rev [0..<length xs]) of
    Some i \<Rightarrow> s + of_nat i | None \<Rightarrow> 0)"
  using strrchr_loop_correct [OF assms] by (simp add: strrchr_def)

text \<open>\<open>occurs_at ys xs i\<close>: the pattern \<open>ys\<close> stands in \<open>xs\<close> at index \<open>i\<close>.\<close>

definition occurs_at :: "u8 list \<Rightarrow> u8 list \<Rightarrow> nat \<Rightarrow> bool" where
  "occurs_at ys xs i \<longleftrightarrow> take (length ys) (drop i xs) = ys"

lemma strstr_loop_correct:
  assumes "cstr m q ys" and "ys \<noteq> []" and "length ys < 4294967296"
  shows "cstr m p xs \<Longrightarrow> strstr_loop m p q (of_nat (length ys)) = Some
    (case find (occurs_at ys xs) [0..<length xs] of Some i \<Rightarrow> p + of_nat i | None \<Rightarrow> 0)"
proof (induction xs arbitrary: p)
  case (Cons x xs)
  have n: "unat (of_nat (length ys) :: u32) = length ys" using assms(3) by (rule unat_of_nat_u32)
  have nz: "0 \<notin> set (take (length ys) (x # xs))" "0 \<notin> set ys"
    using cstr_nonzero [OF Cons.prems] cstr_nonzero [OF assms(1)] by (auto dest: in_set_takeD)
  have cmp: "strncmp m p q (of_nat (length ys)) = 0 \<longleftrightarrow> occurs_at ys (x # xs) 0"
    unfolding strncmp_correct [OF Cons.prems assms(1)] n
    using byte_cmp_eq_0 [OF nz] by (auto simp: occurs_at_def)
  have hd: "occurs_at ys (x # xs) 0 \<Longrightarrow> m p = m q"
    using Cons.prems assms(1,2) by (cases ys) (auto simp: occurs_at_def)
  have shift: "occurs_at ys (x # xs) (Suc i) = occurs_at ys xs i" for i by (simp add: occurs_at_def)
  from Cons.prems have nxt: "cstr m (p + 1) xs" and p: "m p \<noteq> 0" by auto
  show ?case
  proof (cases "occurs_at ys (x # xs) 0")
    case True
    then show ?thesis using p cmp hd by (simp add: strstr_loop.simps [of m p] find_Suc del: upt_Suc)
  next
    case False
    then have "strstr_loop m p q (of_nat (length ys)) = strstr_loop m (p + 1) q (of_nat (length ys))"
      using p cmp by (simp add: strstr_loop.simps [of m p])
    with False Cons.IH [OF nxt] show ?thesis
      by (auto simp: find_Suc shift add.assoc split: option.splits simp del: upt_Suc)
  qed
qed (simp add: strstr_loop.simps)

lemma strstr_correct:
  assumes "cstr m p xs" and "cstr m q ys" and "ys \<noteq> []" and "length ys < 4294967296"
  shows "strstr m p q = Some
    (case find (occurs_at ys xs) [0..<length xs] of Some i \<Rightarrow> p + of_nat i | None \<Rightarrow> 0)"
  using strstr_loop_correct [OF assms(2-4,1)] assms
  by (simp add: strstr_def strlen_correct of_nat_u32_eq_0)

end
