(* ===== verification/CStringProps.thy ===== *)
theory CStringProps
  imports CString
begin

text \<open>
  What the string library promises: \<open>memmove\<close> is a copy through a temporary buffer, the
  comparisons order NUL-terminated strings lexicographically by unsigned bytes, copying and
  concatenation build the expected strings, and the searches return the first (or last) match.
\<close>

text \<open>A small memory with two strings in it, for the witnesses: "ab" at 16 and "b" at 32.\<close>

definition demo_mem :: mem where
  "demo_mem = (\<lambda>_. 0)(16 := 97, 17 := 98, 32 := 98)"

lemma demo_strings: "cstr demo_mem 16 [97, 98]" "cstr demo_mem 32 [98]" "cstr demo_mem 48 []"
  by (simp_all add: demo_mem_def)

section \<open>Moving and comparing bytes\<close>

text \<open>\<open>memmove\<close> copies \<open>n\<close> bytes as they were before the call, whether the regions overlap or not, as
  long as neither region runs past the end of the address space.\<close>

theorem memmove_correct:
  assumes "unat dest + unat n \<le> 4294967296" and "unat src + unat n \<le> 4294967296"
  shows "memmove m dest src n = copied m dest src (unat n)"
proof -
  consider "dest < src" | "src < dest" | "src = dest" by fastforce
  then show ?thesis
  proof cases
    case 1
    then have "unat (src - dest) + unat n \<le> 4294967296"
      using assms by (auto simp: unat_sub_if_size word_size word_less_nat_alt)
    then show ?thesis using 1 by (simp add: memmove_def copy_up)
  next
    case 2
    then have "unat (dest - src) + unat n \<le> 4294967296"
      using assms by (auto simp: unat_sub_if_size word_size word_less_nat_alt)
    then show ?thesis using 2 by (auto simp: memmove_def copy_down)
  next
    case 3
    then show ?thesis by (auto simp: memmove_def copied_def)
  qed
qed

lemma memmove_correct_witness: "memmove demo_mem 17 16 2 18 = 98"
  using memmove_correct [of 17 2 16 demo_mem] by (simp add: copied_def demo_mem_def)

lemma find_upt_Some:
  "find P [0..<n] = Some i \<longleftrightarrow> i < n \<and> P i \<and> (\<forall>j < i. \<not> P j)"
  by (auto simp: find_Some_iff)

lemma find_upt_None: "find P [0..<n] = None \<longleftrightarrow> (\<forall>i < n. \<not> P i)"
  by (auto simp: find_None_iff)

text \<open>\<open>memcmp\<close> is zero exactly when the two regions hold the same bytes; otherwise its sign is
  that of the first difference, bytes taken as unsigned.\<close>

theorem memcmp_correct:
  "(memcmp m p q n = 0 \<longleftrightarrow> (\<forall>i < unat n. m (p + of_nat i) = m (q + of_nat i)))
    \<and> (memcmp m p q n < 0 \<longleftrightarrow> (\<exists>i < unat n. m (p + of_nat i) < m (q + of_nat i)
         \<and> (\<forall>j < i. m (p + of_nat j) = m (q + of_nat j))))"
proof (cases "find (\<lambda>i. m (p + of_nat i) \<noteq> m (q + of_nat i)) [0..<unat n]")
  case None
  then have "memcmp m p q n = 0" by (simp add: memcmp_def)
  then show ?thesis using None unfolding find_upt_None by auto
next
  case (Some i)
  then have i: "i < unat n" "m (p + of_nat i) \<noteq> m (q + of_nat i)" "\<forall>j < i. m (p + of_nat j) = m (q + of_nat j)"
    by (auto simp: find_upt_Some)
  have "uint (m (p + of_nat i)) \<noteq> uint (m (q + of_nat i))" using i(2) by (auto dest: unsigned_word_eqI)
  moreover have "k = i" if "m (p + of_nat k) < m (q + of_nat k)" "\<forall>j < k. m (p + of_nat j) = m (q + of_nat j)" for k
    using that i(2,3) by (metis linorder_neqE_nat order_less_irrefl)
  moreover have "memcmp m p q n = uint (m (p + of_nat i)) - uint (m (q + of_nat i))"
    using Some by (simp add: memcmp_def)
  ultimately show ?thesis using i by (auto simp: word_less_def)
qed

lemma memcmp_correct_witness: "memcmp demo_mem 16 32 1 < 0 \<and> memcmp demo_mem 17 32 1 = 0"
  using memcmp_correct [of demo_mem 16 32 1] memcmp_correct [of demo_mem 17 32 1] by (simp add: demo_mem_def)

text \<open>\<open>strcmp\<close> of two terminated strings returns, and its result is zero exactly for equal strings and
  negative exactly when the first one comes first in the lexicographic order of unsigned bytes.\<close>

theorem strcmp_orders:
  assumes "cstr m p xs" and "cstr m q ys"
  shows "\<exists>r. strcmp m p q = Some r \<and> (r = 0 \<longleftrightarrow> xs = ys) \<and> (r < 0 \<longleftrightarrow> (xs, ys) \<in> lexord {(x, y). x < y})"
  using strcmp_correct [OF assms] byte_cmp_eq_0 byte_cmp_less_0 cstr_nonzero [OF assms(1)] cstr_nonzero [OF assms(2)]
  by auto

lemma strcmp_orders_witness: "\<exists>r. strcmp demo_mem 16 32 = Some r \<and> r < 0"
  using strcmp_orders [OF demo_strings(1,2)] by auto

section \<open>Building strings\<close>

text \<open>\<open>strncpy\<close> with room for the terminator leaves a copy of the source string at the destination,
  and it writes nothing but the \<open>n\<close> destination bytes.\<close>

theorem strncpy_copies:
  assumes "cstr m s xs" and "unat (s - d) + unat n \<le> 4294967296" and "length xs < unat n"
  shows "cstr (strncpy m d s n) d xs \<and> (\<forall>x. unat n \<le> unat (x - d) \<longrightarrow> strncpy m d s n x = m x)"
  using strncpy_cstr [OF assms] strncpy_correct [OF assms(1,2)] by (auto simp: padded_def)

lemma strncpy_copies_witness: "cstr (strncpy demo_mem 8 16 4) 8 [97, 98]"
  using strncpy_copies [OF demo_strings(1), of 8 4] by simp

text \<open>\<open>strcat\<close> returns and leaves the concatenation of both strings at the destination when the
  source does not start inside the part it writes.\<close>

theorem strcat_appends:
  assumes "cstr m d xs" and "cstr m s ys"
    and "unat (s - (d + of_nat (length xs))) + length ys + 1 \<le> 4294967296"
    and "length xs + length ys + 1 \<le> 4294967296"
  shows "\<exists>m'. strcat m d s = Some m' \<and> cstr m' d (xs @ ys)"
  using assms by (rule strcat_cstr)

lemma strcat_appends_witness: "\<exists>m'. strcat demo_mem 16 32 = Some m' \<and> cstr m' 16 [97, 98, 98]"
  using strcat_appends [OF demo_strings(1,2)] by simp

section \<open>Searching\<close>

text \<open>\<open>strstr\<close> returns the address of the first occurrence of a non-empty pattern in the text, and the
  null pointer when there is none.\<close>

theorem strstr_finds_first:
  assumes "cstr m p xs" and "cstr m q ys" and "ys \<noteq> []" and "length ys < 4294967296"
  shows "\<exists>r. strstr m p q = Some r
    \<and> (if \<exists>i < length xs. occurs_at ys xs i
       then \<exists>i < length xs. r = p + of_nat i \<and> occurs_at ys xs i \<and> (\<forall>j < i. \<not> occurs_at ys xs j) else r = 0)"
proof (cases "find (occurs_at ys xs) [0..<length xs]")
  case None
  then have "strstr m p q = Some 0" using strstr_correct [OF assms] by simp
  then show ?thesis using None unfolding find_upt_None by auto
next
  case (Some i)
  then have "strstr m p q = Some (p + of_nat i)" using strstr_correct [OF assms] by simp
  then show ?thesis using Some unfolding find_upt_Some by auto
qed

lemma strstr_finds_first_witness: "strstr demo_mem 16 32 = Some 17"
proof -
  have o: "occurs_at [98] [97, 98] i \<longleftrightarrow> i = 1" if "i < 2" for i
    using that by (cases i) (auto simp: occurs_at_def)
  then have "\<exists>i < 2. occurs_at [98] [97, 98] i" by (intro exI [of _ 1]) simp
  then show ?thesis using strstr_finds_first [OF demo_strings(1,2)] o by (auto simp: numeral_2_eq_2)
qed

end
