(* ===== verification/MemUtils.thy ===== *)
theory MemUtils
  imports CString
begin

text \<open>
  Address alignment and page operations (\<open>kernel/memory_utils.c\<close>). Sizes and addresses are
  32-bit and wrap around as the code's do.
\<close>

definition PAGE_SIZE :: u32 where "PAGE_SIZE = 4096"

definition memory_align_up :: "u32 \<Rightarrow> u32 \<Rightarrow> u32" where
  "memory_align_up addr alignment =
     (if alignment = 0 then addr
      else let remainder = addr mod alignment in
        if remainder = 0 then addr else addr + (alignment - remainder))"

definition memory_align_down :: "u32 \<Rightarrow> u32 \<Rightarrow> u32" where
  "memory_align_down addr alignment =
     (if alignment = 0 then addr else addr - (addr mod alignment))"

definition memory_copy_page :: "mem \<Rightarrow> u32 \<Rightarrow> u32 \<Rightarrow> mem" where
  "memory_copy_page m dest src =
     memcpy m (memory_align_down dest PAGE_SIZE) (memory_align_down src PAGE_SIZE) PAGE_SIZE"

definition memory_zero_page :: "mem \<Rightarrow> u32 \<Rightarrow> mem" where
  "memory_zero_page m addr = memset m (memory_align_down addr PAGE_SIZE) 0 PAGE_SIZE"

section \<open>Alignment\<close>

lemma unat_align_down: "n \<noteq> 0 \<Longrightarrow> unat (memory_align_down a n) = unat a - unat a mod unat n"
proof -
  assume "n \<noteq> 0"
  have "a mod n \<le> a" by (simp add: word_le_nat_alt unat_mod)
  then have "unat (a - a mod n) = unat a - unat (a mod n)" by (rule unat_diff_u32)
  with \<open>n \<noteq> 0\<close> show ?thesis by (simp add: memory_align_down_def unat_mod)
qed

lemma align_down_dvd: "n \<noteq> 0 \<Longrightarrow> unat n dvd unat (memory_align_down a n)"
  by (simp add: unat_align_down dvd_minus_mod)

lemma unat_align_up:
  assumes "0 < n" and "unat a + unat n \<le> 4294967296"
  shows "unat (memory_align_up a n) = (unat a + unat n - 1) div unat n * unat n"
proof -
  define k r where "k = unat a div unat n" and "r = unat a mod unat n"
  have n: "0 < unat n" using assms(1) by (simp add: unat_gt_0)
  have a: "unat a = k * unat n + r" by (simp add: k_def r_def)
  have r: "r < unat n" using n by (simp add: r_def)
  have n0: "n \<noteq> 0" using assms(1) by auto
  have rem: "unat (a mod n) = r" by (simp add: r_def unat_mod)
  show ?thesis
  proof (cases "r = 0")
    case True
    then have "(unat a + unat n - 1) div unat n = k"
      using a n True by (intro div_nat_eqI) (auto simp: mult.commute)
    moreover have "memory_align_up a n = a"
      using True rem n0 by (simp add: memory_align_up_def Let_def unat_eq_zero)
    ultimately show ?thesis using a True by simp
  next
    case False
    have "(unat a + unat n - 1) div unat n = Suc k"
      using a r False by (intro div_nat_eqI) (auto simp: mult.commute)
    moreover have up: "memory_align_up a n = a + (n - a mod n)"
    proof -
      have "a mod n \<noteq> 0" using False rem by (metis unat_0)
      then show ?thesis using n0 by (simp add: memory_align_up_def Let_def)
    qed
    moreover have m: "unat (n - a mod n) = unat n - r"
      using r by (subst unat_diff_u32) (simp_all add: r_def unat_mod word_le_nat_alt)
    moreover have "unat (a + (n - a mod n)) = unat a + (unat n - r)"
      using m False r assms(2) by (subst unat_add_u32) simp_all
    ultimately show ?thesis using a r by simp
  qed
qed

lemma align_up_8_bounds:
  assumes "unat a \<le> 4294967288"
  shows "unat a \<le> unat (memory_align_up a 8)" and "unat (memory_align_up a 8) < unat a + 8"
    and "8 dvd unat (memory_align_up a 8)"
proof -
  have eq: "unat (memory_align_up a 8) = (unat a + 7) div 8 * 8"
    using unat_align_up [of 8 a] assms by simp
  show "unat a \<le> unat (memory_align_up a 8)" "unat (memory_align_up a 8) < unat a + 8"
    "8 dvd unat (memory_align_up a 8)"
    unfolding eq by (presburger, presburger, simp)
qed

section \<open>Pages\<close>

lemma memory_zero_page_eq: "memory_zero_page m a = filled m (memory_align_down a 4096) 0 4096"
  by (simp add: memory_zero_page_def memset_eq_filled PAGE_SIZE_def)

lemma page_gap:
  assumes "4096 dvd unat (p :: u32)" and "4096 dvd unat q"
  shows "unat (q - p) + 4096 \<le> 4294967296"
proof -
  have "4096 dvd unat (q - p)"
  proof (cases "p \<le> q")
    case True
    then show ?thesis using assms by (simp add: unat_diff_u32)
  next
    case False
    then have lt: "unat q < unat p" by (simp add: word_less_nat_alt not_le)
    have "unat (q - p) = 4294967296 - (unat p - unat q)"
      using of_nat_minus_u32(2) [of "unat q" "unat p"] lt order.strict_trans1 [OF diff_le_self unat_u32_bound [of p]]
      by simp
    moreover have "(4096::nat) dvd 4294967296 - (unat p - unat q)"
      using assms by (intro dvd_diff_nat) simp_all
    ultimately show ?thesis by simp
  qed
  then obtain k where "unat (q - p) = 4096 * k" by (elim dvdE)
  then show ?thesis using unat_u32_bound [of "q - p"] by simp
qed

lemma memory_copy_page_eq:
  "memory_copy_page m dest src = copied m (memory_align_down dest 4096) (memory_align_down src 4096) 4096"
proof -
  have "4096 dvd unat (memory_align_down x 4096)" for x using align_down_dvd [of 4096 x] by simp
  then have "unat (memory_align_down src 4096 - memory_align_down dest 4096) + 4096 \<le> 4294967296"
    by (intro page_gap)
  then show ?thesis by (simp add: memory_copy_page_def PAGE_SIZE_def memcpy_eq_copied)
qed

end
