(* ===== verification/Pmm.thy ===== *)
theory Pmm
  imports MemUtils
begin

text \<open>
  The physical memory manager (\<open>kernel/pmm.c\<close>): a bitmap of page frames, one bit per
  4 KB frame of the 30 MB above 2 MB, stored at the start of that memory. The state is a
  record that extends the machine memory with the fields of \<open>physical_memory_manager_t\<close>;
  the bitmap itself is in the memory. \<open>used_set\<close> is the abstraction: the set of frame
  indices whose bit is set. The \<open>frame_allocator\<close> locale is the interface that the
  virtual memory manager and the process manager rely on.
\<close>

unbundle bit_operations_syntax

record machine =
  mem :: mem

record pmm = machine +
  bitmap :: u32
  bitmap_size :: u32
  total_frames :: u32
  free_frames :: u32
  first_free_frame :: u32

definition MEMORY_START :: u32 where "MEMORY_START = 0x200000"
definition MEMORY_SIZE :: u32 where "MEMORY_SIZE = 0x1E00000"

section \<open>Operations\<close>

definition bitmap_word :: "'a pmm_scheme \<Rightarrow> u32 \<Rightarrow> u32" where
  "bitmap_word st i = load32 (mem st) (bitmap st + 4 * (i div 32))"

definition frame_bit :: "u32 \<Rightarrow> u32" where
  "frame_bit i = push_bit (unat (i mod 32)) 1"

definition frame_used :: "'a pmm_scheme \<Rightarrow> u32 \<Rightarrow> bool" where
  "frame_used st i \<longleftrightarrow> bitmap_word st i AND frame_bit i \<noteq> 0"

definition set_frame :: "'a pmm_scheme \<Rightarrow> u32 \<Rightarrow> 'a pmm_scheme" where
  "set_frame st i =
     st\<lparr>mem := store32 (mem st) (bitmap st + 4 * (i div 32)) (bitmap_word st i OR frame_bit i)\<rparr>"

definition clear_frame :: "'a pmm_scheme \<Rightarrow> u32 \<Rightarrow> 'a pmm_scheme" where
  "clear_frame st i =
     st\<lparr>mem := store32 (mem st) (bitmap st + 4 * (i div 32)) (bitmap_word st i AND NOT (frame_bit i))\<rparr>"

definition pmm_mark_frame_used :: "u32 \<Rightarrow> 'a pmm_scheme \<Rightarrow> 'a pmm_scheme" where
  "pmm_mark_frame_used frame_index st =
     (if total_frames st \<le> frame_index then st
      else if \<not> frame_used st frame_index
        then (set_frame st frame_index)\<lparr>free_frames := free_frames st - 1\<rparr>
        else st)"

definition pmm_init :: "'a pmm_scheme \<Rightarrow> 'a pmm_scheme" where
  "pmm_init st =
     (let total = MEMORY_SIZE div PAGE_SIZE;
          size = (total + 31) div 32;
          st1 = st\<lparr>total_frames := total, free_frames := total, first_free_frame := 0,
                   bitmap_size := size, bitmap := MEMORY_START\<rparr>;
          st2 = st1\<lparr>mem := memset (mem st1) (bitmap st1) 0 (bitmap_size st1 * 4)\<rparr>;
          bitmap_frames = (bitmap_size st2 * 4 + PAGE_SIZE - 1) div PAGE_SIZE
      in fold (\<lambda>i. pmm_mark_frame_used (of_nat i)) [0..<unat bitmap_frames] st2)"

text \<open>The search loops of \<open>pmm_alloc_frame\<close>: the first index from \<open>i\<close> up to \<open>n\<close> whose bit is clear.\<close>

function scan_free :: "'a pmm_scheme \<Rightarrow> u32 \<Rightarrow> u32 \<Rightarrow> u32 option" where
  "scan_free st i n =
     (if i < n then (if \<not> frame_used st i then Some i else scan_free st (i + 1) n) else None)"
  by pat_completeness auto
termination
  by (relation "measure (\<lambda>(st, i, n). unat n - unat i)")
     (auto simp: unat_Suc_u32 word_less_nat_alt intro: diff_less_mono2)

declare scan_free.simps [simp del]

definition pmm_alloc_frame :: "'a pmm_scheme \<Rightarrow> u32 \<times> 'a pmm_scheme" where
  "pmm_alloc_frame st =
     (if free_frames st = 0 then (0, st)
      else case scan_free st (first_free_frame st) (total_frames st) of
        Some i \<Rightarrow>
          (let st' = (set_frame st i)\<lparr>free_frames := free_frames st - 1\<rparr>;
               st'' = (if i = first_free_frame st
                       then st'\<lparr>first_free_frame := first_free_frame st + 1\<rparr> else st')
           in (MEMORY_START + i * PAGE_SIZE, st''))
      | None \<Rightarrow>
          (case scan_free st 0 (first_free_frame st) of
             Some i \<Rightarrow> (MEMORY_START + i * PAGE_SIZE,
                        (set_frame st i)\<lparr>free_frames := free_frames st - 1\<rparr>)
           | None \<Rightarrow> (0, st)))"

definition pmm_free_frame :: "u32 \<Rightarrow> 'a pmm_scheme \<Rightarrow> 'a pmm_scheme" where
  "pmm_free_frame frame_addr st =
     (if frame_addr < MEMORY_START then st
      else let frame_index = (frame_addr - MEMORY_START) div PAGE_SIZE in
        if total_frames st \<le> frame_index then st
        else if frame_used st frame_index
          then let st' = (clear_frame st frame_index)\<lparr>free_frames := free_frames st + 1\<rparr> in
            (if frame_index < first_free_frame st' then st'\<lparr>first_free_frame := frame_index\<rparr> else st')
          else st)"

definition pmm_get_free_frames :: "'a pmm_scheme \<Rightarrow> u32" where
  "pmm_get_free_frames st = free_frames st"

section \<open>The bitmap as a set of frames\<close>

definition geometry :: "'a pmm_scheme \<Rightarrow> bool" where
  "geometry st \<longleftrightarrow> bitmap st = MEMORY_START \<and> total_frames st = 7680"

definition all_frames :: "nat set" where
  "all_frames = {i. i < 7680}"

definition used_set :: "'a pmm_scheme \<Rightarrow> nat set" where
  "used_set st = {i. i < 7680 \<and> frame_used st (of_nat i)}"

lemma cell_address: "4 * (i div 32) = (of_nat (4 * (unat i div 32)) :: u32)"
proof -
  have "unat (i div 32) = unat i div 32" by (simp add: unat_div)
  then have "of_nat (unat i div 32) = i div 32" by (metis u32_of_nat_unat)
  then show ?thesis by simp
qed

lemma bitmap_cell:
  "bitmap st = MEMORY_START \<Longrightarrow> bitmap st + 4 * (i div 32) = of_nat (2097152 + 4 * (unat i div 32))"
  by (simp add: cell_address MEMORY_START_def)

lemma frame_used_bit: "frame_used st i \<longleftrightarrow> bit (bitmap_word st i) (unat i mod 32)"
  by (simp add: frame_used_def frame_bit_def push_bit_eq_mult and_exp_eq_0_iff_not_bit unat_mod)

lemma bit_frame_bit: "k < 32 \<Longrightarrow> bit (frame_bit i) k \<longleftrightarrow> k = unat i mod 32"
  by (auto simp: frame_bit_def push_bit_eq_mult bit_exp_iff unat_mod)

lemma bitmap_word_update:
  assumes "bitmap st = MEMORY_START" and "unat i < 7680" and "unat j < 7680"
  shows "bitmap_word (st\<lparr>mem := store32 (mem st) (bitmap st + 4 * (i div 32)) v\<rparr>) j
    = (if unat j div 32 = unat i div 32 then v else bitmap_word st j)"
proof -
  have "load32 (store32 (mem st) (of_nat (2097152 + 4 * (unat i div 32))) v)
      (of_nat (2097152 + 4 * (unat j div 32)))
    = (if 2097152 + 4 * (unat j div 32) = 2097152 + 4 * (unat i div 32) then v
       else load32 (mem st) (of_nat (2097152 + 4 * (unat j div 32))))"
    by (rule load32_store32_aligned) (use assms in auto)
  then show ?thesis
    using bitmap_cell [OF assms(1), of i] bitmap_cell [OF assms(1), of j]
    by (simp add: bitmap_word_def del: of_nat_add of_nat_mult)
qed

lemma frame_used_set:
  assumes "bitmap st = MEMORY_START" and "unat i < 7680" and "unat j < 7680"
  shows "frame_used (set_frame st i) j \<longleftrightarrow> j = i \<or> frame_used st j"
proof -
  have "j = i \<longleftrightarrow> unat j div 32 = unat i div 32 \<and> unat j mod 32 = unat i mod 32"
    by (metis div_mult_mod_eq word_unat_eq_iff)
  moreover have "unat j div 32 = unat i div 32 \<Longrightarrow> bitmap_word st j = bitmap_word st i"
    using bitmap_cell [OF assms(1), of i] bitmap_cell [OF assms(1), of j]
    by (simp add: bitmap_word_def)
  ultimately show ?thesis
    using bitmap_word_update [OF assms, of "bitmap_word st i OR frame_bit i"]
    by (auto simp: frame_used_bit set_frame_def bit_or_iff bit_frame_bit)
qed

lemma frame_used_clear:
  assumes "bitmap st = MEMORY_START" and "unat i < 7680" and "unat j < 7680"
  shows "frame_used (clear_frame st i) j \<longleftrightarrow> j \<noteq> i \<and> frame_used st j"
proof -
  have "j = i \<longleftrightarrow> unat j div 32 = unat i div 32 \<and> unat j mod 32 = unat i mod 32"
    by (metis div_mult_mod_eq word_unat_eq_iff)
  moreover have "unat j div 32 = unat i div 32 \<Longrightarrow> bitmap_word st j = bitmap_word st i"
    using bitmap_cell [OF assms(1), of i] bitmap_cell [OF assms(1), of j]
    by (simp add: bitmap_word_def)
  ultimately show ?thesis
    using bitmap_word_update [OF assms, of "bitmap_word st i AND NOT (frame_bit i)"]
    by (auto simp: frame_used_bit clear_frame_def bit_and_iff bit_not_iff bit_frame_bit)
qed

lemma used_set_set_frame:
  "geometry st \<Longrightarrow> unat i < 7680 \<Longrightarrow> used_set (set_frame st i) = insert (unat i) (used_set st)"
  by (auto simp: used_set_def geometry_def frame_used_set unat_of_nat_u32)

lemma used_set_clear_frame:
  "geometry st \<Longrightarrow> unat i < 7680 \<Longrightarrow> used_set (clear_frame st i) = used_set st - {unat i}"
  by (auto simp: used_set_def geometry_def frame_used_clear unat_of_nat_u32)

lemma in_used_set: "unat i < 7680 \<Longrightarrow> unat i \<in> used_set st \<longleftrightarrow> frame_used st i"
  by (simp add: used_set_def)

lemma used_set_bound: "i \<in> used_set st \<Longrightarrow> i < 7680"
  by (simp add: used_set_def)

lemma finite_used_set [simp]: "finite (used_set st)"
  by (simp add: used_set_def)

lemma used_set_fields [simp]:
  "used_set (st\<lparr>free_frames := x\<rparr>) = used_set st"
  "used_set (st\<lparr>first_free_frame := y\<rparr>) = used_set st"
  by (simp_all add: used_set_def frame_used_def bitmap_word_def)

lemma geometry_fields [simp]:
  "geometry (st\<lparr>free_frames := x\<rparr>) = geometry st"
  "geometry (st\<lparr>first_free_frame := y\<rparr>) = geometry st"
  "geometry (set_frame st i) = geometry st"
  "geometry (clear_frame st i) = geometry st"
  by (simp_all add: geometry_def set_frame_def clear_frame_def)

lemma set_frame_fields [simp]:
  "free_frames (set_frame st i) = free_frames st"
  "first_free_frame (set_frame st i) = first_free_frame st"
  "total_frames (set_frame st i) = total_frames st"
  "bitmap (set_frame st i) = bitmap st"
  by (simp_all add: set_frame_def)

lemma clear_frame_fields [simp]:
  "free_frames (clear_frame st i) = free_frames st"
  "first_free_frame (clear_frame st i) = first_free_frame st"
  "total_frames (clear_frame st i) = total_frames st"
  "bitmap (clear_frame st i) = bitmap st"
  by (simp_all add: clear_frame_def)

section \<open>The invariant\<close>

text \<open>
  The counter agrees with the bitmap and the hint has no free frame below it, whatever is called; frame 0,
  which holds the bitmap, is in use as long as nobody frees it.
\<close>

definition pmm_counts :: "'a pmm_scheme \<Rightarrow> bool" where
  "pmm_counts st \<longleftrightarrow> geometry st \<and> unat (free_frames st) + card (used_set st) = 7680
     \<and> unat (first_free_frame st) \<le> 7680 \<and> {..<unat (first_free_frame st)} \<subseteq> used_set st"

definition pmm_inv :: "'a pmm_scheme \<Rightarrow> bool" where
  "pmm_inv st \<longleftrightarrow> geometry st \<and> unat (free_frames st) + card (used_set st) = 7680
     \<and> unat (first_free_frame st) \<le> 7680 \<and> {..<unat (first_free_frame st)} \<subseteq> used_set st
     \<and> 0 \<in> used_set st"

lemma pmm_inv_counts: "pmm_inv st \<longleftrightarrow> pmm_counts st \<and> 0 \<in> used_set st"
  by (auto simp: pmm_inv_def pmm_counts_def)

lemma scan_free_Some:
  "scan_free st i n = Some j \<Longrightarrow> i \<le> j \<and> j < n \<and> \<not> frame_used st j \<and> (\<forall>k. i \<le> k \<and> k < j \<longrightarrow> frame_used st k)"
proof (induction st i n rule: scan_free.induct)
  case (1 st i n)
  show ?case
  proof (cases "i < n \<and> frame_used st i")
    case True
    with "1.prems" have "scan_free st (i + 1) n = Some j" by (simp add: scan_free.simps [of st i n])
    with "1.IH" True have IH: "i + 1 \<le> j" "j < n" "\<not> frame_used st j"
      "\<forall>k. i + 1 \<le> k \<and> k < j \<longrightarrow> frame_used st k" by auto
    have "unat (i + 1) = Suc (unat i)" using True unat_Suc_u32 [of i n] by simp
    then have nxt: "i < k \<longleftrightarrow> i + 1 \<le> k" for k by (simp add: word_less_nat_alt word_le_nat_alt Suc_le_eq)
    have "i < j" using IH(1) nxt by blast
    moreover have "frame_used st k" if "i \<le> k" "k < j" for k
      using that IH(4) True nxt [of k] by (cases "k = i") auto
    ultimately show ?thesis using IH(2,3) by auto
  next
    case False
    with "1.prems" show ?thesis by (auto simp: scan_free.simps [of st i n] split: if_splits)
  qed
qed

lemma scan_free_None:
  "scan_free st i n = None \<Longrightarrow> i \<le> k \<Longrightarrow> k < n \<Longrightarrow> frame_used st k"
proof (induction st i n rule: scan_free.induct)
  case (1 st i n)
  then have i: "i < n" "frame_used st i" and "scan_free st (i + 1) n = None"
    by (auto simp: scan_free.simps [of st i n] split: if_splits)
  with "1" have IH: "i + 1 \<le> k \<Longrightarrow> frame_used st k" by auto
  have "unat (i + 1) = Suc (unat i)" using i(1) by (rule unat_Suc_u32)
  then have "i < k \<Longrightarrow> i + 1 \<le> k" by (simp add: word_less_nat_alt word_le_nat_alt Suc_le_eq)
  then have "i = k \<or> i + 1 \<le> k" using "1.prems"(2) by (auto simp: order_le_less)
  with IH i show ?case by auto
qed

lemma counts_used_below_hint:
  "pmm_counts st \<Longrightarrow> k < first_free_frame st \<Longrightarrow> frame_used st k"
proof -
  assume inv: "pmm_counts st" and lt: "k < first_free_frame st"
  then have "unat k \<in> used_set st" by (auto simp: pmm_counts_def word_less_nat_alt)
  then show ?thesis by (simp add: used_set_def)
qed

lemma used_subset: "used_set st \<subseteq> all_frames"
  by (auto simp: used_set_def all_frames_def)

lemma card_all_frames: "card all_frames = 7680"
  by (simp add: all_frames_def)

lemma finite_all_frames: "finite all_frames"
  by (simp add: all_frames_def)

lemma card_used_le: "card (used_set st) \<le> 7680"
  using card_mono [OF finite_all_frames used_subset] by (simp add: card_all_frames)

lemma used_set_full: "card (used_set st) = 7680 \<longleftrightarrow> used_set st = all_frames"
  by (metis card_all_frames card_subset_eq finite_all_frames used_subset)

text \<open>The search of \<open>pmm_alloc_frame\<close> finds the lowest free frame, in its first loop.\<close>

lemma counts_search:
  assumes inv: "pmm_counts st" and free: "free_frames st \<noteq> 0"
  obtains i where "scan_free st (first_free_frame st) (total_frames st) = Some i"
    and "unat i < 7680" and "unat i \<notin> used_set st" and "{..<unat i} \<subseteq> used_set st"
proof -
  have tot: "total_frames st = 7680" using inv by (simp add: pmm_counts_def geometry_def)
  have "used_set st \<noteq> all_frames"
    using inv free used_set_full [of st] by (auto simp: pmm_counts_def unat_eq_zero)
  then obtain f where f: "f < 7680" "f \<notin> used_set st"
    using used_subset [of st] by (auto simp: all_frames_def)
  then have nf: "\<not> frame_used st (of_nat f)" by (simp add: used_set_def)
  have ge: "first_free_frame st \<le> of_nat f"
    using counts_used_below_hint [OF inv, of "of_nat f"] nf by (auto simp: not_less [symmetric])
  have "of_nat f < (7680 :: u32)" using f by (simp add: word_less_nat_alt unat_of_nat_u32)
  then obtain i where i: "scan_free st (first_free_frame st) (total_frames st) = Some i"
    using scan_free_None [of st "first_free_frame st" 7680 "of_nat f"] ge nf tot
    by (metis not_None_eq)
  note s = scan_free_Some [OF i]
  have i7: "unat i < 7680" using s tot by (simp add: word_less_nat_alt)
  have "{..<unat i} \<subseteq> used_set st"
  proof
    fix k assume "k \<in> {..<unat i}"
    then have k: "k < unat i" by simp
    then have u: "unat (of_nat k :: u32) = k" using i7 by (simp add: unat_of_nat_u32)
    have "frame_used st (of_nat k)"
    proof (cases "(of_nat k :: u32) < first_free_frame st")
      case True
      then show ?thesis by (rule counts_used_below_hint [OF inv])
    next
      case False
      then show ?thesis using s k u by (simp add: word_less_nat_alt word_le_nat_alt not_less)
    qed
    then show "k \<in> used_set st" using k i7 by (simp add: used_set_def)
  qed
  moreover have "unat i \<notin> used_set st" using s i7 by (simp add: in_used_set)
  ultimately show ?thesis using that i i7 by blast
qed

lemma counts_alloc_full:
  "pmm_counts st \<Longrightarrow> free_frames st = 0 \<longleftrightarrow> used_set st = all_frames"
  using used_set_full [of st] card_used_le [of st] by (auto simp: pmm_counts_def unat_eq_zero)

lemma counts_alloc_some:
  assumes inv: "pmm_counts st" and free: "free_frames st \<noteq> 0"
  obtains i st' where "pmm_alloc_frame st = (MEMORY_START + i * PAGE_SIZE, st')"
    and "unat i < 7680" and "unat i \<notin> used_set st" and "{..<unat i} \<subseteq> used_set st"
    and "used_set st' = insert (unat i) (used_set st)" and "pmm_counts st'"
    and "mem st' = mem (set_frame st i)"
proof -
  obtain i where i: "scan_free st (first_free_frame st) (total_frames st) = Some i"
    and i7: "unat i < 7680" and new: "unat i \<notin> used_set st" and low: "{..<unat i} \<subseteq> used_set st"
    using counts_search [OF inv free] by blast
  define st' where "st' = (let s = (set_frame st i)\<lparr>free_frames := free_frames st - 1\<rparr> in
    if i = first_free_frame st then s\<lparr>first_free_frame := first_free_frame st + 1\<rparr> else s)"
  have geo: "geometry st" using inv by (simp add: pmm_counts_def)
  have us: "used_set st' = insert (unat i) (used_set st)"
    using used_set_set_frame [OF geo i7] by (auto simp: st'_def Let_def)
  have cnt: "unat (free_frames st - 1) = unat (free_frames st) - 1"
    using free by (simp add: unat_minus_one)
  have pos: "0 < unat (free_frames st)" using free by (simp add: unat_gt_0)
  have hint: "i = first_free_frame st \<Longrightarrow> unat (first_free_frame st + 1) = Suc (unat i)"
    using i7 by (subst unat_Suc_u32 [of _ 7680]) (simp_all add: word_less_nat_alt)
  have "geometry st'" using geo by (simp add: st'_def Let_def)
  moreover have "free_frames st' = free_frames st - 1" by (simp add: st'_def Let_def)
  moreover have "first_free_frame st' = (if i = first_free_frame st then first_free_frame st + 1
      else first_free_frame st)" by (simp add: st'_def Let_def)
  ultimately have "pmm_counts st'"
    using inv us cnt pos hint i7 new
    by (auto simp: pmm_counts_def less_Suc_eq subset_iff)
  moreover have "pmm_alloc_frame st = (MEMORY_START + i * PAGE_SIZE, st')"
    using free i by (simp add: pmm_alloc_frame_def st'_def Let_def)
  moreover have "mem st' = mem (set_frame st i)" by (simp add: st'_def Let_def)
  ultimately show ?thesis using that i7 new low us by blast
qed

lemma pmm_alloc_full: "pmm_inv st \<Longrightarrow> free_frames st = 0 \<longleftrightarrow> used_set st = all_frames"
  by (simp add: pmm_inv_counts counts_alloc_full)

lemma pmm_alloc_some:
  assumes inv: "pmm_inv st" and free: "free_frames st \<noteq> 0"
  obtains i st' where "pmm_alloc_frame st = (MEMORY_START + i * PAGE_SIZE, st')"
    and "unat i < 7680" and "unat i \<notin> used_set st" and "{..<unat i} \<subseteq> used_set st"
    and "used_set st' = insert (unat i) (used_set st)" and "pmm_inv st'"
    and "mem st' = mem (set_frame st i)"
proof -
  have counts: "pmm_counts st" and zero: "0 \<in> used_set st" using inv by (simp_all add: pmm_inv_counts)
  show ?thesis
  proof (rule counts_alloc_some [OF counts free])
    fix i st'
    assume st': "pmm_alloc_frame st = (MEMORY_START + i * PAGE_SIZE, st')" "unat i < 7680" "unat i \<notin> used_set st"
      "{..<unat i} \<subseteq> used_set st" "used_set st' = insert (unat i) (used_set st)" "pmm_counts st'" "mem st' = mem (set_frame st i)"
    then have "pmm_inv st'" using zero by (simp add: pmm_inv_counts)
    then show ?thesis using that st' by blast
  qed
qed

section \<open>Freeing, marking and initialising\<close>

lemma card_remove_used: "i \<in> used_set st \<Longrightarrow> card (used_set st - {i}) = card (used_set st) - 1"
  by simp

definition frame_index_of :: "u32 \<Rightarrow> nat" where
  "frame_index_of a = (unat a - 2097152) div 4096"

lemma frame_index_word:
  "MEMORY_START \<le> a \<Longrightarrow> unat ((a - MEMORY_START) div PAGE_SIZE) = frame_index_of a"
  by (simp add: unat_div unat_diff_u32 frame_index_of_def PAGE_SIZE_def MEMORY_START_def)

text \<open>What freeing any address does: nothing unless it lies in a frame in use; then the whole
  frame becomes free, whatever the offset of the address in it.\<close>

lemma used_set_free_frame:
  assumes "geometry st"
  shows "used_set (pmm_free_frame a st)
    = (if MEMORY_START \<le> a then used_set st - {frame_index_of a} else used_set st)"
proof (cases "MEMORY_START \<le> a")
  case True
  define f where "f = (a - MEMORY_START) div PAGE_SIZE"
  have u: "unat f = frame_index_of a" using frame_index_word [OF True] by (simp add: f_def)
  have tot: "total_frames st = 7680" using assms by (simp add: geometry_def)
  show ?thesis
  proof (cases "unat f < 7680")
    case f7: True
    then have lt: "f < 7680" by (simp add: word_less_nat_alt)
    have "used_set (pmm_free_frame a st) = (if frame_used st f then used_set (clear_frame st f) else used_set st)"
      using True lt tot by (auto simp: pmm_free_frame_def Let_def f_def [symmetric] not_le)
    then show ?thesis
      using True u used_set_clear_frame [OF assms f7] in_used_set [OF f7, of st] by auto
  next
    case False
    then have "7680 \<le> f" by (simp add: word_le_nat_alt)
    then have "pmm_free_frame a st = st"
      using True tot by (simp add: pmm_free_frame_def Let_def f_def [symmetric])
    then show ?thesis using False True u used_set_bound [of "frame_index_of a" st] by auto
  qed
next
  case False
  then show ?thesis by (simp add: pmm_free_frame_def not_le)
qed

lemma pmm_counts_free_frame:
  assumes inv: "pmm_counts st"
  shows "pmm_counts (pmm_free_frame a st)"
proof -
  define f where "f = (a - MEMORY_START) div PAGE_SIZE"
  have geo: "geometry st" and tot: "total_frames st = 7680"
    using inv by (simp_all add: pmm_counts_def geometry_def)
  show ?thesis
  proof (cases "\<not> a < MEMORY_START \<and> f < 7680 \<and> frame_used st f")
    case True
    then have le: "MEMORY_START \<le> a" and used: "frame_used st f" and "f < 7680"
      by (simp_all add: not_less)
    then have f7: "unat f < 7680" by (simp add: word_less_nat_alt)
    have u: "unat f = frame_index_of a" using frame_index_word [OF le] by (simp add: f_def)
    have in_u: "unat f \<in> used_set st" using in_used_set [OF f7] used by blast
    define st' where "st' = pmm_free_frame a st"
    have us: "used_set st' = used_set st - {unat f}"
      using used_set_free_frame [OF geo, of a] le u by (simp add: st'_def)
    have st': "st' = (let s = (clear_frame st f)\<lparr>free_frames := free_frames st + 1\<rparr> in
      if f < first_free_frame st then s\<lparr>first_free_frame := f\<rparr> else s)"
      using True tot by (auto simp: st'_def pmm_free_frame_def Let_def f_def [symmetric] not_le)
    have pos: "0 < card (used_set st)" using in_u card_gt_0_iff by fastforce
    then have "unat (free_frames st) < 7680" using inv by (simp add: pmm_counts_def)
    then have "free_frames st < 7680" by (simp add: word_less_nat_alt)
    then have cnt: "unat (free_frames st + 1) = Suc (unat (free_frames st))" by (rule unat_Suc_u32)
    have "free_frames st' = free_frames st + 1" "geometry st'"
      "first_free_frame st' = (if f < first_free_frame st then f else first_free_frame st)"
      using geo by (auto simp: st' Let_def)
    then have "pmm_counts st'"
      using inv us cnt pos f7 card_remove_used [OF in_u]
      by (auto simp: pmm_counts_def word_less_nat_alt subset_iff)
    then show ?thesis by (simp add: st'_def)
  next
    case False
    then have "pmm_free_frame a st = st"
      using tot by (auto simp: pmm_free_frame_def Let_def f_def [symmetric])
    with inv show ?thesis by simp
  qed
qed

lemma pmm_inv_free_frame:
  assumes "pmm_inv st" and "a < MEMORY_START \<or> frame_index_of a \<noteq> 0"
  shows "pmm_inv (pmm_free_frame a st)"
  using assms pmm_counts_free_frame [of st a] used_set_free_frame [of st a]
  by (auto simp: pmm_inv_counts pmm_counts_def not_le)

lemma pmm_mark_frame_used_spec:
  assumes "geometry st" and "unat (free_frames st) + card (used_set st) = 7680" and "unat i < 7680"
  shows "geometry (pmm_mark_frame_used i st)"
    and "used_set (pmm_mark_frame_used i st) = insert (unat i) (used_set st)"
    and "unat (free_frames (pmm_mark_frame_used i st)) + card (used_set (pmm_mark_frame_used i st)) = 7680"
    and "first_free_frame (pmm_mark_frame_used i st) = first_free_frame st"
proof -
  have lt: "\<not> total_frames st \<le> i" using assms by (simp add: geometry_def word_le_nat_alt)
  have g: "geometry (pmm_mark_frame_used i st) \<and> first_free_frame (pmm_mark_frame_used i st) = first_free_frame st
    \<and> used_set (pmm_mark_frame_used i st) = insert (unat i) (used_set st)
    \<and> unat (free_frames (pmm_mark_frame_used i st)) + card (used_set (pmm_mark_frame_used i st)) = 7680"
  proof (cases "frame_used st i")
    case True
    then show ?thesis
      using assms lt in_used_set [OF assms(3), of st]
      by (auto simp: pmm_mark_frame_used_def insert_absorb)
  next
    case False
    have new: "unat i \<notin> used_set st" using False in_used_set [OF assms(3)] by blast
    then have "used_set st \<noteq> all_frames" using assms(3) by (auto simp: all_frames_def)
    then have "0 < unat (free_frames st)"
      using assms(2) used_set_full [of st] by (cases "unat (free_frames st) = 0") auto
    then have nz: "free_frames st \<noteq> 0" by auto
    then have "unat (free_frames st - 1) = unat (free_frames st) - 1" by (simp add: unat_minus_one)
    with False lt new assms \<open>0 < unat (free_frames st)\<close> show ?thesis
      by (simp add: pmm_mark_frame_used_def used_set_set_frame)
  qed
  then show "geometry (pmm_mark_frame_used i st)"
    "used_set (pmm_mark_frame_used i st) = insert (unat i) (used_set st)"
    "unat (free_frames (pmm_mark_frame_used i st)) + card (used_set (pmm_mark_frame_used i st)) = 7680"
    "first_free_frame (pmm_mark_frame_used i st) = first_free_frame st" by auto
qed

lemma pmm_init_spec:
  "pmm_inv (pmm_init st)" "used_set (pmm_init st) = {0}" "free_frames (pmm_init st) = 7679"
proof -
  define st2 where "st2 = st\<lparr>total_frames := 7680, free_frames := 7680, first_free_frame := 0,
    bitmap_size := 240, bitmap := MEMORY_START, mem := memset (mem st) MEMORY_START 0 960\<rparr>"
  have "pmm_init st = fold (\<lambda>i. pmm_mark_frame_used (of_nat i)) [0..<1] st2"
    by (simp add: pmm_init_def Let_def MEMORY_SIZE_def PAGE_SIZE_def st2_def)
  then have init: "pmm_init st = pmm_mark_frame_used 0 st2" by simp
  have geo: "geometry st2" by (simp add: geometry_def st2_def)
  have "\<not> frame_used st2 i" if "unat i < 7680" for i
  proof -
    define c where "c = 4 * (unat i div 32)"
    have "unat i div 32 < 240" using that by (simp add: div_less_iff_less_mult)
    then have c: "c + 3 < 960" by (simp add: c_def)
    have cell: "bitmap st2 + 4 * (i div 32) = MEMORY_START + of_nat c"
      by (simp add: c_def cell_address st2_def)
    have "mem st2 (MEMORY_START + of_nat (c + k)) = 0" if "k < 4" for k
      using that c by (simp add: st2_def memset_eq_filled filled_def unat_of_nat_u32 del: of_nat_add)
    from this [of 0] this [of 1] this [of 2] this [of 3]
    have "bitmap_word st2 i = 0" unfolding bitmap_word_def cell
      by (intro load32_zero) (simp_all add: ac_simps)
    then show ?thesis by (simp add: frame_used_def)
  qed
  then have empty: "used_set st2 = {}" by (auto simp: used_set_def unat_of_nat_u32)
  have cnt: "unat (free_frames st2) + card (used_set st2) = 7680" by (simp add: empty) (simp add: st2_def)
  note m = pmm_mark_frame_used_spec [OF geo cnt, of 0, simplified]
  show "used_set (pmm_init st) = {0}" using m(2) by (simp add: init empty)
  moreover have "first_free_frame (pmm_init st) = 0" using m(4) by (simp add: init) (simp add: st2_def)
  ultimately show "pmm_inv (pmm_init st)" using m(1,3) by (simp add: pmm_inv_def init)
  have "unat (free_frames (pmm_init st)) = 7679" using m(3) m(2) by (simp add: init empty)
  then show "free_frames (pmm_init st) = 7679" by (simp add: word_unat_eq_iff)
qed

section \<open>Memory outside the bitmap is untouched\<close>

lemma set_frame_unchanged:
  "geometry st \<Longrightarrow> unat i < 7680 \<Longrightarrow> unchanged_outside (mem st) (mem (set_frame st i)) 2097152 2098112"
proof -
  assume a: "geometry st" "unat i < 7680"
  then have "unat i div 32 < 240" by (simp add: div_less_iff_less_mult)
  then show ?thesis
    using store32_unchanged [of "2097152 + 4 * (unat i div 32)" "mem st" "bitmap_word st i OR frame_bit i"]
      bitmap_cell [of st i] a
    by (auto simp: set_frame_def geometry_def elim!: unchanged_outside_mono simp del: of_nat_add of_nat_mult)
qed

lemma clear_frame_unchanged:
  "geometry st \<Longrightarrow> unat i < 7680 \<Longrightarrow> unchanged_outside (mem st) (mem (clear_frame st i)) 2097152 2098112"
proof -
  assume a: "geometry st" "unat i < 7680"
  then have "unat i div 32 < 240" by (simp add: div_less_iff_less_mult)
  then show ?thesis
    using store32_unchanged [of "2097152 + 4 * (unat i div 32)" "mem st" "bitmap_word st i AND NOT (frame_bit i)"]
      bitmap_cell [of st i] a
    by (auto simp: clear_frame_def geometry_def elim!: unchanged_outside_mono simp del: of_nat_add of_nat_mult)
qed

lemma pmm_alloc_unchanged:
  assumes "pmm_inv st" and "pmm_alloc_frame st = (a, st')"
  shows "unchanged_outside (mem st) (mem st') 2097152 2098112"
proof (cases "free_frames st = 0")
  case True
  then show ?thesis using assms(2) by (simp add: pmm_alloc_frame_def)
next
  case False
  then show ?thesis
    using pmm_alloc_some [OF assms(1) False] assms set_frame_unchanged
    by (metis pmm_inv_def prod.inject)
qed

lemma pmm_free_unchanged:
  assumes "geometry st"
  shows "unchanged_outside (mem st) (mem (pmm_free_frame a st)) 2097152 2098112"
proof -
  have "total_frames st = 7680" using assms by (simp add: geometry_def)
  then show ?thesis
    using clear_frame_unchanged [OF assms]
    by (auto simp: pmm_free_frame_def Let_def not_le word_less_nat_alt)
qed

section \<open>Frames as addresses\<close>

definition frame_address :: "nat \<Rightarrow> u32" where
  "frame_address i = MEMORY_START + of_nat i * PAGE_SIZE"

lemma unat_frame_address: "i < 7680 \<Longrightarrow> unat (frame_address i) = 2097152 + 4096 * i"
proof -
  assume "i < 7680"
  have "frame_address i = of_nat (2097152 + 4096 * i)"
    by (simp add: frame_address_def MEMORY_START_def PAGE_SIZE_def)
  then show ?thesis using \<open>i < 7680\<close> by (simp only: unat_of_nat_u32)
qed

lemma frame_address_inject: "i < 7680 \<Longrightarrow> j < 7680 \<Longrightarrow> frame_address i = frame_address j \<longleftrightarrow> i = j"
proof -
  assume i: "i < 7680" and j: "j < 7680"
  have "2097152 + 4096 * i = 2097152 + 4096 * j \<Longrightarrow> i = j" by simp
  then show ?thesis using unat_frame_address [OF i] unat_frame_address [OF j] by metis
qed

lemma frame_index_of_address: "i < 7680 \<Longrightarrow> frame_index_of (frame_address i) = i"
  by (simp add: frame_index_of_def unat_frame_address)

lemma frame_address_ge: "i < 7680 \<Longrightarrow> MEMORY_START \<le> frame_address i"
  by (simp add: word_le_nat_alt unat_frame_address MEMORY_START_def)

lemma frame_address_word: "MEMORY_START + i * PAGE_SIZE = frame_address (unat i)"
  by (simp add: frame_address_def)

text \<open>The frames handed out: every used frame but frame 0, which holds the bitmap.\<close>

definition owned_frames :: "'a pmm_scheme \<Rightarrow> u32 set" where
  "owned_frames st = frame_address ` (used_set st - {0})"

section \<open>The frame allocator interface\<close>

text \<open>What the clients of the allocator (\<open>vmm.c\<close>, \<open>process.c\<close>) rely on.\<close>

fun alloc_many :: "('s \<Rightarrow> u32 \<times> 's) \<Rightarrow> nat \<Rightarrow> 's \<Rightarrow> u32 list \<times> 's" where
  "alloc_many f 0 s = ([], s)"
| "alloc_many f (Suc n) s =
     (let (a, s') = f s in
      if a = 0 then ([], s') else let (as, s'') = alloc_many f n s' in (a # as, s''))"

locale frame_allocator =
  fixes alloc :: "'s \<Rightarrow> u32 \<times> 's"
    and release :: "u32 \<Rightarrow> 's \<Rightarrow> 's"
    and owned :: "'s \<Rightarrow> u32 set"
    and inv :: "'s \<Rightarrow> bool"
  assumes alloc_some: "inv s \<Longrightarrow> alloc s = (a, s') \<Longrightarrow> a \<noteq> 0 \<Longrightarrow>
      inv s' \<and> a \<notin> owned s \<and> owned s' = insert a (owned s)"
    and alloc_none: "inv s \<Longrightarrow> alloc s = (0, s') \<Longrightarrow> s' = s"
    and release_owned: "inv s \<Longrightarrow> a \<in> owned s \<Longrightarrow>
      inv (release a s) \<and> owned (release a s) = owned s - {a}"
    and owned_aligned: "inv s \<Longrightarrow> a \<in> owned s \<Longrightarrow> a \<noteq> 0 \<and> 4096 dvd unat a"
begin

lemma alloc_inv: "inv s \<Longrightarrow> alloc s = (a, s') \<Longrightarrow> inv s'"
  using alloc_some [of s a s'] alloc_none [of s s'] by (cases "a = 0") simp_all

lemma alloc_mono: "inv s \<Longrightarrow> alloc s = (a, s') \<Longrightarrow> owned s \<subseteq> owned s'"
  using alloc_some [of s a s'] alloc_none [of s s'] by (cases "a = 0") auto

lemma alloc_twice_distinct:
  "inv s \<Longrightarrow> alloc s = (a, s1) \<Longrightarrow> alloc s1 = (b, s2) \<Longrightarrow> a \<noteq> 0 \<Longrightarrow> b \<noteq> 0 \<Longrightarrow> a \<noteq> b"
  using alloc_some by blast

lemma alloc_release:
  "inv s \<Longrightarrow> alloc s = (a, s') \<Longrightarrow> a \<noteq> 0 \<Longrightarrow> inv (release a s') \<and> owned (release a s') = owned s"
  using alloc_some [of s a s'] release_owned [of s' a] by auto

lemma alloc_many_distinct:
  "inv s \<Longrightarrow> alloc_many alloc n s = (as, s') \<Longrightarrow>
    distinct as \<and> set as \<inter> owned s = {} \<and> owned s' = owned s \<union> set as \<and> inv s'"
proof (induction n arbitrary: s as s')
  case (Suc n)
  obtain a s1 where a: "alloc s = (a, s1)" by fastforce
  show ?case
  proof (cases "a = 0")
    case True
    then have "as = []" "s' = s1" using Suc.prems(2) a by auto
    moreover have "s1 = s" using alloc_none Suc.prems(1) a True by blast
    ultimately show ?thesis using Suc.prems(1) by simp
  next
    case False
    obtain bs s2 where b: "alloc_many alloc n s1 = (bs, s2)" by fastforce
    have "as = a # bs" "s' = s2" using Suc.prems(2) a b False by (auto simp: Let_def)
    moreover note alloc_some [OF Suc.prems(1) a False]
    ultimately show ?thesis using Suc.IH [OF _ b] by auto
  qed
qed auto

lemma alloc_many_aligned:
  "inv s \<Longrightarrow> alloc_many alloc n s = (as, s') \<Longrightarrow> a \<in> set as \<Longrightarrow> a \<noteq> 0 \<and> 4096 dvd unat a"
  using alloc_many_distinct owned_aligned by blast

end

lemma pmm_alloc_owned:
  assumes inv: "pmm_inv st" and al: "pmm_alloc_frame st = (a, st')" and a: "a \<noteq> 0"
  shows "pmm_inv st' \<and> a \<notin> owned_frames st \<and> owned_frames st' = insert a (owned_frames st)"
proof -
  have "free_frames st \<noteq> 0" using al a by (auto simp: pmm_alloc_frame_def)
  from inv this obtain i st1 where i: "pmm_alloc_frame st = (MEMORY_START + i * PAGE_SIZE, st1)"
    "unat i < 7680" "unat i \<notin> used_set st" "used_set st1 = insert (unat i) (used_set st)" "pmm_inv st1"
    by (rule pmm_alloc_some)
  then have "a = frame_address (unat i)" "st' = st1" using al by (auto simp: frame_address_word)
  moreover have "unat i \<noteq> 0" using i(3) inv by (metis pmm_inv_def)
  moreover have "frame_address (unat i) \<notin> owned_frames st"
    using i(2,3) frame_address_inject [OF i(2) used_set_bound] by (auto simp: owned_frames_def)
  ultimately show ?thesis using i(4,5) by (auto simp: owned_frames_def)
qed

lemma pmm_alloc_zero:
  assumes inv: "pmm_inv st" and al: "pmm_alloc_frame st = (0, st')"
  shows "st' = st" "free_frames st = 0"
proof -
  show "free_frames st = 0"
  proof (rule ccontr)
    assume "free_frames st \<noteq> 0"
    from inv this obtain i st1 where "pmm_alloc_frame st = (MEMORY_START + i * PAGE_SIZE, st1)" "unat i < 7680"
      by (rule pmm_alloc_some)
    then show False using al unat_frame_address [of "unat i"] by (simp add: frame_address_word)
  qed
  then show "st' = st" using al by (simp add: pmm_alloc_frame_def)
qed

lemma pmm_free_owned:
  assumes inv: "pmm_inv st" and a: "a \<in> owned_frames st"
  shows "pmm_inv (pmm_free_frame a st) \<and> owned_frames (pmm_free_frame a st) = owned_frames st - {a}"
proof -
  obtain i where i: "a = frame_address i" "i \<in> used_set st" "i \<noteq> 0" "i < 7680"
    using a used_set_bound by (auto simp: owned_frames_def)
  have "used_set (pmm_free_frame a st) = used_set st - {i}"
    using used_set_free_frame [of st a] inv i frame_address_ge [OF i(4)]
    by (simp add: pmm_inv_def frame_index_of_address)
  then have "owned_frames (pmm_free_frame a st) = owned_frames st - {a}"
    using i frame_address_inject [OF used_set_bound i(4)] by (auto simp: owned_frames_def)
  moreover have "pmm_inv (pmm_free_frame a st)"
    using pmm_inv_free_frame [OF inv] i by (simp add: frame_index_of_address)
  ultimately show ?thesis by simp
qed

interpretation frames: frame_allocator pmm_alloc_frame pmm_free_frame owned_frames pmm_inv
proof unfold_locales
  show "a \<noteq> 0 \<and> 4096 dvd unat a" if "pmm_inv s" "a \<in> owned_frames s" for s :: "'a pmm_scheme" and a
  proof -
  from that obtain i where i: "a = frame_address i" "i < 7680" using used_set_bound by (auto simp: owned_frames_def)
  then have u: "unat a = 2097152 + 4096 * i" by (simp add: unat_frame_address)
  then have "4096 dvd unat a" by (simp only: dvd_add_right_iff [of 4096 "2097152::nat"]) simp
  moreover have "a \<noteq> 0" using u by auto
  ultimately show ?thesis by blast
  qed
qed (fact pmm_alloc_owned pmm_alloc_zero(1) pmm_free_owned)+

end
