(* ===== verification/PmmProps.thy ===== *)
theory PmmProps
  imports Pmm
begin

text \<open>
  What the physical memory manager promises: allocation takes the lowest free frame, frames
  handed out after boot are consecutive and distinct, every reachable state keeps the bitmap
  and the counters in agreement; and what it does not promise: it hands out the frames of the
  kernel heap, and it lets a caller free the frame that holds the bitmap itself.
\<close>

text \<open>The manager as the kernel starts it, on zeroed memory.\<close>

definition pmm_boot :: pmm where
  "pmm_boot = pmm_init \<lparr>mem = (\<lambda>_. 0), bitmap = 0, bitmap_size = 0, total_frames = 0, free_frames = 0,
     first_free_frame = 0\<rparr>"

lemma pmm_boot_facts: "pmm_inv pmm_boot" "used_set pmm_boot = {0}" "free_frames pmm_boot = 7679"
  by (simp_all add: pmm_boot_def pmm_init_spec)

section \<open>Allocation\<close>

text \<open>C21: While a frame is free, an allocation returns the address of the lowest free frame, marks exactly that
  frame as used, keeps the invariant and writes no memory outside the bitmap.\<close>

theorem pmm_alloc_lowest:
  assumes "pmm_inv st" and "free_frames st \<noteq> 0"
  shows "\<exists>i st'. pmm_alloc_frame st = (frame_address i, st') \<and> i < 7680 \<and> i \<notin> used_set st \<and> {..<i} \<subseteq> used_set st
    \<and> used_set st' = insert i (used_set st) \<and> pmm_inv st' \<and> unchanged_outside (mem st) (mem st') 2097152 2098112"
proof -
  obtain i st' where "pmm_alloc_frame st = (MEMORY_START + i * PAGE_SIZE, st')"
    "unat i < 7680" "unat i \<notin> used_set st" "{..<unat i} \<subseteq> used_set st"
    "used_set st' = insert (unat i) (used_set st)" "pmm_inv st'"
    by (rule pmm_alloc_some [OF assms])
  then show ?thesis
    using pmm_alloc_unchanged [OF assms(1)]
    by (intro exI [of _ "unat i"] exI [of _ st']) (simp add: frame_address_word)
qed

lemma pmm_alloc_lowest_witness: "\<exists>i st'. pmm_alloc_frame pmm_boot = (frame_address i, st') \<and> i \<notin> used_set pmm_boot"
  using pmm_alloc_lowest [of pmm_boot] by (auto simp: pmm_boot_facts)

text \<open>The null address is returned exactly when every frame is in use, and then the state is as before:
  the second search loop of \<open>pmm_alloc_frame\<close> never finds anything the first one missed.\<close>

theorem pmm_alloc_null_iff:
  assumes "pmm_inv st"
  shows "(pmm_alloc_frame st = (0, st) \<longleftrightarrow> used_set st = all_frames)
    \<and> (fst (pmm_alloc_frame st) = 0 \<longrightarrow> pmm_alloc_frame st = (0, st))"
proof
  show "fst (pmm_alloc_frame st) = 0 \<longrightarrow> pmm_alloc_frame st = (0, st)"
    using pmm_alloc_zero(1) [OF assms, of "snd (pmm_alloc_frame st)"] by (cases "pmm_alloc_frame st") auto
  have "free_frames st = 0 \<Longrightarrow> pmm_alloc_frame st = (0, st)" by (simp add: pmm_alloc_frame_def)
  then show "pmm_alloc_frame st = (0, st) \<longleftrightarrow> used_set st = all_frames"
    using pmm_alloc_full [OF assms] pmm_alloc_zero(2) [OF assms, of st] by blast
qed

lemma pmm_alloc_null_iff_witness: "fst (pmm_alloc_frame pmm_boot) \<noteq> 0"
proof
  assume z: "fst (pmm_alloc_frame pmm_boot) = 0"
  have "1 \<in> all_frames" "(1 :: nat) \<notin> {0}" by (simp_all add: all_frames_def)
  then show False using pmm_alloc_null_iff [OF pmm_boot_facts(1)] z pmm_boot_facts(2) by blast
qed

lemma alloc_run:
  assumes "pmm_inv st" and "used_set st = {..<Suc k}" and "k \<le> 7679"
  shows "fst (alloc_many pmm_alloc_frame n st) = map frame_address [Suc k..<min (Suc k + n) 7680]"
  using assms
proof (induction n arbitrary: st k)
  case (Suc n)
  show ?case
  proof (cases "k = 7679")
    case True
    have "used_set st = all_frames"
      unfolding Suc.prems(2) True all_frames_def lessThan_def by (rule Collect_cong) simp
    then have "pmm_alloc_frame st = (0, st)"
      using pmm_alloc_full [OF Suc.prems(1)] by (simp add: pmm_alloc_frame_def)
    moreover have "[Suc k..<min (Suc k + Suc n) 7680] = []" using True by (subst upt_eq_Nil_conv) simp
    ultimately show ?thesis by (simp only: alloc_many.simps Let_def prod.case simp_thms if_True fst_conv list.map)
  next
    case False
    then have "Suc k \<in> all_frames" "Suc k \<notin> used_set st" using Suc.prems(2,3) by (simp_all add: all_frames_def)
    then have "used_set st \<noteq> all_frames" by blast
    then have "free_frames st \<noteq> 0" using pmm_alloc_full [OF Suc.prems(1)] by blast
    then obtain i st' where i: "pmm_alloc_frame st = (MEMORY_START + i * PAGE_SIZE, st')"
      "unat i < 7680" "unat i \<notin> used_set st" "{..<unat i} \<subseteq> used_set st"
      "used_set st' = insert (unat i) (used_set st)" "pmm_inv st'"
      by (rule pmm_alloc_some [OF Suc.prems(1)])
    have ik: "unat i = Suc k" using i(3,4) by (simp add: Suc.prems(2) lessThan_subset_iff)
    then have a: "pmm_alloc_frame st = (frame_address (Suc k), st')"
      using i(1) by (simp only: frame_address_word)
    have u: "used_set st' = {..<Suc (Suc k)}"
      using i(5) by (simp only: ik Suc.prems(2) lessThan_Suc)
    have k: "Suc k \<le> 7679" using False Suc.prems(3) by simp
    have nz: "frame_address (Suc k) \<noteq> 0"
    proof
      assume "frame_address (Suc k) = 0"
      then show False using unat_frame_address [of "Suc k"] k by simp
    qed
    have up: "[Suc k..<min (Suc k + Suc n) 7680] = Suc k # [Suc (Suc k)..<min (Suc (Suc k) + n) 7680]"
      by (subst upt_conv_Cons) (use k in simp_all)
    obtain as s2 where am: "alloc_many pmm_alloc_frame n st' = (as, s2)" by fastforce
    have "fst (alloc_many pmm_alloc_frame (Suc n) st) = frame_address (Suc k) # as"
      by (simp add: a nz am)
    then show ?thesis
      using Suc.IH [OF i(6) u k] unfolding am fst_conv up list.map by simp
  qed
qed simp

text \<open>The first \<open>n\<close> allocations after boot return the frames behind the bitmap one after the other, and stop
  when all 7679 of them are taken.\<close>

theorem pmm_boot_allocations:
  "fst (alloc_many pmm_alloc_frame n (pmm_init st)) = map frame_address [1..<min (Suc n) 7680]"
  using alloc_run [of "pmm_init st" 0 n] by (simp add: pmm_init_spec lessThan_Suc)

text \<open>From any state that meets the invariant, the frames returned by any number of allocations in a row
  are page aligned, not null, pairwise distinct and distinct from every frame still owned.\<close>

theorem pmm_allocations_distinct:
  assumes "pmm_inv st" and "alloc_many pmm_alloc_frame n st = (as, st')"
  shows "distinct as \<and> set as \<inter> owned_frames st = {} \<and> owned_frames st' = owned_frames st \<union> set as
    \<and> (\<forall>a \<in> set as. a \<noteq> 0 \<and> 4096 dvd unat a)"
  using frames.alloc_many_distinct [OF assms] frames.alloc_many_aligned [OF assms] by blast

lemma pmm_allocations_distinct_witness: "distinct (fst (alloc_many pmm_alloc_frame 10 pmm_boot))"
  using pmm_allocations_distinct [OF pmm_boot_facts(1) prod.collapse [symmetric], of 10] by blast

section \<open>Release\<close>

text \<open>Releasing the frame just allocated, through any address inside it, gives back the set of used frames
  and the number of free ones.\<close>

theorem pmm_alloc_free_roundtrip:
  assumes "pmm_inv st" and "pmm_alloc_frame st = (a, st')" and "a \<noteq> 0" and "off < 4096"
  shows "used_set (pmm_free_frame (a + off) st') = used_set st
    \<and> free_frames (pmm_free_frame (a + off) st') = free_frames st \<and> pmm_inv (pmm_free_frame (a + off) st')"
proof -
  have "free_frames st \<noteq> 0" using assms(2,3) by (auto simp: pmm_alloc_frame_def)
  with assms(1) obtain i st1 where i: "pmm_alloc_frame st = (MEMORY_START + i * PAGE_SIZE, st1)" "unat i < 7680"
    "unat i \<notin> used_set st" "used_set st1 = insert (unat i) (used_set st)" "pmm_inv st1"
    by (rule pmm_alloc_some)
  then have a: "a = frame_address (unat i)" and st: "st' = st1" using assms(2) by (auto simp: frame_address_word)
  have ua: "unat (a + off) = 2097152 + 4096 * unat i + unat off"
    using unat_frame_address [OF i(2)] i(2) assms(4) a by (subst unat_add_u32) (simp_all add: word_less_nat_alt)
  have fi: "frame_index_of (a + off) = unat i" "MEMORY_START \<le> a + off"
    using assms(4) ua by (simp_all add: frame_index_of_def word_less_nat_alt word_le_nat_alt MEMORY_START_def)
  have u: "used_set (pmm_free_frame (a + off) st') = used_set st"
    using used_set_free_frame [of st1 "a + off"] i fi st by (simp add: pmm_inv_def)
  moreover have "unat i \<noteq> 0" using i(3) assms(1) by (metis pmm_inv_def)
  then have inv: "pmm_inv (pmm_free_frame (a + off) st')"
    using pmm_inv_free_frame [OF i(5), of "a + off"] fi(1) st by simp
  moreover have "unat (free_frames (pmm_free_frame (a + off) st')) = unat (free_frames st)"
    using inv u assms(1) by (simp add: pmm_inv_def)
  ultimately show ?thesis by (metis u32_of_nat_unat)
qed

lemma pmm_alloc_free_roundtrip_witness:
  "used_set (pmm_free_frame (0x201000 + 5) (snd (pmm_alloc_frame pmm_boot))) = {0}"
proof -
  have "fst (pmm_alloc_frame pmm_boot) = 0x201000"
    using alloc_run [of pmm_boot 0 1] pmm_boot_facts
    by (auto simp: lessThan_Suc Let_def frame_address_def MEMORY_START_def PAGE_SIZE_def split: prod.splits if_splits)
  then have "pmm_alloc_frame pmm_boot = (0x201000, snd (pmm_alloc_frame pmm_boot))" by (metis prod.collapse)
  from pmm_alloc_free_roundtrip [OF pmm_boot_facts(1) this, of 5] show ?thesis
    by (simp add: pmm_boot_facts(2) word_less_nat_alt)
qed

section \<open>Reachable states\<close>

text \<open>The calls a client can make, with any argument.\<close>

datatype pmm_call = Alloc_frame | Free_frame u32 | Mark_frame u32

fun pmm_step :: "pmm_call \<Rightarrow> 'a pmm_scheme \<Rightarrow> 'a pmm_scheme" where
  "pmm_step Alloc_frame st = snd (pmm_alloc_frame st)"
| "pmm_step (Free_frame a) st = pmm_free_frame a st"
| "pmm_step (Mark_frame i) st = pmm_mark_frame_used i st"

definition frees_bitmap :: "pmm_call \<Rightarrow> bool" where
  "frees_bitmap call \<longleftrightarrow> (case call of Free_frame a \<Rightarrow> MEMORY_START \<le> a \<and> frame_index_of a = 0 | _ \<Rightarrow> False)"

lemma pmm_step_alloc:
  assumes "pmm_counts st"
  shows "pmm_counts (snd (pmm_alloc_frame st)) \<and> used_set st \<subseteq> used_set (snd (pmm_alloc_frame st))"
proof (cases "free_frames st = 0")
  case True
  then show ?thesis using assms by (simp add: pmm_alloc_frame_def)
next
  case False
  then show ?thesis using counts_alloc_some [OF assms False] by (metis snd_conv subset_insertI)
qed

lemma pmm_step_mark:
  assumes "pmm_counts st"
  shows "pmm_counts (pmm_mark_frame_used i st) \<and> used_set st \<subseteq> used_set (pmm_mark_frame_used i st)"
proof (cases "unat i < 7680")
  case True
  then show ?thesis using assms pmm_mark_frame_used_spec [of st i] by (auto simp: pmm_counts_def)
next
  case False
  then show ?thesis using assms by (simp add: pmm_mark_frame_used_def pmm_counts_def geometry_def word_le_nat_alt)
qed

lemma pmm_step_counts:
  assumes "pmm_counts st"
  shows "pmm_counts (pmm_step call st)" and "0 \<in> used_set st \<Longrightarrow> \<not> frees_bitmap call \<Longrightarrow> 0 \<in> used_set (pmm_step call st)"
proof -
  have geo: "geometry st" using assms by (simp add: pmm_counts_def)
  show "pmm_counts (pmm_step call st)"
    using pmm_step_alloc [OF assms] pmm_step_mark [OF assms] pmm_counts_free_frame [OF assms] by (cases call) simp_all
  show "0 \<in> used_set (pmm_step call st)" if "0 \<in> used_set st" "\<not> frees_bitmap call"
    using that assms pmm_step_alloc [OF assms] pmm_step_mark [OF assms] used_set_free_frame [OF geo]
    by (cases call) (auto simp: frees_bitmap_def)
qed

text \<open>C6: After any sequence of calls of the manager, with any arguments, the counter of free frames is the number of
  clear bits and every frame below the search hint is in use; and the frame of the bitmap is in use, provided no
  call freed an address in it, which the manager does not refuse.\<close>

theorem pmm_reach_invariant:
  assumes "st' = fold pmm_step calls (pmm_init st)"
  shows "unat (free_frames st') = 7680 - card (used_set st') \<and> {..<unat (first_free_frame st')} \<subseteq> used_set st' \<and>
    used_set st' \<subseteq> all_frames \<and> (list_ex frees_bitmap calls \<or> 0 \<in> used_set st')"
proof -
  have "pmm_counts (fold pmm_step calls s) \<and> (0 \<in> used_set s \<and> \<not> list_ex frees_bitmap calls \<longrightarrow> 0 \<in> used_set (fold pmm_step calls s))"
    if "pmm_counts s" for s :: "'a pmm_scheme" using that
  proof (induction calls arbitrary: s)
    case (Cons call calls)
    then show ?case using pmm_step_counts [OF Cons.prems, of call] by auto
  qed simp
  from this [of "pmm_init st"] have "pmm_counts st'" "list_ex frees_bitmap calls \<or> 0 \<in> used_set st'"
    unfolding assms using pmm_init_spec(1) [of st] by (auto simp: pmm_inv_counts)
  then show ?thesis using used_subset [of st'] by (auto simp: pmm_counts_def)
qed

lemma pmm_reach_invariant_witness:
  "unat (free_frames (fold pmm_step [Alloc_frame, Free_frame 0x201000, Mark_frame 5] pmm_boot)) =
      7680 - card (used_set (fold pmm_step [Alloc_frame, Free_frame 0x201000, Mark_frame 5] pmm_boot)) \<and>
    0 \<in> used_set (fold pmm_step [Alloc_frame, Free_frame 0x201000, Mark_frame 5] pmm_boot)"
  using pmm_reach_invariant [of "fold pmm_step [Alloc_frame, Free_frame 0x201000, Mark_frame 5] pmm_boot"
      "[Alloc_frame, Free_frame 0x201000, Mark_frame 5]" "\<lparr>mem = (\<lambda>_. 0), bitmap = 0, bitmap_size = 0, total_frames = 0,
        free_frames = 0, first_free_frame = 0\<rparr>", folded pmm_boot_def, OF refl]
  by (simp add: frees_bitmap_def frame_index_of_def)

section \<open>Two flaws\<close>

text \<open>A flaw, proved: the manager does not know of the kernel heap at 0x800000. The allocation number 1536
  after boot returns its first page, and number 2559 its last one.\<close>

theorem pmm_hands_out_heap:
  "nth (fst (alloc_many pmm_alloc_frame 2560 (pmm_init st))) 1535 = 0x800000
    \<and> nth (fst (alloc_many pmm_alloc_frame 2560 (pmm_init st))) 2558 = 0xBFF000"
proof -
  define m :: nat where "m = min (Suc 2560) 7680"
  have as: "fst (alloc_many pmm_alloc_frame 2560 (pmm_init st)) = map frame_address [1..<m]"
    using alloc_run [of "pmm_init st" 0 2560] by (simp add: pmm_init_spec lessThan_Suc m_def del: upt.simps upt_Suc)
  have "m = 2561" by (simp add: m_def)
  then have "nth (map frame_address [1..<m]) i = frame_address (1 + i)" if "i < 2560" for i
    using that by (intro nth_map_upt) simp
  then show ?thesis
    unfolding as by (simp add: frame_address_def MEMORY_START_def PAGE_SIZE_def)
qed

text \<open>A flaw, proved: the address of the bitmap itself can be freed, and the next allocation then returns
  it, so its new owner overwrites the bitmap.\<close>

theorem pmm_bitmap_freed:
  "fst (pmm_alloc_frame (pmm_free_frame 0x200000 (pmm_init st))) = bitmap (pmm_init st)"
proof -
  define s1 where "s1 = pmm_free_frame 0x200000 (pmm_init st)"
  note inv = pmm_init_spec(1) [of st, unfolded pmm_inv_def geometry_def]
  have first: "first_free_frame (pmm_init st) = 0"
    by (simp add: pmm_init_def Let_def MEMORY_SIZE_def PAGE_SIZE_def pmm_mark_frame_used_def set_frame_def)
  have used: "frame_used (pmm_init st) 0" using inv by (simp add: used_set_def)
  have s1: "s1 = clear_frame (pmm_init st) 0\<lparr>free_frames := 7680\<rparr>"
    using inv first used pmm_init_spec(3) [of st]
    by (simp add: s1_def pmm_free_frame_def Let_def MEMORY_START_def clear_frame_def)
  have "used_set s1 = {}"
    using used_set_free_frame [of "pmm_init st" "0x200000"] pmm_init_spec(2) [of st] inv
    by (simp add: s1_def geometry_def MEMORY_START_def frame_index_of_def)
  then have "(0 :: nat) \<notin> used_set s1" by blast
  then have "\<not> frame_used s1 0" by (simp add: used_set_def)
  moreover have "first_free_frame s1 = 0" "total_frames s1 = 7680" "free_frames s1 = 7680"
    using inv first by (simp_all add: s1 clear_frame_def)
  ultimately have "fst (pmm_alloc_frame s1) = MEMORY_START"
    by (simp add: pmm_alloc_frame_def scan_free.simps [of s1 0] Let_def)
  then show ?thesis using inv by (simp add: s1_def)
qed

end
