(* ===== verification/Heap.thy ===== *)
theory Heap
  imports Pmm
begin

text \<open>
  The kernel heap (\<open>kernel/heap.c\<close>): a doubly linked list of blocks laid out back to back
  in memory, each with a 20-byte header \<open>heap_block_t\<close> in front of its payload. Headers are
  read and written in the byte memory, field by field and in the order of the code, so a
  header written over another one damages it exactly as it does on the machine. A walk
  along \<open>next\<close> pointers is a \<open>partial_function\<close>: on a cyclic list it has the value
  \<open>None\<close>, and so has an allocation that would not return.
\<close>

record heap = machine +
  first_block :: u32
  heap_start :: u32
  heap_end :: u32
  total_size :: u32
  free_size :: u32
  blocks_allocated :: u32
  blocks_free :: u32
  heap_initialized :: bool

definition HEAP_MAGIC_ALLOCATED :: u32 where "HEAP_MAGIC_ALLOCATED = 0xABCDEF00"
definition HEAP_MAGIC_FREE :: u32 where "HEAP_MAGIC_FREE = 0x12345678"
definition MIN_ALLOC_SIZE :: u32 where "MIN_ALLOC_SIZE = 32"

text \<open>\<open>sizeof(heap_block_t)\<close> on i386: five 4-byte fields.\<close>

definition HEADER :: u32 where "HEADER = 20"

abbreviation blk_size :: "mem \<Rightarrow> u32 \<Rightarrow> u32" where "blk_size m b \<equiv> load32 m b"
abbreviation blk_free :: "mem \<Rightarrow> u32 \<Rightarrow> u32" where "blk_free m b \<equiv> load32 m (b + 4)"
abbreviation blk_magic :: "mem \<Rightarrow> u32 \<Rightarrow> u32" where "blk_magic m b \<equiv> load32 m (b + 8)"
abbreviation blk_next :: "mem \<Rightarrow> u32 \<Rightarrow> u32" where "blk_next m b \<equiv> load32 m (b + 12)"
abbreviation blk_prev :: "mem \<Rightarrow> u32 \<Rightarrow> u32" where "blk_prev m b \<equiv> load32 m (b + 16)"

abbreviation set_size :: "mem \<Rightarrow> u32 \<Rightarrow> u32 \<Rightarrow> mem" where "set_size m b v \<equiv> store32 m b v"
abbreviation set_free :: "mem \<Rightarrow> u32 \<Rightarrow> u32 \<Rightarrow> mem" where "set_free m b v \<equiv> store32 m (b + 4) v"
abbreviation set_magic :: "mem \<Rightarrow> u32 \<Rightarrow> u32 \<Rightarrow> mem" where "set_magic m b v \<equiv> store32 m (b + 8) v"
abbreviation set_next :: "mem \<Rightarrow> u32 \<Rightarrow> u32 \<Rightarrow> mem" where "set_next m b v \<equiv> store32 m (b + 12) v"
abbreviation set_prev :: "mem \<Rightarrow> u32 \<Rightarrow> u32 \<Rightarrow> mem" where "set_prev m b v \<equiv> store32 m (b + 16) v"

section \<open>Operations\<close>

definition heap_init :: "u32 \<Rightarrow> u32 \<Rightarrow> 'a heap_scheme \<Rightarrow> 'a heap_scheme" where
  "heap_init start sz st =
     (let hstart = memory_align_up start 16;
          aligned_size = sz - (hstart - start);
          m1 = set_size (mem st) hstart (aligned_size - HEADER);
          m2 = set_free m1 hstart 1;
          m3 = set_magic m2 hstart HEAP_MAGIC_FREE;
          m4 = set_next m3 hstart 0;
          m5 = set_prev m4 hstart 0
      in st\<lparr>mem := m5, heap_start := hstart, heap_end := hstart + aligned_size,
            total_size := aligned_size, free_size := aligned_size - HEADER,
            blocks_allocated := 0, blocks_free := 1,
            first_block := hstart, heap_initialized := True\<rparr>)"

partial_function (option) best_fit_loop :: "mem \<Rightarrow> u32 \<Rightarrow> u32 \<Rightarrow> u32 \<Rightarrow> u32 \<Rightarrow> u32 option" where
  "best_fit_loop m sz current best best_size =
     (if current = 0 then Some best
      else if blk_free m current \<noteq> 0 \<and> sz \<le> blk_size m current \<and> blk_size m current < best_size
        then (if blk_size m current = sz then Some current
              else best_fit_loop m sz (blk_next m current) current (blk_size m current))
        else best_fit_loop m sz (blk_next m current) best best_size)"

declare best_fit_loop.simps [code]

definition find_best_fit :: "u32 \<Rightarrow> 'a heap_scheme \<Rightarrow> u32 option" where
  "find_best_fit sz st = best_fit_loop (mem st) sz (first_block st) 0 (- 1)"

definition split_block :: "u32 \<Rightarrow> u32 \<Rightarrow> 'a heap_scheme \<Rightarrow> 'a heap_scheme" where
  "split_block block sz st =
     (let remaining_size = blk_size (mem st) block - sz - HEADER in
      if MIN_ALLOC_SIZE \<le> remaining_size then
        (let new_block = block + HEADER + sz;
             m1 = set_size (mem st) new_block remaining_size;
             m2 = set_free m1 new_block 1;
             m3 = set_magic m2 new_block HEAP_MAGIC_FREE;
             m4 = set_next m3 new_block (blk_next m3 block);
             m5 = set_prev m4 new_block block;
             m6 = (if blk_next m5 block \<noteq> 0 then set_prev m5 (blk_next m5 block) new_block else m5);
             m7 = set_next m6 block new_block;
             m8 = set_size m7 block sz
         in st\<lparr>mem := m8, blocks_free := blocks_free st + 1\<rparr>)
      else st)"

definition merge_next :: "u32 \<Rightarrow> 'a heap_scheme \<Rightarrow> 'a heap_scheme" where
  "merge_next block st =
     (let m = mem st in
      if blk_next m block \<noteq> 0 \<and> blk_free m (blk_next m block) \<noteq> 0 then
        (let nxt = blk_next m block;
             m1 = set_size m block (blk_size m block + (HEADER + blk_size m nxt));
             m2 = set_next m1 block (blk_next m1 nxt);
             m3 = (if blk_next m2 nxt \<noteq> 0 then set_prev m2 (blk_next m2 nxt) block else m2)
         in st\<lparr>mem := m3, blocks_free := blocks_free st - 1\<rparr>)
      else st)"

definition merge_prev :: "u32 \<Rightarrow> 'a heap_scheme \<Rightarrow> 'a heap_scheme" where
  "merge_prev block st =
     (let m = mem st in
      if blk_prev m block \<noteq> 0 \<and> blk_free m (blk_prev m block) \<noteq> 0 then
        (let prv = blk_prev m block;
             m1 = set_size m prv (blk_size m prv + (HEADER + blk_size m block));
             m2 = set_next m1 prv (blk_next m1 block);
             m3 = (if blk_next m2 block \<noteq> 0 then set_prev m2 (blk_next m2 block) prv else m2)
         in st\<lparr>mem := m3, blocks_free := blocks_free st - 1\<rparr>)
      else st)"

definition merge_free_blocks :: "u32 \<Rightarrow> 'a heap_scheme \<Rightarrow> 'a heap_scheme" where
  "merge_free_blocks block st = merge_prev block (merge_next block st)"

definition round_size :: "u32 \<Rightarrow> u32" where
  "round_size sz =
     (let sz = memory_align_up sz 8 in if sz < MIN_ALLOC_SIZE then MIN_ALLOC_SIZE else sz)"

definition heap_malloc :: "u32 \<Rightarrow> 'a heap_scheme \<Rightarrow> (u32 \<times> 'a heap_scheme) option" where
  "heap_malloc sz st =
     (if \<not> heap_initialized st then Some (0, st)
      else if sz = 0 then Some (0, st)
      else let sz = round_size sz in
        Option.bind (find_best_fit sz st) (\<lambda>block.
          if block = 0 then Some (0, st)
          else let st1 = split_block block sz st;
                   m1 = set_free (mem st1) block 0;
                   m2 = set_magic m1 block HEAP_MAGIC_ALLOCATED
               in Some (block + HEADER,
                 st1\<lparr>mem := m2, blocks_allocated := blocks_allocated st1 + 1,
                     blocks_free := blocks_free st1 - 1,
                     free_size := free_size st1 - (sz + HEADER)\<rparr>)))"

definition heap_free :: "u32 \<Rightarrow> 'a heap_scheme \<Rightarrow> 'a heap_scheme" where
  "heap_free ptr st =
     (if ptr = 0 \<or> \<not> heap_initialized st then st
      else let block = ptr - HEADER in
        if blk_magic (mem st) block \<noteq> HEAP_MAGIC_ALLOCATED then st
        else let m1 = set_free (mem st) block 1;
                 m2 = set_magic m1 block HEAP_MAGIC_FREE;
                 st1 = st\<lparr>mem := m2, blocks_allocated := blocks_allocated st - 1,
                          blocks_free := blocks_free st + 1,
                          free_size := free_size st + (blk_size m2 block + HEADER)\<rparr>
             in merge_free_blocks block st1)"

definition heap_calloc :: "u32 \<Rightarrow> u32 \<Rightarrow> 'a heap_scheme \<Rightarrow> (u32 \<times> 'a heap_scheme) option" where
  "heap_calloc nmemb sz st =
     (let total = nmemb * sz in
      if nmemb \<noteq> 0 \<and> total div nmemb \<noteq> sz then Some (0, st)
      else Option.bind (heap_malloc total st) (\<lambda>(ptr, st1).
        if ptr \<noteq> 0 then Some (ptr, st1\<lparr>mem := memset (mem st1) ptr 0 total\<rparr>)
        else Some (ptr, st1)))"

definition heap_realloc :: "u32 \<Rightarrow> u32 \<Rightarrow> 'a heap_scheme \<Rightarrow> (u32 \<times> 'a heap_scheme) option" where
  "heap_realloc ptr sz st =
     (if ptr = 0 then heap_malloc sz st
      else if sz = 0 then Some (0, heap_free ptr st)
      else let block = ptr - HEADER in
        if blk_magic (mem st) block \<noteq> HEAP_MAGIC_ALLOCATED then Some (0, st)
        else let sz = round_size sz in
          if sz \<le> blk_size (mem st) block then Some (ptr, st)
          else Option.bind (heap_malloc sz st) (\<lambda>(new_ptr, st1).
            if new_ptr = 0 then Some (0, st1)
            else let st2 = st1\<lparr>mem := memcpy (mem st1) new_ptr ptr (blk_size (mem st1) block)\<rparr>
                 in Some (new_ptr, heap_free ptr st2)))"

text \<open>The loop of \<open>heap_validate\<close>: it returns the number of errors. It always ends, because it
  gives up after 10001 blocks.\<close>

function validate_loop :: "'a heap_scheme \<Rightarrow> u32 \<Rightarrow> nat \<Rightarrow> nat \<Rightarrow> nat" where
  "validate_loop st current block_count errors =
     (if current = 0 then errors
      else let block_count = block_count + 1;
               expected = (if blk_free (mem st) current \<noteq> 0 then HEAP_MAGIC_FREE else HEAP_MAGIC_ALLOCATED);
               errors = (if blk_magic (mem st) current \<noteq> expected then errors + 1 else errors);
               errors = (if current < heap_start st \<or> heap_end st \<le> current then errors + 1 else errors);
               current = blk_next (mem st) current
        in if 10000 < block_count then errors + 1
           else validate_loop st current block_count errors)"
  by pat_completeness auto
termination
  by (relation "measure (\<lambda>(st, current, block_count, errors). 10001 - block_count)") auto

declare validate_loop.simps [simp del]

definition heap_validate :: "'a heap_scheme \<Rightarrow> bool" where
  "heap_validate st \<longleftrightarrow> heap_initialized st \<and> validate_loop st (first_block st) 0 0 = 0"

text \<open>The usage figure that \<open>heap_print_stats\<close> computes.\<close>

definition usage_percent :: "'a heap_scheme \<Rightarrow> u32" where
  "usage_percent st = ((total_size st - free_size st) * 100) div total_size st"

end
