(* ===== verification/HeapProofs.thy ===== *)
theory HeapProofs
  imports Heap
begin

text \<open>
  The heap as a list of blocks. \<open>seg m E p a bs\<close> says that the memory holds, from address
  \<open>a\<close> on, the headers of the blocks \<open>bs\<close> (payload size and free flag), each linked to the
  next one and back, in a heap that ends at \<open>E\<close>. \<open>heap_rep st bs\<close> says that a heap state
  represents the list \<open>bs\<close>: the blocks tile the heap without gap or overlap and the
  counters agree. The operations are shown to act on \<open>bs\<close> as an allocator should: best
  fit, split, coalesce.
\<close>

section \<open>Block lists\<close>

type_synonym blk = "nat \<times> bool"

fun ext :: "blk list \<Rightarrow> nat" where
  "ext [] = 0"
| "ext ((s, f) # bs) = 20 + s + ext bs"

lemma ext_append [simp]: "ext (xs @ ys) = ext xs + ext ys"
  by (induction xs rule: ext.induct) auto

definition magic_of :: "bool \<Rightarrow> u32" where
  "magic_of f = (if f then HEAP_MAGIC_FREE else HEAP_MAGIC_ALLOCATED)"

definition hdr :: "mem \<Rightarrow> nat \<Rightarrow> nat \<Rightarrow> bool \<Rightarrow> nat \<Rightarrow> nat \<Rightarrow> bool" where
  "hdr m a s f n p \<longleftrightarrow> rd m a = of_nat s \<and> rd m (a + 4) = (if f then 1 else 0)
     \<and> rd m (a + 8) = magic_of f \<and> rd m (a + 12) = of_nat n \<and> rd m (a + 16) = of_nat p"

fun seg :: "mem \<Rightarrow> nat \<Rightarrow> nat \<Rightarrow> nat \<Rightarrow> blk list \<Rightarrow> bool" where
  "seg m E p a [] \<longleftrightarrow> True"
| "seg m E p a ((s, f) # bs) \<longleftrightarrow>
     hdr m a s f (if a + 20 + s = E then 0 else a + 20 + s) p \<and> seg m E a (a + 20 + s) bs"

fun lastb :: "nat \<Rightarrow> nat \<Rightarrow> blk list \<Rightarrow> nat" where
  "lastb p a [] = p"
| "lastb p a ((s, f) # bs) = lastb a (a + 20 + s) bs"

lemma seg_append:
  "seg m E p a (xs @ ys) \<longleftrightarrow> seg m E p a xs \<and> seg m E (lastb p a xs) (a + ext xs) ys"
  by (induction xs arbitrary: p a rule: ext.induct) (auto simp: add.assoc)

lemma lastb_append: "lastb p a (xs @ ys) = lastb (lastb p a xs) (a + ext xs) ys"
  by (induction xs arbitrary: p a rule: ext.induct) (auto simp: add.assoc)

lemma hdr_unchanged:
  "unchanged_outside m m' lo hi \<Longrightarrow> a + 20 \<le> lo \<or> hi \<le> a \<Longrightarrow> a + 20 \<le> 4294967296
    \<Longrightarrow> hdr m' a s f n p = hdr m a s f n p"
  by (auto simp: hdr_def rd_unchanged [of m m' lo hi])

lemma seg_unchanged:
  "unchanged_outside m m' lo hi \<Longrightarrow> a + ext bs \<le> lo \<or> hi \<le> a \<Longrightarrow> a + ext bs \<le> 4294967296
    \<Longrightarrow> seg m' E p a bs = seg m E p a bs"
proof (induction bs arbitrary: p a rule: ext.induct)
  case (2 s f bs)
  have "hdr m' a s f n p = hdr m a s f n p" for n p
    using "2.prems" by (intro hdr_unchanged) auto
  then show ?case using 2 by (auto simp: add.assoc)
qed simp

lemma seg_wr:
  "b + 4 \<le> a \<or> a + ext bs \<le> b \<Longrightarrow> b + 4 \<le> 4294967296 \<Longrightarrow> a + ext bs \<le> 4294967296
    \<Longrightarrow> seg (wr m b v) E p a bs = seg m E p a bs"
  by (rule seg_unchanged [OF wr_unchanged]) auto

text \<open>A segment whose first back link is changed: the only field of \<open>ys\<close> that splitting or merging
  the block before it touches.\<close>

lemma seg_relink:
  assumes "seg m E p a bs" and "bs \<noteq> []" and "a + ext bs \<le> 4294967296"
  shows "seg (wr m (a + 16) (of_nat q)) E q a bs"
proof -
  obtain s f cs where bs: "bs = (s, f) # cs" using assms(2) by (cases bs rule: ext.cases) auto
  with assms show ?thesis by (auto simp: hdr_def rd_wr_other seg_wr)
qed

lemmas mem_step = rd_wr_other seg_wr

section \<open>What the header updates do\<close>

lemma split_mem:
  assumes seg: "seg m E p a ((s, f) # ys)" and E: "a + 20 + s + ext ys = E" "E < 4294967296"
    and n: "n + 52 \<le> s" and nx: "nx = (if a + 20 + s = E then 0 else a + 20 + s)"
    and nb: "nb = a + 20 + n"
    and m5: "m5 = wr (wr (wr (wr (wr m nb (of_nat (s - n - 20))) (nb + 4) 1) (nb + 8) HEAP_MAGIC_FREE)
        (nb + 12) (of_nat nx)) (nb + 16) (of_nat a)"
    and m6: "m6 = (if nx \<noteq> 0 then wr m5 (nx + 16) (of_nat nb) else m5)"
  shows "seg (wr (wr m6 (a + 12) (of_nat nb)) a (of_nat n)) E p a ((n, f) # (s - n - 20, True) # ys)"
proof -
  have hd: "hdr m a s f nx p" and tl: "seg m E a (a + 20 + s) ys" using seg nx by simp_all
  have end_nb: "nb + 20 + (s - n - 20) = a + 20 + s" using n nb by simp
  have tl5: "seg m5 E a (a + 20 + s) ys"
    using tl E n by (simp add: m5 nb mem_step)
  have hd5: "rd m5 (a + 4) = (if f then 1 else 0)" "rd m5 (a + 8) = magic_of f" "rd m5 (a + 16) = of_nat p"
    using hd E n by (simp_all add: m5 nb mem_step hdr_def)
  have new5: "hdr m5 nb (s - n - 20) True nx a"
    using E n by (simp add: m5 nb mem_step hdr_def magic_of_def)
  have tl6: "seg m6 E nb (a + 20 + s) ys"
  proof (cases ys)
    case (Cons y zs)
    obtain s2 f2 where y: "y = (s2, f2)" by fastforce
    then have "nx = a + 20 + s" using nx E Cons by simp
    then show ?thesis using seg_relink [OF tl5, of nb] E n Cons y by (simp add: m6)
  qed simp
  have nx_cases: "nx = 0 \<or> (nx = a + 20 + s \<and> nx + 20 \<le> E)"
    using nx E by (cases ys rule: ext.cases) auto
  have other6: "rd m6 x = rd m5 x" if "x + 4 \<le> a + 20 + s" for x
    using that nx_cases E by (auto simp: m6 rd_wr_other)
  have new6: "hdr m6 nb (s - n - 20) True nx a"
    using new5 n nb by (auto simp: hdr_def other6)
  have hd6: "rd m6 (a + 4) = (if f then 1 else 0)" "rd m6 (a + 8) = magic_of f" "rd m6 (a + 16) = of_nat p"
    using hd5 by (simp_all add: other6)
  have "hdr (wr (wr m6 (a + 12) (of_nat nb)) a (of_nat n)) nb (s - n - 20) True nx a"
    using new6 E n by (auto simp: hdr_def rd_wr_other nb)
  moreover have "hdr (wr (wr m6 (a + 12) (of_nat nb)) a (of_nat n)) a n f nb p"
    using hd6 E n by (auto simp: hdr_def rd_wr_other)
  moreover have "seg (wr (wr m6 (a + 12) (of_nat nb)) a (of_nat n)) E nb (a + 20 + s) ys"
    using tl6 E n by (simp add: mem_step)
  moreover have "(nb = E) = False" using E n nb by simp
  ultimately show ?thesis
    by (simp only: seg.simps nb [symmetric] end_nb nx [symmetric] if_False simp_thms)
qed

lemma mark_mem:
  assumes "seg m E p a ((s, f) # ys)" and "a + 20 + s + ext ys \<le> 4294967296"
  shows "seg (wr (wr m (a + 4) (if g then 1 else 0)) (a + 8) (magic_of g)) E p a ((s, g) # ys)"
  using assms by (auto simp: hdr_def mem_step)

lemma merge_mem:
  assumes seg: "seg m E p a ((s, f) # (s2, g) # ys)"
    and E: "a + 40 + s + s2 + ext ys = E" "E < 4294967296"
    and nx: "nx = (if a + 40 + s + s2 = E then 0 else a + 40 + s + s2)"
    and m2: "m2 = wr (wr m a (of_nat (s + 20 + s2))) (a + 12) (of_nat nx)"
  shows "seg (if nx \<noteq> 0 then wr m2 (nx + 16) (of_nat a) else m2) E p a ((s + 20 + s2, f) # ys)"
proof -
  define m3 where "m3 = (if nx \<noteq> 0 then wr m2 (nx + 16) (of_nat a) else m2)"
  define b where "b = a + 20 + s"
  have e: "b + 20 + s2 = a + 40 + s + s2" "a + 20 + (s + 20 + s2) = a + 40 + s + s2" by (simp_all add: b_def)
  have hd: "rd m (a + 4) = (if f then 1 else 0)" "rd m (a + 8) = magic_of f" "rd m (a + 16) = of_nat p"
    and tl: "seg m E b (a + 40 + s + s2) ys"
    using seg e by (auto simp: hdr_def b_def add.assoc)
  have tl2: "seg m2 E b (a + 40 + s + s2) ys" using tl E by (simp add: m2 mem_step)
  have hd2: "hdr m2 a (s + 20 + s2) f nx p" using hd E by (auto simp: m2 mem_step hdr_def)
  have nx_cases: "nx = 0 \<or> (nx = a + 40 + s + s2 \<and> nx + 20 \<le> E)"
    using nx E by (cases ys rule: ext.cases) auto
  have "hdr m3 a (s + 20 + s2) f nx p"
    using hd2 nx_cases E by (auto simp: m3_def hdr_def rd_wr_other)
  moreover have "seg m3 E a (a + 40 + s + s2) ys"
  proof (cases ys)
    case (Cons y zs)
    obtain s3 f3 where y: "y = (s3, f3)" by fastforce
    then have "nx = a + 40 + s + s2" using nx E Cons by simp
    then show ?thesis using seg_relink [OF tl2, of a] E Cons y by (simp add: m3_def)
  qed simp
  ultimately show ?thesis
    by (simp only: seg.simps e nx [symmetric] m3_def [symmetric] simp_thms)
qed

lemma unchanged_wr:
  "unchanged_outside m m' lo hi \<Longrightarrow> lo \<le> a \<Longrightarrow> a + 4 \<le> hi \<Longrightarrow> a + 4 \<le> 4294967296 \<Longrightarrow>
    unchanged_outside m (wr m' a v) lo hi"
  by (rule unchanged_outside_trans, assumption, rule unchanged_outside_mono [OF wr_unchanged]) auto

text \<open>Splitting: nothing when the rest is too small for a block, else a new free block behind. The
  hypothesis \<open>n + 20 \<le> s\<close> is what keeps \<open>block->size - size - sizeof(heap_block_t)\<close> from
  wrapping around.\<close>

lemma split_block_small:
  assumes "seg (mem st) E p a ((s, f) # ys)" and "s < 4294967296"
    and "n + 20 \<le> s" and "s < n + 52"
  shows "split_block (of_nat a) (of_nat n) st = st"
proof -
  have "rd (mem st) a - of_nat n - HEADER = of_nat (s - n - 20)"
    using assms by (simp add: hdr_def HEADER_def)
  moreover have "unat (of_nat (s - n - 20) :: u32) = s - n - 20"
    using assms by (intro unat_of_nat_u32) linarith
  then have "(of_nat (s - n - 20) :: u32) < 32"
    using assms by (simp only: word_less_nat_alt) simp
  ultimately show ?thesis
    by (simp add: split_block_def Let_def rd_fold MIN_ALLOC_SIZE_def not_le)
qed

lemma split_block_large:
  assumes seg: "seg (mem st) E p a ((s, f) # ys)" and E: "a + 20 + s + ext ys = E" "E < 4294967296"
    and n: "n + 52 \<le> s"
  obtains m' where "split_block (of_nat a) (of_nat n) st = st\<lparr>mem := m', blocks_free := blocks_free st + 1\<rparr>"
    and "seg m' E p a ((n, f) # (s - n - 20, True) # ys)"
    and "unchanged_outside (mem st) m' a (a + 40 + s)"
proof -
  define m nx nb where "m = mem st" and "nx = (if a + 20 + s = E then 0 else a + 20 + s)" and "nb = a + 20 + n"
  define m3 where "m3 = wr (wr (wr m nb (of_nat (s - n - 20))) (nb + 4) 1) (nb + 8) HEAP_MAGIC_FREE"
  define m5 where "m5 = wr (wr m3 (nb + 12) (of_nat nx)) (nb + 16) (of_nat a)"
  define m6 where "m6 = (if nx \<noteq> 0 then wr m5 (nx + 16) (of_nat nb) else m5)"
  define m8 where "m8 = wr (wr m6 (a + 12) (of_nat nb)) a (of_nat n)"
  have hd: "hdr m a s f nx p" using seg by (simp add: m_def nx_def)
  have nx: "nx = 0 \<or> (nx = a + 20 + s \<and> nx + 20 \<le> E)"
    using E by (cases ys rule: ext.cases) (auto simp: nx_def)
  have bnds: "nb + 20 \<le> a + 20 + s" "a + 20 + s \<le> E" "nx < 4294967296" using E n nx by (auto simp: nb_def)
  have rem: "rd m a - of_nat n - HEADER = of_nat (s - n - 20)"
    using hd n by (simp add: hdr_def HEADER_def)
  have "unat (of_nat (s - n - 20) :: u32) = s - n - 20"
    using E by (intro unat_of_nat_u32) linarith
  then have ge: "MIN_ALLOC_SIZE \<le> (of_nat (s - n - 20) :: u32)"
    using n by (simp only: word_le_nat_alt MIN_ALLOC_SIZE_def) simp
  have nbw: "of_nat a + HEADER + of_nat n = (of_nat nb :: u32)" by (simp add: nb_def HEADER_def)
  have r3: "rd m3 (a + 12) = of_nat nx" and r5: "rd m5 (a + 12) = of_nat nx"
    using hd n bnds E by (simp_all add: m3_def m5_def nb_def hdr_def rd_wr_other)
  have nz: "(of_nat nx :: u32) \<noteq> 0 \<longleftrightarrow> nx \<noteq> 0" using bnds by (simp add: of_nat_u32_eq_0)
  have "split_block (of_nat a) (of_nat n) st = st\<lparr>mem := m8, blocks_free := blocks_free st + 1\<rparr>"
    unfolding split_block_def Let_def rd_fold m_def [symmetric] rem nbw wr_fold
      m3_def [symmetric] r3 m5_def [symmetric] r5 nz m6_def [symmetric] m8_def [symmetric]
    using ge by (simp only: if_True)
  moreover have "seg m8 E p a ((n, f) # (s - n - 20, True) # ys)"
    unfolding m8_def
    by (rule split_mem [OF seg [folded m_def] E n nx_def nb_def _ m6_def]) (simp add: m5_def m3_def)
  moreover have "unchanged_outside m m8 a (a + 40 + s)"
    using bnds nx E by (auto simp: m8_def m6_def m5_def m3_def nb_def intro!: unchanged_wr)
  ultimately show ?thesis using that by (simp add: m_def)
qed

text \<open>Merging with the block behind, and with the block in front.\<close>

lemma merge_next_none:
  assumes "seg (mem st) E p a ((s, f) # ys)" and "a + 20 + s + ext ys = E" "E < 4294967296"
    and "ys = [] \<or> \<not> snd (hd ys)"
  shows "merge_next (of_nat a) st = st"
proof (cases ys rule: ext.cases)
  case 1
  then show ?thesis using assms by (simp add: merge_next_def Let_def rd_fold hdr_def)
next
  case (2 s2 f2 zs)
  then have "rd (mem st) (a + 12) = of_nat (a + 20 + s)" "rd (mem st) (a + 20 + s + 4) = 0"
    using assms by (auto simp: hdr_def)
  then have "blk_free (mem st) (blk_next (mem st) (of_nat a)) = 0"
    by (simp only: rd_fold)
  then show ?thesis by (simp add: merge_next_def Let_def)
qed

lemma merge_next_free:
  assumes seg: "seg (mem st) E p a ((s, f) # (s2, True) # ys)"
    and E: "a + 40 + s + s2 + ext ys = E" "E < 4294967296"
  obtains m' where "merge_next (of_nat a) st = st\<lparr>mem := m', blocks_free := blocks_free st - 1\<rparr>"
    and "seg m' E p a ((s + 20 + s2, f) # ys)"
    and "unchanged_outside (mem st) m' a (a + 60 + s + s2)"
proof -
  define m b nx where "m = mem st" and "b = a + 20 + s" and "nx = (if a + 40 + s + s2 = E then 0 else a + 40 + s + s2)"
  define m1 where "m1 = wr m a (of_nat (s + 20 + s2))"
  define m2 where "m2 = wr m1 (a + 12) (of_nat nx)"
  define m3 where "m3 = (if nx \<noteq> 0 then wr m2 (nx + 16) (of_nat a) else m2)"
  have b: "b < 4294967296" "b \<noteq> E" "b \<noteq> 0" using E by (auto simp: b_def)
  have hd: "rd m a = of_nat s" "rd m (a + 12) = of_nat b" and hb: "hdr m b s2 True nx a"
    using seg b E by (auto simp: m_def b_def nx_def hdr_def add.assoc)
  have nx: "nx = 0 \<or> (nx = a + 40 + s + s2 \<and> nx + 20 \<le> E)"
    using E by (cases ys rule: ext.cases) (auto simp: nx_def)
  have sz: "of_nat s + (HEADER + of_nat s2) = (of_nat (s + 20 + s2) :: u32)" by (simp add: HEADER_def)
  have rb: "rd m b = of_nat s2" "rd m1 (b + 12) = of_nat nx" "rd m2 (b + 12) = of_nat nx" "rd m (b + 4) = 1"
    using hb E by (auto simp: m1_def m2_def hdr_def rd_wr_other b_def)
  have "nx < 4294967296" using nx E by auto
  then have nz: "(of_nat nx :: u32) \<noteq> 0 \<longleftrightarrow> nx \<noteq> 0" by (simp add: of_nat_u32_eq_0)
  have cond: "((of_nat b :: u32) \<noteq> 0 \<and> (1 :: u32) \<noteq> 0) = True" using b by (simp add: of_nat_u32_eq_0)
  have "merge_next (of_nat a) st = st\<lparr>mem := m3, blocks_free := blocks_free st - 1\<rparr>"
    unfolding merge_next_def Let_def m_def [symmetric] rd_fold hd rb cond if_True sz wr_fold m1_def [symmetric]
      m2_def [symmetric] nz m3_def [symmetric]
    by (rule refl)
  moreover have "seg m3 E p a ((s + 20 + s2, f) # ys)"
    unfolding m3_def by (rule merge_mem [OF seg [folded m_def] E nx_def]) (simp add: m1_def m2_def)
  moreover have "unchanged_outside m m3 a (a + 60 + s + s2)"
    using nx E by (auto simp: m1_def m2_def m3_def intro!: unchanged_wr)
  ultimately show ?thesis using that by (simp add: m_def)
qed

lemma merge_prev_none:
  assumes "hdr (mem st) b s f n p" and "p < 4294967296"
    and "p = 0 \<or> hdr (mem st) p s0 False n0 p0"
  shows "merge_prev (of_nat b) st = st"
proof (cases "p = 0")
  case True
  then show ?thesis using assms(1) by (simp add: merge_prev_def Let_def rd_fold hdr_def)
next
  case False
  then have "rd (mem st) (b + 16) = of_nat p" "rd (mem st) (p + 4) = 0" using assms by (auto simp: hdr_def)
  then have "blk_free (mem st) (blk_prev (mem st) (of_nat b)) = 0" by (simp only: rd_fold)
  then show ?thesis by (simp add: merge_prev_def Let_def)
qed

lemma merge_prev_free:
  assumes seg: "seg (mem st) E p a ((s, True) # (s2, f) # ys)" and a: "0 < a"
    and E: "a + 40 + s + s2 + ext ys = E" "E < 4294967296"
  obtains m' where "merge_prev (of_nat (a + 20 + s)) st = st\<lparr>mem := m', blocks_free := blocks_free st - 1\<rparr>"
    and "seg m' E p a ((s + 20 + s2, True) # ys)"
    and "unchanged_outside (mem st) m' a (a + 60 + s + s2)"
    and "rd m' (a + 28 + s) = rd (mem st) (a + 28 + s)"
proof -
  define m b nx where "m = mem st" and "b = a + 20 + s" and "nx = (if a + 40 + s + s2 = E then 0 else a + 40 + s + s2)"
  define m1 where "m1 = wr m a (of_nat (s + 20 + s2))"
  define m2 where "m2 = wr m1 (a + 12) (of_nat nx)"
  define m3 where "m3 = (if nx \<noteq> 0 then wr m2 (nx + 16) (of_nat a) else m2)"
  have b: "b < 4294967296" "b \<noteq> E" using E by (auto simp: b_def)
  have hd: "rd m a = of_nat s" "rd m (a + 4) = 1" and hb: "hdr m b s2 f nx a"
    using seg b E by (auto simp: m_def b_def nx_def hdr_def add.assoc)
  have nx: "nx = 0 \<or> (nx = a + 40 + s + s2 \<and> nx + 20 \<le> E)"
    using E by (cases ys rule: ext.cases) (auto simp: nx_def)
  have sz: "of_nat s + (HEADER + of_nat s2) = (of_nat (s + 20 + s2) :: u32)" by (simp add: HEADER_def)
  have rb: "rd m b = of_nat s2" "rd m (b + 16) = of_nat a" "rd m1 (b + 12) = of_nat nx" "rd m2 (b + 12) = of_nat nx"
    using hb E by (auto simp: m1_def m2_def hdr_def rd_wr_other b_def)
  have "nx < 4294967296" using nx E by auto
  then have nz: "(of_nat nx :: u32) \<noteq> 0 \<longleftrightarrow> nx \<noteq> 0" by (simp add: of_nat_u32_eq_0)
  have cond: "((of_nat a :: u32) \<noteq> 0 \<and> (1 :: u32) \<noteq> 0) = True" using a E by (simp add: of_nat_u32_eq_0)
  have "merge_prev (of_nat b) st = st\<lparr>mem := m3, blocks_free := blocks_free st - 1\<rparr>"
    unfolding merge_prev_def Let_def m_def [symmetric] rd_fold hd rb cond if_True sz wr_fold m1_def [symmetric]
      m2_def [symmetric] nz m3_def [symmetric]
    by (rule refl)
  moreover have "seg m3 E p a ((s + 20 + s2, True) # ys)"
    unfolding m3_def by (rule merge_mem [OF seg [folded m_def] E nx_def]) (simp add: m1_def m2_def)
  moreover have "unchanged_outside m m3 a (a + 60 + s + s2)"
    using nx E by (auto simp: m1_def m2_def m3_def intro!: unchanged_wr)
  moreover have "rd m3 (a + 28 + s) = rd m (a + 28 + s)"
    using nx E by (auto simp: m1_def m2_def m3_def rd_wr_other)
  ultimately show ?thesis using that by (simp add: m_def b_def)
qed

section \<open>The representation relation\<close>

definition n_alloc :: "blk list \<Rightarrow> nat" where "n_alloc bs = length (filter (\<lambda>(s, f). \<not> f) bs)"
definition n_free :: "blk list \<Rightarrow> nat" where "n_free bs = length (filter snd bs)"

definition heap_rep :: "'a heap_scheme \<Rightarrow> blk list \<Rightarrow> bool" where
  "heap_rep st bs \<longleftrightarrow> heap_initialized st \<and> bs \<noteq> []
     \<and> first_block st = heap_start st \<and> 0 < heap_start st
     \<and> unat (heap_start st) + ext bs = unat (heap_end st)
     \<and> seg (mem st) (unat (heap_end st)) 0 (unat (heap_start st)) bs
     \<and> total_size st = of_nat (ext bs)
     \<and> blocks_allocated st = of_nat (n_alloc bs) \<and> blocks_free st = of_nat (n_free bs)"

section \<open>Best fit\<close>

fun fits :: "nat \<Rightarrow> blk \<Rightarrow> bool" where
  "fits n (s, f) \<longleftrightarrow> f \<and> n \<le> s"

text \<open>The search on block lists, from address \<open>a\<close> with the best candidate so far \<open>b\<close> of size \<open>z\<close>.\<close>

fun best_of :: "nat \<Rightarrow> nat \<Rightarrow> blk list \<Rightarrow> nat \<Rightarrow> nat \<Rightarrow> nat" where
  "best_of n a [] b z = b"
| "best_of n a ((s, f) # bs) b z =
     (if f \<and> n \<le> s \<and> s < z then (if s = n then a else best_of n (a + 20 + s) bs a s)
      else best_of n (a + 20 + s) bs b z)"

lemma best_fit_loop_seg:
  assumes "seg m E p a bs" and "a + ext bs = E" and "E < 4294967296" and "0 < a"
    and "n < 4294967296" and "z < 4294967296"
  shows "best_fit_loop m (of_nat n) (of_nat (if bs = [] then 0 else a)) (of_nat b) (of_nat z)
    = Some (of_nat (best_of n a bs b z))"
  using assms
proof (induction bs arbitrary: p a b z rule: ext.induct)
  case 1
  show ?case by (simp add: best_fit_loop.simps)
next
  case (2 s f bs)
  have a: "(of_nat a :: u32) \<noteq> 0" using "2.prems" by (simp add: of_nat_u32_eq_0)
  have s: "s < 4294967296" using "2.prems" by simp
  have hd: "rd m a = of_nat s" "rd m (a + 4) = (if f then 1 else 0)"
    and nx: "rd m (a + 12) = of_nat (if bs = [] then 0 else a + 20 + s)"
    using "2.prems"(1,2) by (auto simp: hdr_def) (cases bs rule: ext.cases; auto)
  have tl: "seg m E a (a + 20 + s) bs" "a + 20 + s + ext bs = E" using "2.prems"(1,2) by auto
  note IH = "2.IH" [OF tl "2.prems"(3) _ "2.prems"(5)]
  have cmp: "(of_nat n :: u32) \<le> of_nat s \<longleftrightarrow> n \<le> s" "(of_nat s :: u32) < of_nat z \<longleftrightarrow> s < z"
    "(of_nat s :: u32) = of_nat n \<longleftrightarrow> s = n"
    using s "2.prems"(5,6) by (simp_all add: of_nat_u32_le of_nat_u32_less of_nat_u32_inject)
  show ?case
    unfolding best_fit_loop.simps [of m "of_nat n" "of_nat (if (s, f) # bs = [] then 0 else a)"]
    using a IH [OF _ s, of a] IH [OF _ "2.prems"(6), of b]
    by (simp add: rd_fold hd nx cmp del: of_nat_add)
qed

text \<open>What the search finds: the first of the smallest free blocks that are large enough.\<close>

lemma best_of_result:
  "(best_of n a bs b z = b \<and> (\<forall>s f. (s, f) \<in> set bs \<longrightarrow> fits n (s, f) \<longrightarrow> z \<le> s))
   \<or> (\<exists>xs s ys. bs = xs @ (s, True) # ys \<and> best_of n a bs b z = a + ext xs \<and> n \<le> s \<and> s < z
        \<and> (\<forall>s' f'. (s', f') \<in> set bs \<longrightarrow> fits n (s', f') \<longrightarrow> s \<le> s')
        \<and> (\<forall>s' f'. (s', f') \<in> set xs \<longrightarrow> fits n (s', f') \<longrightarrow> s < s'))"
proof (induction bs arbitrary: a b z rule: ext.induct)
  case (2 s f bs)
  consider (exact) "f" "s = n" "s < z" | (better) "f" "n < s" "s < z" | (skip) "\<not> (f \<and> n \<le> s \<and> s < z)"
    by force
  then show ?case
  proof cases
    case exact
    then show ?thesis
      by (intro disjI2 exI [of _ "[]"] exI [of _ s] exI [of _ bs]) auto
  next
    case better
    with "2" [of "a + 20 + s" a s] show ?thesis
    proof (elim disjE exE conjE, goal_cases)
      case 1
      then show ?case
        by (intro disjI2 exI [of _ "[]"] exI [of _ s] exI [of _ bs]) auto
    next
      case (2 xs s' ys)
      then show ?case
        by (intro disjI2 exI [of _ "(s, f) # xs"] exI [of _ s'] exI [of _ ys]) auto
    qed
  next
    case skip
    with "2" [of "a + 20 + s" b z] show ?thesis
    proof (elim disjE exE conjE, goal_cases)
      case 1
      then show ?case by auto
    next
      case (2 xs s' ys)
      then show ?case
        by (intro disjI2 exI [of _ "(s, f) # xs"] exI [of _ s'] exI [of _ ys]) auto
    qed
  qed
qed simp

end
