(* ===== verification/HeapSpec.thy ===== *)
theory HeapSpec
  imports HeapProofs
begin

text \<open>
  The operations of the kernel heap, specified on block lists: an allocation carves the best
  fitting free block, a release frees the block and coalesces it with its free neighbours, and
  both keep \<open>heap_rep\<close>. Where the code departs from an allocator (a block that fits
  with less than a header to spare) the hypothesis that excludes it is explicit, and the last
  section shows what the code does there.
\<close>

definition no_fit :: "nat \<Rightarrow> blk list \<Rightarrow> bool" where
  "no_fit n bs \<longleftrightarrow> (\<forall>s f. (s, f) \<in> set bs \<longrightarrow> \<not> fits n (s, f))"

definition picks :: "nat \<Rightarrow> blk list \<Rightarrow> blk list \<Rightarrow> nat \<Rightarrow> blk list \<Rightarrow> bool" where
  "picks n bs xs s ys \<longleftrightarrow> bs = xs @ (s, True) # ys \<and> n \<le> s
     \<and> (\<forall>s' f'. (s', f') \<in> set bs \<longrightarrow> fits n (s', f') \<longrightarrow> s \<le> s')
     \<and> (\<forall>s' f'. (s', f') \<in> set xs \<longrightarrow> fits n (s', f') \<longrightarrow> s < s')"

lemma ext_member: "(s, f) \<in> set bs \<Longrightarrow> 20 + s \<le> ext bs"
  by (induction bs rule: ext.induct) auto

lemma find_best_fit_rep:
  assumes rep: "heap_rep st bs" and n: "n < 4294967296"
  obtains "no_fit n bs" and "find_best_fit (of_nat n) st = Some 0"
  | xs s ys where "picks n bs xs s ys"
      and "find_best_fit (of_nat n) st = Some (of_nat (unat (heap_start st) + ext xs))"
proof -
  define B where "B = unat (heap_start st)"
  have B: "0 < B" using rep by (auto simp: heap_rep_def B_def unat_gt_0)
  have seg: "seg (mem st) (unat (heap_end st)) 0 B bs" "B + ext bs = unat (heap_end st)" "bs \<noteq> []"
    using rep by (simp_all add: heap_rep_def B_def)
  have sb: "s < 4294967295" if "(s, f) \<in> set bs" for s f
    using ext_member [OF that] seg(2) unat_u32_bound [of "heap_end st"] by linarith
  have "best_fit_loop (mem st) (of_nat n) (of_nat B) (of_nat 0) (of_nat 4294967295)
      = Some (of_nat (best_of n B bs 0 4294967295))"
    using best_fit_loop_seg [OF seg(1,2) unat_u32_bound B n, of 4294967295 0] seg(3) by simp
  moreover have "(of_nat 0 :: u32) = 0" "(of_nat 4294967295 :: u32) = - 1" by simp_all
  moreover have "of_nat B = first_block st" using rep by (simp add: heap_rep_def B_def)
  ultimately have f: "find_best_fit (of_nat n) st = Some (of_nat (best_of n B bs 0 4294967295))"
    by (simp only: find_best_fit_def)
  from best_of_result [of n B bs 0 4294967295] show ?thesis
  proof (elim disjE exE conjE)
    assume "best_of n B bs 0 4294967295 = 0"
      and "\<forall>s f. (s, f) \<in> set bs \<longrightarrow> fits n (s, f) \<longrightarrow> 4294967295 \<le> s"
    then show ?thesis using that(1) f sb by (fastforce simp: no_fit_def)
  next
    fix xs s ys
    assume "bs = xs @ (s, True) # ys" "best_of n B bs 0 4294967295 = B + ext xs" "n \<le> s"
      "\<forall>s' f'. (s', f') \<in> set bs \<longrightarrow> fits n (s', f') \<longrightarrow> s \<le> s'"
      "\<forall>s' f'. (s', f') \<in> set xs \<longrightarrow> fits n (s', f') \<longrightarrow> s < s'"
    then show ?thesis using that(2) [of xs s ys] f by (simp add: picks_def B_def)
  qed
qed

text \<open>The picked block is unique, and it is the one the search returns.\<close>

lemma picks_unique:
  assumes "picks n bs xs s ys" and "picks n bs xs' s' ys'"
  shows "xs = xs'"
proof -
  have bs: "bs = xs @ (s, True) # ys" "bs = xs' @ (s', True) # ys'" using assms by (simp_all add: picks_def)
  have mem: "(s, True) \<in> set bs" "(s', True) \<in> set bs" using bs by (metis in_set_conv_decomp)+
  have "n \<le> s" "n \<le> s'" using assms by (simp_all add: picks_def)
  moreover have "\<And>t. (t, True) \<in> set bs \<Longrightarrow> n \<le> t \<Longrightarrow> s \<le> t" "\<And>t. (t, True) \<in> set bs \<Longrightarrow> n \<le> t \<Longrightarrow> s' \<le> t"
    using assms unfolding picks_def fits.simps by blast+
  ultimately have "s \<le> s'" "s' \<le> s" using mem by blast+
  then have ss: "s = s'" by simp
  have first: "zs = takeWhile (\<lambda>b. b \<noteq> (s, True)) bs" if "picks n bs zs s ws" for zs ws
  proof -
    have "bs = zs @ (s, True) # ws" "\<forall>b \<in> set zs. b \<noteq> (s, True)"
      using that \<open>n \<le> s\<close> by (auto simp: picks_def)
    then show ?thesis by (simp add: takeWhile_append2)
  qed
  show ?thesis using first [OF assms(1)] first assms(2) ss by simp
qed

lemma find_best_fit_picks:
  assumes "heap_rep st bs" and "n < 4294967296" and "picks n bs xs s ys"
  shows "find_best_fit (of_nat n) st = Some (of_nat (unat (heap_start st) + ext xs))"
proof (rule find_best_fit_rep [OF assms(1,2)])
  assume "no_fit n bs"
  then show ?thesis using assms(3) by (auto simp: no_fit_def picks_def)
next
  fix xs' s' ys'
  assume "picks n bs xs' s' ys'"
    and "find_best_fit (of_nat n) st = Some (of_nat (unat (heap_start st) + ext xs'))"
  then show ?thesis using picks_unique [OF assms(3)] by blast
qed

section \<open>Allocation\<close>

lemma unat_round_size:
  assumes "unat k \<le> 4294967288"
  shows "unat (round_size k) = max 32 ((unat k + 7) div 8 * 8)"
proof -
  have "unat (memory_align_up k 8) = (unat k + 7) div 8 * 8"
    using unat_align_up [of 8 k] assms by simp
  then show ?thesis
    by (auto simp: round_size_def Let_def MIN_ALLOC_SIZE_def word_less_nat_alt max_def)
qed

text \<open>The blocks that a chosen block of size \<open>s\<close> becomes when \<open>n\<close> bytes are taken from it.\<close>

definition carve :: "nat \<Rightarrow> nat \<Rightarrow> blk list" where
  "carve n s = (if n + 52 \<le> s then [(n, False), (s - n - 20, True)] else [(s, False)])"

lemma ext_carve: "ext (carve n s) = 20 + s"
  by (simp add: carve_def)

lemma carve_not_Nil [simp]: "carve n s \<noteq> []"
  by (simp add: carve_def)

lemma rep_replace:
  assumes "seg m E 0 B (xs @ zs)" and "B + ext (xs @ zs) \<le> 4294967296"
    and "seg m' E (lastb 0 B xs) (B + ext xs) zs'" and "unchanged_outside m m' (B + ext xs) hi"
  shows "seg m' E 0 B (xs @ zs')"
  using assms seg_unchanged [OF assms(4), of B xs E 0] by (simp add: seg_append)

lemma counts_append [simp]:
  "n_alloc (xs @ ys) = n_alloc xs + n_alloc ys" "n_free (xs @ ys) = n_free xs + n_free ys"
  by (simp_all add: n_alloc_def n_free_def)

lemma counts_Cons [simp]:
  "n_alloc ((s, f) # ys) = (if f then 0 else 1) + n_alloc ys"
  "n_free ((s, f) # ys) = (if f then 1 else 0) + n_free ys"
  "n_alloc [] = 0" "n_free [] = 0"
  by (simp_all add: n_alloc_def n_free_def)

lemma heap_malloc_carves:
  assumes rep: "heap_rep st bs" and k: "k \<noteq> 0" and n: "unat (round_size k) = n"
    and pick: "picks n bs xs s ys" and room: "n + 20 \<le> s"
    and found: "find_best_fit (of_nat n) st = Some (of_nat (unat (heap_start st) + ext xs))"
  obtains st' where "heap_malloc k st = Some (of_nat (unat (heap_start st) + ext xs + 20), st')"
    and "heap_rep st' (xs @ carve n s @ ys)"
    and "heap_start st' = heap_start st" and "heap_end st' = heap_end st"
    and "unchanged_outside (mem st) (mem st') (unat (heap_start st) + ext xs)
           (unat (heap_start st) + ext xs + 40 + s)"
    and "free_size st' = free_size st - of_nat (n + 20)"
proof -
  define B E a where "B = unat (heap_start st)" and "E = unat (heap_end st)" and "a = B + ext xs"
  have bs: "bs = xs @ (s, True) # ys" using pick by (simp add: picks_def)
  have seg: "seg (mem st) E 0 B bs" and BE: "B + ext bs = E" and init: "heap_initialized st" and B: "0 < B"
    using rep by (auto simp: heap_rep_def B_def E_def unat_gt_0)
  have E: "E < 4294967296" by (simp add: E_def)
  have aE: "a + 20 + s + ext ys = E" using BE by (simp add: bs a_def)
  have "a < 4294967296" "a \<noteq> 0" using B aE E by (simp_all add: a_def)
  then have a0: "(of_nat a :: u32) \<noteq> 0" by (simp add: of_nat_u32_eq_0)
  have seg_a: "seg (mem st) E (lastb 0 B xs) a ((s, True) # ys)"
    using seg by (simp add: bs seg_append a_def)
  have nw: "round_size k = of_nat n" using n by (metis u32_of_nat_unat)
  obtain m1 c where sp: "split_block (of_nat a) (of_nat n) st = st\<lparr>mem := m1, blocks_free := blocks_free st + of_nat c\<rparr>"
    and seg1: "seg m1 E (lastb 0 B xs) a (((if c = 1 then n else s), True) # tl (carve n s) @ ys)"
    and un1: "unchanged_outside (mem st) m1 a (a + 40 + s)"
    and c: "c = (if n + 52 \<le> s then 1 else 0)"
  proof (cases "n + 52 \<le> s")
    case True
    obtain m' where "split_block (of_nat a) (of_nat n) st = st\<lparr>mem := m', blocks_free := blocks_free st + 1\<rparr>"
      and "seg m' E (lastb 0 B xs) a ((n, True) # (s - n - 20, True) # ys)"
      and "unchanged_outside (mem st) m' a (a + 40 + s)"
      by (rule split_block_large [OF seg_a aE E True])
    then show ?thesis using that [of 1 m'] True by (simp add: carve_def)
  next
    case False
    have "split_block (of_nat a) (of_nat n) st = st"
      using split_block_small [OF seg_a] False room aE E by simp
    then show ?thesis using that [of 0 "mem st"] False seg_a by (simp add: carve_def)
  qed
  define m2 where "m2 = wr (wr m1 (a + 4) (if False then 1 else 0)) (a + 8) (magic_of False)"
  define st' where "st' = st\<lparr>mem := m2, blocks_allocated := blocks_allocated st + 1,
    blocks_free := blocks_free st + of_nat c - 1, free_size := free_size st - (of_nat n + HEADER)\<rparr>"
  have found_a: "find_best_fit (of_nat n) st = Some (of_nat a)"
    using found by (simp only: a_def B_def)
  have "heap_malloc k st = Some (of_nat (a + 20), st')"
    using init k a0 by (simp add: heap_malloc_def found_a nw sp wr_fold st'_def m2_def magic_of_def HEADER_def)
  moreover have carve: "carve n s = ((if c = 1 then n else s), False) # tl (carve n s)"
    by (simp add: carve_def c)
  moreover have seg2: "seg m2 E (lastb 0 B xs) a (carve n s @ ys)"
    unfolding m2_def by (subst carve) (use mark_mem [OF seg1, of False] aE E c in \<open>auto simp: carve_def\<close>)
  moreover have un2: "unchanged_outside (mem st) m2 a (a + 40 + s)"
    using un1 aE E by (auto simp: m2_def intro!: unchanged_wr)
  moreover have "heap_rep st' (xs @ carve n s @ ys)"
  proof -
    have "seg m2 E 0 B (xs @ carve n s @ ys)"
      using rep_replace [OF seg [unfolded bs] _ _ un2 [unfolded a_def]] seg2 BE E by (simp add: bs a_def)
    moreover have "ext (xs @ carve n s @ ys) = ext bs" by (simp add: bs ext_carve)
    ultimately show ?thesis
      using rep c by (auto simp: heap_rep_def st'_def B_def E_def bs carve_def)
  qed
  ultimately show ?thesis
    using that [of st'] by (simp add: st'_def a_def B_def HEADER_def add.assoc)
qed

lemma heap_malloc_no_fit:
  assumes "heap_rep st bs" and "no_fit (unat (round_size k)) bs"
  shows "heap_malloc k st = Some (0, st)"
proof (cases "k = 0")
  case False
  show ?thesis
  proof (rule find_best_fit_rep [OF assms(1), of "unat (round_size k)"])
    assume "find_best_fit (of_nat (unat (round_size k))) st = Some 0"
    then show ?thesis using False by (simp add: heap_malloc_def)
  next
    fix xs s ys
    assume "picks (unat (round_size k)) bs xs s ys"
    then have "(s, True) \<in> set bs" "unat (round_size k) \<le> s" by (auto simp: picks_def)
    then show ?thesis using assms(2) by (auto simp: no_fit_def)
  qed simp
qed (simp add: heap_malloc_def)

section \<open>Release\<close>

text \<open>The block list after the allocated block of size \<open>s\<close> between \<open>xs\<close> and \<open>ys\<close> is
  released: free neighbours on both sides are absorbed.\<close>

fun join_next :: "nat \<Rightarrow> blk list \<Rightarrow> blk list" where
  "join_next s ((s2, True) # ys) = (s + 20 + s2, True) # ys"
| "join_next s ys = (s, True) # ys"

definition join_prev :: "blk list \<Rightarrow> blk list \<Rightarrow> blk list" where
  "join_prev xs zs = (if xs \<noteq> [] \<and> snd (last xs)
     then butlast xs @ (fst (last xs) + 20 + fst (hd zs), True) # tl zs else xs @ zs)"

definition released :: "blk list \<Rightarrow> nat \<Rightarrow> blk list \<Rightarrow> blk list" where
  "released xs s ys = join_prev xs (join_next s ys)"

lemma join_next_not_Nil [simp]: "join_next s ys \<noteq> []"
  by (cases "(s, ys)" rule: join_next.cases) auto

lemma join_next_hd: "join_next s ys = (fst (hd (join_next s ys)), True) # tl (join_next s ys)"
  by (cases "(s, ys)" rule: join_next.cases) auto

lemma ext_join_next [simp]: "ext (join_next s ys) = 20 + s + ext ys"
  by (cases "(s, ys)" rule: join_next.cases) auto

lemma merge_next_blocks:
  assumes seg: "seg (mem st) E p a ((s, True) # ys)" and E: "a + 20 + s + ext ys = E" "E < 4294967296"
    and cnt: "blocks_free st = of_nat (j + n_free ((s, True) # ys))"
  obtains st' where "merge_next (of_nat a) st = st'"
    and "seg (mem st') E p a (join_next s ys)"
    and "unchanged_outside (mem st) (mem st') a (a + 40 + fst (hd (join_next s ys)))"
    and "blocks_free st' = of_nat (j + n_free (join_next s ys))"
    and "st' = st\<lparr>mem := mem st', blocks_free := blocks_free st'\<rparr>"
proof (cases "ys = [] \<or> \<not> snd (hd ys)")
  case True
  then have j: "join_next s ys = (s, True) # ys" by (cases "(s, ys)" rule: join_next.cases) auto
  show ?thesis
    using merge_next_none [OF seg E True] seg cnt by (intro that) (auto simp: j unchanged_outside_refl)
next
  case False
  then obtain s2 zs where ys: "ys = (s2, True) # zs" by (cases "(s, ys)" rule: join_next.cases) auto
  obtain m' where m': "merge_next (of_nat a) st = st\<lparr>mem := m', blocks_free := blocks_free st - 1\<rparr>"
    "seg m' E p a ((s + 20 + s2, True) # zs)" "unchanged_outside (mem st) m' a (a + 60 + s + s2)"
    by (rule merge_next_free [OF seg [unfolded ys]]) (use E ys in auto)
  moreover have "a + 60 + s + s2 = a + 40 + (s + 20 + s2)" by simp
  ultimately show ?thesis
    using cnt by (intro that [OF m'(1)]) (simp_all only: ys join_next.simps, simp_all)
qed

lemma merge_prev_blocks:
  assumes seg: "seg (mem st) E 0 B (xs @ (s, True) # ys)" and B: "0 < B"
    and E: "B + ext xs + 20 + s + ext ys = E" "E < 4294967296"
    and cnt: "blocks_free st = of_nat (n_free (xs @ (s, True) # ys))"
    and zs: "zs = join_prev xs ((s, True) # ys)"
  obtains st' front S where "merge_prev (of_nat (B + ext xs)) st = st'"
    and "seg (mem st') E 0 B zs"
    and "zs = front @ (S, True) # ys" and "ext front + S = ext xs + s" and "s \<le> S"
    and "unchanged_outside (mem st) (mem st') (B + ext front) (B + ext xs + 40 + s)"
    and "rd (mem st') (B + ext xs + 8) = rd (mem st) (B + ext xs + 8)"
    and "blocks_free st' = of_nat (n_free zs)"
    and "st' = st\<lparr>mem := mem st', blocks_free := blocks_free st'\<rparr>"
proof (cases xs rule: rev_cases)
  case Nil
  have "merge_prev (of_nat B) st = st"
    by (rule merge_prev_none [of st B s True _ 0]) (use seg Nil in auto)
  then show ?thesis
    using seg cnt by (intro that [of _ "[]" s]) (auto simp: Nil zs join_prev_def)
next
  case (snoc ws w)
  obtain s0 f0 where w: "w = (s0, f0)" by fastforce
  define q where "q = B + ext ws"
  have segs: "seg (mem st) E 0 B ws" "seg (mem st) E (lastb 0 B ws) q ((s0, f0) # (s, True) # ys)"
    using seg by (simp_all add: snoc w seg_append q_def)
  have a: "B + ext xs = q + 20 + s0" by (simp add: snoc w q_def)
  show ?thesis
  proof (cases f0)
    case False
    have "merge_prev (of_nat (B + ext xs)) st = st"
      unfolding a by (rule merge_prev_none [of st "q + 20 + s0" s True _ q]) (use segs E a False in auto)
    then show ?thesis
      using seg cnt by (intro that [of _ xs s]) (auto simp: snoc w False zs join_prev_def simp del: of_nat_add)
  next
    case True
    obtain m' where m': "merge_prev (of_nat (q + 20 + s0)) st = st\<lparr>mem := m', blocks_free := blocks_free st - 1\<rparr>"
      "seg m' E (lastb 0 B ws) q ((s0 + 20 + s, True) # ys)"
      "unchanged_outside (mem st) m' q (q + 60 + s0 + s)"
      "rd m' (q + 28 + s0) = rd (mem st) (q + 28 + s0)"
      by (rule merge_prev_free [of st E "lastb 0 B ws" q s0 s True ys]) (use segs(2) True E a B in \<open>auto simp: q_def\<close>)
    have z: "zs = ws @ (s0 + 20 + s, True) # ys" by (simp add: zs join_prev_def snoc w True)
    have "seg m' E 0 B ws"
      using seg_unchanged [OF m'(3), of B ws E 0] segs(1) E a by (simp add: q_def)
    then have "seg m' E 0 B zs" using m'(2) by (simp add: z seg_append q_def)
    moreover have "unchanged_outside (mem st) m' q (B + ext xs + 40 + s)"
      using m'(3) by (simp add: a add.assoc)
    moreover have "rd m' (B + ext xs + 8) = rd (mem st) (B + ext xs + 8)"
    proof -
      have "B + ext xs + 8 = q + 28 + s0" by (simp add: a)
      then show ?thesis using m'(4) by (simp only:)
    qed
    ultimately show ?thesis
      using m'(1) [folded a] cnt
      by (intro that [of "merge_prev (of_nat (B + ext xs)) st" ws "s0 + 20 + s"])
        (simp_all add: snoc w True z q_def del: of_nat_add)
  qed
qed

section \<open>Payloads\<close>

text \<open>The addresses that belong to the callers: the payload bytes of the allocated blocks.\<close>

fun user :: "nat \<Rightarrow> blk list \<Rightarrow> nat set" where
  "user a [] = {}"
| "user a ((s, f) # bs) = (if f then {} else {a + 20 ..< a + 20 + s}) \<union> user (a + 20 + s) bs"

lemma user_append [simp]: "user a (xs @ ys) = user a xs \<union> user (a + ext xs) ys"
  by (induction xs arbitrary: a rule: ext.induct) (auto simp: add.assoc)

lemma user_bounds: "x \<in> user a bs \<Longrightarrow> a + 20 \<le> x \<and> x < a + ext bs"
  by (induction bs arbitrary: a rule: ext.induct) (fastforce split: if_splits)+

text \<open>An operation that writes from the header of a block up to the header of the next one leaves the
  payloads of the blocks around it alone.\<close>

lemma user_frame:
  assumes "unchanged_outside m m' a (b + 20)" and "x \<in> user B xs \<union> user b ys"
    and "a = B + ext xs" and "b + ext ys \<le> 4294967296" and "a \<le> b"
  shows "m' (of_nat x) = m (of_nat x)"
proof -
  have x: "x < a \<or> b + 20 \<le> x" "x < 4294967296"
    using assms(2-5) user_bounds [of x B xs] user_bounds [of x b ys] by auto
  then have "unat (of_nat x :: u32) = x" by (intro unat_of_nat_u32)
  with x(1) assms(1) show ?thesis unfolding unchanged_outside_def by metis
qed

lemma user_released: "user B (released xs s ys) = user B xs \<union> user (B + ext xs + 20 + s) ys"
  by (cases "(s, ys)" rule: join_next.cases; cases xs rule: rev_cases)
    (auto simp: released_def join_prev_def ac_simps)

lemma user_carve: "user a (carve n s) = {a + 20 ..< a + 20 + (if n + 52 \<le> s then n else s)}"
  by (simp add: carve_def)

lemma released_facts:
  "ext (released xs s ys) = ext (xs @ (s, f) # ys)" "released xs s ys \<noteq> []"
  "n_alloc (released xs s ys) = n_alloc xs + n_alloc ys"
  by (cases "(s, ys)" rule: join_next.cases; cases xs rule: rev_cases;
      auto simp: released_def join_prev_def; fail)+

text \<open>What a release does before it merges.\<close>

lemma heap_free_marks:
  assumes seg: "seg (mem st) E p a ((s, False) # ys)" and aE: "a + 20 + s + ext ys = E" "E < 4294967296"
    and init: "heap_initialized st"
  obtains m where "heap_free (of_nat (a + 20)) st = merge_prev (of_nat a) (merge_next (of_nat a)
      (st\<lparr>mem := m, blocks_allocated := blocks_allocated st - 1, blocks_free := blocks_free st + 1,
         free_size := free_size st + of_nat (s + 20)\<rparr>))"
    and "seg m E p a ((s, True) # ys)" and "unchanged_outside (mem st) m a (a + 40 + s)"
proof -
  define m where "m = wr (wr (mem st) (a + 4) (if True then 1 else 0)) (a + 8) (magic_of True)"
  have hd: "rd (mem st) (a + 8) = HEAP_MAGIC_ALLOCATED" "rd (mem st) a = of_nat s"
    using seg by (simp_all add: hdr_def magic_of_def)
  have "a + 20 < 4294967296" "a + 20 \<noteq> 0" using aE by simp_all
  then have p0: "(of_nat (a + 20) :: u32) \<noteq> 0" by (simp only: of_nat_u32_eq_0) simp
  have blk: "of_nat (a + 20) - HEADER = (of_nat a :: u32)" by (simp add: HEADER_def)
  have rs: "rd m a = of_nat s" using hd aE by (simp add: m_def rd_wr_other)
  have "seg m E p a ((s, True) # ys)"
    unfolding m_def by (rule mark_mem [OF seg]) (use aE in simp)
  moreover have "unchanged_outside (mem st) m a (a + 40 + s)"
    using aE by (auto simp: m_def intro!: unchanged_wr)
  ultimately show ?thesis
    using init p0
    by (intro that, simp_all only: heap_free_def Let_def blk rd_fold hd wr_fold)
      (simp_all add: m_def [unfolded magic_of_def, simplified, symmetric] rs HEADER_def merge_free_blocks_def)
qed

lemma heap_free_releases:
  assumes rep: "heap_rep st (xs @ (s, False) # ys)"
  obtains st' where "heap_free (of_nat (unat (heap_start st) + ext xs + 20)) st = st'"
    and "heap_rep st' (released xs s ys)"
    and "heap_start st' = heap_start st" and "heap_end st' = heap_end st"
    and "free_size st' = free_size st + of_nat (s + 20)"
    and "\<forall>x \<in> user (unat (heap_start st)) (released xs s ys). mem st' (of_nat x) = mem st (of_nat x)"
    and "rd (mem st') (unat (heap_start st) + ext xs + 8) = HEAP_MAGIC_FREE"
    and "unchanged_outside (mem st) (mem st') (unat (heap_start st)) (unat (heap_end st) + 20)"
proof -
  define B E a where "B = unat (heap_start st)" and "E = unat (heap_end st)" and "a = B + ext xs"
  have seg: "seg (mem st) E (lastb 0 B xs) a ((s, False) # ys)" "seg (mem st) E 0 B xs"
    and BE: "a + 20 + s + ext ys = E" and init: "heap_initialized st" and B: "0 < B"
    using rep by (auto simp: heap_rep_def B_def E_def unat_gt_0 a_def seg_append)
  have E: "E < 4294967296" by (simp add: E_def)
  have cnt: "blocks_free st = of_nat (n_free (xs @ (s, False) # ys))"
    "blocks_allocated st = of_nat (n_alloc (xs @ (s, False) # ys))"
    using rep by (simp_all add: heap_rep_def)
  obtain m where m: "heap_free (of_nat (a + 20)) st = merge_prev (of_nat a) (merge_next (of_nat a)
      (st\<lparr>mem := m, blocks_allocated := blocks_allocated st - 1, blocks_free := blocks_free st + 1,
         free_size := free_size st + of_nat (s + 20)\<rparr>))"
    "seg m E (lastb 0 B xs) a ((s, True) # ys)" "unchanged_outside (mem st) m a (a + 40 + s)"
    by (rule heap_free_marks [OF seg(1) BE E init])
  define st1 where "st1 = st\<lparr>mem := m, blocks_allocated := blocks_allocated st - 1,
    blocks_free := blocks_free st + 1, free_size := free_size st + of_nat (s + 20)\<rparr>"
  obtain st2 where mn: "merge_next (of_nat a) st1 = st2" "seg (mem st2) E (lastb 0 B xs) a (join_next s ys)"
      "unchanged_outside m (mem st2) a (a + 40 + fst (hd (join_next s ys)))"
      "blocks_free st2 = of_nat (n_free xs + n_free (join_next s ys))"
      "st2 = st1\<lparr>mem := mem st2, blocks_free := blocks_free st2\<rparr>"
    by (rule merge_next_blocks [of st1 E "lastb 0 B xs" a s ys "n_free xs"])
      (use m(2) BE E cnt in \<open>simp_all add: st1_def\<close>)
  obtain s' ys' where j: "join_next s ys = (s', True) # ys'" using join_next_hd by blast
  have ss: "s \<le> s'" "20 + s' + ext ys' = 20 + s + ext ys" "n_alloc ys' = n_alloc ys"
    using ext_join_next [of s ys] j by (cases "(s, ys)" rule: join_next.cases; simp; fail)+
  have un: "unchanged_outside (mem st) (mem st2) a (a + 40 + s')"
    using unchanged_outside_mono [OF m(3), of a "a + 40 + s'"] mn(3) ss
    by (auto simp: j intro: unchanged_outside_trans)
  have seg2: "seg (mem st2) E 0 B (xs @ (s', True) # ys')"
    using mn(2) seg(2) seg_unchanged [OF un, of B xs E 0] BE E by (simp add: seg_append j a_def)
  obtain st3 front S where mp: "merge_prev (of_nat (B + ext xs)) st2 = st3"
      "seg (mem st3) E 0 B (released xs s ys)"
      "released xs s ys = front @ (S, True) # ys'" "ext front + S = ext xs + s'" "s' \<le> S"
      "unchanged_outside (mem st2) (mem st3) (B + ext front) (B + ext xs + 40 + s')"
      "rd (mem st3) (B + ext xs + 8) = rd (mem st2) (B + ext xs + 8)"
      "blocks_free st3 = of_nat (n_free (released xs s ys))"
      "st3 = st2\<lparr>mem := mem st3, blocks_free := blocks_free st3\<rparr>"
    by (rule merge_prev_blocks [OF seg2 B, of "released xs s ys"])
      (use BE E ss mn(4) in \<open>simp_all add: a_def j released_def\<close>)
  have un3: "unchanged_outside (mem st) (mem st3) (B + ext front) (a + 20 + s' + 20)"
    using unchanged_outside_mono [OF un, of "B + ext front" "a + 40 + s'"] mp(4,5,6)
    by (auto simp: a_def add.assoc intro: unchanged_outside_trans)
  then have area: "unchanged_outside (mem st) (mem st3) B (E + 20)"
    by (rule unchanged_outside_mono) (use BE ss in simp_all)
  note un3
  moreover have "user B (released xs s ys) = user B front \<union> user (a + 20 + s') ys'"
    using mp(3,4) by (auto simp: a_def add.assoc) (metis add.left_commute)+
  ultimately have "\<forall>x \<in> user B (released xs s ys). mem st3 (of_nat x) = mem st (of_nat x)"
    using user_frame [of "mem st" "mem st3" "B + ext front" "a + 20 + s'" _ B front ys'] mp(4,5) ss BE E
    by (simp add: a_def)
  moreover have "rd (mem st3) (a + 8) = HEAP_MAGIC_FREE"
    using mp(7) mn(2) by (simp add: j a_def hdr_def magic_of_def)
  moreover have "st3 = st1\<lparr>mem := mem st3, blocks_free := blocks_free st3\<rparr>"
    by (subst mp(9), subst mn(5)) simp
  then obtain m3 c3 where st3: "st3 = st1\<lparr>mem := m3, blocks_free := c3\<rparr>" by blast
  then have "heap_rep st3 (released xs s ys)"
    using rep mp(2,8) cnt(2) released_facts(1) [of xs s ys False] released_facts(2,3) [of xs s ys]
    by (simp add: heap_rep_def st1_def B_def E_def)
  ultimately show ?thesis
    using m(1) mn(1) mp(1) area by (intro that [of st3]) (simp_all add: st1_def a_def B_def E_def st3)
qed

section \<open>No two free neighbours\<close>

definition compact :: "blk list \<Rightarrow> bool" where
  "compact bs \<longleftrightarrow> successively (\<lambda>a b. \<not> (snd a \<and> snd b)) bs"

lemma compact_carve: "compact (xs @ (s, True) # ys) \<Longrightarrow> compact (xs @ carve n s @ ys)"
  by (cases ys) (auto simp: compact_def carve_def successively_append_iff successively_Cons)

lemma compact_released:
  assumes "compact (xs @ (s, False) # ys)"
  shows "compact (released xs s ys)"
proof -
  have "compact xs" "compact ys" using assms by (auto simp: compact_def successively_append_iff successively_Cons)
  then show ?thesis
    by (cases "(s, ys)" rule: join_next.cases; cases xs rule: rev_cases)
      (auto simp: released_def join_prev_def compact_def successively_append_iff successively_Cons)
qed

text \<open>Releasing what was just carved gives the block list back.\<close>

lemma released_carve:
  assumes c: "compact (xs @ (s, True) # ys)" and n: "n + 20 \<le> s"
    and carve: "carve n s @ ys = (s', False) # ys'"
  shows "released xs s' ys' = xs @ (s, True) # ys"
proof -
  have xs: "xs = [] \<or> \<not> snd (last xs)" and ys: "ys = [] \<or> \<not> snd (hd ys)"
    using c by (auto simp: compact_def successively_append_iff successively_Cons)
  have "join_next s' ys' = (s, True) # ys"
  proof (cases "n + 52 \<le> s")
    case True
    then show ?thesis using carve by (auto simp: carve_def)
  next
    case False
    then have "s' = s" "ys' = ys" using carve by (auto simp: carve_def)
    then show ?thesis using ys by (cases "(s, ys)" rule: join_next.cases) auto
  qed
  then show ?thesis using xs by (auto simp: released_def join_prev_def)
qed

end
