(* ===== verification/Allocator.thy ===== *)
theory Allocator
  imports CString
begin

text \<open>
  The contract of a memory allocator, as the callers of \<open>heap_malloc\<close> and \<open>heap_free\<close>
  (and of any other pair of that shape) use it: \<open>live st L\<close> says that \<open>L\<close> maps the
  pointers handed out and not yet released to the sizes of their payloads. The lemmas proved in the
  locale are those that \<open>calloc\<close> and \<open>realloc\<close> rest on.
\<close>

text \<open>The payloads of \<open>L\<close> hold the same bytes in two memories.\<close>

definition kept :: "(u32 \<rightharpoonup> nat) \<Rightarrow> mem \<Rightarrow> mem \<Rightarrow> bool" where
  "kept L m m' \<longleftrightarrow> (\<forall>p n i. L p = Some n \<longrightarrow> i < n \<longrightarrow> m' (p + of_nat i) = m (p + of_nat i))"

lemma kept_trans: "kept L m m1 \<Longrightarrow> kept L m1 m2 \<Longrightarrow> kept L m m2"
  by (simp add: kept_def)

lemma kept_mono: "kept L m m' \<Longrightarrow> L' \<subseteq>\<^sub>m L \<Longrightarrow> kept L' m m'"
  unfolding kept_def map_le_def by (metis domI)

lemma filled_unchanged:
  assumes "unat p + n < 4294967296" and "m' = filled m p v n"
  shows "unchanged_outside m m' (unat p) (unat p + n)"
proof -
  have "\<not> unat (x - p) < n" if "unat x < unat p \<or> unat p + n \<le> unat x" for x
    using that assms(1) by (auto simp: unat_sub_if_size word_size)
  then show ?thesis by (simp add: assms(2) unchanged_outside_def filled_def)
qed

lemma copied_unchanged:
  assumes "unat q + n < 4294967296" and "m' = copied m q p n"
  shows "unchanged_outside m m' (unat q) (unat q + n)"
proof -
  have "\<not> unat (x - q) < n" if "unat x < unat q \<or> unat q + n \<le> unat x" for x
    using that assms(1) by (auto simp: unat_sub_if_size word_size)
  then show ?thesis by (simp add: assms(2) unchanged_outside_def copied_def)
qed

locale allocator =
  fixes alloc :: "u32 \<Rightarrow> 's \<Rightarrow> (u32 \<times> 's) option"
    and release :: "u32 \<Rightarrow> 's \<Rightarrow> 's"
    and contents :: "'s \<Rightarrow> mem"
    and put :: "mem \<Rightarrow> 's \<Rightarrow> 's"
    and live :: "'s \<Rightarrow> (u32 \<rightharpoonup> nat) \<Rightarrow> bool"
    and served :: "u32 \<Rightarrow> 's \<Rightarrow> bool"
  assumes live_bounds: "live st L \<Longrightarrow> L p = Some n \<Longrightarrow> 0 < unat p \<and> unat p + n < 4294967296"
    and live_disjoint: "live st L \<Longrightarrow> L p = Some n \<Longrightarrow> L q = Some n' \<Longrightarrow> p \<noteq> q \<Longrightarrow>
      unat p + n \<le> unat q \<or> unat q + n' \<le> unat p"
    and alloc_returns: "live st L \<Longrightarrow> served k st \<Longrightarrow> \<exists>p st'. alloc k st = Some (p, st')"
    and alloc_fails: "live st L \<Longrightarrow> served k st \<Longrightarrow> alloc k st = Some (0, st') \<Longrightarrow> st' = st"
    and alloc_live: "live st L \<Longrightarrow> served k st \<Longrightarrow> alloc k st = Some (p, st') \<Longrightarrow> p \<noteq> 0 \<Longrightarrow>
      L p = None \<and> (\<exists>n \<ge> unat k. live st' (L(p \<mapsto> n))) \<and> kept L (contents st) (contents st')"
    and release_live: "live st L \<Longrightarrow> L p = Some n \<Longrightarrow>
      live (release p st) (L(p := None)) \<and> kept (L(p := None)) (contents st) (contents (release p st))"
    and write_live: "live st L \<Longrightarrow> L p = Some n \<Longrightarrow>
      unchanged_outside (contents st) m (unat p) (unat p + n) \<Longrightarrow> live (put m st) L"
    and contents_put: "contents (put m st) = m"
begin

lemma payload_address:
  assumes "live st L" and "L p = Some n" and "i < n"
  shows "unat (p + of_nat i) = unat p + i"
  using live_bounds [OF assms(1,2)] assms(3) by (simp add: unat_add_u32 unat_of_nat_u32)

text \<open>Writing inside one payload leaves the others alone.\<close>

lemma write_kept:
  assumes live: "live st L" and p: "L p = Some n"
    and m: "unchanged_outside (contents st) m (unat p) (unat p + n)"
  shows "kept (L(p := None)) (contents st) m"
  unfolding kept_def
proof (intro allI impI)
  fix q k i assume "(L(p := None)) q = Some k" and i: "i < k"
  then have q: "L q = Some k" "p \<noteq> q" by (auto split: if_splits)
  then have "unat (q + of_nat i) < unat p \<or> unat p + n \<le> unat (q + of_nat i)"
    using live_disjoint [OF live p, of q k] payload_address [OF live _ i, of q] i by auto
  then show "m (q + of_nat i) = contents st (q + of_nat i)"
    using m unfolding unchanged_outside_def by blast
qed

text \<open>Allocating and filling, as \<open>calloc\<close> does.\<close>

lemma alloc_fill:
  assumes live: "live st L" and served: "served k st"
    and a: "alloc k st = Some (p, st1)" "p \<noteq> 0"
    and m: "m = memset (contents st1) p 0 k"
  shows "L p = None" and "\<exists>n \<ge> unat k. live (put m st1) (L(p \<mapsto> n))"
    and "kept L (contents st) m" and "\<And>i. i < unat k \<Longrightarrow> m (p + of_nat i) = 0"
proof -
  obtain n where n: "unat k \<le> n" "live st1 (L(p \<mapsto> n))" and p: "L p = None"
    and kept: "kept L (contents st) (contents st1)"
    using alloc_live [OF live served a] by blast
  have b: "unat p + n < 4294967296" using live_bounds [OF n(2)] by simp
  have m': "m = filled (contents st1) p 0 (unat k)" by (simp add: m memset_eq_filled)
  have un: "unchanged_outside (contents st1) m (unat p) (unat p + n)"
    by (rule unchanged_outside_mono [OF filled_unchanged [OF _ m']]) (use b n(1) in auto)
  show "L p = None" by (rule p)
  show "\<exists>n \<ge> unat k. live (put m st1) (L(p \<mapsto> n))"
    using n write_live [OF n(2) _ un] by auto
  have "kept ((L(p \<mapsto> n))(p := None)) (contents st1) m"
    by (rule write_kept [OF n(2) _ un]) simp
  then show "kept L (contents st) m"
    using kept p by (auto intro: kept_trans simp: fun_upd_idem)
  fix i assume "i < unat k"
  then show "m (p + of_nat i) = 0"
    using b n(1) by (simp add: m' filled_def unat_of_nat_u32)
qed

text \<open>Allocating, copying the old payload and releasing it, as \<open>realloc\<close> does.\<close>

lemma alloc_move:
  assumes live: "live st L" and served: "served k st" and old: "L p = Some j" "j \<le> unat k"
    and a: "alloc k st = Some (q, st1)" "q \<noteq> 0"
    and m: "m = memcpy (contents st1) q p (of_nat j)"
  shows "L q = None"
    and "\<exists>n \<ge> unat k. live (release p (put m st1)) ((L(q \<mapsto> n))(p := None))"
    and "kept (L(p := None)) (contents st) (contents (release p (put m st1)))"
    and "\<And>i. i < j \<Longrightarrow> contents (release p (put m st1)) (q + of_nat i) = contents st (p + of_nat i)"
proof -
  obtain n where n: "unat k \<le> n" "live st1 (L(q \<mapsto> n))" and q: "L q = None"
    and kept: "kept L (contents st) (contents st1)"
    using alloc_live [OF live served a] by blast
  have pq: "p \<noteq> q" using q old by auto
  have p1: "(L(q \<mapsto> n)) p = Some j" using old(1) pq by simp
  have b: "unat q + n < 4294967296" "unat p + j < 4294967296"
    using live_bounds [OF n(2), of q n] live_bounds [OF live old(1)] by simp_all
  have j: "unat (of_nat j :: u32) = j" using old(2) unat_u32_bound [of k] by (intro unat_of_nat_u32) linarith
  have d: "unat p + j \<le> unat q \<or> unat q + n \<le> unat p"
    using live_disjoint [OF n(2) p1, of q n] pq by simp
  have "unat (p - q) + j \<le> 4294967296"
    using d b by (auto simp: unat_sub_if_size word_size)
  then have m': "m = copied (contents st1) q p j" by (simp add: m memcpy_eq_copied j)
  have un: "unchanged_outside (contents st1) m (unat q) (unat q + n)"
    by (rule unchanged_outside_mono [OF copied_unchanged [OF _ m']]) (use b n(1) old(2) in auto)
  have live2: "live (put m st1) (L(q \<mapsto> n))" by (rule write_live [OF n(2) _ un]) simp
  have kept2: "kept L (contents st) m"
    using kept write_kept [OF n(2) _ un] q by (auto intro: kept_trans simp: fun_upd_idem)
  note rel = release_live [OF live2 p1]
  show "L q = None" by (rule q)
  show "\<exists>n \<ge> unat k. live (release p (put m st1)) ((L(q \<mapsto> n))(p := None))"
    using rel n(1) by blast
  have "L(p := None) \<subseteq>\<^sub>m (L(q \<mapsto> n))(p := None)" using q by (auto simp: map_le_def)
  then show "kept (L(p := None)) (contents st) (contents (release p (put m st1)))"
    using kept_mono [OF kept2, of "L(p := None)"] kept_mono [OF rel [THEN conjunct2]]
    by (auto simp: contents_put map_le_def intro: kept_trans)
  fix i assume i: "i < j"
  have "contents (release p (put m st1)) (q + of_nat i) = m (q + of_nat i)"
    using rel pq i n(1) old(2) by (simp add: kept_def contents_put)
  also have "\<dots> = contents st1 (p + of_nat i)"
    using i b by (simp add: m' copied_def unat_of_nat_u32)
  also have "\<dots> = contents st (p + of_nat i)" using kept old(1) i by (simp add: kept_def)
  finally show "contents (release p (put m st1)) (q + of_nat i) = contents st (p + of_nat i)" .
qed

end

end
