(* ===== verification/HeapLive.thy ===== *)
theory HeapLive
  imports HeapSpec Allocator
begin

text \<open>
  The kernel heap meets the allocator contract: \<open>heap_live st L\<close> reads the live pointers off
  the block list that the state represents. The one request the code does not serve is
  excluded by \<open>heap_served\<close>: a best fitting block that has room for the payload but not
  for another header (see \<open>HeapProps\<close> for what happens then).
\<close>

section \<open>Live pointers of a block list\<close>

fun live_list :: "nat \<Rightarrow> blk list \<Rightarrow> (u32 \<times> nat) list" where
  "live_list a [] = []"
| "live_list a ((s, f) # bs) = (if f then [] else [(of_nat (a + 20), s)]) @ live_list (a + 20 + s) bs"

definition heap_live :: "'a heap_scheme \<Rightarrow> (u32 \<rightharpoonup> nat) \<Rightarrow> bool" where
  "heap_live st L \<longleftrightarrow> (\<exists>bs. heap_rep st bs \<and> compact bs
     \<and> L = map_of (live_list (unat (heap_start st)) bs))"

definition heap_served :: "u32 \<Rightarrow> 'a heap_scheme \<Rightarrow> bool" where
  "heap_served k st \<longleftrightarrow> k \<le> 4294967288 \<and>
     (case find_best_fit (round_size k) st of None \<Rightarrow> False
      | Some b \<Rightarrow> b = 0 \<or> unat (round_size k) + 20 \<le> unat (blk_size (mem st) b))"

lemma live_list_append [simp]: "live_list a (xs @ ys) = live_list a xs @ live_list (a + ext xs) ys"
  by (induction xs arbitrary: a rule: ext.induct) (auto simp: add.assoc)

lemma live_list_bounds:
  "(p, n) \<in> set (live_list a bs) \<Longrightarrow> a + ext bs < 4294967296 \<Longrightarrow> a + 20 \<le> unat p \<and> unat p + n \<le> a + ext bs"
proof (induction bs arbitrary: a rule: ext.induct)
  case (2 s f bs)
  show ?case
  proof (cases "(p, n) \<in> set (live_list (a + 20 + s) bs)")
    case True
    then show ?thesis using "2.IH" [of "a + 20 + s"] "2.prems"(2) by simp
  next
    case False
    then have "p = of_nat (a + 20)" "n = s" using "2.prems"(1) by (auto split: if_splits)
    moreover have "unat (of_nat (a + 20) :: u32) = a + 20" using "2.prems"(2) by (intro unat_of_nat_u32) simp
    ultimately show ?thesis using "2.prems"(2) by simp
  qed
qed simp

lemma live_list_split:
  "(p, n) \<in> set (live_list a bs) \<Longrightarrow> \<exists>xs ys. bs = xs @ (n, False) # ys \<and> p = of_nat (a + ext xs + 20)"
proof (induction bs arbitrary: a rule: ext.induct)
  case (2 s f bs)
  show ?case
  proof (cases "(p, n) \<in> set (live_list (a + 20 + s) bs)")
    case True
    then obtain xs ys where "bs = xs @ (n, False) # ys" "p = of_nat (a + 20 + s + ext xs + 20)"
      using "2.IH" by blast
    then show ?thesis by (intro exI [of _ "(s, f) # xs"] exI [of _ ys]) (simp add: ac_simps)
  next
    case False
    then show ?thesis using "2.prems" by (intro exI [of _ "[]"] exI [of _ bs]) (auto split: if_splits)
  qed
qed simp

lemma map_of_insert:
  "p \<notin> fst ` set xs \<Longrightarrow> map_of (xs @ (p, n) # ys) = (map_of (xs @ ys))(p \<mapsto> n)"
  by (induction xs) (auto simp: fun_eq_iff)

lemma map_of_delete:
  assumes "p \<notin> fst ` set xs" and "p \<notin> fst ` set ys"
  shows "(map_of (xs @ (p, n) # ys))(p := None) = map_of (xs @ ys)"
proof -
  have "map_of (xs @ ys) p = None" using assms by (auto simp: map_of_eq_None_iff)
  then show ?thesis by (simp add: map_of_insert [OF assms(1)] fun_upd_idem del: map_of_append)
qed

text \<open>The pointer of a block does not occur before or behind it.\<close>

lemma live_list_fresh:
  assumes "a + ext xs + 20 + s + ext ys < 4294967296" and "p = of_nat (a + ext xs + 20)"
  shows "p \<notin> fst ` set (live_list a xs)" and "p \<notin> fst ` set (live_list (a + ext xs + 20 + s) ys)"
proof -
  have p: "unat p = a + ext xs + 20" unfolding assms(2) using assms(1) by (intro unat_of_nat_u32) simp
  show "p \<notin> fst ` set (live_list a xs)"
    using live_list_bounds [of p _ a xs] assms(1) p by fastforce
  show "p \<notin> fst ` set (live_list (a + ext xs + 20 + s) ys)"
    using live_list_bounds [of p _ "a + ext xs + 20 + s" ys] assms(1) p by fastforce
qed

lemma live_list_released:
  "live_list B (released xs s ys) = live_list B xs @ live_list (B + ext xs + 20 + s) ys"
  by (cases "(s, ys)" rule: join_next.cases; cases xs rule: rev_cases)
    (auto simp: released_def join_prev_def ac_simps)

lemma live_disjoint_list:
  "(p, n) \<in> set (live_list a bs) \<Longrightarrow> (q, k) \<in> set (live_list a bs) \<Longrightarrow> p \<noteq> q \<Longrightarrow> a + ext bs < 4294967296
    \<Longrightarrow> unat p + n \<le> unat q \<or> unat q + k \<le> unat p"
proof (induction bs arbitrary: a rule: ext.induct)
  case (2 s f bs)
  have u: "unat (of_nat (a + 20) :: u32) = a + 20" using "2.prems" by (intro unat_of_nat_u32) simp
  note b = live_list_bounds [of _ _ "a + 20 + s" bs]
  show ?case
    using "2.prems" "2.IH" [of "a + 20 + s"] b [of p n] b [of q k]
    by (auto simp: u add.assoc split: if_splits simp del: of_nat_add)
qed simp

lemma user_live_list:
  "(p, n) \<in> set (live_list a bs) \<Longrightarrow> i < n \<Longrightarrow> a + ext bs < 4294967296 \<Longrightarrow> unat p + i \<in> user a bs"
proof (induction bs arbitrary: a rule: ext.induct)
  case (2 s f bs)
  have u: "unat (of_nat (a + 20) :: u32) = a + 20" using "2.prems" by (intro unat_of_nat_u32) simp
  show ?case using "2.prems" "2.IH" [of "a + 20 + s"] by (auto simp: u add.assoc split: if_splits simp del: of_nat_add)
qed simp

section \<open>The contract\<close>

lemma heap_rep_bounds:
  assumes "heap_rep st bs"
  shows "0 < unat (heap_start st)" and "unat (heap_start st) + ext bs < 4294967296"
  using assms by (auto simp: heap_rep_def unat_gt_0)

lemma kept_user:
  assumes "\<forall>x \<in> user B bs. m' (of_nat x) = m (of_nat x)" and "B + ext bs < 4294967296"
  shows "kept (map_of (live_list B bs)) m m'"
  unfolding kept_def
proof (intro allI impI)
  fix p n i assume "map_of (live_list B bs) p = Some n" and i: "i < n"
  then have "(p, n) \<in> set (live_list B bs)" by (simp add: map_of_SomeD)
  from user_live_list [OF this i assms(2)] have "m' (of_nat (unat p + i)) = m (of_nat (unat p + i))"
    using assms(1) by blast
  then show "m' (p + of_nat i) = m (p + of_nat i)" by simp
qed

lemma heap_live_bounds:
  assumes "heap_live st L" and "L p = Some n"
  shows "0 < unat p \<and> unat p + n < 4294967296"
proof -
  obtain bs where bs: "heap_rep st bs" "(p, n) \<in> set (live_list (unat (heap_start st)) bs)"
    using assms by (auto simp: heap_live_def dest: map_of_SomeD)
  show ?thesis using live_list_bounds [OF bs(2)] heap_rep_bounds [OF bs(1)] by simp
qed

lemma heap_live_disjoint:
  assumes "heap_live st L" and "L p = Some n" and "L q = Some k" and "p \<noteq> q"
  shows "unat p + n \<le> unat q \<or> unat q + k \<le> unat p"
proof -
  obtain bs where bs: "heap_rep st bs" "(p, n) \<in> set (live_list (unat (heap_start st)) bs)"
      "(q, k) \<in> set (live_list (unat (heap_start st)) bs)"
    using assms by (auto simp: heap_live_def dest: map_of_SomeD)
  show ?thesis by (rule live_disjoint_list [OF bs(2,3) assms(4)]) (rule heap_rep_bounds [OF bs(1)])
qed

text \<open>A served request either finds no block or carves one with room to spare.\<close>

lemma round_size_ge:
  "k \<le> 4294967288 \<Longrightarrow> unat k \<le> unat (round_size k)"
  by (simp add: word_le_nat_alt unat_round_size)

lemma served_cases:
  assumes rep: "heap_rep st bs" and served: "heap_served k st"
  obtains (none) "heap_malloc k st = Some (0, st)" and "k = 0 \<or> no_fit (unat (round_size k)) bs"
  | (some) xs s ys where "k \<noteq> 0" and "picks (unat (round_size k)) bs xs s ys" and "unat (round_size k) + 20 \<le> s"
      and "find_best_fit (of_nat (unat (round_size k))) st = Some (of_nat (unat (heap_start st) + ext xs))"
proof (cases "k = 0")
  case True
  then show ?thesis using none by (simp add: heap_malloc_def)
next
  case k: False
  define n where "n = unat (round_size k)"
  have nw: "of_nat n = round_size k" by (simp add: n_def)
  show ?thesis
  proof (rule find_best_fit_rep [OF rep, of n])
    assume "no_fit n bs" "find_best_fit (of_nat n) st = Some 0"
    then show ?thesis using none heap_malloc_no_fit [OF rep, of k] by (simp add: n_def)
  next
    fix xs s ys
    assume pick: "picks n bs xs s ys" and f: "find_best_fit (of_nat n) st = Some (of_nat (unat (heap_start st) + ext xs))"
    define a where "a = unat (heap_start st) + ext xs"
    have bs: "bs = xs @ (s, True) # ys" using pick by (simp add: picks_def)
    have a: "a \<noteq> 0" "a + 20 + s < 4294967296" using heap_rep_bounds [OF rep] by (auto simp: bs a_def)
    have "seg (mem st) (unat (heap_end st)) (lastb 0 (unat (heap_start st)) xs) a ((s, True) # ys)"
      using rep by (simp add: heap_rep_def bs seg_append a_def)
    then have sz: "blk_size (mem st) (of_nat a) = of_nat s" by (simp add: hdr_def rd_fold)
    have "unat (of_nat s :: u32) = s" using a by (intro unat_of_nat_u32) simp
    moreover have "(of_nat a :: u32) \<noteq> 0" using a by (simp add: of_nat_u32_eq_0)
    ultimately have "n + 20 \<le> s"
      using served f unfolding nw a_def [symmetric] by (simp add: heap_served_def sz n_def)
    then show ?thesis using some k pick f by (simp add: n_def)
  qed (simp add: n_def)
qed

lemma block_size_at:
  assumes "heap_rep st (xs @ (s, f) # ys)"
  shows "unat (blk_size (mem st) (of_nat (unat (heap_start st) + ext xs))) = s"
proof -
  define a where "a = unat (heap_start st) + ext xs"
  have "a + 20 + s < 4294967296" using heap_rep_bounds(2) [OF assms] by (simp add: a_def)
  then have "unat (of_nat s :: u32) = s" by (intro unat_of_nat_u32) simp
  moreover have "seg (mem st) (unat (heap_end st)) (lastb 0 (unat (heap_start st)) xs) a ((s, f) # ys)"
    using assms by (simp add: heap_rep_def seg_append a_def)
  ultimately show ?thesis by (simp add: hdr_def rd_fold a_def [symmetric] del: of_nat_add)
qed

lemma served_picks:
  assumes "heap_rep st bs" and "k \<le> 4294967288" and pick: "picks (unat (round_size k)) bs xs s ys"
    and "unat (round_size k) + 20 \<le> s"
  shows "heap_served k st"
proof -
  have "find_best_fit (round_size k) st = Some (of_nat (unat (heap_start st) + ext xs))"
    using find_best_fit_picks [OF assms(1) _ pick] by simp
  moreover have "bs = xs @ (s, True) # ys" using pick by (simp add: picks_def)
  ultimately show ?thesis
    using assms(2,4) block_size_at [of st xs s True ys] assms(1) by (simp add: heap_served_def)
qed

lemma served_no_fit:
  assumes "heap_rep st bs" and "k \<le> 4294967288" and "no_fit (unat (round_size k)) bs"
  shows "heap_served k st"
proof (rule find_best_fit_rep [OF assms(1), of "unat (round_size k)"])
  assume "find_best_fit (of_nat (unat (round_size k))) st = Some 0"
  then show ?thesis using assms(2) by (simp add: heap_served_def)
qed (use assms(3) in \<open>auto simp: picks_def no_fit_def\<close>)

lemma heap_live_carved:
  assumes served: "heap_served k st" and k: "k \<noteq> 0" and rep: "heap_rep st bs"
    and pick: "picks (unat (round_size k)) bs xs s ys" and room: "unat (round_size k) + 20 \<le> s"
    and found: "find_best_fit (of_nat (unat (round_size k))) st = Some (of_nat (unat (heap_start st) + ext xs))"
    and L: "L = map_of (live_list (unat (heap_start st)) bs)" and compact: "compact bs"
  obtains p st' n where "heap_malloc k st = Some (p, st')" and "p \<noteq> 0" and "unat k \<le> n" and "L p = None"
    and "heap_live st' (L(p \<mapsto> n))" and "kept L (mem st) (mem st')"
proof -
  define B r where "B = unat (heap_start st)" and "r = unat (round_size k)"
  define n where "n = (if r + 52 \<le> s then r else s)"
  define p :: u32 where "p = of_nat (B + ext xs + 20)"
  have bs: "bs = xs @ (s, True) # ys" using pick by (simp add: picks_def)
  obtain st' where st': "heap_malloc k st = Some (p, st')" "heap_rep st' (xs @ carve r s @ ys)"
      "heap_start st' = heap_start st"
      "unchanged_outside (mem st) (mem st') (B + ext xs) (B + ext xs + 40 + s)"
    by (rule heap_malloc_carves [OF rep k refl pick room found]) (simp add: p_def B_def r_def)
  have b: "B + ext xs + 20 + s + ext ys < 4294967296"
    using heap_rep_bounds(2) [OF rep] by (simp add: B_def bs)
  have p0: "p \<noteq> 0" unfolding p_def by (subst of_nat_u32_eq_0) (use b in simp_all)
  have L': "L = map_of (live_list B xs @ live_list (B + ext xs + 20 + s) ys)"
    by (simp add: L bs B_def add.assoc)
  note fresh = live_list_fresh [OF b p_def]
  have "L p = None" using fresh by (auto simp: L' map_add_None map_of_eq_None_iff)
  moreover have "live_list B (xs @ carve r s @ ys)
      = live_list B xs @ (p, n) # live_list (B + ext xs + 20 + s) ys"
    by (simp add: carve_def p_def n_def add.assoc)
  then have "heap_live st' (L(p \<mapsto> n))"
    using st'(2,3) compact_carve [OF compact [unfolded bs]] map_of_insert [OF fresh(1)] unfolding heap_live_def B_def [symmetric] L' 
    by (intro exI [of _ "xs @ carve r s @ ys"]) (simp add: B_def)
  moreover have "kept L (mem st) (mem st')"
    unfolding L B_def [symmetric]
  proof (rule kept_user)
    show "\<forall>x \<in> user B bs. mem st' (of_nat x) = mem st (of_nat x)"
      using user_frame [of "mem st" "mem st'" "B + ext xs" "B + ext xs + 20 + s" _ B xs ys] st'(4) b
      by (simp add: bs add.assoc)
  qed (use b in \<open>simp add: bs\<close>)
  moreover have "unat k \<le> n"
    using served round_size_ge [of k] room by (auto simp: n_def r_def heap_served_def)
  ultimately show ?thesis using that st'(1) p0 by blast
qed

lemma heap_free_live:
  assumes "heap_live st L" and "L p = Some n"
  shows "heap_live (heap_free p st) (L(p := None)) \<and> kept (L(p := None)) (mem st) (mem (heap_free p st))"
proof -
  define B where "B = unat (heap_start st)"
  obtain bs where rep: "heap_rep st bs" and compact: "compact bs" and L: "L = map_of (live_list B bs)"
    using assms(1) by (auto simp: heap_live_def B_def)
  obtain xs ys where bs: "bs = xs @ (n, False) # ys" and p: "p = of_nat (B + ext xs + 20)"
    using live_list_split assms(2) by (metis L map_of_SomeD)
  obtain st' where st': "heap_free p st = st'" "heap_rep st' (released xs n ys)" "heap_start st' = heap_start st"
    "\<forall>x \<in> user B (released xs n ys). mem st' (of_nat x) = mem st (of_nat x)"
    using heap_free_releases [OF rep [unfolded bs]] unfolding B_def [symmetric] p by metis
  have b: "B + ext xs + 20 + n + ext ys < 4294967296"
    using heap_rep_bounds(2) [OF rep] by (simp add: B_def bs)
  note fresh = live_list_fresh [OF b p]
  have "live_list B bs = live_list B xs @ (p, n) # live_list (B + ext xs + 20 + n) ys"
    by (simp add: bs p add.assoc)
  then have L': "L(p := None) = map_of (live_list B (released xs n ys))"
    using map_of_delete [OF fresh] by (simp add: L live_list_released)
  moreover have "B + ext (released xs n ys) < 4294967296"
    using b released_facts(1) [of xs n ys False] by simp
  ultimately show ?thesis
    using st' kept_user [OF st'(4)] compact_released [OF compact [unfolded bs]] by (auto simp: heap_live_def B_def)
qed

text \<open>A caller may write its payload: the headers, hence the block list, stay.\<close>

lemma heap_write_live:
  assumes "heap_live st L" and "L p = Some n" and m: "unchanged_outside (mem st) m (unat p) (unat p + n)"
  shows "heap_live (st\<lparr>mem := m\<rparr>) L"
proof -
  define B E where "B = unat (heap_start st)" and "E = unat (heap_end st)"
  obtain bs where rep: "heap_rep st bs" and compact: "compact bs" and L: "L = map_of (live_list B bs)"
    using assms(1) by (auto simp: heap_live_def B_def)
  obtain xs ys where bs: "bs = xs @ (n, False) # ys" and p: "p = of_nat (B + ext xs + 20)"
    using live_list_split assms(2) by (metis L map_of_SomeD)
  have b: "B + ext xs + 20 + n + ext ys < 4294967296"
    using heap_rep_bounds(2) [OF rep] by (simp add: B_def bs)
  have up: "unat p = B + ext xs + 20" unfolding p by (intro unat_of_nat_u32) (use b in simp)
  have seg: "seg (mem st) E 0 B bs" using rep by (simp add: heap_rep_def B_def E_def)
  have "seg m E 0 B bs"
    using seg seg_unchanged [OF m, of B xs E 0] hdr_unchanged [OF m, of "B + ext xs"] b
      seg_unchanged [OF m, of "B + ext xs + 20 + n" ys E "B + ext xs"]
    by (simp add: bs seg_append up add.assoc)
  then show ?thesis
    using rep L compact by (auto simp: heap_live_def heap_rep_def B_def E_def intro!: exI [of _ bs])
qed

interpretation heap: allocator heap_malloc heap_free mem "\<lambda>m st. st\<lparr>mem := m\<rparr>" heap_live heap_served
proof (unfold_locales, goal_cases)
  case (1 st L p n)
  then show ?case by (rule heap_live_bounds)
next
  case (2 st L p n q n')
  then show ?case by (rule heap_live_disjoint)
next
  case (3 st L k)
  then obtain bs where rep: "heap_rep st bs" and compact: "compact bs" and L: "L = map_of (live_list (unat (heap_start st)) bs)"
    by (auto simp: heap_live_def)
  show ?case
    by (rule served_cases [OF rep 3(2)]) (auto elim: heap_live_carved [OF 3(2) _ rep _ _ _ L compact])
next
  case (4 st L k st')
  then obtain bs where rep: "heap_rep st bs" and compact: "compact bs" and L: "L = map_of (live_list (unat (heap_start st)) bs)"
    by (auto simp: heap_live_def)
  show ?case
    by (rule served_cases [OF rep 4(2)]) (use 4(3) in \<open>auto elim: heap_live_carved [OF 4(2) _ rep _ _ _ L compact]\<close>)
next
  case (5 st L k p st')
  then obtain bs where rep: "heap_rep st bs" and compact: "compact bs" and L: "L = map_of (live_list (unat (heap_start st)) bs)"
    by (auto simp: heap_live_def)
  show ?case
  proof (rule served_cases [OF rep 5(2)])
    fix xs s ys
    assume c: "k \<noteq> 0" "picks (unat (round_size k)) bs xs s ys" "unat (round_size k) + 20 \<le> s"
      "find_best_fit (of_nat (unat (round_size k))) st = Some (of_nat (unat (heap_start st) + ext xs))"
    obtain p' st1 n where "heap_malloc k st = Some (p', st1)" "unat k \<le> n" "L p' = None"
      "heap_live st1 (L(p' \<mapsto> n))" "kept L (mem st) (mem st1)"
      by (rule heap_live_carved [OF 5(2) c(1) rep c(2-4) L compact])
    then show ?thesis using 5(3) by auto
  qed (use 5(3,4) in auto)
next
  case (6 st L p n)
  then show ?case by (rule heap_free_live)
next
  case (7 st L p n m)
  then show ?case by (rule heap_write_live)
qed simp

end
