(* ===== verification/HeapProps.thy ===== *)
theory HeapProps
  imports HeapLive
begin

text \<open>
  What the kernel heap promises: initialisation, allocation and release as its callers see
  them, reachable heaps, \<open>heap_calloc\<close>, \<open>heap_realloc\<close>, \<open>heap_validate\<close>
  and the counters.
\<close>

section \<open>Initialisation\<close>

lemma align16_slack:
  assumes "unat start + 15 < 4294967296"
  shows "unat start \<le> unat (memory_align_up start 16)" and "unat (memory_align_up start 16) \<le> unat start + 15"
    and "16 dvd unat (memory_align_up start 16)"
  using unat_align_up [of 16 start] assms by simp_all

lemma heap_init_block:
  assumes "start \<noteq> 0" and "36 \<le> unat sz" and "unat start + unat sz < 4294967296"
    and "d = unat (memory_align_up start 16) - unat start"
  shows "heap_rep (heap_init start sz st) [(unat sz - d - 20, True)] \<and> d \<le> 15
    \<and> heap_live (heap_init start sz st) Map.empty
    \<and> free_size (heap_init start sz st) = of_nat (unat sz - d - 20)"
proof -
  define h B where "h = memory_align_up start 16" and "B = unat h"
  define z where "z = unat sz - d - 20"
  have B: "unat start \<le> B" "B \<le> unat start + 15" using align16_slack [of start] assms by (simp_all add: B_def h_def)
  then have d: "d = B - unat start" "d \<le> 15" using assms(4) by (simp_all add: B_def h_def)
  have "0 < unat start" using assms(1) by (simp add: unat_gt_0)
  then have h: "h = of_nat B" "0 < B" using B(1) by (simp_all add: B_def)
  have e: "h - start = of_nat d" using B by (simp add: d(1) of_nat_diff h(1))
  have al: "sz - (h - start) = of_nat (z + 20)" "of_nat (z + 20) - HEADER = (of_nat z :: u32)"
    using assms(2) d(2) by (simp_all add: e z_def HEADER_def of_nat_diff)
  have top: "B + (z + 20) = unat start + unat sz" using assms(2) B d by (simp add: z_def)
  have E: "B + (z + 20) < 4294967296" using top assms(3) by simp
  define m where "m = wr (wr (wr (wr (wr (mem st) B (of_nat z)) (B + 4) 1) (B + 8) HEAP_MAGIC_FREE) (B + 12) 0) (B + 16) 0"
  have init: "heap_init start sz st = st\<lparr>mem := m, heap_start := of_nat B, heap_end := of_nat (B + (z + 20)),
     total_size := of_nat (z + 20), free_size := of_nat z, blocks_allocated := 0, blocks_free := 1,
     first_block := of_nat B, heap_initialized := True\<rparr>"
    unfolding heap_init_def Let_def h_def [symmetric] al unfolding h(1) wr_fold m_def
    by (simp only: of_nat_add)
  have seg: "seg m (B + (z + 20)) 0 B [(z, True)]"
    using E by (simp add: m_def hdr_def magic_of_def rd_wr_other)
  have uB: "unat (of_nat B :: u32) = B" by (simp add: B_def)
  have uE: "unat (of_nat (B + (z + 20)) :: u32) = B + (z + 20)" using E by (rule unat_of_nat_u32)
  have "heap_rep (heap_init start sz st) [(z, True)]"
    using seg h(2) E by (simp add: heap_rep_def init uB uE word_less_nat_alt del: of_nat_add seg.simps) simp
  moreover have "heap_live (heap_init start sz st) Map.empty"
    unfolding heap_live_def using calculation by (intro exI [of _ "[(z, True)]"]) (simp add: compact_def)
  moreover have "free_size (heap_init start sz st) = of_nat z" by (simp add: init)
  ultimately show ?thesis using d(2) by (simp add: z_def)
qed

lemma heap_init_live:
  assumes "start \<noteq> 0" and "36 \<le> unat sz" and "unat start + unat sz < 4294967296"
  shows "heap_live (heap_init start sz st) Map.empty"
  using heap_init_block [OF assms refl] by blast

text \<open>The heap that \<open>kernel_main\<close> sets up on zeroed static data, and two allocations on it.\<close>

definition heap_bss :: heap where
  "heap_bss = \<lparr>mem = (\<lambda>_. 0), first_block = 0, heap_start = 0, heap_end = 0, total_size = 0, free_size = 0,
     blocks_allocated = 0, blocks_free = 0, heap_initialized = False\<rparr>"

definition kernel_heap :: heap where
  "kernel_heap = heap_init 0x800000 0x400000 heap_bss"

definition heap_one :: heap where "heap_one = snd (the (heap_malloc 32 kernel_heap))"
definition heap_two :: heap where "heap_two = snd (the (heap_malloc 32 heap_one))"

lemma kernel_heap_rep: "heap_rep kernel_heap [(4194284, True)]" "heap_start kernel_heap = 0x800000"
proof -
  have d: "unat (memory_align_up 0x800000 16) = 0x800000" using unat_align_up [of 16 "0x800000"] by simp
  then show "heap_rep kernel_heap [(4194284, True)]"
    using heap_init_block [of "0x800000" "0x400000" _ heap_bss] by (simp add: kernel_heap_def)
  have "memory_align_up 0x800000 16 = of_nat 0x800000" using d by (metis u32_of_nat_unat)
  then show "heap_start kernel_heap = 0x800000" by (simp add: kernel_heap_def heap_init_def Let_def)
qed

lemma round_32: "unat (round_size 32) = 32" by (simp add: unat_round_size)

lemma picks_only: "n \<le> s \<Longrightarrow> \<forall>(s', f') \<in> set xs. f' \<longrightarrow> s' < n \<Longrightarrow> picks n (xs @ [(s, True)]) xs s []"
  by (fastforce simp: picks_def)

lemma heap_one_rep:
  "heap_malloc 32 kernel_heap = Some (0x800014, heap_one)" "heap_rep heap_one [(32, False), (4194232, True)]"
  "heap_start heap_one = 0x800000" "heap_served 32 kernel_heap"
proof -
  have pick: "picks 32 [(4194284, True)] [] 4194284 []" using picks_only [of 32 4194284 "[]"] by simp
  have found: "find_best_fit (of_nat 32) kernel_heap = Some (of_nat (unat (heap_start kernel_heap) + ext []))"
    by (rule find_best_fit_picks [OF kernel_heap_rep(1) _ pick]) simp
  show "heap_served 32 kernel_heap"
    by (rule served_picks [OF kernel_heap_rep(1), of 32 "[]" 4194284 "[]"]) (use pick in \<open>simp_all add: round_32\<close>)
  obtain st' where "heap_malloc 32 kernel_heap = Some (of_nat (unat (heap_start kernel_heap) + ext [] + 20), st')"
    "heap_rep st' ([] @ carve 32 4194284 @ [])" "heap_start st' = heap_start kernel_heap"
    by (rule heap_malloc_carves [OF kernel_heap_rep(1) _ round_32 pick _ found]) simp_all
  then show "heap_malloc 32 kernel_heap = Some (0x800014, heap_one)"
    "heap_rep heap_one [(32, False), (4194232, True)]" "heap_start heap_one = 0x800000"
    by (simp_all add: heap_one_def kernel_heap_rep(2) carve_def)
qed

lemma heap_two_rep:
  "heap_malloc 32 heap_one = Some (0x800048, heap_two)"
  "heap_rep heap_two [(32, False), (32, False), (4194180, True)]"
  "heap_start heap_two = 0x800000" "heap_served 32 heap_one"
proof -
  have pick: "picks 32 [(32, False), (4194232, True)] [(32, False)] 4194232 []"
    using picks_only [of 32 4194232 "[(32, False)]"] by simp
  have found: "find_best_fit (of_nat 32) heap_one = Some (of_nat (unat (heap_start heap_one) + ext [(32, False)]))"
    by (rule find_best_fit_picks [OF heap_one_rep(2) _ pick]) simp
  show "heap_served 32 heap_one"
    by (rule served_picks [OF heap_one_rep(2), of 32 "[(32, False)]" 4194232 "[]"]) (use pick in \<open>simp_all add: round_32\<close>)
  obtain st' where "heap_malloc 32 heap_one = Some (of_nat (unat (heap_start heap_one) + ext [(32, False)] + 20), st')"
    "heap_rep st' ([(32, False)] @ carve 32 4194232 @ [])" "heap_start st' = heap_start heap_one"
    by (rule heap_malloc_carves [OF heap_one_rep(2) _ round_32 pick _ found]) simp_all
  then show "heap_malloc 32 heap_one = Some (0x800048, heap_two)"
    "heap_rep heap_two [(32, False), (32, False), (4194180, True)]" "heap_start heap_two = 0x800000"
    by (simp_all add: heap_two_def heap_one_rep(3) carve_def)
qed

lemma heap_live_kernel:
  "heap_live kernel_heap Map.empty" "heap_live heap_one [0x800014 \<mapsto> 32]"
  unfolding heap_live_def
  by (rule exI [of _ "[(4194284, True)]"], use kernel_heap_rep in \<open>simp add: compact_def\<close>)
    (rule exI [of _ "[(32, False), (4194232, True)]"], use heap_one_rep in \<open>simp add: compact_def\<close>)

text \<open>On a region that does not reach the end of the address space, \<open>heap_init\<close> makes a well-formed heap
  of a single free block that fills the region from the first 16-byte boundary on, with no
  live pointer.\<close>

theorem heap_init_represents:
  assumes "start \<noteq> 0" and "36 \<le> unat sz" and "unat start + unat sz < 4294967296"
    and "d = unat (memory_align_up start 16) - unat start"
  shows "heap_rep (heap_init start sz st) [(unat sz - d - 20, True)] \<and> d \<le> 15
    \<and> heap_live (heap_init start sz st) Map.empty
    \<and> free_size (heap_init start sz st) = of_nat (unat sz - d - 20)"
  using assms by (rule heap_init_block)

lemma heap_init_represents_witness:
  "heap_rep (heap_init 0x800003 0x400000 heap_bss) [(4194271, True)]"
proof -
  have "unat (memory_align_up 0x800003 16) = 0x800010" using unat_align_up [of 16 "0x800003"] by simp
  then show ?thesis using heap_init_represents [of "0x800003" "0x400000" _ heap_bss] by simp
qed

section \<open>Allocation and release\<close>

text \<open>C4: Best fit: on a well-formed heap a served request takes the first of the smallest free blocks
  that can hold the rounded size, hands out the address behind its header, splits off the rest
  when it can be a block of its own, leaves every live payload as it is and takes the request and
  one header off \<open>free_size\<close>.\<close>

theorem heap_malloc_best_fit:
  assumes "heap_rep st bs" and "k \<noteq> 0" and "picks (unat (round_size k)) bs xs s ys"
    and "unat (round_size k) + 20 \<le> s"
  shows "\<exists>st'. heap_malloc k st = Some (of_nat (unat (heap_start st) + ext xs + 20), st')
    \<and> heap_rep st' (xs @ carve (unat (round_size k)) s @ ys)
    \<and> (\<forall>x \<in> user (unat (heap_start st)) bs. mem st' (of_nat x) = mem st (of_nat x))
    \<and> free_size st' = free_size st - (round_size k + 20)"
proof -
  define n B where "n = unat (round_size k)" and "B = unat (heap_start st)"
  note pick = assms(3) [folded n_def] and room = assms(4) [folded n_def]
  have bs: "bs = xs @ (s, True) # ys" using pick by (simp add: picks_def)
  have b: "B + ext xs + 20 + s + ext ys < 4294967296"
    using heap_rep_bounds(2) [OF assms(1)] by (simp add: B_def bs)
  have found: "find_best_fit (of_nat n) st = Some (of_nat (B + ext xs))"
    unfolding B_def by (rule find_best_fit_picks [OF assms(1) _ pick]) (simp add: n_def)
  obtain st' where st': "heap_malloc k st = Some (of_nat (B + ext xs + 20), st')"
    "heap_rep st' (xs @ carve n s @ ys)" "free_size st' = free_size st - of_nat (n + 20)"
    "unchanged_outside (mem st) (mem st') (B + ext xs) (B + ext xs + 40 + s)"
    by (rule heap_malloc_carves [OF assms(1,2) n_def [symmetric] pick room found [unfolded B_def]]) (simp add: B_def)
  have "\<forall>x \<in> user B bs. mem st' (of_nat x) = mem st (of_nat x)"
    using user_frame [of "mem st" "mem st'" "B + ext xs" "B + ext xs + 20 + s" _ B xs ys] st'(4) b
    by (simp add: bs add.assoc)
  then show ?thesis using st'(1-3) by (simp add: B_def n_def add.assoc)
qed

lemma heap_malloc_best_fit_witness:
  "\<exists>st'. heap_malloc 100 kernel_heap = Some (0x800014, st')
    \<and> heap_rep st' [(104, False), (4194160, True)] \<and> free_size st' = free_size kernel_heap - 124"
proof -
  have r: "unat (round_size 100) = 104" by (simp add: unat_round_size)
  then have "round_size 100 = of_nat 104" by (metis u32_of_nat_unat)
  moreover have "picks 104 [(4194284, True)] [] 4194284 []" using picks_only [of 104 4194284 "[]"] by simp
  ultimately show ?thesis
    using heap_malloc_best_fit [OF kernel_heap_rep(1), of 100 "[]" 4194284 "[]"] r kernel_heap_rep(2)
    by (auto simp: carve_def)
qed

text \<open>A served request is refused exactly when it is for nothing or no free block can hold its
  rounded size; then the heap is as it was.\<close>

theorem heap_malloc_refuses:
  assumes "heap_rep st bs" and "heap_served k st"
  shows "heap_malloc k st = Some (0, st) \<longleftrightarrow> k = 0 \<or> no_fit (unat (round_size k)) bs"
proof (rule served_cases [OF assms])
  assume "heap_malloc k st = Some (0, st)" "k = 0 \<or> no_fit (unat (round_size k)) bs"
  then show ?thesis by blast
next
  fix xs s ys
  assume c: "k \<noteq> 0" "picks (unat (round_size k)) bs xs s ys" "unat (round_size k) + 20 \<le> s"
    "find_best_fit (of_nat (unat (round_size k))) st = Some (of_nat (unat (heap_start st) + ext xs))"
  then have bs: "bs = xs @ (s, True) # ys" by (simp add: picks_def)
  obtain st' where m: "heap_malloc k st = Some (of_nat (unat (heap_start st) + ext xs + 20), st')"
    by (rule heap_malloc_carves [OF assms(1) c(1) refl c(2-4)])
  have "(of_nat (unat (heap_start st) + ext xs + 20) :: u32) \<noteq> 0"
    by (subst of_nat_u32_eq_0) (use heap_rep_bounds [OF assms(1)] in \<open>simp_all add: bs\<close>)
  moreover have "\<not> no_fit (unat (round_size k)) bs" using c(3) by (auto simp: no_fit_def bs)
  ultimately show ?thesis using m c(1) by (simp del: of_nat_add)
qed

lemma heap_malloc_refuses_witness: "heap_malloc 0x500000 kernel_heap = Some (0, kernel_heap)"
proof -
  have "no_fit (unat (round_size 0x500000)) [(4194284, True)]" by (simp add: no_fit_def unat_round_size)
  then show ?thesis
    using heap_malloc_refuses [OF kernel_heap_rep(1) served_no_fit [OF kernel_heap_rep(1)], of "0x500000"] by simp
qed

text \<open>C5: Release: freeing a live pointer removes it and nothing else from the live pointers, keeps
  the heap well formed with no two free neighbours, leaves the other payloads as they are,
  and freeing it a second time changes nothing.\<close>

theorem heap_free_correct:
  assumes "heap_live st L" and "L p = Some n"
  shows "heap_live (heap_free p st) (L(p := None)) \<and> kept (L(p := None)) (mem st) (mem (heap_free p st))
    \<and> heap_free p (heap_free p st) = heap_free p st"
proof -
  define B where "B = unat (heap_start st)"
  obtain bs where rep: "heap_rep st bs" and L: "L = map_of (live_list B bs)"
    using assms(1) by (auto simp: heap_live_def B_def)
  obtain xs ys where bs: "bs = xs @ (n, False) # ys" and p: "p = of_nat (B + ext xs + 20)"
    using live_list_split assms(2) by (metis L map_of_SomeD)
  have "rd (mem (heap_free p st)) (B + ext xs + 8) = HEAP_MAGIC_FREE"
    unfolding p B_def by (rule heap_free_releases [OF rep [unfolded bs]]) simp
  moreover have "p - HEADER + 8 = of_nat (B + ext xs + 8)" by (simp add: p HEADER_def)
  ultimately have "blk_magic (mem (heap_free p st)) (p - HEADER) \<noteq> HEAP_MAGIC_ALLOCATED"
    by (simp add: rd_def HEAP_MAGIC_FREE_def HEAP_MAGIC_ALLOCATED_def)
  then have "heap_free p (heap_free p st) = heap_free p st"
    by (simp add: heap_free_def [of p "heap_free p st"])
  then show ?thesis using heap.release_live [OF assms] by blast
qed

lemma heap_free_correct_witness:
  "heap_live (heap_free 0x800014 heap_one) Map.empty
    \<and> heap_free 0x800014 (heap_free 0x800014 heap_one) = heap_free 0x800014 heap_one"
  using heap_free_correct [OF heap_live_kernel(2), of "0x800014" 32] by simp

text \<open>Allocating and releasing again gives the block list back, split and all: the heap does not
  fragment under a balanced pair.\<close>

theorem heap_malloc_free_roundtrip:
  assumes "heap_rep st bs" and "compact bs" and "heap_served k st"
    and "heap_malloc k st = Some (p, st')" and "p \<noteq> 0"
  shows "heap_rep (heap_free p st') bs"
proof (rule served_cases [OF assms(1,3)])
  assume "heap_malloc k st = Some (0, st)"
  then show ?thesis using assms(4,5) by simp
next
  fix xs s ys
  define n B where "n = unat (round_size k)" and "B = unat (heap_start st)"
  assume c: "k \<noteq> 0" "picks (unat (round_size k)) bs xs s ys" "unat (round_size k) + 20 \<le> s"
    "find_best_fit (of_nat (unat (round_size k))) st = Some (of_nat (unat (heap_start st) + ext xs))"
  then have bs: "bs = xs @ (s, True) # ys" by (simp add: picks_def)
  obtain st1 where m: "heap_malloc k st = Some (of_nat (B + ext xs + 20), st1)"
    "heap_rep st1 (xs @ carve n s @ ys)" "heap_start st1 = heap_start st"
    by (rule heap_malloc_carves [OF assms(1) c(1) refl c(2-4)]) (simp add: B_def n_def)
  obtain s' ys' where carve: "carve n s @ ys = (s', False) # ys'"
    by (cases "n + 52 \<le> s") (auto simp: carve_def)
  have p: "p = of_nat (unat (heap_start st1) + ext xs + 20)" "st1 = st'"
    using m assms(4) by (simp_all add: B_def)
  obtain st2 where "heap_free p st1 = st2" "heap_rep st2 (released xs s' ys')"
    using heap_free_releases [OF m(2) [unfolded carve]] unfolding p(1) by metis
  moreover have "released xs s' ys' = bs"
    using released_carve [OF assms(2) [unfolded bs] c(3) carve [unfolded n_def]] by (simp add: bs)
  ultimately show ?thesis by (simp add: p(2))
qed

lemma heap_malloc_free_roundtrip_witness: "heap_rep (heap_free 0x800014 heap_one) [(4194284, True)]"
  by (rule heap_malloc_free_roundtrip [OF kernel_heap_rep(1) _ heap_one_rep(4,1)]) (simp_all add: compact_def)

section \<open>Reachable heaps\<close>

text \<open>The heaps that disciplined callers bring about, with their live pointers: initialise; request any size that
  is served, successfully or not; release a live pointer, or one that is refused (null, or without the magic
  number of an allocated block in front of it, as after a first release); write inside a live payload. Not served
  are a size above 4294967288, which the rounding wraps to a small one, and a request whose best fitting block
  has no room for another header behind it (\<open>heap_served\<close>, see theory HeapExact).\<close>

inductive heap_reach :: "'a heap_scheme \<Rightarrow> (u32 \<rightharpoonup> nat) \<Rightarrow> bool" where
  reach_init: "start \<noteq> 0 \<Longrightarrow> 36 \<le> unat sz \<Longrightarrow> unat start + unat sz < 4294967296 \<Longrightarrow>
    heap_reach (heap_init start sz st) Map.empty"
| reach_malloc: "heap_reach st L \<Longrightarrow> heap_served k st \<Longrightarrow> heap_malloc k st = Some (p, st') \<Longrightarrow> p \<noteq> 0 \<Longrightarrow>
    heap_reach st' (L(p \<mapsto> unat (blk_size (mem st') (p - HEADER))))"
| reach_none: "heap_reach st L \<Longrightarrow> heap_served k st \<or> k = 0 \<Longrightarrow> heap_malloc k st = Some (0, st') \<Longrightarrow> heap_reach st' L"
| reach_refused: "heap_reach st L \<Longrightarrow> p = 0 \<or> blk_magic (mem st) (p - HEADER) \<noteq> HEAP_MAGIC_ALLOCATED \<Longrightarrow> heap_reach (heap_free p st) L"
| reach_free: "heap_reach st L \<Longrightarrow> L p = Some n \<Longrightarrow> heap_reach (heap_free p st) (L(p := None))"
| reach_write: "heap_reach st L \<Longrightarrow> L p = Some n \<Longrightarrow> unchanged_outside (mem st) m (unat p) (unat p + n) \<Longrightarrow>
    heap_reach (st\<lparr>mem := m\<rparr>) L"

lemma live_header:
  assumes "heap_live st L" and "L p = Some n"
  shows "unat (blk_size (mem st) (p - HEADER)) = n"
    and "blk_magic (mem st) (p - HEADER) = HEAP_MAGIC_ALLOCATED"
    and "unat (heap_start st) + 20 \<le> unat p" and "unat p + n \<le> unat (heap_end st)"
proof -
  define B where "B = unat (heap_start st)"
  obtain bs where rep: "heap_rep st bs" and L: "L = map_of (live_list B bs)"
    using assms(1) by (auto simp: heap_live_def B_def)
  have mem: "(p, n) \<in> set (live_list B bs)" using assms(2) by (simp add: L map_of_SomeD)
  then obtain xs ys where bs: "bs = xs @ (n, False) # ys" and p: "p = of_nat (B + ext xs + 20)"
    using live_list_split by blast
  have h: "p - HEADER = of_nat (B + ext xs)" "p - HEADER + 8 = of_nat (B + ext xs + 8)"
    by (simp_all add: p HEADER_def)
  have "seg (mem st) (unat (heap_end st)) (lastb 0 B xs) (B + ext xs) ((n, False) # ys)"
    using rep by (simp add: heap_rep_def B_def bs seg_append)
  moreover have "n < 4294967296" using heap_rep_bounds(2) [OF rep] by (simp add: bs)
  ultimately show "unat (blk_size (mem st) (p - HEADER)) = n"
    "blk_magic (mem st) (p - HEADER) = HEAP_MAGIC_ALLOCATED"
    by (simp_all only: h) (simp_all add: hdr_def rd_fold magic_of_def unat_of_nat_u32 rd_def)
  have "B + ext bs = unat (heap_end st)" using rep by (simp add: heap_rep_def B_def)
  then show "unat (heap_start st) + 20 \<le> unat p" "unat p + n \<le> unat (heap_end st)"
    using live_list_bounds [OF mem] heap_rep_bounds(2) [OF rep] by (simp_all add: B_def)
qed

lemma heap_reach_live: "heap_reach st L \<Longrightarrow> heap_live st L"
proof (induction rule: heap_reach.induct)
  case (reach_init start sz st)
  then show ?case by (simp add: heap_init_live)
next
  case (reach_malloc st L k p st')
  obtain n where n: "heap_live st' (L(p \<mapsto> n))"
    using heap.alloc_live [OF reach_malloc.IH reach_malloc.hyps(2-4)] by blast
  show ?case using n unfolding live_header(1) [OF n fun_upd_same] .
next
  case (reach_none st L k st')
  then obtain bs where rep: "heap_rep st bs" by (auto simp: heap_live_def)
  have "st' = st"
  proof (cases "k = 0")
    case False
    then have served: "heap_served k st" using reach_none.hyps(2) by simp
    show ?thesis by (rule heap.alloc_fails [OF reach_none.IH served reach_none.hyps(3)])
  qed (use reach_none.hyps(3) in \<open>simp add: heap_malloc_def split: if_splits\<close>)
  then show ?case using reach_none.IH by simp
next
  case (reach_refused st L p)
  then show ?case by (auto simp: heap_free_def Let_def)
next
  case (reach_free st L p n)
  then show ?case using heap.release_live by blast
next
  case (reach_write st L p n m)
  then show ?case using heap.write_live by blast
qed

text \<open>C1: In every heap that callers bring about who write inside live payloads only, release only live or refused
  pointers, and request only what is served (a size of at most 4294967288 for which the best fitting block, if
  there is one, has room for another header: an exact or nearly exact fit corrupts the heap, see C26), the
  payloads of live pointers lie inside the heap, each behind its own header with the allocated magic number, and
  no two of them overlap.\<close>

theorem reachable_payloads_disjoint:
  assumes "heap_reach st L" and "L p = Some n" and "L q = Some k" and "p \<noteq> q"
  shows "(unat p + n \<le> unat q \<or> unat q + k \<le> unat p)
    \<and> unat (heap_start st) + 20 \<le> unat p \<and> unat p + n \<le> unat (heap_end st)
    \<and> blk_magic (mem st) (p - HEADER) = HEAP_MAGIC_ALLOCATED \<and> unat (blk_size (mem st) (p - HEADER)) = n"
  using heap.live_disjoint [OF heap_reach_live [OF assms(1)] assms(2-4)]
    live_header [OF heap_reach_live [OF assms(1)] assms(2)] by simp

lemma reachable_payloads_disjoint_witness:
  "\<exists>L. heap_reach heap_two L \<and> unat (blk_size (mem heap_two) (0x800014 - HEADER)) = 32"
proof -
  have one: "heap_reach heap_one (Map.empty(0x800014 \<mapsto> unat (blk_size (mem heap_one) (0x800014 - HEADER))))"
    by (rule reach_malloc [OF _ heap_one_rep(4,1)]) (simp_all add: kernel_heap_def reach_init)
  note two = reach_malloc [OF one heap_two_rep(4,1)]
  have "blk_size (mem heap_one) (0x800014 - HEADER) = 32"
    using live_header(1) [OF heap_live_kernel(2), of "0x800014" 32] by (metis fun_upd_same u32_of_nat_unat of_nat_numeral)
  then show ?thesis
    using two reachable_payloads_disjoint [OF two, of "0x800014" 32 "0x800048"] by auto
qed

section \<open>Zeroed and resized blocks\<close>

text \<open>\<open>heap_calloc\<close> refuses a product that does not fit 32 bits; otherwise a pointer it returns
  is a fresh one to at least that many bytes, all zero, and the other payloads are as before.\<close>

theorem heap_calloc_correct:
  assumes "heap_live st L" and "heap_served (k * sz) st" and "heap_calloc k sz st = Some (p, st')"
  shows "if 4294967296 \<le> unat k * unat sz then p = 0 \<and> st' = st
    else p = 0 \<and> st' = st \<or> p \<noteq> 0 \<and> L p = None \<and> kept L (mem st) (mem st')
      \<and> (\<exists>n \<ge> unat k * unat sz. heap_live st' (L(p \<mapsto> n)))
      \<and> (\<forall>i < unat k * unat sz. mem st' (p + of_nat i) = 0)"
proof (cases "4294967296 \<le> unat k * unat sz")
  case True
  have "unat (k * sz) < unat k * unat sz" using True unat_u32_bound [of "k * sz"] by linarith
  then have "unat (k * sz) div unat k < unat sz" by (metis less_mult_imp_div_less mult.commute)
  then have "k * sz div k \<noteq> sz" by (metis less_irrefl unat_div)
  moreover have "k \<noteq> 0" using True by auto
  ultimately show ?thesis using True assms(3) by (simp add: heap_calloc_def Let_def)
next
  case False
  then have kz: "unat (k * sz) = unat k * unat sz" using unat_mult_lem [of k sz] by simp
  have "unat (k * sz div k) = unat sz" if "k \<noteq> 0" using that kz by (simp add: unat_div unat_gt_0)
  then have ok: "\<not> (k \<noteq> 0 \<and> k * sz div k \<noteq> sz)" by (metis u32_of_nat_unat)
  obtain q st1 where m: "heap_malloc (k * sz) st = Some (q, st1)"
    using heap.alloc_returns [OF assms(1,2)] by blast
  show ?thesis
  proof (cases "q = 0")
    case True
    then show ?thesis
      using False m assms(3) ok heap.alloc_fails [OF assms(1,2)] by (auto simp: heap_calloc_def Let_def)
  next
    case q: False
    then have "p = q" and st': "st' = st1\<lparr>mem := memset (mem st1) q 0 (k * sz)\<rparr>"
      using m assms(3) ok by (auto simp: heap_calloc_def Let_def)
    with heap.alloc_fill [OF assms(1,2) m q refl] show ?thesis
      using False q by (simp add: kz)
  qed
qed

lemma heap_calloc_correct_witness:
  "\<exists>p st'. heap_calloc 4 8 kernel_heap = Some (p, st') \<and> p \<noteq> 0 \<and> (\<forall>i < 32. mem st' (p + of_nat i) = 0)"
proof -
  have c: "heap_calloc 4 8 kernel_heap = Some (0x800014, heap_one\<lparr>mem := memset (mem heap_one) 0x800014 0 32\<rparr>)"
    using heap_one_rep(1) by (simp add: heap_calloc_def Let_def)
  show ?thesis using heap_calloc_correct [OF heap_live_kernel(1) _ c] heap_one_rep(4) c by simp
qed

text \<open>\<open>heap_realloc\<close> of a live pointer to a larger size: either it is refused and nothing changes, or
  the new pointer is fresh, holds the old contents in front, and only the old pointer is gone;
  a request that fits the block returns the same pointer and the same heap.\<close>

theorem heap_realloc_correct:
  assumes "heap_live st L" and "L p = Some j" and "k \<noteq> 0" and "heap_served (round_size k) st"
    and "heap_realloc p k st = Some (q, st')"
  shows "if unat (round_size k) \<le> j then q = p \<and> st' = st
    else q = 0 \<and> st' = st \<or> q \<noteq> 0 \<and> L q = None \<and> kept (L(p := None)) (mem st) (mem st')
      \<and> (\<exists>n \<ge> unat (round_size k). heap_live st' ((L(q \<mapsto> n))(p := None)))
      \<and> (\<forall>i < j. mem st' (q + of_nat i) = mem st (p + of_nat i))"
proof -
  note hd = live_header [OF assms(1,2)]
  have p0: "p \<noteq> 0" using heap.live_bounds [OF assms(1,2)] by auto
  have le: "round_size k \<le> blk_size (mem st) (p - HEADER) \<longleftrightarrow> unat (round_size k) \<le> j"
    by (simp add: word_le_nat_alt hd(1))
  show ?thesis
  proof (cases "unat (round_size k) \<le> j")
    case True
    then show ?thesis using assms(3,5) p0 hd(2) le by (simp add: heap_realloc_def Let_def)
  next
    case False
    then have j: "j \<le> unat (round_size k)" by simp
    obtain r st1 where m: "heap_malloc (round_size k) st = Some (r, st1)"
      using heap.alloc_returns [OF assms(1,4)] by blast
    have re: "heap_realloc p k st = (if r = 0 then Some (0, st1)
        else Some (r, heap_free p (st1\<lparr>mem := memcpy (mem st1) r p (blk_size (mem st1) (p - HEADER))\<rparr>)))"
      using assms(3) p0 hd(2) le False m by (simp add: heap_realloc_def Let_def)
    show ?thesis
    proof (cases "r = 0")
      case True
      then show ?thesis using False re m assms(5) heap.alloc_fails [OF assms(1,4)] by auto
    next
      case r: False
      obtain n where n: "L r = None" "heap_live st1 (L(r \<mapsto> n))"
        using heap.alloc_live [OF assms(1,4) m r] by blast
      then have "(L(r \<mapsto> n)) p = Some j" using assms(2) by auto
      from live_header(1) [OF n(2) this] have "blk_size (mem st1) (p - HEADER) = of_nat j"
        by (metis u32_of_nat_unat)
      then have "q = r" "st' = heap_free p (st1\<lparr>mem := memcpy (mem st1) r p (of_nat j)\<rparr>)"
        using re r assms(5) by simp_all
      with heap.alloc_move [OF assms(1,4,2) j m r refl] show ?thesis using False r by simp
    qed
  qed
qed

lemma heap_realloc_correct_witness: "heap_realloc 0x800014 20 heap_one = Some (0x800014, heap_one)"
proof -
  have r: "round_size 20 = 32"
  proof -
    have "unat (round_size 20) = 32" by (simp add: unat_round_size)
    then show ?thesis by (metis u32_of_nat_unat of_nat_numeral)
  qed
  have m: "blk_magic (mem heap_one) (0x800014 - HEADER) = HEAP_MAGIC_ALLOCATED"
    by (rule live_header(2) [OF heap_live_kernel(2)]) simp
  have z: "unat (blk_size (mem heap_one) (0x800014 - HEADER)) = 32"
    by (rule live_header(1) [OF heap_live_kernel(2)]) simp
  then obtain q st' where q: "heap_realloc 0x800014 20 heap_one = Some (q, st')"
    using m r by (auto simp: heap_realloc_def Let_def word_le_nat_alt)
  then show ?thesis
    using heap_realloc_correct [OF heap_live_kernel(2) _ _ _ q, of 32] heap_two_rep(4) r by simp
qed

section \<open>Validation and the counters\<close>

lemma validate_loop_seg:
  assumes "seg (mem st) E p a bs" and "a + ext bs = E" and "E < 4294967296" and "0 < a"
    and "unat (heap_start st) \<le> a" and "unat (heap_end st) = E" and "c \<le> 10000"
  shows "validate_loop st (of_nat (if bs = [] then 0 else a)) c 0 = (if c + length bs \<le> 10000 then 0 else 1)"
  using assms
proof (induction bs arbitrary: p a c rule: ext.induct)
  case 1
  then show ?case by (simp add: validate_loop.simps)
next
  case (2 s f bs)
  have a: "(of_nat a :: u32) \<noteq> 0" "unat (of_nat a :: u32) = a"
    using "2.prems" by (simp_all add: of_nat_u32_eq_0 unat_of_nat_u32)
  have hd: "rd (mem st) (a + 4) = (if f then 1 else 0)" "rd (mem st) (a + 8) = magic_of f"
    and nx: "rd (mem st) (a + 12) = of_nat (if bs = [] then 0 else a + 20 + s)"
    using "2.prems"(1,2) by (auto simp: hdr_def) (cases bs rule: ext.cases; auto)
  have tl: "seg (mem st) E a (a + 20 + s) bs" "a + 20 + s + ext bs = E" using "2.prems"(1,2) by auto
  have inb: "\<not> (of_nat a < heap_start st \<or> heap_end st \<le> of_nat a)"
    using "2.prems" a(2) by (auto simp: word_less_nat_alt word_le_nat_alt)
  have magic: "blk_magic (mem st) (of_nat a) = (if blk_free (mem st) (of_nat a) \<noteq> 0 then HEAP_MAGIC_FREE else HEAP_MAGIC_ALLOCATED)"
    by (simp add: rd_fold hd magic_of_def)
  have v: "validate_loop st (of_nat a) c 0 = (if 10000 < c + 1 then 1
      else validate_loop st (of_nat (if bs = [] then 0 else a + 20 + s)) (c + 1) 0)"
    using a(1) inb magic by (subst validate_loop.simps) (simp add: Let_def rd_fold nx del: of_nat_add)
  show ?case
    using v "2.IH" [OF tl "2.prems"(3) _ _ "2.prems"(6), of "c + 1"] "2.prems"(4,5) by simp
qed

text \<open>\<open>heap_validate\<close> accepts a well-formed heap exactly when it has at most 10000 blocks: it raises
  no false alarm below that bound, and above it the loop guard reports an error.\<close>

theorem heap_validate_accepts:
  assumes "heap_rep st bs"
  shows "heap_validate st \<longleftrightarrow> length bs \<le> 10000"
proof -
  have "validate_loop st (of_nat (unat (heap_start st))) 0 0 = (if length bs \<le> 10000 then 0 else 1)"
    using validate_loop_seg [of st "unat (heap_end st)" 0 "unat (heap_start st)" bs 0] assms
      heap_rep_bounds(1) [OF assms] by (simp add: heap_rep_def)
  then show ?thesis using assms by (simp add: heap_validate_def heap_rep_def)
qed

lemma heap_validate_accepts_witness: "heap_validate heap_two"
  using heap_validate_accepts [OF heap_two_rep(2)] by simp

text \<open>The bytes that the free blocks take, headers included, and how far \<open>free_size\<close>, which starts one
  header short, is from them.\<close>

fun free_total :: "blk list \<Rightarrow> nat" where
  "free_total [] = 0"
| "free_total ((s, f) # bs) = (if f then s + 20 else 0) + free_total bs"

definition free_drift :: "'a heap_scheme \<Rightarrow> blk list \<Rightarrow> u32" where
  "free_drift st bs = free_size st + 20 - of_nat (free_total bs)"

lemma free_total_append [simp]: "free_total (xs @ ys) = free_total xs + free_total ys"
  by (induction xs rule: free_total.induct) auto

lemma free_total_released: "free_total (released xs s ys) = free_total xs + s + 20 + free_total ys"
  by (cases "(s, ys)" rule: join_next.cases; cases xs rule: rev_cases) (auto simp: released_def join_prev_def)

text \<open>The counter \<open>free_size\<close>: a release keeps its distance to the bytes really free, and so does an
  allocation that splits its block; an allocation that takes a whole block subtracts the size
  asked for, not the size taken, and the counter drifts up by the difference.\<close>

theorem free_size_drift:
  assumes rep: "heap_rep st bs" and k: "k \<noteq> 0" and pick: "picks (unat (round_size k)) bs xs s ys"
    and room: "unat (round_size k) + 20 \<le> s"
    and m: "heap_malloc k st = Some (p, st')" and bs': "bs' = xs @ carve (unat (round_size k)) s @ ys"
  shows "free_drift st' bs' = free_drift st bs
      + (if unat (round_size k) + 52 \<le> s then 0 else of_nat s - round_size k)
    \<and> (\<exists>s' ys'. bs' = xs @ (s', False) # ys'
        \<and> free_drift (heap_free p st') (released xs s' ys') = free_drift st' bs')"
proof -
  define n B where "n = unat (round_size k)" and "B = unat (heap_start st)"
  have bs: "bs = xs @ (s, True) # ys" using pick by (simp add: picks_def)
  have found: "find_best_fit (of_nat n) st = Some (of_nat (B + ext xs))"
    unfolding B_def by (rule find_best_fit_picks [OF rep _ pick [folded n_def]]) (simp add: n_def)
  obtain st1 where st1: "heap_malloc k st = Some (of_nat (B + ext xs + 20), st1)"
    "heap_rep st1 (xs @ carve n s @ ys)" "heap_start st1 = heap_start st"
    "free_size st1 = free_size st - of_nat (n + 20)"
    by (rule heap_malloc_carves [OF rep k n_def [symmetric] pick [folded n_def] room [folded n_def] found [unfolded B_def]])
      (simp add: B_def)
  obtain s' ys' where carve: "carve n s @ ys = (s', False) # ys'"
    by (cases "n + 52 \<le> s") (auto simp: carve_def)
  have eqs: "st1 = st'" "p = of_nat (unat (heap_start st1) + ext xs + 20)" using st1 m by (simp_all add: B_def)
  obtain st2 where st2: "heap_free p st' = st2" "free_size st2 = free_size st' + of_nat (s' + 20)"
    using heap_free_releases [OF st1(2) [unfolded carve]] unfolding eqs(2) unfolding eqs(1) by metis
  have "free_total (carve n s @ ys) = free_total ys'" using carve by simp
  then have tot: "free_total bs' = free_total xs + free_total ys'" by (simp add: bs' n_def)
  have "free_drift st' bs' = free_drift st bs + (if n + 52 \<le> s then 0 else of_nat s - of_nat n)"
    using st1(4) eqs(1) room by (auto simp: free_drift_def bs' bs carve_def n_def of_nat_diff)
  moreover have "free_drift (heap_free p st') (released xs s' ys') = free_drift st' bs'"
    by (simp add: free_drift_def st2 free_total_released tot)
  moreover have "bs' = xs @ (s', False) # ys'" by (simp only: bs' n_def [symmetric] carve)
  ultimately show ?thesis unfolding n_def u32_of_nat_unat by blast
qed

lemma free_size_drift_witness:
  "free_drift heap_one [(32, False), (4194232, True)] = free_drift kernel_heap [(4194284, True)]"
proof -
  have "picks (unat (round_size 32)) [(4194284, True)] [] 4194284 []"
    using picks_only [of 32 4194284 "[]"] by (simp add: round_32)
  from free_size_drift [OF kernel_heap_rep(1) _ this _ heap_one_rep(1) refl] show ?thesis
    by (simp add: round_32 carve_def)
qed

end
