(* ===== verification/HeapExact.thy ===== *)
theory HeapExact
  imports HeapProps
begin

text \<open>
  What \<open>split_block\<close> does when the chosen block fits exactly. The unsigned subtraction
  \<open>block->size - size - sizeof(heap_block_t)\<close> wraps around, the remainder looks huge, and
  a header is written over the header of the next block, with a \<open>next\<close> pointer to itself.
\<close>

section \<open>Walks that do not end\<close>

lemma best_fit_loop_leaves:
  assumes "best_fit_loop m sz cur b z = Some r"
  shows "blk_next m c = c \<longrightarrow> c \<noteq> 0 \<longrightarrow> blk_size m c \<noteq> sz \<longrightarrow> cur \<noteq> c"
  by (rule best_fit_loop.raw_induct [where P = "\<lambda>m sz cur b z r.
        blk_next m c = c \<longrightarrow> c \<noteq> 0 \<longrightarrow> blk_size m c \<noteq> sz \<longrightarrow> cur \<noteq> c", OF _ assms])
    (fastforce split: if_splits)

lemma best_fit_loop_stuck:
  assumes "blk_next m c = c" and "c \<noteq> 0" and "blk_size m c \<noteq> sz"
  shows "best_fit_loop m sz c b z = None"
  using best_fit_loop_leaves [of m sz c b z _ c] assms by (cases "best_fit_loop m sz c b z") auto

text \<open>Without an exact fit on the way, the search walks on.\<close>

lemma best_fit_loop_walks:
  assumes "seg m E p a xs" and "a + ext xs < E" and "E < 4294967296" and "0 < a"
    and "n < 4294967296" and "(n, True) \<notin> set xs"
  shows "\<exists>b' z'. best_fit_loop m (of_nat n) (of_nat a) b z = best_fit_loop m (of_nat n) (of_nat (a + ext xs)) b' z'"
  using assms
proof (induction xs arbitrary: p a b z rule: ext.induct)
  case (2 s f bs)
  have a: "(of_nat a :: u32) \<noteq> 0" using "2.prems" by (simp add: of_nat_u32_eq_0)
  have hd: "rd m a = of_nat s" "rd m (a + 4) = (if f then 1 else 0)" "rd m (a + 12) = of_nat (a + 20 + s)"
    using "2.prems"(1,2) by (auto simp: hdr_def)
  have tl: "seg m E a (a + 20 + s) bs" "a + 20 + s + ext bs < E" using "2.prems"(1,2) by auto
  have ne: "f \<Longrightarrow> (of_nat s :: u32) \<noteq> of_nat n"
    using "2.prems" by (auto simp: of_nat_u32_inject)
  have e: "a + 20 + s + ext bs = a + ext ((s, f) # bs)" by simp
  have "\<exists>b' z'. best_fit_loop m (of_nat n) (of_nat a) b z = best_fit_loop m (of_nat n) (of_nat (a + 20 + s)) b' z'"
    using ne by (subst best_fit_loop.simps) (auto simp: a rd_fold hd simp del: of_nat_add)
  then show ?case
    using "2.IH" [OF tl "2.prems"(3) _ "2.prems"(5)] "2.prems"(6) unfolding e by fastforce
qed auto

section \<open>The exact fit\<close>

lemma split_exact:
  assumes seg: "seg (mem st) E p a ((n, f) # ys)" and E: "a + 20 + n + ext ys = E" "E < 4294967296"
    and ys: "ys \<noteq> []" and nb: "nb = a + 20 + n"
  obtains m' where "split_block (of_nat a) (of_nat n) st = st\<lparr>mem := m', blocks_free := blocks_free st + 1\<rparr>"
    and "rd m' nb = - 20" and "rd m' (nb + 4) = 1" and "rd m' (nb + 12) = of_nat nb"
    and "rd m' (a + 12) = of_nat nb" and "unchanged_outside (mem st) m' a (nb + 20)"
proof -
  have "20 \<le> ext ys" using ys by (cases ys rule: ext.cases) auto
  then have b: "nb + 20 \<le> E" "nb \<noteq> E" "nb < 4294967296" "nb \<noteq> 0" using E by (auto simp: nb)
  define m where "m = mem st"
  define m3 where "m3 = wr (wr (wr m nb (- 20)) (nb + 4) 1) (nb + 8) HEAP_MAGIC_FREE"
  define m5 where "m5 = wr (wr m3 (nb + 12) (of_nat nb)) (nb + 16) (of_nat a)"
  define m6 where "m6 = wr m5 (nb + 16) (of_nat nb)"
  define m8 where "m8 = wr (wr m6 (a + 12) (of_nat nb)) a (of_nat n)"
  have hd: "hdr m a n f nb p" using seg b by (auto simp: m_def nb)
  have rem: "rd m a - of_nat n - HEADER = - 20" using hd by (simp add: hdr_def HEADER_def)
  have nbw: "of_nat a + HEADER + of_nat n = (of_nat nb :: u32)" by (simp add: nb HEADER_def)
  have r: "rd m3 (a + 12) = of_nat nb" "rd m5 (a + 12) = of_nat nb"
    using hd b E by (simp_all add: m3_def m5_def hdr_def rd_wr_other nb)
  have nz: "((of_nat nb :: u32) \<noteq> 0) = True" using b by (simp add: of_nat_u32_eq_0)
  have "split_block (of_nat a) (of_nat n) st = st\<lparr>mem := m8, blocks_free := blocks_free st + 1\<rparr>"
    unfolding split_block_def Let_def rd_fold m_def [symmetric] rem nbw wr_fold
      m3_def [symmetric] r m5_def [symmetric] nz if_True m6_def [symmetric] m8_def [symmetric]
    by (simp add: MIN_ALLOC_SIZE_def)
  moreover have "rd m8 nb = - 20" "rd m8 (nb + 4) = 1" "rd m8 (nb + 12) = of_nat nb" "rd m8 (a + 12) = of_nat nb"
    using b E by (simp_all add: m8_def m6_def m5_def m3_def rd_wr_other nb)
  moreover have "unchanged_outside m m8 a (nb + 20)"
    using b E by (auto simp: m8_def m6_def m5_def m3_def nb intro!: unchanged_wr)
  ultimately show ?thesis using that by (simp add: m_def)
qed

text \<open>The state after an allocation that fits exactly, as far as later searches see it: the blocks in front
  are as before, the allocated block leads to the free block behind, and that block leads to
  itself.\<close>

lemma heap_malloc_exact:
  assumes rep: "heap_rep st bs" and k: "k \<noteq> 0" and n: "n = unat (round_size k)"
    and pick: "picks n bs xs n ys" and ys: "ys \<noteq> []"
    and a: "a = unat (heap_start st) + ext xs" and nb: "nb = a + 20 + n"
  obtains st' where "heap_malloc k st = Some (of_nat (a + 20), st')"
    and "heap_initialized st'" and "first_block st' = heap_start st"
    and "seg (mem st') (unat (heap_end st)) 0 (unat (heap_start st)) xs"
    and "rd (mem st') (a + 4) = 0" and "rd (mem st') (a + 12) = of_nat nb"
    and "rd (mem st') nb = - 20" and "rd (mem st') (nb + 12) = of_nat nb" and "rd (mem st') (nb + 4) = 1"
proof -
  define B E where "B = unat (heap_start st)" and "E = unat (heap_end st)"
  have bs: "bs = xs @ (n, True) # ys" using pick by (simp add: picks_def)
  have E: "a + 20 + n + ext ys = E" "E < 4294967296" and seg: "seg (mem st) E 0 B xs"
    and seg_a: "seg (mem st) E (lastb 0 B xs) a ((n, True) # ys)" and init: "heap_initialized st"
    using rep by (simp_all add: heap_rep_def bs a B_def E_def seg_append)
  have "20 \<le> ext ys" using ys by (cases ys rule: ext.cases) auto
  then have nbE: "nb + 20 \<le> E" using E(1) by (simp add: nb)
  have "a \<noteq> 0" "a < 4294967296" using heap_rep_bounds(1) [OF rep] E by (simp_all add: a)
  then have a0: "(of_nat a :: u32) \<noteq> 0" by (simp add: of_nat_u32_eq_0)
  have found: "find_best_fit (round_size k) st = Some (of_nat a)"
    using find_best_fit_picks [OF rep _ pick] by (simp only: n a u32_of_nat_unat unat_u32_bound)
  obtain m' where m': "split_block (of_nat a) (of_nat n) st = st\<lparr>mem := m', blocks_free := blocks_free st + 1\<rparr>"
    "rd m' nb = - 20" "rd m' (nb + 12) = of_nat nb" "rd m' (a + 12) = of_nat nb" "rd m' (nb + 4) = 1"
    "unchanged_outside (mem st) m' a (nb + 20)"
    by (rule split_exact [OF seg_a E ys nb])
  define m2 where "m2 = wr (wr m' (a + 4) 0) (a + 8) HEAP_MAGIC_ALLOCATED"
  define st' where "st' = st\<lparr>mem := m2, blocks_allocated := blocks_allocated st + 1,
    blocks_free := blocks_free st, free_size := free_size st - (of_nat n + HEADER)\<rparr>"
  have nw: "round_size k = of_nat n" by (simp add: n)
  have "heap_malloc k st = Some (of_nat (a + 20), st')"
    using init k a0 found m'(1)
    by (simp add: heap_malloc_def nw wr_fold st'_def m2_def HEADER_def)
  moreover have "seg m2 E 0 B xs"
  proof -
    have "unchanged_outside (mem st) m2 a (nb + 20)"
      using m'(6) E nbE by (auto simp: m2_def nb intro!: unchanged_wr)
    then show ?thesis using seg seg_unchanged [of "mem st" m2 a "nb + 20" B xs E 0] E by (simp add: a B_def)
  qed
  moreover have "rd m2 (a + 4) = 0" "rd m2 (a + 12) = of_nat nb" "rd m2 nb = - 20" "rd m2 (nb + 12) = of_nat nb" "rd m2 (nb + 4) = 1"
    using m'(2-5) nbE E by (simp_all add: m2_def rd_wr_other nb)
  ultimately show ?thesis
    using rep init by (intro that [of st']) (simp_all add: st'_def B_def E_def heap_rep_def)
qed

text \<open>The size that the remainder gets is no multiple of eight: no request is rounded to it.\<close>

lemma align_up_multiple: "\<exists>q. memory_align_up k 8 = push_bit 3 q"
proof -
  define q r where "q = k div 8" and "r = k mod 8"
  have k: "k = q * 8 + r" unfolding q_def r_def by (rule div_mult_mod_eq [symmetric])
  have "memory_align_up k 8 = (if r = 0 then k else k + (8 - r))"
    by (simp add: memory_align_up_def Let_def r_def)
  also have "\<dots> = (if r = 0 then q * 8 else (q + 1) * 8)" by (simp add: k algebra_simps)
  also have "\<dots> = push_bit 3 (if r = 0 then q else q + 1)" by (simp add: push_bit_eq_mult)
  finally show ?thesis by blast
qed

lemma round_size_not_wrapped: "(- 20 :: u32) \<noteq> round_size k"
proof
  assume eq: "(- 20 :: u32) = round_size k"
  have "(- 20 :: u32) \<noteq> 32" by simp
  then have "round_size k = memory_align_up k 8" using eq by (simp add: round_size_def Let_def MIN_ALLOC_SIZE_def split: if_splits)
  then obtain q where "(- 20 :: u32) = push_bit 3 q" using eq align_up_multiple [of k] by auto
  then have "bit (- 20 :: u32) 2 = bit (push_bit 3 q) 2" by (rule arg_cong)
  moreover have "\<not> bit (push_bit 3 q) 2" by (simp add: bit_push_bit_iff)
  moreover have "bit (- 20 :: u32) 2" by simp
  ultimately show False by blast
qed

text \<open>C26: A flaw, proved: when the best block fits exactly and another block follows, the allocation succeeds and
  leaves behind the allocated bytes a free block whose \<open>next\<close> pointer is its own address; and whatever the size
  of the next request is, it never returns, unless a block in front of the allocated one fits it exactly.\<close>

theorem heap_exact_fit_hangs:
  assumes rep: "heap_rep st bs" and k: "k \<noteq> 0" and n: "n = unat (round_size k)"
    and pick: "picks n bs xs n ys" and ys: "ys \<noteq> []"
  shows "\<exists>p st'. heap_malloc k st = Some (p, st') \<and> p \<noteq> 0 \<and>
    p + of_nat n \<noteq> 0 \<and> blk_free (mem st') (p + of_nat n) = 1 \<and> blk_next (mem st') (p + of_nat n) = p + of_nat n \<and>
    (\<forall>k'. k' \<noteq> 0 \<longrightarrow> (unat (round_size k'), True) \<notin> set xs \<longrightarrow> heap_malloc k' st' = None)"
proof -
  define B E a nb where "B = unat (heap_start st)" and "E = unat (heap_end st)" and "a = B + ext xs" and "nb = a + 20 + n"
  have bs: "bs = xs @ (n, True) # ys" using pick by (simp add: picks_def)
  have E: "a + 20 + n + ext ys = E" "E < 4294967296" "0 < B"
    using rep heap_rep_bounds(1) [OF rep] by (simp_all add: heap_rep_def bs a_def B_def E_def)
  obtain st' where st': "heap_malloc k st = Some (of_nat (a + 20), st')" "heap_initialized st'"
    "first_block st' = heap_start st" "seg (mem st') E 0 B xs"
    "rd (mem st') (a + 4) = 0" "rd (mem st') (a + 12) = of_nat nb"
    "rd (mem st') nb = - 20" "rd (mem st') (nb + 12) = of_nat nb" "rd (mem st') (nb + 4) = 1"
    by (rule heap_malloc_exact [OF rep k n pick ys a_def [unfolded B_def] nb_def]) (simp add: B_def E_def)
  have "20 \<le> ext ys" using ys by (cases ys rule: ext.cases) auto
  then have "nb < 4294967296" "nb \<noteq> 0" "a < 4294967296" "a \<noteq> 0" "a + 20 < 4294967296"
    using E by (simp_all add: nb_def a_def)
  then have nz: "(of_nat nb :: u32) \<noteq> 0" "(of_nat a :: u32) \<noteq> 0" "(of_nat (a + 20) :: u32) \<noteq> 0"
    by (simp_all add: of_nat_u32_eq_0 del: of_nat_add)
  have none: "heap_malloc k' st' = None" if k': "k' \<noteq> 0" "(unat (round_size k'), True) \<notin> set xs" for k'
  proof -
    define n' where "n' = unat (round_size k')"
    have stuck: "best_fit_loop (mem st') (of_nat n') (of_nat nb) b z = None" for b z
      using st'(7,8) nz round_size_not_wrapped [of k']
      by (intro best_fit_loop_stuck) (simp_all add: rd_fold n'_def)
    have step: "best_fit_loop (mem st') (of_nat n') (of_nat a) b z = None" for b z
      using stuck nz by (subst best_fit_loop.simps) (simp add: rd_fold st'(5,6))
    have "\<exists>b z. best_fit_loop (mem st') (of_nat n') (of_nat B) 0 (- 1) = best_fit_loop (mem st') (of_nat n') (of_nat a) b z"
      unfolding a_def by (rule best_fit_loop_walks [OF st'(4)]) (use E k' in \<open>simp_all add: a_def n'_def\<close>)
    then have "find_best_fit (round_size k') st' = None"
      using step st'(3) by (auto simp: find_best_fit_def B_def n'_def)
    then show ?thesis using k'(1) st'(2) by (simp add: heap_malloc_def)
  qed
  have p: "of_nat (a + 20) + of_nat n = (of_nat nb :: u32)" by (simp add: nb_def)
  have "blk_free (mem st') (of_nat nb) = 1" "blk_next (mem st') (of_nat nb) = of_nat nb"
    using st'(8,9) by (simp_all add: rd_fold)
  then show ?thesis using st'(1) nz none
    by (intro exI [of _ "of_nat (a + 20)"] exI [of _ st']) (simp add: p none del: of_nat_add)
qed

text \<open>The kernel reaches it with four calls: two allocations of 32 bytes, the release of the first one, and
  a third allocation of 32 bytes. The next allocation of 64 bytes hangs.\<close>

lemma heap_exact_fit_hangs_witness:
  "\<exists>p st'. heap_malloc 32 (heap_free 0x800014 heap_two) = Some (p, st') \<and> p \<noteq> 0 \<and> heap_malloc 64 st' = None"
proof -
  have "heap_free 0x800014 heap_two = heap_free (of_nat (unat (heap_start heap_two) + ext [] + 20)) heap_two"
    by (simp add: heap_two_rep(3))
  moreover obtain st where "heap_free (of_nat (unat (heap_start heap_two) + ext [] + 20)) heap_two = st"
    "heap_rep st (released [] 32 [(32, False), (4194180, True)])"
    by (rule heap_free_releases [of heap_two "[]" 32 "[(32, False), (4194180, True)]"])
      (use heap_two_rep(2) in simp)
  ultimately have rep: "heap_rep (heap_free 0x800014 heap_two) [(32, True), (32, False), (4194180, True)]"
    by (simp add: released_def join_prev_def)
  have "picks 32 [(32, True), (32, False), (4194180, True)] [] 32 [(32, False), (4194180, True)]"
    by (auto simp: picks_def)
  from heap_exact_fit_hangs [OF rep _ round_32 [symmetric] this] show ?thesis by fastforce
qed

end
