(* ===== verification/Vmm.thy ===== *)
theory Vmm
  imports Pmm
begin

text \<open>
  The virtual memory manager (\<open>kernel/vmm.c\<close>): two-level page tables in memory. A page
  directory and a page table are 1024 entries of 32 bits, read and written through the bit
  fields of \<open>page_directory_entry_t\<close> and \<open>page_table_entry_t\<close>. Tables are addressed
  physically, as the code does. The assembly routines of \<open>kernel/paging.asm\<close> set the control
  registers; reloading \<open>cr3\<close> to flush the translation cache is counted.
\<close>

unbundle bit_operations_syntax

record vmm = pmm +
  current_page_directory :: u32
  kernel_page_directory :: u32
  cr3 :: u32
  paging_enabled :: bool
  tlb_flushes :: nat

definition PAGE_PRESENT :: u32 where "PAGE_PRESENT = 0x001"
definition PAGE_WRITABLE :: u32 where "PAGE_WRITABLE = 0x002"
definition PAGE_USER :: u32 where "PAGE_USER = 0x004"
definition KERNEL_VIRTUAL_BASE :: u32 where "KERNEL_VIRTUAL_BASE = 0xC0000000"
definition USER_VIRTUAL_BASE :: u32 where "USER_VIRTUAL_BASE = 0x40000000"

definition GET_PD_INDEX :: "u32 \<Rightarrow> u32" where "GET_PD_INDEX addr = drop_bit 22 addr"
definition GET_PT_INDEX :: "u32 \<Rightarrow> u32" where "GET_PT_INDEX addr = drop_bit 12 addr AND 0x3FF"
definition PAGE_ALIGN :: "u32 \<Rightarrow> u32" where "PAGE_ALIGN addr = addr AND NOT (PAGE_SIZE - 1)"

section \<open>Entries\<close>

definition entry :: "mem \<Rightarrow> u32 \<Rightarrow> u32 \<Rightarrow> u32" where
  "entry m table i = load32 m (table + 4 * i)"

definition update_entry :: "u32 \<Rightarrow> u32 \<Rightarrow> (u32 \<Rightarrow> u32) \<Rightarrow> mem \<Rightarrow> mem" where
  "update_entry table i f m = store32 m (table + 4 * i) (f (entry m table i))"

definition entry_present :: "u32 \<Rightarrow> bool" where "entry_present e \<longleftrightarrow> bit e 0"
definition entry_address :: "u32 \<Rightarrow> u32" where "entry_address e = drop_bit 12 e"

definition set_flag :: "nat \<Rightarrow> bool \<Rightarrow> u32 \<Rightarrow> u32" where
  "set_flag k b e = (if b then e OR push_bit k 1 else e AND NOT (push_bit k 1))"

definition set_address :: "u32 \<Rightarrow> u32 \<Rightarrow> u32" where
  "set_address a e = (e AND 0xFFF) OR push_bit 12 (a AND 0xFFFFF)"

section \<open>Operations\<close>

definition vmm_load_page_directory :: "u32 \<Rightarrow> 'a vmm_scheme \<Rightarrow> 'a vmm_scheme" where
  "vmm_load_page_directory dir_phys st = st\<lparr>cr3 := dir_phys\<rparr>"

definition vmm_enable_paging_asm :: "'a vmm_scheme \<Rightarrow> 'a vmm_scheme" where
  "vmm_enable_paging_asm st = st\<lparr>paging_enabled := True\<rparr>"

definition vmm_flush_tlb :: "'a vmm_scheme \<Rightarrow> 'a vmm_scheme" where
  "vmm_flush_tlb st = st\<lparr>tlb_flushes := tlb_flushes st + 1\<rparr>"

text \<open>The first part of \<open>vmm_map_page\<close>: make sure there is a page table. The result says whether the
  function goes on.\<close>

definition ensure_page_table :: "u32 \<Rightarrow> u32 \<Rightarrow> u32 \<Rightarrow> 'a vmm_scheme \<Rightarrow> bool \<times> 'a vmm_scheme" where
  "ensure_page_table dir pd_index flags st =
     (if \<not> entry_present (entry (mem st) dir pd_index) then
        (let (page_table_phys, st) = pmm_alloc_frame st in
         if page_table_phys = 0 then (False, st)
         else (True, st\<lparr>mem :=
           (update_entry dir pd_index (set_address (drop_bit 12 page_table_phys))
           (update_entry dir pd_index (set_flag 2 (flags AND PAGE_USER \<noteq> 0))
           (update_entry dir pd_index (set_flag 1 True)
           (update_entry dir pd_index (set_flag 0 True)
           (memset (mem st) page_table_phys 0 4096)))))\<rparr>))
      else (True, st))"

definition vmm_map_page :: "u32 \<Rightarrow> u32 \<Rightarrow> u32 \<Rightarrow> u32 \<Rightarrow> 'a vmm_scheme \<Rightarrow> 'a vmm_scheme" where
  "vmm_map_page dir virtual_addr physical_addr flags st =
     (let virtual_addr = PAGE_ALIGN virtual_addr; physical_addr = PAGE_ALIGN physical_addr;
          pd_index = GET_PD_INDEX virtual_addr; pt_index = GET_PT_INDEX virtual_addr;
          (ok, st) = ensure_page_table dir pd_index flags st
      in if \<not> ok then st
         else let page_table = push_bit 12 (entry_address (entry (mem st) dir pd_index));
                  m = update_entry page_table pt_index (set_address (drop_bit 12 physical_addr))
                     (update_entry page_table pt_index (set_flag 2 (flags AND PAGE_USER \<noteq> 0))
                     (update_entry page_table pt_index (set_flag 1 (flags AND PAGE_WRITABLE \<noteq> 0))
                     (update_entry page_table pt_index (set_flag 0 (flags AND PAGE_PRESENT \<noteq> 0)) (mem st))))
              in vmm_flush_tlb (st\<lparr>mem := m\<rparr>))"

definition vmm_unmap_page :: "u32 \<Rightarrow> u32 \<Rightarrow> 'a vmm_scheme \<Rightarrow> 'a vmm_scheme" where
  "vmm_unmap_page dir virtual_addr st =
     (let virtual_addr = PAGE_ALIGN virtual_addr;
          pd_index = GET_PD_INDEX virtual_addr; pt_index = GET_PT_INDEX virtual_addr
      in if \<not> entry_present (entry (mem st) dir pd_index) then st
         else let page_table = push_bit 12 (entry_address (entry (mem st) dir pd_index));
                  physical_addr = push_bit 12 (entry_address (entry (mem st) page_table pt_index));
                  st = st\<lparr>mem := memset (mem st) (page_table + 4 * pt_index) 0 4\<rparr>;
                  st = (if physical_addr \<noteq> 0 then pmm_free_frame physical_addr st else st)
              in vmm_flush_tlb st)"

definition vmm_get_physical_address :: "u32 \<Rightarrow> u32 \<Rightarrow> 'a vmm_scheme \<Rightarrow> u32" where
  "vmm_get_physical_address dir virtual_addr st =
     (let pd_index = GET_PD_INDEX virtual_addr; pt_index = GET_PT_INDEX virtual_addr;
          offset = virtual_addr AND 0xFFF
      in if \<not> entry_present (entry (mem st) dir pd_index) then 0
         else let page_table = push_bit 12 (entry_address (entry (mem st) dir pd_index)) in
           if \<not> entry_present (entry (mem st) page_table pt_index) then 0
           else push_bit 12 (entry_address (entry (mem st) page_table pt_index)) OR offset)"

definition vmm_create_page_directory :: "'a vmm_scheme \<Rightarrow> u32 \<times> 'a vmm_scheme" where
  "vmm_create_page_directory st =
     (let (page_dir, st) = pmm_alloc_frame st in
      if page_dir = 0 then (0, st)
      else let m = memset (mem st) page_dir 0 4096;
               m = fold (\<lambda>i m. store32 m (page_dir + 4 * of_nat i) (entry m (kernel_page_directory st) (of_nat i)))
                     [unat (GET_PD_INDEX KERNEL_VIRTUAL_BASE)..<1024] m
           in (page_dir, st\<lparr>mem := m\<rparr>))"

definition vmm_switch_page_directory :: "u32 \<Rightarrow> 'a vmm_scheme \<Rightarrow> 'a vmm_scheme" where
  "vmm_switch_page_directory dir st = vmm_load_page_directory dir (st\<lparr>current_page_directory := dir\<rparr>)"

definition vmm_enable_paging :: "'a vmm_scheme \<Rightarrow> 'a vmm_scheme" where
  "vmm_enable_paging st = vmm_enable_paging_asm (vmm_switch_page_directory (kernel_page_directory st) st)"

text \<open>The two loops of \<open>vmm_init\<close> run over the 1024 pages of the first 4 MB.\<close>

definition vmm_init :: "'a vmm_scheme \<Rightarrow> 'a vmm_scheme" where
  "vmm_init st =
     (let dir = kernel_page_directory st;
          st = st\<lparr>mem := memset (mem st) dir 0 4096\<rparr>;
          st = fold (\<lambda>i. vmm_map_page dir (of_nat i * PAGE_SIZE) (of_nat i * PAGE_SIZE) (PAGE_PRESENT OR PAGE_WRITABLE))
                 [0..<1024] st;
          st = fold (\<lambda>i. vmm_map_page dir (KERNEL_VIRTUAL_BASE + of_nat i * PAGE_SIZE) (of_nat i * PAGE_SIZE)
                        (PAGE_PRESENT OR PAGE_WRITABLE)) [0..<1024] st
      in st\<lparr>current_page_directory := dir\<rparr>)"

end
