(* ===== verification/Process.thy ===== *)
theory Process
  imports Vmm
begin

text \<open>
  Processes (\<open>kernel/process.c\<close>): the table of 32 process control blocks, process identifiers,
  creation and destruction. A pointer to a process is an index into the table, \<open>None\<close> is the
  null pointer. The two strings of a control block are represented by their characters without
  the terminator. \<open>process_exit\<close> calls the scheduler and is in its theory.
\<close>

unbundle bit_operations_syntax

definition PROCESS_STATE_RUNNING :: u32 where "PROCESS_STATE_RUNNING = 1"
definition PROCESS_STATE_READY :: u32 where "PROCESS_STATE_READY = 2"
definition PROCESS_STATE_BLOCKED :: u32 where "PROCESS_STATE_BLOCKED = 3"
definition PROCESS_STATE_TERMINATED :: u32 where "PROCESS_STATE_TERMINATED = 4"
definition PROCESS_PRIORITY_HIGH :: u32 where "PROCESS_PRIORITY_HIGH = 1"
definition PROCESS_PRIORITY_NORMAL :: u32 where "PROCESS_PRIORITY_NORMAL = 2"
definition PROCESS_PRIORITY_LOW :: u32 where "PROCESS_PRIORITY_LOW = 3"
definition MAX_PROCESSES :: nat where "MAX_PROCESSES = 32"
definition PROCESS_STACK_SIZE :: u32 where "PROCESS_STACK_SIZE = 4096"

lemmas process_states = PROCESS_STATE_RUNNING_def PROCESS_STATE_READY_def PROCESS_STATE_BLOCKED_def
  PROCESS_STATE_TERMINATED_def

record process =
  pid :: u32
  parent_pid :: u32
  process_name :: "u8 list"
  process_state :: u32
  priority :: u32
  ctx_eax :: u32
  ctx_ebx :: u32
  ctx_ecx :: u32
  ctx_edx :: u32
  ctx_esi :: u32
  ctx_edi :: u32
  ctx_esp :: u32
  ctx_ebp :: u32
  ctx_eip :: u32
  ctx_eflags :: u32
  page_directory :: u32
  kernel_stack :: u32
  user_stack :: u32
  heap_start :: u32
  heap_end :: u32
  time_slice :: u32
  time_used :: u32
  total_time :: u32
  current_directory :: "u8 list"
  next_process :: "nat option"
  creation_time :: u32
  exit_code :: int

text \<open>What \<open>memset(process, 0, sizeof(process_t))\<close> leaves.\<close>

definition zero_process :: process where
  "zero_process = \<lparr>pid = 0, parent_pid = 0, process_name = [], process_state = 0, priority = 0, ctx_eax = 0,
     ctx_ebx = 0, ctx_ecx = 0, ctx_edx = 0, ctx_esi = 0, ctx_edi = 0, ctx_esp = 0, ctx_ebp = 0, ctx_eip = 0,
     ctx_eflags = 0, page_directory = 0, kernel_stack = 0, user_stack = 0, heap_start = 0, heap_end = 0,
     time_slice = 0, time_used = 0, total_time = 0, current_directory = [], next_process = None,
     creation_time = 0, exit_code = 0\<rparr>"

record kernel = vmm +
  process_table :: "process list"
  current_process :: "nat option"
  next_pid :: u32
  multitasking_enabled :: bool
  timer_ticks :: u32

definition proc :: "'a kernel_scheme \<Rightarrow> nat \<Rightarrow> process" where
  "proc st p = process_table st ! p"

definition update_process :: "nat \<Rightarrow> (process \<Rightarrow> process) \<Rightarrow> 'a kernel_scheme \<Rightarrow> 'a kernel_scheme" where
  "update_process p f st = st\<lparr>process_table := (process_table st)[p := f (process_table st ! p)]\<rparr>"

section \<open>Operations\<close>

definition process_init :: "'a kernel_scheme \<Rightarrow> 'a kernel_scheme" where
  "process_init st =
     (let st = st\<lparr>process_table := replicate MAX_PROCESSES zero_process\<rparr>;
          st = update_process 0 (\<lambda>p. p\<lparr>pid := 0, parent_pid := 0, process_name := [107, 101, 114, 110, 101, 108],
            process_state := PROCESS_STATE_RUNNING, priority := PROCESS_PRIORITY_HIGH, time_slice := 100,
            page_directory := 0, current_directory := [47]\<rparr>) st
      in st\<lparr>current_process := Some 0\<rparr>)"

definition process_get_next_pid :: "'a kernel_scheme \<Rightarrow> u32 \<times> 'a kernel_scheme" where
  "process_get_next_pid st =
     (let p = next_pid st; st = st\<lparr>next_pid := next_pid st + 1\<rparr>;
          st = (if of_nat MAX_PROCESSES \<le> next_pid st then st\<lparr>next_pid := 1\<rparr> else st)
      in (p, st))"

definition free_slot :: "'a kernel_scheme \<Rightarrow> nat option" where
  "free_slot st = find (\<lambda>i. process_state (proc st i) = 0) [1..<MAX_PROCESSES]"

definition slice_of :: "u32 \<Rightarrow> u32" where
  "slice_of prio = (if prio = PROCESS_PRIORITY_HIGH then 50 else if prio = PROCESS_PRIORITY_NORMAL then 100 else 200)"

text \<open>The block of a new process before its memory is set up.\<close>

definition init_process :: "u8 list \<Rightarrow> u32 \<Rightarrow> nat \<Rightarrow> 'a kernel_scheme \<Rightarrow> 'a kernel_scheme" where
  "init_process name prio i st =
     (let st = update_process i (\<lambda>_. zero_process) st;
          (new_pid, st) = process_get_next_pid st;
          st = update_process i (\<lambda>p. p\<lparr>pid := new_pid\<rparr>) st;
          parent = (case current_process st of None \<Rightarrow> 0 | Some c \<Rightarrow> pid (proc st c))
      in update_process i (\<lambda>p. p\<lparr>parent_pid := parent, process_name := take 31 name,
           process_state := PROCESS_STATE_READY, priority := prio, time_slice := slice_of prio\<rparr>) st)"

text \<open>The rest of the block, once the frames are there.\<close>

definition finish_process :: "u32 \<Rightarrow> nat \<Rightarrow> 'a kernel_scheme \<Rightarrow> 'a kernel_scheme" where
  "finish_process entry_point i st =
     (let st = vmm_map_page (page_directory (proc st i)) (USER_VIRTUAL_BASE + 0x10000) (user_stack (proc st i))
            (PAGE_PRESENT OR PAGE_WRITABLE OR PAGE_USER) st;
          dir = (case current_process st of None \<Rightarrow> [47] | Some c \<Rightarrow> current_directory (proc st c))
      in update_process i (\<lambda>p. p\<lparr>ctx_eip := entry_point, ctx_esp := USER_VIRTUAL_BASE + 0x10000 + PROCESS_STACK_SIZE - 4,
           ctx_ebp := USER_VIRTUAL_BASE + 0x10000 + PROCESS_STACK_SIZE - 4, ctx_eflags := 0x202,
           heap_start := USER_VIRTUAL_BASE + 0x20000, heap_end := USER_VIRTUAL_BASE + 0x100000,
           current_directory := dir, creation_time := timer_ticks st\<rparr>) st)"

definition process_create :: "u8 list \<Rightarrow> u32 \<Rightarrow> u32 \<Rightarrow> 'a kernel_scheme \<Rightarrow> nat option \<times> 'a kernel_scheme" where
  "process_create name entry_point prio st =
     (case free_slot st of
        None \<Rightarrow> (None, st)
      | Some i \<Rightarrow>
          let st = init_process name prio i st;
              (dir, st) = vmm_create_page_directory st;
              st = update_process i (\<lambda>p. p\<lparr>page_directory := dir\<rparr>) st
          in if dir = 0 then (None, st)
             else let (ks, st) = pmm_alloc_frame st;
                      st = update_process i (\<lambda>p. p\<lparr>kernel_stack := ks\<rparr>) st
                  in if ks = 0 then (None, st)
                     else let (us, st) = pmm_alloc_frame st;
                              st = update_process i (\<lambda>p. p\<lparr>user_stack := us\<rparr>) st
                          in if us = 0 then (None, pmm_free_frame ks st)
                             else (Some i, finish_process entry_point i st))"

definition process_destroy :: "nat option \<Rightarrow> 'a kernel_scheme \<Rightarrow> 'a kernel_scheme" where
  "process_destroy process st =
     (case process of
        None \<Rightarrow> st
      | Some i \<Rightarrow>
          if pid (proc st i) = 0 then st
          else let st = (if kernel_stack (proc st i) \<noteq> 0 then pmm_free_frame (kernel_stack (proc st i)) st else st);
                   st = (if user_stack (proc st i) \<noteq> 0 then pmm_free_frame (user_stack (proc st i)) st else st);
                   st = update_process i (\<lambda>p. p\<lparr>process_state := PROCESS_STATE_TERMINATED\<rparr>) st
               in update_process i (\<lambda>_. zero_process) st)"

definition process_get_current :: "'a kernel_scheme \<Rightarrow> nat option" where
  "process_get_current st = current_process st"

definition process_get_by_pid :: "u32 \<Rightarrow> 'a kernel_scheme \<Rightarrow> nat option" where
  "process_get_by_pid n st = find (\<lambda>i. pid (proc st i) = n \<and> process_state (proc st i) \<noteq> 0) [0..<MAX_PROCESSES]"

definition enable_multitasking :: "'a kernel_scheme \<Rightarrow> 'a kernel_scheme" where
  "enable_multitasking st = st\<lparr>multitasking_enabled := True\<rparr>"

definition disable_multitasking :: "'a kernel_scheme \<Rightarrow> 'a kernel_scheme" where
  "disable_multitasking st = st\<lparr>multitasking_enabled := False\<rparr>"

definition is_multitasking_enabled :: "'a kernel_scheme \<Rightarrow> bool" where
  "is_multitasking_enabled st = multitasking_enabled st"

section \<open>Reading the table after an update\<close>

lemma proc_update [simp]:
  "p < length (process_table st) \<Longrightarrow> proc (update_process q f st) p = (if p = q then f (proc st p) else proc st p)"
  by (simp add: proc_def update_process_def nth_list_update)

lemma update_process_fields [simp]:
  "length (process_table (update_process p f st)) = length (process_table st)"
  "current_process (update_process p f st) = current_process st"
  "next_pid (update_process p f st) = next_pid st"
  "timer_ticks (update_process p f st) = timer_ticks st"
  "multitasking_enabled (update_process p f st) = multitasking_enabled st"
  "mem (update_process p f st) = mem st"
  "bitmap (update_process p f st) = bitmap st"
  "total_frames (update_process p f st) = total_frames st"
  "free_frames (update_process p f st) = free_frames st"
  "first_free_frame (update_process p f st) = first_free_frame st"
  "kernel_page_directory (update_process p f st) = kernel_page_directory st"
  by (simp_all add: update_process_def)

end
