(* ===== verification/Scheduler.thy ===== *)
theory Scheduler
  imports Process
begin

text \<open>
  The scheduler (\<open>kernel/scheduler.c\<close>): a queue of ready processes threaded through the
  \<open>next\<close> fields of their control blocks, the switch to the head of the queue, time slices,
  and \<open>process_exit\<close>. The walk of \<open>scheduler_remove_process\<close> along the links is a
  \<open>partial_function\<close>: on a cyclic chain it has the value \<open>None\<close>.
\<close>

record task_queue =
  head :: "nat option"
  tail :: "nat option"
  count :: u32

record scheduler_stats =
  total_processes :: u32
  running_processes :: u32
  context_switches :: u32
  time_slices :: u32
  idle_time :: u32

record scheduler = kernel +
  ready_queue :: task_queue
  sched_stats :: scheduler_stats
  scheduler_enabled :: bool

definition scheduler_init :: "'a scheduler_scheme \<Rightarrow> 'a scheduler_scheme" where
  "scheduler_init st = st\<lparr>ready_queue := \<lparr>head = None, tail = None, count = 0\<rparr>,
     sched_stats := \<lparr>total_processes = 0, running_processes = 0, context_switches = 0, time_slices = 0, idle_time = 0\<rparr>,
     scheduler_enabled := True\<rparr>"

definition scheduler_add_process :: "nat option \<Rightarrow> 'a scheduler_scheme \<Rightarrow> 'a scheduler_scheme" where
  "scheduler_add_process process st =
     (case process of
        None \<Rightarrow> st
      | Some p \<Rightarrow>
          if \<not> scheduler_enabled st then st
          else let st = update_process p (\<lambda>b. b\<lparr>process_state := PROCESS_STATE_READY, next_process := None\<rparr>) st;
                   st = (case tail (ready_queue st) of
                           Some t \<Rightarrow> (update_process t (\<lambda>b. b\<lparr>next_process := Some p\<rparr>) st)
                             \<lparr>ready_queue := (ready_queue st)\<lparr>tail := Some p\<rparr>\<rparr>
                         | None \<Rightarrow> st\<lparr>ready_queue := (ready_queue st)\<lparr>head := Some p, tail := Some p\<rparr>\<rparr>)
               in st\<lparr>ready_queue := (ready_queue st)\<lparr>count := count (ready_queue st) + 1\<rparr>,
                     sched_stats := (sched_stats st)\<lparr>total_processes := total_processes (sched_stats st) + 1\<rparr>\<rparr>)"

text \<open>The loop of \<open>scheduler_remove_process\<close>: \<open>current\<close> and \<open>previous\<close> walk along the links.\<close>

definition unlink :: "nat \<Rightarrow> nat option \<Rightarrow> 'a scheduler_scheme \<Rightarrow> 'a scheduler_scheme" where
  "unlink p previous st =
     (let st = (case previous of
                  Some q \<Rightarrow> update_process q (\<lambda>b. b\<lparr>next_process := next_process (proc st p)\<rparr>) st
                | None \<Rightarrow> st\<lparr>ready_queue := (ready_queue st)\<lparr>head := next_process (proc st p)\<rparr>\<rparr>);
          st = (if tail (ready_queue st) = Some p then st\<lparr>ready_queue := (ready_queue st)\<lparr>tail := previous\<rparr>\<rparr> else st);
          st = st\<lparr>ready_queue := (ready_queue st)\<lparr>count := count (ready_queue st) - 1\<rparr>\<rparr>
      in update_process p (\<lambda>b. b\<lparr>next_process := None\<rparr>) st)"

partial_function (option) remove_loop ::
  "nat \<Rightarrow> nat option \<Rightarrow> nat option \<Rightarrow> 'a scheduler_scheme \<Rightarrow> 'a scheduler_scheme option" where
  "remove_loop process previous current st =
     (case current of
        None \<Rightarrow> Some st
      | Some c \<Rightarrow> if c = process then Some (unlink c previous st)
                  else remove_loop process (Some c) (next_process (proc st c)) st)"

declare remove_loop.simps [code]

definition scheduler_remove_process :: "nat option \<Rightarrow> 'a scheduler_scheme \<Rightarrow> 'a scheduler_scheme option" where
  "scheduler_remove_process process st =
     (case process of
        None \<Rightarrow> Some st
      | Some p \<Rightarrow> if \<not> scheduler_enabled st \<or> count (ready_queue st) = 0 then Some st
                  else remove_loop p None (head (ready_queue st)) st)"

definition get_next_process :: "'a scheduler_scheme \<Rightarrow> nat option \<times> 'a scheduler_scheme" where
  "get_next_process st =
     (if count (ready_queue st) = 0 then (None, st)
      else case head (ready_queue st) of
        None \<Rightarrow> (None, st)
      | Some n \<Rightarrow>
          let st = st\<lparr>ready_queue := (ready_queue st)\<lparr>head := next_process (proc st n)\<rparr>\<rparr>;
              st = (if head (ready_queue st) = None then st\<lparr>ready_queue := (ready_queue st)\<lparr>tail := None\<rparr>\<rparr> else st);
              st = st\<lparr>ready_queue := (ready_queue st)\<lparr>count := count (ready_queue st) - 1\<rparr>\<rparr>
          in (Some n, update_process n (\<lambda>b. b\<lparr>next_process := None\<rparr>) st))"

definition save_context :: "nat \<Rightarrow> 'a kernel_scheme \<Rightarrow> 'a kernel_scheme" where
  "save_context p st = update_process p (\<lambda>b. b\<lparr>ctx_eax := 0, ctx_ebx := 0, ctx_ecx := 0, ctx_edx := 0, ctx_esi := 0,
     ctx_edi := 0, ctx_esp := 0, ctx_ebp := 0, ctx_eflags := 0x202\<rparr>) st"

definition load_context :: "nat \<Rightarrow> 'a kernel_scheme \<Rightarrow> 'a kernel_scheme" where
  "load_context p st = update_process p (\<lambda>b. b\<lparr>process_state := PROCESS_STATE_RUNNING\<rparr>) st"

text \<open>The first half of a switch: put the running process back into the queue.\<close>

definition requeue_current :: "'a scheduler_scheme \<Rightarrow> 'a scheduler_scheme" where
  "requeue_current st =
     (case current_process st of
        None \<Rightarrow> st
      | Some c \<Rightarrow>
          if process_state (proc st c) = PROCESS_STATE_RUNNING then
            let st = save_context c st;
                st = update_process c (\<lambda>b. b\<lparr>process_state := PROCESS_STATE_READY\<rparr>) st
            in if process_state (proc st c) \<noteq> PROCESS_STATE_TERMINATED then scheduler_add_process (Some c) st else st
          else st)"

definition scheduler_schedule :: "'a scheduler_scheme \<Rightarrow> 'a scheduler_scheme" where
  "scheduler_schedule st =
     (if \<not> scheduler_enabled st then st
      else case get_next_process st of
        (None, st) \<Rightarrow>
          if (case current_process st of Some c \<Rightarrow> process_state (proc st c) = PROCESS_STATE_RUNNING | None \<Rightarrow> False) then st
          else st\<lparr>sched_stats := (sched_stats st)\<lparr>idle_time := idle_time (sched_stats st) + 1\<rparr>\<rparr>
      | (Some n, st) \<Rightarrow>
          let st = requeue_current st;
              st = st\<lparr>current_process := Some n\<rparr>;
              st = update_process n (\<lambda>b. b\<lparr>process_state := PROCESS_STATE_RUNNING, time_used := 0\<rparr>) st;
              st = st\<lparr>sched_stats := (sched_stats st)\<lparr>context_switches := context_switches (sched_stats st) + 1,
                     running_processes := count (ready_queue st) + 1\<rparr>\<rparr>;
              st = load_context n st
          in if page_directory (proc st n) \<noteq> 0 then vmm_switch_page_directory (page_directory (proc st n)) st else st)"

definition scheduler_yield :: "'a scheduler_scheme \<Rightarrow> 'a scheduler_scheme" where
  "scheduler_yield st = (if \<not> scheduler_enabled st then st else scheduler_schedule st)"

definition scheduler_tick :: "'a scheduler_scheme \<Rightarrow> 'a scheduler_scheme" where
  "scheduler_tick st =
     (if \<not> scheduler_enabled st then st
      else case current_process st of
        None \<Rightarrow> st
      | Some c \<Rightarrow>
          let st = st\<lparr>sched_stats := (sched_stats st)\<lparr>time_slices := time_slices (sched_stats st) + 1\<rparr>\<rparr>;
              st = update_process c (\<lambda>b. b\<lparr>time_used := time_used b + 1, total_time := total_time b + 1\<rparr>) st
          in if time_slice (proc st c) \<le> time_used (proc st c) then scheduler_yield st else st)"

definition process_exit :: "int \<Rightarrow> 'a scheduler_scheme \<Rightarrow> 'a scheduler_scheme" where
  "process_exit code st =
     (case current_process st of
        None \<Rightarrow> st
      | Some c \<Rightarrow> if pid (proc st c) = 0 then st
                  else scheduler_schedule (update_process c
                    (\<lambda>b. b\<lparr>exit_code := code, process_state := PROCESS_STATE_TERMINATED\<rparr>) st))"

end
