(* ===== verification/ReadyQueue.thy ===== *)
theory ReadyQueue
  imports Scheduler
begin

text \<open>
  The ready queue as a list. \<open>queue_of\<close> follows the links from the head; \<open>queue_inv\<close> says that
  head, tail, count and links agree with a list of distinct processes. The locale
  \<open>round_robin\<close> is the contract of the scheduler, from which fairness follows; the scheduler's
  interpretation is in \<open>SchedulerProps\<close>.
\<close>

section \<open>Chains of links\<close>

fun chained :: "(nat \<Rightarrow> nat option) \<Rightarrow> nat list \<Rightarrow> bool" where
  "chained nx [] = True"
| "chained nx [p] = (nx p = None)"
| "chained nx (p # q # ps) = (nx p = Some q \<and> chained nx (q # ps))"

lemma chained_cong: "(\<And>p. p \<in> set ps \<Longrightarrow> nx p = nx' p) \<Longrightarrow> chained nx ps = chained nx' ps"
  by (induction nx ps rule: chained.induct) auto

lemma chained_tl: "chained nx (p # ps) \<Longrightarrow> chained nx ps \<and> nx p = (case ps of [] \<Rightarrow> None | q # _ \<Rightarrow> Some q)"
  by (cases ps) auto

lemma chained_snoc:
  "chained nx ps \<Longrightarrow> distinct (ps @ [p]) \<Longrightarrow> ps \<noteq> [] \<Longrightarrow> chained (nx(last ps := Some p, p := None)) (ps @ [p])"
  by (induction nx ps rule: chained.induct) auto

lemma chained_remove:
  "chained nx (ps @ p # qs) \<Longrightarrow> distinct (ps @ p # qs) \<Longrightarrow>
    chained (if ps = [] then nx else nx(last ps := nx p)) (ps @ qs)"
proof (induction nx ps rule: chained.induct)
  case (2 nx a)
  then show ?case by (cases qs) (auto intro: chained_cong [THEN iffD1, rotated])
next
  case (3 nx a b ps)
  then show ?case by auto
qed (use chained_tl in auto)

section \<open>The queue of a state\<close>

primrec chase :: "(nat \<Rightarrow> nat option) \<Rightarrow> nat \<Rightarrow> nat option \<Rightarrow> nat list" where
  "chase nx 0 p = []"
| "chase nx (Suc n) p = (case p of None \<Rightarrow> [] | Some q \<Rightarrow> q # chase nx n (nx q))"

lemma chase_chained: "chained nx ps \<Longrightarrow> chase nx (length ps) (case ps of [] \<Rightarrow> None | q # _ \<Rightarrow> Some q) = ps"
  by (induction nx ps rule: chained.induct) auto

definition link :: "'a kernel_scheme \<Rightarrow> nat \<Rightarrow> nat option" where
  "link st p = next_process (proc st p)"

definition queue_of :: "'a scheduler_scheme \<Rightarrow> nat list" where
  "queue_of st = chase (link st) (unat (count (ready_queue st))) (head (ready_queue st))"

definition queue_inv :: "'a scheduler_scheme \<Rightarrow> nat list \<Rightarrow> bool" where
  "queue_inv st qs \<longleftrightarrow> length (process_table st) = 32 \<and> scheduler_enabled st \<and> distinct qs \<and> set qs \<subseteq> {..<32}
     \<and> chained (link st) qs \<and> head (ready_queue st) = (case qs of [] \<Rightarrow> None | q # _ \<Rightarrow> Some q)
     \<and> tail (ready_queue st) = (if qs = [] then None else Some (last qs))
     \<and> count (ready_queue st) = of_nat (length qs)
     \<and> (\<forall>q \<in> set qs. process_state (proc st q) = PROCESS_STATE_READY)"

lemma queue_inv_length: "queue_inv st qs \<Longrightarrow> length qs \<le> 32"
proof -
  assume "queue_inv st qs"
  then have "distinct qs" "set qs \<subseteq> {..<32}" by (simp_all add: queue_inv_def)
  then show "length qs \<le> 32" using card_mono [of "{..<32 :: nat}" "set qs"] by (simp add: distinct_card)
qed

lemma queue_of_inv: "queue_inv st qs \<Longrightarrow> queue_of st = qs"
  using queue_inv_length [of st qs] chase_chained [of "link st" qs]
  by (simp add: queue_of_def queue_inv_def unat_of_nat_u32)

lemma queue_inv_cong:
  assumes "queue_inv st qs"
    and "process_table st' = process_table st" "ready_queue st' = ready_queue st" "scheduler_enabled st' = scheduler_enabled st"
  shows "queue_inv st' qs"
proof -
  have "proc st' = proc st" by (simp add: proc_def fun_eq_iff assms(2))
  then show ?thesis using assms by (simp add: queue_inv_def link_def fun_eq_iff [symmetric] cong: chained_cong)
qed

section \<open>The contract\<close>

text \<open>Round robin: the head of the queue runs, the process that ran goes to the end.\<close>

fun rr :: "nat option \<times> nat list \<Rightarrow> nat option \<times> nat list" where
  "rr (c, []) = (c, [])"
| "rr (c, n # qs) = (Some n, qs @ (case c of None \<Rightarrow> [] | Some c \<Rightarrow> [c]))"

locale round_robin =
  fixes step :: "'s \<Rightarrow> 's" and running :: "'s \<Rightarrow> nat option" and ready :: "'s \<Rightarrow> nat list" and inv :: "'s \<Rightarrow> bool"
  assumes step_inv: "inv s \<Longrightarrow> inv (step s)"
    and step_rr: "inv s \<Longrightarrow> (running (step s), ready (step s)) = rr (running s, ready s)"
begin

lemma steps_inv: "inv s \<Longrightarrow> inv ((step ^^ n) s)"
  by (induction n) (simp_all add: step_inv)

lemma steps_rr: "inv s \<Longrightarrow> (running ((step ^^ n) s), ready ((step ^^ n) s)) = (rr ^^ n) (running s, ready s)"
  by (induction n) (simp_all add: step_rr steps_inv)

lemma rr_prefix:
  assumes "running s = Some c" and "inv s"
  shows "j \<le> length (ready s) \<Longrightarrow>
    (running ((step ^^ j) s), ready ((step ^^ j) s))
      = (Some ((c # ready s) ! j), drop j (ready s) @ take j (c # ready s))"
proof (induction j)
  case (Suc j)
  define qs where "qs = ready s"
  have d: "drop j qs = qs ! j # drop (Suc j) qs" using Suc.prems by (simp add: qs_def Cons_nth_drop_Suc)
  have t: "take (Suc j) (c # qs) = take j (c # qs) @ [(c # qs) ! j]"
    using Suc.prems by (intro take_Suc_conv_app_nth) (simp add: qs_def)
  have "(running ((step ^^ j) s), ready ((step ^^ j) s)) = (Some ((c # qs) ! j), drop j qs @ take j (c # qs))"
    using Suc by (simp add: qs_def)
  then show ?case
    using step_rr [OF steps_inv [OF assms(2)], of j] by (simp add: d t qs_def [symmetric] del: take_Suc_Cons)
qed (use assms in simp)

text \<open>Every ready process runs, in its turn.\<close>

lemma runs_in_turn:
  "running s = Some c \<Longrightarrow> inv s \<Longrightarrow> j < length (ready s) \<Longrightarrow> running ((step ^^ Suc j) s) = Some (ready s ! j)"
  using rr_prefix [of s c "Suc j"] by (simp del: funpow.simps take_Suc_Cons)

text \<open>After one round everything is as it was.\<close>

lemma full_round:
  assumes "running s = Some c" and "inv s"
  shows "running ((step ^^ Suc (length (ready s))) s) = Some c \<and> ready ((step ^^ Suc (length (ready s))) s) = ready s"
proof -
  define n where "n = length (ready s)"
  define t where "t = (step ^^ n) s"
  have "(running t, ready t) = (Some ((c # ready s) ! n), drop n (ready s) @ take n (c # ready s))"
    unfolding t_def by (rule rr_prefix [OF assms]) (simp add: n_def)
  then have t: "running t = Some (last (c # ready s))" "ready t = butlast (c # ready s)"
    by (simp_all add: n_def last_conv_nth butlast_conv_take)
  have "inv t" unfolding t_def by (rule steps_inv [OF assms(2)])
  from step_rr [OF this] t have "(running (step t), ready (step t)) = (Some c, ready s)"
    by (cases "ready s" rule: rev_cases) (auto simp: butlast_append)
  then show ?thesis by (simp add: t_def n_def)
qed

end

end
