(* ===== verification/PageTables.thy ===== *)
theory PageTables
  imports Vmm
begin

text \<open>
  Two-level page tables as a partial function from page numbers. The lemmas are about the memory
  alone: \<open>walk\<close> walks the tables of the directory at \<open>d\<close>, \<open>walk_ok\<close> says that the tables of
  a directory are distinct frames, and the two writes that mapping a page needs (a page table
  entry, and a directory entry for a fresh table) change the walk of exactly that page.
\<close>

unbundle bit_operations_syntax

section \<open>Entries as words\<close>

lemma entry_nat: "entry m (of_nat t) i = rd m (t + 4 * unat i)"
  by (simp add: entry_def rd_def)

lemma wr_wr_same [simp]: "wr (wr m a x) a y = wr m a y"
  by (auto simp: wr_def store32_def fun_eq_iff)

lemma update_entry_nat: "update_entry (of_nat t) i f m = wr m (t + 4 * unat i) (f (rd m (t + 4 * unat i)))"
  by (simp add: update_entry_def entry_nat) (simp add: wr_def)

definition table_of :: "u32 \<Rightarrow> nat" where
  "table_of e = unat e div 4096 * 4096"

lemma table_of_props [simp]: "4096 dvd table_of e" "table_of e < 4294967296" "table_of e + 4096 \<le> 4294967296"
proof -
  define q where "q = unat e div 4096"
  have "q < 1048576" using unat_u32_bound [of e] by (simp add: q_def div_less_iff_less_mult del: unat_u32_bound)
  then show "4096 dvd table_of e" "table_of e < 4294967296" "table_of e + 4096 \<le> 4294967296"
    by (simp_all add: table_of_def q_def [symmetric])
qed

lemma entry_address_table: "push_bit 12 (entry_address e) = of_nat (table_of e)"
proof -
  have "unat (drop_bit 12 e) = unat e div 4096" by (simp add: drop_bit_eq_div unat_div)
  then have "drop_bit 12 e = of_nat (unat e div 4096)" by (metis u32_of_nat_unat)
  then show ?thesis by (simp add: entry_address_def table_of_def push_bit_eq_mult mult.commute)
qed

text \<open>The flags and the address written into an entry read back.\<close>

definition make_entry :: "bool \<Rightarrow> bool \<Rightarrow> bool \<Rightarrow> u32 \<Rightarrow> u32 \<Rightarrow> u32" where
  "make_entry p w u a e = set_address (drop_bit 12 a) (set_flag 2 u (set_flag 1 w (set_flag 0 p e)))"

lemma bit_set_flag: "k < 32 \<Longrightarrow> bit (set_flag k b e) n = (if n = k then b else bit e n)"
  by (auto simp: set_flag_def bit_simps dest: bit_imp_le_length)

lemma bit_set_address: "n < 32 \<Longrightarrow> bit (set_address a e) n = (if n < 12 then bit e n else bit a (n - 12))"
proof -
  have m: "(0xFFF :: u32) = mask 12" "(0xFFFFF :: u32) = mask 20" by (simp_all add: mask_eq_exp_minus_1)
  show "n < 32 \<Longrightarrow> ?thesis" unfolding set_address_def m by (auto simp: bit_simps)
qed

lemma bit_make_entry:
  "n < 32 \<Longrightarrow> bit (make_entry p w u a e) n
    = (if n = 0 then p else if n = 1 then w else if n = 2 then u else if n < 12 then bit e n else bit a n)"
  by (auto simp: make_entry_def bit_set_address bit_set_flag bit_drop_bit_eq)

lemma make_entry_props:
  "entry_present (make_entry p w u a e) = p" "bit (make_entry p w u a e) 1 = w" "bit (make_entry p w u a e) 2 = u"
  "table_of (make_entry p w u a e) = table_of a"
proof -
  have "drop_bit 12 (make_entry p w u a e) = drop_bit 12 a"
  proof (rule bit_word_eqI)
    fix n
    show "bit (drop_bit 12 (make_entry p w u a e)) n = bit (drop_bit 12 a) n"
      by (cases "12 + n < 32") (auto simp: bit_drop_bit_eq bit_make_entry dest: bit_imp_le_length)
  qed
  then have "push_bit 12 (entry_address (make_entry p w u a e)) = push_bit 12 (entry_address a)"
    by (simp add: entry_address_def)
  then show "table_of (make_entry p w u a e) = table_of a"
    unfolding entry_address_table by (metis unat_of_nat_u32 table_of_props(2))
qed (simp_all add: entry_present_def bit_make_entry)

section \<open>Cells of frames\<close>

lemma frames_apart:
  assumes "4096 dvd a" and "4096 dvd (b :: nat)" and "i < 1024" and "j < 1024"
  shows "a + 4 * i = b + 4 * j \<longleftrightarrow> a = b \<and> i = j"
    and "a + 4 * i \<noteq> b + 4 * j \<Longrightarrow> a + 4 * i + 4 \<le> b + 4 * j \<or> b + 4 * j + 4 \<le> a + 4 * i"
proof -
  obtain x y where xy: "a = 4096 * x" "b = 4096 * y" using assms(1,2) by (auto elim!: dvdE)
  show "a + 4 * i = b + 4 * j \<longleftrightarrow> a = b \<and> i = j"
  proof
    assume eq: "a + 4 * i = b + 4 * j"
    have "(4096 * x + 4 * i) div 4096 = x" "(4096 * y + 4 * j) div 4096 = y" using assms(3,4) by simp_all
    then have "x = y" using eq xy by metis
    then show "a = b \<and> i = j" using eq xy by simp
  qed simp
  show "a + 4 * i + 4 \<le> b + 4 * j \<or> b + 4 * j + 4 \<le> a + 4 * i" if "a + 4 * i \<noteq> b + 4 * j"
  proof -
    define X Y where "X = 1024 * x + i" and "Y = 1024 * y + j"
    have e: "a + 4 * i = 4 * X" "b + 4 * j = 4 * Y" by (simp_all add: X_def Y_def xy)
    show ?thesis using that unfolding e by (cases "X < Y") simp_all
  qed
qed

lemma frame_end: "4096 dvd a \<Longrightarrow> a < 4294967296 \<Longrightarrow> i < 1024 \<Longrightarrow> a + 4 * i + 4 \<le> (4294967296 :: nat)"
  by (auto elim!: dvdE)

lemma rd_wr_frame:
  assumes "4096 dvd a" "4096 dvd b" "a < 4294967296" "b < 4294967296" "i < 1024" "j < 1024"
  shows "rd (wr m (b + 4 * j) v) (a + 4 * i) = (if a = b \<and> i = j then v else rd m (a + 4 * i))"
  using frames_apart [OF assms(1,2,5,6)] frame_end [OF assms(1,3,5)] frame_end [OF assms(2,4,6)]
  by (auto intro!: rd_wr_other)

lemma rd_zero_frame:
  assumes "4096 dvd a" "4096 dvd b" "a < 4294967296" "b < 4294967296" "i < 1024"
  shows "rd (memset m (of_nat b) 0 4096) (a + 4 * i) = (if a = b then 0 else rd m (a + 4 * i))"
proof -
  have ub: "unat (of_nat b :: u32) = b" by (rule unat_of_nat_u32 [OF assms(4)])
  have f: "memset m (of_nat b) 0 4096 = filled m (of_nat b) 0 4096" by (simp add: memset_eq_filled)
  show ?thesis
  proof (cases "a = b")
    case True
    have "(of_nat a + of_nat (4 * i + k) :: u32) - of_nat b = of_nat (4 * i + k)" for k by (simp add: True)
    then have "filled m (of_nat b) 0 4096 (of_nat a + of_nat (4 * i + k)) = 0" if "k < 4" for k
      using that assms(5) by (simp add: filled_def unat_of_nat_u32 del: of_nat_add)
    from this [of 0] this [of 1] this [of 2] this [of 3]
    show ?thesis using True unfolding f rd_def by (simp add: add.assoc) (rule load32_zero; simp add: ac_simps)
  next
    case False
    then have "unchanged_outside m (filled m (of_nat b) 0 4096) b (b + 4096)"
      using assms(2,4) ub
      by (auto simp: unchanged_outside_def filled_def unat_sub_if_size word_size elim!: dvdE)
    moreover have "a + 4 * i + 4 \<le> b \<or> b + 4096 \<le> a + 4 * i"
      using False assms(1,2,5) by (auto elim!: dvdE)
    ultimately show ?thesis using False frame_end [OF assms(1,3,5)] unfolding f by (simp add: rd_unchanged)
  qed
qed

section \<open>Walking the tables\<close>

definition pde :: "mem \<Rightarrow> nat \<Rightarrow> nat \<Rightarrow> u32" where
  "pde m d i = rd m (d + 4 * i)"

definition pte :: "mem \<Rightarrow> nat \<Rightarrow> nat \<Rightarrow> nat \<Rightarrow> u32" where
  "pte m d i j = rd m (table_of (pde m d i) + 4 * j)"

text \<open>The entry that maps page \<open>j\<close> of the 4 MB region \<open>i\<close>, if the region has a table and the entry is
  present.\<close>

definition walk :: "mem \<Rightarrow> nat \<Rightarrow> nat \<Rightarrow> nat \<Rightarrow> u32 option" where
  "walk m d i j =
     (if entry_present (pde m d i) \<and> entry_present (pte m d i j) then Some (pte m d i j) else None)"

definition walk_ok :: "mem \<Rightarrow> nat \<Rightarrow> bool" where
  "walk_ok m d \<longleftrightarrow> 4096 dvd d \<and> d < 4294967296
     \<and> (\<forall>i < 1024. entry_present (pde m d i) \<longrightarrow> table_of (pde m d i) \<noteq> d)
     \<and> (\<forall>i < 1024. \<forall>k < 1024. entry_present (pde m d i) \<and> entry_present (pde m d k)
          \<and> table_of (pde m d i) = table_of (pde m d k) \<longrightarrow> i = k)"

lemma walk_okD:
  assumes "walk_ok m d"
  shows "4096 dvd d" "d < 4294967296"
    and "i < 1024 \<Longrightarrow> entry_present (pde m d i) \<Longrightarrow> table_of (pde m d i) \<noteq> d"
    and "i < 1024 \<Longrightarrow> k < 1024 \<Longrightarrow> entry_present (pde m d i) \<Longrightarrow> entry_present (pde m d k) \<Longrightarrow>
      table_of (pde m d i) = table_of (pde m d k) \<longleftrightarrow> i = k"
  using assms unfolding walk_ok_def by blast+

text \<open>Writing an entry of a table that is present.\<close>

lemma walk_write_pte:
  assumes ok: "walk_ok m d" and i: "i < 1024" "entry_present (pde m d i)" and j: "j < 1024"
    and m': "m' = wr m (table_of (pde m d i) + 4 * j) v"
  shows "k < 1024 \<Longrightarrow> pde m' d k = pde m d k"
    and "k < 1024 \<Longrightarrow> l < 1024 \<Longrightarrow> entry_present (pde m d k) \<Longrightarrow>
      pte m' d k l = (if k = i \<and> l = j then v else pte m d k l)"
    and "walk_ok m' d"
    and "k < 1024 \<Longrightarrow> l < 1024 \<Longrightarrow> walk m' d k l
      = (if k = i \<and> l = j then if entry_present v then Some v else None else walk m d k l)"
proof -
  note d = walk_okD [OF ok]
  show a: "pde m' d k = pde m d k" if "k < 1024" for k
    unfolding m' pde_def by (subst rd_wr_frame) (use that d(1,2) d(3) [OF i] j in \<open>auto simp: pde_def\<close>)
  show b: "pte m' d k l = (if k = i \<and> l = j then v else pte m d k l)"
    if "k < 1024" "l < 1024" "entry_present (pde m d k)" for k l
    unfolding pte_def a [OF that(1)] unfolding m'
    by (subst rd_wr_frame) (use that d(4) [OF that(1) i(1) that(3) i(2)] j in \<open>auto simp: pte_def\<close>)
  show "walk_ok m' d" using ok a unfolding walk_ok_def by simp
  show "walk m' d k l
      = (if k = i \<and> l = j then if entry_present v then Some v else None else walk m d k l)"
    if "k < 1024" "l < 1024" for k l
    using a [OF that(1)] b [OF that] i(2) by (cases "entry_present (pde m d k)") (auto simp: walk_def)
qed

text \<open>Installing a fresh, cleared table in an empty directory entry.\<close>

lemma walk_new_table:
  assumes ok: "walk_ok m d" and i: "i < 1024" "\<not> entry_present (pde m d i)"
    and t: "4096 dvd t" "t < 4294967296" "t \<noteq> d"
      "\<And>k. k < 1024 \<Longrightarrow> entry_present (pde m d k) \<Longrightarrow> table_of (pde m d k) \<noteq> t"
    and e: "entry_present e" "table_of e = t"
    and m': "m' = wr (memset m (of_nat t) 0 4096) (d + 4 * i) e"
  shows "k < 1024 \<Longrightarrow> pde m' d k = (if k = i then e else pde m d k)"
    and "walk_ok m' d"
    and "k < 1024 \<Longrightarrow> l < 1024 \<Longrightarrow> walk m' d k l = walk m d k l"
proof -
  note d = walk_okD [OF ok]
  show a: "pde m' d k = (if k = i then e else pde m d k)" if "k < 1024" for k
    unfolding m' pde_def
    by (subst rd_wr_frame; (subst rd_zero_frame)?) (use that d(1,2) t(1-3) i(1) in \<open>auto simp: pde_def\<close>)
  show "walk_ok m' d" using ok i e t(3,4) unfolding walk_ok_def by (simp add: a) metis
  have b: "pte m' d k l = (if k = i then 0 else pte m d k l)"
    if "k < 1024" "l < 1024" "entry_present (pde m' d k)" for k l
  proof -
    have td: "table_of (pde m' d k) \<noteq> d" using that a d(3) t(3) e(2) by (cases "k = i") auto
    have "pte m' d k l = rd (memset m (of_nat t) 0 4096) (table_of (pde m' d k) + 4 * l)"
      unfolding pte_def m' [symmetric] by (subst m') (subst rd_wr_frame; use that d(1,2) i(1) td in auto)
    also have "\<dots> = (if table_of (pde m' d k) = t then 0 else rd m (table_of (pde m' d k) + 4 * l))"
      by (rule rd_zero_frame) (use that t in auto)
    finally show ?thesis using that a e t(4) by (cases "k = i") (auto simp: pte_def)
  qed
  show "walk m' d k l = walk m d k l" if "k < 1024" "l < 1024" for k l
    using that a b i e by (auto simp: walk_def entry_present_def)
qed

text \<open>A memory that agrees on the directory and its tables has the same walk.\<close>

lemma walk_cong:
  assumes "\<And>k. k < 1024 \<Longrightarrow> pde m' d k = pde m d k"
    and "\<And>k l. k < 1024 \<Longrightarrow> l < 1024 \<Longrightarrow> entry_present (pde m d k) \<Longrightarrow> pte m' d k l = pte m d k l"
  shows "walk_ok m' d = walk_ok m d" and "k < 1024 \<Longrightarrow> l < 1024 \<Longrightarrow> walk m' d k l = walk m d k l"
  using assms by (auto simp: walk_ok_def walk_def)

section \<open>Virtual addresses\<close>

definition dir_index :: "u32 \<Rightarrow> nat" where "dir_index v = unat v div 4194304"
definition table_index :: "u32 \<Rightarrow> nat" where "table_index v = unat v div 4096 mod 1024"

lemma index_bounds [simp]: "dir_index v < 1024" "table_index v < 1024"
  using unat_u32_bound [of v] by (simp_all add: dir_index_def table_index_def div_less_iff_less_mult del: unat_u32_bound)

lemma unat_PAGE_ALIGN: "unat (PAGE_ALIGN v) = unat v div 4096 * 4096"
proof -
  have "PAGE_ALIGN v = push_bit 12 (drop_bit 12 v)"
  proof -
    have "(PAGE_SIZE - 1 :: u32) = mask 12" by (simp add: PAGE_SIZE_def mask_eq_exp_minus_1)
    then show ?thesis unfolding PAGE_ALIGN_def by (intro bit_word_eqI) (auto simp: bit_simps)
  qed
  then have "PAGE_ALIGN v = of_nat (table_of v)" by (simp only: entry_address_table entry_address_def [symmetric])
  then have "unat (PAGE_ALIGN v) = table_of v" by (simp only: unat_of_nat_u32 table_of_props)
  then show ?thesis by (simp only: table_of_def)
qed

lemma page_indices:
  "unat (GET_PD_INDEX v) = dir_index v" "unat (GET_PT_INDEX v) = table_index v"
  "dir_index (PAGE_ALIGN v) = dir_index v" "table_index (PAGE_ALIGN v) = table_index v"
proof -
  show "unat (GET_PD_INDEX v) = dir_index v"
    by (simp add: GET_PD_INDEX_def dir_index_def drop_bit_eq_div unat_div)
  have "GET_PT_INDEX v = take_bit 10 (drop_bit 12 v)"
    by (simp add: GET_PT_INDEX_def take_bit_eq_mask mask_eq_exp_minus_1)
  then show "unat (GET_PT_INDEX v) = table_index v"
    by (simp add: table_index_def take_bit_eq_mod drop_bit_eq_div unat_div unat_mod)
  show "table_index (PAGE_ALIGN v) = table_index v" by (simp add: table_index_def unat_PAGE_ALIGN)
  have "unat v div 4096 * 4096 div 4194304 = unat v div 4096 * 4096 div 4096 div 1024"
    by (simp only: div_mult2_eq [symmetric]) simp
  also have "\<dots> = unat v div 4194304" by (simp add: div_mult2_eq [symmetric])
  finally show "dir_index (PAGE_ALIGN v) = dir_index v" by (simp add: dir_index_def unat_PAGE_ALIGN)
qed

lemma same_page: "dir_index v = dir_index w \<and> table_index v = table_index w \<longleftrightarrow> PAGE_ALIGN v = PAGE_ALIGN w"
proof -
  have "PAGE_ALIGN v = PAGE_ALIGN w \<longleftrightarrow> unat v div 4096 = unat w div 4096"
    by (simp add: word_unat_eq_iff unat_PAGE_ALIGN)
  moreover have "unat v div 4194304 = unat v div 4096 div 1024" for v :: u32
    by (simp add: div_mult2_eq [symmetric])
  then have "dir_index v = dir_index w \<and> table_index v = table_index w \<longleftrightarrow> unat v div 4096 = unat w div 4096"
    unfolding dir_index_def table_index_def by (metis div_mult_mod_eq)
  ultimately show ?thesis by simp
qed

text \<open>\<open>vmm_get_physical_address\<close> is the walk.\<close>

lemma get_physical_walk:
  "vmm_get_physical_address (of_nat d) v st = (case walk (mem st) d (dir_index v) (table_index v) of
     None \<Rightarrow> 0 | Some e \<Rightarrow> of_nat (table_of e) OR (v AND 0xFFF))"
  by (simp add: vmm_get_physical_address_def Let_def entry_nat page_indices entry_address_table walk_def pte_def pde_def)

end
