(* ===== verification/VmmProps.thy ===== *)
theory VmmProps
  imports PageTables PmmProps
begin

text \<open>
  What the virtual memory manager promises. \<open>vmm_wf\<close> is the invariant of a state with a page
  directory: the directory and its tables are pairwise distinct frames that the frame allocator
  does not hand out. Under it, mapping and unmapping change the translation of one page; the
  directory built by \<open>vmm_init\<close> translates the first 4 MB twice; a new directory shares the
  kernel half.
\<close>

unbundle bit_operations_syntax

section \<open>The invariant\<close>

text \<open>Frames the allocator will not hand out, and the frame of the bitmap excepted.\<close>

definition taken :: "'a pmm_scheme \<Rightarrow> nat \<Rightarrow> bool" where
  "taken st a \<longleftrightarrow> 4096 dvd a \<and> a < 4294967296 \<and> a \<noteq> 2097152
     \<and> (2097152 \<le> a \<and> a < 33554432 \<longrightarrow> (a - 2097152) div 4096 \<in> used_set st)"

definition vmm_wf :: "'a pmm_scheme \<Rightarrow> nat \<Rightarrow> bool" where
  "vmm_wf st d \<longleftrightarrow> pmm_inv st \<and> walk_ok (mem st) d \<and> taken st d
     \<and> (\<forall>i < 1024. entry_present (pde (mem st) d i) \<longrightarrow> taken st (table_of (pde (mem st) d i)))"

lemma vmm_wfD:
  assumes "vmm_wf st d"
  shows "pmm_inv st" "walk_ok (mem st) d" "taken st d" "4096 dvd d" "d < 4294967296"
    and "i < 1024 \<Longrightarrow> entry_present (pde (mem st) d i) \<Longrightarrow> taken st (table_of (pde (mem st) d i))"
  using assms unfolding vmm_wf_def taken_def by blast+

lemma taken_mono: "taken st a \<Longrightarrow> used_set st \<subseteq> used_set st' \<Longrightarrow> taken st' a"
  by (auto simp: taken_def)

lemma taken_cell:
  assumes "taken st a" and "i < 1024" and "unchanged_outside m m' 2097152 2098112"
  shows "rd m' (a + 4 * i) = rd m (a + 4 * i)"
proof (rule rd_unchanged [OF assms(3)])
  have a: "4096 dvd a" "a < 4294967296" "a \<noteq> 2097152" using assms(1) by (simp_all add: taken_def)
  then show "a + 4 * i + 4 \<le> 4294967296" using assms(2) frame_end by blast
  show "a + 4 * i + 4 \<le> 2097152 \<or> 2098112 \<le> a + 4 * i" using a assms(2) by (auto elim!: dvdE)
qed

text \<open>Changes of the bitmap do not touch the tables.\<close>

lemma wf_transfer:
  assumes wf: "vmm_wf st d" and inv: "pmm_inv st'"
    and used: "taken st' d" "\<And>i. i < 1024 \<Longrightarrow> entry_present (pde (mem st) d i) \<Longrightarrow> taken st' (table_of (pde (mem st) d i))"
    and un: "unchanged_outside (mem st) (mem st') 2097152 2098112"
  shows "vmm_wf st' d" and "i < 1024 \<Longrightarrow> pde (mem st') d i = pde (mem st) d i"
    and "i < 1024 \<Longrightarrow> j < 1024 \<Longrightarrow> walk (mem st') d i j = walk (mem st) d i j"
proof -
  note w = vmm_wfD [OF wf]
  show p: "pde (mem st') d i = pde (mem st) d i" if "i < 1024" for i
    unfolding pde_def by (rule taken_cell [OF w(3) that un])
  have t: "pte (mem st') d i j = pte (mem st) d i j" if "i < 1024" "j < 1024" "entry_present (pde (mem st) d i)" for i j
    unfolding pte_def p [OF that(1)] by (rule taken_cell [OF w(6) [OF that(1,3)] that(2) un])
  note c = walk_cong [of "mem st'" d "mem st", OF p t]
  show "i < 1024 \<Longrightarrow> j < 1024 \<Longrightarrow> walk (mem st') d i j = walk (mem st) d i j" by (rule c(2))
  show "vmm_wf st' d" unfolding vmm_wf_def using inv c(1) w(2) used p by simp
qed

lemma wf_frame:
  assumes wf: "vmm_wf st d" and inv: "pmm_inv st'" and used: "used_set st \<subseteq> used_set st'"
    and un: "unchanged_outside (mem st) (mem st') 2097152 2098112"
  shows "vmm_wf st' d" and "i < 1024 \<Longrightarrow> pde (mem st') d i = pde (mem st) d i"
    and "i < 1024 \<Longrightarrow> j < 1024 \<Longrightarrow> walk (mem st') d i j = walk (mem st) d i j"
  by (rule wf_transfer [OF wf inv taken_mono [OF vmm_wfD(3) [OF wf] used] taken_mono [OF vmm_wfD(6) [OF wf] used] un];
      assumption)+

text \<open>Writes outside the bitmap leave the allocator alone.\<close>

lemma pmm_inv_outside:
  assumes "pmm_inv st" and "\<And>x. 2097152 \<le> unat x \<Longrightarrow> unat x < 2098112 \<Longrightarrow> mem st' x = mem st x"
    and "bitmap st' = bitmap st" "total_frames st' = total_frames st" "free_frames st' = free_frames st"
      "first_free_frame st' = first_free_frame st"
  shows "pmm_inv st'" and "used_set st' = used_set st"
proof -
  have b: "bitmap st = MEMORY_START" using assms(1) by (simp add: pmm_inv_def geometry_def)
  have "bitmap_word st' (of_nat i) = bitmap_word st (of_nat i)" if "i < 7680" for i
  proof -
    define c where "c = 4 * (i div 32)"
    have c: "c + 4 \<le> 960" using that by (simp add: c_def div_less_iff_less_mult)
    have "unat (of_nat (2097152 + c + k) :: u32) = 2097152 + c + k" if "k < 4" for k
      using that c by (intro unat_of_nat_u32) simp
    then have "mem st' (of_nat (2097152 + c + k)) = mem st (of_nat (2097152 + c + k))" if "k < 4" for k
      using that c by (intro assms(2)) simp_all
    from this [of 0] this [of 1] this [of 2] this [of 3]
    have "load32 (mem st') (of_nat (2097152 + c)) = load32 (mem st) (of_nat (2097152 + c))"
      by (intro load32_cong) (simp_all add: ac_simps)
    then show ?thesis
      using bitmap_cell [OF b, of "of_nat i"] that by (simp add: bitmap_word_def assms(3) c_def unat_of_nat_u32)
  qed
  then show u: "used_set st' = used_set st" by (auto simp: used_set_def frame_used_def)
  show "pmm_inv st'" using assms(1) by (simp add: pmm_inv_def geometry_def u assms(3-6))
qed

lemma wr_frame_bitmap:
  assumes "4096 dvd a" "a < 4294967296" "a \<noteq> 2097152" "i < 1024" "2097152 \<le> unat x" "unat x < 2098112"
  shows "wr m (a + 4 * i) v x = m x" and "memset m (of_nat a) 0 4096 x = m x"
proof -
  have "unat x < a + 4 * i \<or> a + 4 * i + 4 \<le> unat x" using assms by (auto elim!: dvdE)
  then show "wr m (a + 4 * i) v x = m x"
    unfolding wr_def using store32_other [OF frame_end [OF assms(1,2,4)]] by blast
  have "unat (of_nat a :: u32) = a" by (rule unat_of_nat_u32 [OF assms(2)])
  then show "memset m (of_nat a) 0 4096 x = m x"
    using assms(1-3,5,6) by (auto simp: memset_eq_filled filled_def unat_sub_if_size word_size elim!: dvdE)
qed

section \<open>Page tables\<close>

lemma frame_taken:
  assumes "i < 7680" and "i \<noteq> 0"
  shows "taken st (unat (frame_address i)) \<longleftrightarrow> i \<in> used_set st"
    and "4096 dvd unat (frame_address i)"
proof -
  have "2097152 + 4096 * i < 33554432" using assms(1) by simp
  moreover have "4096 dvd 2097152 + 4096 * i" by (rule dvd_add) simp_all
  ultimately show "taken st (unat (frame_address i)) \<longleftrightarrow> i \<in> used_set st" "4096 dvd unat (frame_address i)"
    using assms by (simp_all add: taken_def unat_frame_address)
qed

text \<open>A frame from the allocator: its address, and that it was nobody's.\<close>

lemma fresh_frame:
  assumes inv: "pmm_inv st" and free: "free_frames st \<noteq> 0"
  obtains t st0 where "pmm_alloc_frame st = (of_nat t, st0)" and "of_nat t \<noteq> (0 :: u32)" and "pmm_inv st0"
    and "4096 dvd t" "t < 4294967296" "\<not> taken st t" "taken st0 t"
    and "unchanged_outside (mem st) (mem st0) 2097152 2098112" and "used_set st \<subseteq> used_set st0"
    and "card (used_set st0) = Suc (card (used_set st))"
proof -
  obtain f st0 where f: "pmm_alloc_frame st = (MEMORY_START + f * PAGE_SIZE, st0)" "unat f < 7680"
    "unat f \<notin> used_set st" "used_set st0 = insert (unat f) (used_set st)" "pmm_inv st0"
    by (rule pmm_alloc_some [OF inv free])
  define t where "t = unat (frame_address (unat f))"
  have al: "pmm_alloc_frame st = (of_nat t, st0)" using f(1) by (simp add: t_def frame_address_word)
  have f0: "unat f \<noteq> 0" using f(3) inv by (metis pmm_inv_def)
  have t: "4096 dvd t" "t < 4294967296" "\<not> taken st t" "taken st0 t" "t \<noteq> 0"
    using frame_taken(1) [OF f(2) f0, of st] frame_taken(2) [OF f(2) f0] frame_taken(1) [OF f(2) f0, of st0] f(3,4)
      unat_frame_address [OF f(2)] unat_u32_bound [of "frame_address (unat f)"] by (simp_all only: t_def) simp_all
  have tw: "of_nat t \<noteq> (0 :: u32)" using t(2,5) by (simp add: of_nat_u32_eq_0)
  show thesis
    by (rule that [OF al tw f(5) t(1-4) pmm_alloc_unchanged [OF inv al]]) (use f(3,4) in auto)
qed

text \<open>After the first part of \<open>vmm_map_page\<close> either the region of the address has a table and no
  translation has changed, or no frame was left and the state is as before.\<close>

lemma ensure_page_table_spec:
  assumes wf: "vmm_wf st d" and i: "unat i < 1024"
  obtains (full) "ensure_page_table (of_nat d) i flags st = (False, st)" "\<not> entry_present (pde (mem st) d (unat i))"
      "free_frames st = 0"
  | (ok) st1 where "ensure_page_table (of_nat d) i flags st = (True, st1)" "vmm_wf st1 d"
      "entry_present (pde (mem st1) d (unat i))" "entry_present (pde (mem st) d (unat i)) \<or> free_frames st \<noteq> 0"
      "\<And>k l. k < 1024 \<Longrightarrow> l < 1024 \<Longrightarrow> walk (mem st1) d k l = walk (mem st) d k l"
      "\<And>k. k < 1024 \<Longrightarrow> k \<noteq> unat i \<or> entry_present (pde (mem st) d k) \<Longrightarrow> pde (mem st1) d k = pde (mem st) d k"
      "\<not> entry_present (pde (mem st) d (unat i)) \<Longrightarrow> bit (pde (mem st1) d (unat i)) 2 = (flags AND PAGE_USER \<noteq> 0)"
      "used_set st \<subseteq> used_set st1" "unat (free_frames st) \<le> unat (free_frames st1) + 1"
      "entry_present (pde (mem st) d (unat i)) \<Longrightarrow> st1 = st"
proof -
  note w = vmm_wfD [OF wf]
  have e: "entry (mem st) (of_nat d) i = pde (mem st) d (unat i)" by (simp add: entry_nat pde_def)
  show thesis
  proof (cases "entry_present (pde (mem st) d (unat i))")
    case True
    then show ?thesis using ok [of st] wf by (simp add: ensure_page_table_def e)
  next
    case absent: False
    show ?thesis
    proof (cases "free_frames st = 0")
      case True
      then show ?thesis using full absent by (simp add: ensure_page_table_def e pmm_alloc_frame_def)
    next
      case False
      obtain t st0 where al: "pmm_alloc_frame st = (of_nat t, st0)" and tw: "of_nat t \<noteq> (0 :: u32)" and inv0: "pmm_inv st0"
        and t: "4096 dvd t" "t < 4294967296" "\<not> taken st t" "taken st0 t"
        and un: "unchanged_outside (mem st) (mem st0) 2097152 2098112" and us: "used_set st \<subseteq> used_set st0"
        and card0: "card (used_set st0) = Suc (card (used_set st))"
        by (rule fresh_frame [OF w(1) False])
      note fr = wf_frame [OF wf inv0 us un]
      note w0 = vmm_wfD [OF fr(1)]
      have td: "t \<noteq> d" using t(3) w(3) by auto
      have tt: "table_of (pde (mem st0) d k) \<noteq> t" if "k < 1024" "entry_present (pde (mem st0) d k)" for k
        using that fr(2) w(6) t(3) by auto
      define E where "E = make_entry True True (flags AND PAGE_USER \<noteq> 0) (of_nat t) (pde (memset (mem st0) (of_nat t) 0 4096) d (unat i))"
      have tE: "table_of E = t"
        using t(1,2) by (simp add: E_def make_entry_props) (simp add: table_of_def unat_of_nat_u32)
      define st1 where "st1 = st0\<lparr>mem := wr (memset (mem st0) (of_nat t) 0 4096) (d + 4 * unat i) E\<rparr>"
      have ab: "\<not> entry_present (pde (mem st0) d (unat i))" using absent fr(2) [OF i] by simp
      have m1: "mem st1 = wr (memset (mem st0) (of_nat t) 0 4096) (d + 4 * unat i) E" by (simp add: st1_def)
      have pE: "entry_present E" "bit E 2 = (flags AND PAGE_USER \<noteq> 0)" by (simp_all add: E_def make_entry_props)
      note new = walk_new_table [OF w0(2) i ab t(1,2) td _ pE(1) tE m1]
      have nt: "walk_ok (mem st1) d" "\<And>k. k < 1024 \<Longrightarrow> pde (mem st1) d k = (if k = unat i then E else pde (mem st0) d k)"
        "\<And>k l. k < 1024 \<Longrightarrow> l < 1024 \<Longrightarrow> walk (mem st1) d k l = walk (mem st0) d k l"
        by (rule new; use tt in simp)+
      have run: "ensure_page_table (of_nat d) i flags st = (True, st1)"
        using absent tw
        by (simp add: ensure_page_table_def e al update_entry_nat st1_def E_def make_entry_def pde_def)
      have keep: "mem st1 x = mem st0 x" if "2097152 \<le> unat x" "unat x < 2098112" for x
        unfolding m1 using wr_frame_bitmap [OF w(4,5) _ i that] wr_frame_bitmap(2) [OF t(1,2) _ i that] w(3) t(4)
        by (simp add: taken_def)
      have u1: "pmm_inv st1" "used_set st1 = used_set st0"
        by (rule pmm_inv_outside [OF inv0 keep]; simp add: st1_def)+
      have tk: "taken st1 a = taken st0 a" for a by (simp add: taken_def u1(2))
      have wf1: "vmm_wf st1 d"
        unfolding vmm_wf_def using u1(1) nt(1) w0(3,6) t(4) by (simp add: tk nt(2) tE)
      have cards: "unat (free_frames st) + card (used_set st) = 7680" "unat (free_frames st1) + card (used_set st1) = 7680"
        using w(1) u1(1) by (simp_all add: pmm_inv_def)
      have "card (used_set st1) = Suc (card (used_set st))" using card0 u1(2) by simp
      then have c: "unat (free_frames st) \<le> unat (free_frames st1) + 1" using cards by linarith
      show ?thesis
      proof (rule ok [OF run wf1])
        show "entry_present (pde (mem st1) d (unat i))" using nt(2) [OF i] pE by simp
        show "walk (mem st1) d k l = walk (mem st) d k l" if "k < 1024" "l < 1024" for k l
          using nt(3) [OF that] fr(3) [OF that] by simp
        show "pde (mem st1) d k = pde (mem st) d k"
          if "k < 1024" "k \<noteq> unat i \<or> entry_present (pde (mem st) d k)" for k
          using that absent nt(2) [OF that(1)] fr(2) [OF that(1)] by auto
        show "bit (pde (mem st1) d (unat i)) 2 = (flags AND PAGE_USER \<noteq> 0)" using nt(2) [OF i] pE by simp
        show "used_set st \<subseteq> used_set st1" using us u1(2) by simp
      qed (use False absent c in simp_all)
    qed
  qed
qed

section \<open>Mapping\<close>

text \<open>Writing a page table entry of a present table, in a state with the invariant.\<close>

lemma wf_write_pte:
  assumes wf: "vmm_wf st d" and i: "i < 1024" "entry_present (pde (mem st) d i)" and j: "j < 1024"
    and m': "mem st' = wr (mem st) (table_of (pde (mem st) d i) + 4 * j) v"
    and rest: "bitmap st' = bitmap st" "total_frames st' = total_frames st" "free_frames st' = free_frames st"
      "first_free_frame st' = first_free_frame st"
  shows "vmm_wf st' d" and "used_set st' = used_set st"
    and "k < 1024 \<Longrightarrow> l < 1024 \<Longrightarrow> walk (mem st') d k l
      = (if k = i \<and> l = j then if entry_present v then Some v else None else walk (mem st) d k l)"
    and "k < 1024 \<Longrightarrow> pde (mem st') d k = pde (mem st) d k"
proof -
  note w = vmm_wfD [OF wf]
  note wp = walk_write_pte [OF w(2) i j m']
  show "k < 1024 \<Longrightarrow> l < 1024 \<Longrightarrow> walk (mem st') d k l
      = (if k = i \<and> l = j then if entry_present v then Some v else None else walk (mem st) d k l)" by (rule wp(4))
  show "k < 1024 \<Longrightarrow> pde (mem st') d k = pde (mem st) d k" by (rule wp(1))
  have keep: "mem st' x = mem st x" if "2097152 \<le> unat x" "unat x < 2098112" for x
    unfolding m' using wr_frame_bitmap(1) [OF _ _ _ j that] w(6) [OF i] by (simp add: taken_def)
  note pi = pmm_inv_outside [OF w(1) keep rest]
  show "used_set st' = used_set st" by (rule pi(2))
  have "taken st' a = taken st a" for a by (simp add: taken_def pi(2))
  then show "vmm_wf st' d" unfolding vmm_wf_def using pi(1) wp(1,3) w(3,6) by simp
qed

lemma map_page_spec:
  assumes wf: "vmm_wf st d" and room: "entry_present (pde (mem st) d (dir_index v)) \<or> free_frames st \<noteq> 0"
    and st': "st' = vmm_map_page (of_nat d) v p flags st"
  obtains e where "vmm_wf st' d" and "table_of e = unat p div 4096 * 4096"
    and "bit e 1 = (flags AND PAGE_WRITABLE \<noteq> 0)" and "bit e 2 = (flags AND PAGE_USER \<noteq> 0)"
    and "\<And>k l. k < 1024 \<Longrightarrow> l < 1024 \<Longrightarrow> walk (mem st') d k l
      = (if k = dir_index v \<and> l = table_index v then if flags AND PAGE_PRESENT \<noteq> 0 then Some e else None
         else walk (mem st) d k l)"
    and "entry_present (pde (mem st') d (dir_index v))"
    and "\<And>k. k < 1024 \<Longrightarrow> entry_present (pde (mem st) d k) \<Longrightarrow> pde (mem st') d k = pde (mem st) d k"
    and "\<not> entry_present (pde (mem st) d (dir_index v)) \<Longrightarrow> bit (pde (mem st') d (dir_index v)) 2 = (flags AND PAGE_USER \<noteq> 0)"
    and "unat (free_frames st) \<le> unat (free_frames st') + 1"
    and "entry_present (pde (mem st) d (dir_index v)) \<Longrightarrow> free_frames st' = free_frames st"
proof -
  have i: "unat (GET_PD_INDEX (PAGE_ALIGN v)) = dir_index v" "unat (GET_PT_INDEX (PAGE_ALIGN v)) = table_index v"
    by (simp_all add: page_indices)
  have i1: "unat (GET_PD_INDEX (PAGE_ALIGN v)) < 1024" by (simp add: i)
  obtain st1 where e1: "ensure_page_table (of_nat d) (GET_PD_INDEX (PAGE_ALIGN v)) flags st = (True, st1)"
    and s1: "vmm_wf st1 d" "entry_present (pde (mem st1) d (dir_index v))"
      "\<And>k l. k < 1024 \<Longrightarrow> l < 1024 \<Longrightarrow> walk (mem st1) d k l = walk (mem st) d k l"
      "\<And>k. k < 1024 \<Longrightarrow> entry_present (pde (mem st) d k) \<Longrightarrow> pde (mem st1) d k = pde (mem st) d k"
      "\<not> entry_present (pde (mem st) d (dir_index v)) \<Longrightarrow> bit (pde (mem st1) d (dir_index v)) 2 = (flags AND PAGE_USER \<noteq> 0)"
      "unat (free_frames st) \<le> unat (free_frames st1) + 1" "entry_present (pde (mem st) d (dir_index v)) \<Longrightarrow> st1 = st"
  proof (rule ensure_page_table_spec [OF wf i1, of flags], goal_cases)
    case 1
    then show ?case using room by (simp add: i)
  next
    case (2 st1)
    note c = 2(2-) [unfolded i]
    show ?case by (rule 2(1)) (use c in blast)+
  qed
  define t where "t = table_of (pde (mem st1) d (dir_index v))"
  define a where "a = t + 4 * table_index v"
  define e where "e = make_entry (flags AND PAGE_PRESENT \<noteq> 0) (flags AND PAGE_WRITABLE \<noteq> 0) (flags AND PAGE_USER \<noteq> 0)
    (PAGE_ALIGN p) (rd (mem st1) a)"
  have "entry (mem st1) (of_nat d) (GET_PD_INDEX (PAGE_ALIGN v)) = pde (mem st1) d (dir_index v)"
    by (simp add: entry_nat pde_def i)
  then have run: "st' = vmm_flush_tlb (st1\<lparr>mem := wr (mem st1) a e\<rparr>)"
    by (simp add: st' vmm_map_page_def Let_def e1 entry_address_table t_def [symmetric] update_entry_nat i
        a_def [symmetric]) (simp add: e_def make_entry_def)
  have m': "mem st' = wr (mem st1) (table_of (pde (mem st1) d (dir_index v)) + 4 * table_index v) e"
    by (simp add: run vmm_flush_tlb_def a_def t_def)
  have rest: "bitmap st' = bitmap st1" "total_frames st' = total_frames st1" "free_frames st' = free_frames st1"
    "first_free_frame st' = first_free_frame st1" by (simp_all add: run vmm_flush_tlb_def)
  note wp = wf_write_pte [OF s1(1) _ s1(2) _ m' rest, simplified]
  have te: "table_of e = unat p div 4096 * 4096" by (simp add: e_def make_entry_props) (simp add: table_of_def unat_PAGE_ALIGN)
  have be: "entry_present e = (flags AND PAGE_PRESENT \<noteq> 0)" "bit e 1 = (flags AND PAGE_WRITABLE \<noteq> 0)"
    "bit e 2 = (flags AND PAGE_USER \<noteq> 0)" unfolding e_def by (rule make_entry_props)+
  show thesis
    by (rule that [OF wp(1) te be(2,3)]) (use s1 wp rest be(1) in auto)
qed

text \<open>C13: Mapping a page changes the translation of exactly the addresses of that page: they translate to the
  page frame plus their offset, all others as before, and the tables stay disjoint frames. When a new table
  is needed and no frame is left, the call returns without effect and without an error.\<close>

theorem vmm_map_page_correct:
  assumes "vmm_wf st d" and "st' = vmm_map_page (of_nat d) v p flags st"
    and "flags AND PAGE_PRESENT \<noteq> 0"
  shows "if \<not> entry_present (pde (mem st) d (dir_index v)) \<and> free_frames st = 0 then st' = st
    else vmm_wf st' d \<and> (\<forall>w. vmm_get_physical_address (of_nat d) w st'
      = (if PAGE_ALIGN w = PAGE_ALIGN v then PAGE_ALIGN p OR (w AND 0xFFF)
         else vmm_get_physical_address (of_nat d) w st))"
proof (cases "\<not> entry_present (pde (mem st) d (dir_index v)) \<and> free_frames st = 0")
  case True
  have "unat (GET_PD_INDEX (PAGE_ALIGN v)) < 1024" "unat (GET_PD_INDEX (PAGE_ALIGN v)) = dir_index v"
    by (simp_all add: page_indices)
  then have "ensure_page_table (of_nat d) (GET_PD_INDEX (PAGE_ALIGN v)) flags st = (False, st)"
    using True by (cases rule: ensure_page_table_spec [OF assms(1), of "GET_PD_INDEX (PAGE_ALIGN v)" flags]) auto
  then show ?thesis using True by (simp add: assms(2) vmm_map_page_def Let_def)
next
  case False
  then have room: "entry_present (pde (mem st) d (dir_index v)) \<or> free_frames st \<noteq> 0" by blast
  have pa: "of_nat (unat p div 4096 * 4096) = PAGE_ALIGN p" by (metis u32_of_nat_unat unat_PAGE_ALIGN)
  obtain e where e: "vmm_wf st' d" "table_of e = unat p div 4096 * 4096"
    "\<And>k l. k < 1024 \<Longrightarrow> l < 1024 \<Longrightarrow> walk (mem st') d k l
      = (if k = dir_index v \<and> l = table_index v then if flags AND PAGE_PRESENT \<noteq> 0 then Some e else None
         else walk (mem st) d k l)"
    by (rule map_page_spec [OF assms(1) room assms(2)]) (rule that)
  have "vmm_get_physical_address (of_nat d) w st'
      = (if PAGE_ALIGN w = PAGE_ALIGN v then PAGE_ALIGN p OR (w AND 0xFFF)
         else vmm_get_physical_address (of_nat d) w st)" for w
  proof (cases "dir_index w = dir_index v \<and> table_index w = table_index v")
    case True
    then show ?thesis using assms(3) same_page [of w v] unfolding get_physical_walk by (simp add: e(2,3) pa del: of_nat_mult)
  next
    case False
    then have "walk (mem st') d (dir_index w) (table_index w) = walk (mem st) d (dir_index w) (table_index w)"
      using e(3) [of "dir_index w" "table_index w"] by auto
    then show ?thesis using False same_page [of w v] unfolding get_physical_walk by simp
  qed
  then show ?thesis using False e(1) by auto
qed

text \<open>A cleared directory translates nothing.\<close>

definition cleared :: "nat \<Rightarrow> 'a pmm_scheme \<Rightarrow> 'a pmm_scheme" where
  "cleared d st = st\<lparr>mem := memset (mem st) (of_nat d) 0 4096\<rparr>"

lemma cleared_spec:
  assumes inv: "pmm_inv st" and d: "taken st d"
  shows "vmm_wf (cleared d st) d" and "i < 1024 \<Longrightarrow> pde (mem (cleared d st)) d i = 0"
    and "i < 1024 \<Longrightarrow> walk (mem (cleared d st)) d i j = None"
    and "used_set (cleared d st) = used_set st" and "free_frames (cleared d st) = free_frames st"
proof -
  have d': "4096 dvd d" "d < 4294967296" "d \<noteq> 2097152" using d by (simp_all add: taken_def)
  have keep: "mem (cleared d st) x = mem st x" if "2097152 \<le> unat x" "unat x < 2098112" for x
    using wr_frame_bitmap(2) [OF d', of 0 x] that by (simp add: cleared_def)
  note pi = pmm_inv_outside [OF inv keep]
  show u: "used_set (cleared d st) = used_set st" by (rule pi(2)) (simp_all add: cleared_def)
  show z: "pde (mem (cleared d st)) d i = 0" if "i < 1024" for i
    unfolding pde_def cleared_def using rd_zero_frame [OF d'(1) d'(1) d'(2) d'(2) that] by simp
  then show "i < 1024 \<Longrightarrow> walk (mem (cleared d st)) d i j = None" by (simp add: walk_def entry_present_def)
  have "pmm_inv (cleared d st)" by (rule pi(1)) (simp_all add: cleared_def)
  then show "vmm_wf (cleared d st) d"
    using d' d u z by (simp add: vmm_wf_def walk_ok_def taken_def entry_present_def)
qed (simp add: cleared_def)

text \<open>The machine after \<open>pmm_init\<close>, with the kernel's page directory at 1 MB.\<close>

definition vmm_boot :: vmm where
  "vmm_boot = pmm_init \<lparr>mem = (\<lambda>_. 0), bitmap = 0, bitmap_size = 0, total_frames = 0, free_frames = 0,
     first_free_frame = 0, current_page_directory = 0, kernel_page_directory = 0x100000, cr3 = 0,
     paging_enabled = False, tlb_flushes = 0\<rparr>"

lemma vmm_boot_facts:
  "pmm_inv vmm_boot" "used_set vmm_boot = {0}" "free_frames vmm_boot = 7679" "taken vmm_boot 0x100000"
  by (simp_all add: vmm_boot_def pmm_init_spec taken_def)

definition vmm_start :: vmm where "vmm_start = cleared 0x100000 vmm_boot"

lemma vmm_start_facts:
  "vmm_wf vmm_start 0x100000" "free_frames vmm_start = 7679" "i < 1024 \<Longrightarrow> walk (mem vmm_start) 0x100000 i j = None"
  using cleared_spec [OF vmm_boot_facts(1,4)] vmm_boot_facts by (simp_all add: vmm_start_def)

lemma vmm_map_page_correct_witness:
  "vmm_get_physical_address 0x100000 0x40000123 (vmm_map_page 0x100000 0x40000000 0x700000 7 vmm_start) = 0x700123"
proof -
  have "PAGE_ALIGN 0x40000123 = PAGE_ALIGN 0x40000000" "PAGE_ALIGN 0x700000 OR (0x40000123 AND 0xFFF) = 0x700123"
    by (simp_all add: PAGE_ALIGN_def PAGE_SIZE_def)
  then show ?thesis
    using vmm_map_page_correct [OF vmm_start_facts(1) refl, of 7 "0x40000000" "0x700000"] vmm_start_facts(2)
    by (simp add: PAGE_PRESENT_def split: if_splits)
qed

text \<open>A flaw, proved: the user flag of a region is set by the first page mapped in it. A page mapped later with
  the user flag set in a region that already has a table leaves the directory entry without the flag, so the
  processor refuses user mode the access that was asked for.\<close>

theorem vmm_user_flag_lost:
  assumes "vmm_wf st d" and "entry_present (pde (mem st) d (dir_index v))" and "\<not> bit (pde (mem st) d (dir_index v)) 2"
    and "flags AND PAGE_USER \<noteq> 0" and "flags AND PAGE_PRESENT \<noteq> 0"
    and "st' = vmm_map_page (of_nat d) v p flags st"
  shows "\<not> bit (pde (mem st') d (dir_index v)) 2
    \<and> (\<exists>e. walk (mem st') d (dir_index v) (table_index v) = Some e \<and> bit e 2)"
proof -
  from assms(2) have room: "entry_present (pde (mem st) d (dir_index v)) \<or> free_frames st \<noteq> 0" by blast
  obtain e where e: "bit e 2 = (flags AND PAGE_USER \<noteq> 0)"
    "\<And>k l. k < 1024 \<Longrightarrow> l < 1024 \<Longrightarrow> walk (mem st') d k l
      = (if k = dir_index v \<and> l = table_index v then if flags AND PAGE_PRESENT \<noteq> 0 then Some e else None
         else walk (mem st) d k l)"
    "\<And>k. k < 1024 \<Longrightarrow> entry_present (pde (mem st) d k) \<Longrightarrow> pde (mem st') d k = pde (mem st) d k"
    by (rule map_page_spec [OF assms(1) room assms(6)]) (rule that)
  show ?thesis using e(1,2) e(3) [OF _ assms(2)] assms(3-5) by simp
qed

lemma vmm_user_flag_lost_witness:
  "\<not> bit (pde (mem (vmm_map_page 0x100000 0x1000 0x700000 7 (vmm_map_page 0x100000 0 0 3 vmm_start))) 0x100000 0) 2"
proof -
  have room: "entry_present (pde (mem vmm_start) 0x100000 (dir_index 0)) \<or> free_frames vmm_start \<noteq> 0"
    by (simp add: vmm_start_facts)
  define st1 where "st1 = vmm_map_page (of_nat 0x100000) 0 0 3 vmm_start"
  have 0: "\<not> entry_present (pde (mem vmm_start) 0x100000 (dir_index 0))"
    using cleared_spec(2) [OF vmm_boot_facts(1,4), of 0] by (simp add: vmm_start_def entry_present_def dir_index_def)
  obtain e where 1: "vmm_wf st1 0x100000" "entry_present (pde (mem st1) 0x100000 (dir_index 0))"
    "bit (pde (mem st1) 0x100000 (dir_index 0)) 2 = (3 AND PAGE_USER \<noteq> 0)"
    by (rule map_page_spec [OF vmm_start_facts(1) room st1_def]) (use 0 in blast)
  have "dir_index 0 = dir_index 0x1000" by (simp add: dir_index_def)
  note 2 = 1 [unfolded this]
  from vmm_user_flag_lost [OF 2(1,2), of 7 _ "0x700000", OF _ _ _ refl] 2(3)
  show ?thesis by (simp add: PAGE_USER_def PAGE_PRESENT_def st1_def dir_index_def)
qed

lemma vmm_wf_fields [simp]:
  "vmm_wf (st\<lparr>kernel_page_directory := x\<rparr>) d = vmm_wf st d"
  "vmm_wf (st\<lparr>current_page_directory := x\<rparr>) d = vmm_wf st d"
  "vmm_wf (st\<lparr>tlb_flushes := n\<rparr>) d = vmm_wf st d"
  by (simp_all add: vmm_wf_def taken_def used_set_def frame_used_def bitmap_word_def pmm_inv_def geometry_def)

section \<open>Unmapping\<close>

lemma memset_cell: "a + 4 \<le> 4294967296 \<Longrightarrow> memset m (of_nat a) 0 4 = wr m a 0"
proof -
  assume a: "a + 4 \<le> 4294967296"
  have "unat (x - of_nat a) < 4 \<longleftrightarrow> x = of_nat a \<or> x = of_nat a + 1 \<or> x = of_nat a + 2 \<or> x = of_nat a + (3 :: u32)" for x
  proof -
    have "unat (x - of_nat a) < 4 \<longleftrightarrow> x - of_nat a \<in> {0, 1, 2, 3 :: u32}"
      by (auto simp: word_unat_eq_iff)
    then show ?thesis by (auto simp: algebra_simps)
  qed
  then show ?thesis by (auto simp: memset_eq_filled filled_def wr_def store32_def fun_eq_iff)
qed

text \<open>Unmapping a mapped page makes exactly its addresses translate to 0, leaves every other translation and
  the tables as they were, and gives the page frame back to the frame allocator, when the frame is not
  itself one of the tables.\<close>

theorem vmm_unmap_page_correct:
  assumes wf: "vmm_wf st d" and e: "walk (mem st) d (dir_index v) (table_index v) = Some e"
    and other: "table_of e \<noteq> d" "\<forall>k < 1024. entry_present (pde (mem st) d k) \<longrightarrow> table_of (pde (mem st) d k) \<noteq> table_of e"
    and frame: "4096 \<le> table_of e" "table_of e \<noteq> 2097152"
    and st': "st' = vmm_unmap_page (of_nat d) v st"
  shows "vmm_wf st' d
    \<and> (\<forall>w. vmm_get_physical_address (of_nat d) w st'
        = (if PAGE_ALIGN w = PAGE_ALIGN v then 0 else vmm_get_physical_address (of_nat d) w st))
    \<and> used_set st' = (if 2097152 \<le> table_of e then used_set st - {(table_of e - 2097152) div 4096} else used_set st)"
proof -
  note w = vmm_wfD [OF wf]
  have pr: "entry_present (pde (mem st) d (dir_index v))" and pe: "pte (mem st) d (dir_index v) (table_index v) = e"
    using e by (auto simp: walk_def split: if_splits)
  define a where "a = table_of (pde (mem st) d (dir_index v)) + 4 * table_index v"
  define st1 where "st1 = st\<lparr>mem := wr (mem st) a 0\<rparr>"
  have m1: "mem st1 = wr (mem st) (table_of (pde (mem st) d (dir_index v)) + 4 * table_index v) 0"
    by (simp add: st1_def a_def)
  note wp = wf_write_pte [OF wf _ pr _ m1, simplified]
  have s1: "bitmap st1 = bitmap st" "total_frames st1 = total_frames st" "free_frames st1 = free_frames st"
    "first_free_frame st1 = first_free_frame st" by (simp_all add: st1_def)
  note wp = wp [OF s1]
  define f :: u32 where "f = of_nat (table_of e)"
  have uf: "unat f = table_of e" by (simp add: f_def unat_of_nat_u32)
  then have f0: "f \<noteq> 0" using frame(1) by auto
  have a4: "a + 4 \<le> 4294967296" using frame_end [of "table_of (pde (mem st) d (dir_index v))" "table_index v"] by (simp add: a_def)
  have aw: "of_nat (table_of (pde (mem st) d (dir_index v))) + 4 * GET_PT_INDEX (PAGE_ALIGN v) = (of_nat a :: u32)"
  proof -
    have "GET_PT_INDEX (PAGE_ALIGN v) = of_nat (table_index v)" by (metis page_indices(2,4) u32_of_nat_unat)
    then show ?thesis by (simp add: a_def)
  qed
  have E: "entry (mem st) (of_nat d) (GET_PD_INDEX (PAGE_ALIGN v)) = pde (mem st) d (dir_index v)"
    "entry (mem st) (of_nat (table_of (pde (mem st) d (dir_index v)))) (GET_PT_INDEX (PAGE_ALIGN v)) = e"
    using pe by (simp_all add: entry_nat page_indices pde_def pte_def)
  have run: "st' = vmm_flush_tlb (pmm_free_frame f st1)"
    using pr f0 by (simp add: st' vmm_unmap_page_def Let_def E entry_address_table aw memset_cell [OF a4] f_def st1_def)
  define st2 where "st2 = pmm_free_frame f st1"
  have idx: "frame_index_of f = (table_of e - 2097152) div 4096" by (simp add: frame_index_of_def uf)
  have ge: "MEMORY_START \<le> f \<longleftrightarrow> 2097152 \<le> table_of e" by (simp add: word_le_nat_alt uf MEMORY_START_def)
  have al: "4096 dvd table_of e" by simp
  note w1 = vmm_wfD [OF wp(1)]
  have geo: "geometry st1" using w1(1) by (simp add: pmm_inv_def)
  have u2: "used_set st2 = (if 2097152 \<le> table_of e then used_set st - {(table_of e - 2097152) div 4096} else used_set st)"
    using used_set_free_frame [OF geo, of f] by (simp only: st2_def ge idx wp(2))
  have far: "(x - 2097152) div 4096 \<noteq> (table_of e - 2097152) div 4096"
    if "4096 dvd x" "x \<noteq> table_of e" "2097152 \<le> x" "2097152 \<le> table_of e" for x
  proof -
    have q: "(y - 2097152) div 4096 = y div 4096 - 512" "y = 4096 * (y div 4096)" if "4096 dvd y" for y :: nat
      using that by (auto elim!: dvdE simp: diff_mult_distrib2 [of 4096 _ 512, simplified, symmetric])
    have "512 \<le> x div 4096" "512 \<le> table_of e div 4096"
      using that(3,4) div_le_mono [of 2097152 _ 4096] by fastforce+
    then show ?thesis using q [OF that(1)] q [OF al] that(2) by (metis diff_add_inverse2 le_add_diff_inverse2)
  qed
  have tk: "taken st2 x" if "taken st1 x" "x \<noteq> table_of e" for x
    using that far [of x] by (auto simp: taken_def u2 wp(2))
  have "frame_index_of f \<noteq> 0 \<or> f < MEMORY_START"
    using frame(2) far [of 2097152] by (cases "2097152 \<le> table_of e") (auto simp: idx word_less_nat_alt uf MEMORY_START_def)
  then have inv2: "pmm_inv st2" unfolding st2_def using pmm_inv_free_frame [OF w1(1)] by blast
  have un: "unchanged_outside (mem st1) (mem st2) 2097152 2098112"
    unfolding st2_def by (rule pmm_free_unchanged [OF geo])
  have d2: "taken st2 d" using tk w1(3) other(1) by simp
  have t2: "taken st2 (table_of (pde (mem st1) d i))" if "i < 1024" "entry_present (pde (mem st1) d i)" for i
    using that tk [OF w1(6) [OF that]] other(2) wp(4) by auto
  note fr = wf_transfer [OF wp(1) inv2 d2 t2 un]
  have m': "mem st' = mem st2" "used_set st' = used_set st2" "vmm_wf st' d = vmm_wf st2 d"
    by (simp_all add: run st2_def [symmetric] vmm_flush_tlb_def vmm_wf_def taken_def used_set_def frame_used_def
        bitmap_word_def pmm_inv_def geometry_def)
  have "vmm_get_physical_address (of_nat d) x st'
      = (if PAGE_ALIGN x = PAGE_ALIGN v then 0 else vmm_get_physical_address (of_nat d) x st)" for x
    unfolding get_physical_walk m'(1) using same_page [of x v]
    by (subst fr(3)) (auto simp: wp(3) entry_present_def)
  then show ?thesis using fr(1) m' u2 by simp
qed

text \<open>A directory with one table at 0x101000 that maps page 0 to 0x700000.\<close>

definition vmm_demo :: vmm where
  "vmm_demo = vmm_start\<lparr>mem := wr (wr (memset (mem vmm_start) (of_nat 0x101000) 0 4096) (0x100000 + 4 * 0) 0x101003)
     (0x101000 + 4 * 0) 0x700003\<rparr>"

lemma vmm_demo_facts:
  "vmm_wf vmm_demo 0x100000" "k < 1024 \<Longrightarrow> pde (mem vmm_demo) 0x100000 k = (if k = 0 then 0x101003 else 0)"
  "walk (mem vmm_demo) 0x100000 0 0 = Some 0x700003"
proof -
  define st1 where "st1 = vmm_start\<lparr>mem := wr (memset (mem vmm_start) (of_nat 0x101000) 0 4096) (0x100000 + 4 * 0) 0x101003\<rparr>"
  note w = vmm_wfD [OF vmm_start_facts(1)]
  have z: "pde (mem vmm_start) 0x100000 k = 0" if "k < 1024" for k
    unfolding vmm_start_def using that by (rule cleared_spec(2) [OF vmm_boot_facts(1,4)])
  have t: "table_of 0x101003 = 0x101000" "table_of 0x700003 = 0x700000" "entry_present 0x101003" "entry_present 0x700003"
    "\<not> entry_present 0" by (simp_all add: table_of_def entry_present_def)
  have m1: "mem st1 = wr (memset (mem vmm_start) (of_nat 0x101000) 0 4096) (0x100000 + 4 * 0) 0x101003" by (simp add: st1_def)
  note new = walk_new_table [OF w(2) _ _ _ _ _ _ t(3,1) m1]
  have n: "walk_ok (mem st1) 0x100000" "\<And>k. k < 1024 \<Longrightarrow> pde (mem st1) 0x100000 k = (if k = 0 then 0x101003 else pde (mem vmm_start) 0x100000 k)"
    by (rule new; simp add: z t)+
  have keep: "mem st1 x = mem vmm_start x" if "2097152 \<le> unat x" "unat x < 2098112" for x
    unfolding m1 using wr_frame_bitmap(1) [where a = "0x100000" and i = 0 and x = x] wr_frame_bitmap(2) [where a = "0x101000" and i = 0 and x = x] that by simp
  have inv: "pmm_inv st1" by (rule pmm_inv_outside(1) [OF w(1) keep]) (simp_all add: st1_def)
  have pd: "pde (mem st1) 0x100000 k = (if k = 0 then 0x101003 else 0)" if "k < 1024" for k
    using n(2) [OF that] z [OF that] by simp
  have wf1: "vmm_wf st1 0x100000" using inv n(1) by (simp add: vmm_wf_def taken_def pd t)
  have m2: "mem vmm_demo = wr (mem st1) (table_of (pde (mem st1) 0x100000 0) + 4 * 0) 0x700003"
    by (simp add: pd t(1)) (simp add: vmm_demo_def st1_def)
  have pr: "entry_present (pde (mem st1) 0x100000 0)" by (simp add: pd t)
  have rest: "bitmap vmm_demo = bitmap st1" "total_frames vmm_demo = total_frames st1" "free_frames vmm_demo = free_frames st1"
    "first_free_frame vmm_demo = first_free_frame st1" by (simp_all add: vmm_demo_def st1_def)
  note wp = wf_write_pte [OF wf1 _ pr _ m2 rest]
  show "vmm_wf vmm_demo 0x100000" by (rule wp) simp_all
  have "walk (mem vmm_demo) 0x100000 0 0 = (if (0::nat) = 0 \<and> (0::nat) = 0 then if entry_present 0x700003 then Some 0x700003 else None
    else walk (mem st1) 0x100000 0 0)" by (rule wp) simp_all
  then show "walk (mem vmm_demo) 0x100000 0 0 = Some 0x700003" by (simp add: t)
  have "pde (mem vmm_demo) 0x100000 k = pde (mem st1) 0x100000 k" if "k < 1024" for k
    by (rule wp) (simp_all add: that)
  then show "k < 1024 \<Longrightarrow> pde (mem vmm_demo) 0x100000 k = (if k = 0 then 0x101003 else 0)" using pd by simp
qed

lemma vmm_unmap_page_correct_witness:
  "vmm_get_physical_address 0x100000 0x123 (vmm_unmap_page 0x100000 0 vmm_demo) = 0"
proof -
  have e: "walk (mem vmm_demo) 0x100000 (dir_index 0) (table_index 0) = Some 0x700003"
    using vmm_demo_facts(3) by (simp add: dir_index_def table_index_def)
  have "PAGE_ALIGN 0x123 = PAGE_ALIGN 0" by (simp add: PAGE_ALIGN_def PAGE_SIZE_def)
  then show ?thesis
    using vmm_unmap_page_correct [OF vmm_demo_facts(1) e _ _ _ _ refl]
    by (simp add: vmm_demo_facts(2) table_of_def entry_present_def)
qed

section \<open>Initialisation\<close>

text \<open>Mapping the first \<open>n\<close> pages of the 4 MB region \<open>r\<close>, page \<open>i\<close> to frame \<open>i\<close>.\<close>

definition region_page :: "nat \<Rightarrow> nat \<Rightarrow> u32" where
  "region_page r i = of_nat (r * 4194304) + of_nat i * PAGE_SIZE"

lemma region_page_index:
  assumes "r < 1024" and "i < 1024"
  shows "dir_index (region_page r i) = r" "table_index (region_page r i) = i"
    "unat (of_nat i * PAGE_SIZE :: u32) div 4096 * 4096 = 4096 * i"
proof -
  define n where "n = 1024 * r + i"
  have "n < 1048576" using assms by (simp add: n_def)
  then have "unat (of_nat (4096 * n) :: u32) = 4096 * n" by (intro unat_of_nat_u32) simp
  moreover have "region_page r i = of_nat (4096 * n)"
    by (simp add: region_page_def PAGE_SIZE_def n_def distrib_left mult.commute)
  ultimately have u: "unat (region_page r i) = 4096 * n" by simp
  have "4096 * n div 4194304 = n div 1024" by (simp add: div_mult2_eq [of _ 4096 1024, simplified])
  then show "dir_index (region_page r i) = r" "table_index (region_page r i) = i"
    using assms by (simp_all add: dir_index_def table_index_def u) (simp_all add: n_def)
  have "unat (of_nat (4096 * i) :: u32) = 4096 * i" using assms by (intro unat_of_nat_u32) simp
  then show "unat (of_nat i * PAGE_SIZE :: u32) div 4096 * 4096 = 4096 * i" by (simp add: PAGE_SIZE_def mult.commute)
qed

lemma map_region:
  assumes wf: "vmm_wf st d" and r: "r < 1024" and room: "free_frames st \<noteq> 0" and n: "n \<le> 1024"
    and fl: "flags AND PAGE_PRESENT \<noteq> 0"
  shows "\<exists>st'. fold (\<lambda>i. vmm_map_page (of_nat d) (region_page r i) (of_nat i * PAGE_SIZE) flags) [0..<n] st = st'
    \<and> vmm_wf st' d \<and> unat (free_frames st) \<le> unat (free_frames st') + 1 \<and> (n \<noteq> 0 \<longrightarrow> entry_present (pde (mem st') d r))
    \<and> (n = 0 \<longrightarrow> st' = st)
    \<and> (\<forall>k < 1024. \<forall>l < 1024. if k = r \<and> l < n then \<exists>e. walk (mem st') d k l = Some e \<and> table_of e = 4096 * l
         else walk (mem st') d k l = walk (mem st) d k l)"
  using n
proof (induction n)
  case 0
  then show ?case using wf by simp
next
  case (Suc n)
  then obtain s1 where s1: "fold (\<lambda>i. vmm_map_page (of_nat d) (region_page r i) (of_nat i * PAGE_SIZE) flags) [0..<n] st = s1"
    "vmm_wf s1 d" "unat (free_frames st) \<le> unat (free_frames s1) + 1" "n \<noteq> 0 \<longrightarrow> entry_present (pde (mem s1) d r)"
    "n = 0 \<longrightarrow> s1 = st"
    "\<forall>k < 1024. \<forall>l < 1024. if k = r \<and> l < n then \<exists>e. walk (mem s1) d k l = Some e \<and> table_of e = 4096 * l
         else walk (mem s1) d k l = walk (mem st) d k l" by auto
  have nn: "n < 1024" using Suc.prems by simp
  note ix = region_page_index [OF r nn]
  define s2 where "s2 = vmm_map_page (of_nat d) (region_page r n) (of_nat n * PAGE_SIZE) flags s1"
  have rm: "entry_present (pde (mem s1) d (dir_index (region_page r n))) \<or> free_frames s1 \<noteq> 0"
    using s1(4,5) room by (cases "n = 0") (simp_all add: ix)
  obtain e where e: "vmm_wf s2 d" "table_of e = unat (of_nat n * PAGE_SIZE :: u32) div 4096 * 4096"
    "\<And>k l. k < 1024 \<Longrightarrow> l < 1024 \<Longrightarrow> walk (mem s2) d k l
      = (if k = dir_index (region_page r n) \<and> l = table_index (region_page r n)
         then if flags AND PAGE_PRESENT \<noteq> 0 then Some e else None else walk (mem s1) d k l)"
    "entry_present (pde (mem s2) d (dir_index (region_page r n)))"
    "unat (free_frames s1) \<le> unat (free_frames s2) + 1"
    "entry_present (pde (mem s1) d (dir_index (region_page r n))) \<Longrightarrow> free_frames s2 = free_frames s1"
    by (rule map_page_spec [OF s1(2) rm s2_def]) (rule that)
  note e = e [unfolded ix]
  have fr: "unat (free_frames st) \<le> unat (free_frames s2) + 1"
    using e(5,6) s1(3,4,5) by (cases "n = 0") auto
  have wk: "if k = r \<and> l < Suc n then \<exists>e. walk (mem s2) d k l = Some e \<and> table_of e = 4096 * l
         else walk (mem s2) d k l = walk (mem st) d k l" if "k < 1024" "l < 1024" for k l
    using s1(6) [rule_format, OF that] e(2) e(3) [OF that] fl by (cases "l = n") (auto split: if_splits)
  show ?case using s1(1) e(1,4) fr wk by (simp add: s2_def [symmetric])
qed

lemma table_offset:
  "of_nat (4096 * table_index v) OR (v AND 0xFFF) = v mod 0x400000"
proof -
  have "GET_PT_INDEX v = of_nat (table_index v)" by (metis page_indices(2) u32_of_nat_unat)
  moreover have "GET_PT_INDEX v = take_bit 10 (drop_bit 12 v)"
    by (simp add: GET_PT_INDEX_def take_bit_eq_mask mask_eq_exp_minus_1)
  ultimately have "of_nat (4096 * table_index v) = push_bit 12 (take_bit 10 (drop_bit 12 v))"
    by (simp add: push_bit_eq_mult mult.commute)
  moreover have "v AND 0xFFF = take_bit 12 v" by (simp add: take_bit_eq_mask mask_eq_exp_minus_1)
  moreover have "push_bit 12 (take_bit 10 (drop_bit 12 v)) OR take_bit 12 v = take_bit 22 v"
    by (rule bit_word_eqI) (auto simp: bit_simps)
  ultimately show ?thesis by (simp add: take_bit_eq_mod)
qed

text \<open>After \<open>vmm_init\<close> the kernel directory translates the first 4 MB to themselves and the 4 MB at
  0xC0000000 to the same frames, and nothing else, when two frames are free.\<close>

theorem vmm_init_maps:
  assumes inv: "pmm_inv st" and d: "kernel_page_directory st = of_nat d" "taken st d"
    and free: "2 \<le> unat (free_frames st)"
  shows "vmm_wf (vmm_init st) d \<and> current_page_directory (vmm_init st) = of_nat d
    \<and> (\<forall>v. vmm_get_physical_address (of_nat d) v (vmm_init st)
        = (if dir_index v = 0 \<or> dir_index v = 768 then v mod 0x400000 else 0))"
proof -
  define fl where "fl = PAGE_PRESENT OR PAGE_WRITABLE"
  have fl: "fl AND PAGE_PRESENT \<noteq> 0" by (simp add: fl_def PAGE_PRESENT_def PAGE_WRITABLE_def)
  define s0 where "s0 = cleared d st"
  note c = cleared_spec [OF inv d(2), folded s0_def]
  have r0: "free_frames s0 \<noteq> 0" using free c(5) by auto
  obtain s1 where s1: "fold (\<lambda>i. vmm_map_page (of_nat d) (region_page 0 i) (of_nat i * PAGE_SIZE) fl) [0..<1024] s0 = s1"
    "vmm_wf s1 d" "unat (free_frames s0) \<le> unat (free_frames s1) + 1"
    "\<forall>k < 1024. \<forall>l < 1024. if k = 0 \<and> l < 1024 then \<exists>e. walk (mem s1) d k l = Some e \<and> table_of e = 4096 * l
         else walk (mem s1) d k l = walk (mem s0) d k l"
    using map_region [OF c(1) _ r0 _ fl, of 0 1024] by auto
  have r1: "free_frames s1 \<noteq> 0" using free c(5) s1(3) by auto
  obtain s2 where s2: "fold (\<lambda>i. vmm_map_page (of_nat d) (region_page 768 i) (of_nat i * PAGE_SIZE) fl) [0..<1024] s1 = s2"
    "vmm_wf s2 d"
    "\<forall>k < 1024. \<forall>l < 1024. if k = 768 \<and> l < 1024 then \<exists>e. walk (mem s2) d k l = Some e \<and> table_of e = 4096 * l
         else walk (mem s2) d k l = walk (mem s1) d k l"
    using map_region [OF s1(2) _ r1 _ fl, of 768 1024] by auto
  have "region_page 0 = (\<lambda>i. of_nat i * PAGE_SIZE)" "region_page 768 = (\<lambda>i. KERNEL_VIRTUAL_BASE + of_nat i * PAGE_SIZE)"
    by (simp_all add: region_page_def KERNEL_VIRTUAL_BASE_def fun_eq_iff)
  then have run: "vmm_init st = s2\<lparr>current_page_directory := of_nat d\<rparr>"
    using s1(1) s2(1) d(1) by (simp only: vmm_init_def Let_def fl_def s0_def cleared_def)
  have wk: "if k = 0 \<or> k = 768 then \<exists>e. walk (mem s2) d k l = Some e \<and> table_of e = 4096 * l
      else walk (mem s2) d k l = None" if "k < 1024" "l < 1024" for k l
    using s2(3) [rule_format, OF that] s1(4) [rule_format, OF that] c(3) [OF that(1), of l] that
    by (cases "k = 768"; cases "k = 0") auto
  have "vmm_get_physical_address (of_nat d) v (vmm_init st)
        = (if dir_index v = 0 \<or> dir_index v = 768 then v mod 0x400000 else 0)" for v
  proof (cases "dir_index v = 0 \<or> dir_index v = 768")
    case True
    then obtain e where "walk (mem s2) d (dir_index v) (table_index v) = Some e" "table_of e = 4096 * table_index v"
      using wk [of "dir_index v" "table_index v"] by auto
    then show ?thesis using True table_offset [of v] by (simp only: get_physical_walk run) simp
  next
    case False
    then show ?thesis using wk [of "dir_index v" "table_index v"] by (simp add: get_physical_walk run)
  qed
  then show ?thesis using s2(2) by (simp add: run)
qed

lemma vmm_init_maps_witness: "vmm_get_physical_address 0x100000 0xC0100004 (vmm_init vmm_boot) = 0x100004"
proof -
  have "kernel_page_directory vmm_boot = of_nat 0x100000"
    by (simp add: vmm_boot_def pmm_init_def Let_def pmm_mark_frame_used_def set_frame_def MEMORY_SIZE_def PAGE_SIZE_def)
  from vmm_init_maps [OF vmm_boot_facts(1) this vmm_boot_facts(4)]
  show ?thesis by (simp add: vmm_boot_facts dir_index_def)
qed

section \<open>New directories\<close>

lemma pmm_alloc_kernel_directory: "kernel_page_directory (snd (pmm_alloc_frame st)) = kernel_page_directory st"
  by (auto simp: pmm_alloc_frame_def set_frame_def Let_def split: option.split)

text \<open>Copying the directory entries from index \<open>a\<close> on.\<close>

lemma copy_entries:
  assumes "4096 dvd p" "4096 dvd d" "p < 4294967296" "d < 4294967296" "p \<noteq> d" "b \<le> 1024" "a \<le> b"
    and "m' = fold (\<lambda>i m. wr m (p + 4 * i) (rd m (d + 4 * i))) [a..<b] m"
  shows "4096 dvd x \<Longrightarrow> x < 4294967296 \<Longrightarrow> i < 1024 \<Longrightarrow> rd m' (x + 4 * i)
      = (if x = p \<and> a \<le> i \<and> i < b then rd m (d + 4 * i) else rd m (x + 4 * i))"
    and "p \<noteq> 2097152 \<Longrightarrow> 2097152 \<le> unat y \<Longrightarrow> unat y < 2098112 \<Longrightarrow> m' y = m y"
  using assms(6-8)
proof (induction b arbitrary: m' x i y)
  case 0
  { case 1 then show ?case by simp next case 2 then show ?case by simp }
next
  case (Suc b)
  { case 1
    show ?case
    proof (cases "a = Suc b")
      case True then show ?thesis using 1 by auto
    next
      case False
      define m1 where "m1 = fold (\<lambda>i m. wr m (p + 4 * i) (rd m (d + 4 * i))) [a..<b] m"
      have m': "m' = wr m1 (p + 4 * b) (rd m1 (d + 4 * b))" using 1 False by (simp add: m1_def)
      have "rd m1 (d + 4 * b) = rd m (d + 4 * b)"
        using Suc.IH(1) [OF assms(2,4) _ _ _ m1_def, of b] 1 False assms(5) by simp
      moreover have "rd m1 (x + 4 * i) = (if x = p \<and> a \<le> i \<and> i < b then rd m (d + 4 * i) else rd m (x + 4 * i))"
        using Suc.IH(1) [OF 1(1,2,3) _ _ m1_def] 1 False by simp
      ultimately show ?thesis
        unfolding m' by (subst rd_wr_frame) (use 1 False assms in auto)
    qed
  next
    case 2
    show ?case
    proof (cases "a = Suc b")
      case True then show ?thesis using 2 by auto
    next
      case False
      define m1 where "m1 = fold (\<lambda>i m. wr m (p + 4 * i) (rd m (d + 4 * i))) [a..<b] m"
      have m': "m' = wr m1 (p + 4 * b) (rd m1 (d + 4 * b))" using 2 False by (simp add: m1_def)
      have "m1 y = m y" using Suc.IH(2) [OF 2(1,2,3) _ _ m1_def] 2 False by simp
      then show ?thesis unfolding m' using 2 assms by (subst wr_frame_bitmap) auto
    qed
  }
qed

lemma create_directory_spec:
  assumes wf: "vmm_wf st d" and d: "kernel_page_directory st = of_nat d" and free: "free_frames st \<noteq> 0"
  obtains t st' where "vmm_create_page_directory st = (of_nat t, st')" and "of_nat t \<noteq> (0 :: u32)"
    and "4096 dvd t" "t < 4294967296" and "vmm_wf st' t" and "vmm_wf st' d" and "\<not> taken st t" "taken st' t"
    and "used_set st \<subseteq> used_set st'" and "card (used_set st') = Suc (card (used_set st))"
    and "\<And>i j. i < 1024 \<Longrightarrow> j < 1024 \<Longrightarrow> walk (mem st') t i j = (if 768 \<le> i then walk (mem st) d i j else None)"
proof -
  note w = vmm_wfD [OF wf]
  obtain t st0 where al: "pmm_alloc_frame st = (of_nat t, st0)" and tw: "of_nat t \<noteq> (0 :: u32)" and inv0: "pmm_inv st0"
    and t: "4096 dvd t" "t < 4294967296" "\<not> taken st t" "taken st0 t"
    and un: "unchanged_outside (mem st) (mem st0) 2097152 2098112" and us: "used_set st \<subseteq> used_set st0"
    and card0: "card (used_set st0) = Suc (card (used_set st))"
    by (rule fresh_frame [OF w(1) free])
  note fr = wf_frame [OF wf inv0 us un]
  note w0 = vmm_wfD [OF fr(1)]
  have td: "t \<noteq> d" using t(3) w(3) by auto
  have tt: "table_of (pde (mem st0) d k) \<noteq> t" if "k < 1024" "entry_present (pde (mem st0) d k)" for k
    using that fr(2) w(6) t(3) by auto
  define m0 m' where "m0 = memset (mem st0) (of_nat t) 0 4096"
    and "m' = fold (\<lambda>i m. wr m (t + 4 * i) (rd m (d + 4 * i))) [768..<1024] m0"
  have kd: "kernel_page_directory st0 = of_nat d" using pmm_alloc_kernel_directory [of st] al d by simp
  have loop: "fold (\<lambda>i m. store32 m (of_nat t + 4 * of_nat i) (entry m (of_nat d) (of_nat i))) [768..<1024] m0 = m'"
    unfolding m'_def
  proof (rule fold_cong [OF refl refl])
    fix i assume "i \<in> set [768..<1024]"
    then have "unat (of_nat i :: u32) = i" by (intro unat_of_nat_u32) (simp only: set_upt atLeastLessThan_iff; simp)
    then show "(\<lambda>m. store32 m (of_nat t + 4 * of_nat i) (entry m (of_nat d) (of_nat i))) = (\<lambda>m. wr m (t + 4 * i) (rd m (d + 4 * i)))"
      by (simp add: entry_nat wr_def fun_eq_iff)
  qed
  have lo: "unat (GET_PD_INDEX KERNEL_VIRTUAL_BASE) = 768" by (simp add: page_indices dir_index_def KERNEL_VIRTUAL_BASE_def)
  define st' where "st' = st0\<lparr>mem := m'\<rparr>"
  have run: "vmm_create_page_directory st = (of_nat t, st')"
    by (simp only: vmm_create_page_directory_def al Let_def prod.case lo kd tw if_False m0_def [symmetric] loop st'_def)
  note ce = copy_entries [OF t(1) w(4) t(2) w(5) td _ _ m'_def]
  have rd': "rd m' (x + 4 * i) = (if x = t then if 768 \<le> i then pde (mem st0) d i else 0 else rd (mem st0) (x + 4 * i))"
    if "4096 dvd x" "x < 4294967296" "i < 1024" for x i
    using that ce(1) [OF _ _ that] rd_zero_frame [OF that(1) t(1) that(2) t(2) that(3)]
      rd_zero_frame [OF w(4) t(1) w(5) t(2) that(3)] td
    by (cases "x = t") (simp_all add: m0_def pde_def)
  have pt: "pde m' t i = (if 768 \<le> i then pde (mem st0) d i else 0)" if "i < 1024" for i
    unfolding pde_def [of m'] using rd' [OF t(1,2) that] by simp
  have pd: "pde m' d i = pde (mem st0) d i" if "i < 1024" for i
    unfolding pde_def using rd' [OF w(4,5) that] td by simp
  have pe: "rd m' (table_of (pde (mem st0) d i) + 4 * j) = pte (mem st0) d i j"
    if "i < 1024" "j < 1024" "entry_present (pde (mem st0) d i)" for i j
    unfolding pte_def using rd' [OF _ _ that(2), of "table_of (pde (mem st0) d i)"] tt [OF that(1,3)] by simp
  have keep: "mem st' y = mem st0 y" if "2097152 \<le> unat y" "unat y < 2098112" for y
    using ce(2) [OF _ _ _ that] wr_frame_bitmap(2) [OF t(1,2) _ _ that, of 0] t(4)
    by (simp add: st'_def m0_def taken_def)
  have inv: "pmm_inv st'" and u: "used_set st' = used_set st0"
    by (rule pmm_inv_outside [OF inv0 keep]; simp add: st'_def)+
  have tk: "taken st' x = taken st0 x" for x by (simp add: taken_def u)
  have m: "mem st' = m'" by (simp add: st'_def)
  note ok = walk_okD [OF w0(2)]
  have "walk_ok m' t" using t(1,2) tt ok(4) by (auto simp: walk_ok_def pt entry_present_def)
  then have wt: "vmm_wf st' t" using inv t(4) w0(6) by (auto simp: vmm_wf_def m tk pt entry_present_def)
  have "walk_ok m' d" using w0(2) by (simp add: walk_ok_def pd)
  then have wd: "vmm_wf st' d" using inv w0(3,6) by (simp add: vmm_wf_def m tk pd)
  have walk: "walk m' t i j = (if 768 \<le> i then walk (mem st) d i j else None)" if "i < 1024" "j < 1024" for i j
    using fr(3) [OF that] pe [OF that] pt [OF that(1)] by (auto simp: walk_def pte_def [of m'] entry_present_def)
  show thesis
    by (rule that [OF run tw t(1,2) wt wd]) (use t(3,4) us card0 walk m u tk in simp_all)
qed

text \<open>A new page directory translates the kernel half, from 0xC0000000 on, exactly as the kernel directory
  does, and nothing below it; both directories keep the invariant. Without a free frame the result is null.\<close>

theorem vmm_create_page_directory_correct:
  assumes wf: "vmm_wf st d" and d: "kernel_page_directory st = of_nat d"
    and run: "vmm_create_page_directory st = (p, st')"
  shows "if free_frames st = 0 then p = 0 \<and> st' = st
    else p \<noteq> 0 \<and> vmm_wf st' (unat p) \<and> vmm_wf st' d
      \<and> (\<forall>v. vmm_get_physical_address p v st' = (if 0xC0000000 \<le> v then vmm_get_physical_address (of_nat d) v st else 0))"
proof (cases "free_frames st = 0")
  case True
  then show ?thesis using run by (simp add: vmm_create_page_directory_def pmm_alloc_frame_def)
next
  case False
  obtain t st1 where c: "vmm_create_page_directory st = (of_nat t, st1)" "of_nat t \<noteq> (0 :: u32)" "t < 4294967296"
    "vmm_wf st1 t" "vmm_wf st1 d"
    "\<And>i j. i < 1024 \<Longrightarrow> j < 1024 \<Longrightarrow> walk (mem st1) t i j = (if 768 \<le> i then walk (mem st) d i j else None)"
    by (rule create_directory_spec [OF wf d False]) (rule that)
  have p: "p = of_nat t" "st' = st1" using c(1) run by simp_all
  have up: "unat p = t" using c(3) by (simp add: p unat_of_nat_u32)
  have "0xC0000000 \<le> v \<longleftrightarrow> 768 \<le> dir_index v" for v
    by (simp add: word_le_nat_alt dir_index_def less_eq_div_iff_mult_less_eq)
  then have "vmm_get_physical_address p v st1 = (if 0xC0000000 \<le> v then vmm_get_physical_address (of_nat d) v st else 0)" for v
    unfolding p(1) get_physical_walk by (simp add: c(6))
  then show ?thesis using False c(2,4,5) up by (simp add: p)
qed

lemma vmm_create_page_directory_correct_witness:
  "\<exists>p st'. vmm_create_page_directory (vmm_start\<lparr>kernel_page_directory := 0x100000\<rparr>) = (p, st') \<and> p \<noteq> 0
    \<and> vmm_get_physical_address p 0x1000 st' = 0"
proof -
  define st where "st = vmm_start\<lparr>kernel_page_directory := 0x100000\<rparr>"
  have wf: "vmm_wf st 0x100000" and kd: "kernel_page_directory st = of_nat 0x100000" and fr: "free_frames st \<noteq> 0"
    using vmm_start_facts(1,2) by (simp_all add: st_def)
  obtain p st' where r: "vmm_create_page_directory st = (p, st')" by fastforce
  from vmm_create_page_directory_correct [OF wf kd r] fr
  show ?thesis unfolding st_def [symmetric] r by (auto simp: word_le_nat_alt)
qed

end
