(* ===== verification/SchedulerProps.thy ===== *)
theory SchedulerProps
  imports ReadyQueue VmmProps
begin

text \<open>
  What the scheduler promises. \<open>sched_ok\<close> is the invariant: the linked queue is a list of
  distinct ready processes that does not contain the current one. Under it
  \<open>scheduler_schedule\<close> refines round robin, every ready process runs in its turn, and a running
  process keeps the processor for its time slice. Processes are added, removed and exit without
  breaking the queue; destroying a queued process breaks it.
\<close>

definition sched_inv :: "'a scheduler_scheme \<Rightarrow> nat list \<Rightarrow> bool" where
  "sched_inv st qs \<longleftrightarrow> queue_inv st qs
     \<and> (\<forall>c. current_process st = Some c \<longrightarrow> c < 32 \<and> c \<notin> set qs \<and> process_state (proc st c) \<noteq> 0)"

definition sched_ok :: "'a scheduler_scheme \<Rightarrow> bool" where
  "sched_ok st \<longleftrightarrow> sched_inv st (queue_of st)"

lemma sched_okI: "sched_inv st qs \<Longrightarrow> sched_ok st \<and> queue_of st = qs"
  by (metis queue_of_inv sched_inv_def sched_ok_def)

text \<open>The process that runs: the current one, unless it has ended.\<close>

definition running_of :: "'a kernel_scheme \<Rightarrow> nat option" where
  "running_of st = (case current_process st of None \<Rightarrow> None
     | Some c \<Rightarrow> if process_state (proc st c) = PROCESS_STATE_RUNNING then Some c else None)"

section \<open>Operations on the queue\<close>

lemma proc_fields [simp]:
  "proc (st\<lparr>ready_queue := q\<rparr>) = proc st" "proc (st\<lparr>sched_stats := s\<rparr>) = proc st"
  "proc (st\<lparr>current_process := c\<rparr>) = proc st"
  by (simp_all add: proc_def fun_eq_iff)

lemma update_process_sched [simp]:
  "ready_queue (update_process p f st) = ready_queue st"
  "sched_stats (update_process p f st) = sched_stats st"
  "scheduler_enabled (update_process p f st) = scheduler_enabled st"
  by (simp_all add: update_process_def)

lemma process_states_distinct [simp]:
  "PROCESS_STATE_RUNNING \<noteq> 0" "PROCESS_STATE_READY \<noteq> 0" "PROCESS_STATE_TERMINATED \<noteq> 0"
  "PROCESS_STATE_READY \<noteq> PROCESS_STATE_RUNNING" "PROCESS_STATE_RUNNING \<noteq> PROCESS_STATE_READY"
  "PROCESS_STATE_READY \<noteq> PROCESS_STATE_TERMINATED" "PROCESS_STATE_TERMINATED \<noteq> PROCESS_STATE_RUNNING"
  by (simp_all add: process_states)

text \<open>Appending a process that is not in the queue.\<close>

lemma add_process_spec:
  assumes q: "queue_inv st qs" and p: "p < 32" "p \<notin> set qs" and st': "st' = scheduler_add_process (Some p) st"
  shows "queue_inv st' (qs @ [p])" and "current_process st' = current_process st"
    and "x < 32 \<Longrightarrow> \<exists>nx. proc st' x
      = (if x = p then (proc st p)\<lparr>process_state := PROCESS_STATE_READY, next_process := nx\<rparr>
         else (proc st x)\<lparr>next_process := nx\<rparr>)"
proof -
  note qi = q [unfolded queue_inv_def]
  have len: "length (process_table st) = 32" and en: "scheduler_enabled st" using qi by auto
  define s1 where "s1 = update_process p (\<lambda>b. b\<lparr>process_state := PROCESS_STATE_READY, next_process := None\<rparr>) st"
  define s2 where "s2 = (if qs = [] then s1 else update_process (last qs) (\<lambda>b. b\<lparr>next_process := Some p\<rparr>) s1)"
  have l1: "length (process_table s1) = 32" "length (process_table s2) = 32" by (simp_all add: s1_def s2_def len)
  have last32: "qs \<noteq> [] \<Longrightarrow> last qs < 32" "qs \<noteq> [] \<Longrightarrow> last qs \<noteq> p" using qi p(2) by (auto dest: last_in_set)
  have pr1: "proc s1 x = (if x = p then (proc st p)\<lparr>process_state := PROCESS_STATE_READY, next_process := None\<rparr> else proc st x)"
    if "x < 32" for x using that by (simp add: s1_def len)
  have pr2: "proc s2 x = (if qs \<noteq> [] \<and> x = last qs then (proc st x)\<lparr>next_process := Some p\<rparr> else proc s1 x)"
    if "x < 32" for x using that l1 last32 pr1 by (auto simp: s2_def)
  have rq: "proc st' = proc s2" "process_table st' = process_table s2" "scheduler_enabled st' = scheduler_enabled st"
    "current_process st' = current_process st"
    "ready_queue st' = \<lparr>head = (case qs @ [p] of [] \<Rightarrow> None | q # _ \<Rightarrow> Some q), tail = Some p, count = of_nat (length qs) + 1\<rparr>"
    using qi by (cases qs; simp add: st' scheduler_add_process_def en Let_def s1_def s2_def proc_def fun_eq_iff; fail)+
  show "current_process st' = current_process st" by (rule rq)
  have sub: "x \<in> set qs \<Longrightarrow> x < 32" for x using qi by auto
  have lk: "link s2 x = (if qs \<noteq> [] then (link st)(last qs := Some p, p := None) else (link st)(p := None)) x"
    if "x < 32" for x using that pr1 pr2 last32 by (auto simp: link_def)
  have ch: "chained (link s2) (qs @ [p])"
  proof (cases "qs = []")
    case True
    then show ?thesis using lk [OF p(1)] by simp
  next
    case False
    have "chained ((link st)(last qs := Some p, p := None)) (qs @ [p])"
      by (rule chained_snoc) (use qi p False in auto)
    then show ?thesis using lk False sub p by (subst chained_cong [where nx' = "(link st)(last qs := Some p, p := None)"]) auto
  qed
  have "\<forall>x \<in> set (qs @ [p]). process_state (proc s2 x) = PROCESS_STATE_READY"
    using qi p pr1 pr2 sub by auto
  then show "queue_inv st' (qs @ [p])"
    using qi p ch l1 en by (simp add: queue_inv_def rq(1,2,3,5) link_def [abs_def])
  show "\<exists>nx. proc st' x
      = (if x = p then (proc st p)\<lparr>process_state := PROCESS_STATE_READY, next_process := nx\<rparr>
         else (proc st x)\<lparr>next_process := nx\<rparr>)" if "x < 32"
  proof -
    consider "qs \<noteq> []" "x = last qs" "x \<noteq> p" | "x = p" "\<not> (qs \<noteq> [] \<and> x = last qs)"
      | "x \<noteq> p" "\<not> (qs \<noteq> [] \<and> x = last qs)" using last32(2) by blast
    then show ?thesis
    proof cases
      case 1
      then show ?thesis unfolding rq(1) pr2 [OF that] by (intro exI [of _ "Some p"]) simp
    next
      case 2
      then show ?thesis unfolding rq(1) pr2 [OF that] pr1 [OF that] by (intro exI [of _ None]) auto
    next
      case 3
      then show ?thesis
        unfolding rq(1) pr2 [OF that] pr1 [OF that]
        by (cases "qs = []") (intro exI [of _ "next_process (proc st x)"]; simp)+
    qed
  qed
qed

text \<open>Taking the head.\<close>

lemma get_next_spec:
  assumes q: "queue_inv st (n # qs)"
  obtains st' where "get_next_process st = (Some n, st')" "queue_inv st' qs" "current_process st' = current_process st"
    "\<And>x. x < 32 \<Longrightarrow> proc st' x = (if x = n then (proc st n)\<lparr>next_process := None\<rparr> else proc st x)"
    "sched_stats st' = sched_stats st"
proof -
  note qi = q [unfolded queue_inv_def]
  define st' where "st' = snd (get_next_process st)"
  have c: "(of_nat (length (n # qs)) :: u32) \<noteq> 0"
    using queue_inv_length [OF q] by (intro notI) (simp only: of_nat_u32_eq_0 [of "length (n # qs)"], simp)
  have nx: "next_process (proc st n) = (case qs of [] \<Rightarrow> None | q # _ \<Rightarrow> Some q)"
    using chained_tl [of "link st" n qs] qi by (simp add: link_def)
  have run: "get_next_process st = (Some n, st')"
    using qi c by (simp add: get_next_process_def st'_def Let_def)
  have rq: "ready_queue st' = \<lparr>head = (case qs of [] \<Rightarrow> None | q # _ \<Rightarrow> Some q),
      tail = (if qs = [] then None else Some (last qs)), count = of_nat (length qs)\<rparr>"
    "scheduler_enabled st' = scheduler_enabled st" "current_process st' = current_process st"
    "sched_stats st' = sched_stats st" "length (process_table st') = 32"
    using qi c nx by (cases qs; simp add: st'_def get_next_process_def Let_def; fail)+
  have pr: "proc st' x = (if x = n then (proc st n)\<lparr>next_process := None\<rparr> else proc st x)" if "x < 32" for x
    using that qi c by (simp add: st'_def get_next_process_def Let_def)
  have sub: "x \<in> set qs \<Longrightarrow> x < 32 \<and> x \<noteq> n" for x using qi by auto
  have "chained (link st') qs = chained (link st) qs"
    by (rule chained_cong) (use pr sub in \<open>simp add: link_def\<close>)
  then have "queue_inv st' qs"
    using qi rq pr sub chained_tl [of "link st" n qs] by (auto simp: queue_inv_def)
  then show thesis using that run rq pr by blast
qed

lemma get_next_empty: "queue_inv st [] \<Longrightarrow> get_next_process st = (None, st)"
  by (simp add: queue_inv_def get_next_process_def)

section \<open>The switch\<close>

text \<open>What a process keeps when it is switched or queued.\<close>

definition same_entry :: "process \<Rightarrow> process \<Rightarrow> bool" where
  "same_entry b b' \<longleftrightarrow> pid b' = pid b \<and> time_slice b' = time_slice b \<and> page_directory b' = page_directory b
     \<and> kernel_stack b' = kernel_stack b \<and> user_stack b' = user_stack b \<and> process_name b' = process_name b
     \<and> current_directory b' = current_directory b \<and> total_time b' = total_time b"

lemma same_entry_refl [simp]: "same_entry b b" by (simp add: same_entry_def)

lemma same_entry_trans: "same_entry a b \<Longrightarrow> same_entry b c \<Longrightarrow> same_entry a c" by (simp add: same_entry_def)

lemma requeue_spec:
  assumes q: "queue_inv st qs" and c: "\<And>c. current_process st = Some c \<Longrightarrow> c < 32 \<and> c \<notin> set qs"
    and st': "st' = requeue_current st"
  shows "queue_inv st' (qs @ (case running_of st of None \<Rightarrow> [] | Some c \<Rightarrow> [c]))"
    and "x < 32 \<Longrightarrow> same_entry (proc st x) (proc st' x)" and "x < 32 \<Longrightarrow> running_of st \<noteq> Some x \<Longrightarrow> process_state (proc st' x) = process_state (proc st x)"
proof -
  have len: "length (process_table st) = 32" using q by (simp add: queue_inv_def)
  have "queue_inv st' (qs @ (case running_of st of None \<Rightarrow> [] | Some c \<Rightarrow> [c]))
    \<and> (\<forall>x < 32. same_entry (proc st x) (proc st' x) \<and> (running_of st \<noteq> Some x \<longrightarrow> process_state (proc st' x) = process_state (proc st x)))"
  proof (cases "running_of st")
    case None
    then have "st' = st" by (auto simp: st' requeue_current_def running_of_def split: option.splits if_splits)
    then show ?thesis using q None by simp
  next
    case (Some c)
    then have cur: "current_process st = Some c" "process_state (proc st c) = PROCESS_STATE_RUNNING"
      by (auto simp: running_of_def split: option.splits if_splits)
    define s1 where "s1 = update_process c (\<lambda>b. b\<lparr>process_state := PROCESS_STATE_READY\<rparr>) (save_context c st)"
    have c32: "c < 32" "c \<notin> set qs" using assms(2) [OF cur(1)] by simp_all
    have pr: "x < 32 \<Longrightarrow> x \<noteq> c \<Longrightarrow> proc s1 x = proc st x" "same_entry (proc st c) (proc s1 c)"
      "process_state (proc s1 c) = PROCESS_STATE_READY" for x
      using c32 len by (simp_all add: s1_def save_context_def same_entry_def)
    have run: "st' = scheduler_add_process (Some c) s1"
      using cur c32 len by (simp add: st' requeue_current_def Let_def s1_def save_context_def)
    have "queue_inv s1 qs"
    proof -
      have xs: "x < 32" "x \<noteq> c" if "x \<in> set qs" for x using that q c32(2) by (auto simp: queue_inv_def)
      then have "link s1 x = link st x" if "x \<in> set qs" for x using that pr(1) [of x] by (simp add: link_def)
      then have "chained (link s1) qs = chained (link st) qs" by (rule chained_cong)
      moreover have "process_state (proc s1 x) = PROCESS_STATE_READY" if "x \<in> set qs" for x
        using that q pr(1) [OF xs] by (auto simp: queue_inv_def)
      ultimately show ?thesis using q by (simp add: queue_inv_def s1_def save_context_def)
    qed
    note ad = add_process_spec [OF this c32 run]
    have "same_entry (proc st x) (proc st' x) \<and> (x \<noteq> c \<longrightarrow> process_state (proc st' x) = process_state (proc st x))"
      if "x < 32" for x
    proof (cases "x = c")
      case True
      then show ?thesis using ad(3) [OF that] pr(2) by (auto simp: same_entry_def)
    next
      case False
      then show ?thesis using ad(3) [OF that] pr(1) [OF that] by (auto simp: same_entry_def)
    qed
    then show ?thesis using ad(1) Some by simp
  qed
  then show "queue_inv st' (qs @ (case running_of st of None \<Rightarrow> [] | Some c \<Rightarrow> [c]))"
    "x < 32 \<Longrightarrow> same_entry (proc st x) (proc st' x)" "x < 32 \<Longrightarrow> running_of st \<noteq> Some x \<Longrightarrow> process_state (proc st' x) = process_state (proc st x)"
    by auto
qed

lemma switch_fields [simp]:
  "process_table (vmm_switch_page_directory d st) = process_table st"
  "current_process (vmm_switch_page_directory d st) = current_process st"
  "ready_queue (vmm_switch_page_directory d st') = ready_queue st'"
  "scheduler_enabled (vmm_switch_page_directory d st') = scheduler_enabled st'"
  "proc (vmm_switch_page_directory d st) = proc st"
  by (simp_all add: vmm_switch_page_directory_def vmm_load_page_directory_def proc_def fun_eq_iff)

lemma schedule_spec:
  assumes ok: "sched_inv st (n # qs)" and st': "st' = scheduler_schedule st"
  shows "sched_inv st' (qs @ (case running_of st of None \<Rightarrow> [] | Some c \<Rightarrow> [c]))"
    and "running_of st' = Some n" and "current_process st' = Some n" and "time_used (proc st' n) = 0"
    and "x < 32 \<Longrightarrow> same_entry (proc st x) (proc st' x)"
proof -
  have q: "queue_inv st (n # qs)" and cur: "\<And>c. current_process st = Some c \<Longrightarrow> c < 32 \<and> c \<notin> set (n # qs)"
    using ok by (auto simp: sched_inv_def)
  have n: "n < 32" "n \<notin> set qs" using q by (auto simp: queue_inv_def)
  obtain s1 where s1: "get_next_process st = (Some n, s1)" "queue_inv s1 qs" "current_process s1 = current_process st"
    "\<And>x. x < 32 \<Longrightarrow> proc s1 x = (if x = n then (proc st n)\<lparr>next_process := None\<rparr> else proc st x)"
    by (rule get_next_spec [OF q]) (rule that)
  have run1: "running_of s1 = running_of st"
    using cur s1(4) by (auto simp: running_of_def s1(3) split: option.split)
  define s2 where "s2 = requeue_current s1"
  note rq = requeue_spec [OF s1(2) _ s2_def]
  have c1: "\<And>c. current_process s1 = Some c \<Longrightarrow> c < 32 \<and> c \<notin> set qs" using cur s1(3) by simp
  note rq = rq [OF c1, simplified run1]
  define r where "r = (case running_of st of None \<Rightarrow> [] | Some c \<Rightarrow> [c])"
  have nr: "n \<notin> set (qs @ r)"
    using n(2) cur by (auto simp: r_def running_of_def split: option.splits if_splits)
  define s3 where "s3 = update_process n (\<lambda>b. b\<lparr>process_state := PROCESS_STATE_RUNNING, time_used := 0\<rparr>) (s2\<lparr>current_process := Some n\<rparr>)"
  define s4 where "s4 = load_context n (s3\<lparr>sched_stats := (sched_stats s3)\<lparr>context_switches := context_switches (sched_stats s3) + 1,
                     running_processes := count (ready_queue s3) + 1\<rparr>\<rparr>)"
  have len2: "length (process_table s2) = 32" "scheduler_enabled st" using rq(1) q by (auto simp: queue_inv_def)
  have fields: "process_table st' = process_table s4" "current_process st' = current_process s4" "ready_queue st' = ready_queue s4"
    "scheduler_enabled st' = scheduler_enabled s4"
    using len2 s1(1)
    by (simp_all add: st' scheduler_schedule_def Let_def s2_def [symmetric] s3_def [symmetric] s4_def [symmetric])
  have pf: "proc st' = proc s4" by (simp add: proc_def fun_eq_iff fields(1))
  have p4: "proc s4 x = (if x = n then (proc s2 n)\<lparr>process_state := PROCESS_STATE_RUNNING, time_used := 0\<rparr> else proc s2 x)"
    if "x < 32" for x using that n(1) len2 by (simp add: s4_def s3_def load_context_def)
  have q2: "queue_inv s2 (qs @ r)" using rq(1) by (simp add: r_def)
  have r4: "ready_queue s4 = ready_queue s2" "scheduler_enabled s4 = scheduler_enabled s2" "current_process s4 = Some n"
    "length (process_table s4) = 32" using len2 by (simp_all add: s4_def s3_def load_context_def)
  have lt: "x < 32" if "x \<in> set (qs @ r)" for x using that q2 by (auto simp: queue_inv_def)
  have "link s4 x = link s2 x" if "x \<in> set (qs @ r)" for x using that lt nr p4 by (auto simp: link_def)
  then have "chained (link s4) (qs @ r) = chained (link s2) (qs @ r)" by (rule chained_cong)
  moreover have "process_state (proc s4 x) = PROCESS_STATE_READY" if "x \<in> set (qs @ r)" for x
    using that lt nr p4 q2 by (auto simp: queue_inv_def)
  ultimately have "queue_inv s4 (qs @ r)" using q2 r4 by (simp add: queue_inv_def)
  then have q': "queue_inv st' (qs @ r)" by (rule queue_inv_cong) (simp_all add: fields)
  have ps: "process_state (proc st' n) = PROCESS_STATE_RUNNING" using p4 [OF n(1)] by (simp add: pf)
  show c': "current_process st' = Some n" using fields(2) r4(3) by simp
  show "running_of st' = Some n" by (simp add: running_of_def c' ps)
  show "time_used (proc st' n) = 0" using p4 [OF n(1)] by (simp add: pf)
  show "sched_inv st' (qs @ (case running_of st of None \<Rightarrow> [] | Some c \<Rightarrow> [c]))"
    using q' nr n(1) c' ps by (simp add: sched_inv_def r_def)
  show "x < 32 \<Longrightarrow> same_entry (proc st x) (proc st' x)"
    using rq(2) [of x] s1(4) [of x] p4 [of x] by (cases "x = n") (auto simp: same_entry_def pf)
qed

lemma schedule_idle:
  assumes ok: "sched_inv st []" and st': "st' = scheduler_schedule st"
  shows "sched_inv st' []" "running_of st' = running_of st" "current_process st' = current_process st"
    "proc st' = proc st"
proof -
  have q: "queue_inv st []" using ok by (simp add: sched_inv_def)
  have en: "scheduler_enabled st" using q by (simp add: queue_inv_def)
  define s where "s = (if (case current_process st of Some c \<Rightarrow> process_state (proc st c) = PROCESS_STATE_RUNNING | None \<Rightarrow> False)
    then sched_stats st else (sched_stats st)\<lparr>idle_time := idle_time (sched_stats st) + 1\<rparr>)"
  have st'': "st' = st\<lparr>sched_stats := s\<rparr>"
    using en get_next_empty [OF q] by (simp add: st' scheduler_schedule_def s_def)
  have "queue_inv st' []" by (rule queue_inv_cong [OF q]) (simp_all add: st'')
  then show "sched_inv st' []" "running_of st' = running_of st" "current_process st' = current_process st"
    "proc st' = proc st" using ok by (simp_all add: sched_inv_def running_of_def st'' split: option.split)
qed

section \<open>Round robin\<close>

lemma schedule_rr:
  assumes "sched_ok st"
  shows "sched_ok (scheduler_schedule st)
    \<and> (running_of (scheduler_schedule st), queue_of (scheduler_schedule st)) = rr (running_of st, queue_of st)"
proof (cases "queue_of st")
  case Nil
  then have "sched_inv st []" using assms by (simp add: sched_ok_def)
  note idle = schedule_idle [OF this refl]
  show ?thesis using sched_okI [OF idle(1)] idle(2) Nil by simp
next
  case (Cons n qs)
  then have "sched_inv st (n # qs)" using assms by (simp add: sched_ok_def)
  note sw = schedule_spec [OF this refl]
  show ?thesis using sched_okI [OF sw(1)] sw(2) Cons by simp
qed

interpretation ready: round_robin scheduler_schedule running_of queue_of sched_ok
  by unfold_locales (use schedule_rr in auto)

text \<open>C9: Refinement: on every state that meets the invariant \<open>scheduler_schedule\<close> keeps it and does what round robin
  does with the list of ready processes: the head runs next, the process that ran goes to the end.\<close>

theorem scheduler_refines_round_robin:
  assumes "sched_ok st"
  shows "sched_ok (scheduler_schedule st)
    \<and> (running_of (scheduler_schedule st), queue_of (scheduler_schedule st)) = rr (running_of st, queue_of st)"
  using ready.step_inv [OF assms] ready.step_rr [OF assms] by simp

text \<open>C28: No starvation: the process at position \<open>j\<close> of the ready queue runs after \<open>j + 1\<close> switches, and after one
  full round the running process and the queue are what they were.\<close>

theorem scheduler_no_starvation:
  assumes "sched_ok st" and "running_of st = Some c"
  shows "(\<forall>j < length (queue_of st). running_of ((scheduler_schedule ^^ Suc j) st) = Some (queue_of st ! j))
    \<and> running_of ((scheduler_schedule ^^ Suc (length (queue_of st))) st) = Some c
    \<and> queue_of ((scheduler_schedule ^^ Suc (length (queue_of st))) st) = queue_of st"
  using ready.runs_in_turn [OF assms(2,1)] ready.full_round [OF assms(2,1)] by blast

subsection \<open>Time slices\<close>

text \<open>A tick charges the running process; when its slice is used up, the tick goes on with a switch.\<close>

definition charge :: "nat \<Rightarrow> 'a scheduler_scheme \<Rightarrow> 'a scheduler_scheme" where
  "charge c st = update_process c (\<lambda>b. b\<lparr>time_used := time_used b + 1, total_time := total_time b + 1\<rparr>)
    (st\<lparr>sched_stats := (sched_stats st)\<lparr>time_slices := time_slices (sched_stats st) + 1\<rparr>\<rparr>)"

lemma charge_spec:
  assumes ok: "sched_inv st qs" and c: "current_process st = Some c"
  shows "sched_inv (charge c st) qs" "current_process (charge c st) = Some c" "running_of (charge c st) = running_of st"
    "time_used (proc (charge c st) c) = time_used (proc st c) + 1" "time_slice (proc (charge c st) c) = time_slice (proc st c)"
    "scheduler_tick st = (if time_slice (proc st c) \<le> time_used (proc st c) + 1 then scheduler_schedule (charge c st) else charge c st)"
proof -
  have qi: "queue_inv st qs" and c32: "c < 32" "c \<notin> set qs" "process_state (proc st c) \<noteq> 0"
    using ok c by (auto simp: sched_inv_def)
  have en: "scheduler_enabled st" and len: "length (process_table st) = 32" using qi by (auto simp: queue_inv_def)
  have pr: "proc (charge c st) x
      = (if x = c then (proc st c)\<lparr>time_used := time_used (proc st c) + 1, total_time := total_time (proc st c) + 1\<rparr>
         else proc st x)" if "x < 32" for x using that len by (simp add: charge_def)
  have xs: "x < 32 \<and> x \<noteq> c" if "x \<in> set qs" for x using that qi c32(2) by (auto simp: queue_inv_def)
  then have "link (charge c st) x = link st x" if "x \<in> set qs" for x using that pr [of x] by (simp add: link_def)
  then have "chained (link (charge c st)) qs = chained (link st) qs" by (rule chained_cong)
  moreover have "process_state (proc (charge c st) x) = PROCESS_STATE_READY" if "x \<in> set qs" for x
    using that xs pr [of x] qi by (simp add: queue_inv_def)
  ultimately have "queue_inv (charge c st) qs" using qi by (simp add: queue_inv_def charge_def)
  then show "sched_inv (charge c st) qs" using c c32 pr [OF c32(1)] unfolding sched_inv_def by (simp add: charge_def)
  show c': "current_process (charge c st) = Some c" using c by (simp add: charge_def)
  show "running_of (charge c st) = running_of st" using c c' pr [OF c32(1)] by (simp add: running_of_def)
  show "time_used (proc (charge c st) c) = time_used (proc st c) + 1" "time_slice (proc (charge c st) c) = time_slice (proc st c)"
    using pr [OF c32(1)] by simp_all
  show "scheduler_tick st = (if time_slice (proc st c) \<le> time_used (proc st c) + 1 then scheduler_schedule (charge c st) else charge c st)"
    using en c c32 len by (simp add: scheduler_tick_def Let_def charge_def scheduler_yield_def)
qed

lemma tick_cases:
  assumes ok: "sched_inv st qs" and c: "current_process st = Some c" and u: "unat (time_used (proc st c)) < unat (time_slice (proc st c))"
  shows "scheduler_tick st = (if unat (time_used (proc st c)) + 1 = unat (time_slice (proc st c))
      then scheduler_schedule (charge c st) else charge c st)"
    and "unat (time_used (proc (charge c st) c)) = unat (time_used (proc st c)) + 1"
proof -
  note ch = charge_spec [OF ok c]
  have s: "unat (time_used (proc st c) + 1) = unat (time_used (proc st c)) + 1"
    using u unat_add_u32 [of "time_used (proc st c)" 1] unat_u32_bound [of "time_slice (proc st c)"] by simp
  then show "unat (time_used (proc (charge c st) c)) = unat (time_used (proc st c)) + 1" by (simp add: ch(4))
  show "scheduler_tick st = (if unat (time_used (proc st c)) + 1 = unat (time_slice (proc st c))
      then scheduler_schedule (charge c st) else charge c st)"
    using u s by (simp add: ch(6) word_le_nat_alt)
qed

text \<open>Time slices: a running process that has used \<open>u\<close> of its slice of \<open>s\<close> ticks stays the running process for
  the next \<open>s - u - 1\<close> ticks, with the ready queue unchanged, and the tick after those makes the round robin switch.\<close>

theorem scheduler_time_slice:
  assumes "sched_ok st" and "running_of st = Some c"
    and "u = unat (time_used (proc st c))" and "s = unat (time_slice (proc st c))" and "u < s"
  shows "(\<forall>k < s - u. running_of ((scheduler_tick ^^ k) st) = Some c \<and> queue_of ((scheduler_tick ^^ k) st) = queue_of st)
    \<and> (running_of ((scheduler_tick ^^ (s - u)) st), queue_of ((scheduler_tick ^^ (s - u)) st))
      = rr (Some c, queue_of st)
    \<and> sched_ok ((scheduler_tick ^^ (s - u)) st)"
proof -
  have cur: "current_process st = Some c"
    using assms(2) by (auto simp: running_of_def split: option.splits if_splits)
  have step: "sched_inv ((scheduler_tick ^^ k) st) (queue_of st) \<and> current_process ((scheduler_tick ^^ k) st) = Some c
    \<and> running_of ((scheduler_tick ^^ k) st) = Some c \<and> unat (time_used (proc ((scheduler_tick ^^ k) st) c)) = u + k
    \<and> unat (time_slice (proc ((scheduler_tick ^^ k) st) c)) = s" if "k < s - u" for k
    using that
  proof (induction k)
    case 0
    then show ?case using assms cur by (simp add: sched_ok_def)
  next
    case (Suc k)
    define t where "t = (scheduler_tick ^^ k) st"
    have t: "sched_inv t (queue_of st)" "current_process t = Some c" "running_of t = Some c"
      "unat (time_used (proc t c)) = u + k" "unat (time_slice (proc t c)) = s" using Suc by (simp_all add: t_def)
    have "unat (time_used (proc t c)) < unat (time_slice (proc t c))" using t Suc.prems by simp
    note tc = tick_cases [OF t(1,2) this]
    have "scheduler_tick t = charge c t" using tc(1) t(4,5) Suc.prems by simp
    then have "(scheduler_tick ^^ Suc k) st = charge c t" by (simp add: t_def)
    then show ?case using charge_spec(1,2,3,5) [OF t(1,2)] tc(2) t(3,4,5) by simp
  qed
  define t where "t = (scheduler_tick ^^ (s - u - 1)) st"
  have t: "sched_inv t (queue_of st)" "current_process t = Some c" "running_of t = Some c"
    "unat (time_used (proc t c)) = s - 1" "unat (time_slice (proc t c)) = s"
    using step [of "s - u - 1"] assms(5) by (simp_all add: t_def)
  have "scheduler_tick t = scheduler_schedule (charge c t)" using tick_cases(1) [OF t(1,2)] t(4,5) assms(5) by simp
  moreover have "(scheduler_tick ^^ (s - u)) st = scheduler_tick t"
  proof -
    have "s - u = Suc (s - u - 1)" using assms(5) by simp
    then show ?thesis unfolding t_def by (metis comp_apply funpow.simps(2))
  qed
  ultimately have last: "(scheduler_tick ^^ (s - u)) st = scheduler_schedule (charge c t)" by simp
  note ch = charge_spec [OF t(1,2)]
  have "sched_ok (charge c t)" "queue_of (charge c t) = queue_of st" using sched_okI [OF ch(1)] by simp_all
  moreover have "running_of ((scheduler_tick ^^ k) st) = Some c \<and> queue_of ((scheduler_tick ^^ k) st) = queue_of st"
    if "k < s - u" for k using step [OF that] sched_okI by blast
  ultimately show ?thesis unfolding last using schedule_rr [of "charge c t"] ch(3) t(3) by simp
qed

section \<open>Removal\<close>

lemma chained_append: "chained nx (ps @ qs) \<Longrightarrow> chained nx qs"
  by (induction ps) (auto dest: chained_tl)

lemma queue_count: "queue_inv st qs \<Longrightarrow> count (ready_queue st) = 0 \<longleftrightarrow> qs = []"
  using queue_inv_length [of st qs] by (simp add: queue_inv_def of_nat_u32_eq_0)

lemma remove_loop_absent:
  "chained (link st) (qs @ rs) \<Longrightarrow> p \<notin> set rs \<Longrightarrow>
    remove_loop p (if qs = [] then None else Some (last qs)) (case rs of [] \<Rightarrow> None | r # _ \<Rightarrow> Some r) st = Some st"
proof (induction rs arbitrary: qs)
  case Nil
  then show ?case by (simp add: remove_loop.simps)
next
  case (Cons r rs)
  have "link st r = (case rs of [] \<Rightarrow> None | q # _ \<Rightarrow> Some q)"
    using chained_tl [OF chained_append [OF Cons.prems(1)]] by simp
  then have nx: "next_process (proc st r) = (case rs of [] \<Rightarrow> None | q # _ \<Rightarrow> Some q)" by (simp add: link_def)
  have "remove_loop p (if qs = [] then None else Some (last qs)) (Some r) st
      = remove_loop p (Some r) (next_process (proc st r)) st"
    using Cons.prems(2) by (subst remove_loop.simps) simp
  also have "\<dots> = Some st" using Cons.IH [of "qs @ [r]"] Cons.prems by (simp add: nx)
  finally show ?case by simp
qed

lemma remove_loop_finds:
  "chained (link st) (ps @ p # qs) \<Longrightarrow> p \<notin> set (drop n ps) \<Longrightarrow> n \<le> length ps \<Longrightarrow>
    remove_loop p (if n = 0 then None else Some (ps ! (n - 1))) (Some ((ps @ [p]) ! n)) st
      = Some (unlink p (if ps = [] then None else Some (last ps)) st)"
proof (induction "length ps - n" arbitrary: n)
  case 0
  then show ?case by (subst remove_loop.simps) (auto simp: last_conv_nth nth_append)
next
  case (Suc k)
  then have n: "n < length ps" by simp
  then have ne: "ps ! n \<noteq> p" using Suc.prems(2) by (metis Cons_nth_drop_Suc list.set_intros(1))
  have "chained (link st) (drop n ps @ p # qs)"
    using Suc.prems(1) chained_append [of "link st" "take n ps" "drop n ps @ p # qs"] by (simp flip: append_assoc)
  then have nx: "next_process (proc st (ps ! n)) = Some ((ps @ [p]) ! Suc n)"
    using chained_tl [of "link st" "ps ! n" "drop (Suc n) ps @ p # qs"] n
    by (cases "Suc n = length ps") (simp_all add: link_def Cons_nth_drop_Suc [symmetric] nth_append)
  have "remove_loop p (if n = 0 then None else Some (ps ! (n - 1))) (Some ((ps @ [p]) ! n)) st
      = remove_loop p (Some (ps ! n)) (Some ((ps @ [p]) ! Suc n)) st"
    using n ne nx by (subst remove_loop.simps) (simp add: nth_append)
  also have "\<dots> = Some (unlink p (if ps = [] then None else Some (last ps)) st)"
    using Suc.hyps(1) [of "Suc n"] Suc.hyps(2) Suc.prems n by (simp add: Cons_nth_drop_Suc [symmetric])
  finally show ?case .
qed

lemma unlink_spec:
  assumes q: "queue_inv st (ps @ p # qs)" and st': "st' = unlink p (if ps = [] then None else Some (last ps)) st"
  shows "queue_inv st' (ps @ qs)" and "current_process st' = current_process st"
    and "x < 32 \<Longrightarrow> process_state (proc st' x) = process_state (proc st x) \<and> same_entry (proc st x) (proc st' x)"
proof -
  note qi = q [unfolded queue_inv_def]
  have len: "length (process_table st) = 32" and p: "p < 32" using qi by auto
  have lt: "x < 32 \<and> x \<noteq> p" if "x \<in> set (ps @ qs)" for x using that qi by auto
  have lp: "ps \<noteq> [] \<Longrightarrow> last ps < 32 \<and> last ps \<noteq> p" using lt [of "last ps"] by simp
  have pr: "proc st' x = (if x = p then (proc st p)\<lparr>next_process := None\<rparr>
      else if ps \<noteq> [] \<and> x = last ps then (proc st x)\<lparr>next_process := next_process (proc st p)\<rparr> else proc st x)" if "x < 32" for x
    using that len p lp by (auto simp: st' unlink_def Let_def)
  show "x < 32 \<Longrightarrow> process_state (proc st' x) = process_state (proc st x) \<and> same_entry (proc st x) (proc st' x)"
    using pr [of x] by (simp add: same_entry_def)
  show "current_process st' = current_process st" by (simp add: st' unlink_def Let_def)
  have nx: "next_process (proc st p) = (case qs of [] \<Rightarrow> None | q # _ \<Rightarrow> Some q)"
    using chained_tl [of "link st" p qs] chained_append [of "link st" ps "p # qs"] qi by (simp add: link_def)
  have l32: "length (ps @ p # qs) \<le> 32" by (rule queue_inv_length [OF q])
  have rq: "head (ready_queue st') = (case ps @ qs of [] \<Rightarrow> None | q # _ \<Rightarrow> Some q)"
    "tail (ready_queue st') = (if ps @ qs = [] then None else Some (last (ps @ qs)))"
    "count (ready_queue st') = of_nat (length (ps @ qs))" "length (process_table st') = 32"
    "scheduler_enabled st'"
    using qi nx lt by (cases ps; cases qs rule: rev_cases; simp add: st' unlink_def Let_def; fail)+
  have "chained (if ps = [] then link st else (link st)(last ps := link st p)) (ps @ qs)"
    by (rule chained_remove) (use qi in auto)
  moreover have "link st' x = (if ps = [] then link st else (link st)(last ps := link st p)) x" if "x \<in> set (ps @ qs)" for x
    using pr [of x] lt [OF that] by (auto simp: link_def)
  ultimately have "chained (link st') (ps @ qs)" by (subst chained_cong) auto
  moreover have "\<forall>x \<in> set (ps @ qs). process_state (proc st' x) = PROCESS_STATE_READY"
  proof
    fix x assume "x \<in> set (ps @ qs)"
    then show "process_state (proc st' x) = PROCESS_STATE_READY" using pr [of x] lt [of x] qi by auto
  qed
  ultimately show "queue_inv st' (ps @ qs)" using rq qi by (simp add: queue_inv_def)
qed

lemma remove_spec:
  assumes "sched_ok st"
  shows "\<exists>st'. scheduler_remove_process (Some p) st = Some st' \<and> sched_ok st' \<and> queue_of st' = remove1 p (queue_of st)
    \<and> running_of st' = running_of st"
proof -
  define qs where "qs = queue_of st"
  have ok: "sched_inv st qs" using assms by (simp add: sched_ok_def qs_def)
  then have q: "queue_inv st qs" by (simp add: sched_inv_def)
  note qi = q [unfolded queue_inv_def]
  show ?thesis
  proof (cases "p \<in> set qs")
    case False
    then have "remove_loop p None (head (ready_queue st)) st = Some st"
      using remove_loop_absent [of st "[]" qs p] qi by simp
    then have "scheduler_remove_process (Some p) st = Some st" by (simp add: scheduler_remove_process_def)
    then show ?thesis using assms False by (simp add: remove1_idem qs_def)
  next
    case True
    then obtain ps rs where qs: "qs = ps @ p # rs" "p \<notin> set ps" by (metis split_list_first)
    define st' where "st' = unlink p (if ps = [] then None else Some (last ps)) st"
    have "head (ready_queue st) = Some ((ps @ [p]) ! 0)" using qi qs by (cases ps) auto
    then have "remove_loop p None (head (ready_queue st)) st = Some st'"
      using remove_loop_finds [of st ps p rs 0] qi qs by (simp add: st'_def)
    moreover have "count (ready_queue st) \<noteq> 0" using queue_count [OF q] qs by simp
    ultimately have run: "scheduler_remove_process (Some p) st = Some st'"
      using qi by (simp add: scheduler_remove_process_def)
    note un = unlink_spec [OF q [unfolded qs(1)] st'_def]
    have "sched_inv st' (ps @ rs)" using ok un qs by (auto simp: sched_inv_def)
    moreover have "running_of st' = running_of st"
      using ok un(2,3) by (auto simp: running_of_def sched_inv_def split: option.split)
    ultimately show ?thesis using run sched_okI [of st' "ps @ rs"] qs by (simp add: qs_def [symmetric] remove1_append)
  qed
qed

text \<open>Removing a process from the ready queue returns, takes exactly that process out, keeps the order of the
  others and the running process; removing a process that is not queued changes nothing.\<close>

theorem scheduler_remove_correct:
  assumes "sched_ok st"
  shows "\<exists>st'. scheduler_remove_process (Some p) st = Some st' \<and> sched_ok st' \<and> queue_of st' = remove1 p (queue_of st)
    \<and> running_of st' = running_of st"
  by (rule remove_spec [OF assms])

end
