(* ===== verification/ProcessProps.thy ===== *)
theory ProcessProps
  imports SchedulerProps
begin

text \<open>
  Processes and the scheduler together: what \<open>process_create\<close> builds and what it leaves behind
  when memory runs out, the sequence of process identifiers, the reachable states of the
  scheduler, and the damage done by destroying a process that is still queued.
\<close>

unbundle bit_operations_syntax

section \<open>A concrete kernel\<close>

definition kernel_boot :: scheduler where
  "kernel_boot = scheduler_init (process_init (cleared 0x100000 (pmm_init
     \<lparr>mem = (\<lambda>_. 0), bitmap = 0, bitmap_size = 0, total_frames = 0, free_frames = 0, first_free_frame = 0,
      current_page_directory = 0x100000, kernel_page_directory = 0x100000, cr3 = 0, paging_enabled = False, tlb_flushes = 0,
      process_table = [], current_process = None, next_pid = 1, multitasking_enabled = False, timer_ticks = 0,
      ready_queue = \<lparr>head = None, tail = None, count = 0\<rparr>,
      sched_stats = \<lparr>total_processes = 0, running_processes = 0, context_switches = 0, time_slices = 0, idle_time = 0\<rparr>,
      scheduler_enabled = False\<rparr>)))"

lemma init_sched_inv: "sched_inv (scheduler_init (process_init st)) []"
  by (simp add: sched_inv_def queue_inv_def scheduler_init_def process_init_def Let_def update_process_def MAX_PROCESSES_def
      proc_def)

lemma init_running: "running_of (scheduler_init (process_init st)) = Some 0"
  "time_slice (proc (scheduler_init (process_init st)) 0) = 100" "time_used (proc (scheduler_init (process_init st)) 0) = 0"
  by (simp_all add: running_of_def scheduler_init_def process_init_def Let_def update_process_def MAX_PROCESSES_def proc_def
      zero_process_def numeral_eq_Suc)

text \<open>Two more processes in the queue.\<close>

lemma add_sched_inv:
  assumes "sched_inv st qs" and "p < 32" "p \<notin> set qs" "current_process st \<noteq> Some p"
  shows "sched_inv (scheduler_add_process (Some p) st) (qs @ [p])"
    and "running_of (scheduler_add_process (Some p) st) = running_of st"
    and "x < 32 \<Longrightarrow> same_entry (proc st x) (proc (scheduler_add_process (Some p) st) x)
      \<and> time_used (proc (scheduler_add_process (Some p) st) x) = time_used (proc st x)"
proof -
  have q: "queue_inv st qs" using assms(1) by (simp add: sched_inv_def)
  note ad = add_process_spec [OF q assms(2,3) refl]
  have st: "process_state (proc (scheduler_add_process (Some p) st) x) = process_state (proc st x)" if "x < 32" "x \<noteq> p" for x
    using ad(3) [OF that(1)] that(2) by auto
  show "sched_inv (scheduler_add_process (Some p) st) (qs @ [p])"
    using ad(1,2) st assms by (auto simp: sched_inv_def)
  show "running_of (scheduler_add_process (Some p) st) = running_of st"
    using ad(2) st assms by (auto simp: running_of_def sched_inv_def split: option.split)
  show "x < 32 \<Longrightarrow> same_entry (proc st x) (proc (scheduler_add_process (Some p) st) x)
      \<and> time_used (proc (scheduler_add_process (Some p) st) x) = time_used (proc st x)"
    using ad(3) [of x] by (auto simp: same_entry_def)
qed

definition sched_demo :: scheduler where
  "sched_demo = scheduler_add_process (Some 2) (scheduler_add_process (Some 1) kernel_boot)"

lemma sched_demo_facts:
  "sched_ok sched_demo" "queue_of sched_demo = [1, 2]" "running_of sched_demo = Some 0"
  "time_slice (proc sched_demo 0) = 100" "time_used (proc sched_demo 0) = 0"
proof -
  have b0: "sched_inv kernel_boot []" by (simp add: kernel_boot_def init_sched_inv)
  have c0: "current_process kernel_boot = Some 0"
    by (simp add: kernel_boot_def scheduler_init_def process_init_def Let_def)
  define s1 where "s1 = scheduler_add_process (Some 1) kernel_boot"
  have p1: "(1 :: nat) < 32" "1 \<notin> set ([] :: nat list)" "current_process kernel_boot \<noteq> Some 1" by (simp_all add: c0)
  note ad1 = add_sched_inv [OF b0 p1, folded s1_def]
  have c1: "current_process s1 = Some 0"
    using add_process_spec(2) [OF _ p1(1,2) s1_def] b0 c0 by (simp add: sched_inv_def)
  have i1: "sched_inv s1 [1]" using ad1(1) by simp
  have p2: "(2 :: nat) < 32" "2 \<notin> set [1 :: nat]" "current_process s1 \<noteq> Some 2" by (simp_all add: c1)
  note ad2 = add_sched_inv [OF i1 p2, folded s1_def sched_demo_def, unfolded s1_def, folded sched_demo_def]
  have a1: "running_of s1 = running_of kernel_boot"
    "same_entry (proc kernel_boot 0) (proc s1 0) \<and> time_used (proc s1 0) = time_used (proc kernel_boot 0)"
    by (rule ad1; simp)+
  have a2: "sched_inv sched_demo [1, 2]" "running_of sched_demo = running_of s1"
    "same_entry (proc s1 0) (proc sched_demo 0) \<and> time_used (proc sched_demo 0) = time_used (proc s1 0)"
    using ad2(1,2) ad2(3) [of 0] unfolding s1_def by simp_all
  show "sched_ok sched_demo" "queue_of sched_demo = [1, 2]" using sched_okI [OF a2(1)] by simp_all
  show "running_of sched_demo = Some 0" unfolding a2(2) a1(1) by (simp add: kernel_boot_def init_running)
  have k: "time_slice (proc kernel_boot 0) = 100" "time_used (proc kernel_boot 0) = 0"
    by (simp_all add: kernel_boot_def init_running)
  show "time_slice (proc sched_demo 0) = 100" "time_used (proc sched_demo 0) = 0"
    using a1(2) a2(3) k by (simp_all add: same_entry_def)
qed

lemma scheduler_refines_round_robin_witness:
  "running_of (scheduler_schedule sched_demo) = Some 1 \<and> queue_of (scheduler_schedule sched_demo) = [2, 0]"
  using scheduler_refines_round_robin [OF sched_demo_facts(1)] sched_demo_facts(2,3) by simp

lemma scheduler_no_starvation_witness:
  "running_of (scheduler_schedule (scheduler_schedule sched_demo)) = Some 2"
proof -
  have "1 < length (queue_of sched_demo)" by (simp add: sched_demo_facts)
  with scheduler_no_starvation [OF sched_demo_facts(1,3)]
  have "running_of ((scheduler_schedule ^^ Suc 1) sched_demo) = Some (queue_of sched_demo ! 1)" by blast
  then show ?thesis by (simp add: sched_demo_facts)
qed

lemma scheduler_time_slice_witness:
  "running_of ((scheduler_tick ^^ 99) sched_demo) = Some 0 \<and> running_of ((scheduler_tick ^^ 100) sched_demo) = Some 1"
  using scheduler_time_slice [OF sched_demo_facts(1,3) refl refl] sched_demo_facts by simp

lemma scheduler_remove_correct_witness:
  "\<exists>st'. scheduler_remove_process (Some 1) sched_demo = Some st' \<and> queue_of st' = [2]"
  using scheduler_remove_correct [OF sched_demo_facts(1), of 1] by (auto simp: sched_demo_facts)

section \<open>Creation\<close>

text \<open>The memory managers leave the process table and the scheduler alone.\<close>

lemma pmm_keeps [simp]:
  "process_table (snd (pmm_alloc_frame st)) = process_table st" "current_process (snd (pmm_alloc_frame st)) = current_process st"
  "next_pid (snd (pmm_alloc_frame st)) = next_pid st" "timer_ticks (snd (pmm_alloc_frame st)) = timer_ticks st"
  "ready_queue (snd (pmm_alloc_frame st')) = ready_queue st'" "scheduler_enabled (snd (pmm_alloc_frame st')) = scheduler_enabled st'"
  "process_table (pmm_free_frame a st) = process_table st" "current_process (pmm_free_frame a st) = current_process st"
  "next_pid (pmm_free_frame a st) = next_pid st"
  "ready_queue (pmm_free_frame a st') = ready_queue st'" "scheduler_enabled (pmm_free_frame a st') = scheduler_enabled st'"
  by (auto simp: pmm_alloc_frame_def pmm_free_frame_def set_frame_def clear_frame_def Let_def split: option.split)

lemma ensure_keeps [simp]:
  "process_table (snd (ensure_page_table d i f st)) = process_table st" "current_process (snd (ensure_page_table d i f st)) = current_process st"
  "next_pid (snd (ensure_page_table d i f st)) = next_pid st" "timer_ticks (snd (ensure_page_table d i f st)) = timer_ticks st"
  "ready_queue (snd (ensure_page_table d i f st')) = ready_queue st'"
  "scheduler_enabled (snd (ensure_page_table d i f st')) = scheduler_enabled st'"
  by (simp_all add: ensure_page_table_def split_beta Let_def)

lemma vmm_keeps [simp]:
  "process_table (vmm_map_page d v p f st) = process_table st" "current_process (vmm_map_page d v p f st) = current_process st"
  "next_pid (vmm_map_page d v p f st) = next_pid st" "timer_ticks (vmm_map_page d v p f st) = timer_ticks st"
  "ready_queue (vmm_map_page d v p f st') = ready_queue st'"
  "scheduler_enabled (vmm_map_page d v p f st') = scheduler_enabled st'"
  "process_table (snd (vmm_create_page_directory st)) = process_table st"
  "current_process (snd (vmm_create_page_directory st)) = current_process st"
  "next_pid (snd (vmm_create_page_directory st)) = next_pid st" "timer_ticks (snd (vmm_create_page_directory st)) = timer_ticks st"
  "ready_queue (snd (vmm_create_page_directory st')) = ready_queue st'"
  "scheduler_enabled (snd (vmm_create_page_directory st')) = scheduler_enabled st'"
  by (simp_all add: vmm_map_page_def vmm_create_page_directory_def vmm_flush_tlb_def split_beta Let_def)

text \<open>\<open>only i st st'\<close>: of the table and the scheduler at most the control block \<open>i\<close> has changed.\<close>

definition only :: "nat \<Rightarrow> 'a scheduler_scheme \<Rightarrow> 'a scheduler_scheme \<Rightarrow> bool" where
  "only i st st' \<longleftrightarrow> length (process_table st') = length (process_table st) \<and> (\<forall>x < length (process_table st). x \<noteq> i \<longrightarrow> proc st' x = proc st x)
     \<and> current_process st' = current_process st \<and> ready_queue st' = ready_queue st \<and> scheduler_enabled st' = scheduler_enabled st"

lemma only_trans: "only i st st1 \<Longrightarrow> only i st1 st2 \<Longrightarrow> only i st st2"
  by (simp add: only_def)

lemma only_update: "only i st (update_process i f st)"
  by (simp add: only_def)

lemma only_vmm:
  "only i st (snd (pmm_alloc_frame st))" "only i st (pmm_free_frame a st)" "only i st (vmm_map_page d v p f st)"
  "only i st (snd (vmm_create_page_directory st))" "only i st (snd (process_get_next_pid st))"
  by (simp_all add: only_def proc_def process_get_next_pid_def Let_def)

lemma proc_vmm [simp]:
  "proc (snd (pmm_alloc_frame st)) = proc st" "proc (pmm_free_frame a st) = proc st" "proc (vmm_map_page d v p f st) = proc st"
  "proc (snd (vmm_create_page_directory st)) = proc st" "proc (snd (process_get_next_pid st)) = proc st"
  "length (process_table (snd (process_get_next_pid st))) = length (process_table st)"
  "current_process (snd (process_get_next_pid st)) = current_process st"
  "fst (process_get_next_pid st) = next_pid st" "timer_ticks (snd (process_get_next_pid st)) = timer_ticks st"
  by (simp_all add: proc_def fun_eq_iff process_get_next_pid_def Let_def)

lemma free_slot_Some:
  "free_slot st = Some i \<Longrightarrow> 1 \<le> i \<and> i < 32 \<and> process_state (proc st i) = 0 \<and> (\<forall>k. 1 \<le> k \<and> k < i \<longrightarrow> process_state (proc st k) \<noteq> 0)"
  unfolding free_slot_def MAX_PROCESSES_def find_Some_iff by (auto simp: less_diff_conv Suc_le_eq gr0_conv_Suc)

lemma free_slot_None: "free_slot st = None \<Longrightarrow> 1 \<le> k \<Longrightarrow> k < 32 \<Longrightarrow> process_state (proc st k) \<noteq> 0"
  unfolding free_slot_def MAX_PROCESSES_def find_None_iff by (auto simp del: upt_rec_numeral)

definition created_block :: "u32 \<Rightarrow> u32 \<Rightarrow> u8 list \<Rightarrow> u32 \<Rightarrow> process" where
  "created_block new parent name prio = zero_process\<lparr>pid := new, parent_pid := parent, process_name := take 31 name,
     process_state := PROCESS_STATE_READY, priority := prio, time_slice := slice_of prio\<rparr>"

lemma init_process_spec:
  assumes "i < length (process_table st)" and "current_process st \<noteq> Some i"
    and cur: "\<And>c. current_process st = Some c \<Longrightarrow> c < length (process_table st)"
  shows "only i st (init_process name prio i st)"
    and "proc (init_process name prio i st) i
      = created_block (next_pid st) (case current_process st of None \<Rightarrow> 0 | Some c \<Rightarrow> pid (proc st c)) name prio"
proof -
  define s1 where "s1 = update_process i (\<lambda>_. zero_process) st"
  define s2 where "s2 = snd (process_get_next_pid s1)"
  define s3 where "s3 = update_process i (\<lambda>p. p\<lparr>pid := next_pid st\<rparr>) s2"
  define par where "par = (case current_process st of None \<Rightarrow> 0 | Some c \<Rightarrow> pid (proc st c))"
  have o3: "only i st s3" unfolding s3_def s2_def s1_def by (rule only_trans [OF only_trans [OF only_update only_vmm(5)] only_update])
  have p3: "proc s3 i = zero_process\<lparr>pid := next_pid st\<rparr>" using assms(1) by (simp add: s3_def s2_def s1_def)
  have par: "(case current_process s3 of None \<Rightarrow> 0 | Some c \<Rightarrow> pid (proc s3 c)) = par"
  proof (cases "current_process st")
    case None
    then show ?thesis using o3 by (simp add: only_def par_def)
  next
    case (Some c)
    then have "c < length (process_table st)" "c \<noteq> i" using cur assms(2) by auto
    then have "proc s3 c = proc st c" using o3 by (simp add: only_def)
    moreover have "current_process s3 = Some c" using o3 Some by (simp add: only_def)
    ultimately show ?thesis by (simp add: par_def Some)
  qed
  have run: "init_process name prio i st = update_process i (\<lambda>p. p\<lparr>parent_pid := par, process_name := take 31 name,
           process_state := PROCESS_STATE_READY, priority := prio, time_slice := slice_of prio\<rparr>) s3"
  proof -
    have f: "fst (process_get_next_pid s1) = next_pid st" by (simp add: s1_def)
    show ?thesis
      unfolding init_process_def Let_def split_beta s1_def [symmetric] s2_def [symmetric] f s3_def [symmetric] par ..
  qed
  show "only i st (init_process name prio i st)" unfolding run by (rule only_trans [OF o3 only_update])
  have "i < length (process_table s3)" using o3 assms(1) by (simp add: only_def)
  then show "proc (init_process name prio i st) i
      = created_block (next_pid st) (case current_process st of None \<Rightarrow> 0 | Some c \<Rightarrow> pid (proc st c)) name prio"
    by (simp add: run p3 created_block_def par_def)
qed

lemma finish_only:
  "only i st (finish_process e i st)"
  "i < length (process_table st) \<Longrightarrow> process_state (proc (finish_process e i st) i) = process_state (proc st i)"
  unfolding finish_process_def Let_def
  by (rule only_trans [OF only_vmm(3) only_update], simp)

text \<open>Whatever happens, only the chosen slot changes, and it ends up in state ready.\<close>

lemma process_create_only:
  assumes i: "free_slot st = Some i" and len: "length (process_table st) = 32" and cur: "current_process st \<noteq> Some i"
    "\<And>c. current_process st = Some c \<Longrightarrow> c < 32"
    and run: "process_create name e prio st = (r, st')"
  shows "only i st st'" and "process_state (proc st' i) = PROCESS_STATE_READY" and "r = None \<or> r = Some i"
proof -
  have i32: "i < 32" using free_slot_Some [OF i] by simp
  define s1 where "s1 = init_process name prio i st"
  obtain d s2 where d: "vmm_create_page_directory s1 = (d, s2)" by fastforce
  define s3 where "s3 = update_process i (\<lambda>p. p\<lparr>page_directory := d\<rparr>) s2"
  obtain ks s4 where ks: "pmm_alloc_frame s3 = (ks, s4)" by fastforce
  define s5 where "s5 = update_process i (\<lambda>p. p\<lparr>kernel_stack := ks\<rparr>) s4"
  obtain us s6 where us: "pmm_alloc_frame s5 = (us, s6)" by fastforce
  define s7 where "s7 = update_process i (\<lambda>p. p\<lparr>user_stack := us\<rparr>) s6"
  have run: "(r, st') = (if d = 0 then (None, s3) else if ks = 0 then (None, s5) else if us = 0 then (None, pmm_free_frame ks s7)
      else (Some i, finish_process e i s7))"
    unfolding run [symmetric] process_create_def Let_def i option.case s1_def [symmetric] d prod.case s3_def [symmetric]
      ks s5_def [symmetric] us s7_def [symmetric] ..
  have c32: "\<And>c. current_process st = Some c \<Longrightarrow> c < length (process_table st)" "i < length (process_table st)"
    using cur(2) len i32 by simp_all
  note ip = init_process_spec [OF c32(2) cur(1) c32(1), of name prio, folded s1_def]
  have o3: "only i s1 s3" using only_trans [OF only_vmm(4) only_update] d by (metis s3_def snd_conv)
  have o5: "only i s3 s5" using only_trans [OF only_vmm(1) only_update] ks by (metis s5_def snd_conv)
  have o7: "only i s5 s7" using only_trans [OF only_vmm(1) only_update] us by (metis s7_def snd_conv)
  have o: "only i st s3" "only i st s5" "only i st s7"
    using ip(1) o3 o5 o7 only_trans by blast+
  have l: "i < length (process_table s2)" "i < length (process_table s4)" "i < length (process_table s6)" "i < length (process_table s7)"
    using o i32 len by (simp_all add: only_def s3_def s5_def s7_def)
  have p: "proc s2 = proc s1" "proc s4 = proc s3" "proc s6 = proc s5"
    using proc_vmm(4) [of s1] proc_vmm(1) [of s3] proc_vmm(1) [of s5] by (simp_all add: d ks us)
  have st: "process_state (proc s1 i) = PROCESS_STATE_READY" by (simp add: ip(2) created_block_def)
  then have st3: "process_state (proc s3 i) = PROCESS_STATE_READY" using l p by (simp add: s3_def)
  then have st5: "process_state (proc s5 i) = PROCESS_STATE_READY" using l p by (simp add: s5_def)
  then have st7: "process_state (proc s7 i) = PROCESS_STATE_READY" using l p by (simp add: s7_def)
  show "only i st st'"
    using run o only_trans [OF o(3) only_vmm(2)] only_trans [OF o(3) finish_only(1)] by (auto split: if_splits)
  show "process_state (proc st' i) = PROCESS_STATE_READY"
    using run st3 st5 st7 finish_only(2) [OF l(4)] by (auto split: if_splits)
  show "r = None \<or> r = Some i" using run by (auto split: if_splits)
qed

lemma only_sched_inv:
  assumes ok: "sched_inv st qs" and o: "only i st st'" and i: "i \<notin> set qs" "current_process st \<noteq> Some i"
  shows "sched_inv st' qs" and "running_of st' = running_of st"
proof -
  have qi: "queue_inv st qs" using ok by (simp add: sched_inv_def)
  then have len: "length (process_table st) = 32" by (simp add: queue_inv_def)
  have pr: "proc st' x = proc st x" if "x < 32" "x \<noteq> i" for x using o that len by (simp add: only_def)
  have xs: "x < 32 \<and> x \<noteq> i" if "x \<in> set qs" for x using that qi i(1) by (auto simp: queue_inv_def)
  have "chained (link st') qs = chained (link st) qs"
    by (rule chained_cong) (use pr xs in \<open>simp add: link_def\<close>)
  then have q': "queue_inv st' qs" using qi o pr xs by (simp add: queue_inv_def only_def)
  have cur: "current_process st' = current_process st" using o by (simp add: only_def)
  have c: "proc st' c = proc st c" if "current_process st = Some c" for c
    using pr [of c] that i(2) ok by (auto simp: sched_inv_def)
  show "sched_inv st' qs" using ok q' c cur by (simp add: sched_inv_def)
  show "running_of st' = running_of st" using c cur by (simp add: running_of_def split: option.split)
qed

lemma create_sched:
  assumes ok: "sched_inv st qs" and run: "process_create name e prio st = (r, st')"
  shows "sched_inv st' qs" and "running_of st' = running_of st"
    and "r = Some p \<Longrightarrow> p < 32 \<and> p \<notin> set qs \<and> current_process st' \<noteq> Some p"
proof -
  have all: "sched_inv st' qs \<and> running_of st' = running_of st \<and> (r = Some p \<longrightarrow> p < 32 \<and> p \<notin> set qs \<and> current_process st' \<noteq> Some p)" for p
  proof (cases "free_slot st")
    case None
    then show ?thesis using run ok by (simp add: process_create_def)
  next
    case (Some i)
    note fs = free_slot_Some [OF Some]
    have qi: "queue_inv st qs" and cur: "\<And>c. current_process st = Some c \<Longrightarrow> c < 32 \<and> process_state (proc st c) \<noteq> 0"
      using ok by (auto simp: sched_inv_def)
    have i: "i \<notin> set qs" "current_process st \<noteq> Some i" using qi cur fs by (auto simp: queue_inv_def)
    have len: "length (process_table st) = 32" using qi by (simp add: queue_inv_def)
    note po = process_create_only [OF Some len i(2) _ run]
    have o: "only i st st'" "r = None \<or> r = Some i" using po(1,3) cur by blast+
    then show ?thesis using only_sched_inv [OF ok o(1) i] fs i by (auto simp: only_def)
  qed
  then show "sched_inv st' qs" "running_of st' = running_of st" "r = Some p \<Longrightarrow> p < 32 \<and> p \<notin> set qs \<and> current_process st' \<noteq> Some p"
    by blast+
qed

section \<open>Ending\<close>

definition terminate :: "nat \<Rightarrow> int \<Rightarrow> 'a scheduler_scheme \<Rightarrow> 'a scheduler_scheme" where
  "terminate c code st = update_process c (\<lambda>b. b\<lparr>exit_code := code, process_state := PROCESS_STATE_TERMINATED\<rparr>) st"

lemma terminate_spec:
  assumes ok: "sched_inv st qs" and cur: "current_process st = Some c"
  shows "sched_inv (terminate c code st) qs" and "running_of (terminate c code st) = None"
    and "proc (terminate c code st) c = (proc st c)\<lparr>exit_code := code, process_state := PROCESS_STATE_TERMINATED\<rparr>"
proof -
  have qi: "queue_inv st qs" and c: "c < 32" "c \<notin> set qs" using ok cur by (auto simp: sched_inv_def)
  have len: "length (process_table st) = 32" using qi by (simp add: queue_inv_def)
  have pr: "proc (terminate c code st) x = (if x = c then (proc st c)\<lparr>exit_code := code, process_state := PROCESS_STATE_TERMINATED\<rparr>
      else proc st x)" if "x < 32" for x using that len by (simp add: terminate_def)
  show t: "proc (terminate c code st) c = (proc st c)\<lparr>exit_code := code, process_state := PROCESS_STATE_TERMINATED\<rparr>"
    using pr [OF c(1)] by simp
  have xs: "x < 32 \<and> x \<noteq> c" if "x \<in> set qs" for x using that qi c(2) by (auto simp: queue_inv_def)
  have "chained (link (terminate c code st)) qs = chained (link st) qs"
    by (rule chained_cong) (use pr xs in \<open>simp add: link_def\<close>)
  then have "queue_inv (terminate c code st) qs" using qi pr xs by (simp add: queue_inv_def terminate_def)
  moreover have "current_process (terminate c code st) = Some c" using cur by (simp add: terminate_def)
  ultimately show "sched_inv (terminate c code st) qs" "running_of (terminate c code st) = None"
    using c t by (simp_all add: sched_inv_def running_of_def)
qed

section \<open>Reachable states\<close>

text \<open>The states that the kernel brings about by creating, queueing, switching, ticking, ending, removing and
  destroying processes, as long as it queues only processes that are not in the queue and not running, and
  destroys only such processes.\<close>

inductive sched_reach :: "'a scheduler_scheme \<Rightarrow> bool" where
  reach_init: "sched_reach (scheduler_init (process_init st))"
| reach_create: "sched_reach st \<Longrightarrow> sched_reach (snd (process_create name e prio st))"
| reach_add: "sched_reach st \<Longrightarrow> p < 32 \<Longrightarrow> p \<notin> set (queue_of st) \<Longrightarrow> current_process st \<noteq> Some p \<Longrightarrow>
    sched_reach (scheduler_add_process (Some p) st)"
| reach_schedule: "sched_reach st \<Longrightarrow> sched_reach (scheduler_schedule st)"
| reach_tick: "sched_reach st \<Longrightarrow> sched_reach (scheduler_tick st)"
| reach_exit: "sched_reach st \<Longrightarrow> sched_reach (process_exit code st)"
| reach_remove: "sched_reach st \<Longrightarrow> scheduler_remove_process p st = Some st' \<Longrightarrow> sched_reach st'"
| reach_destroy: "sched_reach st \<Longrightarrow> p < 32 \<Longrightarrow> p \<notin> set (queue_of st) \<Longrightarrow> current_process st \<noteq> Some p \<Longrightarrow>
    sched_reach (process_destroy (Some p) st)"

lemma destroy_only: "only p st (process_destroy (Some p) st)"
  unfolding process_destroy_def Let_def option.case by (simp add: only_def)

lemma tick_sched_ok:
  assumes "sched_ok st"
  shows "sched_ok (scheduler_tick st)"
proof (cases "current_process st")
  case None
  then show ?thesis using assms by (simp add: scheduler_tick_def)
next
  case (Some c)
  note ch = charge_spec [OF assms [unfolded sched_ok_def] Some]
  have "sched_ok (charge c st)" using sched_okI [OF ch(1)] by simp
  then show ?thesis using schedule_rr [of "charge c st"] by (simp add: ch(6))
qed

lemma exit_sched_ok:
  assumes "sched_ok st"
  shows "sched_ok (process_exit code st)"
proof (cases "current_process st")
  case None
  then show ?thesis using assms by (simp add: process_exit_def)
next
  case (Some c)
  from terminate_spec(1) [OF assms [unfolded sched_ok_def] Some] have "sched_ok (terminate c code st)"
    using sched_okI by blast
  then show ?thesis using schedule_rr [of "terminate c code st"] assms by (simp add: process_exit_def Some terminate_def)
qed

lemma remove_sched_ok:
  assumes "sched_ok st" and "scheduler_remove_process p st = Some st'"
  shows "sched_ok st'"
proof (cases p)
  case None
  then show ?thesis using assms by (simp add: scheduler_remove_process_def)
next
  case (Some q)
  then show ?thesis using remove_spec [OF assms(1), of q] assms by auto
qed

lemma remove_returns: "sched_ok st \<Longrightarrow> scheduler_remove_process p st \<noteq> None"
proof (cases p)
  case (Some q)
  assume "sched_ok st"
  then show ?thesis using remove_spec [of st q] Some by auto
qed (simp add: scheduler_remove_process_def)

text \<open>C8: In every state that the kernel reaches by creating, queueing, switching, ticking, ending, removing and
  destroying processes, as long as it neither queues nor destroys a process that is queued or running (the code
  does not check, and destroying a queued one breaks the queue), head, tail, count and the links of the ready
  queue agree with a list of distinct ready processes, the current process is not among them, and removing any
  process ends.\<close>

theorem sched_reach_invariant:
  assumes "sched_reach st"
  shows "sched_ok st \<and> (\<forall>p. scheduler_remove_process p st \<noteq> None)"
proof
  show "sched_ok st" using assms
  proof (induction rule: sched_reach.induct)
    case (reach_init st)
    then show ?case using sched_okI [OF init_sched_inv] by blast
  next
    case (reach_create st name e prio)
    then show ?case using create_sched(1) sched_okI prod.collapse unfolding sched_ok_def by metis
  next
    case (reach_add st p)
    then show ?case using add_sched_inv(1) sched_okI unfolding sched_ok_def by metis
  next
    case (reach_schedule st)
    then show ?case using schedule_rr by blast
  next
    case (reach_tick st)
    show ?case by (rule tick_sched_ok [OF reach_tick.IH])
  next
    case (reach_exit st code)
    show ?case by (rule exit_sched_ok [OF reach_exit.IH])
  next
    case (reach_remove st p st')
    show ?case by (rule remove_sched_ok [OF reach_remove.IH reach_remove.hyps(2)])
  next
    case (reach_destroy st p)
    then show ?case using only_sched_inv(1) [OF _ destroy_only] sched_okI unfolding sched_ok_def by metis
  qed
  then show "\<forall>p. scheduler_remove_process p st \<noteq> None" by (simp add: remove_returns)
qed

lemma sched_reach_invariant_witness: "sched_ok (scheduler_tick (snd (process_create [97] 0 2 kernel_boot)))"
  by (rule sched_reach_invariant [THEN conjunct1]) (auto simp: kernel_boot_def intro: sched_reach.intros)

section \<open>What creation builds\<close>

text \<open>Two states with the same memory and the same frame allocator.\<close>

definition same_memory :: "'a vmm_scheme \<Rightarrow> 'a vmm_scheme \<Rightarrow> bool" where
  "same_memory st st' \<longleftrightarrow> mem st' = mem st \<and> bitmap st' = bitmap st \<and> total_frames st' = total_frames st
     \<and> free_frames st' = free_frames st \<and> first_free_frame st' = first_free_frame st
     \<and> kernel_page_directory st' = kernel_page_directory st"

lemma same_memoryD:
  assumes "same_memory st st'"
  shows "mem st' = mem st" "used_set st' = used_set st" "pmm_inv st' = pmm_inv st" "taken st' a = taken st a"
    "vmm_wf st' d = vmm_wf st d" "free_frames st' = free_frames st" "kernel_page_directory st' = kernel_page_directory st"
proof -
  show u: "used_set st' = used_set st" using assms by (simp add: same_memory_def used_set_def frame_used_def bitmap_word_def)
  then show "pmm_inv st' = pmm_inv st" "taken st' a = taken st a" "vmm_wf st' d = vmm_wf st d"
    using assms by (simp_all add: same_memory_def pmm_inv_def geometry_def taken_def vmm_wf_def)
qed (use assms in \<open>simp_all add: same_memory_def\<close>)

lemma same_memory_update: "same_memory st (update_process i f st)"
  by (simp add: same_memory_def)

lemma same_memory_init: "same_memory st (init_process name prio i st)"
  by (simp add: same_memory_def init_process_def process_get_next_pid_def Let_def split_beta)

text \<open>A frame for a process: not taken before, and the directory of the process is as it was.\<close>

lemma frame_step:
  assumes wf: "vmm_wf st t" and free: "k < unat (free_frames st)" and al: "pmm_alloc_frame st = (a, st')"
  shows "a \<noteq> 0" "vmm_wf st' t" "\<not> taken st (unat a)" "taken st' (unat a)" "used_set st \<subseteq> used_set st'"
    "k \<le> unat (free_frames st')" "PAGE_ALIGN a = a"
    "i < 1024 \<Longrightarrow> j < 1024 \<Longrightarrow> walk (mem st') t i j = walk (mem st) t i j"
proof -
  have nz: "free_frames st \<noteq> 0" using free by auto
  note w = vmm_wfD [OF wf]
  obtain f s where f: "pmm_alloc_frame st = (of_nat f, s)" "of_nat f \<noteq> (0 :: u32)" "pmm_inv s"
    "4096 dvd f" "f < 4294967296" "\<not> taken st f" "taken s f"
    "unchanged_outside (mem st) (mem s) 2097152 2098112" "used_set st \<subseteq> used_set s"
    "card (used_set s) = Suc (card (used_set st))"
    by (rule fresh_frame [OF w(1) nz])
  have a: "a = of_nat f" "st' = s" using al f(1) by simp_all
  have ua: "unat a = f" using f(5) by (simp add: a unat_of_nat_u32)
  show "a \<noteq> 0" "\<not> taken st (unat a)" "taken st' (unat a)" "used_set st \<subseteq> used_set st'"
    using f a(2) ua by (simp_all add: a(1))
  note fr = wf_frame [OF wf f(3,9,8)]
  show "vmm_wf st' t" "i < 1024 \<Longrightarrow> j < 1024 \<Longrightarrow> walk (mem st') t i j = walk (mem st) t i j"
    using fr(1,3) by (simp_all add: a(2))
  have "unat (free_frames st) + card (used_set st) = 7680" "unat (free_frames s) + card (used_set s) = 7680"
    using w(1) f(3) by (simp_all add: pmm_inv_def)
  then show "k \<le> unat (free_frames st')" using free f(10) by (simp add: a(2))
  have "unat (PAGE_ALIGN a) = unat a" using f(4) by (simp add: unat_PAGE_ALIGN ua)
  then show "PAGE_ALIGN a = a" by (simp add: word_unat_eq_iff)
qed

definition initial_context :: "u32 \<Rightarrow> process \<Rightarrow> process \<Rightarrow> bool" where
  "initial_context e q b \<longleftrightarrow> pid b = pid q \<and> process_name b = process_name q \<and> process_state b = process_state q
     \<and> time_slice b = time_slice q \<and> ctx_eip b = e \<and> ctx_esp b = 0x40010FFC \<and> ctx_eflags b = 0x202
     \<and> page_directory b = page_directory q \<and> kernel_stack b = kernel_stack q \<and> user_stack b = user_stack q"

lemma finish_process_shape:
  "\<exists>g. finish_process e i st = update_process i g (vmm_map_page (page_directory (proc st i)) 0x40010000
      (user_stack (proc st i)) (PAGE_PRESENT OR PAGE_WRITABLE OR PAGE_USER) st) \<and> (\<forall>q. initial_context e q (g q))"
proof -
  have b: "USER_VIRTUAL_BASE + 0x10000 = 0x40010000" by (simp add: USER_VIRTUAL_BASE_def)
  show ?thesis
    unfolding finish_process_def Let_def b
    by (rule exI, rule conjI, rule refl) (simp add: initial_context_def PROCESS_STACK_SIZE_def)
qed

text \<open>The pages of a new process: its page directory and two stacks, in the state before \<open>finish_process\<close>.\<close>

lemma process_create_pages:
  assumes ok: "sched_ok st" and wf: "vmm_wf st d" and d: "kernel_page_directory st = of_nat d"
    and slot: "free_slot st = Some i" and free: "4 \<le> unat (free_frames st)"
  obtains t ks us s7 where "process_create name e prio st = (Some i, finish_process e i s7)"
    and "proc s7 i = (created_block (next_pid st) (case current_process st of None \<Rightarrow> 0 | Some c \<Rightarrow> pid (proc st c)) name prio)
      \<lparr>page_directory := of_nat t, kernel_stack := ks, user_stack := us\<rparr>"
    and "i < length (process_table s7)" and "vmm_wf s7 t" and "free_frames s7 \<noteq> 0" and "t < 4294967296"
    and "distinct [of_nat t, ks, us]" and "\<forall>a \<in> {of_nat t, ks, us}. a \<noteq> 0 \<and> \<not> taken st (unat a)"
    and "of_nat (unat us div 4096 * 4096) = us"
    and "\<And>k l. k < 1024 \<Longrightarrow> l < 1024 \<Longrightarrow> walk (mem s7) t k l = (if 768 \<le> k then walk (mem st) d k l else None)"
proof -
  have q: "queue_inv st (queue_of st)" and cur: "\<And>c. current_process st = Some c \<Longrightarrow> c < 32 \<and> process_state (proc st c) \<noteq> 0"
    using ok by (auto simp: sched_ok_def sched_inv_def)
  have len: "length (process_table st) = 32" using q by (simp add: queue_inv_def)
  note fs = free_slot_Some [OF slot]
  have ci: "current_process st \<noteq> Some i" using cur fs by auto
  have il: "i < length (process_table st)" and cl: "\<And>c. current_process st = Some c \<Longrightarrow> c < length (process_table st)"
    using fs len cur by simp_all
  define s1 where "s1 = init_process name prio i st"
  note ip = init_process_spec [OF il ci cl, of name prio, folded s1_def]
  note m1 = same_memoryD [OF same_memory_init, of name prio i st, folded s1_def]
  have wf1: "vmm_wf s1 d" and kd1: "kernel_page_directory s1 = of_nat d" and fr1: "free_frames s1 \<noteq> 0"
    using wf d free by (auto simp: m1)
  obtain t s2 where c: "vmm_create_page_directory s1 = (of_nat t, s2)" "of_nat t \<noteq> (0 :: u32)" "t < 4294967296"
    "vmm_wf s2 t" "\<not> taken s1 t" "taken s2 t" "used_set s1 \<subseteq> used_set s2" "card (used_set s2) = Suc (card (used_set s1))"
    "\<And>i j. i < 1024 \<Longrightarrow> j < 1024 \<Longrightarrow> walk (mem s2) t i j = (if 768 \<le> i then walk (mem s1) d i j else None)"
    by (rule create_directory_spec [OF wf1 kd1 fr1]) (rule that)
  have ut: "unat (of_nat t :: u32) = t" using c(3) by (rule unat_of_nat_u32)
  define s3 where "s3 = update_process i (\<lambda>p. p\<lparr>page_directory := of_nat t\<rparr>) s2"
  note m3 = same_memoryD [OF same_memory_update, of i "\<lambda>p. p\<lparr>page_directory := of_nat t\<rparr>" s2, folded s3_def]
  have wf3: "vmm_wf s3 t" using c(4) by (simp add: m3)
  have "unat (free_frames s2) + card (used_set s2) = 7680" "unat (free_frames s1) + card (used_set s1) = 7680"
    using vmm_wfD(1) [OF c(4)] vmm_wfD(1) [OF wf1] by (simp_all add: pmm_inv_def)
  then have free3: "2 < unat (free_frames s3)" using free c(8) by (simp add: m3(6) m1(6))
  obtain ks s4 where ks: "pmm_alloc_frame s3 = (ks, s4)" by fastforce
  note f4 = frame_step [OF wf3 free3 ks]
  define s5 where "s5 = update_process i (\<lambda>p. p\<lparr>kernel_stack := ks\<rparr>) s4"
  note m5 = same_memoryD [OF same_memory_update, of i "\<lambda>p. p\<lparr>kernel_stack := ks\<rparr>" s4, folded s5_def]
  have wf5: "vmm_wf s5 t" and free5: "1 < unat (free_frames s5)" using f4(2,6) by (simp_all add: m5)
  obtain us s6 where us: "pmm_alloc_frame s5 = (us, s6)" by fastforce
  note f6 = frame_step [OF wf5 free5 us]
  define s7 where "s7 = update_process i (\<lambda>p. p\<lparr>user_stack := us\<rparr>) s6"
  note m7 = same_memoryD [OF same_memory_update, of i "\<lambda>p. p\<lparr>user_stack := us\<rparr>" s6, folded s7_def]
  have wf7: "vmm_wf s7 t" and free7: "free_frames s7 \<noteq> 0" using f6(2,6) by (auto simp: m7)
  have run: "process_create name e prio st = (Some i, finish_process e i s7)"
    using c(2) f4(1) f6(1)
    by (simp add: process_create_def slot Let_def s1_def [symmetric] c(1) s3_def [symmetric] ks s5_def [symmetric] us
        s7_def [symmetric])
  have tk: "\<not> taken st t" "\<not> taken st (unat ks)" "\<not> taken st (unat us)"
    "taken s3 t" "taken s5 t" "taken s5 (unat ks)"
  proof -
    have u: "used_set st \<subseteq> used_set s3" "used_set s3 \<subseteq> used_set s5" using c(7) f4(5) by (simp_all add: m1 m3 m5)
    show "\<not> taken st t" using c(5) by (simp add: m1)
    show "\<not> taken st (unat ks)" using f4(3) taken_mono [OF _ u(1)] by blast
    show "\<not> taken st (unat us)" using f6(3) taken_mono [OF _ subset_trans [OF u]] by blast
    show "taken s3 t" using c(6) by (simp add: m3)
    then show "taken s5 t" using taken_mono [OF _ u(2)] by blast
    show "taken s5 (unat ks)" using f4(4) by (simp add: m5)
  qed
  have dist: "ks \<noteq> of_nat t" "us \<noteq> of_nat t" "us \<noteq> ks" using tk(4-6) f4(3) f6(3) ut by metis+
  have l: "i < length (process_table s2)" "i < length (process_table s4)" "i < length (process_table s6)" "i < length (process_table s7)"
    using ip(1) il vmm_keeps(7) [of s1, unfolded c(1) snd_conv] pmm_keeps(1) [of s3, unfolded ks snd_conv]
      pmm_keeps(1) [of s5, unfolded us snd_conv] by (simp_all add: only_def s3_def s5_def s7_def)
  have p: "proc s2 = proc s1" "proc s4 = proc s3" "proc s6 = proc s5"
    using proc_vmm(4) [of s1] proc_vmm(1) [of s3] proc_vmm(1) [of s5] by (simp_all add: c(1) ks us)
  have p7: "proc s7 i = (created_block (next_pid st) (case current_process st of None \<Rightarrow> 0 | Some c \<Rightarrow> pid (proc st c)) name prio)
      \<lparr>page_directory := of_nat t, kernel_stack := ks, user_stack := us\<rparr>"
    using l p ip(2) by (simp add: s7_def s5_def s3_def)
  have w7: "walk (mem s7) t k l = (if 768 \<le> k then walk (mem st) d k l else None)" if "k < 1024" "l < 1024" for k l
    using f6(8) [OF that] f4(8) [OF that] c(9) [OF that] by (simp add: m7 m5 m3 m1)
  have us_al: "of_nat (unat us div 4096 * 4096) = us" using f6(7) by (metis u32_of_nat_unat unat_PAGE_ALIGN)
  have "distinct [of_nat t, ks, us]" using dist by auto
  moreover have "\<forall>a \<in> {of_nat t, ks, us}. a \<noteq> 0 \<and> \<not> taken st (unat a)" using c(2) f4(1) f6(1) tk(1-3) ut by simp
  ultimately show thesis using that [OF run p7 l(4) wf7 free7 c(3)] us_al w7 by blast
qed

text \<open>\<open>finish_process\<close> sets the initial context and maps the user stack.\<close>

lemma finish_process_correct:
  fixes s7 :: "'a scheduler_scheme" and e w :: u32
  assumes p7: "proc s7 i = (created_block n parent name prio)\<lparr>page_directory := of_nat t, kernel_stack := ks, user_stack := us\<rparr>"
    and l: "i < length (process_table s7)" and wf7: "vmm_wf s7 t" and free7: "free_frames s7 \<noteq> 0"
    and us_al: "of_nat (unat us div 4096 * 4096) = us"
  defines "s8 \<equiv> finish_process e i s7" and "b \<equiv> proc (finish_process e i s7) i"
  shows "pid b = n" "process_name b = take 31 name" "process_state b = PROCESS_STATE_READY"
    "time_slice b = slice_of prio" "ctx_eip b = e" "ctx_esp b = 0x40010FFC" "ctx_eflags b = 0x202"
    "page_directory b = of_nat t" "kernel_stack b = ks" "user_stack b = us" and "vmm_wf s8 t"
    and "vmm_get_physical_address (of_nat t) w s8 = (if PAGE_ALIGN w = 0x40010000 then us OR (w AND 0xFFF)
      else vmm_get_physical_address (of_nat t) w s7)"
proof -
  define sm where "sm = vmm_map_page (of_nat t) 0x40010000 us (PAGE_PRESENT OR PAGE_WRITABLE OR PAGE_USER) s7"
  obtain g where g: "s8 = update_process i g sm" and gq: "\<And>q. initial_context e q (g q)"
    using finish_process_shape [of e i s7] by (auto simp: s8_def sm_def p7)
  have "proc sm i = proc s7 i" by (simp add: sm_def)
  moreover have "i < length (process_table sm)" using l by (simp add: sm_def)
  ultimately have bg: "b = g (proc s7 i)" by (simp add: b_def s8_def [symmetric] g)
  show "pid b = n" "process_name b = take 31 name" "process_state b = PROCESS_STATE_READY"
    "time_slice b = slice_of prio" "ctx_eip b = e" "ctx_esp b = 0x40010FFC" "ctx_eflags b = 0x202"
    "page_directory b = of_nat t" "kernel_stack b = ks" "user_stack b = us"
    unfolding bg using gq [of "proc s7 i"] p7 by (simp_all add: created_block_def initial_context_def)
  have room: "entry_present (pde (mem s7) t (dir_index 0x40010000)) \<or> free_frames s7 \<noteq> 0" using free7 by simp
  define fl where "fl = PAGE_PRESENT OR PAGE_WRITABLE OR PAGE_USER"
  have fl: "fl AND PAGE_PRESENT \<noteq> 0" by (simp add: fl_def PAGE_PRESENT_def PAGE_WRITABLE_def PAGE_USER_def)
  obtain ent where ent: "vmm_wf sm t" "table_of ent = unat us div 4096 * 4096"
    "\<And>k l. k < 1024 \<Longrightarrow> l < 1024 \<Longrightarrow> walk (mem sm) t k l
      = (if k = dir_index 0x40010000 \<and> l = table_index 0x40010000 then if fl AND PAGE_PRESENT \<noteq> 0 then Some ent else None
         else walk (mem s7) t k l)"
    by (rule map_page_spec [OF wf7 room sm_def [folded fl_def]]) (rule that)
  note m8 = same_memoryD [OF same_memory_update, of i g sm, folded g]
  have al: "PAGE_ALIGN 0x40010000 = 0x40010000" by (simp add: PAGE_ALIGN_def PAGE_SIZE_def)
  show "vmm_get_physical_address (of_nat t) w s8 = (if PAGE_ALIGN w = 0x40010000 then us OR (w AND 0xFFF)
      else vmm_get_physical_address (of_nat t) w s7)"
  proof (cases "PAGE_ALIGN w = 0x40010000")
    case True
    then have "dir_index w = dir_index 0x40010000 \<and> table_index w = table_index 0x40010000"
      using same_page [of w "0x40010000"] al by simp
    then have "walk (mem s8) t (dir_index w) (table_index w) = Some ent" using ent(3) fl by (simp add: m8(1))
    then show ?thesis using True us_al by (simp add: get_physical_walk ent(2) del: of_nat_mult)
  next
    case False
    then have "\<not> (dir_index w = dir_index 0x40010000 \<and> table_index w = table_index 0x40010000)"
      using same_page [of w "0x40010000"] al by simp
    then have "walk (mem s8) t (dir_index w) (table_index w) = walk (mem s7) t (dir_index w) (table_index w)"
      using ent(3) [of "dir_index w" "table_index w"] by (auto simp: m8(1))
    then show ?thesis using False by (simp add: get_physical_walk)
  qed
  show "vmm_wf s8 t" using ent(1) by (simp add: m8(5))
qed

text \<open>Creation: with a free slot and four free frames, \<open>process_create\<close> fills the first free slot with the next
  identifier, the name cut to 31 characters, and the initial context; the page directory and the two stacks
  are new, distinct frames; in the new address space the page at 0x40010000 is the user stack, the kernel half
  is the kernel's, and nothing else is mapped.\<close>

theorem process_create_correct:
  assumes ok: "sched_ok st" and wf: "vmm_wf st d" and d: "kernel_page_directory st = of_nat d"
    and slot: "free_slot st = Some i" and free: "4 \<le> unat (free_frames st)"
  shows "\<exists>st' b. process_create name e prio st = (Some i, st') \<and> proc st' i = b
    \<and> pid b = next_pid st \<and> process_name b = take 31 name \<and> process_state b = PROCESS_STATE_READY
    \<and> time_slice b = slice_of prio \<and> ctx_eip b = e \<and> ctx_esp b = 0x40010FFC \<and> ctx_eflags b = 0x202
    \<and> distinct [page_directory b, kernel_stack b, user_stack b]
    \<and> (\<forall>a \<in> {page_directory b, kernel_stack b, user_stack b}. a \<noteq> 0 \<and> \<not> taken st (unat a))
    \<and> vmm_wf st' (unat (page_directory b))
    \<and> (\<forall>w. vmm_get_physical_address (page_directory b) w st'
        = (if PAGE_ALIGN w = 0x40010000 then user_stack b OR (w AND 0xFFF)
           else if 0xC0000000 \<le> w then vmm_get_physical_address (of_nat d) w st else 0))"
proof -
  obtain t ks us s7 where run: "process_create name e prio st = (Some i, finish_process e i s7)"
    and p7: "proc s7 i = (created_block (next_pid st) (case current_process st of None \<Rightarrow> 0 | Some c \<Rightarrow> pid (proc st c)) name prio)
      \<lparr>page_directory := of_nat t, kernel_stack := ks, user_stack := us\<rparr>"
    and l: "i < length (process_table s7)" and wf7: "vmm_wf s7 t" "free_frames s7 \<noteq> 0" and t: "t < 4294967296"
    and pages: "distinct [of_nat t, ks, us]" "\<forall>a \<in> {of_nat t, ks, us}. a \<noteq> 0 \<and> \<not> taken st (unat a)"
    and al: "of_nat (unat us div 4096 * 4096) = us"
    and w7: "\<And>k l. k < 1024 \<Longrightarrow> l < 1024 \<Longrightarrow> walk (mem s7) t k l = (if 768 \<le> k then walk (mem st) d k l else None)"
    by (rule process_create_pages [OF ok wf d slot free, of name e prio]) (rule that)
  define b where "b = proc (finish_process e i s7) i"
  note f = finish_process_correct [OF p7 l wf7 al, where e = e, folded b_def]
  have ut: "unat (of_nat t :: u32) = t" using t by (rule unat_of_nat_u32)
  have ge: "0xC0000000 \<le> w \<longleftrightarrow> 768 \<le> dir_index w" for w
    by (simp add: word_le_nat_alt dir_index_def less_eq_div_iff_mult_less_eq)
  have "vmm_get_physical_address (of_nat t) w s7 = (if 0xC0000000 \<le> w then vmm_get_physical_address (of_nat d) w st else 0)" for w
    by (simp add: get_physical_walk w7 ge)
  then have "vmm_get_physical_address (of_nat t) w (finish_process e i s7) = (if PAGE_ALIGN w = 0x40010000 then us OR (w AND 0xFFF)
      else if 0xC0000000 \<le> w then vmm_get_physical_address (of_nat d) w st else 0)" for w
    unfolding f(12) by simp
  then show ?thesis
    using run f(11) pages ut by (intro exI [of _ "finish_process e i s7"] exI [of _ b]) (simp only: b_def [symmetric] f(1-10) simp_thms ut)
qed

lemma kernel_boot_facts:
  "sched_ok kernel_boot" "vmm_wf kernel_boot 0x100000" "kernel_page_directory kernel_boot = of_nat 0x100000"
  "free_slot kernel_boot = Some 1" "free_frames kernel_boot = 7679" "next_pid kernel_boot = 1"
proof -
  show "sched_ok kernel_boot" unfolding kernel_boot_def by (rule sched_okI [OF init_sched_inv, THEN conjunct1])
  define s0 :: scheduler where "s0 = \<lparr>mem = (\<lambda>_. 0), bitmap = 0, bitmap_size = 0, total_frames = 0, free_frames = 0, first_free_frame = 0,
      current_page_directory = 0x100000, kernel_page_directory = 0x100000, cr3 = 0, paging_enabled = False, tlb_flushes = 0,
      process_table = [], current_process = None, next_pid = 1, multitasking_enabled = False, timer_ticks = 0,
      ready_queue = \<lparr>head = None, tail = None, count = 0\<rparr>,
      sched_stats = \<lparr>total_processes = 0, running_processes = 0, context_switches = 0, time_slices = 0, idle_time = 0\<rparr>,
      scheduler_enabled = False\<rparr>"
  have kb: "kernel_boot = scheduler_init (process_init (cleared 0x100000 (pmm_init s0)))" by (simp add: kernel_boot_def s0_def)
  have sm: "same_memory st (scheduler_init (process_init st))" for st :: "'a scheduler_scheme"
    by (simp add: same_memory_def scheduler_init_def process_init_def Let_def)
  have tk: "taken (pmm_init s0) 0x100000" by (simp add: taken_def)
  note c = cleared_spec [OF pmm_init_spec(1) tk]
  have "kernel_page_directory (pmm_init s0) = 0x100000" "next_pid (pmm_init s0) = 1"
    by (simp_all add: s0_def pmm_init_def Let_def pmm_mark_frame_used_def set_frame_def MEMORY_SIZE_def PAGE_SIZE_def)
  then show "vmm_wf kernel_boot 0x100000" "kernel_page_directory kernel_boot = of_nat 0x100000" "free_frames kernel_boot = 7679"
    "next_pid kernel_boot = 1"
    using c(1,5) pmm_init_spec(3) [of s0] unfolding kb
    by (simp_all add: same_memoryD [OF sm] cleared_def) (simp add: scheduler_init_def process_init_def Let_def)
  show "free_slot kernel_boot = Some 1"
    by (simp add: free_slot_def kb scheduler_init_def process_init_def Let_def MAX_PROCESSES_def proc_def update_process_def
        zero_process_def upt_rec)
qed

lemma process_create_correct_witness:
  "\<exists>st'. process_create [105, 110, 105, 116] 0x8000 2 kernel_boot = (Some 1, st') \<and> pid (proc st' 1) = 1
    \<and> ctx_esp (proc st' 1) = 0x40010FFC"
  using process_create_correct [OF kernel_boot_facts(1-4), of "[105, 110, 105, 116]" "0x8000" 2]
  by (auto simp: kernel_boot_facts(5,6))

text \<open>A flaw, proved: when \<open>process_create\<close> fails for lack of memory after it has found a slot, it returns null
  but leaves the slot in state ready, so the slot is never found free again although no process is in it.\<close>

theorem process_create_leaks_slot:
  assumes ok: "sched_ok st" and slot: "free_slot st = Some i" and run: "process_create name e prio st = (None, st')"
  shows "process_state (proc st' i) = PROCESS_STATE_READY \<and> i \<notin> set (queue_of st') \<and> free_slot st' \<noteq> Some i"
proof -
  have inv: "sched_inv st (queue_of st)" using ok by (simp add: sched_ok_def)
  have q: "queue_inv st (queue_of st)" and cur: "\<And>c. current_process st = Some c \<Longrightarrow> c < 32 \<and> process_state (proc st c) \<noteq> 0"
    using inv by (auto simp: sched_inv_def)
  note fs = free_slot_Some [OF slot]
  have ci: "current_process st \<noteq> Some i" "i \<notin> set (queue_of st)" using cur fs q by (auto simp: queue_inv_def)
  have len: "length (process_table st) = 32" using q by (simp add: queue_inv_def)
  have po: "only i st st'" "process_state (proc st' i) = PROCESS_STATE_READY"
    by (rule process_create_only [OF slot len ci(1) _ run]; use cur in blast)+
  have "queue_of st' = queue_of st" using only_sched_inv(1) [OF inv po(1) ci(2,1)] sched_okI by blast
  moreover have "free_slot st' \<noteq> Some i" using free_slot_Some [of st' i] po(2) by auto
  ultimately show ?thesis using po(2) ci(2) by simp
qed

lemma process_create_leaks_slot_witness:
  "process_state (proc (snd (process_create [] 0 2 (kernel_boot\<lparr>free_frames := 0\<rparr>))) 1) = PROCESS_STATE_READY"
proof -
  define st where "st = kernel_boot\<lparr>free_frames := 0\<rparr>"
  have p: "process_table st = process_table kernel_boot" by (simp add: st_def)
  then have pr: "proc st = proc kernel_boot" by (simp add: proc_def fun_eq_iff)
  have qo: "queue_of st = queue_of kernel_boot" "free_slot st = Some 1" using kernel_boot_facts(4)
    by (simp_all add: queue_of_def link_def [abs_def] pr free_slot_def) (simp add: st_def)
  have k: "queue_inv kernel_boot (queue_of kernel_boot)"
    "\<forall>c. current_process kernel_boot = Some c \<longrightarrow> c < 32 \<and> c \<notin> set (queue_of kernel_boot) \<and> process_state (proc kernel_boot c) \<noteq> 0"
    using kernel_boot_facts(1) unfolding sched_ok_def sched_inv_def by blast+
  have "queue_inv st (queue_of kernel_boot)" by (rule queue_inv_cong [OF k(1)]) (simp_all add: st_def)
  moreover have "current_process st = current_process kernel_boot" by (simp add: st_def)
  ultimately have ok: "sched_ok st" using k(2) unfolding sched_ok_def sched_inv_def qo(1) pr by simp
  have "free_frames (init_process [] 2 1 st) = 0"
    using same_memoryD(6) [OF same_memory_init, of "[]" 2 1 st] by (simp add: st_def)
  then have "\<exists>st'. process_create [] 0 2 st = (None, st')"
    by (simp add: process_create_def qo(2) Let_def vmm_create_page_directory_def pmm_alloc_frame_def)
  then obtain st' where r: "process_create [] 0 2 st = (None, st')" by blast
  from process_create_leaks_slot [OF ok qo(2) r] show ?thesis unfolding st_def [symmetric] r by simp
qed

section \<open>Identifiers\<close>

text \<open>Process identifiers run from 1 to 31 and start over, whoever still uses them: the call number \<open>n\<close> from a
  state whose next identifier is \<open>p\<close> returns \<open>(p - 1 + n) mod 31 + 1\<close>, so the 32nd process has the
  identifier of the first.\<close>

theorem process_pids_cycle:
  assumes "1 \<le> unat (next_pid st)" and "unat (next_pid st) \<le> 31"
  shows "unat (fst (process_get_next_pid (((\<lambda>s. snd (process_get_next_pid s)) ^^ n) st)))
    = (unat (next_pid st) - 1 + n) mod 31 + 1"
proof -
  define f where "f = (\<lambda>s :: 'a kernel_scheme. snd (process_get_next_pid s))"
  have "unat (next_pid ((f ^^ n) st)) = (unat (next_pid st) - 1 + n) mod 31 + 1"
  proof (induction n)
    case 0
    then show ?case using assms by simp
  next
    case (Suc n)
    define m where "m = unat (next_pid st) - 1 + n"
    have u: "unat (next_pid ((f ^^ n) st)) = m mod 31 + 1" using Suc by (simp add: m_def)
    have "m mod 31 < 31" by simp
    then have "unat (next_pid ((f ^^ n) st) + 1) = m mod 31 + 2" using u by (subst unat_add_u32) simp_all
    then have "unat (next_pid (f ((f ^^ n) st))) = (if m mod 31 = 30 then 1 else m mod 31 + 2)"
      using \<open>m mod 31 < 31\<close> by (auto simp: f_def process_get_next_pid_def Let_def MAX_PROCESSES_def word_le_nat_alt)
    also have "\<dots> = Suc m mod 31 + 1" using \<open>m mod 31 < 31\<close> by (simp add: mod_Suc)
    finally show ?case by (simp add: m_def)
  qed
  then show ?thesis unfolding f_def [symmetric] by simp
qed

lemma process_pids_cycle_witness:
  "fst (process_get_next_pid (((\<lambda>s. snd (process_get_next_pid s)) ^^ 31) kernel_boot)) = 1"
  using process_pids_cycle [of kernel_boot 31] by (simp add: kernel_boot_facts word_unat_eq_iff)

section \<open>Ending and destroying\<close>

text \<open>Exit: a process other than the kernel that ends gives the processor to the head of the ready queue and is
  not queued again; with an empty queue the call returns to the process that has just ended.\<close>

theorem process_exit_correct:
  assumes ok: "sched_ok st" and run: "running_of st = Some c" and user: "pid (proc st c) \<noteq> 0"
  shows "case queue_of st of
      [] \<Rightarrow> current_process (process_exit code st) = Some c \<and> running_of (process_exit code st) = None
        \<and> process_state (proc (process_exit code st) c) = PROCESS_STATE_TERMINATED
        \<and> exit_code (proc (process_exit code st) c) = code
    | n # qs \<Rightarrow> running_of (process_exit code st) = Some n \<and> queue_of (process_exit code st) = qs"
proof -
  have cur: "current_process st = Some c" using run by (auto simp: running_of_def split: option.splits if_splits)
  have ok': "sched_inv st (queue_of st)" using ok by (simp add: sched_ok_def)
  note t = terminate_spec [OF ok' cur, of code]
  have ex: "process_exit code st = scheduler_schedule (terminate c code st)"
    using user by (simp add: process_exit_def cur terminate_def)
  show ?thesis
  proof (cases "queue_of st")
    case Nil
    note idle = schedule_idle [OF t(1) [unfolded Nil] refl]
    have "current_process (terminate c code st) = Some c" using cur by (simp add: terminate_def)
    then show ?thesis using idle(2-4) t(2,3) by (simp add: Nil ex)
  next
    case (Cons n qs)
    note sw = schedule_spec [OF t(1) [unfolded Cons] refl]
    show ?thesis using sw(2) sched_okI [OF sw(1)] t(2) by (simp add: Cons ex)
  qed
qed

text \<open>A queue with a process that has an identifier.\<close>

definition sched_user :: scheduler where
  "sched_user = scheduler_add_process (Some 2) (scheduler_add_process (Some 1) (update_process 1 (\<lambda>b. b\<lparr>pid := 5\<rparr>) kernel_boot))"

lemma sched_user_facts:
  "sched_inv sched_user [1, 2]" "running_of sched_user = Some 0" "pid (proc sched_user 1) = 5"
proof -
  define s0 where "s0 = update_process 1 (\<lambda>b. b\<lparr>pid := 5\<rparr>) kernel_boot"
  define s1 where "s1 = scheduler_add_process (Some 1) s0"
  have inv: "sched_inv kernel_boot []" by (simp add: kernel_boot_def init_sched_inv)
  have c: "current_process kernel_boot = Some 0" by (simp add: kernel_boot_def scheduler_init_def process_init_def Let_def)
  have l: "length (process_table kernel_boot) = 32" using inv by (simp add: sched_inv_def queue_inv_def)
  note o = only_sched_inv [OF inv only_update, of 1 "\<lambda>b. b\<lparr>pid := 5\<rparr>", folded s0_def]
  have c0: "current_process s0 = Some 0" using c by (simp add: s0_def)
  have i0: "sched_inv s0 []" "running_of s0 = Some 0" using o c by (simp_all add: kernel_boot_def init_running)
  have p1: "(1 :: nat) < 32" "1 \<notin> set ([] :: nat list)" "current_process s0 \<noteq> Some 1" by (simp_all add: c0)
  note ad1 = add_sched_inv [OF i0(1) p1, folded s1_def]
  have i1: "sched_inv s1 [1]" "running_of s1 = Some 0" using ad1(1,2) i0(2) by simp_all
  have c1: "current_process s1 = Some 0" using i1(2) by (auto simp: running_of_def split: option.splits if_splits)
  have p2: "(2 :: nat) < 32" "2 \<notin> set [1 :: nat]" "current_process s1 \<noteq> Some 2" by (simp_all add: c1)
  have su: "sched_user = scheduler_add_process (Some 2) s1" by (simp add: sched_user_def s1_def s0_def)
  note ad2 = add_sched_inv [OF i1(1) p2, folded su]
  show "sched_inv sched_user [1, 2]" "running_of sched_user = Some 0" using ad2(1,2) i1(2) by simp_all
  show "pid (proc sched_user 1) = 5"
    using ad1(3) [of 1] ad2(3) [of 1] l by (simp add: same_entry_def s0_def)
qed

lemma process_exit_correct_witness:
  "running_of (process_exit 3 (scheduler_schedule sched_user)) = Some 2"
proof -
  note sw = schedule_spec [OF sched_user_facts(1) refl]
  have "sched_ok (scheduler_schedule sched_user)" "queue_of (scheduler_schedule sched_user) = [2, 0]"
    using sched_okI [OF sw(1)] by (simp_all add: sched_user_facts(2))
  moreover have "pid (proc (scheduler_schedule sched_user) 1) = 5" using sw(5) [of 1] sched_user_facts(3) by (simp add: same_entry_def)
  ultimately show ?thesis using process_exit_correct [OF _ sw(2), of 3] by simp
qed

text \<open>Two processes that alternate while the rest of the queue is unreachable.\<close>

definition stuck_pair :: "nat \<Rightarrow> nat \<Rightarrow> 'a scheduler_scheme \<Rightarrow> bool" where
  "stuck_pair a b st \<longleftrightarrow> length (process_table st) = 32 \<and> scheduler_enabled st \<and> a < 32 \<and> b < 32 \<and> a \<noteq> b
     \<and> current_process st = Some a \<and> process_state (proc st a) = PROCESS_STATE_RUNNING
     \<and> head (ready_queue st) = Some b \<and> tail (ready_queue st) = Some b \<and> next_process (proc st b) = None
     \<and> 1 < unat (count (ready_queue st))"

text \<open>A switch to a head that has no successor, in a queue whose count says there are more.\<close>

lemma schedule_lone_head:
  assumes "length (process_table st) = 32" "scheduler_enabled st" "c < 32" "p < 32" "c \<noteq> p"
    "current_process st = Some c" "process_state (proc st c) = PROCESS_STATE_RUNNING"
    "head (ready_queue st) = Some p" "next_process (proc st p) = None" "1 < unat (count (ready_queue st))"
  shows "stuck_pair p c (scheduler_schedule st)"
proof -
  define s1 where "s1 = update_process p (\<lambda>b. b\<lparr>next_process := None\<rparr>)
    (st\<lparr>ready_queue := \<lparr>head = None, tail = None, count = count (ready_queue st) - 1\<rparr>\<rparr>)"
  have cnt: "count (ready_queue st) \<noteq> 0" using assms(10) by auto
  have g: "get_next_process st = (Some p, s1)"
    using assms cnt by (cases "ready_queue st") (simp add: get_next_process_def Let_def s1_def)
  have s1: "length (process_table s1) = 32" "scheduler_enabled s1" "current_process s1 = Some c"
    "ready_queue s1 = \<lparr>head = None, tail = None, count = count (ready_queue st) - 1\<rparr>"
    "process_state (proc s1 c) = PROCESS_STATE_RUNNING" using assms by (simp_all add: s1_def)
  define s2 where "s2 = requeue_current s1"
  have s2: "length (process_table s2) = 32" "scheduler_enabled s2"
    "ready_queue s2 = \<lparr>head = Some c, tail = Some c, count = count (ready_queue st)\<rparr>" "next_process (proc s2 c) = None"
    using s1 assms(3) by (simp_all add: s2_def requeue_current_def Let_def save_context_def scheduler_add_process_def)
  show ?thesis
    using s2 assms
    by (simp add: stuck_pair_def scheduler_schedule_def g s2_def [symmetric] Let_def load_context_def)
qed

lemma stuck_pair_step: "stuck_pair a b st \<Longrightarrow> stuck_pair b a (scheduler_schedule st)"
  unfolding stuck_pair_def [of a b] by (elim conjE) (rule schedule_lone_head; assumption)

text \<open>A flaw, proved: \<open>process_destroy\<close> clears the control block of a queued process with its link. Once the
  head of the queue is destroyed, the cleared slot is run as a process with identifier 0 in turn with the
  process that was running, and no process queued behind it ever runs again.\<close>

theorem process_destroy_loses_queue:
  assumes ok: "sched_ok st" and q: "queue_of st = p # x # qs" and run: "running_of st = Some c" and user: "pid (proc st p) \<noteq> 0"
    and st': "st' = process_destroy (Some p) st"
  shows "running_of ((scheduler_schedule ^^ Suc n) st') = Some (if even n then p else c)
    \<and> pid (proc st' p) = 0 \<and> x \<notin> {p, c}"
proof -
  have inv: "sched_inv st (p # x # qs)" using ok q by (simp add: sched_ok_def)
  then have qi: "queue_inv st (p # x # qs)" by (simp add: sched_inv_def)
  have cur: "current_process st = Some c" "process_state (proc st c) = PROCESS_STATE_RUNNING"
    using run by (auto simp: running_of_def split: option.splits if_splits)
  have c: "c < 32" "c \<notin> set (p # x # qs)" using inv cur by (auto simp: sched_inv_def)
  have p: "p < 32" "p \<noteq> x" and len: "length (process_table st) = 32" using qi by (auto simp: queue_inv_def)
  have o: "only p st st'" unfolding st' by (rule destroy_only)
  have pz: "proc st' p = zero_process"
    using user p len by (simp add: st' process_destroy_def Let_def)
  have cnt: "1 < unat (count (ready_queue st))"
    using qi queue_inv_length [OF qi] by (simp add: queue_inv_def unat_of_nat_u32 del: of_nat_Suc)
  have first: "stuck_pair p c (scheduler_schedule st')"
    by (rule schedule_lone_head) (use o c p cur qi pz cnt len in \<open>auto simp: only_def queue_inv_def zero_process_def\<close>)
  have "if even n then stuck_pair p c ((scheduler_schedule ^^ Suc n) st') else stuck_pair c p ((scheduler_schedule ^^ Suc n) st')"
  proof (induction n)
    case 0
    then show ?case using first by simp
  next
    case (Suc n)
    then show ?case using stuck_pair_step [of _ _ "(scheduler_schedule ^^ Suc n) st'"] by (auto split: if_splits)
  qed
  then have "running_of ((scheduler_schedule ^^ Suc n) st') = Some (if even n then p else c)"
    by (auto simp: stuck_pair_def running_of_def split: if_splits)
  then show ?thesis using pz c p by (auto simp: zero_process_def)
qed

lemma process_destroy_loses_queue_witness:
  "running_of ((scheduler_schedule ^^ Suc 100) (process_destroy (Some 1) sched_user)) = Some 1"
proof -
  note ok = sched_okI [OF sched_user_facts(1)]
  have "pid (proc sched_user 1) \<noteq> 0" unfolding sched_user_facts(3) by simp
  from process_destroy_loses_queue [OF conjunct1 [OF ok] conjunct2 [OF ok] sched_user_facts(2) this refl, of 100]
  have "running_of ((scheduler_schedule ^^ Suc 100) (process_destroy (Some 1) sched_user)) = Some (if even (100 :: nat) then 1 else 0)"
    by blast
  then show ?thesis by (simp only: even_numeral if_True)
qed

end
