(* ===== verification/Ports.thy ===== *)
theory Ports
  imports Prelude
begin

text \<open>
  Port input and output (\<open>include/io.h\<close>). What a device answers is not the program's: the
  answers still to come on each port are a stream in the state, and a read takes the next one.
  What the program writes is a log, oldest write first.
\<close>

record io =
  inputs :: "u16 \<Rightarrow> nat \<Rightarrow> u8"
  outputs :: "(u16 \<times> u8) list"

definition outb :: "u16 \<Rightarrow> u8 \<Rightarrow> 'a io_scheme \<Rightarrow> 'a io_scheme" where
  "outb port value st = st\<lparr>outputs := outputs st @ [(port, value)]\<rparr>"

definition inb :: "u16 \<Rightarrow> 'a io_scheme \<Rightarrow> u8 \<times> 'a io_scheme" where
  "inb port st = (inputs st port 0,
     st\<lparr>inputs := (inputs st)(port := (\<lambda>n. inputs st port (Suc n)))\<rparr>)"

definition io_wait :: "'a io_scheme \<Rightarrow> 'a io_scheme" where
  "io_wait st = outb 0x80 0 st"

text \<open>The writes of an operation: what it adds to the log.\<close>

definition writes :: "'a io_scheme \<Rightarrow> 'a io_scheme \<Rightarrow> (u16 \<times> u8) list \<Rightarrow> bool" where
  "writes st st' ws \<longleftrightarrow> outputs st' = outputs st @ ws"

lemma outputs_outb [simp]: "outputs (outb p v st) = outputs st @ [(p, v)]"
  by (simp add: outb_def)

lemma inputs_outb [simp]: "inputs (outb p v st) = inputs st"
  by (simp add: outb_def)

lemma fst_inb [simp]: "fst (inb p st) = inputs st p 0"
  by (simp add: inb_def)

lemma outputs_inb [simp]: "outputs (snd (inb p st)) = outputs st"
  by (simp add: inb_def)

lemma inputs_inb: "inputs (snd (inb p st)) = (inputs st)(p := (\<lambda>n. inputs st p (Suc n)))"
  by (simp add: inb_def)

end
