(* ===== verification/Interrupts.thy ===== *)
theory Interrupts
  imports Ports
begin

text \<open>
  Interrupts: the controller (\<open>kernel/pic.c\<close>), the descriptor table (\<open>kernel/idt.c\<close>) and
  the dispatch to registered handlers (\<open>kernel/isr.c\<close>). The entry stubs \<open>isr0\<close> to
  \<open>isr128\<close> are assembly: their addresses are the parameter \<open>stub\<close>. A function pointer is a
  constructor of \<open>isr\<close>, and the call through it is the parameter \<open>call\<close>.
\<close>

unbundle bit_operations_syntax

record idt_gate =
  offset_low :: u16
  selector :: u16
  reserved :: u8
  type_attr :: u8
  offset_high :: u16

record idt_descriptor =
  limit :: u16
  base :: u32

datatype isr = Keyboard_handler | Serial_interrupt_handler | Timer_handler | Syscall_handler

record registers =
  reg_ds :: u32
  reg_edi :: u32
  reg_esi :: u32
  reg_ebp :: u32
  reg_esp :: u32
  reg_ebx :: u32
  reg_edx :: u32
  reg_ecx :: u32
  reg_eax :: u32
  int_no :: u32
  err_code :: u32
  reg_eip :: u32
  reg_cs :: u32
  reg_eflags :: u32
  reg_useresp :: u32
  reg_ss :: u32

record interrupts = io +
  idt :: "u8 \<Rightarrow> idt_gate"
  idt_desc :: idt_descriptor
  idt_loaded :: bool
  interrupt_handlers :: "u8 \<Rightarrow> isr option"

section \<open>The interrupt controller\<close>

definition PIC1_COMMAND :: u16 where "PIC1_COMMAND = 0x20"
definition PIC1_DATA :: u16 where "PIC1_DATA = 0x21"
definition PIC2_COMMAND :: u16 where "PIC2_COMMAND = 0xA0"
definition PIC2_DATA :: u16 where "PIC2_DATA = 0xA1"

definition pic_init :: "'a io_scheme \<Rightarrow> 'a io_scheme" where
  "pic_init st =
     (let (mask1, st) = inb PIC1_DATA st;
          (mask2, st) = inb PIC2_DATA st;
          st = outb PIC1_COMMAND 0x11 st;
          st = outb PIC2_COMMAND 0x11 st;
          st = outb PIC1_DATA 0x20 st;
          st = outb PIC2_DATA 0x28 st;
          st = outb PIC1_DATA 4 st;
          st = outb PIC2_DATA 2 st;
          st = outb PIC1_DATA 1 st;
          st = outb PIC2_DATA 1 st;
          st = outb PIC1_DATA mask1 st
      in outb PIC2_DATA mask2 st)"

definition pic_send_eoi :: "u8 \<Rightarrow> 'a io_scheme \<Rightarrow> 'a io_scheme" where
  "pic_send_eoi irq st = outb PIC1_COMMAND 0x20 (if 8 \<le> irq then outb PIC2_COMMAND 0x20 st else st)"

definition irq_port :: "u8 \<Rightarrow> u16 \<times> u8" where
  "irq_port irq = (if irq < 8 then (PIC1_DATA, irq) else (PIC2_DATA, irq - 8))"

definition irq_set_mask :: "u8 \<Rightarrow> 'a io_scheme \<Rightarrow> 'a io_scheme" where
  "irq_set_mask irq st =
     (let (port, line) = irq_port irq; (old, st) = inb port st
      in outb port (old OR push_bit (unat line) 1) st)"

definition irq_clear_mask :: "u8 \<Rightarrow> 'a io_scheme \<Rightarrow> 'a io_scheme" where
  "irq_clear_mask irq st =
     (let (port, line) = irq_port irq; (old, st) = inb port st
      in outb port (old AND NOT (push_bit (unat line) 1)) st)"

section \<open>The descriptor table\<close>

definition idt_set_gate :: "u8 \<Rightarrow> u32 \<Rightarrow> u16 \<Rightarrow> u8 \<Rightarrow> 'a interrupts_scheme \<Rightarrow> 'a interrupts_scheme" where
  "idt_set_gate num handler sel attr st =
     st\<lparr>idt := (idt st)(num := \<lparr>offset_low = ucast (handler AND 0xFFFF), selector = sel, reserved = 0,
        type_attr = attr, offset_high = ucast (drop_bit 16 handler AND 0xFFFF)\<rparr>)\<rparr>"

definition idt_init :: "u32 \<Rightarrow> 'a interrupts_scheme \<Rightarrow> 'a interrupts_scheme" where
  "idt_init idt_address st =
     (let st = st\<lparr>idt_desc := \<lparr>limit = 8 * 256 - 1, base = idt_address\<rparr>\<rparr>;
          st = fold (\<lambda>i. idt_set_gate (of_nat i) 0 0 0) [0..<256] st
      in st\<lparr>idt_loaded := True\<rparr>)"

definition isr_init :: "(nat \<Rightarrow> u32) \<Rightarrow> 'a interrupts_scheme \<Rightarrow> 'a interrupts_scheme" where
  "isr_init stub st =
     (let st = fold (\<lambda>i. idt_set_gate (of_nat i) (stub i) 0x08 0x8E) [0..<32] st;
          st = pic_init st;
          st = fold (\<lambda>i. idt_set_gate (of_nat i) (stub i) 0x08 0x8E) [32..<48] st
      in idt_set_gate 128 (stub 128) 0x08 0xEE st)"

section \<open>Dispatch\<close>

definition register_interrupt_handler :: "u8 \<Rightarrow> isr \<Rightarrow> 'a interrupts_scheme \<Rightarrow> 'a interrupts_scheme" where
  "register_interrupt_handler n handler st =
     st\<lparr>interrupt_handlers := (interrupt_handlers st)(n := Some handler)\<rparr>"

text \<open>The interrupt number comes from a stub that pushes a constant below 256.\<close>

definition isr_handler ::
  "(isr \<Rightarrow> registers \<Rightarrow> 'a interrupts_scheme \<Rightarrow> 'a interrupts_scheme) \<Rightarrow> registers \<Rightarrow>
   'a interrupts_scheme \<Rightarrow> 'a interrupts_scheme" where
  "isr_handler call regs st =
     (let st = (case interrupt_handlers st (ucast (int_no regs)) of
                  Some handler \<Rightarrow> call handler regs st | None \<Rightarrow> st)
      in if 32 \<le> int_no regs \<and> int_no regs < 48
         then outb 0x20 0x20 (if 40 \<le> int_no regs then outb 0xA0 0x20 st else st)
         else st)"

section \<open>Properties\<close>

text \<open>The address a gate leads to, as the processor assembles it.\<close>

definition gate_target :: "idt_gate \<Rightarrow> u32" where
  "gate_target g = push_bit 16 (ucast (offset_high g)) OR ucast (offset_low g)"

lemma gate_target_set:
  "gate_target (idt (idt_set_gate num handler sel attr st) num) = handler"
proof -
  have m: "(0xFFFF :: u32) = mask 16" by (simp add: mask_eq_exp_minus_1)
  show ?thesis
    unfolding gate_target_def idt_set_gate_def m by (intro bit_word_eqI) (auto simp: bit_simps)
qed

lemma idt_set_gate_other: "k \<noteq> num \<Longrightarrow> idt (idt_set_gate num handler sel attr st) k = idt st k"
  by (simp add: idt_set_gate_def)

lemma idt_fold:
  assumes "distinct ns" and "\<forall>n \<in> set ns. n < 256"
  shows "idt (fold (\<lambda>i. idt_set_gate (of_nat i) (h i) sel attr) ns st) k
    = (if unat k \<in> set ns then idt (idt_set_gate k (h (unat k)) sel attr st) k else idt st k)"
  using assms
proof (induction ns arbitrary: st)
  case (Cons n ns)
  have n: "unat (of_nat n :: u8) = n" using Cons.prems by (simp add: unat_of_nat take_bit_eq_mod)
  have keep: "idt (idt_set_gate k (h (unat k)) sel attr (idt_set_gate (of_nat n) (h n) sel attr st)) k
    = idt (idt_set_gate k (h (unat k)) sel attr st) k" by (simp add: idt_set_gate_def)
  show ?case
  proof (cases "unat k = n")
    case True
    moreover have "k = of_nat (unat k)" by simp
    ultimately have "k = of_nat n" by (simp only:)
    then show ?thesis using Cons n True by (auto simp: idt_set_gate_def)
  next
    case False
    then have "k \<noteq> of_nat n" using n by auto
    then show ?thesis using Cons False keep by (auto simp: idt_set_gate_other)
  qed
qed simp

lemma idt_pic_init [simp]: "idt (pic_init st) = idt st"
  by (simp add: pic_init_def inb_def outb_def Let_def)

text \<open>After \<open>idt_init\<close> and \<open>isr_init\<close> exactly the vectors 0 to 47 and 128 lead to their entry stubs,
  through 32-bit interrupt gates of the kernel code segment; only vector 128 can be raised from
  user mode; every other gate is empty.\<close>

theorem isr_init_gates:
  assumes "g = idt (isr_init stub (idt_init addr st)) k"
  shows "gate_target g = (if unat k < 48 \<or> unat k = 128 then stub (unat k) else 0)
    \<and> type_attr g = (if unat k < 48 then 0x8E else if unat k = 128 then 0xEE else 0)
    \<and> selector g = (if unat k < 48 \<or> unat k = 128 then 0x08 else 0)"
proof -
  define st0 where "st0 = idt_init addr st"
  have k256: "unat k < 256" using unsigned_less [of k] by simp
  have init: "idt st0 k = idt (idt_set_gate k 0 0 0 st0) k"
    using idt_fold [of "[0..<256]" "\<lambda>_. 0" 0 0 _ k] k256
    by (simp add: st0_def idt_init_def Let_def) (simp add: idt_set_gate_def)
  define st1 where "st1 = fold (\<lambda>i. idt_set_gate (of_nat i) (stub i) 0x08 0x8E) [0..<32] st0"
  define st2 where "st2 = fold (\<lambda>i. idt_set_gate (of_nat i) (stub i) 0x08 0x8E) [32..<48] (pic_init st1)"
  have g: "g = idt (idt_set_gate 128 (stub 128) 0x08 0xEE st2) k"
    by (simp add: assms isr_init_def Let_def st0_def st1_def st2_def)
  have f1: "idt st1 k = (if unat k < 32 then idt (idt_set_gate k (stub (unat k)) 0x08 0x8E st0) k else idt st0 k)"
    unfolding st1_def by (subst idt_fold) (simp_all only: set_upt atLeastLessThan_iff distinct_upt, auto)
  have f2: "idt st2 k = (if 32 \<le> unat k \<and> unat k < 48
      then idt (idt_set_gate k (stub (unat k)) 0x08 0x8E (pic_init st1)) k else idt st1 k)"
    unfolding st2_def by (subst idt_fold) (simp_all only: set_upt atLeastLessThan_iff distinct_upt idt_pic_init, auto)
  have k128: "k = 128 \<longleftrightarrow> unat k = 128" by (simp add: word_unat_eq_iff)
  have at: "type_attr (idt (idt_set_gate j h sel a s) j) = a" "selector (idt (idt_set_gate j h sel a s) j) = sel"
    for j h sel a and s :: "'a interrupts_scheme" by (simp_all add: idt_set_gate_def)
  consider "unat k = 128" | "unat k < 32" | "32 \<le> unat k" "unat k < 48" | "48 \<le> unat k" "unat k \<noteq> 128" by linarith
  then show ?thesis
  proof cases
    case 1
    then have "k = 128" using k128 by simp
    then show ?thesis by (simp add: g gate_target_set at)
  next
    case 2
    then have "g = idt (idt_set_gate k (stub (unat k)) 0x08 0x8E st0) k"
      using f1 f2 k128 by (simp add: g idt_set_gate_other)
    then show ?thesis using 2 by (simp add: gate_target_set at)
  next
    case 3
    then have "g = idt (idt_set_gate k (stub (unat k)) 0x08 0x8E (pic_init st1)) k"
      using f2 k128 by (simp add: g idt_set_gate_other)
    then show ?thesis using 3 by (simp add: gate_target_set at)
  next
    case 4
    then have "g = idt (idt_set_gate k 0 0 0 st0) k"
      using f1 f2 k128 init by (simp add: g idt_set_gate_other)
    then show ?thesis using 4 by (simp add: gate_target_set at)
  qed
qed

text \<open>The tables before initialisation: zeroed static data.\<close>

definition interrupts_reset :: interrupts where
  "interrupts_reset = \<lparr>inputs = (\<lambda>_ _. 0xFF), outputs = [],
     idt = (\<lambda>_. \<lparr>offset_low = 0, selector = 0, reserved = 0, type_attr = 0, offset_high = 0\<rparr>),
     idt_desc = \<lparr>limit = 0, base = 0\<rparr>, idt_loaded = False, interrupt_handlers = Map.empty\<rparr>"

lemma isr_init_gates_witness:
  "type_attr (idt (isr_init of_nat (idt_init 0 interrupts_reset)) 33) = 0x8E"
  using isr_init_gates [of _ of_nat 0 interrupts_reset 33] by simp

text \<open>Enabling or disabling a line of either controller changes exactly the bit of that line in the mask
  register read before.\<close>

theorem irq_mask_bits:
  assumes "irq < 16" and "irq_port irq = (port, line)" and "k < 8"
  shows "\<exists>v w. outputs (irq_clear_mask irq st) = outputs st @ [(port, v)]
    \<and> outputs (irq_set_mask irq st) = outputs st @ [(port, w)]
    \<and> (bit v k \<longleftrightarrow> k \<noteq> unat line \<and> bit (inputs st port 0) k) \<and> (bit w k \<longleftrightarrow> k = unat line \<or> bit (inputs st port 0) k)"
  using assms
  by (intro exI [of _ "inputs st port 0 AND NOT (push_bit (unat line) 1)"] exI [of _ "inputs st port 0 OR push_bit (unat line) 1"])
    (auto simp: irq_clear_mask_def irq_set_mask_def inb_def outb_def Let_def bit_simps push_bit_eq_mult)

lemma irq_mask_bits_witness:
  "\<exists>v. outputs (irq_clear_mask 1 interrupts_reset) = [(0x21, v)] \<and> \<not> bit v 1"
  using irq_mask_bits [of 1 PIC1_DATA 1 1 interrupts_reset]
  by (auto simp: irq_port_def PIC1_DATA_def interrupts_reset_def)

end
