(* ===== verification/Slots.thy ===== *)
theory Slots
  imports Prelude
begin

text \<open>
  An array of pointers used as a list: entries from the front, null behind them. The timer keeps its callbacks
  and the window system its windows in one, and both remove an entry by searching for it, closing the gap
  and clearing the slot that falls free.
\<close>

fun shift_down :: "nat \<Rightarrow> nat \<Rightarrow> u32 list \<Rightarrow> u32 list" where
  "shift_down j 0 cbs = cbs"
| "shift_down j (Suc k) cbs = shift_down (Suc j) k (cbs[j := cbs ! Suc j])"

lemma length_shift_down [simp]: "length (shift_down j k cbs) = length cbs"
  by (induction j k cbs rule: shift_down.induct) simp_all

lemma nth_shift_down:
  "j + k < length cbs \<Longrightarrow> i < length cbs \<Longrightarrow> shift_down j k cbs ! i = (if j \<le> i \<and> i < j + k then cbs ! Suc i else cbs ! i)"
proof (induction j k cbs rule: shift_down.induct)
  case (2 j k cbs)
  then show ?case by (auto simp: nth_list_update Suc_le_eq)
qed auto

text \<open>The first \<open>n\<close> slots are in use.\<close>

definition slots :: "nat \<Rightarrow> u32 list \<Rightarrow> bool" where
  "slots n cs \<longleftrightarrow> n \<le> length cs \<and> (\<forall>i. n \<le> i \<and> i < length cs \<longrightarrow> cs ! i = 0)"

lemma slots_append:
  assumes "slots n cs" and "n < length cs"
  shows "slots (Suc n) (cs[n := c])" and "take (Suc n) (cs[n := c]) = take n cs @ [c]"
  using assms by (auto simp: slots_def nth_list_update take_Suc_conv_app_nth)

lemma slots_absent: "find (\<lambda>i. cs ! i = c) [0..<n] = None \<Longrightarrow> n \<le> length cs \<Longrightarrow> c \<notin> set (take n cs)"
  by (auto simp: find_None_iff in_set_conv_nth)

lemma slots_remove:
  assumes "slots n cs" and found: "find (\<lambda>i. cs ! i = c) [0..<n] = Some i"
    and cs': "cs' = (shift_down i (n - 1 - i) cs)[n - 1 := 0]"
  shows "slots (n - 1) cs'" and "take (n - 1) cs' = remove1 c (take n cs)" and "length cs' = length cs"
proof -
  have len: "n \<le> length cs" and z: "\<And>i. n \<le> i \<Longrightarrow> i < length cs \<Longrightarrow> cs ! i = 0" using assms(1) by (simp_all add: slots_def)
  have i: "i < n" "cs ! i = c" "\<And>j. j < i \<Longrightarrow> cs ! j \<noteq> c" using found by (auto simp: find_Some_iff)
  show length: "length cs' = length cs" by (simp add: cs')
  have nth: "cs' ! j = (if j = n - 1 then 0 else if i \<le> j \<and> j < n - 1 then cs ! Suc j else cs ! j)" if "j < length cs" for j
    using that i(1) len nth_shift_down [of i "n - 1 - i" cs j] by (auto simp: cs' nth_list_update)
  show "slots (n - 1) cs'"
    unfolding slots_def length
  proof (intro conjI allI impI)
    fix j assume "n - 1 \<le> j \<and> j < length cs"
    then show "cs' ! j = 0" using nth [of j] z [of j] i(1) by (cases "j = n - 1") auto
  qed (use len in simp)
  have split: "take n cs = take i cs @ c # drop (Suc i) (take n cs)"
    using i len id_take_nth_drop [of i "take n cs"] by (simp add: min_def)
  have "c \<notin> set (take i cs)" using i(3) len i(1) by (auto simp: in_set_conv_nth)
  then have r: "remove1 c (take n cs) = take i cs @ drop (Suc i) (take n cs)"
    by (subst split) (simp add: remove1_append)
  show "take (n - 1) cs' = remove1 c (take n cs)"
    unfolding r
  proof (rule nth_equalityI)
    show "length (take (n - 1) cs') = length (take i cs @ drop (Suc i) (take n cs))" using len i(1) by (simp add: length)
    fix j assume "j < length (take (n - 1) cs')"
    then have "j < n - 1" "j < length cs" using len by (simp_all add: length)
    then show "take (n - 1) cs' ! j = (take i cs @ drop (Suc i) (take n cs)) ! j"
      using nth [of j] len i(1) by (simp add: nth_append)
  qed
qed

end
