(* ===== verification/Timer.thy ===== *)
theory Timer
  imports ProcessProps Interrupts Slots
begin

text \<open>
  The system timer (\<open>drivers/timer.c\<close>): ticks, the clock, callbacks and the call of the
  scheduler on every tick. Callbacks are function pointers: addresses, called through the
  parameter \<open>call\<close>. The interval timer chip is programmed through ports; the two port
  operations work on the input and output part of the machine and are in \<open>timer_ports\<close>.
\<close>

unbundle bit_operations_syntax

definition TIMER_FREQUENCY :: u32 where "TIMER_FREQUENCY = 1000"
definition TIMER_COMMAND_PORT :: u16 where "TIMER_COMMAND_PORT = 0x43"
definition TIMER_DATA_PORT_0 :: u16 where "TIMER_DATA_PORT_0 = 0x40"
definition PIT_CHANNEL_0 :: u8 where "PIT_CHANNEL_0 = 0x00"
definition PIT_ACCESS_LOHIBYTE :: u8 where "PIT_ACCESS_LOHIBYTE = 0x30"
definition PIT_MODE_SQUARE_WAVE :: u8 where "PIT_MODE_SQUARE_WAVE = 0x06"
definition MAX_TIMER_CALLBACKS :: nat where "MAX_TIMER_CALLBACKS = 10"

record system_time =
  seconds :: u32
  minutes :: u32
  hours :: u32
  days :: u32

record timer_stats =
  total_ticks :: u32
  interrupts_per_second :: u32
  missed_ticks :: u32
  scheduler_calls :: u32

record timer = scheduler +
  system_time :: system_time
  timer_stats :: timer_stats
  measurement_start :: u32
  timer_callbacks :: "u32 list"
  callback_count :: nat

section \<open>Operations\<close>

definition timer_set_frequency :: "u32 \<Rightarrow> 'a io_scheme \<Rightarrow> 'a io_scheme" where
  "timer_set_frequency frequency st =
     (let divisor = 1193180 div frequency;
          st = outb TIMER_COMMAND_PORT (PIT_CHANNEL_0 OR PIT_ACCESS_LOHIBYTE OR PIT_MODE_SQUARE_WAVE) st;
          st = outb TIMER_DATA_PORT_0 (ucast (divisor AND 0xFF)) st
      in outb TIMER_DATA_PORT_0 (ucast (drop_bit 8 divisor AND 0xFF)) st)"

text \<open>\<open>timer_init\<close> works on two disjoint parts of the state: the chip and the handler table, and the counters.\<close>

definition timer_init :: "'a interrupts_scheme \<Rightarrow> 'b timer_scheme \<Rightarrow> 'a interrupts_scheme \<times> 'b timer_scheme" where
  "timer_init io st =
     (register_interrupt_handler 32 Timer_handler (timer_set_frequency TIMER_FREQUENCY io),
      st\<lparr>timer_stats := \<lparr>total_ticks = 0, interrupts_per_second = 0, missed_ticks = 0, scheduler_calls = 0\<rparr>,
         timer_callbacks := replicate MAX_TIMER_CALLBACKS 0, callback_count := 0\<rparr>)"

definition timer_update_system_time :: "'a timer_scheme \<Rightarrow> 'a timer_scheme" where
  "timer_update_system_time st =
     (let t = (system_time st)\<lparr>seconds := seconds (system_time st) + 1\<rparr>;
          t = (if 60 \<le> seconds t then
                 let t = t\<lparr>seconds := 0, minutes := minutes t + 1\<rparr> in
                 if 60 \<le> minutes t then
                   let t = t\<lparr>minutes := 0, hours := hours t + 1\<rparr> in
                   if 24 \<le> hours t then t\<lparr>hours := 0, days := days t + 1\<rparr> else t
                 else t
               else t)
      in st\<lparr>system_time := t\<rparr>)"

text \<open>The callbacks are called in the order of the array; null entries are skipped. The loop reads the count and
  the array anew in every round, so a callback may change both; the bound of ten rounds is the array's.\<close>

fun callback_loop :: "(u32 \<Rightarrow> 'a timer_scheme \<Rightarrow> 'a timer_scheme) \<Rightarrow> nat \<Rightarrow> nat \<Rightarrow> 'a timer_scheme \<Rightarrow> 'a timer_scheme" where
  "callback_loop call 0 i st = st"
| "callback_loop call (Suc k) i st =
     (if i < callback_count st then
        callback_loop call k (Suc i) (if timer_callbacks st ! i \<noteq> 0 then call (timer_callbacks st ! i) st else st)
      else st)"

definition timer_handler :: "(u32 \<Rightarrow> 'a timer_scheme \<Rightarrow> 'a timer_scheme) \<Rightarrow> registers \<Rightarrow> 'a timer_scheme \<Rightarrow> 'a timer_scheme" where
  "timer_handler call regs st =
     (let st = st\<lparr>timer_ticks := timer_ticks st + 1\<rparr>;
          st = st\<lparr>timer_stats := (timer_stats st)\<lparr>total_ticks := total_ticks (timer_stats st) + 1\<rparr>\<rparr>;
          st = (if timer_ticks st mod 1000 = 0 then
                  let st = timer_update_system_time st
                  in st\<lparr>timer_stats := (timer_stats st)\<lparr>interrupts_per_second := 1000\<rparr>\<rparr>
                else st);
          st = callback_loop call MAX_TIMER_CALLBACKS 0 st
      in if is_multitasking_enabled st then
           let st = scheduler_tick st
           in st\<lparr>timer_stats := (timer_stats st)\<lparr>scheduler_calls := scheduler_calls (timer_stats st) + 1\<rparr>\<rparr>
         else st)"

definition timer_get_ticks :: "'a kernel_scheme \<Rightarrow> u32" where
  "timer_get_ticks st = timer_ticks st"

definition timer_get_system_time :: "'a timer_scheme \<Rightarrow> system_time" where
  "timer_get_system_time st =
     \<lparr>seconds = seconds (system_time st), minutes = minutes (system_time st), hours = hours (system_time st),
      days = days (system_time st)\<rparr>"

text \<open>Sleeping is a busy wait on \<open>timer_ticks\<close>: each round of the loop sees the timer interrupts that arrive during
  it, given by the list of their numbers; when the list is used up the loop has not returned.\<close>

fun sleep_loop :: "(u32 \<Rightarrow> 'a timer_scheme \<Rightarrow> 'a timer_scheme) \<Rightarrow> u32 \<Rightarrow> nat list \<Rightarrow> 'a timer_scheme \<Rightarrow> 'a timer_scheme option" where
  "sleep_loop call target rounds st =
     (if timer_ticks st < target then
        (case rounds of
           [] \<Rightarrow> None
         | n # rs \<Rightarrow>
             let st = (if is_multitasking_enabled st then scheduler_yield st else st)
             in sleep_loop call target rs ((timer_handler call undefined ^^ n) st))
      else Some st)"

declare sleep_loop.simps [simp del]

definition timer_sleep :: "(u32 \<Rightarrow> 'a timer_scheme \<Rightarrow> 'a timer_scheme) \<Rightarrow> u32 \<Rightarrow> nat list \<Rightarrow> 'a timer_scheme \<Rightarrow> 'a timer_scheme option" where
  "timer_sleep call milliseconds rounds st =
     (let start_ticks = timer_ticks st; target_ticks = start_ticks + milliseconds in sleep_loop call target_ticks rounds st)"

definition timer_register_callback :: "u32 \<Rightarrow> 'a timer_scheme \<Rightarrow> 'a timer_scheme" where
  "timer_register_callback callback st =
     (if callback_count st < MAX_TIMER_CALLBACKS
      then st\<lparr>timer_callbacks := (timer_callbacks st)[callback_count st := callback], callback_count := callback_count st + 1\<rparr>
      else st)"

definition timer_unregister_callback :: "u32 \<Rightarrow> 'a timer_scheme \<Rightarrow> 'a timer_scheme" where
  "timer_unregister_callback callback st =
     (case find (\<lambda>i. timer_callbacks st ! i = callback) [0..<callback_count st] of
        None \<Rightarrow> st
      | Some i \<Rightarrow>
          st\<lparr>timer_callbacks := (shift_down i (callback_count st - 1 - i) (timer_callbacks st))[callback_count st - 1 := 0],
             callback_count := callback_count st - 1\<rparr>)"

definition timer_start_measurement :: "'a timer_scheme \<Rightarrow> 'a timer_scheme" where
  "timer_start_measurement st = st\<lparr>measurement_start := timer_ticks st\<rparr>"

definition timer_end_measurement :: "'a timer_scheme \<Rightarrow> u32" where
  "timer_end_measurement st = timer_ticks st - measurement_start st"

section \<open>The clock\<close>

text \<open>The clock reads \<open>n\<close> seconds: days, hours, minutes and seconds are its digits.\<close>

definition clock_reads :: "nat \<Rightarrow> system_time \<Rightarrow> bool" where
  "clock_reads n t \<longleftrightarrow> unat (seconds t) = n mod 60 \<and> unat (minutes t) = n div 60 mod 60
     \<and> unat (hours t) = n div 3600 mod 24 \<and> unat (days t) = n div 86400"

lemma unat_plus_one_u32: "unat (a :: u32) < 4294967295 \<Longrightarrow> unat (a + 1) = Suc (unat a)"
  by (simp add: unat_add_u32)

lemma clock_step:
  assumes "clock_reads n (system_time st)" and "n < 86400 * 4294967295"
  shows "clock_reads (Suc n) (system_time (timer_update_system_time st))"
proof -
  define s m h d where "s = n mod 60" and "m = n div 60 mod 60" and "h = n div 3600 mod 24" and "d = n div 86400"
  have b: "s < 60" "m < 60" "h < 24" "d < 4294967295"
    using assms(2) by (simp_all add: s_def m_def h_def d_def div_less_iff_less_mult)
  have n: "n = d * 86400 + h * 3600 + m * 60 + s"
  proof -
    have q2: "n div 60 div 60 = n div 3600" using div_mult2_eq [of n 60 60] by simp
    have q3: "n div 3600 div 24 = n div 86400" using div_mult2_eq [of n 3600 24] by simp
    have e1: "n = n div 60 * 60 + s" unfolding s_def by (rule div_mult_mod_eq [symmetric])
    have e2: "n div 60 = n div 3600 * 60 + m" unfolding m_def q2 [symmetric] by (rule div_mult_mod_eq [symmetric])
    have e3: "n div 3600 = d * 24 + h" unfolding h_def d_def q3 [symmetric] by (rule div_mult_mod_eq [symmetric])
    show ?thesis using e1 unfolding e2 e3 by simp
  qed
  have t: "unat (seconds (system_time st)) = s" "unat (minutes (system_time st)) = m" "unat (hours (system_time st)) = h"
    "unat (days (system_time st)) = d"
    using assms(1) by (simp_all add: clock_reads_def s_def m_def h_def d_def)
  have p: "unat (seconds (system_time st) + 1) = Suc s" "unat (minutes (system_time st) + 1) = Suc m"
    "unat (hours (system_time st) + 1) = Suc h" "unat (days (system_time st) + 1) = Suc d"
    using t b by (simp_all add: unat_plus_one_u32)
  have le: "60 \<le> seconds (system_time st) + 1 \<longleftrightarrow> s = 59" "60 \<le> minutes (system_time st) + 1 \<longleftrightarrow> m = 59"
    "24 \<le> hours (system_time st) + 1 \<longleftrightarrow> h = 23"
    using p b by (auto simp: word_le_nat_alt)
  have digits: "(e * 86400 + k * 3600 + j * 60 + i) mod 60 = i \<and> (e * 86400 + k * 3600 + j * 60 + i) div 60 mod 60 = j
      \<and> (e * 86400 + k * 3600 + j * 60 + i) div 3600 mod 24 = k \<and> (e * 86400 + k * 3600 + j * 60 + i) div 86400 = e"
    if "i < 60" "j < 60" "k < 24" for e k j i :: nat
  proof -
    define x where "x = e * 86400 + k * 3600 + j * 60 + i"
    define q1 q2 where "q1 = e * 1440 + k * 60 + j" and "q2 = e * 24 + k"
    have x1: "x = 60 * q1 + i" and x2: "q1 = 60 * q2 + j" by (simp_all add: x_def q1_def q2_def)
    have d1: "x div 60 = q1" "x mod 60 = i" using that(1) by (simp_all add: x1)
    have d2: "x div 60 div 60 = q2" "x div 60 mod 60 = j" unfolding d1(1) using that(2) by (simp_all add: x2)
    have q3: "q2 div 24 = e" "q2 mod 24 = k" using that(3) by (simp_all add: q2_def)
    have d3: "x div 3600 = q2" using d2(1) div_mult2_eq [of x 60 60] by simp
    have d4: "x div 86400 = e" using q3(1) div_mult2_eq [of x 3600 24] d3 by simp
    show ?thesis unfolding x_def [symmetric] using d1 d2 d3 d4 q3(2) by simp
  qed
  have rd: "clock_reads (e * 86400 + k * 3600 + j * 60 + i) t \<longleftrightarrow> unat (seconds t) = i \<and> unat (minutes t) = j
      \<and> unat (hours t) = k \<and> unat (days t) = e" if "i < 60" "j < 60" "k < 24" for e k j i t
    using digits [OF that] by (simp only: clock_reads_def)
  consider "s \<noteq> 59" | "s = 59" "m \<noteq> 59" | "s = 59" "m = 59" "h \<noteq> 23" | "s = 59" "m = 59" "h = 23" by blast
  then show ?thesis
  proof cases
    case 1
    have "Suc n = d * 86400 + h * 3600 + m * 60 + Suc s" using n by simp
    then show ?thesis
      by (simp only:) (subst rd; use 1 b p t le in \<open>simp add: timer_update_system_time_def Let_def\<close>)
  next
    case 2
    have "Suc n = d * 86400 + h * 3600 + Suc m * 60 + 0" using n 2 by simp
    then show ?thesis
      by (simp only:) (subst rd; use 2 b p t le in \<open>simp add: timer_update_system_time_def Let_def\<close>)
  next
    case 3
    have "Suc n = d * 86400 + Suc h * 3600 + 0 * 60 + 0" using n 3 by simp
    then show ?thesis
      by (simp only:) (subst rd; use 3 b p t le in \<open>simp add: timer_update_system_time_def Let_def\<close>)
  next
    case 4
    have "Suc n = Suc d * 86400 + 0 * 3600 + 0 * 60 + 0" using n 4 by simp
    then show ?thesis
      by (simp only:) (subst rd; use 4 b p t le in \<open>simp add: timer_update_system_time_def Let_def\<close>)
  qed
qed

end
