(* ===== verification/TimerProps.thy ===== *)
theory TimerProps
  imports Timer
begin

text \<open>
  What the timer promises: the clock shows the uptime, sleeping returns once enough interrupts
  have arrived (and at once when the deadline wraps around), and the callback array behaves as a
  bounded list.
\<close>

section \<open>Operations that do not touch the clock\<close>

lemma scheduler_keeps_clock:
  "timer_ticks (scheduler_schedule st) = timer_ticks st" "timer_ticks (scheduler_tick st) = timer_ticks st"
  "multitasking_enabled (scheduler_schedule st) = multitasking_enabled st"
  "multitasking_enabled (scheduler_tick st) = multitasking_enabled st"
proof -
  have add: "timer_ticks (scheduler_add_process p st) = timer_ticks st"
    "multitasking_enabled (scheduler_add_process p st) = multitasking_enabled st" for p and st :: "'a scheduler_scheme"
    by (simp_all add: scheduler_add_process_def Let_def split: option.split)
  have req: "timer_ticks (requeue_current st) = timer_ticks st"
    "multitasking_enabled (requeue_current st) = multitasking_enabled st" for st :: "'a scheduler_scheme"
    by (simp_all add: requeue_current_def Let_def save_context_def add split: option.split)
  have nxt: "timer_ticks (snd (get_next_process st)) = timer_ticks st"
    "multitasking_enabled (snd (get_next_process st)) = multitasking_enabled st" for st :: "'a scheduler_scheme"
    by (simp_all add: get_next_process_def Let_def split: option.split)
  have sw: "timer_ticks (vmm_switch_page_directory d st) = timer_ticks st"
    "multitasking_enabled (vmm_switch_page_directory d st) = multitasking_enabled st" for d and st :: "'a scheduler_scheme"
    by (simp_all add: vmm_switch_page_directory_def vmm_load_page_directory_def)
  show s: "timer_ticks (scheduler_schedule st) = timer_ticks st"
    "multitasking_enabled (scheduler_schedule st) = multitasking_enabled st" for st :: "'a scheduler_scheme"
    using nxt [of st]
    by (auto simp: scheduler_schedule_def Let_def load_context_def req sw split: option.split prod.split)
  show "timer_ticks (scheduler_tick st) = timer_ticks st" "multitasking_enabled (scheduler_tick st) = multitasking_enabled st"
    by (simp_all add: scheduler_tick_def scheduler_yield_def Let_def s split: option.split)
qed

lemma scheduler_keeps_timer:
  fixes st :: "'a timer_scheme"
  shows "system_time (scheduler_schedule st) = system_time st" "system_time (scheduler_tick st) = system_time st"
proof -
  have up: "system_time (update_process p f st) = system_time st" for p f and st :: "'a timer_scheme"
    by (simp add: update_process_def)
  have add: "system_time (scheduler_add_process p st) = system_time st" for p and st :: "'a timer_scheme"
    by (simp add: scheduler_add_process_def Let_def up split: option.split)
  have req: "system_time (requeue_current st) = system_time st" for st :: "'a timer_scheme"
    by (simp add: requeue_current_def Let_def save_context_def add up split: option.split)
  have nxt: "system_time (snd (get_next_process st)) = system_time st" for st :: "'a timer_scheme"
    by (simp add: get_next_process_def Let_def up split: option.split)
  have sw: "system_time (vmm_switch_page_directory d st) = system_time st" for d and st :: "'a timer_scheme"
    by (simp add: vmm_switch_page_directory_def vmm_load_page_directory_def)
  show s: "system_time (scheduler_schedule st) = system_time st" for st :: "'a timer_scheme"
    using nxt [of st] by (auto simp: scheduler_schedule_def Let_def load_context_def req sw up split: option.split prod.split)
  show "system_time (scheduler_tick st) = system_time st"
    by (simp add: scheduler_tick_def scheduler_yield_def Let_def s up split: option.split)
qed

text \<open>Callbacks that leave the clock alone.\<close>

definition quiet :: "(u32 \<Rightarrow> 'a timer_scheme \<Rightarrow> 'a timer_scheme) \<Rightarrow> bool" where
  "quiet call \<longleftrightarrow> (\<forall>a st. timer_ticks (call a st) = timer_ticks st \<and> system_time (call a st) = system_time st)"

lemma callback_loop_quiet:
  "quiet call \<Longrightarrow> timer_ticks (callback_loop call k i st) = timer_ticks st \<and> system_time (callback_loop call k i st) = system_time st"
  by (induction call k i st rule: callback_loop.induct) (simp_all add: quiet_def)

lemma timer_handler_clock:
  assumes "quiet call"
  shows "timer_ticks (timer_handler call regs st) = timer_ticks st + 1"
    and "system_time (timer_handler call regs st) = (if (timer_ticks st + 1) mod 1000 = 0
      then system_time (timer_update_system_time st) else system_time st)"
proof -
  have up: "system_time (timer_update_system_time (st\<lparr>timer_ticks := t, timer_stats := u\<rparr>)) = system_time (timer_update_system_time st)"
    "timer_ticks (timer_update_system_time (st\<lparr>timer_ticks := t, timer_stats := u\<rparr>)) = t" for t u
    by (simp_all add: timer_update_system_time_def Let_def)
  show "timer_ticks (timer_handler call regs st) = timer_ticks st + 1"
    "system_time (timer_handler call regs st) = (if (timer_ticks st + 1) mod 1000 = 0
      then system_time (timer_update_system_time st) else system_time st)"
    by (simp_all add: timer_handler_def Let_def callback_loop_quiet [OF assms] scheduler_keeps_clock scheduler_keeps_timer up)
qed

text \<open>C34: The clock: when the callbacks leave it alone, \<open>n\<close> timer interrupts after the start the tick counter is \<open>n\<close>
  and the system time shows \<open>n div 1000\<close> seconds as days, hours, minutes and seconds, as long as the tick
  counter does not wrap around.\<close>

theorem timer_clock_shows_uptime:
  assumes "quiet call" and "timer_ticks st = 0" and "clock_reads 0 (system_time st)" and "n < 4294967296"
  shows "unat (timer_ticks ((timer_handler call regs ^^ n) st)) = n
    \<and> clock_reads (n div 1000) (system_time ((timer_handler call regs ^^ n) st))"
  using assms(4)
proof (induction n)
  case 0
  then show ?case using assms(2,3) by simp
next
  case (Suc n)
  define t where "t = (timer_handler call regs ^^ n) st"
  have t: "unat (timer_ticks t) = n" "clock_reads (n div 1000) (system_time t)" using Suc by (simp_all add: t_def)
  note h = timer_handler_clock [OF assms(1), of regs t]
  have u: "unat (timer_ticks t + 1) = Suc n" using t(1) Suc.prems by (simp add: unat_plus_one_u32)
  have m: "(timer_ticks t + 1) mod 1000 = 0 \<longleftrightarrow> Suc n mod 1000 = 0" using u by (simp add: word_unat_eq_iff unat_mod)
  have "n div 1000 < 86400 * 4294967295" using Suc.prems by simp
  note step = clock_step [OF t(2) this]
  have "clock_reads (Suc n div 1000) (system_time (timer_handler call regs t))"
  proof (cases "Suc n mod 1000 = 0")
    case True
    then have "Suc n div 1000 = Suc (n div 1000)" by (simp add: div_Suc)
    then show ?thesis using step m True by (simp add: h(2))
  next
    case False
    then have "Suc n div 1000 = n div 1000" by (simp add: div_Suc)
    then show ?thesis using t(2) m False by (simp add: h(2))
  qed
  then show ?case using u by (simp add: t_def [symmetric] h(1))
qed

definition timer_boot :: timer where
  "timer_boot = \<lparr>mem = (\<lambda>_. 0), bitmap = 0, bitmap_size = 0, total_frames = 0, free_frames = 0, first_free_frame = 0,
      current_page_directory = 0, kernel_page_directory = 0, cr3 = 0, paging_enabled = False, tlb_flushes = 0,
      process_table = [], current_process = None, next_pid = 1, multitasking_enabled = False, timer_ticks = 0,
      ready_queue = \<lparr>head = None, tail = None, count = 0\<rparr>,
      sched_stats = \<lparr>total_processes = 0, running_processes = 0, context_switches = 0, time_slices = 0, idle_time = 0\<rparr>,
      scheduler_enabled = False, system_time = \<lparr>seconds = 0, minutes = 0, hours = 0, days = 0\<rparr>,
      timer_stats = \<lparr>total_ticks = 0, interrupts_per_second = 0, missed_ticks = 0, scheduler_calls = 0\<rparr>,
      measurement_start = 0, timer_callbacks = replicate 10 0, callback_count = 0\<rparr>"

lemma timer_clock_shows_uptime_witness:
  "minutes (system_time ((timer_handler (\<lambda>_ s. s) undefined ^^ 90061000) timer_boot)) = 1"
proof -
  have q: "quiet (\<lambda>_ s. s)" by (simp add: quiet_def)
  have "clock_reads (90061000 div 1000) (system_time ((timer_handler (\<lambda>_ s. s) undefined ^^ 90061000) timer_boot))"
    using timer_clock_shows_uptime [OF q, of timer_boot 90061000 undefined] by (simp add: timer_boot_def clock_reads_def)
  then show ?thesis by (simp add: clock_reads_def word_unat_eq_iff)
qed

section \<open>Sleeping\<close>

lemma handler_ticks:
  "quiet call \<Longrightarrow> unat (timer_ticks st) + n < 4294967296 \<Longrightarrow>
    unat (timer_ticks ((timer_handler call regs ^^ n) st)) = unat (timer_ticks st) + n"
proof (induction n)
  case (Suc n)
  then show ?case by (simp add: timer_handler_clock unat_plus_one_u32)
qed simp

lemma sleep_loop_returns:
  assumes "quiet call"
  shows "unat (timer_ticks st) + sum_list rounds < 4294967296 \<Longrightarrow> unat target \<le> unat (timer_ticks st) + sum_list rounds \<Longrightarrow>
    \<exists>st'. sleep_loop call target rounds st = Some st' \<and> unat target \<le> unat (timer_ticks st')"
proof (induction rounds arbitrary: st)
  case Nil
  then have "\<not> timer_ticks st < target" by (simp add: word_less_nat_alt)
  then show ?case using Nil by (subst sleep_loop.simps) simp
next
  case (Cons n rs)
  show ?case
  proof (cases "timer_ticks st < target")
    case False
    then show ?thesis by (subst sleep_loop.simps) (simp add: word_less_nat_alt)
  next
    case True
    define st1 where "st1 = (if is_multitasking_enabled st then scheduler_yield st else st)"
    define st2 where "st2 = (timer_handler call undefined ^^ n) st1"
    have t1: "timer_ticks st1 = timer_ticks st" by (simp add: st1_def scheduler_yield_def scheduler_keeps_clock)
    have "unat (timer_ticks st2) = unat (timer_ticks st) + n"
      unfolding st2_def using handler_ticks [OF assms, of st1 n undefined] Cons.prems t1 by simp
    then have "\<exists>st'. sleep_loop call target rs st2 = Some st' \<and> unat target \<le> unat (timer_ticks st')"
      using Cons.IH [of st2] Cons.prems by (simp add: add.assoc)
    then show ?thesis using True by (subst sleep_loop.simps) (simp add: st1_def [symmetric] st2_def [symmetric] Let_def)
  qed
qed

text \<open>Sleeping returns, not before its deadline, once as many timer interrupts have arrived as it was asked for,
  also while other processes are switched to in between; but when start and duration add up past \<open>2 ^ 32\<close>
  the deadline wraps around to a time already past and the call returns at once.\<close>

theorem timer_sleep_returns:
  assumes "quiet call"
  shows "(unat (timer_ticks st) + sum_list rounds < 4294967296 \<and> unat ms \<le> sum_list rounds \<longrightarrow>
      (\<exists>st'. timer_sleep call ms rounds st = Some st' \<and> unat (timer_ticks st) + unat ms \<le> unat (timer_ticks st')))
    \<and> (4294967296 \<le> unat (timer_ticks st) + unat ms \<longrightarrow> timer_sleep call ms rounds st = Some st)"
proof (intro conjI impI)
  assume a: "unat (timer_ticks st) + sum_list rounds < 4294967296 \<and> unat ms \<le> sum_list rounds"
  then have "unat (timer_ticks st + ms) = unat (timer_ticks st) + unat ms" by (intro unat_add_u32) simp
  then show "\<exists>st'. timer_sleep call ms rounds st = Some st' \<and> unat (timer_ticks st) + unat ms \<le> unat (timer_ticks st')"
    using sleep_loop_returns [OF assms, of st rounds "timer_ticks st + ms"] a by (simp add: timer_sleep_def Let_def)
next
  assume a: "4294967296 \<le> unat (timer_ticks st) + unat ms"
  have "unat (timer_ticks st + ms) = (unat (timer_ticks st) + unat ms) mod 4294967296" by (simp add: unat_word_ariths)
  also have "\<dots> = unat (timer_ticks st) + unat ms - 4294967296"
    using a unat_u32_bound [of ms] unat_u32_bound [of "timer_ticks st"] by (simp add: le_mod_geq del: unat_u32_bound)
  finally have "\<not> timer_ticks st < timer_ticks st + ms"
    using unat_u32_bound [of ms] by (simp add: word_less_nat_alt del: unat_u32_bound)
  then show "timer_sleep call ms rounds st = Some st"
    by (simp add: timer_sleep_def Let_def sleep_loop.simps [of call _ rounds st])
qed

lemma timer_sleep_returns_witness:
  "(\<exists>st'. timer_sleep (\<lambda>_ s. s) 5 [1, 2, 3] timer_boot = Some st' \<and> 5 \<le> unat (timer_ticks st'))
    \<and> timer_sleep (\<lambda>_ s. s) 100 [] (timer_boot\<lparr>timer_ticks := 0xFFFFFFF0\<rparr>) = Some (timer_boot\<lparr>timer_ticks := 0xFFFFFFF0\<rparr>)"
proof -
  have q: "quiet (\<lambda>_ s. s)" by (simp add: quiet_def)
  show ?thesis
    using timer_sleep_returns [OF q, of timer_boot "[1, 2, 3]" 5] timer_sleep_returns [OF q, of "timer_boot\<lparr>timer_ticks := 0xFFFFFFF0\<rparr>" "[]" 100]
    by (simp add: timer_boot_def)
qed

section \<open>Callbacks\<close>

definition callbacks_inv :: "'a timer_scheme \<Rightarrow> bool" where
  "callbacks_inv st \<longleftrightarrow> length (timer_callbacks st) = 10 \<and> slots (callback_count st) (timer_callbacks st)"

definition callbacks_of :: "'a timer_scheme \<Rightarrow> u32 list" where
  "callbacks_of st = take (callback_count st) (timer_callbacks st)"

text \<open>The callback array is a list of at most ten entries: registering appends, and does nothing when the list is
  full; unregistering removes the first entry for the callback, keeps the order of the rest and clears the
  slot that falls free.\<close>

theorem timer_callbacks_refine:
  assumes "callbacks_inv st"
  shows "callbacks_inv (timer_register_callback cb st) \<and> callbacks_of (timer_register_callback cb st)
      = (if length (callbacks_of st) < 10 then callbacks_of st @ [cb] else callbacks_of st)
    \<and> callbacks_inv (timer_unregister_callback cb st)
    \<and> callbacks_of (timer_unregister_callback cb st) = remove1 cb (callbacks_of st)"
proof -
  define n where "n = callback_count st"
  define cs where "cs = timer_callbacks st"
  have len: "length cs = 10" and s: "slots n cs" using assms by (simp_all add: callbacks_inv_def n_def cs_def)
  then have n: "n \<le> 10" by (simp add: slots_def)
  have reg: "callbacks_inv (timer_register_callback cb st)" "callbacks_of (timer_register_callback cb st)
      = (if length (callbacks_of st) < 10 then callbacks_of st @ [cb] else callbacks_of st)"
    using assms len n slots_append [OF s, of cb] by (auto simp: timer_register_callback_def callbacks_inv_def callbacks_of_def
        MAX_TIMER_CALLBACKS_def n_def [symmetric] cs_def [symmetric])
  have unreg: "callbacks_inv (timer_unregister_callback cb st) \<and> callbacks_of (timer_unregister_callback cb st) = remove1 cb (callbacks_of st)"
  proof (cases "find (\<lambda>i. cs ! i = cb) [0..<n]")
    case None
    then show ?thesis using assms slots_absent [OF None] len n
      by (simp add: timer_unregister_callback_def callbacks_of_def n_def [symmetric] cs_def [symmetric] remove1_idem)
  next
    case (Some i)
    then show ?thesis using slots_remove [OF s Some refl] len
      by (simp add: timer_unregister_callback_def callbacks_inv_def callbacks_of_def n_def [symmetric] cs_def [symmetric])
  qed
  show ?thesis using reg unreg by blast
qed

lemma timer_callbacks_refine_witness:
  "callbacks_of (timer_unregister_callback 7 (timer_register_callback 9 (timer_register_callback 7 timer_boot))) = [9]"
proof -
  have "callbacks_inv timer_boot" "callbacks_of timer_boot = []" by (simp_all add: callbacks_inv_def slots_def timer_boot_def callbacks_of_def)
  then show ?thesis
    using timer_callbacks_refine [of timer_boot 7] timer_callbacks_refine [of "timer_register_callback 7 timer_boot" 9]
      timer_callbacks_refine [of "timer_register_callback 9 (timer_register_callback 7 timer_boot)" 7] by simp
qed

end
