(* ===== verification/Disk.thy ===== *)
theory Disk
  imports Ports CMemory
begin

text \<open>
  The ATA disk driver (\<open>drivers/disk.c\<close>, \<open>include/disk.h\<close>). What the drives answer is not the
  program's: the status bytes still to come are the stream of the port (theory Ports), and the data
  words still to come on a data port are a second stream; the words sent are a log. A caller's
  buffer is in the byte memory. The polling loops have the code's own bound of a million reads. The
  log output is left out.
\<close>

unbundle bit_operations_syntax

section \<open>State\<close>

definition DISK_TYPE_FLOPPY :: u8 where "DISK_TYPE_FLOPPY = 1"
definition DISK_TYPE_ATA :: u8 where "DISK_TYPE_ATA = 2"
definition ATA_PRIMARY_BASE :: u16 where "ATA_PRIMARY_BASE = 0x1F0"
definition ATA_SECONDARY_BASE :: u16 where "ATA_SECONDARY_BASE = 0x170"
definition ATA_REG_DATA :: u16 where "ATA_REG_DATA = 0"
definition ATA_REG_SECTOR_COUNT :: u16 where "ATA_REG_SECTOR_COUNT = 2"
definition ATA_REG_LBA_LOW :: u16 where "ATA_REG_LBA_LOW = 3"
definition ATA_REG_LBA_MID :: u16 where "ATA_REG_LBA_MID = 4"
definition ATA_REG_LBA_HIGH :: u16 where "ATA_REG_LBA_HIGH = 5"
definition ATA_REG_DRIVE_HEAD :: u16 where "ATA_REG_DRIVE_HEAD = 6"
definition ATA_REG_STATUS :: u16 where "ATA_REG_STATUS = 7"
definition ATA_REG_COMMAND :: u16 where "ATA_REG_COMMAND = 7"
definition ATA_STATUS_BSY :: u8 where "ATA_STATUS_BSY = 0x80"
definition ATA_STATUS_RDY :: u8 where "ATA_STATUS_RDY = 0x40"
definition ATA_STATUS_DRQ :: u8 where "ATA_STATUS_DRQ = 0x08"
definition ATA_STATUS_ERR :: u8 where "ATA_STATUS_ERR = 0x01"
definition ATA_CMD_READ_SECTORS :: u8 where "ATA_CMD_READ_SECTORS = 0x20"
definition ATA_CMD_WRITE_SECTORS :: u8 where "ATA_CMD_WRITE_SECTORS = 0x30"
definition ATA_CMD_IDENTIFY :: u8 where "ATA_CMD_IDENTIFY = 0xEC"
definition MAX_DRIVES :: nat where "MAX_DRIVES = 4"

record disk_geometry =
  cylinders :: u32
  heads :: u32
  sectors_per_track :: u32
  geometry_sector_size :: u32
  geometry_total_sectors :: u32

record disk_info =
  drive_number :: u8
  disk_type :: u8
  drive_model :: "u8 list"
  drive_serial :: "u8 list"
  total_sectors :: u32
  sector_size :: u32
  geometry :: disk_geometry
  present :: bool

definition zero_drive :: disk_info where
  "zero_drive = \<lparr>drive_number = 0, disk_type = 0, drive_model = replicate 41 0, drive_serial = replicate 21 0,
     total_sectors = 0, sector_size = 0,
     geometry = \<lparr>cylinders = 0, heads = 0, sectors_per_track = 0, geometry_sector_size = 0, geometry_total_sectors = 0\<rparr>,
     present = False\<rparr>"

record disk = io +
  words_in :: "u16 \<Rightarrow> nat \<Rightarrow> u16"
  words_out :: "(u16 \<times> u16) list"
  disk_mem :: mem
  drives :: "disk_info list"
  drives_detected :: nat

definition inw :: "u16 \<Rightarrow> 'a disk_scheme \<Rightarrow> u16 \<times> 'a disk_scheme" where
  "inw port st = (words_in st port 0,
     st\<lparr>words_in := (words_in st)(port := (\<lambda>n. words_in st port (Suc n)))\<rparr>)"

definition outw :: "u16 \<Rightarrow> u16 \<Rightarrow> 'a disk_scheme \<Rightarrow> 'a disk_scheme" where
  "outw port value st = st\<lparr>words_out := words_out st @ [(port, value)]\<rparr>"

definition load16 :: "mem \<Rightarrow> u32 \<Rightarrow> u16" where
  "load16 m a = ucast (m a) OR push_bit 8 (ucast (m (a + 1)))"

definition store16 :: "mem \<Rightarrow> u32 \<Rightarrow> u16 \<Rightarrow> mem" where
  "store16 m a v = m(a := ucast v, a + 1 := ucast (drop_bit 8 v))"

section \<open>Waiting for the drive\<close>

text \<open>A loop \<open>while (!ok(inb(port)) && --timeout) {}\<close>: the flag tells that the timeout is not 0 after it.\<close>

definition ATA_TIMEOUT :: nat where "ATA_TIMEOUT = 1000000"

fun poll :: "(u8 \<Rightarrow> bool) \<Rightarrow> u16 \<Rightarrow> nat \<Rightarrow> 'a io_scheme \<Rightarrow> bool \<times> 'a io_scheme" where
  "poll ok port 0 st = (False, st)"
| "poll ok port (Suc n) st = (let (s, st) = inb port st in if ok s then (True, st) else poll ok port n st)"

definition not_busy :: "u8 \<Rightarrow> bool" where "not_busy s \<longleftrightarrow> s AND ATA_STATUS_BSY = 0"
definition is_ready :: "u8 \<Rightarrow> bool" where "is_ready s \<longleftrightarrow> s AND ATA_STATUS_RDY \<noteq> 0"
definition wants_data :: "u8 \<Rightarrow> bool" where "wants_data s \<longleftrightarrow> s AND ATA_STATUS_DRQ \<noteq> 0"

partial_function (option) ata_wait_busy :: "u16 \<Rightarrow> 'a io_scheme \<Rightarrow> 'a io_scheme option" where
  "ata_wait_busy base st =
     (let (s, st) = inb (base + ATA_REG_STATUS) st
      in if s AND ATA_STATUS_BSY \<noteq> 0 then ata_wait_busy base st else Some st)"

declare ata_wait_busy.simps [code]

partial_function (option) ata_wait_ready :: "u16 \<Rightarrow> 'a io_scheme \<Rightarrow> 'a io_scheme option" where
  "ata_wait_ready base st =
     (let (s, st) = inb (base + ATA_REG_STATUS) st
      in if s AND ATA_STATUS_RDY = 0 then ata_wait_ready base st else Some st)"

declare ata_wait_ready.simps [code]

definition drive_base :: "u8 \<Rightarrow> u16" where
  "drive_base drive = (if drive < 2 then ATA_PRIMARY_BASE else ATA_SECONDARY_BASE)"

section \<open>Identification\<close>

fun read_words :: "u16 \<Rightarrow> nat \<Rightarrow> 'a disk_scheme \<Rightarrow> u16 list \<times> 'a disk_scheme" where
  "read_words port 0 st = ([], st)"
| "read_words port (Suc n) st =
     (let (w, st) = inw port st; (ws, st) = read_words port n st in (w # ws, st))"

definition identify_string :: "u16 list \<Rightarrow> u8 list" where
  "identify_string ws = concat (map (\<lambda>w. [ucast (drop_bit 8 w AND 0xFF), ucast (w AND 0xFF)]) ws) @ [0]"

definition identify_info :: "u16 list \<Rightarrow> disk_info \<Rightarrow> disk_info" where
  "identify_info data info =
     (let total = ucast (data ! 60) OR push_bit 16 (ucast (data ! 61))
      in info\<lparr>drive_model := identify_string (take 20 (drop 27 data)),
           drive_serial := identify_string (take 10 (drop 10 data)),
           total_sectors := total,
           sector_size := 512,
           geometry := \<lparr>cylinders = total div (63 * 16), heads = 16, sectors_per_track = 63,
             geometry_sector_size = 512, geometry_total_sectors = total\<rparr>\<rparr>)"

text \<open>\<open>info\<close> is the index of the table entry to fill; a result of \<open>False\<close> leaves it alone.\<close>

definition ata_identify_drive :: "u8 \<Rightarrow> nat \<Rightarrow> 'a disk_scheme \<Rightarrow> bool \<times> 'a disk_scheme" where
  "ata_identify_drive drive info st =
     (let base = drive_base drive;
          drive_select = (if drive mod 2 \<noteq> 0 then 0xB0 else 0xA0);
          st = outb (base + ATA_REG_DRIVE_HEAD) drive_select st;
          st = ((\<lambda>st. snd (inb (base + ATA_REG_STATUS) st)) ^^ 4) st;
          st = outb (base + ATA_REG_COMMAND) ATA_CMD_IDENTIFY st;
          (status, st) = inb (base + ATA_REG_STATUS) st
      in if status = 0 then (False, st) else
         let (clear, st) = poll not_busy (base + ATA_REG_STATUS) ATA_TIMEOUT st
         in if \<not> clear then (False, st) else
         let (status, st) = inb (base + ATA_REG_STATUS) st
         in if status AND ATA_STATUS_ERR \<noteq> 0 then (False, st) else
         let (ready, st) = poll wants_data (base + ATA_REG_STATUS) ATA_TIMEOUT st
         in if \<not> ready then (False, st) else
         let (data, st) = read_words (base + ATA_REG_DATA) 256 st
         in (True, st\<lparr>drives := (drives st)[info := identify_info data (drives st ! info)]\<rparr>))"

text \<open>One round of the two detection loops of \<open>disk_detect_drives\<close>, over drives 0, 1, 2, 3.\<close>

definition detect_drive :: "nat \<Rightarrow> nat \<times> 'a disk_scheme \<Rightarrow> nat \<times> 'a disk_scheme" where
  "detect_drive i = (\<lambda>(count, st).
     let (found, st) = ata_identify_drive (of_nat i) count st
     in if found
        then (Suc count, st\<lparr>drives := (drives st)[count := (drives st ! count)
               \<lparr>drive_number := of_nat i, disk_type := DISK_TYPE_ATA, present := True\<rparr>]\<rparr>)
        else (count, st))"

definition disk_detect_drives :: "'a disk_scheme \<Rightarrow> nat \<times> 'a disk_scheme" where
  "disk_detect_drives st = fold detect_drive [2, 3] (fold detect_drive [0, 1] (0, st))"

definition disk_init :: "'a disk_scheme \<Rightarrow> 'a disk_scheme" where
  "disk_init st =
     (let st = st\<lparr>drives := replicate MAX_DRIVES zero_drive\<rparr>;
          (n, st) = disk_detect_drives st
      in st\<lparr>drives_detected := n\<rparr>)"

definition disk_get_info :: "u8 \<Rightarrow> 'a disk_scheme \<Rightarrow> nat option" where
  "disk_get_info drive st =
     (if of_nat MAX_DRIVES \<le> drive then None
      else find (\<lambda>i. drive_number (drives st ! i) = drive \<and> present (drives st ! i)) [0..<drives_detected st])"

section \<open>Transfers\<close>

fun read_sector :: "u16 \<Rightarrow> u32 \<Rightarrow> nat \<Rightarrow> 'a disk_scheme \<Rightarrow> 'a disk_scheme" where
  "read_sector port a 0 st = st"
| "read_sector port a (Suc n) st =
     (let (w, st) = inw port st in read_sector port (a + 2) n (st\<lparr>disk_mem := store16 (disk_mem st) a w\<rparr>))"

fun read_loop :: "u16 \<Rightarrow> u32 \<Rightarrow> nat \<Rightarrow> 'a disk_scheme \<Rightarrow> int \<times> 'a disk_scheme" where
  "read_loop base a 0 st = (0, st)"
| "read_loop base a (Suc n) st =
     (let (ready, st) = poll wants_data (base + ATA_REG_STATUS) ATA_TIMEOUT st
      in if \<not> ready then (- 1, st)
         else read_loop base (a + 512) n (read_sector (base + ATA_REG_DATA) a 256 st))"

fun write_sector :: "u16 \<Rightarrow> u32 \<Rightarrow> nat \<Rightarrow> 'a disk_scheme \<Rightarrow> 'a disk_scheme" where
  "write_sector port a 0 st = st"
| "write_sector port a (Suc n) st = write_sector port (a + 2) n (outw port (load16 (disk_mem st) a) st)"

fun write_loop :: "u16 \<Rightarrow> u32 \<Rightarrow> nat \<Rightarrow> 'a disk_scheme \<Rightarrow> int \<times> 'a disk_scheme" where
  "write_loop base a 0 st = (0, st)"
| "write_loop base a (Suc n) st =
     (let (ready, st) = poll wants_data (base + ATA_REG_STATUS) ATA_TIMEOUT st
      in if \<not> ready then (- 1, st)
         else write_loop base (a + 512) n (write_sector (base + ATA_REG_DATA) a 256 st))"

definition send_command :: "u8 \<Rightarrow> u8 \<Rightarrow> u32 \<Rightarrow> u16 \<Rightarrow> 'a io_scheme \<Rightarrow> 'a io_scheme" where
  "send_command cmd drive lba count st =
     (let base = drive_base drive;
          drive_select = (if drive mod 2 \<noteq> 0 then 0xF0 else 0xE0) OR ucast (drop_bit 24 lba AND 0x0F);
          st = outb (base + ATA_REG_DRIVE_HEAD) drive_select st;
          st = outb (base + ATA_REG_SECTOR_COUNT) (ucast count) st;
          st = outb (base + ATA_REG_LBA_LOW) (ucast (lba AND 0xFF)) st;
          st = outb (base + ATA_REG_LBA_MID) (ucast (drop_bit 8 lba AND 0xFF)) st;
          st = outb (base + ATA_REG_LBA_HIGH) (ucast (drop_bit 16 lba AND 0xFF)) st
      in outb (base + ATA_REG_COMMAND) cmd st)"

definition ata_read_sectors :: "u8 \<Rightarrow> u32 \<Rightarrow> u16 \<Rightarrow> u32 \<Rightarrow> 'a disk_scheme \<Rightarrow> int \<times> 'a disk_scheme" where
  "ata_read_sectors drive lba count buf st =
     (let base = drive_base drive;
          (ready, st) = poll is_ready (base + ATA_REG_STATUS) ATA_TIMEOUT st
      in if \<not> ready then (- 1, st)
         else read_loop base buf (unat count) (send_command ATA_CMD_READ_SECTORS drive lba count st))"

definition ata_write_sectors :: "u8 \<Rightarrow> u32 \<Rightarrow> u16 \<Rightarrow> u32 \<Rightarrow> 'a disk_scheme \<Rightarrow> int \<times> 'a disk_scheme" where
  "ata_write_sectors drive lba count buf st =
     (let base = drive_base drive;
          (ready, st) = poll is_ready (base + ATA_REG_STATUS) ATA_TIMEOUT st
      in if \<not> ready then (- 1, st)
         else
           let (res, st) = write_loop base buf (unat count) (send_command ATA_CMD_WRITE_SECTORS drive lba count st)
           in if res \<noteq> 0 then (res, st)
              else
                let (clear, st) = poll not_busy (base + ATA_REG_STATUS) ATA_TIMEOUT st
                in if \<not> clear then (- 1, st) else (0, st))"

definition floppy_read_sectors :: "u8 \<Rightarrow> u32 \<Rightarrow> u16 \<Rightarrow> u32 \<Rightarrow> 'a disk_scheme \<Rightarrow> int \<times> 'a disk_scheme" where
  "floppy_read_sectors drive lba count buf st = (- 1, st)"

definition floppy_write_sectors :: "u8 \<Rightarrow> u32 \<Rightarrow> u16 \<Rightarrow> u32 \<Rightarrow> 'a disk_scheme \<Rightarrow> int \<times> 'a disk_scheme" where
  "floppy_write_sectors drive lba count buf st = (- 1, st)"

definition disk_read_sectors :: "u8 \<Rightarrow> u32 \<Rightarrow> u16 \<Rightarrow> u32 \<Rightarrow> 'a disk_scheme \<Rightarrow> int \<times> 'a disk_scheme" where
  "disk_read_sectors drive lba count buf st =
     (case disk_get_info drive st of
        None \<Rightarrow> (- 1, st)
      | Some i \<Rightarrow>
          if disk_type (drives st ! i) = DISK_TYPE_ATA then ata_read_sectors drive lba count buf st
          else if disk_type (drives st ! i) = DISK_TYPE_FLOPPY then floppy_read_sectors drive lba count buf st
          else (- 1, st))"

definition disk_write_sectors :: "u8 \<Rightarrow> u32 \<Rightarrow> u16 \<Rightarrow> u32 \<Rightarrow> 'a disk_scheme \<Rightarrow> int \<times> 'a disk_scheme" where
  "disk_write_sectors drive lba count buf st =
     (case disk_get_info drive st of
        None \<Rightarrow> (- 1, st)
      | Some i \<Rightarrow>
          if disk_type (drives st ! i) = DISK_TYPE_ATA then ata_write_sectors drive lba count buf st
          else if disk_type (drives st ! i) = DISK_TYPE_FLOPPY then floppy_write_sectors drive lba count buf st
          else (- 1, st))"

text \<open>The two buffers of the self test are on the stack; their addresses are parameters.\<close>

definition disk_test_read_write :: "u32 \<Rightarrow> u32 \<Rightarrow> u8 \<Rightarrow> 'a disk_scheme \<Rightarrow> int \<times> 'a disk_scheme" where
  "disk_test_read_write test_buffer verify_buffer drive st =
     (case disk_get_info drive st of
        None \<Rightarrow> (- 1, st)
      | Some i \<Rightarrow>
          let st = st\<lparr>disk_mem := fold (\<lambda>i m. m(test_buffer + of_nat i := of_nat (i mod 256))) [0..<512] (disk_mem st)\<rparr>;
              (res, st) = disk_write_sectors drive 1000 1 test_buffer st
          in if res \<noteq> 0 then (- 1, st) else
          let (res, st) = disk_read_sectors drive 1000 1 verify_buffer st
          in if res \<noteq> 0 then (- 1, st)
             else if \<exists>i \<in> set [0..<512]. disk_mem st (test_buffer + of_nat i) \<noteq> disk_mem st (verify_buffer + of_nat i)
             then (- 1, st) else (0, st))"

section \<open>Cylinder, head and sector\<close>

definition chs_to_lba :: "u16 \<Rightarrow> u8 \<Rightarrow> u8 \<Rightarrow> disk_geometry \<Rightarrow> u32" where
  "chs_to_lba cylinder head sector geom =
     (ucast cylinder * heads geom + ucast head) * sectors_per_track geom + (ucast sector - 1)"

definition lba_to_chs :: "u32 \<Rightarrow> disk_geometry \<Rightarrow> u16 \<times> u8 \<times> u8" where
  "lba_to_chs lba geom =
     (ucast (lba div (sectors_per_track geom * heads geom)),
      ucast ((lba div sectors_per_track geom) mod heads geom),
      ucast (lba mod sectors_per_track geom + 1))"

end
