(* ===== verification/DiskProps.thy ===== *)
theory DiskProps
  imports Disk CString
begin

text \<open>
  What the disk driver does with a drive that answers and with one that does not: the bytes a
  read stores and a write sends, the command block, the timeouts, the table of drives, and the
  conversions between block numbers and cylinder, head and sector.
\<close>

unbundle bit_operations_syntax

lemma unat_u16_bound: "unat (a :: u16) < 65536"
  using unsigned_less [of a] by simp

section \<open>Words in memory\<close>

definition word_byte :: "(nat \<Rightarrow> u16) \<Rightarrow> nat \<Rightarrow> u8" where
  "word_byte ws k = (if even k then ucast (ws (k div 2)) else ucast (drop_bit 8 (ws (k div 2))))"

text \<open>Memory after the first \<open>n\<close> words of \<open>ws\<close> were stored from \<open>a\<close> on, low byte first.\<close>

definition words_stored :: "mem \<Rightarrow> u32 \<Rightarrow> (nat \<Rightarrow> u16) \<Rightarrow> nat \<Rightarrow> mem" where
  "words_stored m a ws n = (\<lambda>x. if unat (x - a) < 2 * n then word_byte ws (unat (x - a)) else m x)"

lemma words_stored_0 [simp]: "words_stored m a ws 0 = m"
  by (simp add: words_stored_def)

lemma word_byte_Suc: "word_byte (\<lambda>k. ws (Suc k)) k = word_byte ws (k + 2)"
  by (simp add: word_byte_def)

lemma unat_minus_two:
  assumes "x \<noteq> a" and "x \<noteq> a + 1"
  shows "2 \<le> unat (x - a)" and "unat (x - (a + 2)) = unat (x - a :: u32) - 2"
proof -
  have "unat (x - a) \<noteq> 0" "unat (x - a) \<noteq> 1"
    using assms unat_minus_eq_iff [of 0 x a] unat_minus_eq_iff [of 1 x a] by auto
  then show two: "2 \<le> unat (x - a)" by linarith
  have "x - (a + 2) = (x - a) - 2" by simp
  also have "unat \<dots> = unat (x - a) - 2"
    using two unat_diff_u32 [of 2 "x - a"] by (simp add: word_le_nat_alt)
  finally show "unat (x - (a + 2)) = unat (x - a) - 2" .
qed

lemma words_stored_Suc:
  assumes "2 * Suc n < 4294967296"
  shows "words_stored (store16 m a (ws 0)) (a + 2) (\<lambda>k. ws (Suc k)) n = words_stored m a ws (Suc n)"
proof
  fix x
  consider "x = a" | "x = a + 1" | "x \<noteq> a" "x \<noteq> a + 1" by blast
  then show "words_stored (store16 m a (ws 0)) (a + 2) (\<lambda>k. ws (Suc k)) n x = words_stored m a ws (Suc n) x"
  proof cases
    case 1
    have "unat (a - (a + 2)) = 4294967294" by simp
    then show ?thesis using assms 1 by (simp add: words_stored_def store16_def word_byte_def)
  next
    case 2
    have "a + 1 - (a + 2) = - 1" by simp
    then have "unat (a + 1 - (a + 2)) = 4294967295" by (simp add: unsigned_minus_1_eq_mask mask_eq_exp_minus_1)
    then show ?thesis using assms 2 by (simp add: words_stored_def store16_def word_byte_def)
  next
    case 3
    have "Suc (Suc (unat (x - a) - 2)) = unat (x - a)" using unat_minus_two(1) [OF 3] by simp
    then show ?thesis
      using 3 unat_minus_two [OF 3] by (auto simp: words_stored_def store16_def word_byte_Suc)
  qed
qed

lemma words_stored_append:
  "2 * (n + k) < 4294967296 \<Longrightarrow>
   words_stored (words_stored m a ws n) (a + of_nat (2 * n)) (\<lambda>j. ws (n + j)) k = words_stored m a ws (n + k)"
proof (induction n arbitrary: m a ws)
  case 0
  then show ?case by simp
next
  case (Suc n)
  have "words_stored m a ws (Suc n) = words_stored (store16 m a (ws 0)) (a + 2) (\<lambda>k. ws (Suc k)) n"
    using Suc.prems by (intro words_stored_Suc [symmetric]) simp
  moreover have "words_stored m a ws (Suc n + k) = words_stored (store16 m a (ws 0)) (a + 2) (\<lambda>k. ws (Suc k)) (n + k)"
    using Suc.prems words_stored_Suc [of "n + k"] by simp
  ultimately show ?case
    using Suc.IH [of "store16 m a (ws 0)" "a + 2" "\<lambda>k. ws (Suc k)"] Suc.prems by (simp add: algebra_simps)
qed

fun words_at :: "mem \<Rightarrow> u32 \<Rightarrow> nat \<Rightarrow> u16 list" where
  "words_at m a 0 = []"
| "words_at m a (Suc n) = load16 m a # words_at m (a + 2) n"

lemma length_words_at [simp]: "length (words_at m a n) = n"
  by (induction n arbitrary: a) simp_all

lemma nth_words_at: "i < n \<Longrightarrow> words_at m a n ! i = load16 m (a + of_nat (2 * i))"
proof (induction n arbitrary: a i)
  case (Suc n)
  then show ?case by (cases i) (simp_all add: algebra_simps)
qed simp

lemma words_at_append: "words_at m a n @ words_at m (a + of_nat (2 * n)) k = words_at m a (n + k)"
proof (induction n arbitrary: a)
  case (Suc n)
  show ?case using Suc.IH [of "a + 2"] by (simp add: add.assoc mult.commute)
qed simp

lemma bytes_load16: "ucast (load16 m a) = m a" "ucast (drop_bit 8 (load16 m a)) = m (a + 1)"
  unfolding load16_def by (rule bit_word_eqI; auto simp: bit_simps dest: bit_imp_le_length)+

lemma word_byte_load:
  assumes "\<And>i. i < n \<Longrightarrow> ws i = load16 m (a + of_nat (2 * i))" and "k < 2 * n"
  shows "word_byte ws k = m (a + of_nat k)"
proof (cases "even k")
  case True
  then show ?thesis using assms(1) [of "k div 2"] assms(2) by (simp add: word_byte_def bytes_load16)
next
  case False
  then have "k = 2 * (k div 2) + 1" by simp
  then have "(of_nat k :: u32) = of_nat (2 * (k div 2)) + 1" by (metis of_nat_1 of_nat_add)
  moreover have "word_byte ws k = m (a + of_nat (2 * (k div 2)) + 1)"
    using False assms by (simp only: word_byte_def bytes_load16 if_False)
  ultimately show ?thesis by (simp only: add.assoc)
qed

section \<open>Polling\<close>

lemma poll_first: "ok (inputs st port 0) \<Longrightarrow> 0 < n \<Longrightarrow> poll ok port n st = (True, snd (inb port st))"
  by (cases n) (simp_all add: split_beta)

lemma poll_never:
  "(\<And>k. \<not> ok (inputs st port k)) \<Longrightarrow>
   poll ok port n st = (False, st\<lparr>inputs := (inputs st)(port := (\<lambda>k. inputs st port (k + n)))\<rparr>)"
proof (induction n arbitrary: st)
  case (Suc n)
  show ?case using Suc.prems Suc.IH [of "snd (inb port st)"] by (simp add: split_beta inb_def fun_upd_def cong: if_cong)
qed simp

lemma poll_fields [simp]:
  fixes st :: "'a disk_scheme"
  shows "drives (snd (poll ok port n st)) = drives st" "drives_detected (snd (poll ok port n st)) = drives_detected st"
    "words_in (snd (poll ok port n st)) = words_in st" "words_out (snd (poll ok port n st)) = words_out st"
    "disk_mem (snd (poll ok port n st)) = disk_mem st"
  by (induction n arbitrary: st) (simp_all add: split_beta inb_def)

lemma port_fields [simp]:
  fixes st :: "'a disk_scheme"
  shows "drives (outb p v st) = drives st" "drives_detected (outb p v st) = drives_detected st"
    "words_in (outb p v st) = words_in st" "words_out (outb p v st) = words_out st" "disk_mem (outb p v st) = disk_mem st"
    "drives (snd (inb p st)) = drives st" "drives_detected (snd (inb p st)) = drives_detected st"
    "words_in (snd (inb p st)) = words_in st" "words_out (snd (inb p st)) = words_out st" "disk_mem (snd (inb p st)) = disk_mem st"
  by (simp_all add: outb_def inb_def)

text \<open>A drive that is ready, wants or has data and is never busy.\<close>

definition drive_live :: "u16 \<Rightarrow> 'a io_scheme \<Rightarrow> bool" where
  "drive_live base st \<longleftrightarrow>
     (\<forall>k. is_ready (inputs st (base + ATA_REG_STATUS) k) \<and> wants_data (inputs st (base + ATA_REG_STATUS) k)
        \<and> not_busy (inputs st (base + ATA_REG_STATUS) k))"

lemma timeout_pos [simp]: "0 < ATA_TIMEOUT"
  by (simp add: ATA_TIMEOUT_def)

lemma live_poll:
  assumes "drive_live base st"
  shows "poll is_ready (base + ATA_REG_STATUS) ATA_TIMEOUT st = (True, snd (inb (base + ATA_REG_STATUS) st))"
    and "poll wants_data (base + ATA_REG_STATUS) ATA_TIMEOUT st = (True, snd (inb (base + ATA_REG_STATUS) st))"
    and "poll not_busy (base + ATA_REG_STATUS) ATA_TIMEOUT st = (True, snd (inb (base + ATA_REG_STATUS) st))"
  using assms by (simp_all add: drive_live_def poll_first)

lemma drive_live_cong: "inputs st' (base + ATA_REG_STATUS) = inputs st (base + ATA_REG_STATUS) \<Longrightarrow> drive_live base st' = drive_live base st"
  by (simp add: drive_live_def)

lemma drive_live_inb [simp]: "drive_live base st \<Longrightarrow> drive_live base (snd (inb p st))"
  by (auto simp: drive_live_def inputs_inb)

section \<open>Transfers\<close>

lemma read_sector_eq:
  assumes "2 * n < 4294967296"
  shows "read_sector port a n st = st\<lparr>disk_mem := words_stored (disk_mem st) a (words_in st port) n,
     words_in := (words_in st)(port := (\<lambda>k. words_in st port (n + k)))\<rparr>"
  using assms
proof (induction n arbitrary: a st)
  case (Suc n)
  have "2 * n < 4294967296" using Suc.prems by simp
  then show ?case
    using words_stored_Suc [OF Suc.prems, of "disk_mem st" a "words_in st port"]
    by (simp add: inw_def Suc.IH fun_upd_def cong: if_cong)
qed simp

lemma read_loop_live:
  assumes "drive_live base st" and "512 * n < 4294967296"
  shows "\<exists>f g. read_loop base a n st = (0, st\<lparr>inputs := f,
     disk_mem := words_stored (disk_mem st) a (words_in st (base + ATA_REG_DATA)) (256 * n), words_in := g\<rparr>)"
  using assms
proof (induction n arbitrary: a st)
  case 0
  have "st = st\<lparr>inputs := inputs st, disk_mem := disk_mem st, words_in := words_in st\<rparr>" by simp
  then show ?case by (simp only: read_loop.simps mult_0_right words_stored_0) blast
next
  case (Suc n)
  define st1 where "st1 = snd (inb (base + ATA_REG_STATUS) st)"
  define st2 where "st2 = read_sector (base + ATA_REG_DATA) a 256 st1"
  have e: "st2 = st1\<lparr>disk_mem := words_stored (disk_mem st1) a (words_in st1 (base + ATA_REG_DATA)) 256,
      words_in := (words_in st1)(base + ATA_REG_DATA := (\<lambda>k. words_in st1 (base + ATA_REG_DATA) (256 + k)))\<rparr>"
    unfolding st2_def by (rule read_sector_eq) simp
  have live: "drive_live base st2"
    using Suc.prems(1) by (simp add: e drive_live_def st1_def inputs_inb)
  have n: "512 * n < 4294967296" using Suc.prems(2) by simp
  have "read_loop base a (Suc n) st = read_loop base (a + 512) n st2"
    using live_poll(2) [OF Suc.prems(1)] by (simp add: st2_def st1_def)
  moreover have "words_stored (disk_mem st2) (a + 512) (words_in st2 (base + ATA_REG_DATA)) (256 * n)
      = words_stored (disk_mem st) a (words_in st (base + ATA_REG_DATA)) (256 * Suc n)"
    using words_stored_append [of 256 "256 * n" "disk_mem st" a "words_in st (base + ATA_REG_DATA)"] Suc.prems(2)
    by (simp add: e st1_def add.commute)
  ultimately show ?case
    using Suc.IH [OF live n, of "a + 512"] by (auto simp: e st1_def inb_def)
qed

lemma write_sector_eq:
  "write_sector port a n st = st\<lparr>words_out := words_out st @ map (Pair port) (words_at (disk_mem st) a n)\<rparr>"
  by (induction n arbitrary: a st) (simp_all add: outw_def)

lemma write_loop_live:
  assumes "drive_live base st"
  shows "\<exists>f. write_loop base a n st = (0, st\<lparr>inputs := f,
     words_out := words_out st @ map (Pair (base + ATA_REG_DATA)) (words_at (disk_mem st) a (256 * n))\<rparr>)
     \<and> drive_live base (st\<lparr>inputs := f\<rparr>)"
  using assms
proof (induction n arbitrary: a st)
  case 0
  have "st = st\<lparr>inputs := inputs st\<rparr>" "st = st\<lparr>inputs := inputs st, words_out := words_out st\<rparr>" by (cases st; simp)+
  then show ?case using 0 by (auto intro!: exI [of _ "inputs st"])
next
  case (Suc n)
  define st1 where "st1 = snd (inb (base + ATA_REG_STATUS) st)"
  define st2 where "st2 = write_sector (base + ATA_REG_DATA) a 256 st1"
  note e = st2_def [unfolded write_sector_eq]
  have live: "drive_live base st2"
    using Suc.prems by (simp add: e drive_live_def st1_def inputs_inb)
  have step: "write_loop base a (Suc n) st = write_loop base (a + 512) n st2"
    using live_poll(2) [OF Suc.prems] by (simp add: st2_def st1_def)
  have w: "words_at (disk_mem st) a (256 * Suc n) = words_at (disk_mem st) a 256 @ words_at (disk_mem st) (a + 512) (256 * n)"
    using words_at_append [of "disk_mem st" a 256 "256 * n"] by (simp add: add.commute)
  obtain f where "write_loop base (a + 512) n st2 = (0, st2\<lparr>inputs := f,
     words_out := words_out st2 @ map (Pair (base + ATA_REG_DATA)) (words_at (disk_mem st2) (a + 512) (256 * n))\<rparr>)"
     "drive_live base (st2\<lparr>inputs := f\<rparr>)"
    using Suc.IH [OF live] by blast
  then show ?case
    unfolding step w by (intro exI [of _ f]) (simp add: e st1_def inb_def drive_live_def)
qed

section \<open>Properties\<close>

definition command_block :: "u8 \<Rightarrow> u8 \<Rightarrow> u32 \<Rightarrow> u16 \<Rightarrow> (u16 \<times> u8) list" where
  "command_block cmd drive lba count =
     [(drive_base drive + 6, (if drive mod 2 \<noteq> 0 then 0xF0 else 0xE0) OR ucast (drop_bit 24 lba AND 0x0F)),
      (drive_base drive + 2, ucast count), (drive_base drive + 3, ucast (lba AND 0xFF)),
      (drive_base drive + 4, ucast (drop_bit 8 lba AND 0xFF)),
      (drive_base drive + 5, ucast (drop_bit 16 lba AND 0xFF)), (drive_base drive + 7, cmd)]"

lemma send_command_eq: "send_command cmd drive lba count st = st\<lparr>outputs := outputs st @ command_block cmd drive lba count\<rparr>"
  by (simp add: send_command_def command_block_def outb_def ATA_REG_DRIVE_HEAD_def ATA_REG_SECTOR_COUNT_def
      ATA_REG_LBA_LOW_def ATA_REG_LBA_MID_def ATA_REG_LBA_HIGH_def ATA_REG_COMMAND_def Let_def)

lemma send_command_live: "drive_live base (send_command cmd drive lba count st) = drive_live base st"
  by (simp add: send_command_eq drive_live_def)

lemma ata_read_live:
  assumes "drive_live (drive_base drive) st"
  shows "\<exists>f g. ata_read_sectors drive lba count buf st = (0, st\<lparr>outputs := outputs st @ command_block ATA_CMD_READ_SECTORS drive lba count, inputs := f,
      disk_mem := words_stored (disk_mem st) buf (words_in st (drive_base drive)) (256 * unat count), words_in := g\<rparr>)"
proof -
  define st1 where "st1 = send_command ATA_CMD_READ_SECTORS drive lba count (snd (inb (drive_base drive + ATA_REG_STATUS) st))"
  have live: "drive_live (drive_base drive) st1"
    using assms by (simp add: st1_def send_command_live)
  have "ata_read_sectors drive lba count buf st = read_loop (drive_base drive) buf (unat count) st1"
    using live_poll(1) [OF assms] by (simp add: ata_read_sectors_def st1_def Let_def)
  moreover have "512 * unat count < 4294967296" using unat_u16_bound [of count] by simp
  ultimately show ?thesis
    using read_loop_live [OF live, of "unat count" buf] by (auto simp: st1_def send_command_eq inb_def ATA_REG_DATA_def)
qed

lemma ata_write_live:
  assumes "drive_live (drive_base drive) st"
  shows "\<exists>f. ata_write_sectors drive lba count buf st = (0, st\<lparr>outputs := outputs st @ command_block ATA_CMD_WRITE_SECTORS drive lba count,
      words_out := words_out st @ map (Pair (drive_base drive)) (words_at (disk_mem st) buf (256 * unat count)), inputs := f\<rparr>)"
proof -
  define st1 where "st1 = send_command ATA_CMD_WRITE_SECTORS drive lba count (snd (inb (drive_base drive + ATA_REG_STATUS) st))"
  have live: "drive_live (drive_base drive) st1"
    using assms by (simp add: st1_def send_command_live)
  obtain f where w: "write_loop (drive_base drive) buf (unat count) st1 = (0, st1\<lparr>inputs := f,
      words_out := words_out st1 @ map (Pair (drive_base drive + ATA_REG_DATA)) (words_at (disk_mem st1) buf (256 * unat count))\<rparr>)"
    (is "_ = (0, ?st2)") and f: "drive_live (drive_base drive) (st1\<lparr>inputs := f\<rparr>)"
    using write_loop_live [OF live] by blast
  have "drive_live (drive_base drive) ?st2" using f by (simp add: drive_live_def)
  note clear = live_poll(3) [OF this]
  have "ata_write_sectors drive lba count buf st = (0, snd (inb (drive_base drive + ATA_REG_STATUS) ?st2))"
    using live_poll(1) [OF assms] w clear by (simp add: ata_write_sectors_def Let_def flip: st1_def)
  then show ?thesis by (auto simp: st1_def send_command_eq inb_def ATA_REG_DATA_def)
qed

text \<open>Reading \<open>count\<close> sectors from a drive that is ready and has data succeeds: the command
  block is written, the buffer receives the next \<open>256 * count\<close> words of the data port, low byte
  first, and no other byte of memory changes.\<close>

theorem ata_read_correct:
  assumes "drive_live (drive_base drive) st"
  shows "fst (ata_read_sectors drive lba count buf st) = 0 \<and>
    outputs (snd (ata_read_sectors drive lba count buf st)) = outputs st @ command_block ATA_CMD_READ_SECTORS drive lba count \<and>
    disk_mem (snd (ata_read_sectors drive lba count buf st)) x =
      (if unat (x - buf) < 512 * unat count then word_byte (words_in st (drive_base drive)) (unat (x - buf)) else disk_mem st x)"
  using ata_read_live [OF assms, of lba count buf] by (auto simp: words_stored_def)

text \<open>C14: What a write sent to the data port, read back, restores the bytes: when the data port of
  a ready drive answers the words that \<open>ata_write_sectors\<close> sent, \<open>ata_read_sectors\<close> copies the
  buffer that was written into the buffer that is read.\<close>

theorem ata_write_read_roundtrip:
  assumes "drive_live (drive_base drive) st" and "drive_live (drive_base drive) st2"
    and "ata_write_sectors drive lba count buf st = (r, st1)"
    and "words_out st1 = words_out st @ map (Pair (drive_base drive)) ws"
    and "\<And>i. i < length ws \<Longrightarrow> words_in st2 (drive_base drive) i = ws ! i"
    and "k < 512 * unat count"
  shows "r = 0 \<and> disk_mem (snd (ata_read_sectors drive lba count buf2 st2)) (buf2 + of_nat k) = disk_mem st (buf + of_nat k)"
proof -
  have inj: "inj (Pair (drive_base drive) :: u16 \<Rightarrow> u16 \<times> u16)" by (simp add: inj_def)
  have r: "r = 0" and ws: "ws = words_at (disk_mem st) buf (256 * unat count)"
    using ata_write_live [OF assms(1), of lba count buf] assms(3,4) inj by (auto simp: inj_map_eq_map)
  have "word_byte (words_in st2 (drive_base drive)) k = disk_mem st (buf + of_nat k)"
    using assms(5,6) by (intro word_byte_load [where n = "256 * unat count"]) (simp_all add: ws nth_words_at)
  moreover have "k < 4294967296" using assms(6) unat_u16_bound [of count] by simp
  ultimately show ?thesis
    using ata_read_live [OF assms(2), of lba count buf2] assms(6) r
    by (auto simp: words_stored_def unat_of_nat_u32)
qed

definition polled :: "u8 \<Rightarrow> 'a io_scheme \<Rightarrow> 'a io_scheme" where
  "polled drive st = st\<lparr>inputs := (inputs st)(drive_base drive + ATA_REG_STATUS :=
      (\<lambda>k. inputs st (drive_base drive + ATA_REG_STATUS) (k + 1000000)))\<rparr>"

text \<open>On a drive that never reports ready, both transfers give up: they return -1 after exactly
  1,000,000 reads of the status port and have written nothing to the drive or to memory.\<close>

theorem ata_transfer_timeout:
  assumes "\<And>k. \<not> is_ready (inputs st (drive_base drive + ATA_REG_STATUS) k)"
  shows "ata_read_sectors drive lba count buf st = (- 1, polled drive st) \<and>
    ata_write_sectors drive lba count buf st = (- 1, polled drive st)"
  using poll_never [of is_ready st, OF assms, of ATA_TIMEOUT]
  by (simp add: ata_read_sectors_def ata_write_sectors_def polled_def ATA_TIMEOUT_def Let_def)

lemma byte_eq_iff:
  fixes a b :: u32
  assumes "k + 8 \<le> 32"
  shows "(ucast (drop_bit k a AND 0xFF) :: u8) = ucast (drop_bit k b AND 0xFF) \<longleftrightarrow> (\<forall>n < 8. bit a (k + n) = bit b (k + n))"
proof -
  have m: "(0xFF :: u32) = mask 8" by (simp add: mask_eq_exp_minus_1)
  have "bit (ucast (drop_bit k c AND 0xFF) :: u8) n = (n < 8 \<and> bit c (k + n))" for c :: u32 and n
    unfolding m take_bit_eq_mask [symmetric] by (auto simp: bit_simps dest: bit_imp_le_length)
  then show ?thesis by (auto simp: bit_eq_iff)
qed

lemma nibble_eq_iff:
  fixes a b :: u32
  assumes "h = 0xE0 \<or> h = (0xF0 :: u8)"
  shows "h OR ucast (drop_bit 24 a AND 0x0F) = h OR ucast (drop_bit 24 b AND 0x0F) \<longleftrightarrow> (\<forall>n < 4. bit a (24 + n) = bit b (24 + n))"
proof -
  have m: "(0x0F :: u32) = mask 4" by (simp add: mask_eq_exp_minus_1)
  have h: "\<not> bit h n" if "n < 4" for n
  proof -
    have "n = 0 \<or> n = 1 \<or> n = 2 \<or> n = 3" using that by linarith
    then show ?thesis using assms by auto
  qed
  have e: "bit (h OR ucast (drop_bit 24 c AND 0x0F)) n = (bit h n \<or> n < 4 \<and> bit c (24 + n))" for c :: u32 and n
    unfolding m take_bit_eq_mask [symmetric] by (auto simp: bit_simps dest: bit_imp_le_length)
  show ?thesis
  proof
    assume eq: "h OR ucast (drop_bit 24 a AND 0x0F) = h OR ucast (drop_bit 24 b AND 0x0F)"
    show "\<forall>n < 4. bit a (24 + n) = bit b (24 + n)"
      using e [of a] e [of b] h unfolding eq by blast
  next
    assume "\<forall>n < 4. bit a (24 + n) = bit b (24 + n)"
    then show "h OR ucast (drop_bit 24 a AND 0x0F) = h OR ucast (drop_bit 24 b AND 0x0F)"
      by (intro bit_word_eqI) (auto simp: e)
  qed
qed

lemma take_bit_eq_bits:
  fixes a b :: "'a::len word"
  shows "take_bit k a = take_bit k b \<longleftrightarrow> (\<forall>n < k. bit a n = bit b n)"
proof
  assume "take_bit k a = take_bit k b"
  then have "bit (take_bit k a) n = bit (take_bit k b) n" for n by simp
  then show "\<forall>n < k. bit a n = bit b n" by (auto simp: bit_take_bit_iff)
next
  assume "\<forall>n < k. bit a n = bit b n"
  then show "take_bit k a = take_bit k b" by (intro bit_word_eqI) (auto simp: bit_take_bit_iff)
qed

lemma bits_28:
  "(\<forall>n < 28. bit a n = bit (b :: u32) n) \<longleftrightarrow>
   (\<forall>n < 8. bit a (0 + n) = bit b (0 + n)) \<and> (\<forall>n < 8. bit a (8 + n) = bit b (8 + n))
   \<and> (\<forall>n < 8. bit a (16 + n) = bit b (16 + n)) \<and> (\<forall>n < 4. bit a (24 + n) = bit b (24 + n))" (is "?l = ?r")
proof
  assume r: ?r
  show ?l
  proof (intro allI impI)
    fix n :: nat assume "n < 28"
    then consider "n < 8" | "8 \<le> n" "n < 16" | "16 \<le> n" "n < 24" | "24 \<le> n" "n < 28" by linarith
    then show "bit a n = bit b n"
      using r [THEN conjunct1, rule_format, of n] r [THEN conjunct2, THEN conjunct1, rule_format, of "n - 8"]
        r [THEN conjunct2, THEN conjunct2, THEN conjunct1, rule_format, of "n - 16"]
        r [THEN conjunct2, THEN conjunct2, THEN conjunct2, rule_format, of "n - 24"]
      by cases simp_all
  qed
qed simp

text \<open>The command block carries only 28 bits of the block number and 8 bits of the sector
  count: two requests to a drive send the same bytes exactly when they agree in these bits. So a
  request for 256 sectors programs a count of 0, and block \<open>2 ^ 28\<close> is block 0 for the drive.\<close>

theorem ata_command_bits:
  "outputs (send_command cmd drive lba count st) = outputs (send_command cmd drive lba' count' st)
     \<longleftrightarrow> take_bit 28 lba = take_bit 28 lba' \<and> take_bit 8 count = take_bit 8 count'"
proof -
  have c: "(ucast count :: u8) = ucast count' \<longleftrightarrow> take_bit 8 count = take_bit 8 count'"
    unfolding take_bit_eq_bits by (auto simp: bit_eq_iff bit_simps)
  have "take_bit 28 lba = take_bit 28 lba' \<longleftrightarrow> (\<forall>n < 28. bit lba n = bit lba' n)"
    by (rule take_bit_eq_bits)
  moreover have "(if drive mod 2 \<noteq> 0 then 0xF0 else 0xE0) = (0xE0 :: u8) \<or> (if drive mod 2 \<noteq> 0 then 0xF0 else 0xE0) = (0xF0 :: u8)"
    by simp
  ultimately show ?thesis
    using byte_eq_iff [of 0 lba lba'] byte_eq_iff [of 8 lba lba'] byte_eq_iff [of 16 lba lba']
      nibble_eq_iff [of "if drive mod 2 \<noteq> 0 then 0xF0 else 0xE0" lba lba']
    by (auto simp: send_command_eq command_block_def bits_28 c)
qed

section \<open>Cylinder, head and sector\<close>

lemma chs_unique:
  fixes c h s H S :: nat
  assumes "h < H" and "s < S"
  shows "((c * H + h) * S + s) div (S * H) = c" and "((c * H + h) * S + s) div S mod H = h"
    and "((c * H + h) * S + s) mod S = s"
proof -
  have d: "((c * H + h) * S + s) div S = c * H + h" using assms(2) by simp
  show "((c * H + h) * S + s) div (S * H) = c" using assms(1) by (simp add: div_mult2_eq d)
  show "((c * H + h) * S + s) div S mod H = h" using assms(1) by (simp add: d)
  show "((c * H + h) * S + s) mod S = s" using assms(2) by simp
qed

lemma chs_bound:
  fixes c h s H S :: nat
  assumes "c < 65536" and "h < H" and "s < S" and "H \<le> 256" and "S \<le> 255"
  shows "(c * H + h) * S + s < 4294967296" and "c * H + h < 16777216" and "c * H < 16777216"
proof -
  have "c * H \<le> 65535 * 256" using assms by (intro mult_mono) auto
  then show "c * H < 16777216" and "c * H + h < 16777216" using assms by linarith+
  then have "(c * H + h) * S \<le> 16777215 * 255" using assms by (intro mult_mono) auto
  then show "(c * H + h) * S + s < 4294967296" using assms by linarith
qed

lemma unat_mult_u32: "unat (a :: u32) * unat b < 4294967296 \<Longrightarrow> unat (a * b) = unat a * unat b"
  by (simp add: unat_word_ariths)

lemma unat_ucast_u32:
  fixes a :: "'a::len word"
  assumes "LENGTH('a) \<le> 32"
  shows "unat (ucast a :: u32) = unat a"
proof -
  have "(2::nat) ^ LENGTH('a) \<le> 2 ^ 32" using assms by (intro power_increasing) auto
  with unsigned_less [of a] have "unat a < 2 ^ 32" by (rule order.strict_trans2)
  then show ?thesis by (simp add: unsigned_ucast_eq take_bit_eq_mod)
qed

lemma chs_to_lba_nat:
  assumes "0 < unat (sectors_per_track geom)" "unat (sectors_per_track geom) \<le> 255"
    "unat (heads geom) \<le> 256" "1 \<le> unat s" "unat s \<le> unat (sectors_per_track geom)" "unat h < unat (heads geom)"
  shows "unat (chs_to_lba c h s geom) =
    (unat c * unat (heads geom) + unat h) * unat (sectors_per_track geom) + (unat s - 1)"
proof -
  have c: "unat c < 65536" by (rule unat_u16_bound)
  have "unat s - 1 < unat (sectors_per_track geom)" using assms(4,5) by linarith
  note b = chs_bound [OF c assms(6) this assms(3,2)]
  have s: "unat (ucast s - 1 :: u32) = unat s - 1"
    using assms(4) unat_diff_u32 [of 1 "ucast s :: u32"] by (simp add: word_le_nat_alt unat_ucast_u32)
  have m: "unat (ucast c * heads geom :: u32) = unat c * unat (heads geom)"
    using b(3) assms by (subst unat_mult_u32) (simp_all add: unat_ucast_u32)
  have a: "unat (ucast c * heads geom + ucast h :: u32) = unat c * unat (heads geom) + unat h"
    using b(2) assms by (subst unat_add_u32) (simp_all add: m unat_ucast_u32)
  have "unat ((ucast c * heads geom + ucast h) * sectors_per_track geom :: u32)
      = (unat c * unat (heads geom) + unat h) * unat (sectors_per_track geom)"
    using b(1) assms by (subst unat_mult_u32) (simp_all add: a)
  then show ?thesis
    unfolding chs_to_lba_def using b(1) assms by (subst unat_add_u32) (simp_all add: s)
qed

lemma lba_to_chs_nat:
  assumes "0 < unat (sectors_per_track geom)" "unat (sectors_per_track geom) \<le> 255" "unat (heads geom) \<le> 256"
    and "lba_to_chs lba geom = (c, h, s)"
  shows "unat c = unat lba div (unat (sectors_per_track geom) * unat (heads geom)) mod 65536"
    and "unat h = unat lba div unat (sectors_per_track geom) mod unat (heads geom) mod 256"
    and "unat s = (unat lba mod unat (sectors_per_track geom) + 1) mod 256"
proof -
  let ?S = "sectors_per_track geom" and ?H = "heads geom"
  have "unat ?S * unat ?H \<le> 255 * 256" using assms by (intro mult_mono) auto
  then have m: "unat (?S * ?H) = unat ?S * unat ?H" by (subst unat_mult_u32) simp_all
  have "unat lba mod unat ?S < unat ?S" using assms(1) by simp
  then have b: "unat lba mod unat ?S + 1 < 4294967296" using assms(2) by linarith
  then have s: "unat (lba mod ?S + 1) = unat lba mod unat ?S + 1"
    by (subst unat_add_u32) (simp_all add: unat_mod_distrib)
  show "unat c = unat lba div (unat ?S * unat ?H) mod 65536"
    and "unat h = unat lba div unat ?S mod unat ?H mod 256"
    and "unat s = (unat lba mod unat ?S + 1) mod 256"
    using assms(4) by (auto simp: lba_to_chs_def unsigned_ucast_eq take_bit_eq_mod unat_div_distrib unat_mod_distrib m s)
qed

text \<open>The two conversions are inverse to each other on every geometry with at most 255 sectors
  per track and 256 heads: a block number below 65,536 cylinders converts to a cylinder, head and
  sector that convert back to it, and every valid cylinder, head and sector is recovered from its
  block number.\<close>

theorem disk_geometry_roundtrip:
  assumes "0 < unat (sectors_per_track geom)" "unat (sectors_per_track geom) \<le> 255"
    and "0 < unat (heads geom)" "unat (heads geom) \<le> 256"
  shows "unat lba < 65536 * (unat (sectors_per_track geom) * unat (heads geom)) \<Longrightarrow>
      lba_to_chs lba geom = (c, h, s) \<Longrightarrow> chs_to_lba c h s geom = lba"
    and "1 \<le> unat s' \<Longrightarrow> unat s' \<le> unat (sectors_per_track geom) \<Longrightarrow> unat h' < unat (heads geom) \<Longrightarrow>
      lba_to_chs (chs_to_lba c' h' s' geom) geom = (c', h', s')"
proof -
  let ?S = "unat (sectors_per_track geom)" and ?H = "unat (heads geom)"
  show "chs_to_lba c h s geom = lba" if lba: "unat lba < 65536 * (?S * ?H)" and chs: "lba_to_chs lba geom = (c, h, s)"
  proof -
    note n = lba_to_chs_nat [OF assms(1,2,4) chs]
    have c: "unat c = unat lba div (?S * ?H)"
      using n(1) lba assms by (simp add: less_mult_imp_div_less)
    have h: "unat h = unat lba div ?S mod ?H"
      using n(2) assms mod_less_divisor [OF assms(3), of "unat lba div ?S"] by (simp del: mod_less_divisor)
    have ms: "unat lba mod ?S < ?S" using assms by simp
    then have s: "unat s = unat lba mod ?S + 1" using n(3) assms(2) by simp
    have "unat h < ?H" using h assms by simp
    then have "unat (chs_to_lba c h s geom) = (unat c * ?H + unat h) * ?S + (unat s - 1)"
      using assms ms s by (intro chs_to_lba_nat) simp_all
    also have "unat c * ?H + unat h = unat lba div ?S"
      unfolding c h by (simp add: div_mult2_eq)
    also have "unat lba div ?S * ?S + (unat s - 1) = unat lba" by (simp add: s)
    finally show ?thesis by (simp add: word_unat_eq_iff)
  qed
  show "lba_to_chs (chs_to_lba c' h' s' geom) geom = (c', h', s')"
    if v: "1 \<le> unat s'" "unat s' \<le> ?S" "unat h' < ?H"
  proof -
    obtain c2 h2 s2 where e: "lba_to_chs (chs_to_lba c' h' s' geom) geom = (c2, h2, s2)" by (cases "lba_to_chs (chs_to_lba c' h' s' geom) geom")
    have l: "unat (chs_to_lba c' h' s' geom) = (unat c' * ?H + unat h') * ?S + (unat s' - 1)"
      using assms v by (intro chs_to_lba_nat) simp_all
    have s1: "unat s' - 1 < ?S" using v by linarith
    note n = lba_to_chs_nat [OF assms(1,2,4) e, unfolded l chs_unique [OF v(3) s1]]
    have "unat h' < 256" "unat s' < 256" using unsigned_less [of h'] unsigned_less [of s'] by simp_all
    then have "unat c2 = unat c'" "unat h2 = unat h'" "unat s2 = unat s'"
      using n v unat_u16_bound [of c'] by simp_all
    then show ?thesis by (simp add: e word_unat_eq_iff)
  qed
qed

section \<open>The table of drives\<close>

definition table_ok :: "nat \<Rightarrow> nat \<Rightarrow> 'a disk_scheme \<Rightarrow> bool" where
  "table_ok i n st \<longleftrightarrow> length (drives st) = 4 \<and> n \<le> i \<and>
     (\<forall>k < n. let d = drives st ! k in present d \<and> disk_type d = DISK_TYPE_ATA \<and> unat (drive_number d) < i
        \<and> sector_size d = 512 \<and> heads (geometry d) = 16 \<and> sectors_per_track (geometry d) = 63
        \<and> length (drive_model d) = 41 \<and> length (drive_serial d) = 21) \<and>
     (\<forall>k < n. \<forall>j < n. drive_number (drives st ! k) = drive_number (drives st ! j) \<longrightarrow> k = j)"

lemma inb4_fields:
  fixes st :: "'a disk_scheme"
  shows "drives (((\<lambda>st. snd (inb p st)) ^^ n) st) = drives st"
  by (induction n) simp_all

lemma read_words_spec:
  fixes st :: "'a disk_scheme"
  shows "length (fst (read_words p n st)) = n" and "drives (snd (read_words p n st)) = drives st"
  by (induction n arbitrary: st) (simp_all add: inw_def split_beta)

lemma ata_identify_cases:
  assumes "ata_identify_drive d info st = (found, st')"
  obtains "\<not> found" "drives st' = drives st"
  | data where "found" "length data = 256" "drives st' = (drives st)[info := identify_info data (drives st ! info)]"
proof -
  have "\<not> found \<and> drives st' = drives st \<or>
    found \<and> (\<exists>data. drives st' = (drives st)[info := identify_info data (drives st ! info)] \<and> length data = 256)"
    using assms unfolding ata_identify_drive_def Let_def split_beta
    by (auto simp: inb4_fields read_words_spec split: if_splits)
  then show ?thesis using that by blast
qed

lemma length_identify_string: "length (identify_string ws) = 2 * length ws + 1"
  by (induction ws) (simp_all add: identify_string_def)

lemma detect_drive_table:
  assumes "table_ok i n st" and "i < 4" and "detect_drive i (n, st) = (n', st')"
  shows "table_ok (Suc i) n' st'"
proof -
  obtain found st1 where id: "ata_identify_drive (of_nat i) n st = (found, st1)" by fastforce
  have n: "n < 4" "length (drives st) = 4" using assms(1,2) by (simp_all add: table_ok_def)
  have ui: "unat (of_nat i :: u8) = i" using assms(2) by (simp add: unat_of_nat take_bit_eq_mod)
  show ?thesis
  proof (cases rule: ata_identify_cases [OF id])
    case 1
    then show ?thesis using assms id unfolding detect_drive_def table_ok_def Let_def by fastforce
  next
    case (2 data)
    have "drives st' = (drives st)[n := (identify_info data (drives st ! n))
        \<lparr>drive_number := of_nat i, disk_type := DISK_TYPE_ATA, present := True\<rparr>]" and "n' = Suc n"
      using assms(3) id 2 n by (auto simp: detect_drive_def)
    moreover have "length (drive_model (identify_info data d)) = 41" "length (drive_serial (identify_info data d)) = 21"
      "sector_size (identify_info data d) = 512" "heads (geometry (identify_info data d)) = 16"
      "sectors_per_track (geometry (identify_info data d)) = 63" for d
      using 2 by (simp_all add: identify_info_def length_identify_string Let_def)
    ultimately show ?thesis
      using assms(1) n ui unfolding table_ok_def Let_def
      by (auto simp: less_Suc_eq nth_list_update)
  qed
qed

text \<open>C40: Whatever the drives answer, the table that \<open>disk_init\<close> leaves is well formed: at most
  four drives are detected, each entry below the count is present, of ATA type, with a number below
  4 that no other entry has, a sector size of 512, the fixed geometry of 16 heads and 63 sectors, and
  strings that fill their arrays.\<close>

theorem disk_init_table:
  "table_ok 4 (drives_detected (disk_init st)) (disk_init st)"
proof -
  let ?st0 = "st\<lparr>drives := replicate MAX_DRIVES zero_drive\<rparr>"
  have t0: "table_ok 0 0 ?st0" by (simp add: table_ok_def MAX_DRIVES_def)
  obtain n1 st1 where 1: "detect_drive 0 (0, ?st0) = (n1, st1)" by fastforce
  obtain n2 st2 where 2: "detect_drive (Suc 0) (n1, st1) = (n2, st2)" by fastforce
  obtain n3 st3 where 3: "detect_drive 2 (n2, st2) = (n3, st3)" by fastforce
  obtain n4 st4 where 4: "detect_drive 3 (n3, st3) = (n4, st4)" by fastforce
  have "table_ok 1 n1 st1" using detect_drive_table [OF t0 _ 1] by simp
  then have "table_ok 2 n2 st2" using detect_drive_table [OF _ _ 2] by (simp add: numeral_2_eq_2)
  then have "table_ok 3 n3 st3" using detect_drive_table [OF _ _ 3] by (simp add: numeral_3_eq_3)
  then have "table_ok 4 n4 st4" using detect_drive_table [OF _ _ 4] by (simp add: eval_nat_numeral)
  moreover have "disk_init st = st4\<lparr>drives_detected := n4\<rparr>"
    by (simp add: disk_init_def disk_detect_drives_def 1 2 3 4)
  ultimately show ?thesis by (simp add: table_ok_def)
qed

section \<open>A drive that answers\<close>

definition ready_disk :: disk where
  "ready_disk = \<lparr>inputs = (\<lambda>p n. 0x58), outputs = [], words_in = (\<lambda>p n. of_nat (n + 0x4100)), words_out = [],
     disk_mem = (\<lambda>x. ucast x), drives = replicate 4 zero_drive, drives_detected = 0\<rparr>"

lemma ready_disk_live: "drive_live base ready_disk"
  by (simp add: drive_live_def ready_disk_def is_ready_def wants_data_def not_busy_def
      ATA_STATUS_RDY_def ATA_STATUS_DRQ_def ATA_STATUS_BSY_def)

lemma ata_read_correct_witness:
  "fst (ata_read_sectors 1 1000 1 0x9000 ready_disk) = 0 \<and>
   outputs (snd (ata_read_sectors 1 1000 1 0x9000 ready_disk)) =
     [(0x1F6, 0xF0), (0x1F2, 1), (0x1F3, 0xE8), (0x1F4, 3), (0x1F5, 0), (0x1F7, 0x20)] \<and>
   disk_mem (snd (ata_read_sectors 1 1000 1 0x9000 ready_disk)) 0x9003 = 0x41 \<and>
   disk_mem (snd (ata_read_sectors 1 1000 1 0x9000 ready_disk)) 0x9203 = 3"
  using ata_read_correct [OF ready_disk_live, of 1 1000 1 "0x9000" "0x9003"] ata_read_correct [OF ready_disk_live, of 1 1000 1 "0x9000" "0x9203"]
  by (simp add: ready_disk_def command_block_def drive_base_def ATA_PRIMARY_BASE_def ATA_CMD_READ_SECTORS_def word_byte_def)

definition echo_disk :: disk where
  "echo_disk = ready_disk\<lparr>words_in := (\<lambda>p n. words_at (disk_mem ready_disk) 0x5000 256 ! n)\<rparr>"

lemma ata_write_read_roundtrip_witness:
  "disk_mem (snd (ata_read_sectors 0 7 1 0x9000 echo_disk)) (0x9000 + of_nat 3) = disk_mem ready_disk (0x5000 + of_nat 3)"
proof -
  obtain r st1 where w: "ata_write_sectors 0 7 1 0x5000 ready_disk = (r, st1)" by fastforce
  have "words_out st1 = words_out ready_disk @ map (Pair (drive_base 0)) (words_at (disk_mem ready_disk) 0x5000 256)"
    using ata_write_live [OF ready_disk_live, of 0 7 1 "0x5000"] w by auto
  moreover have "drive_live (drive_base 0) echo_disk"
    using ready_disk_live by (simp add: echo_disk_def drive_live_def)
  ultimately show ?thesis
    using ata_write_read_roundtrip [OF ready_disk_live _ w, of echo_disk _ 3 "0x9000"] by (simp add: echo_disk_def)
qed

lemma ata_transfer_timeout_witness:
  "fst (ata_read_sectors 0 7 1 0x9000 (ready_disk\<lparr>inputs := (\<lambda>p n. 0)\<rparr>)) = - 1 \<and>
   fst (ata_write_sectors 0 7 1 0x9000 (ready_disk\<lparr>inputs := (\<lambda>p n. 0)\<rparr>)) = - 1"
  using ata_transfer_timeout [of "ready_disk\<lparr>inputs := (\<lambda>p n. 0)\<rparr>" 0 7 1 "0x9000"]
  by (simp add: is_ready_def)

definition ata_geometry :: disk_geometry where
  "ata_geometry = \<lparr>cylinders = 100, heads = 16, sectors_per_track = 63, geometry_sector_size = 512, geometry_total_sectors = 100800\<rparr>"

lemma disk_geometry_roundtrip_witness:
  "chs_to_lba 0 15 56 ata_geometry = 1000 \<and> lba_to_chs (chs_to_lba 7 15 63 ata_geometry) ata_geometry = (7, 15, 63)"
  using disk_geometry_roundtrip(1) [of ata_geometry 1000 0 15 56] disk_geometry_roundtrip(2) [of ata_geometry 63 15 7]
  by (simp add: ata_geometry_def lba_to_chs_def)

end
