(* ===== verification/RingBuffer.thy ===== *)
theory RingBuffer
  imports Interrupts
begin

text \<open>
  The byte queues between an interrupt handler and its reader. The keyboard and the serial
  driver each keep a 256-byte ring with a head and a tail index; both are the record
  \<open>ring\<close>. The locale \<open>byte_queue\<close> is the contract that their readers rely on: a
  bounded first-in first-out queue that drops what does not fit. It is interpreted by the
  operations of both drivers.
\<close>

record ring = interrupts +
  buffer :: "u8 list"
  buffer_head :: u32
  buffer_tail :: u32

section \<open>The queue specification\<close>

datatype event = Push u8 | Pop

text \<open>The abstract queue with room for \<open>n\<close> bytes: it drops a byte when full and reads 0 when empty.\<close>

fun spec_event :: "nat \<Rightarrow> event \<Rightarrow> u8 list \<Rightarrow> u8 list \<times> u8 list" where
  "spec_event n (Push c) q = ([], if length q < n then q @ [c] else q)"
| "spec_event n Pop q = (case q of [] \<Rightarrow> ([0], []) | c # cs \<Rightarrow> ([c], cs))"

text \<open>A run of events, with the bytes that the reads returned.\<close>

fun run_events :: "(event \<Rightarrow> 's \<Rightarrow> u8 list \<times> 's) \<Rightarrow> event list \<Rightarrow> 's \<Rightarrow> u8 list \<times> 's" where
  "run_events f [] s = ([], s)"
| "run_events f (e # es) s = (let (xs, s') = f e s; (ys, s'') = run_events f es s' in (xs @ ys, s''))"

fun queue_event :: "(u8 \<Rightarrow> 's \<Rightarrow> 's) \<Rightarrow> ('s \<Rightarrow> u8 \<times> 's) \<Rightarrow> event \<Rightarrow> 's \<Rightarrow> u8 list \<times> 's" where
  "queue_event push pop (Push c) s = ([], push c s)"
| "queue_event push pop Pop s = (let (c, s') = pop s in ([c], s'))"

locale byte_queue =
  fixes push :: "u8 \<Rightarrow> 's \<Rightarrow> 's"
    and pop :: "'s \<Rightarrow> u8 \<times> 's"
    and empty :: "'s \<Rightarrow> bool"
    and queue :: "'s \<Rightarrow> u8 list"
    and inv :: "'s \<Rightarrow> bool"
    and room :: nat
  assumes push_queue: "inv s \<Longrightarrow> inv (push c s) \<and>
      queue (push c s) = (if length (queue s) < room then queue s @ [c] else queue s)"
    and pop_empty: "inv s \<Longrightarrow> queue s = [] \<Longrightarrow> pop s = (0, s)"
    and pop_queue: "inv s \<Longrightarrow> queue s = c # cs \<Longrightarrow> pop s = (d, s') \<Longrightarrow>
      inv s' \<and> d = c \<and> queue s' = cs"
    and empty_queue: "inv s \<Longrightarrow> empty s \<longleftrightarrow> queue s = []"
    and queue_bounded: "inv s \<Longrightarrow> length (queue s) \<le> room"
begin

lemma event_refines:
  assumes "inv s"
  shows "inv (snd (queue_event push pop e s))
    \<and> spec_event room e (queue s) = (fst (queue_event push pop e s), queue (snd (queue_event push pop e s)))"
proof (cases e)
  case (Push c)
  then show ?thesis using push_queue [OF assms] by simp
next
  case Pop
  obtain d s' where p: "pop s = (d, s')" by fastforce
  show ?thesis
  proof (cases "queue s")
    case Nil
    then show ?thesis using pop_empty [OF assms] Pop assms by simp
  next
    case (Cons c cs)
    then show ?thesis using pop_queue [OF assms Cons p] Pop p by simp
  qed
qed

text \<open>Every interleaving of writes and reads behaves like the abstract queue.\<close>

lemma run_refines:
  assumes "inv s"
  shows "inv (snd (run_events (queue_event push pop) es s))
    \<and> run_events (spec_event room) es (queue s)
      = (fst (run_events (queue_event push pop) es s), queue (snd (run_events (queue_event push pop) es s)))"
  using assms
proof (induction es arbitrary: s)
  case (Cons e es)
  obtain xs s' where e: "queue_event push pop e s = (xs, s')" by fastforce
  then have "inv s'" "spec_event room e (queue s) = (xs, queue s')" using event_refines [OF Cons.prems, of e] by simp_all
  then show ?case using Cons.IH [of s'] e
    by (cases "run_events (queue_event push pop) es s'") (simp add: Let_def)
qed simp

lemma fold_push:
  assumes "inv s" and "length (queue s) + length cs \<le> room"
  shows "inv (fold push cs s) \<and> queue (fold push cs s) = queue s @ cs"
  using assms
proof (induction cs arbitrary: s)
  case (Cons c cs)
  then show ?case using push_queue [OF Cons.prems(1), of c] Cons.IH [of "push c s"] by simp
qed simp

end

section \<open>The ring\<close>

definition ring_inv :: "'a ring_scheme \<Rightarrow> bool" where
  "ring_inv st \<longleftrightarrow> length (buffer st) = 256 \<and> buffer_head st < 256 \<and> buffer_tail st < 256"

definition ring_length :: "'a ring_scheme \<Rightarrow> nat" where
  "ring_length st = (unat (buffer_head st) + 256 - unat (buffer_tail st)) mod 256"

definition ring_queue :: "'a ring_scheme \<Rightarrow> u8 list" where
  "ring_queue st = map (\<lambda>i. buffer st ! ((unat (buffer_tail st) + i) mod 256)) [0..<ring_length st]"

lemma length_ring_queue [simp]: "length (ring_queue st) = ring_length st"
  by (simp add: ring_queue_def)

lemma ring_length_less: "ring_length st < 256"
  by (simp add: ring_length_def)

lemma mod_256: "x < 512 \<Longrightarrow> x mod 256 = (if x < 256 then x else x - (256 :: nat))"
  by (simp add: le_mod_geq)

lemma unat_Suc_mod: "(i :: u32) < 256 \<Longrightarrow> unat ((i + 1) mod 256) = Suc (unat i) mod 256"
  by (simp add: unat_mod unat_Suc_u32)

lemma ring_full_iff:
  assumes "ring_inv st"
  shows "(buffer_head st + 1) mod 256 = buffer_tail st \<longleftrightarrow> ring_length st = 255"
    and "buffer_head st = buffer_tail st \<longleftrightarrow> ring_length st = 0"
proof -
  define h t where "h = unat (buffer_head st)" and "t = unat (buffer_tail st)"
  have b: "h < 256" "t < 256" using assms by (simp_all add: ring_inv_def h_def t_def word_less_nat_alt)
  have "(buffer_head st + 1) mod 256 = buffer_tail st \<longleftrightarrow> Suc h mod 256 = t"
    using unat_Suc_mod [of "buffer_head st"] assms by (auto simp: ring_inv_def h_def t_def word_unat_eq_iff)
  also have "\<dots> \<longleftrightarrow> (h + 256 - t) mod 256 = 255" using b by (auto simp: mod_256)
  finally show "(buffer_head st + 1) mod 256 = buffer_tail st \<longleftrightarrow> ring_length st = 255"
    by (simp add: ring_length_def h_def t_def)
  have "buffer_head st = buffer_tail st \<longleftrightarrow> h = t" by (simp add: h_def t_def word_unat_eq_iff)
  also have "\<dots> \<longleftrightarrow> (h + 256 - t) mod 256 = 0" using b by (auto simp: mod_256)
  finally show "buffer_head st = buffer_tail st \<longleftrightarrow> ring_length st = 0"
    by (simp add: ring_length_def h_def t_def)
qed

lemma ring_push_queue:
  assumes inv: "ring_inv st" and room: "ring_length st < 255"
    and st': "st' = st\<lparr>buffer := (buffer st)[unat (buffer_head st) := c], buffer_head := (buffer_head st + 1) mod 256\<rparr>"
  shows "ring_inv st'" and "ring_queue st' = ring_queue st @ [c]"
proof -
  define h t n where "h = unat (buffer_head st)" and "t = unat (buffer_tail st)" and "n = ring_length st"
  have b: "h < 256" "t < 256" "length (buffer st) = 256"
    using inv by (simp_all add: ring_inv_def h_def t_def word_less_nat_alt)
  have h': "unat (buffer_head st') = Suc h mod 256"
    using inv by (simp add: st' unat_Suc_mod ring_inv_def h_def)
  have n: "n = (h + 256 - t) mod 256" by (simp add: n_def ring_length_def h_def t_def)
  have n': "ring_length st' = Suc n"
  proof -
    have "ring_length st' = (Suc h mod 256 + 256 - t) mod 256" by (simp add: ring_length_def h' t_def) (simp add: st')
    also have "\<dots> = Suc n" using room b n by (auto simp: mod_256 n_def [symmetric] split: if_splits)
    finally show ?thesis .
  qed
  have end_h: "(t + n) mod 256 = h" using n b by (auto simp: mod_256 split: if_splits)
  have neq: "(t + i) mod 256 \<noteq> h" if "i < n" for i using that n b by (auto simp: mod_256 split: if_splits)
  show "ring_inv st'" using inv by (simp add: st' ring_inv_def word_mod_less_divisor)
  have "buffer st' ! ((t + i) mod 256) = (ring_queue st @ [c]) ! i" if "i < Suc n" for i
  proof (cases "i < n")
    case True
    then show ?thesis using neq [OF True] by (simp add: st' ring_queue_def nth_append n_def t_def h_def)
  next
    case False
    then have "i = n" using that by simp
    then show ?thesis using end_h b by (simp add: st' nth_append n_def t_def h_def)
  qed
  moreover have "buffer_tail st' = buffer_tail st" by (simp add: st')
  ultimately show "ring_queue st' = ring_queue st @ [c]"
    by (intro nth_equalityI) (simp_all add: n' ring_queue_def [of st'] t_def n_def del: upt_Suc)
qed

lemma ring_pop_queue:
  assumes inv: "ring_inv st" and ne: "ring_length st \<noteq> 0"
    and st': "st' = st\<lparr>buffer_tail := (buffer_tail st + 1) mod 256\<rparr>"
  shows "ring_inv st'" and "ring_queue st = buffer st ! unat (buffer_tail st) # ring_queue st'"
proof -
  define h t n where "h = unat (buffer_head st)" and "t = unat (buffer_tail st)" and "n = ring_length st"
  have b: "h < 256" "t < 256" using inv by (simp_all add: ring_inv_def h_def t_def word_less_nat_alt)
  have t': "unat (buffer_tail st') = Suc t mod 256"
    using inv by (simp add: st' unat_Suc_mod ring_inv_def t_def)
  have n: "n = (h + 256 - t) mod 256" by (simp add: n_def ring_length_def h_def t_def)
  have hd: "buffer_head st' = buffer_head st" "buffer st' = buffer st" by (simp_all add: st')
  have n': "n = Suc (ring_length st')"
  proof -
    have "ring_length st' = (h + 256 - Suc t mod 256) mod 256" by (simp add: ring_length_def t' hd h_def)
    then show ?thesis using ne b n by (auto simp: mod_256 n_def [symmetric] split: if_splits)
  qed
  show "ring_inv st'" using inv by (simp add: st' ring_inv_def word_mod_less_divisor)
  have "(Suc t mod 256 + i) mod 256 = (t + Suc i) mod 256" for i by (simp add: mod_simps)
  then show "ring_queue st = buffer st ! unat (buffer_tail st) # ring_queue st'"
    using b n' by (simp add: ring_queue_def t' hd t_def [symmetric] n_def [symmetric] upt_conv_Cons map_Suc_upt [symmetric] comp_def del: upt_Suc)
qed

end
