(* ===== verification/Keyboard.thy ===== *)
theory Keyboard
  imports RingBuffer
begin

text \<open>
  The keyboard driver (\<open>drivers/keyboard.c\<close>): scancodes arrive in the interrupt handler, are
  translated under the shift and caps lock state, and wait in the ring until a reader takes
  them. Characters are bytes; \<open>bytes_of\<close> gives the bytes of a character literal.
\<close>

unbundle bit_operations_syntax

record keyboard = ring +
  shift_pressed :: bool
  caps_lock_on :: bool

definition bytes_of :: "string \<Rightarrow> u8 list" where
  "bytes_of s = map (\<lambda>c. of_nat (of_char c)) s"

definition KEYBOARD_DATA_PORT :: u16 where "KEYBOARD_DATA_PORT = 0x60"
definition KEY_LSHIFT :: u8 where "KEY_LSHIFT = 0x2A"
definition KEY_RSHIFT :: u8 where "KEY_RSHIFT = 0x36"
definition KEY_CAPSLOCK :: u8 where "KEY_CAPSLOCK = 0x3A"

text \<open>The two tables of 128 bytes. The initialisers have 90 entries; C fills the rest with zeros.\<close>

definition scancode_ascii_map :: "u8 list" where
  "scancode_ascii_map =
     [0, 27] @ bytes_of ''1234567890-='' @ [8, 9] @ bytes_of ''qwertyuiop[]'' @ [10, 0]
     @ bytes_of ''asdfghjkl;'' @ [39] @ bytes_of ''`'' @ [0, 92] @ bytes_of ''zxcvbnm,./'' @ [0]
     @ bytes_of ''*'' @ [0] @ bytes_of '' '' @ replicate 16 0 @ bytes_of ''-'' @ [0, 0, 0] @ bytes_of ''+''
     @ replicate 49 0"

definition scancode_ascii_map_shift :: "u8 list" where
  "scancode_ascii_map_shift =
     [0, 27] @ bytes_of ''!@#$%^&*()_+'' @ [8, 9] @ bytes_of ''QWERTYUIOP{}'' @ [10, 0]
     @ bytes_of ''ASDFGHJKL:'' @ [34] @ bytes_of ''~'' @ [0] @ bytes_of ''|'' @ bytes_of ''ZXCVBNM<>?'' @ [0]
     @ bytes_of ''*'' @ [0] @ bytes_of '' '' @ replicate 16 0 @ bytes_of ''-'' @ [0, 0, 0] @ bytes_of ''+''
     @ replicate 49 0"

section \<open>The ring of the keyboard\<close>

definition keyboard_buffer_init :: "'a ring_scheme \<Rightarrow> 'a ring_scheme" where
  "keyboard_buffer_init st = st\<lparr>buffer_head := 0, buffer_tail := 0\<rparr>"

definition keyboard_buffer_push :: "u8 \<Rightarrow> 'a ring_scheme \<Rightarrow> 'a ring_scheme" where
  "keyboard_buffer_push c st =
     (let next_head = (buffer_head st + 1) mod 256 in
      if next_head \<noteq> buffer_tail st
      then st\<lparr>buffer := (buffer st)[unat (buffer_head st) := c], buffer_head := next_head\<rparr>
      else st)"

definition keyboard_buffer_pop :: "'a ring_scheme \<Rightarrow> u8 \<times> 'a ring_scheme" where
  "keyboard_buffer_pop st =
     (if buffer_head st = buffer_tail st then (0, st)
      else (buffer st ! unat (buffer_tail st), st\<lparr>buffer_tail := (buffer_tail st + 1) mod 256\<rparr>))"

definition keyboard_buffer_empty :: "'a ring_scheme \<Rightarrow> bool" where
  "keyboard_buffer_empty st \<longleftrightarrow> buffer_head st = buffer_tail st"

interpretation keys: byte_queue keyboard_buffer_push keyboard_buffer_pop keyboard_buffer_empty ring_queue ring_inv 255
proof (unfold_locales, goal_cases)
  case (1 st c)
  have l: "ring_length st < 256" by (rule ring_length_less)
  show ?case
  proof (cases "ring_length st = 255")
    case True
    then show ?thesis using 1 ring_full_iff(1) [OF 1] by (simp add: keyboard_buffer_push_def)
  next
    case False
    then show ?thesis
      using l ring_full_iff(1) [OF 1] ring_push_queue [OF 1 _ refl, of c] by (simp add: keyboard_buffer_push_def Let_def)
  qed
next
  case (2 st)
  then have "ring_length st = 0" by (metis length_ring_queue list.size(3))
  then show ?case using ring_full_iff(2) [OF 2(1)] by (simp add: keyboard_buffer_pop_def)
next
  case (3 st c cs d st')
  then have "ring_length st \<noteq> 0" by (metis length_ring_queue length_0_conv list.distinct(1))
  then show ?case
    using 3 ring_pop_queue [OF 3(1) _ refl] ring_full_iff(2) [OF 3(1)] by (auto simp: keyboard_buffer_pop_def)
next
  case (4 st)
  then show ?case using ring_full_iff(2) [OF 4] by (metis keyboard_buffer_empty_def length_0_conv length_ring_queue)
next
  case (5 st)
  then show ?case using ring_length_less [of st] by simp
qed

section \<open>The interrupt handler\<close>

text \<open>The character of a key press. Codes are below 128; the case test compares table entries, which are
  ASCII, so the sign of \<open>char\<close> does not matter.\<close>

definition key_character :: "bool \<Rightarrow> bool \<Rightarrow> u8 \<Rightarrow> u8" where
  "key_character shift caps scancode =
     (let lower = scancode_ascii_map ! unat scancode; upper = scancode_ascii_map_shift ! unat scancode in
      if (shift \<and> \<not> caps) \<or> (\<not> shift \<and> caps) then
        (if 97 \<le> lower \<and> lower \<le> 122 then lower - 32 else upper)
      else if shift \<and> caps then
        (if 65 \<le> upper \<and> upper \<le> 90 then upper + 32 else upper)
      else lower)"

definition keyboard_handler :: "registers \<Rightarrow> 'a keyboard_scheme \<Rightarrow> 'a keyboard_scheme" where
  "keyboard_handler regs st =
     (let (scancode, st) = inb KEYBOARD_DATA_PORT st in
      if scancode AND 0x80 \<noteq> 0 then
        (let scancode = scancode AND 0x7F in
         if scancode = KEY_LSHIFT \<or> scancode = KEY_RSHIFT then st\<lparr>shift_pressed := False\<rparr> else st)
      else if scancode = KEY_LSHIFT \<or> scancode = KEY_RSHIFT then st\<lparr>shift_pressed := True\<rparr>
      else if scancode = KEY_CAPSLOCK then st\<lparr>caps_lock_on := \<not> caps_lock_on st\<rparr>
      else
        (let character = key_character (shift_pressed st) (caps_lock_on st) scancode in
         if character \<noteq> 0 then keyboard_buffer_push character st else st))"

definition keyboard_init :: "'a keyboard_scheme \<Rightarrow> 'a keyboard_scheme" where
  "keyboard_init st =
     irq_clear_mask 1 (keyboard_buffer_init (register_interrupt_handler 33 Keyboard_handler st))"

text \<open>The blocking read: while the ring is empty it waits for the interrupts \<open>irqs\<close> still to come; with
  none left it does not return.\<close>

fun keyboard_getchar :: "registers list \<Rightarrow> 'a keyboard_scheme \<Rightarrow> (u8 \<times> registers list \<times> 'a keyboard_scheme) option" where
  "keyboard_getchar irqs st =
     (if keyboard_buffer_empty st
      then (case irqs of [] \<Rightarrow> None | r # rs \<Rightarrow> keyboard_getchar rs (keyboard_handler r st))
      else (let (c, st) = keyboard_buffer_pop st in Some (c, irqs, st)))"

declare keyboard_getchar.simps [simp del]

section \<open>Properties\<close>

definition keyboard_reset :: keyboard where
  "keyboard_reset = \<lparr>inputs = (\<lambda>_ _. 0), outputs = [],
     idt = (\<lambda>_. \<lparr>offset_low = 0, selector = 0, reserved = 0, type_attr = 0, offset_high = 0\<rparr>),
     idt_desc = \<lparr>limit = 0, base = 0\<rparr>, idt_loaded = False, interrupt_handlers = Map.empty,
     buffer = replicate 256 0, buffer_head = 0, buffer_tail = 0, shift_pressed = False, caps_lock_on = False\<rparr>"

lemma keyboard_reset_ring: "ring_inv keyboard_reset" "ring_queue keyboard_reset = []"
  by (simp_all add: keyboard_reset_def ring_inv_def ring_queue_def ring_length_def)

text \<open>C31: Every interleaving of writes by \<open>keyboard_buffer_push\<close>, with which the interrupt handler queues a
  character, and reads by \<open>keyboard_buffer_pop\<close> behaves like a first-in first-out queue of 255 bytes that drops what
  does not fit and whose read gives 0 when it is empty; \<open>keyboard_getchar\<close> takes the first byte of a queue that
  is not empty, and with an empty one it waits: it goes on after the next interrupt, and without one never returns.\<close>

theorem keyboard_queue_refines:
  assumes "ring_inv st"
  shows "run_events (spec_event 255) es (ring_queue st)
      = (fst (run_events (queue_event keyboard_buffer_push keyboard_buffer_pop) es st),
         ring_queue (snd (run_events (queue_event keyboard_buffer_push keyboard_buffer_pop) es st)))
    \<and> ring_inv (snd (run_events (queue_event keyboard_buffer_push keyboard_buffer_pop) es st))
    \<and> (case ring_queue st of
         c # cs \<Rightarrow> \<exists>st'. keyboard_getchar irqs st = Some (c, irqs, st') \<and> ring_queue st' = cs \<and> ring_inv st'
       | [] \<Rightarrow> keyboard_getchar irqs st = (case irqs of [] \<Rightarrow> None | r # rs \<Rightarrow> keyboard_getchar rs (keyboard_handler r st)))"
proof (intro conjI)
  show "run_events (spec_event 255) es (ring_queue st)
      = (fst (run_events (queue_event keyboard_buffer_push keyboard_buffer_pop) es st),
         ring_queue (snd (run_events (queue_event keyboard_buffer_push keyboard_buffer_pop) es st)))"
    and "ring_inv (snd (run_events (queue_event keyboard_buffer_push keyboard_buffer_pop) es st))"
    using keys.run_refines [OF assms] by blast+
  show "case ring_queue st of
      c # cs \<Rightarrow> \<exists>st'. keyboard_getchar irqs st = Some (c, irqs, st') \<and> ring_queue st' = cs \<and> ring_inv st'
    | [] \<Rightarrow> keyboard_getchar irqs st = (case irqs of [] \<Rightarrow> None | r # rs \<Rightarrow> keyboard_getchar rs (keyboard_handler r st))"
  proof (cases "ring_queue st")
    case Nil
    then show ?thesis using keys.empty_queue [OF assms] by (simp add: keyboard_getchar.simps [of irqs st])
  next
    case (Cons c cs)
    obtain d st' where pop: "keyboard_buffer_pop st = (d, st')" by fastforce
    have "\<not> keyboard_buffer_empty st" using keys.empty_queue [OF assms] Cons by simp
    then have "keyboard_getchar irqs st = Some (d, irqs, st')" using pop by (simp add: keyboard_getchar.simps [of irqs st])
    then show ?thesis using keys.pop_queue [OF assms Cons pop] Cons by simp
  qed
qed

lemma keyboard_queue_refines_witness:
  "fst (run_events (queue_event keyboard_buffer_push keyboard_buffer_pop) [Push 97, Push 98, Pop, Pop, Pop] keyboard_reset)
    = [97, 98, 0]"
  using keyboard_queue_refines [OF keyboard_reset_ring(1), of "[Push 97, Push 98, Pop, Pop, Pop]"]
  by (simp add: keyboard_reset_ring(2))

subsection \<open>Translation\<close>

definition is_lower :: "u8 \<Rightarrow> bool" where "is_lower c \<longleftrightarrow> 97 \<le> c \<and> c \<le> 122"
definition is_upper :: "u8 \<Rightarrow> bool" where "is_upper c \<longleftrightarrow> 65 \<le> c \<and> c \<le> 90"

lemma length_maps: "length scancode_ascii_map = 128" "length scancode_ascii_map_shift = 128"
  by (simp_all add: scancode_ascii_map_def scancode_ascii_map_shift_def bytes_of_def)

lemma maps_numeric:
  "scancode_ascii_map = [0, 27, 49, 50, 51, 52, 53, 54, 55, 56, 57, 48, 45, 61, 8, 9, 113, 119, 101, 114, 116,
     121, 117, 105, 111, 112, 91, 93, 10, 0, 97, 115, 100, 102, 103, 104, 106, 107, 108, 59, 39, 96, 0, 92, 122,
     120, 99, 118, 98, 110, 109, 44, 46, 47, 0, 42, 0, 32] @ replicate 16 0 @ [45, 0, 0, 0, 43] @ replicate 49 0"
  "scancode_ascii_map_shift = [0, 27, 33, 64, 35, 36, 37, 94, 38, 42, 40, 41, 95, 43, 8, 9, 81, 87, 69, 82, 84,
     89, 85, 73, 79, 80, 123, 125, 10, 0, 65, 83, 68, 70, 71, 72, 74, 75, 76, 58, 34, 126, 0, 124, 90,
     88, 67, 86, 66, 78, 77, 60, 62, 63, 0, 42, 0, 32] @ replicate 16 0 @ [45, 0, 0, 0, 43] @ replicate 49 0"
  by (simp_all add: scancode_ascii_map_def scancode_ascii_map_shift_def bytes_of_def)

text \<open>The two tables agree on letters: the shifted one holds the capital exactly where the plain one holds
  a letter.\<close>

lemma maps_letters_list:
  "list_all2 (\<lambda>l u. is_lower l = is_upper u \<and> (is_lower l \<longrightarrow> u = l - 32))
     scancode_ascii_map scancode_ascii_map_shift"
proof -
  have "list_all2 (\<lambda>l u. is_lower l = is_upper u \<and> (is_lower l \<longrightarrow> u = l - 32)) (replicate n 0) (replicate n 0)" for n
    by (simp add: list_all2_conv_all_nth is_lower_def is_upper_def)
  then show ?thesis
    unfolding maps_numeric by (intro list_all2_appendI) (simp_all add: is_lower_def is_upper_def)
qed

lemma maps_letters:
  assumes "unat scancode < 128"
  shows "is_lower (scancode_ascii_map ! unat scancode) = is_upper (scancode_ascii_map_shift ! unat scancode)"
    and "is_lower (scancode_ascii_map ! unat scancode) \<Longrightarrow>
      scancode_ascii_map_shift ! unat scancode = scancode_ascii_map ! unat scancode - 32"
  using list_all2_nthD [OF maps_letters_list, of "unat scancode"] assms by (simp_all add: length_maps)

text \<open>Translation of a key press: a letter key gives the capital exactly when one of shift and caps lock is
  on, and the small letter otherwise. Every other key gives its shifted character when shift or
  caps lock is on, so that caps lock alone also turns digits into symbols.\<close>

theorem key_character_correct:
  assumes "unat scancode < 128"
  shows "key_character shift caps scancode =
    (if is_lower (scancode_ascii_map ! unat scancode)
     then (if shift \<noteq> caps then scancode_ascii_map_shift ! unat scancode else scancode_ascii_map ! unat scancode)
     else (if shift \<or> caps then scancode_ascii_map_shift ! unat scancode else scancode_ascii_map ! unat scancode))"
proof -
  define l u where "l = scancode_ascii_map ! unat scancode" and "u = scancode_ascii_map_shift ! unat scancode"
  have lu: "is_lower l = is_upper u" "is_lower l \<Longrightarrow> u = l - 32"
    using maps_letters [OF assms] by (simp_all add: l_def u_def)
  have restore: "u + 32 = l" if "is_upper u"
    using lu(2) [unfolded lu(1), OF that] by (simp only: diff_add_cancel)
  have key: "key_character shift caps scancode =
    (if (shift \<and> \<not> caps) \<or> (\<not> shift \<and> caps) then (if is_lower l then l - 32 else u)
     else if shift \<and> caps then (if is_upper u then u + 32 else u) else l)"
    unfolding key_character_def Let_def is_lower_def is_upper_def l_def u_def by (rule refl)
  show ?thesis
    unfolding l_def [symmetric] u_def [symmetric] key
  proof (cases "is_upper u")
    case True
    then have e: "is_lower l" "l - 32 = u" "u + 32 = l" using lu restore by blast+
    show "(if (shift \<and> \<not> caps) \<or> (\<not> shift \<and> caps) then (if is_lower l then l - 32 else u)
       else if shift \<and> caps then (if is_upper u then u + 32 else u) else l)
      = (if is_lower l then (if shift \<noteq> caps then u else l) else (if shift \<or> caps then u else l))"
      by (cases shift; cases caps) (simp_all only: e True if_True if_False simp_thms)
  next
    case False
    then have "\<not> is_lower l" using lu by blast
    then show "(if (shift \<and> \<not> caps) \<or> (\<not> shift \<and> caps) then (if is_lower l then l - 32 else u)
       else if shift \<and> caps then (if is_upper u then u + 32 else u) else l)
      = (if is_lower l then (if shift \<noteq> caps then u else l) else (if shift \<or> caps then u else l))"
      using False by (cases shift; cases caps) (simp_all only: if_True if_False simp_thms)
  qed
qed

lemma key_character_correct_witness:
  "key_character True False 30 = 65 \<and> key_character True True 30 = 97 \<and> key_character False True 2 = 33"
proof -
  have "scancode_ascii_map ! 30 = 97 \<and> scancode_ascii_map_shift ! 30 = 65
    \<and> scancode_ascii_map ! 2 = 49 \<and> scancode_ascii_map_shift ! 2 = 33" by (simp add: maps_numeric)
  then show ?thesis
    using key_character_correct [of 30] key_character_correct [of 2] by (simp add: is_lower_def)
qed

subsection \<open>Typing\<close>

text \<open>What a sequence of scancodes types, from a shift and caps lock state on.\<close>

fun typed :: "bool \<Rightarrow> bool \<Rightarrow> u8 list \<Rightarrow> u8 list" where
  "typed shift caps [] = []"
| "typed shift caps (b # bs) =
     (if b AND 0x80 \<noteq> 0 then
        typed (shift \<and> b AND 0x7F \<noteq> KEY_LSHIFT \<and> b AND 0x7F \<noteq> KEY_RSHIFT) caps bs
      else if b = KEY_LSHIFT \<or> b = KEY_RSHIFT then typed True caps bs
      else if b = KEY_CAPSLOCK then typed shift (\<not> caps) bs
      else (let c = key_character shift caps b in (if c \<noteq> 0 then [c] else []) @ typed shift caps bs))"

text \<open>The scancodes that the next \<open>n\<close> interrupts read.\<close>

definition scancodes :: "nat \<Rightarrow> 'a io_scheme \<Rightarrow> u8 list" where
  "scancodes n st = map (inputs st KEYBOARD_DATA_PORT) [0..<n]"

lemma scancodes_Suc:
  "scancodes (Suc n) st = inputs st KEYBOARD_DATA_PORT 0 # scancodes n (snd (inb KEYBOARD_DATA_PORT st))"
  by (simp add: scancodes_def inputs_inb upt_conv_Cons map_Suc_upt [symmetric] comp_def del: upt_Suc)

lemma keyboard_push_other:
  "shift_pressed (keyboard_buffer_push c st) = shift_pressed st"
  "caps_lock_on (keyboard_buffer_push c st) = caps_lock_on st"
  "inputs (keyboard_buffer_push c st) = inputs st"
  by (simp_all add: keyboard_buffer_push_def Let_def)

lemma ring_queue_cong:
  "buffer st' = buffer st \<Longrightarrow> buffer_head st' = buffer_head st \<Longrightarrow> buffer_tail st' = buffer_tail st \<Longrightarrow>
    ring_queue st' = ring_queue st \<and> ring_inv st' = ring_inv st"
  by (simp add: ring_queue_def ring_length_def ring_inv_def)

text \<open>One interrupt: the ring gains what the scancode types, and the modifier state follows.\<close>

lemma keyboard_handler_step:
  assumes "ring_inv st" and "length (ring_queue st) < 255"
    and "b = inputs st KEYBOARD_DATA_PORT 0" and st': "st' = keyboard_handler regs st"
  obtains out where "length out \<le> 1" and "ring_inv st'" and "ring_queue st' = ring_queue st @ out"
    and "inputs st' = inputs (snd (inb KEYBOARD_DATA_PORT st))"
    and "\<And>bs. typed (shift_pressed st) (caps_lock_on st) (b # bs) = out @ typed (shift_pressed st') (caps_lock_on st') bs"
proof -
  define st1 where "st1 = snd (inb KEYBOARD_DATA_PORT st)"
  have inb: "inb KEYBOARD_DATA_PORT st = (b, st1)" by (simp add: st1_def assms(3) inb_def)
  have st1: "ring_queue st1 = ring_queue st" "ring_inv st1" "shift_pressed st1 = shift_pressed st"
    "caps_lock_on st1 = caps_lock_on st"
    using ring_queue_cong [of st1 st] assms(1) by (simp_all add: st1_def inb_def)
  define c where "c = key_character (shift_pressed st) (caps_lock_on st) b"
  have push: "ring_inv (keyboard_buffer_push c st1)" "ring_queue (keyboard_buffer_push c st1) = ring_queue st @ [c]"
    using keys.push_queue [OF st1(2), of c] assms(2) st1(1) by simp_all
  have sh: "ring_queue (st1\<lparr>shift_pressed := x\<rparr>) = ring_queue st" "ring_inv (st1\<lparr>shift_pressed := x\<rparr>)"
    "ring_queue (st1\<lparr>caps_lock_on := x\<rparr>) = ring_queue st" "ring_inv (st1\<lparr>caps_lock_on := x\<rparr>)" for x
    using ring_queue_cong [of "st1\<lparr>shift_pressed := x\<rparr>" st1] ring_queue_cong [of "st1\<lparr>caps_lock_on := x\<rparr>" st1] st1
    by simp_all
  consider (up) "b AND 0x80 \<noteq> 0" | (shift) "b AND 0x80 = 0" "b = KEY_LSHIFT \<or> b = KEY_RSHIFT"
    | (caps) "b AND 0x80 = 0" "\<not> (b = KEY_LSHIFT \<or> b = KEY_RSHIFT)" "b = KEY_CAPSLOCK"
    | (key) "b AND 0x80 = 0" "\<not> (b = KEY_LSHIFT \<or> b = KEY_RSHIFT)" "b \<noteq> KEY_CAPSLOCK" by blast
  then show ?thesis
  proof cases
    case up
    then show ?thesis
      by (intro that [of "[]"]) (auto simp: st' keyboard_handler_def inb Let_def st1 sh st1_def [symmetric])
  next
    case shift
    then show ?thesis
      by (intro that [of "[]"]) (auto simp: st' keyboard_handler_def inb Let_def st1 sh st1_def [symmetric])
  next
    case caps
    then show ?thesis
      by (intro that [of "[]"]) (auto simp: st' keyboard_handler_def inb Let_def st1 sh st1_def [symmetric])
  next
    case key
    then have "st' = (if c \<noteq> 0 then keyboard_buffer_push c st1 else st1)"
      by (auto simp: st' keyboard_handler_def inb Let_def st1 c_def)
    then show ?thesis
      using key by (intro that [of "if c \<noteq> 0 then [c] else []"])
        (auto simp: push st1 keyboard_push_other st1_def [symmetric] c_def [symmetric] Let_def)
  qed
qed

text \<open>Typing: as long as they fit, the characters that a sequence of scancodes types, with shift held and
  released and caps lock toggled in between, arrive in the ring in order.\<close>

theorem keyboard_types:
  assumes "ring_inv st" and "length (ring_queue st) + length irqs \<le> 255"
  shows "ring_queue (fold keyboard_handler irqs st)
      = ring_queue st @ typed (shift_pressed st) (caps_lock_on st) (scancodes (length irqs) st)
    \<and> ring_inv (fold keyboard_handler irqs st)"
  using assms
proof (induction irqs arbitrary: st)
  case Nil
  then show ?case by (simp add: scancodes_def)
next
  case (Cons r rs)
  obtain out where s1: "ring_inv (keyboard_handler r st)"
    "ring_queue (keyboard_handler r st) = ring_queue st @ out"
    "inputs (keyboard_handler r st) = inputs (snd (inb KEYBOARD_DATA_PORT st))"
    "\<And>bs. typed (shift_pressed st) (caps_lock_on st) (inputs st KEYBOARD_DATA_PORT 0 # bs)
      = out @ typed (shift_pressed (keyboard_handler r st)) (caps_lock_on (keyboard_handler r st)) bs"
    and short: "length out \<le> 1"
    by (rule keyboard_handler_step [OF Cons.prems(1) _ refl refl, of r]) (use Cons.prems(2) in simp_all)
  have codes: "scancodes (length (r # rs)) st
      = inputs st KEYBOARD_DATA_PORT 0 # scancodes (length rs) (keyboard_handler r st)"
    by (simp add: scancodes_Suc) (simp add: scancodes_def s1(3))
  have "length (ring_queue (keyboard_handler r st)) + length rs \<le> 255"
    using Cons.prems(2) short by (simp only: s1(2)) simp
  from Cons.IH [OF s1(1) this] show ?case
    unfolding codes s1(4) by (simp add: s1(2))
qed

text \<open>Scancodes 0x1E (A), 0x2A (left shift), 0x1E, 0xAA (left shift released), 0x02.\<close>

lemma keyboard_types_witness:
  "\<exists>st irqs. ring_queue (fold keyboard_handler irqs (st :: keyboard)) = [97, 65, 49]"
proof -
  define codes :: "u8 list" where "codes = [0x1E, 0x2A, 0x1E, 0xAA, 0x02]"
  define st where "st = keyboard_reset\<lparr>inputs := (\<lambda>_ n. codes ! n)\<rparr>"
  have st: "ring_inv st" "ring_queue st = []" "shift_pressed st = False" "caps_lock_on st = False"
    using keyboard_reset_ring ring_queue_cong [of st keyboard_reset] by (simp_all add: st_def keyboard_reset_def)
  have k: "key_character False False 30 = 97" "key_character True False 30 = 65" "key_character False False 2 = 49"
    by (simp_all add: key_character_def maps_numeric)
  have codes: "scancodes 5 st = codes"
    by (simp add: scancodes_def st_def codes_def upt_rec)
  have "typed False False codes = [97, 65, 49]"
    by (simp add: codes_def KEY_LSHIFT_def KEY_RSHIFT_def KEY_CAPSLOCK_def k)
  then have "ring_queue (fold keyboard_handler (replicate 5 undefined) st) = [97, 65, 49]"
    using keyboard_types [OF st(1), of "replicate 5 undefined"] st codes by (simp del: fold_replicate)
  then show ?thesis by blast
qed

lemma keyboard_getchar_ready:
  "ring_inv st \<Longrightarrow> ring_queue st = c # cs \<Longrightarrow> \<exists>st'. keyboard_getchar irqs st = Some (c, irqs, st')"
  using keys.empty_queue [of st] keys.pop_queue [of st c cs]
  by (cases "keyboard_buffer_pop st") (auto simp: keyboard_getchar.simps [of irqs st] Let_def)

text \<open>The blocking read returns exactly when the interrupts still to come type a character, and it returns
  the first one typed.\<close>

theorem keyboard_getchar_returns:
  assumes "ring_inv st" and "ring_queue st = []"
  shows "map_option fst (keyboard_getchar irqs st)
    = (case typed (shift_pressed st) (caps_lock_on st) (scancodes (length irqs) st) of [] \<Rightarrow> None | c # cs \<Rightarrow> Some c)"
  using assms
proof (induction irqs arbitrary: st)
  case Nil
  then show ?case using keys.empty_queue [of st] by (simp add: keyboard_getchar.simps scancodes_def)
next
  case (Cons r rs)
  obtain out where short: "length out \<le> 1" and s1: "ring_inv (keyboard_handler r st)"
    "ring_queue (keyboard_handler r st) = ring_queue st @ out"
    "inputs (keyboard_handler r st) = inputs (snd (inb KEYBOARD_DATA_PORT st))"
    "\<And>bs. typed (shift_pressed st) (caps_lock_on st) (inputs st KEYBOARD_DATA_PORT 0 # bs)
      = out @ typed (shift_pressed (keyboard_handler r st)) (caps_lock_on (keyboard_handler r st)) bs"
    by (rule keyboard_handler_step [OF Cons.prems(1) _ refl refl, of r]) (use Cons.prems(2) in simp_all)
  have codes: "scancodes (length (r # rs)) st
      = inputs st KEYBOARD_DATA_PORT 0 # scancodes (length rs) (keyboard_handler r st)"
    by (simp add: scancodes_Suc) (simp add: scancodes_def s1(3))
  have step: "keyboard_getchar (r # rs) st = keyboard_getchar rs (keyboard_handler r st)"
    using Cons.prems keys.empty_queue [of st] by (simp add: keyboard_getchar.simps [of _ st])
  show ?case
  proof (cases out)
    case Nil
    then show ?thesis using Cons.IH [OF s1(1)] Cons.prems(2) unfolding codes s1(4) step by (simp add: s1(2))
  next
    case (Cons c cs)
    then have "ring_queue (keyboard_handler r st) = c # cs" using \<open>ring_queue st = []\<close> by (simp add: s1(2))
    from keyboard_getchar_ready [OF s1(1) this, of rs] show ?thesis
      unfolding codes s1(4) step by (auto simp: Cons)
  qed
qed

lemma keyboard_getchar_returns_witness: "keyboard_getchar [] keyboard_reset = None"
  using keyboard_getchar_returns [OF keyboard_reset_ring, of "[]"] by (simp add: scancodes_def)

end
