(* ===== verification/Serial.thy ===== *)
theory Serial
  imports Keyboard CMemory
begin

text \<open>
  The serial driver (\<open>drivers/serial.c\<close>): a transmitter that waits for the line, number
  output for debugging, and a receive ring fed by the interrupt handler. The wait for the
  transmitter is a \<open>partial_function\<close>: on a line that is never ready it has the value
  \<open>None\<close>.
\<close>

unbundle bit_operations_syntax

record serial = ring +
  serial_initialized :: bool

definition SERIAL_COM1_PORT :: u16 where "SERIAL_COM1_PORT = 0x3F8"
definition LINE_STATUS :: u16 where "LINE_STATUS = 0x3FD"
definition LSR_DR :: u8 where "LSR_DR = 0x01"
definition LSR_THRE :: u8 where "LSR_THRE = 0x20"

section \<open>Transmission\<close>

definition serial_transmit_empty :: "'a io_scheme \<Rightarrow> u8 \<times> 'a io_scheme" where
  "serial_transmit_empty st = (let (s, st) = inb LINE_STATUS st in (s AND LSR_THRE, st))"

partial_function (option) serial_wait :: "'a io_scheme \<Rightarrow> 'a io_scheme option" where
  "serial_wait st = (let (s, st') = serial_transmit_empty st in if s \<noteq> 0 then Some st' else serial_wait st')"

declare serial_wait.simps [code]

definition serial_write :: "u8 \<Rightarrow> 'a io_scheme \<Rightarrow> 'a io_scheme option" where
  "serial_write c st = Option.bind (serial_wait st) (\<lambda>st. Some (outb SERIAL_COM1_PORT c st))"

text \<open>A C string is the list of its bytes; the loop stops at a NUL or at the end of the list.\<close>

fun serial_write_bytes :: "u8 list \<Rightarrow> 'a io_scheme \<Rightarrow> 'a io_scheme option" where
  "serial_write_bytes [] st = Some st"
| "serial_write_bytes (c # cs) st =
     (if c = 0 then Some st else Option.bind (serial_write c st) (serial_write_bytes cs))"

definition serial_write_string :: "u8 list \<Rightarrow> 'a serial_scheme \<Rightarrow> 'a serial_scheme option" where
  "serial_write_string str st = (if \<not> serial_initialized st then Some st else serial_write_bytes str st)"

definition hex_chars :: "u8 list" where
  "hex_chars = bytes_of ''0123456789ABCDEF''"

fun hex_loop :: "nat \<Rightarrow> u32 \<Rightarrow> u8 list \<Rightarrow> u8 list" where
  "hex_loop 0 v acc = acc"
| "hex_loop (Suc k) v acc = hex_loop k (drop_bit 4 v) (hex_chars ! unat (v AND 0xF) # acc)"

definition hex_string :: "u32 \<Rightarrow> u8 list" where
  "hex_string v = [48, 120] @ hex_loop 8 v []"

definition serial_write_hex :: "u32 \<Rightarrow> 'a serial_scheme \<Rightarrow> 'a serial_scheme option" where
  "serial_write_hex v st = (if \<not> serial_initialized st then Some st else serial_write_string (hex_string v) st)"

function dec_loop :: "u32 \<Rightarrow> u8 list \<Rightarrow> u8 list" where
  "dec_loop v acc =
     (let acc = (48 + ucast (v mod 10)) # acc; v = v div 10
      in if 0 < v then dec_loop v acc else acc)"
  by pat_completeness auto
termination
  by (relation "measure (\<lambda>(v, acc). unat v)") (auto simp: word_less_nat_alt unat_div)

declare dec_loop.simps [simp del]

definition dec_string :: "u32 \<Rightarrow> u8 list" where
  "dec_string v = dec_loop v []"

definition serial_write_dec :: "u32 \<Rightarrow> 'a serial_scheme \<Rightarrow> 'a serial_scheme option" where
  "serial_write_dec v st = (if \<not> serial_initialized st then Some st else serial_write_string (dec_string v) st)"

section \<open>Reception\<close>

definition serial_read :: "'a io_scheme \<Rightarrow> u8 \<times> 'a io_scheme" where
  "serial_read st =
     (let (s, st) = inb LINE_STATUS st in
      if s AND LSR_DR \<noteq> 0 then inb SERIAL_COM1_PORT st else (0, st))"

definition serial_buffer_push :: "u8 \<Rightarrow> 'a ring_scheme \<Rightarrow> 'a ring_scheme" where
  "serial_buffer_push c st =
     (let next_head = (buffer_head st + 1) mod 256 in
      if next_head \<noteq> buffer_tail st
      then st\<lparr>buffer := (buffer st)[unat (buffer_head st) := c], buffer_head := next_head\<rparr>
      else st)"

definition serial_buffer_pop :: "'a ring_scheme \<Rightarrow> u8 \<times> 'a ring_scheme" where
  "serial_buffer_pop st =
     (if buffer_head st = buffer_tail st then (0, st)
      else (buffer st ! unat (buffer_tail st), st\<lparr>buffer_tail := (buffer_tail st + 1) mod 256\<rparr>))"

definition serial_buffer_empty :: "'a ring_scheme \<Rightarrow> bool" where
  "serial_buffer_empty st \<longleftrightarrow> buffer_head st = buffer_tail st"

definition serial_interrupt_handler :: "registers \<Rightarrow> 'a ring_scheme \<Rightarrow> 'a ring_scheme option" where
  "serial_interrupt_handler regs st =
     (let (data, st) = inb SERIAL_COM1_PORT st in serial_write data (serial_buffer_push data st))"

section \<open>Initialisation and debugging output\<close>

definition serial_init :: "'a serial_scheme \<Rightarrow> 'a serial_scheme option" where
  "serial_init st =
     (let st = outb 0x3F9 0x00 st; st = outb 0x3FB 0x80 st;
          st = outb 0x3F8 0x03 st; st = outb 0x3F9 0x00 st;
          st = outb 0x3FB 0x03 st; st = outb 0x3FA 0xC7 st;
          st = outb 0x3FC 0x0B st; st = outb 0x3F9 0x01 st;
          st = register_interrupt_handler 36 Serial_interrupt_handler st;
          st = irq_clear_mask 4 st;
          st = st\<lparr>buffer_head := 0, buffer_tail := 0, serial_initialized := True\<rparr>
      in serial_write_string (bytes_of ''Serial port initialized - aceOS debugging enabled'' @ [13, 10]) st)"

definition debug_print :: "u8 list \<Rightarrow> 'a serial_scheme \<Rightarrow> 'a serial_scheme option" where
  "debug_print message st = serial_write_string message st"

definition debug_println :: "u8 list \<Rightarrow> 'a serial_scheme \<Rightarrow> 'a serial_scheme option" where
  "debug_println message st = Option.bind (serial_write_string message st) (serial_write_string [13, 10])"

definition debug_printf :: "u8 list \<Rightarrow> 'a serial_scheme \<Rightarrow> 'a serial_scheme option" where
  "debug_printf format st = Option.bind (serial_write_string format st) (serial_write_string [13, 10])"

text \<open>The register dump writes a name, the value and a line end for each register in turn.\<close>

fun dump_lines :: "(string \<times> u32) list \<Rightarrow> 'a serial_scheme \<Rightarrow> 'a serial_scheme option" where
  "dump_lines [] st = Some st"
| "dump_lines ((name, v) # rs) st =
     Option.bind (serial_write_string (bytes_of (name @ '': 0x'')) st) (\<lambda>st.
     Option.bind (serial_write_hex v st) (\<lambda>st.
     Option.bind (serial_write_string [13, 10] st) (dump_lines rs)))"

definition debug_dump_registers :: "registers \<Rightarrow> 'a serial_scheme \<Rightarrow> 'a serial_scheme option" where
  "debug_dump_registers r st =
     Option.bind (serial_write_string (bytes_of ''Register Dump:'' @ [13, 10]) st)
       (dump_lines [(''EAX'', reg_eax r), (''EBX'', reg_ebx r), (''ECX'', reg_ecx r), (''EDX'', reg_edx r),
          (''ESP'', reg_esp r), (''EBP'', reg_ebp r), (''ESI'', reg_esi r), (''EDI'', reg_edi r), (''EIP'', reg_eip r)])"

fun stack_lines :: "mem \<Rightarrow> u32 \<Rightarrow> nat \<Rightarrow> 'a serial_scheme \<Rightarrow> 'a serial_scheme option" where
  "stack_lines m ptr 0 st = Some st"
| "stack_lines m ptr (Suc n) st =
     Option.bind (serial_write_string (bytes_of ''[0x'') st) (\<lambda>st.
     Option.bind (serial_write_hex ptr st) (\<lambda>st.
     Option.bind (serial_write_string (bytes_of '']: 0x'') st) (\<lambda>st.
     Option.bind (serial_write_hex (load32 m ptr) st) (\<lambda>st.
     Option.bind (serial_write_string [13, 10] st) (stack_lines m (ptr + 4) n)))))"

definition debug_dump_stack :: "mem \<Rightarrow> u32 \<Rightarrow> u32 \<Rightarrow> 'a serial_scheme \<Rightarrow> 'a serial_scheme option" where
  "debug_dump_stack m stack_ptr count st =
     Option.bind (serial_write_string (bytes_of ''Stack Dump:'' @ [13, 10]) st) (stack_lines m stack_ptr (unat count))"

section \<open>The receive ring\<close>

lemma serial_ring_ops:
  "serial_buffer_push = keyboard_buffer_push" "serial_buffer_pop = keyboard_buffer_pop"
  "serial_buffer_empty = keyboard_buffer_empty"
  by (simp_all add: fun_eq_iff serial_buffer_push_def keyboard_buffer_push_def serial_buffer_pop_def
      keyboard_buffer_pop_def serial_buffer_empty_def keyboard_buffer_empty_def)

interpretation received: byte_queue serial_buffer_push serial_buffer_pop serial_buffer_empty ring_queue ring_inv 255
  unfolding serial_ring_ops by (rule keys.byte_queue_axioms)

section \<open>Properties\<close>

text \<open>The line keeps becoming ready: whatever was read, a later status says so.\<close>

definition line_live :: "'a io_scheme \<Rightarrow> bool" where
  "line_live st \<longleftrightarrow> (\<forall>n. \<exists>k \<ge> n. inputs st LINE_STATUS k AND LSR_THRE \<noteq> 0)"

lemma serial_wait_step:
  "serial_wait st = (if inputs st LINE_STATUS 0 AND LSR_THRE \<noteq> 0 then Some (snd (inb LINE_STATUS st))
    else serial_wait (snd (inb LINE_STATUS st)))"
  by (subst serial_wait.simps) (simp add: serial_transmit_empty_def inb_def Let_def)

lemma serial_wait_returns:
  assumes "inputs st LINE_STATUS k AND LSR_THRE \<noteq> 0"
  shows "\<exists>st' j. serial_wait st = Some st' \<and> outputs st' = outputs st
    \<and> inputs st' LINE_STATUS = (\<lambda>n. inputs st LINE_STATUS (n + j))"
  using assms
proof (induction k arbitrary: st)
  case 0
  then show ?case by (subst serial_wait_step) (auto simp: inputs_inb intro: exI [of _ 1])
next
  case (Suc k)
  show ?case
  proof (cases "inputs st LINE_STATUS 0 AND LSR_THRE \<noteq> 0")
    case True
    then show ?thesis by (subst serial_wait_step) (auto simp: inputs_inb intro: exI [of _ 1])
  next
    case False
    define st1 where "st1 = snd (inb LINE_STATUS st)"
    have st1: "outputs st1 = outputs st" "inputs st1 = (inputs st)(LINE_STATUS := (\<lambda>n. inputs st LINE_STATUS (Suc n)))"
      by (simp_all add: st1_def inputs_inb)
    obtain st' j where "serial_wait st1 = Some st'" "outputs st' = outputs st1"
      "inputs st' LINE_STATUS = (\<lambda>n. inputs st1 LINE_STATUS (n + j))"
      using Suc.IH [of st1] Suc.prems st1 by auto
    then show ?thesis
      using False serial_wait_step [of st] st1 by (intro exI [of _ st'] exI [of _ "Suc j"]) (simp add: st1_def [symmetric])
  qed
qed

lemma serial_wait_state:
  assumes "serial_wait st = Some st'"
  shows "\<exists>i. st' = st\<lparr>inputs := i\<rparr>"
  by (rule serial_wait.raw_induct [where P = "\<lambda>st r. \<exists>i. r = st\<lparr>inputs := i\<rparr>", OF _ assms])
    (fastforce simp: serial_transmit_empty_def inb_def Let_def split: if_splits)

lemma serial_write_ring:
  assumes "serial_write c st = Some st'"
  shows "ring_queue st' = ring_queue st"
proof -
  obtain st1 where "serial_wait st = Some st1" "st' = outb SERIAL_COM1_PORT c st1"
    using assms by (auto simp: serial_write_def bind_eq_Some_conv)
  moreover from serial_wait_state [OF this(1)] obtain i where "st1 = st\<lparr>inputs := i\<rparr>" by blast
  ultimately show ?thesis using ring_queue_cong [of st' st] by (simp add: outb_def)
qed

lemma serial_write_live:
  assumes "line_live st"
  shows "\<exists>st'. serial_write c st = Some st' \<and> line_live st' \<and> outputs st' = outputs st @ [(SERIAL_COM1_PORT, c)]"
proof -
  obtain k where "inputs st LINE_STATUS k AND LSR_THRE \<noteq> 0" using assms by (auto simp: line_live_def)
  from serial_wait_returns [OF this] obtain st' j where w: "serial_wait st = Some st'" "outputs st' = outputs st"
    "inputs st' LINE_STATUS = (\<lambda>n. inputs st LINE_STATUS (n + j))" by blast
  have "line_live st'"
    unfolding line_live_def
  proof
    fix n
    obtain k where "n + j \<le> k" "inputs st LINE_STATUS k AND LSR_THRE \<noteq> 0" using assms unfolding line_live_def by blast
    then show "\<exists>k \<ge> n. inputs st' LINE_STATUS k AND LSR_THRE \<noteq> 0"
      by (intro exI [of _ "k - j"]) (simp add: w(3))
  qed
  then show ?thesis using w by (simp add: serial_write_def line_live_def)
qed

lemma serial_write_bytes_live:
  assumes "line_live st"
  shows "\<exists>st'. serial_write_bytes s st = Some st' \<and> line_live st'
    \<and> outputs st' = outputs st @ map (Pair SERIAL_COM1_PORT) (takeWhile (\<lambda>c. c \<noteq> 0) s)"
  using assms
proof (induction s arbitrary: st)
  case (Cons c cs)
  obtain st1 where "serial_write c st = Some st1" "line_live st1" "outputs st1 = outputs st @ [(SERIAL_COM1_PORT, c)]"
    using serial_write_live [OF Cons.prems] by blast
  then show ?case using Cons.IH [of st1] Cons.prems by auto
qed simp

text \<open>On a line that keeps becoming ready, writing a string returns and sends exactly its bytes up to the
  terminator, in order; a port not yet initialised sends nothing.\<close>

theorem serial_write_string_sends:
  assumes "line_live st"
  shows "\<exists>st'. serial_write_string s st = Some st' \<and> outputs st' = outputs st @
    (if serial_initialized st then map (Pair SERIAL_COM1_PORT) (takeWhile (\<lambda>c. c \<noteq> 0) s) else [])"
  using serial_write_bytes_live [OF assms, of s] by (auto simp: serial_write_string_def)

definition serial_reset :: serial where
  "serial_reset = \<lparr>inputs = (\<lambda>_ _. 0xFF), outputs = [],
     idt = (\<lambda>_. \<lparr>offset_low = 0, selector = 0, reserved = 0, type_attr = 0, offset_high = 0\<rparr>),
     idt_desc = \<lparr>limit = 0, base = 0\<rparr>, idt_loaded = False, interrupt_handlers = Map.empty,
     buffer = replicate 256 0, buffer_head = 0, buffer_tail = 0, serial_initialized = True\<rparr>"

lemma serial_write_string_sends_witness:
  "\<exists>st'. serial_write_string [72, 105, 0, 33] serial_reset = Some st' \<and> outputs st' = [(0x3F8, 72), (0x3F8, 105)]"
  using serial_write_string_sends [of serial_reset "[72, 105, 0, 33]"]
  by (auto simp: serial_reset_def line_live_def LSR_THRE_def SERIAL_COM1_PORT_def)

lemma serial_wait_needs_ready:
  assumes "serial_wait st = Some st'"
  shows "\<exists>n. inputs st LINE_STATUS n AND LSR_THRE \<noteq> 0"
  by (rule serial_wait.raw_induct [where P = "\<lambda>st r. \<exists>n. inputs st LINE_STATUS n AND LSR_THRE \<noteq> 0", OF _ assms])
    (fastforce simp: serial_transmit_empty_def inb_def Let_def split: if_splits)

text \<open>On a line that is never ready no write returns: the wait has no timeout.\<close>

theorem serial_write_hangs:
  assumes "\<forall>n. inputs st LINE_STATUS n AND LSR_THRE = 0"
  shows "serial_write c st = None"
  using serial_wait_needs_ready [of st] assms by (cases "serial_wait st") (auto simp: serial_write_def)

lemma serial_write_hangs_witness: "serial_write 65 (serial_reset\<lparr>inputs := (\<lambda>_ _. 0)\<rparr>) = None"
  by (rule serial_write_hangs) simp

subsection \<open>Numbers\<close>

definition hex_digit :: "u8 \<Rightarrow> nat" where
  "hex_digit c = (if c < 65 then unat c - 48 else unat c - 55)"

definition hex_value :: "u8 list \<Rightarrow> nat" where
  "hex_value cs = foldl (\<lambda>a c. 16 * a + hex_digit c) 0 cs"

lemma hex_chars_numeric: "hex_chars = [48, 49, 50, 51, 52, 53, 54, 55, 56, 57, 65, 66, 67, 68, 69, 70]"
  by (simp add: hex_chars_def bytes_of_def)

lemma hex_digit_chars: "n < 16 \<Longrightarrow> hex_digit (hex_chars ! n) = n"
proof -
  have "map hex_digit hex_chars = [0..<16]"
    by (simp add: hex_chars_numeric hex_digit_def upt_rec)
  then show "n < 16 \<Longrightarrow> hex_digit (hex_chars ! n) = n"
    by (metis add_0 diff_zero length_map length_upt nth_map nth_upt)
qed

lemma foldl_hex: "foldl (\<lambda>a c. 16 * a + hex_digit c) a cs = a * 16 ^ length cs + hex_value cs"
proof (induction cs arbitrary: a)
  case (Cons c cs)
  show ?case using Cons [of "16 * a + hex_digit c"] Cons [of "hex_digit c"] by (simp add: hex_value_def algebra_simps)
qed (simp add: hex_value_def)

lemma hex_value_Cons: "hex_value (c # cs) = hex_digit c * 16 ^ length cs + hex_value cs"
  using foldl_hex [of "hex_digit c" cs] by (simp add: hex_value_def)

lemma hex_loop_value:
  "unat v < 16 ^ k \<Longrightarrow> hex_value (hex_loop k v acc) = unat v * 16 ^ length acc + hex_value acc
    \<and> length (hex_loop k v acc) = k + length acc"
proof (induction k arbitrary: v acc)
  case (Suc k)
  have "v AND 0xF = take_bit 4 v" by (simp add: take_bit_eq_mask mask_eq_exp_minus_1)
  then have v: "unat (drop_bit 4 v) = unat v div 16" "unat (v AND 0xF) = unat v mod 16"
    by (simp_all add: drop_bit_eq_div take_bit_eq_mod unat_div unat_mod)
  define q r L where "q = unat v div 16" and "r = unat v mod 16" and "L = length acc"
  have qr: "16 * q + r = unat v" by (simp add: q_def r_def)
  have "unat (drop_bit 4 v) < 16 ^ k"
    using Suc.prems by (simp only: v) (simp add: div_less_iff_less_mult mult.commute)
  note IH = Suc.IH [OF this, of "hex_chars ! r # acc"]
  have len: "length (hex_loop (Suc k) v acc) = Suc k + L"
    using IH by (simp only: hex_loop.simps v r_def [symmetric]) (simp add: L_def)
  have "hex_value (hex_loop (Suc k) v acc) = q * 16 ^ Suc L + hex_value (hex_chars ! r # acc)"
    using IH by (simp only: hex_loop.simps v q_def [symmetric] r_def [symmetric] L_def length_Cons)
  also have "hex_value (hex_chars ! r # acc) = r * 16 ^ L + hex_value acc"
    by (simp add: hex_value_Cons hex_digit_chars r_def L_def)
  finally have "hex_value (hex_loop (Suc k) v acc) = (16 * q + r) * 16 ^ L + hex_value acc"
    by (simp add: algebra_simps)
  then show ?case unfolding qr using len by (simp add: L_def)
qed simp

text \<open>The hexadecimal output is \<open>0x\<close> and eight digits that read back as the number, for every 32-bit
  value.\<close>

theorem hex_string_reads_back:
  "\<exists>ds. hex_string v = bytes_of ''0x'' @ ds \<and> length ds = 8 \<and> hex_value ds = unat v"
  using hex_loop_value [of v 8 "[]"] unat_u32_bound [of v] by (simp add: hex_string_def bytes_of_def hex_value_def)

definition dec_value :: "u8 list \<Rightarrow> nat" where
  "dec_value cs = foldl (\<lambda>a c. 10 * a + (unat c - 48)) 0 cs"

lemma foldl_dec: "foldl (\<lambda>a c. 10 * a + (unat c - 48)) a cs = a * 10 ^ length cs + dec_value cs"
proof (induction cs arbitrary: a)
  case (Cons c cs)
  show ?case using Cons [of "10 * a + (unat c - 48)"] Cons [of "unat c - 48"] by (simp add: dec_value_def algebra_simps)
qed (simp add: dec_value_def)

lemma dec_value_Cons: "dec_value (c # cs) = (unat c - 48) * 10 ^ length cs + dec_value cs"
  using foldl_dec [of "unat c - 48" cs] by (simp add: dec_value_def)

lemma dec_digit: "unat (48 + ucast (v mod 10) :: u8) = 48 + unat (v :: u32) mod 10"
proof -
  have "unat (v mod 10) = unat v mod 10" by (simp add: unat_mod)
  then have "unat (ucast (v mod 10) :: u8) = unat v mod 10"
    by (simp add: unsigned_ucast_eq take_bit_eq_mod)
  then show ?thesis by (simp add: unat_word_ariths)
qed

lemma dec_loop_value:
  "dec_value (dec_loop v acc) = unat v * 10 ^ length acc + dec_value acc"
proof (induction v acc rule: dec_loop.induct)
  case (1 v acc)
  define d where "d = (48 + ucast (v mod 10) :: u8) # acc"
  have d: "dec_value d = unat v mod 10 * 10 ^ length acc + dec_value acc"
    by (simp add: d_def dec_value_Cons dec_digit)
  have q: "0 < v div 10 \<longleftrightarrow> unat v div 10 \<noteq> 0" by (simp add: word_less_nat_alt unat_div)
  define q r L where "q = unat v div 10" and "r = unat v mod 10" and "L = length acc"
  have qr: "10 * q + r = unat v" and uq: "unat (v div 10) = q" by (simp_all add: q_def r_def unat_div)
  show ?case
  proof (cases "0 < v div 10")
    case True
    then have "dec_value (dec_loop v acc) = unat (v div 10) * 10 ^ length d + dec_value d"
      using 1 [OF d_def refl] by (subst dec_loop.simps) (simp add: d_def Let_def)
    also have "\<dots> = q * 10 ^ Suc L + (r * 10 ^ L + dec_value acc)"
      unfolding d uq r_def [symmetric] by (simp add: d_def L_def)
    also have "\<dots> = (10 * q + r) * 10 ^ L + dec_value acc" by (simp add: algebra_simps)
    finally show ?thesis unfolding qr L_def .
  next
    case False
    then have "dec_loop v acc = d" by (subst dec_loop.simps) (simp add: d_def Let_def)
    moreover have "unat v mod 10 = unat v" using False q by simp
    ultimately show ?thesis using d by simp
  qed
qed

lemma dec_loop_head:
  "\<exists>c cs. dec_loop v acc = c # cs \<and> 48 \<le> unat c \<and> unat c \<le> 57 \<and> (v \<noteq> 0 \<longrightarrow> c \<noteq> 48)"
proof (induction v acc rule: dec_loop.induct)
  case (1 v acc)
  show ?case
  proof (cases "0 < v div 10")
    case True
    then show ?thesis using 1 [OF refl refl True] by (subst (1) dec_loop.simps) (auto simp: Let_def)
  next
    case False
    then have e: "dec_loop v acc = (48 + ucast (v mod 10)) # acc" by (subst dec_loop.simps) (simp add: Let_def)
    have "unat v div 10 = 0" using False by (simp add: word_less_nat_alt unat_div)
    then have "unat (48 + ucast (v mod 10) :: u8) = 48 + unat v" by (simp add: dec_digit)
    moreover have "unat v < 10" using \<open>unat v div 10 = 0\<close> by simp
    ultimately show ?thesis unfolding e by (auto simp: unat_eq_zero)
  qed
qed

lemma dec_loop_length: "unat v < 10 ^ Suc k \<Longrightarrow> length (dec_loop v acc) \<le> Suc k + length acc"
proof (induction k arbitrary: v acc)
  case 0
  then have "\<not> 0 < v div 10" by (simp add: word_less_nat_alt unat_div)
  then show ?case by (subst dec_loop.simps) (simp add: Let_def)
next
  case (Suc k)
  have "unat (v div 10) < 10 ^ Suc k"
    using Suc.prems by (simp add: unat_div div_less_iff_less_mult mult.commute)
  from Suc.IH [OF this, of "(48 + ucast (v mod 10)) # acc"] show ?case
    by (subst dec_loop.simps) (simp add: Let_def)
qed

text \<open>The decimal output reads back as the number, has no leading zero, and fits the eleven characters of
  the local buffer, for every 32-bit value.\<close>

theorem dec_string_reads_back:
  "dec_value (dec_string v) = unat v \<and> length (dec_string v) \<le> 10
    \<and> (\<exists>c cs. dec_string v = c # cs \<and> 48 \<le> unat c \<and> unat c \<le> 57 \<and> (c = 48 \<longrightarrow> v = 0))"
proof -
  have "length (dec_loop v []) \<le> Suc 9 + length ([] :: u8 list)"
    by (rule dec_loop_length) (use unat_u32_bound [of v] in \<open>simp del: unat_u32_bound\<close>)
  then show ?thesis
    using dec_loop_value [of v "[]"] dec_loop_head [of v "[]"] by (auto simp: dec_string_def dec_value_def)
qed

lemma dec_string_reads_back_witness: "dec_value (dec_string 1024) = 1024 \<and> length (dec_string 1024) \<le> 10"
  using dec_string_reads_back [of 1024] by simp

text \<open>Reception: a byte that arrives is appended to the receive queue when there is room and is echoed, as long
  as the line is live.\<close>

theorem serial_receives_and_echoes:
  assumes "ring_inv st" and "line_live st" and "b = inputs st SERIAL_COM1_PORT 0"
  shows "\<exists>st'. serial_interrupt_handler regs st = Some st' \<and> outputs st' = outputs st @ [(SERIAL_COM1_PORT, b)]
    \<and> ring_queue st' = (if length (ring_queue st) < 255 then ring_queue st @ [b] else ring_queue st)"
proof -
  define st0 where "st0 = snd (inb SERIAL_COM1_PORT st)"
  define st1 where "st1 = serial_buffer_push b st0"
  have st0: "ring_queue st0 = ring_queue st" "ring_inv st0"
    using ring_queue_cong [of st0 st] assms(1) by (simp_all add: st0_def inb_def)
  have st1: "outputs st1 = outputs st" "inputs st1 LINE_STATUS = inputs st LINE_STATUS"
    by (simp_all add: st1_def st0_def serial_buffer_push_def Let_def inputs_inb SERIAL_COM1_PORT_def LINE_STATUS_def)
  then have "line_live st1" using assms(2) by (simp add: line_live_def)
  from serial_write_live [OF this, of b] obtain st' where st': "serial_write b st1 = Some st'"
    "outputs st' = outputs st1 @ [(SERIAL_COM1_PORT, b)]" by blast
  have "ring_queue st' = ring_queue st1" by (rule serial_write_ring [OF st'(1)])
  moreover have "serial_interrupt_handler regs st = serial_write b st1"
    by (simp add: serial_interrupt_handler_def st1_def st0_def assms(3) inb_def)
  moreover have "ring_queue st1 = (if length (ring_queue st) < 255 then ring_queue st @ [b] else ring_queue st)"
    using received.push_queue [OF st0(2), of b] unfolding st1_def st0(1) by blast
  ultimately show ?thesis using st' st1(1) by (intro exI [of _ st']) (simp only: simp_thms)
qed

lemma serial_receives_and_echoes_witness:
  "\<exists>st'. serial_interrupt_handler undefined serial_reset = Some st' \<and> ring_queue st' = [0xFF]"
proof -
  have r: "ring_inv serial_reset" "ring_queue serial_reset = []"
    by (simp_all add: serial_reset_def ring_inv_def ring_queue_def ring_length_def)
  have i: "inputs serial_reset p n = 0xFF" for p n by (simp add: serial_reset_def)
  have l: "line_live serial_reset" by (auto simp: line_live_def i LSR_THRE_def)
  show ?thesis
    using serial_receives_and_echoes [OF r(1) l refl, of undefined] by (auto simp: r(2) i)
qed

end
