(* ===== verification/CStdlib.thy ===== *)
theory CStdlib
  imports Serial CString
begin

text \<open>
  The C library's allocator, conversions and random numbers (\<open>src/libc/stdlib.c\<close>, with
  \<open>itoa\<close> of \<open>kernel/pmm.c\<close>). The allocator keeps a chain of blocks, each with a 12-byte header
  (size, free flag, next block), in the static array \<open>heap\<close>, whose address is a component of the
  state. The walks along the chain are \<open>partial_function\<close>s: a chain that does not end is the value
  \<open>None\<close>.
\<close>

unbundle bit_operations_syntax

definition HEAP_SIZE :: u32 where "HEAP_SIZE = 0x100000"
definition BLOCK_HEADER :: u32 where "BLOCK_HEADER = 12"

record libc =
  lib_mem :: mem
  lib_heap :: u32
  free_list :: u32
  lib_heap_initialized :: bool
  rand_next :: u32

section \<open>Block headers\<close>

definition mb_size :: "mem \<Rightarrow> u32 \<Rightarrow> u32" where "mb_size m b = load32 m b"
definition mb_free :: "mem \<Rightarrow> u32 \<Rightarrow> bool" where "mb_free m b \<longleftrightarrow> load32 m (b + 4) \<noteq> 0"
definition mb_next :: "mem \<Rightarrow> u32 \<Rightarrow> u32" where "mb_next m b = load32 m (b + 8)"

definition set_mb_size :: "u32 \<Rightarrow> u32 \<Rightarrow> mem \<Rightarrow> mem" where "set_mb_size b v m = store32 m b v"
definition set_mb_free :: "u32 \<Rightarrow> u32 \<Rightarrow> mem \<Rightarrow> mem" where "set_mb_free b v m = store32 m (b + 4) v"
definition set_mb_next :: "u32 \<Rightarrow> u32 \<Rightarrow> mem \<Rightarrow> mem" where "set_mb_next b v m = store32 m (b + 8) v"

section \<open>Allocation\<close>

definition initialize_heap :: "'a libc_scheme \<Rightarrow> 'a libc_scheme" where
  "initialize_heap st =
     (if lib_heap_initialized st then st
      else let b = lib_heap st
           in st\<lparr>free_list := b,
                lib_mem := set_mb_next b 0 (set_mb_free b 1 (set_mb_size b (HEAP_SIZE - BLOCK_HEADER) (lib_mem st))),
                lib_heap_initialized := True\<rparr>)"

definition malloc_size :: "u32 \<Rightarrow> u32" where
  "malloc_size sz =
     (let sz = (if sz mod 8 \<noteq> 0 then (sz div 8 + 1) * 8 else sz)
      in if sz < 16 then 16 else sz)"

definition take_block :: "u32 \<Rightarrow> u32 \<Rightarrow> mem \<Rightarrow> mem" where
  "take_block sz current m =
     (let m = (if sz + BLOCK_HEADER + 16 \<le> mb_size m current
               then let new_block = current + BLOCK_HEADER + sz;
                        m = set_mb_size new_block (mb_size m current - sz - BLOCK_HEADER) m;
                        m = set_mb_free new_block 1 m;
                        m = set_mb_next new_block (mb_next m current) m;
                        m = set_mb_size current sz m
                    in set_mb_next current new_block m
               else m)
      in set_mb_free current 0 m)"

partial_function (option) malloc_loop :: "u32 \<Rightarrow> u32 \<Rightarrow> 'a libc_scheme \<Rightarrow> (u32 \<times> 'a libc_scheme) option" where
  "malloc_loop sz current st =
     (if current = 0 then Some (0, st)
      else if mb_free (lib_mem st) current \<and> sz \<le> mb_size (lib_mem st) current
      then Some (current + BLOCK_HEADER, st\<lparr>lib_mem := take_block sz current (lib_mem st)\<rparr>)
      else malloc_loop sz (mb_next (lib_mem st) current) st)"

declare malloc_loop.simps [code]

definition malloc :: "u32 \<Rightarrow> 'a libc_scheme \<Rightarrow> (u32 \<times> 'a libc_scheme) option" where
  "malloc sz st = (let st = initialize_heap st in malloc_loop (malloc_size sz) (free_list st) st)"

section \<open>Release\<close>

partial_function (option) free_loop :: "u32 \<Rightarrow> u32 \<Rightarrow> mem \<Rightarrow> mem option" where
  "free_loop block current m =
     (if current = 0 then Some m
      else if mb_free m current \<and> current + BLOCK_HEADER + mb_size m current = block
      then let m = set_mb_size current (mb_size m current + (BLOCK_HEADER + mb_size m block)) m;
               m = set_mb_next current (mb_next m block) m
           in free_loop current (mb_next m current) m
      else if current = block \<and> mb_next m current \<noteq> 0 \<and> mb_free m (mb_next m current)
      then let next_block = mb_next m current;
               m = set_mb_size current (mb_size m current + (BLOCK_HEADER + mb_size m next_block)) m;
               m = set_mb_next current (mb_next m next_block) m
           in free_loop block (mb_next m current) m
      else free_loop block (mb_next m current) m)"

declare free_loop.simps [code]

definition free :: "u32 \<Rightarrow> 'a libc_scheme \<Rightarrow> 'a libc_scheme option" where
  "free ptr st =
     (if ptr = 0 then Some st
      else let block = ptr - BLOCK_HEADER;
               m = set_mb_free block 1 (lib_mem st)
           in map_option (\<lambda>m. st\<lparr>lib_mem := m\<rparr>) (free_loop block (free_list st) m))"

section \<open>Callers of the allocator\<close>

definition calloc :: "u32 \<Rightarrow> u32 \<Rightarrow> 'a libc_scheme \<Rightarrow> (u32 \<times> 'a libc_scheme) option" where
  "calloc nmemb sz st =
     (let total_size = nmemb * sz
      in Option.bind (malloc total_size st) (\<lambda>(ptr, st).
         Some (ptr, if ptr \<noteq> 0 then st\<lparr>lib_mem := memset (lib_mem st) ptr 0 total_size\<rparr> else st)))"

definition realloc :: "u32 \<Rightarrow> u32 \<Rightarrow> 'a libc_scheme \<Rightarrow> (u32 \<times> 'a libc_scheme) option" where
  "realloc ptr sz st =
     (if ptr = 0 then malloc sz st
      else if sz = 0 then Option.bind (free ptr st) (\<lambda>st. Some (0, st))
      else let block = ptr - BLOCK_HEADER
           in if sz \<le> mb_size (lib_mem st) block then Some (ptr, st)
              else Option.bind (malloc sz st) (\<lambda>(new_ptr, st).
                if new_ptr = 0 then Some (0, st)
                else let st = st\<lparr>lib_mem := memcpy (lib_mem st) new_ptr ptr (mb_size (lib_mem st) block)\<rparr>
                     in Option.bind (free ptr st) (\<lambda>st. Some (new_ptr, st))))"

section \<open>Conversions\<close>

text \<open>An \<open>int\<close> is the 32-bit word that holds it; \<open>sint\<close> reads its value. A string is the list of
  the bytes before its NUL.\<close>

fun atoi_digits :: "u32 \<Rightarrow> u8 list \<Rightarrow> u32" where
  "atoi_digits result [] = result"
| "atoi_digits result (c # cs) =
     (if 48 \<le> c \<and> c \<le> 57 then atoi_digits (result * 10 + (ucast c - 48)) cs else result)"

definition atoi :: "u8 list \<Rightarrow> u32" where
  "atoi nptr =
     (let s = dropWhile (\<lambda>c. c = 32 \<or> c = 9 \<or> c = 10) nptr in
      case s of
        [] \<Rightarrow> 0
      | c # cs \<Rightarrow>
          if c = 45 then - atoi_digits 0 cs
          else if c = 43 then atoi_digits 0 cs
          else atoi_digits 0 s)"

text \<open>\<open>long\<close> has 32 bits too on i386.\<close>

definition atol :: "u8 list \<Rightarrow> u32" where
  "atol nptr =
     (let s = dropWhile (\<lambda>c. c = 32 \<or> c = 9 \<or> c = 10) nptr in
      case s of
        [] \<Rightarrow> 0
      | c # cs \<Rightarrow>
          if c = 45 then - atoi_digits 0 cs
          else if c = 43 then atoi_digits 0 cs
          else atoi_digits 0 s)"

text \<open>\<open>itoa\<close> writes the digits lowest first and then reverses them. \<open>None\<close> stands for the
  arguments on which the code has no result: a base in which the loop does not end or that has no
  digit string, a negative value in another base than ten (a negative index into the digits), and the
  value whose negation overflows.\<close>

definition hex_digits :: "u8 list" where
  "hex_digits = bytes_of ''0123456789abcdef''"

function itoa_loop :: "nat \<Rightarrow> nat \<Rightarrow> u8 list" where
  "itoa_loop radix value =
     (if radix < 2 then []
      else (hex_digits ! (value mod radix)) # (if value div radix = 0 then [] else itoa_loop radix (value div radix)))"
  by pat_completeness auto
termination
proof (relation "measure snd")
  fix r v :: nat
  assume r: "\<not> r < 2" and v: "v div r \<noteq> 0"
  then have "0 < v" by (cases "v = 0") auto
  with r have "v div r < v" by (intro div_less_dividend) simp_all
  then show "((r, v div r), r, v) \<in> measure snd" by simp
qed simp

declare itoa_loop.simps [simp del]

definition itoa :: "u32 \<Rightarrow> u32 \<Rightarrow> u8 list option" where
  "itoa value radix =
     (if sint radix < 2 \<or> 16 < sint radix \<or> (sint value < 0 \<and> sint radix \<noteq> 10) \<or> value = 0x80000000 then None
      else if sint value < 0 then Some (45 # rev (itoa_loop (unat radix) (unat (- value))))
      else Some (rev (itoa_loop (unat radix) (unat value))))"

section \<open>Random numbers\<close>

definition RAND_MAX :: u32 where "RAND_MAX = 32767"

definition rand :: "'a libc_scheme \<Rightarrow> u32 \<times> 'a libc_scheme" where
  "rand st =
     (let n = rand_next st * 1103515245 + 12345
      in ((n div 65536) mod (RAND_MAX + 1), st\<lparr>rand_next := n\<rparr>))"

definition srand :: "u32 \<Rightarrow> 'a libc_scheme \<Rightarrow> 'a libc_scheme" where
  "srand seed st = st\<lparr>rand_next := seed\<rparr>"

end
