(* ===== verification/LibcHeap.thy ===== *)
theory LibcHeap
  imports CStdlib HeapLive
begin

text \<open>
  The chain of blocks behind \<open>malloc\<close> and \<open>free\<close>: \<open>chain m a bs t\<close> says that memory holds from
  \<open>a\<close> on the headers of the blocks \<open>bs\<close> (payload size and free flag), each linked to the next one
  and the last to \<open>t\<close>. The operations are shown to act on the list, and the pair meets the contract
  of theory Allocator.
\<close>

section \<open>Chains\<close>

fun span :: "blk list \<Rightarrow> nat" where
  "span [] = 0"
| "span ((s, f) # bs) = 12 + s + span bs"

fun chain :: "mem \<Rightarrow> nat \<Rightarrow> blk list \<Rightarrow> u32 \<Rightarrow> bool" where
  "chain m a [] t \<longleftrightarrow> True"
| "chain m a ((s, f) # bs) t \<longleftrightarrow> rd m a = of_nat s \<and> rd m (a + 4) = (if f then 1 else 0)
     \<and> rd m (a + 8) = (if bs = [] then t else of_nat (a + 12 + s)) \<and> chain m (a + 12 + s) bs t"

lemma span_append [simp]: "span (xs @ ys) = span xs + span ys"
  by (induction xs rule: span.induct) auto

lemma chain_append:
  "chain m a (xs @ y # ys) t \<longleftrightarrow> chain m a xs (of_nat (a + span xs)) \<and> chain m (a + span xs) (y # ys) t"
  by (induction xs arbitrary: a rule: span.induct) (auto simp: add.assoc)

lemma chain_unchanged:
  "unchanged_outside m m' lo hi \<Longrightarrow> a + span bs \<le> lo \<or> hi \<le> a \<Longrightarrow> a + span bs \<le> 4294967296
    \<Longrightarrow> chain m' a bs t = chain m a bs t"
proof (induction bs arbitrary: a rule: span.induct)
  case (2 s f bs)
  have "rd m' a = rd m a" "rd m' (a + 4) = rd m (a + 4)" "rd m' (a + 8) = rd m (a + 8)"
    using "2.prems" by (auto intro!: rd_unchanged [OF "2.prems"(1)])
  then show ?case using 2 by (auto simp: add.assoc)
qed simp

section \<open>Header cells at natural-number addresses\<close>

definition set_block :: "nat \<Rightarrow> nat \<Rightarrow> u32 \<Rightarrow> mem \<Rightarrow> mem" where
  "set_block a s n m = wr (wr m a (of_nat s)) (a + 8) n"

lemma mb_nat:
  "mb_size m (of_nat a) = rd m a" "mb_free m (of_nat a) \<longleftrightarrow> rd m (a + 4) \<noteq> 0" "mb_next m (of_nat a) = rd m (a + 8)"
  "set_mb_size (of_nat a) v m = wr m a v" "set_mb_free (of_nat a) v m = wr m (a + 4) v" "set_mb_next (of_nat a) v m = wr m (a + 8) v"
  by (simp_all add: mb_size_def mb_free_def mb_next_def set_mb_size_def set_mb_free_def set_mb_next_def rd_def wr_def)

lemma wr_within: "lo \<le> a \<Longrightarrow> a + 4 \<le> hi \<Longrightarrow> hi \<le> 4294967296 \<Longrightarrow> unchanged_outside m m' lo hi \<Longrightarrow> unchanged_outside m (wr m' a v) lo hi"
  by (rule unchanged_outside_trans [OF _ unchanged_outside_mono [OF wr_unchanged]]) auto

text \<open>The link of the last block before a block that is replaced stays right as long as the block
  keeps its address.\<close>

lemma chain_replace:
  assumes "chain m a (xs @ y # ys) t" and "unchanged_outside m m' (a + span xs) hi" and "a + span xs \<le> 4294967296"
    and "chain m' (a + span xs) (zs @ ys) t" and "zs \<noteq> []"
  shows "chain m' a (xs @ zs @ ys) t"
proof -
  obtain z zs' where z: "zs = z # zs'" using assms(5) by (cases zs) auto
  show ?thesis
    using assms chain_unchanged [OF assms(2), of a xs] by (simp add: chain_append z)
qed

section \<open>Representation\<close>

definition libc_rep :: "'a libc_scheme \<Rightarrow> blk list \<Rightarrow> bool" where
  "libc_rep st bs \<longleftrightarrow> lib_heap_initialized st \<and> free_list st = lib_heap st \<and> bs \<noteq> [] \<and> span bs = 0x100000
     \<and> 0 < unat (lib_heap st) \<and> unat (lib_heap st) + 0x100000 < 4294967296
     \<and> chain (lib_mem st) (unat (lib_heap st)) bs 0"

lemma initialize_heap_rep:
  assumes "\<not> lib_heap_initialized st" and "0 < unat (lib_heap st)" and "unat (lib_heap st) + 0x100000 < 4294967296"
  shows "libc_rep (initialize_heap st) [(0x100000 - 12, True)]"
    and "unchanged_outside (lib_mem st) (lib_mem (initialize_heap st)) (unat (lib_heap st)) (unat (lib_heap st) + 12)"
proof -
  define a where "a = unat (lib_heap st)"
  have b: "lib_heap st = of_nat a" by (simp add: a_def)
  have m: "lib_mem (initialize_heap st) = wr (wr (wr (lib_mem st) a 0xFFFF4) (a + 4) 1) (a + 8) 0"
    using assms(1) b by (simp add: initialize_heap_def Let_def mb_nat HEAP_SIZE_def BLOCK_HEADER_def)
  show "unchanged_outside (lib_mem st) (lib_mem (initialize_heap st)) (unat (lib_heap st)) (unat (lib_heap st) + 12)"
    unfolding m a_def [symmetric] using assms by (intro wr_within unchanged_outside_refl) (simp_all add: a_def)
  show "libc_rep (initialize_heap st) [(0x100000 - 12, True)]"
    using assms unfolding libc_rep_def m
    by (simp add: initialize_heap_def Let_def a_def rd_wr_other)
qed

lemma malloc_initialized: "malloc k st = malloc k (initialize_heap st)"
  by (simp add: malloc_def initialize_heap_def Let_def)

section \<open>The search for a free block\<close>

fun first_fit :: "nat \<Rightarrow> blk list \<Rightarrow> (blk list \<times> nat \<times> blk list) option" where
  "first_fit k [] = None"
| "first_fit k ((s, f) # bs) =
     (if f \<and> k \<le> s then Some ([], s, bs)
      else map_option (\<lambda>(xs, t, ys). ((s, f) # xs, t, ys)) (first_fit k bs))"

lemma first_fit_Some: "first_fit k bs = Some (xs, s, ys) \<Longrightarrow> bs = xs @ (s, True) # ys \<and> k \<le> s"
  by (induction k bs arbitrary: xs rule: first_fit.induct) (auto split: if_splits)

lemma malloc_loop_chain:
  assumes "chain (lib_mem st) a bs 0" and "0 < a" and "a + span bs < 4294967296" and "bs \<noteq> []"
  shows "malloc_loop k (of_nat a) st =
    (case first_fit (unat k) bs of None \<Rightarrow> Some (0, st)
     | Some (xs, s, ys) \<Rightarrow> Some (of_nat (a + span xs) + BLOCK_HEADER,
         st\<lparr>lib_mem := take_block k (of_nat (a + span xs)) (lib_mem st)\<rparr>))"
  using assms
proof (induction bs arbitrary: a rule: span.induct)
  case (2 s f bs)
  have a0: "of_nat a \<noteq> (0 :: u32)" using "2.prems" by (subst of_nat_u32_eq_0) simp_all
  have s: "k \<le> of_nat s \<longleftrightarrow> unat k \<le> s"
    using "2.prems"(3) by (simp add: word_le_nat_alt unat_of_nat_u32)
  show ?case
  proof (cases "f \<and> unat k \<le> s")
    case True
    then show ?thesis
      using "2.prems" a0 s by (subst malloc_loop.simps) (simp add: mb_nat)
  next
    case False
    then have step: "malloc_loop k (of_nat a) st = malloc_loop k (rd (lib_mem st) (a + 8)) st"
      using "2.prems" a0 s by (subst malloc_loop.simps) (auto simp: mb_nat)
    show ?thesis
    proof (cases "bs = []")
      case True
      have "malloc_loop k 0 st = Some (0, st)" by (subst malloc_loop.simps) simp
      moreover have "first_fit (unat k) [(s, f)] = None" using False by simp
      ultimately show ?thesis using True "2.prems"(1) step by simp
    next
      case bs: False
      then have "malloc_loop k (rd (lib_mem st) (a + 8)) st =
        (case first_fit (unat k) bs of None \<Rightarrow> Some (0, st)
         | Some (xs, s', ys) \<Rightarrow> Some (of_nat (a + 12 + s + span xs) + BLOCK_HEADER,
             st\<lparr>lib_mem := take_block k (of_nat (a + 12 + s + span xs)) (lib_mem st)\<rparr>))"
        using "2.IH" [of "a + 12 + s"] "2.prems" by simp
      then show ?thesis
        using False step by (auto simp: add.assoc split: option.splits)
    qed
  qed
qed simp

section \<open>Taking a block\<close>

definition taken_block :: "nat \<Rightarrow> nat \<Rightarrow> blk list" where
  "taken_block k s = (if k + 28 \<le> s then [(k, False), (s - 12 - k, True)] else [(s, False)])"

lemma take_block_chain:
  assumes c: "chain m a ((s, True) # ys) t" and b: "a + 12 + s + span ys < 4294967296" "s \<le> 0x100000"
    and k: "unat k \<le> s"
  shows "chain (take_block k (of_nat a) m) a (taken_block (unat k) s @ ys) t"
    and "unchanged_outside m (take_block k (of_nat a) m) a (a + 12 + s)"
proof -
  define K where "K = unat k"
  have kK: "k = of_nat K" by (simp add: K_def)
  have ks: "K \<le> s" using k by (simp add: K_def)
  have rs: "rd m a = of_nat s" using c by simp
  have "unat (of_nat (K + 28) :: u32) = K + 28" using ks b(2) by (intro unat_of_nat_u32) simp
  then have thr: "k + BLOCK_HEADER + 16 \<le> of_nat s \<longleftrightarrow> K + 28 \<le> s"
    using b by (simp add: BLOCK_HEADER_def kK word_le_nat_alt unat_of_nat_u32 add.commute)
  have "chain (take_block k (of_nat a) m) a (taken_block K s @ ys) t
    \<and> unchanged_outside m (take_block k (of_nat a) m) a (a + 12 + s)"
  proof (cases "K + 28 \<le> s")
    case False
    then have e: "take_block k (of_nat a) m = wr m (a + 4) 0"
      using thr by (simp add: take_block_def mb_nat rs Let_def)
    have u: "unchanged_outside m (wr m (a + 4) 0) a (a + 12)"
      using b by (intro wr_within unchanged_outside_refl) simp_all
    then have "unchanged_outside m (wr m (a + 4) 0) a (a + 12 + s)"
      by (rule unchanged_outside_mono) simp_all
    moreover have "chain (wr m (a + 4) 0) (a + 12 + s) ys t = chain m (a + 12 + s) ys t"
      by (rule chain_unchanged [OF u]) (use b in simp_all)
    ultimately show ?thesis
      using False c b by (simp add: e taken_block_def rd_wr_other)
  next
    case True
    define n where "n = a + 12 + K"
    have na: "of_nat a + BLOCK_HEADER + k = of_nat n" by (simp add: n_def kK BLOCK_HEADER_def)
    have sz: "of_nat s - k - BLOCK_HEADER = (of_nat (s - 12 - K) :: u32)"
      using True by (simp add: kK BLOCK_HEADER_def of_nat_diff algebra_simps)
    have nb: "a + 12 \<le> n" "n + 12 \<le> a + 12 + s" using True by (simp_all add: n_def)
    define m' where "m' = wr (wr (wr (wr (wr (wr m n (of_nat (s - 12 - K))) (n + 4) 1) (n + 8) (rd m (a + 8))) a k) (a + 8) (of_nat n)) (a + 4) 0"
    have e: "take_block k (of_nat a) m = m'"
      using True thr nb b unfolding take_block_def Let_def mb_nat rs
      by (simp add: na mb_nat sz rd_wr_other m'_def)
    have u: "unchanged_outside m m' a (a + 12 + s)"
      unfolding m'_def using nb b by (intro wr_within unchanged_outside_refl) simp_all
    have "chain m' (a + 12 + s) ys t = chain m (a + 12 + s) ys t"
      by (rule chain_unchanged [OF u]) (use b in simp_all)
    moreover have "rd m' n = of_nat (s - 12 - K)" "rd m' (n + 4) = 1" "rd m' (n + 8) = rd m (a + 8)"
      "rd m' a = k" "rd m' (a + 8) = of_nat n" "rd m' (a + 4) = 0"
      using nb b by (simp_all add: m'_def rd_wr_other)
    ultimately show ?thesis
      using True c u unfolding e taken_block_def n_def by (simp add: kK add.assoc)
  qed
  then show "chain (take_block k (of_nat a) m) a (taken_block (unat k) s @ ys) t"
    and "unchanged_outside m (take_block k (of_nat a) m) a (a + 12 + s)" by (simp_all add: K_def)
qed

section \<open>Releasing a block\<close>

lemma walk_end:
  assumes "chain m c bs 0" and "b < c" and "c + span bs < 4294967296"
  shows "free_loop (of_nat b) (if bs = [] then 0 else of_nat c) m = Some m"
  using assms
proof (induction bs arbitrary: c rule: span.induct)
  case 1
  show ?case by (subst free_loop.simps) simp
next
  case (2 s f bs)
  have "of_nat c \<noteq> (0 :: u32)" "of_nat c \<noteq> (of_nat b :: u32)" "of_nat c + 12 + of_nat s \<noteq> (of_nat b :: u32)"
    using "2.prems" of_nat_u32_eq_0 [of c] of_nat_u32_inject [of c b] of_nat_u32_inject [of "c + 12 + s" b] by simp_all
  then have "free_loop (of_nat b) (of_nat c) m = free_loop (of_nat b) (if bs = [] then 0 else of_nat (c + 12 + s)) m"
    using "2.prems"(1) by (subst free_loop.simps) (auto simp: mb_nat BLOCK_HEADER_def)
  then show ?case using "2.IH" [of "c + 12 + s"] "2.prems" by simp
qed

lemma walk_prefix:
  assumes "chain m c (xs @ y # ys) 0" and "c + span xs \<le> b" and "0 < c" and "b < 4294967296"
    and "xs = [] \<or> \<not> snd (last xs) \<or> c + span xs \<noteq> b"
  shows "free_loop (of_nat b) (of_nat c) m = free_loop (of_nat b) (of_nat (c + span xs)) m"
  using assms
proof (induction xs arbitrary: c rule: span.induct)
  case (2 s f xs)
  have w: "of_nat c \<noteq> (0 :: u32)" "of_nat c \<noteq> (of_nat b :: u32)" "of_nat c + 12 + of_nat s = (of_nat b :: u32) \<longleftrightarrow> c + 12 + s = b"
    using "2.prems" of_nat_u32_eq_0 [of c] of_nat_u32_inject [of c b] of_nat_u32_inject [of "c + 12 + s" b] by simp_all
  have "\<not> (f \<and> c + 12 + s = b)"
    using "2.prems"(2,5) by (cases xs rule: span.cases) auto
  then have "free_loop (of_nat b) (of_nat c) m = free_loop (of_nat b) (of_nat (c + 12 + s)) m"
    using "2.prems"(1) w by (subst free_loop.simps) (auto simp: mb_nat BLOCK_HEADER_def)
  moreover have "xs = [] \<or> \<not> snd (last xs) \<or> c + 12 + s + span xs \<noteq> b"
    using "2.prems"(5) by (auto split: if_splits)
  ultimately show ?case using "2.IH" [of "c + 12 + s"] "2.prems" by (simp add: add.assoc)
qed simp

definition libc_released :: "blk list \<Rightarrow> nat \<Rightarrow> blk list \<Rightarrow> blk list" where
  "libc_released xs s ys =
     (if xs \<noteq> [] \<and> snd (last xs) then butlast xs @ (fst (last xs) + 12 + s, True) # ys
      else case ys of (k, True) # zs \<Rightarrow> xs @ (s + 12 + k, True) # zs | _ \<Rightarrow> xs @ (s, True) # ys)"

lemma join_chain:
  assumes c: "chain m a ((s, True) # (k, f) # ys) t" and b: "a + 24 + s + k + span ys < 4294967296"
  defines "m' \<equiv> wr (wr m a (of_nat (s + 12 + k))) (a + 8) (rd m (a + 12 + s + 8))"
  shows "chain m' a ((s + 12 + k, True) # ys) t" and "unchanged_outside m m' a (a + 12)"
proof -
  show u: "unchanged_outside m m' a (a + 12)"
    unfolding m'_def using b by (intro wr_within unchanged_outside_refl) simp_all
  have "chain m' (a + 12 + s + 12 + k) ys t = chain m (a + 12 + s + 12 + k) ys t"
    by (rule chain_unchanged [OF u]) (use b in simp_all)
  then show "chain m' a ((s + 12 + k, True) # ys) t"
    using c b by (simp add: m'_def rd_wr_other add.assoc)
qed

text \<open>The payloads of the allocated blocks, as natural-number addresses and sizes.\<close>

fun payloads :: "nat \<Rightarrow> blk list \<Rightarrow> (nat \<times> nat) list" where
  "payloads a [] = []"
| "payloads a ((s, f) # bs) = (if f then [] else [(a + 12, s)]) @ payloads (a + 12 + s) bs"

definition keeps :: "nat \<Rightarrow> blk list \<Rightarrow> mem \<Rightarrow> mem \<Rightarrow> bool" where
  "keeps a bs m m' \<longleftrightarrow> (\<forall>(p, n) \<in> set (payloads a bs). \<forall>i < n. m' (of_nat (p + i)) = m (of_nat (p + i)))"

lemma payloads_append [simp]: "payloads a (xs @ ys) = payloads a xs @ payloads (a + span xs) ys"
  by (induction xs arbitrary: a rule: span.induct) (auto simp: add.assoc)

lemma payloads_bounds: "(p, n) \<in> set (payloads a bs) \<Longrightarrow> a + 12 \<le> p \<and> p + n \<le> a + span bs"
proof (induction bs arbitrary: a rule: span.induct)
  case (2 s f bs)
  show ?case
  proof (cases "(p, n) \<in> set (payloads (a + 12 + s) bs)")
    case True
    then show ?thesis using "2.IH" [of "a + 12 + s"] by simp
  next
    case False
    then show ?thesis using "2.prems" by (auto split: if_splits)
  qed
qed simp

lemma keeps_unchanged:
  assumes u: "unchanged_outside m m' lo hi" and b: "a + span (xs @ (s, f) # ys) < 4294967296"
    and in_block: "a + span xs \<le> lo" "hi \<le> a + span xs + 12 + (if f then s else 0)"
  shows "keeps a (xs @ (s, f) # ys) m m'"
proof -
  have "m' (of_nat (p + i)) = m (of_nat (p + i))" if p: "(p, n) \<in> set (payloads a (xs @ (s, f) # ys))" and i: "i < n" for p n i
  proof -
    have "p + n \<le> a + span (xs @ (s, f) # ys)" using payloads_bounds [OF p] by blast
    then have "unat (of_nat (p + i) :: u32) = p + i" using b i by (intro unat_of_nat_u32) linarith
    moreover have "p + i < lo \<or> hi \<le> p + i"
      using p i in_block payloads_bounds [of p n a xs] payloads_bounds [of p n "a + span xs + 12 + s" ys]
      by (auto split: if_splits)
    ultimately show ?thesis using u unfolding unchanged_outside_def by (metis (no_types, lifting))
  qed
  then show ?thesis unfolding keeps_def by blast
qed

text \<open>One round of the walk, at natural-number addresses.\<close>

lemma free_loop_join_prev:
  assumes "0 < p" "p < 4294967296" "rd m (p + 4) \<noteq> 0" "of_nat p + BLOCK_HEADER + rd m p = of_nat b"
  shows "free_loop (of_nat b) (of_nat p) m =
    (let m' = wr m p (rd m p + (BLOCK_HEADER + rd m b)); m'' = wr m' (p + 8) (rd m' (b + 8))
     in free_loop (of_nat p) (rd m'' (p + 8)) m'')"
  using assms of_nat_u32_eq_0 [of p] by (subst free_loop.simps) (simp add: mb_nat Let_def)

lemma free_loop_join_next:
  assumes "0 < b" "b < 4294967296" "of_nat b + BLOCK_HEADER + rd m b \<noteq> of_nat b"
    and "rd m (b + 8) = of_nat n" "0 < n" "n < 4294967296" "rd m (n + 4) \<noteq> 0"
  shows "free_loop (of_nat b) (of_nat b) m =
    (let m' = wr m b (rd m b + (BLOCK_HEADER + rd m n)); m'' = wr m' (b + 8) (rd m' (n + 8))
     in free_loop (of_nat b) (rd m'' (b + 8)) m'')"
  using assms of_nat_u32_eq_0 [of b] of_nat_u32_eq_0 [of n] by (subst free_loop.simps) (simp add: mb_nat Let_def)

lemma free_loop_skip:
  assumes "0 < b" "b < 4294967296" "of_nat b + BLOCK_HEADER + rd m b \<noteq> of_nat b"
    and "rd m (b + 8) = 0 \<or> rd m (b + 8) = of_nat n \<and> rd m (n + 4) = 0"
  shows "free_loop (of_nat b) (of_nat b) m = free_loop (of_nat b) (rd m (b + 8)) m"
  using assms of_nat_u32_eq_0 [of b] by (subst free_loop.simps) (auto simp: mb_nat)

lemma free_loop_chain:
  assumes c: "chain m a (xs @ (s, True) # ys) 0" and b: "0 < a" "a + span xs + 12 + s + span ys < 4294967296"
  obtains m' where "free_loop (of_nat (a + span xs)) (of_nat a) m = Some m'"
    and "chain m' a (libc_released xs s ys) 0" and "keeps a (xs @ (s, True) # ys) m m'"
    and "unchanged_outside m m' a (a + span xs + 12 + s + span ys)"
proof (cases "xs \<noteq> [] \<and> snd (last xs)")
  case True
  define A where "A = a + span xs"
  obtain zs r where xs: "xs = zs @ [(r, True)]" using True by (metis append_butlast_last_id prod.collapse)
  define P where "P = a + span zs"
  have A: "A = P + 12 + r" by (simp add: A_def P_def xs)
  have bP: "0 < P" "P + 24 + r + s + span ys < 4294967296" using b by (simp_all add: P_def xs)
  have cP: "chain m P ((r, True) # (s, True) # ys) 0"
    using c by (simp add: xs chain_append P_def)
  define m' where "m' = wr (wr m P (of_nat (r + 12 + s))) (P + 8) (rd m (P + 12 + r + 8))"
  have j: "chain m' P ((r + 12 + s, True) # ys) 0" "unchanged_outside m m' P (P + 12)"
    unfolding m'_def by (rule join_chain [OF cP], use bP in simp)+
  have step: "free_loop (of_nat A) (of_nat P) m = free_loop (of_nat P) (rd m' (P + 8)) m'"
  proof -
    have v: "rd m P + (BLOCK_HEADER + rd m A) = of_nat (r + 12 + s)" "rd m (P + 4) \<noteq> 0"
      "of_nat P + BLOCK_HEADER + rd m P = of_nat A"
      using cP by (simp_all add: BLOCK_HEADER_def A add.assoc)
    have "rd (wr m P (of_nat (r + 12 + s))) (A + 8) = rd m (P + 12 + r + 8)"
      unfolding A by (rule rd_wr_other) (use bP in simp_all)
    then show ?thesis
      using free_loop_join_prev [OF bP(1) _ v(2,3)] bP by (simp only: v(1) Let_def m'_def)
  qed
  have "free_loop (of_nat A) (of_nat a) m = free_loop (of_nat A) (of_nat P) m"
    unfolding P_def using c b A bP by (intro walk_prefix [where y = "(r, True)" and ys = "(s, True) # ys"]) (simp_all add: xs P_def A_def)
  also have "\<dots> = free_loop (of_nat P) (if ys = [] then 0 else of_nat (P + 12 + (r + 12 + s))) m'"
    using j(1) by (simp only: step) simp
  also have "\<dots> = Some m'" by (rule walk_end) (use j(1) bP in simp_all)
  finally have "free_loop (of_nat A) (of_nat a) m = Some m'" .
  moreover have "chain m' a (libc_released xs s ys) 0"
    using c j bP chain_unchanged [OF j(2), of a zs] by (simp add: libc_released_def xs chain_append P_def)
  moreover have "keeps a (zs @ (r, True) # (s, True) # ys) m m'"
    by (rule keeps_unchanged [OF j(2)]) (use b in \<open>simp_all add: P_def xs\<close>)
  moreover have "unchanged_outside m m' a (a + span xs + 12 + s + span ys)"
    by (rule unchanged_outside_mono [OF j(2)]) (simp_all add: P_def xs)
  ultimately show ?thesis by (intro that) (simp_all add: A_def xs)
next
  case False
  define A where "A = a + span xs"
  have A0: "of_nat A \<noteq> (0 :: u32)" using b by (subst of_nat_u32_eq_0) (simp_all add: A_def)
  have noend: "of_nat A + 12 + of_nat s \<noteq> (of_nat A :: u32)"
    using b of_nat_u32_inject [of "A + 12 + s" A] by (simp add: A_def)
  have cA: "chain m A ((s, True) # ys) 0" using c by (simp add: chain_append A_def)
  have pre: "free_loop (of_nat A) (of_nat a) m = free_loop (of_nat A) (of_nat A) m"
    unfolding A_def using c b False by (intro walk_prefix) auto
  show ?thesis
  proof (cases "\<exists>k zs. ys = (k, True) # zs")
    case True
    then obtain k zs where ys: "ys = (k, True) # zs" by blast
    define m' where "m' = wr (wr m A (of_nat (s + 12 + k))) (A + 8) (rd m (A + 12 + s + 8))"
    have j: "chain m' A ((s + 12 + k, True) # zs) 0" "unchanged_outside m m' A (A + 12)"
      unfolding m'_def by (rule join_chain [OF cA [unfolded ys]], use b in \<open>simp add: A_def ys\<close>)+
    have "free_loop (of_nat A) (of_nat A) m = free_loop (of_nat A) (rd m' (A + 8)) m'"
    proof -
      have v: "rd m A + (BLOCK_HEADER + rd m (A + 12 + s)) = of_nat (s + 12 + k)" "rd m (A + 8) = of_nat (A + 12 + s)"
        "rd m (A + 12 + s + 4) \<noteq> 0" "of_nat A + BLOCK_HEADER + rd m A \<noteq> of_nat A"
        using cA noend by (simp_all add: ys BLOCK_HEADER_def add.assoc)
      have "rd (wr m A (of_nat (s + 12 + k))) (A + 12 + s + 8) = rd m (A + 12 + s + 8)"
        by (rule rd_wr_other) (use b in \<open>simp_all add: A_def ys\<close>)
      moreover have "0 < A" "A + 12 + s < 4294967296" "A < 4294967296" using b by (simp_all add: A_def)
      ultimately show ?thesis
        using free_loop_join_next [OF _ _ v(4,2) _ _ v(3)] by (simp only: v(1) Let_def m'_def)
    qed
    also have "\<dots> = free_loop (of_nat A) (if zs = [] then 0 else of_nat (A + 12 + (s + 12 + k))) m'"
      using j(1) by simp
    also have "\<dots> = Some m'" by (rule walk_end) (use j(1) b in \<open>simp_all add: A_def ys\<close>)
    finally have "free_loop (of_nat A) (of_nat a) m = Some m'" by (simp only: pre)
    moreover have "chain m' a (libc_released xs s ys) 0"
      using c j b False chain_unchanged [OF j(2), of a xs] by (auto simp: libc_released_def ys chain_append A_def)
    moreover have "keeps a (xs @ (s, True) # ys) m m'"
      by (rule keeps_unchanged [OF j(2)]) (use b in \<open>simp_all add: A_def\<close>)
    moreover have "unchanged_outside m m' a (a + span xs + 12 + s + span ys)"
      by (rule unchanged_outside_mono [OF j(2)]) (simp_all add: A_def)
    ultimately show ?thesis by (intro that) (simp_all add: A_def)
  next
    case no_next: False
    have "free_loop (of_nat A) (of_nat A) m = free_loop (of_nat A) (if ys = [] then 0 else of_nat (A + 12 + s)) m"
    proof -
      have v: "rd m (A + 8) = (if ys = [] then 0 else of_nat (A + 12 + s))" "of_nat A + BLOCK_HEADER + rd m A \<noteq> of_nat A"
        using cA noend by (simp_all add: BLOCK_HEADER_def)
      have "ys = [] \<or> rd m (A + 12 + s + 4) = 0" using cA no_next by (cases ys rule: span.cases) auto
      then have "rd m (A + 8) = 0 \<or> rd m (A + 8) = of_nat (A + 12 + s) \<and> rd m (A + 12 + s + 4) = 0" by (auto simp: v(1))
      moreover have "0 < A" "A < 4294967296" using b by (simp_all add: A_def)
      ultimately show ?thesis using free_loop_skip [OF _ _ v(2)] by (simp only: v(1))
    qed
    also have "\<dots> = Some m" by (rule walk_end) (use cA b in \<open>simp_all add: A_def\<close>)
    finally have "free_loop (of_nat A) (of_nat a) m = Some m" by (simp only: pre)
    moreover have "libc_released xs s ys = xs @ (s, True) # ys"
      using False no_next by (auto simp: libc_released_def split: list.splits bool.splits)
    ultimately show ?thesis using c by (intro that [of m]) (simp_all add: A_def keeps_def)
  qed
qed

section \<open>Live pointers\<close>

lemma payloads_disjoint:
  "(p, n) \<in> set (payloads a bs) \<Longrightarrow> (q, k) \<in> set (payloads a bs) \<Longrightarrow> p \<noteq> q \<Longrightarrow> p + n \<le> q \<or> q + k \<le> p"
proof (induction bs arbitrary: a rule: span.induct)
  case (2 s f bs)
  note b = payloads_bounds [of _ _ "a + 12 + s" bs]
  show ?case
    using "2.prems" "2.IH" [of "a + 12 + s"] b [of p n] b [of q k] by (auto split: if_splits)
qed simp

lemma payloads_split: "(p, n) \<in> set (payloads a bs) \<Longrightarrow> \<exists>xs ys. bs = xs @ (n, False) # ys \<and> p = a + span xs + 12"
proof (induction bs arbitrary: a rule: span.induct)
  case (2 s f bs)
  show ?case
  proof (cases "(p, n) \<in> set (payloads (a + 12 + s) bs)")
    case True
    then obtain xs ys where "bs = xs @ (n, False) # ys" "p = a + 12 + s + span xs + 12" using "2.IH" by blast
    then show ?thesis by (intro exI [of _ "(s, f) # xs"] exI [of _ ys]) simp
  next
    case False
    then show ?thesis using "2.prems" by (intro exI [of _ "[]"] exI [of _ bs]) (auto split: if_splits)
  qed
qed simp

lemma payloads_fresh:
  "a + span xs + 12 \<notin> fst ` set (payloads a xs)" "a + span xs + 12 \<notin> fst ` set (payloads (a + span xs + 12 + s) ys)"
  using payloads_bounds [of "a + span xs + 12" _ a xs] payloads_bounds [of "a + span xs + 12" _ "a + span xs + 12 + s" ys] by force+

lemma payloads_taken:
  "unat k \<le> s \<Longrightarrow> payloads a (xs @ taken_block (unat k) s @ ys)
     = payloads a xs @ (a + span xs + 12, if unat k + 28 \<le> s then unat k else s) # payloads (a + span xs + 12 + s) ys"
  by (simp add: taken_block_def add.assoc)

lemma payloads_released:
  "payloads a (libc_released xs s ys) = payloads a xs @ payloads (a + span xs + 12 + s) ys"
proof (cases "xs \<noteq> [] \<and> snd (last xs)")
  case True
  then obtain zs r where "xs = zs @ [(r, True)]" by (metis append_butlast_last_id prod.collapse)
  then show ?thesis by (simp add: libc_released_def add.assoc)
next
  case False
  then show ?thesis by (auto simp: libc_released_def ac_simps split: list.splits bool.splits)
qed

lemma span_released: "span (libc_released xs s ys) = span xs + 12 + s + span ys"
proof (cases "xs \<noteq> [] \<and> snd (last xs)")
  case True
  then obtain zs r where "xs = zs @ [(r, True)]" by (metis append_butlast_last_id prod.collapse)
  then show ?thesis by (simp add: libc_released_def)
next
  case False
  then show ?thesis by (auto simp: libc_released_def split: list.splits bool.splits)
qed

definition live_map :: "nat \<Rightarrow> blk list \<Rightarrow> u32 \<rightharpoonup> nat" where
  "live_map a bs = (\<lambda>p. map_of (payloads a bs) (unat p))"

definition libc_live :: "'a libc_scheme \<Rightarrow> (u32 \<rightharpoonup> nat) \<Rightarrow> bool" where
  "libc_live st L \<longleftrightarrow> (\<exists>bs. libc_rep st bs \<and> L = live_map (unat (lib_heap st)) bs)"

text \<open>Memory determines the list: the headers can be read off one after the other.\<close>

lemma chain_unique:
  assumes "chain m a xs 0" and "chain m a ys 0" and "xs \<noteq> []" and "ys \<noteq> []"
    and "a + span xs < 4294967296" and "a + span ys < 4294967296"
  shows "xs = ys"
  using assms
proof (induction xs arbitrary: a ys rule: span.induct)
  case (2 s f xs)
  obtain s' f' zs where ys: "ys = (s', f') # zs" using "2.prems"(4) by (cases ys) auto
  have "(of_nat s :: u32) = of_nat s'" "(if f then 1 else 0 :: u32) = (if f' then 1 else 0)"
    using "2.prems"(1,2) unfolding ys by simp_all
  then have same: "s = s'" "f = f'" using "2.prems"(5,6) unfolding ys by (auto simp: of_nat_u32_inject split: if_splits)
  have "(of_nat (a + 12 + s) :: u32) \<noteq> 0" using "2.prems"(5) by (subst of_nat_u32_eq_0) simp_all
  then have nil: "xs = [] \<longleftrightarrow> zs = []" using "2.prems"(1,2) same unfolding ys by (auto split: if_splits)
  show ?case
  proof (cases "xs = []")
    case False
    then have "xs = zs" using "2.prems" "2.IH" [of "a + 12 + s" zs] nil same unfolding ys by simp
    then show ?thesis using same ys by simp
  qed (use nil same ys in simp)
qed simp

lemma libc_live_unique:
  assumes "libc_live st L" and "libc_rep st bs"
  shows "L = live_map (unat (lib_heap st)) bs"
proof -
  obtain bs' where bs': "libc_rep st bs'" "L = live_map (unat (lib_heap st)) bs'" using assms(1) by (auto simp: libc_live_def)
  have "bs' = bs"
    by (rule chain_unique [of "lib_mem st" "unat (lib_heap st)"]) (use assms(2) bs'(1) in \<open>simp_all add: libc_rep_def\<close>)
  then show ?thesis using bs'(2) by simp
qed

definition libc_served :: "u32 \<Rightarrow> 'a libc_scheme \<Rightarrow> bool" where
  "libc_served k st \<longleftrightarrow> k \<le> 4294967288"

lemma live_map_Some: "live_map a bs p = Some n \<Longrightarrow> (unat p, n) \<in> set (payloads a bs)"
  by (auto simp: live_map_def dest: map_of_SomeD)

lemma live_map_insert:
  assumes "a + span xs + 12 < 4294967296"
  shows "(\<lambda>p :: u32. map_of (payloads a xs @ (a + span xs + 12, n) # payloads (a + span xs + 12 + s) ys) (unat p))
      = (\<lambda>p. map_of (payloads a xs @ payloads (a + span xs + 12 + s) ys) (unat p))(of_nat (a + span xs + 12) \<mapsto> n)"
    (is "?l = ?r(?q \<mapsto> n)")
    and "map_of (payloads a xs @ payloads (a + span xs + 12 + s) ys) (unat (of_nat (a + span xs + 12) :: u32)) = None"
proof -
  have q: "unat ?q = a + span xs + 12" by (rule unat_of_nat_u32 [OF assms])
  then have "unat p = a + span xs + 12 \<longleftrightarrow> p = ?q" for p :: u32 by (metis u32_of_nat_unat)
  then show "?l = ?r(?q \<mapsto> n)"
    by (simp only: map_of_insert [OF payloads_fresh(1)]) (auto simp: fun_eq_iff)
  show "map_of (payloads a xs @ payloads (a + span xs + 12 + s) ys) (unat (of_nat (a + span xs + 12) :: u32)) = None"
    unfolding q using payloads_fresh [of a xs] by (auto simp: map_of_eq_None_iff)
qed

lemma keeps_kept:
  assumes "keeps a bs m m'" and "a + span bs < 4294967296" and "L = live_map a bs"
  shows "kept L m m'"
  unfolding kept_def
proof (intro allI impI)
  fix p n i assume "L p = Some n" and i: "i < n"
  then have p: "(unat p, n) \<in> set (payloads a bs)" by (simp add: assms(3) live_map_Some)
  have "m' (of_nat (unat p + i)) = m (of_nat (unat p + i))" using assms(1) p i unfolding keeps_def by blast
  then show "m' (p + of_nat i) = m (p + of_nat i)" by simp
qed

lemma unat_malloc_size:
  assumes "k \<le> 4294967288"
  shows "unat k \<le> unat (malloc_size k)"
proof -
  have k: "unat k \<le> 4294967288" using assms by (simp add: word_le_nat_alt)
  have "unat k \<le> unat (if k mod 8 \<noteq> 0 then (k div 8 + 1) * 8 else k)"
  proof (cases "k mod 8 = 0")
    case False
    have m: "unat (k mod 8) = unat k mod 8" "unat (k div 8) = unat k div 8"
      by (simp_all add: unat_mod_distrib unat_div_distrib)
    have "unat k mod 8 \<noteq> 0" using False m(1) by (metis unat_eq_zero)
    then have b: "unat k \<le> (unat k div 8 + 1) * 8" "(unat k div 8 + 1) * 8 < 4294967296" using k by presburger+
    have "unat (k div 8 + 1) = unat k div 8 + 1" using b(2) by (subst unat_add_u32) (simp_all add: m)
    then have "unat ((k div 8 + 1) * 8) = (unat k div 8 + 1) * 8" using b(2) by (simp add: unat_word_ariths)
    then show ?thesis using False b(1) by (simp only: if_True simp_thms)
  qed simp
  then show ?thesis by (auto simp: malloc_size_def Let_def word_le_nat_alt word_less_nat_alt)
qed

text \<open>Allocating and releasing touch nothing but the array.\<close>

definition libc_changes :: "'a libc_scheme \<Rightarrow> 'a libc_scheme \<Rightarrow> bool" where
  "libc_changes st st' \<longleftrightarrow> st' = st\<lparr>lib_mem := lib_mem st'\<rparr> \<and>
     unchanged_outside (lib_mem st) (lib_mem st') (unat (lib_heap st)) (unat (lib_heap st) + 0x100000)"

lemma libc_live_carved:
  assumes live: "libc_rep st bs" "L = live_map (unat (lib_heap st)) bs" and k: "libc_served k st"
    and fit: "first_fit (unat (malloc_size k)) bs = Some (xs, s, ys)"
  obtains p st' n where "malloc k st = Some (p, st')" and "p \<noteq> 0" and "L p = None" and "unat k \<le> n"
    and "libc_live st' (L(p \<mapsto> n))" and "kept L (lib_mem st) (lib_mem st')"
    and "p = of_nat (unat (lib_heap st) + span xs + 12)"
    and "n = (if unat (malloc_size k) + 28 \<le> s then unat (malloc_size k) else s)"
    and "libc_changes st st'"
proof -
  define a where "a = unat (lib_heap st)"
  define A where "A = a + span xs"
  have bs: "bs = xs @ (s, True) # ys" and ks: "unat (malloc_size k) \<le> s" using first_fit_Some [OF fit] by simp_all
  have c: "chain (lib_mem st) a bs 0" and a: "0 < a" "a + 0x100000 < 4294967296" and sp: "span bs = 0x100000"
    and fields: "lib_heap_initialized st" "free_list st = of_nat a" "lib_heap st = of_nat a"
    using live(1) by (simp_all add: libc_rep_def a_def)
  have b: "A + 12 + s + span ys < 4294967296" "s \<le> 0x100000" "A + 12 < 4294967296" using a sp by (simp_all add: A_def bs)
  define m' where "m' = take_block (malloc_size k) (of_nat A) (lib_mem st)"
  define n where "n = (if unat (malloc_size k) + 28 \<le> s then unat (malloc_size k) else s)"
  have cA: "chain (lib_mem st) A ((s, True) # ys) 0" using c by (simp add: bs chain_append A_def)
  note tb = take_block_chain [OF cA b(1,2) ks, folded m'_def]
  have m: "malloc k st = Some (of_nat (A + 12), st\<lparr>lib_mem := m'\<rparr>)"
    using malloc_loop_chain [OF c a(1)] fit a sp bs fields
    by (simp add: malloc_def initialize_heap_def Let_def A_def m'_def BLOCK_HEADER_def add.assoc)
  have p0: "of_nat (A + 12) \<noteq> (0 :: u32)" using b(3) by (subst of_nat_u32_eq_0) simp_all
  have c': "chain m' a (xs @ taken_block (unat (malloc_size k)) s @ ys) 0"
    using chain_replace [OF c [unfolded bs] tb(2) [unfolded A_def] _ tb(1) [unfolded A_def]] a sp
    by (simp add: A_def bs taken_block_def)
  have "libc_rep (st\<lparr>lib_mem := m'\<rparr>) (xs @ taken_block (unat (malloc_size k)) s @ ys)"
    using live(1) c' ks by (auto simp: libc_rep_def bs a_def taken_block_def)
  moreover have L1: "L(of_nat (A + 12) \<mapsto> n) = live_map a (xs @ taken_block (unat (malloc_size k)) s @ ys)"
    unfolding live(2) live_map_def payloads_taken [OF ks] n_def A_def a_def [symmetric] bs
    by (subst live_map_insert) (use b in \<open>simp_all add: A_def\<close>)
  ultimately have "libc_live (st\<lparr>lib_mem := m'\<rparr>) (L(of_nat (A + 12) \<mapsto> n))"
    unfolding libc_live_def by (auto simp: a_def)
  moreover have "L (of_nat (A + 12)) = None"
    using live_map_insert(2) [of a xs s ys] b by (simp add: live(2) live_map_def bs a_def [symmetric] A_def del: of_nat_add)
  moreover have "kept L (lib_mem st) m'"
    by (rule keeps_kept [OF keeps_unchanged [OF tb(2)]]) (use a sp live(2) in \<open>simp_all add: bs A_def a_def\<close>)
  moreover have "unat k \<le> n"
    using unat_malloc_size [of k] k ks by (simp add: n_def libc_served_def)
  moreover have "libc_changes st (st\<lparr>lib_mem := m'\<rparr>)"
    unfolding libc_changes_def using unchanged_outside_mono [OF tb(2), of a "a + 0x100000"] sp
    by (simp add: a_def [symmetric] A_def bs)
  ultimately show ?thesis
    using that [OF m p0] by (simp add: A_def n_def a_def)
qed

lemma malloc_no_fit:
  assumes "libc_rep st bs" and "first_fit (unat (malloc_size k)) bs = None"
  shows "malloc k st = Some (0, st)"
  using assms malloc_loop_chain [of st "unat (lib_heap st)" bs "malloc_size k"]
  by (simp add: libc_rep_def malloc_def initialize_heap_def Let_def)

lemma libc_free_live:
  assumes "libc_live st L" and "L p = Some n"
  obtains st' where "free p st = Some st'" and "libc_live st' (L(p := None))"
    and "kept (L(p := None)) (lib_mem st) (lib_mem st')" and "libc_changes st st'"
proof -
  define a where "a = unat (lib_heap st)"
  obtain bs where rep: "libc_rep st bs" and L: "L = live_map a bs"
    using assms(1) by (auto simp: libc_live_def a_def)
  obtain xs ys where bs: "bs = xs @ (n, False) # ys" and up: "unat p = a + span xs + 12"
    using payloads_split [OF live_map_Some] assms(2) L by blast
  define A where "A = a + span xs"
  have c: "chain (lib_mem st) a bs 0" and a: "0 < a" "a + 0x100000 < 4294967296" and sp: "span bs = 0x100000"
    and fields: "free_list st = of_nat a"
    using rep by (simp_all add: libc_rep_def a_def)
  have b: "A + 12 + n + span ys < 4294967296" using a sp by (simp add: A_def bs)
  have pA: "p = of_nat (a + span xs + 12)" by (metis up u32_of_nat_unat)
  have p: "p = of_nat A + BLOCK_HEADER" "p = of_nat (a + span xs + 12)" "p \<noteq> 0"
    using pA up by (simp_all add: A_def BLOCK_HEADER_def del: of_nat_add) (auto simp: unat_eq_zero)
  define m1 where "m1 = wr (lib_mem st) (A + 4) 1"
  have u1: "unchanged_outside (lib_mem st) m1 A (A + 12)"
    unfolding m1_def using b by (intro wr_within unchanged_outside_refl) simp_all
  have "chain m1 (A + 12 + n) ys 0 = chain (lib_mem st) (A + 12 + n) ys 0"
    by (rule chain_unchanged [OF u1]) (use b in simp_all)
  then have "chain m1 A ([(n, True)] @ ys) 0"
    using c b by (simp add: bs chain_append A_def m1_def rd_wr_other)
  then have c1: "chain m1 a (xs @ (n, True) # ys) 0"
    using chain_replace [OF c [unfolded bs] u1 [unfolded A_def], of "[(n, True)]"] b by (simp add: A_def)
  obtain m' where m': "free_loop (of_nat A) (of_nat a) m1 = Some m'" "chain m' a (libc_released xs n ys) 0"
    "keeps a (xs @ (n, True) # ys) m1 m'" "unchanged_outside m1 m' a (a + span xs + 12 + n + span ys)"
    using free_loop_chain [OF c1 a(1)] b by (auto simp: A_def)
  have f: "free p st = Some (st\<lparr>lib_mem := m'\<rparr>)"
    using p m'(1) fields mb_nat(5) [of A] by (simp add: free_def Let_def m1_def [symmetric])
  have "libc_rep (st\<lparr>lib_mem := m'\<rparr>) (libc_released xs n ys)"
    using rep m'(2) sp span_released [of xs n ys] by (auto simp: libc_rep_def a_def bs)
  moreover have L1: "L(p := None) = live_map a (libc_released xs n ys)"
  proof -
    have "L = (\<lambda>p. map_of (payloads a xs @ payloads (a + span xs + 12 + n) ys) (unat p))(p \<mapsto> n)"
      using live_map_insert(1) [of a xs n n ys] b p(2) by (simp add: L live_map_def bs A_def)
    moreover have "map_of (payloads a xs @ payloads (a + span xs + 12 + n) ys) (unat p) = None"
      using live_map_insert(2) [of a xs n ys] b p(2) by (simp add: A_def)
    ultimately show ?thesis by (auto simp: live_map_def payloads_released fun_eq_iff map_add_def)
  qed
  ultimately have "libc_live (st\<lparr>lib_mem := m'\<rparr>) (L(p := None))"
    unfolding libc_live_def by (auto simp: a_def)
  moreover have "kept (L(p := None)) (lib_mem st) m'"
  proof (rule kept_trans)
    have "kept L (lib_mem st) m1"
      by (rule keeps_kept [OF keeps_unchanged [OF u1]]) (use a sp in \<open>simp_all add: L bs A_def\<close>)
    then show "kept (L(p := None)) (lib_mem st) m1" by (rule kept_mono) (simp add: map_le_def)
    show "kept (L(p := None)) m1 m'"
      by (rule keeps_kept [OF m'(3)]) (use a sp in \<open>simp_all add: L1 live_map_def payloads_released bs\<close>)
  qed
  moreover have "libc_changes st (st\<lparr>lib_mem := m'\<rparr>)"
  proof -
    have "unchanged_outside (lib_mem st) m1 a (a + 0x100000)"
      by (rule unchanged_outside_mono [OF u1]) (use sp in \<open>simp_all add: A_def bs\<close>)
    moreover have "unchanged_outside m1 m' a (a + 0x100000)"
      by (rule unchanged_outside_mono [OF m'(4)]) (use sp in \<open>simp_all add: bs\<close>)
    ultimately show ?thesis
      unfolding libc_changes_def by (auto simp: a_def [symmetric] intro: unchanged_outside_trans)
  qed
  ultimately show ?thesis using that f by simp
qed

lemma libc_write_live:
  assumes "libc_live st L" and "L p = Some n" and m: "unchanged_outside (lib_mem st) m (unat p) (unat p + n)"
  shows "libc_live (st\<lparr>lib_mem := m\<rparr>) L"
proof -
  define a where "a = unat (lib_heap st)"
  obtain bs where rep: "libc_rep st bs" and L: "L = live_map a bs"
    using assms(1) by (auto simp: libc_live_def a_def)
  obtain xs ys where bs: "bs = xs @ (n, False) # ys" and up: "unat p = a + span xs + 12"
    using payloads_split [OF live_map_Some] assms(2) L by blast
  have c: "chain (lib_mem st) a bs 0" and a: "0 < a" "a + 0x100000 < 4294967296" and sp: "span bs = 0x100000"
    using rep by (simp_all add: libc_rep_def a_def)
  define A where "A = a + span xs"
  have b: "A + 12 + n + span ys < 4294967296" using a sp by (simp add: A_def bs)
  have u: "unchanged_outside (lib_mem st) m (A + 12) (A + 12 + n)" using m by (simp add: up A_def)
  have "rd m A = rd (lib_mem st) A" "rd m (A + 4) = rd (lib_mem st) (A + 4)" "rd m (A + 8) = rd (lib_mem st) (A + 8)"
    using b by (auto intro!: rd_unchanged [OF u])
  moreover have "chain m (A + 12 + n) ys 0 = chain (lib_mem st) (A + 12 + n) ys 0"
    by (rule chain_unchanged [OF u]) (use b in simp_all)
  moreover have "chain m a xs t = chain (lib_mem st) a xs t" for t
    by (rule chain_unchanged [OF u]) (use b in \<open>simp_all add: A_def\<close>)
  ultimately have "chain m a bs 0" using c by (simp add: bs chain_append A_def)
  then show ?thesis using rep L by (auto simp: libc_live_def libc_rep_def a_def)
qed

text \<open>The C library's allocator meets the contract, too. \<open>free\<close> returns on a live pointer, so the
  default of the option is not met.\<close>

definition libc_free :: "u32 \<Rightarrow> 'a libc_scheme \<Rightarrow> 'a libc_scheme" where
  "libc_free p st = (case free p st of Some st' \<Rightarrow> st' | None \<Rightarrow> st)"

interpretation libc: allocator malloc libc_free lib_mem "\<lambda>m st. st\<lparr>lib_mem := m\<rparr>" libc_live libc_served
proof (unfold_locales, goal_cases)
  case (1 st L p n)
  then obtain bs where "libc_rep st bs" and L: "L = live_map (unat (lib_heap st)) bs" by (auto simp: libc_live_def)
  then show ?case using payloads_bounds [OF live_map_Some] 1(2) by (fastforce simp: libc_rep_def)
next
  case (2 st L p n q n')
  then obtain bs where "L = live_map (unat (lib_heap st)) bs" by (auto simp: libc_live_def)
  then show ?case using payloads_disjoint live_map_Some 2 by (metis word_unat_eq_iff)
next
  case (3 st L k)
  then obtain bs where rep: "libc_rep st bs" "L = live_map (unat (lib_heap st)) bs" by (auto simp: libc_live_def)
  show ?case
  proof (cases "first_fit (unat (malloc_size k)) bs")
    case None
    then show ?thesis using malloc_no_fit [OF rep(1)] by auto
  next
    case (Some r)
    then obtain xs s ys where "first_fit (unat (malloc_size k)) bs = Some (xs, s, ys)" by (cases r) auto
    then show ?thesis by (elim libc_live_carved [OF rep 3(2)]) auto
  qed
next
  case (4 st L k st')
  then obtain bs where rep: "libc_rep st bs" "L = live_map (unat (lib_heap st)) bs" by (auto simp: libc_live_def)
  show ?case
  proof (cases "first_fit (unat (malloc_size k)) bs")
    case None
    then show ?thesis using malloc_no_fit [OF rep(1)] 4(3) by auto
  next
    case (Some r)
    then obtain xs s ys where "first_fit (unat (malloc_size k)) bs = Some (xs, s, ys)" by (cases r) auto
    then show ?thesis using 4(3) by (elim libc_live_carved [OF rep 4(2)]) auto
  qed
next
  case (5 st L k p st')
  then obtain bs where rep: "libc_rep st bs" "L = live_map (unat (lib_heap st)) bs" by (auto simp: libc_live_def)
  show ?case
  proof (cases "first_fit (unat (malloc_size k)) bs")
    case None
    then show ?thesis using malloc_no_fit [OF rep(1)] 5(3,4) by auto
  next
    case (Some r)
    then obtain xs s ys where "first_fit (unat (malloc_size k)) bs = Some (xs, s, ys)" by (cases r) auto
    then show ?thesis using 5(3) by (elim libc_live_carved [OF rep 5(2)]) auto
  qed
next
  case (6 st L p n)
  obtain st' where "free p st = Some st'" "libc_live st' (L(p := None))" "kept (L(p := None)) (lib_mem st) (lib_mem st')"
    by (rule libc_free_live [OF 6])
  then show ?case by (simp add: libc_free_def)
next
  case (7 st L p n m)
  then show ?case by (rule libc_write_live)
next
  case (8 m st)
  then show ?case by simp
qed

end
