(* ===== verification/CStdlibProps.thy ===== *)
theory CStdlibProps
  imports LibcHeap
begin

text \<open>
  What callers of the C library get: the allocator's promises written out over \<open>malloc\<close>,
  \<open>free\<close>, \<open>calloc\<close> and \<open>realloc\<close>, which all rest on the contract of theory Allocator, and the
  conversions between numbers and digit strings.
\<close>

section \<open>The allocator\<close>

text \<open>The heap before the first call: a static array at 2 MB.\<close>

definition libc_fresh :: libc where
  "libc_fresh = \<lparr>lib_mem = (\<lambda>x. 0), lib_heap = 0x200000, free_list = 0, lib_heap_initialized = False, rand_next = 1\<rparr>"

lemma libc_fresh_rep: "libc_rep (initialize_heap libc_fresh) [(0x100000 - 12, True)]"
  by (rule initialize_heap_rep) (simp_all add: libc_fresh_def)

lemma libc_fresh_live: "libc_live (initialize_heap libc_fresh) Map.empty"
  using libc_fresh_rep unfolding libc_live_def
  by (intro exI [of _ "[(0x100000 - 12, True)]"]) (simp add: live_map_def)

text \<open>The first request is served from the start of the array.\<close>

lemma malloc_fresh:
  "\<exists>st'. malloc 100 (initialize_heap libc_fresh) = Some (0x20000C, st') \<and> libc_live st' [0x20000C \<mapsto> 104]"
proof -
  have "malloc_size 100 = 104" by (simp add: malloc_size_def)
  then have "first_fit (unat (malloc_size 100)) [(0x100000 - 12, True)] = Some ([], 0x100000 - 12, [])" by simp
  moreover have "Map.empty = live_map (unat (lib_heap (initialize_heap libc_fresh))) [(0x100000 - 12, True)]"
    by (simp add: live_map_def)
  moreover have "libc_served 100 (initialize_heap libc_fresh)" by (simp add: libc_served_def)
  ultimately obtain p st' n where m: "malloc 100 (initialize_heap libc_fresh) = Some (p, st')" "libc_live st' (Map.empty(p \<mapsto> n))"
    "p = of_nat (unat (lib_heap (initialize_heap libc_fresh)) + span [] + 12)"
    "n = (if unat (malloc_size 100) + 28 \<le> 0x100000 - 12 then unat (malloc_size 100) else 0x100000 - 12)"
    using libc_live_carved [OF libc_fresh_rep] by metis
  have "lib_heap (initialize_heap libc_fresh) = 0x200000" by (simp add: initialize_heap_def libc_fresh_def Let_def)
  then show ?thesis using m by (auto simp: malloc_size_def)
qed

text \<open>C22: \<open>malloc\<close> returns for every request up to \<open>2 ^ 32 - 8\<close>: it yields either null, with nothing
  changed, or a pointer that was not in use to a payload of at least the requested size that overlaps
  no payload in use, and all of those still hold their bytes.\<close>

theorem malloc_correct:
  assumes "libc_live st L" and "k \<le> 4294967288"
  shows "malloc k st = Some (0, st) \<or>
    (\<exists>p st' n. malloc k st = Some (p, st') \<and> p \<noteq> 0 \<and> L p = None \<and> unat k \<le> n \<and> libc_live st' (L(p \<mapsto> n))
      \<and> kept L (lib_mem st) (lib_mem st')
      \<and> (\<forall>q m. L q = Some m \<longrightarrow> unat p + n \<le> unat q \<or> unat q + m \<le> unat p))"
proof -
  have k: "libc_served k st" using assms(2) by (simp add: libc_served_def)
  obtain p st' where m: "malloc k st = Some (p, st')" using libc.alloc_returns [OF assms(1) k] by blast
  show ?thesis
  proof (cases "p = 0")
    case True
    then show ?thesis using m libc.alloc_fails [OF assms(1) k, of st'] by simp
  next
    case False
    obtain n where n: "unat k \<le> n" "libc_live st' (L(p \<mapsto> n))" and p: "L p = None" and kept: "kept L (lib_mem st) (lib_mem st')"
      using libc.alloc_live [OF assms(1) k m False] by blast
    have "unat p + n \<le> unat q \<or> unat q + m \<le> unat p" if "L q = Some m" for q m
      using libc.live_disjoint [OF n(2), of p n q m] that p by (cases "p = q") auto
    then show ?thesis using m False p n kept by blast
  qed
qed

lemma malloc_correct_witness:
  "\<exists>st' n. malloc 100 (initialize_heap libc_fresh) = Some (0x20000C, st') \<and> 100 \<le> n \<and> libc_live st' [0x20000C \<mapsto> n]"
  using malloc_correct [OF libc_fresh_live, of 100] malloc_fresh by fastforce

text \<open>A request close to the end of the address space wraps around: for every size above
  \<open>2 ^ 32 - 8\<close> the rounding yields 0, which is raised to the minimum, so \<open>malloc\<close> does
  what it does for a request of 16 bytes and reports success.\<close>

theorem malloc_wraps:
  assumes "4294967288 < k"
  shows "malloc_size k = 16" and "malloc k st = malloc 16 st"
proof -
  have k: "4294967288 < unat k" "unat k < 4294967296" using assms by (simp_all add: word_less_nat_alt)
  then have m: "unat k mod 8 \<noteq> 0" "unat k div 8 = 536870911" by presburger+
  have "unat (k mod 8) = unat k mod 8" "unat (k div 8) = unat k div 8"
    by (simp_all add: unat_mod_distrib unat_div_distrib)
  then have "k mod 8 \<noteq> 0" "k div 8 = 536870911" using m by (auto simp: word_unat_eq_iff)
  then show "malloc_size k = 16" by (simp add: malloc_size_def)
  moreover have "malloc_size 16 = 16" by (simp add: malloc_size_def)
  ultimately show "malloc k st = malloc 16 st" by (simp add: malloc_def)
qed

lemma malloc_wraps_witness:
  "malloc 0xFFFFFFFF libc_fresh = malloc 16 libc_fresh"
  using malloc_wraps(2) [of "0xFFFFFFFF"] by simp

lemma libc_block_size:
  assumes "libc_live st L" and "L p = Some n"
  shows "mb_size (lib_mem st) (p - BLOCK_HEADER) = of_nat n" and "p \<noteq> 0"
proof -
  define a where "a = unat (lib_heap st)"
  obtain bs where rep: "libc_rep st bs" and L: "L = live_map a bs"
    using assms(1) by (auto simp: libc_live_def a_def)
  obtain xs ys where bs: "bs = xs @ (n, False) # ys" and up: "unat p = a + span xs + 12"
    using payloads_split [OF live_map_Some] assms(2) L by blast
  have "chain (lib_mem st) (a + span xs) ((n, False) # ys) 0" using rep by (simp add: libc_rep_def bs chain_append a_def)
  moreover have "p = of_nat (a + span xs + 12)" by (metis up u32_of_nat_unat)
  then have "p - BLOCK_HEADER = of_nat (a + span xs)" by (simp add: BLOCK_HEADER_def)
  ultimately show "mb_size (lib_mem st) (p - BLOCK_HEADER) = of_nat n"
    using mb_nat(1) [of "lib_mem st" "a + span xs"] by (simp del: of_nat_add)
  show "p \<noteq> 0" using up by auto
qed

lemma libc_realloc_grows:
  assumes live: "libc_live st L" and old: "L p = Some n" and k: "n < unat k" "k \<le> 4294967288"
  shows "realloc p k st = Some (0, st) \<or>
    (\<exists>q st' m. realloc p k st = Some (q, st') \<and> q \<noteq> 0 \<and> L q = None \<and> unat k \<le> m \<and> libc_live st' ((L(q \<mapsto> m))(p := None))
      \<and> kept (L(p := None)) (lib_mem st) (lib_mem st')
      \<and> (\<forall>i < n. lib_mem st' (q + of_nat i) = lib_mem st (p + of_nat i)))"
proof -
  have served: "libc_served k st" using k(2) by (simp add: libc_served_def)
  note sz = libc_block_size [OF live old]
  have n: "unat (of_nat n :: u32) = n" using k(1) unat_u32_bound [of k] by (intro unat_of_nat_u32) linarith
  have guard: "\<not> k \<le> of_nat n" "k \<noteq> 0" using k(1) by (auto simp: word_le_nat_alt n)
  obtain q st1 where m: "malloc k st = Some (q, st1)" using libc.alloc_returns [OF live served] by blast
  show ?thesis
  proof (cases "q = 0")
    case True
    then show ?thesis using m libc.alloc_fails [OF live served, of st1] sz guard by (simp add: realloc_def Let_def)
  next
    case False
    define st2 where "st2 = st1\<lparr>lib_mem := memcpy (lib_mem st1) q p (of_nat n)\<rparr>"
    note mv = libc.alloc_move [OF live served old less_imp_le [OF k(1)] m False refl, folded st2_def]
    obtain j where j: "unat k \<le> j" "libc_live st1 (L(q \<mapsto> j))" and q: "L q = None"
      using libc.alloc_live [OF live served m False] by blast
    have pq: "q \<noteq> p" using q old by auto
    have sz1: "mb_size (lib_mem st1) (p - BLOCK_HEADER) = of_nat n"
      using libc_block_size(1) [OF j(2), of p n] old pq by simp
    have live2: "libc_live st2 (L(q \<mapsto> j))"
      unfolding st2_def
    proof (rule libc.write_live [OF j(2)])
      show "(L(q \<mapsto> j)) q = Some j" by simp
      have bq: "unat q + j < 4294967296" using libc.live_bounds [OF j(2), of q j] by simp
      have "unat p + n \<le> unat q \<or> unat q + j \<le> unat p"
        using libc.live_disjoint [OF j(2), of p n q j] old pq by simp
      moreover have "unat p + n < 4294967296" using libc.live_bounds [OF live old] by simp
      ultimately have "unat (p - q) + n \<le> 4294967296"
        using bq k(1) j(1) by (auto simp: unat_sub_if_size word_size)
      then have "memcpy (lib_mem st1) q p (of_nat n) = copied (lib_mem st1) q p n" by (simp add: memcpy_eq_copied n)
      then show "unchanged_outside (lib_mem st1) (memcpy (lib_mem st1) q p (of_nat n)) (unat q) (unat q + j)"
        by (intro unchanged_outside_mono [OF copied_unchanged]) (use bq k(1) j(1) in auto)
    qed
    have "(L(q \<mapsto> j)) p = Some n" using old pq by simp
    then obtain st3 where st3: "free p st2 = Some st3" by (rule libc_free_live [OF live2])
    then have e: "libc_free p st2 = st3" by (simp add: libc_free_def)
    have guard': "\<not> k \<le> mb_size (lib_mem st) (p - BLOCK_HEADER)" unfolding sz(1) by (rule guard(1))
    have "realloc p k st = Option.bind (free p st2) (\<lambda>st. Some (q, st))"
      unfolding realloc_def Let_def m bind.bind_lunit prod.case sz1 st2_def
      using guard' guard(2) sz(2) False by (simp only: if_False)
    then have r: "realloc p k st = Some (q, st3)" by (simp only: st3 bind.bind_lunit)
    obtain i where i: "unat k \<le> i" "libc_live st3 ((L(q \<mapsto> i))(p := None))" using mv(2) unfolding e by blast
    show ?thesis
      using r False q i mv(3,4) unfolding e by blast
  qed
qed

text \<open>\<open>realloc\<close> of a block in use returns. To a size the block has room for it yields the same
  pointer and changes nothing. To a larger size it yields either null, and nothing changed, or a
  new block of at least that size that holds the old bytes, with the old block released and the
  other blocks untouched.\<close>

theorem realloc_correct:
  assumes "libc_live st L" and "L p = Some n" and "k \<noteq> 0" and "k \<le> 4294967288"
  shows "if unat k \<le> n then realloc p k st = Some (p, st)
    else realloc p k st = Some (0, st) \<or>
      (\<exists>q st' m. realloc p k st = Some (q, st') \<and> q \<noteq> 0 \<and> L q = None \<and> unat k \<le> m \<and> libc_live st' ((L(q \<mapsto> m))(p := None))
        \<and> kept (L(p := None)) (lib_mem st) (lib_mem st')
        \<and> (\<forall>i < n. lib_mem st' (q + of_nat i) = lib_mem st (p + of_nat i)))"
proof (cases "unat k \<le> n")
  case True
  have "n < 4294967296" using libc.live_bounds [OF assms(1,2)] by simp
  then show ?thesis
    using True assms(3) libc_block_size [OF assms(1,2)] by (simp add: realloc_def Let_def word_le_nat_alt unat_of_nat_u32)
next
  case False
  then show ?thesis using libc_realloc_grows [OF assms(1,2) _ assms(4)] by simp
qed

lemma realloc_correct_witness:
  "\<exists>st :: libc. libc_live st [0x20000C \<mapsto> 104] \<and> realloc 0x20000C 100 st = Some (0x20000C, st)
     \<and> (realloc 0x20000C 200 st = Some (0, st) \<or> (\<exists>q st'. realloc 0x20000C 200 st = Some (q, st') \<and> q \<noteq> 0))"
proof -
  obtain st :: libc where st: "libc_live st [0x20000C \<mapsto> 104]" using malloc_fresh by blast
  then show ?thesis
    using realloc_correct [OF st, of "0x20000C" 104 100] realloc_correct [OF st, of "0x20000C" 104 200] by auto
qed

text \<open>\<open>calloc\<close> returns, either null with nothing changed or a fresh block that holds zeros in
  the first \<open>nmemb * size\<close> bytes, the product taken modulo \<open>2 ^ 32\<close>. So a product that overflows is
  served with a block smaller than the \<open>nmemb\<close> elements.\<close>

theorem calloc_correct:
  assumes "libc_live st L" and "nmemb * sz \<le> 4294967288"
  shows "calloc nmemb sz st = Some (0, st) \<or>
    (\<exists>p st' n. calloc nmemb sz st = Some (p, st') \<and> p \<noteq> 0 \<and> L p = None \<and> unat (nmemb * sz) \<le> n \<and> libc_live st' (L(p \<mapsto> n))
      \<and> kept L (lib_mem st) (lib_mem st') \<and> (\<forall>i < unat (nmemb * sz). lib_mem st' (p + of_nat i) = 0))"
    and "calloc 0x10000 0x10000 st = calloc 0 0 st"
proof -
  have k: "libc_served (nmemb * sz) st" using assms(2) by (simp add: libc_served_def)
  obtain p st1 where m: "malloc (nmemb * sz) st = Some (p, st1)" using libc.alloc_returns [OF assms(1) k] by blast
  show "calloc nmemb sz st = Some (0, st) \<or>
    (\<exists>p st' n. calloc nmemb sz st = Some (p, st') \<and> p \<noteq> 0 \<and> L p = None \<and> unat (nmemb * sz) \<le> n \<and> libc_live st' (L(p \<mapsto> n))
      \<and> kept L (lib_mem st) (lib_mem st') \<and> (\<forall>i < unat (nmemb * sz). lib_mem st' (p + of_nat i) = 0))"
  proof (cases "p = 0")
    case True
    then show ?thesis using m libc.alloc_fails [OF assms(1) k, of st1] by (simp add: calloc_def Let_def)
  next
    case False
    note af = libc.alloc_fill [OF assms(1) k m False refl]
    have "calloc nmemb sz st = Some (p, st1\<lparr>lib_mem := memset (lib_mem st1) p 0 (nmemb * sz)\<rparr>)"
      using m False by (simp add: calloc_def Let_def)
    then show ?thesis using af False by auto
  qed
  have "(0x10000 * 0x10000 :: u32) = 0 * 0" by code_simp
  then show "calloc 0x10000 0x10000 st = calloc 0 0 st" by (simp only: calloc_def)
qed

lemma calloc_correct_witness:
  "\<exists>p st'. calloc 25 4 (initialize_heap libc_fresh) = Some (p, st') \<and> (p \<noteq> 0 \<longrightarrow> (\<forall>i < 100. lib_mem st' (p + of_nat i) = 0))"
  using calloc_correct(1) [OF libc_fresh_live, of 25 4] by auto

section \<open>Conversions\<close>

definition is_digit :: "u8 \<Rightarrow> bool" where "is_digit c \<longleftrightarrow> 48 \<le> c \<and> c \<le> 57"
definition is_blank :: "u8 \<Rightarrow> bool" where "is_blank c \<longleftrightarrow> c = 32 \<or> c = 9 \<or> c = 10"

lemma atoi_digits_append:
  "(\<And>c. c \<in> set xs \<Longrightarrow> is_digit c) \<Longrightarrow> atoi_digits r (xs @ ys) = atoi_digits (atoi_digits r xs) ys"
  by (induction xs arbitrary: r) (auto simp: is_digit_def)

lemma hex_digits_decimal:
  assumes "d < 10"
  shows "is_digit (hex_digits ! d)" and "ucast (hex_digits ! d) - 48 = (of_nat d :: u32)"
proof -
  have "d = 0 \<or> d = 1 \<or> d = 2 \<or> d = 3 \<or> d = 4 \<or> d = 5 \<or> d = 6 \<or> d = 7 \<or> d = 8 \<or> d = 9" using assms by presburger
  then show "is_digit (hex_digits ! d)" and "ucast (hex_digits ! d) - 48 = (of_nat d :: u32)"
    by (auto simp: hex_digits_def bytes_of_def is_digit_def)
qed

lemma itoa_loop_digits: "c \<in> set (itoa_loop 10 v) \<Longrightarrow> is_digit c"
proof (induction v rule: less_induct)
  case (less v)
  show ?case
    using less.prems less.IH [of "v div 10"] hex_digits_decimal(1) [of "v mod 10"]
    by (subst (asm) itoa_loop.simps) (auto split: if_splits)
qed

lemma atoi_itoa_append:
  "atoi_digits r (rev (itoa_loop 10 n) @ ys) = atoi_digits (atoi_digits r (rev (itoa_loop 10 n))) ys"
  by (rule atoi_digits_append) (auto intro: itoa_loop_digits)

lemma itoa_loop_value: "atoi_digits 0 (rev (itoa_loop 10 v)) = of_nat v"
proof (induction v rule: less_induct)
  case (less v)
  have d: "is_digit (hex_digits ! (v mod 10))" "ucast (hex_digits ! (v mod 10)) - 48 = (of_nat (v mod 10) :: u32)"
    using hex_digits_decimal [of "v mod 10"] by simp_all
  have step: "atoi_digits r [hex_digits ! (v mod 10)] = r * 10 + of_nat (v mod 10)" for r
    using d by (simp add: is_digit_def)
  show ?case
  proof (cases "v div 10 = 0")
    case True
    then have "v mod 10 = v" by simp
    then show ?thesis using True step [of 0] by (subst itoa_loop.simps) simp
  next
    case False
    then have "rev (itoa_loop 10 v) = rev (itoa_loop 10 (v div 10)) @ [hex_digits ! (v mod 10)]"
      by (subst itoa_loop.simps) simp
    then have "atoi_digits 0 (rev (itoa_loop 10 v)) = of_nat (v div 10) * 10 + of_nat (v mod 10)"
      using less.IH [of "v div 10"] False by (simp only: atoi_itoa_append step)
    also have "\<dots> = of_nat (v div 10 * 10 + v mod 10)" by (simp only: of_nat_add of_nat_mult of_nat_numeral)
    finally show ?thesis by simp
  qed
qed

lemma atoi_blank: "is_blank c \<Longrightarrow> atoi (c # cs) = atoi cs"
  by (simp add: atoi_def is_blank_def Let_def)

text \<open>C36: \<open>atoi\<close> reads back what \<open>itoa\<close> prints in base ten: every \<open>int\<close> but the smallest has a
  decimal string, and that string, with any blanks before it and anything that does not start with
  a digit behind it, is read as the same number.\<close>

theorem itoa_atoi_roundtrip:
  assumes "v \<noteq> 0x80000000" and "list_all is_blank blanks" and "rest = [] \<or> \<not> is_digit (hd rest)"
  shows "\<exists>s. itoa v 10 = Some s \<and> atoi (blanks @ s @ rest) = v"
proof -
  have rest: "atoi_digits r rest = r" for r
    using assms(3) by (cases rest) (auto simp: is_digit_def)
  have val: "atoi_digits 0 (rev (itoa_loop 10 n) @ rest) = of_nat n" for n
    by (simp add: atoi_itoa_append itoa_loop_value rest)
  have skip: "atoi (blanks @ s) = atoi s" for s
    using assms(2) by (induction blanks) (simp_all add: atoi_blank)
  have ten: "sint (10 :: u32) = 10" by simp
  show ?thesis
  proof (cases "sint v < 0")
    case True
    have "itoa v 10 = Some (45 # rev (itoa_loop 10 (unat (- v))))"
      using True assms(1) by (simp add: itoa_def ten)
    moreover have "atoi ((45 # rev (itoa_loop 10 (unat (- v)))) @ rest) = v"
      by (simp add: atoi_def val)
    ultimately show ?thesis by (metis skip)
  next
    case False
    have s: "itoa v 10 = Some (rev (itoa_loop 10 (unat v)))"
      using False assms(1) by (simp add: itoa_def ten)
    obtain c cs where c: "rev (itoa_loop 10 (unat v)) = c # cs" "is_digit c"
    proof (cases "rev (itoa_loop 10 (unat v))")
      case Nil
      then show ?thesis by (subst (asm) itoa_loop.simps) simp
    next
      case (Cons c cs)
      then have "c \<in> set (itoa_loop 10 (unat v))" by (metis list.set_intros(1) set_rev)
      then show ?thesis using that [OF Cons] itoa_loop_digits by blast
    qed
    have "c \<noteq> 32 \<and> c \<noteq> 9 \<and> c \<noteq> 10 \<and> c \<noteq> 45 \<and> c \<noteq> 43" using c(2) by (auto simp: is_digit_def)
    then have "atoi (rev (itoa_loop 10 (unat v)) @ rest) = atoi_digits 0 (rev (itoa_loop 10 (unat v)) @ rest)"
      by (simp add: atoi_def c(1))
    then show ?thesis using s by (metis skip val u32_of_nat_unat)
  qed
qed

lemma itoa_atoi_roundtrip_witness:
  "\<exists>s. itoa (- 123) 10 = Some s \<and> atoi ([32, 9] @ s @ [120]) = - 123"
  using itoa_atoi_roundtrip [of "- 123" "[32, 9]" "[120]"] by (simp add: is_blank_def is_digit_def)

end
