(* ===== verification/FileSystem.thy ===== *)
theory FileSystem
  imports CStdlib
begin

text \<open>
  The in-memory file system (\<open>drivers/fs.c\<close>, \<open>include/fs.h\<close>): a table of directories, a table of
  entries, and file contents in blocks of the C library's allocator. Names and paths are C strings,
  here the lists of the bytes before the NUL; file contents and the callers' buffers are in the byte
  memory of the allocator's state. The used part of a directory's array of entry indices is a list,
  so \<open>file_count\<close> is its length. An operation is \<open>None\<close> where the code has no result: a write
  behind the end of a table, a null pointer written through, or an allocator that does not return.
  The debugging output is left out. Paths are not null and have less than 256 bytes, the length of
  the arrays they are copied to.
\<close>

unbundle bit_operations_syntax

definition FS_MAX_FILENAME_LEN :: nat where "FS_MAX_FILENAME_LEN = 32"
definition FS_MAX_PATH_LEN :: nat where "FS_MAX_PATH_LEN = 256"
definition FS_MAX_FILES_PER_DIR :: nat where "FS_MAX_FILES_PER_DIR = 64"
definition FS_MAX_DIRECTORIES :: nat where "FS_MAX_DIRECTORIES = 32"
definition FS_MAX_FILES :: nat where "FS_MAX_FILES = 128"

datatype fs_entry_type = FS_TYPE_FILE | FS_TYPE_DIRECTORY

record fs_entry =
  ename :: "u8 list"
  etype :: fs_entry_type
  attributes :: u8
  esize :: u32
  data_pointer :: u32
  eparent :: nat
  ecreation_time :: u32

record fs_directory =
  dname :: "u8 list"
  dparent :: nat
  dfiles :: "nat list"

record filesystem = libc +
  fs_initialized :: bool
  dir_count :: nat
  file_count :: nat
  directories :: "fs_directory list"
  entries :: "fs_entry list"
  current_directory :: "u8 list"
  last_token :: "u8 list option"

definition zero_entry :: fs_entry where
  "zero_entry = \<lparr>ename = [], etype = FS_TYPE_FILE, attributes = 0, esize = 0, data_pointer = 0, eparent = 0, ecreation_time = 0\<rparr>"

definition zero_directory :: fs_directory where
  "zero_directory = \<lparr>dname = [], dparent = 0, dfiles = []\<rparr>"

definition fs_init_current_dir :: "'a filesystem_scheme \<Rightarrow> 'a filesystem_scheme" where
  "fs_init_current_dir st = st\<lparr>current_directory := [47]\<rparr>"

definition fs_get_current_dir :: "'a filesystem_scheme \<Rightarrow> u8 list" where
  "fs_get_current_dir st = current_directory st"

definition fs_init :: "'a filesystem_scheme \<Rightarrow> 'a filesystem_scheme" where
  "fs_init st =
     (let st = st\<lparr>fs_initialized := False, dir_count := 0, file_count := 0,
            directories := replicate FS_MAX_DIRECTORIES zero_directory,
            entries := replicate FS_MAX_FILES zero_entry\<rparr>;
          st = st\<lparr>directories := (directories st)[0 := (directories st ! 0)\<lparr>dname := [47], dparent := 0\<rparr>]\<rparr>;
          st = fs_init_current_dir (st\<lparr>dir_count := 1\<rparr>)
      in st\<lparr>fs_initialized := True\<rparr>)"

section \<open>Paths\<close>

text \<open>The string after the token that \<open>fs_strtok\<close> cut off is what its static pointer points to.\<close>

definition fs_strtok :: "u8 list option \<Rightarrow> u8 list \<Rightarrow> 'a filesystem_scheme \<Rightarrow> u8 list option \<times> 'a filesystem_scheme" where
  "fs_strtok str delim st =
     (case (case str of None \<Rightarrow> last_token st | Some s \<Rightarrow> Some s) of
        None \<Rightarrow> (None, st)
      | Some s \<Rightarrow>
          let s = dropWhile (\<lambda>c. c \<in> set delim) s in
          if s = [] then (None, st\<lparr>last_token := None\<rparr>)
          else
            let token = takeWhile (\<lambda>c. c \<notin> set delim) s;
                token_end = dropWhile (\<lambda>c. c \<notin> set delim) s
            in (Some token, st\<lparr>last_token := (if token_end \<noteq> [] then Some (tl token_end) else None)\<rparr>))"

fun parse_loop :: "nat \<Rightarrow> u8 list option \<Rightarrow> 'a filesystem_scheme \<Rightarrow> u8 list list \<times> 'a filesystem_scheme" where
  "parse_loop 0 token st = ([], st)"
| "parse_loop (Suc n) None st = ([], st)"
| "parse_loop (Suc n) (Some token) st =
     (let (next_token, st) = fs_strtok None [47] st;
          (parts, st) = parse_loop n next_token st
      in (token # parts, st))"

definition fs_parse_path :: "u8 list \<Rightarrow> 'a filesystem_scheme \<Rightarrow> u8 list list \<times> 'a filesystem_scheme" where
  "fs_parse_path path st =
     (let path_copy = take FS_MAX_PATH_LEN path;
          (token, st) = fs_strtok (Some path_copy) [47] st
      in parse_loop FS_MAX_PATH_LEN token st)"

definition is_root_path :: "u8 list \<Rightarrow> bool" where
  "is_root_path path \<longleftrightarrow> path = [] \<or> path = [47]"

definition find_directory :: "u8 list \<Rightarrow> nat \<Rightarrow> 'a filesystem_scheme \<Rightarrow> nat option" where
  "find_directory name parent st =
     find (\<lambda>k. dname (directories st ! k) = name \<and> dparent (directories st ! k) = parent) [0..<dir_count st]"

fun search_entries :: "nat \<Rightarrow> u8 list \<Rightarrow> nat list \<Rightarrow> 'a filesystem_scheme \<Rightarrow> nat option" where
  "search_entries current_dir part [] st = None"
| "search_entries current_dir part (file_idx # fs) st =
     (if etype (entries st ! file_idx) = FS_TYPE_DIRECTORY \<and> ename (entries st ! file_idx) = part
      then case find_directory part current_dir st of
             Some k \<Rightarrow> Some k
           | None \<Rightarrow> search_entries current_dir part fs st
      else search_entries current_dir part fs st)"

fun walk_parts :: "nat \<Rightarrow> u8 list list \<Rightarrow> 'a filesystem_scheme \<Rightarrow> nat option" where
  "walk_parts current_dir [] st = Some current_dir"
| "walk_parts current_dir (part # parts) st =
     (case search_entries current_dir part (dfiles (directories st ! current_dir)) st of
        None \<Rightarrow> None
      | Some k \<Rightarrow> walk_parts k parts st)"

definition fs_find_parent_dir :: "u8 list \<Rightarrow> 'a filesystem_scheme \<Rightarrow> nat option \<times> 'a filesystem_scheme" where
  "fs_find_parent_dir path st =
     (if is_root_path path then (Some 0, st)
      else let path_copy = take (FS_MAX_PATH_LEN - 1) path;
               (parts, st) = fs_parse_path path_copy st
           in (walk_parts 0 (butlast parts) st, st))"

definition fs_get_filename :: "u8 list \<Rightarrow> 'a filesystem_scheme \<Rightarrow> u8 list \<times> 'a filesystem_scheme" where
  "fs_get_filename path st =
     (let (parts, st) = fs_parse_path path st
      in (if parts \<noteq> [] then take (FS_MAX_FILENAME_LEN - 1) (last parts) else [], st))"

definition fs_find :: "u8 list \<Rightarrow> 'a filesystem_scheme \<Rightarrow> int \<times> 'a filesystem_scheme" where
  "fs_find path st =
     (if is_root_path path then (- 2, st)
      else case fs_find_parent_dir path st of
        (None, st) \<Rightarrow> (- 1, st)
      | (Some parent_dir, st) \<Rightarrow>
          let (name, st) = fs_get_filename path st
          in (case find (\<lambda>file_idx. ename (entries st ! file_idx) = name) (dfiles (directories st ! parent_dir)) of
                Some file_idx \<Rightarrow> int file_idx
              | None \<Rightarrow> - 1, st))"

section \<open>Creation\<close>

definition update_entry_at :: "nat \<Rightarrow> (fs_entry \<Rightarrow> fs_entry) \<Rightarrow> 'a filesystem_scheme \<Rightarrow> 'a filesystem_scheme" where
  "update_entry_at i f st = st\<lparr>entries := (entries st)[i := f (entries st ! i)]\<rparr>"

definition update_directory :: "nat \<Rightarrow> (fs_directory \<Rightarrow> fs_directory) \<Rightarrow> 'a filesystem_scheme \<Rightarrow> 'a filesystem_scheme" where
  "update_directory i f st = st\<lparr>directories := (directories st)[i := f (directories st ! i)]\<rparr>"

text \<open>\<open>fs_mkdir\<close> takes the next entry of the table without looking at its size: when the table is full
  it writes behind it.\<close>

definition fs_mkdir :: "u8 list \<Rightarrow> 'a filesystem_scheme \<Rightarrow> (int \<times> 'a filesystem_scheme) option" where
  "fs_mkdir path st =
     (if \<not> fs_initialized st then Some (- 1, st)
      else let (existing, st) = fs_find path st
      in if existing \<ge> 0 then Some (- 1, st)
      else case fs_find_parent_dir path st of
        (None, st) \<Rightarrow> Some (- 1, st)
      | (Some parent_dir, st) \<Rightarrow>
        if FS_MAX_DIRECTORIES \<le> dir_count st then Some (- 1, st)
        else if FS_MAX_FILES_PER_DIR \<le> length (dfiles (directories st ! parent_dir)) then Some (- 1, st)
        else
          let (dir_name, st) = fs_get_filename path st;
              file_idx = file_count st
          in if FS_MAX_FILES \<le> file_idx then None
             else
               let st = st\<lparr>file_count := Suc file_idx\<rparr>;
                   st = update_entry_at file_idx (\<lambda>e. e\<lparr>ename := dir_name, etype := FS_TYPE_DIRECTORY, esize := 0,
                          eparent := parent_dir, ecreation_time := 0\<rparr>) st;
                   st = update_directory parent_dir (\<lambda>d. d\<lparr>dfiles := dfiles d @ [file_idx]\<rparr>) st;
                   dir_idx = dir_count st;
                   st = st\<lparr>dir_count := Suc dir_idx\<rparr>;
                   st = update_directory dir_idx (\<lambda>d. d\<lparr>dname := dir_name, dparent := parent_dir\<rparr>) st
               in Some (0, st))"

definition fs_create :: "u8 list \<Rightarrow> u32 \<Rightarrow> 'a filesystem_scheme \<Rightarrow> (int \<times> 'a filesystem_scheme) option" where
  "fs_create path sz st =
     (if \<not> fs_initialized st then Some (- 1, st)
      else let (existing, st) = fs_find path st
      in if existing \<ge> 0 then Some (- 1, st)
      else case fs_find_parent_dir path st of
        (None, st) \<Rightarrow> Some (- 1, st)
      | (Some parent_dir, st) \<Rightarrow>
        if FS_MAX_FILES \<le> file_count st then Some (- 1, st)
        else if FS_MAX_FILES_PER_DIR \<le> length (dfiles (directories st ! parent_dir)) then Some (- 1, st)
        else
          let (filename, st) = fs_get_filename path st
          in Option.bind (if 0 < sz then malloc sz st else Some (0, st)) (\<lambda>(data_ptr, st).
             if 0 < sz \<and> data_ptr = 0 then Some (- 1, st)
             else
               let file_idx = file_count st;
                   st = st\<lparr>file_count := Suc file_idx\<rparr>;
                   st = update_entry_at file_idx (\<lambda>e. e\<lparr>ename := filename, etype := FS_TYPE_FILE, esize := sz,
                          data_pointer := data_ptr, eparent := parent_dir, ecreation_time := 0\<rparr>) st;
                   st = update_directory parent_dir (\<lambda>d. d\<lparr>dfiles := dfiles d @ [file_idx]\<rparr>) st
               in Some (0, st)))"

section \<open>Deletion\<close>

text \<open>What \<open>fs_delete\<close> does when all its checks are passed: the first occurrence of the entry in its
  parent's list goes, the entries behind it move down, and the entry's name becomes empty.\<close>

definition unlink_entry :: "nat \<Rightarrow> 'a filesystem_scheme \<Rightarrow> 'a filesystem_scheme" where
  "unlink_entry file_idx st =
     (let parent_dir = eparent (entries st ! file_idx);
          st = update_directory parent_dir (\<lambda>d. d\<lparr>dfiles := remove1 file_idx (dfiles d)\<rparr>) st
      in update_entry_at file_idx (\<lambda>e. e\<lparr>ename := []\<rparr>) st)"

definition fs_delete :: "u8 list \<Rightarrow> 'a filesystem_scheme \<Rightarrow> (int \<times> 'a filesystem_scheme) option" where
  "fs_delete path st =
     (if \<not> fs_initialized st then Some (- 1, st)
      else if is_root_path path then Some (- 1, st)
      else let (found, st) = fs_find path st
      in if found < 0 then Some (- 1, st)
      else
        let file_idx = nat found;
            e = entries st ! file_idx
        in if etype e = FS_TYPE_DIRECTORY
           then case find_directory (ename e) (eparent e) st of
                  None \<Rightarrow> Some (- 1, st)
                | Some dir_idx \<Rightarrow>
                    if dfiles (directories st ! dir_idx) \<noteq> [] then Some (- 1, st)
                    else Some (0, unlink_entry file_idx (update_directory dir_idx (\<lambda>d. d\<lparr>dname := []\<rparr>) st))
           else Option.bind (if data_pointer e \<noteq> 0 then free (data_pointer e) st else Some st) (\<lambda>st.
                Some (0, unlink_entry file_idx st)))"

section \<open>Contents\<close>

definition fs_write :: "u8 list \<Rightarrow> u32 \<Rightarrow> u32 \<Rightarrow> 'a filesystem_scheme \<Rightarrow> (int \<times> 'a filesystem_scheme) option" where
  "fs_write path data sz st =
     (if \<not> fs_initialized st then Some (- 1, st)
      else let (found, st) = fs_find path st
      in if found < 0 then Some (- 1, st)
      else let file_idx = nat found
      in if etype (entries st ! file_idx) \<noteq> FS_TYPE_FILE then Some (- 1, st)
      else
        let e = entries st ! file_idx
        in Option.bind (if data_pointer e \<noteq> 0 \<and> esize e \<noteq> sz
              then map_option (update_entry_at file_idx (\<lambda>e. e\<lparr>data_pointer := 0\<rparr>)) (free (data_pointer e) st)
              else Some st) (\<lambda>st.
           Option.bind (if data_pointer (entries st ! file_idx) = 0
              then map_option (\<lambda>(p, st). (p \<noteq> 0, update_entry_at file_idx (\<lambda>e. e\<lparr>data_pointer := p\<rparr>) st)) (malloc sz st)
              else Some (True, st)) (\<lambda>(ok, st).
           if \<not> ok then Some (- 1, st)
           else
             let st = st\<lparr>lib_mem := memcpy (lib_mem st) (data_pointer (entries st ! file_idx)) data sz\<rparr>
             in Some (0, update_entry_at file_idx (\<lambda>e. e\<lparr>esize := sz\<rparr>) st))))"

definition fs_read :: "u8 list \<Rightarrow> u32 \<Rightarrow> u32 \<Rightarrow> 'a filesystem_scheme \<Rightarrow> int \<times> 'a filesystem_scheme" where
  "fs_read path buf sz st =
     (if \<not> fs_initialized st then (- 1, st)
      else let (found, st) = fs_find path st
      in if found < 0 then (- 1, st)
      else let e = entries st ! nat found
      in if etype e \<noteq> FS_TYPE_FILE then (- 1, st)
      else if data_pointer e = 0 then (0, st)
      else
        let bytes_to_read = (if esize e < sz then esize e else sz)
        in (sint bytes_to_read, st\<lparr>lib_mem := memcpy (lib_mem st) buf (data_pointer e) bytes_to_read\<rparr>))"

definition fs_stat :: "u8 list \<Rightarrow> fs_entry \<Rightarrow> 'a filesystem_scheme \<Rightarrow> int \<times> fs_entry \<times> 'a filesystem_scheme" where
  "fs_stat path info st =
     (if \<not> fs_initialized st then (- 1, info, st)
      else if is_root_path path
      then (0, info\<lparr>ename := [47], etype := FS_TYPE_DIRECTORY, esize := 0, data_pointer := 0, eparent := 0, ecreation_time := 0\<rparr>, st)
      else let (found, st) = fs_find path st
      in if found < 0 then (- 1, info, st) else (0, entries st ! nat found, st))"

section \<open>The current directory\<close>

definition target_path :: "u8 list \<Rightarrow> 'a filesystem_scheme \<Rightarrow> u8 list" where
  "target_path path st =
     (if path \<noteq> [] \<and> hd path = 47 then take (FS_MAX_PATH_LEN - 1) path
      else if current_directory st = [47] then take (FS_MAX_PATH_LEN - 1) (47 # path)
      else if length (current_directory st) < FS_MAX_PATH_LEN - 1
      then take (FS_MAX_PATH_LEN - 1) (current_directory st @ 47 # path)
      else take (FS_MAX_PATH_LEN - 1) (current_directory st))"

text \<open>The part of a path before its last slash.\<close>

definition before_last_slash :: "u8 list \<Rightarrow> u8 list" where
  "before_last_slash s = rev (tl (dropWhile (\<lambda>c. c \<noteq> 47) (rev s)))"

definition fs_change_dir :: "u8 list \<Rightarrow> 'a filesystem_scheme \<Rightarrow> (int \<times> 'a filesystem_scheme) option" where
  "fs_change_dir path st =
     (if \<not> fs_initialized st then Some (- 1, st)
      else let target = target_path path st
      in if path = [46] then Some (0, st)
      else if path = [46, 46]
      then if current_directory st = [47] then Some (0, st)
           else if 47 \<notin> set (current_directory st) then None
           else let s = before_last_slash (current_directory st)
                in Some (0, st\<lparr>current_directory := (if s = [] then [47] else s)\<rparr>)
      else if target = [47] then Some (0, st\<lparr>current_directory := [47]\<rparr>)
      else let (found, st) = fs_find target st
      in if found < 0 then Some (- 1, st)
      else if etype (entries st ! nat found) \<noteq> FS_TYPE_DIRECTORY then Some (- 1, st)
      else Some (0, st\<lparr>current_directory := take FS_MAX_PATH_LEN target\<rparr>))"

section \<open>Copying and moving\<close>

definition fs_copy :: "u8 list \<Rightarrow> u8 list \<Rightarrow> 'a filesystem_scheme \<Rightarrow> (int \<times> 'a filesystem_scheme) option" where
  "fs_copy src_path dest_path st =
     (if \<not> fs_initialized st then Some (- 1, st)
      else let (src, st) = fs_find src_path st
      in if src < 0 then Some (- 1, st)
      else let src_idx = nat src
      in if etype (entries st ! src_idx) \<noteq> FS_TYPE_FILE then Some (- 1, st)
      else let (dest, st) = fs_find dest_path st
      in if dest \<ge> 0 then Some (- 1, st)
      else Option.bind (fs_create dest_path (esize (entries st ! src_idx)) st) (\<lambda>(result, st).
        if result \<noteq> 0 then Some (- 1, st)
        else let e = entries st ! src_idx
        in if data_pointer e \<noteq> 0 \<and> 0 < esize e
        then Option.bind (malloc (esize e) st) (\<lambda>(data, st).
          if data = 0 then map_option (\<lambda>(r, st). (- 1, st)) (fs_delete dest_path st)
          else
            let st = st\<lparr>lib_mem := memcpy (lib_mem st) data (data_pointer e) (esize e)\<rparr>
            in Option.bind (fs_write dest_path data (esize e) st) (\<lambda>(result, st).
               Option.bind (free data st) (\<lambda>st.
               if result \<noteq> 0 then map_option (\<lambda>(r, st). (- 1, st)) (fs_delete dest_path st)
               else Some (0, st))))
        else Some (0, st)))"

definition fs_move :: "u8 list \<Rightarrow> u8 list \<Rightarrow> 'a filesystem_scheme \<Rightarrow> (int \<times> 'a filesystem_scheme) option" where
  "fs_move src_path dest_path st =
     (if \<not> fs_initialized st then Some (- 1, st)
      else Option.bind (fs_copy src_path dest_path st) (\<lambda>(result, st).
        if result \<noteq> 0 then Some (- 1, st)
        else Option.bind (fs_delete src_path st) (\<lambda>(result, st).
          if result \<noteq> 0 then map_option (\<lambda>(r, st). (- 1, st)) (fs_delete dest_path st)
          else Some (0, st))))"

section \<open>Listing and searching\<close>

text \<open>A piece is written to the buffer when it fits with one byte to spare; the first that does not
  ends the listing.\<close>

fun put_pieces :: "nat \<Rightarrow> u8 list list \<Rightarrow> u8 list \<Rightarrow> u8 list \<times> bool" where
  "put_pieces room [] out = (out, True)"
| "put_pieces room (p # ps) out =
     (if room \<le> length out + length p then (out, False) else put_pieces room ps (out @ p))"

function size_loop :: "u32 \<Rightarrow> u8 list" where
  "size_loop sz = (if 0 < sz then (48 + ucast (sz mod 10)) # size_loop (sz div 10) else [])"
  by pat_completeness auto
termination by (relation "measure unat") (auto simp: word_less_nat_alt unat_div)

declare size_loop.simps [simp del]

definition size_text :: "u32 \<Rightarrow> u8 list" where
  "size_text sz = (if sz = 0 then [48] else rev (size_loop sz))"

definition entry_pieces :: "fs_entry \<Rightarrow> u8 list list" where
  "entry_pieces e =
     [ename e, bytes_of '' ('',
      bytes_of (if etype e = FS_TYPE_DIRECTORY then ''DIR'' else ''FILE''),
      bytes_of '') size: '', size_text (esize e), bytes_of '' bytes'' @ [10]]"

fun list_entries :: "nat \<Rightarrow> nat list \<Rightarrow> u8 list \<Rightarrow> 'a filesystem_scheme \<Rightarrow> u8 list" where
  "list_entries room [] out st = out"
| "list_entries room (i # is) out st =
     (let (out, more) = put_pieces room (entry_pieces (entries st ! i)) out
      in if more then list_entries room is out st else out)"

text \<open>The result and the text left in the buffer, which is terminated when a byte is left for it.\<close>

definition fs_list_dir :: "u8 list \<Rightarrow> u32 \<Rightarrow> 'a filesystem_scheme \<Rightarrow> int \<times> u8 list \<times> 'a filesystem_scheme" where
  "fs_list_dir path buffer_size st =
     (if \<not> fs_initialized st then (- 1, [], st)
      else
        let (dir_idx, st) =
          (if is_root_path path then (Some 0, st)
           else let (found, st) = fs_find path st
                in if found < 0 then (None, st)
                   else let e = entries st ! nat found
                        in if etype e \<noteq> FS_TYPE_DIRECTORY then (None, st)
                           else (find_directory (ename e) (eparent e) st, st))
        in case dir_idx of
             None \<Rightarrow> (- 1, [], st)
           | Some d \<Rightarrow>
               let out = list_entries (unat (buffer_size - 1)) (dfiles (directories st ! d)) [] st
               in (int (length out), out, st))"

text \<open>\<open>snprintf\<close> of this C library is a stub: it writes nothing and returns 0.\<close>

definition snprintf_array :: "u8 list \<Rightarrow> int \<times> u8 list" where
  "snprintf_array str = (0, str)"

definition contains :: "u8 list \<Rightarrow> u8 list \<Rightarrow> bool" where
  "contains name pattern \<longleftrightarrow> (\<exists>i \<in> set [0..<Suc (length name)]. take (length pattern) (drop i name) = pattern)"

fun find_loop :: "u8 list \<Rightarrow> u32 \<Rightarrow> nat list \<Rightarrow> u32 \<Rightarrow> u8 list \<Rightarrow> nat \<Rightarrow> 'a filesystem_scheme \<Rightarrow> nat \<times> u8 list" where
  "find_loop name buffer_size [] offset results found st = (found, results)"
| "find_loop name buffer_size (i # is) offset results found st =
     (if ename (entries st ! i) \<noteq> [] \<and> contains (ename (entries st ! i)) name
      then
        let (written, results) = snprintf_array results
        in if written < 0 \<or> buffer_size - offset \<le> word_of_int written then (found, results)
           else find_loop name buffer_size is (offset + word_of_int written) results (Suc found) st
      else find_loop name buffer_size is offset results found st)"

definition fs_find_by_name :: "u8 list \<Rightarrow> u32 \<Rightarrow> 'a filesystem_scheme \<Rightarrow> int \<times> u8 list" where
  "fs_find_by_name name buffer_size st =
     (if \<not> fs_initialized st then (- 1, [])
      else
        let (found, results) = find_loop name buffer_size [0..<file_count st] 0 [] 0 st
        in (int found, if found = 0 then take (unat buffer_size) (bytes_of ''No files found matching pattern'' @ [10]) else results))"

definition fs_total_size :: "'a filesystem_scheme \<Rightarrow> u32" where
  "fs_total_size st =
     fold (\<lambda>i total. if ename (entries st ! i) \<noteq> [] \<and> etype (entries st ! i) = FS_TYPE_FILE
        then total + esize (entries st ! i) else total) [0..<file_count st] 0"

end
