(* ===== verification/Syscall.thy ===== *)
theory Syscall
  imports FileSystem Heap Interrupts
begin

text \<open>
  System calls (\<open>kernel/syscall.c\<close>, \<open>kernel/syscall_wrappers.c\<close>, \<open>include/syscall.h\<close>): the
  dispatcher behind interrupt 0x80, the calls it leads to, and the wrappers that raise the interrupt.
  The state puts the components together over one byte memory: \<open>get_heap\<close> and \<open>get_fs\<close> hand a
  component the memory, \<open>put_heap\<close> and \<open>put_fs\<close> take it back. Values of type \<open>int32_t\<close> are the
  32-bit words that hold them, strings are read from memory up to their NUL. The debugging output is
  left out. Not the program's, and so in the parameter \<open>cpu\<close>, are the bytes of an \<open>fs_entry_t\<close> as the
  compiler lays it out, the contents of an uninitialised local variable, and the wait of the \<open>hlt\<close>
  instruction for the next interrupt, which is \<open>None\<close> when none can come.
\<close>

record system =
  memory :: mem
  sys_serial :: serial
  sys_interrupts :: interrupts
  sys_heap :: heap
  sys_fs :: filesystem
  sys_ticks :: u32
  current_errno :: u32
  syscall_count :: "u32 list"
  total_syscalls :: u32

record cpu =
  entry_image :: "fs_entry \<Rightarrow> u8 list"
  uninitialised :: fs_entry
  hlt :: "system \<Rightarrow> system option"

definition SYS_EXIT :: u32 where "SYS_EXIT = 0"
definition SYS_READ :: u32 where "SYS_READ = 1"
definition SYS_WRITE :: u32 where "SYS_WRITE = 2"
definition SYS_OPEN :: u32 where "SYS_OPEN = 3"
definition SYS_CLOSE :: u32 where "SYS_CLOSE = 4"
definition SYS_MALLOC :: u32 where "SYS_MALLOC = 5"
definition SYS_FREE :: u32 where "SYS_FREE = 6"
definition SYS_GETPID :: u32 where "SYS_GETPID = 7"
definition SYS_SLEEP :: u32 where "SYS_SLEEP = 8"
definition SYS_CHDIR :: u32 where "SYS_CHDIR = 13"
definition SYS_GETCWD :: u32 where "SYS_GETCWD = 14"
definition SYS_MKDIR :: u32 where "SYS_MKDIR = 15"
definition SYS_RMDIR :: u32 where "SYS_RMDIR = 16"
definition SYS_UNLINK :: u32 where "SYS_UNLINK = 17"
definition SYS_STAT :: u32 where "SYS_STAT = 18"
definition SYS_TIME :: u32 where "SYS_TIME = 19"
definition SYS_MAX :: u32 where "SYS_MAX = 30"

definition STDIN_FILENO :: u32 where "STDIN_FILENO = 0"
definition STDOUT_FILENO :: u32 where "STDOUT_FILENO = 1"
definition STDERR_FILENO :: u32 where "STDERR_FILENO = 2"

definition ENOENT :: u32 where "ENOENT = 2"
definition EBADF :: u32 where "EBADF = 9"
definition EAGAIN :: u32 where "EAGAIN = 11"
definition ENOMEM :: u32 where "ENOMEM = 12"
definition EFAULT :: u32 where "EFAULT = 14"
definition EEXIST :: u32 where "EEXIST = 17"
definition EINVAL :: u32 where "EINVAL = 22"
definition ERANGE :: u32 where "ERANGE = 34"

lemmas syscall_numbers = SYS_EXIT_def SYS_READ_def SYS_WRITE_def SYS_OPEN_def SYS_CLOSE_def SYS_MALLOC_def SYS_FREE_def
  SYS_GETPID_def SYS_SLEEP_def SYS_CHDIR_def SYS_GETCWD_def SYS_MKDIR_def SYS_RMDIR_def SYS_UNLINK_def SYS_STAT_def
  SYS_TIME_def SYS_MAX_def STDIN_FILENO_def STDOUT_FILENO_def STDERR_FILENO_def

lemmas error_numbers = ENOENT_def EBADF_def EAGAIN_def ENOMEM_def EFAULT_def EEXIST_def EINVAL_def ERANGE_def

section \<open>The components over one memory\<close>

definition get_heap :: "system \<Rightarrow> heap" where "get_heap st = (sys_heap st)\<lparr>mem := memory st\<rparr>"
definition put_heap :: "heap \<Rightarrow> system \<Rightarrow> system" where "put_heap h st = st\<lparr>sys_heap := h, memory := mem h\<rparr>"
definition get_fs :: "system \<Rightarrow> filesystem" where "get_fs st = (sys_fs st)\<lparr>lib_mem := memory st\<rparr>"
definition put_fs :: "filesystem \<Rightarrow> system \<Rightarrow> system" where "put_fs f st = st\<lparr>sys_fs := f, memory := lib_mem f\<rparr>"

text \<open>A path is a C string of less than 256 bytes.\<close>

definition path_arg :: "u32 \<Rightarrow> mem \<Rightarrow> u8 list option" where
  "path_arg p m = Option.bind (strlen m p) (\<lambda>n.
     if unat n < FS_MAX_PATH_LEN then Some (map (\<lambda>i. m (p + of_nat i)) [0..<unat n]) else None)"

definition store_bytes :: "u32 \<Rightarrow> u8 list \<Rightarrow> mem \<Rightarrow> mem" where
  "store_bytes p bs m = fold (\<lambda>i m. m(p + of_nat i := bs ! i)) [0..<length bs] m"

section \<open>The calls\<close>

definition kernel_exit :: "u32 \<Rightarrow> system \<Rightarrow> u32 \<times> system" where
  "kernel_exit status st = (status, st)"

definition kernel_read :: "u32 \<Rightarrow> u32 \<Rightarrow> u32 \<Rightarrow> system \<Rightarrow> u32 \<times> system" where
  "kernel_read fd buf count st =
     (if buf = 0 then (- 1, st\<lparr>current_errno := EFAULT\<rparr>)
      else if fd = STDIN_FILENO then (0, st\<lparr>current_errno := EAGAIN\<rparr>)
      else (- 1, st\<lparr>current_errno := EBADF\<rparr>))"

fun write_chars :: "u32 \<Rightarrow> nat \<Rightarrow> mem \<Rightarrow> u32 \<Rightarrow> serial \<Rightarrow> (u32 \<times> serial) option" where
  "write_chars str 0 m written s = Some (written, s)"
| "write_chars str (Suc k) m written s =
     (if m (str + written) = 0 then Some (written, s)
      else Option.bind (serial_write (m (str + written)) s) (write_chars str k m (written + 1)))"

definition kernel_write :: "u32 \<Rightarrow> u32 \<Rightarrow> u32 \<Rightarrow> system \<Rightarrow> (u32 \<times> system) option" where
  "kernel_write fd buf count st =
     (if buf = 0 then Some (- 1, st\<lparr>current_errno := EFAULT\<rparr>)
      else if fd = STDOUT_FILENO \<or> fd = STDERR_FILENO
      then map_option (\<lambda>(written, s). (written, st\<lparr>sys_serial := s\<rparr>)) (write_chars buf (unat count) (memory st) 0 (sys_serial st))
      else Some (- 1, st\<lparr>current_errno := EBADF\<rparr>))"

definition kernel_open :: "u32 \<Rightarrow> u32 \<Rightarrow> system \<Rightarrow> (u32 \<times> system) option" where
  "kernel_open pathname flags st =
     (if pathname = 0 then Some (- 1, st\<lparr>current_errno := EFAULT\<rparr>)
      else map_option (\<lambda>path.
        let (found, f) = fs_find path (get_fs st); st = put_fs f st
        in if found \<ge> 0 then (3, st) else (- 1, st\<lparr>current_errno := ENOENT\<rparr>)) (path_arg pathname (memory st)))"

definition kernel_close :: "u32 \<Rightarrow> system \<Rightarrow> u32 \<times> system" where
  "kernel_close fd st =
     (if sint fd < 0 then (- 1, st\<lparr>current_errno := EBADF\<rparr>)
      else if sint fd \<le> 2 then (- 1, st\<lparr>current_errno := EBADF\<rparr>)
      else (0, st))"

definition kernel_malloc :: "u32 \<Rightarrow> system \<Rightarrow> (u32 \<times> system) option" where
  "kernel_malloc sz st =
     (if sz = 0 then Some (0, st\<lparr>current_errno := EINVAL\<rparr>)
      else map_option (\<lambda>(ptr, h).
        let st = put_heap h st
        in (ptr, if ptr = 0 then st\<lparr>current_errno := ENOMEM\<rparr> else st)) (heap_malloc sz (get_heap st)))"

definition kernel_free :: "u32 \<Rightarrow> system \<Rightarrow> u32 \<times> system" where
  "kernel_free ptr st =
     (if ptr = 0 then (- 1, st\<lparr>current_errno := EINVAL\<rparr>)
      else (0, put_heap (heap_free ptr (get_heap st)) st))"

definition kernel_getpid :: "system \<Rightarrow> u32 \<times> system" where
  "kernel_getpid st = (1, st)"

text \<open>The busy wait: each round halts until the next interrupt.\<close>

partial_function (option) halt_until :: "(system \<Rightarrow> system option) \<Rightarrow> u32 \<Rightarrow> system \<Rightarrow> system option" where
  "halt_until halt target st =
     (if sys_ticks st < target then Option.bind (halt st) (halt_until halt target) else Some st)"

declare halt_until.simps [code]

definition kernel_sleep :: "cpu \<Rightarrow> u32 \<Rightarrow> system \<Rightarrow> (u32 \<times> system) option" where
  "kernel_sleep c seconds st =
     (if seconds = 0 then Some (0, st)
      else let start_time = sys_ticks st; target_time = start_time + seconds * 1000
           in map_option (Pair 0) (halt_until (hlt c) target_time st))"

definition kernel_chdir :: "u32 \<Rightarrow> system \<Rightarrow> (u32 \<times> system) option" where
  "kernel_chdir path st =
     (if path = 0 then Some (- 1, st\<lparr>current_errno := EFAULT\<rparr>)
      else Option.bind (path_arg path (memory st)) (\<lambda>path. map_option (\<lambda>(result, f).
        let st = put_fs f st
        in if result \<noteq> 0 then (- 1, st\<lparr>current_errno := ENOENT\<rparr>) else (0, st)) (fs_change_dir path (get_fs st))))"

definition kernel_getcwd :: "u32 \<Rightarrow> u32 \<Rightarrow> system \<Rightarrow> u32 \<times> system" where
  "kernel_getcwd buf sz st =
     (if buf = 0 \<or> sz = 0 then (- 1, st\<lparr>current_errno := EFAULT\<rparr>)
      else let current_dir = fs_get_current_dir (sys_fs st); len = length current_dir
      in if unat sz \<le> len then (- 1, st\<lparr>current_errno := ERANGE\<rparr>)
      else let m = store_bytes buf (current_dir @ replicate (unat sz - len) 0) (memory st)
      in (0, st\<lparr>memory := m(buf + (sz - 1) := 0)\<rparr>))"

definition kernel_mkdir :: "u32 \<Rightarrow> system \<Rightarrow> (u32 \<times> system) option" where
  "kernel_mkdir pathname st =
     (if pathname = 0 then Some (- 1, st\<lparr>current_errno := EFAULT\<rparr>)
      else Option.bind (path_arg pathname (memory st)) (\<lambda>path. map_option (\<lambda>(result, f).
        let st = put_fs f st
        in if result \<noteq> 0 then (- 1, st\<lparr>current_errno := EEXIST\<rparr>) else (0, st)) (fs_mkdir path (get_fs st))))"

definition kernel_rmdir :: "u32 \<Rightarrow> system \<Rightarrow> (u32 \<times> system) option" where
  "kernel_rmdir pathname st =
     (if pathname = 0 then Some (- 1, st\<lparr>current_errno := EFAULT\<rparr>)
      else Option.bind (path_arg pathname (memory st)) (\<lambda>path. map_option (\<lambda>(result, f).
        let st = put_fs f st
        in if result \<noteq> 0 then (- 1, st\<lparr>current_errno := ENOENT\<rparr>) else (0, st)) (fs_delete path (get_fs st))))"

definition kernel_unlink :: "u32 \<Rightarrow> system \<Rightarrow> (u32 \<times> system) option" where
  "kernel_unlink pathname st =
     (if pathname = 0 then Some (- 1, st\<lparr>current_errno := EFAULT\<rparr>)
      else Option.bind (path_arg pathname (memory st)) (\<lambda>path. map_option (\<lambda>(result, f).
        let st = put_fs f st
        in if result \<noteq> 0 then (- 1, st\<lparr>current_errno := ENOENT\<rparr>) else (0, st)) (fs_delete path (get_fs st))))"

definition kernel_stat :: "cpu \<Rightarrow> u32 \<Rightarrow> u32 \<Rightarrow> system \<Rightarrow> (u32 \<times> system) option" where
  "kernel_stat c pathname statbuf st =
     (if pathname = 0 \<or> statbuf = 0 then Some (- 1, st\<lparr>current_errno := EFAULT\<rparr>)
      else map_option (\<lambda>path.
        let (result, info, f) = fs_stat path (uninitialised c) (get_fs st); st = put_fs f st
        in if result \<noteq> 0 then (- 1, st\<lparr>current_errno := ENOENT\<rparr>)
           else (0, st\<lparr>memory := store_bytes statbuf (entry_image c info) (memory st)\<rparr>)) (path_arg pathname (memory st)))"

definition kernel_time :: "system \<Rightarrow> u32 \<times> system" where
  "kernel_time st = (sys_ticks st div 1000, st)"

definition get_errno :: "system \<Rightarrow> u32" where
  "get_errno st = current_errno st"

section \<open>Dispatch\<close>

definition dispatch :: "cpu \<Rightarrow> registers \<Rightarrow> system \<Rightarrow> (u32 \<times> system) option" where
  "dispatch c regs st =
     (let syscall_no = reg_eax regs; arg1 = reg_ebx regs; arg2 = reg_ecx regs; arg3 = reg_edx regs
      in if syscall_no = SYS_EXIT then Some (kernel_exit arg1 st)
      else if syscall_no = SYS_READ then Some (kernel_read arg1 arg2 arg3 st)
      else if syscall_no = SYS_WRITE then kernel_write arg1 arg2 arg3 st
      else if syscall_no = SYS_OPEN then kernel_open arg1 arg2 st
      else if syscall_no = SYS_CLOSE then Some (kernel_close arg1 st)
      else if syscall_no = SYS_MALLOC then kernel_malloc arg1 st
      else if syscall_no = SYS_FREE then Some (kernel_free arg1 st)
      else if syscall_no = SYS_GETPID then Some (kernel_getpid st)
      else if syscall_no = SYS_SLEEP then kernel_sleep c arg1 st
      else if syscall_no = SYS_CHDIR then kernel_chdir arg1 st
      else if syscall_no = SYS_GETCWD then Some (kernel_getcwd arg1 arg2 st)
      else if syscall_no = SYS_MKDIR then kernel_mkdir arg1 st
      else if syscall_no = SYS_RMDIR then kernel_rmdir arg1 st
      else if syscall_no = SYS_UNLINK then kernel_unlink arg1 st
      else if syscall_no = SYS_STAT then kernel_stat c arg1 arg2 st
      else if syscall_no = SYS_TIME then Some (kernel_time st)
      else Some (- 1, st\<lparr>current_errno := EINVAL\<rparr>))"

text \<open>The handler gets the registers by value: what it stores in \<open>regs.eax\<close> is its own copy, which is
  gone when it returns.\<close>

definition count_call :: "u32 \<Rightarrow> system \<Rightarrow> system" where
  "count_call syscall_no st =
     (let st = st\<lparr>total_syscalls := total_syscalls st + 1\<rparr>
      in if syscall_no < SYS_MAX
         then st\<lparr>syscall_count := (syscall_count st)[unat syscall_no := syscall_count st ! unat syscall_no + 1]\<rparr>
         else st)"

definition syscall_handler :: "cpu \<Rightarrow> registers \<Rightarrow> system \<Rightarrow> system option" where
  "syscall_handler c regs st =
     map_option (\<lambda>(result, st). let regs = regs\<lparr>reg_eax := result\<rparr> in st)
       (dispatch c regs ((count_call (reg_eax regs) st)\<lparr>current_errno := 0\<rparr>))"

definition syscall_init :: "u32 \<Rightarrow> system \<Rightarrow> system" where
  "syscall_init isr128 st =
     st\<lparr>sys_interrupts := register_interrupt_handler 128 Syscall_handler (idt_set_gate 128 isr128 0x08 0xEE (sys_interrupts st))\<rparr>"

section \<open>The interrupt and the wrappers\<close>

text \<open>Interrupt 0x80: the stub saves the registers and passes them to \<open>isr_handler\<close>, which calls the
  registered handler with a copy; then the stub restores the registers it has saved. No other handler is
  registered for this vector.\<close>

definition int_0x80 :: "cpu \<Rightarrow> registers \<Rightarrow> system \<Rightarrow> (registers \<times> system) option" where
  "int_0x80 c regs st =
     (case interrupt_handlers (sys_interrupts st) 128 of
        Some Syscall_handler \<Rightarrow> map_option (Pair regs) (syscall_handler c (regs\<lparr>int_no := 128, err_code := 0\<rparr>) st)
      | Some _ \<Rightarrow> None
      | None \<Rightarrow> Some (regs, st))"

definition SYSCALL0 :: "u32 \<Rightarrow> cpu \<Rightarrow> registers \<Rightarrow> system \<Rightarrow> (u32 \<times> system) option" where
  "SYSCALL0 number c regs st =
     map_option (\<lambda>(regs, st). (reg_eax regs, st)) (int_0x80 c (regs\<lparr>reg_eax := number\<rparr>) st)"

definition SYSCALL1 :: "u32 \<Rightarrow> cpu \<Rightarrow> registers \<Rightarrow> u32 \<Rightarrow> system \<Rightarrow> (u32 \<times> system) option" where
  "SYSCALL1 number c regs arg1 st =
     map_option (\<lambda>(regs, st). (reg_eax regs, st)) (int_0x80 c (regs\<lparr>reg_eax := number, reg_ebx := arg1\<rparr>) st)"

definition SYSCALL2 :: "u32 \<Rightarrow> cpu \<Rightarrow> registers \<Rightarrow> u32 \<Rightarrow> u32 \<Rightarrow> system \<Rightarrow> (u32 \<times> system) option" where
  "SYSCALL2 number c regs arg1 arg2 st =
     map_option (\<lambda>(regs, st). (reg_eax regs, st))
       (int_0x80 c (regs\<lparr>reg_eax := number, reg_ebx := arg1, reg_ecx := arg2\<rparr>) st)"

definition SYSCALL3 :: "u32 \<Rightarrow> cpu \<Rightarrow> registers \<Rightarrow> u32 \<Rightarrow> u32 \<Rightarrow> u32 \<Rightarrow> system \<Rightarrow> (u32 \<times> system) option" where
  "SYSCALL3 number c regs arg1 arg2 arg3 st =
     map_option (\<lambda>(regs, st). (reg_eax regs, st))
       (int_0x80 c (regs\<lparr>reg_eax := number, reg_ebx := arg1, reg_ecx := arg2, reg_edx := arg3\<rparr>) st)"

definition sys_exit :: "cpu \<Rightarrow> registers \<Rightarrow> u32 \<Rightarrow> system \<Rightarrow> (u32 \<times> system) option" where
  "sys_exit = SYSCALL1 SYS_EXIT"

definition sys_read :: "cpu \<Rightarrow> registers \<Rightarrow> u32 \<Rightarrow> u32 \<Rightarrow> u32 \<Rightarrow> system \<Rightarrow> (u32 \<times> system) option" where
  "sys_read = SYSCALL3 SYS_READ"

definition sys_write :: "cpu \<Rightarrow> registers \<Rightarrow> u32 \<Rightarrow> u32 \<Rightarrow> u32 \<Rightarrow> system \<Rightarrow> (u32 \<times> system) option" where
  "sys_write = SYSCALL3 SYS_WRITE"

definition sys_open :: "cpu \<Rightarrow> registers \<Rightarrow> u32 \<Rightarrow> u32 \<Rightarrow> system \<Rightarrow> (u32 \<times> system) option" where
  "sys_open = SYSCALL2 SYS_OPEN"

definition sys_close :: "cpu \<Rightarrow> registers \<Rightarrow> u32 \<Rightarrow> system \<Rightarrow> (u32 \<times> system) option" where
  "sys_close = SYSCALL1 SYS_CLOSE"

definition sys_malloc :: "cpu \<Rightarrow> registers \<Rightarrow> u32 \<Rightarrow> system \<Rightarrow> (u32 \<times> system) option" where
  "sys_malloc c regs sz st =
     map_option (\<lambda>(regs, st). (reg_eax regs, st)) (int_0x80 c (regs\<lparr>reg_eax := SYS_MALLOC, reg_ebx := sz\<rparr>) st)"

definition sys_free :: "cpu \<Rightarrow> registers \<Rightarrow> u32 \<Rightarrow> system \<Rightarrow> (u32 \<times> system) option" where
  "sys_free = SYSCALL1 SYS_FREE"

definition sys_getpid :: "cpu \<Rightarrow> registers \<Rightarrow> system \<Rightarrow> (u32 \<times> system) option" where
  "sys_getpid = SYSCALL0 SYS_GETPID"

definition sys_sleep :: "cpu \<Rightarrow> registers \<Rightarrow> u32 \<Rightarrow> system \<Rightarrow> (u32 \<times> system) option" where
  "sys_sleep = SYSCALL1 SYS_SLEEP"

definition sys_chdir :: "cpu \<Rightarrow> registers \<Rightarrow> u32 \<Rightarrow> system \<Rightarrow> (u32 \<times> system) option" where
  "sys_chdir = SYSCALL1 SYS_CHDIR"

definition sys_getcwd :: "cpu \<Rightarrow> registers \<Rightarrow> u32 \<Rightarrow> u32 \<Rightarrow> system \<Rightarrow> (u32 \<times> system) option" where
  "sys_getcwd = SYSCALL2 SYS_GETCWD"

definition sys_mkdir :: "cpu \<Rightarrow> registers \<Rightarrow> u32 \<Rightarrow> system \<Rightarrow> (u32 \<times> system) option" where
  "sys_mkdir = SYSCALL1 SYS_MKDIR"

definition sys_rmdir :: "cpu \<Rightarrow> registers \<Rightarrow> u32 \<Rightarrow> system \<Rightarrow> (u32 \<times> system) option" where
  "sys_rmdir = SYSCALL1 SYS_RMDIR"

definition sys_unlink :: "cpu \<Rightarrow> registers \<Rightarrow> u32 \<Rightarrow> system \<Rightarrow> (u32 \<times> system) option" where
  "sys_unlink = SYSCALL1 SYS_UNLINK"

definition sys_stat :: "cpu \<Rightarrow> registers \<Rightarrow> u32 \<Rightarrow> u32 \<Rightarrow> system \<Rightarrow> (u32 \<times> system) option" where
  "sys_stat = SYSCALL2 SYS_STAT"

definition sys_time :: "cpu \<Rightarrow> registers \<Rightarrow> system \<Rightarrow> (u32 \<times> system) option" where
  "sys_time = SYSCALL0 SYS_TIME"

text \<open>The demonstration calls, with the addresses of the message and of the local buffer.\<close>

definition test_system_calls :: "cpu \<Rightarrow> registers \<Rightarrow> u32 \<Rightarrow> u32 \<Rightarrow> system \<Rightarrow> system option" where
  "test_system_calls c regs msg cwd st =
     Option.bind (sys_getpid c regs st) (\<lambda>(pid, st).
     Option.bind (sys_write c regs STDOUT_FILENO msg 25 st) (\<lambda>(_, st).
     Option.bind (sys_malloc c regs 1024 st) (\<lambda>(ptr, st).
     Option.bind (if ptr \<noteq> 0 then sys_free c regs ptr st else Some (0, st)) (\<lambda>(_, st).
     Option.bind (sys_time c regs st) (\<lambda>(current_time, st).
     map_option snd (sys_getcwd c regs cwd 256 st))))))"

end
