(* ===== verification/FsLookup.thy ===== *)
theory FsLookup
  imports FileSystem LibcHeap
begin

text \<open>
  Path lookup in the file system: \<open>tokens\<close> is the list of a path's components, and \<open>lookup\<close> the
  result of \<open>fs_find\<close> over the two tables. \<open>fs_wf\<close> is the well-formedness of the tables that all
  operations keep (theory FsProps).
\<close>

section \<open>Components of a path\<close>

function tokens :: "u8 list \<Rightarrow> u8 list list" where
  "tokens s =
     (if dropWhile (\<lambda>c. c = 47) s = [] then []
      else takeWhile (\<lambda>c. c \<noteq> 47) (dropWhile (\<lambda>c. c = 47) s)
        # tokens (dropWhile (\<lambda>c. c \<noteq> 47) (dropWhile (\<lambda>c. c = 47) s)))"
  by pat_completeness auto
termination
proof (relation "measure length")
  fix s :: "u8 list"
  assume "dropWhile (\<lambda>c. c = 47) s \<noteq> []"
  then obtain c cs where c: "dropWhile (\<lambda>c. c = 47) s = c # cs" "c \<noteq> 47"
    by (metis (mono_tags, lifting) hd_dropWhile list.exhaust_sel)
  have "length (dropWhile (\<lambda>c. c \<noteq> 47) cs) \<le> length cs" by (rule length_dropWhile_le)
  also have "Suc (length cs) \<le> length s" using length_dropWhile_le [of "\<lambda>c. c = 47" s] c(1) by simp
  finally show "(dropWhile (\<lambda>c. c \<noteq> 47) (dropWhile (\<lambda>c. c = 47) s), s) \<in> measure length"
    using c by simp
qed simp

declare tokens.simps [simp del]

lemma tokens_ok: "t \<in> set (tokens s) \<Longrightarrow> t \<noteq> [] \<and> 47 \<notin> set t"
proof (induction s rule: tokens.induct)
  case (1 s)
  show ?case
  proof (cases "dropWhile (\<lambda>c. c = 47) s = []")
    case True
    then show ?thesis using 1 by (simp add: tokens.simps [of s])
  next
    case False
    have "takeWhile (\<lambda>c. c \<noteq> 47) (dropWhile (\<lambda>c. c = 47) s) \<noteq> []"
      using hd_dropWhile [OF False] False by (cases "dropWhile (\<lambda>c. c = 47) s") auto
    moreover have "47 \<notin> set (takeWhile (\<lambda>c. c \<noteq> 47) (dropWhile (\<lambda>c. c = 47) s))"
      by (auto dest: set_takeWhileD)
    moreover have "tokens s = takeWhile (\<lambda>c. c \<noteq> 47) (dropWhile (\<lambda>c. c = 47) s)
        # tokens (dropWhile (\<lambda>c. c \<noteq> 47) (dropWhile (\<lambda>c. c = 47) s))"
      using False by (subst tokens.simps) (simp only: if_False)
    ultimately show ?thesis using "1.IH" [OF False] "1.prems" by (metis set_ConsD)
  qed
qed

lemma length_tokens: "length (tokens s) \<le> length s"
proof (induction s rule: tokens.induct)
  case (1 s)
  show ?case
  proof (cases "dropWhile (\<lambda>c. c = 47) s = []")
    case False
    then obtain c cs where c: "dropWhile (\<lambda>c. c = 47) s = c # cs" "c \<noteq> 47"
      by (metis (mono_tags, lifting) hd_dropWhile list.exhaust_sel)
    have "length (tokens (dropWhile (\<lambda>c. c \<noteq> 47) cs)) \<le> length cs"
      using "1" [OF False] c length_dropWhile_le [of "\<lambda>c. c \<noteq> 47" cs] by simp
    moreover have "Suc (length cs) \<le> length s" using length_dropWhile_le [of "\<lambda>c. c = 47" s] c(1) by simp
    ultimately show ?thesis using False c by (simp add: tokens.simps [of s])
  qed (simp add: tokens.simps [of s])
qed

lemma tokens_skip: "tokens (47 # s) = tokens s"
  by (subst (1 2) tokens.simps) simp

lemma tokens_Nil [simp]: "tokens [] = []"
  by (subst tokens.simps) simp

section \<open>Parsing\<close>

abbreviation parsed :: "'a filesystem_scheme \<Rightarrow> 'a filesystem_scheme" where
  "parsed st \<equiv> st\<lparr>last_token := None\<rparr>"

lemma strtok_next: "last_token st = Some r \<Longrightarrow> fs_strtok None delim st = fs_strtok (Some r) delim st"
  by (simp add: fs_strtok_def)

lemma parse_loop_tokens:
  "length (tokens s) \<le> n \<Longrightarrow>
   (case fs_strtok (Some s) [47] st of (token, st1) \<Rightarrow> parse_loop n token st1) = (tokens s, parsed st)"
proof (induction n arbitrary: s st)
  case 0
  then have e: "dropWhile (\<lambda>c. c = 47) s = []" by (subst (asm) tokens.simps) (auto split: if_splits)
  then have "tokens s = []" by (subst tokens.simps) simp
  then show ?case using e by (simp add: fs_strtok_def)
next
  case (Suc n)
  define w where "w = dropWhile (\<lambda>c. c = 47) s"
  show ?case
  proof (cases "w = []")
    case True
    then have "tokens s = []" by (subst tokens.simps) (simp add: w_def)
    then show ?thesis using True by (simp add: fs_strtok_def w_def)
  next
    case False
    define te where "te = dropWhile (\<lambda>c. c \<noteq> 47) w"
    have t: "tokens s = takeWhile (\<lambda>c. c \<noteq> 47) w # tokens te"
      using False by (subst tokens.simps) (simp add: w_def te_def)
    define st1 where "st1 = st\<lparr>last_token := (if te \<noteq> [] then Some (tl te) else None)\<rparr>"
    have tok: "fs_strtok (Some s) [47] st = (Some (takeWhile (\<lambda>c. c \<noteq> 47) w), st1)"
      using False by (simp add: fs_strtok_def w_def te_def st1_def Let_def)
    have "(case fs_strtok None [47] st1 of (token, st2) \<Rightarrow> parse_loop n token st2) = (tokens te, parsed st)"
    proof (cases te)
      case Nil
      then have "fs_strtok None [47] st1 = (None, parsed st)" by (simp add: fs_strtok_def st1_def)
      moreover have "parse_loop n None st' = ([], st')" for st' :: "'a filesystem_scheme" by (cases n) simp_all
      ultimately show ?thesis by (simp add: Nil)
    next
      case (Cons x r)
      then have "x = 47" unfolding te_def by (metis (mono_tags, lifting) hd_dropWhile list.distinct(1) list.sel(1))
      then have te: "tokens te = tokens r" by (simp add: Cons tokens_skip)
      have "fs_strtok None [47] st1 = fs_strtok (Some r) [47] st1"
        by (rule strtok_next) (simp add: st1_def Cons)
      then show ?thesis using Suc.IH [of r st1] Suc.prems by (simp add: t te st1_def)
    qed
    then show ?thesis unfolding tok t by (simp add: split_beta)
  qed
qed

lemma fs_parse_path_tokens: "fs_parse_path path st = (tokens (take 256 path), parsed st)"
proof -
  have "length (tokens (take 256 path)) \<le> 256" using length_tokens [of "take 256 path"] by simp
  from parse_loop_tokens [OF this, of st] show ?thesis
    by (simp add: fs_parse_path_def FS_MAX_PATH_LEN_def Let_def)
qed

section \<open>Lookup\<close>

definition parts_of :: "u8 list \<Rightarrow> u8 list list" where
  "parts_of path = butlast (tokens (take 255 path))"

definition leaf_of :: "u8 list \<Rightarrow> u8 list" where
  "leaf_of path = (let ts = tokens (take 256 path) in if ts \<noteq> [] then take 31 (last ts) else [])"

definition parent_of :: "u8 list \<Rightarrow> 'a filesystem_scheme \<Rightarrow> nat option" where
  "parent_of path st = (if is_root_path path then Some 0 else walk_parts 0 (parts_of path) st)"

definition find_in :: "nat \<Rightarrow> u8 list \<Rightarrow> 'a filesystem_scheme \<Rightarrow> nat option" where
  "find_in d name st = find (\<lambda>i. ename (entries st ! i) = name) (dfiles (directories st ! d))"

definition lookup :: "u8 list \<Rightarrow> 'a filesystem_scheme \<Rightarrow> nat option" where
  "lookup path st = Option.bind (parent_of path st) (\<lambda>d. find_in d (leaf_of path) st)"

text \<open>A component of a state does not depend on \<open>last_token\<close>.\<close>

lemma find_directory_parsed [simp]: "find_directory name parent (parsed st) = find_directory name parent st"
  by (simp add: find_directory_def)

lemma search_entries_parsed [simp]: "search_entries d part fs (parsed st) = search_entries d part fs st"
  by (induction fs) (simp_all split: option.split)

lemma walk_parts_parsed [simp]: "walk_parts d parts (parsed st) = walk_parts d parts st"
  by (induction parts arbitrary: d) (simp_all split: option.split)

lemma fs_find_parent_dir_eq:
  "fs_find_parent_dir path st = (parent_of path st, if is_root_path path then st else parsed st)"
  by (simp add: fs_find_parent_dir_def parent_of_def parts_of_def fs_parse_path_tokens FS_MAX_PATH_LEN_def Let_def min_def)

lemma fs_get_filename_eq: "fs_get_filename path st = (leaf_of path, parsed st)"
  by (simp add: fs_get_filename_def leaf_of_def fs_parse_path_tokens FS_MAX_FILENAME_LEN_def Let_def)

lemma fs_find_eq:
  "fs_find path st =
    (if is_root_path path then (- 2, st)
     else (case lookup path st of Some i \<Rightarrow> int i | None \<Rightarrow> - 1, parsed st))"
  by (simp add: fs_find_def fs_find_parent_dir_eq fs_get_filename_eq lookup_def find_in_def split: option.split)

section \<open>Well-formed tables\<close>

definition slot :: "nat \<Rightarrow> 'a filesystem_scheme \<Rightarrow> fs_directory" where "slot d st = directories st ! d"
definition entry_at :: "nat \<Rightarrow> 'a filesystem_scheme \<Rightarrow> fs_entry" where "entry_at i st = entries st ! i"

text \<open>The listing of a directory: entries of the table that name it as their parent, with distinct
  names. Empty names are the exception: a path without components, such as the root's, creates them.\<close>

definition listing_ok :: "nat \<Rightarrow> 'a filesystem_scheme \<Rightarrow> bool" where
  "listing_ok d st \<longleftrightarrow> length (dfiles (slot d st)) \<le> 64 \<and> distinct (dfiles (slot d st)) \<and>
     (\<forall>i \<in> set (dfiles (slot d st)). i < file_count st \<and> eparent (entry_at i st) = d \<and> 47 \<notin> set (ename (entry_at i st))
        \<and> length (ename (entry_at i st)) < 32) \<and>
     (\<forall>i \<in> set (dfiles (slot d st)). \<forall>j \<in> set (dfiles (slot d st)).
        ename (entry_at i st) = ename (entry_at j st) \<longrightarrow> ename (entry_at i st) \<noteq> [] \<longrightarrow> i = j)"

text \<open>A directory but the root lies behind its parent in the table and is listed there, unless it
  was deleted.\<close>

definition slot_ok :: "nat \<Rightarrow> 'a filesystem_scheme \<Rightarrow> bool" where
  "slot_ok d st \<longleftrightarrow> dparent (slot d st) < d \<and> 47 \<notin> set (dname (slot d st)) \<and>
     (dname (slot d st) \<noteq> [] \<longrightarrow>
        (\<exists>i \<in> set (dfiles (slot (dparent (slot d st)) st)).
           etype (entry_at i st) = FS_TYPE_DIRECTORY \<and> ename (entry_at i st) = dname (slot d st)))"

definition fs_wf :: "'a filesystem_scheme \<Rightarrow> bool" where
  "fs_wf st \<longleftrightarrow> length (directories st) = 32 \<and> length (entries st) = 128
     \<and> 1 \<le> dir_count st \<and> dir_count st \<le> 32 \<and> file_count st \<le> 128 \<and> dname (slot 0 st) = [47]
     \<and> (\<forall>d < dir_count st. listing_ok d st) \<and> (\<forall>d < 32. dir_count st \<le> d \<longrightarrow> dfiles (slot d st) = [])
     \<and> (\<forall>d < dir_count st. 1 \<le> d \<longrightarrow> slot_ok d st)
     \<and> (\<forall>d < dir_count st. \<forall>i \<in> set (dfiles (slot d st)).
          etype (entry_at i st) = FS_TYPE_DIRECTORY \<longrightarrow> ename (entry_at i st) \<noteq> [] \<longrightarrow>
          (\<exists>k < dir_count st. dname (slot k st) = ename (entry_at i st) \<and> dparent (slot k st) = d))
     \<and> (\<forall>d < dir_count st. \<forall>e < dir_count st. dname (slot d st) = dname (slot e st) \<longrightarrow> dname (slot d st) \<noteq> [] \<longrightarrow>
          dparent (slot d st) = dparent (slot e st) \<longrightarrow> d = e)"

lemma fs_wfD:
  assumes "fs_wf st"
  shows "length (directories st) = 32" "length (entries st) = 128" "1 \<le> dir_count st" "dir_count st \<le> 32"
    "file_count st \<le> 128" "dname (slot 0 st) = [47]"
    "\<And>d. d < dir_count st \<Longrightarrow> listing_ok d st" "\<And>d. d < 32 \<Longrightarrow> dir_count st \<le> d \<Longrightarrow> dfiles (slot d st) = []"
    "\<And>d. d < dir_count st \<Longrightarrow> 1 \<le> d \<Longrightarrow> slot_ok d st"
    "\<And>d i. d < dir_count st \<Longrightarrow> i \<in> set (dfiles (slot d st)) \<Longrightarrow> etype (entry_at i st) = FS_TYPE_DIRECTORY \<Longrightarrow>
      ename (entry_at i st) \<noteq> [] \<Longrightarrow> \<exists>k < dir_count st. dname (slot k st) = ename (entry_at i st) \<and> dparent (slot k st) = d"
    "\<And>d e. d < dir_count st \<Longrightarrow> e < dir_count st \<Longrightarrow> dname (slot d st) = dname (slot e st) \<Longrightarrow> dname (slot d st) \<noteq> [] \<Longrightarrow>
      dparent (slot d st) = dparent (slot e st) \<Longrightarrow> d = e"
  using assms unfolding fs_wf_def by blast+

lemma find_directory_Some:
  "find_directory name parent st = Some k \<Longrightarrow> k < dir_count st \<and> dname (slot k st) = name \<and> dparent (slot k st) = parent"
  by (auto simp: find_directory_def find_Some_iff slot_def)

lemma find_directory_None:
  "find_directory name parent st = None \<longleftrightarrow> (\<forall>k < dir_count st. \<not> (dname (slot k st) = name \<and> dparent (slot k st) = parent))"
  by (auto simp: find_directory_def find_None_iff slot_def)

lemma find_directory_unique:
  assumes "fs_wf st" and "k < dir_count st" and "dname (slot k st) = name" and "dparent (slot k st) = parent" and "name \<noteq> []"
  shows "find_directory name parent st = Some k"
proof (cases "find_directory name parent st")
  case None
  then show ?thesis using assms by (auto simp: find_directory_None)
next
  case (Some j)
  then show ?thesis using find_directory_Some [OF Some] fs_wfD(11) [OF assms(1,2), of j] assms(3-5) by auto
qed

text \<open>One step of the walk, and its progress.\<close>

definition subdirectory :: "nat \<Rightarrow> u8 list \<Rightarrow> 'a filesystem_scheme \<Rightarrow> nat option" where
  "subdirectory d part st =
     (if \<exists>i \<in> set (dfiles (slot d st)). etype (entry_at i st) = FS_TYPE_DIRECTORY \<and> ename (entry_at i st) = part
      then find_directory part d st else None)"

lemma search_entries_eq:
  "search_entries d part fs st =
    (if \<exists>i \<in> set fs. etype (entry_at i st) = FS_TYPE_DIRECTORY \<and> ename (entry_at i st) = part
     then find_directory part d st else None)"
  by (induction fs) (auto simp: entry_at_def split: option.split)

lemma walk_parts_Cons:
  "walk_parts d (part # parts) st = Option.bind (subdirectory d part st) (\<lambda>k. walk_parts k parts st)"
  by (simp add: search_entries_eq subdirectory_def slot_def split: option.split)

lemma subdirectory_less:
  assumes "fs_wf st" and "part \<noteq> []" and "47 \<notin> set part" and "subdirectory d part st = Some k"
  shows "d < k" and "k < dir_count st"
proof -
  have k: "k < dir_count st" "dname (slot k st) = part" "dparent (slot k st) = d"
    using assms(4) find_directory_Some [of part d st k] by (auto simp: subdirectory_def split: if_splits)
  have "k \<noteq> 0" using k(2) assms(3) fs_wfD(6) [OF assms(1)] by (cases k) auto
  then show "d < k" using fs_wfD(9) [OF assms(1) k(1)] k(3) by (auto simp: slot_ok_def)
  show "k < dir_count st" by (rule k(1))
qed

lemma walk_parts_less:
  assumes "fs_wf st"
  shows "(\<And>t. t \<in> set ts \<Longrightarrow> t \<noteq> [] \<and> 47 \<notin> set t) \<Longrightarrow> d < dir_count st \<Longrightarrow> walk_parts d ts st = Some p \<Longrightarrow>
    p < dir_count st \<and> d \<le> p \<and> (ts \<noteq> [] \<longrightarrow> d < p)"
proof (induction ts arbitrary: d)
  case (Cons t ts)
  obtain k where k: "subdirectory d t st = Some k" "walk_parts k ts st = Some p"
    using Cons.prems(3) by (auto simp: walk_parts_Cons simp del: walk_parts.simps split: Option.bind_splits)
  have "d < k" "k < dir_count st" using subdirectory_less [OF assms _ _ k(1)] Cons.prems(1) [of t] by simp_all
  then show ?case using Cons.IH [of k] Cons.prems(1) k(2) by fastforce
qed simp

lemma parts_ok: "t \<in> set (parts_of path) \<Longrightarrow> t \<noteq> [] \<and> 47 \<notin> set t"
  unfolding parts_of_def by (rule tokens_ok) (rule in_set_butlastD)

lemma leaf_ok: "47 \<notin> set (leaf_of path)" "length (leaf_of path) < 32"
  using tokens_ok [of "last (tokens (take 256 path))" "take 256 path"]
  by (auto simp: leaf_of_def Let_def dest: in_set_takeD)

lemma parent_less: "fs_wf st \<Longrightarrow> parent_of path st = Some p \<Longrightarrow> p < dir_count st"
  using walk_parts_less [of st "parts_of path" 0 p] parts_ok [of _ path] fs_wfD(3) [of st]
  by (fastforce simp: parent_of_def split: if_splits)

lemma lookup_Some:
  assumes "fs_wf st" and "lookup path st = Some i"
  obtains d where "parent_of path st = Some d" "d < dir_count st" "i \<in> set (dfiles (slot d st))"
    "ename (entry_at i st) = leaf_of path" "i < file_count st" "eparent (entry_at i st) = d"
proof -
  obtain d where d: "parent_of path st = Some d" "find_in d (leaf_of path) st = Some i"
    using assms(2) by (auto simp: lookup_def split: Option.bind_splits)
  have dc: "d < dir_count st" by (rule parent_less [OF assms(1) d(1)])
  have i: "i \<in> set (dfiles (slot d st))" "ename (entry_at i st) = leaf_of path"
    using d(2) by (auto simp: find_in_def find_Some_iff slot_def entry_at_def)
  moreover have "i < file_count st" "eparent (entry_at i st) = d"
    using fs_wfD(7) [OF assms(1) dc] i(1) by (auto simp: listing_ok_def)
  ultimately show ?thesis using that d(1) dc by blast
qed

end
