(* ===== verification/FsTables.thy ===== *)
theory FsTables
  imports FsLookup
begin

text \<open>
  How the operations change the two tables of the file system: \<open>grown\<close> (a new entry and, for a
  directory, a new slot), \<open>shrunk\<close> (an entry leaves its listing, a directory loses its name), and
  changes that the tables' shape does not see. Each keeps \<open>fs_wf\<close>, and what each does to lookups is
  stated once here.
\<close>

lemma find_append: "find P (xs @ ys) = (case find P xs of None \<Rightarrow> find P ys | Some x \<Rightarrow> Some x)"
  by (induction xs) auto

lemma find_SomeD: "find P xs = Some x \<Longrightarrow> x \<in> set xs \<and> P x"
  by (auto simp: find_Some_iff)

section \<open>Changes that keep the shape\<close>

definition same_shape :: "'a filesystem_scheme \<Rightarrow> 'a filesystem_scheme \<Rightarrow> bool" where
  "same_shape st st' \<longleftrightarrow> directories st' = directories st \<and> dir_count st' = dir_count st \<and> file_count st' = file_count st
     \<and> length (entries st') = length (entries st) \<and> fs_initialized st' = fs_initialized st
     \<and> (\<forall>i. ename (entry_at i st') = ename (entry_at i st) \<and> etype (entry_at i st') = etype (entry_at i st)
          \<and> eparent (entry_at i st') = eparent (entry_at i st))"

lemma same_shape_refl [simp]: "same_shape st st"
  by (simp add: same_shape_def)

lemma same_shape_trans: "same_shape a b \<Longrightarrow> same_shape b c \<Longrightarrow> same_shape a c"
  by (simp add: same_shape_def)

lemma same_shape_slot: "same_shape st st' \<Longrightarrow> slot d st' = slot d st"
  by (simp add: same_shape_def slot_def)

lemma same_shape_wf:
  assumes "same_shape st st'" and "fs_wf st"
  shows "fs_wf st'"
proof -
  have l: "listing_ok d st' = listing_ok d st" and s: "slot_ok d st' = slot_ok d st" for d
    using assms(1) by (auto simp: listing_ok_def slot_ok_def same_shape_def slot_def)
  show ?thesis using assms unfolding fs_wf_def l s by (simp add: same_shape_def slot_def)
qed

lemma same_shape_find_directory: "same_shape st st' \<Longrightarrow> find_directory name d st' = find_directory name d st"
  by (simp add: find_directory_def same_shape_def)

lemma same_shape_walk: "same_shape st st' \<Longrightarrow> walk_parts d ts st' = walk_parts d ts st"
proof (induction ts arbitrary: d)
  case (Cons t ts)
  have "subdirectory d t st' = subdirectory d t st"
    using Cons.prems by (auto simp: subdirectory_def same_shape_find_directory same_shape_slot) (auto simp: same_shape_def)
  then show ?case using Cons.IH [OF Cons.prems] by (simp only: walk_parts_Cons)
qed simp

lemma same_shape_lookup: "same_shape st st' \<Longrightarrow> lookup path st' = lookup path st"
  by (simp add: lookup_def parent_of_def find_in_def same_shape_walk) (simp add: same_shape_def entry_at_def)

lemma same_shape_parent: "same_shape st st' \<Longrightarrow> parent_of path st' = parent_of path st"
  by (simp add: parent_of_def same_shape_walk)

section \<open>A new entry\<close>

definition grown :: "nat \<Rightarrow> fs_entry \<Rightarrow> 'a filesystem_scheme \<Rightarrow> 'a filesystem_scheme \<Rightarrow> bool" where
  "grown p e st st' \<longleftrightarrow>
     p < dir_count st \<and> file_count st < 128 \<and> length (dfiles (slot p st)) < 64 \<and> (etype e = FS_TYPE_DIRECTORY \<longrightarrow> dir_count st < 32)
     \<and> eparent e = p \<and> 47 \<notin> set (ename e) \<and> length (ename e) < 32
     \<and> (\<forall>i \<in> set (dfiles (slot p st)). ename (entry_at i st) = ename e \<longrightarrow> ename e = [])
     \<and> length (directories st') = 32 \<and> length (entries st') = 128 \<and> file_count st' = Suc (file_count st)
     \<and> dir_count st' = (if etype e = FS_TYPE_DIRECTORY then Suc (dir_count st) else dir_count st)
     \<and> (\<forall>i. entry_at i st' = (if i = file_count st then e else entry_at i st))
     \<and> (\<forall>d < 32. slot d st' =
          (if d = p then (slot p st)\<lparr>dfiles := dfiles (slot p st) @ [file_count st]\<rparr>
           else if etype e = FS_TYPE_DIRECTORY \<and> d = dir_count st then (slot d st)\<lparr>dname := ename e, dparent := p\<rparr>
           else slot d st))"

lemma grownD:
  assumes "grown p e st st'"
  shows "p < dir_count st" "file_count st < 128" "length (dfiles (slot p st)) < 64" "etype e = FS_TYPE_DIRECTORY \<Longrightarrow> dir_count st < 32"
    "eparent e = p" "47 \<notin> set (ename e)" "length (ename e) < 32"
    "\<And>i. i \<in> set (dfiles (slot p st)) \<Longrightarrow> ename (entry_at i st) = ename e \<Longrightarrow> ename e = []"
    "length (directories st') = 32" "length (entries st') = 128" "file_count st' = Suc (file_count st)"
    "dir_count st' = (if etype e = FS_TYPE_DIRECTORY then Suc (dir_count st) else dir_count st)"
    "entry_at i st' = (if i = file_count st then e else entry_at i st)"
    "d < 32 \<Longrightarrow> slot d st' =
      (if d = p then (slot p st)\<lparr>dfiles := dfiles (slot p st) @ [file_count st]\<rparr>
       else if etype e = FS_TYPE_DIRECTORY \<and> d = dir_count st then (slot d st)\<lparr>dname := ename e, dparent := p\<rparr>
       else slot d st)"
  using assms unfolding grown_def by blast+

lemma grown_old:
  assumes wf: "fs_wf st" and grown: "grown p e st st'"
  shows "d < dir_count st \<Longrightarrow> dname (slot d st') = dname (slot d st) \<and> dparent (slot d st') = dparent (slot d st)"
  using grownD(14) [OF grown, of d] fs_wfD(4) [OF wf] by auto

lemma grown_files:
  assumes wf: "fs_wf st" and grown: "grown p e st st'"
  shows "d < 32 \<Longrightarrow> dfiles (slot d st') = (if d = p then dfiles (slot p st) @ [file_count st] else dfiles (slot d st))"
  using grownD(14) [OF grown, of d] by auto

lemma grown_listed:
  assumes wf: "fs_wf st" and grown: "grown p e st st'"
  shows "d < dir_count st \<Longrightarrow> i \<in> set (dfiles (slot d st)) \<Longrightarrow> i < file_count st \<and> entry_at i st' = entry_at i st"
  using fs_wfD(7) [OF wf, of d] grownD(13) [OF grown, of i] by (auto simp: listing_ok_def)

lemma grown_new_slot:
  assumes wf: "fs_wf st" and grown: "grown p e st st'"
    and "etype e = FS_TYPE_DIRECTORY"
  shows "dname (slot (dir_count st) st') = ename e" "dparent (slot (dir_count st) st') = p" "dfiles (slot (dir_count st) st') = []"
proof -
  have "dir_count st < 32" "dir_count st \<noteq> p" using grownD(1,4) [OF grown] assms by auto
  then show "dname (slot (dir_count st) st') = ename e" "dparent (slot (dir_count st) st') = p" "dfiles (slot (dir_count st) st') = []"
    using grownD(14) [OF grown, of "dir_count st"] fs_wfD(8) [OF wf, of "dir_count st"] assms by auto
qed

lemma grown_dirs:
  assumes wf: "fs_wf st" and grown: "grown p e st st'"
  shows "d < dir_count st' \<Longrightarrow> d < dir_count st \<or> (etype e = FS_TYPE_DIRECTORY \<and> d = dir_count st)"
  using grownD(12) [OF grown] by (auto split: if_splits)

lemma grown_listing:
  assumes wf: "fs_wf st" and grown: "grown p e st st'"
    and "d < dir_count st'"
  shows "listing_ok d st'"
proof (cases "d < dir_count st")
  case False
  then have "etype e = FS_TYPE_DIRECTORY" "d = dir_count st" using grown_dirs [OF wf grown assms(3)] by auto
  then show ?thesis using grown_new_slot [OF wf grown] by (simp add: listing_ok_def)
next
  case True
  then have d32: "d < 32" using fs_wfD(4) [OF wf] by simp
  note ok = fs_wfD(7) [OF wf True, unfolded listing_ok_def]
  show ?thesis
  proof (cases "d = p")
    case False
    then have f: "dfiles (slot d st') = dfiles (slot d st)" using grown_files [OF wf grown d32] by simp
    show ?thesis
      using ok grown_listed [OF wf grown True] grownD(11) [OF grown] unfolding listing_ok_def f by (auto simp: less_Suc_eq)
  next
    case True
    have f: "dfiles (slot p st') = dfiles (slot p st) @ [file_count st]" using grown_files [OF wf grown d32] True by simp
    note g = grownD(3,5,6,7,8,11) [OF grown] and en = grownD(13) [OF grown]
    have ol: "i < file_count st \<and> entry_at i st' = entry_at i st" if "i \<in> set (dfiles (slot p st))" for i
      using grown_listed [OF wf grown] that \<open>d < dir_count st\<close> True by blast
    have nw: "entry_at (file_count st) st' = e" using en [of "file_count st"] by simp
    have nl: "file_count st \<notin> set (dfiles (slot p st))" using ol by blast
    have fr: "ename e = []" if "i \<in> set (dfiles (slot p st))" "ename (entry_at i st) = ename e" for i
      using grownD(8) [OF grown that] .
    have uq: "i = j" if "i \<in> set (dfiles (slot p st))" "j \<in> set (dfiles (slot p st))"
      "ename (entry_at i st) = ename (entry_at j st)" "ename (entry_at i st) \<noteq> []" for i j
      using ok that True by blast
    have "i = j" if "i \<in> set (dfiles (slot p st) @ [file_count st])" "j \<in> set (dfiles (slot p st) @ [file_count st])"
      "ename (entry_at i st') = ename (entry_at j st')" "ename (entry_at i st') \<noteq> []" for i j
      using that uq fr [of i] fr [of j] by (auto simp: ol nw)
    moreover have "i < file_count st' \<and> eparent (entry_at i st') = p \<and> 47 \<notin> set (ename (entry_at i st')) \<and> length (ename (entry_at i st')) < 32"
      if "i \<in> set (dfiles (slot p st) @ [file_count st])" for i
      using that ok g True ol [of i] nw by (auto simp: less_Suc_eq)
    ultimately show ?thesis
      using ok g(1) nl unfolding listing_ok_def True f by simp
  qed
qed

lemma grown_slots:
  assumes wf: "fs_wf st" and grown: "grown p e st st'"
    and "d < dir_count st'" and "1 \<le> d"
  shows "slot_ok d st'"
proof (cases "d < dir_count st")
  case False
  then have e: "etype e = FS_TYPE_DIRECTORY" "d = dir_count st" using grown_dirs [OF wf grown assms(3)] by auto
  have "file_count st \<in> set (dfiles (slot p st'))"
    using grown_files [OF wf grown, of p] grownD(1) [OF grown] fs_wfD(4) [OF wf] by simp
  then show ?thesis
    using e grown_new_slot [OF wf grown] grownD(1,6) [OF grown] grownD(13) [OF grown, of "file_count st"]
    by (auto simp: slot_ok_def)
next
  case True
  note ok = fs_wfD(9) [OF wf True assms(4), unfolded slot_ok_def] and o = grown_old [OF wf grown True]
  have pd: "dparent (slot d st) < dir_count st" using ok True by simp
  have "set (dfiles (slot (dparent (slot d st)) st)) \<subseteq> set (dfiles (slot (dparent (slot d st)) st'))"
    using grown_files [OF wf grown, of "dparent (slot d st)"] pd fs_wfD(4) [OF wf] by auto
  then show ?thesis using ok o grown_listed [OF wf grown pd] unfolding slot_ok_def by (metis subsetD)
qed

lemma grown_subdirs:
  assumes wf: "fs_wf st" and grown: "grown p e st st'"
    and "d < dir_count st'" and "i \<in> set (dfiles (slot d st'))" and "etype (entry_at i st') = FS_TYPE_DIRECTORY"
    and "ename (entry_at i st') \<noteq> []"
  shows "\<exists>k < dir_count st'. dname (slot k st') = ename (entry_at i st') \<and> dparent (slot k st') = d"
proof -
  have d: "d < dir_count st" using grown_dirs [OF wf grown assms(3)] grown_new_slot(3) [OF wf grown] assms(4) by auto
  then have d32: "d < 32" using fs_wfD(4) [OF wf] by simp
  show ?thesis
  proof (cases "i \<in> set (dfiles (slot d st))")
    case True
    then obtain k where "k < dir_count st" "dname (slot k st) = ename (entry_at i st)" "dparent (slot k st) = d"
      using fs_wfD(10) [OF wf d True] assms grown_listed [OF wf grown d True] by auto
    then show ?thesis using grown_old [OF wf grown, of k] grown_listed [OF wf grown d True] grownD(12) [OF grown] by (intro exI [of _ k]) auto
  next
    case False
    then have "d = p" "i = file_count st" using assms(4) grown_files [OF wf grown d32] by (auto split: if_splits)
    then show ?thesis
      using assms(5) grownD(12) [OF grown] grownD(13) [OF grown, of "file_count st"] grown_new_slot [OF wf grown] by (intro exI [of _ "dir_count st"]) auto
  qed
qed

lemma grown_unique:
  assumes wf: "fs_wf st" and grown: "grown p e st st'"
    and "d < dir_count st'" "f < dir_count st'" "dname (slot d st') = dname (slot f st')" "dname (slot d st') \<noteq> []"
    "dparent (slot d st') = dparent (slot f st')"
  shows "d = f"
proof -
  have new: False if "a < dir_count st" "dname (slot a st') = ename e" "dparent (slot a st') = p" "ename e \<noteq> []" for a
  proof -
    note h = that
    have a: "dname (slot a st) = ename e" "dparent (slot a st) = p" using h grown_old [OF wf grown, of a] by auto
    have "a \<noteq> 0" using a(1) fs_wfD(6) [OF wf] grownD(6) [OF grown] by (metis list.set_intros(1))
    then obtain i where "i \<in> set (dfiles (slot p st))" "ename (entry_at i st) = ename e"
      using fs_wfD(9) [OF wf h(1)] a h by (auto simp: slot_ok_def)
    then show False using grownD(8) [OF grown] h by blast
  qed
  show ?thesis
    using grown_dirs [OF wf grown assms(3)] grown_dirs [OF wf grown assms(4)] assms(5-7) new [of d] new [of f] grown_new_slot [OF wf grown]
      fs_wfD(11) [OF wf, of d f] grown_old [OF wf grown, of d] grown_old [OF wf grown, of f] by auto
qed

lemma grown_wf:
  assumes wf: "fs_wf st" and grown: "grown p e st st'"
  shows "fs_wf st'"
proof -
  have p32: "p < 32" using grownD(1) [OF grown] fs_wfD(4) [OF wf] by simp
  have 0: "dname (slot 0 st') = [47]" using grown_old [OF wf grown, of 0] fs_wfD(3,6) [OF wf] by simp
  have e: "dfiles (slot d st') = []" if "d < 32" "dir_count st' \<le> d" for d
    using that grown_files [OF wf grown that(1)] fs_wfD(8) [OF wf that(1)] grownD(1,12) [OF grown] by (auto split: if_splits)
  show ?thesis
    unfolding fs_wf_def
    using grownD(2,4,9,10,11,12) [OF grown] fs_wfD(3,4) [OF wf] 0 e grown_listing [OF wf grown] grown_slots [OF wf grown] grown_subdirs [OF wf grown] grown_unique [OF wf grown]
    by (intro conjI allI impI ballI) auto
qed

lemma grown_subdirectory:
  assumes wf: "fs_wf st" and grown: "grown p e st st'"
    and "d < dir_count st" "subdirectory d part st = Some k" "part \<noteq> []"
  shows "subdirectory d part st' = Some k"
proof -
  have k: "k < dir_count st" "dname (slot k st) = part" "dparent (slot k st) = d"
    using assms(4) find_directory_Some [of part d st k] by (auto simp: subdirectory_def split: if_splits)
  have "find_directory part d st' = Some k"
    using find_directory_unique [OF grown_wf [OF wf grown], of k part d] k grown_old [OF wf grown k(1)] assms(5) grownD(12) [OF grown] by auto
  moreover obtain i where "i \<in> set (dfiles (slot d st))" "etype (entry_at i st) = FS_TYPE_DIRECTORY" "ename (entry_at i st) = part"
    using assms(4) by (auto simp: subdirectory_def split: if_splits)
  ultimately show ?thesis
    using grown_listed [OF wf grown assms(3)] grown_files [OF wf grown, of d] assms(3) fs_wfD(4) [OF wf] by (auto simp: subdirectory_def)
qed

lemma grown_walk:
  assumes wf: "fs_wf st" and grown: "grown p e st st'"
  shows "(\<And>t. t \<in> set ts \<Longrightarrow> t \<noteq> [] \<and> 47 \<notin> set t) \<Longrightarrow> d < dir_count st \<Longrightarrow> walk_parts d ts st = Some q \<Longrightarrow> walk_parts d ts st' = Some q"
proof (induction ts arbitrary: d)
  case (Cons t ts)
  obtain k where k: "subdirectory d t st = Some k" "walk_parts k ts st = Some q"
    using Cons.prems(3) by (auto simp: walk_parts_Cons simp del: walk_parts.simps split: Option.bind_splits)
  have t: "t \<noteq> []" "47 \<notin> set t" using Cons.prems(1) [of t] by simp_all
  have "k < dir_count st" by (rule subdirectory_less(2) [OF wf t k(1)])
  then show ?case
    using grown_subdirectory [OF wf grown Cons.prems(2) k(1) t(1)] Cons.IH [of k] Cons.prems(1) k(2)
    by (simp add: walk_parts_Cons del: walk_parts.simps)
qed simp

lemma grown_parent:
  assumes wf: "fs_wf st" and grown: "grown p e st st'"
  shows "parent_of path st = Some q \<Longrightarrow> parent_of path st' = Some q"
  using grown_walk [OF wf grown, of "parts_of path" 0 q] parts_ok [of _ path] fs_wfD(3) [OF wf]
  by (fastforce simp: parent_of_def split: if_splits)

lemma grown_find_in:
  assumes wf: "fs_wf st" and grown: "grown p e st st'"
    and "d < dir_count st"
  shows "find_in d name st' = (case find_in d name st of Some i \<Rightarrow> Some i
    | None \<Rightarrow> if d = p \<and> ename e = name then Some (file_count st) else None)"
proof -
  have "find (\<lambda>i. ename (entry_at i st') = name) (dfiles (slot d st)) = find (\<lambda>i. ename (entry_at i st) = name) (dfiles (slot d st))"
    using grown_listed [OF wf grown assms(3)] by (intro find_cong) auto
  then show ?thesis
    using grown_files [OF wf grown, of d] assms fs_wfD(4) [OF wf] grownD(13) [OF grown, of "file_count st"]
    by (auto simp: find_in_def slot_def [symmetric] entry_at_def [symmetric] find_append split: option.split)
qed

lemma grown_lookup:
  assumes wf: "fs_wf st" and grown: "grown p e st st'"
    and "lookup path st = Some i"
  shows "lookup path st' = Some i"
proof -
  obtain d where d: "parent_of path st = Some d" "find_in d (leaf_of path) st = Some i"
    using assms by (auto simp: lookup_def split: Option.bind_splits)
  then show ?thesis
    using grown_parent [OF wf grown d(1)] grown_find_in [OF wf grown parent_less [OF wf d(1)]] by (simp add: lookup_def)
qed

lemma grown_lookup_new:
  assumes wf: "fs_wf st" and grown: "grown p e st st'"
    and "lookup path st = None" "parent_of path st = Some p" "leaf_of path = ename e"
  shows "lookup path st' = Some (file_count st)"
  using assms grown_parent [OF wf grown assms(4)] grown_find_in [OF wf grown, of p] grownD(1) [OF grown] by (auto simp: lookup_def)

section \<open>An entry that goes\<close>

text \<open>\<open>gone\<close> is the slot of a deleted directory.\<close>

definition shrunk :: "nat \<Rightarrow> nat option \<Rightarrow> 'a filesystem_scheme \<Rightarrow> 'a filesystem_scheme \<Rightarrow> bool" where
  "shrunk x gone st st' \<longleftrightarrow>
     (let p = eparent (entry_at x st) in
      p < dir_count st \<and> x \<in> set (dfiles (slot p st)) \<and>
      (case gone of
         None \<Rightarrow> etype (entry_at x st) = FS_TYPE_FILE
       | Some k \<Rightarrow> etype (entry_at x st) = FS_TYPE_DIRECTORY \<and> k < dir_count st \<and> dname (slot k st) = ename (entry_at x st)
           \<and> dparent (slot k st) = p \<and> dfiles (slot k st) = [] \<and> k \<noteq> 0) \<and>
      length (directories st') = 32 \<and> length (entries st') = 128 \<and> file_count st' = file_count st \<and> dir_count st' = dir_count st \<and>
      (\<forall>i. entry_at i st' = (if i = x then (entry_at x st)\<lparr>ename := []\<rparr> else entry_at i st)) \<and>
      (\<forall>d < 32. dfiles (slot d st') = (if d = p then remove1 x (dfiles (slot p st)) else dfiles (slot d st))
         \<and> dparent (slot d st') = dparent (slot d st) \<and> dname (slot d st') = (if gone = Some d then [] else dname (slot d st))))"

lemma shrunkD:
  assumes "shrunk x gone st st'"
  shows "eparent (entry_at x st) < dir_count st" "x \<in> set (dfiles (slot (eparent (entry_at x st)) st))"
    "gone = None \<Longrightarrow> etype (entry_at x st) = FS_TYPE_FILE"
    "gone = Some k \<Longrightarrow> etype (entry_at x st) = FS_TYPE_DIRECTORY \<and> k < dir_count st \<and> dname (slot k st) = ename (entry_at x st)
       \<and> dparent (slot k st) = eparent (entry_at x st) \<and> dfiles (slot k st) = [] \<and> k \<noteq> 0"
    "length (directories st') = 32" "length (entries st') = 128" "file_count st' = file_count st" "dir_count st' = dir_count st"
    "entry_at i st' = (if i = x then (entry_at x st)\<lparr>ename := []\<rparr> else entry_at i st)"
    "d < 32 \<Longrightarrow> dfiles (slot d st') = (if d = eparent (entry_at x st) then remove1 x (dfiles (slot (eparent (entry_at x st)) st)) else dfiles (slot d st))"
    "d < 32 \<Longrightarrow> dparent (slot d st') = dparent (slot d st)"
    "d < 32 \<Longrightarrow> dname (slot d st') = (if gone = Some d then [] else dname (slot d st))"
  using assms unfolding shrunk_def Let_def by (blast | (auto split: option.splits)[])+

lemma shrunk_listed:
  assumes wf: "fs_wf st" and shrunk: "shrunk x gone st st'"
    and "d < dir_count st"
  shows "set (dfiles (slot d st')) = set (dfiles (slot d st)) - {x}"
proof -
  have d: "d < 32" using assms fs_wfD(4) [OF wf] by simp
  have dist: "distinct (dfiles (slot d st))" using fs_wfD(7) [OF wf assms(3)] by (simp add: listing_ok_def)
  have "x \<notin> set (dfiles (slot d st))" if "d \<noteq> eparent (entry_at x st)"
    using fs_wfD(7) [OF wf assms(3)] that by (auto simp: listing_ok_def)
  then show ?thesis using shrunkD(10) [OF shrunk d] dist by (auto simp: set_remove1_eq)
qed

lemma shrunk_entry:
  assumes wf: "fs_wf st" and shrunk: "shrunk x gone st st'"
  shows "i \<noteq> x \<Longrightarrow> entry_at i st' = entry_at i st"
  using shrunkD(9) [OF shrunk, of i] by simp

lemma shrunk_names:
  assumes wf: "fs_wf st" and shrunk: "shrunk x gone st st'"
    and "d < dir_count st"
  shows "dparent (slot d st') = dparent (slot d st)" "dname (slot d st') = (if gone = Some d then [] else dname (slot d st))"
  using shrunkD(11,12) [OF shrunk, of d] assms fs_wfD(4) [OF wf] by auto

lemma shrunk_listing:
  assumes wf: "fs_wf st" and shrunk: "shrunk x gone st st'"
    and "d < dir_count st"
  shows "listing_ok d st'"
proof -
  have d: "d < 32" using assms fs_wfD(4) [OF wf] by simp
  note ok = fs_wfD(7) [OF wf assms(3), unfolded listing_ok_def]
  have "dfiles (slot d st') = dfiles (slot d st) \<or> dfiles (slot d st') = remove1 x (dfiles (slot d st))"
    using shrunkD(10) [OF shrunk d] by auto
  then have "distinct (dfiles (slot d st'))" "length (dfiles (slot d st')) \<le> 64"
    using ok by (auto simp: length_remove1 intro: distinct_remove1)
  moreover have "i < file_count st' \<and> eparent (entry_at i st') = d \<and> 47 \<notin> set (ename (entry_at i st')) \<and> length (ename (entry_at i st')) < 32"
    if "i \<in> set (dfiles (slot d st))" "i \<noteq> x" for i
    using ok that(1) unfolding shrunk_entry [OF wf shrunk that(2)] shrunkD(7) [OF shrunk] by blast
  moreover have "i = j" if "i \<in> set (dfiles (slot d st))" "i \<noteq> x" "j \<in> set (dfiles (slot d st))" "j \<noteq> x"
    "ename (entry_at i st') = ename (entry_at j st')" "ename (entry_at i st') \<noteq> []" for i j
    using ok that unfolding shrunk_entry [OF wf shrunk that(2)] shrunk_entry [OF wf shrunk that(4)] by blast
  ultimately show ?thesis
    unfolding listing_ok_def shrunk_listed [OF wf shrunk assms(3)] by blast
qed

lemma shrunk_slots:
  assumes wf: "fs_wf st" and shrunk: "shrunk x gone st st'"
    and "d < dir_count st" and "1 \<le> d"
  shows "slot_ok d st'"
proof -
  note ok = fs_wfD(9) [OF wf assms(3,4), unfolded slot_ok_def]
  have "\<exists>i \<in> set (dfiles (slot (dparent (slot d st)) st')). etype (entry_at i st') = FS_TYPE_DIRECTORY \<and> ename (entry_at i st') = dname (slot d st)"
    if n: "dname (slot d st) \<noteq> []" "gone \<noteq> Some d"
  proof -
    obtain i where i: "i \<in> set (dfiles (slot (dparent (slot d st)) st))" "etype (entry_at i st) = FS_TYPE_DIRECTORY"
      "ename (entry_at i st) = dname (slot d st)"
      using ok n(1) by blast
    have pd: "dparent (slot d st) < dir_count st" using ok assms(3) by simp
    have "i \<noteq> x"
    proof
      assume ix: "i = x"
      then have "eparent (entry_at x st) = dparent (slot d st)"
        using fs_wfD(7) [OF wf pd] i(1) by (auto simp: listing_ok_def)
      moreover obtain k where "gone = Some k" using shrunkD(3) [OF shrunk] i(2) ix by (cases gone) auto
      ultimately show False
        using shrunkD(4) [OF shrunk, of k] fs_wfD(11) [OF wf assms(3), of k] i(3) ix n by auto
    qed
    then show ?thesis using i shrunk_listed [OF wf shrunk pd] shrunk_entry [OF wf shrunk] by auto
  qed
  then show ?thesis using ok shrunk_names [OF wf shrunk assms(3)] by (auto simp: slot_ok_def)
qed

lemma shrunk_subdirs:
  assumes wf: "fs_wf st" and shrunk: "shrunk x gone st st'"
    and "d < dir_count st" and "i \<in> set (dfiles (slot d st'))" and "etype (entry_at i st') = FS_TYPE_DIRECTORY"
    and "ename (entry_at i st') \<noteq> []"
  shows "\<exists>k < dir_count st. dname (slot k st') = ename (entry_at i st') \<and> dparent (slot k st') = d"
proof -
  have i: "i \<in> set (dfiles (slot d st))" "i \<noteq> x" using assms(4) shrunk_listed [OF wf shrunk assms(3)] by auto
  then obtain k where k: "k < dir_count st" "dname (slot k st) = ename (entry_at i st)" "dparent (slot k st) = d"
    using fs_wfD(10) [OF wf assms(3) i(1)] assms shrunk_entry [OF wf shrunk] by auto
  have "gone \<noteq> Some k"
  proof
    assume g: "gone = Some k"
    then have "ename (entry_at x st) = ename (entry_at i st)" "x \<in> set (dfiles (slot d st))"
      using shrunkD(2,4) [OF shrunk] k by auto
    then show False using fs_wfD(7) [OF wf assms(3)] i assms(6) shrunk_entry [OF wf shrunk] unfolding listing_ok_def by metis
  qed
  then show ?thesis using k shrunk_names [OF wf shrunk k(1)] shrunk_entry [OF wf shrunk i(2)] by auto
qed

lemma shrunk_wf:
  assumes wf: "fs_wf st" and shrunk: "shrunk x gone st st'"
  shows "fs_wf st'"
proof -
  have 0: "dname (slot 0 st') = [47]"
    using shrunkD(4) [OF shrunk, of 0] shrunk_names [OF wf shrunk, of 0] fs_wfD(3,6) [OF wf] by auto
  have e: "dfiles (slot d st') = []" if "d < 32" "dir_count st \<le> d" for d
    using shrunkD(10) [OF shrunk that(1)] fs_wfD(8) [OF wf that] shrunkD(1) [OF shrunk] that by auto
  have u: "d = f" if "d < dir_count st" "f < dir_count st" "dname (slot d st') = dname (slot f st')" "dname (slot d st') \<noteq> []"
    "dparent (slot d st') = dparent (slot f st')" for d f
    using that fs_wfD(11) [OF wf that(1,2)] shrunk_names [OF wf shrunk, of d] shrunk_names [OF wf shrunk, of f] by (auto split: if_splits)
  show ?thesis
    unfolding fs_wf_def shrunkD(5-8) [OF shrunk]
    using fs_wfD(3,4,5) [OF wf] 0 e u shrunk_listing [OF wf shrunk] shrunk_slots [OF wf shrunk] shrunk_subdirs [OF wf shrunk]
    by (intro conjI allI impI ballI) auto
qed

lemma shrunk_subdirectory:
  assumes wf: "fs_wf st" and shrunk: "shrunk x gone st st'"
    and "d < dir_count st" "subdirectory d part st = Some k" "part \<noteq> []" "gone \<noteq> Some k"
  shows "subdirectory d part st' = Some k"
proof -
  have k: "k < dir_count st" "dname (slot k st) = part" "dparent (slot k st) = d"
    using assms(4) find_directory_Some [of part d st k] by (auto simp: subdirectory_def split: if_splits)
  have f: "find_directory part d st' = Some k"
    using find_directory_unique [OF shrunk_wf [OF wf shrunk], of k part d] k shrunk_names [OF wf shrunk k(1)] assms(5,6) shrunkD(8) [OF shrunk] by auto
  obtain i where i: "i \<in> set (dfiles (slot d st))" "etype (entry_at i st) = FS_TYPE_DIRECTORY" "ename (entry_at i st) = part"
    using assms(4) by (auto simp: subdirectory_def split: if_splits)
  have "i \<noteq> x"
  proof
    assume ix: "i = x"
    then have "eparent (entry_at x st) = d" using fs_wfD(7) [OF wf assms(3)] i(1) by (auto simp: listing_ok_def)
    moreover obtain j where "gone = Some j" using shrunkD(3) [OF shrunk] i(2) ix by (cases gone) auto
    ultimately show False
      using shrunkD(4) [OF shrunk, of j] fs_wfD(11) [OF wf k(1), of j] i(3) ix k assms(5,6) by auto
  qed
  then show ?thesis using f i shrunk_listed [OF wf shrunk assms(3)] shrunk_entry [OF wf shrunk] by (auto simp: subdirectory_def)
qed

lemma shrunk_dead_end:
  assumes wf: "fs_wf st" and shrunk: "shrunk x gone st st'"
  shows "gone = Some k \<Longrightarrow> walk_parts k ts st = Some q \<Longrightarrow> q = k"
  using shrunkD(4) [OF shrunk, of k] by (cases ts) (auto simp: walk_parts_Cons subdirectory_def simp del: walk_parts.simps(2) split: Option.bind_splits)

lemma shrunk_walk:
  assumes wf: "fs_wf st" and shrunk: "shrunk x gone st st'"
  shows "(\<And>t. t \<in> set ts \<Longrightarrow> t \<noteq> [] \<and> 47 \<notin> set t) \<Longrightarrow> d < dir_count st \<Longrightarrow> walk_parts d ts st = Some q \<Longrightarrow> gone \<noteq> Some q \<Longrightarrow>
   walk_parts d ts st' = Some q"
proof (induction ts arbitrary: d)
  case (Cons t ts)
  obtain k where k: "subdirectory d t st = Some k" "walk_parts k ts st = Some q"
    using Cons.prems(3) by (auto simp: walk_parts_Cons simp del: walk_parts.simps split: Option.bind_splits)
  have t: "t \<noteq> []" "47 \<notin> set t" using Cons.prems(1) [of t] by simp_all
  have kd: "k < dir_count st" by (rule subdirectory_less(2) [OF wf t k(1)])
  have "gone \<noteq> Some k" using shrunk_dead_end [OF wf shrunk, of k] k(2) Cons.prems(4) by auto
  then show ?case
    using shrunk_subdirectory [OF wf shrunk Cons.prems(2) k(1) t(1)] Cons.IH [of k] Cons.prems(1,4) k(2) kd
    by (simp add: walk_parts_Cons del: walk_parts.simps)
qed simp

lemma shrunk_parent:
  assumes wf: "fs_wf st" and shrunk: "shrunk x gone st st'"
  shows "parent_of path st = Some q \<Longrightarrow> gone \<noteq> Some q \<Longrightarrow> parent_of path st' = Some q"
  using shrunk_walk [OF wf shrunk, of "parts_of path" 0 q] parts_ok [of _ path] fs_wfD(3) [OF wf]
  by (fastforce simp: parent_of_def split: if_splits)

lemma shrunk_find_in:
  assumes wf: "fs_wf st" and shrunk: "shrunk x gone st st'"
    and "d < dir_count st" "name \<noteq> []" and "find_in d name st = Some i"
  shows "find_in d name st' = (if i = x then None else Some i)"
proof -
  have i: "i \<in> set (dfiles (slot d st))" "ename (entry_at i st) = name"
    using assms(5) by (auto simp: find_in_def find_Some_iff slot_def entry_at_def)
  have uniq: "j = i" if "j \<in> set (dfiles (slot d st))" "ename (entry_at j st) = name" for j
    using fs_wfD(7) [OF wf assms(3)] i that assms(4) unfolding listing_ok_def by metis
  have listed: "set (dfiles (directories st' ! d)) = set (dfiles (slot d st)) - {x}"
    using shrunk_listed [OF wf shrunk assms(3)] by (simp add: slot_def)
  show ?thesis
  proof (cases "find_in d name st'")
    case None
    then have "\<forall>j \<in> set (dfiles (slot d st)) - {x}. ename (entry_at j st') \<noteq> name"
      unfolding find_in_def find_None_iff listed by (auto simp: entry_at_def)
    then show ?thesis using None i shrunk_entry [OF wf shrunk, of i] by (metis Diff_iff singletonD)
  next
    case (Some j)
    then have "j \<in> set (dfiles (slot d st)) - {x}" "ename (entry_at j st') = name"
      using find_SomeD [OF Some [unfolded find_in_def]] listed by (simp_all add: entry_at_def)
    then show ?thesis using Some uniq [of j] shrunk_entry [OF wf shrunk, of j] by auto
  qed
qed

lemma shrunk_lookup:
  assumes wf: "fs_wf st" and shrunk: "shrunk x gone st st'"
    and "lookup path st = Some i" and "leaf_of path \<noteq> []"
  shows "lookup path st' = (if i = x then None else Some i)"
proof -
  obtain d where d: "parent_of path st = Some d" "find_in d (leaf_of path) st = Some i"
    using assms by (auto simp: lookup_def split: Option.bind_splits)
  have dd: "d < dir_count st" by (rule parent_less [OF wf d(1)])
  have "dfiles (slot d st) \<noteq> []" using d(2) by (auto simp: find_in_def find_Some_iff slot_def)
  then have "gone \<noteq> Some d" using shrunkD(4) [OF shrunk, of d] by auto
  then show ?thesis
    using shrunk_parent [OF wf shrunk d(1)] shrunk_find_in [OF wf shrunk dd assms(4) d(2)] by (simp add: lookup_def)
qed

text \<open>Whatever its name is, an entry that is not deleted is still found under every path that led to it, and no path
  leads to the deleted one.\<close>

lemma find_remove1:
  assumes "find P xs = Some i" and "i \<noteq> x" and "distinct xs" and "\<And>y. y \<noteq> x \<Longrightarrow> Q y = P y"
  shows "find Q (remove1 x xs) = Some i"
  using assms(1,3)
proof (induction xs)
  case (Cons y ys)
  show ?case
  proof (cases "y = x")
    case True
    then have "\<not> P y" "x \<notin> set ys" using Cons.prems assms(2) by (auto split: if_splits)
    moreover have "find Q ys = find P ys" using calculation(2) assms(4) by (intro find_cong) metis+
    ultimately show ?thesis using True Cons.prems(1) by simp
  next
    case False
    then show ?thesis using Cons assms(4) [of y] by (auto split: if_splits)
  qed
qed simp

lemma shrunk_find_kept:
  assumes wf: "fs_wf st" and shrunk: "shrunk x gone st st'"
    and "d < dir_count st" and "find_in d name st = Some i" and "i \<noteq> x"
  shows "find_in d name st' = Some i"
proof -
  have d: "d < 32" using assms(3) fs_wfD(4) [OF wf] by linarith
  have ok: "distinct (dfiles (slot d st))" "\<forall>j \<in> set (dfiles (slot d st)). eparent (entry_at j st) = d"
    using fs_wfD(7) [OF wf assms(3)] by (simp_all add: listing_ok_def)
  have "dfiles (slot d st') = remove1 x (dfiles (slot d st))"
    using shrunkD(10) [OF shrunk d] ok(2) by (auto simp: remove1_idem)
  then have l: "dfiles (directories st' ! d) = remove1 x (dfiles (directories st ! d))" by (simp add: slot_def)
  show ?thesis
    unfolding find_in_def l
  proof (rule find_remove1 [OF assms(4) [unfolded find_in_def] assms(5)])
    show "distinct (dfiles (directories st ! d))" using ok(1) by (simp add: slot_def)
    show "y \<noteq> x \<Longrightarrow> (ename (entries st' ! y) = name) = (ename (entries st ! y) = name)" for y
      using shrunk_entry [OF wf shrunk, of y] by (simp add: entry_at_def)
  qed
qed

lemma shrunk_lookup_kept:
  assumes wf: "fs_wf st" and shrunk: "shrunk x gone st st'" and "lookup path st = Some i" and "i \<noteq> x"
  shows "lookup path st' = Some i"
proof -
  obtain d where d: "parent_of path st = Some d" "find_in d (leaf_of path) st = Some i"
    using assms by (auto simp: lookup_def split: Option.bind_splits)
  have dd: "d < dir_count st" by (rule parent_less [OF wf d(1)])
  have "dfiles (slot d st) \<noteq> []" using d(2) by (auto simp: find_in_def find_Some_iff slot_def)
  then have "gone \<noteq> Some d" using shrunkD(4) [OF shrunk, of d] by auto
  then show ?thesis
    using shrunk_parent [OF wf shrunk d(1)] shrunk_find_kept [OF wf shrunk dd d(2) assms(4)] by (simp add: lookup_def)
qed

lemma shrunk_lookup_gone:
  assumes wf: "fs_wf st" and shrunk: "shrunk x gone st st'"
  shows "lookup path st' \<noteq> Some x"
proof
  assume "lookup path st' = Some x"
  then obtain d where "d < dir_count st'" "x \<in> set (dfiles (slot d st'))"
    using lookup_Some [OF shrunk_wf [OF wf shrunk], of path x] by metis
  then show False using shrunk_listed [OF wf shrunk] shrunkD(8) [OF shrunk] by simp
qed

end
