(* ===== verification/FsInv.thy ===== *)
theory FsInv
  imports FsTables
begin

text \<open>
  The file system's invariant: well-formed tables, and contents in blocks of the allocator that no two
  files share. The operations on the tables are those of theory FsTables; what the allocator promises
  comes from its contract.
\<close>

section \<open>The allocator below the file system\<close>

definition fs_heap :: "'a libc_scheme \<Rightarrow> (u32 \<rightharpoonup> nat) \<Rightarrow> bool" where
  "fs_heap st L \<longleftrightarrow>
     (if lib_heap_initialized st then libc_live st L
      else L = Map.empty \<and> 0 < unat (lib_heap st) \<and> unat (lib_heap st) + 0x100000 < 4294967296)"

definition libc_step :: "'a libc_scheme \<Rightarrow> 'a libc_scheme \<Rightarrow> bool" where
  "libc_step st st' \<longleftrightarrow>
     st' = st\<lparr>lib_mem := lib_mem st', free_list := free_list st', lib_heap_initialized := lib_heap_initialized st'\<rparr> \<and>
     unchanged_outside (lib_mem st) (lib_mem st') (unat (lib_heap st)) (unat (lib_heap st) + 0x100000)"

lemma libc_step_refl [simp]: "libc_step st st"
  by (simp add: libc_step_def)

lemma libc_step_heap: "libc_step st st' \<Longrightarrow> lib_heap st' = lib_heap st"
  unfolding libc_step_def by (metis (no_types, lifting) libc.select_convs(2) libc.surjective libc.update_convs(1,3,4))

lemma libc_step_trans:
  assumes "libc_step a b" and "libc_step b c"
  shows "libc_step a c"
proof -
  have "c = a\<lparr>lib_mem := lib_mem c, free_list := free_list c, lib_heap_initialized := lib_heap_initialized c\<rparr>"
    using assms by (cases a; cases b; cases c) (simp add: libc_step_def)
  then show ?thesis
    using assms libc_step_heap [OF assms(1)] unchanged_outside_trans by (auto simp: libc_step_def)
qed

lemma libc_changes_step: "libc_changes st st' \<Longrightarrow> libc_step st st'"
  by (cases st; cases st') (simp add: libc_changes_def libc_step_def)

lemma libc_rep_cong:
  "lib_mem st' = lib_mem st \<Longrightarrow> lib_heap st' = lib_heap st \<Longrightarrow> free_list st' = free_list st \<Longrightarrow>
   lib_heap_initialized st' = lib_heap_initialized st \<Longrightarrow> libc_rep st' bs = libc_rep st bs"
  by (simp add: libc_rep_def)

lemma fs_heap_cong:
  "lib_mem st' = lib_mem st \<Longrightarrow> lib_heap st' = lib_heap st \<Longrightarrow> free_list st' = free_list st \<Longrightarrow>
   lib_heap_initialized st' = lib_heap_initialized st \<Longrightarrow> fs_heap st' L = fs_heap st L"
  by (simp add: fs_heap_def libc_live_def libc_rep_def)

lemma fs_heap_initialize:
  assumes "fs_heap st L"
  shows "libc_live (initialize_heap st) L" and "libc_step st (initialize_heap st)"
    and "kept L (lib_mem st) (lib_mem (initialize_heap st))" and "lib_heap_initialized (initialize_heap st)"
proof -
  have i: "lib_heap_initialized (initialize_heap st)" by (simp add: initialize_heap_def Let_def)
  have "libc_live (initialize_heap st) L \<and> libc_step st (initialize_heap st) \<and> kept L (lib_mem st) (lib_mem (initialize_heap st))"
  proof (cases "lib_heap_initialized st")
    case True
    then show ?thesis using assms by (simp add: fs_heap_def initialize_heap_def kept_def)
  next
    case False
    then have L: "L = Map.empty" and b: "0 < unat (lib_heap st)" "unat (lib_heap st) + 0x100000 < 4294967296"
      using assms by (simp_all add: fs_heap_def)
    note r = initialize_heap_rep [OF False b]
    have "lib_heap (initialize_heap st) = lib_heap st" by (simp add: initialize_heap_def Let_def)
    then have "live_map (unat (lib_heap (initialize_heap st))) [(0x100000 - 12, True)] = Map.empty"
      by (simp add: live_map_def)
    moreover have "initialize_heap st = st\<lparr>lib_mem := lib_mem (initialize_heap st), free_list := free_list (initialize_heap st),
        lib_heap_initialized := lib_heap_initialized (initialize_heap st)\<rparr>"
      using False by (cases st) (simp add: initialize_heap_def Let_def)
    ultimately show ?thesis
      using r(1) unchanged_outside_mono [OF r(2), of "unat (lib_heap st)" "unat (lib_heap st) + 0x100000"]
      unfolding libc_live_def libc_step_def L kept_def by auto
  qed
  then show "libc_live (initialize_heap st) L" and "libc_step st (initialize_heap st)"
    and "kept L (lib_mem st) (lib_mem (initialize_heap st))" by blast+
  show "lib_heap_initialized (initialize_heap st)" by (rule i)
qed

lemma libc_changes_initialized: "libc_changes st st' \<Longrightarrow> lib_heap_initialized st' = lib_heap_initialized st"
  by (cases st; cases st') (simp add: libc_changes_def)

lemma fs_malloc:
  assumes "fs_heap st L" and "k \<le> 4294967288"
  obtains p st' n where "malloc k st = Some (p, st')" and "libc_step st st'" and "kept L (lib_mem st) (lib_mem st')"
    and "p = 0 \<and> fs_heap st' L \<or> p \<noteq> 0 \<and> L p = None \<and> unat k \<le> n \<and> fs_heap st' (L(p \<mapsto> n))"
proof -
  note i = fs_heap_initialize [OF assms(1)]
  define st0 where "st0 = initialize_heap st"
  have served: "libc_served k st0" using assms(2) by (simp add: libc_served_def)
  obtain bs where rep: "libc_rep st0 bs" "L = live_map (unat (lib_heap st0)) bs"
    using i(1) by (auto simp: libc_live_def st0_def)
  have m: "malloc k st = malloc k st0" unfolding st0_def by (rule malloc_initialized)
  show ?thesis
  proof (cases "first_fit (unat (malloc_size k)) bs")
    case None
    then have "malloc k st = Some (0, st0)" using malloc_no_fit [OF rep(1)] m by simp
    then show ?thesis using that [of 0 st0] i by (simp add: fs_heap_def st0_def)
  next
    case (Some r)
    then obtain xs s ys where "first_fit (unat (malloc_size k)) bs = Some (xs, s, ys)" by (cases r) auto
    then obtain p st' n where c: "malloc k st0 = Some (p, st')" "p \<noteq> 0" "L p = None" "unat k \<le> n"
      "libc_live st' (L(p \<mapsto> n))" "kept L (lib_mem st0) (lib_mem st')" "libc_changes st0 st'"
      by (rule libc_live_carved [OF rep served])
    have "libc_step st st'" using libc_step_trans i(2) libc_changes_step [OF c(7)] unfolding st0_def by blast
    moreover have "kept L (lib_mem st) (lib_mem st')" using kept_trans i(3) c(6) unfolding st0_def by blast
    moreover have "fs_heap st' (L(p \<mapsto> n))"
      using c(5) libc_changes_initialized [OF c(7)] i(4) by (simp add: fs_heap_def st0_def)
    ultimately show ?thesis using that c m by metis
  qed
qed

lemma fs_free:
  assumes "fs_heap st L" and "L p = Some n"
  obtains st' where "free p st = Some st'" and "libc_step st st'" and "kept (L(p := None)) (lib_mem st) (lib_mem st')"
    and "fs_heap st' (L(p := None))"
proof -
  have i: "lib_heap_initialized st" "libc_live st L" using assms by (auto simp: fs_heap_def split: if_splits)
  obtain st' where "free p st = Some st'" "libc_live st' (L(p := None))" "kept (L(p := None)) (lib_mem st) (lib_mem st')"
    "libc_changes st st'"
    by (rule libc_free_live [OF i(2) assms(2)])
  then show ?thesis using that libc_changes_step libc_changes_initialized i(1) by (metis fs_heap_def)
qed

lemma fs_heap_write:
  assumes "fs_heap st L" and "L p = Some n" and "unchanged_outside (lib_mem st) m (unat p) (unat p + n)"
  shows "fs_heap (st\<lparr>lib_mem := m\<rparr>) L"
proof -
  have i: "lib_heap_initialized st" and live: "libc_live st L" using assms by (auto simp: fs_heap_def split: if_splits)
  show ?thesis using libc_write_live [OF live assms(2,3)] i by (simp add: fs_heap_def)
qed

lemma fs_heap_live: "fs_heap st L \<Longrightarrow> L p = Some n \<Longrightarrow> libc_live st L"
  by (auto simp: fs_heap_def split: if_splits)

text \<open>A live block lies in the array.\<close>

lemma fs_heap_area:
  assumes "fs_heap st L" and "L p = Some n"
  shows "unat (lib_heap st) + 12 \<le> unat p" "unat p + n \<le> unat (lib_heap st) + 0x100000"
    "unat (lib_heap st) + 0x100000 < 4294967296" "p \<noteq> 0"
proof -
  obtain bs where rep: "libc_rep st bs" and L: "L = live_map (unat (lib_heap st)) bs"
    using fs_heap_live [OF assms] by (auto simp: libc_live_def)
  have "unat (lib_heap st) + 12 \<le> unat p \<and> unat p + n \<le> unat (lib_heap st) + span bs"
    by (rule payloads_bounds [OF live_map_Some]) (use assms(2) L in simp)
  then show "unat (lib_heap st) + 12 \<le> unat p" "unat p + n \<le> unat (lib_heap st) + 0x100000"
    "unat (lib_heap st) + 0x100000 < 4294967296" "p \<noteq> 0"
    using rep by (auto simp: libc_rep_def)
qed

text \<open>A byte outside the array is not touched by a step of the allocator.\<close>

definition outside_heap :: "'a libc_scheme \<Rightarrow> u32 \<Rightarrow> nat \<Rightarrow> bool" where
  "outside_heap st a n \<longleftrightarrow> unat a + n \<le> 4294967296 \<and> (unat a + n \<le> unat (lib_heap st) \<or> unat (lib_heap st) + 0x100000 \<le> unat a)"

section \<open>Files and their contents\<close>

definition is_file :: "nat \<Rightarrow> 'a filesystem_scheme \<Rightarrow> bool" where
  "is_file i st \<longleftrightarrow> (\<exists>d < dir_count st. i \<in> set (dfiles (slot d st))) \<and> etype (entry_at i st) = FS_TYPE_FILE"

definition contents :: "'a filesystem_scheme \<Rightarrow> nat \<Rightarrow> u8 list" where
  "contents st i =
     (if data_pointer (entry_at i st) = 0 then []
      else map (\<lambda>k. lib_mem st (data_pointer (entry_at i st) + of_nat k)) [0..<unat (esize (entry_at i st))])"

definition fs_data :: "'a filesystem_scheme \<Rightarrow> (u32 \<rightharpoonup> nat) \<Rightarrow> bool" where
  "fs_data st L \<longleftrightarrow> fs_heap st L \<and>
     (\<forall>i. is_file i st \<longrightarrow> data_pointer (entry_at i st) \<noteq> 0 \<longrightarrow>
        (\<exists>n. L (data_pointer (entry_at i st)) = Some n \<and> unat (esize (entry_at i st)) \<le> n)) \<and>
     (\<forall>i j. is_file i st \<longrightarrow> is_file j st \<longrightarrow> data_pointer (entry_at i st) = data_pointer (entry_at j st) \<longrightarrow>
        data_pointer (entry_at i st) \<noteq> 0 \<longrightarrow> i = j)"

text \<open>The files but those in \<open>X\<close> are the same in two states.\<close>

definition files_kept :: "nat set \<Rightarrow> 'a filesystem_scheme \<Rightarrow> 'a filesystem_scheme \<Rightarrow> bool" where
  "files_kept X st st' \<longleftrightarrow>
     (\<forall>i. is_file i st \<longrightarrow> i \<notin> X \<longrightarrow> is_file i st' \<and> entry_at i st' = entry_at i st \<and> contents st' i = contents st i)"

lemma files_kept_refl [simp]: "files_kept X st st"
  by (simp add: files_kept_def)

lemma files_kept_mono: "files_kept X a b \<Longrightarrow> X \<subseteq> Y \<Longrightarrow> files_kept Y a b"
  unfolding files_kept_def by blast

lemma files_kept_trans: "files_kept X a b \<Longrightarrow> files_kept X b c \<Longrightarrow> files_kept X a c"
  by (simp add: files_kept_def)

lemma fs_dataD:
  assumes "fs_data st L"
  shows "fs_heap st L"
    "is_file i st \<Longrightarrow> data_pointer (entry_at i st) \<noteq> 0 \<Longrightarrow> \<exists>n. L (data_pointer (entry_at i st)) = Some n \<and> unat (esize (entry_at i st)) \<le> n"
    "is_file i st \<Longrightarrow> is_file j st \<Longrightarrow> data_pointer (entry_at i st) = data_pointer (entry_at j st) \<Longrightarrow> data_pointer (entry_at i st) \<noteq> 0 \<Longrightarrow> i = j"
  using assms unfolding fs_data_def by blast+

lemma contents_kept:
  assumes "fs_data st L" and "is_file i st" and "kept M (lib_mem st) (lib_mem st')"
    and "data_pointer (entry_at i st) \<noteq> 0 \<Longrightarrow> M (data_pointer (entry_at i st)) = L (data_pointer (entry_at i st))"
    and "entry_at i st' = entry_at i st"
  shows "contents st' i = contents st i"
proof (cases "data_pointer (entry_at i st) = 0")
  case False
  then obtain n where "M (data_pointer (entry_at i st)) = Some n" "unat (esize (entry_at i st)) \<le> n"
    using fs_dataD(2) [OF assms(1,2)] assms(4) by auto
  then show ?thesis using assms(3,5) False by (simp add: contents_def kept_def)
qed (simp add: contents_def assms(5))

text \<open>\<open>parsed\<close> changes nothing of this.\<close>

lemma parsed_slot [simp]: "slot d (parsed st) = slot d st" "entry_at i (parsed st) = entry_at i st"
  by (simp_all add: slot_def entry_at_def)

lemma parsed_file [simp]: "is_file i (parsed st) = is_file i st" "contents (parsed st) i = contents st i"
  by (simp_all add: is_file_def contents_def)

lemma parsed_heap [simp]: "fs_heap (parsed st) L = fs_heap st L"
  by (rule fs_heap_cong) simp_all

lemma parsed_data [simp]: "fs_data (parsed st) L = fs_data st L"
  unfolding fs_data_def parsed_heap parsed_file parsed_slot ..

lemma parsed_shape [simp]: "same_shape st (parsed st)" "files_kept X st (parsed st)"
  by (simp_all add: same_shape_def files_kept_def)

lemma parsed_parsed [simp]: "parsed (parsed st) = parsed st"
  by simp

lemma parsed_wf [simp]: "fs_wf st \<Longrightarrow> fs_wf (parsed st)"
  by (rule same_shape_wf [of st]) simp_all

lemma parsed_lookup [simp]: "lookup path (parsed st) = lookup path st" "parent_of path (parsed st) = parent_of path st"
  by (rule same_shape_lookup same_shape_parent, rule parsed_shape)+

text \<open>A step of the allocator.\<close>

lemma libc_step_fields:
  fixes st st' :: "'a filesystem_scheme"
  assumes "libc_step st st'"
  shows "directories st' = directories st" "entries st' = entries st" "dir_count st' = dir_count st" "file_count st' = file_count st"
    "fs_initialized st' = fs_initialized st" "current_directory st' = current_directory st" "same_shape st st'"
    "slot d st' = slot d st" "entry_at i st' = entry_at i st" "is_file i st' = is_file i st"
proof -
  have e: "st' = st\<lparr>lib_mem := lib_mem st', free_list := free_list st', lib_heap_initialized := lib_heap_initialized st'\<rparr>"
    using assms by (simp add: libc_step_def)
  show f: "directories st' = directories st" "entries st' = entries st" "dir_count st' = dir_count st" "file_count st' = file_count st"
    "fs_initialized st' = fs_initialized st" "current_directory st' = current_directory st"
    by (subst e; simp)+
  then show "same_shape st st'" "slot d st' = slot d st" "entry_at i st' = entry_at i st" "is_file i st' = is_file i st"
    by (simp_all add: same_shape_def slot_def entry_at_def is_file_def)
qed

lemma fs_data_step:
  fixes st st' :: "'a filesystem_scheme"
  assumes "libc_step st st'" and "fs_data st L" and "fs_heap st' L'"
    and "\<And>i. is_file i st \<Longrightarrow> data_pointer (entry_at i st) \<noteq> 0 \<Longrightarrow> L' (data_pointer (entry_at i st)) = L (data_pointer (entry_at i st))"
  shows "fs_data st' L'"
  using assms unfolding fs_data_def libc_step_fields(9,10) [OF assms(1)] by metis

lemma files_kept_step:
  fixes st st' :: "'a filesystem_scheme"
  assumes "libc_step st st'" and "fs_data st L" and "kept L (lib_mem st) (lib_mem st')"
  shows "files_kept X st st'"
  unfolding files_kept_def
  using contents_kept [OF assms(2) _ assms(3)] libc_step_fields(9,10) [OF assms(1)] by blast

section \<open>Creating a file\<close>

definition new_file :: "u8 list \<Rightarrow> u32 \<Rightarrow> u32 \<Rightarrow> nat \<Rightarrow> 'a filesystem_scheme \<Rightarrow> 'a filesystem_scheme" where
  "new_file name sz dp p st =
     update_directory p (\<lambda>d. d\<lparr>dfiles := dfiles d @ [file_count st]\<rparr>)
       (update_entry_at (file_count st) (\<lambda>e. e\<lparr>ename := name, etype := FS_TYPE_FILE, esize := sz, data_pointer := dp, eparent := p, ecreation_time := 0\<rparr>)
         (st\<lparr>file_count := Suc (file_count st)\<rparr>))"

text \<open>What the checks before the allocation ask for.\<close>

definition may_create :: "u8 list \<Rightarrow> nat \<Rightarrow> 'a filesystem_scheme \<Rightarrow> bool" where
  "may_create path p st \<longleftrightarrow> fs_initialized st \<and> (is_root_path path \<or> lookup path st = None) \<and> parent_of path st = Some p
     \<and> file_count st < 128 \<and> length (dfiles (slot p st)) < 64"

lemma fs_create_refuses:
  assumes "\<And>p. \<not> may_create path p st"
  shows "fs_create path sz st = Some (- 1, st) \<or> fs_create path sz st = Some (- 1, parsed st)"
  using assms
  by (auto simp: fs_create_def may_create_def fs_find_eq fs_find_parent_dir_eq fs_get_filename_eq slot_def FS_MAX_FILES_def
      FS_MAX_FILES_PER_DIR_def not_less Let_def split: option.splits)

lemma fs_create_allowed:
  assumes "may_create path p st"
  shows "fs_create path sz st = Option.bind (if 0 < sz then malloc sz (parsed st) else Some (0, parsed st)) (\<lambda>(q, st).
    if 0 < sz \<and> q = 0 then Some (- 1, st) else Some (0, new_file (leaf_of path) sz q p st))"
  using assms
  by (auto simp: fs_create_def may_create_def fs_find_eq fs_find_parent_dir_eq fs_get_filename_eq slot_def FS_MAX_FILES_def
      FS_MAX_FILES_PER_DIR_def new_file_def not_le Let_def intro!: arg_cong [where f = "Option.bind _"] split: option.splits)

end
