(* ===== verification/FsSteps.thy ===== *)
theory FsSteps
  imports FsInv
begin

text \<open>
  Changes of the file system with the blocks of its allocator, as one relation \<open>fs_trans\<close> that is
  closed under composition: the tables stay well-formed, the contents stay in blocks of their own, the
  files but those in \<open>X\<close> keep entry and contents, and so do the allocator's blocks that belong to
  no file, but for the blocks in \<open>W\<close>.
\<close>

section \<open>The relation\<close>

definition unowned :: "u32 \<Rightarrow> 'a filesystem_scheme \<Rightarrow> bool" where
  "unowned q st \<longleftrightarrow> (\<forall>i. is_file i st \<longrightarrow> data_pointer (entry_at i st) \<noteq> q)"

definition same_block :: "u32 \<Rightarrow> nat \<Rightarrow> 'a libc_scheme \<Rightarrow> 'a libc_scheme \<Rightarrow> bool" where
  "same_block q n st st' \<longleftrightarrow> (\<forall>k < n. lib_mem st' (q + of_nat k) = lib_mem st (q + of_nat k))"

text \<open>The allocator rounds a size up: above this bound it wraps around.\<close>

definition sizes_ok :: "'a filesystem_scheme \<Rightarrow> bool" where
  "sizes_ok st \<longleftrightarrow> (\<forall>i. is_file i st \<longrightarrow> esize (entry_at i st) \<le> 4294967288)"

definition fs_trans :: "nat set \<Rightarrow> u32 set \<Rightarrow> 'a filesystem_scheme \<Rightarrow> (u32 \<rightharpoonup> nat) \<Rightarrow> 'a filesystem_scheme \<Rightarrow> (u32 \<rightharpoonup> nat) \<Rightarrow> bool" where
  "fs_trans X W st L st' L' \<longleftrightarrow> fs_wf st' \<and> fs_data st' L' \<and> files_kept X st st' \<and> lib_heap st' = lib_heap st \<and>
     (sizes_ok st \<longrightarrow> sizes_ok st') \<and> file_count st \<le> file_count st' \<and>
     unchanged_outside (lib_mem st) (lib_mem st') (unat (lib_heap st)) (unat (lib_heap st) + 0x100000) \<and>
     (\<forall>q n. L q = Some n \<longrightarrow> q \<notin> W \<longrightarrow> unowned q st \<longrightarrow> L' q = Some n \<and> unowned q st' \<and> same_block q n st st')"

lemma fs_transI:
  assumes "fs_wf st'" and "fs_data st' L'" and "files_kept X st st'" and "lib_heap st' = lib_heap st"
    and "unchanged_outside (lib_mem st) (lib_mem st') (unat (lib_heap st)) (unat (lib_heap st) + 0x100000)"
    and "sizes_ok st \<Longrightarrow> sizes_ok st'" and "file_count st \<le> file_count st'"
    and "\<And>q n. L q = Some n \<Longrightarrow> q \<notin> W \<Longrightarrow> unowned q st \<Longrightarrow> L' q = Some n \<and> unowned q st' \<and> same_block q n st st'"
  shows "fs_trans X W st L st' L'"
  using assms by (simp add: fs_trans_def)

lemma fs_transD:
  assumes "fs_trans X W st L st' L'"
  shows "fs_wf st'" "fs_data st' L'" "files_kept X st st'" "lib_heap st' = lib_heap st"
    "unchanged_outside (lib_mem st) (lib_mem st') (unat (lib_heap st)) (unat (lib_heap st) + 0x100000)"
    "L q = Some n \<Longrightarrow> q \<notin> W \<Longrightarrow> unowned q st \<Longrightarrow> L' q = Some n \<and> unowned q st' \<and> same_block q n st st'"
    "sizes_ok st \<Longrightarrow> sizes_ok st'" "file_count st \<le> file_count st'"
  using assms by (simp_all add: fs_trans_def)

lemma fs_trans_refl: "fs_wf st \<Longrightarrow> fs_data st L \<Longrightarrow> fs_trans X W st L st L"
  by (simp add: fs_trans_def same_block_def)

text \<open>In a composition only what was there at the start counts.\<close>

lemma fs_trans_trans:
  assumes ab: "fs_trans X V a L b L'" and bc: "fs_trans Y W b L' c L''"
    and XY: "\<And>i. i \<in> X \<union> Y \<Longrightarrow> is_file i a \<Longrightarrow> i \<in> Z"
    and VW: "\<And>q. q \<in> V \<union> W \<Longrightarrow> L q \<noteq> None \<Longrightarrow> unowned q a \<Longrightarrow> q \<in> U"
  shows "fs_trans Z U a L c L''"
proof (rule fs_transI)
  show "fs_wf c" "fs_data c L''" "lib_heap c = lib_heap a"
    using fs_transD(1,2,4) [OF bc] fs_transD(4) [OF ab] by simp_all
  show "file_count a \<le> file_count c" using fs_transD(8) [OF ab] fs_transD(8) [OF bc] by (rule le_trans)
  show "sizes_ok a \<Longrightarrow> sizes_ok c" using fs_transD(7) [OF ab] fs_transD(7) [OF bc] by blast
  show "files_kept Z a c"
    unfolding files_kept_def
  proof (intro allI impI)
    fix i
    assume i: "is_file i a" "i \<notin> Z"
    then have "i \<notin> X" "i \<notin> Y" using XY [of i] by blast+
    then have b: "is_file i b" "entry_at i b = entry_at i a" "contents b i = contents a i"
      using fs_transD(3) [OF ab] i(1) unfolding files_kept_def by blast+
    then have "is_file i c \<and> entry_at i c = entry_at i b \<and> contents c i = contents b i"
      using fs_transD(3) [OF bc] \<open>i \<notin> Y\<close> unfolding files_kept_def by blast
    then show "is_file i c \<and> entry_at i c = entry_at i a \<and> contents c i = contents a i"
      using b(2,3) by metis
  qed
  show "unchanged_outside (lib_mem a) (lib_mem c) (unat (lib_heap a)) (unat (lib_heap a) + 0x100000)"
    using unchanged_outside_trans [OF fs_transD(5) [OF ab]] fs_transD(4) [OF ab] fs_transD(5) [OF bc] by simp
  fix q n
  assume q: "L q = Some n" "q \<notin> U" "unowned q a"
  then have "q \<notin> V" "q \<notin> W" using VW [of q] by auto
  then have "L' q = Some n" "unowned q b" "same_block q n a b" "L'' q = Some n" "unowned q c" "same_block q n b c"
    using fs_transD(6) [OF ab q(1) _ q(3)] fs_transD(6) [OF bc, of q n] by simp_all
  then show "L'' q = Some n \<and> unowned q c \<and> same_block q n a c" by (simp add: same_block_def)
qed

text \<open>Reading a byte of memory that no file owns: outside of the allocator's array or in a block of the caller.\<close>

definition foreign :: "u32 \<Rightarrow> nat \<Rightarrow> 'a filesystem_scheme \<Rightarrow> (u32 \<rightharpoonup> nat) \<Rightarrow> bool" where
  "foreign p k st L \<longleftrightarrow> unat p + k \<le> 4294967296 \<and>
     (outside_heap st p k \<or> (\<exists>n. L p = Some n \<and> k \<le> n \<and> unowned p st))"

lemma outside_heap_unchanged:
  assumes "outside_heap st p k" and "unchanged_outside (lib_mem st) m (unat (lib_heap st)) (unat (lib_heap st) + 0x100000)" and "i < k"
  shows "m (p + of_nat i) = lib_mem st (p + of_nat i)"
proof -
  have "unat (p + of_nat i) = unat p + i"
    using assms(1,3) unat_of_nat_add_u32 [of "unat p" i] by (simp add: outside_heap_def)
  then show ?thesis using assms by (auto simp: unchanged_outside_def outside_heap_def)
qed

lemma foreign_kept:
  assumes "fs_trans X W st L st' L'" and "foreign p k st L" and "p \<notin> W"
  shows "foreign p k st' L'" and "i < k \<Longrightarrow> lib_mem st' (p + of_nat i) = lib_mem st (p + of_nat i)"
proof -
  have "foreign p k st' L' \<and> (i < k \<longrightarrow> lib_mem st' (p + of_nat i) = lib_mem st (p + of_nat i))"
  proof (cases "outside_heap st p k")
    case True
    then have "outside_heap st' p k" using fs_transD(4) [OF assms(1)] by (simp add: outside_heap_def)
    then show ?thesis
      using True assms(2) outside_heap_unchanged [OF True fs_transD(5) [OF assms(1)]] by (simp add: foreign_def)
  next
    case False
    then obtain n where n: "L p = Some n" "k \<le> n" "unowned p st" using assms(2) by (auto simp: foreign_def)
    then show ?thesis using fs_transD(6) [OF assms(1) n(1) assms(3) n(3)] assms(2) by (auto simp: foreign_def same_block_def)
  qed
  then show "foreign p k st' L'" and "i < k \<Longrightarrow> lib_mem st' (p + of_nat i) = lib_mem st (p + of_nat i)" by simp_all
qed

section \<open>Steps of the allocator\<close>

lemma fs_trans_parsed: "fs_wf st \<Longrightarrow> fs_data st L \<Longrightarrow> fs_trans X W st L (parsed st) L"
  by (rule fs_transI) (simp_all add: unowned_def same_block_def sizes_ok_def)

lemma fs_trans_libc:
  fixes st st' :: "'a filesystem_scheme"
  assumes wf: "fs_wf st" and data: "fs_data st L" and step: "libc_step st st'" and heap: "fs_heap st' L'"
    and kept: "kept M (lib_mem st) (lib_mem st')"
    and M: "\<And>q. q \<notin> W \<Longrightarrow> L q \<noteq> None \<Longrightarrow> M q = L q \<and> L' q = L q"
    and W: "\<And>q. q \<in> W \<Longrightarrow> q \<noteq> 0 \<Longrightarrow> unowned q st"
  shows "fs_trans X W st L st' L'"
proof (rule fs_transI)
  note f = libc_step_fields [OF step]
  have own: "M q = L q \<and> L' q = L q" if "is_file i st" "data_pointer (entry_at i st) = q" "q \<noteq> 0" for i q
    using M [of q] W [of q] fs_dataD(2) [OF data that(1)] that by (auto simp: unowned_def)
  show "fs_wf st'" by (rule same_shape_wf [OF f(7) wf])
  show "fs_data st' L'" by (rule fs_data_step [OF step data heap]) (use own in blast)
  show "files_kept X st st'" unfolding files_kept_def f(9,10)
    using contents_kept [OF data _ kept] own f(9) by blast
  show "lib_heap st' = lib_heap st" by (rule libc_step_heap [OF step])
  show "sizes_ok st \<Longrightarrow> sizes_ok st'" by (simp add: sizes_ok_def f(9,10))
  show "file_count st \<le> file_count st'" by (simp add: f(4))
  show "unchanged_outside (lib_mem st) (lib_mem st') (unat (lib_heap st)) (unat (lib_heap st) + 0x100000)"
    using step by (simp add: libc_step_def)
  fix q n
  assume q: "L q = Some n" "q \<notin> W" "unowned q st"
  then have "M q = Some n" "L' q = Some n" using M by auto
  then show "L' q = Some n \<and> unowned q st' \<and> same_block q n st st'"
    using q kept by (simp add: unowned_def f(9,10) same_block_def kept_def)
qed

lemma fs_trans_malloc:
  fixes st :: "'a filesystem_scheme"
  assumes wf: "fs_wf st" and data: "fs_data st L" and k: "k \<le> 4294967288"
  obtains p st' L' where "malloc k st = Some (p, st')" and "fs_trans {} {} st L st' L'" and "libc_step st st'"
    and "p \<noteq> 0 \<longrightarrow> L p = None \<and> unowned p st' \<and> (\<exists>n. L' p = Some n \<and> unat k \<le> n)"
proof -
  obtain p st' n where m: "malloc k st = Some (p, st')" "libc_step st st'" "kept L (lib_mem st) (lib_mem st')"
    and c: "p = 0 \<and> fs_heap st' L \<or> p \<noteq> 0 \<and> L p = None \<and> unat k \<le> n \<and> fs_heap st' (L(p \<mapsto> n))"
    by (rule fs_malloc [OF fs_dataD(1) [OF data] k])
  show ?thesis
  proof (cases "p = 0")
    case True
    then show ?thesis using that [OF m(1) fs_trans_libc [OF wf data m(2) _ m(3)] m(2)] c by blast
  next
    case False
    then have c: "L p = None" "unat k \<le> n" "fs_heap st' (L(p \<mapsto> n))" using c by simp_all
    have "unowned p st"
      unfolding unowned_def
    proof (intro allI impI notI)
      fix i
      assume "is_file i st" "data_pointer (entry_at i st) = p"
      then show False using fs_dataD(2) [OF data, of i] c(1) False by auto
    qed
    moreover have "fs_trans {} {} st L st' (L(p \<mapsto> n))"
      by (rule fs_trans_libc [OF wf data m(2) _ m(3)]) (use c False in auto)
    ultimately show ?thesis
      using that [OF m(1) _ m(2)] c False libc_step_fields(9,10) [OF m(2)] by (auto simp: unowned_def)
  qed
qed

lemma fs_trans_free:
  fixes st :: "'a filesystem_scheme"
  assumes wf: "fs_wf st" and data: "fs_data st L" and p: "L p = Some n" "unowned p st"
  obtains st' where "free p st = Some st'" and "fs_trans {} {p} st L st' (L(p := None))" and "libc_step st st'"
proof -
  obtain st' where f: "free p st = Some st'" "libc_step st st'" "kept (L(p := None)) (lib_mem st) (lib_mem st')" "fs_heap st' (L(p := None))"
    by (rule fs_free [OF fs_dataD(1) [OF data] p(1)])
  have "fs_trans {} {p} st L st' (L(p := None))"
    by (rule fs_trans_libc [OF wf data f(2,4,3)]) (use p in auto)
  then show ?thesis using that f by blast
qed

end
