(* ===== verification/FsChanges.thy ===== *)
theory FsChanges
  imports FsSteps
begin

text \<open>
  The changes of the tables as steps of the relation \<open>fs_trans\<close>: a new entry, an entry that is
  unlinked, and an entry that gets other data.
\<close>

section \<open>Files\<close>

lemma is_file_less:
  assumes "fs_wf st" and "is_file i st"
  shows "i < file_count st" "i < 128" "i < length (entries st)"
  using assms fs_wfD(2,5) [OF assms(1)] fs_wfD(7) [OF assms(1)] unfolding is_file_def listing_ok_def by fastforce+

lemma lookup_file:
  assumes "fs_wf st" and "lookup path st = Some i" and "etype (entry_at i st) = FS_TYPE_FILE"
  shows "is_file i st"
  using lookup_Some [OF assms(1,2)] assms(3) unfolding is_file_def by blast

lemma entry_at_update [simp]:
  "x < length (entries st) \<Longrightarrow> entry_at i (update_entry_at x f st) = (if i = x then f (entry_at x st) else entry_at i st)"
  by (simp add: update_entry_at_def entry_at_def)

lemma slot_update_entry [simp]: "slot d (update_entry_at x f st) = slot d st"
  by (simp add: update_entry_at_def slot_def)

lemma slot_update_directory [simp]:
  "x < length (directories st) \<Longrightarrow> slot d (update_directory x f st) = (if d = x then f (slot x st) else slot d st)"
  by (simp add: update_directory_def slot_def)

lemma entry_at_update_directory [simp]: "entry_at i (update_directory x f st) = entry_at i st"
  by (simp add: update_directory_def entry_at_def)

lemma update_entry_fields [simp]:
  "lib_mem (update_entry_at x f st) = lib_mem st" "lib_heap (update_entry_at x f st) = lib_heap st"
  "free_list (update_entry_at x f st) = free_list st" "lib_heap_initialized (update_entry_at x f st) = lib_heap_initialized st"
  "directories (update_entry_at x f st) = directories st" "dir_count (update_entry_at x f st) = dir_count st"
  "file_count (update_entry_at x f st) = file_count st" "fs_initialized (update_entry_at x f st) = fs_initialized st"
  "length (entries (update_entry_at x f st)) = length (entries st)"
  "current_directory (update_entry_at x f st) = current_directory st" "last_token (update_entry_at x f st) = last_token st"
  by (simp_all add: update_entry_at_def)

lemma update_directory_fields [simp]:
  "lib_mem (update_directory x g st) = lib_mem st" "lib_heap (update_directory x g st) = lib_heap st"
  "free_list (update_directory x g st) = free_list st" "lib_heap_initialized (update_directory x g st) = lib_heap_initialized st"
  "entries (update_directory x g st) = entries st" "dir_count (update_directory x g st) = dir_count st"
  "file_count (update_directory x g st) = file_count st" "fs_initialized (update_directory x g st) = fs_initialized st"
  "length (directories (update_directory x g st)) = length (directories st)"
  "current_directory (update_directory x g st) = current_directory st" "last_token (update_directory x g st) = last_token st"
  by (simp_all add: update_directory_def)

text \<open>States with the same memory and the same allocator.\<close>

definition same_lib :: "'a libc_scheme \<Rightarrow> 'a libc_scheme \<Rightarrow> bool" where
  "same_lib st st' \<longleftrightarrow> lib_mem st' = lib_mem st \<and> lib_heap st' = lib_heap st \<and> free_list st' = free_list st
     \<and> lib_heap_initialized st' = lib_heap_initialized st"

lemma same_lib_heap: "same_lib st st' \<Longrightarrow> fs_heap st' L = fs_heap st L"
  by (rule fs_heap_cong) (simp_all add: same_lib_def)

lemma contents_same: "lib_mem st' = lib_mem st \<Longrightarrow> entry_at i st' = entry_at i st \<Longrightarrow> contents st' i = contents st i"
  by (simp add: contents_def)

text \<open>A change of the tables alone is a step when the files stay what they are; \<open>x\<close> may be a file that
  comes, goes, or changes.\<close>

lemma fs_trans_tables:
  assumes wf: "fs_wf st'" and data: "fs_data st L" and lib: "same_lib st st'"
    and old: "\<And>i. i \<noteq> x \<Longrightarrow> is_file i st' = is_file i st" "\<And>i. i \<noteq> x \<Longrightarrow> is_file i st \<Longrightarrow> entry_at i st' = entry_at i st"
    and new: "is_file x st' \<Longrightarrow> data_pointer (entry_at x st') \<noteq> 0 \<Longrightarrow>
      data_pointer (entry_at x st') \<in> W \<and> (\<exists>n. L (data_pointer (entry_at x st')) = Some n \<and> unat (esize (entry_at x st')) \<le> n) \<and>
      (\<forall>i. is_file i st \<longrightarrow> i \<noteq> x \<longrightarrow> data_pointer (entry_at i st) \<noteq> data_pointer (entry_at x st'))"
    and size: "is_file x st' \<Longrightarrow> esize (entry_at x st') \<le> 4294967288 \<or> is_file x st \<and> esize (entry_at x st') = esize (entry_at x st)"
    and count: "file_count st \<le> file_count st'"
  shows "fs_trans {x} W st L st' L"
proof (rule fs_transI [OF wf])
  note D = fs_dataD [OF data]
  show "fs_data st' L"
    unfolding fs_data_def
  proof (intro conjI allI impI)
    show "fs_heap st' L" using D(1) same_lib_heap [OF lib] by simp
  next
    fix i
    assume i: "is_file i st'" "data_pointer (entry_at i st') \<noteq> 0"
    show "\<exists>n. L (data_pointer (entry_at i st')) = Some n \<and> unat (esize (entry_at i st')) \<le> n"
    proof (cases "i = x")
      case True
      then show ?thesis using new i by blast
    next
      case False
      then have f: "is_file i st" using i(1) old(1) by blast
      then show ?thesis using D(2) [OF f] i(2) old(2) [OF False f] by simp
    qed
  next
    fix i j
    assume i: "is_file i st'" and j: "is_file j st'" and e: "data_pointer (entry_at i st') = data_pointer (entry_at j st')"
      "data_pointer (entry_at i st') \<noteq> 0"
    have f: "k \<noteq> x \<Longrightarrow> is_file k st' \<Longrightarrow> is_file k st \<and> entry_at k st' = entry_at k st" for k
      using old by blast
    show "i = j"
    proof (rule ccontr)
      assume "i \<noteq> j"
      then consider "i = x" "j \<noteq> x" | "i \<noteq> x" "j = x" | "i \<noteq> x" "j \<noteq> x" by blast
      then show False
      proof cases
        case 1
        then show False using new i f [OF 1(2) j] e by metis
      next
        case 2
        then show False using new j f [OF 2(1) i] e by metis
      next
        case 3
        then show False using D(3) [of i j] f [OF 3(1) i] f [OF 3(2) j] e \<open>i \<noteq> j\<close> by metis
      qed
    qed
  qed
  have m: "lib_mem st' = lib_mem st" and h: "lib_heap st' = lib_heap st" using lib by (simp_all add: same_lib_def)
  show "files_kept {x} st st'"
    unfolding files_kept_def using old contents_same [OF m] by blast
  show "lib_heap st' = lib_heap st" by (rule h)
  show "file_count st \<le> file_count st'" by (rule count)
  show "sizes_ok st'" if ok: "sizes_ok st"
    unfolding sizes_ok_def
  proof (intro allI impI)
    fix i
    assume "is_file i st'"
    then show "esize (entry_at i st') \<le> 4294967288" using ok old [of i] size unfolding sizes_ok_def by (cases "i = x") auto
  qed
  show "unchanged_outside (lib_mem st) (lib_mem st') (unat (lib_heap st)) (unat (lib_heap st) + 0x100000)"
    by (simp add: m)
  fix q n
  assume q: "L q = Some n" "q \<notin> W" "unowned q st"
  have "q \<noteq> 0" using fs_heap_area(4) [OF D(1) q(1)] .
  have "unowned q st'"
    unfolding unowned_def
  proof (intro allI impI notI)
    fix i
    assume i: "is_file i st'" "data_pointer (entry_at i st') = q"
    show False
    proof (cases "i = x")
      case True
      then show False using new i q(2) \<open>q \<noteq> 0\<close> by blast
    next
      case False
      then show False using old i q(3) unfolding unowned_def by metis
    qed
  qed
  then show "L q = Some n \<and> unowned q st' \<and> same_block q n st st'" using q(1) by (simp add: same_block_def m)
qed

section \<open>A new entry\<close>

lemma grown_is_file:
  assumes wf: "fs_wf st" and grown: "grown p e st st'"
  shows "is_file i st' \<longleftrightarrow> is_file i st \<or> i = file_count st \<and> etype e = FS_TYPE_FILE"
proof
  assume "is_file i st'"
  then obtain d where d: "d < dir_count st'" "i \<in> set (dfiles (slot d st'))" and t: "etype (entry_at i st') = FS_TYPE_FILE"
    by (auto simp: is_file_def)
  have lt: "d < dir_count st"
    using grown_dirs [OF wf grown d(1)] grown_new_slot(3) [OF wf grown] d(2) by auto
  have f: "i \<in> set (dfiles (slot d st)) \<or> i = file_count st"
    using grown_files [OF wf grown, of d] fs_wfD(4) [OF wf] lt d(2) by (auto split: if_splits)
  show "is_file i st \<or> i = file_count st \<and> etype e = FS_TYPE_FILE"
  proof (cases "i = file_count st")
    case True
    then show ?thesis using grownD(13) [OF grown, of i] t by simp
  next
    case False
    then show ?thesis using f grown_listed [OF wf grown lt, of i] lt t by (auto simp: is_file_def)
  qed
next
  assume "is_file i st \<or> i = file_count st \<and> etype e = FS_TYPE_FILE"
  then show "is_file i st'"
  proof (elim disjE conjE)
    assume "is_file i st"
    then obtain d where d: "d < dir_count st" "i \<in> set (dfiles (slot d st))" "etype (entry_at i st) = FS_TYPE_FILE"
      by (auto simp: is_file_def)
    have "d < dir_count st'" using d(1) grownD(12) [OF grown] by simp
    moreover have "i \<in> set (dfiles (slot d st'))"
      using grown_files [OF wf grown, of d] fs_wfD(4) [OF wf] d(1,2) by (auto split: if_splits)
    ultimately show ?thesis using d(3) grown_listed [OF wf grown d(1,2)] unfolding is_file_def by metis
  next
    assume i: "i = file_count st" "etype e = FS_TYPE_FILE"
    have p: "p < dir_count st" by (rule grownD(1) [OF grown])
    then have "i \<in> set (dfiles (slot p st'))" using grown_files [OF wf grown, of p] fs_wfD(4) [OF wf] i(1) by simp
    moreover have "p < dir_count st'" using p grownD(12) [OF grown] by simp
    ultimately show ?thesis using grownD(13) [OF grown, of i] i unfolding is_file_def by auto
  qed
qed

lemma new_is_no_file: "fs_wf st \<Longrightarrow> \<not> is_file (file_count st) st"
  using is_file_less(1) by blast

lemma fs_trans_grown:
  assumes wf: "fs_wf st" and data: "fs_data st L" and grown: "grown p e st st'" and lib: "same_lib st st'"
    and e: "etype e = FS_TYPE_FILE \<Longrightarrow> data_pointer e \<noteq> 0 \<Longrightarrow>
      data_pointer e \<in> W \<and> (\<exists>n. L (data_pointer e) = Some n \<and> unat (esize e) \<le> n) \<and> unowned (data_pointer e) st"
    and size: "etype e = FS_TYPE_FILE \<Longrightarrow> esize e \<le> 4294967288"
  shows "fs_trans {} W st L st' L"
proof -
  have x: "fs_trans {file_count st} W st L st' L"
  proof (rule fs_trans_tables [OF grown_wf [OF wf grown] data lib])
    show "is_file i st' = is_file i st" if "i \<noteq> file_count st" for i using grown_is_file [OF wf grown, of i] that by simp
    show "entry_at i st' = entry_at i st" if "i \<noteq> file_count st" for i using grownD(13) [OF grown, of i] that by simp
    have n: "entry_at (file_count st) st' = e" using grownD(13) [OF grown, of "file_count st"] by simp
    show "file_count st \<le> file_count st'" using grownD(11) [OF grown] by simp
    show "esize (entry_at (file_count st) st') \<le> 4294967288 \<or> is_file (file_count st) st \<and> esize (entry_at (file_count st) st') = esize (entry_at (file_count st) st)"
      if "is_file (file_count st) st'"
      using that size grown_is_file [OF wf grown] new_is_no_file [OF wf] unfolding n by simp
    assume "is_file (file_count st) st'" "data_pointer (entry_at (file_count st) st') \<noteq> 0"
    then show "data_pointer (entry_at (file_count st) st') \<in> W \<and>
      (\<exists>n. L (data_pointer (entry_at (file_count st) st')) = Some n \<and> unat (esize (entry_at (file_count st) st')) \<le> n) \<and>
      (\<forall>i. is_file i st \<longrightarrow> i \<noteq> file_count st \<longrightarrow> data_pointer (entry_at i st) \<noteq> data_pointer (entry_at (file_count st) st'))"
      using e unfolding n by (auto simp: is_file_def n unowned_def)
  qed
  show ?thesis
    by (rule fs_trans_trans [OF x fs_trans_refl [of _ _ "{}" "{}"]])
      (use x fs_transD(1,2) [OF x] new_is_no_file [OF wf] in \<open>auto\<close>)
qed

section \<open>An entry that goes\<close>

lemma shrunk_is_file:
  assumes wf: "fs_wf st" and shrunk: "shrunk x gone st st'"
  shows "is_file i st' \<longleftrightarrow> is_file i st \<and> i \<noteq> x"
  using shrunk_listed [OF wf shrunk] shrunkD(8) [OF shrunk] shrunk_entry [OF wf shrunk, of i]
  unfolding is_file_def by (cases "i = x") auto

lemma fs_trans_shrunk:
  assumes wf: "fs_wf st" and data: "fs_data st L" and shrunk: "shrunk x gone st st'" and lib: "same_lib st st'"
  shows "fs_trans {x} {} st L st' L"
  by (rule fs_trans_tables [OF shrunk_wf [OF wf shrunk] data lib])
    (use shrunk_is_file [OF wf shrunk] shrunk_entry [OF wf shrunk] shrunkD(7) [OF shrunk] in auto)

section \<open>Other data\<close>

lemma fs_trans_memory:
  assumes wf: "fs_wf st" and data: "fs_data st L" and p: "L p = Some n"
    and m: "unchanged_outside (lib_mem st) m (unat p) (unat p + n)"
    and x: "\<And>i. is_file i st \<Longrightarrow> data_pointer (entry_at i st) = p \<Longrightarrow> i = x"
  shows "fs_trans {x} {p} st L (st\<lparr>lib_mem := m\<rparr>) L"
proof (rule fs_transI)
  note D = fs_dataD [OF data]
  define st' where "st' = st\<lparr>lib_mem := m\<rparr>"
  have f: "is_file i st' = is_file i st" "entry_at i st' = entry_at i st" "lib_mem st' = m" for i
    by (simp_all add: st'_def is_file_def slot_def entry_at_def)
  have shape: "same_shape st st'" by (simp add: st'_def same_shape_def entry_at_def)
  have kept: "kept (L(p := None)) (lib_mem st) (lib_mem st')"
    unfolding f(3) by (rule libc.write_kept [OF fs_heap_live [OF D(1) p] p m])
  show "fs_wf (st\<lparr>lib_mem := m\<rparr>)" using same_shape_wf [OF shape wf] by (simp add: st'_def)
  show "fs_data (st\<lparr>lib_mem := m\<rparr>) L"
    using D fs_heap_write [OF D(1) p m] f unfolding fs_data_def st'_def [symmetric] by simp
  have "contents st' i = contents st i" if i: "is_file i st" "i \<noteq> x" for i
    by (rule contents_kept [OF data i(1) kept]) (use x i f in auto)
  then show "files_kept {x} st (st\<lparr>lib_mem := m\<rparr>)" unfolding files_kept_def st'_def [symmetric] f by blast
  show "lib_heap (st\<lparr>lib_mem := m\<rparr>) = lib_heap st" by simp
  show "file_count st \<le> file_count (st\<lparr>lib_mem := m\<rparr>)" by simp
  show "sizes_ok st \<Longrightarrow> sizes_ok (st\<lparr>lib_mem := m\<rparr>)" unfolding sizes_ok_def st'_def [symmetric] f .
  show "unchanged_outside (lib_mem st) (lib_mem (st\<lparr>lib_mem := m\<rparr>)) (unat (lib_heap st)) (unat (lib_heap st) + 0x100000)"
    using unchanged_outside_mono [OF m] fs_heap_area [OF D(1) p] by simp
  fix q k
  assume q: "L q = Some k" "q \<notin> {p}" "unowned q st"
  have "same_block q k st st'" using kept q(1,2) by (simp add: kept_def same_block_def)
  then show "L q = Some k \<and> unowned q (st\<lparr>lib_mem := m\<rparr>) \<and> same_block q k st (st\<lparr>lib_mem := m\<rparr>)"
    using q f unfolding st'_def [symmetric] unowned_def by simp
qed

lemma fs_trans_entry:
  assumes wf: "fs_wf st" and data: "fs_data st L" and x: "is_file x st"
    and p: "p \<noteq> 0 \<Longrightarrow> p \<in> W \<and> (\<exists>n. L p = Some n \<and> unat sz \<le> n) \<and> (\<forall>i. is_file i st \<longrightarrow> i \<noteq> x \<longrightarrow> data_pointer (entry_at i st) \<noteq> p)"
    and size: "sz \<le> 4294967288 \<or> sz = esize (entry_at x st)"
  shows "fs_trans {x} W st L (update_entry_at x (\<lambda>e. e\<lparr>data_pointer := p, esize := sz\<rparr>) st) L"
    and "same_shape st (update_entry_at x (\<lambda>e. e\<lparr>data_pointer := p, esize := sz\<rparr>) st)"
proof -
  define st' where "st' = update_entry_at x (\<lambda>e. e\<lparr>data_pointer := p, esize := sz\<rparr>) st"
  have e: "entry_at i st' = (if i = x then (entry_at x st)\<lparr>data_pointer := p, esize := sz\<rparr> else entry_at i st)" for i
    using is_file_less(3) [OF wf x] by (simp add: st'_def)
  show shape: "same_shape st (update_entry_at x (\<lambda>e. e\<lparr>data_pointer := p, esize := sz\<rparr>) st)"
    using e by (simp add: same_shape_def st'_def)
  have f: "is_file i st' = is_file i st" for i by (simp add: is_file_def e) (simp add: st'_def)
  show "fs_trans {x} W st L (update_entry_at x (\<lambda>e. e\<lparr>data_pointer := p, esize := sz\<rparr>) st) L"
  proof (rule fs_trans_tables)
    show "fs_wf (update_entry_at x (\<lambda>e. e\<lparr>data_pointer := p, esize := sz\<rparr>) st)" by (rule same_shape_wf [OF shape wf])
  qed (use data f e p x size in \<open>auto simp: same_lib_def st'_def [symmetric] simp del: update_entry_fields\<close>, simp_all add: st'_def)
qed

text \<open>New data of a file: written to a block that no other file has.\<close>

definition put_data :: "nat \<Rightarrow> u32 \<Rightarrow> u32 \<Rightarrow> mem \<Rightarrow> 'a filesystem_scheme \<Rightarrow> 'a filesystem_scheme" where
  "put_data x p sz m st = update_entry_at x (\<lambda>e. e\<lparr>data_pointer := p, esize := sz\<rparr>) (st\<lparr>lib_mem := m\<rparr>)"

lemma put_data_trans:
  assumes wf: "fs_wf st" and data: "fs_data st L" and x: "is_file x st" and p: "L p = Some n" "unat sz \<le> n" "sz \<le> 4294967288"
    and m: "unchanged_outside (lib_mem st) m (unat p) (unat p + n)"
    and own: "\<And>i. is_file i st \<Longrightarrow> data_pointer (entry_at i st) = p \<Longrightarrow> i = x"
  shows "fs_trans {x} {p} st L (put_data x p sz m st) L" and "same_shape st (put_data x p sz m st)"
    and "entry_at x (put_data x p sz m st) = (entry_at x st)\<lparr>data_pointer := p, esize := sz\<rparr>"
    and "lib_mem (put_data x p sz m st) = m"
proof -
  define st1 where "st1 = st\<lparr>lib_mem := m\<rparr>"
  have t: "fs_trans {x} {p} st L st1 L" unfolding st1_def by (rule fs_trans_memory [OF wf data p(1) m own])
  have f: "is_file i st1 = is_file i st" "entry_at i st1 = entry_at i st" for i
    by (simp_all add: st1_def is_file_def slot_def entry_at_def)
  have s: "same_shape st st1" by (simp add: st1_def same_shape_def entry_at_def)
  have u: "fs_trans {x} {p} st1 L (put_data x p sz m st) L" and s': "same_shape st1 (put_data x p sz m st)"
    unfolding put_data_def st1_def [symmetric]
    by (rule fs_trans_entry [OF fs_transD(1,2) [OF t]]; use x p own f in auto)+
  show "fs_trans {x} {p} st L (put_data x p sz m st) L" by (rule fs_trans_trans [OF t u]) simp_all
  show "same_shape st (put_data x p sz m st)" by (rule same_shape_trans [OF s s'])
  show "entry_at x (put_data x p sz m st) = (entry_at x st)\<lparr>data_pointer := p, esize := sz\<rparr>"
    unfolding put_data_def st1_def [symmetric]
    using is_file_less(3) [OF fs_transD(1) [OF t], of x] x f by simp
  show "lib_mem (put_data x p sz m st) = m" by (simp add: put_data_def)
qed

end
