(* ===== verification/FsOps.thy ===== *)
theory FsOps
  imports FsChanges
begin

text \<open>
  What each operation of the file system does to the tables and to the contents: every result of
  \<open>fs_create\<close>, \<open>fs_mkdir\<close>, \<open>fs_delete\<close>, \<open>fs_write\<close> and \<open>fs_read\<close> on well-formed tables.
\<close>

lemma fs_trans_same_tables:
  assumes "fs_trans X W st L st' L'" and "libc_step st st'"
  shows "same_shape st st'" and "fs_initialized st' = fs_initialized st" and "entry_at i st' = entry_at i st"
  using libc_step_fields [OF assms(2)] by simp_all

lemma leaf_of_root: "is_root_path path \<Longrightarrow> leaf_of path = []"
  using tokens_skip [of "[]"] by (auto simp: is_root_path_def leaf_of_def)

lemma is_root_take [simp]: "is_root_path path \<Longrightarrow> parent_of path st = Some 0"
  by (simp add: parent_of_def)

lemma tables_parsed: "shrunk x gone (parsed st) st' = shrunk x gone st st'" "grown p e (parsed st) st' = grown p e st st'"
proof -
  have c: "dir_count (parsed st) = dir_count st" "file_count (parsed st) = file_count st" by simp_all
  show "shrunk x gone (parsed st) st' = shrunk x gone st st'" "grown p e (parsed st) st' = grown p e st st'"
    unfolding shrunk_def grown_def parsed_slot c by (rule refl)+
qed

text \<open>A name that a lookup does not find is not in the listing.\<close>

lemma name_is_new:
  assumes "parent_of path st = Some p" and "is_root_path path \<or> lookup path st = None"
    and "i \<in> set (dfiles (slot p st))" and "ename (entry_at i st) = leaf_of path"
  shows "leaf_of path = []"
proof (cases "is_root_path path")
  case True
  then show ?thesis by (rule leaf_of_root)
next
  case False
  then have "find_in p (leaf_of path) st = None" using assms(1,2) by (simp add: lookup_def)
  then show ?thesis using assms(3,4) by (auto simp: find_in_def find_None_iff slot_def entry_at_def)
qed

section \<open>Creating a file\<close>

definition file_entry :: "u8 list \<Rightarrow> u32 \<Rightarrow> u32 \<Rightarrow> nat \<Rightarrow> 'a filesystem_scheme \<Rightarrow> fs_entry" where
  "file_entry name sz dp p st = (entry_at (file_count st) st)
     \<lparr>ename := name, etype := FS_TYPE_FILE, esize := sz, data_pointer := dp, eparent := p, ecreation_time := 0\<rparr>"

lemma may_create_shape: "same_shape st st' \<Longrightarrow> may_create path p st' = may_create path p st"
  by (simp add: may_create_def same_shape_lookup same_shape_parent same_shape_slot) (simp add: same_shape_def)

lemma new_file_grown:
  assumes wf: "fs_wf st" and may: "may_create path p st"
  shows "grown p (file_entry (leaf_of path) sz dp p st) st (new_file (leaf_of path) sz dp p st)"
    and "same_lib st (new_file (leaf_of path) sz dp p st)"
    and "fs_initialized (new_file (leaf_of path) sz dp p st) = fs_initialized st"
    and "current_directory (new_file (leaf_of path) sz dp p st) = current_directory st"
proof -
  have m: "parent_of path st = Some p" "is_root_path path \<or> lookup path st = None" "file_count st < 128"
    "length (dfiles (slot p st)) < 64"
    using may by (auto simp: may_create_def)
  have p: "p < dir_count st" by (rule parent_less [OF wf m(1)])
  note w = fs_wfD(1-5) [OF wf]
  have e: "entry_at i (st\<lparr>file_count := n\<rparr>) = entry_at i st" "slot d (st\<lparr>file_count := n\<rparr>) = slot d st" for i d n
    by (simp_all add: entry_at_def slot_def)
  show "grown p (file_entry (leaf_of path) sz dp p st) st (new_file (leaf_of path) sz dp p st)"
    unfolding grown_def
    using p w m leaf_ok [of path] name_is_new [OF m(1,2)]
    by (auto simp: new_file_def file_entry_def e)
  show "same_lib st (new_file (leaf_of path) sz dp p st)"
    "fs_initialized (new_file (leaf_of path) sz dp p st) = fs_initialized st"
    "current_directory (new_file (leaf_of path) sz dp p st) = current_directory st"
    by (simp_all add: same_lib_def new_file_def)
qed

lemma fs_create_step:
  fixes st :: "'a filesystem_scheme"
  assumes wf: "fs_wf st" and data: "fs_data st L" and sz: "sz \<le> 4294967288"
  obtains (refused) st' L' where "fs_create path sz st = Some (- 1, st')" and "fs_trans {} {} st L st' L'"
      and "same_shape st st'" and "fs_initialized st' = fs_initialized st" and "\<And>i. entry_at i st' = entry_at i st"
  | (created) p st1 st' dp L' where "fs_create path sz st = Some (0, st')" and "fs_trans {} {} st L st' L'"
      and "may_create path p st" and "same_shape st st1" and "fs_wf st1" and "grown p (file_entry (leaf_of path) sz dp p st1) st1 st'"
      and "fs_initialized st' = fs_initialized st" and "dp \<noteq> 0 \<longleftrightarrow> 0 < sz" and "\<And>i. entry_at i st1 = entry_at i st"
proof (cases "\<exists>p. may_create path p st")
  case False
  have t: "fs_trans {} {} st L (parsed st) L" "fs_trans {} {} st L st L"
    using fs_trans_parsed [OF wf data] fs_trans_refl [OF wf data] by blast+
  from False have "fs_create path sz st = Some (- 1, st) \<or> fs_create path sz st = Some (- 1, parsed st)"
    by (intro fs_create_refuses) blast
  then show ?thesis using refused t by (elim disjE) (erule refused; simp)+
next
  case True
  then obtain p where p: "may_create path p st" by blast
  note eq = fs_create_allowed [OF p, of sz]
  have wf1: "fs_wf (parsed st)" and data1: "fs_data (parsed st) L" using wf data by simp_all
  have t0: "fs_trans {} {} st L (parsed st) L" by (rule fs_trans_parsed [OF wf data])
  have "\<exists>q st1 L1. (if 0 < sz then malloc sz (parsed st) else Some (0, parsed st)) = Some (q, st1) \<and>
    fs_trans {} {} (parsed st) L st1 L1 \<and> libc_step (parsed st) st1 \<and>
    (q \<noteq> 0 \<longrightarrow> 0 < sz \<and> L q = None \<and> unowned q st1 \<and> (\<exists>n. L1 q = Some n \<and> unat sz \<le> n))"
  proof (cases "0 < sz")
    case True
    obtain q st1 L1 where "malloc sz (parsed st) = Some (q, st1)" "fs_trans {} {} (parsed st) L st1 L1"
      "libc_step (parsed st) st1" "q \<noteq> 0 \<longrightarrow> L q = None \<and> unowned q st1 \<and> (\<exists>n. L1 q = Some n \<and> unat sz \<le> n)"
      by (rule fs_trans_malloc [OF wf1 data1 sz])
    then show ?thesis using True by auto
  next
    case False
    then show ?thesis using fs_trans_refl [OF wf1 data1] by auto
  qed
  then obtain q st1 L1 where q: "(if 0 < sz then malloc sz (parsed st) else Some (0, parsed st)) = Some (q, st1)"
    and t1: "fs_trans {} {} (parsed st) L st1 L1" and step: "libc_step (parsed st) st1"
    and q_ok: "q \<noteq> 0 \<Longrightarrow> 0 < sz \<and> L q = None \<and> unowned q st1 \<and> (\<exists>n. L1 q = Some n \<and> unat sz \<le> n)"
    by blast
  have t01: "fs_trans {} {} st L st1 L1" by (rule fs_trans_trans [OF t0 t1]) simp_all
  have shape: "same_shape st st1" using same_shape_trans [OF parsed_shape(1) libc_step_fields(7) [OF step]] .
  have init: "fs_initialized st1 = fs_initialized st" using libc_step_fields(5) [OF step] by simp
  have ent: "entry_at i st1 = entry_at i st" for i using libc_step_fields(9) [OF step] by simp
  show ?thesis
  proof (cases "0 < sz \<and> q = 0")
    case True
    then have "fs_create path sz st = Some (- 1, st1)" using q unfolding eq by simp
    then show ?thesis by (rule refused) (use t01 shape init ent in auto)
  next
    case False
    define st' where "st' = new_file (leaf_of path) sz q p st1"
    have r: "fs_create path sz st = Some (0, st')" using q False unfolding eq st'_def by auto
    have may: "may_create path p st1" using p may_create_shape [OF shape] by simp
    note g = new_file_grown [OF fs_transD(1) [OF t01] may, of sz q, folded st'_def]
    have "fs_trans {} {q} st1 L1 st' L1"
      by (rule fs_trans_grown [OF fs_transD(1,2) [OF t01] g(1,2)]) (use q_ok sz in \<open>auto simp: file_entry_def\<close>)
    then have "fs_trans {} {} st L st' L1"
      by (rule fs_trans_trans [OF t01]) (use q_ok fs_heap_area(4) [OF fs_dataD(1) [OF data]] in auto)
    then show ?thesis
      by (rule created [OF r _ p shape fs_transD(1) [OF t01] g(1)]) (use g(3) init q_ok False ent in \<open>auto simp: word_gt_0\<close>)
  qed
qed

section \<open>Creating a directory\<close>

definition new_directory :: "u8 list \<Rightarrow> nat \<Rightarrow> 'a filesystem_scheme \<Rightarrow> 'a filesystem_scheme" where
  "new_directory name p st =
     update_directory (dir_count st) (\<lambda>d. d\<lparr>dname := name, dparent := p\<rparr>)
       (update_directory p (\<lambda>d. d\<lparr>dfiles := dfiles d @ [file_count st]\<rparr>)
         (update_entry_at (file_count st) (\<lambda>e. e\<lparr>ename := name, etype := FS_TYPE_DIRECTORY, esize := 0, eparent := p, ecreation_time := 0\<rparr>)
           (st\<lparr>file_count := Suc (file_count st)\<rparr>))\<lparr>dir_count := Suc (dir_count st)\<rparr>)"

definition directory_entry :: "u8 list \<Rightarrow> nat \<Rightarrow> 'a filesystem_scheme \<Rightarrow> fs_entry" where
  "directory_entry name p st = (entry_at (file_count st) st)
     \<lparr>ename := name, etype := FS_TYPE_DIRECTORY, esize := 0, eparent := p, ecreation_time := 0\<rparr>"

text \<open>The checks of \<open>fs_mkdir\<close>, which do not ask for a free entry.\<close>

definition may_mkdir :: "u8 list \<Rightarrow> nat \<Rightarrow> 'a filesystem_scheme \<Rightarrow> bool" where
  "may_mkdir path p st \<longleftrightarrow> fs_initialized st \<and> (is_root_path path \<or> lookup path st = None) \<and> parent_of path st = Some p
     \<and> dir_count st < 32 \<and> length (dfiles (slot p st)) < 64"

lemma fs_mkdir_refuses:
  assumes "\<And>p. \<not> may_mkdir path p st"
  shows "fs_mkdir path st = Some (- 1, st) \<or> fs_mkdir path st = Some (- 1, parsed st)"
  using assms
  by (auto simp: fs_mkdir_def may_mkdir_def fs_find_eq fs_find_parent_dir_eq fs_get_filename_eq slot_def FS_MAX_DIRECTORIES_def
      FS_MAX_FILES_PER_DIR_def not_less Let_def split: option.splits)

lemma fs_mkdir_allowed:
  assumes "may_mkdir path p st"
  shows "fs_mkdir path st = (if 128 \<le> file_count st then None else Some (0, new_directory (leaf_of path) p (parsed st)))"
  using assms
  by (auto simp: fs_mkdir_def may_mkdir_def fs_find_eq fs_find_parent_dir_eq fs_get_filename_eq slot_def FS_MAX_DIRECTORIES_def
      FS_MAX_FILES_PER_DIR_def FS_MAX_FILES_def new_directory_def Let_def update_directory_def update_entry_at_def split: option.splits)

lemma new_directory_grown:
  assumes wf: "fs_wf st" and may: "may_mkdir path p st" and fc: "file_count st < 128"
  shows "grown p (directory_entry (leaf_of path) p st) st (new_directory (leaf_of path) p st)"
    and "same_lib st (new_directory (leaf_of path) p st)"
    and "fs_initialized (new_directory (leaf_of path) p st) = fs_initialized st"
    and "current_directory (new_directory (leaf_of path) p st) = current_directory st"
proof -
  have m: "parent_of path st = Some p" "is_root_path path \<or> lookup path st = None" "dir_count st < 32"
    "length (dfiles (slot p st)) < 64"
    using may by (auto simp: may_mkdir_def)
  have p: "p < dir_count st" by (rule parent_less [OF wf m(1)])
  note w = fs_wfD(1-5) [OF wf]
  have e: "entry_at i (s\<lparr>file_count := n\<rparr>) = entry_at i s" "slot d (s\<lparr>file_count := n\<rparr>) = slot d s"
    "entry_at i (s\<lparr>dir_count := n\<rparr>) = entry_at i s" "slot d (s\<lparr>dir_count := n\<rparr>) = slot d s"
    "update_directory d f (s\<lparr>dir_count := n\<rparr>) = (update_directory d f s)\<lparr>dir_count := n\<rparr>"
    for i d n f and s :: "'a filesystem_scheme"
    by (simp_all add: entry_at_def slot_def update_directory_def)
  show "grown p (directory_entry (leaf_of path) p st) st (new_directory (leaf_of path) p st)"
    unfolding grown_def
    using p w m fc leaf_ok [of path] name_is_new [OF m(1,2)]
    by (auto simp: new_directory_def directory_entry_def e)
  show "same_lib st (new_directory (leaf_of path) p st)"
    "fs_initialized (new_directory (leaf_of path) p st) = fs_initialized st"
    "current_directory (new_directory (leaf_of path) p st) = current_directory st"
    by (simp_all add: same_lib_def new_directory_def e)
qed

lemma may_mkdir_parsed [simp]: "may_mkdir path p (parsed st) = may_mkdir path p st"
  by (simp add: may_mkdir_def)

lemma fs_mkdir_step:
  assumes wf: "fs_wf st" and data: "fs_data st L"
  obtains (refused) st' where "fs_mkdir path st = Some (- 1, st')" and "st' = st \<or> st' = parsed st"
  | (created) p st' where "fs_mkdir path st = Some (0, st')" and "fs_trans {} {} st L st' L" and "may_mkdir path p st"
      and "grown p (directory_entry (leaf_of path) p st) (parsed st) st'" and "fs_initialized st' = fs_initialized st"
      and "file_count st < 128"
  | (overrun) p where "fs_mkdir path st = None" and "may_mkdir path p st" and "128 \<le> file_count st"
proof (cases "\<exists>p. may_mkdir path p st")
  case False
  then show ?thesis using refused fs_mkdir_refuses [of path st] by blast
next
  case True
  then obtain p where p: "may_mkdir path p st" by blast
  note eq = fs_mkdir_allowed [OF p]
  show ?thesis
  proof (cases "128 \<le> file_count st")
    case True
    then show ?thesis using overrun p eq by simp
  next
    case False
    define st' where "st' = new_directory (leaf_of path) p (parsed st)"
    have wf1: "fs_wf (parsed st)" and data1: "fs_data (parsed st) L" using wf data by simp_all
    have d: "directory_entry (leaf_of path) p (parsed st) = directory_entry (leaf_of path) p st"
      by (simp add: directory_entry_def)
    note g = new_directory_grown [OF wf1, of path p, folded st'_def, unfolded d]
    have g: "grown p (directory_entry (leaf_of path) p st) (parsed st) st'" "same_lib (parsed st) st'"
      "fs_initialized st' = fs_initialized st"
      using g p False by simp_all
    have "fs_trans {} {} (parsed st) L st' L"
      by (rule fs_trans_grown [OF wf1 data1 g(1,2)]) (simp_all add: directory_entry_def)
    then have "fs_trans {} {} st L st' L" by (rule fs_trans_trans [OF fs_trans_parsed [OF wf data, of "{}" "{}"]]) simp_all
    then show ?thesis using created p g False eq by (simp add: st'_def)
  qed
qed

section \<open>Deletion\<close>

lemma free_tables:
  fixes st :: "'a filesystem_scheme"
  shows "free p (unlink_entry x st) = map_option (unlink_entry x) (free p st)"
    and "free p (update_entry_at x f st) = map_option (update_entry_at x f) (free p st)"
  by (cases st; simp add: free_def unlink_entry_def update_directory_def update_entry_at_def Let_def option.map_comp o_def)+

lemma unlink_shrunk:
  assumes wf: "fs_wf st" and x: "d < dir_count st" "x \<in> set (dfiles (slot d st))"
    and st': "st' = unlink_entry x st" and f: "etype (entry_at x st) = FS_TYPE_FILE"
  shows "shrunk x None st st'"
proof -
  have e: "x < length (entries st)" "eparent (entry_at x st) = d" "d < length (directories st)"
    using fs_wfD(7) [OF wf x(1)] fs_wfD(1,2,4,5) [OF wf] x by (fastforce simp: listing_ok_def)+
  then show ?thesis
    using x f fs_wfD(1,2) [OF wf]
    by (auto simp: shrunk_def Let_def st' unlink_entry_def entry_at_def [symmetric])
qed

lemma unlink_shrunk_dir:
  assumes wf: "fs_wf st" and x: "d < dir_count st" "x \<in> set (dfiles (slot d st))"
    and f: "etype (entry_at x st) = FS_TYPE_DIRECTORY" and k: "find_directory (ename (entry_at x st)) d st = Some k"
    and empty: "dfiles (slot k st) = []"
  shows "shrunk x (Some k) st (unlink_entry x (update_directory k (\<lambda>d. d\<lparr>dname := []\<rparr>) st))"
proof -
  have e: "x < length (entries st)" "eparent (entry_at x st) = d" "d < length (directories st)" "47 \<notin> set (ename (entry_at x st))"
    using fs_wfD(7) [OF wf x(1)] fs_wfD(1,2,4,5) [OF wf] x by (fastforce simp: listing_ok_def)+
  note k' = find_directory_Some [OF k]
  have "k \<noteq> 0" using k' fs_wfD(6) [OF wf] e(4) by (metis list.set_intros(1))
  moreover have "k \<noteq> d" using empty x(2) by auto
  moreover have "k < length (directories st)" using k' fs_wfD(1,4) [OF wf] by simp
  ultimately show ?thesis
    using x f e k' empty fs_wfD(1,2) [OF wf]
    by (auto simp: shrunk_def Let_def unlink_entry_def entry_at_def [symmetric])
qed

text \<open>What \<open>fs_delete\<close> wants of its argument.\<close>

definition deletable :: "nat \<Rightarrow> 'a filesystem_scheme \<Rightarrow> bool" where
  "deletable x st \<longleftrightarrow> (etype (entry_at x st) = FS_TYPE_DIRECTORY \<longrightarrow>
     (\<exists>k. find_directory (ename (entry_at x st)) (eparent (entry_at x st)) st = Some k \<and> dfiles (slot k st) = []))"

lemma fs_delete_step:
  fixes st :: "'a filesystem_scheme"
  assumes wf: "fs_wf st" and data: "fs_data st L"
  obtains (refused) st' where "fs_delete path st = Some (- 1, st')" and "st' = st \<or> st' = parsed st"
      and "\<And>x. fs_initialized st \<Longrightarrow> \<not> is_root_path path \<Longrightarrow> lookup path st = Some x \<Longrightarrow> \<not> deletable x st"
  | (deleted) x gone st' L' where "fs_delete path st = Some (0, st')" and "lookup path st = Some x"
      and "fs_trans {x} {} st L st' L'" and "shrunk x gone st st'" and "fs_initialized st' = fs_initialized st"
      and "\<not> is_root_path path"
proof (cases "fs_initialized st \<and> \<not> is_root_path path \<and> (\<exists>x. lookup path st = Some x \<and> deletable x st)")
  case False
  have "fs_delete path st = Some (- 1, st) \<or> fs_delete path st = Some (- 1, parsed st)"
    using False by (auto simp: fs_delete_def fs_find_eq deletable_def entry_at_def slot_def Let_def split: option.splits)
  then show ?thesis using refused False by blast
next
  case True
  then obtain x where x: "fs_initialized st" "\<not> is_root_path path" "lookup path st = Some x" "deletable x st" by blast
  have wf1: "fs_wf (parsed st)" and data1: "fs_data (parsed st) L" using wf data by simp_all
  have t0: "fs_trans {x} {} st L (parsed st) L" by (rule fs_trans_parsed [OF wf data])
  obtain d where d: "d < dir_count st" "x \<in> set (dfiles (slot d st))" "eparent (entry_at x st) = d"
    using lookup_Some [OF wf x(3)] by metis
  then have d1: "d < dir_count (parsed st)" "x \<in> set (dfiles (slot d (parsed st)))" by simp_all
  have ent: "entry_at i (parsed st) = entries st ! i" for i by (simp add: entry_at_def)
  show ?thesis
  proof (cases "etype (entry_at x st)")
    case FS_TYPE_DIRECTORY
    then obtain k where k: "find_directory (ename (entry_at x st)) d st = Some k" "dfiles (slot k st) = []"
      using x(4) d(3) by (auto simp: deletable_def)
    define st' where "st' = unlink_entry x (update_directory k (\<lambda>d. d\<lparr>dname := []\<rparr>) (parsed st))"
    have r: "fs_delete path st = Some (0, st')"
      using x k d(3) FS_TYPE_DIRECTORY by (simp add: fs_delete_def fs_find_eq entry_at_def slot_def st'_def)
    have s: "shrunk x (Some k) (parsed st) st'"
      unfolding st'_def by (rule unlink_shrunk_dir [OF wf1 d1]) (use k FS_TYPE_DIRECTORY in simp_all)
    have "same_lib (parsed st) st'" by (simp add: same_lib_def st'_def unlink_entry_def Let_def)
    then have "fs_trans {x} {} st L st' L"
      using fs_trans_trans [OF t0 fs_trans_shrunk [OF wf1 data1 s]] by simp
    moreover have "shrunk x (Some k) st st'" using s by (simp only: tables_parsed)
    ultimately show ?thesis using deleted [OF r x(3)] x(2) by (simp add: st'_def unlink_entry_def Let_def)
  next
    case FS_TYPE_FILE
    define p where "p = data_pointer (entry_at x st)"
    define st1 where "st1 = unlink_entry x (parsed st)"
    have r: "fs_delete path st = Option.bind (if p \<noteq> 0 then free p (parsed st) else Some (parsed st)) (\<lambda>st. Some (0, unlink_entry x st))"
      using x FS_TYPE_FILE by (simp add: fs_delete_def fs_find_eq entry_at_def slot_def p_def)
    have s: "shrunk x None (parsed st) st1"
      by (rule unlink_shrunk [OF wf1 d1 st1_def]) (use FS_TYPE_FILE in simp)
    have "same_lib (parsed st) st1" by (simp add: same_lib_def st1_def unlink_entry_def Let_def)
    then have t1: "fs_trans {x} {} st L st1 L"
      using fs_trans_trans [OF t0 fs_trans_shrunk [OF wf1 data1 s]] by simp
    have s': "shrunk x None st st1" using s by (simp only: tables_parsed)
    have isf: "is_file x st" by (rule lookup_file [OF wf x(3) FS_TYPE_FILE])
    have init: "fs_initialized st1 = fs_initialized st" by (simp add: st1_def unlink_entry_def Let_def)
    show ?thesis
    proof (cases "p = 0")
      case True
      then show ?thesis using deleted [OF _ x(3) t1 s' init x(2)] r by (simp add: st1_def)
    next
      case False
      then obtain n where n: "L p = Some n" using fs_dataD(2) [OF data isf] by (auto simp: p_def)
      have "unowned p st1"
        using fs_dataD(3) [OF data _ isf] shrunk_is_file [OF wf s'] shrunk_entry [OF wf s'] False
        unfolding unowned_def p_def by metis
      then obtain st' where f: "free p st1 = Some st'" "fs_trans {} {p} st1 L st' (L(p := None))" "libc_step st1 st'"
        by (rule fs_trans_free [OF fs_transD(1,2) [OF t1] n])
      then have "free p (unlink_entry x (parsed st)) = Some st'" by (simp add: st1_def)
      then have "fs_delete path st = Some (0, st')"
        using False unfolding r free_tables by (auto split: Option.bind_splits)
      moreover have "fs_trans {x} {} st L st' (L(p := None))"
        by (rule fs_trans_trans [OF t1 f(2)]) (use isf in \<open>auto simp: unowned_def p_def\<close>)
      moreover have "shrunk x None st st'"
        using s' libc_step_fields(1-4,8,9) [OF f(3)] by (simp add: shrunk_def)
      moreover have "fs_initialized st' = fs_initialized st" using libc_step_fields(5) [OF f(3)] init by simp
      ultimately show ?thesis by (rule deleted [OF _ x(3) _ _ _ x(2)])
    qed
  qed
qed

end
