(* ===== verification/FsData.thy ===== *)
theory FsData
  imports FsOps
begin

text \<open>
  Writing and reading: what \<open>fs_write\<close> and \<open>fs_read\<close> do to the contents of the file they name, to
  the caller's memory, and to nothing else.
\<close>

section \<open>Copying into a block\<close>

lemma disjoint_distance:
  assumes "unat (a :: u32) + k \<le> unat b \<or> unat b + k \<le> unat a" and "unat a + k \<le> 4294967296"
  shows "unat (a - b) + k \<le> 4294967296"
  using assms by (auto simp: unat_sub_if_size word_size word_le_nat_alt)

lemma copied_at: "i < n \<Longrightarrow> n \<le> 4294967296 \<Longrightarrow> copied m d s n (d + of_nat i) = m (s + of_nat i)"
  by (simp add: copied_def unat_of_nat_u32)

lemma foreign_disjoint:
  assumes data: "fs_data st L" and a: "foreign a k st L" and p: "L p = Some n" "k \<le> n"
    and pa: "p \<noteq> a \<or> outside_heap st a k"
  shows "unat a + k \<le> unat p \<or> unat p + k \<le> unat a"
proof (cases "outside_heap st a k")
  case True
  then show ?thesis using fs_heap_area [OF fs_dataD(1) [OF data] p(1)] p(2) by (auto simp: outside_heap_def)
next
  case False
  then obtain j where j: "L a = Some j" "k \<le> j" "p \<noteq> a" using a pa by (auto simp: foreign_def)
  have live: "libc_live st L" by (rule fs_heap_live [OF fs_dataD(1) [OF data] p(1)])
  show ?thesis using libc.live_disjoint [OF live p(1) j(1,3)] j(2) p(2) by auto
qed

lemma put_copy:
  assumes wf: "fs_wf st" and data: "fs_data st L" and x: "is_file x st" and p: "L p = Some n" "unat sz \<le> n" and sz: "sz \<le> 4294967288"
    and own: "\<And>i. is_file i st \<Longrightarrow> data_pointer (entry_at i st) = p \<Longrightarrow> i = x"
    and src: "foreign a (unat sz) st L" "p \<noteq> a \<or> outside_heap st a (unat sz)"
  defines "st' \<equiv> put_data x p sz (memcpy (lib_mem st) p a sz) st"
  shows "fs_trans {x} {p} st L st' L" and "same_shape st st'"
    and "contents st' x = map (\<lambda>k. lib_mem st (a + of_nat k)) [0..<unat sz]"
    and "entry_at x st' = (entry_at x st)\<lparr>data_pointer := p, esize := sz\<rparr>"
proof -
  define m where "m = memcpy (lib_mem st) p a sz"
  have "unat (a - p) + unat sz \<le> 4294967296"
    by (rule disjoint_distance [OF foreign_disjoint [OF data src(1) p src(2)]]) (use src(1) in \<open>simp add: foreign_def\<close>)
  then have m: "m = copied (lib_mem st) p a (unat sz)" by (simp add: m_def memcpy_eq_copied)
  note area = fs_heap_area [OF fs_dataD(1) [OF data] p(1)]
  have u: "unchanged_outside (lib_mem st) m (unat p) (unat p + n)"
    by (rule unchanged_outside_mono [OF copied_unchanged [OF _ m]]) (use area p(2) in auto)
  note t = put_data_trans [OF wf data x p sz u own]
  show "fs_trans {x} {p} st L st' L" "same_shape st st'"
    "entry_at x st' = (entry_at x st)\<lparr>data_pointer := p, esize := sz\<rparr>"
    using t by (simp_all add: st'_def m_def)
  have "entry_at x st' = (entry_at x st)\<lparr>data_pointer := p, esize := sz\<rparr>" "lib_mem st' = m"
    using t(3,4) by (simp_all add: st'_def m_def)
  moreover have "copied (lib_mem st) p a (unat sz) (p + of_nat k) = lib_mem st (a + of_nat k)" if "k < unat sz" for k
    by (rule copied_at [OF that]) (use src(1) in \<open>simp add: foreign_def\<close>)
  ultimately show "contents st' x = map (\<lambda>k. lib_mem st (a + of_nat k)) [0..<unat sz]"
    using area(4) by (simp add: contents_def m)
qed

section \<open>fs_write\<close>

lemma fs_write_refuses:
  assumes "\<And>x. fs_initialized st \<Longrightarrow> \<not> is_root_path path \<Longrightarrow> lookup path st = Some x \<Longrightarrow> etype (entry_at x st) \<noteq> FS_TYPE_FILE"
  shows "fs_write path a sz st = Some (- 1, st) \<or> fs_write path a sz st = Some (- 1, parsed st)"
  using assms by (auto simp: fs_write_def fs_find_eq entry_at_def Let_def split: option.splits)

text \<open>The file's block stays when the size does; otherwise it is given back first.\<close>

definition without_data :: "nat \<Rightarrow> 'a filesystem_scheme \<Rightarrow> 'a filesystem_scheme" where
  "without_data x = update_entry_at x (\<lambda>e. e\<lparr>data_pointer := 0\<rparr>)"

lemma update_entry_put:
  assumes "x < length (entries st)"
  shows "update_entry_at x (\<lambda>e. e\<lparr>esize := sz\<rparr>) ((update_entry_at x (\<lambda>e. e\<lparr>data_pointer := p\<rparr>) st)\<lparr>lib_mem := m\<rparr>) = put_data x p sz m st"
  using assms by (cases st) (simp add: update_entry_at_def put_data_def)

lemma update_entry_same: "f (entries st ! x) = entries st ! x \<Longrightarrow> update_entry_at x f st = st"
  by (simp add: update_entry_at_def)

lemma fs_write_in_place:
  assumes "fs_initialized st" "\<not> is_root_path path" "lookup path st = Some x" "etype (entry_at x st) = FS_TYPE_FILE"
    and "data_pointer (entry_at x st) = p" "p \<noteq> 0" "esize (entry_at x st) = sz" and "x < length (entries st)"
  shows "fs_write path a sz st = Some (0, put_data x p sz (memcpy (lib_mem st) p a sz) (parsed st))"
proof -
  have "update_entry_at x (\<lambda>e. e\<lparr>data_pointer := p\<rparr>) (parsed st) = parsed st"
    by (rule update_entry_same) (use assms in \<open>simp add: entry_at_def\<close>)
  then have "update_entry_at x (\<lambda>e. e\<lparr>esize := sz\<rparr>) ((parsed st)\<lparr>lib_mem := m\<rparr>) = put_data x p sz m (parsed st)" for m
    using update_entry_put [of x "parsed st" sz m p] assms(8) by simp
  then show ?thesis using assms by (simp add: fs_write_def fs_find_eq entry_at_def)
qed

lemma fs_write_new_block:
  fixes st :: "'a filesystem_scheme"
  assumes "fs_initialized st" "\<not> is_root_path path" "lookup path st = Some x" "etype (entry_at x st) = FS_TYPE_FILE"
    and "data_pointer (entry_at x st) = p" "p = 0 \<or> esize (entry_at x st) \<noteq> sz"
    and x: "x < length (entries st)"
    and st2: "(if p = 0 then Some (without_data x (parsed st)) else free p (without_data x (parsed st))) = Some st2"
    and m: "malloc sz st2 = Some (q, st3)" and e3: "entries st3 = entries (without_data x (parsed st))"
  shows "fs_write path a sz st = Some (if q = 0 then (- 1, st3) else (0, put_data x q sz (memcpy (lib_mem st3) q a sz) st3))"
proof -
  define st1 where "st1 = without_data x (parsed st)"
  have len: "x < length (entries st3)" using x e3 by (simp add: without_data_def)
  have z: "data_pointer (entries st1 ! x) = 0" using x by (simp add: st1_def without_data_def update_entry_at_def)
  have e2: "map_option (without_data x) (if p = 0 then Some (parsed st) else free p (parsed st)) = Some st2"
    using st2 by (simp add: without_data_def free_tables split: if_splits)
  have nd: "without_data x (parsed st) = parsed st" if "p = 0"
    unfolding without_data_def by (rule update_entry_same) (use assms(5) that in \<open>simp add: entry_at_def\<close>)
  have first: "(if p \<noteq> 0 \<and> esize (entry_at x st) \<noteq> sz then map_option (without_data x) (free p (parsed st)) else Some (parsed st)) = Some st2"
    using e2 nd assms(6) by (auto split: if_splits)
  have z2: "data_pointer (entries st2 ! x) = 0"
  proof (cases "p = 0")
    case True
    then show ?thesis using st2 z by (simp add: st1_def)
  next
    case False
    then have "free p st1 = Some st2" using st2 by (simp add: st1_def)
    then have "entries st2 = entries st1" by (auto simp: free_def Let_def split: if_splits)
    then show ?thesis using z by simp
  qed
  have z3: "update_entry_at x (\<lambda>e. e\<lparr>data_pointer := 0\<rparr>) st3 = st3"
    by (rule update_entry_same) (use z e3 in \<open>simp add: st1_def\<close>)
  have q: "data_pointer (entries (update_entry_at x (\<lambda>e. e\<lparr>data_pointer := q\<rparr>) st3) ! x) = q"
    using len by (simp add: update_entry_at_def)
  have "fs_write path a sz st = Option.bind (Some st2) (\<lambda>st.
           Option.bind (if data_pointer (entries st ! x) = 0
              then map_option (\<lambda>(p, st). (p \<noteq> 0, update_entry_at x (\<lambda>e. e\<lparr>data_pointer := p\<rparr>) st)) (malloc sz st)
              else Some (True, st)) (\<lambda>(ok, st).
           if \<not> ok then Some (- 1, st)
           else
             let st = st\<lparr>lib_mem := memcpy (lib_mem st) (data_pointer (entries st ! x)) a sz\<rparr>
             in Some (0, update_entry_at x (\<lambda>e. e\<lparr>esize := sz\<rparr>) st)))"
    unfolding first [symmetric]
    using assms(1-5) by (simp add: fs_write_def fs_find_eq entry_at_def without_data_def cong: if_cong)
  then show ?thesis
    using z2 z3 m q update_entry_put [OF len, of sz _ q] by simp
qed

lemma fs_write_step:
  fixes st :: "'a filesystem_scheme"
  assumes wf: "fs_wf st" and data: "fs_data st L" and sz: "sz \<le> 4294967288" and src: "foreign a (unat sz) st L"
  obtains (refused) st' where "fs_write path a sz st = Some (- 1, st')" and "st' = st \<or> st' = parsed st"
      and "\<And>x. fs_initialized st \<Longrightarrow> \<not> is_root_path path \<Longrightarrow> lookup path st = Some x \<Longrightarrow> etype (entry_at x st) \<noteq> FS_TYPE_FILE"
  | (lost) x st' L' where "fs_write path a sz st = Some (- 1, st')" and "lookup path st = Some x" and "is_file x st"
      and "fs_trans {x} {} st L st' L'" and "same_shape st st'" and "data_pointer (entry_at x st') = 0"
      and "\<not> is_root_path path" and "esize (entry_at x st') = esize (entry_at x st)"
  | (written) x st' L' where "fs_write path a sz st = Some (0, st')" and "lookup path st = Some x" and "is_file x st"
      and "fs_trans {x} {} st L st' L'" and "same_shape st st'" and "\<not> is_root_path path"
      and "contents st' x = map (\<lambda>k. lib_mem st (a + of_nat k)) [0..<unat sz]"
      and "esize (entry_at x st') = sz" and "data_pointer (entry_at x st') \<noteq> 0"
proof (cases "fs_initialized st \<and> \<not> is_root_path path \<and> (\<exists>x. lookup path st = Some x \<and> etype (entry_at x st) = FS_TYPE_FILE)")
  case False
  then show ?thesis using refused fs_write_refuses [of st path a sz] by blast
next
  case True
  then obtain x where x: "fs_initialized st" "\<not> is_root_path path" "lookup path st = Some x" "etype (entry_at x st) = FS_TYPE_FILE"
    by blast
  define p where "p = data_pointer (entry_at x st)"
  have wf0: "fs_wf (parsed st)" and data0: "fs_data (parsed st) L" using wf data by simp_all
  have isf: "is_file x st" by (rule lookup_file [OF wf x(3,4)])
  have isf0: "is_file x (parsed st)" using isf by simp
  have t0: "fs_trans {x} {} st L (parsed st) L" by (rule fs_trans_parsed [OF wf data])
  have len: "x < length (entries st)" by (rule is_file_less(3) [OF wf isf])
  have own: "p \<noteq> 0 \<Longrightarrow> is_file i st \<Longrightarrow> data_pointer (entry_at i st) = p \<Longrightarrow> i = x" for i
    using fs_dataD(3) [OF data _ isf, of i] by (simp add: p_def)
  show ?thesis
  proof (cases "p \<noteq> 0 \<and> esize (entry_at x st) = sz")
    case True
    then obtain n where n: "L p = Some n" "unat sz \<le> n" using fs_dataD(2) [OF data isf] by (auto simp: p_def)
    have src': "foreign a (unat sz) (parsed st) L" by (rule foreign_kept(1) [OF t0 src]) simp
    have pa: "p \<noteq> a \<or> outside_heap (parsed st) a (unat sz)"
      using src' isf by (auto simp: foreign_def unowned_def p_def)
    define st' where "st' = put_data x p sz (memcpy (lib_mem (parsed st)) p a sz) (parsed st)"
    have c: "fs_trans {x} {p} (parsed st) L st' L" "same_shape (parsed st) st'"
      "contents st' x = map (\<lambda>k. lib_mem (parsed st) (a + of_nat k)) [0..<unat sz]"
      "entry_at x st' = (entry_at x (parsed st))\<lparr>data_pointer := p, esize := sz\<rparr>"
      unfolding st'_def by (rule put_copy [OF wf0 data0 isf0 n sz _ src' pa]; use own True in simp)+
    have r: "fs_write path a sz st = Some (0, st')"
      using fs_write_in_place [OF x p_def [symmetric] _ _ len] True by (simp add: st'_def)
    show ?thesis
      by (rule written [OF r x(3) isf _ _ x(2)])
        (use fs_trans_trans [OF t0 c(1), of "{x}" "{}"] isf c(2-4) True same_shape_trans [OF parsed_shape(1) c(2)]
          in \<open>auto simp: unowned_def p_def\<close>)
  next
    case False
    define st1 where "st1 = without_data x (parsed st)"
    have e: "update_entry_at x (\<lambda>e. e\<lparr>data_pointer := 0, esize := esize (entry_at x st)\<rparr>) (parsed st) = st1"
      by (simp add: st1_def without_data_def update_entry_at_def entry_at_def)
    have t1: "fs_trans {x} {} (parsed st) L st1 L" and s1: "same_shape (parsed st) st1"
      using fs_trans_entry [OF wf0 data0 isf0, of 0 "{}" "esize (entry_at x st)"] unfolding e by simp_all
    have size1: "esize (entry_at x st1) = esize (entry_at x st)" using len by (simp add: st1_def without_data_def)
    have ent1: "data_pointer (entry_at x st1) = 0" "is_file i st1 = is_file i st" "i \<noteq> x \<Longrightarrow> entry_at i st1 = entry_at i st" for i
      using len by (auto simp: st1_def without_data_def is_file_def)
    have t01: "fs_trans {x} {} st L st1 L" by (rule fs_trans_trans [OF t0 t1]) simp_all
    have s01: "same_shape st st1" by (rule same_shape_trans [OF parsed_shape(1) s1])
    have "\<exists>st2 L2. (if p = 0 then Some st1 else free p st1) = Some st2 \<and> fs_trans {x} {} st L st2 L2 \<and> libc_step st1 st2"
    proof (cases "p = 0")
      case True
      then show ?thesis using t01 by auto
    next
      case False
      then obtain n where n: "L p = Some n" using fs_dataD(2) [OF data isf] by (auto simp: p_def)
      have "unowned p st1" unfolding unowned_def using ent1 own False by metis
      then obtain st2 where "free p st1 = Some st2" "fs_trans {} {p} st1 L st2 (L(p := None))" "libc_step st1 st2"
        by (rule fs_trans_free [OF fs_transD(1,2) [OF t01] n])
      then show ?thesis
        using False fs_trans_trans [OF t01, of "{}" "{p}" st2 "L(p := None)" "{x}" "{}"] isf by (auto simp: unowned_def p_def)
    qed
    then obtain st2 L2 where st2: "(if p = 0 then Some st1 else free p st1) = Some st2" and t02: "fs_trans {x} {} st L st2 L2"
      and step2: "libc_step st1 st2" by blast
    obtain q st3 L3 where m: "malloc sz st2 = Some (q, st3)" and t23: "fs_trans {} {} st2 L2 st3 L3" and step3: "libc_step st2 st3"
      and q: "q \<noteq> 0 \<longrightarrow> L2 q = None \<and> unowned q st3 \<and> (\<exists>n. L3 q = Some n \<and> unat sz \<le> n)"
      by (rule fs_trans_malloc [OF fs_transD(1,2) [OF t02] sz])
    have step: "libc_step st1 st3" by (rule libc_step_trans [OF step2 step3])
    note f = libc_step_fields [OF step]
    have t03: "fs_trans {x} {} st L st3 L3" by (rule fs_trans_trans [OF t02 t23]) simp_all
    have s03: "same_shape st st3" by (rule same_shape_trans [OF s01 f(7)])
    have r: "fs_write path a sz st = Some (if q = 0 then (- 1, st3) else (0, put_data x q sz (memcpy (lib_mem st3) q a sz) st3))"
      by (rule fs_write_new_block [OF x p_def [symmetric] _ len _ m]) (use False st2 f(2) in \<open>auto simp: st1_def\<close>)
    show ?thesis
    proof (cases "q = 0")
      case True
      then show ?thesis using lost [OF _ x(3) isf t03 s03 _ x(2)] r f(9) ent1(1) size1 by simp
    next
      case False
      then obtain n where n: "L3 q = Some n" "unat sz \<le> n" "unowned q st3" "L2 q = None" using q by blast
      have src3: "foreign a (unat sz) st3 L3" by (rule foreign_kept(1) [OF t03 src]) simp
      have "foreign a (unat sz) st2 L2" by (rule foreign_kept(1) [OF t02 src]) simp
      then have qa: "q \<noteq> a \<or> outside_heap st3 a (unat sz)"
        using n(4) libc_step_heap [OF step3] by (auto simp: foreign_def outside_heap_def)
      have isf3: "is_file x st3" using f(10) ent1(2) isf by simp
      define st' where "st' = put_data x q sz (memcpy (lib_mem st3) q a sz) st3"
      have c: "fs_trans {x} {q} st3 L3 st' L3" "same_shape st3 st'"
        "contents st' x = map (\<lambda>k. lib_mem st3 (a + of_nat k)) [0..<unat sz]"
        "entry_at x st' = (entry_at x st3)\<lparr>data_pointer := q, esize := sz\<rparr>"
        unfolding st'_def
        by (rule put_copy [OF fs_transD(1,2) [OF t03] isf3 n(1,2) sz _ src3 qa]; use n(3) in \<open>auto simp: unowned_def\<close>)+
      have fresh: "L q = None \<or> \<not> unowned q st" using fs_transD(6) [OF t02, of q] n(4) by (cases "L q") auto
      have "fs_trans {x} {} st L st' L3"
        by (rule fs_trans_trans [OF t03 c(1)]) (use fresh in auto)
      moreover have "contents st' x = map (\<lambda>k. lib_mem st (a + of_nat k)) [0..<unat sz]"
        unfolding c(3) using foreign_kept(2) [OF t03 src] by simp
      ultimately show ?thesis
        using written [OF _ x(3) isf _ same_shape_trans [OF s03 c(2)] x(2)] r False c(4) by (simp add: st'_def)
    qed
  qed
qed

section \<open>fs_read\<close>

text \<open>Writing to memory outside of the allocator's array.\<close>

lemma outside_write:
  assumes wf: "fs_wf st" and data: "fs_data st L" and b: "outside_heap st b k"
    and m: "unchanged_outside (lib_mem st) m (unat b) (unat b + k)"
  shows "fs_wf (st\<lparr>lib_mem := m\<rparr>)" and "fs_data (st\<lparr>lib_mem := m\<rparr>) L" and "files_kept {} st (st\<lparr>lib_mem := m\<rparr>)"
proof -
  define st' where "st' = st\<lparr>lib_mem := m\<rparr>"
  have f: "is_file i st' = is_file i st" "entry_at i st' = entry_at i st" "lib_mem st' = m" for i
    by (simp_all add: st'_def is_file_def slot_def entry_at_def)
  have shape: "same_shape st st'" by (simp add: st'_def same_shape_def entry_at_def)
  show "fs_wf (st\<lparr>lib_mem := m\<rparr>)" using same_shape_wf [OF shape wf] by (simp add: st'_def)
  note D = fs_dataD [OF data]
  have in_array: "m x = lib_mem st x" if "unat (lib_heap st) \<le> unat x" "unat x < unat (lib_heap st) + 0x100000" for x
  proof -
    have "unat x < unat b \<or> unat b + k \<le> unat x" using b that by (auto simp: outside_heap_def)
    then show ?thesis using m unfolding unchanged_outside_def by blast
  qed
  have kept: "kept L (lib_mem st) (lib_mem st')"
    unfolding kept_def f(3)
  proof (intro allI impI)
    fix p n i
    assume p: "L p = Some n" "i < n"
    note area = fs_heap_area [OF D(1) p(1)]
    have "unat (p + of_nat i) = unat p + i" using area p(2) unat_of_nat_add_u32 [of "unat p" i] by simp
    then show "m (p + of_nat i) = lib_mem st (p + of_nat i)" using area p(2) by (intro in_array) simp_all
  qed
  have "fs_heap st' L"
  proof (cases "lib_heap_initialized st")
    case True
    then have "libc_live st L" using D(1) by (simp add: fs_heap_def)
    then obtain bs where rep: "libc_rep st bs" and L: "L = live_map (unat (lib_heap st)) bs" by (auto simp: libc_live_def)
    have "chain m (unat (lib_heap st)) bs 0 = chain (lib_mem st) (unat (lib_heap st)) bs 0"
      by (rule chain_unchanged [OF m]) (use rep b in \<open>auto simp: libc_rep_def outside_heap_def\<close>)
    then have "libc_rep st' bs" using rep by (simp add: libc_rep_def st'_def)
    then show ?thesis using L True by (auto simp: fs_heap_def libc_live_def st'_def)
  next
    case False
    then show ?thesis using D(1) by (simp add: fs_heap_def st'_def)
  qed
  then show "fs_data (st\<lparr>lib_mem := m\<rparr>) L"
    using D unfolding fs_data_def st'_def [symmetric] f by blast
  have "contents st' i = contents st i" if "is_file i st" for i
    by (rule contents_kept [OF data that kept]) (simp_all add: f)
  then show "files_kept {} st (st\<lparr>lib_mem := m\<rparr>)" unfolding files_kept_def st'_def [symmetric] f by blast
qed

text \<open>How many bytes a read delivers.\<close>

definition read_size :: "nat \<Rightarrow> u32 \<Rightarrow> 'a filesystem_scheme \<Rightarrow> u32" where
  "read_size x sz st = (if esize (entry_at x st) < sz then esize (entry_at x st) else sz)"

lemma fs_read_step:
  fixes st :: "'a filesystem_scheme"
  assumes wf: "fs_wf st" and data: "fs_data st L" and b: "outside_heap st b (unat sz)"
    and r: "fs_read path b sz st = (r, st')"
  shows "fs_wf st'" and "fs_data st' L" and "files_kept {} st st'" and "same_shape st st'"
    and "unchanged_outside (lib_mem st) (lib_mem st') (unat b) (unat b + unat sz)"
    and "fs_initialized st \<Longrightarrow> \<not> is_root_path path \<Longrightarrow> lookup path st = Some x \<Longrightarrow> is_file x st \<Longrightarrow> data_pointer (entry_at x st) \<noteq> 0 \<Longrightarrow>
      r = sint (read_size x sz st) \<and> (\<forall>k < unat (read_size x sz st). lib_mem st' (b + of_nat k) = contents st x ! k)"
proof -
  have "fs_wf st' \<and> fs_data st' L \<and> files_kept {} st st' \<and> same_shape st st' \<and>
    unchanged_outside (lib_mem st) (lib_mem st') (unat b) (unat b + unat sz) \<and>
    (fs_initialized st \<longrightarrow> \<not> is_root_path path \<longrightarrow> lookup path st = Some x \<longrightarrow> is_file x st \<longrightarrow> data_pointer (entry_at x st) \<noteq> 0 \<longrightarrow>
      r = sint (read_size x sz st) \<and> (\<forall>k < unat (read_size x sz st). lib_mem st' (b + of_nat k) = contents st x ! k))"
  proof (cases "\<exists>y. fs_initialized st \<and> \<not> is_root_path path \<and> lookup path st = Some y \<and> etype (entry_at y st) = FS_TYPE_FILE \<and>
      data_pointer (entry_at y st) \<noteq> 0")
    case False
    then have "st' = st \<or> st' = parsed st"
      using r by (auto simp: fs_read_def fs_find_eq entry_at_def Let_def split: option.splits if_splits)
    moreover have "fs_initialized st \<longrightarrow> \<not> is_root_path path \<longrightarrow> lookup path st = Some x \<longrightarrow> is_file x st \<longrightarrow> data_pointer (entry_at x st) = 0"
      using False by (auto simp: is_file_def)
    ultimately show ?thesis using wf data by (elim disjE) simp_all
  next
    case True
    then obtain y where y: "fs_initialized st" "\<not> is_root_path path" "lookup path st = Some y" "etype (entry_at y st) = FS_TYPE_FILE"
      "data_pointer (entry_at y st) \<noteq> 0" by blast
    define p where "p = data_pointer (entry_at y st)"
    define k where "k = read_size y sz st"
    have isf: "is_file y st" by (rule lookup_file [OF wf y(3,4)])
    obtain n where n: "L p = Some n" "unat (esize (entry_at y st)) \<le> n" using fs_dataD(2) [OF data isf y(5)] by (auto simp: p_def)
    have k: "unat k \<le> unat sz" "unat k \<le> unat (esize (entry_at y st))"
      by (auto simp: k_def read_size_def word_less_nat_alt)
    have res: "r = sint k" "st' = (parsed st)\<lparr>lib_mem := memcpy (lib_mem st) b p k\<rparr>"
      using r y by (auto simp: fs_read_def fs_find_eq entry_at_def Let_def k_def read_size_def p_def)
    note area = fs_heap_area [OF fs_dataD(1) [OF data] n(1)]
    have "unat p + unat k \<le> unat b \<or> unat b + unat k \<le> unat p"
      using b area n(2) k by (auto simp: outside_heap_def)
    then have "unat (p - b) + unat k \<le> 4294967296"
      by (rule disjoint_distance) (use area n(2) k in auto)
    then have m: "memcpy (lib_mem st) b p k = copied (lib_mem st) b p (unat k)" by (simp add: memcpy_eq_copied)
    have u: "unchanged_outside (lib_mem st) (memcpy (lib_mem st) b p k) (unat b) (unat b + unat sz)"
      unfolding m unchanged_outside_def
    proof (intro allI impI)
      fix x :: u32
      assume "unat x < unat b \<or> unat b + unat sz \<le> unat x"
      then have "\<not> unat (x - b) < unat k" using b k by (auto simp: unat_sub_if_size word_size outside_heap_def)
      then show "copied (lib_mem st) b p (unat k) x = lib_mem st x" by (simp add: copied_def)
    qed
    have b': "outside_heap (parsed st) b (unat sz)" using b by (simp add: outside_heap_def)
    have wf0: "fs_wf (parsed st)" and data0: "fs_data (parsed st) L" using wf data by simp_all
    note o = outside_write [OF wf0 data0 b', of "memcpy (lib_mem st) b p k", folded res(2)]
    have "files_kept {} st st'" using files_kept_trans [OF parsed_shape(2) o(3)] u by simp
    moreover have "same_shape st st'" by (simp add: res(2) same_shape_def entry_at_def)
    moreover have "lib_mem st' (b + of_nat i) = contents st y ! i" if "i < unat k" for i
    proof -
      have "lib_mem st' (b + of_nat i) = lib_mem st (p + of_nat i)"
        using copied_at [OF that] k b by (simp add: res(2) m outside_heap_def)
      then show ?thesis using that k y(5) by (simp add: contents_def p_def)
    qed
    ultimately show ?thesis using o(1,2) u res y(3) by (auto simp: k_def)
  qed
  then show "fs_wf st'" and "fs_data st' L" and "files_kept {} st st'" and "same_shape st st'"
    and "unchanged_outside (lib_mem st) (lib_mem st') (unat b) (unat b + unat sz)"
    and "fs_initialized st \<Longrightarrow> \<not> is_root_path path \<Longrightarrow> lookup path st = Some x \<Longrightarrow> is_file x st \<Longrightarrow> data_pointer (entry_at x st) \<noteq> 0 \<Longrightarrow>
      r = sint (read_size x sz st) \<and> (\<forall>k < unat (read_size x sz st). lib_mem st' (b + of_nat k) = contents st x ! k)"
    by blast+
qed

end
