(* ===== verification/FsCopy.thy ===== *)
theory FsCopy
  imports FsData
begin

text \<open>
  \<open>fs_copy\<close> and \<open>fs_move\<close>, composed of the other operations: what they leave behind when they
  succeed, and that they touch no other file on any path.
\<close>

text \<open>Undoing: the destination is deleted again, whatever became of it.\<close>

lemma undo_delete:
  fixes a st :: "'a filesystem_scheme"
  assumes t: "fs_trans X W a L st L1" and X: "\<And>i. i \<in> X \<Longrightarrow> \<not> is_file i a" and W: "\<And>q. q \<in> W \<Longrightarrow> L q = None"
    and new: "\<And>x. \<not> is_root_path path \<Longrightarrow> lookup path st = Some x \<Longrightarrow> \<not> is_file x a"
  obtains r st' L' where "fs_delete path st = Some (r, st')" and "fs_trans {} {} a L st' L'" and "fs_initialized st' = fs_initialized st"
using fs_transD(1,2) [OF t]
proof (cases rule: fs_delete_step [where path = path])
  case (refused st')
  have "fs_trans {} {} st L1 st' L1"
    using refused(2) fs_trans_refl [OF fs_transD(1,2) [OF t]] fs_trans_parsed [OF fs_transD(1,2) [OF t]] by blast
  then have "fs_trans {} {} a L st' L1" by (rule fs_trans_trans [OF t]) (use X W in auto)
  then show ?thesis using that refused(1,2) by auto
next
  case (deleted x gone st' L')
  have "fs_trans {} {} a L st' L'" by (rule fs_trans_trans [OF t deleted(3)]) (use X W new deleted(2,6) in auto)
  then show ?thesis using that deleted(1,5) by blast
qed

text \<open>What a lookup finds after a file is created.\<close>

lemma created_lookups:
  assumes "same_shape st st1" and "fs_wf st1" and "may_create path p st" and "grown p e st1 st'" and "ename e = leaf_of path"
    and "etype e = FS_TYPE_FILE"
  shows "lookup q st = Some i \<Longrightarrow> lookup q st' = Some i" and "\<not> is_root_path path \<Longrightarrow> lookup path st' = Some (file_count st)"
    and "is_file (file_count st) st'" and "entry_at (file_count st) st' = e"
proof -
  have l: "lookup r st1 = lookup r st" "parent_of r st1 = parent_of r st" for r
    using assms(1) by (simp_all add: same_shape_lookup same_shape_parent)
  have fc: "file_count st1 = file_count st" using assms(1) by (simp add: same_shape_def)
  show "lookup q st' = Some i" if "lookup q st = Some i"
    using grown_lookup [OF assms(2,4)] that l by simp
  show "lookup path st' = Some (file_count st)" if "\<not> is_root_path path"
    using grown_lookup_new [OF assms(2,4)] assms(3,5) that l fc by (simp add: may_create_def)
  show "is_file (file_count st) st'" using grown_is_file [OF assms(2,4)] assms(6) fc by simp
  show "entry_at (file_count st) st' = e" using grownD(13) [OF assms(4), of "file_count st"] fc by simp
qed

text \<open>The second half of \<open>fs_copy\<close>, with the destination created.\<close>

definition copy_data :: "nat \<Rightarrow> u8 list \<Rightarrow> 'a filesystem_scheme \<Rightarrow> (int \<times> 'a filesystem_scheme) option" where
  "copy_data s dest st =
     (let e = entry_at s st
      in if data_pointer e \<noteq> 0 \<and> 0 < esize e
      then Option.bind (malloc (esize e) st) (\<lambda>(data, st).
        if data = 0 then map_option (\<lambda>(r, st). (- 1, st)) (fs_delete dest st)
        else
          let st = st\<lparr>lib_mem := memcpy (lib_mem st) data (data_pointer e) (esize e)\<rparr>
          in Option.bind (fs_write dest data (esize e) st) (\<lambda>(result, st).
             Option.bind (free data st) (\<lambda>st.
             if result \<noteq> 0 then map_option (\<lambda>(r, st). (- 1, st)) (fs_delete dest st)
             else Some (0, st))))
      else Some (0, st))"

definition may_copy :: "u8 list \<Rightarrow> u8 list \<Rightarrow> nat \<Rightarrow> 'a filesystem_scheme \<Rightarrow> bool" where
  "may_copy src dest s st \<longleftrightarrow> fs_initialized st \<and> \<not> is_root_path src \<and> lookup src st = Some s \<and> etype (entry_at s st) = FS_TYPE_FILE
     \<and> (is_root_path dest \<or> lookup dest st = None)"

lemma fs_copy_eq:
  assumes "may_copy src dest s st"
  shows "fs_copy src dest st = Option.bind (fs_create dest (esize (entry_at s st)) (parsed st)) (\<lambda>(result, st).
    if result \<noteq> 0 then Some (- 1, st) else copy_data s dest st)"
  using assms by (auto simp: fs_copy_def may_copy_def copy_data_def fs_find_eq entry_at_def Let_def cong: if_cong)

lemma fs_copy_refuses:
  assumes "\<And>s. \<not> may_copy src dest s st"
  shows "fs_copy src dest st = Some (- 1, st) \<or> fs_copy src dest st = Some (- 1, parsed st)"
proof (cases "lookup src st")
  case None
  then show ?thesis by (auto simp: fs_copy_def fs_find_eq)
next
  case (Some s)
  then show ?thesis using assms [of s] by (auto simp: fs_copy_def may_copy_def fs_find_eq entry_at_def split: option.splits)
qed

text \<open>The temporary block of the copy.\<close>

lemma temporary_copy:
  fixes st :: "'a filesystem_scheme"
  assumes wf: "fs_wf st" and data: "fs_data st L" and s: "is_file s st" "data_pointer (entry_at s st) = p" "p \<noteq> 0"
    and t: "L t = Some n" "unowned t st" and k: "unat (esize (entry_at s st)) \<le> n"
  defines "st' \<equiv> st\<lparr>lib_mem := memcpy (lib_mem st) t p (esize (entry_at s st))\<rparr>"
  shows "fs_trans {} {t} st L st' L" and "same_shape st st'" and "unowned t st'"
    and "map (\<lambda>k. lib_mem st' (t + of_nat k)) [0..<unat (esize (entry_at s st))] = contents st s"
    and "entry_at i st' = entry_at i st" and "is_file i st' = is_file i st"
proof -
  define sz where "sz = esize (entry_at s st)"
  obtain j where j: "L p = Some j" "unat sz \<le> j" using fs_dataD(2) [OF data s(1)] s(2,3) by (auto simp: sz_def)
  have live: "libc_live st L" by (rule fs_heap_live [OF fs_dataD(1) [OF data] t(1)])
  have "t \<noteq> p" using t(2) s(1,2) by (auto simp: unowned_def)
  then have "unat p + unat sz \<le> unat t \<or> unat t + unat sz \<le> unat p"
    using libc.live_disjoint [OF live t(1) j(1)] j(2) k by (auto simp: sz_def)
  note dist = disjoint_distance [OF this]
  note ap = fs_heap_area [OF fs_dataD(1) [OF data] j(1)] and at = fs_heap_area [OF fs_dataD(1) [OF data] t(1)]
  have m: "memcpy (lib_mem st) t p sz = copied (lib_mem st) t p (unat sz)"
    by (rule memcpy_eq_copied) (use dist ap j(2) in simp)
  have u: "unchanged_outside (lib_mem st) (memcpy (lib_mem st) t p sz) (unat t) (unat t + n)"
    by (rule unchanged_outside_mono [OF copied_unchanged [OF _ m]]) (use at k in \<open>auto simp: sz_def\<close>)
  have x: "fs_trans {file_count st} {t} st L st' L"
    unfolding st'_def sz_def [symmetric]
    by (rule fs_trans_memory [OF wf data t(1) u]) (use t(2) in \<open>auto simp: unowned_def\<close>)
  show "fs_trans {} {t} st L st' L"
    by (rule fs_trans_trans [OF x fs_trans_refl [OF fs_transD(1,2) [OF x], of "{}" "{}"]]) (use new_is_no_file [OF wf] in auto)
  show "same_shape st st'" "entry_at i st' = entry_at i st" "is_file i st' = is_file i st" for i
    by (simp_all add: st'_def same_shape_def entry_at_def is_file_def slot_def)
  then show "unowned t st'" using t(2) by (simp add: unowned_def)
  have "lib_mem st' (t + of_nat i) = lib_mem st (p + of_nat i)" if "i < unat sz" for i
    using copied_at [OF that, of "lib_mem st" t p] j(2) ap by (simp add: st'_def sz_def [symmetric] m)
  then show "map (\<lambda>k. lib_mem st' (t + of_nat k)) [0..<unat (esize (entry_at s st))] = contents st s"
    using s(2,3) by (simp add: contents_def sz_def)
qed

lemma copy_data_step:
  fixes a st :: "'a filesystem_scheme"
  assumes t: "fs_trans {} {} a L st L1" and s: "is_file s a" "is_file s st" "entry_at s st = entry_at s a" and sizes: "sizes_ok a"
    and d: "\<not> is_file d a" "is_file d st" "d \<noteq> s" "esize (entry_at d st) = esize (entry_at s a)"
    and found: "\<not> is_root_path dest \<Longrightarrow> lookup dest st = Some d"
    and init: "fs_initialized st"
    and unwritten: "esize (entry_at s a) = 0 \<Longrightarrow> data_pointer (entry_at d st) = 0"
  obtains (failed) st' L' where "copy_data s dest st = Some (- 1, st')" and "fs_trans {} {} a L st' L'" and "fs_initialized st'"
  | (copied) st' L' where "copy_data s dest st = Some (0, st')" and "fs_trans {} {} a L st' L'" and "same_shape st st'"
      and "esize (entry_at d st') = esize (entry_at s a)"
      and "data_pointer (entry_at s a) \<noteq> 0 \<or> esize (entry_at s a) = 0 \<Longrightarrow> contents st' d = contents a s"
proof -
  define sz where "sz = esize (entry_at s st)"
  define p where "p = data_pointer (entry_at s st)"
  have sz: "sz \<le> 4294967288" using sizes s(1,3) by (simp add: sizes_ok_def sz_def)
  have csa: "contents st s = contents a s" using fs_transD(3) [OF t] s(1) by (simp add: files_kept_def)
  have undo: "\<exists>r st' L'. fs_delete dest st5 = Some (r, st') \<and> fs_trans {} {} a L st' L' \<and> fs_initialized st'"
    if t5: "fs_trans X W a L st5 L5" "same_shape st st5" and XW: "\<And>i. i \<in> X \<Longrightarrow> i = d" "\<And>q. q \<in> W \<Longrightarrow> L q = None" for X W st5 L5
  proof -
    have i5: "fs_initialized st5" using t5(2) init by (simp add: same_shape_def)
    have "\<not> is_file x a" if "\<not> is_root_path dest" "lookup dest st5 = Some x" for x
      using that found same_shape_lookup [OF t5(2)] d(1) by auto
    then show ?thesis using undo_delete [OF t5(1) _ XW(2), of dest] XW(1) d(1) i5 by metis
  qed
  show ?thesis
  proof (cases "p \<noteq> 0 \<and> 0 < sz")
    case False
    have "copy_data s dest st = Some (0, st)" using False by (auto simp: copy_data_def p_def sz_def Let_def)
    moreover have "contents st d = contents a s" if "p \<noteq> 0 \<or> sz = 0"
      using False that unwritten s(3) by (auto simp: contents_def p_def sz_def word_gt_0)
    ultimately show ?thesis using copied t d(4) s(3) by (simp add: p_def sz_def)
  next
    case True
    obtain tmp st3 L3 where m: "malloc sz st = Some (tmp, st3)" and t3: "fs_trans {} {} st L1 st3 L3" and step: "libc_step st st3"
      and tmp: "tmp \<noteq> 0 \<longrightarrow> L1 tmp = None \<and> unowned tmp st3 \<and> (\<exists>n. L3 tmp = Some n \<and> unat sz \<le> n)"
      by (rule fs_trans_malloc [OF fs_transD(1,2) [OF t] sz])
    note f = libc_step_fields [OF step]
    have t03: "fs_trans {} {} a L st3 L3" by (rule fs_trans_trans [OF t t3]) simp_all
    show ?thesis
    proof (cases "tmp = 0")
      case True
      obtain r st' L' where "fs_delete dest st3 = Some (r, st')" "fs_trans {} {} a L st' L'" "fs_initialized st'"
        using undo [OF t03 f(7)] by auto
      then show ?thesis using failed m True \<open>p \<noteq> 0 \<and> 0 < sz\<close> by (simp add: copy_data_def p_def sz_def)
    next
      case False
      then obtain n where n: "L1 tmp = None" "unowned tmp st3" "L3 tmp = Some n" "unat sz \<le> n" using tmp by blast
      have La: "L tmp = None \<or> \<not> unowned tmp a" using fs_transD(6) [OF t, of tmp] n(1) by (cases "L tmp") auto
      have La: "L tmp = None"
      proof (rule ccontr)
        assume "L tmp \<noteq> None"
        then obtain i where i: "is_file i a" "data_pointer (entry_at i a) = tmp" using La by (auto simp: unowned_def)
        then have "is_file i st3" "entry_at i st3 = entry_at i a" using fs_transD(3) [OF t03] by (simp_all add: files_kept_def)
        then show False using n(2) i(2) by (auto simp: unowned_def)
      qed
      define st4 where "st4 = st3\<lparr>lib_mem := memcpy (lib_mem st3) tmp p sz\<rparr>"
      have s3: "is_file s st3" "data_pointer (entry_at s st3) = p" "p \<noteq> 0" "esize (entry_at s st3) = sz"
        using s(2) f True by (simp_all add: p_def sz_def)
      note c = temporary_copy [OF fs_transD(1,2) [OF t03] s3(1-3) n(3,2), unfolded s3(4), OF n(4), folded st4_def]
      have cs3: "contents st3 s = contents a s" using fs_transD(3) [OF t03] s(1) by (simp add: files_kept_def)
      have t04: "fs_trans {} {tmp} a L st4 L3" by (rule fs_trans_trans [OF t03 c(1)]) auto
      have sh4: "same_shape st st4" by (rule same_shape_trans [OF f(7) c(2)])
      have src: "foreign tmp (unat sz) st4 L3"
        unfolding foreign_def
      proof (intro conjI disjI2)
        show "\<exists>n. L3 tmp = Some n \<and> unat sz \<le> n \<and> unowned tmp st4" using n c(3) by blast
        show "unat tmp + unat sz \<le> 4294967296"
          using fs_heap_area(2,3) [OF fs_dataD(1) [OF fs_transD(2) [OF t04]] n(3)] n(4) by simp
      qed
      have isd4: "is_file d st4" "esize (entry_at d st4) = sz" using d(2,4) f c(5,6) s(3) by (simp_all add: sz_def)
      have found4: "\<not> is_root_path dest \<Longrightarrow> lookup dest st4 = Some d" using found same_shape_lookup [OF sh4] by simp
      have after: "\<exists>st6. free tmp st5 = Some st6 \<and> libc_step st5 st6 \<and> fs_trans {d} {tmp} a L st6 (L5(tmp := None)) \<and>
          (is_file d st5 \<longrightarrow> contents st6 d = contents st5 d)"
        if t5: "fs_trans {d} {} st4 L3 st5 L5" for st5 L5
      proof -
        have b: "L5 tmp = Some n" "unowned tmp st5" using fs_transD(6) [OF t5 n(3) _ c(3)] by simp_all
        obtain st6 where fr: "free tmp st5 = Some st6" "fs_trans {} {tmp} st5 L5 st6 (L5(tmp := None))" "libc_step st5 st6"
          by (rule fs_trans_free [OF fs_transD(1,2) [OF t5] b])
        have t05: "fs_trans {d} {tmp} a L st5 L5" by (rule fs_trans_trans [OF t04 t5]) auto
        have "fs_trans {d} {tmp} a L st6 (L5(tmp := None))" by (rule fs_trans_trans [OF t05 fr(2)]) auto
        moreover have "is_file d st5 \<longrightarrow> contents st6 d = contents st5 d" using fs_transD(3) [OF fr(2)] by (simp add: files_kept_def)
        ultimately show ?thesis using fr by blast
      qed
      have body: "copy_data s dest st = Option.bind (fs_write dest tmp sz st4) (\<lambda>(result, st).
             Option.bind (free tmp st) (\<lambda>st.
             if result \<noteq> 0 then map_option (\<lambda>(r, st). (- 1, st)) (fs_delete dest st) else Some (0, st)))"
        using m True False by (simp add: copy_data_def p_def [symmetric] sz_def [symmetric] st4_def)
      have fail: ?thesis if w: "fs_write dest tmp sz st4 = Some (- 1, st5)" and t5: "fs_trans {d} {} st4 L3 st5 L5" and sh: "same_shape st4 st5" for st5 L5
      proof -
        obtain st6 where st6: "free tmp st5 = Some st6" "libc_step st5 st6" "fs_trans {d} {tmp} a L st6 (L5(tmp := None))"
          using after [OF t5] by blast
        have "same_shape st st6" using same_shape_trans [OF sh4 same_shape_trans [OF sh libc_step_fields(7) [OF st6(2)]]] .
        then obtain r st' L' where "fs_delete dest st6 = Some (r, st')" "fs_trans {} {} a L st' L'" "fs_initialized st'"
          using undo [OF st6(3)] La by blast
        then show ?thesis using failed w st6(1) unfolding body by simp
      qed
      from fs_transD(1,2) [OF t04] sz src show ?thesis
      proof (cases rule: fs_write_step [where path = dest])
        case (refused st5)
        have "fs_trans {d} {} st4 L3 st5 L3"
          using refused(2) fs_trans_refl [OF fs_transD(1,2) [OF t04]] fs_trans_parsed [OF fs_transD(1,2) [OF t04]] by blast
        moreover have "same_shape st4 st5" using refused(2) by auto
        ultimately show ?thesis using fail refused(1) by blast
      next
        case (lost x st5 L5)
        then have "x = d" using found4 by simp
        then show ?thesis using fail lost(1,4,5) by blast
      next
        case (written x st5 L5)
        then have x: "x = d" using found4 by simp
        obtain st6 where st6: "free tmp st5 = Some st6" "libc_step st5 st6" "fs_trans {d} {tmp} a L st6 (L5(tmp := None))"
          "is_file d st5 \<longrightarrow> contents st6 d = contents st5 d"
          using after [OF written(4) [unfolded x]] by blast
        have r: "copy_data s dest st = Some (0, st6)" using written(1) st6(1) unfolding body by simp
        have sh: "same_shape st st6" using same_shape_trans [OF sh4 same_shape_trans [OF written(5) libc_step_fields(7) [OF st6(2)]]] .
        have "is_file d st5"
          using isd4(1) written(5) by (simp add: is_file_def same_shape_slot [OF written(5)]) (simp add: same_shape_def)
        then have cd: "contents st6 d = contents a s" using st6(4) written(7) c(4) cs3 x by simp
        have ed: "esize (entry_at d st6) = sz" using written(8) x libc_step_fields(9) [OF st6(2)] by simp
        have "fs_trans {} {} a L st6 (L5(tmp := None))"
          by (rule fs_trans_trans [OF st6(3) fs_trans_refl [OF fs_transD(1,2) [OF st6(3)], of "{}" "{}"]]) (use d(1) La in auto)
        then show ?thesis using copied r sh cd ed s(3) by (simp add: sz_def)
      qed
    qed
  qed
qed

lemma fs_copy_step:
  fixes st :: "'a filesystem_scheme"
  assumes wf: "fs_wf st" and data: "fs_data st L" and sizes: "sizes_ok st"
  obtains (failed) st' L' where "fs_copy src dest st = Some (- 1, st')" and "fs_trans {} {} st L st' L'"
      and "fs_initialized st' = fs_initialized st"
  | (copied) s st' L' where "fs_copy src dest st = Some (0, st')" and "fs_trans {} {} st L st' L'" and "may_copy src dest s st"
      and "is_file s st" and "\<And>q i. lookup q st = Some i \<Longrightarrow> lookup q st' = Some i"
      and "\<not> is_root_path dest \<Longrightarrow> lookup dest st' = Some (file_count st)" and "is_file (file_count st) st'" and "fs_initialized st'"
      and "esize (entry_at (file_count st) st') = esize (entry_at s st)"
      and "data_pointer (entry_at s st) \<noteq> 0 \<or> esize (entry_at s st) = 0 \<Longrightarrow> contents st' (file_count st) = contents st s"
proof (cases "\<exists>s. may_copy src dest s st")
  case False
  then have "fs_copy src dest st = Some (- 1, st) \<or> fs_copy src dest st = Some (- 1, parsed st)"
    by (intro fs_copy_refuses) blast
  then show ?thesis
    using failed [OF _ fs_trans_refl [OF wf data]] failed [OF _ fs_trans_parsed [OF wf data]] by auto
next
  case True
  then obtain s where s: "may_copy src dest s st" by blast
  define sz where "sz = esize (entry_at s st)"
  have isf: "is_file s st" using lookup_file [OF wf] s by (auto simp: may_copy_def)
  have init: "fs_initialized st" using s by (simp add: may_copy_def)
  have szb: "sz \<le> 4294967288" using sizes isf by (simp add: sizes_ok_def sz_def)
  have wf0: "fs_wf (parsed st)" and data0: "fs_data (parsed st) L" using wf data by simp_all
  have t0: "fs_trans {} {} st L (parsed st) L" by (rule fs_trans_parsed [OF wf data])
  note eq = fs_copy_eq [OF s, folded sz_def]
  from wf0 data0 szb show ?thesis
  proof (cases rule: fs_create_step [where path = dest])
    case (refused st' L')
    have "fs_trans {} {} st L st' L'" by (rule fs_trans_trans [OF t0 refused(2)]) simp_all
    then show ?thesis using failed refused(1,4) unfolding eq by simp
  next
    case (created p st1 st2 dp L2)
    define d where "d = file_count st"
    have t2: "fs_trans {} {} st L st2 L2" by (rule fs_trans_trans [OF t0 created(2)]) simp_all
    have may: "may_create dest p st" using created(3) by (simp add: may_create_def)
    have sh1: "same_shape st st1" by (rule same_shape_trans [OF parsed_shape(1) created(4)])
    note l = created_lookups [OF sh1 created(5) may created(6), folded d_def]
    have e: "entry_at d st2 = file_entry (leaf_of dest) sz dp p st1" using l(4) by (simp add: file_entry_def)
    have isd: "is_file d st2" using l(3) by (simp add: file_entry_def)
    have "is_file s st2 \<and> entry_at s st2 = entry_at s st" using fs_transD(3) [OF t2] isf by (simp add: files_kept_def)
    then have s2: "is_file s st2" "entry_at s st2 = entry_at s st" by simp_all
    have nd: "\<not> is_file d st" unfolding d_def by (rule new_is_no_file [OF wf])
    then have ds: "d \<noteq> s" using isf by auto
    have i2: "fs_initialized st2" using created(7) init by simp
    have es: "esize (entry_at d st2) = esize (entry_at s st)" by (simp add: e file_entry_def sz_def)
    have up: "esize (entry_at s st) = 0 \<Longrightarrow> data_pointer (entry_at d st2) = 0"
      using created(8) by (auto simp: e file_entry_def sz_def)
    have found: "\<not> is_root_path dest \<Longrightarrow> lookup dest st2 = Some d" using l(2) by (simp add: file_entry_def)
    have old: "lookup q st = Some i \<Longrightarrow> lookup q st2 = Some i" for q i using l(1) by (simp add: file_entry_def)
    have body: "fs_copy src dest st = copy_data s dest st2" using created(1) unfolding eq by simp
    show ?thesis
    proof (rule copy_data_step [OF t2 isf s2 sizes nd isd ds es found i2 up])
      fix st' L'
      assume "copy_data s dest st2 = Some (- 1, st')" "fs_trans {} {} st L st' L'" "fs_initialized st'"
      then show thesis using failed init unfolding body by simp
    next
      fix st' L'
      assume c: "copy_data s dest st2 = Some (0, st')" "fs_trans {} {} st L st' L'" "same_shape st2 st'"
        "esize (entry_at d st') = esize (entry_at s st)"
        "data_pointer (entry_at s st) \<noteq> 0 \<or> esize (entry_at s st) = 0 \<Longrightarrow> contents st' d = contents st s"
      have lk: "lookup q st' = lookup q st2" for q by (rule same_shape_lookup [OF c(3)])
      have "is_file d st'"
        using isd by (simp add: is_file_def same_shape_slot [OF c(3)]) (use c(3) in \<open>simp add: same_shape_def\<close>)
      then show thesis
        using copied [OF _ c(2) s isf, folded d_def] c(1,3-5) lk old found i2 unfolding body by (simp add: same_shape_def)
    qed
  qed
qed

text \<open>A move is a copy and a deletion, which finds the file it has to delete.\<close>

lemma fs_move_step:
  fixes st :: "'a filesystem_scheme"
  assumes wf: "fs_wf st" and data: "fs_data st L" and sizes: "sizes_ok st"
  obtains (failed) st' L' where "fs_move src dest st = Some (- 1, st')" and "fs_trans {} {} st L st' L'"
      and "fs_initialized st' = fs_initialized st"
  | (moved) s st' L' where "fs_move src dest st = Some (0, st')" and "fs_trans {s} {} st L st' L'" and "may_copy src dest s st"
      and "is_file s st" and "leaf_of src \<noteq> [] \<Longrightarrow> lookup src st' = None"
      and "\<not> is_root_path dest \<Longrightarrow> lookup dest st' = Some (file_count st)" and "is_file (file_count st) st'"
      and "data_pointer (entry_at s st) \<noteq> 0 \<or> esize (entry_at s st) = 0 \<Longrightarrow> contents st' (file_count st) = contents st s"
      and "fs_initialized st'" and "\<And>q. lookup q st' \<noteq> Some s" and "\<And>q i. lookup q st = Some i \<Longrightarrow> i \<noteq> s \<Longrightarrow> lookup q st' = Some i"
proof (cases "fs_initialized st")
  case False
  then show ?thesis using failed [OF _ fs_trans_refl [OF wf data]] by (simp add: fs_move_def)
next
  case True
  from wf data sizes show ?thesis
  proof (cases rule: fs_copy_step [where src = src and dest = dest])
    case (failed st' L')
    then show ?thesis using that(1) True by (simp add: fs_move_def)
  next
    case (copied s st1 L1)
    define d where "d = file_count st"
    have s: "\<not> is_root_path src" "lookup src st = Some s" "etype (entry_at s st) = FS_TYPE_FILE"
      using copied(3) by (simp_all add: may_copy_def)
    have ls: "lookup src st1 = Some s" by (rule copied(5) [OF s(2)])
    have "is_file s st1" "entry_at s st1 = entry_at s st"
      using fs_transD(3) [OF copied(2)] copied(4) by (simp_all add: files_kept_def)
    then have del: "deletable s st1" by (simp add: deletable_def s(3))
    have nd: "\<not> is_file d st" unfolding d_def by (rule new_is_no_file [OF wf])
    then have ds: "d \<noteq> s" using copied(4) by auto
    from fs_transD(1,2) [OF copied(2)] show ?thesis
    proof (cases rule: fs_delete_step [where path = src])
      case (refused st')
      then show ?thesis using del ls s(1) copied(8) by blast
    next
      case (deleted x gone st' L')
      have x: "x = s" using deleted(2) ls by simp
      note wf1 = fs_transD(1) [OF copied(2)]
      have "fs_trans {s} {} st L st' L'" by (rule fs_trans_trans [OF copied(2) deleted(3) [unfolded x]]) auto
      moreover have "lookup src st' = None" if "leaf_of src \<noteq> []"
        using shrunk_lookup [OF wf1 deleted(4) ls that] x by simp
      moreover have "lookup dest st' = Some d" if "\<not> is_root_path dest"
        using shrunk_lookup_kept [OF wf1 deleted(4), of dest d] copied(6) that x ds by (simp add: d_def)
      moreover have "lookup q st' \<noteq> Some s" for q using shrunk_lookup_gone [OF wf1 deleted(4)] x by simp
      moreover have "lookup q st' = Some i" if "lookup q st = Some i" "i \<noteq> s" for q i
        using shrunk_lookup_kept [OF wf1 deleted(4) copied(5) [OF that(1)]] that(2) x by simp
      moreover have "is_file d st'" and "contents st' d = contents st1 d"
        using fs_transD(3) [OF deleted(3)] copied(7) x ds by (simp_all add: files_kept_def d_def)
      moreover have "fs_move src dest st = Some (0, st')" using True copied(1) deleted(1) by (simp add: fs_move_def)
      ultimately show ?thesis
        using that(2) copied(3,4,8,10) deleted(5) by (simp add: d_def)
    qed
  qed
qed

section \<open>The current directory\<close>

lemma fs_change_dir_cases:
  assumes "fs_change_dir path st = Some (r, st')"
    and "P st" and "P (parsed st)" and "\<And>c. P (st\<lparr>current_directory := c\<rparr>)" and "\<And>c. P ((parsed st)\<lparr>current_directory := c\<rparr>)"
  shows "P st'"
proof -
  have c: "fs_change_dir path st = Some (a, s) \<Longrightarrow> P s" for a s
    unfolding fs_change_dir_def Let_def fs_find_eq
    using assms(2-5) by (simp split: if_splits option.splits) blast+
  then show ?thesis using assms(1) by blast
qed

lemma fs_trans_current_directory:
  assumes "fs_wf st" and "fs_data st L"
  shows "fs_trans X W st L (st\<lparr>current_directory := c\<rparr>) L"
proof -
  define st' where "st' = st\<lparr>current_directory := c\<rparr>"
  have f: "is_file i st' = is_file i st" "entry_at i st' = entry_at i st" "lib_mem st' = lib_mem st" "contents st' i = contents st i"
    "fs_heap st' L = fs_heap st L" for i
    by (simp_all add: st'_def is_file_def slot_def entry_at_def contents_def fs_heap_def libc_live_def libc_rep_def)
  have "same_shape st st'" by (simp add: same_shape_def st'_def entry_at_def)
  then have "fs_wf st'" by (rule same_shape_wf) (rule assms(1))
  moreover have "fs_data st' L" using assms(2) unfolding fs_data_def f .
  ultimately show ?thesis
    unfolding st'_def [symmetric]
    by (intro fs_transI) (simp_all add: files_kept_def sizes_ok_def unowned_def same_block_def f, simp_all add: st'_def)
qed

end
