(* ===== verification/FsCalls.thy ===== *)
theory FsCalls
  imports FsCopy
begin

text \<open>
  The invariant of the file system, and what every call does of it: the invariant is kept, entries are
  never given back, memory changes in the array of the allocator only, and the call returns.
\<close>

section \<open>The current directory\<close>

text \<open>The string of the current directory begins with a slash, whatever is called; only
  \<open>fs_change_dir\<close> changes it.\<close>

definition cwd_ok :: "'a filesystem_scheme \<Rightarrow> bool" where
  "cwd_ok st \<longleftrightarrow> take 1 (current_directory st) = [47]"

lemma malloc_loop_fields:
  assumes "malloc_loop k c st = Some r"
  shows "\<exists>m. snd r = st\<lparr>lib_mem := m\<rparr>"
proof (rule malloc_loop.raw_induct [OF _ assms])
  fix loop k c st r
  assume ih: "\<And>k c st r. loop k c st = Some r \<Longrightarrow> \<exists>m. snd r = st\<lparr>lib_mem := m\<rparr>"
    and r: "(if c = 0 then Some (0, st)
      else if mb_free (lib_mem st) c \<and> k \<le> mb_size (lib_mem st) c
      then Some (c + BLOCK_HEADER, st\<lparr>lib_mem := take_block k c (lib_mem st)\<rparr>)
      else loop k (mb_next (lib_mem st) c) st) = Some r"
  have "\<exists>m. st = st\<lparr>lib_mem := m\<rparr>" by (intro exI [of _ "lib_mem st"]) simp
  then show "\<exists>m. snd r = st\<lparr>lib_mem := m\<rparr>" using r ih by (auto split: if_splits)
qed

lemma malloc_cwd:
  assumes "malloc k st = Some (p, st')"
  shows "current_directory st' = current_directory (st :: 'a filesystem_scheme)"
proof -
  have "current_directory (initialize_heap st) = current_directory st" by (simp add: initialize_heap_def Let_def)
  then show ?thesis using malloc_loop_fields assms unfolding malloc_def Let_def by fastforce
qed

lemma free_cwd: "free p st = Some st' \<Longrightarrow> current_directory st' = current_directory (st :: 'a filesystem_scheme)"
  by (auto simp: free_def Let_def split: if_splits)

lemma update_cwd [simp]:
  "current_directory (update_entry_at i f st) = current_directory st"
  "current_directory (update_directory i g st) = current_directory st"
  "current_directory (unlink_entry i st) = current_directory st"
  by (simp_all add: update_entry_at_def update_directory_def unlink_entry_def Let_def)

lemma fs_create_cwd: "fs_create path sz st = Some (r, st') \<Longrightarrow> current_directory st' = current_directory st"
  by (auto simp: fs_create_def fs_find_eq fs_find_parent_dir_eq fs_get_filename_eq Let_def dest!: malloc_cwd
      split: if_splits option.splits Option.bind_splits)

lemma fs_mkdir_cwd: "fs_mkdir path st = Some (r, st') \<Longrightarrow> current_directory st' = current_directory st"
  by (auto simp: fs_mkdir_def fs_find_eq fs_find_parent_dir_eq fs_get_filename_eq Let_def split: if_splits option.splits)

lemma fs_delete_cwd: "fs_delete path st = Some (r, st') \<Longrightarrow> current_directory st' = current_directory st"
  by (auto simp: fs_delete_def fs_find_eq Let_def dest!: free_cwd split: if_splits option.splits Option.bind_splits)

lemma fs_write_cwd: "fs_write path a sz st = Some (r, st') \<Longrightarrow> current_directory st' = current_directory st"
  by (auto simp: fs_write_def fs_find_eq Let_def dest!: free_cwd malloc_cwd split: if_splits option.splits Option.bind_splits)

lemma fs_copy_cwd: "fs_copy src dest st = Some (r, st') \<Longrightarrow> current_directory st' = current_directory st"
  by (auto simp: fs_copy_def fs_find_eq Let_def dest!: free_cwd malloc_cwd fs_create_cwd fs_delete_cwd fs_write_cwd
      split: if_splits option.splits Option.bind_splits)

lemma fs_move_cwd: "fs_move src dest st = Some (r, st') \<Longrightarrow> current_directory st' = current_directory st"
  by (auto simp: fs_move_def dest!: fs_copy_cwd fs_delete_cwd split: if_splits option.splits Option.bind_splits)

lemma before_last_slash_prefix: "\<exists>k. before_last_slash s = take k s"
  by (auto simp: before_last_slash_def dropWhile_eq_drop tl_drop rev_drop drop_Suc [symmetric])

lemma target_path_slash: "cwd_ok st \<Longrightarrow> take 1 (target_path path st) = [47]"
  by (cases path; cases "current_directory st") (auto simp: target_path_def cwd_ok_def FS_MAX_PATH_LEN_def)

lemma fs_change_dir_cwd:
  assumes "fs_change_dir path st = Some (r, st')" and cwd: "cwd_ok st"
  shows "cwd_ok st'"
proof -
  obtain k where k: "before_last_slash (current_directory st) = take k (current_directory st)"
    using before_last_slash_prefix by blast
  have "take 1 (take k (current_directory st)) = [47]" if "take k (current_directory st) \<noteq> []"
    using that cwd by (cases k) (auto simp: cwd_ok_def)
  moreover have "take 1 (take 256 (target_path path st)) = [47]" using target_path_slash [OF cwd, of path] by simp
  ultimately show ?thesis
    using assms by (auto simp: fs_change_dir_def fs_find_eq Let_def k cwd_ok_def FS_MAX_PATH_LEN_def split: if_splits)
qed

lemma fs_change_dir_returns:
  assumes "cwd_ok st"
  shows "fs_change_dir path st \<noteq> None"
proof -
  have "47 \<in> set (take 1 (current_directory st))" using assms by (simp add: cwd_ok_def)
  then have "47 \<in> set (current_directory st)" by (rule in_set_takeD)
  then show ?thesis by (simp add: fs_change_dir_def split_beta Let_def)
qed

section \<open>The invariant\<close>

text \<open>The invariant: well-formed tables, contents in blocks of their own, file sizes below the bound from
  which the allocator's rounding wraps around, and a current directory that begins with a slash.\<close>

definition fs_inv :: "filesystem \<Rightarrow> bool" where
  "fs_inv st \<longleftrightarrow> fs_wf st \<and> (\<exists>L. fs_data st L) \<and> sizes_ok st \<and> cwd_ok st"

lemma fs_inv_trans: "fs_inv st \<Longrightarrow> fs_trans X W st L st' L' \<Longrightarrow> cwd_ok st' \<Longrightarrow> fs_inv st'"
  unfolding fs_inv_def using fs_transD(1,2,7) by blast

lemma fs_inv_cwd: "fs_inv st \<Longrightarrow> cwd_ok st"
  by (simp add: fs_inv_def)

lemma cwd_same: "cwd_ok st \<Longrightarrow> current_directory st' = current_directory st \<Longrightarrow> cwd_ok st'"
  by (simp add: cwd_ok_def)

lemma fs_invE:
  assumes "fs_inv st"
  obtains L where "fs_wf st" and "fs_data st L" and "sizes_ok st"
  using assms unfolding fs_inv_def by blast

lemma parsed_step: "fs_inv st \<Longrightarrow> st' = st \<or> st' = parsed st \<Longrightarrow> fs_inv st' \<and> file_count st \<le> file_count st'"
  by (elim disjE) (auto simp: fs_inv_def sizes_ok_def cwd_ok_def)

definition fs_call :: "filesystem \<Rightarrow> filesystem \<Rightarrow> bool" where
  "fs_call f f' \<longleftrightarrow> fs_inv f' \<and> file_count f \<le> file_count f' \<and> lib_heap f' = lib_heap f \<and>
     unchanged_outside (lib_mem f) (lib_mem f') (unat (lib_heap f)) (unat (lib_heap f) + 0x100000)"

lemma fs_call_same: "fs_inv f \<Longrightarrow> f' = f \<or> f' = parsed f \<Longrightarrow> fs_call f f'"
  using parsed_step [of f f'] by (auto simp: fs_call_def)

lemma fs_call_trans: "fs_inv f \<Longrightarrow> fs_trans X W f L f' L' \<Longrightarrow> cwd_ok f' \<Longrightarrow> fs_call f f'"
  using fs_inv_trans fs_transD(4,5,8) by (auto simp: fs_call_def)

lemma fs_call_find: "fs_inv f \<Longrightarrow> fs_call f (snd (fs_find path f))"
  by (rule fs_call_same) (auto simp: fs_find_eq)

lemma fs_call_stat: "fs_inv f \<Longrightarrow> fs_stat path info f = (r, info', f') \<Longrightarrow> fs_call f f'"
  by (rule fs_call_same) (auto simp: fs_stat_def fs_find_eq Let_def split: if_splits)

lemma fs_call_list: "fs_inv f \<Longrightarrow> fs_list_dir path sz f = (r, out, f') \<Longrightarrow> fs_call f f'"
  by (rule fs_call_same) (auto simp: fs_list_dir_def fs_find_eq Let_def split: if_splits option.splits)

lemma fs_call_create:
  assumes inv: "fs_inv f" and sz: "sz \<le> 4294967288" and r: "fs_create path sz f = Some (r, f')"
  shows "fs_call f f'"
proof -
  have cwd: "cwd_ok f'" by (rule cwd_same [OF fs_inv_cwd [OF inv] fs_create_cwd [OF r]])
  obtain L where wf: "fs_wf f" and data: "fs_data f L" by (rule fs_invE [OF inv])
  from wf data sz show ?thesis
  proof (cases rule: fs_create_step [where path = path])
    case (refused s L')
    then show ?thesis using r fs_call_trans [OF inv refused(2)] cwd by simp
  next
    case (created p s1 s dp L')
    then show ?thesis using r fs_call_trans [OF inv created(2)] cwd by simp
  qed
qed

lemma fs_call_mkdir:
  assumes inv: "fs_inv f" and r: "fs_mkdir path f = Some (r, f')"
  shows "fs_call f f'"
proof -
  have cwd: "cwd_ok f'" by (rule cwd_same [OF fs_inv_cwd [OF inv] fs_mkdir_cwd [OF r]])
  obtain L where wf: "fs_wf f" and data: "fs_data f L" by (rule fs_invE [OF inv])
  from wf data show ?thesis
  proof (cases rule: fs_mkdir_step [where path = path])
    case (refused s)
    then show ?thesis using r fs_call_same [OF inv] by simp
  next
    case (created p s)
    then show ?thesis using r fs_call_trans [OF inv created(2)] cwd by simp
  next
    case (overrun p)
    then show ?thesis using r by simp
  qed
qed

lemma fs_call_delete:
  assumes inv: "fs_inv f" and r: "fs_delete path f = Some (r, f')"
  shows "fs_call f f'"
proof -
  have cwd: "cwd_ok f'" by (rule cwd_same [OF fs_inv_cwd [OF inv] fs_delete_cwd [OF r]])
  obtain L where wf: "fs_wf f" and data: "fs_data f L" by (rule fs_invE [OF inv])
  from wf data show ?thesis
  proof (cases rule: fs_delete_step [where path = path])
    case (refused s)
    then show ?thesis using r fs_call_same [OF inv] by simp
  next
    case (deleted x gone s L')
    then show ?thesis using r fs_call_trans [OF inv deleted(3)] cwd by simp
  qed
qed

lemma fs_call_chdir:
  assumes inv: "fs_inv f" and r: "fs_change_dir path f = Some (r, f')"
  shows "fs_call f f'"
proof -
  obtain L where wf: "fs_wf f" and data: "fs_data f L" by (rule fs_invE [OF inv])
  have wf0: "fs_wf (parsed f)" and data0: "fs_data (parsed f) L" using wf data by simp_all
  have p: "fs_inv (parsed f)" using fs_call_same [OF inv, of "parsed f"] by (simp add: fs_call_def)
  have cwd: "cwd_ok f'" by (rule fs_change_dir_cwd [OF r fs_inv_cwd [OF inv]])
  have "cwd_ok f' \<longrightarrow> fs_call f f'"
  proof (rule fs_change_dir_cases [OF r], safe)
    show "fs_call f f" "fs_call f (parsed f)" using fs_call_same [OF inv] by simp_all
    show "fs_call f (f\<lparr>current_directory := c\<rparr>)" if "cwd_ok (f\<lparr>current_directory := c\<rparr>)" for c
      by (rule fs_call_trans [OF inv fs_trans_current_directory [OF wf data, of "{}" "{}"] that])
    show "fs_call f ((parsed f)\<lparr>current_directory := c\<rparr>)" if "cwd_ok ((parsed f)\<lparr>current_directory := c\<rparr>)" for c
      using fs_call_trans [OF p fs_trans_current_directory [OF wf0 data0, of "{}" "{}"] that] by (simp add: fs_call_def)
  qed
  then show ?thesis using cwd ..
qed

lemma fs_call_write:
  assumes inv: "fs_inv f" and sz: "sz \<le> 4294967288" and a: "outside_heap f a (unat sz)" and r: "fs_write path a sz f = Some (r, f')"
  shows "fs_call f f'"
proof -
  have cwd: "cwd_ok f'" by (rule cwd_same [OF fs_inv_cwd [OF inv] fs_write_cwd [OF r]])
  obtain L where wf: "fs_wf f" and data: "fs_data f L" by (rule fs_invE [OF inv])
  have "foreign a (unat sz) f L" using a by (auto simp: foreign_def outside_heap_def)
  from wf data sz this show ?thesis
  proof (cases rule: fs_write_step [where path = path])
    case (refused s)
    then show ?thesis using r fs_call_same [OF inv] by simp
  next
    case (lost x s L')
    then show ?thesis using r fs_call_trans [OF inv lost(4)] cwd by simp
  next
    case (written x s L')
    then show ?thesis using r fs_call_trans [OF inv written(4)] cwd by simp
  qed
qed

lemma fs_call_copy:
  assumes inv: "fs_inv f" and r: "fs_copy src dest f = Some (r, f')"
  shows "fs_call f f'"
proof -
  have cwd: "cwd_ok f'" by (rule cwd_same [OF fs_inv_cwd [OF inv] fs_copy_cwd [OF r]])
  obtain L where wf: "fs_wf f" and data: "fs_data f L" and sizes: "sizes_ok f" by (rule fs_invE [OF inv])
  from wf data sizes show ?thesis
  proof (cases rule: fs_copy_step [where src = src and dest = dest])
    case (failed s L')
    then show ?thesis using r fs_call_trans [OF inv failed(2)] cwd by simp
  next
    case (copied x s L')
    then show ?thesis using r fs_call_trans [OF inv copied(2)] cwd by simp
  qed
qed

lemma fs_call_move:
  assumes inv: "fs_inv f" and r: "fs_move src dest f = Some (r, f')"
  shows "fs_call f f'"
proof -
  have cwd: "cwd_ok f'" by (rule cwd_same [OF fs_inv_cwd [OF inv] fs_move_cwd [OF r]])
  obtain L where wf: "fs_wf f" and data: "fs_data f L" and sizes: "sizes_ok f" by (rule fs_invE [OF inv])
  from wf data sizes show ?thesis
  proof (cases rule: fs_move_step [where src = src and dest = dest])
    case (failed s L')
    then show ?thesis using r fs_call_trans [OF inv failed(2)] cwd by simp
  next
    case (moved x s L')
    then show ?thesis using r fs_call_trans [OF inv moved(2)] cwd by simp
  qed
qed

text \<open>Reading changes the buffer instead, and returns no more than its size.\<close>

lemma fs_read_inv:
  assumes inv: "fs_inv f" and b: "outside_heap f b (unat sz)" and r: "fs_read path b sz f = (r, f')"
  shows "fs_inv f'" and "file_count f' = file_count f" and "lib_heap f' = lib_heap f"
    and "unchanged_outside (lib_mem f) (lib_mem f') (unat b) (unat b + unat sz)"
proof -
  obtain L where wf: "fs_wf f" and data: "fs_data f L" and sizes: "sizes_ok f" by (rule fs_invE [OF inv])
  note step = fs_read_step [OF wf data b r]
  have same: "entries f' = entries f" "directories f' = directories f" "dir_count f' = dir_count f"
    "current_directory f' = current_directory f"
    using r by (auto simp: fs_read_def fs_find_eq Let_def split: if_splits)
  then have "sizes_ok f'" using sizes by (simp add: sizes_ok_def is_file_def slot_def entry_at_def)
  moreover have "cwd_ok f'" by (rule cwd_same [OF fs_inv_cwd [OF inv] same(4)])
  ultimately show "fs_inv f'" using step(1,2) unfolding fs_inv_def by blast
  show "file_count f' = file_count f" "lib_heap f' = lib_heap f"
    using r by (auto simp: fs_read_def fs_find_eq Let_def split: if_splits)
  show "unchanged_outside (lib_mem f) (lib_mem f') (unat b) (unat b + unat sz)" by (rule step(5))
qed

lemma sint_small:
  assumes "unat (k :: u32) < 2147483648"
  shows "sint k = int (unat k)"
proof -
  have "int (unat k) < int 2147483648" using assms by (subst of_nat_less_iff)
  then have "uint k < 2147483648" by simp
  moreover have "- 2147483648 \<le> uint k" by (rule order_trans [OF _ uint_ge_0]) simp
  ultimately have "signed_take_bit 31 (uint k) = uint k" by (intro signed_take_bit_int_eq_self) simp_all
  then show ?thesis by (simp add: sint_uint)
qed

lemma fs_read_result:
  assumes r: "fs_read path b sz f = (r, f')" and sz: "unat sz < 2147483648"
  shows "r \<le> int (unat sz)"
proof -
  have small: "sint k \<le> int (unat sz)" if "unat k \<le> unat sz" for k :: u32
  proof -
    have "sint k = int (unat k)" using sz that by (intro sint_small) linarith
    then show ?thesis using that by (simp only: of_nat_le_iff)
  qed
  then have "k < sz \<Longrightarrow> sint k \<le> uint sz" "sint sz \<le> uint sz" for k
    using small [of k] small [of sz] by (simp_all add: word_less_nat_alt)
  moreover have "- 1 \<le> uint sz" by (rule order_trans [OF _ uint_ge_0]) simp
  ultimately show ?thesis using r by (auto simp: fs_read_def Let_def split_beta split: if_splits)
qed

section \<open>Every call returns\<close>

text \<open>The allocator comes to the end of its chain for any size, and a live block is found.\<close>

lemma fs_malloc_returns:
  assumes "fs_heap st L"
  shows "malloc k st \<noteq> None"
proof -
  define st0 where "st0 = initialize_heap st"
  obtain bs where rep: "libc_rep st0 bs" using fs_heap_initialize(1) [OF assms] by (auto simp: libc_live_def st0_def)
  have m: "malloc k st = malloc k st0" unfolding st0_def by (rule malloc_initialized)
  have "malloc_loop (malloc_size k) (of_nat (unat (lib_heap st0))) st0 \<noteq> None"
    using rep malloc_loop_chain [of st0 "unat (lib_heap st0)" bs "malloc_size k"] by (auto simp: libc_rep_def split: option.splits)
  then show ?thesis using rep unfolding m by (simp add: malloc_def initialize_heap_def libc_rep_def Let_def)
qed

lemma fs_create_returns:
  assumes "fs_inv st"
  shows "fs_create path sz st \<noteq> None"
proof -
  obtain L where "fs_data (parsed st) L" using assms by (auto simp: fs_inv_def)
  then have "malloc sz (parsed st) \<noteq> None" using fs_malloc_returns fs_dataD(1) by blast
  moreover have "fs_create path sz st = Some (- 1, st) \<or> fs_create path sz st = Some (- 1, parsed st)" if "\<nexists>p. may_create path p st"
    using that by (intro fs_create_refuses) blast
  ultimately show ?thesis
    using fs_create_allowed [of path _ st sz] by (cases "\<exists>p. may_create path p st") (auto split: option.splits)
qed

lemma fs_mkdir_returns:
  assumes "fs_inv st"
  shows "fs_mkdir path st = None \<longleftrightarrow> (\<exists>p. may_mkdir path p st) \<and> file_count st = 128"
proof (cases "\<exists>p. may_mkdir path p st")
  case True
  then obtain p where p: "may_mkdir path p st" ..
  then show ?thesis using fs_mkdir_allowed [OF p] fs_wfD(5) [of st] assms by (auto simp: fs_inv_def)
next
  case False
  then show ?thesis using fs_mkdir_refuses [of path st] by auto
qed

lemma fs_delete_returns:
  assumes "fs_inv st"
  shows "fs_delete path st \<noteq> None"
proof -
  obtain L where wf: "fs_wf st" and data: "fs_data st L" by (rule fs_invE [OF assms])
  then show ?thesis by (cases rule: fs_delete_step [where path = path]) simp_all
qed

lemma fs_copy_returns:
  assumes "fs_inv st"
  shows "fs_copy src dest st \<noteq> None"
proof -
  obtain L where wf: "fs_wf st" and data: "fs_data st L" and sizes: "sizes_ok st" by (rule fs_invE [OF assms])
  then show ?thesis by (cases rule: fs_copy_step [where src = src and dest = dest]) simp_all
qed

lemma fs_move_returns:
  assumes "fs_inv st"
  shows "fs_move src dest st \<noteq> None"
proof -
  obtain L where wf: "fs_wf st" and data: "fs_data st L" and sizes: "sizes_ok st" by (rule fs_invE [OF assms])
  then show ?thesis by (cases rule: fs_move_step [where src = src and dest = dest]) simp_all
qed

lemma fs_heap_entry [simp]: "fs_heap (update_entry_at i f st) L = fs_heap st L"
  by (simp add: update_entry_at_def fs_heap_def libc_live_def libc_rep_def)

lemma fs_write_returns:
  assumes "fs_inv st"
  shows "fs_write path a sz st \<noteq> None"
proof (cases "fs_initialized st \<and> \<not> is_root_path path \<and> (\<exists>x. lookup path st = Some x \<and> etype (entry_at x st) = FS_TYPE_FILE)")
  case False
  then show ?thesis using fs_write_refuses [of st path a sz] by fastforce
next
  case True
  then obtain x where x: "fs_initialized st" "\<not> is_root_path path" "lookup path st = Some x" "etype (entry_at x st) = FS_TYPE_FILE"
    by blast
  define p where "p = data_pointer (entry_at x st)"
  obtain L where wf: "fs_wf st" and data: "fs_data st L" by (rule fs_invE [OF assms])
  have heap: "fs_heap (parsed st) L" using fs_dataD(1) [of "parsed st" L] data by simp
  have rest: "Option.bind (if b then map_option f (malloc sz s) else Some (True, s)) (\<lambda>(ok, s). if \<not> ok then Some (- 1, s) else g s) \<noteq> None"
    if "fs_heap s M" and "\<And>s. g s \<noteq> None" for b f s M and g :: "filesystem \<Rightarrow> (int \<times> filesystem) option"
    using fs_malloc_returns [OF that(1), of sz] that(2) by (auto simp: split_beta split: Option.bind_splits)
  obtain s M where s: "(if p \<noteq> 0 \<and> esize (entry_at x st) \<noteq> sz
      then map_option (update_entry_at x (\<lambda>e. e\<lparr>data_pointer := 0\<rparr>)) (free p (parsed st)) else Some (parsed st)) = Some s" "fs_heap s M"
  proof (cases "p \<noteq> 0 \<and> esize (entry_at x st) \<noteq> sz")
    case True
    then obtain n where n: "L p = Some n" using fs_dataD(2) [OF data lookup_file [OF wf x(3,4)]] by (auto simp: p_def)
    obtain s where "free p (parsed st) = Some s" "fs_heap s (L(p := None))" by (rule fs_free [OF heap n])
    then show ?thesis using that [of "update_entry_at x (\<lambda>e. e\<lparr>data_pointer := 0\<rparr>) s"] True by simp
  next
    case False
    show ?thesis by (rule that [OF _ heap]) (use False in auto)
  qed
  have "fs_write path a sz st = Option.bind (Some s) (\<lambda>s.
     Option.bind (if data_pointer (entries s ! x) = 0
        then map_option (\<lambda>(p, st). (p \<noteq> 0, update_entry_at x (\<lambda>e. e\<lparr>data_pointer := p\<rparr>) st)) (malloc sz s)
        else Some (True, s)) (\<lambda>(ok, st). if \<not> ok then Some (- 1, st)
       else Some (0, update_entry_at x (\<lambda>e. e\<lparr>esize := sz\<rparr>) (st\<lparr>lib_mem := memcpy (lib_mem st) (data_pointer (entries st ! x)) a sz\<rparr>))))"
    unfolding s(1) [symmetric] using x by (simp add: fs_write_def fs_find_eq entry_at_def p_def Let_def cong: if_cong)
  then show ?thesis using rest [OF s(2)] by simp
qed

end
