(* ===== verification/FsProps.thy ===== *)
theory FsProps
  imports FsCalls
begin

text \<open>
  The properties of the file system: the invariant that every operation keeps, what an operation
  changes and what it leaves alone, and where it runs out of room.
\<close>

section \<open>Steps and reachable states\<close>

text \<open>The calls of the file system, with the buffers of a caller outside of the allocator's array.\<close>

inductive fs_step :: "filesystem \<Rightarrow> filesystem \<Rightarrow> bool" where
  create: "sz \<le> 4294967288 \<Longrightarrow> fs_create path sz st = Some (r, st') \<Longrightarrow> fs_step st st'"
| mkdir: "fs_mkdir path st = Some (r, st') \<Longrightarrow> fs_step st st'"
| delete: "fs_delete path st = Some (r, st') \<Longrightarrow> fs_step st st'"
| fwrite: "sz \<le> 4294967288 \<Longrightarrow> outside_heap st a (unat sz) \<Longrightarrow> fs_write path a sz st = Some (r, st') \<Longrightarrow> fs_step st st'"
| fread: "outside_heap st b (unat sz) \<Longrightarrow> fs_read path b sz st = (r, st') \<Longrightarrow> fs_step st st'"
| copy: "fs_copy src dest st = Some (r, st') \<Longrightarrow> fs_step st st'"
| move: "fs_move src dest st = Some (r, st') \<Longrightarrow> fs_step st st'"
| change_dir: "fs_change_dir path st = Some (r, st') \<Longrightarrow> fs_step st st'"
| stat: "fs_stat path info st = (r, info', st') \<Longrightarrow> fs_step st st'"
| list: "fs_list_dir path sz st = (r, out, st') \<Longrightarrow> fs_step st st'"

text \<open>A state as \<open>fs_init\<close> leaves it, in a machine whose allocator has its array between address 0
  and the end of memory.\<close>

definition fs_start :: "filesystem \<Rightarrow> bool" where
  "fs_start st \<longleftrightarrow> (\<exists>st0. st = fs_init st0 \<and> \<not> lib_heap_initialized st0 \<and>
     0 < unat (lib_heap st0) \<and> unat (lib_heap st0) + 0x100000 < 4294967296)"

definition fs_reach :: "filesystem \<Rightarrow> bool" where
  "fs_reach st \<longleftrightarrow> (\<exists>st0. fs_start st0 \<and> fs_step\<^sup>*\<^sup>* st0 st)"

lemma fs_wf_init: "fs_wf (fs_init st)"
proof -
  have d: "slot d (fs_init st) = (if d = 0 then \<lparr>dname = [47], dparent = 0, dfiles = []\<rparr> else zero_directory)" if "d < 32" for d
    using that by (auto simp: fs_init_def Let_def slot_def fs_init_current_dir_def FS_MAX_DIRECTORIES_def zero_directory_def)
  have c: "dir_count (fs_init st) = 1" "file_count (fs_init st) = 0" "length (directories (fs_init st)) = 32"
    "length (entries (fs_init st)) = 128"
    by (simp_all add: fs_init_def Let_def fs_init_current_dir_def FS_MAX_DIRECTORIES_def FS_MAX_FILES_def)
  show ?thesis
    unfolding fs_wf_def c listing_ok_def by (auto simp: d zero_directory_def)
qed

lemma fs_inv_start:
  assumes "fs_start st"
  shows "fs_inv st"
proof -
  obtain st0 where s: "st = fs_init st0" "\<not> lib_heap_initialized st0" "0 < unat (lib_heap st0)" "unat (lib_heap st0) + 0x100000 < 4294967296"
    using assms by (auto simp: fs_start_def)
  have "dir_count st = 1" "dfiles (slot 0 st) = []"
    by (simp_all add: s(1) fs_init_def Let_def fs_init_current_dir_def slot_def FS_MAX_DIRECTORIES_def zero_directory_def)
  then have "\<not> is_file i st" for i by (simp add: is_file_def)
  moreover have "fs_heap st Map.empty"
    using s(2-4) by (simp add: s(1) fs_heap_def fs_init_def Let_def fs_init_current_dir_def)
  ultimately show ?thesis
    using fs_wf_init [of st0] s(1) unfolding fs_inv_def fs_data_def sizes_ok_def cwd_ok_def
    by (auto simp: fs_init_def fs_init_current_dir_def Let_def)
qed

lemma fs_step_inv:
  assumes "fs_step st st'" and inv: "fs_inv st"
  shows "fs_inv st' \<and> file_count st \<le> file_count st'"
proof -
  have call: "fs_call st s \<Longrightarrow> fs_inv s \<and> file_count st \<le> file_count s" for s by (simp add: fs_call_def)
  from assms(1) show ?thesis
  proof cases
    case (fread b sz path r)
    then show ?thesis using fs_read_inv(1,2) [OF inv fread] by simp
  next
    case (create sz path r)
    show ?thesis by (rule call [OF fs_call_create [OF inv create]])
  next
    case (mkdir path r)
    show ?thesis by (rule call [OF fs_call_mkdir [OF inv mkdir]])
  next
    case (delete path r)
    show ?thesis by (rule call [OF fs_call_delete [OF inv delete]])
  next
    case (fwrite sz a path r)
    show ?thesis by (rule call [OF fs_call_write [OF inv fwrite]])
  next
    case (copy src dest r)
    show ?thesis by (rule call [OF fs_call_copy [OF inv copy]])
  next
    case (move src dest r)
    show ?thesis by (rule call [OF fs_call_move [OF inv move]])
  next
    case (change_dir path r)
    show ?thesis by (rule call [OF fs_call_chdir [OF inv change_dir]])
  next
    case (stat path info r info')
    show ?thesis by (rule call [OF fs_call_stat [OF inv stat]])
  next
    case (list path sz r out)
    show ?thesis by (rule call [OF fs_call_list [OF inv list]])
  qed
qed

lemma fs_steps_inv: "fs_step\<^sup>*\<^sup>* st st' \<Longrightarrow> fs_inv st \<Longrightarrow> fs_inv st' \<and> file_count st \<le> file_count st'"
  by (induction rule: rtranclp_induct) (use fs_step_inv le_trans in blast)+

lemma fs_reach_inv: "fs_reach st \<Longrightarrow> fs_inv st"
  unfolding fs_reach_def using fs_steps_inv fs_inv_start by blast

section \<open>Concrete states\<close>

definition ex0 :: filesystem where
  "ex0 = \<lparr>lib_mem = (\<lambda>_. 0), lib_heap = 0x200000, free_list = 0, lib_heap_initialized = False, rand_next = 1,
     fs_initialized = False, dir_count = 0, file_count = 0, directories = [], entries = [], current_directory = [], last_token = None\<rparr>"

definition ex_start :: filesystem where "ex_start = fs_init ex0"
definition ex_file :: filesystem where "ex_file = snd (the (fs_create [47, 97] 0 ex_start))"
definition ex_written :: filesystem where "ex_written = snd (the (fs_write [47, 97] 0x1000 3 ex_file))"

lemma call_Some: "map_option fst x = Some r \<Longrightarrow> x = Some (r, snd (the x))"
  by (cases x) auto

lemma ex_file: "fs_create [47, 97] 0 ex_start = Some (0, ex_file)"
  unfolding ex_file_def by (rule call_Some) code_simp

lemma ex_written: "fs_write [47, 97] 0x1000 3 ex_file = Some (0, ex_written)"
  unfolding ex_written_def by (rule call_Some) code_simp

lemma reach_start: "fs_reach ex_start"
  unfolding fs_reach_def fs_start_def ex_start_def
  by (intro exI [of _ "fs_init ex0"] conjI exI [of _ ex0] rtranclp.rtrancl_refl) (simp_all add: ex0_def)

lemma reach_step: "fs_reach st \<Longrightarrow> fs_step st st' \<Longrightarrow> fs_reach st'"
  unfolding fs_reach_def using rtranclp.rtrancl_into_rtrancl by meson

lemma reach_file: "fs_reach ex_file"
  by (rule reach_step [OF reach_start fs_step.create [OF _ ex_file]]) simp

lemma heap_file: "lib_heap ex_file = 0x200000"
  by code_simp

lemma outside_file: "unat b + k \<le> 0x200000 \<Longrightarrow> outside_heap ex_file b k"
  by (simp add: outside_heap_def heap_file)

lemma reach_written: "fs_reach ex_written"
  by (rule reach_step [OF reach_file fs_step.fwrite [OF _ _ ex_written]]) (simp_all add: outside_file)

section \<open>The invariant\<close>

text \<open>C2: After any calls since \<open>fs_init\<close>, each with a path of less than 256 bytes, a size of at most
  4294967288 and a buffer outside of the allocator's array, and none the \<open>fs_mkdir\<close> that writes behind
  a full table (\<open>fs_calls_return\<close> says when), the tables are well-formed: listings have no duplicate
  entries, names have no slashes and are unique within a directory but for the empty name (which
  creating "/" gives, any number of times), every directory is behind its parent and listed in it. And
  the contents of the files are in live blocks of the allocator that are large enough and that no two
  files share.\<close>

theorem fs_reach_invariant:
  assumes "fs_reach st"
  shows "fs_wf st \<and> (\<exists>L. fs_heap st L \<and>
     (\<forall>i. is_file i st \<longrightarrow> data_pointer (entry_at i st) \<noteq> 0 \<longrightarrow>
        (\<exists>n. L (data_pointer (entry_at i st)) = Some n \<and> unat (esize (entry_at i st)) \<le> n)) \<and>
     (\<forall>i j. is_file i st \<longrightarrow> is_file j st \<longrightarrow> data_pointer (entry_at i st) = data_pointer (entry_at j st) \<longrightarrow>
        data_pointer (entry_at i st) \<noteq> 0 \<longrightarrow> i = j))"
  using fs_reach_inv [OF assms] unfolding fs_inv_def fs_data_def by blast

theorem fs_reach_invariant_witness:
  "fs_wf ex_written \<and> (\<exists>L. fs_heap ex_written L \<and>
     (\<forall>i. is_file i ex_written \<longrightarrow> data_pointer (entry_at i ex_written) \<noteq> 0 \<longrightarrow>
        (\<exists>n. L (data_pointer (entry_at i ex_written)) = Some n \<and> unat (esize (entry_at i ex_written)) \<le> n)) \<and>
     (\<forall>i j. is_file i ex_written \<longrightarrow> is_file j ex_written \<longrightarrow> data_pointer (entry_at i ex_written) = data_pointer (entry_at j ex_written) \<longrightarrow>
        data_pointer (entry_at i ex_written) \<noteq> 0 \<longrightarrow> i = j))"
  by (rule fs_reach_invariant [OF reach_written])

text \<open>C27: In a state reached by calls as above every call that is not total by its type returns, for any path
  of less than 256 bytes, any size and any buffer: creating, deleting, writing, copying, moving and
  changing the directory always, as the allocator's chain has an end and the current directory a slash
  to cut at. The one exception is \<open>fs_mkdir\<close> in a full table: its checks do not ask for a free entry,
  and it writes behind the table exactly when they pass with all 128 entries in use. (That a call
  returns does not say that it does what it should: a size above 4294967288 wraps around in the
  allocator, and a write then runs over its block.)\<close>

theorem fs_calls_return:
  assumes "fs_reach st"
  shows "fs_create path sz st \<noteq> None \<and> fs_delete path st \<noteq> None \<and> fs_write path a sz st \<noteq> None \<and>
    fs_copy path dest st \<noteq> None \<and> fs_move path dest st \<noteq> None \<and> fs_change_dir path st \<noteq> None \<and>
    (fs_mkdir path st = None \<longleftrightarrow> (\<exists>p. may_mkdir path p st) \<and> file_count st = 128)"
proof -
  have inv: "fs_inv st" by (rule fs_reach_inv [OF assms])
  show ?thesis
    using fs_create_returns [OF inv] fs_delete_returns [OF inv] fs_write_returns [OF inv] fs_copy_returns [OF inv]
      fs_move_returns [OF inv] fs_change_dir_returns [OF fs_inv_cwd [OF inv]] fs_mkdir_returns [OF inv] by blast
qed

theorem fs_calls_return_witness:
  "fs_create [47, 98] 7 ex_written \<noteq> None \<and> fs_move [47, 97] [47, 99] ex_written \<noteq> None \<and>
   fs_change_dir [46, 46] ex_written \<noteq> None \<and> fs_mkdir [47, 100] ex_written \<noteq> None"
proof -
  have "file_count ex_written \<noteq> 128" by code_simp
  then show ?thesis
    using fs_calls_return [OF reach_written, where path = "[47, 98]" and sz = 7]
      fs_calls_return [OF reach_written, where path = "[47, 97]" and dest = "[47, 99]"]
      fs_calls_return [OF reach_written, where path = "[46, 46]"] fs_calls_return [OF reach_written, where path = "[47, 100]"]
    by blast
qed

section \<open>Lookups\<close>

lemma fs_find_int: "\<not> is_root_path path \<Longrightarrow> fst (fs_find path st) = (case lookup path st of Some i \<Rightarrow> int i | None \<Rightarrow> - 1)"
  by (simp add: fs_find_eq)

lemma fs_find_nat: "fst (fs_find path st) = int i \<longleftrightarrow> \<not> is_root_path path \<and> lookup path st = Some i"
  by (auto simp: fs_find_eq split: option.splits)

text \<open>C23: After a successful \<open>fs_create\<close>, of at most 4294967288 bytes, there is a new file of the size that was
  asked for, every path that led to an entry before leads to the same one, and all files keep entry and
  contents. The path, which led nowhere before, leads to the new file, unless it is the path of the
  root (empty or "/"): the code does not refuse it, the new file has no name, and the path still
  leads to the root.\<close>

theorem fs_create_find:
  assumes "fs_reach st" and "sz \<le> 4294967288" and "fs_create path sz st = Some (0, st')"
  shows "is_file (file_count st) st' \<and> esize (entry_at (file_count st) st') = sz \<and>
    (\<forall>q i. fst (fs_find q st) = int i \<longrightarrow> fst (fs_find q st') = int i) \<and> files_kept {} st st' \<and>
    (if is_root_path path then ename (entry_at (file_count st) st') = [] \<and> fst (fs_find path st') = - 2
     else fst (fs_find path st) = - 1 \<and> fst (fs_find path st') = int (file_count st))"
proof -
  obtain L where wf: "fs_wf st" and data: "fs_data st L" by (rule fs_invE [OF fs_reach_inv [OF assms(1)]])
  from wf data assms(2) show ?thesis
  proof (cases rule: fs_create_step [where path = path])
    case (refused s L')
    then show ?thesis using assms(3) by simp
  next
    case (created p st1 s dp L')
    then have s: "s = st'" using assms(3) by simp
    note l = created_lookups [OF created(4,5,3,6), unfolded s]
    have old: "\<forall>q i. fst (fs_find q st) = int i \<longrightarrow> fst (fs_find q st') = int i" "files_kept {} st st'"
      using l(1) fs_transD(3) [OF created(2)] s unfolding fs_find_nat by (simp_all add: file_entry_def)
    show ?thesis
    proof (cases "is_root_path path")
      case True
      then have "fst (fs_find path st') = - 2" by (simp add: fs_find_def)
      then show ?thesis using l(3,4) old True leaf_of_root [OF True] by (simp add: file_entry_def)
    next
      case False
      then have "lookup path st = None" using created(3) by (simp add: may_create_def)
      then show ?thesis using l(2-4) old False by (simp add: fs_find_int file_entry_def)
    qed
  qed
qed

theorem fs_create_find_witness:
  "fst (fs_find [47, 97] ex_file) = 0 \<and> fst (fs_find [47, 97] ex_start) = - 1"
proof -
  have "file_count ex_start = 0" by code_simp
  then show ?thesis using fs_create_find [OF reach_start _ ex_file] by (simp add: is_root_path_def)
qed

text \<open>C24: After a successful \<open>fs_delete\<close> no path leads to the entry any more, every other path to an entry
  leads to the same one, and all other files keep entry and contents. The path itself leads nowhere
  then, but if it has no name in it (like "//"): then it may lead to another nameless entry.\<close>

theorem fs_delete_find:
  assumes "fs_reach st" and "fs_delete path st = Some (0, st')"
  shows "\<exists>x. fst (fs_find path st) = int x \<and> (\<forall>q. fst (fs_find q st') \<noteq> int x) \<and>
    (\<forall>q i. fst (fs_find q st) = int i \<longrightarrow> i \<noteq> x \<longrightarrow> fst (fs_find q st') = int i) \<and> files_kept {x} st st' \<and>
    (leaf_of path \<noteq> [] \<longrightarrow> fst (fs_find path st') = - 1)"
proof -
  obtain L where wf: "fs_wf st" and data: "fs_data st L" by (rule fs_invE [OF fs_reach_inv [OF assms(1)]])
  from wf data show ?thesis
  proof (cases rule: fs_delete_step [where path = path])
    case (refused s)
    then show ?thesis using assms(2) by simp
  next
    case (deleted x gone s L')
    then have s: "s = st'" using assms(2) by simp
    note shrunk = deleted(4) [unfolded s]
    have "leaf_of path \<noteq> [] \<Longrightarrow> fst (fs_find path st') = - 1"
      using shrunk_lookup [OF wf shrunk deleted(2)] deleted(6) by (simp add: fs_find_int)
    moreover have "fst (fs_find q st') \<noteq> int x" for q using shrunk_lookup_gone [OF wf shrunk] by (simp add: fs_find_nat)
    moreover have "fst (fs_find q st) = int i \<Longrightarrow> i \<noteq> x \<Longrightarrow> fst (fs_find q st') = int i" for q i
      using shrunk_lookup_kept [OF wf shrunk] by (simp add: fs_find_nat)
    ultimately show ?thesis
      using deleted(2,6) fs_transD(3) [OF deleted(3)] s by (intro exI [of _ x]) (simp add: fs_find_nat)
  qed
qed

theorem fs_delete_find_witness:
  "\<exists>x. fst (fs_find [47, 97] ex_written) = int x \<and> fst (fs_find [47, 97] (snd (the (fs_delete [47, 97] ex_written)))) = - 1"
proof -
  have d: "fs_delete [47, 97] ex_written = Some (0, snd (the (fs_delete [47, 97] ex_written)))"
    by (rule call_Some) code_simp
  have "leaf_of [47, 97] \<noteq> []" by code_simp
  then show ?thesis using fs_delete_find [OF reach_written d] by blast
qed

section \<open>Contents\<close>

text \<open>C7: What is written is what is read: a read after a successful write delivers the bytes that were in
  the writer's buffer, as many as both sizes allow, into the reader's buffer and nowhere else in
  memory; all other files keep entry and contents, and all paths lead where they led.\<close>

theorem fs_write_read_roundtrip:
  assumes "fs_reach st" and "sz \<le> 0x7FFFFFFF" and "outside_heap st a (unat sz)" and "outside_heap st b (unat k)"
    and w: "fs_write path a sz st = Some (0, st1)" and r: "fs_read path b k st1 = (r, st2)"
  shows "\<exists>x. fst (fs_find path st) = int x \<and> r = int (min (unat sz) (unat k)) \<and>
    (\<forall>i < min (unat sz) (unat k). lib_mem st2 (b + of_nat i) = lib_mem st (a + of_nat i)) \<and>
    unchanged_outside (lib_mem st1) (lib_mem st2) (unat b) (unat b + unat k) \<and> files_kept {x} st st2 \<and>
    (\<forall>q. lookup q st2 = lookup q st)"
proof -
  obtain L where wf: "fs_wf st" and data: "fs_data st L" by (rule fs_invE [OF fs_reach_inv [OF assms(1)]])
  have f: "foreign a (unat sz) st L" using assms(3) by (auto simp: foreign_def outside_heap_def)
  have szb: "sz \<le> 4294967288" using order_trans [OF assms(2)] by simp
  from wf data szb f show ?thesis
  proof (cases rule: fs_write_step [where path = path])
    case (refused s)
    then show ?thesis using w by simp
  next
    case (lost x s L')
    then show ?thesis using w by simp
  next
    case (written x s L')
    then have s: "s = st1" using w by simp
    note t = written(4) [unfolded s]
    have sh: "same_shape st st1" using written(5) s by simp
    have b1: "outside_heap st1 b (unat k)" using assms(4) fs_transD(4) [OF t] by (simp add: outside_heap_def)
    note rd = fs_read_step [OF fs_transD(1,2) [OF t] b1 r]
    have i1: "fs_initialized st1" using w sh by (auto simp: fs_write_def same_shape_def split: if_splits)
    have l1: "lookup path st1 = Some x" using written(2) same_shape_lookup [OF sh] by simp
    have f1: "is_file x st1"
      using written(3) by (simp add: is_file_def same_shape_slot [OF sh]) (use sh in \<open>simp add: same_shape_def\<close>)
    have size: "unat (read_size x k st1) = min (unat sz) (unat k)"
      using written(8) s by (auto simp: read_size_def word_less_nat_alt)
    have d1: "data_pointer (entry_at x st1) \<noteq> 0" using written(9) s by simp
    have c: "contents st1 x = map (\<lambda>i. lib_mem st (a + of_nat i)) [0..<unat sz]" using written(7) s by simp
    note res = rd(6) [OF i1 written(6) l1 f1 d1]
    have "unat sz \<le> 2147483647" using assms(2) by (simp add: word_le_nat_alt)
    then have "unat (read_size x k st1) < 2147483648" unfolding size by simp
    then have "r = int (min (unat sz) (unat k))" using res sint_small size by metis
    moreover have "lib_mem st2 (b + of_nat i) = lib_mem st (a + of_nat i)" if "i < min (unat sz) (unat k)" for i
      using res that unfolding size c by simp
    moreover have "files_kept {x} st st2"
      by (rule files_kept_trans [OF fs_transD(3) [OF t] files_kept_mono [OF rd(3)]]) simp
    moreover have "lookup q st2 = lookup q st" for q
      using same_shape_lookup [OF rd(4)] same_shape_lookup [OF sh] by simp
    moreover have "fst (fs_find path st) = int x" using written(2,6) by (simp add: fs_find_nat)
    ultimately show ?thesis using rd(5) by (intro exI [of _ x]) simp
  qed
qed

theorem fs_write_read_roundtrip_witness:
  "fst (fs_read [47, 97] 0x3000 10 ex_written) = 3"
proof -
  obtain r st2 where r: "fs_read [47, 97] 0x3000 10 ex_written = (r, st2)" by (cases "fs_read [47, 97] 0x3000 10 ex_written") auto
  have "r = int (min (unat (3 :: u32)) (unat (10 :: u32)))"
    using fs_write_read_roundtrip [OF reach_file _ _ _ ex_written r] by (auto simp: outside_file)
  then show ?thesis using r by simp
qed

text \<open>C25: After a successful \<open>fs_move\<close> no path leads to the old file any more, and every path to another entry
  leads to the same one; there is a new file, to which the new path leads if it is not that of the root,
  and the old path leads nowhere if it has a name in it. The new file has the old one's contents if the
  old one had its contents in memory or has size 0 (after a \<open>fs_write\<close> that found no memory it has
  neither, and there is nothing to carry over). All other files keep entry and contents.\<close>

theorem fs_move_correct:
  assumes "fs_reach st" and "fs_move src dest st = Some (0, st')"
  shows "\<exists>s. fst (fs_find src st) = int s \<and> (\<forall>q. fst (fs_find q st') \<noteq> int s) \<and>
    (\<forall>q i. fst (fs_find q st) = int i \<longrightarrow> i \<noteq> s \<longrightarrow> fst (fs_find q st') = int i) \<and> is_file (file_count st) st' \<and>
    (\<not> is_root_path dest \<longrightarrow> fst (fs_find dest st) = - 1 \<and> fst (fs_find dest st') = int (file_count st)) \<and>
    (leaf_of src \<noteq> [] \<longrightarrow> fst (fs_find src st') = - 1) \<and>
    (data_pointer (entry_at s st) \<noteq> 0 \<or> esize (entry_at s st) = 0 \<longrightarrow> contents st' (file_count st) = contents st s) \<and>
    files_kept {s} st st'"
proof -
  obtain L where wf: "fs_wf st" and data: "fs_data st L" and sizes: "sizes_ok st" by (rule fs_invE [OF fs_reach_inv [OF assms(1)]])
  from wf data sizes show ?thesis
  proof (cases rule: fs_move_step [where src = src and dest = dest])
    case (failed s L')
    then show ?thesis using assms(2) by simp
  next
    case (moved s s' L')
    then have s: "s' = st'" using assms(2) by simp
    have m: "\<not> is_root_path src" "lookup src st = Some s" "\<not> is_root_path dest \<Longrightarrow> lookup dest st = None"
      using moved(3) by (auto simp: may_copy_def)
    have "fst (fs_find q st') \<noteq> int s" for q using moved(10) unfolding s by (simp add: fs_find_nat)
    moreover have "fst (fs_find q st) = int i \<Longrightarrow> i \<noteq> s \<Longrightarrow> fst (fs_find q st') = int i" for q i
      using moved(11) unfolding s by (simp add: fs_find_nat)
    moreover have "leaf_of src \<noteq> [] \<Longrightarrow> fst (fs_find src st') = - 1" using moved(5) m(1) unfolding s by (simp add: fs_find_int)
    moreover have "\<not> is_root_path dest \<Longrightarrow> fst (fs_find dest st) = - 1 \<and> fst (fs_find dest st') = int (file_count st)"
      using moved(6) m(3) unfolding s by (simp add: fs_find_int)
    ultimately show ?thesis
      using m(1,2) moved(7,8) fs_transD(3) [OF moved(2)] unfolding s by (intro exI [of _ s]) (simp add: fs_find_nat)
  qed
qed

theorem fs_move_correct_witness:
  "fst (fs_find [47, 97] (snd (the (fs_move [47, 97] [47, 98] ex_file)))) = - 1"
proof -
  have m: "fs_move [47, 97] [47, 98] ex_file = Some (0, snd (the (fs_move [47, 97] [47, 98] ex_file)))"
    by (rule call_Some) code_simp
  have "leaf_of [47, 97] \<noteq> []" by code_simp
  then show ?thesis using fs_move_correct [OF reach_file m] by blast
qed

section \<open>Running out of entries\<close>

text \<open>Entries are never used again: once all 128 have been given out, no sequence of calls (deletions
  included) makes \<open>fs_create\<close> succeed again.\<close>

theorem fs_entries_run_out:
  assumes "fs_reach st" and "file_count st = 128" and "fs_step\<^sup>*\<^sup>* st st'" and "sz \<le> 4294967288"
  shows "\<exists>st''. fs_create path sz st' = Some (- 1, st'')"
proof -
  have i: "fs_inv st'" "file_count st \<le> file_count st'" using fs_steps_inv [OF assms(3) fs_reach_inv [OF assms(1)]] by simp_all
  obtain L where wf: "fs_wf st'" and data: "fs_data st' L" by (rule fs_invE [OF i(1)])
  from wf data assms(4) show ?thesis
  proof (cases rule: fs_create_step [where path = path])
    case (created p st1 s dp L')
    then show ?thesis using i(2) assms(2) by (simp add: may_create_def)
  qed blast
qed

text \<open>Creating and deleting the same file over and over uses the table up.\<close>

lemma reach_used_up:
  "n \<le> 128 \<Longrightarrow> \<exists>st. fs_reach st \<and> file_count st = n \<and> dfiles (slot 0 st) = [] \<and> fs_initialized st"
proof (induction n)
  case 0
  have "file_count ex_start = 0 \<and> dfiles (slot 0 ex_start) = [] \<and> fs_initialized ex_start" by code_simp
  then show ?case using reach_start by blast
next
  case (Suc n)
  then obtain st where st: "fs_reach st" "file_count st = n" "dfiles (slot 0 st) = []" "fs_initialized st" by auto
  have path: "\<not> is_root_path [47, 97]" "leaf_of [47, 97] = [97]" "parts_of [47, 97] = []" by code_simp+
  have par: "parent_of [47, 97] st = Some 0" by (simp add: parent_of_def path)
  have none: "lookup [47, 97] st = None" using st(3) by (simp add: lookup_def par find_in_def slot_def)
  have may: "may_create [47, 97] 0 st" using st Suc.prems par none by (simp add: may_create_def)
  define st1 where "st1 = new_file [97] 0 0 0 (parsed st)"
  have c: "fs_create [47, 97] 0 st = Some (0, st1)" using fs_create_allowed [OF may, of 0] by (simp add: path st1_def)
  have r1: "fs_reach st1" by (rule reach_step [OF st(1) fs_step.create [OF _ c]]) simp
  have wf1: "fs_wf st1" using fs_reach_inv [OF r1] by (simp add: fs_inv_def)
  have wf0: "fs_wf (parsed st)" using fs_reach_inv [OF st(1)] by (simp add: fs_inv_def)
  have may0: "may_create [47, 97] 0 (parsed st)" using may by (simp add: may_create_def)
  note g = new_file_grown [OF wf0 may0, of 0 0, unfolded path, folded st1_def]
  note l = created_lookups [OF same_shape_refl wf0 may0 g(1)]
  have l1: "lookup [47, 97] st1 = Some n" using l(2) st(2) path by (simp add: file_entry_def)
  have e1: "entry_at n st1 = file_entry [97] 0 0 0 (parsed st)" using l(4) st(2) path by (simp add: file_entry_def)
  have d1: "dfiles (slot 0 st1) = [n]" "file_count st1 = Suc n" "fs_initialized st1"
    using grown_files [OF wf0 g(1), of 0] grownD(11) [OF g(1)] g(3) st by simp_all
  obtain L where "fs_data st1 L" using fs_reach_inv [OF r1] by (auto simp: fs_inv_def)
  with wf1 show ?case
  proof (cases rule: fs_delete_step [where path = "[47, 97]"])
    case (refused s)
    have "deletable n st1" by (simp add: deletable_def e1 file_entry_def)
    then show ?thesis using refused(3) [OF d1(3) path(1) l1] by simp
  next
    case (deleted x gone st2 L')
    have x: "x = n" using deleted(2) l1 by simp
    have "fs_reach st2" by (rule reach_step [OF r1 fs_step.delete [OF deleted(1)]])
    moreover have "dfiles (slot 0 st2) = []"
      using shrunkD(10) [OF deleted(4), of 0] x d1(1) e1 by (simp add: file_entry_def)
    ultimately show ?thesis using shrunkD(7) [OF deleted(4)] d1 deleted(5) by auto
  qed
qed

theorem fs_entries_run_out_witness:
  "\<exists>st. fs_reach st \<and> file_count st = 128 \<and> (\<exists>st''. fs_create [47, 98] 10 st = Some (- 1, st''))"
proof -
  obtain st where st: "fs_reach st" "file_count st = 128" using reach_used_up [of 128] by auto
  then show ?thesis using fs_entries_run_out [OF st rtranclp.rtrancl_refl, of 10 "[47, 98]"] by auto
qed

section \<open>Paths\<close>

text \<open>The components of a path: what is between the slashes, without the empty pieces.\<close>

fun pieces :: "u8 list \<Rightarrow> u8 list list" where
  "pieces [] = [[]]"
| "pieces (c # cs) = (if c = 47 then [] # pieces cs else (c # hd (pieces cs)) # tl (pieces cs))"

lemma pieces_unfold:
  "pieces s = takeWhile (\<lambda>c. c \<noteq> 47) s # (case dropWhile (\<lambda>c. c \<noteq> 47) s of [] \<Rightarrow> [] | c # r \<Rightarrow> pieces r)"
  by (induction s) auto

lemma pieces_skip: "filter (\<lambda>t. t \<noteq> []) (pieces (dropWhile (\<lambda>c. c = 47) s)) = filter (\<lambda>t. t \<noteq> []) (pieces s)"
  by (induction s) auto

lemma tokens_pieces: "tokens s = filter (\<lambda>t. t \<noteq> []) (pieces s)"
proof (induction s rule: tokens.induct)
  case (1 s)
  define w where "w = dropWhile (\<lambda>c. c = 47) s"
  show ?case
  proof (cases "w = []")
    case True
    then have "tokens s = []" by (subst tokens.simps) (simp add: w_def)
    then show ?thesis using pieces_skip [of s] True unfolding w_def by simp
  next
    case False
    define te where "te = dropWhile (\<lambda>c. c \<noteq> 47) w"
    have t: "tokens s = takeWhile (\<lambda>c. c \<noteq> 47) w # tokens te"
      using False by (subst tokens.simps) (simp add: w_def te_def)
    have te: "tokens te = filter (\<lambda>t. t \<noteq> []) (pieces te)"
      using "1" False unfolding w_def te_def by blast
    have ne: "takeWhile (\<lambda>c. c \<noteq> 47) w \<noteq> []"
      using hd_dropWhile [of "\<lambda>c. c = 47" s] False unfolding w_def by (cases "dropWhile (\<lambda>c. c = 47) s") auto
    have "filter (\<lambda>t. t \<noteq> []) (pieces te) = filter (\<lambda>t. t \<noteq> []) (case te of [] \<Rightarrow> [] | c # r \<Rightarrow> pieces r)"
    proof (cases te)
      case (Cons c r)
      then have "c = 47" unfolding te_def by (metis (mono_tags, lifting) hd_dropWhile list.distinct(1) list.sel(1))
      then show ?thesis using Cons by simp
    qed simp
    then show ?thesis
      using t te ne pieces_skip [of s] pieces_unfold [of w] by (simp add: te_def w_def [symmetric])
  qed
qed

text \<open>C37: Cutting a path with the stateful \<open>fs_strtok\<close>: for a path of less than 256 bytes, which fits into the
  function's array with its terminator, the parts are the pieces between the slashes that are not
  empty, in order, and nothing is left for a later call. The parts are those at the return; the code
  returns them as pointers into that array, which has ended then. A longer path is not terminated in
  the array, and the code reads on behind it.\<close>

theorem fs_parse_path_pieces:
  assumes "length path < 256"
  shows "fs_parse_path path st = (filter (\<lambda>t. t \<noteq> []) (pieces path), st\<lparr>last_token := None\<rparr>)"
  using assms by (simp add: fs_parse_path_tokens tokens_pieces)

theorem fs_parse_path_pieces_witness:
  "fst (fs_parse_path [47, 97, 47, 47, 98, 99] ex_start) = [[97], [98, 99]]"
  using fs_parse_path_pieces [of "[47, 97, 47, 47, 98, 99]" ex_start] by simp

section \<open>Listings\<close>

lemma put_pieces_prefix:
  "put_pieces room ps out = (out', go) \<Longrightarrow> out = [] \<or> length out < room \<Longrightarrow>
   (out' = [] \<or> length out' < room) \<and> (\<exists>rest. out' @ rest = out @ concat ps \<and> (go \<longrightarrow> rest = []))"
proof (induction ps arbitrary: out)
  case (Cons p ps)
  show ?case
  proof (cases "room \<le> length out + length p")
    case True
    then have "out' = out" "\<not> go" using Cons.prems(1) by simp_all
    then show ?thesis using Cons.prems(2) by blast
  next
    case False
    then show ?thesis using Cons.IH [of "out @ p"] Cons.prems(1) by simp
  qed
qed simp

lemma list_entries_prefix:
  "out = [] \<or> length out < room \<Longrightarrow>
   (list_entries room is out st = [] \<or> length (list_entries room is out st) < room) \<and>
   (\<exists>rest. list_entries room is out st @ rest = out @ concat (map (\<lambda>i. concat (entry_pieces (entry_at i st))) is))"
proof (induction "is" arbitrary: out)
  case (Cons i "is")
  obtain out' go where p: "put_pieces room (entry_pieces (entry_at i st)) out = (out', go)" by fastforce
  obtain rest where r: "out' = [] \<or> length out' < room" "out' @ rest = out @ concat (entry_pieces (entry_at i st))" "go \<longrightarrow> rest = []"
    using put_pieces_prefix [OF p Cons.prems] by blast
  show ?case
  proof (cases go)
    case True
    then show ?thesis using Cons.IH [OF r(1)] r p by (simp add: entry_at_def)
  next
    case False
    then have l: "list_entries room (i # is) out st = out'" using p by (simp add: entry_at_def)
    have "out' @ rest @ concat (map (\<lambda>i. concat (entry_pieces (entry_at i st))) is) =
      out @ concat (map (\<lambda>i. concat (entry_pieces (entry_at i st))) (i # is))" using r(2) by simp
    then show ?thesis unfolding l using r(1) by blast
  qed
qed simp

text \<open>C39: A listing fits into the buffer with a byte left for its terminator, if the buffer has at least one
  byte, and is the beginning of the full listing of a directory; the result is its length.\<close>

theorem fs_list_dir_fits:
  assumes "fs_list_dir path buffer_size st = (r, out, st')" and "0 < buffer_size"
  shows "length out < unat buffer_size \<and> (r = - 1 \<and> out = [] \<or> r = int (length out)) \<and>
    (\<exists>d rest. out @ rest = concat (map (\<lambda>i. concat (entry_pieces (entry_at i st))) (dfiles (slot d st))))"
proof (cases "r = - 1 \<and> out = []")
  case True
  then show ?thesis using assms(2) by (auto simp: word_less_nat_alt)
next
  case False
  have pos: "0 < unat buffer_size" using assms(2) by (simp add: word_less_nat_alt)
  then have room: "unat (buffer_size - 1) = unat buffer_size - 1" by (intro unat_minus_one) auto
  have same: "list_entries n is out (parsed st) = list_entries n is out st" for n "is" out
    by (induction "is" arbitrary: out) (simp_all add: split_beta)
  obtain d where "r = int (length out)" "out = list_entries (unat (buffer_size - 1)) (dfiles (slot d st)) [] st"
    using assms(1) False by (auto simp: fs_list_dir_def fs_find_eq same slot_def Let_def split: if_splits option.splits)
  then show ?thesis
    using list_entries_prefix [of "[]" "unat (buffer_size - 1)" "dfiles (slot d st)" st] room pos by auto
qed

theorem fs_list_dir_fits_witness:
  "length (fst (snd (fs_list_dir [47] 20 ex_file))) < 20"
proof -
  obtain r out st' where l: "fs_list_dir [47] 20 ex_file = (r, out, st')" by (cases "fs_list_dir [47] 20 ex_file") auto
  then show ?thesis using fs_list_dir_fits [OF l] by simp
qed

end
