(* ===== verification/SyscallInv.thy ===== *)
theory SyscallInv
  imports Syscall FsProps HeapLive
begin

text \<open>
  The system calls keep the components' invariants over the memory they share: the kernel heap, the
  file system with its allocator, and the caller's buffers lie apart, and an operation of one changes
  nothing of the other.
\<close>

section \<open>The invariant of the system\<close>

definition areas :: "system \<Rightarrow> bool" where
  "areas st \<longleftrightarrow> unat (lib_heap (sys_fs st)) + 0x100000 \<le> unat (heap_start (sys_heap st)) \<and>
     unat (heap_start (sys_heap st)) \<le> unat (heap_end (sys_heap st)) \<and> unat (heap_end (sys_heap st)) + 20 \<le> 4294967296"

definition sys_inv :: "system \<Rightarrow> bool" where
  "sys_inv st \<longleftrightarrow> (\<exists>L. heap_live (get_heap st) L) \<and> fs_inv (get_fs st) \<and> areas st \<and> length (syscall_count st) = 30"

lemma system_simps [simp]:
  "get_heap (st\<lparr>current_errno := e\<rparr>) = get_heap st" "get_fs (st\<lparr>current_errno := e\<rparr>) = get_fs st"
  "areas (st\<lparr>current_errno := e\<rparr>) = areas st"
  "get_heap (put_heap h st) = h" "get_fs (put_fs f st) = f"
  "get_fs (put_heap h st) = (get_fs st)\<lparr>lib_mem := mem h\<rparr>" "get_heap (put_fs f st) = (get_heap st)\<lparr>mem := lib_mem f\<rparr>"
  "syscall_count (put_heap h st) = syscall_count st" "syscall_count (put_fs f st) = syscall_count st"
  "mem (get_heap st) = memory st" "lib_mem (get_fs st) = memory st"
  "heap_start (get_heap st) = heap_start (sys_heap st)" "heap_end (get_heap st) = heap_end (sys_heap st)"
  "lib_heap (get_fs st) = lib_heap (sys_fs st)"
  "get_heap (st\<lparr>memory := m\<rparr>) = (get_heap st)\<lparr>mem := m\<rparr>" "get_fs (st\<lparr>memory := m\<rparr>) = (get_fs st)\<lparr>lib_mem := m\<rparr>"
  "areas (st\<lparr>memory := m\<rparr>) = areas st" "memory (put_fs f st) = lib_mem f" "memory (put_heap h st) = mem h"
  by (simp_all add: get_heap_def get_fs_def put_heap_def put_fs_def areas_def)

lemma sys_inv_errno [simp]: "sys_inv (st\<lparr>current_errno := e\<rparr>) = sys_inv st"
  by (simp add: sys_inv_def)

lemma sys_invE:
  assumes "sys_inv st"
  obtains L where "heap_live (get_heap st) L" and "fs_inv (get_fs st)" and "areas st" and "length (syscall_count st) = 30"
  using assms by (auto simp: sys_inv_def)

text \<open>Memory that changes elsewhere does not matter to the heap or to the file system.\<close>

lemma heap_rep_frame:
  assumes rep: "heap_rep h bs" and u: "unchanged_outside (mem h) m lo hi"
    and apart: "unat (heap_end h) \<le> lo \<or> hi \<le> unat (heap_start h)"
  shows "heap_rep (h\<lparr>mem := m\<rparr>) bs"
proof -
  have "unat (heap_start h) + ext bs = unat (heap_end h)" using rep by (simp add: heap_rep_def)
  then have "seg m (unat (heap_end h)) 0 (unat (heap_start h)) bs = seg (mem h) (unat (heap_end h)) 0 (unat (heap_start h)) bs"
    using apart le_less_trans [OF _ heap_rep_bounds(2) [OF rep]] by (intro seg_unchanged [OF u]) (simp_all add: less_imp_le)
  then show ?thesis using rep by (simp add: heap_rep_def)
qed

lemma heap_live_frame:
  assumes "heap_live h L" and u: "unchanged_outside (mem h) m lo hi"
    and apart: "unat (heap_end h) \<le> lo \<or> hi \<le> unat (heap_start h)"
  shows "heap_live (h\<lparr>mem := m\<rparr>) L"
  using assms(1) heap_rep_frame [OF _ u apart] by (auto simp: heap_live_def)

lemma fs_inv_frame:
  assumes "fs_inv f" and b: "outside_heap f b k" and m: "unchanged_outside (lib_mem f) m (unat b) (unat b + k)"
  shows "fs_inv (f\<lparr>lib_mem := m\<rparr>)"
proof -
  obtain L where wf: "fs_wf f" and data: "fs_data f L" and sizes: "sizes_ok f" by (rule fs_invE [OF assms(1)])
  have "sizes_ok (f\<lparr>lib_mem := m\<rparr>)" using sizes by (simp add: sizes_ok_def is_file_def slot_def entry_at_def)
  moreover have "cwd_ok (f\<lparr>lib_mem := m\<rparr>)" by (rule cwd_same [OF fs_inv_cwd [OF assms(1)]]) simp
  ultimately show ?thesis using outside_write [OF wf data b m] unfolding fs_inv_def by blast
qed

lemma sys_inv_put_heap:
  assumes inv: "sys_inv st" and live: "heap_live h L" and start: "heap_start h = heap_start (sys_heap st)" "heap_end h = heap_end (sys_heap st)"
    and u: "unchanged_outside (memory st) (mem h) (unat (heap_start (sys_heap st))) (unat (heap_end (sys_heap st)) + 20)"
  shows "sys_inv (put_heap h st)"
proof -
  define k where "k = unat (heap_end (sys_heap st)) + 20 - unat (heap_start (sys_heap st))"
  have a: "areas st" using inv by (simp add: sys_inv_def)
  then have k: "unat (heap_start (sys_heap st)) + k = unat (heap_end (sys_heap st)) + 20" by (simp add: k_def areas_def)
  have "fs_inv ((get_fs st)\<lparr>lib_mem := mem h\<rparr>)"
  proof (rule fs_inv_frame)
    show "fs_inv (get_fs st)" using inv by (simp add: sys_inv_def)
    show "outside_heap (get_fs st) (heap_start (sys_heap st)) k" using a k by (simp add: outside_heap_def areas_def)
    show "unchanged_outside (lib_mem (get_fs st)) (mem h) (unat (heap_start (sys_heap st))) (unat (heap_start (sys_heap st)) + k)"
      using u k by simp
  qed
  moreover have "areas (put_heap h st)" using a start by (simp add: areas_def put_heap_def)
  ultimately show ?thesis using inv live by (auto simp: sys_inv_def)
qed

lemma sys_inv_put_fs:
  assumes inv: "sys_inv st" and f: "fs_inv f" and start: "lib_heap f = lib_heap (sys_fs st)"
    and u: "unchanged_outside (memory st) (lib_mem f) lo hi"
    and apart: "unat (heap_end (sys_heap st)) \<le> lo \<or> hi \<le> unat (heap_start (sys_heap st))"
  shows "sys_inv (put_fs f st)"
proof -
  obtain L where L: "heap_live (get_heap st) L" and a: "areas st" by (rule sys_invE [OF inv])
  have "heap_live ((get_heap st)\<lparr>mem := lib_mem f\<rparr>) L"
    by (rule heap_live_frame [OF L]) (use u apart in simp_all)
  moreover have "areas (put_fs f st)" using a start by (simp add: areas_def put_fs_def)
  ultimately show ?thesis using inv f by (auto simp: sys_inv_def)
qed

section \<open>The caller's part\<close>

text \<open>A buffer of the caller: apart from both components, or in a block of the kernel heap that the caller
  was given.\<close>

definition caller_buffer :: "u32 \<Rightarrow> nat \<Rightarrow> system \<Rightarrow> bool" where
  "caller_buffer b k st \<longleftrightarrow> unat b + k \<le> 4294967296 \<and>
     (outside_heap (get_fs st) b k \<and> (unat b + k \<le> unat (heap_start (sys_heap st)) \<or> unat (heap_end (sys_heap st)) \<le> unat b) \<or>
      (\<exists>L n. heap_live (get_heap st) L \<and> L b = Some n \<and> k \<le> n))"

lemma live_block_area:
  assumes "heap_live h L" and "L p = Some n"
  shows "unat (heap_start h) \<le> unat p" and "unat p + n \<le> unat (heap_end h)"
proof -
  obtain bs where rep: "heap_rep h bs" and bs: "(p, n) \<in> set (live_list (unat (heap_start h)) bs)"
    using assms by (auto simp: heap_live_def dest: map_of_SomeD)
  have "unat (heap_start h) + ext bs = unat (heap_end h)" using rep by (simp add: heap_rep_def)
  then show "unat (heap_start h) \<le> unat p" and "unat p + n \<le> unat (heap_end h)"
    using live_list_bounds [OF bs heap_rep_bounds(2) [OF rep]] by simp_all
qed

lemma sys_inv_buffer:
  assumes inv: "sys_inv st" and b: "caller_buffer b k st" and m: "unchanged_outside (memory st) m (unat b) (unat b + k)"
  shows "sys_inv (st\<lparr>memory := m\<rparr>)"
proof -
  obtain L where L: "heap_live (get_heap st) L" and f: "fs_inv (get_fs st)" and a: "areas st" and l: "length (syscall_count st) = 30"
    by (rule sys_invE [OF inv])
  have mh: "unchanged_outside (mem (get_heap st)) m (unat b) (unat b + k)"
    and mf: "unchanged_outside (lib_mem (get_fs st)) m (unat b) (unat b + k)" using m by simp_all
  show ?thesis
  proof (cases "\<exists>L n. heap_live (get_heap st) L \<and> L b = Some n \<and> k \<le> n")
    case True
    then obtain M n where n: "heap_live (get_heap st) M" "M b = Some n" "k \<le> n" by blast
    note ar = live_block_area [OF n(1,2)]
    have "heap_live ((get_heap st)\<lparr>mem := m\<rparr>) M"
      by (rule heap_write_live [OF n(1,2) unchanged_outside_mono [OF mh]]) (use n(3) in simp_all)
    moreover have "fs_inv ((get_fs st)\<lparr>lib_mem := m\<rparr>)"
      by (rule fs_inv_frame [OF f _ mf]) (use ar n(3) a in \<open>simp add: outside_heap_def areas_def\<close>)
    ultimately show ?thesis using a l by (auto simp: sys_inv_def)
  next
    case False
    then have o: "outside_heap (get_fs st) b k" and h: "unat b + k \<le> unat (heap_start (sys_heap st)) \<or> unat (heap_end (sys_heap st)) \<le> unat b"
      using b unfolding caller_buffer_def by blast+
    have "heap_live ((get_heap st)\<lparr>mem := m\<rparr>) L" by (rule heap_live_frame [OF L mh]) (use h in auto)
    moreover have "fs_inv ((get_fs st)\<lparr>lib_mem := m\<rparr>)" by (rule fs_inv_frame [OF f o mf])
    ultimately show ?thesis using a l by (auto simp: sys_inv_def)
  qed
qed

section \<open>The operations\<close>

lemma heap_malloc_area:
  assumes live: "heap_live h L" and served: "heap_served k h"
  obtains p h' where "heap_malloc k h = Some (p, h')" and "\<exists>L'. heap_live h' L'"
    and "p = 0 \<and> h' = h \<or> p \<noteq> 0 \<and> (\<exists>n \<ge> unat k. L p = None \<and> heap_live h' (L(p \<mapsto> n)))"
    and "heap_start h' = heap_start h" and "heap_end h' = heap_end h"
    and "unchanged_outside (mem h) (mem h') (unat (heap_start h)) (unat (heap_end h) + 20)"
proof -
  obtain bs where rep: "heap_rep h bs" and compact: "compact bs" and L: "L = map_of (live_list (unat (heap_start h)) bs)"
    using live by (auto simp: heap_live_def)
  show ?thesis
  proof (rule served_cases [OF rep served])
    assume "heap_malloc k h = Some (0, h)"
    then show ?thesis using that live by auto
  next
    fix xs s ys
    assume c: "k \<noteq> 0" "picks (unat (round_size k)) bs xs s ys" "unat (round_size k) + 20 \<le> s"
      "find_best_fit (of_nat (unat (round_size k))) h = Some (of_nat (unat (heap_start h) + ext xs))"
    obtain p h1 n where a: "heap_malloc k h = Some (p, h1)" "p \<noteq> 0" "unat k \<le> n" "L p = None" "heap_live h1 (L(p \<mapsto> n))"
      by (rule heap_live_carved [OF served c(1) rep c(2-4) L compact])
    obtain h2 where b: "heap_malloc k h = Some (of_nat (unat (heap_start h) + ext xs + 20), h2)" "heap_start h2 = heap_start h"
      "heap_end h2 = heap_end h"
      "unchanged_outside (mem h) (mem h2) (unat (heap_start h) + ext xs) (unat (heap_start h) + ext xs + 40 + s)"
      by (rule heap_malloc_carves [OF rep c(1) refl c(2-4)])
    have "h2 = h1" using a(1) b(1) by simp
    have "bs = xs @ (s, True) # ys" using c(2) by (simp add: picks_def)
    then have "unat (heap_start h) + ext xs + 20 + s \<le> unat (heap_end h)" using rep by (simp add: heap_rep_def)
    then have "unchanged_outside (mem h) (mem h2) (unat (heap_start h)) (unat (heap_end h) + 20)"
      by (intro unchanged_outside_mono [OF b(4)]) simp_all
    then show ?thesis using that [OF a(1)] a(2-5) b(2,3) \<open>h2 = h1\<close> by blast
  qed
qed

lemma heap_free_area:
  assumes live: "heap_live h L" and p: "L p = Some n"
  shows "heap_live (heap_free p h) (L(p := None))" and "heap_start (heap_free p h) = heap_start h"
    and "heap_end (heap_free p h) = heap_end h"
    and "unchanged_outside (mem h) (mem (heap_free p h)) (unat (heap_start h)) (unat (heap_end h) + 20)"
proof -
  show "heap_live (heap_free p h) (L(p := None))" using heap_free_live [OF live p] by blast
  obtain bs where rep: "heap_rep h bs" and L: "L = map_of (live_list (unat (heap_start h)) bs)"
    using live by (auto simp: heap_live_def)
  obtain xs ys where bs: "bs = xs @ (n, False) # ys" and pp: "p = of_nat (unat (heap_start h) + ext xs + 20)"
    using live_list_split p by (metis L map_of_SomeD)
  obtain h' where "heap_free p h = h'" "heap_start h' = heap_start h" "heap_end h' = heap_end h"
    "unchanged_outside (mem h) (mem h') (unat (heap_start h)) (unat (heap_end h) + 20)"
    unfolding pp by (rule heap_free_releases [OF rep [unfolded bs]])
  then show "heap_start (heap_free p h) = heap_start h" and "heap_end (heap_free p h) = heap_end h"
    and "unchanged_outside (mem h) (mem (heap_free p h)) (unat (heap_start h)) (unat (heap_end h) + 20)" by simp_all
qed

lemma sys_inv_fs_call:
  assumes "sys_inv st" and "fs_call (get_fs st) f"
  shows "sys_inv (put_fs f st)"
proof -
  have "areas st" using assms(1) by (simp add: sys_inv_def)
  then show ?thesis
    using assms by (intro sys_inv_put_fs [of st f "unat (lib_heap (sys_fs st))" "unat (lib_heap (sys_fs st)) + 0x100000"])
      (simp_all add: fs_call_def areas_def)
qed

lemma sys_inv_fs: "sys_inv st \<Longrightarrow> fs_inv (get_fs st)"
  by (simp add: sys_inv_def)

section \<open>The dispatcher keeps the invariant\<close>

text \<open>What a caller owes the kernel, which checks none of it: sizes that the heap can serve (no fit at all,
  or one that leaves room for the header of the rest), pointers to free that are live, buffers of its own,
  paths that are null or end within 256 bytes, a free entry in the table for a directory, and for writing
  a serial line that keeps becoming ready. Sleeping is left out: it waits for interrupts that
  do not come (\<open>kernel_sleep_waits\<close>).\<close>

definition path_calls :: "u32 set" where
  "path_calls = {SYS_OPEN, SYS_CHDIR, SYS_MKDIR, SYS_RMDIR, SYS_UNLINK, SYS_STAT}"

definition permitted :: "cpu \<Rightarrow> registers \<Rightarrow> system \<Rightarrow> bool" where
  "permitted c regs st \<longleftrightarrow>
     (reg_eax regs = SYS_WRITE \<longrightarrow> line_live (sys_serial st)) \<and>
     (reg_eax regs = SYS_MALLOC \<longrightarrow> heap_served (reg_ebx regs) (get_heap st)) \<and>
     (reg_eax regs = SYS_FREE \<longrightarrow> reg_ebx regs = 0 \<or> (\<exists>L n. heap_live (get_heap st) L \<and> L (reg_ebx regs) = Some n)) \<and>
     (reg_eax regs = SYS_GETCWD \<longrightarrow> caller_buffer (reg_ebx regs) (unat (reg_ecx regs)) st) \<and>
     (reg_eax regs = SYS_STAT \<longrightarrow> (\<forall>e. length (entry_image c e) = 56) \<and> caller_buffer (reg_ecx regs) 56 st) \<and>
     (reg_eax regs \<in> path_calls \<longrightarrow> reg_ebx regs = 0 \<or> path_arg (reg_ebx regs) (memory st) \<noteq> None) \<and>
     (reg_eax regs = SYS_MKDIR \<longrightarrow> file_count (sys_fs st) < 128) \<and>
     reg_eax regs \<noteq> SYS_SLEEP"

lemma store_bytes_unchanged:
  assumes "unat p + length bs \<le> 4294967296"
  shows "unchanged_outside m (store_bytes p bs m) (unat p) (unat p + length bs)"
proof -
  have "k \<le> length bs \<Longrightarrow> unchanged_outside m (fold (\<lambda>i m. m(p + of_nat i := bs ! i)) [0..<k] m) (unat p) (unat p + length bs)" for k
  proof (induction k)
    case (Suc k)
    have u: "unat (p + of_nat k) = unat p + k" using Suc.prems assms unat_of_nat_add_u32 [of "unat p" k] by simp
    show ?case
      unfolding unchanged_outside_def
    proof (intro allI impI)
      fix x :: u32
      assume x: "unat x < unat p \<or> unat p + length bs \<le> unat x"
      then have "x \<noteq> p + of_nat k" using u Suc.prems by auto
      moreover have "fold (\<lambda>i m. m(p + of_nat i := bs ! i)) [0..<k] m x = m x"
        using Suc.IH [OF Suc_leD [OF Suc.prems]] x unfolding unchanged_outside_def by blast
      ultimately show "fold (\<lambda>i m. m(p + of_nat i := bs ! i)) [0..<Suc k] m x = m x"
        by (simp only: upt_Suc_append fold_append fold.simps comp_apply id_apply fun_upd_apply if_False zero_le simp_thms)
    qed
  qed simp
  then show ?thesis by (simp add: store_bytes_def)
qed

lemma getcwd_inv:
  assumes inv: "sys_inv st" and b: "caller_buffer buf (unat sz) st"
  shows "sys_inv (snd (kernel_getcwd buf sz st))"
proof -
  define cwd where "cwd = fs_get_current_dir (sys_fs st)"
  define m where "m = store_bytes buf (cwd @ replicate (unat sz - length cwd) 0) (memory st)"
  have "sys_inv (st\<lparr>memory := m(buf + (sz - 1) := 0)\<rparr>)" if sz: "length cwd < unat sz"
  proof (rule sys_inv_buffer [OF inv b])
    have bound: "unat buf + unat sz \<le> 4294967296" using b by (simp add: caller_buffer_def)
    have m: "unchanged_outside (memory st) m (unat buf) (unat buf + unat sz)"
      using store_bytes_unchanged [of buf "cwd @ replicate (unat sz - length cwd) 0"] bound sz by (simp add: m_def)
    have "unat (sz - 1) = unat sz - 1" using sz by (intro unat_minus_one) auto
    then have "unat (buf + (sz - 1)) = unat buf + (unat sz - 1)"
      using unat_of_nat_add_u32 [of "unat buf" "unat (sz - 1)"] bound sz by simp
    then have "x \<noteq> buf + (sz - 1)" if "unat x < unat buf \<or> unat buf + unat sz \<le> unat x" for x
      using that sz by auto
    then show "unchanged_outside (memory st) (m(buf + (sz - 1) := 0)) (unat buf) (unat buf + unat sz)"
      using m by (simp add: unchanged_outside_def)
  qed
  then show ?thesis using inv by (auto simp: kernel_getcwd_def Let_def m_def cwd_def not_le)
qed

lemma malloc_inv:
  assumes inv: "sys_inv st" and served: "heap_served sz (get_heap st)" and r: "kernel_malloc sz st = Some (r, st')"
  shows "sys_inv st'"
proof -
  obtain L where L: "heap_live (get_heap st) L" by (rule sys_invE [OF inv])
  obtain p h L' where h: "heap_malloc sz (get_heap st) = Some (p, h)" "heap_live h L'"
    "heap_start h = heap_start (sys_heap st)" "heap_end h = heap_end (sys_heap st)"
    "unchanged_outside (memory st) (mem h) (unat (heap_start (sys_heap st))) (unat (heap_end (sys_heap st)) + 20)"
    using heap_malloc_area [OF L served] by (metis system_simps(10,12,13))
  have "sys_inv (put_heap h st)" by (rule sys_inv_put_heap [OF inv h(2-5)])
  then show ?thesis using r h(1) inv by (auto simp: kernel_malloc_def Let_def split: if_splits)
qed

lemma free_inv:
  assumes inv: "sys_inv st" and p: "p = 0 \<or> (\<exists>L n. heap_live (get_heap st) L \<and> L p = Some n)"
  shows "sys_inv (snd (kernel_free p st))"
proof (cases "p = 0")
  case True
  then show ?thesis using inv by (simp add: kernel_free_def)
next
  case False
  then obtain L n where L: "heap_live (get_heap st) L" "L p = Some n" using p by blast
  have "sys_inv (put_heap (heap_free p (get_heap st)) st)"
    using heap_free_area [OF L] by (intro sys_inv_put_heap [OF inv]) simp_all
  then show ?thesis using False by (simp add: kernel_free_def)
qed

lemma stat_inv:
  assumes inv: "sys_inv st" and b: "caller_buffer buf 56 st" and image: "\<And>e. length (entry_image c e) = 56"
    and r: "kernel_stat c path buf st = Some (r, st')"
  shows "sys_inv st'"
proof (cases "path = 0 \<or> buf = 0")
  case True
  then show ?thesis using r inv by (auto simp: kernel_stat_def)
next
  case False
  then obtain p where p: "path_arg path (memory st) = Some p" using r by (auto simp: kernel_stat_def)
  obtain res info f where s: "fs_stat p (uninitialised c) (get_fs st) = (res, info, f)" by (cases "fs_stat p (uninitialised c) (get_fs st)") auto
  have same: "f = get_fs st \<or> f = parsed (get_fs st)"
    using s by (auto simp: fs_stat_def fs_find_eq Let_def split: if_splits)
  have inv1: "sys_inv (put_fs f st)" by (rule sys_inv_fs_call [OF inv fs_call_same [OF sys_inv_fs [OF inv] same]])
  have "caller_buffer buf 56 (put_fs f st)"
    using b same by (auto simp: caller_buffer_def outside_heap_def) (auto simp: put_fs_def get_heap_def get_fs_def)
  then have "sys_inv ((put_fs f st)\<lparr>memory := store_bytes buf (entry_image c info) (memory (put_fs f st))\<rparr>)"
  proof (rule sys_inv_buffer [OF inv1])
    have "unat buf + length (entry_image c info) \<le> 4294967296" using b image unfolding caller_buffer_def by metis
    then show "unchanged_outside (memory (put_fs f st)) (store_bytes buf (entry_image c info) (memory (put_fs f st))) (unat buf) (unat buf + 56)"
      using store_bytes_unchanged image by metis
  qed
  then show ?thesis using r False p s inv1 by (auto simp: kernel_stat_def Let_def split: if_splits)
qed

lemma path_call_inv:
  assumes inv: "sys_inv st" and call: "\<And>p r f. op p (get_fs st) = Some (r, f) \<Longrightarrow> fs_call (get_fs st) f"
    and r: "(if path = 0 then Some (- 1, st\<lparr>current_errno := EFAULT\<rparr>)
      else Option.bind (path_arg path (memory st)) (\<lambda>path. map_option (\<lambda>(result, f).
        let st = put_fs f st
        in if result \<noteq> (0 :: int) then (- 1 :: u32, st\<lparr>current_errno := e\<rparr>) else (0, st)) (op path (get_fs st)))) = Some (x, st')"
  shows "sys_inv st'"
proof (cases "path = 0")
  case True
  then show ?thesis using r inv by auto
next
  case False
  then obtain p res f where "op p (get_fs st) = Some (res, f)" "st' = put_fs f st \<or> st' = (put_fs f st)\<lparr>current_errno := e\<rparr>"
    using r by (auto simp: Let_def split: Option.bind_splits if_splits)
  then show ?thesis using sys_inv_fs_call [OF inv call] by auto
qed

lemma write_inv: "kernel_write fd buf count st = Some (r, st') \<Longrightarrow> sys_inv st \<Longrightarrow> sys_inv st'"
  by (auto simp: kernel_write_def sys_inv_def get_heap_def get_fs_def areas_def split: if_splits)

lemma open_inv:
  assumes inv: "sys_inv st" and r: "kernel_open path flags st = Some (r, st')"
  shows "sys_inv st'"
proof (cases "path = 0")
  case True
  then show ?thesis using r inv by (auto simp: kernel_open_def)
next
  case False
  then obtain p where p: "path_arg path (memory st) = Some p" using r by (auto simp: kernel_open_def)
  have "sys_inv (put_fs (snd (fs_find p (get_fs st))) st)"
    by (rule sys_inv_fs_call [OF inv fs_call_find [OF sys_inv_fs [OF inv]]])
  then show ?thesis using r False p by (auto simp: kernel_open_def split_beta Let_def split: if_splits)
qed

lemma dispatch_inv:
  assumes inv: "sys_inv st" and ok: "permitted c regs st" and r: "dispatch c regs st = Some (r, st')"
  shows "sys_inv st'"
proof -
  note fs = sys_inv_fs [OF inv]
  have chdir: "kernel_chdir p st = Some (x, s) \<Longrightarrow> sys_inv s" for p x s
    unfolding kernel_chdir_def by (rule path_call_inv [OF inv fs_call_chdir [OF fs]])
  have mkdir: "kernel_mkdir p st = Some (x, s) \<Longrightarrow> sys_inv s" for p x s
    unfolding kernel_mkdir_def by (rule path_call_inv [OF inv fs_call_mkdir [OF fs]])
  have rmdir: "kernel_rmdir p st = Some (x, s) \<Longrightarrow> sys_inv s" for p x s
    unfolding kernel_rmdir_def by (rule path_call_inv [OF inv fs_call_delete [OF fs]])
  have unlink: "kernel_unlink p st = Some (x, s) \<Longrightarrow> sys_inv s" for p x s
    unfolding kernel_unlink_def by (rule path_call_inv [OF inv fs_call_delete [OF fs]])
  have plain: "kernel_exit a st = (x, s) \<Longrightarrow> sys_inv s" "kernel_read a b d st = (x, s) \<Longrightarrow> sys_inv s"
    "kernel_close a st = (x, s) \<Longrightarrow> sys_inv s" "kernel_getpid st = (x, s) \<Longrightarrow> sys_inv s" "kernel_time st = (x, s) \<Longrightarrow> sys_inv s" for a b d x s
    using inv by (auto simp: kernel_exit_def kernel_read_def kernel_close_def kernel_getpid_def kernel_time_def split: if_splits)
  note calls = chdir mkdir rmdir unlink plain write_inv [OF _ inv] open_inv [OF inv] malloc_inv [OF inv] stat_inv [OF inv]
  have free: "reg_eax regs = SYS_FREE \<Longrightarrow> kernel_free (reg_ebx regs) st = (r, st') \<Longrightarrow> sys_inv st'"
    using free_inv [OF inv, of "reg_ebx regs"] ok by (auto simp: permitted_def)
  have cwd: "reg_eax regs = SYS_GETCWD \<Longrightarrow> kernel_getcwd (reg_ebx regs) (reg_ecx regs) st = (r, st') \<Longrightarrow> sys_inv st'"
    using getcwd_inv [OF inv, of "reg_ebx regs" "reg_ecx regs"] ok by (auto simp: permitted_def)
  have owed: "reg_eax regs = SYS_MALLOC \<longrightarrow> heap_served (reg_ebx regs) (get_heap st)"
    "reg_eax regs = SYS_STAT \<longrightarrow> (\<forall>e. length (entry_image c e) = 56) \<and> caller_buffer (reg_ecx regs) 56 st"
    "reg_eax regs \<noteq> SYS_SLEEP" using ok unfolding permitted_def by blast+
  show ?thesis
    using r owed free cwd inv unfolding dispatch_def Let_def
    by (auto split: if_splits dest: calls)
qed

section \<open>A permitted call returns\<close>

lemma write_chars_returns: "line_live s \<Longrightarrow> write_chars str k m w s \<noteq> None"
proof (induction k arbitrary: w s)
  case (Suc k)
  obtain s' where "serial_write (m (str + w)) s = Some s'" "line_live s'" using serial_write_live [OF Suc.prems] by blast
  then show ?case using Suc.IH [of s'] by simp
qed simp

lemma malloc_returns:
  assumes "sys_inv st" and "heap_served sz (get_heap st)"
  shows "kernel_malloc sz st \<noteq> None"
proof -
  obtain L where L: "heap_live (get_heap st) L" by (rule sys_invE [OF assms(1)])
  obtain p h where "heap_malloc sz (get_heap st) = Some (p, h)" by (rule heap_malloc_area [OF L assms(2)])
  then show ?thesis by (simp add: kernel_malloc_def)
qed

lemma path_calls_return:
  assumes inv: "sys_inv st" and path: "p = 0 \<or> path_arg p (memory st) \<noteq> None"
  shows "kernel_chdir p st \<noteq> None" and "kernel_rmdir p st \<noteq> None" and "kernel_unlink p st \<noteq> None"
    and "kernel_open p flags st \<noteq> None" and "kernel_stat c p b st \<noteq> None"
    and "file_count (sys_fs st) < 128 \<Longrightarrow> kernel_mkdir p st \<noteq> None"
proof -
  have fs: "fs_inv (get_fs st)" by (rule sys_inv_fs [OF inv])
  have "fs_mkdir q (get_fs st) \<noteq> None" if "file_count (sys_fs st) < 128" for q
    using that fs_mkdir_returns [OF fs, of q] by (simp add: get_fs_def)
  then show "file_count (sys_fs st) < 128 \<Longrightarrow> kernel_mkdir p st \<noteq> None"
    using path by (auto simp: kernel_mkdir_def simp del: not_None_eq split: Option.bind_splits)
  show "kernel_chdir p st \<noteq> None" "kernel_rmdir p st \<noteq> None" "kernel_unlink p st \<noteq> None"
    using path fs_change_dir_returns [OF fs_inv_cwd [OF fs]] fs_delete_returns [OF fs]
    by (auto simp: kernel_chdir_def kernel_rmdir_def kernel_unlink_def simp del: not_None_eq split: Option.bind_splits)
  show "kernel_open p flags st \<noteq> None" "kernel_stat c p b st \<noteq> None"
    using path by (auto simp: kernel_open_def kernel_stat_def simp del: not_None_eq)
qed

lemma dispatch_returns:
  assumes inv: "sys_inv st" and ok: "permitted c regs st"
  shows "dispatch c regs st \<noteq> None"
proof -
  have path: "reg_eax regs \<in> path_calls \<Longrightarrow> reg_ebx regs = 0 \<or> path_arg (reg_ebx regs) (memory st) \<noteq> None"
    using ok unfolding permitted_def by blast
  note calls = path_calls_return [OF inv path]
  have wr: "reg_eax regs = SYS_WRITE \<Longrightarrow> kernel_write a b d st \<noteq> None" for a b d
    using ok write_chars_returns by (simp add: permitted_def kernel_write_def)
  have mkdir: "reg_eax regs = SYS_MKDIR \<Longrightarrow> kernel_mkdir (reg_ebx regs) st \<noteq> None"
    using ok by (intro calls) (simp_all add: permitted_def path_calls_def)
  have malloc: "reg_eax regs = SYS_MALLOC \<Longrightarrow> kernel_malloc (reg_ebx regs) st \<noteq> None"
    using ok by (intro malloc_returns [OF inv]) (simp add: permitted_def)
  have sleep: "reg_eax regs \<noteq> SYS_SLEEP" using ok by (simp add: permitted_def)
  show ?thesis
    unfolding dispatch_def Let_def
    using calls(1-5) wr mkdir malloc sleep by (simp add: path_calls_def)
qed

end
