(* ===== verification/SyscallProps.thy ===== *)
theory SyscallProps
  imports SyscallInv HeapProps
begin

text \<open>
  The properties of the system calls: any sequence of permitted calls keeps the invariant of the system
  and is counted, what a caller learns of the result and of the error number, and what the single calls do.
\<close>

section \<open>Sequences of calls\<close>

text \<open>The calls of a program, one after the other, each with the registers it raises the interrupt with.\<close>

fun sys_calls :: "cpu \<Rightarrow> registers list \<Rightarrow> system \<Rightarrow> system option" where
  "sys_calls c [] st = Some st"
| "sys_calls c (regs # calls) st = Option.bind (syscall_handler c regs st) (sys_calls c calls)"

lemma count_call_simps [simp]:
  "get_heap (count_call n st) = get_heap st" "get_fs (count_call n st) = get_fs st" "areas (count_call n st) = areas st"
  "length (syscall_count (count_call n st)) = length (syscall_count st)"
  "total_syscalls (count_call n st) = total_syscalls st + 1"
  by (simp_all add: count_call_def Let_def get_heap_def get_fs_def areas_def)

lemma sys_inv_count [simp]: "sys_inv (count_call n st) = sys_inv st"
  by (simp add: sys_inv_def)

lemma permitted_count [simp]: "permitted c regs ((count_call n st)\<lparr>current_errno := e\<rparr>) = permitted c regs st"
proof -
  have "sys_heap (count_call n st) = sys_heap st" "sys_fs (count_call n st) = sys_fs st"
    "sys_serial (count_call n st) = sys_serial st" "memory (count_call n st) = memory st"
    by (simp_all add: count_call_def Let_def)
  then show ?thesis by (simp add: permitted_def caller_buffer_def)
qed

text \<open>A call changes neither the counters nor the table of handlers.\<close>

definition uncounted :: "system \<Rightarrow> system \<Rightarrow> bool" where
  "uncounted st st' \<longleftrightarrow> syscall_count st' = syscall_count st \<and> total_syscalls st' = total_syscalls st \<and>
     sys_interrupts st' = sys_interrupts st"

lemma uncounted_simps [simp]:
  "uncounted st st" "uncounted st (st'\<lparr>current_errno := e\<rparr>) = uncounted st st'" "uncounted st (st'\<lparr>memory := m\<rparr>) = uncounted st st'"
  "uncounted st (put_fs f st') = uncounted st st'" "uncounted st (put_heap h st') = uncounted st st'"
  "uncounted st (st'\<lparr>sys_serial := s\<rparr>) = uncounted st st'"
  by (simp_all add: uncounted_def put_fs_def put_heap_def)

lemmas plain_call_defs = kernel_exit_def kernel_read_def kernel_close_def kernel_getpid_def kernel_time_def kernel_free_def
  kernel_getcwd_def

lemma call_kept:
  "kernel_chdir p st = Some (x, s) \<Longrightarrow> uncounted st s" "kernel_mkdir p st = Some (x, s) \<Longrightarrow> uncounted st s"
  "kernel_rmdir p st = Some (x, s) \<Longrightarrow> uncounted st s" "kernel_unlink p st = Some (x, s) \<Longrightarrow> uncounted st s"
  "kernel_write a b d st = Some (x, s) \<Longrightarrow> uncounted st s" "kernel_open p b st = Some (x, s) \<Longrightarrow> uncounted st s"
  "kernel_malloc a st = Some (x, s) \<Longrightarrow> uncounted st s" "kernel_stat c p b st = Some (x, s) \<Longrightarrow> uncounted st s"
  "kernel_exit a st = (x, s) \<Longrightarrow> uncounted st s" "kernel_read a b d st = (x, s) \<Longrightarrow> uncounted st s" "kernel_close a st = (x, s) \<Longrightarrow> uncounted st s"
  "kernel_getpid st = (x, s) \<Longrightarrow> uncounted st s" "kernel_time st = (x, s) \<Longrightarrow> uncounted st s" "kernel_free p st = (x, s) \<Longrightarrow> uncounted st s"
  "kernel_getcwd p b st = (x, s) \<Longrightarrow> uncounted st s"
  by (auto simp: kernel_chdir_def kernel_mkdir_def kernel_rmdir_def kernel_unlink_def kernel_write_def kernel_open_def
      kernel_malloc_def kernel_stat_def plain_call_defs Let_def split_beta split: Option.bind_splits if_splits)

lemma dispatch_kept:
  assumes "dispatch c regs st = Some (r, st')" and "reg_eax regs \<noteq> SYS_SLEEP"
  shows "uncounted st st'"
  using assms unfolding dispatch_def Let_def by (auto split: if_splits dest: call_kept)

lemma handler_step:
  assumes inv: "sys_inv st" and ok: "permitted c regs st"
  obtains st' where "syscall_handler c regs st = Some st'" and "sys_inv st'" and "total_syscalls st' = total_syscalls st + 1"
    and "syscall_count st' = syscall_count (count_call (reg_eax regs) st)"
proof -
  define st1 where "st1 = (count_call (reg_eax regs) st)\<lparr>current_errno := 0\<rparr>"
  have ok1: "permitted c regs st1" using ok by (simp add: st1_def)
  have inv1: "sys_inv st1" using inv by (simp add: st1_def)
  obtain x st' where d: "dispatch c regs st1 = Some (x, st')" using dispatch_returns [OF inv1 ok1] by auto
  have "syscall_handler c regs st = Some st'" using d by (simp add: syscall_handler_def st1_def Let_def)
  moreover have "uncounted st1 st'" using dispatch_kept [OF d] ok by (simp add: permitted_def)
  ultimately show ?thesis using that dispatch_inv [OF inv1 ok1 d] by (simp add: uncounted_def st1_def)
qed

lemma count_call_nth:
  "length (syscall_count st) = 30 \<Longrightarrow> i < 30 \<Longrightarrow>
    syscall_count (count_call n st) ! i = syscall_count st ! i + (if unat n = i then 1 else 0)"
  by (auto simp: count_call_def Let_def SYS_MAX_def nth_list_update word_less_nat_alt)

text \<open>A state to apply the properties to: the machine with the kernel heap and the file system freshly
  initialised, and the interrupt set up.\<close>

definition ex_system :: system where
  "ex_system = \<lparr>memory = mem kernel_heap, sys_serial = serial_reset,
     sys_interrupts = \<lparr>inputs = (\<lambda>_ _. 0), outputs = [],
       idt = (\<lambda>_. \<lparr>offset_low = 0, selector = 0, reserved = 0, type_attr = 0, offset_high = 0\<rparr>),
       idt_desc = \<lparr>limit = 0, base = 0\<rparr>, idt_loaded = True, interrupt_handlers = [128 \<mapsto> Syscall_handler]\<rparr>,
     sys_heap = kernel_heap, sys_fs = ex_start, sys_ticks = 5000, current_errno = 0,
     syscall_count = replicate 30 0, total_syscalls = 0\<rparr>"

definition ex_cpu :: cpu where
  "ex_cpu = \<lparr>entry_image = (\<lambda>e. replicate 56 0), uninitialised = zero_entry, hlt = (\<lambda>_. None)\<rparr>"

definition ex_regs :: registers where
  "ex_regs = \<lparr>reg_ds = 0, reg_edi = 0, reg_esi = 0, reg_ebp = 0, reg_esp = 0, reg_ebx = 0, reg_edx = 0, reg_ecx = 0,
     reg_eax = 0, int_no = 0, err_code = 0, reg_eip = 0, reg_cs = 0, reg_eflags = 0, reg_useresp = 0, reg_ss = 0\<rparr>"

lemma ex_heap: "get_heap ex_system = kernel_heap"
  by (simp add: get_heap_def ex_system_def)

lemma ex_fs_inv: "fs_inv (get_fs ex_system)"
proof (rule fs_inv_start)
  have "get_fs ex_system = fs_init (ex0\<lparr>lib_mem := mem kernel_heap\<rparr>)"
    by (simp add: get_fs_def ex_system_def ex_start_def fs_init_def fs_init_current_dir_def Let_def)
  then show "fs_start (get_fs ex_system)"
    unfolding fs_start_def by (intro exI [of _ "ex0\<lparr>lib_mem := mem kernel_heap\<rparr>"]) (simp add: ex0_def)
qed

lemma ex_areas: "lib_heap (sys_fs ex_system) = 0x200000" "heap_start (sys_heap ex_system) = 0x800000" "heap_end (sys_heap ex_system) = 0xC00000"
  by (simp_all add: ex_system_def ex_start_def fs_init_def fs_init_current_dir_def ex0_def Let_def kernel_heap_rep(2))
    (simp add: kernel_heap_def heap_init_def Let_def)

lemma ex_system_inv: "sys_inv ex_system"
proof -
  have "areas ex_system" by (simp add: areas_def ex_areas)
  then show ?thesis unfolding sys_inv_def ex_heap
    using ex_fs_inv heap_live_kernel(1) by (auto simp: ex_system_def)
qed

section \<open>Reachable states\<close>

text \<open>C12: Any sequence of system calls each of which is permitted where it is raised (\<open>permitted\<close>: the sizes and
  pointers are the caller's to get right, a directory is made only while one of the 128 entries is free,
  as \<open>fs_mkdir\<close> would write behind a full table, the serial line keeps becoming ready, and nobody
  calls SYS_SLEEP) returns from every call. It leads from a state where the kernel heap, the file system
  and the C library's allocator are well formed and apart to such a state again, and the statistics
  count each call once, in total and under its number.\<close>

theorem syscall_run_invariant:
  assumes "sys_inv st"
    and "\<And>before regs after s. calls = before @ regs # after \<Longrightarrow> sys_calls c before st = Some s \<Longrightarrow> permitted c regs s"
  shows "\<exists>st'. sys_calls c calls st = Some st' \<and> sys_inv st' \<and> total_syscalls st' = total_syscalls st + of_nat (length calls) \<and>
    (\<forall>i < 30. syscall_count st' ! i = syscall_count st ! i + of_nat (length (filter (\<lambda>r. unat (reg_eax r) = i) calls)))"
  using assms
proof (induction calls arbitrary: st)
  case (Cons regs calls)
  have "permitted c regs st" using Cons.prems(2) [of "[]" regs calls st] by simp
  then obtain s where s: "syscall_handler c regs st = Some s" "sys_inv s" "total_syscalls s = total_syscalls st + 1"
    "syscall_count s = syscall_count (count_call (reg_eax regs) st)"
    by (rule handler_step [OF Cons.prems(1)])
  have "permitted c r t" if "calls = before @ r # after" "sys_calls c before s = Some t" for before r after t
    using Cons.prems(2) [of "regs # before" r after t] that s(1) by simp
  then obtain st' where st': "sys_calls c calls s = Some st'" "sys_inv st'" "total_syscalls st' = total_syscalls s + of_nat (length calls)"
    "\<forall>i < 30. syscall_count st' ! i = syscall_count s ! i + of_nat (length (filter (\<lambda>r. unat (reg_eax r) = i) calls))"
    using Cons.IH [OF s(2)] by blast
  have "length (syscall_count st) = 30" using Cons.prems(1) by (simp add: sys_inv_def)
  then show ?case using st' s by (simp add: count_call_nth)
qed simp

lemma ex_malloc_call:
  "permitted ex_cpu (ex_regs\<lparr>reg_eax := SYS_MALLOC, reg_ebx := 32\<rparr>) ex_system"
  using heap_one_rep(4) by (simp add: permitted_def path_calls_def ex_heap syscall_numbers)

lemma syscall_run_invariant_witness:
  "\<exists>st'. sys_calls ex_cpu [ex_regs\<lparr>reg_eax := SYS_MALLOC, reg_ebx := 32\<rparr>] ex_system = Some st' \<and> sys_inv st' \<and>
     total_syscalls st' = 1"
proof -
  define call where "call = ex_regs\<lparr>reg_eax := SYS_MALLOC, reg_ebx := 32\<rparr>"
  have "permitted ex_cpu regs s" if "[call] = before @ regs # after" "sys_calls ex_cpu before ex_system = Some s" for before regs after s
    using that ex_malloc_call by (cases before) (auto simp: call_def)
  then have "\<exists>st'. sys_calls ex_cpu [call] ex_system = Some st' \<and> sys_inv st' \<and>
      total_syscalls st' = total_syscalls ex_system + of_nat (length [call]) \<and>
      (\<forall>i < 30. syscall_count st' ! i = syscall_count ex_system ! i + of_nat (length (filter (\<lambda>r. unat (reg_eax r) = i) [call])))"
    by (rule syscall_run_invariant [OF ex_system_inv])
  moreover have "total_syscalls ex_system = 0" by (simp add: ex_system_def)
  ultimately show ?thesis unfolding call_def by auto
qed

section \<open>Results and error numbers\<close>

text \<open>The wrappers return the number of the call, whatever its result was.\<close>

lemma int_0x80_registers: "int_0x80 c regs st = Some (regs', st') \<Longrightarrow> regs' = regs"
  by (auto simp: int_0x80_def split: option.splits isr.splits)

lemma wrapper_result:
  "SYSCALL0 n c regs st = Some (r, st') \<Longrightarrow> r = n" "SYSCALL1 n c regs a st = Some (r, st') \<Longrightarrow> r = n"
  "SYSCALL2 n c regs a b st = Some (r, st') \<Longrightarrow> r = n" "SYSCALL3 n c regs a b d st = Some (r, st') \<Longrightarrow> r = n"
  by (auto simp: SYSCALL0_def SYSCALL1_def SYSCALL2_def SYSCALL3_def dest!: int_0x80_registers)

text \<open>C30: \<open>sys_malloc\<close> returns 5, the number of the call, whatever was allocated: the handler stores the
  result in its own copy of the registers. Without an error, a block has become live whose address
  the caller is never given; with an error the heap is as it was.\<close>

theorem sys_malloc_loses_block:
  assumes "interrupt_handlers (sys_interrupts st) 128 = Some Syscall_handler"
    and live: "heap_live (get_heap st) L" and served: "heap_served sz (get_heap st)" and sz: "sz \<noteq> 0"
  shows "\<exists>st'. sys_malloc c regs sz st = Some (5, st') \<and>
    (current_errno st' = ENOMEM \<and> get_heap st' = get_heap st \<or>
     current_errno st' = 0 \<and> (\<exists>p n. p \<noteq> 0 \<and> unat sz \<le> n \<and> L p = None \<and> heap_live (get_heap st') (L(p \<mapsto> n))))"
proof -
  define st1 where "st1 = (count_call SYS_MALLOC st)\<lparr>current_errno := 0\<rparr>"
  have h1: "get_heap st1 = get_heap st" by (simp add: st1_def)
  obtain p h where m: "heap_malloc sz (get_heap st) = Some (p, h)"
    and c: "p = 0 \<and> h = get_heap st \<or> p \<noteq> 0 \<and> (\<exists>n \<ge> unat sz. L p = None \<and> heap_live h (L(p \<mapsto> n)))"
    by (rule heap_malloc_area [OF live served])
  define st' where "st' = (if p = 0 then (put_heap h st1)\<lparr>current_errno := ENOMEM\<rparr> else put_heap h st1)"
  have "kernel_malloc sz st1 = Some (p, st')" using sz by (simp add: kernel_malloc_def h1 m st'_def Let_def)
  then have "sys_malloc c regs sz st = Some (5, st')"
    using assms(1) by (simp add: sys_malloc_def int_0x80_def syscall_handler_def dispatch_def Let_def st1_def [symmetric] syscall_numbers)
      (simp add: st1_def syscall_numbers)
  moreover have "current_errno (put_heap h st1) = 0" by (simp add: put_heap_def st1_def)
  ultimately show ?thesis using c by (auto simp: st'_def)
qed

lemma sys_malloc_loses_block_witness:
  "\<exists>st'. sys_malloc ex_cpu ex_regs 32 ex_system = Some (5, st') \<and>
     (current_errno st' = ENOMEM \<or> (\<exists>p n. 32 \<le> n \<and> heap_live (get_heap st') [p \<mapsto> n]))"
proof -
  have "interrupt_handlers (sys_interrupts ex_system) 128 = Some Syscall_handler" by (simp add: ex_system_def)
  moreover have "heap_live (get_heap ex_system) Map.empty" "heap_served 32 (get_heap ex_system)"
    by (simp_all add: ex_heap heap_live_kernel(1) heap_one_rep(4))
  ultimately obtain st' where st': "sys_malloc ex_cpu ex_regs 32 ex_system = Some (5, st')"
    "current_errno st' = ENOMEM \<or> (\<exists>p n. unat (32 :: u32) \<le> n \<and> heap_live (get_heap st') [p \<mapsto> n])"
    using sys_malloc_loses_block [of ex_system Map.empty 32 ex_cpu ex_regs] by auto
  have "unat (32 :: u32) = 32" by simp
  then show ?thesis using st' by metis
qed

text \<open>The error numbers of the calls, as the arguments and the result determine them; an unknown number is
  an invalid argument.\<close>

definition error_number :: "registers \<Rightarrow> u32 \<Rightarrow> u32" where
  "error_number regs result =
     (let n = reg_eax regs; a = reg_ebx regs; b = reg_ecx regs in
      if n \<in> {SYS_EXIT, SYS_GETPID, SYS_TIME} then 0
      else if n = SYS_READ then (if b = 0 then EFAULT else if a = STDIN_FILENO then EAGAIN else EBADF)
      else if n = SYS_WRITE then (if b = 0 then EFAULT else if a \<in> {STDOUT_FILENO, STDERR_FILENO} then 0 else EBADF)
      else if n = SYS_MALLOC then (if result \<noteq> 0 then 0 else if a = 0 then EINVAL else ENOMEM)
      else if n = SYS_FREE then (if a = 0 then EINVAL else 0)
      else if n = SYS_CLOSE then (if sint a \<le> 2 then EBADF else 0)
      else if n = SYS_GETCWD then (if result = 0 then 0 else if a = 0 \<or> b = 0 then EFAULT else ERANGE)
      else if n \<in> {SYS_OPEN, SYS_CHDIR, SYS_RMDIR, SYS_UNLINK} then (if result \<noteq> - 1 then 0 else if a = 0 then EFAULT else ENOENT)
      else if n = SYS_STAT then (if result = 0 then 0 else if a = 0 \<or> b = 0 then EFAULT else ENOENT)
      else if n = SYS_MKDIR then (if result = 0 then 0 else if a = 0 then EFAULT else EEXIST)
      else EINVAL)"

lemma errno_kept [simp]:
  "current_errno (put_fs f st) = current_errno st" "current_errno (put_heap h st) = current_errno st"
  by (simp_all add: put_fs_def put_heap_def)

lemma write_chars_bound: "write_chars str k m w s = Some (r, s') \<Longrightarrow> unat w + k < 4294967296 \<Longrightarrow> unat r \<le> unat w + k"
proof (induction k arbitrary: w s)
  case (Suc k)
  have "unat (w + 1) = unat w + 1" using unat_of_nat_add_u32 [of "unat w" 1] Suc.prems(2) by simp
  then show ?case using Suc by (force split: if_splits Option.bind_splits)
qed simp

lemma errno_after:
  "\<lbrakk>kernel_chdir p st = Some (r, s); current_errno st = 0\<rbrakk> \<Longrightarrow> (current_errno s \<noteq> 0) = (r = - 1)"
  "\<lbrakk>kernel_mkdir p st = Some (r, s); current_errno st = 0\<rbrakk> \<Longrightarrow> (current_errno s \<noteq> 0) = (r = - 1)"
  "\<lbrakk>kernel_rmdir p st = Some (r, s); current_errno st = 0\<rbrakk> \<Longrightarrow> (current_errno s \<noteq> 0) = (r = - 1)"
  "\<lbrakk>kernel_unlink p st = Some (r, s); current_errno st = 0\<rbrakk> \<Longrightarrow> (current_errno s \<noteq> 0) = (r = - 1)"
  "\<lbrakk>kernel_open p b st = Some (r, s); current_errno st = 0\<rbrakk> \<Longrightarrow> (current_errno s \<noteq> 0) = (r = - 1)"
  "\<lbrakk>kernel_stat c p b st = Some (r, s); current_errno st = 0\<rbrakk> \<Longrightarrow> (current_errno s \<noteq> 0) = (r = - 1)"
  "\<lbrakk>kernel_close a st = (r, s); current_errno st = 0\<rbrakk> \<Longrightarrow> (current_errno s \<noteq> 0) = (r = - 1)"
  "\<lbrakk>kernel_free p st = (r, s); current_errno st = 0\<rbrakk> \<Longrightarrow> (current_errno s \<noteq> 0) = (r = - 1)"
  "\<lbrakk>kernel_getcwd p b st = (r, s); current_errno st = 0\<rbrakk> \<Longrightarrow> (current_errno s \<noteq> 0) = (r = - 1)"
  by (auto simp: kernel_chdir_def kernel_mkdir_def kernel_rmdir_def kernel_unlink_def kernel_open_def
      kernel_stat_def plain_call_defs error_numbers Let_def split_beta split: Option.bind_splits if_splits)

lemma errno_read:
  "kernel_read a p b st = (r, s) \<Longrightarrow> a \<noteq> STDIN_FILENO \<Longrightarrow> (current_errno s \<noteq> 0) = (r = - 1)"
  "kernel_read STDIN_FILENO p b st = (r, s) \<Longrightarrow> p \<noteq> 0 \<Longrightarrow> r = 0 \<and> current_errno s = EAGAIN"
  by (auto simp: kernel_read_def error_numbers split: if_splits)

lemma errno_malloc: "kernel_malloc a st = Some (r, s) \<Longrightarrow> current_errno st = 0 \<Longrightarrow> (current_errno s \<noteq> 0) = (r = 0)"
  unfolding kernel_malloc_def Let_def by (cases "a = 0"; cases "r = 0") (auto simp: error_numbers)

lemma errno_write:
  assumes "kernel_write fd buf count st = Some (r, s)" and "current_errno st = 0" and "count \<noteq> - 1"
  shows "(current_errno s \<noteq> 0) = (r = - 1)"
proof -
  have m: "unat (- 1 :: u32) = 4294967295" by (simp add: unsigned_minus_1_eq_mask mask_eq_exp_minus_1)
  then have "unat count \<noteq> 4294967295" using assms(3) by (metis u32_of_nat_unat)
  then have "unat count < 4294967295" using unat_u32_bound [of count] by linarith
  then have "write_chars buf (unat count) m 0 t = Some (w, t') \<Longrightarrow> w \<noteq> - 1" for m t w t'
    using write_chars_bound [of buf "unat count" m 0 t w t'] by (auto simp: m)
  then show ?thesis using assms(1,2) by (auto simp: kernel_write_def error_numbers split: if_splits)
qed

lemma error_number_calls:
  assumes z: "current_errno st = 0"
  shows "\<lbrakk>kernel_chdir a st = Some (r, s); reg_eax regs = SYS_CHDIR; reg_ebx regs = a\<rbrakk> \<Longrightarrow> current_errno s = error_number regs r"
    and "\<lbrakk>kernel_rmdir a st = Some (r, s); reg_eax regs = SYS_RMDIR; reg_ebx regs = a\<rbrakk> \<Longrightarrow> current_errno s = error_number regs r"
    and "\<lbrakk>kernel_unlink a st = Some (r, s); reg_eax regs = SYS_UNLINK; reg_ebx regs = a\<rbrakk> \<Longrightarrow> current_errno s = error_number regs r"
    and "\<lbrakk>kernel_mkdir a st = Some (r, s); reg_eax regs = SYS_MKDIR; reg_ebx regs = a\<rbrakk> \<Longrightarrow> current_errno s = error_number regs r"
    and "\<lbrakk>kernel_open a b st = Some (r, s); reg_eax regs = SYS_OPEN; reg_ebx regs = a\<rbrakk> \<Longrightarrow> current_errno s = error_number regs r"
    and "\<lbrakk>kernel_stat c a b st = Some (r, s); reg_eax regs = SYS_STAT; reg_ebx regs = a; reg_ecx regs = b\<rbrakk>
      \<Longrightarrow> current_errno s = error_number regs r"
    and "\<lbrakk>kernel_close a st = (r, s); reg_eax regs = SYS_CLOSE; reg_ebx regs = a\<rbrakk> \<Longrightarrow> current_errno s = error_number regs r"
    and "\<lbrakk>kernel_free a st = (r, s); reg_eax regs = SYS_FREE; reg_ebx regs = a\<rbrakk> \<Longrightarrow> current_errno s = error_number regs r"
    and "\<lbrakk>kernel_getcwd a b st = (r, s); reg_eax regs = SYS_GETCWD; reg_ebx regs = a; reg_ecx regs = b\<rbrakk>
      \<Longrightarrow> current_errno s = error_number regs r"
    and "\<lbrakk>kernel_read a b d st = (r, s); reg_eax regs = SYS_READ; reg_ebx regs = a; reg_ecx regs = b\<rbrakk>
      \<Longrightarrow> current_errno s = error_number regs r"
    and "\<lbrakk>kernel_write a b d st = Some (r, s); reg_eax regs = SYS_WRITE; reg_ebx regs = a; reg_ecx regs = b\<rbrakk>
      \<Longrightarrow> current_errno s = error_number regs r"
  using z by (auto simp: kernel_chdir_def kernel_mkdir_def kernel_rmdir_def kernel_unlink_def kernel_open_def
      kernel_write_def kernel_stat_def plain_call_defs error_number_def syscall_numbers Let_def split_beta
      split: Option.bind_splits if_splits)

lemma error_number_malloc:
  assumes "kernel_malloc a st = Some (r, s)" and "current_errno st = 0" and "reg_eax regs = SYS_MALLOC" and "reg_ebx regs = a"
  shows "current_errno s = error_number regs r"
proof (cases "a = 0")
  case True
  then show ?thesis using assms by (auto simp: kernel_malloc_def error_number_def syscall_numbers Let_def)
next
  case False
  then obtain h where "s = (if r = 0 then (put_heap h st)\<lparr>current_errno := ENOMEM\<rparr> else put_heap h st)"
    using assms(1) by (auto simp: kernel_malloc_def Let_def split_beta)
  then have "current_errno s = (if r = 0 then ENOMEM else 0)" using assms(2) by simp
  then show ?thesis using False assms(3,4) by (simp add: error_number_def syscall_numbers)
qed

lemma dispatch_error_number:
  assumes d: "dispatch c regs st = Some (r, s)" and z: "current_errno st = 0" and "reg_eax regs \<noteq> SYS_SLEEP"
  shows "current_errno s = error_number regs r"
proof -
  note call = error_number_calls [OF z]
  have plain: "reg_eax regs \<in> {SYS_EXIT, SYS_GETPID, SYS_TIME} \<Longrightarrow> current_errno s = error_number regs r"
    using d z by (auto simp: dispatch_def error_number_def syscall_numbers kernel_exit_def kernel_getpid_def kernel_time_def Let_def)
  have chdir: "reg_eax regs = SYS_CHDIR \<Longrightarrow> current_errno s = error_number regs r"
    by (rule call(1), insert d) (simp_all add: dispatch_def syscall_numbers)
  have rmdir: "reg_eax regs = SYS_RMDIR \<Longrightarrow> current_errno s = error_number regs r"
    by (rule call(2), insert d) (simp_all add: dispatch_def syscall_numbers)
  have unlink: "reg_eax regs = SYS_UNLINK \<Longrightarrow> current_errno s = error_number regs r"
    by (rule call(3), insert d) (simp_all add: dispatch_def syscall_numbers)
  have mkdir: "reg_eax regs = SYS_MKDIR \<Longrightarrow> current_errno s = error_number regs r"
    by (rule call(4), insert d) (simp_all add: dispatch_def syscall_numbers)
  have opn: "reg_eax regs = SYS_OPEN \<Longrightarrow> current_errno s = error_number regs r"
    by (rule call(5), insert d) (simp_all add: dispatch_def syscall_numbers)
  have stat: "reg_eax regs = SYS_STAT \<Longrightarrow> current_errno s = error_number regs r"
    by (rule call(6), insert d) (simp_all add: dispatch_def syscall_numbers)
  have cls: "reg_eax regs = SYS_CLOSE \<Longrightarrow> current_errno s = error_number regs r"
    by (rule call(7), insert d) (simp_all add: dispatch_def syscall_numbers)
  have fre: "reg_eax regs = SYS_FREE \<Longrightarrow> current_errno s = error_number regs r"
    by (rule call(8), insert d) (simp_all add: dispatch_def syscall_numbers)
  have cwd: "reg_eax regs = SYS_GETCWD \<Longrightarrow> current_errno s = error_number regs r"
    by (rule call(9), insert d) (simp_all add: dispatch_def syscall_numbers)
  have rd: "reg_eax regs = SYS_READ \<Longrightarrow> current_errno s = error_number regs r"
    by (rule call(10), insert d) (simp_all add: dispatch_def syscall_numbers)
  have wr: "reg_eax regs = SYS_WRITE \<Longrightarrow> current_errno s = error_number regs r"
    by (rule call(11), insert d) (simp_all add: dispatch_def syscall_numbers)
  have malloc: "reg_eax regs = SYS_MALLOC \<Longrightarrow> current_errno s = error_number regs r"
    by (rule error_number_malloc [OF _ z], insert d) (simp_all add: dispatch_def syscall_numbers)
  have unknown: "reg_eax regs \<notin> {SYS_EXIT, SYS_READ, SYS_WRITE, SYS_OPEN, SYS_CLOSE, SYS_MALLOC, SYS_FREE, SYS_GETPID, SYS_SLEEP,
      SYS_CHDIR, SYS_GETCWD, SYS_MKDIR, SYS_RMDIR, SYS_UNLINK, SYS_STAT, SYS_TIME} \<Longrightarrow> current_errno s = error_number regs r"
    using d by (auto simp: dispatch_def error_number_def Let_def)
  show ?thesis
    using plain chdir rmdir unlink mkdir opn stat cls fre cwd rd wr malloc unknown assms(3) by blast
qed

text \<open>C29: The error number is that of the last call, whatever error an earlier one had left: after any call but
  SYS_SLEEP it is the one that \<open>error_number\<close> gives, zero where the call is documented to succeed, an
  unknown number an invalid argument. Where a call returns minus one (a null pointer for an allocation)
  it is nonzero, and where it returns anything else it is zero; but reading the standard input returns 0,
  no error, and leaves EAGAIN, against the documentation of \<open>get_errno\<close>, and exit, getpid and time
  may return any number with no error, as writing the largest count may.\<close>

theorem syscall_errno:
  assumes "dispatch c regs ((count_call (reg_eax regs) st)\<lparr>current_errno := 0\<rparr>) = Some (result, st')"
    and "reg_eax regs \<noteq> SYS_SLEEP"
  shows "syscall_handler c regs st = Some st' \<and> get_errno st' = error_number regs result \<and>
    (reg_eax regs \<notin> {SYS_EXIT, SYS_GETPID, SYS_TIME, SYS_MALLOC} \<and> \<not> (reg_eax regs = SYS_READ \<and> reg_ebx regs = STDIN_FILENO) \<and>
      \<not> (reg_eax regs = SYS_WRITE \<and> reg_edx regs = - 1) \<longrightarrow> (get_errno st' \<noteq> 0 \<longleftrightarrow> result = - 1)) \<and>
    (reg_eax regs = SYS_MALLOC \<longrightarrow> (get_errno st' \<noteq> 0 \<longleftrightarrow> result = 0)) \<and>
    (reg_eax regs = SYS_READ \<and> reg_ebx regs = STDIN_FILENO \<and> reg_ecx regs \<noteq> 0 \<longrightarrow> result = 0 \<and> get_errno st' = EAGAIN)"
proof -
  define st1 where "st1 = (count_call (reg_eax regs) st)\<lparr>current_errno := 0\<rparr>"
  have z: "current_errno st1 = 0" by (simp add: st1_def)
  have d: "dispatch c regs st1 = Some (result, st')" using assms(1) by (simp add: st1_def)
  have "syscall_handler c regs st = Some st'" using assms(1) by (simp add: syscall_handler_def Let_def)
  moreover have "get_errno st' = error_number regs result"
    using dispatch_error_number [OF d z assms(2)] by (simp add: get_errno_def)
  moreover have "get_errno st' \<noteq> 0 \<longleftrightarrow> result = - 1"
    if "reg_eax regs \<notin> {SYS_EXIT, SYS_GETPID, SYS_TIME, SYS_MALLOC}" "\<not> (reg_eax regs = SYS_READ \<and> reg_ebx regs = STDIN_FILENO)"
      "\<not> (reg_eax regs = SYS_WRITE \<and> reg_edx regs = - 1)"
    using d z assms(2) that unfolding dispatch_def Let_def get_errno_def
    by (auto simp: error_numbers split: if_splits dest: errno_after [OF _ z] errno_write [OF _ z] errno_read(1))
  moreover have "get_errno st' \<noteq> 0 \<longleftrightarrow> result = 0" if "reg_eax regs = SYS_MALLOC"
    using d that errno_malloc [OF _ z] by (auto simp: dispatch_def syscall_numbers get_errno_def)
  moreover have "result = 0 \<and> get_errno st' = EAGAIN"
    if "reg_eax regs = SYS_READ" "reg_ebx regs = STDIN_FILENO" "reg_ecx regs \<noteq> 0"
    using d that errno_read(2) by (auto simp: dispatch_def syscall_numbers get_errno_def)
  ultimately show ?thesis by blast
qed

lemma syscall_errno_witness:
  "\<exists>st'. syscall_handler ex_cpu (ex_regs\<lparr>reg_eax := 29\<rparr>) ex_system = Some st' \<and> get_errno st' = EINVAL"
proof -
  obtain st' where d: "dispatch ex_cpu (ex_regs\<lparr>reg_eax := 29\<rparr>)
    ((count_call (reg_eax (ex_regs\<lparr>reg_eax := 29\<rparr>)) ex_system)\<lparr>current_errno := 0\<rparr>) = Some (- 1, st')"
    by (simp add: dispatch_def syscall_numbers)
  show ?thesis using syscall_errno [OF d] by (simp add: syscall_numbers error_number_def Let_def)
qed

section \<open>Single calls\<close>

lemma store_bytes_at:
  assumes "unat p + length bs \<le> 4294967296" and "i < length bs"
  shows "store_bytes p bs m (p + of_nat i) = bs ! i"
proof -
  have neq: "p + of_nat i \<noteq> p + of_nat j" if "i < length bs" "j < length bs" "i \<noteq> j" for i j
    using that assms(1) of_nat_u32_inject [of i j] by simp
  have "k \<le> length bs \<Longrightarrow> i < k \<Longrightarrow> fold (\<lambda>i m. m(p + of_nat i := bs ! i)) [0..<k] m (p + of_nat i) = bs ! i" for k
  proof (induction k)
    case (Suc k)
    show ?case
    proof (cases "i = k")
      case False
      then have "p + of_nat i \<noteq> p + of_nat k" using Suc.prems assms(2) by (intro neq) simp_all
      moreover have "fold (\<lambda>i m. m(p + of_nat i := bs ! i)) [0..<k] m (p + of_nat i) = bs ! i"
        using Suc.IH [OF Suc_leD [OF Suc.prems(1)]] Suc.prems(2) False by linarith
      ultimately show ?thesis
        by (simp only: upt_Suc_append fold_append fold.simps comp_apply id_apply zero_le not_False_eq_True fun_upd_other)
    qed simp
  qed simp
  then show ?thesis using assms(2) by (simp add: store_bytes_def)
qed

text \<open>C35: The name of the current directory: it is written to the caller's buffer exactly if it fits with its
  terminator, as a string that reads back as the path; nothing outside of the buffer changes, and a
  buffer that is too small is refused with nothing written.\<close>

theorem kernel_getcwd_correct:
  assumes "buf \<noteq> 0" and "unat buf + unat sz \<le> 4294967296"
    and cwd: "0 \<notin> set (fs_get_current_dir (sys_fs st))" "length (fs_get_current_dir (sys_fs st)) < 256"
  shows "if length (fs_get_current_dir (sys_fs st)) < unat sz
    then \<exists>m. kernel_getcwd buf sz st = (0, st\<lparr>memory := m\<rparr>) \<and> path_arg buf m = Some (fs_get_current_dir (sys_fs st)) \<and>
      unchanged_outside (memory st) m (unat buf) (unat buf + unat sz)
    else kernel_getcwd buf sz st = (- 1, st\<lparr>current_errno := if sz = 0 then EFAULT else ERANGE\<rparr>)"
proof (cases "length (fs_get_current_dir (sys_fs st)) < unat sz")
  case False
  then show ?thesis using assms(1) by (auto simp: kernel_getcwd_def Let_def)
next
  case True
  define cwd where "cwd = fs_get_current_dir (sys_fs st)"
  define m where "m = store_bytes buf (cwd @ replicate (unat sz - length cwd) 0) (memory st)"
  define m' where "m' = m(buf + (sz - 1) := 0)"
  have sz: "length cwd < unat sz" using True by (simp add: cwd_def)
  have last: "buf + (sz - 1) = buf + of_nat (unat sz - 1)" using sz unat_minus_one [of sz] by (metis gr_implies_not0 u32_of_nat_unat unat_0)
  have at: "m (buf + of_nat i) = (if i < length cwd then cwd ! i else 0)" if "i < unat sz" for i
    using store_bytes_at [of buf "cwd @ replicate (unat sz - length cwd) 0" i "memory st"] assms(2) sz that
    by (simp add: m_def nth_append)
  have at': "m' (buf + of_nat i) = (if i < length cwd then cwd ! i else 0)" if "i < unat sz" for i
  proof (cases "i = unat sz - 1")
    case True
    then have "m' (buf + of_nat i) = 0" by (simp only: m'_def last fun_upd_same)
    then show ?thesis using True sz by auto
  next
    case False
    then have "buf + of_nat i \<noteq> buf + (sz - 1)"
      unfolding last add_left_cancel using that unat_u32_bound [of sz] by (subst of_nat_u32_inject) linarith+
    then show ?thesis using at [OF that] by (simp add: m'_def)
  qed
  have str: "cstr m' buf cwd"
    by (rule cstrI) (use cwd at' sz in \<open>simp_all add: cwd_def [symmetric]\<close>)
  have "unat (of_nat (length cwd) :: u32) = length cwd" using cwd(2) by (intro unat_of_nat_u32) (simp add: cwd_def)
  then have "path_arg buf m' = Some (map (\<lambda>i. m' (buf + of_nat i)) [0..<length cwd])"
    using cwd(2) strlen_correct [OF str] by (simp add: path_arg_def cwd_def [symmetric] FS_MAX_PATH_LEN_def)
  also have "map (\<lambda>i. m' (buf + of_nat i)) [0..<length cwd] = cwd"
    by (intro nth_equalityI) (use at' sz in simp_all)
  finally have arg: "path_arg buf m' = Some cwd" .
  have "unchanged_outside (memory st) m (unat buf) (unat buf + unat sz)"
    using store_bytes_unchanged [of buf "cwd @ replicate (unat sz - length cwd) 0"] assms(2) sz by (simp add: m_def)
  moreover have "x \<noteq> buf + (sz - 1)" if "unat x < unat buf \<or> unat buf + unat sz \<le> unat x" for x
    using that sz assms(2) unat_of_nat_add_u32 [of "unat buf" "unat sz - 1"] unfolding last by auto
  ultimately have "unchanged_outside (memory st) m' (unat buf) (unat buf + unat sz)"
    by (simp add: unchanged_outside_def m'_def)
  moreover have "kernel_getcwd buf sz st = (0, st\<lparr>memory := m'\<rparr>)"
    using assms(1) sz by (auto simp: kernel_getcwd_def Let_def m'_def m_def cwd_def [symmetric] not_less)
  ultimately show ?thesis using arg sz by (auto simp: cwd_def [symmetric])
qed

lemma kernel_getcwd_correct_witness:
  "\<exists>m. kernel_getcwd 0x1000 16 ex_system = (0, ex_system\<lparr>memory := m\<rparr>) \<and> path_arg 0x1000 m = Some [47]"
proof -
  have "fs_get_current_dir (sys_fs ex_system) = [47]" by (simp add: ex_system_def) code_simp
  then show ?thesis using kernel_getcwd_correct [of "0x1000" 16 ex_system] by auto
qed

lemma halt_until_ticks:
  assumes "\<And>s. halt s = Some (s\<lparr>sys_ticks := sys_ticks s + 1\<rparr>)"
  shows "sys_ticks st \<le> target \<Longrightarrow> halt_until halt target st = Some (st\<lparr>sys_ticks := target\<rparr>)"
proof (induction "unat (target - sys_ticks st)" arbitrary: st)
  case 0
  then have "target - sys_ticks st = 0" by (metis unat_eq_0)
  then show ?case by (subst halt_until.simps) auto
next
  case (Suc n)
  define d where "d = target - sys_ticks st"
  have d: "d \<noteq> 0" "unat d = Suc n" using Suc.hyps(2) by (auto simp: d_def)
  then have "sys_ticks st \<noteq> target" by (auto simp: d_def)
  then have less: "sys_ticks st < target" using Suc.prems by (rule order.not_eq_order_implies_strict)
  define st1 where "st1 = st\<lparr>sys_ticks := sys_ticks st + 1\<rparr>"
  have "unat (d - 1) = n" using d unat_minus_one [of d] by simp
  moreover have "target - sys_ticks st1 = d - 1" by (simp add: st1_def d_def)
  ultimately have "n = unat (target - sys_ticks st1)" by simp
  moreover have "sys_ticks st1 \<le> target" using less by (simp add: st1_def inc_le)
  ultimately have "halt_until halt target st1 = Some (st1\<lparr>sys_ticks := target\<rparr>)" using Suc.hyps(1) by blast
  then show ?case using less assms [of st] by (subst halt_until.simps) (simp add: st1_def)
qed

text \<open>Sleeping: while the timer interrupt comes in at every halt, it returns when the target tick is there,
  at once if the sum of the ticks wraps around. But the gate of interrupt 0x80 leaves the
  interrupts off: then no interrupt ends a halt, and the call never returns unless it need not wait.\<close>

theorem kernel_sleep_waits:
  "((\<forall>s. hlt c s = Some (s\<lparr>sys_ticks := sys_ticks s + 1\<rparr>)) \<longrightarrow>
      kernel_sleep c seconds st = Some (0, st\<lparr>sys_ticks := max (sys_ticks st) (sys_ticks st + seconds * 1000)\<rparr>)) \<and>
   ((\<forall>s. hlt c s = None) \<longrightarrow>
      kernel_sleep c seconds st = (if sys_ticks st < sys_ticks st + seconds * 1000 then None else Some (0, st)))"
proof (intro conjI impI)
  define target where "target = sys_ticks st + seconds * 1000"
  have k: "kernel_sleep c seconds st = map_option (Pair 0) (halt_until (hlt c) target st)"
    by (cases "seconds = 0") (simp_all add: kernel_sleep_def Let_def target_def halt_until.simps)
  { assume tick: "\<forall>s. hlt c s = Some (s\<lparr>sys_ticks := sys_ticks s + 1\<rparr>)"
    show "kernel_sleep c seconds st = Some (0, st\<lparr>sys_ticks := max (sys_ticks st) (sys_ticks st + seconds * 1000)\<rparr>)"
    proof (cases "sys_ticks st \<le> target")
      case True
      then show ?thesis using halt_until_ticks [of "hlt c"] tick by (simp add: k target_def [symmetric] max_def)
    next
      case False
      then have "\<not> sys_ticks st < target" by simp
      then show ?thesis using False unfolding k target_def [symmetric] by (subst halt_until.simps) (simp add: max_def not_less [symmetric])
    qed }
  { assume "\<forall>s. hlt c s = None"
    then show "kernel_sleep c seconds st = (if sys_ticks st < sys_ticks st + seconds * 1000 then None else Some (0, st))"
      unfolding k target_def [symmetric] by (subst halt_until.simps) simp }
qed

lemma kernel_sleep_waits_witness:
  "kernel_sleep ex_cpu 2 ex_system = None \<and>
   kernel_sleep (ex_cpu\<lparr>hlt := (\<lambda>s. Some (s\<lparr>sys_ticks := sys_ticks s + 1\<rparr>))\<rparr>) 2 ex_system = Some (0, ex_system\<lparr>sys_ticks := 7000\<rparr>)"
  using kernel_sleep_waits [of ex_cpu 2 ex_system] kernel_sleep_waits [of "ex_cpu\<lparr>hlt := (\<lambda>s. Some (s\<lparr>sys_ticks := sys_ticks s + 1\<rparr>))\<rparr>" 2 ex_system]
  by (simp add: ex_cpu_def ex_system_def)

lemma write_chars_sends:
  assumes "line_live s" and "cstr m (str + w) xs"
  shows "\<exists>s'. write_chars str k m w s = Some (w + of_nat (min k (length xs)), s') \<and>
    outputs s' = outputs s @ map (Pair SERIAL_COM1_PORT) (take k xs)"
  using assms
proof (induction k arbitrary: w s xs)
  case (Suc k)
  show ?case
  proof (cases xs)
    case (Cons x ys)
    obtain s1 where s1: "serial_write x s = Some s1" "line_live s1" "outputs s1 = outputs s @ [(SERIAL_COM1_PORT, x)]"
      using serial_write_live [OF Suc.prems(1)] by blast
    have "cstr m (str + (w + 1)) ys" using Suc.prems(2) Cons by (simp add: add.assoc)
    from Suc.IH [OF s1(2) this] show ?thesis using Suc.prems(2) Cons s1 by (auto simp: add.assoc)
  qed (use Suc.prems in auto)
qed simp

text \<open>Writing to the standard outputs sends the bytes of the string, in order, up to the count or the
  terminator, whichever is first, over a line that keeps becoming ready, and returns how many; nothing
  but the serial port changes. Other descriptors and a null buffer are refused.\<close>

theorem kernel_write_sends:
  assumes "line_live (sys_serial st)" and "cstr (memory st) buf xs"
  shows "\<exists>s. kernel_write fd buf count st =
      (if buf = 0 then Some (- 1, st\<lparr>current_errno := EFAULT\<rparr>)
       else if fd = STDOUT_FILENO \<or> fd = STDERR_FILENO
       then Some (of_nat (min (unat count) (length xs)), st\<lparr>sys_serial := s\<rparr>)
       else Some (- 1, st\<lparr>current_errno := EBADF\<rparr>)) \<and>
    outputs s = outputs (sys_serial st) @ map (Pair SERIAL_COM1_PORT) (take (unat count) xs)"
  using write_chars_sends [of "sys_serial st" "memory st" buf 0 xs "unat count"] assms
  by (auto simp: kernel_write_def)

lemma kernel_write_sends_witness:
  "\<exists>s. kernel_write STDOUT_FILENO 0x1000 9 (ex_system\<lparr>memory := (\<lambda>_. 0)(0x1000 := 72, 0x1001 := 105)\<rparr>) =
     Some (2, ex_system\<lparr>memory := (\<lambda>_. 0)(0x1000 := 72, 0x1001 := 105), sys_serial := s\<rparr>) \<and>
     outputs s = [(SERIAL_COM1_PORT, 72), (SERIAL_COM1_PORT, 105)]"
proof -
  define st where "st = ex_system\<lparr>memory := (\<lambda>_. 0)(0x1000 := 72, 0x1001 := 105)\<rparr>"
  have "line_live (sys_serial st)" by (auto simp: st_def ex_system_def serial_reset_def line_live_def LSR_THRE_def)
  moreover have "cstr (memory st) 0x1000 [72, 105]" by (simp add: st_def)
  ultimately show ?thesis
    using kernel_write_sends [of st "0x1000" "[72, 105]" STDOUT_FILENO 9]
    by (simp add: st_def [symmetric]) (simp add: st_def ex_system_def serial_reset_def)
qed

end
