(* ===== verification/Terminal.thy ===== *)
theory Terminal
  imports CMemory Ports
begin

text \<open>
  The text screen (first part of \<open>kernel/kernel.c\<close>): 25 rows of 80 cells, a character and an
  attribute byte each, in the video memory at 0xB8000, and the cursor. The C \<open>int\<close>s for rows,
  columns and offsets are small and are modelled as \<open>int\<close>. A C string is the list of its bytes;
  printing stops at a NUL or at the end of the list.

  Against these definitions stands a reference, \<open>paper\<close>, that types on a list of 2000 cells and drops
  the first line when it runs off the end.
\<close>

unbundle bit_operations_syntax

record terminal = io +
  screen_memory :: mem
  cursor_col :: int
  cursor_row :: int

definition VIDEO_MEM :: u32 where "VIDEO_MEM = 0xB8000"
definition COLUMNS :: int where "COLUMNS = 80"
definition ROWS :: int where "ROWS = 25"
definition WHITE_ON_BLACK :: u8 where "WHITE_ON_BLACK = 0x07"

text \<open>\<open>video[i]\<close>, read and written.\<close>

definition video_get :: "int \<Rightarrow> 'a terminal_scheme \<Rightarrow> u8" where
  "video_get i st = screen_memory st (VIDEO_MEM + word_of_int i)"

definition video_put :: "int \<Rightarrow> u8 \<Rightarrow> 'a terminal_scheme \<Rightarrow> 'a terminal_scheme" where
  "video_put i v st = st\<lparr>screen_memory := (screen_memory st)(VIDEO_MEM + word_of_int i := v)\<rparr>"

section \<open>The hardware cursor\<close>

definition vga_enable_cursor :: "'a terminal_scheme \<Rightarrow> 'a terminal_scheme" where
  "vga_enable_cursor st =
     (let st = outb 0x3D4 0x0A st; st = outb 0x3D5 0x00 st; st = outb 0x3D4 0x0B st in outb 0x3D5 0x0F st)"

definition vga_move_cursor :: "int \<Rightarrow> int \<Rightarrow> 'a terminal_scheme \<Rightarrow> 'a terminal_scheme" where
  "vga_move_cursor row col st =
     (let pos = row * COLUMNS + col; st = outb 0x3D4 0x0F st; st = outb 0x3D5 (word_of_int (take_bit 8 pos)) st;
          st = outb 0x3D4 0x0E st
      in outb 0x3D5 (word_of_int (take_bit 8 (drop_bit 8 pos))) st)"

section \<open>The screen\<close>

definition blank_cell :: "int \<Rightarrow> 'a terminal_scheme \<Rightarrow> 'a terminal_scheme" where
  "blank_cell i st = video_put (i + 1) WHITE_ON_BLACK (video_put i 32 st)"

definition scroll_screen :: "'a terminal_scheme \<Rightarrow> 'a terminal_scheme" where
  "scroll_screen st =
     (let row_bytes = COLUMNS * 2;
          st = fold (\<lambda>r st. fold (\<lambda>c st. video_put (r * row_bytes + c) (video_get ((r + 1) * row_bytes + c) st) st)
                 [0..row_bytes - 1] st) [0..ROWS - 2] st;
          base = (ROWS - 1) * row_bytes;
          st = fold (\<lambda>c. blank_cell (base + c * 2)) [0..COLUMNS - 1] st
      in st\<lparr>cursor_row := ROWS - 1\<rparr>)"

definition clear_screen :: "'a terminal_scheme \<Rightarrow> 'a terminal_scheme" where
  "clear_screen st = fold (\<lambda>k. blank_cell (k * 2)) [0..COLUMNS * ROWS - 1] st"

definition fill_screen_pattern :: "'a terminal_scheme \<Rightarrow> 'a terminal_scheme" where
  "fill_screen_pattern st =
     snd (fold (\<lambda>k (ch, st).
       let st = video_put (k * 2) ch st; ch = ch + 1; st = video_put (k * 2 + 1) WHITE_ON_BLACK st
       in (if 90 < ch then 65 else ch, st)) [0..COLUMNS * ROWS - 1] (65, st))"

definition k_print_char :: "u8 \<Rightarrow> u8 \<Rightarrow> int \<Rightarrow> int \<Rightarrow> 'a terminal_scheme \<Rightarrow> 'a terminal_scheme" where
  "k_print_char c attr row col st =
     (let offset = (row * COLUMNS + col) * 2
      in if offset < 0 \<or> offset \<ge> COLUMNS * ROWS * 2 then st
         else video_put (offset + 1) attr (video_put offset c st))"

text \<open>A row past the last one scrolls, and the output goes on in the last row.\<close>

definition scroll_if_below :: "int \<Rightarrow> 'a terminal_scheme \<Rightarrow> int \<times> 'a terminal_scheme" where
  "scroll_if_below row st =
     (if row \<ge> ROWS then let st = scroll_screen st in (cursor_row st, st) else (row, st))"

fun k_print_string :: "u8 list \<Rightarrow> u8 \<Rightarrow> int \<Rightarrow> int \<Rightarrow> 'a terminal_scheme \<Rightarrow> 'a terminal_scheme" where
  "k_print_string [] attr row col st = st"
| "k_print_string (ch # str) attr row col st =
     (if ch = 0 then st
      else if ch = 10 then
        let (row, st) = scroll_if_below (row + 1) st in k_print_string str attr row 0 st
      else
        let (row, st) = scroll_if_below row st;
            st = (if 0 \<le> col \<and> col < COLUMNS \<and> 0 \<le> row \<and> row < ROWS then k_print_char ch attr row col st else st)
        in if COLUMNS \<le> col + 1
           then let (row, st) = scroll_if_below (row + 1) st in k_print_string str attr row 0 st
           else k_print_string str attr row (col + 1) st)"

definition update_cursor :: "'a terminal_scheme \<Rightarrow> 'a terminal_scheme" where
  "update_cursor st =
     (let st = (if cursor_row st \<ge> ROWS then scroll_screen st else st);
          st = (if cursor_col st \<ge> COLUMNS
                then let st = st\<lparr>cursor_col := 0, cursor_row := cursor_row st + 1\<rparr>
                     in if cursor_row st \<ge> ROWS then scroll_screen st else st
                else st)
      in vga_move_cursor (cursor_row st) (cursor_col st) st)"

section \<open>The screen as a list of cells\<close>

definition vid :: "nat \<Rightarrow> u32" where
  "vid i = VIDEO_MEM + of_nat i"

definition cells :: "mem \<Rightarrow> (u8 \<times> u8) list" where
  "cells m = map (\<lambda>k. (m (vid (2 * k)), m (vid (2 * k + 1)))) [0..<2000]"

lemma unat_vid:
  assumes "i < 4000"
  shows "unat (vid i) = 0xB8000 + i"
proof -
  have "unat (of_nat 0xB8000 + of_nat i :: u32) = 0xB8000 + i" using assms by (intro unat_of_nat_add_u32) simp
  then show ?thesis by (simp only: vid_def VIDEO_MEM_def of_nat_numeral)
qed

lemma vid_inject: "i < 4000 \<Longrightarrow> j < 4000 \<Longrightarrow> vid i = vid j \<longleftrightarrow> i = j"
  by (metis add_left_cancel unat_vid)

lemma video_ops:
  "video_get (int i) st = screen_memory st (vid i)"
  "video_put (int i) v st = st\<lparr>screen_memory := (screen_memory st)(vid i := v)\<rparr>"
  by (simp_all add: video_get_def video_put_def vid_def)

text \<open>What a piece of output does to memory: nothing outside of the 4000 bytes, and these given by a function.\<close>

definition on_screen :: "mem \<Rightarrow> mem \<Rightarrow> (nat \<Rightarrow> u8) \<Rightarrow> bool" where
  "on_screen m m' b \<longleftrightarrow> unchanged_outside m m' 0xB8000 0xB8FA0 \<and> (\<forall>i < 4000. m' (vid i) = b i)"

lemma on_screen_refl: "on_screen m m (\<lambda>i. m (vid i))"
  by (simp add: on_screen_def)

lemma on_screen_put:
  assumes "on_screen m m' b" and "i < 4000"
  shows "on_screen m (m'(vid i := v)) (b(i := v))"
proof -
  have "x \<noteq> vid i" if "unat x < 0xB8000 \<or> 0xB8FA0 \<le> unat x" for x
    using that unat_vid [OF assms(2)] assms(2) by auto
  then show ?thesis using assms by (auto simp: on_screen_def unchanged_outside_def vid_inject)
qed

lemma on_screen_cong: "on_screen m m' b \<Longrightarrow> (\<And>i. i < 4000 \<Longrightarrow> b i = b' i) \<Longrightarrow> on_screen m m' b'"
  by (simp add: on_screen_def)

lemma on_screen_trans: "on_screen m m' b \<Longrightarrow> on_screen m' m'' b' \<Longrightarrow> on_screen m m'' b'"
  unfolding on_screen_def using unchanged_outside_trans by blast

lemma upto_nat: "[0..int n - 1] = map int [0..<n]"
  by (induction n) (simp_all add: upto_rec2)

lemma fold_rows: "fold (\<lambda>r. fold (\<lambda>c. f (r * w + c)) [0..<w]) [0..<n] = fold f [0..<n * w]"
proof (induction n)
  case (Suc n)
  have "[0..<Suc n * w] = [0..<n * w] @ map (\<lambda>c. n * w + c) [0..<w]"
    using upt_add_eq_append [of 0 "n * w" w] map_add_upt [of "n * w" w] by (simp add: add.commute)
  then show ?case using Suc by (simp add: fold_map comp_def)
qed simp

lemma copy_row:
  "n \<le> 3840 \<Longrightarrow> \<exists>m'. fold (\<lambda>k st. video_put (int k) (video_get (int (k + 160)) st) st) [0..<n] st = st\<lparr>screen_memory := m'\<rparr>
     \<and> on_screen (screen_memory st) m' (\<lambda>i. screen_memory st (vid (if i < n then i + 160 else i)))"
proof (induction n)
  case 0
  show ?case using on_screen_refl by (intro exI [of _ "screen_memory st"]) simp
next
  case (Suc n)
  then obtain m' where m': "fold (\<lambda>k st. video_put (int k) (video_get (int (k + 160)) st) st) [0..<n] st = st\<lparr>screen_memory := m'\<rparr>"
    "on_screen (screen_memory st) m' (\<lambda>i. screen_memory st (vid (if i < n then i + 160 else i)))" by auto
  have "m' (vid (n + 160)) = screen_memory st (vid (n + 160))" using m'(2) Suc.prems by (simp add: on_screen_def)
  then have "fold (\<lambda>k st. video_put (int k) (video_get (int (k + 160)) st) st) [0..<Suc n] st
      = st\<lparr>screen_memory := m'(vid n := screen_memory st (vid (n + 160)))\<rparr>"
    using m'(1) by (simp add: video_ops del: of_nat_add)
  moreover have "on_screen (screen_memory st) (m'(vid n := screen_memory st (vid (n + 160))))
      (\<lambda>i. screen_memory st (vid (if i < Suc n then i + 160 else i)))"
    by (rule on_screen_cong [OF on_screen_put [OF m'(2)]]) (use Suc.prems in auto)
  ultimately show ?case by blast
qed

lemma blank_cells:
  "a + 2 * n \<le> 4000 \<Longrightarrow> \<exists>m'. fold (\<lambda>k. blank_cell (int (a + 2 * k))) [0..<n] st = st\<lparr>screen_memory := m'\<rparr>
     \<and> on_screen (screen_memory st) m' (\<lambda>i. if a \<le> i \<and> i < a + 2 * n then (if even (i - a) then 32 else 7) else screen_memory st (vid i))"
proof (induction n)
  case 0
  have "on_screen (screen_memory st) (screen_memory st) (\<lambda>i. if a \<le> i \<and> i < a + 2 * 0 then (if even (i - a) then 32 else 7) else screen_memory st (vid i))"
    by (rule on_screen_cong [OF on_screen_refl]) auto
  then show ?case by (intro exI [of _ "screen_memory st"]) simp
next
  case (Suc n)
  then obtain m' where m': "fold (\<lambda>k. blank_cell (int (a + 2 * k))) [0..<n] st = st\<lparr>screen_memory := m'\<rparr>"
    "on_screen (screen_memory st) m' (\<lambda>i. if a \<le> i \<and> i < a + 2 * n then (if even (i - a) then 32 else 7) else screen_memory st (vid i))"
    by auto
  have b: "blank_cell (int j) t = t\<lparr>screen_memory := (screen_memory t)(vid j := 32, vid (j + 1) := 7)\<rparr>" for j and t :: "'a terminal_scheme"
    using video_ops(2) [of "j + 1" WHITE_ON_BLACK "video_put (int j) 32 t"]
    by (simp add: blank_cell_def video_ops WHITE_ON_BLACK_def add.commute)
  have "fold (\<lambda>k. blank_cell (int (a + 2 * k))) [0..<Suc n] st
      = st\<lparr>screen_memory := m'(vid (a + 2 * n) := 32, vid (a + 2 * n + 1) := 7)\<rparr>"
    using m'(1) by (simp add: b del: of_nat_add)
  moreover have "on_screen (screen_memory st) (m'(vid (a + 2 * n) := 32, vid (a + 2 * n + 1) := 7))
      (\<lambda>i. if a \<le> i \<and> i < a + 2 * Suc n then (if even (i - a) then 32 else 7) else screen_memory st (vid i))"
    by (rule on_screen_cong [OF on_screen_put [OF on_screen_put [OF m'(2)]]]) (use Suc.prems in auto)
  ultimately show ?case by blast
qed

lemma blank_cells_from:
  "a + 2 * n \<le> 4000 \<Longrightarrow> \<exists>m'. fold (\<lambda>k. blank_cell (int (a + 2 * k))) [0..<n] (st\<lparr>screen_memory := m\<rparr>) = st\<lparr>screen_memory := m'\<rparr>
     \<and> on_screen m m' (\<lambda>i. if a \<le> i \<and> i < a + 2 * n then (if even (i - a) then 32 else 7) else m (vid i))"
  using blank_cells [of a n "st\<lparr>screen_memory := m\<rparr>"] by (simp cong: if_cong)

lemma scroll_screen_memory:
  "\<exists>m'. scroll_screen st = st\<lparr>screen_memory := m', cursor_row := 24\<rparr> \<and>
     on_screen (screen_memory st) m' (\<lambda>i. if i < 3840 then screen_memory st (vid (i + 160)) else if even i then 32 else 7)"
proof -
  define f where "f = (\<lambda>k st. video_put (int k) (video_get (int (k + 160)) st) (st :: 'a terminal_scheme))"
  obtain m1 where m1: "fold f [0..<3840] st = st\<lparr>screen_memory := m1\<rparr>"
    "on_screen (screen_memory st) m1 (\<lambda>i. screen_memory st (vid (if i < 3840 then i + 160 else i)))"
    using copy_row [of 3840 st] by (auto simp: f_def)
  have le: "3840 + 2 * 80 \<le> (4000 :: nat)" by simp
  obtain m2 where m2: "fold (\<lambda>k. blank_cell (int (3840 + 2 * k))) [0..<80] (st\<lparr>screen_memory := m1\<rparr>) = st\<lparr>screen_memory := m2\<rparr>"
    "on_screen m1 m2 (\<lambda>i. if 3840 \<le> i \<and> i < 3840 + 2 * 80 then (if even (i - 3840) then 32 else 7) else m1 (vid i))"
    using blank_cells_from [OF le, of m1 st] by blast
  have rows: "[0..ROWS - 2] = map int [0..<24]" "[0..COLUMNS * 2 - 1] = map int [0..<160]" "[0..COLUMNS - 1] = map int [0..<80]"
    using upto_nat [of 24] upto_nat [of 160] upto_nat [of 80] by (simp_all add: ROWS_def COLUMNS_def)
  have "fold (\<lambda>r st. fold (\<lambda>c st. video_put (r * (COLUMNS * 2) + c) (video_get ((r + 1) * (COLUMNS * 2) + c) st) st)
      [0..COLUMNS * 2 - 1] st) [0..ROWS - 2] st = fold (\<lambda>r. fold (\<lambda>c. f (r * 160 + c)) [0..<160]) [0..<24] st"
    unfolding rows by (simp add: fold_map comp_def f_def COLUMNS_def algebra_simps)
  also have "\<dots> = st\<lparr>screen_memory := m1\<rparr>" using fold_rows [of f 160 24] m1(1) by simp
  finally have copy: "fold (\<lambda>r st. fold (\<lambda>c st. video_put (r * (COLUMNS * 2) + c) (video_get ((r + 1) * (COLUMNS * 2) + c) st) st)
      [0..COLUMNS * 2 - 1] st) [0..ROWS - 2] st = st\<lparr>screen_memory := m1\<rparr>" .
  have blank: "fold (\<lambda>c. blank_cell ((ROWS - 1) * (COLUMNS * 2) + c * 2)) [0..COLUMNS - 1] (st\<lparr>screen_memory := m1\<rparr>) = st\<lparr>screen_memory := m2\<rparr>"
    unfolding rows using m2(1) by (simp add: fold_map comp_def ROWS_def COLUMNS_def mult.commute)
  have "scroll_screen st = st\<lparr>screen_memory := m2, cursor_row := 24\<rparr>"
    unfolding scroll_screen_def Let_def copy blank by (simp add: ROWS_def)
  moreover have "on_screen (screen_memory st) m2 (\<lambda>i. if i < 3840 then screen_memory st (vid (i + 160)) else if even i then 32 else 7)"
    by (rule on_screen_cong [OF on_screen_trans [OF m1(2) m2(2)]]) (use m1(2) in \<open>auto simp: on_screen_def\<close>)
  ultimately show ?thesis by blast
qed

lemma cells_nth: "k < 2000 \<Longrightarrow> cells m ! k = (m (vid (2 * k)), m (vid (2 * k + 1)))"
  by (simp add: cells_def)

lemma length_cells [simp]: "length (cells m) = 2000"
  by (simp add: cells_def)

lemma cells_on_screen: "on_screen m m' b \<Longrightarrow> cells m' = map (\<lambda>k. (b (2 * k), b (2 * k + 1))) [0..<2000]"
  by (auto simp: cells_def on_screen_def)

lemma on_screen_outside: "on_screen m m' b \<Longrightarrow> unchanged_outside m m' 0xB8000 0xB8FA0"
  by (simp add: on_screen_def)

definition scrolled :: "(u8 \<times> u8) list \<Rightarrow> (u8 \<times> u8) list" where
  "scrolled s = drop 80 s @ replicate 80 (32, 7)"

lemma length_scrolled: "length s = 2000 \<Longrightarrow> length (scrolled s) = 2000"
  by (simp add: scrolled_def)

lemma scroll_screen_cells:
  obtains m' where "scroll_screen st = st\<lparr>screen_memory := m', cursor_row := 24\<rparr>"
    and "unchanged_outside (screen_memory st) m' 0xB8000 0xB8FA0" and "cells m' = scrolled (cells (screen_memory st))"
proof -
  obtain m' where m': "scroll_screen st = st\<lparr>screen_memory := m', cursor_row := 24\<rparr>"
    "on_screen (screen_memory st) m' (\<lambda>i. if i < 3840 then screen_memory st (vid (i + 160)) else if even i then 32 else 7)"
    using scroll_screen_memory [of st] by blast
  have "cells m' = scrolled (cells (screen_memory st))"
  proof (rule nth_equalityI)
    fix k assume "k < length (cells m')"
    then have k: "k < 2000" by simp
    show "cells m' ! k = scrolled (cells (screen_memory st)) ! k"
    proof (cases "k < 1920")
      case True
      have "cells (screen_memory st) ! (k + 80) = (screen_memory st (vid (2 * k + 160)), screen_memory st (vid (2 * k + 161)))"
        using True by (subst cells_nth) (simp_all add: algebra_simps)
      then show ?thesis
        using True cells_on_screen [OF m'(2)] by (simp add: scrolled_def nth_append add.commute)
    next
      case False
      then show ?thesis using k cells_on_screen [OF m'(2)] by (simp add: scrolled_def nth_append)
    qed
  qed (simp add: length_scrolled)
  then show ?thesis using that m'(1) on_screen_outside [OF m'(2)] by blast
qed

lemma clear_screen_cells:
  obtains m' where "clear_screen st = st\<lparr>screen_memory := m'\<rparr>" and "unchanged_outside (screen_memory st) m' 0xB8000 0xB8FA0"
    and "cells m' = replicate 2000 (32, 7)"
proof -
  have le: "0 + 2 * 2000 \<le> (4000 :: nat)" by simp
  obtain m' where m': "fold (\<lambda>k. blank_cell (int (0 + 2 * k))) [0..<2000] st = st\<lparr>screen_memory := m'\<rparr>"
    "on_screen (screen_memory st) m' (\<lambda>i. if 0 \<le> i \<and> i < 0 + 2 * 2000 then (if even (i - 0) then 32 else 7) else screen_memory st (vid i))"
    using blank_cells [OF le, of st] by blast
  have r: "[0..COLUMNS * ROWS - 1] = map int [0..<2000]" using upto_nat [of 2000] by (simp add: COLUMNS_def ROWS_def)
  have "clear_screen st = st\<lparr>screen_memory := m'\<rparr>"
    using m'(1) unfolding clear_screen_def r by (simp add: fold_map comp_def mult.commute)
  moreover have "cells m' = replicate 2000 (32, 7)"
    unfolding cells_on_screen [OF m'(2)] by (rule nth_equalityI) auto
  ultimately show ?thesis using that on_screen_outside [OF m'(2)] by blast
qed

lemma k_print_char_cells:
  obtains m' where "k_print_char c attr row col st = st\<lparr>screen_memory := m'\<rparr>"
    and "unchanged_outside (screen_memory st) m' 0xB8000 0xB8FA0"
    and "cells m' = (if 0 \<le> row * 80 + col \<and> row * 80 + col < 2000
      then (cells (screen_memory st))[nat (row * 80 + col) := (c, attr)] else cells (screen_memory st))"
proof (cases "0 \<le> row * 80 + col \<and> row * 80 + col < 2000")
  case False
  then have "k_print_char c attr row col st = st" by (auto simp: k_print_char_def Let_def COLUMNS_def ROWS_def)
  then show ?thesis using that [of "screen_memory st"] False by simp
next
  case True
  define k where "k = nat (row * 80 + col)"
  have k: "row * 80 + col = int k" "k < 2000" using True by (auto simp: k_def)
  define m' where "m' = (screen_memory st)(vid (2 * k) := c, vid (2 * k + 1) := attr)"
  have off: "(row * COLUMNS + col) * 2 = int (2 * k)" "int (2 * k) + 1 = int (2 * k + 1)"
    using k(1) by (simp_all add: COLUMNS_def)
  have "k_print_char c attr row col st = st\<lparr>screen_memory := m'\<rparr>"
    using k(2) unfolding k_print_char_def Let_def off video_ops by (simp add: COLUMNS_def ROWS_def m'_def)
  moreover have b: "on_screen (screen_memory st) m' ((\<lambda>i. screen_memory st (vid i))(2 * k := c, 2 * k + 1 := attr))"
    unfolding m'_def using k(2) by (intro on_screen_put on_screen_refl) simp_all
  moreover have "cells m' = (cells (screen_memory st))[k := (c, attr)]"
  proof (rule nth_equalityI)
    fix j assume "j < length (cells m')"
    then have j: "j < 2000" by simp
    have "2 * j \<noteq> 2 * k + 1" "2 * j + 1 \<noteq> 2 * k" by presburger+
    then show "cells m' ! j = (cells (screen_memory st))[k := (c, attr)] ! j"
      using cells_on_screen [OF b] k(2) j by (simp add: cells_nth nth_list_update)
  qed simp
  ultimately show ?thesis using that [of m'] True on_screen_outside [OF b] by (simp add: k_def)
qed

section \<open>Typing on paper\<close>

text \<open>The reference: characters go to the position and advance it, a newline moves to the start of the next
  line, and behind the last cell the first line is dropped. The flag says whether that has happened.\<close>

fun paper :: "u8 list \<Rightarrow> u8 \<Rightarrow> nat \<Rightarrow> (u8 \<times> u8) list \<Rightarrow> bool \<Rightarrow> (u8 \<times> u8) list \<times> bool" where
  "paper [] attr p s moved = (s, moved)"
| "paper (ch # str) attr p s moved =
     (if ch = 0 then (s, moved)
      else let (q, t) = (if ch = 10 then ((p div 80 + 1) * 80, s) else (p + 1, s[p := (ch, attr)]))
           in if q < 2000 then paper str attr q t moved else paper str attr (q - 80) (scrolled t) True)"

text \<open>What printing leaves of the state: the screen, which the reference gives, and the cursor's row, which is
  the last one if the screen has scrolled.\<close>

definition printed :: "'a terminal_scheme \<Rightarrow> 'a terminal_scheme \<Rightarrow> (u8 \<times> u8) list \<times> bool \<Rightarrow> bool" where
  "printed st st' r \<longleftrightarrow> (\<exists>m'. st' = st\<lparr>screen_memory := m', cursor_row := if snd r then 24 else cursor_row st\<rparr> \<and>
     unchanged_outside (screen_memory st) m' 0xB8000 0xB8FA0 \<and> cells m' = fst r)"

lemma printed_refl: "printed st st (cells (screen_memory st), False)"
  unfolding printed_def by (intro exI [of _ "screen_memory st"]) simp

lemma printed_put:
  assumes "printed st st' (s, moved)" and "0 \<le> row" and "row < 25" and "0 \<le> col" and "col < 80"
  shows "printed st (k_print_char ch attr row col st') (s[nat (row * 80 + col) := (ch, attr)], moved)"
proof -
  obtain m1 where m1: "st' = st\<lparr>screen_memory := m1, cursor_row := if moved then 24 else cursor_row st\<rparr>"
    "unchanged_outside (screen_memory st) m1 0xB8000 0xB8FA0" "cells m1 = s" using assms(1) by (auto simp: printed_def)
  obtain m2 where m2: "k_print_char ch attr row col st' = st'\<lparr>screen_memory := m2\<rparr>"
    "unchanged_outside (screen_memory st') m2 0xB8000 0xB8FA0"
    "cells m2 = (if 0 \<le> row * 80 + col \<and> row * 80 + col < 2000
      then (cells (screen_memory st'))[nat (row * 80 + col) := (ch, attr)] else cells (screen_memory st'))"
    by (rule k_print_char_cells)
  have "cells m2 = s[nat (row * 80 + col) := (ch, attr)]" using m1(3) m2(3) assms(2-5) by (simp add: m1(1))
  moreover have "unchanged_outside (screen_memory st) m2 0xB8000 0xB8FA0"
    using unchanged_outside_trans [OF m1(2)] m2(2) by (simp add: m1(1))
  ultimately show ?thesis unfolding printed_def m2(1) unfolding m1(1) by (intro exI [of _ m2]) simp
qed

lemma printed_scroll:
  assumes "printed st st' (s, moved)"
  shows "printed st (scroll_screen st') (scrolled s, True)" and "cursor_row (scroll_screen st') = 24"
proof -
  obtain m1 where m1: "st' = st\<lparr>screen_memory := m1, cursor_row := if moved then 24 else cursor_row st\<rparr>"
    "unchanged_outside (screen_memory st) m1 0xB8000 0xB8FA0" "cells m1 = s" using assms(1) by (auto simp: printed_def)
  obtain m2 where m2: "scroll_screen st' = st'\<lparr>screen_memory := m2, cursor_row := 24\<rparr>"
    "unchanged_outside (screen_memory st') m2 0xB8000 0xB8FA0" "cells m2 = scrolled (cells (screen_memory st'))"
    by (rule scroll_screen_cells)
  have "unchanged_outside (screen_memory st) m2 0xB8000 0xB8FA0"
    using unchanged_outside_trans [OF m1(2)] m2(2) by (simp add: m1(1))
  then show "printed st (scroll_screen st') (scrolled s, True)"
    unfolding printed_def m2(1) unfolding m1(1) using m1 m2(3) by (intro exI [of _ m2]) simp
  show "cursor_row (scroll_screen st') = 24" by (simp add: m2(1))
qed

lemma k_print_string_paper:
  assumes "printed st st' (s, moved)" and "0 \<le> row" and "row < 25" and "0 \<le> col" and "col < 80"
  shows "printed st (k_print_string str attr row col st') (paper str attr (nat (row * 80 + col)) s moved)"
  using assms
proof (induction str arbitrary: row col s moved st')
  case (Cons ch str)
  define p where "p = nat (row * 80 + col)"
  have line: "p div 80 + 1 = nat row + 1"
    using Cons.prems(2-5) by (simp add: p_def nat_add_distrib nat_mult_distrib)
  consider "ch = 0" | "ch = 10" "row = 24" | "ch = 10" "row < 24" | "ch \<noteq> 0" "ch \<noteq> 10" "col < 79"
    | "ch \<noteq> 0" "ch \<noteq> 10" "col = 79" "row < 24" | "ch \<noteq> 0" "ch \<noteq> 10" "col = 79" "row = 24"
    using Cons.prems(3,5) by linarith
  then show ?case
  proof cases
    case 2
    then show ?thesis
      unfolding p_def [symmetric] using Cons.IH [OF printed_scroll(1) [OF Cons.prems(1)], of 24 0] printed_scroll(2) [OF Cons.prems(1)] line
      by (simp add: scroll_if_below_def ROWS_def Let_def)
  next
    case 3
    then have "nat row < 24" "nat ((row + 1) * 80 + 0) = 80 + nat row * 80"
      using Cons.prems(2) by (simp_all add: nat_add_distrib nat_mult_distrib)
    then show ?thesis
      unfolding p_def [symmetric] using Cons.IH [OF Cons.prems(1), of "row + 1" 0] line Cons.prems(2) 3
      by (simp add: scroll_if_below_def ROWS_def Let_def)
  next
    case 4
    have "nat (row * 80 + (col + 1)) = p + 1" "p + 1 < 2000" using Cons.prems(2-5) 4(3) by (simp_all add: p_def)
    then show ?thesis
      unfolding p_def [symmetric] using Cons.IH [OF printed_put [OF Cons.prems, folded p_def], of row "col + 1" ch attr] 4 Cons.prems(2-5)
      by (simp add: scroll_if_below_def ROWS_def COLUMNS_def Let_def)
  next
    case 5
    have "nat ((row + 1) * 80 + 0) = p + 1" "p + 1 < 2000" using Cons.prems(2-5) 5(3,4) by (simp_all add: p_def)
    then show ?thesis
      unfolding p_def [symmetric] using Cons.IH [OF printed_put [OF Cons.prems, folded p_def], of "row + 1" 0 ch attr] 5 Cons.prems(2-5)
      by (simp add: scroll_if_below_def ROWS_def COLUMNS_def Let_def)
  next
    case 6
    note put = printed_put [OF Cons.prems, folded p_def, of ch attr]
    have "p = 1999" using 6(3,4) by (simp add: p_def)
    then show ?thesis
      unfolding p_def [symmetric] using Cons.IH [OF printed_scroll(1) [OF put], of 24 0] printed_scroll(2) [OF put] 6
      by (simp add: scroll_if_below_def ROWS_def COLUMNS_def Let_def)
  qed (use Cons.prems in simp)
qed simp

section \<open>Properties\<close>

text \<open>Output of any kind, whatever the position: it changes the screen, the row of the cursor and, for the
  cursor itself, what is sent to the ports.\<close>

definition output_only :: "'a terminal_scheme \<Rightarrow> 'a terminal_scheme \<Rightarrow> bool" where
  "output_only st st' \<longleftrightarrow> (\<exists>m' r. st' = st\<lparr>screen_memory := m', cursor_row := r\<rparr> \<and>
     unchanged_outside (screen_memory st) m' 0xB8000 0xB8FA0 \<and> (r = cursor_row st \<or> r = 24))"

lemma output_only_refl [simp]: "output_only st st"
  unfolding output_only_def by (intro exI [of _ "screen_memory st"] exI [of _ "cursor_row st"]) simp

lemma output_only_trans: "output_only st st' \<Longrightarrow> output_only st' st'' \<Longrightarrow> output_only st st''"
  unfolding output_only_def
proof (elim exE conjE)
  fix m1 r1 m2 r2
  assume s: "st' = st\<lparr>screen_memory := m1, cursor_row := r1\<rparr>" "st'' = st'\<lparr>screen_memory := m2, cursor_row := r2\<rparr>"
    and u: "unchanged_outside (screen_memory st) m1 0xB8000 0xB8FA0" "unchanged_outside (screen_memory st') m2 0xB8000 0xB8FA0"
    and r: "r1 = cursor_row st \<or> r1 = 24" "r2 = cursor_row st' \<or> r2 = 24"
  have "unchanged_outside (screen_memory st) m2 0xB8000 0xB8FA0" using unchanged_outside_trans [OF u(1)] u(2) s(1) by simp
  then show "\<exists>m' r. st'' = st\<lparr>screen_memory := m', cursor_row := r\<rparr> \<and>
      unchanged_outside (screen_memory st) m' 0xB8000 0xB8FA0 \<and> (r = cursor_row st \<or> r = 24)"
    using s r by (intro exI [of _ m2] exI [of _ r2]) auto
qed

lemma output_only_put: "0 \<le> i \<Longrightarrow> i < 4000 \<Longrightarrow> output_only st (video_put i v st)"
proof -
  assume "0 \<le> i" "i < 4000"
  then obtain n where n: "i = int n" "n < 4000" by (metis nat_eq_iff2 of_nat_less_iff of_nat_numeral)
  have "on_screen (screen_memory st) ((screen_memory st)(vid n := v)) ((\<lambda>i. screen_memory st (vid i))(n := v))"
    by (rule on_screen_put [OF on_screen_refl n(2)])
  then show ?thesis
    unfolding output_only_def n(1) video_ops
    by (intro exI [of _ "(screen_memory st)(vid n := v)"] exI [of _ "cursor_row st"]) (simp add: on_screen_outside)
qed

lemma output_only_scroll: "output_only st (scroll_screen st)"
proof -
  obtain m' where "scroll_screen st = st\<lparr>screen_memory := m', cursor_row := 24\<rparr>" "unchanged_outside (screen_memory st) m' 0xB8000 0xB8FA0"
    by (rule scroll_screen_cells [of st])
  then show ?thesis unfolding output_only_def by blast
qed

lemma output_only_char: "output_only st (k_print_char c attr row col st)"
proof -
  obtain m' where "k_print_char c attr row col st = st\<lparr>screen_memory := m'\<rparr>" "unchanged_outside (screen_memory st) m' 0xB8000 0xB8FA0"
    by (rule k_print_char_cells)
  then show ?thesis unfolding output_only_def by (intro exI [of _ m'] exI [of _ "cursor_row st"]) simp
qed

lemma output_only_below: "output_only st (snd (scroll_if_below row st))"
  by (simp add: scroll_if_below_def Let_def output_only_scroll)

lemma output_only_string: "output_only st (k_print_string str attr row col st)"
proof (induction str arbitrary: row col st)
  case (Cons ch str)
  define cur where "cur = (if ch = 10 then row + 1 else row)"
  define st1 where "st1 = snd (scroll_if_below cur st)"
  define row1 where "row1 = fst (scroll_if_below cur st)"
  define st2 where "st2 = (if ch \<noteq> 10 \<and> 0 \<le> col \<and> col < COLUMNS \<and> 0 \<le> row1 \<and> row1 < ROWS then k_print_char ch attr row1 col st1 else st1)"
  define st3 where "st3 = (if ch \<noteq> 10 \<and> COLUMNS \<le> col + 1 then snd (scroll_if_below (row1 + 1) st2) else st2)"
  have "output_only st st1" by (simp add: st1_def output_only_below)
  moreover have "output_only st1 st2" by (simp add: st2_def output_only_char)
  moreover have "output_only st2 st3" by (simp add: st3_def output_only_below)
  ultimately have "output_only st st3" using output_only_trans by blast
  moreover have "k_print_string (ch # str) attr row col st = st \<or> (\<exists>r c. k_print_string (ch # str) attr row col st = k_print_string str attr r c st3)"
    by (auto simp: st1_def row1_def st2_def st3_def cur_def split_beta Let_def)
  ultimately show ?case using Cons.IH output_only_trans by (metis output_only_refl)
qed simp

lemma output_only_clear: "output_only st (clear_screen st)"
proof -
  obtain m' where "clear_screen st = st\<lparr>screen_memory := m'\<rparr>" "unchanged_outside (screen_memory st) m' 0xB8000 0xB8FA0"
    by (rule clear_screen_cells)
  then show ?thesis unfolding output_only_def by (intro exI [of _ m'] exI [of _ "cursor_row st"]) simp
qed

lemma output_only_pattern: "output_only st (fill_screen_pattern st)"
proof -
  define step where "step = (\<lambda>k (ch :: u8, st :: 'a terminal_scheme).
       let st = video_put (k * 2) ch st; ch = ch + 1; st = video_put (k * 2 + 1) WHITE_ON_BLACK st
       in (if 90 < ch then 65 else ch, st))"
  have "\<forall>k \<in> set ks. 0 \<le> k \<and> k < 2000 \<Longrightarrow> output_only st (snd (fold step ks (ch, st)))" for ks ch and st :: "'a terminal_scheme"
  proof (induction ks arbitrary: ch st)
    case (Cons k ks)
    have "output_only st (snd (step k (ch, st)))"
      using Cons.prems by (auto simp: step_def Let_def intro!: output_only_trans [OF output_only_put output_only_put])
    moreover have "output_only (snd (step k (ch, st))) (snd (fold step ks (step k (ch, st))))"
      using Cons.IH [of "snd (step k (ch, st))" "fst (step k (ch, st))"] Cons.prems by simp
    ultimately show ?case using output_only_trans by simp blast
  qed simp
  then show ?thesis unfolding fill_screen_pattern_def step_def [symmetric] by (simp add: COLUMNS_def ROWS_def)
qed

text \<open>C38: The text output never leaves the screen: scrolling, clearing, the test pattern, a character and a
  string at any position whatever change no byte outside of the 4000 of the video memory.\<close>

theorem text_output_on_screen:
  "output_only st (scroll_screen st) \<and> output_only st (clear_screen st) \<and> output_only st (fill_screen_pattern st) \<and>
   output_only st (k_print_char c attr row col st) \<and> output_only st (k_print_string str attr row col st)"
  by (simp add: output_only_scroll output_only_clear output_only_pattern output_only_char output_only_string)

text \<open>C20: Printing a string at a position of the screen does what typing it on paper does: characters in order,
  wrapped at the end of a line, a newline to the start of the next, the screen scrolled by a line
  whenever it is full, nothing else changed in memory.\<close>

theorem k_print_string_refines_paper:
  assumes "0 \<le> row" and "row < 25" and "0 \<le> col" and "col < 80"
  shows "\<exists>m'. k_print_string str attr row col st = st\<lparr>screen_memory := m',
      cursor_row := if snd (paper str attr (nat (row * 80 + col)) (cells (screen_memory st)) False) then 24 else cursor_row st\<rparr> \<and>
    unchanged_outside (screen_memory st) m' 0xB8000 0xB8FA0 \<and>
    cells m' = fst (paper str attr (nat (row * 80 + col)) (cells (screen_memory st)) False)"
  using k_print_string_paper [OF printed_refl assms] unfolding printed_def .

definition ex_terminal :: terminal where
  "ex_terminal = \<lparr>inputs = (\<lambda>_ _. 0), outputs = [], screen_memory = (\<lambda>_. 0), cursor_col = 0, cursor_row = 10\<rparr>"

lemma k_print_string_refines_paper_witness:
  "cells (screen_memory (k_print_string [72, 105] 7 0 0 ex_terminal)) =
     (cells (\<lambda>_. 0))[0 := (72, 7), 1 := (105, 7)]"
  using k_print_string_refines_paper [of 0 0 "[72, 105]" 7 ex_terminal] by (auto simp: ex_terminal_def Let_def)

lemma update_cursor_cases:
  obtains st1 where "update_cursor st = vga_move_cursor (cursor_row st1) (cursor_col st1) st1"
    and "outputs st1 = outputs st" and "0 \<le> cursor_row st \<Longrightarrow> 0 \<le> cursor_row st1 \<and> cursor_row st1 \<le> 24"
    and "0 \<le> cursor_col st \<Longrightarrow> 0 \<le> cursor_col st1 \<and> cursor_col st1 \<le> 79"
proof -
  define st0 where "st0 = (if cursor_row st \<ge> 25 then scroll_screen st else st)"
  define st1 where "st1 = (if cursor_col st0 \<ge> 80
    then let t = st0\<lparr>cursor_col := 0, cursor_row := cursor_row st0 + 1\<rparr> in if cursor_row t \<ge> 25 then scroll_screen t else t else st0)"
  have sc: "outputs (scroll_screen t) = outputs t" "cursor_row (scroll_screen t) = 24" "cursor_col (scroll_screen t) = cursor_col t" for t :: "'a terminal_scheme"
  proof -
    obtain m' where "scroll_screen t = t\<lparr>screen_memory := m', cursor_row := 24\<rparr>" by (rule scroll_screen_cells [of t])
    then show "outputs (scroll_screen t) = outputs t" "cursor_row (scroll_screen t) = 24" "cursor_col (scroll_screen t) = cursor_col t"
      by simp_all
  qed
  show ?thesis
  proof (rule that [of st1])
    show "update_cursor st = vga_move_cursor (cursor_row st1) (cursor_col st1) st1"
      by (simp add: update_cursor_def Let_def st0_def st1_def ROWS_def COLUMNS_def)
  qed (auto simp: st1_def st0_def sc Let_def)
qed

text \<open>Whatever position that is not negative the software cursor has, the hardware cursor is put on a cell of
  the screen, whose number is sent low byte first to the cursor registers.\<close>

theorem update_cursor_on_screen:
  assumes "0 \<le> cursor_row st" and "0 \<le> cursor_col st"
  shows "\<exists>pos < 2000. outputs (update_cursor st) =
    outputs st @ [(0x3D4, 0x0F), (0x3D5, of_nat (pos mod 256)), (0x3D4, 0x0E), (0x3D5, of_nat (pos div 256))]"
proof -
  obtain st1 where st1: "update_cursor st = vga_move_cursor (cursor_row st1) (cursor_col st1) st1" "outputs st1 = outputs st"
    "0 \<le> cursor_row st1 \<and> cursor_row st1 \<le> 24" "0 \<le> cursor_col st1 \<and> cursor_col st1 \<le> 79"
    using assms by (metis update_cursor_cases)
  define pos where "pos = nat (cursor_row st1 * 80 + cursor_col st1)"
  have "cursor_row st1 * 80 + cursor_col st1 < 2000" using st1(3,4) by linarith
  then have pos: "cursor_row st1 * 80 + cursor_col st1 = int pos" "pos < 2000" using st1(3,4)
    unfolding pos_def by (simp, subst nat_less_iff) simp_all
  have "take_bit 8 (int pos) = int (pos mod 256)" by (simp add: take_bit_eq_mod zmod_int)
  then have low: "word_of_int (take_bit 8 (int pos)) = (of_nat (pos mod 256) :: u8)" by (simp only: of_int_of_nat_eq)
  have "drop_bit 8 (int pos) = int (pos div 256)" by (simp add: drop_bit_eq_div zdiv_int)
  moreover have "pos div 256 < 8" using pos(2) by simp
  then have "take_bit 8 (int (pos div 256)) = int (pos div 256)" by (simp add: take_bit_eq_mod)
  ultimately have high: "word_of_int (take_bit 8 (drop_bit 8 (int pos))) = (of_nat (pos div 256) :: u8)" by (simp only: of_int_of_nat_eq)
  show ?thesis
    using st1(2) pos(2) low high unfolding st1(1) vga_move_cursor_def COLUMNS_def Let_def pos(1)
    by (intro exI [of _ pos]) simp
qed

lemma update_cursor_on_screen_witness:
  "\<exists>pos < 2000. outputs (update_cursor (ex_terminal\<lparr>cursor_row := 25, cursor_col := 80\<rparr>)) =
    [(0x3D4, 0x0F), (0x3D5, of_nat (pos mod 256)), (0x3D4, 0x0E), (0x3D5, of_nat (pos div 256))]"
  using update_cursor_on_screen [of "ex_terminal\<lparr>cursor_row := 25, cursor_col := 80\<rparr>"] by (simp add: ex_terminal_def)

end
