(* ===== verification/FsTree.thy ===== *)
theory FsTree
  imports FsProps
begin

text \<open>
  The directory tree (\<open>fs_tree\<close> of \<open>drivers/fs.c\<close>): an indented listing by recursion over the directories.
  The path of a subdirectory is meant to be printed into a local array by \<open>snprintf\<close>, which writes
  nothing, so the recursion goes on with whatever bytes the array has: they are the parameter
  \<open>local_bytes\<close>, by depth and entry. The recursion is cut off below depth 10.
\<close>

fun tree_indent :: "nat \<Rightarrow> u32 \<Rightarrow> u32 \<Rightarrow> u8 list \<Rightarrow> u8 list" where
  "tree_indent 0 buffer_size offset out = out"
| "tree_indent (Suc k) buffer_size offset out =
     (if offset < buffer_size - 3 then tree_indent k buffer_size (offset + 2) (out @ [32, 32])
      else tree_indent k buffer_size offset out)"

text \<open>The directory a path leads to; one that is in no slot of the table is taken for the root.\<close>

definition tree_directory :: "u8 list \<Rightarrow> 'a filesystem_scheme \<Rightarrow> nat option \<times> 'a filesystem_scheme" where
  "tree_directory path st =
     (if is_root_path path then (Some 0, st)
      else let (found, st) = fs_find path st
           in if found < 0 \<or> etype (entries st ! nat found) \<noteq> FS_TYPE_DIRECTORY then (None, st)
              else let e = entries st ! nat found
                   in (Some (case find_directory (ename e) (eparent e) st of Some d \<Rightarrow> d | None \<Rightarrow> 0), st))"

fun tree_level :: "(nat \<Rightarrow> nat \<Rightarrow> u8 list) \<Rightarrow> nat \<Rightarrow> nat \<Rightarrow> u8 list \<Rightarrow> u32 \<Rightarrow> u8 list \<times> 'a filesystem_scheme \<Rightarrow> u8 list \<times> 'a filesystem_scheme" where
  "tree_level local_bytes 0 depth path buffer_size (out, st) = (out, st)"
| "tree_level local_bytes (Suc levels) depth path buffer_size (out, st) =
     (let (dir_idx, st) = tree_directory path st
      in case dir_idx of
           None \<Rightarrow> (out, st)
         | Some dir_idx \<Rightarrow>
             let offset = of_nat (length out);
                 out = tree_indent depth buffer_size offset out;
                 out = (if depth = 0 \<and> offset < buffer_size - 10 then out @ [47, 10] else out)
             in fold (\<lambda>file_idx (out, st).
                  let out = tree_indent (depth + 1) buffer_size (of_nat (length out)) out;
                      offset = of_nat (length out); e = entries st ! file_idx; len = of_nat (length (ename e))
                  in if etype e = FS_TYPE_DIRECTORY then
                       if offset < buffer_size - len - 5
                       then tree_level local_bytes levels (depth + 1) (snd (snprintf_array (local_bytes depth file_idx))) buffer_size
                              (out @ ename e @ [47, 10], st)
                       else (out, st)
                     else if offset < buffer_size - len - 3 then (out @ ename e @ [10], st)
                     else (out, st)) (dfiles (directories st ! dir_idx)) (out, st))"

definition fs_tree :: "(nat \<Rightarrow> nat \<Rightarrow> u8 list) \<Rightarrow> u8 list \<Rightarrow> u8 list \<Rightarrow> u32 \<Rightarrow> nat \<Rightarrow> 'a filesystem_scheme \<Rightarrow> u8 list \<times> 'a filesystem_scheme" where
  "fs_tree local_bytes path out buffer_size depth st =
     (if \<not> fs_initialized st \<or> 10 < depth then (out, st)
      else tree_level local_bytes (11 - depth) depth path buffer_size (out, st))"

section \<open>The text fits\<close>

lemma length_u32: "length xs < unat (sz :: u32) \<Longrightarrow> unat (of_nat (length xs) :: u32) = length xs"
  by (rule unat_of_nat_u32) (rule less_trans [OF _ unat_u32_bound])

lemma tree_indent_fits:
  "offset = of_nat (length out) \<Longrightarrow> 16 \<le> unat (sz :: u32) \<Longrightarrow> length out < unat sz \<Longrightarrow> length (tree_indent k sz offset out) < unat sz"
proof (induction k arbitrary: offset out)
  case (Suc k)
  have z: "unat (sz - 3) = unat sz - 3" using Suc.prems(2) by (simp add: unat_sub word_le_nat_alt)
  have o: "unat offset = length out" using length_u32 [OF Suc.prems(3)] by (simp add: Suc.prems(1))
  have "offset + 2 = of_nat (length (out @ [32, 32]))" by (simp add: Suc.prems(1))
  then show ?case
    using Suc.IH [of "offset + 2" "out @ [32, 32]"] Suc.IH [OF Suc.prems] Suc.prems(2) z o by (auto simp: word_less_nat_alt)
qed simp

lemma tree_room:
  assumes "len < 32" and "k \<le> 16" and "64 \<le> unat (sz :: u32)" and "length out < unat sz" and "of_nat (length out) < sz - of_nat len - k"
  shows "length out + len + unat k < unat sz"
proof -
  have l: "unat (of_nat len :: u32) = len" using assms(1) by (intro unat_of_nat_u32) simp
  have k: "unat k \<le> 16" using assms(2) by (simp add: word_le_nat_alt)
  have a: "unat (sz - of_nat len) = unat sz - len" using assms(1,3) l by (simp add: unat_sub word_le_nat_alt)
  have "unat (sz - of_nat len - k) = unat sz - len - unat k"
    using a k assms(1,3) by (subst unat_sub) (simp_all add: word_le_nat_alt)
  moreover have "unat (of_nat (length out) :: u32) < unat (sz - of_nat len - k)" using assms(5) by (simp add: word_less_nat_alt)
  ultimately show ?thesis using length_u32 [OF assms(4)] by linarith
qed

lemma tree_directory_cases:
  assumes "fs_wf st" and "tree_directory path st = (d, st')"
  shows "fs_wf st'" and "st' = st \<or> st' = parsed st" and "d = Some i \<Longrightarrow> i < dir_count st'"
proof -
  have eq: "tree_directory path st = (if is_root_path path then (Some 0, st) else
    (case lookup path st of None \<Rightarrow> None
     | Some i \<Rightarrow> if etype (entry_at i st) \<noteq> FS_TYPE_DIRECTORY then None
         else Some (case find_directory (ename (entry_at i st)) (eparent (entry_at i st)) st of Some d \<Rightarrow> d | None \<Rightarrow> 0), parsed st))"
    by (cases "lookup path st") (simp_all add: tree_directory_def fs_find_eq entry_at_def find_directory_parsed Let_def)
  then show s: "st' = st \<or> st' = parsed st" using assms(2) by (simp split: if_splits)
  then show wf: "fs_wf st'" using assms(1) by auto
  have c: "0 < dir_count st" "dir_count st' = dir_count st" using fs_wfD(3) [OF assms(1)] s by auto
  then have slot: "(case find_directory n p st of Some d \<Rightarrow> d | None \<Rightarrow> 0) < dir_count st" for n p
    using find_directory_Some [of n p st] by (cases "find_directory n p st") simp_all
  show "i < dir_count st'" if dir: "d = Some i"
  proof (cases "is_root_path path")
    case True
    then have "tree_directory path st = (Some 0, st)" unfolding eq by simp
    then have "d = Some 0" using assms(2) by simp
    then show ?thesis using dir c by simp
  next
    case False
    then obtain j where "lookup path st = Some j" "i = (case find_directory (ename (entry_at j st)) (eparent (entry_at j st)) st of Some d \<Rightarrow> d | None \<Rightarrow> 0)"
      using dir assms(2) by (cases "lookup path st") (simp_all add: eq split: if_split_asm)
    then show ?thesis using slot c(2) by simp
  qed
qed

lemma tree_level_fits:
  assumes "64 \<le> unat sz"
  shows "fs_wf st \<Longrightarrow> length out < unat sz \<Longrightarrow> tree_level lb levels depth path sz (out, st) = (out', st') \<Longrightarrow>
    length out' < unat sz \<and> (st' = st \<or> st' = parsed st)"
proof (induction levels arbitrary: depth path out st out' st')
  case (Suc levels)
  obtain d st1 where d: "tree_directory path st = (d, st1)" by (cases "tree_directory path st")
  note dir = tree_directory_cases [OF Suc.prems(1) d]
  define step where "step = (\<lambda>file_idx (out, st).
    let out = tree_indent (depth + 1) sz (of_nat (length out)) out;
        offset = of_nat (length out); e = entries st ! file_idx; len = of_nat (length (ename e))
    in if etype e = FS_TYPE_DIRECTORY then
         if offset < sz - len - 5
         then tree_level lb levels (depth + 1) (snd (snprintf_array (lb depth file_idx))) sz (out @ ename e @ [47, 10], st)
         else (out, st)
       else if offset < sz - len - 3 then (out @ ename e @ [10], st) else (out, st :: 'a filesystem_scheme))"
  define ok where "ok = (\<lambda>(out :: u8 list, s). length out < unat sz \<and> (s = st1 \<or> s = parsed st1))"
  have step: "ok (step i x)" if "ok x" and i: "length (ename (entry_at i st1)) < 32" for i x
  proof -
    obtain o1 s where x: "x = (o1, s)" by (cases x)
    define o2 where "o2 = tree_indent (depth + 1) sz (of_nat (length o1)) o1"
    have s: "s = st1 \<or> s = parsed st1" "length o1 < unat sz" using that(1) by (auto simp: ok_def x)
    have wf: "fs_wf s" and e: "entries s ! i = entry_at i st1" using s(1) dir(1) by (auto simp: entry_at_def)
    have o2: "length o2 < unat sz" unfolding o2_def by (rule tree_indent_fits) (use assms s(2) in simp_all)
    let ?len = "length (ename (entry_at i st1))"
    have five: "length o2 + ?len + 5 < unat sz" if "of_nat (length o2) < sz - of_nat ?len - 5"
      using tree_room [OF i _ assms o2 that] by simp
    have three: "length o2 + ?len + 3 < unat sz" if "of_nat (length o2) < sz - of_nat ?len - 3"
      using tree_room [OF i _ assms o2 that] by simp
    have rec: "ok (tree_level lb levels (depth + 1) p sz (o2 @ ename (entry_at i st1) @ [47, 10], s))"
      if "of_nat (length o2) < sz - of_nat ?len - 5" for p
    proof -
      obtain o3 s3 where r: "tree_level lb levels (depth + 1) p sz (o2 @ ename (entry_at i st1) @ [47, 10], s) = (o3, s3)"
        by (cases "tree_level lb levels (depth + 1) p sz (o2 @ ename (entry_at i st1) @ [47, 10], s)")
      have "length o3 < unat sz \<and> (s3 = s \<or> s3 = parsed s)" by (rule Suc.IH [OF wf _ r]) (use five [OF that] in simp)
      then show ?thesis unfolding r ok_def prod.case using s(1) by auto
    qed
    have "step i x = (if etype (entry_at i st1) = FS_TYPE_DIRECTORY then
        if of_nat (length o2) < sz - of_nat ?len - 5
        then tree_level lb levels (depth + 1) (snd (snprintf_array (lb depth i))) sz (o2 @ ename (entry_at i st1) @ [47, 10], s) else (o2, s)
        else if of_nat (length o2) < sz - of_nat ?len - 3 then (o2 @ ename (entry_at i st1) @ [10], s) else (o2, s))"
      by (simp only: step_def x prod.case Let_def e o2_def)
    then show ?thesis using rec three o2 s(1) by (auto simp: ok_def)
  qed
  have fold: "ok (fold step is x)" if "ok x" "\<forall>i \<in> set is. length (ename (entry_at i st1)) < 32" for "is" x
    using that
  proof (induction "is" arbitrary: x)
    case (Cons j js)
    then show ?case using step [of x j] by simp
  qed simp
  show ?case
  proof (cases d)
    case None
    then show ?thesis using Suc.prems(2,3) dir(2) by (auto simp: d)
  next
    case (Some i)
    define o1 where "o1 = tree_indent depth sz (of_nat (length out)) out"
    define o2 where "o2 = (if depth = 0 \<and> (of_nat (length out) :: u32) < sz - 10 then o1 @ [47, 10] else o1)"
    have o1: "length o1 < unat sz" unfolding o1_def by (rule tree_indent_fits) (use assms Suc.prems(2) in simp_all)
    have "length o2 < unat sz"
    proof (cases "depth = 0 \<and> (of_nat (length out) :: u32) < sz - 10")
      case True
      then show ?thesis using tree_room [of 0 10 sz out] assms Suc.prems(2) by (simp add: o2_def o1_def)
    qed (use o1 in \<open>simp only: o2_def if_False\<close>)
    then have ok2: "ok (o2, st1)" by (simp add: ok_def)
    have names: "\<forall>j \<in> set (dfiles (directories st1 ! i)). length (ename (entry_at j st1)) < 32"
      using fs_wfD(7) [OF dir(1) dir(3) [OF Some]] by (simp add: listing_ok_def slot_def)
    have "tree_level lb (Suc levels) depth path sz (out, st) = fold step (dfiles (directories st1 ! i)) (o2, st1)"
      unfolding tree_level.simps(2) d Some step_def o2_def o1_def Let_def prod.case option.case ..
    then show ?thesis using fold [OF ok2 names] Suc.prems(3) dir(2) by (auto simp: ok_def)
  qed
qed simp

text \<open>The tree always returns, and its text fits: called with a text that is shorter than the buffer of at
  least 64 bytes, it leaves one that is, whatever the paths of the subdirectories have become, and it
  changes nothing of the file system but the state of the path parser.\<close>

theorem fs_tree_fits:
  assumes "fs_wf st" and "64 \<le> unat buffer_size" and "length out < unat buffer_size"
  shows "length (fst (fs_tree local_bytes path out buffer_size depth st)) < unat buffer_size \<and>
    (snd (fs_tree local_bytes path out buffer_size depth st) = st \<or>
     snd (fs_tree local_bytes path out buffer_size depth st) = st\<lparr>last_token := None\<rparr>)"
proof -
  obtain out' st' where t: "tree_level local_bytes (11 - depth) depth path buffer_size (out, st) = (out', st')"
    by (cases "tree_level local_bytes (11 - depth) depth path buffer_size (out, st)")
  show ?thesis using tree_level_fits [OF assms(2,1,3) t] assms(3) by (simp add: fs_tree_def t)
qed

lemma fs_tree_fits_witness:
  "length (fst (fs_tree (\<lambda>_ _. []) [47] [] 2048 0 ex_written)) < 2048"
proof -
  have "fs_wf ex_written" using fs_reach_inv [OF reach_written] by (simp add: fs_inv_def)
  then show ?thesis using fs_tree_fits [of ex_written 2048 "[]" "\<lambda>_ _. []" "[47]" 0] by simp
qed

end
