(* ===== verification/Shell.thy ===== *)
theory Shell
  imports Terminal Syscall FsTree
begin

text \<open>
  The shell (second part of \<open>kernel/kernel.c\<close>): the line editor, the commands, the history and the prompt,
  over the text screen, the file system, the kernel heap and the system calls. The screen is part of the
  one memory: \<open>on_screen_do\<close> hands it to the terminal and takes it back. The command line is a C string
  in the array at \<open>current_command\<close>, whose address the linker gives; commands get it as the list of its
  bytes, and the address where they pass a part of it on. Not the program's, and so in the parameter
  \<open>locals\<close>, are the addresses of local arrays and of a string constant, what is in uninitialised ones,
  the processor, and the registers at a system call. What the commands only log on the serial port is
  left out, except for the command whose purpose it is.
\<close>

record shell =
  sys :: system
  screen :: terminal
  current_command :: u32
  command_length :: int
  command_history :: "u8 list list"
  history_count :: nat
  history_position :: int

record locals =
  machine :: cpu
  saved_registers :: registers
  read_buffer :: u32
  hello_message :: u32
  cwd_buffer :: u32
  tree_bytes :: "nat \<Rightarrow> nat \<Rightarrow> u8 list"

definition MAX_COMMAND_LENGTH :: int where "MAX_COMMAND_LENGTH = 72"
definition COMMAND_HISTORY_SIZE :: nat where "COMMAND_HISTORY_SIZE = 10"

section \<open>The parts\<close>

definition get_screen :: "shell \<Rightarrow> terminal" where
  "get_screen st = (screen st)\<lparr>screen_memory := memory (sys st)\<rparr>"

definition put_screen :: "terminal \<Rightarrow> shell \<Rightarrow> shell" where
  "put_screen t st = st\<lparr>screen := t, sys := (sys st)\<lparr>memory := screen_memory t\<rparr>\<rparr>"

definition on_screen_do :: "(terminal \<Rightarrow> terminal) \<Rightarrow> shell \<Rightarrow> shell" where
  "on_screen_do f st = put_screen (f (get_screen st)) st"

definition with_fs :: "(filesystem \<Rightarrow> (int \<times> filesystem) option) \<Rightarrow> shell \<Rightarrow> (int \<times> shell) option" where
  "with_fs f st = map_option (\<lambda>(r, g). (r, st\<lparr>sys := put_fs g (sys st)\<rparr>)) (f (get_fs (sys st)))"

definition poke :: "u32 \<Rightarrow> u8 \<Rightarrow> shell \<Rightarrow> shell" where
  "poke a v st = st\<lparr>sys := (sys st)\<lparr>memory := (memory (sys st))(a := v)\<rparr>\<rparr>"

abbreviation current_dir :: "shell \<Rightarrow> u8 list" where
  "current_dir st \<equiv> fs_get_current_dir (sys_fs (sys st))"

text \<open>Moving the software cursor, and printing there without moving it.\<close>

definition next_row :: "shell \<Rightarrow> shell" where
  "next_row st = st\<lparr>screen := (screen st)\<lparr>cursor_row := cursor_row (screen st) + 1\<rparr>\<rparr>"

definition to_col :: "int \<Rightarrow> shell \<Rightarrow> shell" where
  "to_col c st = st\<lparr>screen := (screen st)\<lparr>cursor_col := c\<rparr>\<rparr>"

definition say_at :: "int \<Rightarrow> u8 list \<Rightarrow> shell \<Rightarrow> shell" where
  "say_at col str st = on_screen_do (k_print_string str WHITE_ON_BLACK (cursor_row (screen st)) col) st"

definition say_bytes :: "u8 list \<Rightarrow> shell \<Rightarrow> shell" where
  "say_bytes str st = say_at (cursor_col (screen st)) str st"

definition say :: "string \<Rightarrow> shell \<Rightarrow> shell" where
  "say str = say_bytes (bytes_of str)"

definition fresh_line :: "shell \<Rightarrow> shell" where
  "fresh_line st = to_col 0 (next_row st)"

definition report :: "string \<Rightarrow> string \<Rightarrow> int \<times> shell \<Rightarrow> shell" where
  "report good bad = (\<lambda>(result, st). if result = 0 then say good st else say bad st)"

section \<open>Arguments\<close>

definition skip_spaces :: "u8 list \<Rightarrow> u8 list" where
  "skip_spaces s = dropWhile (\<lambda>c. c = 32) s"

text \<open>A word of at most 255 bytes, and the rest.\<close>

definition take_word :: "u8 list \<Rightarrow> u8 list \<times> u8 list" where
  "take_word s = (let w = take (FS_MAX_PATH_LEN - 1) (takeWhile (\<lambda>c. c \<noteq> 32) s) in (w, drop (length w) s))"

text \<open>The current directory is a string of less than 256 bytes.\<close>

definition full_path :: "u8 list \<Rightarrow> u8 list \<Rightarrow> u8 list" where
  "full_path dir path =
     (if take 1 path = [47] then take (FS_MAX_PATH_LEN - 1) path
      else if dir = [47] then take (FS_MAX_PATH_LEN - 1) (47 # path)
      else let full = take (FS_MAX_PATH_LEN - 1) dir; len = length full
           in if len < FS_MAX_PATH_LEN - 1 then take (FS_MAX_PATH_LEN - 1) (full @ [47] @ path) else full)"

section \<open>The commands\<close>

definition help_lines :: "string list" where
  "help_lines =
     [''help     - Show this help'', ''clear    - Clear the screen'', ''version  - Show OS version'',
      ''echo     - Echo text to screen'', ''debug    - Send test message to serial debug port'',
      ''pwd      - Show current directory'', ''cd       - Change directory'', ''ls       - List files in directory'',
      ''mkdir    - Create a directory'', ''touch    - Create an empty file'', ''cat      - Display file contents'',
      ''cp       - Copy file'', ''mv       - Move/rename file'', ''rm       - Remove file or directory'',
      ''write    - Write content to a file'', ''find     - Find files by name pattern'',
      ''tree     - Show directory tree structure'', ''stat     - Show file information'',
      ''fsinfo   - Display filesystem information'', ''meminfo  - Display memory information'',
      ''diskinfo - Display disk information'', ''timer    - Display timer statistics'',
      ''ps       - Show process information'', ''test     - Run system tests'',
      ''syscalls - Test system call interface'', ''syscall-stats - Show system call statistics'']"

definition cmd_help :: "shell \<Rightarrow> shell" where
  "cmd_help st = fold (\<lambda>line st. say line (to_col 2 (next_row st))) help_lines (say ''Available commands:'' (fresh_line st))"

definition cmd_clear :: "shell \<Rightarrow> shell" where
  "cmd_clear st = (let st = on_screen_do clear_screen st in st\<lparr>screen := (screen st)\<lparr>cursor_row := - 2, cursor_col := 0\<rparr>\<rparr>)"

definition cmd_version :: "shell \<Rightarrow> shell" where
  "cmd_version st =
     (let st = say ''aceOS Enhanced v2.0'' (fresh_line st);
          st = say ''Features: Virtual Memory, Multitasking, Disk I/O'' (next_row st)
      in say ''Advanced Heap Manager, Timer System'' (next_row st))"

definition cmd_echo :: "u8 list \<Rightarrow> shell \<Rightarrow> shell" where
  "cmd_echo command st = say_bytes (drop 5 command) (fresh_line st)"

text \<open>The messages of \<open>debug\<close>, in order: with a line end, without, or a number.\<close>

fun debug_lines :: "u8 list list \<Rightarrow> serial \<Rightarrow> serial option" where
  "debug_lines [] s = Some s"
| "debug_lines (m # ms) s = Option.bind (debug_println m s) (debug_lines ms)"

definition cmd_debug :: "shell \<Rightarrow> shell option" where
  "cmd_debug st =
     (let st = say ''Sending debug information to serial port...'' (fresh_line st)
      in map_option (\<lambda>s. st\<lparr>sys := (sys st)\<lparr>sys_serial := s\<rparr>\<rparr>)
       (Option.bind (debug_println (bytes_of ''===== DEBUG INFO ====='') (sys_serial (sys st))) (\<lambda>s.
        Option.bind (debug_print (bytes_of ''OS Version: '') s) (\<lambda>s.
        Option.bind (debug_println (bytes_of ''aceOS v0.1'') s) (\<lambda>s.
        Option.bind (debug_print (bytes_of ''Memory at 0x10000: Kernel loaded ('') s) (\<lambda>s.
        Option.bind (serial_write_dec 60 s)
          (debug_lines (map bytes_of ['' sectors)'', ''Stack pointer is in kernel space'', ''Memory Map:'',
            ''0x00000000 - 0x000003FF: Real Mode IVT'', ''0x00000400 - 0x000004FF: BIOS Data Area'',
            ''0x00007C00 - 0x00007DFF: Our Bootloader'', ''0x00010000 - 0x0001FFFF: Our Kernel'',
            ''====================='']))))))))"

definition cmd_ls :: "u8 list \<Rightarrow> shell \<Rightarrow> shell" where
  "cmd_ls command st =
     (let st = fresh_line st;
          path = (if 3 < length command
                  then let path = skip_spaces (drop 3 command) in if path = [] then current_dir st else path
                  else current_dir st);
          (result, out, f) = fs_list_dir path 1024 (get_fs (sys st));
          st = st\<lparr>sys := put_fs f (sys st)\<rparr>
      in if result \<ge> 0
         then let st = say_bytes out st in if result = 0 then say ''(directory is empty)'' st else st
         else say ''Error: Could not list directory'' st)"

definition cmd_mkdir :: "u8 list \<Rightarrow> shell \<Rightarrow> shell option" where
  "cmd_mkdir command st =
     map_option (report ''Directory created successfully'' ''Error: Could not create directory'')
       (with_fs (fs_mkdir (drop 6 command)) (fresh_line st))"

definition cmd_touch :: "u8 list \<Rightarrow> shell \<Rightarrow> shell option" where
  "cmd_touch command st =
     (let st = fresh_line st; path = full_path (current_dir st) (drop 6 command)
      in map_option (report ''File created successfully'' ''Error: Could not create file'') (with_fs (fs_create path 0) st))"

definition cmd_cat :: "locals \<Rightarrow> u8 list \<Rightarrow> shell \<Rightarrow> shell" where
  "cmd_cat lc command st =
     (let st = fresh_line st; path = full_path (current_dir st) (drop 4 command);
          (bytes_read, f) = fs_read path (read_buffer lc) 1023 (get_fs (sys st));
          st = st\<lparr>sys := put_fs f (sys st)\<rparr>
      in if bytes_read \<ge> 0
         then let st = poke (read_buffer lc + word_of_int bytes_read) 0 st;
                  out = map (\<lambda>i. memory (sys st) (read_buffer lc + of_nat i)) [0..<nat bytes_read];
                  st = next_row (say ''File content:'' st)
              in if bytes_read > 0 then say_bytes out st else say ''(empty file)'' st
         else say ''Error: Could not read file'' st)"

definition cmd_rm :: "u8 list \<Rightarrow> shell \<Rightarrow> shell option" where
  "cmd_rm command st =
     map_option (report ''File or directory deleted successfully'' ''Error: Could not delete file or directory'')
       (with_fs (fs_delete (drop 3 command)) (fresh_line st))"

text \<open>The contents are written from the command line itself.\<close>

definition cmd_write :: "u8 list \<Rightarrow> shell \<Rightarrow> shell option" where
  "cmd_write command st =
     (let st = fresh_line st; (filepath, rest) = take_word (skip_spaces (drop 6 command)); content = skip_spaces rest;
          content_start = current_command st + of_nat (length command - length content)
      in if 0 < length filepath \<and> content \<noteq> []
         then map_option (report ''File written successfully'' ''Error: Could not write to file'')
                (with_fs (fs_write (full_path (current_dir st) filepath) content_start (of_nat (length content))) st)
         else Some (say ''Usage: write filepath content'' st))"

definition cmd_pwd :: "shell \<Rightarrow> shell" where
  "cmd_pwd st =
     (let st = fresh_line st; dir = current_dir st; st = to_col 19 (say ''Current directory: '' st) in say_bytes dir st)"

definition cmd_cd :: "u8 list \<Rightarrow> shell \<Rightarrow> shell option" where
  "cmd_cd command st =
     map_option (report ''Directory changed successfully'' ''Error: Could not change directory'')
       (with_fs (fs_change_dir (drop 3 command)) (fresh_line st))"

definition two_paths :: "u8 list \<Rightarrow> u8 list \<times> u8 list" where
  "two_paths command = (let (src, rest) = take_word (skip_spaces (drop 3 command)) in (src, skip_spaces rest))"

definition cmd_cp :: "u8 list \<Rightarrow> shell \<Rightarrow> shell option" where
  "cmd_cp command st =
     (let st = fresh_line st; (src, dest) = two_paths command
      in if 0 < length src \<and> 0 < length dest
         then map_option (report ''File copied successfully'' ''Error: Could not copy file'') (with_fs (fs_copy src dest) st)
         else Some (say ''Usage: cp <source> <destination>'' st))"

definition cmd_mv :: "u8 list \<Rightarrow> shell \<Rightarrow> shell option" where
  "cmd_mv command st =
     (let st = fresh_line st; (src, dest) = two_paths command
      in if 0 < length src \<and> 0 < length dest
         then map_option (report ''File moved successfully'' ''Error: Could not move file'') (with_fs (fs_move src dest) st)
         else Some (say ''Usage: mv <source> <destination>'' st))"

definition cmd_find :: "u8 list \<Rightarrow> shell \<Rightarrow> shell" where
  "cmd_find command st =
     (let st = fresh_line st; (found, results) = fs_find_by_name (drop 5 command) 1024 (sys_fs (sys st))
      in if found \<ge> 0 then say_bytes results (next_row (say ''Search results:'' st))
         else say ''Error: Search failed'' st)"

definition cmd_tree :: "locals \<Rightarrow> u8 list \<Rightarrow> shell \<Rightarrow> shell" where
  "cmd_tree lc command st =
     (let st = fresh_line st; path = (if 5 < length command then drop 5 command else [47]);
          (out, f) = fs_tree (tree_bytes lc) path [] 2048 0 (get_fs (sys st));
          st = st\<lparr>sys := put_fs f (sys st)\<rparr>
      in say_bytes out (next_row (say ''Directory tree:'' st)))"

definition cmd_stat :: "locals \<Rightarrow> u8 list \<Rightarrow> shell \<Rightarrow> shell" where
  "cmd_stat lc command st =
     (let st = fresh_line st; (result, info, f) = fs_stat (drop 5 command) (uninitialised (machine lc)) (get_fs (sys st));
          st = st\<lparr>sys := put_fs f (sys st)\<rparr>
      in if result = 0
         then let st = next_row (say ''File information:'' st);
                  st = to_col 8 (say ''  Name: '' st);
                  st = to_col 0 (next_row (say_bytes (ename info) st));
                  st = to_col 8 (say ''  Type: '' st);
                  st = to_col 0 (next_row (say (if etype info = FS_TYPE_DIRECTORY then ''Directory'' else ''File'') st));
                  st = to_col 8 (say ''  Size: '' st)
              in say ''Size info sent to serial'' st
         else say ''Error: Could not get file information'' st)"

text \<open>The heap test allocates and releases; that it then validates the heap is only logged.\<close>

definition cmd_test :: "shell \<Rightarrow> shell option" where
  "cmd_test st =
     (let st = say ''Running system tests...'' (fresh_line st)
      in map_option (\<lambda>(test_ptr, h).
           let h = (if test_ptr \<noteq> 0 then heap_free test_ptr h else h); st = st\<lparr>sys := put_heap h (sys st)\<rparr>
           in say ''System tests completed - check serial output'' (next_row st)) (heap_malloc 1024 (get_heap (sys st))))"

definition cmd_syscalls :: "locals \<Rightarrow> shell \<Rightarrow> shell option" where
  "cmd_syscalls lc st =
     (let st = say ''Testing system calls...'' (fresh_line st)
      in map_option (\<lambda>s. say ''System call tests completed - check serial output'' (next_row (st\<lparr>sys := s\<rparr>)))
           (test_system_calls (machine lc) (saved_registers lc) (hello_message lc) (cwd_buffer lc) (sys st)))"

definition cmd_unknown :: "u8 list \<Rightarrow> shell \<Rightarrow> shell" where
  "cmd_unknown command st =
     (if command_length st > 0
      then say_bytes command (to_col 17 (say ''Unknown command: '' (fresh_line st))) else st)"

section \<open>Dispatch\<close>

abbreviation is_command :: "u8 list \<Rightarrow> string \<Rightarrow> bool" where
  "is_command command name \<equiv> command = bytes_of name"

abbreviation starts_with :: "u8 list \<Rightarrow> string \<Rightarrow> bool" where
  "starts_with command name \<equiv> take (length name) command = bytes_of name"

definition execute_command :: "locals \<Rightarrow> u8 list \<Rightarrow> shell \<Rightarrow> shell option" where
  "execute_command lc command st =
     (if is_command command ''help'' then Some (cmd_help st)
      else if is_command command ''clear'' then Some (cmd_clear st)
      else if is_command command ''version'' then Some (cmd_version st)
      else if starts_with command ''echo '' then Some (cmd_echo command st)
      else if is_command command ''debug'' then cmd_debug st
      else if is_command command ''ls'' \<or> starts_with command ''ls '' then Some (cmd_ls command st)
      else if starts_with command ''mkdir '' then cmd_mkdir command st
      else if starts_with command ''touch '' then cmd_touch command st
      else if starts_with command ''cat '' then Some (cmd_cat lc command st)
      else if starts_with command ''rm '' then cmd_rm command st
      else if starts_with command ''write '' then cmd_write command st
      else if is_command command ''fsinfo'' then Some (say ''Filesystem information printed to serial port'' (fresh_line st))
      else if is_command command ''pwd'' then Some (cmd_pwd st)
      else if starts_with command ''cd '' then cmd_cd command st
      else if is_command command ''cd'' then Some (say ''Usage: cd <directory>'' (fresh_line st))
      else if starts_with command ''cp '' then cmd_cp command st
      else if starts_with command ''mv '' then cmd_mv command st
      else if starts_with command ''find '' then Some (cmd_find command st)
      else if is_command command ''tree'' \<or> starts_with command ''tree '' then Some (cmd_tree lc command st)
      else if starts_with command ''stat '' then Some (cmd_stat lc command st)
      else if is_command command ''meminfo'' then Some (say ''Memory information printed to serial port'' (fresh_line st))
      else if is_command command ''diskinfo'' then Some (say ''Disk information printed to serial port'' (fresh_line st))
      else if is_command command ''timer'' then Some (say ''Timer statistics printed to serial port'' (fresh_line st))
      else if is_command command ''ps'' then Some (say ''Process information printed to serial port'' (fresh_line st))
      else if is_command command ''test'' then cmd_test st
      else if is_command command ''syscalls'' then cmd_syscalls lc st
      else if is_command command ''syscall-stats'' then Some (say ''System call statistics printed to serial port'' (fresh_line st))
      else Some (cmd_unknown command st))"

section \<open>The line editor\<close>

definition print_shell_prompt :: "shell \<Rightarrow> shell" where
  "print_shell_prompt st =
     (let st = next_row st;
          st = (if cursor_row (screen st) \<ge> ROWS then on_screen_do scroll_screen st else st);
          dir = current_dir st;
          st = to_col 5 (say_at 0 (bytes_of ''aceOS'') st);
          st = say_bytes dir st;
          st = to_col (cursor_col (screen st) + int (length dir)) st;
          st = say ''>'' st;
          st = to_col (cursor_col (screen st) + 1) st
      in on_screen_do update_cursor st)"

text \<open>The command line: the C string in the array.\<close>

definition command_line :: "shell \<Rightarrow> u8 list option" where
  "command_line st = map_option (\<lambda>n. map (\<lambda>i. memory (sys st) (current_command st + of_nat i)) [0..<unat n])
     (strlen (memory (sys st)) (current_command st))"

definition add_history :: "shell \<Rightarrow> shell" where
  "add_history st =
     (let n = nat (min (command_length st) (MAX_COMMAND_LENGTH - 1));
          line = map (\<lambda>i. memory (sys st) (current_command st + of_nat i)) [0..<n];
          entry = command_history st ! history_count st
      in st\<lparr>command_history := (command_history st)[history_count st := line @ [0] @ drop (n + 1) entry],
            history_count := (history_count st + 1) mod COMMAND_HISTORY_SIZE, history_position := - 1\<rparr>)"

definition process_command :: "locals \<Rightarrow> shell \<Rightarrow> shell option" where
  "process_command lc st =
     map_option (\<lambda>st. print_shell_prompt (to_col 0 (next_row st)))
       (if command_length st > 0
        then Option.bind (command_line st) (\<lambda>command. execute_command lc command (add_history st)) else Some st)"

definition clear_command_buffer :: "shell \<Rightarrow> shell" where
  "clear_command_buffer st =
     (let st = fold (\<lambda>i. poke (current_command st + word_of_int i) 0) [0..MAX_COMMAND_LENGTH - 1] st
      in st\<lparr>command_length := 0\<rparr>)"

definition terminal_putchar :: "locals \<Rightarrow> u8 \<Rightarrow> shell \<Rightarrow> shell option" where
  "terminal_putchar lc c st =
     (if c = 10
      then map_option clear_command_buffer
             (process_command lc (poke (current_command st + word_of_int (command_length st)) 0 st))
      else if c = 8
      then let prompt_length = 6 + int (length (current_dir st)) + 2
           in Some (on_screen_do update_cursor
                (if cursor_col (screen st) > prompt_length - 1
                 then let st = to_col (cursor_col (screen st) - 1) st;
                          st = on_screen_do (k_print_char 32 WHITE_ON_BLACK (cursor_row (screen st)) (cursor_col (screen st))) st;
                          st = st\<lparr>command_length := command_length st - 1\<rparr>
                      in poke (current_command st + word_of_int (command_length st)) 0 st
                 else st))
      else if c = 9 then Some (on_screen_do update_cursor st)
      else Some (on_screen_do update_cursor
        (if command_length st < MAX_COMMAND_LENGTH - 1 \<and> cursor_col (screen st) < COLUMNS - 1
         then let st = poke (current_command st + word_of_int (command_length st)) c st;
                  st = st\<lparr>command_length := command_length st + 1\<rparr>;
                  st = on_screen_do (k_print_char c WHITE_ON_BLACK (cursor_row (screen st)) (cursor_col (screen st))) st
              in to_col (cursor_col (screen st) + 1) st
         else st)))"

definition shell_handle_input :: "locals \<Rightarrow> u8 \<Rightarrow> shell \<Rightarrow> shell option" where
  "shell_handle_input lc c st = terminal_putchar lc c st"

text \<open>Where \<open>kernel_main\<close> hands over to the shell, and the characters its loop gets from the keyboard.\<close>

definition start_shell :: "shell \<Rightarrow> shell" where
  "start_shell st =
     print_shell_prompt (clear_command_buffer (st\<lparr>screen := (screen st)\<lparr>cursor_row := 16, cursor_col := 0\<rparr>\<rparr>))"

fun shell_loop :: "locals \<Rightarrow> u8 list \<Rightarrow> shell \<Rightarrow> shell option" where
  "shell_loop lc [] st = Some st"
| "shell_loop lc (c # cs) st = Option.bind (shell_handle_input lc c st) (shell_loop lc cs)"

end
