(* ===== verification/ShellInv.thy ===== *)
theory ShellInv
  imports Shell SyscallInv
begin

text \<open>
  The shell keeps the system whole: printing, editing the line and every command but \<open>syscalls\<close>, which
  passes a pointer it does not own to the kernel, keep the invariants of the kernel heap and of the file
  system, and the cursor within its bounds.
\<close>

section \<open>What the shell relies on\<close>

text \<open>An array that lies outside of both heaps.\<close>

definition apart :: "u32 \<Rightarrow> nat \<Rightarrow> system \<Rightarrow> bool" where
  "apart a k s \<longleftrightarrow> outside_heap (get_fs s) a k \<and>
     (unat a + k \<le> unat (heap_start (sys_heap s)) \<or> unat (heap_end (sys_heap s)) \<le> unat a)"

definition shell_areas :: "locals \<Rightarrow> shell \<Rightarrow> bool" where
  "shell_areas lc st \<longleftrightarrow> apart VIDEO_MEM 4000 (sys st) \<and> apart (current_command st) 72 (sys st) \<and>
     apart (read_buffer lc) 1024 (sys st) \<and>
     (unat (current_command st) + 72 \<le> 0xB8000 \<or> 0xB8FA0 \<le> unat (current_command st))"

text \<open>Two rows above the screen is where \<open>clear\<close> puts the cursor.\<close>

definition ok :: "locals \<Rightarrow> shell \<Rightarrow> bool" where
  "ok lc st \<longleftrightarrow> sys_inv (sys st) \<and> shell_areas lc st \<and> - 2 \<le> cursor_row (screen st)"

definition same_line :: "shell \<Rightarrow> shell \<Rightarrow> bool" where
  "same_line st st' \<longleftrightarrow> current_command st' = current_command st \<and> command_length st' = command_length st \<and>
     command_history st' = command_history st \<and> history_count st' = history_count st"

definition shell_step :: "locals \<Rightarrow> shell \<Rightarrow> shell \<Rightarrow> bool" where
  "shell_step lc st st' \<longleftrightarrow> (ok lc st \<longrightarrow> ok lc st' \<and> same_line st st')"

lemma shell_step_refl [simp]: "shell_step lc st st"
  by (simp add: shell_step_def same_line_def)

lemma shell_step_trans [trans]: "shell_step lc a b \<Longrightarrow> shell_step lc b c \<Longrightarrow> shell_step lc a c"
  by (auto simp: shell_step_def same_line_def)

lemma apart_cong:
  "lib_heap (sys_fs s') = lib_heap (sys_fs s) \<Longrightarrow> heap_start (sys_heap s') = heap_start (sys_heap s) \<Longrightarrow>
    heap_end (sys_heap s') = heap_end (sys_heap s) \<Longrightarrow> apart a k s' = apart a k s"
  by (simp add: apart_def outside_heap_def)

lemma apart_caller: "apart a k s \<Longrightarrow> caller_buffer a k s"
  by (auto simp: apart_def caller_buffer_def outside_heap_def)

lemma apart_bound: "apart a k s \<Longrightarrow> unat a + k \<le> 4294967296"
  by (simp add: apart_def outside_heap_def)

lemma apart_part: "apart a k s \<Longrightarrow> unat b = unat a + i \<Longrightarrow> i + n \<le> k \<Longrightarrow> apart b n s"
  by (auto simp: apart_def outside_heap_def)

text \<open>A step that changes the system's state only.\<close>

lemma shell_step_sys:
  assumes "sys_inv (sys st) \<Longrightarrow> shell_areas lc st \<Longrightarrow> sys_inv s"
    and "lib_heap (sys_fs s) = lib_heap (sys_fs (sys st))" and "heap_start (sys_heap s) = heap_start (sys_heap (sys st))"
    and "heap_end (sys_heap s) = heap_end (sys_heap (sys st))"
  shows "shell_step lc st (st\<lparr>sys := s\<rparr>)"
  using assms(1) apart_cong [OF assms(2-4)] by (simp add: shell_step_def ok_def same_line_def shell_areas_def)

section \<open>The screen and the line\<close>

lemma shell_step_next_row: "shell_step lc st (next_row st)"
  by (simp add: shell_step_def ok_def next_row_def shell_areas_def same_line_def)

lemma shell_step_to_col: "shell_step lc st (to_col c st)"
  by (simp add: shell_step_def ok_def to_col_def shell_areas_def same_line_def)

lemma sys_inv_write:
  assumes "sys_inv s" and "apart a k s" and "unchanged_outside (memory s) m (unat a) (unat a + k)"
  shows "sys_inv (s\<lparr>memory := m\<rparr>)"
  using sys_inv_buffer [OF assms(1) apart_caller [OF assms(2)] assms(3)] .

lemma shell_step_screen:
  assumes "\<And>t. unchanged_outside (screen_memory t) (screen_memory (f t)) 0xB8000 0xB8FA0"
    and "\<And>t. - 2 \<le> cursor_row t \<Longrightarrow> - 2 \<le> cursor_row (f t)"
  shows "shell_step lc st (on_screen_do f st)"
  unfolding shell_step_def
proof
  assume ok: "ok lc st"
  define m where "m = screen_memory (f (get_screen st))"
  have u: "unchanged_outside (memory (sys st)) m 0xB8000 0xB8FA0"
    using assms(1) [of "get_screen st"] by (simp add: m_def get_screen_def)
  have v: "unat VIDEO_MEM = 0xB8000" by (simp add: VIDEO_MEM_def)
  have "sys_inv ((sys st)\<lparr>memory := m\<rparr>)"
    by (rule sys_inv_write [of _ VIDEO_MEM 4000]) (use ok u v in \<open>simp_all add: ok_def shell_areas_def\<close>)
  moreover have "apart a k ((sys st)\<lparr>memory := m\<rparr>) = apart a k (sys st)" for a k by (rule apart_cong) simp_all
  ultimately show "ok lc (on_screen_do f st) \<and> same_line st (on_screen_do f st)"
    using ok assms(2) [of "get_screen st"]
    by (simp add: on_screen_do_def put_screen_def ok_def shell_areas_def same_line_def m_def [symmetric]) (simp add: get_screen_def)
qed

lemma output_only_screen:
  assumes "output_only t t'"
  shows "unchanged_outside (screen_memory t) (screen_memory t') 0xB8000 0xB8FA0"
    and "- 2 \<le> cursor_row t \<Longrightarrow> - 2 \<le> cursor_row t'"
  using assms by (auto simp: output_only_def)

lemma shell_step_output: "(\<And>t. output_only t (f t)) \<Longrightarrow> shell_step lc st (on_screen_do f st)"
  using output_only_screen by (intro shell_step_screen) blast+

lemma shell_step_say: "shell_step lc st (say_at c str st)" "shell_step lc st (say_bytes str st)" "shell_step lc st (say w st)"
  unfolding say_bytes_def say_def say_at_def by (rule shell_step_output, rule output_only_string)+

lemma shell_step_line: "shell_step lc st (fresh_line st)"
  unfolding fresh_line_def by (rule shell_step_trans [OF shell_step_next_row shell_step_to_col])

text \<open>Output behind a step is a step: the rule that takes a command apart from its last action.\<close>

lemma shell_step_then:
  "shell_step lc st s \<Longrightarrow> shell_step lc st (next_row s)" "shell_step lc st s \<Longrightarrow> shell_step lc st (to_col c s)"
  "shell_step lc st s \<Longrightarrow> shell_step lc st (say_at c str s)" "shell_step lc st s \<Longrightarrow> shell_step lc st (say_bytes str s)"
  "shell_step lc st s \<Longrightarrow> shell_step lc st (say w s)" "shell_step lc st s \<Longrightarrow> shell_step lc st (fresh_line s)"
  by (erule shell_step_trans, rule shell_step_next_row shell_step_to_col shell_step_say shell_step_line)+

lemma shell_step_poke:
  assumes "shell_areas lc st \<Longrightarrow> apart b n (sys st) \<and> unat b \<le> unat a \<and> unat a < unat b + n"
  shows "shell_step lc st (poke a v st)"
  unfolding poke_def
proof (rule shell_step_sys)
  assume inv: "sys_inv (sys st)" and areas: "shell_areas lc st"
  note b = assms [OF areas]
  have "unat a - unat b + 1 \<le> n" using b by linarith
  then have "apart a 1 (sys st)" using b by (intro apart_part [of b n "sys st" a "unat a - unat b" 1]) simp_all
  moreover have "unchanged_outside (memory (sys st)) ((memory (sys st))(a := v)) (unat a) (unat a + 1)"
    by (auto simp: unchanged_outside_def)
  ultimately show "sys_inv ((sys st)\<lparr>memory := (memory (sys st))(a := v)\<rparr>)" by (rule sys_inv_write [OF inv])
qed simp_all

section \<open>The commands\<close>

lemma shell_step_fs:
  assumes "ok lc st \<Longrightarrow> fs_inv (get_fs (sys st)) \<Longrightarrow> fs_call (get_fs (sys st)) f"
  shows "shell_step lc st (st\<lparr>sys := put_fs f (sys st)\<rparr>)"
proof (cases "ok lc st")
  case False
  then show ?thesis by (simp add: shell_step_def)
next
  case True
  then have call: "fs_call (get_fs (sys st)) f" using assms sys_inv_fs by (simp add: ok_def)
  show ?thesis
    using call sys_inv_fs_call by (intro shell_step_sys) (auto simp: put_fs_def fs_call_def get_fs_def)
qed

lemma shell_step_with_fs:
  assumes "with_fs f st = Some (r, st')"
    and "\<And>r g. ok lc st \<Longrightarrow> fs_inv (get_fs (sys st)) \<Longrightarrow> f (get_fs (sys st)) = Some (r, g) \<Longrightarrow> fs_call (get_fs (sys st)) g"
  shows "shell_step lc st st'"
proof -
  obtain g where g: "f (get_fs (sys st)) = Some (r, g)" "st' = st\<lparr>sys := put_fs g (sys st)\<rparr>"
    using assms(1) by (auto simp: with_fs_def)
  show ?thesis unfolding g(2) by (rule shell_step_fs) (rule assms(2) [OF _ _ g(1)])
qed

lemma shell_step_report:
  assumes "map_option (report good bad) (with_fs f s) = Some st'" and s: "shell_step lc st s"
    and "\<And>r g. ok lc s \<Longrightarrow> fs_inv (get_fs (sys s)) \<Longrightarrow> f (get_fs (sys s)) = Some (r, g) \<Longrightarrow> fs_call (get_fs (sys s)) g"
  shows "shell_step lc st st'"
proof -
  obtain r s' where r: "with_fs f s = Some (r, s')" "st' = report good bad (r, s')" using assms(1) by auto
  have "shell_step lc st s'" using s shell_step_with_fs [OF r(1) assms(3)] by (rule shell_step_trans)
  then show ?thesis by (simp add: r(2) report_def shell_step_then)
qed

lemma cmd_plain_steps:
  "shell_step lc st (cmd_help st)" "shell_step lc st (cmd_clear st)" "shell_step lc st (cmd_version st)"
  "shell_step lc st (cmd_echo cmd st)" "shell_step lc st (cmd_pwd st)" "shell_step lc st (cmd_find cmd st)"
  "shell_step lc st (cmd_unknown cmd st)"
proof -
  have fold: "shell_step lc st s \<Longrightarrow> shell_step lc st (fold (\<lambda>line st. say line (to_col 2 (next_row st))) ls s)" for ls s
    by (induction ls arbitrary: s) (simp_all add: shell_step_then)
  show "shell_step lc st (cmd_help st)" unfolding cmd_help_def by (intro fold shell_step_then shell_step_refl)
  have "shell_step lc st (on_screen_do clear_screen st)" by (rule shell_step_output) (rule output_only_clear)
  moreover have "shell_step lc s (s\<lparr>screen := (screen s)\<lparr>cursor_row := - 2, cursor_col := 0\<rparr>\<rparr>)" for s
    by (simp add: shell_step_def ok_def shell_areas_def same_line_def)
  ultimately show "shell_step lc st (cmd_clear st)" unfolding cmd_clear_def Let_def by (rule shell_step_trans)
  show "shell_step lc st (cmd_version st)" "shell_step lc st (cmd_echo cmd st)" "shell_step lc st (cmd_pwd st)"
    "shell_step lc st (cmd_unknown cmd st)"
    unfolding cmd_version_def cmd_echo_def cmd_pwd_def cmd_unknown_def Let_def by (simp_all add: shell_step_then)
  show "shell_step lc st (cmd_find cmd st)"
    unfolding cmd_find_def Let_def by (simp add: split_beta shell_step_then)
qed

lemma fs_call_tree:
  assumes "fs_inv f" and "fs_tree lb path [] 2048 0 f = (out, g)"
  shows "fs_call f g"
proof (rule fs_call_same [OF assms(1)])
  have "g = f \<or> g = f\<lparr>last_token := None\<rparr>"
    using tree_level_fits [of 2048 f "[]" lb 11 0 path out g] assms by (auto simp: fs_tree_def fs_inv_def split: if_splits)
  then show "g = f \<or> g = parsed f" .
qed

lemma cmd_fs_steps:
  "shell_step lc st (cmd_ls cmd st)" "shell_step lc st (cmd_tree lc cmd st)" "shell_step lc st (cmd_stat lc cmd st)"
proof -
  have fs: "shell_step lc st s \<Longrightarrow> (\<And>h. h = get_fs (sys s) \<Longrightarrow> fs_inv h \<Longrightarrow> fs_call h f) \<Longrightarrow>
      shell_step lc st (s\<lparr>sys := put_fs f (sys s)\<rparr>)" for s f
    by (rule shell_step_trans [OF _ shell_step_fs]) blast+
  have 1: "snd (snd (fs_list_dir p n f)) = g \<Longrightarrow> fs_inv f \<Longrightarrow> fs_call f g" for p n f g
    using fs_call_list [of f p n] by (metis prod.collapse)
  have 2: "snd (fs_tree lb p [] 2048 0 f) = g \<Longrightarrow> fs_inv f \<Longrightarrow> fs_call f g" for lb p f g
    using fs_call_tree by (metis prod.collapse)
  have 3: "snd (snd (fs_stat p i f)) = g \<Longrightarrow> fs_inv f \<Longrightarrow> fs_call f g" for p i f g
    using fs_call_stat [of f p i] by (metis prod.collapse)
  show "shell_step lc st (cmd_ls cmd st)"
    unfolding cmd_ls_def Let_def split_beta
    by (auto intro!: shell_step_then fs 1)
  show "shell_step lc st (cmd_tree lc cmd st)"
    unfolding cmd_tree_def Let_def split_beta by (auto intro!: shell_step_then fs 2)
  show "shell_step lc st (cmd_stat lc cmd st)"
    unfolding cmd_stat_def Let_def split_beta by (auto intro!: shell_step_then fs 3)
qed

lemma cmd_path_steps:
  "cmd_mkdir cmd st = Some st' \<Longrightarrow> shell_step lc st st'" "cmd_touch cmd st = Some st' \<Longrightarrow> shell_step lc st st'"
  "cmd_rm cmd st = Some st' \<Longrightarrow> shell_step lc st st'" "cmd_cd cmd st = Some st' \<Longrightarrow> shell_step lc st st'"
proof -
  show "cmd_mkdir cmd st = Some st' \<Longrightarrow> shell_step lc st st'"
    unfolding cmd_mkdir_def by (erule shell_step_report [OF _ shell_step_line]) (rule fs_call_mkdir)
  show "cmd_touch cmd st = Some st' \<Longrightarrow> shell_step lc st st'"
    unfolding cmd_touch_def Let_def
    by (erule shell_step_report [OF _ shell_step_line]) (rule fs_call_create [where sz = 0], simp_all)
  show "cmd_rm cmd st = Some st' \<Longrightarrow> shell_step lc st st'"
    unfolding cmd_rm_def by (erule shell_step_report [OF _ shell_step_line]) (rule fs_call_delete)
  show "cmd_cd cmd st = Some st' \<Longrightarrow> shell_step lc st st'"
    unfolding cmd_cd_def by (erule shell_step_report [OF _ shell_step_line]) (rule fs_call_chdir)
qed

lemma usage_or_step:
  assumes "(if b then x else Some (say w s)) = Some st'" and "shell_step lc st s"
    and "x = Some st' \<Longrightarrow> shell_step lc st st'"
  shows "shell_step lc st st'"
  using assms(1,3) shell_step_then(5) [OF assms(2), of w] by (auto split: if_splits)

lemma cmd_two_path_steps:
  "cmd_cp cmd st = Some st' \<Longrightarrow> shell_step lc st st'" "cmd_mv cmd st = Some st' \<Longrightarrow> shell_step lc st st'"
proof -
  show "cmd_cp cmd st = Some st' \<Longrightarrow> shell_step lc st st'"
    unfolding cmd_cp_def Let_def split_beta
    by (erule usage_or_step [OF _ shell_step_line], erule shell_step_report [OF _ shell_step_line]) (rule fs_call_copy)
  show "cmd_mv cmd st = Some st' \<Longrightarrow> shell_step lc st st'"
    unfolding cmd_mv_def Let_def split_beta
    by (erule usage_or_step [OF _ shell_step_line], erule shell_step_report [OF _ shell_step_line]) (rule fs_call_move)
qed

lemma take_word_length: "length (snd (take_word s)) \<le> length s" "length (skip_spaces s) \<le> length s"
  by (simp_all add: take_word_def Let_def skip_spaces_def length_dropWhile_le)

lemma cmd_write_step:
  assumes "cmd_write cmd st = Some st'" and len: "length cmd < 72"
  shows "shell_step lc st st'"
proof -
  define s where "s = fresh_line st"
  define w where "w = take_word (skip_spaces (drop 6 cmd))"
  define content where "content = skip_spaces (snd w)"
  define a where "a = current_command s + of_nat (length cmd - length content)"
  have c: "length content \<le> length cmd"
    unfolding content_def w_def using take_word_length [of "snd (take_word (skip_spaces (drop 6 cmd)))"]
      take_word_length [of "skip_spaces (drop 6 cmd)"] take_word_length(2) [of "drop 6 cmd"] by simp
  have s: "shell_step lc st s" unfolding s_def by (rule shell_step_line)
  have sz: "unat (of_nat (length content) :: u32) = length content" using c len by (intro unat_of_nat_u32) simp
  have call: "fs_call (get_fs (sys s)) g"
    if ok: "ok lc s" and inv: "fs_inv (get_fs (sys s))" and r: "fs_write p a (of_nat (length content)) (get_fs (sys s)) = Some (r, g)" for p r g
  proof (rule fs_call_write [OF inv _ _ r])
    show "of_nat (length content) \<le> (4294967288 :: u32)" using sz c len by (simp add: word_le_nat_alt)
    have ap: "apart (current_command s) 72 (sys s)" using ok by (simp add: ok_def shell_areas_def)
    then have "unat (current_command s) + 72 \<le> 4294967296" by (simp add: apart_def outside_heap_def)
    then have "unat (current_command s) + (length cmd - length content) < 4294967296"
      using len by linarith
    then have "unat a = unat (current_command s) + (length cmd - length content)"
      unfolding a_def by (metis u32_of_nat_unat unat_of_nat_add_u32)
    then have "apart a (length content) (sys s)" by (rule apart_part [OF ap]) (use c len in simp)
    then show "outside_heap (get_fs (sys s)) a (unat (of_nat (length content) :: u32))" unfolding sz by (simp add: apart_def)
  qed
  have cases: "(if 0 < length (fst w) \<and> content \<noteq> []
      then map_option (report ''File written successfully'' ''Error: Could not write to file'')
        (with_fs (fs_write (full_path (current_dir s) (fst w)) a (of_nat (length content))) s)
      else Some (say ''Usage: write filepath content'' s)) = Some st'"
    using assms(1) by (simp only: cmd_write_def Let_def split_beta s_def w_def content_def a_def)
  show ?thesis
    by (rule usage_or_step [OF cases s]) (rule shell_step_report [OF _ s call])
qed

lemma cmd_cat_step: "shell_step lc st (cmd_cat lc cmd st)"
proof -
  define s where "s = fresh_line st"
  define rb where "rb = read_buffer lc"
  obtain r f where rd: "fs_read (full_path (current_dir s) (drop 4 cmd)) rb 1023 (get_fs (sys s)) = (r, f)"
    by (cases "fs_read (full_path (current_dir s) (drop 4 cmd)) rb 1023 (get_fs (sys s))") auto
  define t where "t = s\<lparr>sys := put_fs f (sys s)\<rparr>"
  have n: "unat (1023 :: u32) = 1023" by simp
  have lib: "lib_heap f = lib_heap (sys_fs (sys s))"
    using rd by (auto simp: fs_read_def fs_find_eq Let_def split: if_splits)
  have "shell_step lc s t"
    unfolding t_def
  proof (rule shell_step_sys)
    assume inv: "sys_inv (sys s)" and areas: "shell_areas lc s"
    have ap: "apart rb 1023 (sys s)"
      by (rule apart_part [of rb 1024 _ _ 0]) (use areas in \<open>simp_all add: shell_areas_def rb_def\<close>)
    then have o: "outside_heap (get_fs (sys s)) rb (unat (1023 :: u32))" unfolding n apart_def by blast
    note rdi = fs_read_inv [OF sys_inv_fs [OF inv] o rd]
    have "unat (heap_end (sys_heap (sys s))) \<le> unat rb \<or> unat rb + unat (1023 :: u32) \<le> unat (heap_start (sys_heap (sys s)))"
      using ap unfolding n apart_def by blast
    then show "sys_inv (put_fs f (sys s))"
      by (rule sys_inv_put_fs [OF inv rdi(1) lib rdi(4) [unfolded system_simps]])
  qed (simp_all add: put_fs_def lib)
  then have st: "shell_step lc st t" unfolding s_def by (rule shell_step_trans [OF shell_step_line])
  have r: "r \<le> 1023" using fs_read_result [OF rd] by simp
  have pk: "shell_step lc t (poke (rb + word_of_int r) 0 t)" if "0 \<le> r"
  proof (rule shell_step_poke [of lc t rb 1024])
    assume areas: "shell_areas lc t"
    have "unat rb + 1024 \<le> 4294967296" using areas by (simp add: shell_areas_def rb_def apart_def outside_heap_def)
    then have lt: "unat rb + nat r < 4294967296" using r by linarith
    have "word_of_int r = (of_nat (nat r) :: u32)" using that by simp
    then have "unat (rb + word_of_int r) = unat rb + nat r"
      using lt by (metis u32_of_nat_unat unat_of_nat_add_u32)
    then show "apart rb 1024 (sys t) \<and> unat rb \<le> unat (rb + word_of_int r) \<and> unat (rb + word_of_int r) < unat rb + 1024"
      using areas r by (simp add: shell_areas_def rb_def)
  qed
  define v where "v = poke (rb + word_of_int r) 0 t"
  have "shell_step lc st v" if "0 \<le> r" using shell_step_trans [OF st pk] that by (simp add: v_def)
  moreover have "cmd_cat lc cmd st = (if r \<ge> 0
      then let out = map (\<lambda>i. memory (sys v) (rb + of_nat i)) [0..<nat r]; st = next_row (say ''File content:'' v)
           in if r > 0 then say_bytes out st else say ''(empty file)'' st
      else say ''Error: Could not read file'' t)"
    unfolding cmd_cat_def s_def [symmetric] rb_def [symmetric] Let_def rd prod.case t_def [symmetric] v_def ..
  ultimately show ?thesis using st by (simp add: shell_step_then Let_def)
qed

lemma cmd_debug_step:
  assumes "cmd_debug st = Some st'"
  shows "shell_step lc st st'"
proof -
  define s where "s = say ''Sending debug information to serial port...'' (fresh_line st)"
  obtain r where "st' = s\<lparr>sys := (sys s)\<lparr>sys_serial := r\<rparr>\<rparr>"
    using assms unfolding cmd_debug_def s_def Let_def by blast
  moreover have "shell_step lc st s" unfolding s_def by (intro shell_step_then shell_step_refl)
  moreover have "sys_inv (x\<lparr>sys_serial := r\<rparr>) = sys_inv x" for x :: system
    by (simp add: sys_inv_def get_heap_def get_fs_def areas_def)
  then have "shell_step lc s (s\<lparr>sys := (sys s)\<lparr>sys_serial := r\<rparr>\<rparr>)" by (intro shell_step_sys) simp_all
  ultimately show ?thesis by (metis shell_step_trans)
qed

section \<open>The heap test\<close>

text \<open>The heap test needs what every allocation needs: a fit with room for another header, or none.\<close>

definition spare :: "shell \<Rightarrow> bool" where
  "spare st \<longleftrightarrow> heap_served 1024 (get_heap (sys st))"

lemma served_frame:
  assumes rep: "heap_rep h bs" and served: "heap_served k h" and k: "k \<noteq> 0" and u: "unchanged_outside (mem h) m lo hi"
    and apart: "unat (heap_end h) \<le> lo \<or> hi \<le> unat (heap_start h)"
  shows "heap_served k (h\<lparr>mem := m\<rparr>)"
proof -
  note rep' = heap_rep_frame [OF rep u apart]
  have le: "k \<le> 4294967288" using served by (simp add: heap_served_def)
  show ?thesis
    using rep served
  proof (cases rule: served_cases)
    case none
    then show ?thesis using served_no_fit [OF rep' le] k by blast
  next
    case (some xs s ys)
    then show ?thesis using served_picks [OF rep' le] by blast
  qed
qed

lemma spare_write:
  assumes ok: "ok lc st" and spare: "spare st" and ap: "apart a k (sys st)"
    and u: "unchanged_outside (memory (sys st)) m (unat a) (unat a + k)"
  shows "heap_served 1024 (get_heap ((sys st)\<lparr>memory := m\<rparr>))"
proof -
  obtain bs where "heap_rep (get_heap (sys st)) bs" using ok by (auto simp: ok_def sys_inv_def heap_live_def)
  then have "heap_served 1024 ((get_heap (sys st))\<lparr>mem := m\<rparr>)"
    by (rule served_frame [OF _ _ _ _ ]) (use spare ap u in \<open>auto simp: spare_def apart_def\<close>)
  then show ?thesis by simp
qed

lemma spare_say:
  assumes "ok lc st" and "spare st"
  shows "spare (say_at c w st)"
proof -
  define f :: "terminal \<Rightarrow> terminal" where "f = k_print_string w WHITE_ON_BLACK (cursor_row (screen st)) c"
  have o: "output_only t (f t)" for t unfolding f_def by (rule output_only_string)
  have "heap_served 1024 (get_heap ((sys st)\<lparr>memory := screen_memory (f (get_screen st))\<rparr>))"
  proof (rule spare_write [OF assms])
    show "apart VIDEO_MEM 4000 (sys st)" using assms(1) by (simp add: ok_def shell_areas_def)
    have "unat VIDEO_MEM = 0xB8000" by (simp add: VIDEO_MEM_def)
    then show "unchanged_outside (memory (sys st)) (screen_memory (f (get_screen st))) (unat VIDEO_MEM) (unat VIDEO_MEM + 4000)"
      using output_only_screen(1) [OF o [of "get_screen st"]] by (simp add: get_screen_def)
  qed
  then show ?thesis by (simp add: spare_def say_at_def on_screen_do_def put_screen_def f_def)
qed

lemma spare_fresh_line [simp]: "spare (fresh_line st) = spare st"
  by (simp add: spare_def fresh_line_def next_row_def to_col_def)

lemma put_heap_simps [simp]:
  "lib_heap (sys_fs (put_heap h s)) = lib_heap (sys_fs s)" "heap_start (sys_heap (put_heap h s)) = heap_start h"
  "heap_end (sys_heap (put_heap h s)) = heap_end h"
  by (simp_all add: put_heap_def)

lemma cmd_test_step:
  assumes "cmd_test st = Some st'" and spare: "spare st"
  shows "shell_step lc st st'"
proof (cases "ok lc st")
  case False
  then show ?thesis by (simp add: shell_step_def)
next
  case True
  define s where "s = say ''Running system tests...'' (fresh_line st)"
  have step: "shell_step lc st s" unfolding s_def by (intro shell_step_then shell_step_refl)
  then have ok: "ok lc s" using True by (simp add: shell_step_def)
  have "ok lc (fresh_line st)" using shell_step_line True unfolding shell_step_def by blast
  then have served: "heap_served 1024 (get_heap (sys s))"
    using spare_say [of lc "fresh_line st"] spare by (simp add: spare_def [symmetric] s_def say_def say_bytes_def)
  have inv: "sys_inv (sys s)" using ok by (simp add: ok_def)
  obtain L where L: "heap_live (get_heap (sys s)) L" by (rule sys_invE [OF inv])
  obtain p h where p: "heap_malloc 1024 (get_heap (sys s)) = Some (p, h)" "\<exists>L'. heap_live h L'"
    "p = 0 \<and> h = get_heap (sys s) \<or> p \<noteq> 0 \<and> (\<exists>n \<ge> unat (1024 :: u32). L p = None \<and> heap_live h (L(p \<mapsto> n)))"
    "heap_start h = heap_start (sys_heap (sys s))" "heap_end h = heap_end (sys_heap (sys s))"
    "unchanged_outside (memory (sys s)) (mem h) (unat (heap_start (sys_heap (sys s)))) (unat (heap_end (sys_heap (sys s))) + 20)"
    by (rule heap_malloc_area [OF L served, unfolded system_simps])
  define g where "g = (if p \<noteq> 0 then heap_free p h else h)"
  have g: "(\<exists>L'. heap_live g L') \<and> heap_start g = heap_start h \<and> heap_end g = heap_end h \<and>
      unchanged_outside (mem h) (mem g) (unat (heap_start h)) (unat (heap_end h) + 20)"
  proof (cases "p = 0")
    case True
    then show ?thesis using p(2) by (simp add: g_def unchanged_outside_def)
  next
    case False
    then obtain n where "heap_live h (L(p \<mapsto> n))" using p(3) by blast
    then show ?thesis using heap_free_area [of h "L(p \<mapsto> n)" p n] False by (auto simp: g_def)
  qed
  then obtain L' where L': "heap_live g L'" by blast
  have "sys_inv (put_heap g (sys s))"
    using g p(4-6) by (intro sys_inv_put_heap [OF inv L']) (auto simp: unchanged_outside_def)
  then have "shell_step lc s (s\<lparr>sys := put_heap g (sys s)\<rparr>)" using g p(4,5) by (intro shell_step_sys) simp_all
  then have "shell_step lc st (s\<lparr>sys := put_heap g (sys s)\<rparr>)" by (rule shell_step_trans [OF step])
  moreover have "st' = say ''System tests completed - check serial output'' (next_row (s\<lparr>sys := put_heap g (sys s)\<rparr>))"
    using assms(1) p(1) unfolding cmd_test_def s_def [symmetric] Let_def g_def by simp
  ultimately show ?thesis by (simp add: shell_step_then)
qed

section \<open>Dispatch and prompt\<close>

lemma if_someE: "(if b then x else y) = z \<Longrightarrow> (b \<Longrightarrow> x = z \<Longrightarrow> P) \<Longrightarrow> (\<not> b \<Longrightarrow> y = z \<Longrightarrow> P) \<Longrightarrow> P"
  by (cases b) simp_all

lemma execute_command_step:
  assumes "execute_command lc cmd st = Some st'" and "length cmd < 72" and "cmd \<noteq> bytes_of ''syscalls''"
    and "cmd = bytes_of ''test'' \<Longrightarrow> spare st"
  shows "shell_step lc st st'"
proof -
  have some: "shell_step lc st s \<Longrightarrow> Some s = Some st' \<Longrightarrow> shell_step lc st st'" for s by simp
  have line: "shell_step lc st (say w (fresh_line st))" for w by (intro shell_step_then shell_step_refl)
  show ?thesis
    using assms(1) unfolding execute_command_def
    by (elim if_someE) (erule some [rotated] cmd_path_steps cmd_two_path_steps cmd_write_step [OF _ assms(2)] cmd_debug_step
        cmd_test_step [OF _ assms(4)] assms(3) [THEN notE], (rule cmd_plain_steps cmd_fs_steps cmd_cat_step line | assumption)?)+
qed

lemma update_cursor_screen:
  "unchanged_outside (screen_memory t) (screen_memory (update_cursor t)) 0xB8000 0xB8FA0"
  "- 2 \<le> cursor_row t \<Longrightarrow> - 2 \<le> cursor_row (update_cursor t)"
proof -
  define t0 where "t0 = (if cursor_row t \<ge> ROWS then scroll_screen t else t)"
  define t1 where "t1 = (if cursor_col t0 \<ge> COLUMNS
    then let t = t0\<lparr>cursor_col := 0, cursor_row := cursor_row t0 + 1\<rparr> in if cursor_row t \<ge> ROWS then scroll_screen t else t else t0)"
  have up: "update_cursor t = vga_move_cursor (cursor_row t1) (cursor_col t1) t1"
    by (simp add: update_cursor_def Let_def t0_def t1_def)
  have mv: "screen_memory (vga_move_cursor r c u) = screen_memory u" "cursor_row (vga_move_cursor r c u) = cursor_row u" for r c and u :: "'a terminal_scheme"
    by (simp_all add: vga_move_cursor_def Let_def outb_def)
  have sc: "unchanged_outside (screen_memory u) (screen_memory (scroll_screen u)) 0xB8000 0xB8FA0" "cursor_row (scroll_screen u) = 24" for u :: "'a terminal_scheme"
    by (rule output_only_screen [OF output_only_scroll], rule scroll_screen_cells [of u]) simp
  have t0: "unchanged_outside (screen_memory t) (screen_memory t0) 0xB8000 0xB8FA0" "- 2 \<le> cursor_row t \<Longrightarrow> - 2 \<le> cursor_row t0"
    using sc [of t] by (simp_all add: t0_def unchanged_outside_def)
  have t1: "unchanged_outside (screen_memory t0) (screen_memory t1) 0xB8000 0xB8FA0" "- 2 \<le> cursor_row t0 \<Longrightarrow> - 2 \<le> cursor_row t1"
    using sc [of "t0\<lparr>cursor_col := 0, cursor_row := cursor_row t0 + 1\<rparr>"] by (simp_all add: t1_def Let_def unchanged_outside_def)
  show "unchanged_outside (screen_memory t) (screen_memory (update_cursor t)) 0xB8000 0xB8FA0"
    unfolding up mv by (rule unchanged_outside_trans [OF t0(1) t1(1)])
  show "- 2 \<le> cursor_row t \<Longrightarrow> - 2 \<le> cursor_row (update_cursor t)" unfolding up mv using t0(2) t1(2) by blast
qed

lemma shell_step_update: "shell_step lc st (on_screen_do update_cursor st)"
  by (rule shell_step_screen update_cursor_screen)+

lemma shell_step_prompt: "shell_step lc st (print_shell_prompt st)"
proof -
  have scroll: "shell_step lc st s \<Longrightarrow> shell_step lc st (if b then on_screen_do scroll_screen s else s)" for s b
    using shell_step_trans shell_step_output [OF output_only_scroll] by auto
  show ?thesis
    unfolding print_shell_prompt_def Let_def
    by (intro shell_step_trans [OF _ shell_step_update] shell_step_then scroll shell_step_refl)
qed

section \<open>What a line may ask for\<close>

text \<open>The commands return and keep the system whole but for four: \<open>syscalls\<close> frees what it does not own, the
  heap test may meet a block that fits but has no room for the header of a rest, making a directory writes
  behind a full table, and \<open>debug\<close> waits for the serial line.\<close>

definition allowed :: "u8 list \<Rightarrow> shell \<Rightarrow> bool" where
  "allowed cmd st \<longleftrightarrow> cmd \<noteq> bytes_of ''syscalls'' \<and> (cmd = bytes_of ''test'' \<longrightarrow> spare st) \<and>
     (starts_with cmd ''mkdir '' \<longrightarrow> file_count (sys_fs (sys st)) < 128) \<and>
     (cmd = bytes_of ''debug'' \<longrightarrow> line_live (sys_serial (sys st)))"

lemma with_fs_returns: "f (get_fs (sys st)) \<noteq> None \<Longrightarrow> map_option g (with_fs f st) \<noteq> None"
  by (auto simp: with_fs_def)

lemma fresh_line_sys [simp]: "sys (fresh_line st) = sys st"
  by (simp add: fresh_line_def next_row_def to_col_def)

lemma say_serial [simp]: "sys_serial (sys (say w st)) = sys_serial (sys st)"
  by (simp add: say_def say_bytes_def say_at_def on_screen_do_def put_screen_def)

lemma cmd_fs_returns:
  assumes "ok lc st"
  shows "file_count (sys_fs (sys st)) < 128 \<Longrightarrow> cmd_mkdir cmd st \<noteq> None" and "cmd_touch cmd st \<noteq> None"
    and "cmd_rm cmd st \<noteq> None" and "cmd_write cmd st \<noteq> None" and "cmd_cd cmd st \<noteq> None" and "cmd_cp cmd st \<noteq> None"
    and "cmd_mv cmd st \<noteq> None"
proof -
  have fs: "fs_inv (get_fs (sys st))" using assms sys_inv_fs by (simp add: ok_def)
  have "fs_mkdir p (get_fs (sys st)) \<noteq> None" if "file_count (sys_fs (sys st)) < 128" for p
    using that fs_mkdir_returns [OF fs, of p] by (simp add: get_fs_def)
  then show "file_count (sys_fs (sys st)) < 128 \<Longrightarrow> cmd_mkdir cmd st \<noteq> None"
    unfolding cmd_mkdir_def by (intro with_fs_returns) simp
  show "cmd_touch cmd st \<noteq> None" unfolding cmd_touch_def Let_def by (rule with_fs_returns) (simp only: fresh_line_sys fs_create_returns [OF fs] not_False_eq_True)
  show "cmd_rm cmd st \<noteq> None" unfolding cmd_rm_def by (rule with_fs_returns) (simp only: fresh_line_sys fs_delete_returns [OF fs] not_False_eq_True)
  show "cmd_cd cmd st \<noteq> None" unfolding cmd_cd_def
    by (rule with_fs_returns) (simp only: fresh_line_sys fs_change_dir_returns [OF fs_inv_cwd [OF fs]] not_False_eq_True)
  have if_some: "x \<noteq> None \<Longrightarrow> (if b then x else Some y) \<noteq> None" for b x and y :: shell by simp
  show "cmd_write cmd st \<noteq> None" unfolding cmd_write_def Let_def split_beta
    by (intro if_some with_fs_returns) (simp only: fresh_line_sys fs_write_returns [OF fs] not_False_eq_True)
  show "cmd_cp cmd st \<noteq> None" unfolding cmd_cp_def Let_def split_beta
    by (intro if_some with_fs_returns) (simp only: fresh_line_sys fs_copy_returns [OF fs] not_False_eq_True)
  show "cmd_mv cmd st \<noteq> None" unfolding cmd_mv_def Let_def split_beta
    by (intro if_some with_fs_returns) (simp only: fresh_line_sys fs_move_returns [OF fs] not_False_eq_True)
qed

lemma serial_string_live:
  assumes "line_live s"
  obtains s' where "serial_write_string w s = Some s'" and "line_live s'"
  using serial_write_bytes_live [OF assms, of w] assms that
  by (cases "serial_initialized s") (auto simp: serial_write_string_def)

lemma debug_live:
  assumes "line_live s"
  shows "\<exists>s'. debug_print w s = Some s' \<and> line_live s'" and "\<exists>s'. debug_println w s = Some s' \<and> line_live s'"
    and "\<exists>s'. serial_write_dec n s = Some s' \<and> line_live s'"
proof -
  show "\<exists>s'. debug_print w s = Some s' \<and> line_live s'"
    unfolding debug_print_def by (rule serial_string_live [OF assms, of w]) blast
  obtain t where t: "serial_write_string w s = Some t" "line_live t" by (rule serial_string_live [OF assms])
  obtain u where "serial_write_string [13, 10] t = Some u" "line_live u" by (rule serial_string_live [OF t(2)])
  then show "\<exists>s'. debug_println w s = Some s' \<and> line_live s'" using t by (simp add: debug_println_def)
  show "\<exists>s'. serial_write_dec n s = Some s' \<and> line_live s'"
    by (rule serial_string_live [OF assms, of "dec_string n"]) (use assms in \<open>auto simp: serial_write_dec_def\<close>)
qed

lemma debug_lines_returns: "line_live s \<Longrightarrow> debug_lines ms s \<noteq> None"
proof (induction ms arbitrary: s)
  case (Cons m ms)
  obtain t where "debug_println m s = Some t" "line_live t" using debug_live(2) [OF Cons.prems] by blast
  then show ?case using Cons.IH [of t] by simp
qed simp

lemma cmd_debug_returns:
  assumes "line_live (sys_serial (sys st))"
  shows "cmd_debug st \<noteq> None"
proof -
  have bind: "Option.bind x f \<noteq> None" if "\<exists>t. x = Some t \<and> line_live t" "\<And>t. line_live t \<Longrightarrow> f t \<noteq> None"
    for x :: "serial option" and f :: "serial \<Rightarrow> serial option" using that by auto
  have map: "x \<noteq> None \<Longrightarrow> map_option g x \<noteq> None" for g :: "serial \<Rightarrow> shell" and x by simp
  show ?thesis
    unfolding cmd_debug_def Let_def by (intro map bind debug_live debug_lines_returns) (simp_all add: assms)
qed

lemma cmd_test_returns:
  assumes ok: "ok lc st" and spare: "spare st"
  shows "cmd_test st \<noteq> None"
proof -
  define s where "s = say ''Running system tests...'' (fresh_line st)"
  have "shell_step lc st s" unfolding s_def by (intro shell_step_then shell_step_refl)
  then have "sys_inv (sys s)" using ok by (simp add: shell_step_def ok_def)
  then obtain L where L: "heap_live (get_heap (sys s)) L" by (rule sys_invE)
  have "ok lc (fresh_line st)" using shell_step_line ok unfolding shell_step_def by blast
  then have "heap_served 1024 (get_heap (sys s))"
    using spare_say [of lc "fresh_line st"] spare by (simp add: spare_def [symmetric] s_def say_def say_bytes_def)
  then obtain p h where "heap_malloc 1024 (get_heap (sys s)) = Some (p, h)" by (rule heap_malloc_area [OF L])
  then show ?thesis unfolding cmd_test_def s_def [symmetric] Let_def by simp
qed

lemma execute_command_returns:
  assumes ok: "ok lc st" and allowed: "allowed cmd st"
  shows "execute_command lc cmd st \<noteq> None"
proof -
  have some: "Some x \<noteq> None" for x :: shell by simp
  have cond: "(b \<Longrightarrow> x \<noteq> None) \<Longrightarrow> (\<not> b \<Longrightarrow> y \<noteq> None) \<Longrightarrow> (if b then x else y) \<noteq> None" for b and x y :: "shell option" by simp
  have al: "cmd \<noteq> bytes_of ''syscalls''" "cmd = bytes_of ''test'' \<Longrightarrow> spare st"
    "starts_with cmd ''mkdir '' \<Longrightarrow> file_count (sys_fs (sys st)) < 128"
    "cmd = bytes_of ''debug'' \<Longrightarrow> line_live (sys_serial (sys st))"
    using allowed unfolding allowed_def by blast+
  show ?thesis
    unfolding execute_command_def
    by (intro cond some cmd_fs_returns [OF ok] cmd_debug_returns cmd_test_returns [OF ok]) (use al in blast)+
qed

end
