(* ===== verification/ShellProps.thy ===== *)
theory ShellProps
  imports ShellInv SyscallProps
begin

text \<open>
  The line editor keeps the shell whole: the length of the line, the cursor and the history stay within
  their arrays, whatever is typed and whatever the command does.
\<close>

section \<open>The line in its array\<close>

definition line_start :: "shell \<Rightarrow> int" where
  "line_start st = (let c = 6 + int (length (current_dir st)) in if c < 80 then c else 0)"

definition history_ok :: "shell \<Rightarrow> bool" where
  "history_ok st \<longleftrightarrow> history_count st < COMMAND_HISTORY_SIZE \<and> length (command_history st) = COMMAND_HISTORY_SIZE \<and>
     (\<forall>e \<in> set (command_history st). length e = nat MAX_COMMAND_LENGTH)"

definition shell_inv :: "locals \<Rightarrow> shell \<Rightarrow> bool" where
  "shell_inv lc st \<longleftrightarrow> ok lc st \<and> history_ok st \<and> 0 \<le> command_length st \<and> command_length st \<le> 71 \<and>
     cursor_col (screen st) = line_start st + command_length st \<and> cursor_col (screen st) \<le> 79 \<and>
     0 \<le> cursor_row (screen st) \<and> cursor_row (screen st) \<le> 24"

text \<open>What is asked of a line, when it is ended.\<close>

definition end_line :: "shell \<Rightarrow> shell" where
  "end_line st = poke (current_command st + word_of_int (command_length st)) 0 st"

definition admissible :: "u8 \<Rightarrow> shell \<Rightarrow> bool" where
  "admissible c st \<longleftrightarrow> (c = 10 \<longrightarrow> (\<forall>cmd. command_line (end_line st) = Some cmd \<longrightarrow> allowed cmd (end_line st)))"

lemma command_line_upto:
  assumes "memory (sys st) (current_command st + of_nat k) = 0" and "k < 4294967296"
  obtains cmd where "command_line st = Some cmd" and "length cmd \<le> k"
proof -
  obtain n where n: "n \<le> k" "strlen (memory (sys st)) (current_command st) = Some (of_nat n)"
    using strlen_upto [of "memory (sys st)", OF assms(1)] by blast
  then have "unat (of_nat n :: u32) = n" using assms(2) by (intro unat_of_nat_u32) linarith
  then show ?thesis using n that by (simp add: command_line_def)
qed

lemma current_cell:
  assumes "shell_areas lc st" and "0 \<le> i" and "i < 72"
  shows "unat (current_command st + word_of_int i) = unat (current_command st) + nat i"
proof -
  have "unat (current_command st) + 72 \<le> 4294967296" using assms(1) apart_bound unfolding shell_areas_def by blast
  then have "unat (current_command st) + nat i < 4294967296" using assms(2,3) by linarith
  moreover have "word_of_int i = (of_nat (nat i) :: u32)" using assms(2) by simp
  ultimately show ?thesis by (metis u32_of_nat_unat unat_of_nat_add_u32)
qed

lemma shell_step_cell:
  assumes "0 \<le> i" and "i < 72"
  shows "shell_step lc st (poke (current_command st + word_of_int i) v st)"
proof (rule shell_step_poke [of lc st "current_command st" 72])
  assume "shell_areas lc st"
  then show "apart (current_command st) 72 (sys st) \<and> unat (current_command st) \<le> unat (current_command st + word_of_int i) \<and>
      unat (current_command st + word_of_int i) < unat (current_command st) + 72"
    using current_cell [of lc st i] assms by (simp add: shell_areas_def)
qed

section \<open>Output while a line is edited\<close>

text \<open>What does not touch the line, nor the directory in the prompt.\<close>

definition beside_line :: "shell \<Rightarrow> shell \<Rightarrow> bool" where
  "beside_line st st' \<longleftrightarrow> same_line st st' \<and> current_dir st' = current_dir st \<and>
     unchanged_outside (memory (sys st)) (memory (sys st')) 0xB8000 0xB8FA0"

lemma beside_line_refl [simp]: "beside_line st st"
  by (simp add: beside_line_def same_line_def unchanged_outside_def)

lemma beside_line_trans: "beside_line a b \<Longrightarrow> beside_line b c \<Longrightarrow> beside_line a c"
  by (auto simp: beside_line_def same_line_def unchanged_outside_def)

lemma beside_line_col: "beside_line st s \<Longrightarrow> beside_line st (to_col c s)"
  "beside_line st s \<Longrightarrow> beside_line st (next_row s)"
  by (simp_all add: beside_line_def same_line_def to_col_def next_row_def)

lemma beside_line_screen:
  assumes "\<And>t. unchanged_outside (screen_memory t) (screen_memory (f t)) 0xB8000 0xB8FA0" and "beside_line st s"
  shows "beside_line st (on_screen_do f s)"
proof (rule beside_line_trans [OF assms(2)])
  have "unchanged_outside (memory (sys s)) (screen_memory (f (get_screen s))) 0xB8000 0xB8FA0"
    using assms(1) [of "get_screen s"] by (simp add: get_screen_def)
  then show "beside_line s (on_screen_do f s)" by (simp add: beside_line_def same_line_def on_screen_do_def put_screen_def)
qed

lemma beside_line_output:
  "beside_line st s \<Longrightarrow> beside_line st (say_at c w s)" "beside_line st s \<Longrightarrow> beside_line st (say_bytes w s)"
  "beside_line st s \<Longrightarrow> beside_line st (say str s)" "beside_line st s \<Longrightarrow> beside_line st (on_screen_do update_cursor s)"
  "beside_line st s \<Longrightarrow> beside_line st (on_screen_do (k_print_char ch attr row col) s)"
  "beside_line st s \<Longrightarrow> beside_line st (on_screen_do scroll_screen s)"
  unfolding say_def say_bytes_def say_at_def
  by (rule beside_line_screen, (rule output_only_screen(1) update_cursor_screen)?,
      (rule output_only_string output_only_char output_only_scroll)?, assumption?)+

lemma screen_output [simp]:
  "cursor_col (screen (on_screen_do (k_print_char ch attr row col) st)) = cursor_col (screen st)"
  "cursor_row (screen (on_screen_do (k_print_char ch attr row col) st)) = cursor_row (screen st)"
proof -
  obtain m' where "k_print_char ch attr row col (get_screen st) = (get_screen st)\<lparr>screen_memory := m'\<rparr>"
    by (rule k_print_char_cells [of ch attr row col "get_screen st"])
  then show "cursor_col (screen (on_screen_do (k_print_char ch attr row col) st)) = cursor_col (screen st)"
    "cursor_row (screen (on_screen_do (k_print_char ch attr row col) st)) = cursor_row (screen st)"
    by (simp_all add: on_screen_do_def put_screen_def get_screen_def)
qed

lemma screen_update:
  assumes "cursor_row (screen st) \<le> 24" and "cursor_col (screen st) \<le> 79"
  shows "cursor_col (screen (on_screen_do update_cursor st)) = cursor_col (screen st)"
    and "cursor_row (screen (on_screen_do update_cursor st)) = cursor_row (screen st)"
  using assms by (simp_all add: on_screen_do_def put_screen_def get_screen_def update_cursor_def vga_move_cursor_def
      outb_def ROWS_def COLUMNS_def Let_def)

section \<open>The line editor\<close>

text \<open>The line as it stands in the array, and an editor of lists. A line that starts at column \<open>start\<close> (0 when
  the prompt fills its row) takes 71 characters at most, and none in the last column; the first
  character cannot be erased, and none after a prompt that fills its row.\<close>

definition typed_line :: "shell \<Rightarrow> u8 list" where
  "typed_line st = map (\<lambda>i. memory (sys st) (current_command st + of_nat i)) [0..<nat (command_length st)]"

definition edit_line :: "int \<Rightarrow> u8 \<Rightarrow> u8 list \<Rightarrow> u8 list" where
  "edit_line start c line =
     (if c = 8 then if 0 < start \<and> 2 \<le> length line then butlast line else line
      else if c = 9 then line
      else if length line < 71 \<and> start + int (length line) < 79 then line @ [c] else line)"

lemma length_typed_line [simp]: "length (typed_line st) = nat (command_length st)"
  by (simp add: typed_line_def)

lemma line_start_cases: "line_start st = 0 \<and> 80 \<le> 6 + int (length (current_dir st)) \<or>
    line_start st = 6 + int (length (current_dir st)) \<and> line_start st < 80"
  by (simp add: line_start_def Let_def)

lemma vid_not_command:
  assumes "shell_areas lc st" and "i < 72"
  shows "unat (current_command st + of_nat i) < 0xB8000 \<or> 0xB8FA0 \<le> unat (current_command st + of_nat i)"
proof -
  have "unat (current_command st + word_of_int (int i)) = unat (current_command st) + i"
    using current_cell [OF assms(1), of "int i"] assms(2) by simp
  then have "unat (current_command st + of_nat i) = unat (current_command st) + i" by simp
  then show ?thesis using assms by (auto simp: shell_areas_def)
qed

lemma typed_beside:
  assumes "shell_areas lc st" and "beside_line st st'" and "command_length st \<le> 72"
  shows "typed_line st' = typed_line st"
proof -
  have "memory (sys st') (current_command st + of_nat i) = memory (sys st) (current_command st + of_nat i)"
    if "i < nat (command_length st)" for i
  proof -
    have "i < 72" using that assms(3) by linarith
    then show ?thesis using vid_not_command [OF assms(1), of i] assms(2) unfolding beside_line_def unchanged_outside_def by blast
  qed
  then show ?thesis using assms(2) by (simp add: typed_line_def beside_line_def same_line_def)
qed

lemma command_cells_distinct:
  assumes "shell_areas lc st" and "i < 72" and "j < 72" and "i \<noteq> j"
  shows "current_command st + of_nat i \<noteq> current_command st + of_nat j"
proof -
  have "unat (current_command st + word_of_int (int k)) = unat (current_command st) + k" if "k < 72" for k
    using current_cell [OF assms(1), of "int k"] that by simp
  then have "unat (current_command st + of_nat i) = unat (current_command st) + i"
    "unat (current_command st + of_nat j) = unat (current_command st) + j" using assms(2,3) by simp_all
  then show ?thesis using assms(4) by (metis add_left_cancel)
qed

lemma typed_poke:
  assumes "shell_areas lc st" and "nat (command_length st) \<le> j" and "j < 72"
  shows "typed_line (poke (current_command st + of_nat j) v st) = typed_line st"
proof -
  have "current_command st + of_nat i \<noteq> current_command st + of_nat j" if "i < nat (command_length st)" for i
    using command_cells_distinct [OF assms(1), of i j] that assms(2,3) by linarith
  then show ?thesis by (simp add: typed_line_def poke_def)
qed

lemma typed_snoc:
  assumes "shell_areas lc st" and "0 \<le> command_length st" and "command_length st < 72"
  shows "typed_line ((poke (current_command st + word_of_int (command_length st)) v st)\<lparr>command_length := command_length st + 1\<rparr>) =
    typed_line st @ [v]"
proof -
  define n where "n = nat (command_length st)"
  have n: "command_length st = int n" "nat (command_length st + 1) = Suc n" "n < 72" using assms(2,3) by (simp_all add: n_def)
  have "current_command st + of_nat i \<noteq> current_command st + of_nat n" if "i < n" for i
    using command_cells_distinct [OF assms(1), of i n] that n(3) by linarith
  then show ?thesis using n(1,2) by (simp add: typed_line_def poke_def)
qed

lemma typed_butlast: "typed_line (st\<lparr>command_length := command_length st - 1\<rparr>) = butlast (typed_line st)"
proof (cases "command_length st \<le> 0")
  case False
  then have "nat (command_length st) = Suc (nat (command_length st - 1))" by linarith
  then show ?thesis by (simp add: typed_line_def del: nat_diff_distrib')
qed (simp add: typed_line_def)

lemma shell_parts [simp]:
  "ok lc (st\<lparr>command_length := n\<rparr>) = ok lc st" "shell_areas lc (st\<lparr>command_length := n\<rparr>) = shell_areas lc st"
  "history_ok (st\<lparr>command_length := n\<rparr>) = history_ok st" "history_ok (poke a v st) = history_ok st"
  "screen (poke a v st) = screen st" "sys_fs (sys (poke a v st)) = sys_fs (sys st)"
  "current_command (poke a v st) = current_command st" "command_length (poke a v st) = command_length st"
  by (simp_all add: ok_def shell_areas_def history_ok_def poke_def)

lemma to_col_parts [simp]:
  "screen (to_col c st) = (screen st)\<lparr>cursor_col := c\<rparr>" "sys (to_col c st) = sys st"
  "command_length (to_col c st) = command_length st" "current_command (to_col c st) = current_command st"
  by (simp_all add: to_col_def)

lemma beside_lineD:
  assumes "beside_line st st'"
  shows "command_length st' = command_length st" and "current_command st' = current_command st"
    and "current_dir st' = current_dir st" and "line_start st' = line_start st" and "history_ok st' = history_ok st"
  using assms by (simp_all add: beside_line_def same_line_def line_start_def history_ok_def)

lemma line_start_same:
  "line_start (poke a v st) = line_start st" "line_start (st\<lparr>command_length := n\<rparr>) = line_start st" "line_start (to_col c st) = line_start st"
  by (simp_all add: line_start_def)

lemma shell_step_ok: "shell_step lc st st' \<Longrightarrow> ok lc st \<Longrightarrow> ok lc st'"
  by (simp add: shell_step_def)

definition edited :: "locals \<Rightarrow> u8 \<Rightarrow> shell \<Rightarrow> shell \<Rightarrow> bool" where
  "edited lc c st st' \<longleftrightarrow> shell_inv lc st' \<and> typed_line st' = edit_line (line_start st) c (typed_line st) \<and>
     line_start st' = line_start st \<and> current_command st' = current_command st"

lemma edit_no_change:
  assumes inv: "shell_inv lc st" and same: "edit_line (line_start st) c (typed_line st) = typed_line st"
  shows "edited lc c st (on_screen_do update_cursor st)"
proof -
  have b: "beside_line st (on_screen_do update_cursor st)" by (rule beside_line_output(4) [OF beside_line_refl])
  have "ok lc (on_screen_do update_cursor st)" using shell_step_update inv by (auto simp: shell_step_def shell_inv_def)
  then show ?thesis
    using inv same beside_lineD [OF b] typed_beside [OF _ b, of lc] screen_update [of st]
    by (simp add: edited_def shell_inv_def ok_def)
qed

lemma edit_insert:
  assumes inv: "shell_inv lc st" and room: "command_length st < 71" "cursor_col (screen st) < 79" and c: "c \<noteq> 8" "c \<noteq> 9"
  defines "s2 \<equiv> (poke (current_command st + word_of_int (command_length st)) c st)\<lparr>command_length := command_length st + 1\<rparr>"
  defines "s3 \<equiv> on_screen_do (k_print_char c WHITE_ON_BLACK (cursor_row (screen s2)) (cursor_col (screen s2))) s2"
  defines "s4 \<equiv> to_col (cursor_col (screen s3) + 1) s3"
  shows "edited lc c st (on_screen_do update_cursor s4)"
proof -
  have ok: "ok lc st" and len: "0 \<le> command_length st" using inv by (simp_all add: shell_inv_def)
  have "ok lc s2" unfolding s2_def using shell_step_cell [THEN shell_step_ok, OF _ _ ok, of "command_length st" c] len room(1) by simp
  moreover have "shell_step lc s2 (on_screen_do update_cursor s4)" unfolding s4_def s3_def
    by (intro shell_step_trans [OF _ shell_step_update] shell_step_then shell_step_output output_only_char)
  ultimately have ok5: "ok lc (on_screen_do update_cursor s4)" by (rule shell_step_ok [rotated])
  have areas: "shell_areas lc st" "shell_areas lc s2" using ok \<open>ok lc s2\<close> by (simp_all add: ok_def)
  have b: "beside_line s2 (on_screen_do update_cursor s4)" unfolding s4_def s3_def
    by (intro beside_line_output beside_line_col beside_line_refl)
  have typed2: "typed_line s2 = typed_line st @ [c]" unfolding s2_def using typed_snoc [OF areas(1) len] room(1) by simp
  have len2: "command_length s2 = command_length st + 1" "history_ok s2 = history_ok st" "line_start s2 = line_start st"
    "current_command s2 = current_command st" "screen s2 = screen st"
    by (simp_all add: s2_def line_start_same)
  have "typed_line (on_screen_do update_cursor s4) = typed_line s2" by (rule typed_beside [OF areas(2) b]) (use len2 room in simp)
  moreover have "cursor_col (screen s4) = cursor_col (screen st) + 1" "cursor_row (screen s4) = cursor_row (screen st)"
    by (simp_all add: s4_def s3_def len2)
  moreover have "edit_line (line_start st) c (typed_line st) = typed_line st @ [c]"
    using room c inv by (simp add: edit_line_def shell_inv_def)
  ultimately show ?thesis
    using inv ok5 beside_lineD [OF b] typed2 len2 screen_update [of s4] room by (simp add: edited_def shell_inv_def)
qed

lemma edit_erase:
  assumes inv: "shell_inv lc st" and room: "cursor_col (screen st) > 7 + int (length (current_dir st))"
  defines "s2 \<equiv> on_screen_do (k_print_char 32 WHITE_ON_BLACK (cursor_row (screen st)) (cursor_col (screen st) - 1)) (to_col (cursor_col (screen st) - 1) st)"
  defines "s3 \<equiv> s2\<lparr>command_length := command_length s2 - 1\<rparr>"
  defines "s4 \<equiv> poke (current_command s3 + word_of_int (command_length s3)) 0 s3"
  shows "edited lc 8 st (on_screen_do update_cursor s4)"
proof -
  have ok: "ok lc st" and pos: "cursor_col (screen st) = line_start st + command_length st" "cursor_col (screen st) \<le> 79"
    "command_length st \<le> 71" using inv by (simp_all add: shell_inv_def)
  have start: "0 < line_start st" "2 \<le> command_length st" using line_start_cases [of st] pos room by auto
  have b2: "beside_line st s2" unfolding s2_def by (intro beside_line_output beside_line_col beside_line_refl)
  note d2 = beside_lineD [OF b2]
  have len3: "command_length s3 = command_length st - 1" "current_command s3 = current_command st" by (simp_all add: s3_def d2)
  have "shell_step lc st s2" unfolding s2_def
    by (intro shell_step_trans [OF _ shell_step_output [OF output_only_char]] shell_step_then shell_step_refl)
  then have ok3: "ok lc s3" unfolding s3_def using ok by (simp add: shell_step_ok)
  have ok4: "ok lc s4" unfolding s4_def
    using shell_step_cell [THEN shell_step_ok, OF _ _ ok3, of "command_length s3" 0] start len3 pos(3) by simp
  then have ok5: "ok lc (on_screen_do update_cursor s4)" by (rule shell_step_ok [OF shell_step_update])
  have areas: "shell_areas lc st" "shell_areas lc s3" "shell_areas lc s4" using ok ok3 ok4 by (simp_all add: ok_def)
  have b: "beside_line s4 (on_screen_do update_cursor s4)" by (rule beside_line_output(4) [OF beside_line_refl])
  have len4: "command_length s4 = command_length st - 1" "history_ok s4 = history_ok st" "line_start s4 = line_start st"
    "current_command s4 = current_command st" "screen s4 = screen s2"
    using d2 len3 by (simp_all add: s4_def s3_def line_start_same)
  have "typed_line (on_screen_do update_cursor s4) = typed_line s4" by (rule typed_beside [OF areas(3) b]) (use len4 pos in simp)
  also have "\<dots> = typed_line s3"
    unfolding s4_def using typed_poke [OF areas(2), of "nat (command_length s3)" 0] len3 start pos(3) by simp
  also have "\<dots> = butlast (typed_line st)"
    unfolding s3_def typed_butlast using typed_beside [OF areas(1) b2] pos(3) by simp
  finally have "typed_line (on_screen_do update_cursor s4) = edit_line (line_start st) 8 (typed_line st)"
    using start(1) nat_mono [OF start(2)] by (simp add: edit_line_def)
  moreover have "cursor_col (screen s4) = cursor_col (screen st) - 1" "cursor_row (screen s4) = cursor_row (screen st)"
    by (simp_all add: len4 s2_def)
  ultimately show ?thesis
    using inv ok5 beside_lineD [OF b] len4 screen_update [of s4] start by (simp add: edited_def shell_inv_def)
qed

lemma shell_edit:
  assumes inv: "shell_inv lc st" and c: "c \<noteq> 10"
  obtains st' where "shell_handle_input lc c st = Some st'" and "edited lc c st st'"
proof -
  have row: "cursor_col (screen st) = line_start st + command_length st" "command_length st \<le> 71" "0 \<le> command_length st"
    using inv by (simp_all add: shell_inv_def)
  consider "c = 8" "cursor_col (screen st) > 7 + int (length (current_dir st))"
    | "c = 8" "\<not> cursor_col (screen st) > 7 + int (length (current_dir st))" | "c = 9"
    | "c \<noteq> 8" "c \<noteq> 9" "command_length st < 71 \<and> cursor_col (screen st) < 79"
    | "c \<noteq> 8" "c \<noteq> 9" "\<not> (command_length st < 71 \<and> cursor_col (screen st) < 79)" by blast
  then show ?thesis
  proof cases
    case 1
    show ?thesis
      using edit_erase [OF inv 1(2)] 1
      by (intro that) (simp_all add: shell_handle_input_def terminal_putchar_def Let_def)
  next
    case 2
    have "edit_line (line_start st) 8 (typed_line st) = typed_line st"
    proof (cases "0 < line_start st \<and> 2 \<le> length (typed_line st)")
      case True
      then have "cursor_col (screen st) > 7 + int (length (current_dir st))" using line_start_cases [of st] row by auto
      then show ?thesis using 2(2) by blast
    qed (auto simp: edit_line_def)
    then show ?thesis
      using edit_no_change [OF inv, of 8] 2
      by (intro that) (simp_all add: shell_handle_input_def terminal_putchar_def Let_def)
  next
    case 3
    then show ?thesis
      using edit_no_change [OF inv, of 9] by (intro that) (simp_all add: shell_handle_input_def terminal_putchar_def edit_line_def)
  next
    case 4
    show ?thesis
      using edit_insert [OF inv _ _ 4(1,2)] 4 c
      by (intro that) (simp_all add: shell_handle_input_def terminal_putchar_def Let_def MAX_COMMAND_LENGTH_def COLUMNS_def)
  next
    case 5
    have "edit_line (line_start st) c (typed_line st) = typed_line st" using 5 row by (auto simp: edit_line_def)
    then show ?thesis
      using edit_no_change [OF inv, of c] 5 c
      by (intro that) (auto simp: shell_handle_input_def terminal_putchar_def Let_def MAX_COMMAND_LENGTH_def COLUMNS_def)
  qed
qed

section \<open>Enter\<close>

lemma screen_row_say:
  "cursor_row (screen (say_at c w st)) = cursor_row (screen st) \<or> cursor_row (screen (say_at c w st)) = 24"
  "cursor_col (screen (say_at c w st)) = cursor_col (screen st)"
proof -
  obtain m' r where "k_print_string w WHITE_ON_BLACK (cursor_row (screen st)) c (get_screen st) = (get_screen st)\<lparr>screen_memory := m', cursor_row := r\<rparr>"
    "r = cursor_row (get_screen st) \<or> r = 24"
    using output_only_string [of "get_screen st" w WHITE_ON_BLACK "cursor_row (screen st)" c] unfolding output_only_def by blast
  then show "cursor_row (screen (say_at c w st)) = cursor_row (screen st) \<or> cursor_row (screen (say_at c w st)) = 24"
    "cursor_col (screen (say_at c w st)) = cursor_col (screen st)"
    by (auto simp: say_at_def on_screen_do_def put_screen_def get_screen_def)
qed

definition on_row :: "shell \<Rightarrow> bool" where
  "on_row st \<longleftrightarrow> 0 \<le> cursor_row (screen st) \<and> cursor_row (screen st) \<le> 24"

lemma on_row_output:
  "on_row s \<Longrightarrow> on_row (say_at c w s)" "on_row s \<Longrightarrow> on_row (say_bytes w s)" "on_row s \<Longrightarrow> on_row (say str s)"
  "on_row (to_col c s) = on_row s" "on_row (on_screen_do scroll_screen s)"
proof -
  show *: "on_row s \<Longrightarrow> on_row (say_at c w s)" for s c w using screen_row_say(1) [of c w s] by (auto simp: on_row_def)
  then show "on_row s \<Longrightarrow> on_row (say_bytes w s)" "on_row s \<Longrightarrow> on_row (say str s)" by (simp_all add: say_bytes_def say_def)
  show "on_row (to_col c s) = on_row s" by (simp add: on_row_def)
  obtain m' where "scroll_screen (get_screen s) = (get_screen s)\<lparr>screen_memory := m', cursor_row := 24\<rparr>"
    by (rule scroll_screen_cells [of "get_screen s"])
  then show "on_row (on_screen_do scroll_screen s)" by (simp add: on_row_def on_screen_do_def put_screen_def)
qed

lemma prompt_position:
  assumes "- 1 \<le> cursor_row (screen st)"
  shows "beside_line st (print_shell_prompt st)" and "on_row (print_shell_prompt st)"
    and "cursor_col (screen (print_shell_prompt st)) = line_start (print_shell_prompt st)"
    and "cursor_col (screen (print_shell_prompt st)) \<le> 79"
proof -
  define s1 where "s1 = (if cursor_row (screen (next_row st)) \<ge> ROWS then on_screen_do scroll_screen (next_row st) else next_row st)"
  define dir where "dir = current_dir s1"
  define s2 where "s2 = say_bytes dir (to_col 5 (say_at 0 (bytes_of ''aceOS'') s1))"
  define s3 where "s3 = say ''>'' (to_col (cursor_col (screen s2) + int (length dir)) s2)"
  define s4 where "s4 = to_col (cursor_col (screen s3) + 1) s3"
  have prompt: "print_shell_prompt st = on_screen_do update_cursor s4"
    unfolding print_shell_prompt_def Let_def s4_def s3_def s2_def dir_def s1_def ..
  have 1: "beside_line st s1" unfolding s1_def by (simp add: beside_line_output(6) beside_line_col(2))
  have 4: "beside_line s1 s4" unfolding s4_def s3_def s2_def by (intro beside_line_output beside_line_col beside_line_refl)
  have 5: "beside_line s4 (print_shell_prompt st)" unfolding prompt by (intro beside_line_output beside_line_refl)
  show "beside_line st (print_shell_prompt st)" using 1 4 5 beside_line_trans by blast
  have "on_row s1" using assms on_row_output(5) by (auto simp: s1_def on_row_def next_row_def ROWS_def)
  then have row4: "on_row s4" unfolding s4_def s3_def s2_def by (simp add: on_row_output)
  have col4: "cursor_col (screen s4) = 6 + int (length dir)" by (simp add: s4_def s3_def s2_def say_def say_bytes_def screen_row_say(2))
  have dir: "current_dir (print_shell_prompt st) = dir" using 4 5 beside_lineD(3) by (metis dir_def)
  obtain u where u: "update_cursor (get_screen s4) = vga_move_cursor (cursor_row u) (cursor_col u) u"
    "0 \<le> cursor_row u \<and> cursor_row u \<le> 24"
    "cursor_col u = (if 6 + int (length dir) < 80 then 6 + int (length dir) else 0)"
  proof -
    define g where "g = get_screen s4"
    have g: "cursor_row g \<le> 24" "0 \<le> cursor_row g" "cursor_col g = 6 + int (length dir)"
      using row4 col4 by (simp_all add: g_def get_screen_def on_row_def)
    define t where "t = g\<lparr>cursor_col := 0, cursor_row := cursor_row g + 1\<rparr>"
    define u where "u = (if cursor_col g \<ge> 80 then if cursor_row t \<ge> 25 then scroll_screen t else t else g)"
    have m': "cursor_row (scroll_screen x) = 24" "cursor_col (scroll_screen x) = cursor_col x" for x :: terminal
      by (rule scroll_screen_cells [of x], simp)+
    have "update_cursor g = vga_move_cursor (cursor_row u) (cursor_col u) u"
      using g(1) by (simp add: update_cursor_def ROWS_def COLUMNS_def Let_def u_def t_def)
    moreover have "0 \<le> cursor_row u \<and> cursor_row u \<le> 24" using g(1,2) by (auto simp: u_def m' t_def)
    moreover have "cursor_col u = (if 6 + int (length dir) < 80 then 6 + int (length dir) else 0)"
      using g(3) by (auto simp: u_def m' t_def)
    ultimately show ?thesis using that g_def by blast
  qed
  have scr: "cursor_row (screen (print_shell_prompt st)) = cursor_row u" "cursor_col (screen (print_shell_prompt st)) = cursor_col u"
    unfolding prompt by (simp_all add: on_screen_do_def put_screen_def u(1) vga_move_cursor_def outb_def Let_def)
  show "on_row (print_shell_prompt st)" using u(2) by (simp add: on_row_def scr)
  show "cursor_col (screen (print_shell_prompt st)) = line_start (print_shell_prompt st)"
    using u(3) dir by (simp add: scr line_start_def Let_def)
  show "cursor_col (screen (print_shell_prompt st)) \<le> 79" using u(3) by (simp add: scr)
qed

lemma history_ok_add:
  assumes "history_ok st" and "command_length st \<le> 71"
  shows "history_ok (add_history st)"
proof -
  define e where "e = command_history st ! history_count st"
  have "e \<in> set (command_history st)" unfolding e_def by (rule nth_mem) (use assms(1) in \<open>simp add: history_ok_def\<close>)
  then have "length e = 72" using assms(1) by (simp add: history_ok_def MAX_COMMAND_LENGTH_def)
  moreover have "nat (min (command_length st) 71) \<le> 71" by linarith
  ultimately have "length (map f [0..<nat (min (command_length st) 71)] @ [0] @ drop (nat (min (command_length st) 71) + 1) e) = 72" for f :: "nat \<Rightarrow> u8"
    by simp
  then show ?thesis
    using assms(1) set_update_subset_insert [of "command_history st" "history_count st"]
    by (fastforce simp: history_ok_def add_history_def Let_def MAX_COMMAND_LENGTH_def COMMAND_HISTORY_SIZE_def e_def [symmetric])
qed

lemma add_history_parts [simp]:
  "sys (add_history st) = sys st" "screen (add_history st) = screen st" "current_command (add_history st) = current_command st"
  "ok lc (add_history st) = ok lc st" "spare (add_history st) = spare st" "command_length (add_history st) = command_length st"
  "allowed cmd (add_history st) = allowed cmd st"
  by (simp_all add: add_history_def Let_def ok_def shell_areas_def spare_def allowed_def)

lemma clear_buffer:
  assumes "ok lc st"
  shows "ok lc (clear_command_buffer st)" and "history_ok (clear_command_buffer st) = history_ok st"
    and "screen (clear_command_buffer st) = screen st" and "line_start (clear_command_buffer st) = line_start st"
    and "command_length (clear_command_buffer st) = 0" and "current_command (clear_command_buffer st) = current_command st"
proof -
  have "\<forall>i \<in> set js. 0 \<le> i \<and> i < 72 \<Longrightarrow> ok lc s \<Longrightarrow> current_command s = a \<Longrightarrow>
      ok lc (fold (\<lambda>i. poke (a + word_of_int i) 0) js s) \<and>
      history_ok (fold (\<lambda>i. poke (a + word_of_int i) 0) js s) = history_ok s \<and>
      screen (fold (\<lambda>i. poke (a + word_of_int i) 0) js s) = screen s \<and>
      line_start (fold (\<lambda>i. poke (a + word_of_int i) 0) js s) = line_start s \<and>
      current_command (fold (\<lambda>i. poke (a + word_of_int i) 0) js s) = a" for js s a
  proof (induction js arbitrary: s)
    case (Cons i js)
    have "ok lc (poke (a + word_of_int i) 0 s)" using shell_step_ok [OF shell_step_cell, of i] Cons.prems by auto
    then show ?case using Cons.IH [of "poke (a + word_of_int i) 0 s"] Cons.prems by (simp add: line_start_same)
  qed simp
  note f = this [of "[0..71]" st "current_command st"]
  show "ok lc (clear_command_buffer st)" and "history_ok (clear_command_buffer st) = history_ok st"
    and "screen (clear_command_buffer st) = screen st" and "line_start (clear_command_buffer st) = line_start st"
    and "command_length (clear_command_buffer st) = 0" and "current_command (clear_command_buffer st) = current_command st"
    using f assms by (simp_all add: clear_command_buffer_def Let_def MAX_COMMAND_LENGTH_def line_start_same)
qed

lemma end_line_ok:
  assumes "shell_inv lc st"
  shows "ok lc (end_line st)" and "typed_line (end_line st) = typed_line st"
    and "memory (sys (end_line st)) (current_command st + of_nat (nat (command_length st))) = 0"
proof -
  have ok: "ok lc st" and len: "0 \<le> command_length st" "command_length st < 72" using assms by (simp_all add: shell_inv_def)
  have areas: "shell_areas lc st" using ok by (simp add: ok_def)
  define a where "a = current_command st + word_of_int (command_length st)"
  show "ok lc (end_line st)" unfolding end_line_def by (rule shell_step_ok [OF shell_step_cell [OF len] ok])
  have w: "current_command st + of_nat (nat (command_length st)) = a" using len by (simp add: a_def)
  show "typed_line (end_line st) = typed_line st"
    unfolding end_line_def a_def [symmetric] w [symmetric] by (rule typed_poke [OF areas]) (use len in simp_all)
  show "memory (sys (end_line st)) (current_command st + of_nat (nat (command_length st))) = 0"
    unfolding w by (simp add: end_line_def poke_def a_def)
qed

lemma shell_enter:
  assumes inv: "shell_inv lc st" and adm: "admissible 10 st"
  obtains st' where "shell_handle_input lc 10 st = Some st'" and "shell_inv lc st'"
proof -
  have len: "0 \<le> command_length st" "command_length st \<le> 71" using inv by (simp_all add: shell_inv_def)
  note el = end_line_ok [OF inv]
  have hist: "history_ok (end_line st)" using inv by (simp add: shell_inv_def end_line_def)
  have "\<exists>s2. ok lc s2 \<and> history_ok s2 \<and> process_command lc (end_line st) = Some (print_shell_prompt (to_col 0 (next_row s2)))"
  proof (cases "command_length (end_line st) > 0")
    case False
    then show ?thesis using el(1) hist by (auto simp: process_command_def)
  next
    case True
    obtain cmd where cmd: "command_line (end_line st) = Some cmd" "length cmd \<le> nat (command_length st)"
      by (rule command_line_upto [of "end_line st" "nat (command_length st)"]) (use el(3) len in \<open>simp_all add: end_line_def\<close>)
    have al: "allowed cmd (add_history (end_line st))" using adm cmd(1) by (simp add: admissible_def)
    then obtain s2 where s2: "execute_command lc cmd (add_history (end_line st)) = Some s2"
      using execute_command_returns [of lc "add_history (end_line st)" cmd] el(1) by auto
    have "length cmd < 72" using cmd(2) len by linarith
    then have "shell_step lc (add_history (end_line st)) s2"
      using al by (intro execute_command_step [OF s2]) (auto simp: allowed_def)
    moreover have "history_ok (add_history (end_line st))" using history_ok_add [OF hist] len by (simp add: end_line_def)
    ultimately have "ok lc s2 \<and> history_ok s2" using el(1) by (simp add: shell_step_def same_line_def history_ok_def)
    then show ?thesis using cmd(1) s2 True by (auto simp: process_command_def)
  qed
  then obtain s2 where s2: "ok lc s2" "history_ok s2"
    "process_command lc (end_line st) = Some (print_shell_prompt (to_col 0 (next_row s2)))" by blast
  define t where "t = to_col 0 (next_row s2)"
  have t: "ok lc t" "history_ok t" "- 1 \<le> cursor_row (screen t)"
    using s2 shell_step_ok [OF shell_step_then(2) [OF shell_step_next_row]] unfolding t_def
    by (simp_all add: history_ok_def to_col_def next_row_def ok_def)
  define s3 where "s3 = print_shell_prompt t"
  note pp = prompt_position [OF t(3), folded s3_def]
  have ok3: "ok lc s3" unfolding s3_def by (rule shell_step_ok [OF shell_step_prompt t(1)])
  have "history_ok s3" using beside_lineD(5) [OF pp(1)] t(2) by simp
  then have "shell_inv lc (clear_command_buffer s3)"
    using pp(2-4) clear_buffer [OF ok3] by (simp add: shell_inv_def on_row_def)
  moreover have "shell_handle_input lc 10 st = Some (clear_command_buffer s3)"
    using s2(3) by (simp add: shell_handle_input_def terminal_putchar_def end_line_def [symmetric] s3_def t_def)
  ultimately show ?thesis by (rule that [rotated])
qed

section \<open>Properties\<close>

text \<open>C15: While a line is edited, the array of the command line implements an editor of lists, and the shell's
  invariant holds: the cursor stands on the screen behind the line, the line and the history within their
  arrays, and the heaps and the file system are well formed.\<close>

theorem shell_editor_refines_edit_line:
  assumes "shell_inv lc st" and "c \<noteq> 10"
  shows "\<exists>st'. shell_handle_input lc c st = Some st' \<and> shell_inv lc st' \<and> line_start st' = line_start st \<and>
    typed_line st' = edit_line (line_start st) c (typed_line st)"
  using shell_edit [OF assms] unfolding edited_def by metis

lemma shell_key:
  assumes "shell_inv lc st" and "admissible c st"
  obtains st' where "shell_handle_input lc c st = Some st'" and "shell_inv lc st'"
proof (cases "c = 10")
  case True
  then show ?thesis using shell_enter [OF assms(1)] assms(2) that by metis
next
  case False
  then show ?thesis using shell_edit [OF assms(1) False] that by (metis edited_def)
qed

lemma shell_loop_inv:
  assumes "shell_inv lc st"
    and "\<And>pre c post s. cs = pre @ c # post \<Longrightarrow> shell_loop lc pre st = Some s \<Longrightarrow> admissible c s"
  shows "\<exists>st'. shell_loop lc cs st = Some st' \<and> shell_inv lc st'"
  using assms
proof (induction cs arbitrary: st)
  case (Cons c cs)
  have adm: "admissible c st" using Cons.prems(2) [of "[]" c cs st] by simp
  obtain s where s: "shell_handle_input lc c st = Some s" "shell_inv lc s" by (rule shell_key [OF Cons.prems(1) adm])
  have "admissible d t" if "cs = pre @ d # post" "shell_loop lc pre s = Some t" for pre d post t
    using Cons.prems(2) [of "c # pre" d post t] s(1) that by simp
  then obtain st' where "shell_loop lc cs s = Some st'" "shell_inv lc st'" using Cons.IH [OF s(2)] by blast
  then show ?case using s(1) by simp
qed simp

lemma start_shell_inv:
  assumes "ok lc st" and "history_ok st"
  shows "shell_inv lc (start_shell st)"
proof -
  define t where "t = clear_command_buffer (st\<lparr>screen := (screen st)\<lparr>cursor_row := 16, cursor_col := 0\<rparr>\<rparr>)"
  have ok0: "ok lc (st\<lparr>screen := (screen st)\<lparr>cursor_row := 16, cursor_col := 0\<rparr>\<rparr>)"
    using assms(1) by (simp add: ok_def shell_areas_def)
  note c = clear_buffer [OF ok0, folded t_def]
  have row: "- 1 \<le> cursor_row (screen t)" by (simp add: c)
  note p = prompt_position [OF row]
  have "ok lc (print_shell_prompt t)" by (rule shell_step_ok [OF shell_step_prompt c(1)])
  moreover have "history_ok t" using assms(2) by (simp add: c) (simp add: history_ok_def)
  ultimately show ?thesis
    using p beside_lineD [OF p(1)] c(5) by (simp add: start_shell_def t_def [symmetric] shell_inv_def on_row_def)
qed

text \<open>C11: Whatever is typed after the shell has started, up to any number of commands, each is handled (no
  command hangs or runs over an array), and the shell keeps its invariant, and with it that of the kernel
  heap, the C library's heap and the file system: the cursor stays on the screen, the line and the history
  in their arrays. Left out are lines that are not \<open>allowed\<close> when they are ended: \<open>syscalls\<close>, which frees
  what it does not own; the heap test when the heap would run into the missing room for a header;
  \<open>mkdir\<close> when all 128 entries of the file table are in use, where the code may write behind the table; and
  \<open>debug\<close> when the serial line does not become ready again. At the start the video memory, the command
  line and the read buffer lie apart from each other and from both heaps.\<close>

theorem shell_session_invariant:
  assumes "ok lc st" and "history_ok st"
    and "\<And>pre c post s. cs = pre @ c # post \<Longrightarrow> shell_loop lc pre (start_shell st) = Some s \<Longrightarrow> admissible c s"
  shows "\<exists>st'. shell_loop lc cs (start_shell st) = Some st' \<and> shell_inv lc st'"
  by (rule shell_loop_inv [OF start_shell_inv [OF assms(1,2)] assms(3)])

lemma shell_loop_one: "shell_loop lc [c] st = shell_handle_input lc c st"
  by (cases "shell_handle_input lc c st") simp_all

lemma shell_loop_append: "shell_loop lc (xs @ ys) st = Option.bind (shell_loop lc xs st) (shell_loop lc ys)"
  by (induction xs arbitrary: st) (auto split: Option.bind_splits)

lemma command_line_typed:
  assumes inv: "shell_inv lc st" and w: "0 \<notin> set (typed_line st)"
  shows "command_line (end_line st) = Some (typed_line st)"
proof -
  define t where "t = end_line st"
  have len: "0 \<le> command_length st" "command_length st \<le> 71" using inv by (simp_all add: shell_inv_def)
  have t: "typed_line t = typed_line st" "memory (sys t) (current_command t + of_nat (length (typed_line st))) = 0"
    "command_length t = command_length st"
    using end_line_ok(2,3) [OF inv] by (simp_all add: t_def, simp_all add: end_line_def)
  have "cstr (memory (sys t)) (current_command t) (typed_line t)"
    by (rule cstr_cells) (use t w in \<open>simp_all add: typed_line_def\<close>)
  then have "strlen (memory (sys t)) (current_command t) = Some (of_nat (length (typed_line t)))" by (rule strlen_correct)
  moreover have "unat (of_nat (length (typed_line t)) :: u32) = length (typed_line t)"
    using len t(3) by (intro unat_of_nat_u32) simp
  ultimately have "command_line t = Some (typed_line t)" using t(3) by (simp add: command_line_def typed_line_def)
  then show ?thesis using t(1) by (simp add: t_def)
qed

text \<open>C33: A word typed on an empty line, short enough for the row and the array, and then Enter: what is executed
  is that word, after the line went to the history, and then there is a new prompt and an empty line.\<close>

theorem typed_word_is_executed:
  assumes "shell_inv lc st" and "command_length st = 0" and "w \<noteq> []" and "set w \<inter> {0, 8, 9, 10} = {}"
    and "length w \<le> 71" and "line_start st + int (length w) \<le> 79"
  shows "\<exists>s. shell_inv lc s \<and> typed_line s = w \<and> shell_loop lc w st = Some s \<and>
    shell_loop lc (w @ [10]) st = map_option (\<lambda>st. clear_command_buffer (print_shell_prompt (to_col 0 (next_row st))))
      (execute_command lc w (add_history (end_line s)))"
proof -
  have "set v \<inter> {0, 8, 9, 10} = {} \<Longrightarrow> shell_inv lc t \<Longrightarrow> length (typed_line t) + length v \<le> 71 \<Longrightarrow>
      line_start t + int (length (typed_line t) + length v) \<le> 79 \<Longrightarrow>
      \<exists>s. shell_inv lc s \<and> typed_line s = typed_line t @ v \<and> shell_loop lc v t = Some s" for v t
  proof (induction v arbitrary: t)
    case (Cons c v)
    then obtain s where s: "shell_handle_input lc c t = Some s" "edited lc c t s" using shell_edit [of lc t c] by auto
    have "edit_line (line_start t) c (typed_line t) = typed_line t @ [c]"
      using Cons.prems by (auto simp: edit_line_def)
    then have "typed_line s = typed_line t @ [c]" "shell_inv lc s" "line_start s = line_start t" using s(2) by (simp_all add: edited_def)
    moreover have "length (typed_line s) + length v \<le> 71"
      "line_start s + int (length (typed_line s) + length v) \<le> 79"
      unfolding calculation(1,3) using Cons.prems(3,4) by (simp_all del: length_typed_line)
    ultimately obtain s' where "shell_inv lc s'" "typed_line s' = typed_line s @ v" "shell_loop lc v s = Some s'"
      using Cons.IH [of s] Cons.prems(1) by auto
    then show ?case using s(1) \<open>typed_line s = typed_line t @ [c]\<close> by auto
  qed auto
  note typing = this [of w st]
  have "typed_line st = []" using assms(2) by (simp add: typed_line_def)
  then obtain s where s: "shell_inv lc s" "typed_line s = w" "shell_loop lc w st = Some s"
    using typing assms(1,4-6) by auto
  have "command_line (end_line s) = Some w" using command_line_typed [OF s(1)] s(2) assms(4) by auto
  moreover have "command_length (end_line s) > 0"
  proof -
    have "nat (command_length s) = length w" using s(2) length_typed_line [of s] by simp
    then show ?thesis using assms(3) by (cases w) (simp_all add: end_line_def)
  qed
  ultimately have "shell_handle_input lc 10 s = map_option (\<lambda>st. clear_command_buffer (print_shell_prompt (to_col 0 (next_row st))))
      (execute_command lc w (add_history (end_line s)))"
    by (simp add: shell_handle_input_def terminal_putchar_def end_line_def [symmetric] process_command_def option.map_comp comp_def)
  then show ?thesis using s by (intro exI [of _ s]) (simp add: shell_loop_append shell_loop_one del: shell_loop.simps)
qed

section \<open>An example\<close>

definition ex_locals :: locals where
  "ex_locals = \<lparr>machine = ex_cpu, saved_registers = ex_regs, read_buffer = 0x2000, hello_message = 0x4000,
     cwd_buffer = 0x5000, tree_bytes = (\<lambda>_ _. [])\<rparr>"

definition ex_shell :: shell where
  "ex_shell = \<lparr>sys = ex_system, screen = ex_terminal\<lparr>cursor_col := 7\<rparr>, current_command = 0x1000, command_length = 0,
     command_history = replicate 10 (replicate 72 0), history_count = 0, history_position = - 1\<rparr>"

lemma ex_shell_inv: "shell_inv ex_locals ex_shell" "line_start ex_shell = 7"
proof -
  have dir: "current_dir ex_shell = [47]"
    by (simp add: ex_shell_def ex_system_def ex_start_def fs_get_current_dir_def fs_init_def fs_init_current_dir_def Let_def)
  then show start: "line_start ex_shell = 7" by (simp add: line_start_def)
  have ap: "apart a k ex_system" if "unat a + k \<le> 0x200000" for a k
    using that by (simp add: apart_def outside_heap_def ex_areas)
  have "shell_areas ex_locals ex_shell"
    by (simp add: shell_areas_def ex_shell_def ex_locals_def ap VIDEO_MEM_def)
  then have "ok ex_locals ex_shell" by (simp add: ok_def ex_shell_def ex_system_inv ex_terminal_def)
  moreover have "history_ok ex_shell"
    by (simp add: history_ok_def ex_shell_def COMMAND_HISTORY_SIZE_def MAX_COMMAND_LENGTH_def)
  ultimately show "shell_inv ex_locals ex_shell"
    using start by (simp add: shell_inv_def, simp add: ex_shell_def ex_terminal_def)
qed

lemma shell_editor_refines_edit_line_witness:
  "\<exists>st'. shell_handle_input ex_locals 97 ex_shell = Some st' \<and> typed_line st' = [97]"
  using shell_editor_refines_edit_line [OF ex_shell_inv(1), of 97] ex_shell_inv(2)
  by (auto simp: edit_line_def typed_line_def ex_shell_def)

text \<open>Enter on the empty line, two letters and a correction.\<close>

lemma shell_session_invariant_witness:
  "\<exists>st'. shell_loop ex_locals [10, 97, 98, 8] (start_shell ex_shell) = Some st' \<and> shell_inv ex_locals st'"
proof -
  have start: "ok ex_locals ex_shell" "history_ok ex_shell" using ex_shell_inv(1) by (simp_all add: shell_inv_def)
  have len: "command_length (start_shell ex_shell) = 0"
  proof -
    have "command_length (print_shell_prompt t) = command_length t" if "- 1 \<le> cursor_row (screen t)" for t
      using beside_lineD(1) [OF prompt_position(1) [OF that]] .
    then show ?thesis
      using clear_buffer(3,5) [of ex_locals "ex_shell\<lparr>screen := (screen ex_shell)\<lparr>cursor_row := 16, cursor_col := 0\<rparr>\<rparr>"] start(1)
      by (simp add: start_shell_def ok_def shell_areas_def)
  qed
  have enter: "admissible 10 (start_shell ex_shell)"
    using command_line_typed [OF start_shell_inv [OF start]] len
    by (simp add: typed_line_def admissible_def allowed_def bytes_of_def)
  have "admissible c s" if "[10, 97, 98, 8] = pre @ c # post" "shell_loop ex_locals pre (start_shell ex_shell) = Some s" for pre c post s
  proof (cases pre)
    case Nil
    then show ?thesis using that enter by simp
  next
    case (Cons x xs)
    then have "c \<in> set [97, 98, 8]" using that(1) by (cases xs) (auto simp: Cons_eq_append_conv)
    then show ?thesis by (auto simp: admissible_def)
  qed
  then show ?thesis by (rule shell_session_invariant [OF start])
qed

lemma typed_word_is_executed_witness:
  "\<exists>s. typed_line s = bytes_of ''pwd'' \<and>
     shell_loop ex_locals (bytes_of ''pwd'' @ [10]) ex_shell =
       Some (clear_command_buffer (print_shell_prompt (to_col 0 (next_row (cmd_pwd (add_history (end_line s)))))))"
proof -
  have bytes: "bytes_of ''pwd'' = [112, 119, 100]" by (simp add: bytes_of_def)
  have "\<exists>s. shell_inv ex_locals s \<and> typed_line s = bytes_of ''pwd'' \<and> shell_loop ex_locals (bytes_of ''pwd'') ex_shell = Some s \<and>
    shell_loop ex_locals (bytes_of ''pwd'' @ [10]) ex_shell =
      map_option (\<lambda>st. clear_command_buffer (print_shell_prompt (to_col 0 (next_row st))))
        (execute_command ex_locals (bytes_of ''pwd'') (add_history (end_line s)))"
    by (rule typed_word_is_executed [OF ex_shell_inv(1)]) (simp_all add: bytes ex_shell_inv(2), simp add: ex_shell_def)
  moreover have "execute_command ex_locals (bytes_of ''pwd'') s = Some (cmd_pwd s)" for s
    by (simp add: execute_command_def bytes_of_def)
  ultimately show ?thesis by auto
qed

end
