(* ===== verification/Boot.thy ===== *)
theory Boot
  imports ShellProps TimerProps Disk
begin

text \<open>
  The start of the kernel and its main loop (last part of \<open>kernel/kernel.c\<close>): \<open>kernel_main\<close> sets up every
  component in order, from \<open>sti\<close> on with keyboard interrupts between its steps, and then handles a key after
  each interrupt. The components share one memory and one table of interrupt handlers: those of the shell's
  part, lent to the others for a step. The ports of a device are only used by its driver, so each driver keeps
  its own. The log on the serial port and the statistics printed there are left out, but for the first message,
  which \<open>serial_init\<close> sends itself.
\<close>

record computer =
  shell_part :: shell
  core :: timer
  hard_disk :: disk
  key_input :: keyboard
  interrupts_on :: bool

section \<open>Lending\<close>

abbreviation tables :: "computer \<Rightarrow> interrupts" where
  "tables c \<equiv> sys_interrupts (sys (shell_part c))"

abbreviation computer_memory :: "computer \<Rightarrow> mem" where
  "computer_memory c \<equiv> memory (sys (shell_part c))"

definition lend_tables :: "interrupts \<Rightarrow> 'a interrupts_scheme \<Rightarrow> 'a interrupts_scheme" where
  "lend_tables t st = st\<lparr>idt := idt t, idt_desc := idt_desc t, idt_loaded := idt_loaded t,
     interrupt_handlers := interrupt_handlers t\<rparr>"

definition return_tables :: "'a interrupts_scheme \<Rightarrow> computer \<Rightarrow> computer" where
  "return_tables st c = (let s = shell_part c; t = tables c
     in c\<lparr>shell_part := s\<lparr>sys := (sys s)\<lparr>sys_interrupts := t\<lparr>idt := idt st, idt_desc := idt_desc st,
          idt_loaded := idt_loaded st, interrupt_handlers := interrupt_handlers st\<rparr>\<rparr>\<rparr>\<rparr>)"

definition with_shell :: "(shell \<Rightarrow> shell) \<Rightarrow> computer \<Rightarrow> computer" where
  "with_shell f c = c\<lparr>shell_part := f (shell_part c)\<rparr>"

definition with_interrupts :: "(interrupts \<Rightarrow> interrupts) \<Rightarrow> computer \<Rightarrow> computer" where
  "with_interrupts f = with_shell (\<lambda>s. s\<lparr>sys := (sys s)\<lparr>sys_interrupts := f (sys_interrupts (sys s))\<rparr>\<rparr>)"

definition with_serial :: "(serial \<Rightarrow> serial option) \<Rightarrow> computer \<Rightarrow> computer option" where
  "with_serial f c = map_option (\<lambda>s. return_tables s (with_shell (\<lambda>st. st\<lparr>sys := (sys st)\<lparr>sys_serial := s\<rparr>\<rparr>) c))
     (f (lend_tables (tables c) (sys_serial (sys (shell_part c)))))"

definition with_keys :: "(keyboard \<Rightarrow> keyboard) \<Rightarrow> computer \<Rightarrow> computer" where
  "with_keys f c = (let k = f (lend_tables (tables c) (key_input c)) in return_tables k (c\<lparr>key_input := k\<rparr>))"

definition get_core :: "computer \<Rightarrow> timer" where
  "get_core c = (core c)\<lparr>mem := computer_memory c\<rparr>"

definition put_core :: "timer \<Rightarrow> computer \<Rightarrow> computer" where
  "put_core t c = with_shell (\<lambda>s. s\<lparr>sys := (sys s)\<lparr>memory := mem t\<rparr>\<rparr>) (c\<lparr>core := t\<rparr>)"

definition with_core :: "(timer \<Rightarrow> timer) \<Rightarrow> computer \<Rightarrow> computer" where
  "with_core f c = put_core (f (get_core c)) c"

definition on_display :: "(terminal \<Rightarrow> terminal) \<Rightarrow> computer \<Rightarrow> computer" where
  "on_display f = with_shell (on_screen_do f)"

definition print_line :: "int \<Rightarrow> u8 list \<Rightarrow> computer \<Rightarrow> computer" where
  "print_line row text = on_display (k_print_string text WHITE_ON_BLACK row 0)"

section \<open>Initialisation\<close>

text \<open>The steps of \<open>kernel_main\<close> before its loop. \<open>idt_address\<close> is where the interrupt table lies and
  \<open>stub\<close> gives the addresses of the assembly stubs. \<open>libc_init\<close> does nothing.\<close>

definition boot_memory :: "computer \<Rightarrow> computer" where
  "boot_memory c =
     (let c = with_core pmm_init c;
          c = with_core vmm_init c
      in with_shell (\<lambda>s. s\<lparr>sys := put_heap (heap_init 0x800000 0x400000 (get_heap (sys s))) (sys s)\<rparr>) c)"

definition boot_timer :: "computer \<Rightarrow> computer" where
  "boot_timer c = (let (i, t) = timer_init (tables c) (get_core c) in put_core t (with_interrupts (\<lambda>_. i) c))"

definition boot_devices :: "computer \<Rightarrow> computer" where
  "boot_devices c =
     (let c = print_line 4 (bytes_of ''Initializing system timer...'') c;
          c = boot_timer c;
          c = print_line 5 (bytes_of ''Initializing disk subsystem...'') c;
          c = c\<lparr>hard_disk := disk_init (hard_disk c)\<rparr>;
          c = print_line 6 (bytes_of ''Initializing process management...'') c;
          c = with_core process_init c;
          c = with_core scheduler_init c;
          c = print_line 7 (bytes_of ''Initializing keyboard...'') c;
          c = with_keys keyboard_init c;
          c = print_line 8 (bytes_of ''Enabling interrupts...'') c
      in c\<lparr>interrupts_on := True\<rparr>)"

text \<open>The keyboard interrupts of a stretch of time.\<close>

definition key_interrupts :: "registers list \<Rightarrow> computer \<Rightarrow> computer" where
  "key_interrupts irqs c = c\<lparr>key_input := fold keyboard_handler irqs (key_input c)\<rparr>"

definition boot_shell :: "u32 \<Rightarrow> computer \<Rightarrow> computer" where
  "boot_shell isr128 c =
     (let c = print_line 10 (bytes_of ''Initializing filesystem...'') c;
          c = with_shell (\<lambda>s. s\<lparr>sys := put_fs (fs_init (get_fs (sys s))) (sys s)\<rparr>) c;
          c = print_line 11 (bytes_of ''Initializing system calls...'') c;
          c = with_shell (\<lambda>s. s\<lparr>sys := syscall_init isr128 (sys s)\<rparr>) c;
          c = print_line 12 (bytes_of ''Enhanced system initialization complete!'' @ [10]) c;
          c = print_line 13 (bytes_of ''aceOS Enhanced Shell v2.0'' @ [10]) c;
          c = print_line 14 (bytes_of ''Type 'help' for available commands'' @ [10]) c
      in with_shell start_shell c)"

text \<open>\<open>early\<close> are the keyboard interrupts from \<open>sti\<close> up to the main loop. They change only the keyboard, which
  no step in between looks at, so it does not matter between which of these steps they come in
  (\<open>boot_shell_keys\<close>), and they stand at the first place.\<close>

definition kernel_init :: "u32 \<Rightarrow> (nat \<Rightarrow> u32) \<Rightarrow> registers list \<Rightarrow> computer \<Rightarrow> computer option" where
  "kernel_init idt_address stub early c =
     (let c = on_display (\<lambda>t. fold (\<lambda>(i, v). video_put i v) [(10, 75), (11, 0x0F), (12, 77), (13, 0x0F)] t) c;
          c = on_display clear_screen c
      in map_option (\<lambda>c.
        let c = on_display vga_enable_cursor c;
            c = print_line 0 (bytes_of ''*** aceOS Enhanced v2.0 Loaded! ***'' @ [10]) c;
            c = print_line 1 (bytes_of ''Advanced Memory, Multitasking, Disk I/O'' @ [10]) c;
            c = print_line 2 (bytes_of ''Initializing interrupt system...'') c;
            c = with_interrupts (idt_init idt_address) c;
            c = with_interrupts (isr_init stub) c;
            c = print_line 3 (bytes_of ''Initializing memory management...'') c
        in boot_shell (stub 128) (key_interrupts early (boot_devices (boot_memory c)))) (with_serial serial_init c))"

section \<open>The main loop\<close>

text \<open>A round handles at most one key and then halts until an interrupt; \<open>irqs\<close> are the keyboard interrupts
  up to the next round. An empty list is a round that another interrupt begins.\<close>

definition key_round :: "locals \<Rightarrow> computer \<Rightarrow> computer option" where
  "key_round lc c =
     (if keyboard_buffer_empty (key_input c) then Some c
      else Option.bind (keyboard_getchar [] (key_input c)) (\<lambda>(ch, _, k).
        map_option (\<lambda>s. c\<lparr>shell_part := s, key_input := k\<rparr>) (shell_handle_input lc ch (shell_part c))))"

fun main_loop :: "locals \<Rightarrow> registers list list \<Rightarrow> computer \<Rightarrow> computer option" where
  "main_loop lc [] c = Some c"
| "main_loop lc (irqs # rest) c =
     Option.bind (key_round lc c) (\<lambda>c. main_loop lc rest (key_interrupts irqs c))"

definition kernel_main :: "u32 \<Rightarrow> (nat \<Rightarrow> u32) \<Rightarrow> locals \<Rightarrow> registers list \<Rightarrow> registers list list \<Rightarrow> computer \<Rightarrow> computer option" where
  "kernel_main idt_address stub lc early rounds c = Option.bind (kernel_init idt_address stub early c) (main_loop lc rounds)"

end
