(* ===== verification/BootProps.thy ===== *)
theory BootProps
  imports Boot VmmProps ProcessProps DiskProps
begin

text \<open>
  The kernel after its start: each step of \<open>kernel_main\<close> leaves what the steps before it set up, although
  all of them work on one memory, and so the invariants of the components hold together when the shell
  starts. From then on the shell gets the characters typed, in order.
\<close>

section \<open>The parts a step leaves alone\<close>

lemma on_display_parts [simp]:
  "core (on_display f c) = core c" "hard_disk (on_display f c) = hard_disk c" "key_input (on_display f c) = key_input c"
  "interrupts_on (on_display f c) = interrupts_on c" "tables (on_display f c) = tables c"
  "sys_fs (sys (shell_part (on_display f c))) = sys_fs (sys (shell_part c))"
  "sys_heap (sys (shell_part (on_display f c))) = sys_heap (sys (shell_part c))"
  "sys_serial (sys (shell_part (on_display f c))) = sys_serial (sys (shell_part c))"
  "syscall_count (sys (shell_part (on_display f c))) = syscall_count (sys (shell_part c))"
  "current_command (shell_part (on_display f c)) = current_command (shell_part c)"
  "history_ok (shell_part (on_display f c)) = history_ok (shell_part c)"
  by (simp_all add: on_display_def with_shell_def on_screen_do_def put_screen_def history_ok_def)

lemma print_line_parts [simp]:
  "core (print_line r w c) = core c" "hard_disk (print_line r w c) = hard_disk c" "key_input (print_line r w c) = key_input c"
  "interrupts_on (print_line r w c) = interrupts_on c" "tables (print_line r w c) = tables c"
  "sys_fs (sys (shell_part (print_line r w c))) = sys_fs (sys (shell_part c))"
  "sys_heap (sys (shell_part (print_line r w c))) = sys_heap (sys (shell_part c))"
  "sys_serial (sys (shell_part (print_line r w c))) = sys_serial (sys (shell_part c))"
  "syscall_count (sys (shell_part (print_line r w c))) = syscall_count (sys (shell_part c))"
  "current_command (shell_part (print_line r w c)) = current_command (shell_part c)"
  "history_ok (shell_part (print_line r w c)) = history_ok (shell_part c)"
  by (simp_all add: print_line_def)

lemma with_interrupts_parts [simp]:
  "core (with_interrupts f c) = core c" "hard_disk (with_interrupts f c) = hard_disk c" "key_input (with_interrupts f c) = key_input c"
  "interrupts_on (with_interrupts f c) = interrupts_on c" "tables (with_interrupts f c) = f (tables c)"
  "screen (shell_part (with_interrupts f c)) = screen (shell_part c)"
  "computer_memory (with_interrupts f c) = computer_memory c"
  "sys_fs (sys (shell_part (with_interrupts f c))) = sys_fs (sys (shell_part c))"
  "sys_heap (sys (shell_part (with_interrupts f c))) = sys_heap (sys (shell_part c))"
  "syscall_count (sys (shell_part (with_interrupts f c))) = syscall_count (sys (shell_part c))"
  "current_command (shell_part (with_interrupts f c)) = current_command (shell_part c)"
  "history_ok (shell_part (with_interrupts f c)) = history_ok (shell_part c)"
  by (simp_all add: with_interrupts_def with_shell_def history_ok_def)

lemma put_core_parts [simp]:
  "core (put_core t c) = t" "hard_disk (put_core t c) = hard_disk c" "key_input (put_core t c) = key_input c"
  "interrupts_on (put_core t c) = interrupts_on c" "tables (put_core t c) = tables c"
  "screen (shell_part (put_core t c)) = screen (shell_part c)" "computer_memory (put_core t c) = mem t"
  "sys_fs (sys (shell_part (put_core t c))) = sys_fs (sys (shell_part c))"
  "sys_heap (sys (shell_part (put_core t c))) = sys_heap (sys (shell_part c))"
  "syscall_count (sys (shell_part (put_core t c))) = syscall_count (sys (shell_part c))"
  "current_command (shell_part (put_core t c)) = current_command (shell_part c)"
  "history_ok (shell_part (put_core t c)) = history_ok (shell_part c)"
  by (simp_all add: put_core_def with_shell_def history_ok_def)

lemma get_core_simps [simp]:
  "mem (get_core c) = computer_memory c" "get_core (put_core t c) = t"
  by (simp_all add: get_core_def)

section \<open>The screen while the kernel starts\<close>

lemma unchanged_outsideD: "unchanged_outside m m' lo hi \<Longrightarrow> unat x < lo \<or> hi \<le> unat x \<Longrightarrow> m' x = m x"
  by (auto simp: unchanged_outside_def)

section \<open>What holds once the heap is set up\<close>

text \<open>What the shell needs, but for the tables of the file system, which come last.\<close>

definition ready :: "locals \<Rightarrow> shell \<Rightarrow> bool" where
  "ready lc st \<longleftrightarrow> (\<exists>L. heap_live (get_heap (sys st)) L) \<and> areas (sys st) \<and> length (syscall_count (sys st)) = 30 \<and>
     \<not> lib_heap_initialized (sys_fs (sys st)) \<and> 0 < unat (lib_heap (sys_fs (sys st))) \<and> shell_areas lc st \<and> history_ok st \<and>
     - 2 \<le> cursor_row (screen st) \<and> unat (current_command st) + 72 \<le> 0x200000"

definition booted :: "locals \<Rightarrow> computer \<Rightarrow> bool" where
  "booted lc c \<longleftrightarrow> ready lc (shell_part c) \<and> pmm_inv (get_core c) \<and> length (buffer (key_input c)) = 256"

lemma core_memory:
  assumes "pmm_inv (get_core c)" and "core c' = core c" and "unchanged_outside (computer_memory c) (computer_memory c') lo hi"
    and "hi \<le> 0x200000 \<or> 0x201000 \<le> lo"
  shows "pmm_inv (get_core c')"
proof (rule pmm_inv_outside(1) [OF assms(1)])
  show "mem (get_core c') x = mem (get_core c) x" if "2097152 \<le> unat x" "unat x < 2098112" for x
    using unchanged_outsideD [OF assms(3)] assms(4) that by auto
qed (simp_all add: get_core_def assms(2))

lemma ready_screen:
  assumes "\<And>t. output_only t (f t)" and "ready lc st"
  shows "ready lc (on_screen_do f st)"
proof -
  define t where "t = get_screen st"
  note o = output_only_screen [OF assms(1) [of t]]
  obtain L where L: "heap_live (get_heap (sys st)) L" using assms(2) by (auto simp: ready_def)
  have "apart VIDEO_MEM 4000 (sys st)" using assms(2) by (simp add: ready_def shell_areas_def)
  then have v: "unat (heap.heap_end (get_heap (sys st))) \<le> 0xB8000 \<or> 0xB8FA0 \<le> unat (heap.heap_start (get_heap (sys st)))"
    by (auto simp: apart_def VIDEO_MEM_def)
  have u: "unchanged_outside (mem (get_heap (sys st))) (screen_memory (f t)) 0xB8000 0xB8FA0"
    using o(1) by (simp add: t_def get_screen_def)
  have h: "get_heap (sys (on_screen_do f st)) = (get_heap (sys st))\<lparr>mem := screen_memory (f t)\<rparr>"
    by (simp add: on_screen_do_def put_screen_def t_def)
  have "heap_live (get_heap (sys (on_screen_do f st))) L" unfolding h by (rule heap_live_frame [OF L u v])
  moreover have "apart a k (sys (on_screen_do f st)) = apart a k (sys st)" for a k
    by (rule apart_cong) (simp_all add: on_screen_do_def put_screen_def)
  ultimately show ?thesis
    using assms(2) o(2) by (auto simp: ready_def shell_areas_def history_ok_def on_screen_do_def put_screen_def t_def get_screen_def)
qed

lemma screen_memory_change:
  assumes "\<And>t. output_only t (f t)"
  shows "unchanged_outside (computer_memory c) (computer_memory (on_display f c)) 0xB8000 0xB8FA0"
  using output_only_screen(1) [OF assms, of "get_screen (shell_part c)"]
  by (simp add: on_display_def with_shell_def on_screen_do_def put_screen_def) (simp add: get_screen_def)

lemma booted_print: "booted lc c \<Longrightarrow> booted lc (print_line r w c)"
  using ready_screen [where f = "k_print_string w WHITE_ON_BLACK r 0", OF output_only_string, of lc "shell_part c"]
    core_memory [of c "print_line r w c" "0xB8000" "0xB8FA0"]
    screen_memory_change [where f = "k_print_string w WHITE_ON_BLACK r 0", OF output_only_string, of c]
  by (simp add: booted_def print_line_def) (simp add: on_display_def with_shell_def)

lemma ready_cong:
  assumes "sys_heap (sys st') = sys_heap (sys st)" and "memory (sys st') = memory (sys st)" and "sys_fs (sys st') = sys_fs (sys st)"
    and "syscall_count (sys st') = syscall_count (sys st)" and "current_command st' = current_command st"
    and "history_ok st' = history_ok st" and "screen st' = screen st"
  shows "ready lc st' = ready lc st"
  using apart_cong [of "sys st'" "sys st"] assms
  by (simp add: ready_def shell_areas_def areas_def) (simp add: get_heap_def)

lemma booted_interrupts: "booted lc (with_interrupts f c) = booted lc c"
  by (simp add: booted_def ready_cong [of "shell_part (with_interrupts f c)" "shell_part c"]) (simp add: get_core_def)

lemma booted_core:
  assumes "mem t = computer_memory c" and "pmm_inv t"
  shows "booted lc (put_core t c) = (ready lc (shell_part c) \<and> length (buffer (key_input c)) = 256)"
  using assms by (simp add: booted_def ready_cong [of "shell_part (put_core t c)" "shell_part c"])

section \<open>The machine as it is loaded\<close>

text \<open>Below the managed memory, and outside of the C library's heap.\<close>

definition low :: "u32 \<Rightarrow> nat \<Rightarrow> system \<Rightarrow> bool" where
  "low a k s \<longleftrightarrow> unat a + k \<le> 0x200000 \<and> (unat a + k \<le> unat (lib_heap (sys_fs s)) \<or> unat (lib_heap (sys_fs s)) + 0x100000 \<le> unat a)"

text \<open>Static data is zero, the arrays have their sizes and lie in low memory.\<close>

definition zeroed :: "locals \<Rightarrow> nat \<Rightarrow> computer \<Rightarrow> bool" where
  "zeroed lc d c \<longleftrightarrow> (let st = shell_part c; s = sys st in
     \<not> lib_heap_initialized (sys_fs s) \<and> 0 < unat (lib_heap (sys_fs s)) \<and> unat (lib_heap (sys_fs s)) + 0x100000 \<le> 0x200000 \<and>
     low VIDEO_MEM 4000 s \<and> low (current_command st) 72 s \<and> low (read_buffer lc) 1024 s \<and>
     (unat (current_command st) + 72 \<le> 0xB8000 \<or> 0xB8FA0 \<le> unat (current_command st)) \<and>
     length (syscall_count s) = 30 \<and> history_ok st \<and> - 2 \<le> cursor_row (screen st) \<and> length (buffer (key_input c)) = 256 \<and>
     kernel_page_directory (core c) = of_nat d \<and> 4096 dvd d \<and> d + 4096 \<le> 0x200000)"

definition loaded :: "locals \<Rightarrow> nat \<Rightarrow> computer \<Rightarrow> bool" where
  "loaded lc d c \<longleftrightarrow> zeroed lc d c \<and> line_live (sys_serial (sys (shell_part c)))"

lemma zeroed_cong:
  assumes "zeroed lc d c" and "sys_fs (sys (shell_part c')) = sys_fs (sys (shell_part c))"
    and "current_command (shell_part c') = current_command (shell_part c)"
    and "syscall_count (sys (shell_part c')) = syscall_count (sys (shell_part c))"
    and "history_ok (shell_part c') = history_ok (shell_part c)" and "- 2 \<le> cursor_row (screen (shell_part c'))"
    and "key_input c' = key_input c" and "kernel_page_directory (core c') = kernel_page_directory (core c)"
  shows "zeroed lc d c'"
  using assms by (simp add: zeroed_def Let_def low_def)

lemma zeroed_row: "zeroed lc d c \<Longrightarrow> - 2 \<le> cursor_row (screen (shell_part c))"
  by (simp add: zeroed_def Let_def)

lemma zeroed_display:
  assumes "\<And>t. - 2 \<le> cursor_row t \<Longrightarrow> - 2 \<le> cursor_row (f t)" and "zeroed lc d c"
  shows "zeroed lc d (on_display f c)"
proof (rule zeroed_cong [OF assms(2)])
  show "- 2 \<le> cursor_row (screen (shell_part (on_display f c)))"
    using assms(1) [of "get_screen (shell_part c)"] zeroed_row [OF assms(2)]
    by (simp add: on_display_def with_shell_def on_screen_do_def put_screen_def) (simp add: get_screen_def)
qed simp_all

lemma zeroed_print: "zeroed lc d c \<Longrightarrow> zeroed lc d (print_line r w c)"
  unfolding print_line_def by (rule zeroed_display [OF output_only_screen(2) [OF output_only_string]])

lemma zeroed_interrupts: "zeroed lc d c \<Longrightarrow> zeroed lc d (with_interrupts f c)"
  by (rule zeroed_cong, assumption) (simp_all add: zeroed_row)

lemma zeroed_core: "zeroed lc d c \<Longrightarrow> kernel_page_directory t = kernel_page_directory (core c) \<Longrightarrow> zeroed lc d (put_core t c)"
  by (rule zeroed_cong, assumption) (simp_all add: zeroed_row)

section \<open>Memory\<close>

lemma heap_init_place:
  shows "heap.heap_start (heap_init 0x800000 0x400000 h) = 0x800000" and "heap.heap_end (heap_init 0x800000 0x400000 h) = 0xC00000"
    and "unchanged_outside (mem h) (mem (heap_init 0x800000 0x400000 h)) 0x800000 0x800014"
proof -
  have "unat (memory_align_up 0x800000 16) = 0x800000" using unat_align_up [of 16 "0x800000"] by simp
  then have a: "memory_align_up 0x800000 16 = 0x800000" by (metis u32_of_nat_unat of_nat_numeral)
  show "heap.heap_start (heap_init 0x800000 0x400000 h) = 0x800000" "heap.heap_end (heap_init 0x800000 0x400000 h) = 0xC00000"
    by (simp_all add: heap_init_def a)
  have w: "unchanged_outside m (store32 m' (of_nat x) v) 0x800000 0x800014"
    if "unchanged_outside m m' 0x800000 0x800014" "0x800000 \<le> x" "x + 4 \<le> 0x800014" for m m' x v
    using unchanged_outside_trans [OF that(1) unchanged_outside_mono [OF store32_unchanged [of x m' v]]] that(2,3) by simp
  have "unchanged_outside m (store32 m' 0x800000 v) 0x800000 0x800014" "unchanged_outside m (store32 m' 0x800004 v) 0x800000 0x800014"
    "unchanged_outside m (store32 m' 0x800008 v) 0x800000 0x800014" "unchanged_outside m (store32 m' 0x80000C v) 0x800000 0x800014"
    "unchanged_outside m (store32 m' 0x800010 v) 0x800000 0x800014" if "unchanged_outside m m' 0x800000 0x800014" for m m' v
    using w [OF that, of "0x800000"] w [OF that, of "0x800004"] w [OF that, of "0x800008"] w [OF that, of "0x80000C"]
      w [OF that, of "0x800010"] by simp_all
  then show "unchanged_outside (mem h) (mem (heap_init 0x800000 0x400000 h)) 0x800000 0x800014"
    by (simp add: heap_init_def a Let_def)
qed

lemma kernel_directory_init: "kernel_page_directory (pmm_init st) = kernel_page_directory st"
  by (simp add: pmm_init_def Let_def pmm_mark_frame_used_def set_frame_def MEMORY_SIZE_def PAGE_SIZE_def)

lemma boot_memory_booted:
  assumes z: "zeroed lc d c"
  shows "booted lc (boot_memory c)"
proof -
  define t where "t = vmm_init (pmm_init (get_core c))"
  define c1 where "c1 = put_core t c"
  define h where "h = heap_init 0x800000 0x400000 (get_heap (sys (shell_part c1)))"
  have d: "kernel_page_directory (core c) = of_nat d" "4096 dvd d" "d + 4096 \<le> 0x200000" using z by (simp_all add: zeroed_def Let_def)
  have "taken (pmm_init (get_core c)) d" using d by (simp add: taken_def)
  moreover have "kernel_page_directory (pmm_init (get_core c)) = of_nat d" by (simp add: kernel_directory_init get_core_def d)
  moreover have "2 \<le> unat (free_frames (pmm_init (get_core c)))" by (simp add: pmm_init_spec(3))
  ultimately have "vmm_wf t d" unfolding t_def using vmm_init_maps [OF pmm_init_spec(1)] by blast
  then have inv: "pmm_inv t" by (rule vmm_wfD(1))
  have run: "boot_memory c = with_shell (\<lambda>s. s\<lparr>sys := put_heap (heap_init 0x800000 0x400000 (get_heap (sys s))) (sys s)\<rparr>) c1"
    by (simp add: boot_memory_def Let_def with_core_def c1_def t_def) (simp add: put_core_def with_shell_def)
  have sp: "shell_part (boot_memory c) = (shell_part c1)\<lparr>sys := put_heap h (sys (shell_part c1))\<rparr>" "core (boot_memory c) = core c1"
    "key_input (boot_memory c) = key_input c" by (simp_all add: run with_shell_def h_def) (simp add: c1_def)
  have hp: "heap.heap_start h = 0x800000" "heap.heap_end h = 0xC00000"
    "unchanged_outside (computer_memory c1) (mem h) 0x800000 0x800014"
    using heap_init_place [of "get_heap (sys (shell_part c1))"] by (simp_all add: h_def)
  have "heap_live h Map.empty" unfolding h_def by (rule heap_init_live) simp_all
  define st where "st = shell_part (boot_memory c)"
  have st: "get_heap (sys st) = h" "sys_heap (sys st) = h" "sys_fs (sys st) = sys_fs (sys (shell_part c))"
    "syscall_count (sys st) = syscall_count (sys (shell_part c))" "screen st = screen (shell_part c)"
    "current_command st = current_command (shell_part c)" "history_ok st = history_ok (shell_part c)"
    unfolding st_def sp(1) by (simp_all add: history_ok_def c1_def put_core_def with_shell_def) (simp_all add: put_heap_def)
  have "apart a k (sys st)" if "low a k (sys (shell_part c))" for a k
    using that by (auto simp: low_def apart_def outside_heap_def hp st)
  moreover have "areas (sys st)" using z by (simp add: areas_def hp st zeroed_def Let_def)
  ultimately have "ready lc (shell_part (boot_memory c))"
    using z \<open>heap_live h Map.empty\<close> unfolding st_def [symmetric] ready_def zeroed_def Let_def shell_areas_def
    by (simp only: st) (auto simp: low_def)
  moreover have "pmm_inv (get_core (boot_memory c))"
    by (rule core_memory [of c1 _ "0x800000" "0x800014"]) (use inv hp(3) in \<open>simp_all add: sp c1_def put_heap_def\<close>)
  moreover have "length (buffer (key_input (boot_memory c))) = 256" using z by (simp add: sp zeroed_def Let_def)
  ultimately show ?thesis by (simp add: booted_def)
qed

section \<open>The devices and the shell\<close>

lemma booted_parts: "booted lc c \<Longrightarrow> ready lc (shell_part c) \<and> pmm_inv (get_core c) \<and> length (buffer (key_input c)) = 256"
  by (simp add: booted_def)

lemma pmm_inv_cong:
  assumes "mem t = mem s" and "bitmap t = bitmap s" and "bitmap_size t = bitmap_size s" and "total_frames t = total_frames s"
    and "free_frames t = free_frames s" and "first_free_frame t = first_free_frame s"
  shows "pmm_inv t = pmm_inv s"
  using assms by (simp add: pmm_inv_def Pmm.geometry_def used_set_def frame_used_def bitmap_word_def)

lemma core_steps:
  "mem (process_init t) = mem t" "mem (scheduler_init t) = mem t" "mem (snd (timer_init i t)) = mem t"
  "pmm_inv (process_init t) = pmm_inv t" "pmm_inv (scheduler_init t) = pmm_inv t" "pmm_inv (snd (timer_init i t)) = pmm_inv t"
proof -
  show "mem (process_init t) = mem t" "mem (scheduler_init t) = mem t" "mem (snd (timer_init i t)) = mem t"
    by (simp_all add: process_init_def scheduler_init_def timer_init_def update_process_def Let_def)
  show "pmm_inv (process_init t) = pmm_inv t" "pmm_inv (scheduler_init t) = pmm_inv t" "pmm_inv (snd (timer_init i t)) = pmm_inv t"
    by (rule pmm_inv_cong; simp add: process_init_def scheduler_init_def timer_init_def update_process_def Let_def)+
qed

lemma booted_timer:
  assumes "booted lc c"
  shows "booted lc (boot_timer c)"
proof -
  obtain i t where it: "timer_init (tables c) (get_core c) = (i, t)" by fastforce
  have "mem t = computer_memory (with_interrupts (\<lambda>_. i) c)" "pmm_inv t"
    using core_steps(3,6) [of "tables c" "get_core c"] booted_parts [OF assms] by (simp_all add: it)
  then show ?thesis using assms booted_interrupts [of lc "\<lambda>_. i" c] by (simp add: boot_timer_def it booted_core) (simp add: booted_def)
qed

lemma booted_with_core:
  assumes "booted lc c" and "mem (f (get_core c)) = mem (get_core c)" and "pmm_inv (f (get_core c)) = pmm_inv (get_core c)"
  shows "booted lc (with_core f c)"
  using booted_parts [OF assms(1)] assms(2,3) by (simp add: with_core_def booted_core)

lemma return_tables_parts [simp]:
  "core (return_tables s c) = core c" "hard_disk (return_tables s c) = hard_disk c" "key_input (return_tables s c) = key_input c"
  "interrupts_on (return_tables s c) = interrupts_on c" "computer_memory (return_tables s c) = computer_memory c"
  "interrupt_handlers (tables (return_tables s c)) = interrupt_handlers s" "idt (tables (return_tables s c)) = idt s"
  "ready lc (shell_part (return_tables s c)) = ready lc (shell_part c)"
  by (simp_all add: return_tables_def Let_def) (rule ready_cong; simp add: history_ok_def)

lemma keys_step:
  "length (buffer (keyboard_init k)) = length (buffer k)" "buffer_head (keyboard_init k) = 0" "buffer_tail (keyboard_init k) = 0"
  "interrupt_handlers (keyboard_init k) = (interrupt_handlers k)(33 := Some Keyboard_handler)" "idt (keyboard_init k) = idt k"
  "shift_pressed (keyboard_init k) = shift_pressed k" "caps_lock_on (keyboard_init k) = caps_lock_on k"
  "inputs (keyboard_init k) KEYBOARD_DATA_PORT = inputs k KEYBOARD_DATA_PORT"
  by (simp_all add: keyboard_init_def irq_clear_mask_def irq_port_def keyboard_buffer_init_def register_interrupt_handler_def
      inb_def outb_def Let_def KEYBOARD_DATA_PORT_def PIC1_DATA_def)

definition same_keys :: "keyboard \<Rightarrow> keyboard \<Rightarrow> bool" where
  "same_keys k k' \<longleftrightarrow> shift_pressed k' = shift_pressed k \<and> caps_lock_on k' = caps_lock_on k \<and>
     inputs k' KEYBOARD_DATA_PORT = inputs k KEYBOARD_DATA_PORT"

lemma booted_keys: "booted lc c \<Longrightarrow> booted lc (with_keys keyboard_init c)"
  by (simp add: booted_def with_keys_def Let_def keys_step get_core_def) (simp add: lend_tables_def)

lemma booted_other: "booted lc (c\<lparr>hard_disk := d\<rparr>) = booted lc c" "booted lc (c\<lparr>interrupts_on := b\<rparr>) = booted lc c"
  by (simp_all add: booted_def get_core_def)

lemma booted_devices: "booted lc c \<Longrightarrow> booted lc (boot_devices c)"
  unfolding boot_devices_def Let_def
  by (intro booted_print booted_keys booted_with_core booted_timer booted_other [THEN iffD2] core_steps)

lemma ready_fs_done:
  assumes "ready lc st"
  shows "ok lc (st\<lparr>sys := put_fs (fs_init (get_fs (sys st))) (sys st)\<rparr>)"
proof -
  define s where "s = put_fs (fs_init (get_fs (sys st))) (sys st)"
  have a: "areas (sys st)" "unat (lib_heap (sys_fs (sys st))) + 0x100000 < 4294967296"
    using assms by (auto simp: ready_def areas_def)
  have keep: "lib_mem (fs_init f) = lib_mem f" "lib_heap (fs_init f) = lib_heap f" for f :: filesystem
    by (simp_all add: fs_init_def Let_def fs_init_current_dir_def)
  have s: "memory s = memory (sys st)" "sys_heap s = sys_heap (sys st)" "lib_heap (sys_fs s) = lib_heap (sys_fs (sys st))"
    "syscall_count s = syscall_count (sys st)" "get_fs s = fs_init (get_fs (sys st))"
    unfolding s_def put_fs_def by (simp_all add: keep get_fs_def)
  have "fs_start (fs_init (get_fs (sys st)))"
    unfolding fs_start_def using assms a(2) by (intro exI [of _ "get_fs (sys st)"]) (simp add: ready_def, simp add: get_fs_def)
  then have "fs_inv (get_fs s)" unfolding s(5) by (rule fs_inv_start)
  moreover have "get_heap s = get_heap (sys st)" by (simp add: get_heap_def s)
  moreover have "areas s" using a(1) by (simp add: areas_def s)
  moreover have "apart a k s = apart a k (sys st)" for a k by (rule apart_cong) (simp_all add: s)
  ultimately show ?thesis
    using assms s(4) by (simp add: ok_def sys_inv_def ready_def shell_areas_def s_def [symmetric])
qed

lemma ok_syscall_init: "ok lc st \<Longrightarrow> ok lc (st\<lparr>sys := syscall_init h (sys st)\<rparr>)"
proof -
  assume "ok lc st"
  moreover have "sys_inv (syscall_init h (sys st)) = sys_inv (sys st)"
    by (simp add: sys_inv_def areas_def) (simp add: syscall_init_def get_heap_def get_fs_def)
  moreover have "apart a k (syscall_init h (sys st)) = apart a k (sys st)" for a k
    by (rule apart_cong) (simp_all add: syscall_init_def)
  ultimately show ?thesis by (simp add: ok_def shell_areas_def)
qed

lemma clear_buffer_memory:
  assumes "shell_areas lc st"
  shows "unchanged_outside (memory (sys st)) (memory (sys (clear_command_buffer st)))
    (unat (current_command st)) (unat (current_command st) + 72)"
proof -
  have "\<forall>i \<in> set js. 0 \<le> i \<and> i < 72 \<Longrightarrow>
      unchanged_outside (memory (sys s)) (memory (sys (fold (\<lambda>i. poke (current_command st + word_of_int i) 0) js s)))
        (unat (current_command st)) (unat (current_command st) + 72)" for js s
  proof (induction js arbitrary: s)
    case (Cons i js)
    have "unat (current_command st + word_of_int i) = unat (current_command st) + nat i" using current_cell [OF assms] Cons.prems by simp
    then have "unchanged_outside (memory (sys s)) (memory (sys (poke (current_command st + word_of_int i) 0 s)))
        (unat (current_command st)) (unat (current_command st) + 72)"
      using Cons.prems by (auto simp: unchanged_outside_def poke_def)
    then show ?case using Cons.IH Cons.prems unchanged_outside_trans by simp
  qed simp
  from this [of "[0..71]" st] show ?thesis by (simp add: clear_command_buffer_def Let_def MAX_COMMAND_LENGTH_def)
qed

lemma start_shell_memory:
  assumes "shell_areas lc st" and "unat (current_command st) + 72 \<le> 0x200000"
  shows "unchanged_outside (memory (sys st)) (memory (sys (start_shell st))) 0 0x200000"
proof -
  define s where "s = st\<lparr>screen := (screen st)\<lparr>cursor_row := 16, cursor_col := 0\<rparr>\<rparr>"
  have s: "shell_areas lc s" "memory (sys s) = memory (sys st)" "current_command s = current_command st"
    using assms(1) by (simp_all add: s_def shell_areas_def)
  have "screen (clear_command_buffer s) = screen s"
  proof -
    have "screen (fold (\<lambda>i. poke (a + word_of_int i) 0) js t) = screen t" for a js t by (induction js arbitrary: t) simp_all
    then show ?thesis by (simp add: clear_command_buffer_def Let_def)
  qed
  then have "- 1 \<le> cursor_row (screen (clear_command_buffer s))" by (simp add: s_def)
  from prompt_position(1) [OF this]
  have p: "unchanged_outside (memory (sys (clear_command_buffer s))) (memory (sys (start_shell st))) 0xB8000 0xB8FA0"
    by (simp add: beside_line_def start_shell_def s_def)
  have "unchanged_outside (memory (sys st)) (memory (sys (clear_command_buffer s))) 0 0x200000"
    using unchanged_outside_mono [OF clear_buffer_memory [OF s(1)], of 0 "0x200000"] assms(2) by (simp add: s)
  then show ?thesis by (rule unchanged_outside_trans [OF _ unchanged_outside_mono [OF p]]) simp_all
qed

section \<open>The interrupt table\<close>

lemma handlers_gates [simp]:
  "interrupt_handlers (idt_set_gate n h s a t) = interrupt_handlers t" "interrupt_handlers (pic_init t) = interrupt_handlers t"
  "interrupt_handlers (fold (\<lambda>i. idt_set_gate (of_nat i) (g i) s a) ns t) = interrupt_handlers t"
proof -
  show gate: "interrupt_handlers (idt_set_gate n h s a t) = interrupt_handlers t" for n h t by (simp add: idt_set_gate_def)
  show "interrupt_handlers (pic_init t) = interrupt_handlers t" by (simp add: pic_init_def inb_def outb_def Let_def)
  show "interrupt_handlers (fold (\<lambda>i. idt_set_gate (of_nat i) (g i) s a) ns t) = interrupt_handlers t"
    by (induction ns arbitrary: t) (simp_all add: gate)
qed

lemma serial_write_bytes_state: "serial_write_bytes w st = Some st' \<Longrightarrow> \<exists>i out. st' = st\<lparr>inputs := i, outputs := out\<rparr>"
proof (induction w arbitrary: st)
  case Nil
  then show ?case by (intro exI [of _ "inputs st"] exI [of _ "outputs st"]) simp
next
  case (Cons c cs)
  show ?case
  proof (cases "c = 0")
    case True
    then show ?thesis using Cons.prems by (intro exI [of _ "inputs st"] exI [of _ "outputs st"]) simp
  next
    case False
    then obtain t where t: "serial_wait st = Some t" "serial_write_bytes cs (outb SERIAL_COM1_PORT c t) = Some st'"
      using Cons.prems by (auto simp: serial_write_def bind_eq_Some_conv)
    obtain i where "t = st\<lparr>inputs := i\<rparr>" using serial_wait_state [OF t(1)] by blast
    moreover obtain j out where "st' = (outb SERIAL_COM1_PORT c t)\<lparr>inputs := j, outputs := out\<rparr>" using Cons.IH [OF t(2)] by blast
    ultimately show ?thesis by (intro exI [of _ j] exI [of _ out]) (simp add: outb_def)
  qed
qed

lemma serial_init_returns:
  assumes "line_live st"
  obtains st' where "serial_init st = Some st'" and "idt st' = idt st"
    and "interrupt_handlers st' = (interrupt_handlers st)(36 := Some Serial_interrupt_handler)"
proof -
  define greeting where "greeting = bytes_of ''Serial port initialized - aceOS debugging enabled'' @ [13, 10]"
  define s where "s = (irq_clear_mask 4 (register_interrupt_handler 36 Serial_interrupt_handler
    (outb 0x3F9 0x01 (outb 0x3FC 0x0B (outb 0x3FA 0xC7 (outb 0x3FB 0x03 (outb 0x3F9 0x00 (outb 0x3F8 0x03
      (outb 0x3FB 0x80 (outb 0x3F9 0x00 st))))))))))\<lparr>buffer_head := 0, buffer_tail := 0, serial_initialized := True\<rparr>"
  have run: "serial_init st = serial_write_string greeting s"
    unfolding serial_init_def Let_def greeting_def [symmetric] s_def [symmetric] by (rule refl)
  have s: "serial_initialized s" "inputs s LINE_STATUS = inputs st LINE_STATUS" "idt s = idt st"
    "interrupt_handlers s = (interrupt_handlers st)(36 := Some Serial_interrupt_handler)"
    by (simp_all add: s_def irq_clear_mask_def irq_port_def register_interrupt_handler_def inb_def outb_def Let_def
        LINE_STATUS_def PIC1_DATA_def)
  then have "line_live s" using assms by (simp add: line_live_def)
  then obtain st' where w: "serial_write_bytes greeting s = Some st'" using serial_write_bytes_live by blast
  then obtain i out where "st' = s\<lparr>inputs := i, outputs := out\<rparr>" using serial_write_bytes_state by blast
  then show ?thesis using that [of st'] w s by (simp add: run serial_write_string_def)
qed

section \<open>The start\<close>

text \<open>What holds when the main loop begins.\<close>

definition running :: "locals \<Rightarrow> computer \<Rightarrow> bool" where
  "running lc c \<longleftrightarrow> ok lc (shell_part c) \<and> history_ok (shell_part c) \<and> pmm_inv (get_core c) \<and>
     unat (current_command (shell_part c)) + 72 \<le> 0x200000"

lemma running_print: "running lc c \<Longrightarrow> running lc (print_line r w c)"
  using shell_step_output [where f = "k_print_string w WHITE_ON_BLACK r 0", OF output_only_string, of lc "shell_part c", THEN shell_step_ok]
    core_memory [of c "print_line r w c" "0xB8000" "0xB8FA0"]
    screen_memory_change [where f = "k_print_string w WHITE_ON_BLACK r 0", OF output_only_string, of c]
  by (simp add: running_def print_line_def) (simp add: on_display_def with_shell_def)

lemma running_fs:
  assumes "booted lc c"
  shows "running lc (with_shell (\<lambda>s. s\<lparr>sys := put_fs (fs_init (get_fs (sys s))) (sys s)\<rparr>) c)"
proof -
  have r: "ready lc (shell_part c)" and p: "pmm_inv (get_core c)" using assms by (simp_all add: booted_def)
  have "lib_mem (fs_init (get_fs (sys (shell_part c)))) = computer_memory c"
    by (simp add: fs_init_def Let_def fs_init_current_dir_def get_fs_def)
  then have "get_core (with_shell (\<lambda>s. s\<lparr>sys := put_fs (fs_init (get_fs (sys s))) (sys s)\<rparr>) c) = get_core c"
    by (simp add: get_core_def with_shell_def put_fs_def)
  then show ?thesis using ready_fs_done [OF r] r p by (simp add: running_def with_shell_def ready_def history_ok_def)
qed

lemma running_syscall: "running lc c \<Longrightarrow> running lc (with_shell (\<lambda>s. s\<lparr>sys := syscall_init h (sys s)\<rparr>) c)"
  using ok_syscall_init [of lc "shell_part c" h]
  by (simp add: running_def with_shell_def get_core_def history_ok_def) (simp add: syscall_init_def)

lemma shell_started:
  assumes "running lc c"
  shows "shell_inv lc (shell_part (with_shell start_shell c))" and "pmm_inv (get_core (with_shell start_shell c))"
proof -
  have r: "ok lc (shell_part c)" "history_ok (shell_part c)" "unat (current_command (shell_part c)) + 72 \<le> 0x200000"
    "pmm_inv (get_core c)" using assms by (simp_all add: running_def)
  show "shell_inv lc (shell_part (with_shell start_shell c))" using start_shell_inv [OF r(1,2)] by (simp add: with_shell_def)
  have "unchanged_outside (computer_memory c) (computer_memory (with_shell start_shell c)) 0 0x200000"
    using start_shell_memory [of lc "shell_part c"] r(1,3) by (simp add: ok_def with_shell_def)
  then show "pmm_inv (get_core (with_shell start_shell c))"
    by (intro core_memory [OF r(4), of _ 0 "0x200000"]) (simp_all add: with_shell_def)
qed

lemma boot_shell_running:
  assumes "booted lc c"
  shows "shell_inv lc (shell_part (boot_shell h c))" and "pmm_inv (get_core (boot_shell h c))"
proof -
  have *: "running lc (print_line 14 u (print_line 13 v (print_line 12 w
      (with_shell (\<lambda>s. s\<lparr>sys := syscall_init h (sys s)\<rparr>) (print_line 11 x
        (with_shell (\<lambda>s. s\<lparr>sys := put_fs (fs_init (get_fs (sys s))) (sys s)\<rparr>) (print_line 10 y c)))))))" for u v w x y
    by (intro running_print running_syscall running_fs booted_print assms)
  show "shell_inv lc (shell_part (boot_shell h c))" "pmm_inv (get_core (boot_shell h c))"
    unfolding boot_shell_def Let_def by (rule shell_started [OF *])+
qed

lemma tables_start_shell: "sys_interrupts (sys (start_shell st)) = sys_interrupts (sys st)"
proof -
  have p: "sys_interrupts (sys (fold (\<lambda>i. poke (a + word_of_int i) 0) js t)) = sys_interrupts (sys t)" for a js t
    by (induction js arbitrary: t) (simp_all add: poke_def)
  have o: "sys_interrupts (sys (on_screen_do f t)) = sys_interrupts (sys t)" for f t by (simp add: on_screen_do_def put_screen_def)
  show ?thesis
    by (simp add: start_shell_def print_shell_prompt_def clear_command_buffer_def Let_def say_def say_bytes_def say_at_def o p next_row_def)
qed

lemma boot_shell_parts:
  "core (boot_shell h c) = core c" "key_input (boot_shell h c) = key_input c" "interrupts_on (boot_shell h c) = interrupts_on c"
  "tables (boot_shell h c) = register_interrupt_handler 128 Syscall_handler (idt_set_gate 128 h 0x08 0xEE (tables c))"
proof -
  have s: "core (with_shell f c) = core c" "key_input (with_shell f c) = key_input c" "interrupts_on (with_shell f c) = interrupts_on c"
    for f c by (simp_all add: with_shell_def)
  have t: "tables (with_shell start_shell c) = tables c" for c by (simp add: with_shell_def tables_start_shell)
  have y: "tables (with_shell (\<lambda>s. s\<lparr>sys := syscall_init h (sys s)\<rparr>) c)
      = register_interrupt_handler 128 Syscall_handler (idt_set_gate 128 h 0x08 0xEE (tables c))" for c
    by (simp add: with_shell_def syscall_init_def)
  have f: "tables (with_shell (\<lambda>s. s\<lparr>sys := put_fs (fs_init (get_fs (sys s))) (sys s)\<rparr>) c) = tables c" for c
    by (simp add: with_shell_def put_fs_def)
  show "core (boot_shell h c) = core c" "key_input (boot_shell h c) = key_input c" "interrupts_on (boot_shell h c) = interrupts_on c"
    "tables (boot_shell h c) = register_interrupt_handler 128 Syscall_handler (idt_set_gate 128 h 0x08 0xEE (tables c))"
    by (simp_all only: boot_shell_def Let_def s t y f print_line_parts)
qed

text \<open>No step after \<open>sti\<close> touches the keyboard: its interrupts may come in before, between or after these steps.\<close>

lemma with_shell_keys: "with_shell f (key_interrupts irqs c) = key_interrupts irqs (with_shell f c)"
  by (simp add: with_shell_def key_interrupts_def)

lemma boot_shell_keys: "boot_shell h (key_interrupts irqs c) = key_interrupts irqs (boot_shell h c)"
  by (simp only: boot_shell_def print_line_def on_display_def with_shell_keys Let_def)

lemma key_interrupts_parts [simp]:
  "shell_part (key_interrupts irqs c) = shell_part c" "core (key_interrupts irqs c) = core c"
  "get_core (key_interrupts irqs c) = get_core c" "interrupts_on (key_interrupts irqs c) = interrupts_on c"
  "key_input (key_interrupts irqs c) = fold keyboard_handler irqs (key_input c)"
  by (simp_all add: key_interrupts_def get_core_def)

text \<open>The devices: the scheduler starts with the kernel's own process and an empty queue, the keyboard with
  an empty ring.\<close>

lemma boot_devices_parts:
  assumes "length (buffer (key_input c)) = 256"
  shows "sched_inv (core (boot_devices c)) []" and "current_process (core (boot_devices c)) = Some 0"
    and "ring_inv (key_input (boot_devices c))" and "ring_queue (key_input (boot_devices c)) = []"
    and "same_keys (key_input c) (key_input (boot_devices c))" and "interrupts_on (boot_devices c)"
    and "interrupt_handlers (tables (boot_devices c))
      = (interrupt_handlers (tables c))(32 := Some Timer_handler, 33 := Some Keyboard_handler)"
    and "idt (tables (boot_devices c)) = idt (tables c)"
proof -
  have w: "core (with_core f c) = f (get_core c)" "key_input (with_core f c) = key_input c" "tables (with_core f c) = tables c"
    "get_core (with_core f c) = f (get_core c)" for f c by (simp_all add: with_core_def)
  have t: "key_input (boot_timer c) = key_input c" "idt (tables (boot_timer c)) = idt (tables c)"
    "interrupt_handlers (tables (boot_timer c)) = (interrupt_handlers (tables c))(32 := Some Timer_handler)" for c
    by (simp_all add: boot_timer_def timer_init_def register_interrupt_handler_def timer_set_frequency_def outb_def Let_def)
  have k: "core (with_keys f c) = core c" "key_input (with_keys f c) = f (lend_tables (tables c) (key_input c))"
    "interrupt_handlers (tables (with_keys f c)) = interrupt_handlers (f (lend_tables (tables c) (key_input c)))"
    "idt (tables (with_keys f c)) = idt (f (lend_tables (tables c) (key_input c)))" for f c
    by (simp_all add: with_keys_def Let_def)
  have l: "interrupt_handlers (lend_tables i st) = interrupt_handlers i" "idt (lend_tables i st) = idt i"
    "buffer (lend_tables i st) = buffer st" "shift_pressed (lend_tables i st) = shift_pressed st"
    "caps_lock_on (lend_tables i st) = caps_lock_on st" "inputs (lend_tables i st) = inputs st" for i and st :: keyboard by (simp_all add: lend_tables_def)
  have d: "core (c\<lparr>hard_disk := x\<rparr>) = core c" "key_input (c\<lparr>hard_disk := x\<rparr>) = key_input c" "tables (c\<lparr>hard_disk := x\<rparr>) = tables c"
    "core (c\<lparr>interrupts_on := b\<rparr>) = core c" "key_input (c\<lparr>interrupts_on := b\<rparr>) = key_input c"
    "tables (c\<lparr>interrupts_on := b\<rparr>) = tables c" "interrupts_on (c\<lparr>interrupts_on := b\<rparr>) = b" for x b c by simp_all
  have "\<exists>X. core (boot_devices c) = scheduler_init (process_init (get_core X))"
    by (simp only: boot_devices_def Let_def w k d print_line_parts) blast
  then obtain X where X: "core (boot_devices c) = scheduler_init (process_init (get_core X))" by blast
  have "\<exists>i. key_input (boot_devices c) = keyboard_init (lend_tables i (key_input c))"
    by (simp only: boot_devices_def Let_def w k d t print_line_parts) blast
  then obtain i where i: "key_input (boot_devices c) = keyboard_init (lend_tables i (key_input c))" by blast
  show "interrupts_on (boot_devices c)" "idt (tables (boot_devices c)) = idt (tables c)"
    "interrupt_handlers (tables (boot_devices c)) = (interrupt_handlers (tables c))(32 := Some Timer_handler, 33 := Some Keyboard_handler)"
    by (simp_all only: boot_devices_def Let_def w k l d t keys_step print_line_parts)
  show "sched_inv (core (boot_devices c)) []" unfolding X by (rule init_sched_inv)
  show "current_process (core (boot_devices c)) = Some 0" by (simp add: X scheduler_init_def process_init_def Let_def)
  have b: "buffer_head (key_input (boot_devices c)) = 0" "buffer_tail (key_input (boot_devices c)) = 0"
    "length (buffer (key_input (boot_devices c))) = 256" using assms by (simp_all add: i keys_step l)
  show "ring_inv (key_input (boot_devices c))" "ring_queue (key_input (boot_devices c)) = []"
    using b by (simp_all add: ring_inv_def ring_queue_def ring_length_def)
  show "same_keys (key_input c) (key_input (boot_devices c))" by (simp add: same_keys_def i keys_step l)
qed

lemma kernel_start:
  assumes "loaded lc d c"
  shows "\<exists>c'. kernel_init idt_address stub early c = Some (key_interrupts early c') \<and> shell_inv lc (shell_part c') \<and> pmm_inv (get_core c') \<and>
    sched_inv (core c') [] \<and> current_process (core c') = Some 0 \<and>
    ring_inv (key_input c') \<and> ring_queue (key_input c') = [] \<and> same_keys (key_input c) (key_input c') \<and> interrupts_on c' \<and>
    interrupt_handlers (tables c') = (interrupt_handlers (tables c))(36 := Some Serial_interrupt_handler,
      32 := Some Timer_handler, 33 := Some Keyboard_handler, 128 := Some Syscall_handler) \<and>
    (\<forall>k. gate_target (idt (tables c') k) = (if unat k < 48 \<or> unat k = 128 then stub (unat k) else 0))"
proof -
  define c1 where "c1 = on_display clear_screen
    (on_display (\<lambda>t. fold (\<lambda>(i, v). video_put i v) [(10, 75), (11, 0x0F), (12, 77), (13, 0x0F)] t) c)"
  have z: "zeroed lc d c" and live: "line_live (sys_serial (sys (shell_part c)))" using assms by (simp_all add: loaded_def)
  have z1: "zeroed lc d c1" unfolding c1_def
  proof (intro zeroed_display z)
    show "- 2 \<le> cursor_row t \<Longrightarrow> - 2 \<le> cursor_row (clear_screen t)" for t by (rule output_only_screen(2) [OF output_only_clear])
    show "- 2 \<le> cursor_row t \<Longrightarrow> - 2 \<le> cursor_row (fold (\<lambda>(i, v). video_put i v) [(10, 75), (11, 0x0F), (12, 77), (13, 0x0F)] t)"
      for t :: terminal by (simp add: video_put_def)
  qed
  obtain s where s: "serial_init (lend_tables (tables c1) (sys_serial (sys (shell_part c1)))) = Some s"
    "interrupt_handlers s = (interrupt_handlers (tables c))(36 := Some Serial_interrupt_handler)"
    by (rule serial_init_returns [of "lend_tables (tables c1) (sys_serial (sys (shell_part c1)))"])
      (use live in \<open>simp_all add: line_live_def lend_tables_def c1_def\<close>)
  define c2 where "c2 = return_tables s (with_shell (\<lambda>st. st\<lparr>sys := (sys st)\<lparr>sys_serial := s\<rparr>\<rparr>) c1)"
  have serial: "with_serial serial_init c1 = Some c2" by (simp add: with_serial_def s c2_def)
  have z2: "zeroed lc d c2"
    by (rule zeroed_cong [OF z1]) (simp_all add: c2_def return_tables_def with_shell_def history_ok_def zeroed_row [OF z1])
  have h2: "interrupt_handlers (tables c2) = (interrupt_handlers (tables c))(36 := Some Serial_interrupt_handler)"
    by (simp add: c2_def s)
  define c3 where "c3 = print_line 2 (bytes_of ''Initializing interrupt system...'')
    (print_line 1 (bytes_of ''Advanced Memory, Multitasking, Disk I/O'' @ [10])
      (print_line 0 (bytes_of ''*** aceOS Enhanced v2.0 Loaded! ***'' @ [10]) (on_display vga_enable_cursor c2)))"
  have z3: "zeroed lc d c3" unfolding c3_def
    by (intro zeroed_print zeroed_display z2) (simp add: vga_enable_cursor_def outb_def)
  have t3: "tables c3 = tables c2" by (simp add: c3_def)
  define c4 where "c4 = print_line 3 (bytes_of ''Initializing memory management...'')
    (with_interrupts (isr_init stub) (with_interrupts (idt_init idt_address) c3))"
  have z4: "zeroed lc d c4" unfolding c4_def by (intro zeroed_print zeroed_interrupts z3)
  have t4: "tables c4 = isr_init stub (idt_init idt_address (tables c2))" by (simp add: c4_def t3)
  define c5 where "c5 = boot_devices (boot_memory c4)"
  have b: "booted lc (boot_memory c4)" by (rule boot_memory_booted [OF z4])
  then have len: "length (buffer (key_input (boot_memory c4))) = 256" by (simp add: booted_def)
  note dev = boot_devices_parts [OF len, folded c5_def]
  have k5: "key_input (boot_memory c4) = key_input c"
    by (simp add: boot_memory_def Let_def with_core_def c4_def c3_def c2_def c1_def) (simp add: with_shell_def put_core_def)
  have t5: "tables (boot_memory c4) = tables c4"
    by (simp add: boot_memory_def Let_def with_core_def) (simp add: with_shell_def put_core_def put_heap_def)
  have run: "kernel_init idt_address stub early c = Some (key_interrupts early (boot_shell (stub 128) c5))"
    unfolding kernel_init_def Let_def c1_def [symmetric] serial by (simp add: c3_def c4_def c5_def boot_shell_keys)
  have h4: "interrupt_handlers (tables c4) = interrupt_handlers (tables c2)"
    by (simp add: t4 isr_init_def idt_init_def Let_def)
  note sh = boot_shell_running [OF booted_devices [OF b], folded c5_def, of "stub 128"]
  have "gate_target (idt (tables (boot_shell (stub 128) c5)) k) = (if unat k < 48 \<or> unat k = 128 then stub (unat k) else 0)" for k
  proof (cases "k = 128")
    case True
    then show ?thesis by (simp add: boot_shell_parts register_interrupt_handler_def gate_target_set)
  next
    case False
    then have "idt (tables (boot_shell (stub 128) c5)) k = idt (isr_init stub (idt_init idt_address (tables c2))) k"
      by (simp add: boot_shell_parts register_interrupt_handler_def idt_set_gate_other dev(8) t5 t4)
    then show ?thesis using isr_init_gates [OF refl, of stub idt_address "tables c2" k] by simp
  qed
  moreover have "interrupt_handlers (tables (boot_shell (stub 128) c5)) = (interrupt_handlers (tables c))
      (36 := Some Serial_interrupt_handler, 32 := Some Timer_handler, 33 := Some Keyboard_handler, 128 := Some Syscall_handler)"
    by (simp add: boot_shell_parts register_interrupt_handler_def dev(7) t5 h4 h2)
  ultimately show ?thesis using sh dev run by (intro exI [of _ "boot_shell (stub 128) c5"]) (simp add: boot_shell_parts k5)
qed

section \<open>The main loop\<close>

section \<open>The main loop\<close>

text \<open>The keyboard interrupts between two rounds.\<close>

lemma keys_between:
  assumes "ring_inv k" and "length (ring_queue k) + length irqs \<le> 255"
  obtains out where "length out \<le> length irqs" and "ring_inv (fold keyboard_handler irqs k)"
    and "ring_queue (fold keyboard_handler irqs k) = ring_queue k @ out"
    and "\<And>n. typed (shift_pressed k) (caps_lock_on k) (scancodes (length irqs + n) k) =
      out @ typed (shift_pressed (fold keyboard_handler irqs k)) (caps_lock_on (fold keyboard_handler irqs k))
        (scancodes n (fold keyboard_handler irqs k))"
  using assms
proof (induction irqs arbitrary: k thesis)
  case Nil
  then show ?case by (intro Nil.prems(1) [of "[]"]) simp_all
next
  case (Cons r irqs)
  obtain out1 where s1: "length out1 \<le> 1" "ring_inv (keyboard_handler r k)" "ring_queue (keyboard_handler r k) = ring_queue k @ out1"
    "inputs (keyboard_handler r k) = inputs (snd (inb KEYBOARD_DATA_PORT k))"
    "\<And>bs. typed (shift_pressed k) (caps_lock_on k) (inputs k KEYBOARD_DATA_PORT 0 # bs)
      = out1 @ typed (shift_pressed (keyboard_handler r k)) (caps_lock_on (keyboard_handler r k)) bs"
    by (rule keyboard_handler_step [OF Cons.prems(2) _ refl refl, of r]) (use Cons.prems(3) in simp_all)
  have "length (ring_queue (keyboard_handler r k)) + length irqs \<le> 255" using s1(1) Cons.prems(3) by (simp only: s1(3)) simp
  then obtain out2 where s2: "length out2 \<le> length irqs" "ring_inv (fold keyboard_handler irqs (keyboard_handler r k))"
    "ring_queue (fold keyboard_handler irqs (keyboard_handler r k)) = ring_queue (keyboard_handler r k) @ out2"
    "\<And>n. typed (shift_pressed (keyboard_handler r k)) (caps_lock_on (keyboard_handler r k)) (scancodes (length irqs + n) (keyboard_handler r k)) =
      out2 @ typed (shift_pressed (fold keyboard_handler irqs (keyboard_handler r k)))
        (caps_lock_on (fold keyboard_handler irqs (keyboard_handler r k))) (scancodes n (fold keyboard_handler irqs (keyboard_handler r k)))"
    using Cons.IH [of "keyboard_handler r k"] s1(2) by blast
  have codes: "scancodes (length (r # irqs) + n) k = inputs k KEYBOARD_DATA_PORT 0 # scancodes (length irqs + n) (keyboard_handler r k)" for n
    by (simp add: scancodes_Suc) (simp add: scancodes_def s1(4))
  have "typed (shift_pressed k) (caps_lock_on k) (scancodes (length (r # irqs) + n) k) =
      (out1 @ out2) @ typed (shift_pressed (fold keyboard_handler (r # irqs) k))
        (caps_lock_on (fold keyboard_handler (r # irqs) k)) (scancodes n (fold keyboard_handler (r # irqs) k))" for n
    unfolding codes s1(5) s2(4) by simp
  then show ?case
    using s1(1) s2(1-3) s1(3) by (intro Cons.prems(1) [of "out1 @ out2"]) simp_all
qed

lemma scancodes_same: "same_keys k k' \<Longrightarrow> scancodes n k' = scancodes n k"
  by (simp add: scancodes_def same_keys_def)

lemma early_keys:
  assumes "ring_inv k" and "ring_queue k = []" and "length irqs \<le> 255" and "same_keys k0 k"
  shows "ring_inv (fold keyboard_handler irqs k)"
    and "ring_queue (fold keyboard_handler irqs k) = typed (shift_pressed k0) (caps_lock_on k0) (scancodes (length irqs) k0)"
    and "typed (shift_pressed k0) (caps_lock_on k0) (scancodes (length irqs + n) k0) = ring_queue (fold keyboard_handler irqs k) @
      typed (shift_pressed (fold keyboard_handler irqs k)) (caps_lock_on (fold keyboard_handler irqs k))
        (scancodes n (fold keyboard_handler irqs k))"
proof -
  have same: "scancodes n k = scancodes n k0" "shift_pressed k = shift_pressed k0" "caps_lock_on k = caps_lock_on k0" for n
    using scancodes_same [OF assms(4)] assms(4) by (simp_all add: same_keys_def)
  obtain out where out: "ring_inv (fold keyboard_handler irqs k)" "ring_queue (fold keyboard_handler irqs k) = ring_queue k @ out"
    "\<And>n. typed (shift_pressed k) (caps_lock_on k) (scancodes (length irqs + n) k) =
      out @ typed (shift_pressed (fold keyboard_handler irqs k)) (caps_lock_on (fold keyboard_handler irqs k))
        (scancodes n (fold keyboard_handler irqs k))"
    by (rule keys_between [OF assms(1), of irqs]) (use assms(2,3) in simp_all)
  show "ring_inv (fold keyboard_handler irqs k)" by (rule out(1))
  show "ring_queue (fold keyboard_handler irqs k) = typed (shift_pressed k0) (caps_lock_on k0) (scancodes (length irqs) k0)"
  proof -
    have "scancodes 0 k' = []" for k' :: keyboard by (simp add: scancodes_def)
    then show ?thesis using out(2) out(3) [of 0] assms(2) same by simp
  qed
  show "typed (shift_pressed k0) (caps_lock_on k0) (scancodes (length irqs + n) k0) = ring_queue (fold keyboard_handler irqs k) @
      typed (shift_pressed (fold keyboard_handler irqs k)) (caps_lock_on (fold keyboard_handler irqs k))
        (scancodes n (fold keyboard_handler irqs k))"
    using out(2) out(3) [of n] assms(2) same by simp
qed

lemma key_round_step:
  assumes "ring_inv (key_input c)" and "shell_inv lc (shell_part c)"
    and adm: "\<And>ch q. ring_queue (key_input c) = ch # q \<Longrightarrow> admissible ch (shell_part c)"
  obtains c' front where "key_round lc c = Some c'" and "ring_queue (key_input c) = front @ ring_queue (key_input c')"
    and "shell_loop lc front (shell_part c) = Some (shell_part c')" and "shell_inv lc (shell_part c')"
    and "ring_inv (key_input c')" and "shift_pressed (key_input c') = shift_pressed (key_input c)"
    and "caps_lock_on (key_input c') = caps_lock_on (key_input c)" and "inputs (key_input c') = inputs (key_input c)"
proof (cases "ring_queue (key_input c)")
  case Nil
  then have "key_round lc c = Some c" using keys.empty_queue [OF assms(1)] by (simp add: key_round_def)
  then show ?thesis using Nil assms(1,2) by (intro that [of c "[]"]) simp_all
next
  case (Cons ch q)
  obtain k where k: "keyboard_buffer_pop (key_input c) = (ch, k)" "ring_inv k" "ring_queue k = q"
    using keys.pop_queue [OF assms(1) Cons] by (metis prod.collapse)
  have ne: "\<not> keyboard_buffer_empty (key_input c)" using keys.empty_queue [OF assms(1)] Cons by simp
  have same: "shift_pressed k = shift_pressed (key_input c)" "caps_lock_on k = caps_lock_on (key_input c)" "inputs k = inputs (key_input c)"
    using k(1) ne by (auto simp: keyboard_buffer_pop_def keyboard_buffer_empty_def split: if_splits)
  have "keyboard_getchar [] (key_input c) = Some (ch, [], k)" using ne k(1) by (simp add: keyboard_getchar.simps)
  moreover obtain s where s: "shell_handle_input lc ch (shell_part c) = Some s" "shell_inv lc s"
    by (rule shell_key [OF assms(2) adm [OF Cons]])
  ultimately have "key_round lc c = Some (c\<lparr>shell_part := s, key_input := k\<rparr>)" using ne by (simp add: key_round_def)
  then show ?thesis using Cons k same s by (intro that [of "c\<lparr>shell_part := s, key_input := k\<rparr>" "[ch]"]) simp_all
qed

lemma main_loop_types:
  assumes "ring_inv (key_input c)" and "length (ring_queue (key_input c)) + length (concat rounds) \<le> 255"
    and "shell_inv lc (shell_part c)"
    and "keys = ring_queue (key_input c) @
      typed (shift_pressed (key_input c)) (caps_lock_on (key_input c)) (scancodes (length (concat rounds)) (key_input c))"
    and "\<And>pre ch post s. keys = pre @ ch # post \<Longrightarrow> shell_loop lc pre (shell_part c) = Some s \<Longrightarrow> admissible ch s"
  shows "\<exists>c' cs. main_loop lc rounds c = Some c' \<and> shell_loop lc cs (shell_part c) = Some (shell_part c') \<and>
    cs @ ring_queue (key_input c') = keys \<and> shell_inv lc (shell_part c')"
  using assms
proof (induction rounds arbitrary: c keys)
  case Nil
  then show ?case by (intro exI [of _ c] exI [of _ "[]"]) (simp add: scancodes_def)
next
  case (Cons irqs rounds)
  have adm: "admissible ch (shell_part c)" if "ring_queue (key_input c) = ch # q" for ch q
    using Cons.prems(5) [of "[]" ch _ "shell_part c"] Cons.prems(4) that by simp
  obtain c1 front where c1: "key_round lc c = Some c1" and front: "ring_queue (key_input c) = front @ ring_queue (key_input c1)"
    "shell_loop lc front (shell_part c) = Some (shell_part c1)" "shell_inv lc (shell_part c1)"
    "ring_inv (key_input c1)" "shift_pressed (key_input c1) = shift_pressed (key_input c)"
    "caps_lock_on (key_input c1) = caps_lock_on (key_input c)" "inputs (key_input c1) = inputs (key_input c)"
    by (rule key_round_step [OF Cons.prems(1,3) adm])
  define k where "k = fold keyboard_handler irqs (key_input c1)"
  have room: "length (ring_queue (key_input c1)) + length irqs + length (concat rounds) \<le> 255" using Cons.prems(2) front(1) by simp
  obtain out where out: "length out \<le> length irqs" "ring_inv k" "ring_queue k = ring_queue (key_input c1) @ out"
    "\<And>n. typed (shift_pressed (key_input c1)) (caps_lock_on (key_input c1)) (scancodes (length irqs + n) (key_input c1)) =
      out @ typed (shift_pressed k) (caps_lock_on k) (scancodes n k)"
    unfolding k_def by (rule keys_between [OF front(4), of irqs]) (use room that in auto)
  define rest where "rest = ring_queue k @ typed (shift_pressed k) (caps_lock_on k) (scancodes (length (concat rounds)) k)"
  have "scancodes n (key_input c1) = scancodes n (key_input c)" for n by (simp add: scancodes_def front(7))
  then have keys: "keys = front @ rest"
    using Cons.prems(4) front out(3) out(4) [of "length (concat rounds)"] by (simp add: rest_def)
  have kp: "key_input (key_interrupts irqs c1) = k" by (simp add: k_def)
  have "\<exists>c' cs. main_loop lc rounds (key_interrupts irqs c1) = Some c' \<and>
      shell_loop lc cs (shell_part (key_interrupts irqs c1)) = Some (shell_part c') \<and>
      cs @ ring_queue (key_input c') = rest \<and> shell_inv lc (shell_part c')"
  proof (rule Cons.IH)
    show "ring_inv (key_input (key_interrupts irqs c1))" using out(2) unfolding kp .
    show "length (ring_queue (key_input (key_interrupts irqs c1))) + length (concat rounds) \<le> 255"
      unfolding kp using out(1,3) room by simp
    show "shell_inv lc (shell_part (key_interrupts irqs c1))" using front(3) by simp
    show "rest = ring_queue (key_input (key_interrupts irqs c1)) @
      typed (shift_pressed (key_input (key_interrupts irqs c1))) (caps_lock_on (key_input (key_interrupts irqs c1)))
        (scancodes (length (concat rounds)) (key_input (key_interrupts irqs c1)))" unfolding kp rest_def ..
    fix pre ch post s
    assume "rest = pre @ ch # post" "shell_loop lc pre (shell_part (key_interrupts irqs c1)) = Some s"
    then show "admissible ch s"
      using Cons.prems(5) [of "front @ pre" ch post s] front(2) by (simp add: keys shell_loop_append)
  qed
  then obtain c' cs where "main_loop lc rounds (key_interrupts irqs c1) = Some c'"
    "shell_loop lc cs (shell_part c1) = Some (shell_part c')" "cs @ ring_queue (key_input c') = rest" "shell_inv lc (shell_part c')"
    by auto
  then show ?case using c1 front(2) by (intro exI [of _ c'] exI [of _ "front @ cs"]) (simp add: shell_loop_append keys)
qed

section \<open>The properties\<close>

text \<open>C3: The start of the kernel, on a machine that is \<open>loaded\<close>: static data is zero; the video memory, the
  command line and \<open>cat\<close>'s read buffer lie below the managed memory (2 MB) and apart from the 1 MB array
  of the C library's allocator, which lies there too, and the command line apart from the video memory; and
  the serial line keeps becoming ready. (The image that the Makefile links at 0x10000 is not such a
  machine: there the array of the allocator covers the video memory.) Then \<open>kernel_main\<close> reaches its loop,
  and there the invariants of the components hold together over the one memory they share: the shell with
  the kernel heap, the C library's heap and the file system; the frame allocator; the scheduler, with the
  kernel's own process running and none waiting; and the keyboard buffer, which holds what was typed from
  \<open>sti\<close> on, up to 255 interrupts. Interrupts are on, every handler is registered, and each of the
  vectors 0 to 47 and 128 leads to its stub, every other nowhere.\<close>

theorem kernel_init_invariants:
  assumes "loaded lc d c" and "length early \<le> 255"
  shows "\<exists>c'. kernel_init idt_address stub early c = Some c' \<and> shell_inv lc (shell_part c') \<and> pmm_inv (get_core c') \<and>
    sched_inv (core c') [] \<and> current_process (core c') = Some 0 \<and> ring_inv (key_input c') \<and>
    ring_queue (key_input c') = typed (shift_pressed (key_input c)) (caps_lock_on (key_input c)) (scancodes (length early) (key_input c)) \<and>
    interrupts_on c' \<and>
    interrupt_handlers (tables c') = (interrupt_handlers (tables c))(36 := Some Serial_interrupt_handler,
      32 := Some Timer_handler, 33 := Some Keyboard_handler, 128 := Some Syscall_handler) \<and>
    (\<forall>k. gate_target (idt (tables c') k) = (if unat k < 48 \<or> unat k = 128 then stub (unat k) else 0))"
proof -
  obtain c0 where c0: "kernel_init idt_address stub early c = Some (key_interrupts early c0)" "shell_inv lc (shell_part c0)"
    "pmm_inv (get_core c0)" "sched_inv (core c0) []" "current_process (core c0) = Some 0"
    "ring_inv (key_input c0)" "ring_queue (key_input c0) = []" "same_keys (key_input c) (key_input c0)" "interrupts_on c0"
    "interrupt_handlers (tables c0) = (interrupt_handlers (tables c))(36 := Some Serial_interrupt_handler,
      32 := Some Timer_handler, 33 := Some Keyboard_handler, 128 := Some Syscall_handler)"
    "\<forall>k. gate_target (idt (tables c0) k) = (if unat k < 48 \<or> unat k = 128 then stub (unat k) else 0)"
    using kernel_start [OF assms(1), of idt_address stub early] by blast
  have "ring_inv (fold keyboard_handler early (key_input c0)) \<and> ring_queue (fold keyboard_handler early (key_input c0)) =
      typed (shift_pressed (key_input c)) (caps_lock_on (key_input c)) (scancodes (length early) (key_input c))"
    using early_keys [OF c0(6,7) assms(2) c0(8)] by blast
  then show ?thesis using c0 by (intro exI [of _ "key_interrupts early c0"]) simp
qed

text \<open>C10: A whole session, on a machine that is \<open>loaded\<close> as above: the kernel starts, every round of its main
  loop ends, and the shell gets exactly the characters that the scancodes of the keyboard interrupts type, each
  once and in order, however the interrupts fall between \<open>sti\<close> and the rounds of the main loop, but for
  those still in the buffer (up to 255 interrupts, which always fit); and the shell, with both heaps and the
  file system, stays whole. Left out are lines that are not \<open>allowed\<close> when they are ended: the test of
  system calls, a heap test without room, \<open>mkdir\<close> with all 128 entries in use, and \<open>debug\<close> on a serial
  line that does not become ready again.\<close>

theorem kernel_session:
  assumes "loaded lc d c" and "length early + length (concat rounds) \<le> 255"
    and "keys = typed (shift_pressed (key_input c)) (caps_lock_on (key_input c))
      (scancodes (length early + length (concat rounds)) (key_input c))"
    and "\<And>c0 pre ch post s. kernel_init idt_address stub early c = Some c0 \<Longrightarrow> keys = pre @ ch # post \<Longrightarrow>
      shell_loop lc pre (shell_part c0) = Some s \<Longrightarrow> admissible ch s"
  shows "\<exists>c0 c' cs. kernel_init idt_address stub early c = Some c0 \<and> kernel_main idt_address stub lc early rounds c = Some c' \<and>
    shell_loop lc cs (shell_part c0) = Some (shell_part c') \<and> cs @ ring_queue (key_input c') = keys \<and> shell_inv lc (shell_part c')"
proof -
  obtain c1 where c1: "kernel_init idt_address stub early c = Some (key_interrupts early c1)" "shell_inv lc (shell_part c1)"
    "ring_inv (key_input c1)" "ring_queue (key_input c1) = []" "same_keys (key_input c) (key_input c1)"
    using kernel_start [OF assms(1), of idt_address stub early] by blast
  define c0 where "c0 = key_interrupts early c1"
  have "length early \<le> 255" using assms(2) by simp
  note k = early_keys [OF c1(3,4) this c1(5)]
  have room: "length (ring_queue (key_input c0)) + length (concat rounds) \<le> 255"
  proof -
    obtain out where "length out \<le> length early" "ring_queue (fold keyboard_handler early (key_input c1)) = ring_queue (key_input c1) @ out"
      by (rule keys_between [OF c1(3), of early]) (use c1(4) assms(2) in simp_all)
    then show ?thesis using c1(4) assms(2) by (simp add: c0_def)
  qed
  have "\<exists>c' cs. main_loop lc rounds c0 = Some c' \<and> shell_loop lc cs (shell_part c0) = Some (shell_part c') \<and>
    cs @ ring_queue (key_input c') = keys \<and> shell_inv lc (shell_part c')"
    by (rule main_loop_types [OF _ room])
      (use k(1) k(3) [of "length (concat rounds)"] c1(1,2) assms(3,4) in \<open>simp_all add: c0_def\<close>)
  then show ?thesis using c1(1) by (auto simp: kernel_main_def c0_def)
qed

section \<open>A machine to start\<close>

definition ex_computer :: computer where
  "ex_computer = \<lparr>shell_part = ex_shell\<lparr>sys := ex_system\<lparr>sys_fs := ex0\<lparr>lib_heap := 0x100000\<rparr>\<rparr>\<rparr>,
     core = timer_boot\<lparr>kernel_page_directory := 0x8000\<rparr>, hard_disk = ready_disk,
     key_input = keyboard_reset\<lparr>inputs := (\<lambda>_ _. 0x1E)\<rparr>, interrupts_on = False\<rparr>"

lemma ex_computer_loaded: "loaded ex_locals 0x8000 ex_computer"
proof -
  have "history_ok (shell_part ex_computer)"
    by (simp add: history_ok_def ex_computer_def ex_shell_def COMMAND_HISTORY_SIZE_def MAX_COMMAND_LENGTH_def)
  moreover have "line_live serial_reset" by (simp add: line_live_def serial_reset_def LSR_THRE_def) blast
  ultimately show ?thesis
    by (simp add: loaded_def zeroed_def Let_def low_def VIDEO_MEM_def)
      (simp add: ex_computer_def ex_shell_def ex_system_def ex0_def ex_locals_def ex_terminal_def timer_boot_def keyboard_reset_def)
qed

lemma kernel_init_invariants_witness:
  "\<exists>c'. kernel_init 0x9000 of_nat [undefined] ex_computer = Some c' \<and> shell_inv ex_locals (shell_part c') \<and>
     pmm_inv (get_core c') \<and> ring_queue (key_input c') = [97]"
proof -
  have "typed (shift_pressed (key_input ex_computer)) (caps_lock_on (key_input ex_computer))
      (scancodes (length [undefined :: registers]) (key_input ex_computer)) = [97]"
    by (simp add: ex_computer_def keyboard_reset_def scancodes_def KEY_LSHIFT_def KEY_RSHIFT_def KEY_CAPSLOCK_def
        key_character_def maps_numeric)
  then show ?thesis using kernel_init_invariants [OF ex_computer_loaded, of "[undefined]" "0x9000" of_nat] by auto
qed

text \<open>The key A is pressed while the kernel starts and again between the first round and the second.\<close>

lemma kernel_session_witness:
  "\<exists>c0 c' cs. kernel_init 0x9000 of_nat [undefined] ex_computer = Some c0 \<and>
     kernel_main 0x9000 of_nat ex_locals [undefined] [[undefined], []] ex_computer = Some c' \<and>
     shell_loop ex_locals cs (shell_part c0) = Some (shell_part c') \<and> cs @ ring_queue (key_input c') = [97, 97] \<and>
     shell_inv ex_locals (shell_part c')"
proof (rule kernel_session [OF ex_computer_loaded])
  show "[97, 97] = typed (shift_pressed (key_input ex_computer)) (caps_lock_on (key_input ex_computer))
      (scancodes (length [undefined :: registers] + length (concat [[undefined :: registers], []])) (key_input ex_computer))"
    by (simp add: ex_computer_def keyboard_reset_def scancodes_def KEY_LSHIFT_def KEY_RSHIFT_def KEY_CAPSLOCK_def
        key_character_def maps_numeric)
  fix c0 pre ch post s
  assume "[97, 97] = pre @ (ch :: u8) # post"
  then have "ch \<in> set [97, 97]" by (metis in_set_conv_decomp)
  then show "admissible ch s" by (simp add: admissible_def)
qed simp

end
