(* ===== verification/Graphics.thy ===== *)
theory Graphics
  imports CMemory Ports "HOL-Library.Monad_Syntax"
begin

text \<open>
  The graphics driver (\<open>drivers/graphics.c\<close>): 320 by 200 pixels of a byte in the video memory at 0xA0000,
  and on top of \<open>graphics_put_pixel\<close>, which clips, lines, rectangles, circles and text in an 8 by 8 font.
  Coordinates are C \<open>int\<close>s. In lines and circles, which double, multiply and accumulate them, every result is
  checked to fit in 32 bits, and one that does not is \<open>None\<close>: C leaves it undefined. In rectangles and text
  only an offset is added to a coordinate, and \<open>int\<close> is used as it is: the code computes the same as long as
  these sums fit in 32 bits. A string is the list of its bytes; \<open>char\<close> is signed. Waiting in an empty loop
  and what is logged on the serial port are left out.
\<close>

unbundle bit_operations_syntax

definition VGA_WIDTH :: int where "VGA_WIDTH = 320"
definition VGA_HEIGHT :: int where "VGA_HEIGHT = 200"
definition VGA_MEMORY :: u32 where "VGA_MEMORY = 0xA0000"
definition VGA_BUFFER_SIZE :: int where "VGA_BUFFER_SIZE = VGA_WIDTH * VGA_HEIGHT"
definition COLOR_BLACK :: u8 where "COLOR_BLACK = 0"
definition COLOR_BLUE :: u8 where "COLOR_BLUE = 1"
definition COLOR_LIGHT_GRAY :: u8 where "COLOR_LIGHT_GRAY = 7"
definition COLOR_DARK_GRAY :: u8 where "COLOR_DARK_GRAY = 8"
definition COLOR_LIGHT_BLUE :: u8 where "COLOR_LIGHT_BLUE = 9"
definition COLOR_RED :: u8 where "COLOR_RED = 4"
definition COLOR_YELLOW :: u8 where "COLOR_YELLOW = 14"
definition COLOR_WHITE :: u8 where "COLOR_WHITE = 15"

record graphics = io +
  gmem :: mem
  framebuffer :: u32
  current_mode :: int
  foreground_color :: u8
  background_color :: u8

section \<open>The font\<close>

definition font_table :: "(u8 \<times> u8 list) list" where
  "font_table =
    [(32, [0x00, 0x00, 0x00, 0x00, 0x00, 0x00, 0x00, 0x00]), (33, [0x18, 0x3C, 0x3C, 0x18, 0x18, 0x00, 0x18, 0x00]),
     (34, [0x36, 0x36, 0x00, 0x00, 0x00, 0x00, 0x00, 0x00]), (35, [0x36, 0x36, 0x7F, 0x36, 0x7F, 0x36, 0x36, 0x00]),
     (36, [0x0C, 0x3E, 0x03, 0x1E, 0x30, 0x1F, 0x0C, 0x00]), (37, [0x00, 0x63, 0x33, 0x18, 0x0C, 0x66, 0x63, 0x00]),
     (38, [0x1C, 0x36, 0x1C, 0x6E, 0x3B, 0x33, 0x6E, 0x00]), (39, [0x06, 0x06, 0x03, 0x00, 0x00, 0x00, 0x00, 0x00]),
     (40, [0x18, 0x0C, 0x06, 0x06, 0x06, 0x0C, 0x18, 0x00]), (41, [0x06, 0x0C, 0x18, 0x18, 0x18, 0x0C, 0x06, 0x00]),
     (42, [0x00, 0x66, 0x3C, 0xFF, 0x3C, 0x66, 0x00, 0x00]), (43, [0x00, 0x0C, 0x0C, 0x3F, 0x0C, 0x0C, 0x00, 0x00]),
     (44, [0x00, 0x00, 0x00, 0x00, 0x00, 0x0C, 0x06, 0x00]), (45, [0x00, 0x00, 0x00, 0x3F, 0x00, 0x00, 0x00, 0x00]),
     (46, [0x00, 0x00, 0x00, 0x00, 0x00, 0x0C, 0x0C, 0x00]), (47, [0x60, 0x30, 0x18, 0x0C, 0x06, 0x03, 0x01, 0x00]),
     (48, [0x3E, 0x63, 0x73, 0x7B, 0x6F, 0x67, 0x3E, 0x00]), (49, [0x0C, 0x0E, 0x0C, 0x0C, 0x0C, 0x0C, 0x3F, 0x00]),
     (50, [0x1E, 0x33, 0x30, 0x1C, 0x06, 0x33, 0x3F, 0x00]), (51, [0x1E, 0x33, 0x30, 0x1C, 0x30, 0x33, 0x1E, 0x00]),
     (52, [0x38, 0x3C, 0x36, 0x33, 0x7F, 0x30, 0x78, 0x00]), (53, [0x3F, 0x03, 0x1F, 0x30, 0x30, 0x33, 0x1E, 0x00]),
     (54, [0x1C, 0x06, 0x03, 0x1F, 0x33, 0x33, 0x1E, 0x00]), (55, [0x3F, 0x33, 0x30, 0x18, 0x0C, 0x0C, 0x0C, 0x00]),
     (56, [0x1E, 0x33, 0x33, 0x1E, 0x33, 0x33, 0x1E, 0x00]), (57, [0x1E, 0x33, 0x33, 0x3E, 0x30, 0x18, 0x0E, 0x00]),
     (58, [0x00, 0x0C, 0x0C, 0x00, 0x00, 0x0C, 0x0C, 0x00]), (59, [0x00, 0x0C, 0x0C, 0x00, 0x00, 0x0C, 0x06, 0x00]),
     (60, [0x18, 0x0C, 0x06, 0x03, 0x06, 0x0C, 0x18, 0x00]), (61, [0x00, 0x00, 0x3F, 0x00, 0x00, 0x3F, 0x00, 0x00]),
     (62, [0x06, 0x0C, 0x18, 0x30, 0x18, 0x0C, 0x06, 0x00]), (63, [0x1E, 0x33, 0x30, 0x18, 0x0C, 0x00, 0x0C, 0x00]),
     (64, [0x3E, 0x63, 0x7B, 0x7B, 0x7B, 0x03, 0x1E, 0x00]), (65, [0x0C, 0x1E, 0x33, 0x33, 0x3F, 0x33, 0x33, 0x00]),
     (66, [0x3F, 0x66, 0x66, 0x3E, 0x66, 0x66, 0x3F, 0x00]), (67, [0x3C, 0x66, 0x03, 0x03, 0x03, 0x66, 0x3C, 0x00]),
     (68, [0x1F, 0x36, 0x66, 0x66, 0x66, 0x36, 0x1F, 0x00]), (69, [0x7F, 0x46, 0x16, 0x1E, 0x16, 0x46, 0x7F, 0x00]),
     (70, [0x7F, 0x46, 0x16, 0x1E, 0x16, 0x06, 0x0F, 0x00]), (71, [0x3C, 0x66, 0x03, 0x03, 0x73, 0x66, 0x7C, 0x00]),
     (72, [0x33, 0x33, 0x33, 0x3F, 0x33, 0x33, 0x33, 0x00]), (73, [0x1E, 0x0C, 0x0C, 0x0C, 0x0C, 0x0C, 0x1E, 0x00]),
     (74, [0x78, 0x30, 0x30, 0x30, 0x33, 0x33, 0x1E, 0x00]), (75, [0x67, 0x66, 0x36, 0x1E, 0x36, 0x66, 0x67, 0x00]),
     (76, [0x0F, 0x06, 0x06, 0x06, 0x46, 0x66, 0x7F, 0x00]), (77, [0x63, 0x77, 0x7F, 0x7F, 0x6B, 0x63, 0x63, 0x00]),
     (78, [0x63, 0x67, 0x6F, 0x7B, 0x73, 0x63, 0x63, 0x00]), (79, [0x1C, 0x36, 0x63, 0x63, 0x63, 0x36, 0x1C, 0x00]),
     (80, [0x3F, 0x66, 0x66, 0x3E, 0x06, 0x06, 0x0F, 0x00]), (81, [0x1E, 0x33, 0x33, 0x33, 0x3B, 0x1E, 0x38, 0x00]),
     (82, [0x3F, 0x66, 0x66, 0x3E, 0x36, 0x66, 0x67, 0x00]), (83, [0x1E, 0x33, 0x07, 0x0E, 0x38, 0x33, 0x1E, 0x00]),
     (84, [0x3F, 0x2D, 0x0C, 0x0C, 0x0C, 0x0C, 0x1E, 0x00]), (85, [0x33, 0x33, 0x33, 0x33, 0x33, 0x33, 0x3F, 0x00]),
     (86, [0x33, 0x33, 0x33, 0x33, 0x33, 0x1E, 0x0C, 0x00]), (87, [0x63, 0x63, 0x63, 0x6B, 0x7F, 0x77, 0x63, 0x00]),
     (88, [0x63, 0x63, 0x36, 0x1C, 0x1C, 0x36, 0x63, 0x00]), (89, [0x33, 0x33, 0x33, 0x1E, 0x0C, 0x0C, 0x1E, 0x00]),
     (90, [0x7F, 0x63, 0x31, 0x18, 0x4C, 0x66, 0x7F, 0x00]), (97, [0x00, 0x00, 0x1E, 0x30, 0x3E, 0x33, 0x6E, 0x00]),
     (98, [0x07, 0x06, 0x06, 0x3E, 0x66, 0x66, 0x3B, 0x00]), (99, [0x00, 0x00, 0x1E, 0x33, 0x03, 0x33, 0x1E, 0x00]),
     (100, [0x38, 0x30, 0x30, 0x3E, 0x33, 0x33, 0x6E, 0x00]),
     (101, [0x00, 0x00, 0x1E, 0x33, 0x3F, 0x03, 0x1E, 0x00]),
     (102, [0x1C, 0x36, 0x06, 0x0F, 0x06, 0x06, 0x0F, 0x00]),
     (103, [0x00, 0x00, 0x6E, 0x33, 0x33, 0x3E, 0x30, 0x1F]),
     (104, [0x07, 0x06, 0x36, 0x6E, 0x66, 0x66, 0x67, 0x00]),
     (105, [0x0C, 0x00, 0x0E, 0x0C, 0x0C, 0x0C, 0x1E, 0x00]),
     (106, [0x30, 0x00, 0x30, 0x30, 0x30, 0x33, 0x33, 0x1E]),
     (107, [0x07, 0x06, 0x66, 0x36, 0x1E, 0x36, 0x67, 0x00]),
     (108, [0x0E, 0x0C, 0x0C, 0x0C, 0x0C, 0x0C, 0x1E, 0x00]),
     (109, [0x00, 0x00, 0x33, 0x7F, 0x7F, 0x6B, 0x63, 0x00]),
     (110, [0x00, 0x00, 0x1F, 0x33, 0x33, 0x33, 0x33, 0x00]),
     (111, [0x00, 0x00, 0x1E, 0x33, 0x33, 0x33, 0x1E, 0x00]),
     (112, [0x00, 0x00, 0x3B, 0x66, 0x66, 0x3E, 0x06, 0x0F]),
     (113, [0x00, 0x00, 0x6E, 0x33, 0x33, 0x3E, 0x30, 0x78]),
     (114, [0x00, 0x00, 0x3B, 0x6E, 0x66, 0x06, 0x0F, 0x00]),
     (115, [0x00, 0x00, 0x3E, 0x03, 0x1E, 0x30, 0x1F, 0x00]),
     (116, [0x08, 0x0C, 0x3E, 0x0C, 0x0C, 0x2C, 0x18, 0x00]),
     (117, [0x00, 0x00, 0x33, 0x33, 0x33, 0x33, 0x6E, 0x00]),
     (118, [0x00, 0x00, 0x33, 0x33, 0x33, 0x1E, 0x0C, 0x00]),
     (119, [0x00, 0x00, 0x63, 0x6B, 0x7F, 0x7F, 0x36, 0x00]),
     (120, [0x00, 0x00, 0x63, 0x36, 0x1C, 0x36, 0x63, 0x00]),
     (121, [0x00, 0x00, 0x33, 0x33, 0x33, 0x3E, 0x30, 0x1F]), (122, [0x00, 0x00, 0x3F, 0x19, 0x0C, 0x26, 0x3F, 0x00])]"

definition font_8x8 :: "u8 \<Rightarrow> u8 list" where
  "font_8x8 c = (case map_of font_table c of None \<Rightarrow> replicate 8 0 | Some glyph \<Rightarrow> glyph)"

section \<open>Pixels\<close>

definition vga_put :: "int \<Rightarrow> u8 \<Rightarrow> 'a graphics_scheme \<Rightarrow> 'a graphics_scheme" where
  "vga_put i color st = st\<lparr>gmem := (gmem st)(VGA_MEMORY + word_of_int i := color)\<rparr>"

definition graphics_put_pixel :: "int \<Rightarrow> int \<Rightarrow> u8 \<Rightarrow> 'a graphics_scheme \<Rightarrow> 'a graphics_scheme" where
  "graphics_put_pixel x y color st =
     (if 0 \<le> x \<and> x < VGA_WIDTH \<and> 0 \<le> y \<and> y < VGA_HEIGHT then vga_put (y * VGA_WIDTH + x) color st else st)"

definition graphics_get_pixel :: "int \<Rightarrow> int \<Rightarrow> 'a graphics_scheme \<Rightarrow> u8" where
  "graphics_get_pixel x y st =
     (if 0 \<le> x \<and> x < VGA_WIDTH \<and> 0 \<le> y \<and> y < VGA_HEIGHT
      then gmem st (framebuffer st + word_of_int (y * VGA_WIDTH + x)) else 0)"

definition graphics_clear_screen :: "u8 \<Rightarrow> 'a graphics_scheme \<Rightarrow> 'a graphics_scheme" where
  "graphics_clear_screen color st = fold (\<lambda>i. vga_put i color) [0..VGA_BUFFER_SIZE - 1] st"

section \<open>Shapes\<close>

text \<open>The value of a signed operation, if it fits in a 32-bit \<open>int\<close>.\<close>

definition c_int :: "int \<Rightarrow> int option" where
  "c_int i = (if - 2147483648 \<le> i \<and> i \<le> 2147483647 then Some i else None)"

text \<open>The loop of Bresenham's algorithm ends when it meets the end point, and need not.\<close>

partial_function (option) draw_line_loop ::
    "int \<Rightarrow> int \<Rightarrow> int \<Rightarrow> int \<Rightarrow> int \<Rightarrow> int \<Rightarrow> u8 \<Rightarrow> int \<Rightarrow> int \<Rightarrow> int \<Rightarrow> 'a graphics_scheme \<Rightarrow> 'a graphics_scheme option" where
  "draw_line_loop x2 y2 abs_dx abs_dy sx sy color x y err st =
     (let st = graphics_put_pixel x y color st
      in if x = x2 \<and> y = y2 then Some st
         else do {
           e2 \<leftarrow> c_int (2 * err);
           (err, x) \<leftarrow> (if e2 > - abs_dy then do { err \<leftarrow> c_int (err - abs_dy); x \<leftarrow> c_int (x + sx); Some (err, x) }
                      else Some (err, x));
           (err, y) \<leftarrow> (if e2 < abs_dx then do { err \<leftarrow> c_int (err + abs_dx); y \<leftarrow> c_int (y + sy); Some (err, y) }
                      else Some (err, y));
           draw_line_loop x2 y2 abs_dx abs_dy sx sy color x y err st
         })"

declare draw_line_loop.simps [code]

definition graphics_draw_line :: "int \<Rightarrow> int \<Rightarrow> int \<Rightarrow> int \<Rightarrow> u8 \<Rightarrow> 'a graphics_scheme \<Rightarrow> 'a graphics_scheme option" where
  "graphics_draw_line x1 y1 x2 y2 color st =
     do {
       dx \<leftarrow> c_int (x2 - x1);
       dy \<leftarrow> c_int (y2 - y1);
       abs_dx \<leftarrow> (if dx < 0 then c_int (- dx) else Some dx);
       abs_dy \<leftarrow> (if dy < 0 then c_int (- dy) else Some dy);
       let sx = (if dx > 0 then 1 else - 1);
       let sy = (if dy > 0 then 1 else - 1);
       err \<leftarrow> c_int (abs_dx - abs_dy);
       draw_line_loop x2 y2 abs_dx abs_dy sx sy color x1 y1 err st
     }"

definition graphics_draw_rect :: "int \<Rightarrow> int \<Rightarrow> int \<Rightarrow> int \<Rightarrow> u8 \<Rightarrow> 'a graphics_scheme \<Rightarrow> 'a graphics_scheme" where
  "graphics_draw_rect x y width height color st =
     (let st = fold (\<lambda>i st. graphics_put_pixel (x + i) (y + height - 1) color (graphics_put_pixel (x + i) y color st))
                 [0..width - 1] st
      in fold (\<lambda>i st. graphics_put_pixel (x + width - 1) (y + i) color (graphics_put_pixel x (y + i) color st))
           [0..height - 1] st)"

definition graphics_fill_rect :: "int \<Rightarrow> int \<Rightarrow> int \<Rightarrow> int \<Rightarrow> u8 \<Rightarrow> 'a graphics_scheme \<Rightarrow> 'a graphics_scheme" where
  "graphics_fill_rect x y width height color st =
     fold (\<lambda>dy. fold (\<lambda>dx. graphics_put_pixel (x + dx) (y + dy) color) [0..width - 1]) [0..height - 1] st"

definition eight_points :: "int \<Rightarrow> int \<Rightarrow> int \<Rightarrow> int \<Rightarrow> (int \<times> int) list" where
  "eight_points cx cy x y =
     [(cx + x, cy + y), (cx + x, cy - y), (cx - x, cy + y), (cx - x, cy - y),
      (cx + y, cy + x), (cx + y, cy - x), (cx - y, cy + x), (cx - y, cy - x)]"

definition put_points :: "u8 \<Rightarrow> (int \<times> int) list \<Rightarrow> 'a graphics_scheme \<Rightarrow> 'a graphics_scheme option" where
  "put_points color ps st =
     fold (\<lambda>(px, py) st. do { st \<leftarrow> st; px \<leftarrow> c_int px; py \<leftarrow> c_int py; Some (graphics_put_pixel px py color st) }) ps (Some st)"

function draw_circle_loop :: "int \<Rightarrow> int \<Rightarrow> u8 \<Rightarrow> int \<Rightarrow> int \<Rightarrow> int \<Rightarrow> 'a graphics_scheme \<Rightarrow> 'a graphics_scheme option" where
  "draw_circle_loop cx cy color x y d st =
     (if x \<le> y
      then do {
        st \<leftarrow> put_points color (eight_points cx cy x y) st;
        step \<leftarrow> (if d < 0 then Some x else c_int (x - y));
        twice \<leftarrow> c_int (2 * step);
        sum \<leftarrow> c_int (d + twice);
        d' \<leftarrow> c_int (sum + (if d < 0 then 3 else 5));
        y' \<leftarrow> (if d < 0 then Some y else c_int (y - 1));
        x' \<leftarrow> c_int (x + 1);
        draw_circle_loop cx cy color x' y' d' st
      }
      else Some st)"
  by pat_completeness auto
termination
  by (relation "measure (\<lambda>(cx, cy, color, x, y, d, st). nat (y + 1 - x))") (auto simp: c_int_def split: if_splits)

declare draw_circle_loop.simps [simp del]

definition graphics_draw_circle :: "int \<Rightarrow> int \<Rightarrow> int \<Rightarrow> u8 \<Rightarrow> 'a graphics_scheme \<Rightarrow> 'a graphics_scheme option" where
  "graphics_draw_circle cx cy radius color st =
     do { d \<leftarrow> c_int (1 - radius); draw_circle_loop cx cy color 0 radius d st }"

definition disc_pixel :: "int \<Rightarrow> int \<Rightarrow> int \<Rightarrow> u8 \<Rightarrow> int \<Rightarrow> int \<Rightarrow> 'a graphics_scheme \<Rightarrow> 'a graphics_scheme option" where
  "disc_pixel cx cy radius color y x st =
     do {
       xx \<leftarrow> c_int (x * x);
       yy \<leftarrow> c_int (y * y);
       square \<leftarrow> c_int (xx + yy);
       bound \<leftarrow> c_int (radius * radius);
       if square \<le> bound then do { px \<leftarrow> c_int (cx + x); py \<leftarrow> c_int (cy + y); Some (graphics_put_pixel px py color st) }
       else Some st
     }"

definition graphics_fill_circle :: "int \<Rightarrow> int \<Rightarrow> int \<Rightarrow> u8 \<Rightarrow> 'a graphics_scheme \<Rightarrow> 'a graphics_scheme option" where
  "graphics_fill_circle cx cy radius color st =
     do {
       first \<leftarrow> c_int (- radius);
       fold (\<lambda>y st. fold (\<lambda>x st. do { st \<leftarrow> st; disc_pixel cx cy radius color y x st }) [first..radius] st) [first..radius] (Some st)
     }"

section \<open>Text\<close>

text \<open>The letter A has a pattern of its own.\<close>

definition glyph_of :: "u8 \<Rightarrow> u8 list" where
  "glyph_of c = (if c = 65 then [0x18, 0x3C, 0x66, 0x66, 0x7E, 0x66, 0x66, 0x00] else font_8x8 c)"

definition graphics_draw_char :: "int \<Rightarrow> int \<Rightarrow> u8 \<Rightarrow> u8 \<Rightarrow> 'a graphics_scheme \<Rightarrow> 'a graphics_scheme" where
  "graphics_draw_char x y c color st =
     (if sint c < 0 \<or> sint c > 255 then st
      else fold (\<lambda>row. let byte = glyph_of c ! row in
        fold (\<lambda>col st. if byte AND push_bit col 1 \<noteq> 0 then graphics_put_pixel (x + int col) (y + int row) color st else st)
          [0..<8]) [0..<8] st)"

fun draw_string_loop :: "int \<Rightarrow> int \<Rightarrow> int \<Rightarrow> u8 list \<Rightarrow> u8 \<Rightarrow> 'a graphics_scheme \<Rightarrow> 'a graphics_scheme" where
  "draw_string_loop x pos_x y [] color st = st"
| "draw_string_loop x pos_x y (ch # str) color st =
     (if ch = 0 then st
      else if ch = 10 then draw_string_loop x x (y + 8) str color st
      else draw_string_loop x (pos_x + 8) y str color (graphics_draw_char pos_x y ch color st))"

definition graphics_draw_string :: "int \<Rightarrow> int \<Rightarrow> u8 list \<Rightarrow> u8 \<Rightarrow> 'a graphics_scheme \<Rightarrow> 'a graphics_scheme" where
  "graphics_draw_string x y str color st = draw_string_loop x x y str color st"

section \<open>Palette, modes and state\<close>

definition graphics_set_palette_color :: "u8 \<Rightarrow> u8 \<Rightarrow> u8 \<Rightarrow> u8 \<Rightarrow> 'a graphics_scheme \<Rightarrow> 'a graphics_scheme" where
  "graphics_set_palette_color index r g b st = outb 0x3C9 b (outb 0x3C9 g (outb 0x3C9 r (outb 0x3C8 index st)))"

definition graphics_set_default_palette :: "'a graphics_scheme \<Rightarrow> 'a graphics_scheme" where
  "graphics_set_default_palette st =
     (let st = fold (\<lambda>(i, r, g, b). graphics_set_palette_color i r g b)
            [(0, 0, 0, 0), (1, 0, 0, 42), (2, 0, 42, 0), (3, 0, 42, 42), (4, 42, 0, 0), (5, 42, 0, 42), (6, 42, 21, 0),
             (7, 42, 42, 42), (8, 21, 21, 21), (9, 21, 21, 63), (10, 21, 63, 21), (11, 21, 63, 63), (12, 63, 21, 21),
             (13, 63, 21, 63), (14, 63, 63, 21), (15, 63, 63, 63)] st
      in fold (\<lambda>i. let level = word_of_int ((i - 16) * 63 div 239)
                   in graphics_set_palette_color (word_of_int i) level level level) [16..255] st)"

definition outs :: "(u16 \<times> u8) list \<Rightarrow> 'a io_scheme \<Rightarrow> 'a io_scheme" where
  "outs ws st = fold (\<lambda>(port, v). outb port v) ws st"

definition mode13h_writes :: "(u16 \<times> u8) list" where
  "mode13h_writes =
    [(0x3C2, 0x63), (0x3C4, 0x00), (0x3C5, 0x01), (0x3C4, 0x01), (0x3C5, 0x01), (0x3C4, 0x02), (0x3C5, 0x0F),
     (0x3C4, 0x03), (0x3C5, 0x00), (0x3C4, 0x04), (0x3C5, 0x0E), (0x3C4, 0x00), (0x3C5, 0x03), (0x3D4, 0x03),
     (0x3D5, 0x80), (0x3D4, 0x11), (0x3D5, 0x00), (0x3D4, 0x00), (0x3D5, 0x5F), (0x3D4, 0x01), (0x3D5, 0x4F),
     (0x3D4, 0x02), (0x3D5, 0x50), (0x3D4, 0x03), (0x3D5, 0x82), (0x3D4, 0x04), (0x3D5, 0x54), (0x3D4, 0x05),
     (0x3D5, 0x80), (0x3D4, 0x06), (0x3D5, 0xBF), (0x3D4, 0x07), (0x3D5, 0x1F), (0x3D4, 0x08), (0x3D5, 0x00),
     (0x3D4, 0x09), (0x3D5, 0x41), (0x3D4, 0x0A), (0x3D5, 0x00), (0x3D4, 0x0B), (0x3D5, 0x00), (0x3D4, 0x0C),
     (0x3D5, 0x00), (0x3D4, 0x0D), (0x3D5, 0x00), (0x3D4, 0x0E), (0x3D5, 0x00), (0x3D4, 0x0F), (0x3D5, 0x00),
     (0x3D4, 0x10), (0x3D5, 0x9C), (0x3D4, 0x11), (0x3D5, 0x0E), (0x3D4, 0x12), (0x3D5, 0x8F), (0x3D4, 0x13),
     (0x3D5, 0x28), (0x3D4, 0x14), (0x3D5, 0x40), (0x3D4, 0x15), (0x3D5, 0x96), (0x3D4, 0x16), (0x3D5, 0xB9),
     (0x3D4, 0x17), (0x3D5, 0xA3), (0x3D4, 0x18), (0x3D5, 0xFF), (0x3CE, 0x00), (0x3CF, 0x00), (0x3CE, 0x01),
     (0x3CF, 0x00), (0x3CE, 0x02), (0x3CF, 0x00), (0x3CE, 0x03), (0x3CF, 0x00), (0x3CE, 0x04), (0x3CF, 0x00),
     (0x3CE, 0x05), (0x3CF, 0x40), (0x3CE, 0x06), (0x3CF, 0x05), (0x3CE, 0x07), (0x3CF, 0x0F), (0x3CE, 0x08),
     (0x3CF, 0xFF)]"

definition attribute_writes :: "(u16 \<times> u8) list" where
  "attribute_writes =
    [(0x3C0, 0x00), (0x3C0, 0x00), (0x3C0, 0x01), (0x3C0, 0x01), (0x3C0, 0x02), (0x3C0, 0x02), (0x3C0, 0x03),
     (0x3C0, 0x03), (0x3C0, 0x04), (0x3C0, 0x04), (0x3C0, 0x05), (0x3C0, 0x05), (0x3C0, 0x06), (0x3C0, 0x06),
     (0x3C0, 0x07), (0x3C0, 0x07), (0x3C0, 0x08), (0x3C0, 0x08), (0x3C0, 0x09), (0x3C0, 0x09), (0x3C0, 0x0A),
     (0x3C0, 0x0A), (0x3C0, 0x0B), (0x3C0, 0x0B), (0x3C0, 0x0C), (0x3C0, 0x0C), (0x3C0, 0x0D), (0x3C0, 0x0D),
     (0x3C0, 0x0E), (0x3C0, 0x0E), (0x3C0, 0x0F), (0x3C0, 0x0F), (0x3C0, 0x10), (0x3C0, 0x41), (0x3C0, 0x11),
     (0x3C0, 0x00), (0x3C0, 0x12), (0x3C0, 0x0F), (0x3C0, 0x13), (0x3C0, 0x00), (0x3C0, 0x14), (0x3C0, 0x00)]"

definition graphics_init :: "'a graphics_scheme \<Rightarrow> 'a graphics_scheme" where
  "graphics_init st = st\<lparr>framebuffer := VGA_MEMORY, current_mode := 3, foreground_color := COLOR_WHITE, background_color := COLOR_BLACK\<rparr>"

definition graphics_set_mode_13h :: "'a graphics_scheme \<Rightarrow> 'a graphics_scheme" where
  "graphics_set_mode_13h st =
     (let st = outs mode13h_writes st; st = snd (inb 0x3DA st); st = outs attribute_writes st;
          st = snd (inb 0x3DA st); st = outb 0x3C0 0x20 st;
          st = st\<lparr>current_mode := 13, framebuffer := VGA_MEMORY\<rparr>
      in graphics_clear_screen COLOR_BLACK (graphics_set_default_palette st))"

definition graphics_set_text_mode :: "'a graphics_scheme \<Rightarrow> 'a graphics_scheme" where
  "graphics_set_text_mode st = st\<lparr>current_mode := 3\<rparr>"

definition graphics_set_foreground_color :: "u8 \<Rightarrow> 'a graphics_scheme \<Rightarrow> 'a graphics_scheme" where
  "graphics_set_foreground_color color st = st\<lparr>foreground_color := color\<rparr>"

definition graphics_set_background_color :: "u8 \<Rightarrow> 'a graphics_scheme \<Rightarrow> 'a graphics_scheme" where
  "graphics_set_background_color color st = st\<lparr>background_color := color\<rparr>"

definition graphics_get_foreground_color :: "'a graphics_scheme \<Rightarrow> u8" where
  "graphics_get_foreground_color st = foreground_color st"

definition graphics_get_background_color :: "'a graphics_scheme \<Rightarrow> u8" where
  "graphics_get_background_color st = background_color st"

text \<open>The source may lie in the video memory: what was copied is read again.\<close>

definition graphics_copy_buffer ::
    "u32 \<Rightarrow> int \<Rightarrow> int \<Rightarrow> int \<Rightarrow> int \<Rightarrow> int \<Rightarrow> int \<Rightarrow> int \<Rightarrow> 'a graphics_scheme \<Rightarrow> 'a graphics_scheme" where
  "graphics_copy_buffer src src_x src_y src_width dst_x dst_y width height st =
     fold (\<lambda>y. fold (\<lambda>x st. let pixel = gmem st (src + word_of_int ((src_y + y) * src_width + (src_x + x)))
         in graphics_put_pixel (dst_x + x) (dst_y + y) pixel st) [0..width - 1]) [0..height - 1] st"

definition graphics_swap_buffers :: "'a graphics_scheme \<Rightarrow> 'a graphics_scheme" where
  "graphics_swap_buffers st = st"

end
