(* ===== verification/Gui.thy ===== *)
theory Gui
  imports Graphics Keyboard CStdlib Slots
begin

text \<open>
  The window system (\<open>kernel/gui.c\<close>): up to sixteen windows, allocated from the C library's heap, drawn over
  a desktop and driven by the keyboard. A window is the structure of 76 bytes as the compiler lays it out:
  number at offset 0, title at 4, bounds at 36 to 48, state at 52, content buffer at 56, next window at 60,
  owner at 64, visibility at 68 and depth at 72. The video memory, the heap and the windows are one memory,
  that of \<open>gui_libc\<close>, lent to the display for drawing. A string argument is the list of its bytes. What is
  only logged on the serial port and the empty loop that waits are left out; what happens between two rounds
  of the main loop (interrupts, other processes) is its argument.
\<close>

definition MAX_WINDOWS :: nat where "MAX_WINDOWS = 16"
definition WINDOW_TITLE_HEIGHT :: int where "WINDOW_TITLE_HEIGHT = 20"
definition WINDOW_BORDER_WIDTH :: int where "WINDOW_BORDER_WIDTH = 2"
definition WINDOW_STATE_NORMAL :: u32 where "WINDOW_STATE_NORMAL = 1"

record gui =
  gui_libc :: libc
  display :: graphics
  keypad :: keyboard
  windows :: "u32 list"
  active_window :: u32
  window_count :: nat
  next_window_id :: u32
  desktop_initialized :: bool
  mouse_pos :: "int \<times> int"
  mouse_buttons :: int
  gui_running :: bool
  window_counter :: int
  running_process :: u32

abbreviation gui_mem :: "gui \<Rightarrow> mem" where
  "gui_mem st \<equiv> lib_mem (gui_libc st)"

section \<open>Drawing\<close>

definition try_drawing :: "(graphics \<Rightarrow> graphics option) \<Rightarrow> gui \<Rightarrow> gui option" where
  "try_drawing f st = map_option (\<lambda>t. st\<lparr>display := t, gui_libc := (gui_libc st)\<lparr>lib_mem := gmem t\<rparr>\<rparr>)
     (f ((display st)\<lparr>gmem := gui_mem st\<rparr>))"

definition drawing :: "(graphics \<Rightarrow> graphics) \<Rightarrow> gui \<Rightarrow> gui" where
  "drawing f st = (let t = f ((display st)\<lparr>gmem := gui_mem st\<rparr>)
     in st\<lparr>display := t, gui_libc := (gui_libc st)\<lparr>lib_mem := gmem t\<rparr>\<rparr>)"

section \<open>The fields of a window\<close>

definition win_x :: "u32 \<Rightarrow> gui \<Rightarrow> int" where "win_x w st = sint (load32 (gui_mem st) (w + 36))"
definition win_y :: "u32 \<Rightarrow> gui \<Rightarrow> int" where "win_y w st = sint (load32 (gui_mem st) (w + 40))"
definition win_width :: "u32 \<Rightarrow> gui \<Rightarrow> int" where "win_width w st = sint (load32 (gui_mem st) (w + 44))"
definition win_height :: "u32 \<Rightarrow> gui \<Rightarrow> int" where "win_height w st = sint (load32 (gui_mem st) (w + 48))"
definition win_content :: "u32 \<Rightarrow> gui \<Rightarrow> u32" where "win_content w st = load32 (gui_mem st) (w + 56)"
definition win_visible :: "u32 \<Rightarrow> gui \<Rightarrow> bool" where "win_visible w st \<longleftrightarrow> load32 (gui_mem st) (w + 68) \<noteq> 0"

definition string_at :: "mem \<Rightarrow> u32 \<Rightarrow> u8 list option" where
  "string_at m p = map_option (\<lambda>n. map (\<lambda>i. m (p + of_nat i)) [0..<unat n]) (strlen m p)"

section \<open>Desktop and windows\<close>

definition gui_init :: "gui \<Rightarrow> gui" where
  "gui_init st = st\<lparr>windows := replicate MAX_WINDOWS 0, active_window := 0, window_count := 0, next_window_id := 1,
     mouse_pos := (VGA_WIDTH div 2, VGA_HEIGHT div 2), mouse_buttons := 0, desktop_initialized := True\<rparr>"

definition desktop_grid :: "graphics \<Rightarrow> graphics option" where
  "desktop_grid st =
     (let st = fold (\<lambda>k st. Option.bind st (graphics_draw_line (20 * k) 0 (20 * k) (VGA_HEIGHT - 1) COLOR_DARK_GRAY))
            [0..15] (Some (graphics_clear_screen COLOR_LIGHT_GRAY st))
      in fold (\<lambda>k st. Option.bind st (graphics_draw_line 0 (20 * k) (VGA_WIDTH - 1) (20 * k) COLOR_DARK_GRAY)) [0..9] st)"

definition gui_draw_desktop :: "gui \<Rightarrow> gui option" where
  "gui_draw_desktop st =
     map_option (\<lambda>st.
       let st = drawing (graphics_fill_rect 0 0 VGA_WIDTH 20 COLOR_BLUE) st;
           st = drawing (graphics_draw_string 5 5 (bytes_of ''aceOS Desktop Environment'') COLOR_WHITE) st
       in drawing (graphics_draw_string (VGA_WIDTH - 100) 5 (bytes_of ''GUI Active'') COLOR_YELLOW) st)
     (try_drawing desktop_grid st)"

definition content_area :: "u32 \<Rightarrow> gui \<Rightarrow> gui" where
  "content_area w st =
     drawing (graphics_fill_rect (win_x w st + WINDOW_BORDER_WIDTH) (win_y w st + WINDOW_TITLE_HEIGHT)
       (win_width w st - 2 * WINDOW_BORDER_WIDTH) (win_height w st - WINDOW_TITLE_HEIGHT - WINDOW_BORDER_WIDTH) COLOR_WHITE) st"

definition gui_draw_window :: "u32 \<Rightarrow> gui \<Rightarrow> gui option" where
  "gui_draw_window w st =
     (if w = 0 \<or> \<not> win_visible w st then Some st
      else
        let st = drawing (graphics_draw_rect (win_x w st) (win_y w st) (win_width w st) (win_height w st) COLOR_DARK_GRAY) st;
            st = drawing (graphics_fill_rect (win_x w st + 1) (win_y w st + 1) (win_width w st - 2)
                   (WINDOW_TITLE_HEIGHT - 1) COLOR_BLUE) st
        in map_option (\<lambda>title.
             let st = drawing (graphics_draw_string (win_x w st + 5) (win_y w st + 5) title COLOR_WHITE) st;
                 close_x = win_x w st + win_width w st - 15; close_y = win_y w st + 5;
                 st = drawing (graphics_draw_string close_x close_y (bytes_of ''X'') COLOR_RED) st
             in content_area w st) (string_at (gui_mem st) (w + 4)))"

definition gui_draw_all_windows :: "gui \<Rightarrow> gui option" where
  "gui_draw_all_windows st =
     fold (\<lambda>i st. Option.bind st (\<lambda>st. if windows st ! i \<noteq> 0 then gui_draw_window (windows st ! i) st else Some st))
       [0..<window_count st] (Some st)"

text \<open>\<open>strncpy\<close> of the title, padded to 31 bytes, and the NUL.\<close>

definition put_title :: "u32 \<Rightarrow> u8 list \<Rightarrow> mem \<Rightarrow> mem" where
  "put_title p title m =
     (let t = takeWhile (\<lambda>c. c \<noteq> 0) title
      in (fold (\<lambda>i m. m(p + of_nat i := (if i < length t then t ! i else 0))) [0..<31] m)(p + 31 := 0))"

definition init_window :: "u32 \<Rightarrow> u8 list \<Rightarrow> int \<Rightarrow> int \<Rightarrow> int \<Rightarrow> int \<Rightarrow> gui \<Rightarrow> mem \<Rightarrow> mem" where
  "init_window w title x y width height st m =
     (let m = store32 m w (next_window_id st);
          m = put_title (w + 4) title m;
          m = store32 m (w + 36) (word_of_int x);
          m = store32 m (w + 40) (word_of_int y);
          m = store32 m (w + 44) (word_of_int width);
          m = store32 m (w + 48) (word_of_int height);
          m = store32 m (w + 52) WINDOW_STATE_NORMAL;
          m = store32 m (w + 68) 1;
          m = store32 m (w + 72) (of_nat (window_count st));
          m = store32 m (w + 64) (running_process st)
      in store32 m (w + 60) 0)"

definition gui_create_window :: "u8 list \<Rightarrow> int \<Rightarrow> int \<Rightarrow> int \<Rightarrow> int \<Rightarrow> gui \<Rightarrow> (u32 \<times> gui) option" where
  "gui_create_window title x y width height st =
     (if MAX_WINDOWS \<le> window_count st then Some (0, st)
      else map_option (\<lambda>(w, l).
        if w = 0 then (0, st\<lparr>gui_libc := l\<rparr>)
        else (w, st\<lparr>gui_libc := l\<lparr>lib_mem := init_window w title x y width height st (lib_mem l)\<rparr>,
                    next_window_id := next_window_id st + 1, windows := (windows st)[window_count st := w],
                    window_count := window_count st + 1, active_window := w\<rparr>)) (malloc 76 (gui_libc st)))"

definition remove_window :: "u32 \<Rightarrow> gui \<Rightarrow> gui" where
  "remove_window w st =
     (case find (\<lambda>i. windows st ! i = w) [0..<window_count st] of
        None \<Rightarrow> st
      | Some i \<Rightarrow>
          st\<lparr>windows := (shift_down i (window_count st - 1 - i) (windows st))[window_count st - 1 := 0],
             window_count := window_count st - 1\<rparr>)"

definition gui_destroy_window :: "u32 \<Rightarrow> gui \<Rightarrow> gui option" where
  "gui_destroy_window w st =
     (if w = 0 then Some st
      else
        let st = remove_window w st;
            st = (if active_window st = w
                  then st\<lparr>active_window := (if window_count st > 0 then windows st ! (window_count st - 1) else 0)\<rparr> else st)
        in Option.bind (if win_content w st \<noteq> 0 then free (win_content w st) (gui_libc st) else Some (gui_libc st))
             (\<lambda>l. map_option (\<lambda>l. st\<lparr>gui_libc := l\<rparr>) (free w l)))"

section \<open>Input and the main loop\<close>

definition redraw :: "gui \<Rightarrow> gui option" where
  "redraw st = Option.bind (gui_draw_desktop st) gui_draw_all_windows"

definition gui_handle_keyboard_input :: "gui \<Rightarrow> gui option" where
  "gui_handle_keyboard_input st =
     (if keyboard_buffer_empty (keypad st) then Some st
      else Option.bind (keyboard_getchar [] (keypad st)) (\<lambda>(c, _, k).
        let st = st\<lparr>keypad := k\<rparr>
        in if c = 27 then Some ((drawing graphics_set_text_mode st)\<lparr>gui_running := False\<rparr>)
           else if c = 113 \<or> c = 81 then
             (if active_window st \<noteq> 0 then Option.bind (gui_destroy_window (active_window st) st) redraw else Some st)
           else if c = 110 \<or> c = 78 then
             Option.bind (itoa (word_of_int (window_counter st)) 10) (\<lambda>number.
               let st = st\<lparr>window_counter := window_counter st + 1\<rparr>;
                   x = 30 + (window_counter st * 20) mod 100; y = 40 + (window_counter st * 15) mod 80
               in Option.bind (gui_create_window (bytes_of ''Window '' @ number) x y 180 120 st) (\<lambda>(new_window, st).
                    if new_window \<noteq> 0 then redraw st else Some st))
           else Some st))"

definition gui_handle_mouse_input :: "gui \<Rightarrow> gui" where
  "gui_handle_mouse_input st = st"

definition gui_update_screen :: "gui \<Rightarrow> gui" where
  "gui_update_screen st = st"

text \<open>The rounds of the loop; it is left with the list of rounds still to come.\<close>

fun gui_rounds :: "(gui \<Rightarrow> gui) list \<Rightarrow> gui \<Rightarrow> ((gui \<Rightarrow> gui) list \<times> gui) option" where
  "gui_rounds [] st = Some ([], st)"
| "gui_rounds (others # rest) st =
     (if gui_running st
      then Option.bind (gui_handle_keyboard_input st)
             (\<lambda>st. gui_rounds rest (others (gui_update_screen (gui_handle_mouse_input st))))
      else Some (others # rest, st))"

definition gui_main_loop :: "(gui \<Rightarrow> gui) list \<Rightarrow> gui \<Rightarrow> ((gui \<Rightarrow> gui) list \<times> gui) option" where
  "gui_main_loop rounds st = gui_rounds rounds (st\<lparr>gui_running := True\<rparr>)"

definition gui_process_main :: "(gui \<Rightarrow> gui) list \<Rightarrow> gui \<Rightarrow> ((gui \<Rightarrow> gui) list \<times> gui) option" where
  "gui_process_main rounds st =
     (let st = drawing graphics_set_default_palette (drawing graphics_set_mode_13h (gui_init st))
      in Option.bind (gui_draw_desktop st) (\<lambda>st.
         Option.bind (gui_create_window (bytes_of ''aceOS Desktop'') 50 50 200 150 st) (\<lambda>(w, st).
           let st = (if w \<noteq> 0
                     then let st = content_area w st;
                              st = drawing (graphics_draw_string (win_x w st + 10) (win_y w st + WINDOW_TITLE_HEIGHT + 10)
                                     (bytes_of ''Welcome to aceOS!'') COLOR_BLACK) st
                          in drawing (graphics_draw_string (win_x w st + 10) (win_y w st + WINDOW_TITLE_HEIGHT + 25)
                               (bytes_of ''GUI System Active'') COLOR_BLACK) st
                     else st)
           in gui_main_loop rounds st)))"

end
