(* ===== verification/GraphicsProps.thy ===== *)
theory GraphicsProps
  imports Graphics
begin

text \<open>
  What the drawing operations paint: each sets the pixels of a figure, as far as they are on the screen, and
  changes nothing else in memory. The figures are given without the algorithms: the pixel nearest to
  the line in every column or row, the points nearest to the circle.
\<close>

section \<open>Painting\<close>

definition on_vga :: "int \<Rightarrow> int \<Rightarrow> bool" where
  "on_vga x y \<longleftrightarrow> 0 \<le> x \<and> x < 320 \<and> 0 \<le> y \<and> y < 200"

definition pixel :: "mem \<Rightarrow> int \<Rightarrow> int \<Rightarrow> u8" where
  "pixel m x y = m (VGA_MEMORY + word_of_int (y * 320 + x))"

definition painted :: "'a graphics_scheme \<Rightarrow> 'a graphics_scheme \<Rightarrow> (int \<Rightarrow> int \<Rightarrow> bool) \<Rightarrow> u8 \<Rightarrow> bool" where
  "painted st st' figure color \<longleftrightarrow>
     (\<exists>m'. st' = st\<lparr>gmem := m'\<rparr> \<and> unchanged_outside (gmem st) m' 0xA0000 0xAFA00 \<and>
        (\<forall>x y. on_vga x y \<longrightarrow> pixel m' x y = (if figure x y then color else pixel (gmem st) x y)))"

lemma painted_refl: "painted st st (\<lambda>_ _. False) c"
  unfolding painted_def by (intro exI [of _ "gmem st"]) simp

lemma painted_trans:
  assumes "painted st s P c" and "painted s t Q c"
  shows "painted st t (\<lambda>x y. P x y \<or> Q x y) c"
proof -
  obtain m where m: "s = st\<lparr>gmem := m\<rparr>" "unchanged_outside (gmem st) m 0xA0000 0xAFA00"
    "\<forall>x y. on_vga x y \<longrightarrow> pixel m x y = (if P x y then c else pixel (gmem st) x y)" using assms(1) unfolding painted_def by blast
  obtain m' where m': "t = s\<lparr>gmem := m'\<rparr>" "unchanged_outside (gmem s) m' 0xA0000 0xAFA00"
    "\<forall>x y. on_vga x y \<longrightarrow> pixel m' x y = (if Q x y then c else pixel (gmem s) x y)" using assms(2) unfolding painted_def by blast
  have "unchanged_outside (gmem st) m' 0xA0000 0xAFA00" using unchanged_outside_trans [OF m(2)] m'(2) m(1) by simp
  then show ?thesis unfolding painted_def using m m' by (intro exI [of _ m']) simp
qed

lemma painted_cong: "painted st st' P c \<Longrightarrow> (\<And>x y. on_vga x y \<Longrightarrow> P x y = Q x y) \<Longrightarrow> painted st st' Q c"
  unfolding painted_def by (elim exE) (intro exI, auto)

lemma painted_fold:
  assumes "\<And>k s. k \<in> set ks \<Longrightarrow> painted s (f k s) (P k) c"
  shows "painted st (fold f ks st) (\<lambda>x y. \<exists>k \<in> set ks. P k x y) c"
  using assms
proof (induction ks arbitrary: st)
  case (Cons k ks)
  have "painted st (fold f ks (f k st)) (\<lambda>x y. P k x y \<or> (\<exists>k \<in> set ks. P k x y)) c"
    using Cons by (intro painted_trans [of st "f k st"]) simp_all
  then show ?case by (simp add: painted_cong)
qed (simp add: painted_refl)

lemma painted_if:
  "(b \<Longrightarrow> painted st s P c) \<Longrightarrow> painted st (if b then s else st) (\<lambda>x y. b \<and> P x y) c"
  by (cases b) (simp_all add: painted_refl)

lemma unat_pixel:
  assumes "on_vga x y"
  shows "unat (VGA_MEMORY + word_of_int (y * 320 + x)) = 0xA0000 + nat (y * 320 + x)"
proof -
  have n: "0 \<le> y * 320 + x" "y * 320 + x < 64000" using assms by (auto simp: on_vga_def)
  have "unat (of_nat 0xA0000 + of_nat (nat (y * 320 + x)) :: u32) = 0xA0000 + nat (y * 320 + x)"
    using n by (intro unat_of_nat_add_u32) linarith
  then show ?thesis using n(1) by (simp add: VGA_MEMORY_def)
qed

lemma painted_put: "painted st (graphics_put_pixel px py c st) (\<lambda>x y. x = px \<and> y = py) c"
proof (cases "on_vga px py")
  case False
  then show ?thesis
    by (auto simp: graphics_put_pixel_def on_vga_def VGA_WIDTH_def VGA_HEIGHT_def intro: painted_cong [OF painted_refl])
next
  case True
  define a where "a = VGA_MEMORY + word_of_int (py * 320 + px)"
  have a: "unat a = 0xA0000 + nat (py * 320 + px)" using unat_pixel [OF True] by (simp add: a_def)
  have put: "graphics_put_pixel px py c st = st\<lparr>gmem := (gmem st)(a := c)\<rparr>"
    using True by (simp add: graphics_put_pixel_def vga_put_def on_vga_def VGA_WIDTH_def VGA_HEIGHT_def a_def)
  have u: "unchanged_outside (gmem st) ((gmem st)(a := c)) 0xA0000 0xAFA00"
    using a True by (auto simp: unchanged_outside_def on_vga_def)
  have "VGA_MEMORY + word_of_int (y * 320 + x) = a \<longleftrightarrow> x = px \<and> y = py" if "on_vga x y" for x y
  proof
    assume "VGA_MEMORY + word_of_int (y * 320 + x) = a"
    then have "nat (y * 320 + x) = nat (py * 320 + px)" using unat_pixel [OF that] a by simp
    moreover have "0 \<le> y * 320 + x" "0 \<le> py * 320 + px" using that True by (simp_all add: on_vga_def)
    ultimately have "y * 320 + x = py * 320 + px" by (simp only: eq_nat_nat_iff)
    moreover have "(y * 320 + x) div 320 = y" "(py * 320 + px) div 320 = py"
      using that True by (simp_all add: on_vga_def div_pos_pos_trivial)
    ultimately show "x = px \<and> y = py" by simp
  qed (simp add: a_def)
  then show ?thesis
    unfolding painted_def put by (intro exI [of _ "(gmem st)(a := c)"]) (use u in \<open>simp add: pixel_def\<close>)
qed

section \<open>Filled shapes and frames\<close>

lemma painted_clear: "painted st (graphics_clear_screen c st) (\<lambda>_ _. True) c"
proof -
  have put: "painted s (vga_put i c s) (\<lambda>x y. x = i mod 320 \<and> y = i div 320) c" if "i \<in> set [0..63999]" for i s
  proof -
    have "on_vga (i mod 320) (i div 320)" using that by (auto simp: on_vga_def)
    then have "graphics_put_pixel (i mod 320) (i div 320) c s = vga_put i c s"
      by (simp add: graphics_put_pixel_def on_vga_def VGA_WIDTH_def VGA_HEIGHT_def)
    then show ?thesis using painted_put [of s "i mod 320" "i div 320" c] by simp
  qed
  have "painted st (graphics_clear_screen c st) (\<lambda>x y. \<exists>i \<in> set [0..63999]. x = i mod 320 \<and> y = i div 320) c"
    unfolding graphics_clear_screen_def VGA_BUFFER_SIZE_def VGA_WIDTH_def VGA_HEIGHT_def
    using painted_fold [of "[0..63999]" "\<lambda>i. vga_put i c", OF put] by simp
  then show ?thesis
  proof (rule painted_cong)
    fix x y assume "on_vga x y"
    then show "(\<exists>i \<in> set [0..63999]. x = i mod 320 \<and> y = i div 320) = True"
      by (intro iffI bexI [of _ "y * 320 + x"]) (auto simp: on_vga_def)
  qed
qed

lemma ranges:
  "(\<exists>j \<in> set [a..b]. \<exists>i \<in> set [c..d]. Q i j \<and> px = x + i \<and> py = y + j) \<longleftrightarrow>
    a \<le> py - y \<and> py - y \<le> b \<and> c \<le> px - x \<and> px - x \<le> d \<and> Q (px - x) (py - y)" for x y :: int
proof
  assume "a \<le> py - y \<and> py - y \<le> b \<and> c \<le> px - x \<and> px - x \<le> d \<and> Q (px - x) (py - y)"
  then have "px - x \<in> set [c..d]" "py - y \<in> set [a..b]" "Q (px - x) (py - y) \<and> px = x + (px - x) \<and> py = y + (py - y)" by simp_all
  then show "\<exists>j \<in> set [a..b]. \<exists>i \<in> set [c..d]. Q i j \<and> px = x + i \<and> py = y + j" by blast
qed auto

lemma painted_fill_rect:
  "painted st (graphics_fill_rect x y w h c st) (\<lambda>px py. x \<le> px \<and> px < x + w \<and> y \<le> py \<and> py < y + h) c"
  unfolding graphics_fill_rect_def
proof (rule painted_cong [OF painted_fold [OF painted_fold [OF painted_put]]])
  show "(\<exists>dy \<in> set [0..h - 1]. \<exists>dx \<in> set [0..w - 1]. px = x + dx \<and> py = y + dy) = (x \<le> px \<and> px < x + w \<and> y \<le> py \<and> py < y + h)" for px py
    using ranges [of 0 "h - 1" 0 "w - 1" "\<lambda>_ _. True" px x py y] by auto
qed

text \<open>A sum, difference or product that fits in an \<open>int\<close>.\<close>

lemma c_int_fits: "\<bar>i\<bar> \<le> 2147483647 \<Longrightarrow> c_int i = Some i"
  by (auto simp: c_int_def)

lemma painted_fold_option:
  assumes "\<And>k s. k \<in> set ks \<Longrightarrow> \<exists>s'. f k s = Some s' \<and> painted s s' (P k) c"
    and "\<And>k s. k \<in> set ks \<Longrightarrow> g k (Some s) = f k s"
  shows "\<exists>st'. fold g ks (Some st) = Some st' \<and> painted st st' (\<lambda>x y. \<exists>k \<in> set ks. P k x y) c"
  using assms
proof (induction ks arbitrary: st)
  case (Cons k ks)
  obtain s where s: "f k st = Some s" "painted st s (P k) c" using Cons.prems(1) [of k] by auto
  obtain st' where st': "fold g ks (Some s) = Some st'" "painted s st' (\<lambda>x y. \<exists>k \<in> set ks. P k x y) c"
    using Cons.IH [of s] Cons.prems by auto
  have "painted st st' (\<lambda>x y. P k x y \<or> (\<exists>k \<in> set ks. P k x y)) c" by (rule painted_trans [OF s(2) st'(2)])
  then show ?case using s(1) st'(1) Cons.prems(2) [of k st] by (simp add: painted_cong)
qed (simp add: painted_refl)

lemma square_bound: "\<bar>a\<bar> \<le> r \<Longrightarrow> a * a \<le> r * r" for a r :: int
  using abs_le_square_iff [of a r] by (simp add: power2_eq_square)

lemma painted_disc_pixel:
  assumes "0 \<le> r" and "r \<le> 32767" and "\<bar>cx\<bar> \<le> 1073741824" and "\<bar>cy\<bar> \<le> 1073741824" and "\<bar>x\<bar> \<le> r" and "\<bar>y\<bar> \<le> r"
  shows "\<exists>st'. disc_pixel cx cy r c y x st = Some st' \<and>
    painted st st' (\<lambda>px py. x * x + y * y \<le> r * r \<and> px = cx + x \<and> py = cy + y) c"
proof -
  have "r * r \<le> 32767 * 32767" using assms(1,2) by (intro mult_mono) simp_all
  then have sq: "x * x \<le> 1073676289" "y * y \<le> 1073676289" "r * r \<le> 1073676289"
    using square_bound [OF assms(5)] square_bound [OF assms(6)] by linarith+
  moreover have "0 \<le> x * x" "0 \<le> y * y" "0 \<le> r * r" by simp_all
  ultimately have "c_int (x * x) = Some (x * x)" "c_int (y * y) = Some (y * y)" "c_int (x * x + y * y) = Some (x * x + y * y)"
    "c_int (r * r) = Some (r * r)" "c_int (cx + x) = Some (cx + x)" "c_int (cy + y) = Some (cy + y)"
    using assms by (intro c_int_fits; linarith)+
  then have "disc_pixel cx cy r c y x st = Some (if x * x + y * y \<le> r * r then graphics_put_pixel (cx + x) (cy + y) c st else st)"
    by (simp add: disc_pixel_def)
  then show ?thesis using painted_if [OF painted_put] by blast
qed

lemma painted_fill_circle:
  assumes "0 \<le> r" and "r \<le> 32767" and "\<bar>cx\<bar> \<le> 1073741824" and "\<bar>cy\<bar> \<le> 1073741824"
  shows "\<exists>st'. graphics_fill_circle cx cy r c st = Some st' \<and> painted st st' (\<lambda>px py. (px - cx)\<^sup>2 + (py - cy)\<^sup>2 \<le> r\<^sup>2) c"
proof -
  have first: "c_int (- r) = Some (- r)" using assms(1,2) by (intro c_int_fits) linarith
  have row: "\<exists>st'. fold (\<lambda>x st. st \<bind> disc_pixel cx cy r c y x) [- r..r] (Some s) = Some st' \<and>
      painted s st' (\<lambda>px py. \<exists>x \<in> set [- r..r]. x * x + y * y \<le> r * r \<and> px = cx + x \<and> py = cy + y) c"
    if "y \<in> set [- r..r]" for y s
    by (rule painted_fold_option [of _ "disc_pixel cx cy r c y"]) (use that in \<open>auto intro!: painted_disc_pixel assms\<close>)
  have "\<exists>st'. graphics_fill_circle cx cy r c st = Some st' \<and> painted st st'
      (\<lambda>px py. \<exists>y \<in> set [- r..r]. \<exists>x \<in> set [- r..r]. x * x + y * y \<le> r * r \<and> px = cx + x \<and> py = cy + y) c"
    unfolding graphics_fill_circle_def first bind.bind_lunit
    by (rule painted_fold_option [OF row]) simp_all
  moreover have bound: "- r \<le> a \<and> a \<le> r" if "a\<^sup>2 + b\<^sup>2 \<le> r\<^sup>2" for a b :: int
  proof -
    have "a\<^sup>2 \<le> r\<^sup>2" using that zero_le_power2 [of b] by linarith
    then show ?thesis using assms abs_le_square_iff [of a r] by (simp add: abs_le_iff)
  qed
  have "(\<exists>y \<in> set [- r..r]. \<exists>x \<in> set [- r..r]. x * x + y * y \<le> r * r \<and> px = cx + x \<and> py = cy + y) =
      ((px - cx)\<^sup>2 + (py - cy)\<^sup>2 \<le> r\<^sup>2)" for px py
    using ranges [of "- r" r "- r" r "\<lambda>x y. x * x + y * y \<le> r * r" px cx py cy] bound [of "px - cx" "py - cy"] bound [of "py - cy" "px - cx"]
    by (auto simp: power2_eq_square add.commute)
  ultimately show ?thesis by simp
qed

lemma painted_draw_rect:
  assumes "0 < w" and "0 < h"
  shows "painted st (graphics_draw_rect x y w h c st)
    (\<lambda>px py. x \<le> px \<and> px < x + w \<and> y \<le> py \<and> py < y + h \<and> (px = x \<or> px = x + w - 1 \<or> py = y \<or> py = y + h - 1)) c"
  unfolding graphics_draw_rect_def Let_def
proof (rule painted_cong [OF painted_trans [OF painted_fold [OF painted_trans [OF painted_put painted_put]]
      painted_fold [OF painted_trans [OF painted_put painted_put]]]])
  show "((\<exists>i \<in> set [0..w - 1]. (px = x + i \<and> py = y) \<or> (px = x + i \<and> py = y + h - 1)) \<or>
      (\<exists>i \<in> set [0..h - 1]. (px = x \<and> py = y + i) \<or> (px = x + w - 1 \<and> py = y + i))) =
      (x \<le> px \<and> px < x + w \<and> y \<le> py \<and> py < y + h \<and> (px = x \<or> px = x + w - 1 \<or> py = y \<or> py = y + h - 1))" for px py
    using assms by (auto intro: bexI [of _ "px - x"] bexI [of _ "py - y"])
qed

section \<open>Lines\<close>

text \<open>On a line of \<open>long\<close> steps one way and \<open>short\<close> the other, the nearest position after \<open>n\<close> steps; half way it is
  the nearer to the start.\<close>

definition nearest :: "int \<Rightarrow> int \<Rightarrow> int \<Rightarrow> int" where
  "nearest long short n = (2 * n * short + long - 1) div (2 * long)"

definition line_points :: "int \<Rightarrow> int \<Rightarrow> int \<Rightarrow> int \<Rightarrow> (int \<times> int) list" where
  "line_points x1 y1 x2 y2 =
     (let dx = \<bar>x2 - x1\<bar>; dy = \<bar>y2 - y1\<bar>; sx = (if x1 < x2 then 1 else - 1); sy = (if y1 < y2 then 1 else - 1)
      in if dy \<le> dx then map (\<lambda>n. (x1 + sx * n, y1 + sy * nearest dx dy n)) [0..dx]
         else map (\<lambda>n. (x1 + sx * nearest dy dx n, y1 + sy * n)) [0..dy])"

lemma nearest_bounds:
  assumes "0 < a"
  shows "2 * n * b - a \<le> 2 * a * nearest a b n" and "2 * a * nearest a b n < 2 * n * b + a"
proof -
  define q where "q = 2 * n * b + a - 1"
  have "2 * a * (q div (2 * a)) + q mod (2 * a) = q" by (rule mult_div_mod_eq)
  moreover have "0 \<le> q mod (2 * a)" "q mod (2 * a) < 2 * a" using assms by simp_all
  ultimately have "2 * a * (q div (2 * a)) \<le> q" "q < 2 * a * (q div (2 * a)) + 2 * a" by linarith+
  then have "2 * a * nearest a b n \<le> q" "q < 2 * a * nearest a b n + 2 * a" by (simp_all only: nearest_def q_def)
  then show "2 * n * b - a \<le> 2 * a * nearest a b n" and "2 * a * nearest a b n < 2 * n * b + a"
    by (simp_all add: q_def)
qed

lemma nearest_unique:
  assumes "0 < a" and "2 * n * b - a \<le> 2 * a * k" and "2 * a * k < 2 * n * b + a"
  shows "nearest a b n = k"
proof -
  note nb = nearest_bounds [OF assms(1), where n = n and b = b]
  have "2 * a * nearest a b n < 2 * a * (k + 1)" "2 * a * k < 2 * a * (nearest a b n + 1)"
    using nb assms(2,3) by (simp_all add: algebra_simps)
  then have "nearest a b n < k + 1" "k < nearest a b n + 1" using assms(1) by simp_all
  then show ?thesis by linarith
qed

text \<open>One step of the algorithm: the long way always, the short way when that is nearer.\<close>

lemma nearest_step:
  assumes "0 < a" and "0 \<le> b" and "b \<le> a"
    and e_def: "e = (nearest a b n + 1) * a - (n + 1) * b"
  shows "- b < 2 * e" and "nearest a b (n + 1) = nearest a b n + (if 2 * e < a then 1 else 0)"
proof -
  define k where "k = nearest a b n"
  have k: "2 * n * b - a \<le> 2 * a * k" "2 * a * k < 2 * n * b + a" unfolding k_def by (rule nearest_bounds [OF assms(1)])+
  have e: "2 * e = 2 * a * k + 2 * a - 2 * n * b - 2 * b" by (simp add: e_def k_def algebra_simps)
  have le: "- b \<le> 2 * e" using k(1) e assms(3) by linarith
  have "2 * e \<noteq> - b"
  proof
    assume *: "2 * e = - b"
    then have "a = b" using k(1) e assms(3) by linarith
    then have "a * (2 * k + 1 - 2 * n) = 0" using * e by (simp add: algebra_simps)
    then have "2 * k + 1 = 2 * n" using assms(1) by simp
    then show False by presburger
  qed
  then show "- b < 2 * e" using le by linarith
  show "nearest a b (n + 1) = nearest a b n + (if 2 * e < a then 1 else 0)"
  proof (cases "2 * e < a")
    case True
    have "nearest a b (n + 1) = k + 1"
    proof (rule nearest_unique [OF assms(1)])
      have l: "2 * (n + 1) * b = 2 * n * b + 2 * b" "2 * a * (k + 1) = 2 * a * k + 2 * a" by (simp_all add: algebra_simps)
      show "2 * (n + 1) * b - a \<le> 2 * a * (k + 1)" unfolding l using k(1) assms(2,3) by linarith
      show "2 * a * (k + 1) < 2 * (n + 1) * b + a" unfolding l using True e by linarith
    qed
    then show ?thesis using True by (simp add: k_def)
  next
    case False
    have "nearest a b (n + 1) = k"
    proof (rule nearest_unique [OF assms(1)])
      have l: "2 * (n + 1) * b = 2 * n * b + 2 * b" by (simp add: algebra_simps)
      show "2 * (n + 1) * b - a \<le> 2 * a * k" unfolding l using False e by linarith
      show "2 * a * k < 2 * (n + 1) * b + a" unfolding l using k(2) assms(2) by linarith
    qed
    then show ?thesis using False by (simp add: k_def)
  qed
qed

lemma nearest_ends:
  assumes "0 \<le> a" and "0 \<le> b" and "b \<le> a"
  shows "nearest a b 0 = 0" and "nearest a b a = b"
proof -
  show "nearest a b 0 = 0"
    using assms(1) by (cases "a = 0") (simp add: nearest_def, intro nearest_unique, simp_all)
  show "nearest a b a = b"
    using assms by (cases "a = 0") (simp add: nearest_def, intro nearest_unique, simp_all)
qed

definition plot :: "u8 \<Rightarrow> (int \<times> int) list \<Rightarrow> 'a graphics_scheme \<Rightarrow> 'a graphics_scheme" where
  "plot c ps st = fold (\<lambda>(x, y). graphics_put_pixel x y c) ps st"

lemma painted_plot: "painted st (plot c ps st) (\<lambda>x y. (x, y) \<in> set ps) c"
proof -
  have "painted st (plot c ps st) (\<lambda>x y. \<exists>p \<in> set ps. x = fst p \<and> y = snd p) c"
    unfolding plot_def by (rule painted_fold) (simp add: split_beta painted_put)
  then show ?thesis by (rule painted_cong) force
qed

text \<open>Where everything fits in 32 bits, a round of the loop is that of the algorithm on integers.\<close>

lemma draw_line_round:
  assumes "\<not> (x = x2 \<and> y = y2)" and "\<bar>2 * err\<bar> \<le> 2147483647" and "\<bar>err - b\<bar> \<le> 2147483647"
    and "\<bar>err + a\<bar> \<le> 2147483647" and "\<bar>err - b + a\<bar> \<le> 2147483647" and "\<bar>x + sx\<bar> \<le> 2147483647" and "\<bar>y + sy\<bar> \<le> 2147483647"
  shows "draw_line_loop x2 y2 a b sx sy c x y err st =
    (let (err', x') = (if 2 * err > - b then (err - b, x + sx) else (err, x));
         (err'', y') = (if 2 * err < a then (err' + a, y + sy) else (err', y))
     in draw_line_loop x2 y2 a b sx sy c x' y' err'' (graphics_put_pixel x y c st))"
proof -
  have ne: "(x = x2 \<and> y = y2) = False" using assms(1) by simp
  show ?thesis
    unfolding draw_line_loop.simps [of x2 y2 a b sx sy c x y err st] Let_def ne if_False
    by (simp add: c_int_fits assms(2-))
qed

lemma draw_line_end: "draw_line_loop x2 y2 a b sx sy c x2 y2 err st = Some (graphics_put_pixel x2 y2 c st)"
  by (subst draw_line_loop.simps) simp

lemma nearest_small:
  assumes "0 < a" and "0 \<le> b" and "b \<le> a" and "0 \<le> n"
  shows "0 \<le> nearest a b n" and "nearest a b n \<le> n" and "2 * ((nearest a b n + 1) * a - (n + 1) * b) < 3 * a"
    and "- b < 2 * ((nearest a b n + 1) * a - (n + 1) * b)"
proof -
  note nb = nearest_bounds [OF assms(1), where n = n and b = b]
  have "0 \<le> n * b" "n * b \<le> n * a" using assms by (simp_all add: mult_left_mono)
  then have "2 * a * (- 1) < 2 * a * nearest a b n" "2 * a * nearest a b n < 2 * a * (n + 1)"
    using nb assms(1) by (simp_all add: algebra_simps)
  moreover have "0 < 2 * a" using assms(1) by simp
  ultimately have "- 1 < nearest a b n" "nearest a b n < n + 1" by (simp_all only: mult_less_cancel_left_pos)
  then show "0 \<le> nearest a b n" "nearest a b n \<le> n" by linarith+
  have "2 * ((nearest a b n + 1) * a - (n + 1) * b) = 2 * a * nearest a b n + 2 * a - 2 * n * b - 2 * b" by (simp add: algebra_simps)
  then show "2 * ((nearest a b n + 1) * a - (n + 1) * b) < 3 * a" using nb(2) assms(2) by linarith
  show "- b < 2 * ((nearest a b n + 1) * a - (n + 1) * b)" by (rule nearest_step(1) [OF assms(1-3) refl])
qed

lemma sign_times: "s = 1 \<or> s = - 1 \<Longrightarrow> \<bar>s * n\<bar> = \<bar>n\<bar>" for s n :: int
  by auto

lemma line_along_x:
  assumes "0 \<le> b" and "b \<le> a" and "sx = 1 \<or> sx = - 1" and "sy = 1 \<or> sy = - 1"
    and "a \<le> 536870912" and "\<bar>x1\<bar> \<le> 268435456" and "\<bar>y1\<bar> \<le> 268435456" and "n \<le> a" and "0 \<le> n"
  shows "draw_line_loop (x1 + sx * a) (y1 + sy * b) a b sx sy c (x1 + sx * n) (y1 + sy * nearest a b n)
      ((nearest a b n + 1) * a - (n + 1) * b) st =
    Some (plot c (map (\<lambda>n. (x1 + sx * n, y1 + sy * nearest a b n)) [n..a]) st)"
  using assms(8,9)
proof (induction "nat (a - n)" arbitrary: n st)
  case 0
  then have "n = a" by simp
  then show ?case using assms nearest_ends(2) [of a b] by (simp add: draw_line_end plot_def)
next
  case (Suc m)
  then have lt: "n < a" by linarith
  define k where "k = nearest a b n"
  define e where "e = (k + 1) * a - (n + 1) * b"
  have pos: "0 < a" using lt Suc.prems(2) by linarith
  note step = nearest_step [OF pos assms(1,2), of e n, folded k_def, OF e_def]
  note small = nearest_small [OF pos assms(1,2) Suc.prems(2), folded k_def, folded e_def]
  have ne: "x1 + sx * n \<noteq> x1 + sx * a" using lt assms(3) by auto
  have next_e: "(nearest a b (n + 1) + 1) * a - (n + 1 + 1) * b = e - b + (if 2 * e < a then a else 0)"
    unfolding step(2) by (cases "2 * e < a", simp_all, simp_all add: e_def algebra_simps)
  have next_x: "x1 + sx * (n + 1) = x1 + sx * n + sx" by (simp add: algebra_simps)
  have next_y: "y1 + sy * nearest a b (n + 1) = y1 + sy * k + (if 2 * e < a then sy else 0)"
    unfolding step(2) by (simp add: algebra_simps)
  have "draw_line_loop (x1 + sx * a) (y1 + sy * b) a b sx sy c (x1 + sx * n) (y1 + sy * k) e st =
    draw_line_loop (x1 + sx * a) (y1 + sy * b) a b sx sy c (x1 + sx * (n + 1)) (y1 + sy * nearest a b (n + 1))
      ((nearest a b (n + 1) + 1) * a - (n + 1 + 1) * b) (graphics_put_pixel (x1 + sx * n) (y1 + sy * k) c st)"
    unfolding next_e next_x next_y
  proof (subst draw_line_round)
    show "\<not> (x1 + sx * n = x1 + sx * a \<and> y1 + sy * k = y1 + sy * b)" using ne by simp
    show "\<bar>2 * e\<bar> \<le> 2147483647" "\<bar>e - b\<bar> \<le> 2147483647" "\<bar>e + a\<bar> \<le> 2147483647" "\<bar>e - b + a\<bar> \<le> 2147483647"
      using small(3,4) assms(1,2,5) by linarith+
    show "\<bar>x1 + sx * n + sx\<bar> \<le> 2147483647" "\<bar>y1 + sy * k + sy\<bar> \<le> 2147483647"
      using sign_times [OF assms(3), of n] sign_times [OF assms(4), of k] small(1,2) lt Suc.prems(2) assms(3-7) by linarith+
  qed (use step(1) in \<open>simp add: Let_def\<close>)
  also have "\<dots> = Some (plot c (map (\<lambda>n. (x1 + sx * n, y1 + sy * nearest a b n)) [n + 1..a])
      (graphics_put_pixel (x1 + sx * n) (y1 + sy * k) c st))"
    by (rule Suc.hyps(1)) (use Suc.hyps(2) Suc.prems lt in linarith)+
  also have "\<dots> = Some (plot c (map (\<lambda>n. (x1 + sx * n, y1 + sy * nearest a b n)) [n..a]) st)"
    using lt by (simp add: upto_rec1 plot_def k_def)
  finally show ?case by (simp add: e_def k_def)
qed

lemma line_along_y:
  assumes "0 \<le> a" and "a < b" and "sx = 1 \<or> sx = - 1" and "sy = 1 \<or> sy = - 1"
    and "b \<le> 536870912" and "\<bar>x1\<bar> \<le> 268435456" and "\<bar>y1\<bar> \<le> 268435456" and "n \<le> b" and "0 \<le> n"
  shows "draw_line_loop (x1 + sx * a) (y1 + sy * b) a b sx sy c (x1 + sx * nearest b a n) (y1 + sy * n)
      ((n + 1) * a - (nearest b a n + 1) * b) st =
    Some (plot c (map (\<lambda>n. (x1 + sx * nearest b a n, y1 + sy * n)) [n..b]) st)"
  using assms(8,9)
proof (induction "nat (b - n)" arbitrary: n st)
  case 0
  then have "n = b" by simp
  then show ?case using assms nearest_ends(2) [of b a] by (simp add: draw_line_end plot_def)
next
  case (Suc m)
  then have lt: "n < b" by linarith
  define k where "k = nearest b a n"
  define e where "e = (k + 1) * b - (n + 1) * a"
  have pos: "0 < b" using lt Suc.prems(2) by linarith
  note step = nearest_step [OF pos assms(1) less_imp_le [OF assms(2)], of e n, folded k_def, OF e_def]
  note small = nearest_small [OF pos assms(1) less_imp_le [OF assms(2)] Suc.prems(2), folded k_def, folded e_def]
  have ne: "y1 + sy * n \<noteq> y1 + sy * b" using lt assms(4) by auto
  have next_e: "(n + 1 + 1) * a - (nearest b a (n + 1) + 1) * b = (if 2 * e < b then - e - b else - e) + a"
    unfolding step(2) by (cases "2 * e < b", simp_all, simp_all add: e_def algebra_simps)
  have next_y: "y1 + sy * (n + 1) = y1 + sy * n + sy" by (simp add: algebra_simps)
  have next_x: "x1 + sx * nearest b a (n + 1) = x1 + sx * k + (if 2 * e < b then sx else 0)"
    unfolding step(2) by (simp add: algebra_simps)
  have "draw_line_loop (x1 + sx * a) (y1 + sy * b) a b sx sy c (x1 + sx * k) (y1 + sy * n) (- e) st =
    draw_line_loop (x1 + sx * a) (y1 + sy * b) a b sx sy c (x1 + sx * nearest b a (n + 1)) (y1 + sy * (n + 1))
      ((n + 1 + 1) * a - (nearest b a (n + 1) + 1) * b) (graphics_put_pixel (x1 + sx * k) (y1 + sy * n) c st)"
    unfolding next_e next_x next_y
  proof (subst draw_line_round)
    show "\<not> (x1 + sx * k = x1 + sx * a \<and> y1 + sy * n = y1 + sy * b)" using ne by simp
    show "\<bar>2 * - e\<bar> \<le> 2147483647" "\<bar>- e - b\<bar> \<le> 2147483647" "\<bar>- e + a\<bar> \<le> 2147483647" "\<bar>- e - b + a\<bar> \<le> 2147483647"
      using small(3,4) assms(1,2,5) by linarith+
    show "\<bar>x1 + sx * k + sx\<bar> \<le> 2147483647" "\<bar>y1 + sy * n + sy\<bar> \<le> 2147483647"
      using sign_times [OF assms(3), of k] sign_times [OF assms(4), of n] small(1,2) lt Suc.prems(2) assms(3-7) by linarith+
  qed (use step(1) in \<open>simp add: Let_def\<close>)
  also have "\<dots> = Some (plot c (map (\<lambda>n. (x1 + sx * nearest b a n, y1 + sy * n)) [n + 1..b])
      (graphics_put_pixel (x1 + sx * k) (y1 + sy * n) c st))"
    by (rule Suc.hyps(1)) (use Suc.hyps(2) Suc.prems lt in linarith)+
  also have "\<dots> = Some (plot c (map (\<lambda>n. (x1 + sx * nearest b a n, y1 + sy * n)) [n..b]) st)"
    using lt by (simp add: upto_rec1 plot_def k_def)
  finally show ?case by (simp add: e_def k_def)
qed

lemma draw_line_points:
  assumes "\<bar>x1\<bar> \<le> 268435456" and "\<bar>y1\<bar> \<le> 268435456" and "\<bar>x2\<bar> \<le> 268435456" and "\<bar>y2\<bar> \<le> 268435456"
  shows "graphics_draw_line x1 y1 x2 y2 c st = Some (plot c (line_points x1 y1 x2 y2) st)"
proof -
  define a where "a = \<bar>x2 - x1\<bar>"
  define b where "b = \<bar>y2 - y1\<bar>"
  define sx where "sx = (if x1 < x2 then 1 else - 1 :: int)"
  define sy where "sy = (if y1 < y2 then 1 else - 1 :: int)"
  have ends: "x2 = x1 + sx * a" "y2 = y1 + sy * b" by (auto simp: a_def b_def sx_def sy_def)
  have ab: "a \<le> 536870912" "b \<le> 536870912" "0 \<le> a" "0 \<le> b" using assms by (simp_all add: a_def b_def)
  have s: "sx = 1 \<or> sx = - 1" "sy = 1 \<or> sy = - 1" by (simp_all add: sx_def sy_def)
  have d: "c_int (x2 - x1) = Some (x2 - x1)" "c_int (y2 - y1) = Some (y2 - y1)" "c_int (- (x2 - x1)) = Some (- (x2 - x1))"
    "c_int (- (y2 - y1)) = Some (- (y2 - y1))" "c_int (a - b) = Some (a - b)"
    using assms ab by (intro c_int_fits; linarith)+
  have len: "(if x2 - x1 < 0 then c_int (- (x2 - x1)) else Some (x2 - x1)) = Some a"
    "(if y2 - y1 < 0 then c_int (- (y2 - y1)) else Some (y2 - y1)) = Some b"
    by (simp_all only: d) (simp_all add: a_def b_def abs_if)
  have draw: "graphics_draw_line x1 y1 x2 y2 c st = draw_line_loop x2 y2 a b sx sy c x1 y1 (a - b) st"
    unfolding graphics_draw_line_def d(1,2) bind.bind_lunit len Let_def d(5) by (simp add: sx_def sy_def)
  show ?thesis
  proof (cases "b \<le> a")
    case True
    have "draw_line_loop (x1 + sx * a) (y1 + sy * b) a b sx sy c x1 y1 (a - b) st =
        Some (plot c (map (\<lambda>n. (x1 + sx * n, y1 + sy * nearest a b n)) [0..a]) st)"
      using line_along_x [OF ab(4) True s ab(1) assms(1,2) ab(3) order_refl, of c st] nearest_ends(1) [OF ab(3,4) True] by simp
    then show ?thesis using True unfolding draw ends [symmetric]
      by (simp add: line_points_def Let_def a_def [symmetric] b_def [symmetric] sx_def [symmetric] sy_def [symmetric])
  next
    case False
    have "draw_line_loop (x1 + sx * a) (y1 + sy * b) a b sx sy c x1 y1 (a - b) st =
        Some (plot c (map (\<lambda>n. (x1 + sx * nearest b a n, y1 + sy * n)) [0..b]) st)"
      using line_along_y [OF ab(3) _ s ab(2) assms(1,2) ab(4) order_refl, of c st] nearest_ends(1) [OF ab(4,3)] False by simp
    then show ?thesis using False unfolding draw ends [symmetric]
      by (simp add: line_points_def Let_def a_def [symmetric] b_def [symmetric] sx_def [symmetric] sy_def [symmetric])
  qed
qed

section \<open>Circles\<close>

text \<open>In the eighth of the circle where the second coordinate is the greater, the one nearest to the circle is
  less than half a pixel off; a point in the other eighths is one mirrored.\<close>

definition octant :: "int \<Rightarrow> int \<Rightarrow> int \<Rightarrow> bool" where
  "octant r x y \<longleftrightarrow> x\<^sup>2 + y\<^sup>2 - y < r\<^sup>2 \<and> r\<^sup>2 \<le> x\<^sup>2 + y\<^sup>2 + y"

definition on_circle :: "int \<Rightarrow> int \<Rightarrow> int \<Rightarrow> bool" where
  "on_circle r x y \<longleftrightarrow> octant r (min \<bar>x\<bar> \<bar>y\<bar>) (max \<bar>x\<bar> \<bar>y\<bar>)"

lemma pronic_mono: "0 \<le> v \<Longrightarrow> v < w \<Longrightarrow> v\<^sup>2 + v \<le> w\<^sup>2 - w" for v w :: int
proof -
  assume "0 \<le> v" "v < w"
  then have "v * (v + 1) \<le> (w - 1) * w" by (intro mult_mono) simp_all
  then show ?thesis by (simp add: power2_eq_square algebra_simps)
qed

lemma octant_unique:
  assumes "octant r x v" and "octant r x w" and "0 \<le> v" and "0 \<le> w"
  shows "v = w"
proof (rule ccontr)
  assume "v \<noteq> w"
  then consider "v < w" | "w < v" by linarith
  then show False
    by cases (use pronic_mono [OF assms(3), of w] pronic_mono [OF assms(4), of v] assms(1,2) in \<open>simp_all add: octant_def\<close>)
qed

lemma put_points_fit:
  assumes "\<forall>(x, y) \<in> set ps. \<bar>x\<bar> \<le> 2147483647 \<and> \<bar>y\<bar> \<le> 2147483647"
  shows "put_points c ps st = Some (plot c ps st)"
  using assms unfolding put_points_def plot_def by (induction ps arbitrary: st) (auto simp: c_int_fits)

lemma eight_points_fit:
  assumes "\<bar>cx\<bar> \<le> 1073741824" and "\<bar>cy\<bar> \<le> 1073741824" and "\<bar>x\<bar> \<le> 32767" and "\<bar>y\<bar> \<le> 32767"
  shows "put_points c (eight_points cx cy x y) st = Some (plot c (eight_points cx cy x y) st)"
proof (rule put_points_fit)
  have "\<bar>cx + x\<bar> \<le> 2147483647" "\<bar>cx - x\<bar> \<le> 2147483647" "\<bar>cx + y\<bar> \<le> 2147483647" "\<bar>cx - y\<bar> \<le> 2147483647"
    "\<bar>cy + x\<bar> \<le> 2147483647" "\<bar>cy - x\<bar> \<le> 2147483647" "\<bar>cy + y\<bar> \<le> 2147483647" "\<bar>cy - y\<bar> \<le> 2147483647"
    using assms by linarith+
  then show "\<forall>(x, y) \<in> set (eight_points cx cy x y). \<bar>x\<bar> \<le> 2147483647 \<and> \<bar>y\<bar> \<le> 2147483647" by (simp add: eight_points_def)
qed

lemma circle_loop_painted:
  assumes "0 < r" and r: "r \<le> 32767" and cx: "\<bar>cx\<bar> \<le> 1073741824" and cy: "\<bar>cy\<bar> \<le> 1073741824"
    and "0 \<le> x" and "0 \<le> y" and "y \<le> r" and "r\<^sup>2 \<le> x\<^sup>2 + y\<^sup>2 + y" and "x \<le> y \<Longrightarrow> x\<^sup>2 + y\<^sup>2 - y < r\<^sup>2"
    and "d = (x + 1)\<^sup>2 + y\<^sup>2 - y - r\<^sup>2"
  shows "\<exists>st'. draw_circle_loop cx cy c x y d st = Some st' \<and> painted st st'
    (\<lambda>px py. \<exists>u v. x \<le> u \<and> u \<le> v \<and> octant r u v \<and> (px, py) \<in> set (eight_points cx cy u v)) c"
  using assms(5-)
proof (induction "nat (y + 1 - x)" arbitrary: x y d st rule: less_induct)
  case less
  show ?case
  proof (cases "x \<le> y")
    case False
    have "\<not> octant r u v" if "x \<le> u" "u \<le> v" for u v
    proof -
      have "x\<^sup>2 \<le> u\<^sup>2" using that(1) less.prems(1) by (intro power_mono)
      moreover have "y\<^sup>2 + y \<le> v\<^sup>2 - v" using that False less.prems(2) by (intro pronic_mono) simp_all
      ultimately show ?thesis using less.prems(4) by (simp add: octant_def)
    qed
    then show ?thesis using False by (auto simp: draw_circle_loop.simps [of cx cy c x y] intro: painted_cong [OF painted_refl])
  next
    case True
    have oct: "octant r x y" using True less.prems(4,5) by (simp add: octant_def)
    have "y \<noteq> 0"
    proof
      assume "y = 0"
      then have "r\<^sup>2 \<le> 0" using True less.prems(1,4) by simp
      then show False using assms(1) by simp
    qed
    then have y1: "1 \<le> y" using less.prems(2) by linarith
    define y' where "y' = (if d < 0 then y else y - 1)"
    define d' where "d' = (if d < 0 then d + 2 * x + 3 else d + 2 * (x - y) + 5)"
    define st1 where "st1 = plot c (eight_points cx cy x y) st"
    have sq: "(x + 1)\<^sup>2 = x\<^sup>2 + 2 * x + 1" "(x + 2)\<^sup>2 = x\<^sup>2 + 4 * x + 4" "(y - 1)\<^sup>2 = y\<^sup>2 - 2 * y + 1" "(2 + x)\<^sup>2 = x\<^sup>2 + 4 * x + 4"
      by (simp_all add: power2_eq_square algebra_simps)
    have "r\<^sup>2 \<le> x\<^sup>2 + y\<^sup>2 + y" "x\<^sup>2 + y\<^sup>2 - y < r\<^sup>2" using less.prems(4,5) True by simp_all
    then have d: "d < 2 * x + 1" "2 * x + 1 - 2 * y \<le> d" unfolding less.prems(6) sq by linarith+
    have bounds: "0 \<le> x" "x \<le> 32767" "1 \<le> y" "y \<le> 32767" using True y1 less.prems(1,3) r by linarith+
    have fits: "c_int (x - y) = Some (x - y)" "c_int (2 * x) = Some (2 * x)" "c_int (2 * (x - y)) = Some (2 * (x - y))"
      "c_int (d + 2 * x) = Some (d + 2 * x)" "c_int (d + 2 * (x - y)) = Some (d + 2 * (x - y))"
      "c_int (d + 2 * x + 3) = Some (d + 2 * x + 3)" "c_int (d + 2 * (x - y) + 5) = Some (d + 2 * (x - y) + 5)"
      "c_int (y - 1) = Some (y - 1)" "c_int (x + 1) = Some (x + 1)"
      using d bounds by (simp_all add: c_int_def)
    have put: "put_points c (eight_points cx cy x y) st = Some st1"
      unfolding st1_def by (rule eight_points_fit [OF cx cy]) (use bounds in linarith)+
    have loop: "draw_circle_loop cx cy c x y d st = draw_circle_loop cx cy c (x + 1) y' d' st1"
      using True by (subst draw_circle_loop.simps) (cases "d < 0"; simp only: put fits bind.bind_lunit y'_def d'_def if_True if_False simp_thms)
    have "\<exists>st'. draw_circle_loop cx cy c (x + 1) y' d' st1 = Some st' \<and> painted st1 st'
        (\<lambda>px py. \<exists>u v. x + 1 \<le> u \<and> u \<le> v \<and> octant r u v \<and> (px, py) \<in> set (eight_points cx cy u v)) c"
    proof (rule less.hyps)
      show "nat (y' + 1 - (x + 1)) < nat (y + 1 - x)" using True by (simp add: y'_def)
      show "0 \<le> x + 1" "0 \<le> y'" "y' \<le> r" using less.prems(1,3) y1 by (simp_all add: y'_def)
      show "r\<^sup>2 \<le> (x + 1)\<^sup>2 + y'\<^sup>2 + y'"
        using less.prems(1,4,6) by (simp add: y'_def sq)
      show "(x + 1)\<^sup>2 + y'\<^sup>2 - y' < r\<^sup>2" if "x + 1 \<le> y'"
        using less.prems(5,6) True that by (cases "d < 0") (simp_all add: y'_def sq)
      show "d' = (x + 1 + 1)\<^sup>2 + y'\<^sup>2 - y' - r\<^sup>2"
        using less.prems(6) by (simp add: d'_def y'_def sq)
    qed
    then obtain st' where st': "draw_circle_loop cx cy c (x + 1) y' d' st1 = Some st'" and ih: "painted st1 st'
        (\<lambda>px py. \<exists>u v. x + 1 \<le> u \<and> u \<le> v \<and> octant r u v \<and> (px, py) \<in> set (eight_points cx cy u v)) c" by blast
    have "painted st st' (\<lambda>px py. (px, py) \<in> set (eight_points cx cy x y) \<or>
        (\<exists>u v. x + 1 \<le> u \<and> u \<le> v \<and> octant r u v \<and> (px, py) \<in> set (eight_points cx cy u v))) c"
      by (rule painted_trans [OF _ ih]) (simp add: st1_def painted_plot)
    then have "painted st st' (\<lambda>px py. \<exists>u v. x \<le> u \<and> u \<le> v \<and> octant r u v \<and> (px, py) \<in> set (eight_points cx cy u v)) c"
    proof (rule painted_cong)
      have one: "v = y" if "octant r x v" "x \<le> v" for v
        using octant_unique [OF that(1) oct] that(2) less.prems(1,2) by simp
      show "((px, py) \<in> set (eight_points cx cy x y) \<or>
          (\<exists>u v. x + 1 \<le> u \<and> u \<le> v \<and> octant r u v \<and> (px, py) \<in> set (eight_points cx cy u v))) =
          (\<exists>u v. x \<le> u \<and> u \<le> v \<and> octant r u v \<and> (px, py) \<in> set (eight_points cx cy u v))" for px py
      proof
        assume "\<exists>u v. x \<le> u \<and> u \<le> v \<and> octant r u v \<and> (px, py) \<in> set (eight_points cx cy u v)"
        then obtain u v where uv: "x \<le> u" "u \<le> v" "octant r u v" "(px, py) \<in> set (eight_points cx cy u v)" by blast
        show "(px, py) \<in> set (eight_points cx cy x y) \<or>
          (\<exists>u v. x + 1 \<le> u \<and> u \<le> v \<and> octant r u v \<and> (px, py) \<in> set (eight_points cx cy u v))"
        proof (cases "u = x")
          case True
          then show ?thesis using one uv by blast
        next
          case False
          then have "x + 1 \<le> u" using uv(1) by linarith
          then show ?thesis using uv by blast
        qed
      next
        assume "(px, py) \<in> set (eight_points cx cy x y) \<or>
          (\<exists>u v. x + 1 \<le> u \<and> u \<le> v \<and> octant r u v \<and> (px, py) \<in> set (eight_points cx cy u v))"
        then show "\<exists>u v. x \<le> u \<and> u \<le> v \<and> octant r u v \<and> (px, py) \<in> set (eight_points cx cy u v)"
          using True oct by (metis add_increasing2 add_leD1 order_refl order_trans zero_le_one less_add_one less_imp_le)
      qed
    qed
    then show ?thesis using loop st' by simp
  qed
qed

lemma eight_points_on_circle:
  "(\<exists>u v. 0 \<le> u \<and> u \<le> v \<and> octant r u v \<and> (px, py) \<in> set (eight_points cx cy u v)) = on_circle r (px - cx) (py - cy)"
proof
  assume "\<exists>u v. 0 \<le> u \<and> u \<le> v \<and> octant r u v \<and> (px, py) \<in> set (eight_points cx cy u v)"
  then obtain u v where uv: "0 \<le> u" "u \<le> v" "octant r u v" "(px, py) \<in> set (eight_points cx cy u v)" by blast
  then have "min \<bar>px - cx\<bar> \<bar>py - cy\<bar> = u \<and> max \<bar>px - cx\<bar> \<bar>py - cy\<bar> = v" by (auto simp: eight_points_def)
  then show "on_circle r (px - cx) (py - cy)" using uv(3) by (simp add: on_circle_def)
next
  assume c: "on_circle r (px - cx) (py - cy)"
  define u where "u = min \<bar>px - cx\<bar> \<bar>py - cy\<bar>"
  define v where "v = max \<bar>px - cx\<bar> \<bar>py - cy\<bar>"
  have "(px, py) \<in> set (eight_points cx cy u v)"
    by (cases "\<bar>px - cx\<bar> \<le> \<bar>py - cy\<bar>"; cases "px < cx"; cases "py < cy") (simp_all add: u_def v_def eight_points_def)
  moreover have "0 \<le> u" "u \<le> v" "octant r u v" using c by (simp_all add: u_def v_def on_circle_def)
  ultimately show "\<exists>u v. 0 \<le> u \<and> u \<le> v \<and> octant r u v \<and> (px, py) \<in> set (eight_points cx cy u v)" by blast
qed

lemma painted_draw_circle:
  assumes "0 < r" and "r \<le> 32767" and "\<bar>cx\<bar> \<le> 1073741824" and "\<bar>cy\<bar> \<le> 1073741824"
  shows "\<exists>st'. graphics_draw_circle cx cy r c st = Some st' \<and> painted st st' (\<lambda>px py. on_circle r (px - cx) (py - cy)) c"
proof -
  have "c_int (1 - r) = Some (1 - r)" using assms(1,2) by (intro c_int_fits) linarith
  moreover have "\<exists>st'. draw_circle_loop cx cy c 0 r (1 - r) st = Some st' \<and> painted st st'
      (\<lambda>px py. \<exists>u v. 0 \<le> u \<and> u \<le> v \<and> octant r u v \<and> (px, py) \<in> set (eight_points cx cy u v)) c"
    using assms by (intro circle_loop_painted) simp_all
  ultimately show ?thesis unfolding graphics_draw_circle_def eight_points_on_circle by simp
qed

section \<open>Text\<close>

definition lit :: "u8 \<Rightarrow> int \<Rightarrow> int \<Rightarrow> bool" where
  "lit ch i j \<longleftrightarrow> 0 \<le> sint ch \<and> 0 \<le> i \<and> i < 8 \<and> 0 \<le> j \<and> j < 8 \<and> bit (glyph_of ch ! nat j) (nat i)"

text \<open>Where the characters of a string stand.\<close>

fun layout :: "int \<Rightarrow> int \<Rightarrow> int \<Rightarrow> u8 list \<Rightarrow> (int \<times> int \<times> u8) list" where
  "layout x pos_x y [] = []"
| "layout x pos_x y (ch # str) =
     (if ch = 0 then [] else if ch = 10 then layout x x (y + 8) str else (pos_x, y, ch) # layout x (pos_x + 8) y str)"

lemma painted_char: "painted st (graphics_draw_char x y ch c st) (\<lambda>px py. lit ch (px - x) (py - y)) c"
proof -
  have top: "sint ch \<le> 255" using sint_lt [of ch] by simp
  have b: "(glyph_of ch ! j AND push_bit i 1 \<noteq> 0) = bit (glyph_of ch ! j) i" for i j
    by (simp add: push_bit_of_1 and_exp_eq_0_iff_not_bit)
  have fig: "(\<exists>j \<in> set [0..<8]. \<exists>i \<in> set [0..<8]. bit (glyph_of ch ! j) i \<and> px = x + int i \<and> py = y + int j) \<longleftrightarrow>
      0 \<le> px - x \<and> px - x < 8 \<and> 0 \<le> py - y \<and> py - y < 8 \<and> bit (glyph_of ch ! nat (py - y)) (nat (px - x))" for px py
  proof
    assume *: "0 \<le> px - x \<and> px - x < 8 \<and> 0 \<le> py - y \<and> py - y < 8 \<and> bit (glyph_of ch ! nat (py - y)) (nat (px - x))"
    then have "nat (px - x) \<in> set [0..<8]" "nat (py - y) \<in> set [0..<8]"
      "px = x + int (nat (px - x))" "py = y + int (nat (py - y))" by auto
    then show "\<exists>j \<in> set [0..<8]. \<exists>i \<in> set [0..<8]. bit (glyph_of ch ! j) i \<and> px = x + int i \<and> py = y + int j"
      using * by blast
  qed auto
  show ?thesis
  proof (cases "sint ch < 0")
    case True
    then show ?thesis by (auto simp: graphics_draw_char_def lit_def intro: painted_cong [OF painted_refl])
  next
    case False
    then have inside: "(sint ch < 0 \<or> sint ch > 255) = False" using top by simp
    have "painted st (graphics_draw_char x y ch c st)
        (\<lambda>px py. \<exists>j \<in> set [0..<8]. \<exists>i \<in> set [0..<8]. bit (glyph_of ch ! j) i \<and> px = x + int i \<and> py = y + int j) c"
      unfolding graphics_draw_char_def Let_def b inside if_False
      by (intro painted_fold painted_if painted_put)
    then show ?thesis
      unfolding fig by (rule painted_cong) (use False in \<open>auto simp: lit_def\<close>)
  qed
qed

lemma painted_string:
  "painted st (graphics_draw_string x y str c st) (\<lambda>px py. \<exists>(cx, cy, ch) \<in> set (layout x x y str). lit ch (px - cx) (py - cy)) c"
proof -
  have "painted st (draw_string_loop x p y str c st) (\<lambda>px py. \<exists>(cx, cy, ch) \<in> set (layout x p y str). lit ch (px - cx) (py - cy)) c"
    for p y and st :: "'a graphics_scheme"
  proof (induction str arbitrary: p y st)
    case (Cons ch str)
    show ?case
    proof (cases "ch = 0 \<or> ch = 10")
      case True
      then show ?thesis using Cons.IH by (auto simp: painted_refl)
    next
      case False
      have "painted st (draw_string_loop x p y (ch # str) c st)
          (\<lambda>px py. lit ch (px - p) (py - y) \<or> (\<exists>(cx, cy, ch) \<in> set (layout x (p + 8) y str). lit ch (px - cx) (py - cy))) c"
        using False painted_trans [OF painted_char [of st p y ch c] Cons.IH [where p = "p + 8" and y = y and st = "graphics_draw_char p y ch c st"]] by simp
      then show ?thesis by (rule painted_cong) (use False in auto)
    qed
  qed (simp add: painted_refl)
  then show ?thesis by (simp add: graphics_draw_string_def)
qed

section \<open>Properties\<close>

definition ex_display :: graphics where
  "ex_display = \<lparr>inputs = (\<lambda>_ _. 0), outputs = [], gmem = (\<lambda>_. 0), framebuffer = VGA_MEMORY, current_mode = 13,
     foreground_color = COLOR_WHITE, background_color = COLOR_BLACK\<rparr>"

text \<open>A square and a doubled difference leave 32 bits: the code goes on with a value that C does not define.\<close>

lemma graphics_overflows:
  fixes st :: "'a graphics_scheme"
  shows "graphics_draw_line 0 0 1200000000 0 c st = None" and "graphics_fill_circle 0 0 46341 c st = None"
proof -
  show "graphics_draw_line 0 0 1200000000 0 c st = None"
    by (simp add: graphics_draw_line_def c_int_def draw_line_loop.simps Let_def)
  have none: "fold g ks None = None" if "\<And>k. g k None = None" for g :: "int \<Rightarrow> 'a graphics_scheme option \<Rightarrow> 'a graphics_scheme option" and ks
    by (induction ks) (simp_all add: that)
  define row where "row y s = fold (\<lambda>x st. st \<bind> disc_pixel 0 0 46341 c y x) [- 46341..46341] s" for y :: int and s :: "'a graphics_scheme option"
  have first: "[- 46341..46341] = - 46341 # [- 46341 + 1..46341 :: int]" by (rule upto_rec1) simp
  have pixel: "disc_pixel 0 0 46341 c y (- 46341) st = None" for y by (simp add: disc_pixel_def c_int_def)
  have row: "row y (Some st) = None" "row y None = None" for y
    unfolding row_def first fold_Cons o_apply bind.bind_lunit bind.bind_lzero pixel by (rule none; simp)+
  have "fold row [- 46341..46341] (Some st) = None"
    unfolding first fold_Cons o_apply row by (rule none) (rule row(2))
  moreover have "c_int (- 46341) = Some (- 46341)" by (simp add: c_int_def)
  ultimately show "graphics_fill_circle 0 0 46341 c st = None"
    unfolding graphics_fill_circle_def row_def by (simp only: bind.bind_lunit)
qed

text \<open>C18: A line whose coordinates are at most 268435456 (two to the 28th) from zero, so that no intermediate value
  leaves 32 bits, is always finished, and it sets exactly the pixels that are nearest to it: one for every column,
  or for every row where the line is steeper, both ends included.\<close>

theorem graphics_line_nearest:
  assumes "\<bar>x1\<bar> \<le> 268435456" and "\<bar>y1\<bar> \<le> 268435456" and "\<bar>x2\<bar> \<le> 268435456" and "\<bar>y2\<bar> \<le> 268435456"
  shows "\<exists>st'. graphics_draw_line x1 y1 x2 y2 c st = Some st' \<and>
     painted st st' (\<lambda>px py. (px, py) \<in> set (line_points x1 y1 x2 y2)) c \<and>
     (x1, y1) \<in> set (line_points x1 y1 x2 y2) \<and> (x2, y2) \<in> set (line_points x1 y1 x2 y2)"
proof -
  define a where "a = \<bar>x2 - x1\<bar>"
  define b where "b = \<bar>y2 - y1\<bar>"
  define sx where "sx = (if x1 < x2 then 1 else - 1 :: int)"
  define sy where "sy = (if y1 < y2 then 1 else - 1 :: int)"
  have ends: "x2 = x1 + sx * a" "y2 = y1 + sy * b" "0 \<le> a" "0 \<le> b" by (auto simp: a_def b_def sx_def sy_def)
  have pts: "line_points x1 y1 x2 y2 = (if b \<le> a then map (\<lambda>n. (x1 + sx * n, y1 + sy * nearest a b n)) [0..a]
      else map (\<lambda>n. (x1 + sx * nearest b a n, y1 + sy * n)) [0..b])"
    by (simp add: line_points_def Let_def a_def b_def sx_def sy_def)
  have "(x1 + sx * 0, y1 + sy * 0) \<in> set (line_points x1 y1 x2 y2) \<and> (x1 + sx * a, y1 + sy * b) \<in> set (line_points x1 y1 x2 y2)"
  proof (cases "b \<le> a")
    case True
    have "0 \<in> set [0..a]" "a \<in> set [0..a]" using ends(3) by simp_all
    then show ?thesis unfolding pts using True nearest_ends [of a b] ends(3,4)
      by (simp only: if_True set_map) (metis (mono_tags, lifting) image_eqI)
  next
    case False
    have "0 \<in> set [0..b]" "b \<in> set [0..b]" using ends(4) by simp_all
    then show ?thesis unfolding pts using False nearest_ends [of b a] ends(3,4)
      by (simp only: if_False set_map) (metis (mono_tags, lifting) image_eqI nle_le)
  qed
  then show ?thesis using draw_line_points [OF assms] painted_plot ends(1,2) by (metis add.right_neutral mult_zero_right)
qed

lemma graphics_line_nearest_witness:
  "(\<exists>st'. graphics_draw_line 0 0 4 2 5 ex_display = Some st' \<and> painted ex_display st' (\<lambda>px py. (px, py) \<in> set (line_points 0 0 4 2)) 5) \<and>
    line_points 0 0 4 2 = [(0, 0), (1, 0), (2, 1), (3, 1), (4, 2)]"
proof
  show "\<exists>st'. graphics_draw_line 0 0 4 2 5 ex_display = Some st' \<and> painted ex_display st' (\<lambda>px py. (px, py) \<in> set (line_points 0 0 4 2)) 5"
    using graphics_line_nearest [of 0 0 4 2 5 ex_display] by auto
  show "line_points 0 0 4 2 = [(0, 0), (1, 0), (2, 1), (3, 1), (4, 2)]"
    by (simp add: line_points_def nearest_def Let_def upto_rec1)
qed

text \<open>C19: With a radius from 1 to 32767 and a centre at most 1073741824 (two to the 30th) from zero, so that no
  intermediate value leaves 32 bits, both circles are finished, and what the midpoint algorithm paints, which only
  adds and compares, is the set of the pixels nearest to the circle, and what is filled the disc.\<close>

theorem graphics_circle_exact:
  assumes "0 < r" and "r \<le> 32767" and "\<bar>cx\<bar> \<le> 1073741824" and "\<bar>cy\<bar> \<le> 1073741824"
  shows "\<exists>s t. graphics_draw_circle cx cy r c st = Some s \<and> painted st s (\<lambda>px py. on_circle r (px - cx) (py - cy)) c \<and>
    graphics_fill_circle cx cy r c st = Some t \<and> painted st t (\<lambda>px py. (px - cx)\<^sup>2 + (py - cy)\<^sup>2 \<le> r\<^sup>2) c"
  using painted_draw_circle [OF assms, of c st] painted_fill_circle [OF less_imp_le [OF assms(1)] assms(2-), of c st] by blast

lemma graphics_circle_exact_witness:
  "(\<exists>s. graphics_draw_circle 160 100 5 4 ex_display = Some s \<and> painted ex_display s (\<lambda>px py. on_circle 5 (px - 160) (py - 100)) 4) \<and>
    on_circle 5 4 3 \<and> \<not> on_circle 5 4 4"
  using graphics_circle_exact [of 5 160 100 4 ex_display] by (auto simp: on_circle_def octant_def)

text \<open>A string sets the lit pixels of the glyphs of its characters, eight by eight pixels each from left to
  right, after a newline in the next line; a byte above 127 is left blank.\<close>

theorem graphics_string_glyphs:
  "painted st (graphics_draw_string x y str c st) (\<lambda>px py. \<exists>(cx, cy, ch) \<in> set (layout x x y str). lit ch (px - cx) (py - cy)) c"
  by (rule painted_string)

text \<open>Rectangles: the filled one, the frame of one that is not empty, and the whole screen.\<close>

theorem graphics_rectangles:
  assumes "0 < w" and "0 < h"
  shows "painted st (graphics_fill_rect x y w h c st) (\<lambda>px py. x \<le> px \<and> px < x + w \<and> y \<le> py \<and> py < y + h) c \<and>
    painted st (graphics_draw_rect x y w h c st)
      (\<lambda>px py. x \<le> px \<and> px < x + w \<and> y \<le> py \<and> py < y + h \<and> (px = x \<or> px = x + w - 1 \<or> py = y \<or> py = y + h - 1)) c \<and>
    painted st (graphics_clear_screen c st) (\<lambda>_ _. True) c"
  by (intro conjI painted_fill_rect painted_draw_rect painted_clear assms)

lemma graphics_rectangles_witness:
  "painted ex_display (graphics_draw_rect 310 190 20 20 4 ex_display)
      (\<lambda>px py. 310 \<le> px \<and> px < 330 \<and> 190 \<le> py \<and> py < 210 \<and> (px = 310 \<or> px = 329 \<or> py = 190 \<or> py = 209)) 4"
  using graphics_rectangles [of 20 20 ex_display 310 190 4] by simp

lemma painted_get:
  assumes "painted st st' figure c" and "framebuffer st = VGA_MEMORY"
  shows "framebuffer st' = VGA_MEMORY" and "on_vga x y \<Longrightarrow> graphics_get_pixel x y st' = (if figure x y then c else graphics_get_pixel x y st)"
  using assms unfolding painted_def by (auto simp: graphics_get_pixel_def pixel_def on_vga_def VGA_WIDTH_def VGA_HEIGHT_def)

text \<open>After the switch to the graphics mode a pixel that is set reads back as its colour, any other as black, and
  one off the screen neither sets anything nor reads as anything but zero.\<close>

theorem graphics_mode_13h_read_back:
  "graphics_get_pixel px py (graphics_put_pixel x y c (graphics_set_mode_13h st)) = (if on_vga px py \<and> px = x \<and> py = y then c else 0)"
proof (cases "on_vga px py")
  case False
  then have "\<not> (0 \<le> px \<and> px < VGA_WIDTH \<and> 0 \<le> py \<and> py < VGA_HEIGHT)" by (simp add: on_vga_def VGA_WIDTH_def VGA_HEIGHT_def)
  then show ?thesis using False by (simp only: graphics_get_pixel_def if_False simp_thms)
next
  case True
  obtain s where s: "graphics_set_mode_13h st = graphics_clear_screen COLOR_BLACK (graphics_set_default_palette s)" "framebuffer s = VGA_MEMORY"
    by (simp add: graphics_set_mode_13h_def Let_def)
  have out: "framebuffer (outb p v t) = framebuffer t" for p v and t :: "'a graphics_scheme" by (simp add: outb_def)
  have pal: "framebuffer (graphics_set_palette_color i r g b t) = framebuffer t" for i r g b and t :: "'a graphics_scheme"
    by (simp add: graphics_set_palette_color_def out)
  have keep: "(\<And>k t. framebuffer (f k t) = framebuffer t) \<Longrightarrow> framebuffer (fold f ks t) = framebuffer t"
    for f :: "'k \<Rightarrow> 'a graphics_scheme \<Rightarrow> 'a graphics_scheme" and ks t by (induction ks arbitrary: t) simp_all
  have fb: "framebuffer (graphics_set_default_palette s) = VGA_MEMORY"
    unfolding graphics_set_default_palette_def Let_def
    by (subst keep, simp add: pal, subst keep, simp add: split_beta pal, rule s(2))
  have clear: "painted (graphics_set_default_palette s) (graphics_set_mode_13h st) (\<lambda>_ _. True) COLOR_BLACK"
    unfolding s(1) by (rule painted_clear)
  have put: "painted (graphics_set_mode_13h st) (graphics_put_pixel x y c (graphics_set_mode_13h st)) (\<lambda>px py. px = x \<and> py = y) c"
    by (rule painted_put)
  show ?thesis
    using painted_get(2) [OF put painted_get(1) [OF clear fb] True] painted_get(2) [OF clear fb True] True
    by (simp add: COLOR_BLACK_def)
qed

end
