(* ===== verification/GuiProps.thy ===== *)
theory GuiProps
  imports Gui GraphicsProps CStdlibProps
begin

text \<open>
  The windows are live blocks of the C library's heap, listed in the order of their creation: creating and
  destroying implement a list, and every key keeps the invariant. Drawing changes the video memory only.
\<close>

section \<open>The invariant\<close>

definition open_windows :: "gui \<Rightarrow> u32 list" where
  "open_windows st = take (window_count st) (windows st)"

definition window_ok :: "(u32 \<rightharpoonup> nat) \<Rightarrow> mem \<Rightarrow> u32 \<Rightarrow> bool" where
  "window_ok L m w \<longleftrightarrow> w \<noteq> 0 \<and> (\<exists>n \<ge> 76. L w = Some n) \<and> m (w + 35) = 0"

definition heap_off_screen :: "gui \<Rightarrow> bool" where
  "heap_off_screen st \<longleftrightarrow> unat (lib_heap (gui_libc st)) + 0x100000 \<le> 0xA0000 \<or> 0xAFA00 \<le> unat (lib_heap (gui_libc st))"

definition gui_inv :: "(u32 \<rightharpoonup> nat) \<Rightarrow> gui \<Rightarrow> bool" where
  "gui_inv L st \<longleftrightarrow> libc_live (gui_libc st) L \<and> heap_off_screen st \<and>
     length (windows st) = MAX_WINDOWS \<and> slots (window_count st) (windows st) \<and>
     distinct (open_windows st) \<and> (\<forall>w \<in> set (open_windows st). window_ok L (gui_mem st) w) \<and>
     active_window st \<in> (if window_count st = 0 then {0} else set (open_windows st))"

section \<open>Drawing\<close>

definition vga_only :: "(graphics \<Rightarrow> graphics) \<Rightarrow> bool" where
  "vga_only f \<longleftrightarrow> (\<forall>t. unchanged_outside (gmem t) (gmem (f t)) 0xA0000 0xAFA00)"

definition gui_drawn :: "gui \<Rightarrow> gui \<Rightarrow> bool" where
  "gui_drawn st st' \<longleftrightarrow> (\<exists>t m. st' = st\<lparr>display := t, gui_libc := (gui_libc st)\<lparr>lib_mem := m\<rparr>\<rparr> \<and>
     unchanged_outside (gui_mem st) m 0xA0000 0xAFA00)"

lemma gui_drawn_refl [simp]: "gui_drawn st st"
  unfolding gui_drawn_def by (intro exI [of _ "display st"] exI [of _ "gui_mem st"]) simp

lemma gui_drawn_trans: "gui_drawn a b \<Longrightarrow> gui_drawn b c \<Longrightarrow> gui_drawn a c"
  unfolding gui_drawn_def
proof (elim exE conjE)
  fix t m t' m'
  assume b: "b = a\<lparr>display := t, gui_libc := (gui_libc a)\<lparr>lib_mem := m\<rparr>\<rparr>"
    and c: "c = b\<lparr>display := t', gui_libc := (gui_libc b)\<lparr>lib_mem := m'\<rparr>\<rparr>"
    and u: "unchanged_outside (gui_mem a) m 0xA0000 0xAFA00" "unchanged_outside (gui_mem b) m' 0xA0000 0xAFA00"
  have "unchanged_outside (gui_mem a) m' 0xA0000 0xAFA00" using unchanged_outside_trans [OF u(1)] u(2) b by simp
  then show "\<exists>t m. c = a\<lparr>display := t, gui_libc := (gui_libc a)\<lparr>lib_mem := m\<rparr>\<rparr> \<and> unchanged_outside (gui_mem a) m 0xA0000 0xAFA00"
    using b c by (intro exI [of _ t'] exI [of _ m']) simp
qed

lemma painted_vga_only:
  assumes "\<And>t. painted t (f t) figure c"
  shows "vga_only f"
  unfolding vga_only_def
proof
  fix t
  obtain m' where "f t = t\<lparr>gmem := m'\<rparr>" "unchanged_outside (gmem t) m' 0xA0000 0xAFA00" using assms [of t] unfolding painted_def by blast
  then show "unchanged_outside (gmem t) (gmem (f t)) 0xA0000 0xAFA00" by simp
qed

lemma drawing_drawn:
  assumes "vga_only f"
  shows "gui_drawn st (drawing f st)"
proof -
  define t where "t = f ((display st)\<lparr>gmem := gui_mem st\<rparr>)"
  have "unchanged_outside (gui_mem st) (gmem t) 0xA0000 0xAFA00"
    using spec [OF assms [unfolded vga_only_def], of "(display st)\<lparr>gmem := gui_mem st\<rparr>"] by (simp add: t_def)
  then show ?thesis unfolding gui_drawn_def drawing_def Let_def t_def [symmetric] by blast
qed

lemma vga_only_rect: "vga_only (graphics_draw_rect x y w h c)"
  unfolding graphics_draw_rect_def Let_def
  by (rule painted_vga_only, rule painted_trans; rule painted_fold [OF painted_trans [OF painted_put painted_put]])

lemmas vga_only_shapes = vga_only_rect painted_vga_only [OF painted_fill_rect] painted_vga_only [OF painted_string]

lemma drawn_shapes:
  "gui_drawn st s \<Longrightarrow> gui_drawn st (drawing (graphics_draw_rect x y w h c) s)"
  "gui_drawn st s \<Longrightarrow> gui_drawn st (drawing (graphics_fill_rect x y w h c) s)"
  "gui_drawn st s \<Longrightarrow> gui_drawn st (drawing (graphics_draw_string x y str c) s)"
  by (erule gui_drawn_trans, rule drawing_drawn, rule vga_only_shapes)+

definition near :: "int \<Rightarrow> bool" where "near v \<longleftrightarrow> \<bar>v\<bar> \<le> 268435456"

lemma lines_paint:
  assumes "\<And>k. k \<in> set ks \<Longrightarrow> near (f k) \<and> near (g k) \<and> near (h k) \<and> near (i k)"
  obtains t' where "fold (\<lambda>k st. Option.bind st (graphics_draw_line (f k) (g k) (h k) (i k) c)) ks (Some t) = Some t'"
    and "unchanged_outside (gmem t) (gmem (t' :: graphics)) 0xA0000 0xAFA00"
  using assms
proof (induction ks arbitrary: t thesis)
  case Nil
  then show ?case by simp
next
  case (Cons k ks)
  have "near (f k)" "near (g k)" "near (h k)" "near (i k)" using Cons.prems(2) [of k] by simp_all
  note near = this [unfolded near_def]
  obtain t1 where t1: "graphics_draw_line (f k) (g k) (h k) (i k) c t = Some t1" "unchanged_outside (gmem t) (gmem t1) 0xA0000 0xAFA00"
    using draw_line_points [OF near, of c t] painted_plot [of t c "line_points (f k) (g k) (h k) (i k)"] by (auto simp: painted_def)
  obtain t' where "fold (\<lambda>k st. Option.bind st (graphics_draw_line (f k) (g k) (h k) (i k) c)) ks (Some t1) = Some t'"
    "unchanged_outside (gmem t1) (gmem t') 0xA0000 0xAFA00"
    by (rule Cons.IH [of t1]) (use Cons.prems(2) in simp_all)
  then show ?case using Cons.prems(1) [of t'] t1 unchanged_outside_trans [OF t1(2)] by simp
qed

lemma desktop_grid_paints: "\<exists>t'. desktop_grid t = Some t' \<and> unchanged_outside (gmem t) (gmem t') 0xA0000 0xAFA00"
proof -
  define t0 where "t0 = graphics_clear_screen COLOR_LIGHT_GRAY t"
  have clear: "unchanged_outside (gmem t) (gmem t0) 0xA0000 0xAFA00"
    using painted_vga_only [OF painted_clear] unfolding vga_only_def t0_def by blast
  have n: "near (20 * k) \<and> near 0 \<and> near (20 * k) \<and> near (VGA_HEIGHT - 1)" if "k \<in> set [0..15]" for k
    using that by (simp add: near_def VGA_HEIGHT_def)
  have m: "near 0 \<and> near (20 * k) \<and> near (VGA_WIDTH - 1) \<and> near (20 * k)" if "k \<in> set [0..9]" for k
    using that by (simp add: near_def VGA_WIDTH_def)
  obtain t1 where t1: "fold (\<lambda>k st. Option.bind st (graphics_draw_line (20 * k) 0 (20 * k) (VGA_HEIGHT - 1) COLOR_DARK_GRAY))
      [0..15] (Some t0) = Some t1" "unchanged_outside (gmem t0) (gmem t1) 0xA0000 0xAFA00"
    by (rule lines_paint [OF n])
  obtain t2 where t2: "fold (\<lambda>k st. Option.bind st (graphics_draw_line 0 (20 * k) (VGA_WIDTH - 1) (20 * k) COLOR_DARK_GRAY))
      [0..9] (Some t1) = Some t2" "unchanged_outside (gmem t1) (gmem t2) 0xA0000 0xAFA00"
    by (rule lines_paint [OF m])
  have "desktop_grid t = Some t2" unfolding desktop_grid_def Let_def t0_def [symmetric] t1(1) t2(1) ..
  then show ?thesis using clear t1(2) t2(2) unchanged_outside_trans by blast
qed

lemma gui_draw_desktop_drawn: "\<exists>st'. gui_draw_desktop st = Some st' \<and> gui_drawn st st'"
proof -
  obtain t where t: "desktop_grid ((display st)\<lparr>gmem := gui_mem st\<rparr>) = Some t" "unchanged_outside (gui_mem st) (gmem t) 0xA0000 0xAFA00"
    using desktop_grid_paints [of "(display st)\<lparr>gmem := gui_mem st\<rparr>"] by auto
  define s where "s = st\<lparr>display := t, gui_libc := (gui_libc st)\<lparr>lib_mem := gmem t\<rparr>\<rparr>"
  have "try_drawing desktop_grid st = Some s" by (simp add: try_drawing_def t(1) s_def)
  moreover have "gui_drawn st s" unfolding gui_drawn_def s_def using t(2) by blast
  ultimately show ?thesis by (simp add: gui_draw_desktop_def Let_def drawn_shapes)
qed

text \<open>What belongs to the keyboard and the main loop.\<close>

definition same_loop :: "gui \<Rightarrow> gui \<Rightarrow> bool" where
  "same_loop st st' \<longleftrightarrow> keypad st' = keypad st \<and> gui_running st' = gui_running st \<and> window_counter st' = window_counter st"

lemma same_loop_refl [simp]: "same_loop st st"
  by (simp add: same_loop_def)

lemma same_loop_trans: "same_loop a b \<Longrightarrow> same_loop b c \<Longrightarrow> same_loop a c"
  by (simp add: same_loop_def)

lemma gui_drawn_loop: "gui_drawn st st' \<Longrightarrow> same_loop st st'"
  by (auto simp: gui_drawn_def same_loop_def)

section \<open>Drawing windows\<close>

text \<open>A NUL at the end of the title bounds the walk along it.\<close>

lemma string_at_returns: "m (p + of_nat k) = 0 \<Longrightarrow> \<exists>str. string_at m p = Some str"
  using strlen_upto [of m p k] by (auto simp: string_at_def)

lemma libc_live_frame:
  assumes "libc_live l L" and u: "unchanged_outside (lib_mem l) m lo hi"
    and apart: "unat (lib_heap l) + 0x100000 \<le> lo \<or> hi \<le> unat (lib_heap l)"
  shows "libc_live (l\<lparr>lib_mem := m\<rparr>) L"
proof -
  obtain bs where rep: "libc_rep l bs" and L: "L = live_map (unat (lib_heap l)) bs" using assms(1) by (auto simp: libc_live_def)
  have "chain m (unat (lib_heap l)) bs 0 = chain (lib_mem l) (unat (lib_heap l)) bs 0"
    by (rule chain_unchanged [OF u]) (use rep apart in \<open>simp_all add: libc_rep_def\<close>)
  then show ?thesis using rep L by (auto simp: libc_live_def libc_rep_def)
qed

lemma window_area:
  assumes "libc_live l L" and "L w = Some n"
  shows "unat (lib_heap l) \<le> unat w" and "unat w + n \<le> unat (lib_heap l) + 0x100000"
proof -
  obtain bs where rep: "libc_rep l bs" and L: "L = live_map (unat (lib_heap l)) bs" using assms(1) by (auto simp: libc_live_def)
  then have "unat (lib_heap l) + 12 \<le> unat w \<and> unat w + n \<le> unat (lib_heap l) + span bs"
    using payloads_bounds [OF live_map_Some] assms(2) by blast
  then show "unat (lib_heap l) \<le> unat w" and "unat w + n \<le> unat (lib_heap l) + 0x100000" using rep by (simp_all add: libc_rep_def)
qed

lemma window_byte:
  assumes "libc_live l L" and "L w = Some n" and "i < n"
  shows "unat (w + of_nat i) = unat w + i"
  by (rule libc.payload_address [OF assms])

lemma gui_drawn_inv:
  assumes inv: "gui_inv L st" and d: "gui_drawn st st'"
  shows "gui_inv L st'" and "open_windows st' = open_windows st" and "active_window st' = active_window st"
proof -
  obtain t m where st': "st' = st\<lparr>display := t, gui_libc := (gui_libc st)\<lparr>lib_mem := m\<rparr>\<rparr>"
    and u: "unchanged_outside (gui_mem st) m 0xA0000 0xAFA00" using d unfolding gui_drawn_def by blast
  show same: "open_windows st' = open_windows st" "active_window st' = active_window st" by (simp_all add: st' open_windows_def)
  have live: "libc_live (gui_libc st) L" and off: "heap_off_screen st" using inv by (simp_all add: gui_inv_def)
  have live': "libc_live (gui_libc st') L"
    using libc_live_frame [OF live u] off by (simp add: st' heap_off_screen_def)
  have "window_ok L m w" if ok: "window_ok L (gui_mem st) w" for w
  proof -
    obtain n where n: "L w = Some n" "76 \<le> n" using ok by (auto simp: window_ok_def)
    have "unat (w + of_nat 35) = unat w + 35" by (rule window_byte [OF live n(1)]) (use n(2) in simp)
    then have "unat (w + 35) < 0xA0000 \<or> 0xAFA00 \<le> unat (w + 35)"
      using window_area [OF live n(1)] n(2) off unfolding heap_off_screen_def by auto
    then have "m (w + 35) = gui_mem st (w + 35)" using u unfolding unchanged_outside_def by blast
    then show ?thesis using ok by (simp add: window_ok_def)
  qed
  then show "gui_inv L st'" using inv live' same by (auto simp: gui_inv_def st' heap_off_screen_def)
qed

lemma gui_draw_window_drawn:
  assumes inv: "gui_inv L st" and w: "w \<in> set (open_windows st)"
  shows "\<exists>st'. gui_draw_window w st = Some st' \<and> gui_drawn st st'"
proof (cases "w = 0 \<or> \<not> win_visible w st")
  case True
  then show ?thesis by (auto simp: gui_draw_window_def)
next
  case False
  define s1 where "s1 = drawing (graphics_draw_rect (win_x w st) (win_y w st) (win_width w st) (win_height w st) COLOR_DARK_GRAY) st"
  define s2 where "s2 = drawing (graphics_fill_rect (win_x w s1 + 1) (win_y w s1 + 1) (win_width w s1 - 2) (WINDOW_TITLE_HEIGHT - 1) COLOR_BLUE) s1"
  have d: "gui_drawn st s2" unfolding s1_def s2_def by (intro drawn_shapes gui_drawn_refl)
  have "window_ok L (gui_mem s2) w" using gui_drawn_inv(1,2) [OF inv d] w by (simp add: gui_inv_def)
  then have "gui_mem s2 (w + 4 + of_nat 31) = 0" by (simp add: window_ok_def add.assoc)
  then obtain title where "string_at (gui_mem s2) (w + 4) = Some title" using string_at_returns by blast
  then have "gui_draw_window w st = Some
      (let st = drawing (graphics_draw_string (win_x w s2 + 5) (win_y w s2 + 5) title COLOR_WHITE) s2;
           close_x = win_x w st + win_width w st - 15; close_y = win_y w st + 5;
           st = drawing (graphics_draw_string close_x close_y (bytes_of ''X'') COLOR_RED) st
       in content_area w st)"
    using False by (simp add: gui_draw_window_def Let_def s1_def s2_def)
  then show ?thesis using d by (simp add: Let_def content_area_def drawn_shapes)
qed

lemma gui_draw_all_drawn:
  assumes inv: "gui_inv L st"
  shows "\<exists>st'. gui_draw_all_windows st = Some st' \<and> gui_drawn st st'"
proof -
  have "k \<le> window_count st \<Longrightarrow> \<exists>st'. fold (\<lambda>i st. Option.bind st (\<lambda>st. if windows st ! i \<noteq> 0 then gui_draw_window (windows st ! i) st else Some st))
      [0..<k] (Some st) = Some st' \<and> gui_drawn st st'" for k
  proof (induction k)
    case (Suc k)
    then obtain s where s: "fold (\<lambda>i st. Option.bind st (\<lambda>st. if windows st ! i \<noteq> 0 then gui_draw_window (windows st ! i) st else Some st))
      [0..<k] (Some st) = Some s" "gui_drawn st s" by auto
    note i = gui_drawn_inv [OF inv s(2)]
    have "k < length (open_windows st)" using Suc.prems inv by (simp add: open_windows_def gui_inv_def slots_def)
    then have "open_windows s ! k \<in> set (open_windows s)" unfolding i(2) by (rule nth_mem)
    moreover have "open_windows s ! k = windows s ! k"
      using Suc.prems s(2) by (auto simp: open_windows_def gui_drawn_def)
    ultimately obtain s' where "gui_draw_window (windows s ! k) s = Some s'" "gui_drawn s s'"
      using gui_draw_window_drawn [OF i(1)] by metis
    then show ?case using s gui_drawn_trans by auto
  qed auto
  then show ?thesis by (simp add: gui_draw_all_windows_def)
qed

lemma redraw_drawn: "gui_inv L st \<Longrightarrow> \<exists>st'. redraw st = Some st' \<and> gui_drawn st st'"
  unfolding redraw_def using gui_draw_desktop_drawn [of st] gui_draw_all_drawn gui_drawn_inv(1) gui_drawn_trans by fastforce

section \<open>Creating\<close>

text \<open>A block of the C library's heap is large enough for \<open>k\<close> bytes.\<close>

definition libc_room :: "u32 \<Rightarrow> libc \<Rightarrow> bool" where
  "libc_room k l \<longleftrightarrow> (\<exists>bs. libc_rep l bs \<and> first_fit (unat (malloc_size k)) bs \<noteq> None)"

definition room_for_window :: "gui \<Rightarrow> bool" where
  "room_for_window st \<longleftrightarrow> length (open_windows st) < 16 \<and> libc_room 76 (gui_libc st)"

lemma malloc_either:
  assumes live: "libc_live l L" and k: "libc_served k l"
  obtains "malloc k l = Some (0, l)" and "\<not> libc_room k l"
  | p l' n where "libc_room k l" and "malloc k l = Some (p, l')" and "p \<noteq> 0" and "L p = None" and "unat k \<le> n"
      and "libc_live l' (L(p \<mapsto> n))" and "kept L (lib_mem l) (lib_mem l')" and "lib_heap l' = lib_heap l"
proof (cases "libc_room k l")
  case True
  then obtain bs xs s ys where rep: "libc_rep l bs" and fit: "first_fit (unat (malloc_size k)) bs = Some (xs, s, ys)"
    by (auto simp: libc_room_def)
  have L: "L = live_map (unat (lib_heap l)) bs" by (rule libc_live_unique [OF live rep])
  obtain p l' n where p: "malloc k l = Some (p, l')" "p \<noteq> 0" "L p = None" "unat k \<le> n" "libc_live l' (L(p \<mapsto> n))"
    "kept L (lib_mem l) (lib_mem l')" "libc_changes l l'"
    by (rule libc_live_carved [OF rep L k fit])
  have "l' = l\<lparr>lib_mem := lib_mem l'\<rparr>" using p(7) by (simp add: libc_changes_def)
  then have "lib_heap l' = lib_heap l" by (metis libc.select_convs(2) libc.surjective libc.update_convs(1))
  then show ?thesis using that(2) True p(1-6) by blast
next
  case False
  obtain bs where rep: "libc_rep l bs" using live by (auto simp: libc_live_def)
  then have "first_fit (unat (malloc_size k)) bs = None" using False rep unfolding libc_room_def by blast
  then show ?thesis using that(1) False malloc_no_fit [OF rep] by blast
qed

text \<open>The fields of a window.\<close>

definition field_writes :: "u32 \<Rightarrow> mem \<Rightarrow> mem \<Rightarrow> bool" where
  "field_writes w m m' \<longleftrightarrow> unchanged_outside m m' (unat w) (unat w + 76)"

lemma store_field:
  assumes w: "unat w + 76 \<le> 4294967296" and i: "i + 4 \<le> 76"
  shows "field_writes w m m' \<Longrightarrow> field_writes w m (store32 m' (w + of_nat i) v)"
    and "36 \<le> i \<Longrightarrow> store32 m' (w + of_nat i) v (w + 35) = m' (w + 35)"
proof -
  have a: "w + of_nat i = of_nat (unat w + i)" by simp
  have b: "unat w + i + 4 \<le> 4294967296" using assms by linarith
  note u = store32_unchanged [OF b, of m' v, folded a]
  show "field_writes w m m' \<Longrightarrow> field_writes w m (store32 m' (w + of_nat i) v)"
    unfolding field_writes_def using unchanged_outside_trans unchanged_outside_mono [OF u, of "unat w" "unat w + 76"] i by auto
  have "unat (of_nat (unat w) + of_nat 35 :: u32) = unat w + 35" using w by (intro unat_of_nat_add_u32) simp
  then have "unat (w + 35) = unat w + 35" by simp
  then show "36 \<le> i \<Longrightarrow> store32 m' (w + of_nat i) v (w + 35) = m' (w + 35)"
    using u unfolding unchanged_outside_def by auto
qed

lemma put_title_writes:
  assumes w: "unat w + 76 \<le> 4294967296"
  shows "field_writes w m m' \<Longrightarrow> field_writes w m (put_title (w + 4) title m')" and "put_title (w + 4) title m' (w + 35) = 0"
proof -
  have cell: "unat (w + 4 + of_nat i) = unat w + 4 + i" if "i < 32" for i
  proof -
    have "unat (of_nat (unat w) + of_nat (4 + i) :: u32) = unat w + (4 + i)" using w that by (intro unat_of_nat_add_u32) simp
    then show ?thesis by (simp add: add.assoc)
  qed
  have put: "field_writes w m (m1(w + 4 + of_nat i := v))" if "field_writes w m m1" "i < 32" for m1 i v
  proof -
    have "x \<noteq> w + 4 + of_nat i" if "unat x < unat w \<or> unat w + 76 \<le> unat x" for x
      using that cell [OF \<open>i < 32\<close>] \<open>i < 32\<close> by auto
    then show ?thesis using that(1) unfolding field_writes_def unchanged_outside_def by simp
  qed
  have fold: "(\<And>i. i \<in> set ks \<Longrightarrow> i < 32) \<Longrightarrow> field_writes w m m1 \<Longrightarrow>
      field_writes w m (fold (\<lambda>i m. m(w + 4 + of_nat i := f i)) ks m1)" for f ks m1
    by (induction ks arbitrary: m1) (simp_all add: put)
  show "field_writes w m (put_title (w + 4) title m')" if "field_writes w m m'"
  proof -
    have last: "field_writes w m (m1(w + 4 + 31 := 0))" if "field_writes w m m1" for m1
      using put [OF that, of 31 0] by (simp only: of_nat_numeral)
    show ?thesis unfolding put_title_def Let_def by (rule last, rule fold [OF _ that]) simp
  qed
  show "put_title (w + 4) title m' (w + 35) = 0" by (simp add: put_title_def Let_def add.assoc)
qed

lemma init_window_writes:
  assumes w: "unat w + 76 \<le> 4294967296"
  shows "field_writes w m (init_window w title x y width height st m)" and "init_window w title x y width height st m (w + 35) = 0"
proof -
  note s = store_field [OF w, of 0, simplified] store_field [OF w, of 36, simplified] store_field [OF w, of 40, simplified]
    store_field [OF w, of 44, simplified] store_field [OF w, of 48, simplified] store_field [OF w, of 52, simplified]
    store_field [OF w, of 68, simplified] store_field [OF w, of 72, simplified] store_field [OF w, of 64, simplified]
    store_field [OF w, of 60, simplified]
  have refl: "field_writes w m m" by (simp add: field_writes_def)
  show "field_writes w m (init_window w title x y width height st m)"
    unfolding init_window_def Let_def by (intro s put_title_writes [OF w] refl)
  show "init_window w title x y width height st m (w + 35) = 0"
    unfolding init_window_def Let_def by (simp add: s put_title_writes [OF w])
qed

lemma gui_create_cases:
  assumes inv: "gui_inv L st"
  obtains "gui_create_window title x y width height st = Some (0, st)" and "\<not> room_for_window st"
  | w n st' where "room_for_window st" and "gui_create_window title x y width height st = Some (w, st')" and "w \<noteq> 0" and "w \<notin> set (open_windows st)"
      and "open_windows st' = open_windows st @ [w]" and "active_window st' = w" and "gui_inv (L(w \<mapsto> n)) st'"
      and "76 \<le> n" and "same_loop st st'"
proof (cases "MAX_WINDOWS \<le> window_count st")
  case True
  then have "16 \<le> length (open_windows st)" using inv by (simp add: open_windows_def gui_inv_def MAX_WINDOWS_def)
  then show ?thesis using that(1) True by (simp add: gui_create_window_def room_for_window_def)
next
  case False
  have live: "libc_live (gui_libc st) L" and off: "heap_off_screen st" and len: "length (windows st) = MAX_WINDOWS"
    and sl: "slots (window_count st) (windows st)" and dist: "distinct (open_windows st)"
    and wins: "\<forall>w \<in> set (open_windows st). window_ok L (gui_mem st) w" using inv by (simp_all add: gui_inv_def)
  have served: "libc_served 76 (gui_libc st)" by (simp add: libc_served_def)
  from live served show ?thesis
  proof (cases rule: malloc_either)
    case 1
    then show ?thesis using that(1) False by (simp add: gui_create_window_def room_for_window_def)
  next
    case (2 w l n)
    define m where "m = init_window w title x y width height st (lib_mem l)"
    define st' where "st' = st\<lparr>gui_libc := l\<lparr>lib_mem := m\<rparr>, next_window_id := next_window_id st + 1,
      windows := (windows st)[window_count st := w], window_count := window_count st + 1, active_window := w\<rparr>"
    have n: "76 \<le> n" using 2(5) by simp
    have new: "(L(w \<mapsto> n)) w = Some n" by simp
    have b: "unat w + 76 \<le> 4294967296" using libc.live_bounds [OF 2(6) new] n by linarith
    have "unchanged_outside (lib_mem l) m (unat w) (unat w + 76)"
      using init_window_writes(1) [OF b] by (simp add: field_writes_def m_def)
    then have u: "unchanged_outside (lib_mem l) m (unat w) (unat w + n)" by (rule unchanged_outside_mono) (use n in simp_all)
    have create: "gui_create_window title x y width height st = Some (w, st')"
      using False 2(2,3) by (simp add: gui_create_window_def st'_def m_def)
    have lib: "gui_libc st' = l\<lparr>lib_mem := m\<rparr>" by (simp add: st'_def)
    have live': "libc_live (gui_libc st') (L(w \<mapsto> n))" unfolding lib by (rule libc_write_live [OF 2(6) new u])
    have same: "(L(w \<mapsto> n))(w := None) = L" using 2(4) by auto
    note kept = kept_trans [OF 2(7) libc.write_kept [OF 2(6) new u, unfolded same]]
    have lt: "window_count st < length (windows st)" using False len by simp
    have open': "open_windows st' = open_windows st @ [w]"
      using slots_append(2) [OF sl lt, of w] by (simp add: open_windows_def st'_def)
    have fresh: "w \<notin> set (open_windows st)" using wins 2(4) by (auto simp: window_ok_def)
    have ok: "window_ok (L(w \<mapsto> n)) m v" if v: "window_ok L (gui_mem st) v" for v
    proof -
      obtain k where k: "L v = Some k" "76 \<le> k" using v by (auto simp: window_ok_def)
      have "35 < k" using k(2) by simp
      then have "m (v + of_nat 35) = gui_mem st (v + of_nat 35)" using kept k(1) unfolding kept_def by blast
      then show ?thesis using v 2(4) k by (auto simp: window_ok_def)
    qed
    moreover have "window_ok (L(w \<mapsto> n)) m w"
      using 2(3) n init_window_writes(2) [OF b] by (auto simp: window_ok_def m_def)
    ultimately have "\<forall>v \<in> set (open_windows st'). window_ok (L(w \<mapsto> n)) (gui_mem st') v"
      using wins unfolding open' by (auto simp: st'_def)
    moreover have "heap_off_screen st'" using off 2(8) by (simp add: heap_off_screen_def st'_def)
    moreover have "slots (window_count st') (windows st')" using slots_append(1) [OF sl lt, of w] by (simp add: st'_def)
    ultimately have "gui_inv (L(w \<mapsto> n)) st'"
      using live' dist fresh len unfolding gui_inv_def open' by (auto simp: st'_def)
    moreover have "room_for_window st" using False 2(1) by (simp add: room_for_window_def open_windows_def MAX_WINDOWS_def)
    moreover have "active_window st' = w" "same_loop st st'" by (simp_all add: st'_def same_loop_def)
    ultimately show ?thesis using that(2) [OF _ create 2(3) fresh open'] n by blast
  qed
qed

section \<open>Destroying\<close>

lemma gui_destroy_open:
  assumes inv: "gui_inv L st" and w: "w \<in> set (open_windows st)" and content: "win_content w st = 0"
  obtains st' where "gui_destroy_window w st = Some st'" and "open_windows st' = remove1 w (open_windows st)"
    and "gui_inv (L(w := None)) st'" and "same_loop st st'" and "active_window st' =
      (if active_window st = w then if open_windows st' = [] then 0 else last (open_windows st') else active_window st)"
proof -
  define n where "n = window_count st"
  have live: "libc_live (gui_libc st) L" and off: "heap_off_screen st" and len: "length (windows st) = MAX_WINDOWS"
    and sl: "slots n (windows st)" and dist: "distinct (open_windows st)"
    and wins: "\<forall>w \<in> set (open_windows st). window_ok L (gui_mem st) w" and act0: "active_window st \<in> (if n = 0 then {0} else set (open_windows st))"
    using inv by (simp_all add: gui_inv_def n_def)
  have "n \<noteq> 0"
  proof
    assume "n = 0"
    then have "window_count st = 0" by (simp add: n_def)
    then show False using w by (simp add: open_windows_def)
  qed
  then have act: "active_window st \<in> set (open_windows st)" using act0 by simp
  have n: "n \<le> length (windows st)" using sl by (simp add: slots_def)
  obtain i where i: "find (\<lambda>i. windows st ! i = w) [0..<n] = Some i"
    using w slots_absent [OF _ n, of w] by (cases "find (\<lambda>i. windows st ! i = w) [0..<n]") (auto simp: open_windows_def n_def)
  define ws where "ws = (shift_down i (n - 1 - i) (windows st))[n - 1 := 0]"
  note rm = slots_remove [OF sl i ws_def]
  define s1 where "s1 = st\<lparr>windows := ws, window_count := n - 1\<rparr>"
  define s2 where "s2 = (if active_window s1 = w then s1\<lparr>active_window := (if n - 1 > 0 then ws ! (n - 2) else 0)\<rparr> else s1)"
  have s1: "remove_window w st = s1" using i by (simp add: remove_window_def n_def [symmetric] ws_def s1_def)
  have lib: "gui_libc s2 = gui_libc st" by (simp add: s2_def s1_def)
  have open2: "open_windows s2 = remove1 w (open_windows st)"
    using rm(2) by (simp add: s2_def s1_def open_windows_def n_def [symmetric])
  obtain k where k: "L w = Some k" and w0: "w \<noteq> 0" using wins w by (auto simp: window_ok_def)
  obtain l where l: "free w (gui_libc st) = Some l" "libc_live l (L(w := None))" "kept (L(w := None)) (gui_mem st) (lib_mem l)"
    "libc_changes (gui_libc st) l"
    by (rule libc_free_live [OF live k])
  define st' where "st' = s2\<lparr>gui_libc := l\<rparr>"
  have count: "window_count s1 = n - 1" "windows s1 = ws" by (simp_all add: s1_def)
  have destroy: "gui_destroy_window w st = Some st'"
    using w0 content l(1) lib
    by (simp add: gui_destroy_window_def s1 Let_def count s2_def st'_def win_content_def)
      (simp add: s1_def win_content_def n_def numeral_2_eq_2)
  have st': "open_windows st' = remove1 w (open_windows st)" "windows st' = ws" "window_count st' = n - 1"
    using open2 by (simp_all add: st'_def open_windows_def) (simp_all add: s2_def s1_def)
  have act': "active_window st' = (if active_window st = w then if n - 1 > 0 then ws ! (n - 2) else 0 else active_window st)"
    by (simp add: st'_def s2_def s1_def)
  have set': "set (open_windows st') = set (open_windows st) - {w}" using dist by (simp add: st'(1))
  have "window_ok (L(w := None)) (lib_mem l) v" if v: "v \<in> set (open_windows st')" for v
  proof -
    obtain j where j: "L v = Some j" "76 \<le> j" "v \<noteq> w" "v \<noteq> 0" "gui_mem st (v + 35) = 0" using v wins unfolding set' by (auto simp: window_ok_def)
    have "35 < j" using j(2) by simp
    moreover have "(L(w := None)) v = Some j" using j(1,3) by simp
    ultimately have "lib_mem l (v + of_nat 35) = gui_mem st (v + of_nat 35)" using l(3) unfolding kept_def by blast
    then show ?thesis using j by (auto simp: window_ok_def)
  qed
  moreover have "active_window st' \<in> (if window_count st' = 0 then {0} else set (open_windows st'))"
  proof (cases "n - 1 = 0")
    case True
    then have "set (open_windows st') = {}" using st'(2,3) by (simp add: open_windows_def)
    then have "active_window st = w" using act unfolding set' by blast
    then show ?thesis using True unfolding act' st'(3) by simp
  next
    case False
    have "n - 2 < length (take (n - 1) ws)" "n - 2 < n - 1" using False n rm(3) by simp_all
    then have "ws ! (n - 2) \<in> set (open_windows st')"
      unfolding open_windows_def st'(2,3) by (metis nth_mem nth_take)
    moreover have "active_window st \<noteq> w \<Longrightarrow> active_window st \<in> set (open_windows st')" using act unfolding set' by blast
    ultimately show ?thesis using False unfolding act' st'(3) by simp
  qed
  moreover have "lib_heap l = lib_heap (gui_libc st)"
  proof -
    have "l = (gui_libc st)\<lparr>lib_mem := lib_mem l\<rparr>" using l(4) by (simp add: libc_changes_def)
    then show ?thesis by (metis libc.select_convs(2) libc.surjective libc.update_convs(1))
  qed
  moreover have lib': "gui_libc st' = l" by (simp add: st'_def)
  moreover have "length ws = MAX_WINDOWS" "distinct (remove1 w (open_windows st))" using rm(3) len dist by simp_all
  ultimately have "gui_inv (L(w := None)) st'"
    unfolding gui_inv_def lib' heap_off_screen_def using l(2) off [unfolded heap_off_screen_def] rm(1)
    by (simp only: st'(2,3) lib') (simp only: st'(1) simp_thms, blast)
  moreover have "same_loop st st'" by (simp add: st'_def s2_def s1_def same_loop_def)
  moreover have "active_window st' =
      (if active_window st = w then if open_windows st' = [] then 0 else last (open_windows st') else active_window st)"
  proof -
    have "open_windows st' = take (n - 1) ws" by (simp add: open_windows_def st'(2,3))
    moreover have "last (take (n - 1) ws) = ws ! (n - 2)" if "0 < n - 1"
      using that n rm(3) by (subst last_conv_nth) (auto simp: min_def numeral_2_eq_2)
    moreover have "take (n - 1) ws = [] \<longleftrightarrow> n - 1 = 0" using n rm(3) by auto
    ultimately show ?thesis using act' by simp
  qed
  ultimately show ?thesis using that destroy st'(1) by blast
qed

section \<open>Keys\<close>

lemma gui_next_key:
  assumes "\<not> keyboard_buffer_empty k"
  obtains c k' where "keyboard_getchar [] k = Some (c, [], k')" and "c = fst (keyboard_buffer_pop k)"
  using assms by (auto simp: keyboard_getchar.simps [of "[]" k] split_beta Let_def)

lemma itoa_ten: "n \<noteq> 0x80000000 \<Longrightarrow> \<exists>str. itoa n 10 = Some str"
  by (auto simp: itoa_def)

lemma counter_word:
  assumes "0 \<le> n" and "n < 107374182"
  shows "word_of_int n \<noteq> (0x80000000 :: u32)"
proof
  assume w: "word_of_int n = (0x80000000 :: u32)"
  have "uint (word_of_int n :: u32) = n mod 2 ^ 32" by (subst uint_word_of_int) simp
  also have "\<dots> = n" using assms by (intro mod_pos_pos_trivial) simp_all
  finally have "uint (0x80000000 :: u32) = n" unfolding w .
  then have "n = 2147483648" by simp
  then show False using assms(2) by linarith
qed

lemma gui_inv_cong:
  "gui_libc st' = gui_libc st \<Longrightarrow> windows st' = windows st \<Longrightarrow> window_count st' = window_count st \<Longrightarrow>
    active_window st' = active_window st \<Longrightarrow> gui_inv L st' = gui_inv L st"
  by (simp add: gui_inv_def heap_off_screen_def open_windows_def)

lemma vga_only_text_mode: "vga_only graphics_set_text_mode"
  by (simp add: vga_only_def graphics_set_text_mode_def)

section \<open>Properties\<close>

text \<open>C16: The array of windows is a list of at most sixteen different live blocks. Creating a window fails exactly
  when there are sixteen or no free block of the C library's heap has room for its 76 bytes, and then
  changes nothing; otherwise it appends a new live block of that size and makes it active. Destroying an
  open window whose content buffer is null takes it out, keeps the order of the rest and returns its
  block; if it was the active one, the last of the rest is.\<close>

theorem gui_windows_refine_list:
  assumes "gui_inv L st"
  shows "(\<exists>w st'. gui_create_window title x y width height st = Some (w, st') \<and>
      (if room_for_window st
       then w \<noteq> 0 \<and> w \<notin> set (open_windows st) \<and> open_windows st' = open_windows st @ [w] \<and> active_window st' = w \<and>
         (\<exists>n \<ge> 76. gui_inv (L(w \<mapsto> n)) st')
       else w = 0 \<and> st' = st)) \<and>
    (\<forall>w \<in> set (open_windows st). win_content w st = 0 \<longrightarrow>
      (\<exists>st'. gui_destroy_window w st = Some st' \<and> open_windows st' = remove1 w (open_windows st) \<and> gui_inv (L(w := None)) st' \<and>
        active_window st' = (if active_window st = w then if open_windows st' = [] then 0 else last (open_windows st')
          else active_window st)))"
proof
  from assms show "\<exists>w st'. gui_create_window title x y width height st = Some (w, st') \<and>
      (if room_for_window st
       then w \<noteq> 0 \<and> w \<notin> set (open_windows st) \<and> open_windows st' = open_windows st @ [w] \<and> active_window st' = w \<and>
         (\<exists>n \<ge> 76. gui_inv (L(w \<mapsto> n)) st')
       else w = 0 \<and> st' = st)"
  proof (cases rule: gui_create_cases [where title = title and x = x and y = y and width = width and height = height])
    case 1
    then show ?thesis by simp
  next
    case (2 w n st')
    then show ?thesis by auto
  qed
  show "\<forall>w \<in> set (open_windows st). win_content w st = 0 \<longrightarrow>
      (\<exists>st'. gui_destroy_window w st = Some st' \<and> open_windows st' = remove1 w (open_windows st) \<and> gui_inv (L(w := None)) st' \<and>
        active_window st' = (if active_window st = w then if open_windows st' = [] then 0 else last (open_windows st')
          else active_window st))"
    using gui_destroy_open [OF assms] by metis
qed

text \<open>Closing the active window and opening a new one, with the redrawing that follows.\<close>

lemma close_redraws:
  assumes inv: "gui_inv L s" and "active_window s \<noteq> 0" and "win_content (active_window s) s = 0"
  obtains t L' where "Option.bind (gui_destroy_window (active_window s) s) redraw = Some t" and "gui_inv L' t"
    and "open_windows t = remove1 (active_window s) (open_windows s)" and "same_loop s t"
    and "active_window t = (if open_windows t = [] then 0 else last (open_windows t))"
proof -
  have "active_window s \<in> set (open_windows s)" using inv assms(2) by (auto simp: gui_inv_def split: if_splits)
  then obtain t where t: "gui_destroy_window (active_window s) s = Some t"
    "open_windows t = remove1 (active_window s) (open_windows s)" "gui_inv (L(active_window s := None)) t" "same_loop s t"
    "active_window t = (if open_windows t = [] then 0 else last (open_windows t))"
    by (rule gui_destroy_open [OF inv _ assms(3)]) simp
  obtain t' where t': "redraw t = Some t'" "gui_drawn t t'" using redraw_drawn [OF t(3)] by blast
  then show ?thesis
    using that [of t'] gui_drawn_inv [OF t(3) t'(2)] same_loop_trans [OF t(4) gui_drawn_loop [OF t'(2)]] t(1,2,5) by simp
qed

lemma create_redraws:
  assumes inv: "gui_inv L s"
  obtains (full) "Option.bind (gui_create_window title x y 180 120 s) (\<lambda>(w, st). if w \<noteq> 0 then redraw st else Some st) = Some s"
    and "\<not> room_for_window s"
  | (new) w t L' where "Option.bind (gui_create_window title x y 180 120 s) (\<lambda>(w, st). if w \<noteq> 0 then redraw st else Some st) = Some t"
    and "room_for_window s" and "gui_inv L' t" and "w \<notin> set (open_windows s)" and "open_windows t = open_windows s @ [w]"
    and "active_window t = w" and "same_loop s t"
  using inv
proof (cases rule: gui_create_cases [where title = title and x = x and y = y and width = 180 and height = 120])
  case 1
  then show ?thesis using full by simp
next
  case (2 w n t)
  obtain t' where t': "redraw t = Some t'" "gui_drawn t t'" using redraw_drawn [OF 2(7)] by blast
  then show ?thesis
    using new [of t'] gui_drawn_inv [OF 2(7) t'(2)] same_loop_trans [OF 2(9) gui_drawn_loop [OF t'(2)]] 2(1-6) by simp
qed

text \<open>C17: What a key does. Without a key in the buffer nothing changes. Otherwise the first key is taken from the
  buffer, and the window system stays well formed: Escape ends the main loop and leaves the windows alone;
  \<open>q\<close> or \<open>Q\<close> closes the active window, and the last of the rest becomes active; \<open>n\<close> or \<open>N\<close> opens a new
  window and makes it active, if there is room for one; any other key, and \<open>n\<close> without room, leaves the
  windows and the active one alone. The content buffer of the active window is null (the code does not
  set it), and the counter that numbers the windows, from 1 on, has not come to 107374182, from where on its
  products overflow.\<close>

theorem gui_key_invariant:
  assumes "gui_inv L st" and "0 \<le> window_counter st" and "window_counter st < 107374182"
    and "active_window st \<noteq> 0 \<Longrightarrow> win_content (active_window st) st = 0"
    and "(c, k) = keyboard_buffer_pop (keypad st)"
  shows "\<exists>st' L'. gui_handle_keyboard_input st = Some st' \<and> gui_inv L' st' \<and>
    (if keyboard_buffer_empty (keypad st) then st' = st
     else keypad st' = k \<and> gui_running st' = (gui_running st \<and> c \<noteq> 27) \<and>
       (if c \<in> {113, 81}
        then open_windows st' = remove1 (active_window st) (open_windows st) \<and>
          active_window st' = (if open_windows st' = [] then 0 else last (open_windows st'))
        else if c \<in> {110, 78} \<and> room_for_window st
        then active_window st' \<notin> set (open_windows st) \<and> open_windows st' = open_windows st @ [active_window st']
        else open_windows st' = open_windows st \<and> active_window st' = active_window st))"
proof (cases "keyboard_buffer_empty (keypad st)")
  case True
  then have "gui_handle_keyboard_input st = Some st" by (simp add: gui_handle_keyboard_input_def)
  then show ?thesis using assms(1) True by auto
next
  case False
  have k: "keyboard_getchar [] (keypad st) = Some (c, [], k)"
    using False assms(5) by (simp add: keyboard_getchar.simps [of "[]" "keypad st"] split_beta Let_def) (metis fst_conv snd_conv)
  define s where "s = st\<lparr>keypad := k\<rparr>"
  have inv: "gui_inv L s" using assms(1) gui_inv_cong [of s st L] by (simp add: s_def)
  have same: "open_windows s = open_windows st" "active_window s = active_window st" "win_content w s = win_content w st"
    "keypad s = k" "gui_running s = gui_running st" "room_for_window s = room_for_window st" "window_counter s = window_counter st" for w
    by (simp_all add: s_def open_windows_def win_content_def room_for_window_def)
  consider "c = 27" | "c \<in> {113, 81}" "active_window s \<noteq> 0" | "c \<in> {113, 81}" "active_window s = 0" | "c \<in> {110, 78}"
    | "c \<notin> {27, 113, 81, 110, 78}" by auto
  then show ?thesis
  proof cases
    case 1
    define t where "t = (drawing graphics_set_text_mode s)\<lparr>gui_running := False\<rparr>"
    have d: "gui_drawn s (drawing graphics_set_text_mode s)" by (rule drawing_drawn [OF vga_only_text_mode])
    from gui_drawn_inv [OF inv d] gui_drawn_loop [OF d]
    have "gui_inv L t" "open_windows t = open_windows st" "active_window t = active_window st" "keypad t = k" "\<not> gui_running t"
      using gui_inv_cong [of t "drawing graphics_set_text_mode s" L] same by (simp_all add: t_def open_windows_def same_loop_def)
    moreover have "gui_handle_keyboard_input st = Some t"
      using False k 1 by (simp add: gui_handle_keyboard_input_def s_def t_def)
    ultimately show ?thesis using False 1 by auto
  next
    case 2
    have "win_content (active_window s) s = 0" using assms(4) 2(2) same by simp
    then obtain t L' where t: "Option.bind (gui_destroy_window (active_window s) s) redraw = Some t" "gui_inv L' t"
      "open_windows t = remove1 (active_window s) (open_windows s)" "same_loop s t"
      "active_window t = (if open_windows t = [] then 0 else last (open_windows t))" by (rule close_redraws [OF inv 2(2)])
    have "gui_handle_keyboard_input st = Some t"
      using False k 2 t(1) by (auto simp: gui_handle_keyboard_input_def Let_def s_def [symmetric])
    moreover have "c \<noteq> 27" using 2(1) by auto
    ultimately show ?thesis using t(2-5) same 2(1) False by (intro exI [of _ t] exI [of _ L']) (simp add: same_loop_def)
  next
    case 3
    have "open_windows st = []"
    proof (cases "window_count st = 0")
      case False
      then show ?thesis using 3(2) same assms(1) by (auto simp: gui_inv_def window_ok_def)
    qed (simp add: open_windows_def)
    moreover have "gui_handle_keyboard_input st = Some s" using False k 3 by (auto simp: gui_handle_keyboard_input_def Let_def s_def [symmetric])
    moreover have "c \<noteq> 27" using 3(1) by auto
    ultimately show ?thesis using inv same 3 False by (intro exI [of _ s] exI [of _ L]) simp
  next
    case 4
    have c: "c \<noteq> 27" "c \<notin> {113, 81}" using 4 by auto
    obtain number where number: "itoa (word_of_int (window_counter st)) 10 = Some number"
      using itoa_ten [OF counter_word [OF assms(2,3)]] by blast
    define s1 where "s1 = s\<lparr>window_counter := window_counter s + 1\<rparr>"
    have inv1: "gui_inv L s1" using inv gui_inv_cong [of s1 s L] by (simp add: s1_def)
    have same1: "open_windows s1 = open_windows st" "active_window s1 = active_window st" "room_for_window s1 = room_for_window st"
      "keypad s1 = k" "gui_running s1 = gui_running st"
      using same by (simp_all add: s1_def open_windows_def room_for_window_def)
    define x where "x = 30 + (window_counter s1 * 20) mod 100"
    define y where "y = 40 + (window_counter s1 * 15) mod 80"
    have handle: "gui_handle_keyboard_input st = Option.bind (gui_create_window (bytes_of ''Window '' @ number) x y 180 120 s1)
        (\<lambda>(new_window, st). if new_window \<noteq> 0 then redraw st else Some st)"
      using False k 4 number
      by (auto simp: gui_handle_keyboard_input_def Let_def s_def [symmetric] s1_def [symmetric] x_def y_def)
        (simp_all add: s_def)
    from inv1 show ?thesis
    proof (cases rule: create_redraws [where title = "bytes_of ''Window '' @ number" and x = x and y = y])
      case full
      then show ?thesis using handle inv1 same1 c False by (intro exI [of _ s1] exI [of _ L]) simp
    next
      case (new w t L')
      then show ?thesis using handle same1 c 4 False by (intro exI [of _ t] exI [of _ L']) (simp add: same_loop_def)
    qed
  next
    case 5
    then have "gui_handle_keyboard_input st = Some s" using False k by (simp add: gui_handle_keyboard_input_def Let_def s_def)
    then show ?thesis using inv same 5 False by (intro exI [of _ s] exI [of _ L]) simp
  qed
qed

section \<open>An example\<close>

definition ex_gui :: gui where
  "ex_gui = \<lparr>gui_libc = initialize_heap libc_fresh,
     display = \<lparr>inputs = (\<lambda>_ _. 0), outputs = [], gmem = (\<lambda>_. 0), framebuffer = VGA_MEMORY, current_mode = 13,
       foreground_color = 15, background_color = 0\<rparr>,
     keypad = keyboard_reset\<lparr>buffer := (replicate 256 0)[0 := 110], buffer_head := 1\<rparr>,
     windows = replicate 16 0, active_window = 0, window_count = 0, next_window_id = 1, desktop_initialized = True,
     mouse_pos = (160, 100), mouse_buttons = 0, gui_running = True, window_counter = 1, running_process = 0\<rparr>"

lemma ex_gui_inv: "gui_inv Map.empty ex_gui"
proof -
  have "lib_heap (initialize_heap libc_fresh) = 0x200000" by (simp add: initialize_heap_def libc_fresh_def Let_def)
  then show ?thesis
    using libc_fresh_live by (simp add: gui_inv_def ex_gui_def heap_off_screen_def open_windows_def slots_def MAX_WINDOWS_def)
qed

lemma ex_gui_room: "room_for_window ex_gui"
proof -
  have "libc_rep (gui_libc ex_gui) [(0x100000 - 12, True)]" using libc_fresh_rep by (simp add: ex_gui_def)
  moreover have "first_fit (unat (malloc_size 76)) [(0x100000 - 12, True)] \<noteq> None" by (simp add: malloc_size_def)
  ultimately show ?thesis unfolding room_for_window_def libc_room_def by (auto simp: open_windows_def ex_gui_def)
qed

lemma gui_windows_refine_list_witness:
  "\<exists>w st'. gui_create_window [65] 10 20 100 80 ex_gui = Some (w, st') \<and> open_windows st' = [w] \<and> active_window st' = w"
  using gui_windows_refine_list [OF ex_gui_inv, of "[65]" 10 20 100 80] ex_gui_room
  by (auto simp: ex_gui_def open_windows_def)

lemma gui_key_invariant_witness:
  "\<exists>st' L. gui_handle_keyboard_input ex_gui = Some st' \<and> gui_inv L st' \<and> open_windows st' = [active_window st']"
proof -
  obtain c k where pop: "(c, k) = keyboard_buffer_pop (keypad ex_gui)" by (metis prod.collapse)
  have "c = 110" "\<not> keyboard_buffer_empty (keypad ex_gui)" "open_windows ex_gui = []"
    using pop by (simp_all add: ex_gui_def keyboard_reset_def keyboard_buffer_pop_def keyboard_buffer_empty_def open_windows_def)
  moreover have "0 \<le> window_counter ex_gui" "window_counter ex_gui < 107374182" "active_window ex_gui = 0" by (simp_all add: ex_gui_def)
  ultimately show ?thesis using gui_key_invariant [OF ex_gui_inv _ _ _ pop] ex_gui_room by auto
qed

text \<open>The content buffer is never set: it is what the memory of the block held before, and destroying the window
  would release that.\<close>

lemma gui_content_uninitialised:
  "win_content 0x20000C (snd (the (gui_create_window [65] 10 20 100 80
     (ex_gui\<lparr>gui_libc := initialize_heap (libc_fresh\<lparr>lib_mem := (\<lambda>_. 0x11)\<rparr>)\<rparr>)))) = 0x11111111"
  by code_simp

end
