(* ===== verification/Stdio.thy ===== *)
theory Stdio
  imports CStdlib
begin

text \<open>
  Formatted output of the C library (\<open>libc/stdio.c\<close>). The library leaves the output of a character to the
  system: \<open>put\<close> is that function (the kernel's is \<open>terminal_putchar\<close>), on a state of its own, and may fail to
  return. The arguments of \<open>printf\<close> are the list of the 32-bit words on the stack; \<open>string\<close> reads the C string at
  an address. A format ends with its list; one that ends in a percent sign makes the code read on behind
  the NUL, and has no result here.
\<close>

type_synonym 's sink = "u8 \<Rightarrow> 's \<Rightarrow> 's option"

section \<open>Characters and strings\<close>

definition putchar :: "'s sink \<Rightarrow> u32 \<Rightarrow> 's \<Rightarrow> (u32 \<times> 's) option" where
  "putchar put c st = map_option (\<lambda>st. (c, st)) (put (ucast c) st)"

text \<open>Input is the keyboard's, with the interrupts still to come; \<open>char\<close> is signed.\<close>

definition getchar :: "registers list \<Rightarrow> 'a keyboard_scheme \<Rightarrow> (int \<times> registers list \<times> 'a keyboard_scheme) option" where
  "getchar irqs st = map_option (\<lambda>(c, irqs, st). (sint c, irqs, st)) (keyboard_getchar irqs st)"

text \<open>The loop that puts the characters of a string, and counts them.\<close>

fun put_chars :: "'s sink \<Rightarrow> u8 list \<Rightarrow> int \<Rightarrow> 's \<Rightarrow> (int \<times> 's) option" where
  "put_chars put [] count st = Some (count, st)"
| "put_chars put (c # cs) count st = Option.bind (put c st) (put_chars put cs (count + 1))"

definition puts :: "'s sink \<Rightarrow> u8 list \<Rightarrow> 's \<Rightarrow> (int \<times> 's) option" where
  "puts put s st = Option.bind (put_chars put s 0 st) (\<lambda>(count, st). map_option (\<lambda>st. (count + 1, st)) (put 10 st))"

section \<open>Numbers\<close>

text \<open>The digits in \<open>buffer\<close>, lowest first.\<close>

function digit_loop :: "nat \<Rightarrow> nat \<Rightarrow> u8 list" where
  "digit_loop radix v = (if v = 0 \<or> radix < 2 then [] else (hex_digits ! (v mod radix)) # digit_loop radix (v div radix))"
  by pat_completeness auto
termination by (relation "measure snd") (auto intro: div_less_dividend)

declare digit_loop.simps [simp del]

definition print_int :: "'s sink \<Rightarrow> u32 \<Rightarrow> nat \<Rightarrow> 's \<Rightarrow> (int \<times> 's) option" where
  "print_int put v radix st =
     (if v = 0 then map_option (\<lambda>st. (1, st)) (put 48 st)
      else let neg = (sint v < 0 \<and> radix = 10); abs_value = (if neg then - v else v);
               digits = digit_loop radix (unat abs_value)
           in if neg then Option.bind (put 45 st) (put_chars put (rev digits) 1) else put_chars put (rev digits) 0 st)"

section \<open>Formats\<close>

fun vprintf :: "'s sink \<Rightarrow> (u32 \<Rightarrow> u8 list option) \<Rightarrow> u8 list \<Rightarrow> u32 list \<Rightarrow> int \<Rightarrow> 's \<Rightarrow> (int \<times> 's) option" where
  "vprintf put string [] args printed st = Some (printed, st)"
| "vprintf put string (c # format) args printed st =
     (if c \<noteq> 37 then Option.bind (put c st) (vprintf put string format args (printed + 1))
      else case format of
        [] \<Rightarrow> None
      | c # format \<Rightarrow>
          if c = 99 then (case args of [] \<Rightarrow> None
            | a # args \<Rightarrow> Option.bind (put (ucast a) st) (vprintf put string format args (printed + 1)))
          else if c = 115 then (case args of [] \<Rightarrow> None
            | a # args \<Rightarrow> Option.bind (if a = 0 then Some (bytes_of ''(null)'') else string a) (\<lambda>s.
                Option.bind (put_chars put s printed st) (\<lambda>(printed, st). vprintf put string format args printed st)))
          else if c = 100 \<or> c = 105 then (case args of [] \<Rightarrow> None
            | a # args \<Rightarrow> Option.bind (print_int put a 10 st) (\<lambda>(n, st). vprintf put string format args (printed + n) st))
          else if c = 120 then (case args of [] \<Rightarrow> None
            | a # args \<Rightarrow> Option.bind (print_int put a 16 st) (\<lambda>(n, st). vprintf put string format args (printed + n) st))
          else if c = 37 then Option.bind (put 37 st) (vprintf put string format args (printed + 1))
          else Option.bind (put 37 st) (\<lambda>st. Option.bind (put c st) (vprintf put string format args (printed + 2))))"

definition printf :: "'s sink \<Rightarrow> (u32 \<Rightarrow> u8 list option) \<Rightarrow> u8 list \<Rightarrow> u32 list \<Rightarrow> 's \<Rightarrow> (int \<times> 's) option" where
  "printf put string format args st = vprintf put string format args 0 st"

text \<open>Formatted output to a buffer is a stub: nothing is written.\<close>

definition vsnprintf :: "u32 \<Rightarrow> u32 \<Rightarrow> u8 list \<Rightarrow> u32 list \<Rightarrow> mem \<Rightarrow> int \<times> mem" where
  "vsnprintf str n format args m = (0, m)"

definition snprintf :: "u32 \<Rightarrow> u32 \<Rightarrow> u8 list \<Rightarrow> u32 list \<Rightarrow> mem \<Rightarrow> int \<times> mem" where
  "snprintf str n format args m = vsnprintf str n format args m"

definition vsprintf :: "u32 \<Rightarrow> u8 list \<Rightarrow> u32 list \<Rightarrow> mem \<Rightarrow> int \<times> mem" where
  "vsprintf str format args m = (0, m)"

definition sprintf :: "u32 \<Rightarrow> u8 list \<Rightarrow> u32 list \<Rightarrow> mem \<Rightarrow> int \<times> mem" where
  "sprintf str format args m = vsprintf str format args m"

section \<open>What is printed\<close>

text \<open>The text of a format, built as a list of pieces; decimal numbers as \<open>itoa\<close> writes them.\<close>

definition decimal :: "u32 \<Rightarrow> u8 list" where
  "decimal v = (case itoa v 10 of Some s \<Rightarrow> s | None \<Rightarrow> bytes_of ''-2147483648'')"

definition conversion :: "(u32 \<Rightarrow> u8 list option) \<Rightarrow> u8 \<Rightarrow> u32 list \<Rightarrow> (u8 list \<times> u32 list) option" where
  "conversion string d args =
     (if d = 37 then Some ([37], args)
      else if d \<notin> {99, 115, 100, 105, 120} then Some ([37, d], args)
      else case args of [] \<Rightarrow> None
        | a # args \<Rightarrow> map_option (\<lambda>piece. (piece, args))
            (if d = 99 then Some [ucast a]
             else if d = 115 then (if a = 0 then Some (bytes_of ''(null)'') else string a)
             else if d = 120 then Some (rev (itoa_loop 16 (unat a))) else Some (decimal a)))"

fun render :: "(u32 \<Rightarrow> u8 list option) \<Rightarrow> u8 list \<Rightarrow> u32 list \<Rightarrow> u8 list option" where
  "render string [] args = Some []"
| "render string [c] args = (if c = 37 then None else Some [c])"
| "render string (c # d # format) args =
     (if c \<noteq> 37 then map_option ((#) c) (render string (d # format) args)
      else Option.bind (conversion string d args) (\<lambda>(piece, args). map_option ((@) piece) (render string format args)))"

definition put_all :: "'s sink \<Rightarrow> u8 list \<Rightarrow> 's \<Rightarrow> 's option" where
  "put_all put s st = map_option snd (put_chars put s 0 st)"

lemma put_all_simps [simp]:
  "put_all put [] st = Some st" "put_all put (c # cs) st = Option.bind (put c st) (put_all put cs)"
proof -
  have count: "map_option snd (put_chars put cs n st) = map_option snd (put_chars put cs m st)" for cs n m st
  proof (induction cs arbitrary: n m st)
    case (Cons c cs)
    then show ?case by (cases "put c st") simp_all
  qed simp
  show "put_all put [] st = Some st" by (simp add: put_all_def)
  show "put_all put (c # cs) st = Option.bind (put c st) (put_all put cs)"
    by (cases "put c st") (simp_all add: put_all_def count [of cs 1 _ 0])
qed

lemma put_all_append: "put_all put (xs @ ys) st = Option.bind (put_all put xs st) (put_all put ys)"
  by (induction xs arbitrary: st) (auto split: Option.bind_splits)

lemma put_chars_eq: "put_chars put s n st = map_option (\<lambda>st. (n + int (length s), st)) (put_all put s st)"
proof (induction s arbitrary: n st)
  case (Cons c cs)
  then show ?case by (cases "put c st") (simp_all add: algebra_simps)
qed simp

lemma digit_loop_itoa:
  assumes "0 < v" and "2 \<le> radix"
  shows "digit_loop radix v = itoa_loop radix v"
  using assms
proof (induction radix v rule: digit_loop.induct)
  case (1 radix v)
  have "v div radix = 0 \<Longrightarrow> digit_loop radix (v div radix) = []" by (simp add: digit_loop.simps)
  then show ?case using 1 by (subst digit_loop.simps, subst itoa_loop.simps) auto
qed

lemma itoa_loop_zero: "2 \<le> radix \<Longrightarrow> itoa_loop radix 0 = [48]"
  by (simp add: itoa_loop.simps hex_digits_def bytes_of_def)

lemma print_int_eq:
  "print_int put v 10 st = map_option (\<lambda>st. (int (length (decimal v)), st)) (put_all put (decimal v) st)"
  "print_int put v 16 st =
     map_option (\<lambda>st. (int (length (itoa_loop 16 (unat v))), st)) (put_all put (rev (itoa_loop 16 (unat v))) st)"
proof -
  have dec: "decimal v = (if sint v < 0 then 45 # rev (itoa_loop 10 (unat (- v))) else rev (itoa_loop 10 (unat v)))"
  proof (cases "v = 0x80000000")
    case True
    have "itoa v 10 = None" by (simp add: itoa_def True)
    moreover have "sint v < 0" by (simp add: True)
    moreover have "bytes_of ''-2147483648'' = 45 # rev (itoa_loop 10 2147483648)"
      by (simp add: itoa_loop.simps hex_digits_def bytes_of_def)
    ultimately show ?thesis by (simp add: decimal_def True)
  next
    case False
    then show ?thesis by (simp add: decimal_def itoa_def)
  qed
  have nz: "v \<noteq> 0 \<Longrightarrow> 0 < unat v" "v \<noteq> 0 \<Longrightarrow> 0 < unat (- v)" by (simp_all add: unat_gt_0)
  show "print_int put v 10 st = map_option (\<lambda>st. (int (length (decimal v)), st)) (put_all put (decimal v) st)"
  proof (cases "v = 0")
    case True
    then show ?thesis unfolding dec by (cases "put 48 st") (simp_all add: print_int_def itoa_loop_zero)
  next
    case False
    then show ?thesis using nz unfolding dec
      by (cases "put 45 st") (simp_all add: print_int_def Let_def put_chars_eq digit_loop_itoa algebra_simps)
  qed
  show "print_int put v 16 st =
     map_option (\<lambda>st. (int (length (itoa_loop 16 (unat v))), st)) (put_all put (rev (itoa_loop 16 (unat v))) st)"
  proof (cases "v = 0")
    case True
    then show ?thesis by (cases "put 48 st") (simp_all add: print_int_def itoa_loop_zero)
  next
    case False
    then show ?thesis using nz by (simp add: print_int_def Let_def put_chars_eq digit_loop_itoa)
  qed
qed

lemma vprintf_plain: "c \<noteq> 37 \<Longrightarrow> vprintf put string (c # format) args n st = Option.bind (put c st) (vprintf put string format args (n + 1))"
  by simp

lemma vprintf_conversion:
  assumes "conversion string d args = Some (p, args')"
  shows "vprintf put string (37 # d # format) args n st =
    Option.bind (put_all put p st) (vprintf put string format args' (n + int (length p)))"
proof -
  consider "d = 37" | "d \<notin> {37, 99, 115, 100, 105, 120}" | a where "args = a # args'" "d \<in> {99, 115, 100, 105, 120}"
    using assms by (auto simp: conversion_def split: if_splits list.splits)
  then show ?thesis
  proof cases
    case 1
    then have "p = [37]" "args' = args" using assms by (simp_all add: conversion_def)
    then show ?thesis using 1 by (cases "put 37 st") simp_all
  next
    case 2
    then have "p = [37, d]" "args' = args" using assms by (simp_all add: conversion_def)
    then show ?thesis using 2 by (auto split: Option.bind_splits)
  next
    case (3 a)
    consider "d = 99" "p = [ucast a]" | "d = 115" "(if a = 0 then Some (bytes_of ''(null)'') else string a) = Some p"
      | "d = 120" "p = rev (itoa_loop 16 (unat a))" | "d \<in> {100, 105}" "p = decimal a"
      using assms 3 by (auto simp: conversion_def split: if_splits)
    then show ?thesis
    proof cases
      case 1
      then show ?thesis using 3 by (cases "put (ucast a) st") simp_all
    next
      case 2
      then show ?thesis using 3 by (cases "put_all put p st") (simp_all add: put_chars_eq)
    next
      case c3: 3
      then show ?thesis using 3 by (cases "put_all put p st") (simp_all add: print_int_eq)
    next
      case 4
      then show ?thesis using 3 by (cases "put_all put p st") (auto simp: print_int_eq)
    qed
  qed
qed

text \<open>C32: \<open>printf\<close> puts the text of its format, with the arguments in place and decimal numbers as \<open>itoa\<close> writes them,
  and returns its length; the output function is called for these characters and no others, in order.\<close>

theorem printf_renders:
  assumes "render string format args = Some out"
  shows "printf put string format args st = map_option (\<lambda>st. (int (length out), st)) (put_all put out st)"
proof -
  have "render string format args = Some out \<Longrightarrow>
      vprintf put string format args n st = map_option (\<lambda>st. (n + int (length out), st)) (put_all put out st)" for n
  proof (induction string format args arbitrary: n st out rule: render.induct)
    case (2 string c args)
    then show ?case by (cases "put c st") (auto split: if_splits)
  next
    case (3 string c d format args)
    show ?case
    proof (cases "c = 37")
      case False
      then obtain out' where o: "render string (d # format) args = Some out'" "out = c # out'" using "3.prems" by auto
      have n: "n + 1 + int (length out') = n + int (length (c # out'))" by simp
      show ?thesis
        unfolding vprintf_plain [OF False] o(2) put_all_simps
        by (cases "put c st") (simp_all only: "3.IH"(1) [OF False o(1)] Option.bind.simps option.map n)
    next
      case True
      obtain p args' out' where p: "conversion string d args = Some (p, args')" "render string format args' = Some out'" "out = p @ out'"
        using "3.prems" True by (auto split: Option.bind_splits)
      have "\<not> c \<noteq> 37" using True by simp
      note ih = "3.IH"(2) [OF this p(1) refl p(2)]
      show ?thesis
        unfolding True vprintf_conversion [OF p(1)] p(3) put_all_append
        by (cases "put_all put p st") (simp_all add: ih add.assoc)
    qed
  qed simp
  then show ?thesis using assms by (simp add: printf_def)
qed

lemma printf_renders_witness:
  "printf (\<lambda>c out. Some (out @ [c])) (\<lambda>_. None) (bytes_of ''%d%%'') [100] [] = Some (4, bytes_of ''100%'')"
proof -
  have d: "decimal 100 = bytes_of ''100''" by (simp add: decimal_def itoa_def itoa_loop.simps hex_digits_def bytes_of_def)
  have "render (\<lambda>_. None) (bytes_of ''%d%%'') [100] = Some (bytes_of ''100%'')"
    by (simp add: bytes_of_def conversion_def d)
  from printf_renders [OF this, of "\<lambda>c out. Some (out @ [c])" "[]"] show ?thesis by (simp add: bytes_of_def)
qed

end
