(* ===== verification/Spec2Isabelle.thy ===== *)
theory Spec2Isabelle
  imports CStringProps PmmProps HeapExact TimerProps DiskProps CStdlibProps SyscallProps BootProps GuiProps Stdio
begin

section \<open>The aceOS kernel\<close>

text \<open>
  aceOS is a 32-bit kernel for a PC: a physical and a virtual memory manager, a heap, processes with a
  scheduler driven by the timer, drivers for keyboard, serial line, disk and graphics, an in-memory file
  system, system calls, and a shell on the text screen. This development models its C code under
  \<open>src/\<close> function by function and proves what makes each part correct.

  How the parts interact. \<open>kernel_main\<close> (\<open>kernel/kernel.c\<close>) sets up every component in order and then hands
  each key to the shell. Interrupts reach a component through the handlers it has registered
  (\<open>kernel/isr.c\<close>): the keyboard's fills a ring that the main loop empties, the timer's advances the clock
  and calls the scheduler, vector 128 leads to the system calls. The virtual memory manager takes page tables
  from the frame allocator, processes take page directories from both. The shell calls the file system
  directly; the file system keeps contents in blocks of the C library's allocator, whose array is static; the
  system calls use the file system and the kernel heap. All these structures lie in one physical memory, and
  much of the proof work is that none of them writes into another.
\<close>

subsection \<open>The theories and the code they model\<close>

text \<open>
  The memory and the machine.
  \<^item> \<open>Prelude\<close>, \<open>CMemory\<close>, \<open>Slots\<close>: the integer types of \<open>include/types.h\<close> as words, the memory as a function from
    32-bit addresses to bytes with little-endian loads and stores, and arrays used as lists.
  \<^item> \<open>Ports\<close>, \<open>Interrupts\<close>: \<open>include/io.h\<close>, \<open>kernel/pic.c\<close>, \<open>kernel/idt.c\<close>, \<open>kernel/isr.c\<close>. What a port will answer is a
    stream in the state, and what is written is a log.
  \<^item> \<open>CString\<close>, \<open>CStringProps\<close>: \<open>src/libc/string.c\<close>. \<open>MemUtils\<close>: \<open>kernel/memory_utils.c\<close>.

  Memory management.
  \<^item> \<open>Pmm\<close>, \<open>PmmProps\<close>: \<open>kernel/pmm.c\<close>, the bitmap of frames.
  \<^item> \<open>Heap\<close>, \<open>HeapProofs\<close>, \<open>HeapSpec\<close>, \<open>HeapLive\<close>, \<open>HeapProps\<close>, \<open>HeapExact\<close>: \<open>kernel/heap.c\<close>, the list of blocks behind
    \<open>heap_malloc\<close> and \<open>heap_free\<close>.
  \<^item> \<open>Allocator\<close>: the contract of an allocator as a locale; both heaps interpret it.
  \<^item> \<open>PageTables\<close>, \<open>Vmm\<close>, \<open>VmmProps\<close>: \<open>kernel/vmm.c\<close> and \<open>kernel/paging.asm\<close>, page tables in memory.
  \<^item> \<open>CStdlib\<close>, \<open>LibcHeap\<close>, \<open>CStdlibProps\<close>: \<open>src/libc/stdlib.c\<close> and the kernel's \<open>itoa\<close> (\<open>kernel/pmm.c\<close>).
  \<^item> \<open>Stdio\<close>: \<open>src/libc/stdio.c\<close>.

  Processes and time.
  \<^item> \<open>Process\<close>, \<open>ReadyQueue\<close>, \<open>Scheduler\<close>, \<open>SchedulerProps\<close>, \<open>ProcessProps\<close>: \<open>kernel/process.c\<close> and \<open>kernel/scheduler.c\<close>.
  \<^item> \<open>Timer\<close>, \<open>TimerProps\<close>: \<open>drivers/timer.c\<close>.

  Devices.
  \<^item> \<open>RingBuffer\<close>, \<open>Keyboard\<close>, \<open>Serial\<close>: \<open>drivers/keyboard.c\<close>, \<open>drivers/serial.c\<close>; the locale \<open>byte_queue\<close> is interpreted
    by both rings.
  \<^item> \<open>Disk\<close>, \<open>DiskProps\<close>: \<open>drivers/disk.c\<close>.
  \<^item> \<open>Terminal\<close>: the text screen of \<open>kernel/kernel.c\<close>.
  \<^item> \<open>Graphics\<close>, \<open>GraphicsProps\<close>: \<open>drivers/graphics.c\<close>. \<open>Gui\<close>, \<open>GuiProps\<close>: \<open>kernel/gui.c\<close>.

  The file system, the system calls and the shell.
  \<^item> \<open>FileSystem\<close>, \<open>FsTree\<close>: \<open>drivers/fs.c\<close>. \<open>FsLookup\<close>, \<open>FsTables\<close>, \<open>FsChanges\<close>, \<open>FsSteps\<close>, \<open>FsInv\<close>, \<open>FsOps\<close>, \<open>FsData\<close>, \<open>FsCopy\<close>,
    \<open>FsCalls\<close> and \<open>FsProps\<close> hold its invariant and its properties.
  \<^item> \<open>Syscall\<close>, \<open>SyscallInv\<close>, \<open>SyscallProps\<close>: \<open>kernel/syscall.c\<close>, \<open>kernel/syscall_wrappers.c\<close>.
  \<^item> \<open>Shell\<close>, \<open>ShellInv\<close>, \<open>ShellProps\<close>: the line editor and the commands of \<open>kernel/kernel.c\<close>.
  \<^item> \<open>Boot\<close>, \<open>BootProps\<close>: \<open>kernel_main\<close>, its initialisation and its loop.

  A C function has the name it has in the code. A structure is a record; the static variables of a file are the
  record of its component; a function takes the state and returns it changed. A loop that may not end, or
  an operation that may be stuck in one, has an option as its result, and \<open>None\<close> is that it never returns; in
  two places \<open>None\<close> is that C leaves undefined what happens: \<open>fs_mkdir\<close> writing behind its table, and a signed
  result that leaves 32 bits while a line or a circle is drawn (\<open>c_int\<close>).
\<close>

subsection \<open>What is proved\<close>

text \<open>
  \<^item> Invariants of every state that calls lead to: the frame bitmap with its counters after any sequence of calls
    (\<open>pmm_reach_invariant\<close>, over \<open>pmm_step\<close>), the block list and the live payloads of the heap
    (\<open>reachable_payloads_disjoint\<close>), page tables, the ready queue (\<open>sched_reach_invariant\<close>), the file system
    (\<open>fs_reach_invariant\<close>), the windows (\<open>gui_key_invariant\<close>), and their composition: system calls
    (\<open>syscall_run_invariant\<close>), the shell (\<open>shell_session_invariant\<close>) and the kernel from its start
    (\<open>kernel_init_invariants\<close>, \<open>kernel_session\<close>). Where the code does not check what it is given, the calls that
    break it are left out by name: an allocation without room for a header (\<open>heap_served\<close>), queueing a process
    twice, a file size that wraps around, \<open>fs_mkdir\<close> in a full table, pointers a caller does not own
    (\<open>permitted\<close>, \<open>allowed\<close>). For the rest these theorems state that every call returns, and what it leaves.
  \<^item> Abstract specifications and their refinement: allocators hand out disjoint payloads (locale \<open>allocator\<close>), rings
    are bounded queues, the scheduler is a round robin over a list, the window table is a list, the text
    screen is a paper that scrolls, the line editor edits a list, a main loop gets what is typed.
  \<^item> Equivalence with a reference: Bresenham's lines and circles with the nearest pixels, \<open>printf\<close> with a rendering of
    the format, \<open>memmove\<close> with a copy through a buffer, path splitting with \<open>tokens\<close>.
  \<^item> Functional behaviour, errors and round trips of the single operations: best fit, lowest free frame, what a
    mapping translates, what is read after a write (disk and file system), the error number of every system call
    (\<open>error_number\<close>), conversions, when a window can be opened (\<open>room_for_window\<close>).
  \<^item> Termination and its failures: which loops end (the disk's polling has a timeout, path and directory walks
    end, every call of the file system returns but \<open>fs_mkdir\<close> in a full table, a drawn line arrives), and which need
    not (the serial line, a sleep with interrupts off, the heap after an exact fit).

  The theorems also record where the code departs from what it means to do, for example
  \<open>heap_exact_fit_hangs\<close>, \<open>pmm_hands_out_heap\<close>, \<open>pmm_bitmap_freed\<close>, \<open>vmm_user_flag_lost\<close>, \<open>process_create_leaks_slot\<close>,
  \<open>process_destroy_loses_queue\<close>, \<open>fs_entries_run_out\<close>, \<open>malloc_wraps\<close>, \<open>graphics_overflows\<close> and \<open>sys_malloc_loses_block\<close>.
\<close>

subsection \<open>Bounds and fuel\<close>

text \<open>
  Words have the width of the code's types, and arithmetic on them wraps around as there. The timeouts of the
  disk driver are the code's own counter of 1000000. \<open>tree_level\<close> counts the levels that \<open>fs_tree\<close> has left; the
  code stops below depth 10, so eleven levels are all there are. Every other recursion is structural, has
  a measure, or is a partial function whose domain is the subject of a theorem. The waiting loops of the
  keyboard, the timer, the window system and the kernel take the interrupts still to come as a list.
\<close>

subsection \<open>Assumptions of the model\<close>

text \<open>
  \<^item> Addresses that the linker gives (static arrays, local buffers whose address is passed on, the interrupt
    table, the assembly stubs) are fields of the state or parameters; theorems that need them apart say so. The
    image as the \<open>Makefile\<close> links it, at 0x10000 with a static array of 1 MB, does not keep them apart from
    the video memory, so the start-up theorems (hypothesis \<open>loaded\<close>) are about a machine with another layout.
  \<^item> A string argument is the list of its bytes, without the NUL, unless its address matters: the string library,
    the command line, windows' titles and system calls read it from memory. Paths are shorter than 256 bytes
    where the code keeps them in an array of that size.
  \<^item> Tables that are only reached by index (directories, files, processes, drives, history, the window table)
    are lists beside the byte memory.
  \<^item> Variables of type \<open>int\<close> that hold small numbers (rows, columns, pixel coordinates, counts of bytes) are
    integers; results of comparisons are booleans. In lines and circles, which multiply and accumulate
    coordinates, every result is checked to fit in 32 bits.
  \<^item> The contents of uninitialised memory (local structures, the path buffer of \<open>fs_tree\<close>) and the layout of a
    structure that is copied as bytes are parameters. The body of a callback registered with the timer is one too.
  \<^item> Interrupts arrive between operations, at the points where the code waits or where a list says so: those of
    the keyboard from \<open>sti\<close> to the main loop (which commute with the steps there, \<open>boot_shell_keys\<close>), and those of
    each round of it.
\<close>

subsection \<open>Not modelled\<close>

text \<open>
  \<^item> The boot sector, the entry point and the interrupt stubs (\<open>boot/boot.asm\<close>, \<open>kernel/kernel_entry.asm\<close>,
    \<open>kernel/interrupt.asm\<close>) and \<open>kernel/enable_ints.c\<close>: machine setup below the C code.
  \<^item> The log on the serial port and the functions that only print statistics there, but for the commands and
    drivers whose purpose it is to send; empty loops that only pass time.
  \<^item> The two test processes of \<open>kernel/process.c\<close>, which print and yield forever; the floppy stubs without a body;
    the shell's commented-out graphics commands; the unused table of mode registers in \<open>drivers/graphics.c\<close>.
  \<^item> Headers that only declare what other files define.
\<close>

end
